(* ===== verification/Prelude.thy ===== *)
theory Prelude
  imports Main "HOL-Library.Word" "HOL-Library.Signed_Division"
begin

section \<open>Shared vocabulary: outcomes, commands, memory blocks, C strings and integers\<close>

text \<open>
  Every component of the proxy is modelled over the vocabulary of this theory.

  \<^item> A C function that runs over a state of type \<open>'s\<close> and returns a value of type \<open>'a\<close> is a
    command \<open>('s, 'a) cmd\<close>: a function from the state to either the reason why the call does not
    return (\<open>Inl\<close> of a \<open>stop\<close>) or the returned value and the new state.  Undefined behaviour
    of C (an access outside an object, a null or dangling pointer, a signed overflow), a failed
    \<open>assert\<close>, \<open>exit\<close>, and a semaphore wait that nobody can end are all reasons to stop.
  \<^item> An array of \<open>char\<close> is a block, a list of characters of the array's size; every access is
    checked against that size.  A NUL-terminated string that a function only reads is the list of
    its characters without the terminator.
  \<^item> An \<open>int\<close> is an integer that is checked against the 32-bit range where the code
    increments it; a \<open>size_t\<close> that can wrap is a \<open>64 word\<close>.
\<close>

named_theorems cmd_simps \<open>unfolding the combinators of commands\<close>
named_theorems blk_simps \<open>accesses to memory blocks within their bounds\<close>

subsection \<open>Reasons to stop\<close>

datatype stop =
    Overflow          \<comment> \<open>write outside an object\<close>
  | Overread          \<comment> \<open>read outside an object, or a string without terminator\<close>
  | Null_deref
  | Wild_ptr          \<comment> \<open>use of an uninitialised pointer\<close>
  | Use_after_free
  | Assert_fail
  | Int_overflow
  | Div_zero
  | Blocked           \<comment> \<open>waits for a semaphore that is 0\<close>
  | No_fuel           \<comment> \<open>walks a pointer structure for ever\<close>
  | Uncaught          \<comment> \<open>a C++ exception leaves the code\<close>
  | Exit int          \<comment> \<open>the process has exited with this code\<close>

subsection \<open>Commands\<close>

type_synonym ('s, 'a) cmd = "'s \<Rightarrow> stop + ('a \<times> 's)"

definition ret :: "'a \<Rightarrow> ('s, 'a) cmd" where
  "ret x s = Inr (x, s)"

definition halt :: "stop \<Rightarrow> ('s, 'a) cmd" where
  "halt e s = Inl e"

definition bnd :: "('s, 'a) cmd \<Rightarrow> ('a \<Rightarrow> ('s, 'b) cmd) \<Rightarrow> ('s, 'b) cmd" where
  "bnd m f s = (case m s of Inl e \<Rightarrow> Inl e | Inr (x, s') \<Rightarrow> f x s')"

definition gets :: "('s \<Rightarrow> 'a) \<Rightarrow> ('s, 'a) cmd" where
  "gets f s = Inr (f s, s)"

definition modify :: "('s \<Rightarrow> 's) \<Rightarrow> ('s, unit) cmd" where
  "modify f s = Inr ((), f s)"

definition lift_res :: "stop + 'a \<Rightarrow> ('s, 'a) cmd" where
  "lift_res r s = (case r of Inl e \<Rightarrow> Inl e | Inr x \<Rightarrow> Inr (x, s))"

text \<open>\<open>zoom\<close> runs a command of one component on its part of a larger state.\<close>

definition zoom :: "('t \<Rightarrow> 's) \<Rightarrow> ('s \<Rightarrow> 't \<Rightarrow> 't) \<Rightarrow> ('s, 'a) cmd \<Rightarrow> ('t, 'a) cmd" where
  "zoom get put m t = (case m (get t) of Inl e \<Rightarrow> Inl e | Inr (x, s') \<Rightarrow> Inr (x, put s' t))"

lemmas [cmd_simps] = ret_def halt_def gets_def modify_def

lemma bnd_Inr [simp]: "m s = Inr (x, s') \<Longrightarrow> bnd m f s = f x s'"
  by (simp add: bnd_def)

lemma bnd_Inl [simp]: "m s = Inl e \<Longrightarrow> bnd m f s = Inl e"
  by (simp add: bnd_def)

lemma bnd_ret: "bnd (ret x) f s = f x s"
  by (simp add: ret_def)

lemma bnd_halt: "bnd (halt e) f s = Inl e"
  by (simp add: halt_def)

lemma bnd_gets: "bnd (gets g) f s = f (g s) s"
  by (simp add: gets_def)

lemma bnd_modify: "bnd (modify h) f s = f () (h s)"
  by (simp add: modify_def)

lemmas bnd_basic [cmd_simps] = bnd_ret bnd_halt bnd_gets bnd_modify

lemma bnd_lift_res [cmd_simps]:
  "bnd (lift_res (Inr x)) f s = f x s"
  "bnd (lift_res (Inl e)) f s = Inl e"
  by (simp_all add: bnd_def lift_res_def)

lemma lift_res_simps [cmd_simps]:
  "lift_res (Inr x) s = Inr (x, s)"
  "lift_res (Inl e) s = Inl e"
  by (simp_all add: lift_res_def)

lemma bnd_if [cmd_simps]:
  "bnd (if b then m else m') f s = (if b then bnd m f s else bnd m' f s)"
  by simp

lemma bnd_assoc [cmd_simps]: "bnd (bnd m f) g s = bnd m (\<lambda>x. bnd (f x) g) s"
  by (simp add: bnd_def split: sum.split prod.split)

lemma bnd_eq_Inr_iff:
  "bnd m f s = Inr r \<longleftrightarrow> (\<exists>x s'. m s = Inr (x, s') \<and> f x s' = Inr r)"
  by (auto simp: bnd_def split: sum.split)

lemma bnd_cong [fundef_cong]:
  assumes "s = s'" "m s' = m' s'" "\<And>x t. m' s' = Inr (x, t) \<Longrightarrow> f x t = f' x t"
  shows "bnd m f s = bnd m' f' s'"
  using assms by (auto simp: bnd_def split: sum.split)

lemma zoom_Inr [simp]: "m (get t) = Inr (x, s') \<Longrightarrow> zoom get put m t = Inr (x, put s' t)"
  by (simp add: zoom_def)

lemma zoom_Inl [simp]: "m (get t) = Inl e \<Longrightarrow> zoom get put m t = Inl e"
  by (simp add: zoom_def)

subsection \<open>Signed 32-bit integers\<close>

definition INT_MAX :: int where
  "INT_MAX = 2147483647"

definition c_inc :: "int \<Rightarrow> stop + int" where
  "c_inc i = (if i < INT_MAX then Inr (i + 1) else Inl Int_overflow)"

definition c_dec :: "int \<Rightarrow> stop + int" where
  "c_dec i = (if - INT_MAX - 1 < i then Inr (i - 1) else Inl Int_overflow)"

text \<open>The remainder of C truncates towards zero.\<close>

definition c_rem :: "int \<Rightarrow> int \<Rightarrow> stop + int" where
  "c_rem a b = (if b = 0 then Inl Div_zero else Inr (a smod b))"

lemma c_inc_Inr [simp]: "i < INT_MAX \<Longrightarrow> c_inc i = Inr (i + 1)"
  by (simp add: c_inc_def)

lemma c_dec_Inr [simp]: "0 \<le> i \<Longrightarrow> c_dec i = Inr (i - 1)"
  by (simp add: c_dec_def INT_MAX_def)

lemma c_rem_nonneg [simp]: "0 \<le> a \<Longrightarrow> 0 < b \<Longrightarrow> c_rem a b = Inr (a mod b)"
  by (simp add: c_rem_def smod_int_alt_def sgn_if)

text \<open>Conversions: an \<open>int\<close> or \<open>ssize_t\<close> read as \<open>size_t\<close>, a \<open>size_t\<close> read as \<open>int\<close>.\<close>

definition SIZE_MOD :: nat where
  "SIZE_MOD = 18446744073709551616"

definition to_size :: "int \<Rightarrow> nat" where
  "to_size i = nat (i mod int SIZE_MOD)"

definition to_int :: "nat \<Rightarrow> int" where
  "to_int n = (int n + 2147483648) mod 4294967296 - 2147483648"

lemma to_size_nonneg [simp]: "n < SIZE_MOD \<Longrightarrow> to_size (int n) = n"
  by (simp add: to_size_def)

lemma to_size_minus_1: "to_size (- 1) = SIZE_MOD - 1"
  by (simp add: to_size_def SIZE_MOD_def)

lemma to_int_small [simp]: "n \<le> 2147483647 \<Longrightarrow> to_int n = int n"
  by (simp add: to_int_def)

subsection \<open>Memory blocks\<close>

type_synonym block = "char list"

abbreviation NUL :: char where "NUL \<equiv> CHR 0x00"
abbreviation LF :: char where "LF \<equiv> CHR 0x0A"
abbreviation CR :: char where "CR \<equiv> CHR 0x0D"

definition blk_write :: "block \<Rightarrow> nat \<Rightarrow> char list \<Rightarrow> stop + block" where
  "blk_write blk off bs =
     (if off + length bs \<le> length blk
      then Inr (take off blk @ bs @ drop (off + length bs) blk) else Inl Overflow)"

definition blk_read :: "block \<Rightarrow> nat \<Rightarrow> nat \<Rightarrow> stop + char list" where
  "blk_read blk off n =
     (if off + n \<le> length blk then Inr (take n (drop off blk)) else Inl Overread)"

lemma blk_write_Inr [blk_simps]:
  "off + length bs \<le> length blk \<Longrightarrow>
     blk_write blk off bs = Inr (take off blk @ bs @ drop (off + length bs) blk)"
  by (simp add: blk_write_def)

lemma blk_write_Inl [blk_simps]:
  "length blk < off + length bs \<Longrightarrow> blk_write blk off bs = Inl Overflow"
  by (simp add: blk_write_def)

lemma blk_write_length: "blk_write blk off bs = Inr blk' \<Longrightarrow> length blk' = length blk"
  by (auto simp: blk_write_def split: if_splits)

lemma blk_read_Inr [blk_simps]:
  "off + n \<le> length blk \<Longrightarrow> blk_read blk off n = Inr (take n (drop off blk))"
  by (simp add: blk_read_def)

lemma blk_read_Inl [blk_simps]:
  "length blk < off + n \<Longrightarrow> blk_read blk off n = Inl Overread"
  by (simp add: blk_read_def)

text \<open>
  An uninitialised local array holds whatever the stack holds: \<open>junk\<close> gives these bytes for the
  array of a given name.
\<close>

type_synonym junk = "string \<Rightarrow> nat \<Rightarrow> char"

definition local_array :: "junk \<Rightarrow> string \<Rightarrow> nat \<Rightarrow> block" where
  "local_array junk name n = map (junk name) [0..<n]"

lemma length_local_array [simp]: "length (local_array junk name n) = n"
  by (simp add: local_array_def)

subsection \<open>NUL-terminated strings\<close>

definition cstr :: "block \<Rightarrow> string" where
  "cstr blk = takeWhile (\<lambda>c. c \<noteq> NUL) blk"

text \<open>Reading a block as a string, and \<open>strlen\<close>: they run off a block that holds no terminator.\<close>

definition c_str :: "block \<Rightarrow> stop + string" where
  "c_str blk = (if NUL \<in> set blk then Inr (cstr blk) else Inl Overread)"

definition c_strlen :: "block \<Rightarrow> stop + nat" where
  "c_strlen blk = (if NUL \<in> set blk then Inr (length (cstr blk)) else Inl Overread)"

lemma cstr_terminated [simp]: "NUL \<notin> set xs \<Longrightarrow> cstr (xs @ NUL # ys) = xs"
  unfolding cstr_def by (subst takeWhile_append2) auto

lemma cstr_Nil [simp]: "cstr [] = []" and cstr_NUL [simp]: "cstr (NUL # xs) = []"
  by (simp_all add: cstr_def)

lemma NUL_notin_cstr [simp]: "NUL \<notin> set (cstr blk)"
  unfolding cstr_def by (auto dest: set_takeWhileD)

lemma length_cstr_le: "length (cstr blk) \<le> length blk"
  by (simp add: cstr_def length_takeWhile_le)

lemma cstr_split: "NUL \<in> set blk \<Longrightarrow> \<exists>rest. blk = cstr blk @ NUL # rest"
  by (induction blk) (auto simp: cstr_def)

lemma length_cstr_less: "NUL \<in> set blk \<Longrightarrow> length (cstr blk) < length blk"
  by (drule cstr_split) (metis length_append length_Cons less_add_Suc1 add_Suc_right)

lemma cstr_no_NUL: "NUL \<notin> set xs \<Longrightarrow> cstr xs = xs"
  unfolding cstr_def by (subst takeWhile_eq_all_conv) auto

lemma cstr_replicate [simp]: "cstr (replicate n NUL) = []"
  by (cases n) (simp_all add: cstr_def)

lemma cstr_append_replicate [simp]: "NUL \<notin> set xs \<Longrightarrow> cstr (xs @ replicate n NUL) = xs"
  by (cases n) (simp_all add: cstr_no_NUL)

text \<open>Storing a string with its terminator, as \<open>strcpy\<close> and \<open>sprintf\<close> do.\<close>

definition blk_puts :: "block \<Rightarrow> string \<Rightarrow> stop + block" where
  "blk_puts blk s = blk_write blk 0 (s @ [NUL])"

lemma blk_puts_Inr [blk_simps]:
  "length s < length blk \<Longrightarrow> blk_puts blk s = Inr (s @ NUL # drop (Suc (length s)) blk)"
  by (simp add: blk_puts_def blk_write_def)

lemma blk_puts_Inl [blk_simps]: "length blk \<le> length s \<Longrightarrow> blk_puts blk s = Inl Overflow"
  by (simp add: blk_puts_def blk_write_def)

lemma c_str_Inr [blk_simps]: "NUL \<in> set blk \<Longrightarrow> c_str blk = Inr (cstr blk)"
  by (simp add: c_str_def)

lemma c_strlen_Inr [blk_simps]: "NUL \<in> set blk \<Longrightarrow> c_strlen blk = Inr (length (cstr blk))"
  by (simp add: c_strlen_def)

subsection \<open>Character classes and comparison of strings\<close>

text \<open>The C locale: \<open>isspace\<close>, \<open>isdigit\<close>, \<open>tolower\<close>, and \<open>strcasecmp\<close> tested against 0.\<close>

definition isspace :: "char \<Rightarrow> bool" where
  "isspace c = (let k = (of_char c :: nat) in 9 \<le> k \<and> k \<le> 13 \<or> k = 32)"

definition isdigit :: "char \<Rightarrow> bool" where
  "isdigit c = (let k = (of_char c :: nat) in 48 \<le> k \<and> k \<le> 57)"

definition to_lower :: "char \<Rightarrow> char" where
  "to_lower c = (let k = (of_char c :: nat) in if 65 \<le> k \<and> k \<le> 90 then char_of (k + 32) else c)"

definition strcasecmp0 :: "string \<Rightarrow> string \<Rightarrow> bool" where
  "strcasecmp0 a b \<longleftrightarrow> map to_lower a = map to_lower b"

lemma strcasecmp0_refl [simp]: "strcasecmp0 a a"
  by (simp add: strcasecmp0_def)

lemma strcasecmp0_length: "strcasecmp0 a b \<Longrightarrow> length a = length b"
  unfolding strcasecmp0_def by (metis length_map)

lemma not_isspace_NUL [simp]: "\<not> isspace NUL" and not_isdigit_NUL [simp]: "\<not> isdigit NUL"
  by (simp_all add: isspace_def isdigit_def)

text \<open>Decimal rendering of a non-negative \<open>int\<close> by \<open>printf\<close>'s \<open>%d\<close>.\<close>

fun dec_digits :: "nat \<Rightarrow> string" where
  "dec_digits n =
     (if n < 10 then [char_of (48 + n)] else dec_digits (n div 10) @ [char_of (48 + n mod 10)])"

declare dec_digits.simps [simp del]

lemma digit_not_NUL: "d < 10 \<Longrightarrow> (char_of (48 + d :: nat) :: char) \<noteq> NUL"
  by (auto simp: char_of_eq_iff take_bit_eq_mod)

lemma dec_digits_NUL [simp]: "NUL \<notin> set (dec_digits n)"
proof (induction n rule: dec_digits.induct)
  case (1 n)
  then show ?case using digit_not_NUL [of n] digit_not_NUL [of "n mod 10"]
    by (subst dec_digits.simps) (simp add: eq_commute [of NUL])
qed

lemma dec_digits_length: "n < 10 ^ Suc k \<Longrightarrow> length (dec_digits n) \<le> Suc k"
proof (induction k arbitrary: n)
  case 0
  then show ?case by (subst dec_digits.simps) simp
next
  case (Suc k)
  then have "n div 10 < 10 ^ Suc k" by simp
  then have "length (dec_digits (n div 10)) \<le> Suc k" by (rule Suc.IH)
  then show ?case by (subst dec_digits.simps) simp
qed

definition dec_int :: "int \<Rightarrow> string" where
  "dec_int i = (if i < 0 then CHR ''-'' # dec_digits (nat (- i)) else dec_digits (nat i))"

subsection \<open>Counting the threads at a set of program locations\<close>

definition cnt :: "('a \<Rightarrow> bool) \<Rightarrow> 'a list \<Rightarrow> int" where
  "cnt p xs = int (length (filter p xs))"

lemma cnt_simps [simp]:
  "cnt p [] = 0"
  "cnt p (x # xs) = (if p x then 1 else 0) + cnt p xs"
  by (simp_all add: cnt_def)

lemma cnt_nonneg [simp]: "0 \<le> cnt p xs"
  by (simp add: cnt_def)

lemma cnt_update:
  "i < length xs \<Longrightarrow>
     cnt p (xs[i := y]) = cnt p xs - (if p (xs ! i) then 1 else 0) + (if p y then 1 else 0)"
  by (induction xs arbitrary: i) (auto split: nat.split)

lemma cnt_replicate [simp]: "\<not> p x \<Longrightarrow> cnt p (replicate n x) = 0"
  by (induction n) auto

lemma cnt_pos: "i < length xs \<Longrightarrow> p (xs ! i) \<Longrightarrow> 1 \<le> cnt p xs"
  using cnt_update [of i xs p "xs ! i"] cnt_nonneg [of p xs]
  by (induction xs arbitrary: i) (auto simp: nth_Cons split: nat.splits)

lemma cnt_two:
  "i < length xs \<Longrightarrow> j < length xs \<Longrightarrow> i \<noteq> j \<Longrightarrow> p (xs ! i) \<Longrightarrow> p (xs ! j) \<Longrightarrow> 2 \<le> cnt p xs"
proof (induction xs arbitrary: i j)
  case (Cons x xs)
  show ?case
  proof (cases i)
    case 0
    with Cons.prems obtain j' where "j = Suc j'" by (cases j) auto
    with Cons.prems have "1 \<le> cnt p xs" by (auto intro: cnt_pos [of j'])
    with 0 Cons.prems show ?thesis by simp
  next
    case (Suc i')
    show ?thesis
    proof (cases j)
      case 0
      with Suc Cons.prems have "1 \<le> cnt p xs" by (auto intro: cnt_pos [of i'])
      with 0 Cons.prems show ?thesis by simp
    next
      case (Suc j')
      with \<open>i = Suc i'\<close> Cons.prems have "2 \<le> cnt p xs"
        by (intro Cons.IH [of i' j']) auto
      then show ?thesis by simp
    qed
  qed
qed simp

lemma cnt_zero_iff: "cnt p xs = 0 \<longleftrightarrow> (\<forall>x \<in> set xs. \<not> p x)"
  by (simp add: cnt_def filter_empty_conv)

lemma cnt_pos_ex: "0 < cnt p xs \<Longrightarrow> \<exists>i < length xs. p (xs ! i)"
  using cnt_zero_iff [of p xs] by (auto simp: in_set_conv_nth)

end
