(* ===== verification/Os.thy ===== *)
theory Os
  imports Prelude
begin

section \<open>The operating system as the code uses it\<close>

text \<open>
  The state of the process that belongs to the kernel and the C library: \<open>errno\<close>, the open
  descriptors, and for each descriptor a script of what the following \<open>read\<close> and \<open>write\<close> calls on
  it do.  A script is arbitrary, so it stands for every way in which the network may cut a stream
  into pieces, interrupt a call, or fail.  Bytes that \<open>write\<close> accepted are appended to \<open>os_out\<close>.

  \<^item> \<open>Rd_data cs\<close>: the bytes \<open>cs\<close> are available; a shorter \<open>read\<close> leaves the rest.  The end of the
    script is the end of the stream.  \<open>Rd_err e\<close>: the call fails with \<open>e\<close>.
  \<^item> \<open>Wr_ok k\<close>: at most \<open>k\<close> bytes are accepted.  \<open>Wr_err e\<close>: the call fails.  After the script
    everything is accepted.  A count above \<open>SSIZE_MAX\<close> is rejected with \<open>EINVAL\<close>, as Linux does.
  \<^item> \<open>os_net\<close>: the answers of \<open>getaddrinfo\<close> (an error code or a list of addresses) whether
    \<open>socket\<close>, \<open>connect\<close>, \<open>bind\<close> and \<open>listen\<close> succeed for an address, and whether \<open>getnameinfo\<close>
    succeeds for the peer of an accepted connection.
  \<^item> \<open>net_close\<close>: the error that the \<open>close\<close> of an open descriptor reports, if any.  The descriptor is
    released in either case, as on Linux.
  \<^item> \<open>os_overlap\<close>: what \<open>sprintf\<close> makes of an array when a \<open>%s\<close> of its format reads that same array and
    the other text follows.  C leaves this undefined.  On a state that is \<open>appends\<close> the text is
    appended, which is what the common C libraries do without source fortification.
  \<^item> \<open>os_accepts\<close>: the results of the following \<open>accept\<close> calls.
\<close>

datatype errno = E_none | EINTR | ECONNRESET | EPIPE | EBADF | EINVAL | E_other

datatype rd_event = Rd_data block | Rd_err errno

datatype wr_event = Wr_ok nat | Wr_err errno

type_synonym addr = nat

record net =
  net_gai :: "string option \<Rightarrow> string \<Rightarrow> int + addr list"
  net_socket :: "addr \<Rightarrow> bool"
  net_connect :: "addr \<Rightarrow> bool"
  net_bind :: "addr \<Rightarrow> bool"
  net_listen :: bool
  net_name :: "int \<Rightarrow> bool"
  net_close :: "int \<Rightarrow> errno option"

record os =
  os_errno :: errno
  os_open :: "int set"
  os_in :: "int \<Rightarrow> rd_event list"
  os_wr :: "int \<Rightarrow> wr_event list"
  os_out :: "int \<Rightarrow> block"
  os_fresh_fd :: int
  os_net :: net
  os_accepts :: "int list"
  os_stdout :: "string list"
  os_overlap :: "block \<Rightarrow> string \<Rightarrow> stop + block"

definition append_text :: "block \<Rightarrow> string \<Rightarrow> stop + block" where
  "append_text blk txt = (case c_str blk of Inl e \<Rightarrow> Inl e | Inr t \<Rightarrow> blk_puts blk (t @ txt))"

definition appends :: "os \<Rightarrow> bool" where
  "appends s \<longleftrightarrow> (\<forall>blk txt. os_overlap s blk txt = append_text blk txt)"

definition SSIZE_MAX :: nat where
  "SSIZE_MAX = 9223372036854775807"

definition set_errno :: "errno \<Rightarrow> (os, unit) cmd" where
  "set_errno e = modify (\<lambda>s. s\<lparr>os_errno := e\<rparr>)"

definition print_out :: "string list \<Rightarrow> (os, unit) cmd" where
  "print_out ls = modify (\<lambda>s. s\<lparr>os_stdout := os_stdout s @ ls\<rparr>)"

subsection \<open>Reading and writing\<close>

fun rd_step :: "nat \<Rightarrow> rd_event list \<Rightarrow> (errno + block) \<times> rd_event list" where
  "rd_step n [] = (Inr [], [])"
| "rd_step n (Rd_err e # es) = (Inl e, es)"
| "rd_step n (Rd_data cs # es) =
     (Inr (take n cs), if length cs \<le> n then es else Rd_data (drop n cs) # es)"

text \<open>\<open>sys_read\<close> gives the return value of \<open>read\<close> and the bytes that it stores.\<close>

definition sys_read :: "int \<Rightarrow> nat \<Rightarrow> (os, int \<times> block) cmd" where
  "sys_read fd n s =
     (if fd \<notin> os_open s then Inr ((- 1, []), s\<lparr>os_errno := EBADF\<rparr>)
      else case rd_step n (os_in s fd) of
        (Inl e, es) \<Rightarrow> Inr ((- 1, []), s\<lparr>os_errno := e, os_in := (os_in s)(fd := es)\<rparr>)
      | (Inr cs, es) \<Rightarrow> Inr ((int (length cs), cs), s\<lparr>os_in := (os_in s)(fd := es)\<rparr>))"

definition os_accept_bytes :: "int \<Rightarrow> block \<Rightarrow> os \<Rightarrow> os" where
  "os_accept_bytes fd bs s = s\<lparr>os_out := (os_out s)(fd := os_out s fd @ bs)\<rparr>"

text \<open>\<open>sys_write fd buf off n\<close>: the \<open>n\<close> bytes of \<open>buf\<close> from \<open>off\<close>.\<close>

definition sys_write :: "int \<Rightarrow> block \<Rightarrow> nat \<Rightarrow> nat \<Rightarrow> (os, int) cmd" where
  "sys_write fd buf off n s =
     (if fd \<notin> os_open s then Inr (- 1, s\<lparr>os_errno := EBADF\<rparr>)
      else if SSIZE_MAX < n then Inr (- 1, s\<lparr>os_errno := EINVAL\<rparr>)
      else case blk_read buf off n of
        Inl e \<Rightarrow> Inl e
      | Inr bs \<Rightarrow>
          (case os_wr s fd of
             [] \<Rightarrow> Inr (int n, os_accept_bytes fd bs s)
           | Wr_ok k # es \<Rightarrow>
               Inr (int (min k n), os_accept_bytes fd (take k bs) (s\<lparr>os_wr := (os_wr s)(fd := es)\<rparr>))
           | Wr_err e # es \<Rightarrow> Inr (- 1, s\<lparr>os_errno := e, os_wr := (os_wr s)(fd := es)\<rparr>)))"

definition sys_close :: "int \<Rightarrow> (os, int) cmd" where
  "sys_close fd s =
     (if fd \<notin> os_open s then Inr (- 1, s\<lparr>os_errno := EBADF\<rparr>)
      else case net_close (os_net s) fd of
        None \<Rightarrow> Inr (0, s\<lparr>os_open := os_open s - {fd}\<rparr>)
      | Some e \<Rightarrow> Inr (- 1, s\<lparr>os_open := os_open s - {fd}, os_errno := e\<rparr>))"

lemma sys_close_open:
  assumes "fd \<in> os_open s"
  obtains en where "sys_close fd s =
    Inr (if net_close (os_net s) fd = None then 0 else - 1, s\<lparr>os_open := os_open s - {fd}, os_errno := en\<rparr>)"
  using assms
  by (cases "net_close (os_net s) fd") (auto simp: sys_close_def intro: that [of "os_errno s"])

lemma sys_close_runs:
  obtains r en where "sys_close fd s = Inr (r, s\<lparr>os_open := os_open s - {fd}, os_errno := en\<rparr>)"
proof (cases "fd \<in> os_open s")
  case True
  then show ?thesis by (rule sys_close_open) (rule that)
qed (use that in \<open>simp add: sys_close_def\<close>)

subsection \<open>Sockets\<close>

text \<open>A new socket gets a descriptor that no other open file has.\<close>

definition sys_socket :: "addr \<Rightarrow> (os, int) cmd" where
  "sys_socket a s =
     (if net_socket (os_net s) a
      then Inr (os_fresh_fd s,
        s\<lparr>os_open := insert (os_fresh_fd s) (os_open s), os_fresh_fd := os_fresh_fd s + 1\<rparr>)
      else Inr (- 1, s\<lparr>os_errno := E_other\<rparr>))"

definition sys_connect :: "int \<Rightarrow> addr \<Rightarrow> (os, int) cmd" where
  "sys_connect fd a s =
     (if net_connect (os_net s) a then Inr (0, s) else Inr (- 1, s\<lparr>os_errno := E_other\<rparr>))"

definition sys_bind :: "int \<Rightarrow> addr \<Rightarrow> (os, int) cmd" where
  "sys_bind fd a s =
     (if net_bind (os_net s) a then Inr (0, s) else Inr (- 1, s\<lparr>os_errno := E_other\<rparr>))"

definition sys_listen :: "int \<Rightarrow> (os, int) cmd" where
  "sys_listen fd s = (if net_listen (os_net s) then Inr (0, s) else Inr (- 1, s\<lparr>os_errno := E_other\<rparr>))"

text \<open>\<open>accept\<close> opens the descriptor it returns; when no client comes any more it waits for ever.\<close>

definition sys_accept :: "int \<Rightarrow> (os, int) cmd" where
  "sys_accept fd s =
     (case os_accepts s of
        [] \<Rightarrow> Inl Blocked
      | c # cs \<Rightarrow>
          Inr (c, s\<lparr>os_accepts := cs, os_open := (if 0 \<le> c then insert c (os_open s) else os_open s)\<rparr>))"

definition unix_error :: "('s, 'a) cmd" where
  "unix_error = halt (Exit 0)"

subsection \<open>Sizes of scripts, and the stream that a script carries\<close>

fun rd_size :: "rd_event list \<Rightarrow> nat" where
  "rd_size [] = 0"
| "rd_size (Rd_err e # es) = Suc (rd_size es)"
| "rd_size (Rd_data cs # es) = Suc (length cs + rd_size es)"

lemma rd_step_size:
  "rd_step n es = (r, es') \<Longrightarrow> 0 < n \<Longrightarrow> es \<noteq> [] \<Longrightarrow> rd_size es' < rd_size es"
  by (cases "(n, es)" rule: rd_step.cases) (auto split: if_splits)

text \<open>
  \<open>tape es\<close>: the bytes that a reader that repeats interrupted calls gets up to the end of the
  stream.  A script is \<open>clean\<close> when interrupted calls are the only errors.
\<close>

fun clean :: "rd_event list \<Rightarrow> bool" where
  "clean [] = True"
| "clean (Rd_data cs # es) = (cs \<noteq> [] \<and> clean es)"
| "clean (Rd_err e # es) = (e = EINTR \<and> clean es)"

fun tape :: "rd_event list \<Rightarrow> block" where
  "tape [] = []"
| "tape (Rd_data cs # es) = cs @ tape es"
| "tape (Rd_err e # es) = tape es"

lemma rd_step_clean:
  assumes "clean es" "0 < n" "rd_step n es = (r, es')"
  shows "clean es'"
    "r = Inl e \<Longrightarrow> e = EINTR \<and> tape es' = tape es"
    "r = Inr cs \<Longrightarrow> tape es = cs @ tape es' \<and> length cs \<le> n \<and> (cs = [] \<longleftrightarrow> es = [])"
  using assms by (cases "(n, es)" rule: rd_step.cases; auto split: if_splits)+

text \<open>A script of \<open>write\<close> is \<open>draining\<close> when it never fails other than by an interruption.\<close>

fun draining :: "wr_event list \<Rightarrow> bool" where
  "draining [] = True"
| "draining (Wr_ok k # es) = (0 < k \<and> draining es)"
| "draining (Wr_err e # es) = (e = EINTR \<and> draining es)"

end
