(* ===== verification/Nio.thy ===== *)
theory Nio
  imports Os
begin

section \<open>Buffered and unbuffered I/O (\<open>lib/src/nio.c\<close>)\<close>

text \<open>
  The record \<open>nio\<close> is \<open>nio_t\<close>, with \<open>nio_bufptr\<close> as an offset into \<open>nio_buf\<close>.  The functions get
  the record and the user's buffer as values and give them back updated.  Each loop is a function
  whose termination is proved from the scripts of the descriptors: an interrupted call uses up an
  event, so that no loop can repeat for ever.
\<close>

definition NIO_BUFSIZE :: nat where
  "NIO_BUFSIZE = 8192"

definition MAXLINE :: nat where
  "MAXLINE = 8192"

record nio =
  nio_fd :: int
  nio_cnt :: int
  nio_bufptr :: nat
  nio_buf :: block

lemma sys_read_size:
  assumes "sys_read fd n s = Inr ((rc, bs), s1)" "0 < n"
    and "0 < rc \<or> rc < 0 \<and> os_errno s1 = EINTR"
  shows "rd_size (os_in s1 fd) < rd_size (os_in s fd)"
proof (cases "os_in s fd")
  case Nil
  then show ?thesis using assms by (auto simp: sys_read_def split: if_splits)
next
  case (Cons ev es)
  then show ?thesis
    using assms rd_step_size [of n "os_in s fd"]
    by (auto simp: sys_read_def split: if_splits prod.splits sum.splits)
qed

lemma sys_write_size:
  assumes "sys_write fd buf off n s = Inr (rc, s1)" "0 < n"
    and "0 < rc \<or> rc \<le> 0 \<and> os_errno s1 = EINTR"
  shows "length (os_wr s1 fd) + (n - nat rc) < length (os_wr s fd) + n"
  using assms
  by (auto simp: sys_write_def os_accept_bytes_def split: if_splits sum.splits list.splits wr_event.splits)

subsection \<open>Unbuffered\<close>

text \<open>\<open>nio_readn\<close> after \<open>off\<close> of the \<open>n\<close> bytes.  The result is the return value and the buffer.\<close>

function nio_readn_loop :: "int \<Rightarrow> block \<Rightarrow> nat \<Rightarrow> nat \<Rightarrow> nat \<Rightarrow> (os, int \<times> block) cmd" where
  "nio_readn_loop fd buf off nleft n s =
     (if nleft = 0 then ret (int (n - nleft), buf) s
      else bnd (sys_read fd nleft) (\<lambda>r s1. case r of (nread, bs) \<Rightarrow>
        if nread < 0 then
          if os_errno s1 = EINTR then nio_readn_loop fd buf off nleft n s1
          else if os_errno s1 = ECONNRESET then ret (0, buf) s1
          else ret (- 1, buf) s1
        else if nread = 0 then ret (int (n - nleft), buf) s1
        else bnd (lift_res (blk_write buf off bs)) (\<lambda>buf' s2.
          nio_readn_loop fd buf' (off + nat nread) (nleft - nat nread) n s2) s1) s)"
  by pat_completeness auto
termination
  by (relation "measure (\<lambda>(fd, buf, off, nleft, n, s). rd_size (os_in s fd))")
    (auto simp: lift_res_def blk_write_def split: if_splits dest: sys_read_size)

definition nio_readn :: "int \<Rightarrow> block \<Rightarrow> nat \<Rightarrow> (os, int \<times> block) cmd" where
  "nio_readn fd buf n = nio_readn_loop fd buf 0 n n"

function nio_writen_loop :: "int \<Rightarrow> block \<Rightarrow> nat \<Rightarrow> nat \<Rightarrow> nat \<Rightarrow> (os, int) cmd" where
  "nio_writen_loop fd buf off nleft n s =
     (if nleft = 0 then ret (int n) s
      else bnd (sys_write fd buf off nleft) (\<lambda>nwritten s1.
        if nwritten \<le> 0 then
          if os_errno s1 = EINTR then nio_writen_loop fd buf off nleft n s1
          else if os_errno s1 = EPIPE then ret (int n) s1
          else ret (- 1) s1
        else nio_writen_loop fd buf (off + nat nwritten) (nleft - nat nwritten) n s1) s)"
  by pat_completeness auto
termination
proof (relation "measure (\<lambda>(fd, buf, off, nleft, n, s). length (os_wr s fd) + nleft)", goal_cases)
  case (2 fd buf off nleft n s rc s1)
  then show ?case using sys_write_size [of fd buf off nleft s rc s1] by simp
next
  case (3 fd buf off nleft n s rc s1)
  then show ?case using sys_write_size [of fd buf off nleft s rc s1] by simp
qed simp

definition nio_writen :: "int \<Rightarrow> block \<Rightarrow> nat \<Rightarrow> (os, int) cmd" where
  "nio_writen fd buf n = nio_writen_loop fd buf 0 n n"

declare nio_readn_loop.simps [simp del] nio_writen_loop.simps [simp del]

subsection \<open>Buffered\<close>

text \<open>
  The refill loop of \<open>nio_read\<close>: \<open>Some r\<close> when \<open>nio_read\<close> returns \<open>r\<close> from inside the loop,
  \<open>None\<close> when the buffer holds unread bytes.
\<close>

function nio_fill :: "nio \<Rightarrow> (os, int option \<times> nio) cmd" where
  "nio_fill rp s =
     (if 0 < nio_cnt rp then ret (None, rp) s
      else bnd (sys_read (nio_fd rp) NIO_BUFSIZE) (\<lambda>r s1. case r of (rc, bs) \<Rightarrow>
        bnd (lift_res (blk_write (nio_buf rp) 0 bs)) (\<lambda>buf s2.
        if rc < 0 then
          if os_errno s2 = ECONNRESET then ret (Some 0, rp\<lparr>nio_cnt := rc, nio_buf := buf\<rparr>) s2
          else if os_errno s2 \<noteq> EINTR then ret (Some (- 1), rp\<lparr>nio_cnt := rc, nio_buf := buf\<rparr>) s2
          else nio_fill (rp\<lparr>nio_cnt := rc, nio_buf := buf\<rparr>) s2
        else if rc = 0 then ret (Some 0, rp\<lparr>nio_cnt := rc, nio_buf := buf\<rparr>) s2
        else nio_fill (rp\<lparr>nio_cnt := rc, nio_buf := buf, nio_bufptr := 0\<rparr>) s2) s1) s)"
  by pat_completeness auto
termination
  by (relation "measure (\<lambda>(rp, s). rd_size (os_in s (nio_fd rp)))")
    (auto simp: lift_res_def blk_write_def NIO_BUFSIZE_def split: if_splits dest: sys_read_size)

declare nio_fill.simps [simp del]

text \<open>The result is the return value, the bytes that \<open>memcpy\<close> stores, and the record.\<close>

definition nio_read :: "nio \<Rightarrow> nat \<Rightarrow> (os, int \<times> block \<times> nio) cmd" where
  "nio_read rp n =
     bnd (nio_fill rp) (\<lambda>(r, rp1).
     case r of Some rc \<Rightarrow> ret (rc, [], rp1)
     | None \<Rightarrow>
         let cnt = (if nio_cnt rp1 < int n then nio_cnt rp1 else int n) in
         bnd (lift_res (blk_read (nio_buf rp1) (nio_bufptr rp1) (nat cnt))) (\<lambda>bs.
         ret (cnt, bs, rp1\<lparr>nio_bufptr := nio_bufptr rp1 + nat cnt, nio_cnt := nio_cnt rp1 - cnt\<rparr>)))"

definition nio_readinitb :: "nio \<Rightarrow> int \<Rightarrow> nio" where
  "nio_readinitb rp fd = rp\<lparr>nio_fd := fd, nio_cnt := 0, nio_bufptr := 0\<rparr>"

lemma nio_fill_not_EINTR:
  "nio_fill rp s = Inr ((Some rc, rp1), s1) \<Longrightarrow> rc < 0 \<Longrightarrow> os_errno s1 \<noteq> EINTR"
proof (induction rp s rule: nio_fill.induct)
  case (1 rp s)
  show ?case
    using 1(3) 1(4) 1(1,2) unfolding nio_fill.simps [of rp s]
    by (auto simp: bnd_eq_Inr_iff ret_def split: if_splits; blast)
qed

lemma nio_fill_None: "nio_fill rp s = Inr ((None, rp1), s1) \<Longrightarrow> 0 < nio_cnt rp1"
proof (induction rp s rule: nio_fill.induct)
  case (1 rp s)
  show ?case
    using 1(3) 1(1,2) unfolding nio_fill.simps [of rp s]
    by (auto simp: bnd_eq_Inr_iff ret_def split: if_splits; blast)
qed

lemma nio_read_cases:
  assumes "nio_read rp n s = Inr ((rc, bs, rp1), s1)"
  obtains (returned) "nio_fill rp s = Inr ((Some rc, rp1), s1)" "bs = []"
  | (copied) rp2 where "nio_fill rp s = Inr ((None, rp2), s1)" "0 < nio_cnt rp2"
      "rc = min (nio_cnt rp2) (int n)"
      "blk_read (nio_buf rp2) (nio_bufptr rp2) (nat rc) = Inr bs"
      "rp1 = rp2\<lparr>nio_bufptr := nio_bufptr rp2 + nat rc, nio_cnt := nio_cnt rp2 - rc\<rparr>"
proof -
  from assms obtain r rp2 s2 where f: "nio_fill rp s = Inr ((r, rp2), s2)"
    by (auto simp: nio_read_def bnd_eq_Inr_iff)
  show thesis
  proof (cases r)
    case (Some x)
    then show ?thesis using assms f by (intro returned) (auto simp: nio_read_def ret_def)
  next
    case None
    with f nio_fill_None have pos: "0 < nio_cnt rp2" by blast
    from assms f None have
      "rc = min (nio_cnt rp2) (int n)" "s2 = s1"
      "blk_read (nio_buf rp2) (nio_bufptr rp2) (nat rc) = Inr bs"
      "rp1 = rp2\<lparr>nio_bufptr := nio_bufptr rp2 + nat rc, nio_cnt := nio_cnt rp2 - rc\<rparr>"
      by (auto simp: nio_read_def ret_def Let_def bnd_eq_Inr_iff lift_res_def split: sum.splits if_splits)
    then show ?thesis using f None pos by (intro copied) auto
  qed
qed

lemma nio_read_not_EINTR:
  "nio_read rp n s = Inr ((rc, bs, rp1), s1) \<Longrightarrow> rc < 0 \<Longrightarrow> os_errno s1 \<noteq> EINTR"
  by (erule nio_read_cases) (auto dest: nio_fill_not_EINTR)

lemma blk_write_ok: "blk_write blk off bs = Inr blk' \<Longrightarrow> off + length bs \<le> length blk"
  by (auto simp: blk_write_def split: if_splits)

text \<open>\<open>nio_readnb\<close> after \<open>off\<close> of the \<open>n\<close> bytes.\<close>

function nio_readnb_loop ::
  "nio \<Rightarrow> block \<Rightarrow> nat \<Rightarrow> nat \<Rightarrow> nat \<Rightarrow> (os, int \<times> block \<times> nio) cmd" where
  "nio_readnb_loop rp buf off nleft n s =
     (if nleft = 0 then ret (int (n - nleft), buf, rp) s
      else bnd (nio_read rp nleft) (\<lambda>r s1. case r of (nread, bs, rp1) \<Rightarrow>
        bnd (lift_res (blk_write buf off bs)) (\<lambda>buf1 s2.
        if nread < 0 then
          if os_errno s2 = EINTR then nio_readnb_loop rp1 buf1 off nleft n s2
          else ret (- 1, buf1, rp1) s2
        else if nread = 0 then ret (int (n - nleft), buf1, rp1) s2
        else nio_readnb_loop rp1 buf1 (off + nat nread) (nleft - nat nread) n s2) s1) s)"
  by pat_completeness auto
termination
  by (relation "measure (\<lambda>(rp, buf, off, nleft, n, s). nleft)")
    (auto simp: lift_res_def split: sum.splits dest: nio_read_not_EINTR)

declare nio_readnb_loop.simps [simp del]

definition nio_readnb :: "nio \<Rightarrow> block \<Rightarrow> nat \<Rightarrow> (os, int \<times> block \<times> nio) cmd" where
  "nio_readnb rp buf n = nio_readnb_loop rp buf 0 n n"

text \<open>
  The loop of \<open>nio_readlineb\<close> and the two statements after it: \<open>off\<close> is \<open>bufp\<close>.
\<close>

function nio_readlineb_loop ::
  "nio \<Rightarrow> block \<Rightarrow> nat \<Rightarrow> int \<Rightarrow> nat \<Rightarrow> (os, int \<times> block \<times> nio) cmd" where
  "nio_readlineb_loop rp buf off n maxlen s =
     (if to_size n < maxlen then
        bnd (nio_read rp 1) (\<lambda>r s1. case r of (rc, cs, rp1) \<Rightarrow>
        if rc = 1 then
          bnd (lift_res (blk_write buf off cs)) (\<lambda>buf1 s2.
          if cs = [LF] then
            bnd (lift_res (blk_write buf1 (off + 1) [NUL])) (\<lambda>buf2 s3. ret (n, buf2, rp1) s3) s2
          else bnd (lift_res (c_inc n)) (\<lambda>n1 s3. nio_readlineb_loop rp1 buf1 (off + 1) n1 maxlen s3) s2) s1
        else if rc = 0 then
          if n = 1 then ret (0, buf, rp1) s1
          else bnd (lift_res (blk_write buf off [NUL])) (\<lambda>buf1 s2. ret (n, buf1, rp1) s2) s1
        else ret (- 1, buf, rp1) s1) s
      else bnd (lift_res (blk_write buf off [NUL])) (\<lambda>buf1 s1. ret (n, buf1, rp) s1) s)"
  by pat_completeness auto
termination
  by (relation "measure (\<lambda>(rp, buf, off, n, maxlen, s). nat (INT_MAX - n))")
    (auto simp: lift_res_def c_inc_def split: sum.splits if_splits)

declare nio_readlineb_loop.simps [simp del]

definition nio_readlineb :: "nio \<Rightarrow> block \<Rightarrow> nat \<Rightarrow> (os, int \<times> block \<times> nio) cmd" where
  "nio_readlineb rp buf maxlen = nio_readlineb_loop rp buf 0 1 maxlen"

subsection \<open>The wrappers that exit\<close>

definition Nio_readn :: "int \<Rightarrow> block \<Rightarrow> nat \<Rightarrow> (os, int \<times> block) cmd" where
  "Nio_readn fd buf n =
     bnd (nio_readn fd buf n) (\<lambda>(k, buf1). if k < 0 then unix_error else ret (k, buf1))"

definition Nio_writen :: "int \<Rightarrow> block \<Rightarrow> nat \<Rightarrow> (os, unit) cmd" where
  "Nio_writen fd buf n =
     bnd (nio_writen fd buf n) (\<lambda>k. if to_size k \<noteq> n then unix_error else ret ())"

definition Nio_readnb :: "nio \<Rightarrow> block \<Rightarrow> nat \<Rightarrow> (os, int \<times> block \<times> nio) cmd" where
  "Nio_readnb rp buf n =
     bnd (nio_readnb rp buf n) (\<lambda>(rc, buf1, rp1). if rc < 0 then unix_error else ret (rc, buf1, rp1))"

definition Nio_readlineb :: "nio \<Rightarrow> block \<Rightarrow> nat \<Rightarrow> (os, int \<times> block \<times> nio) cmd" where
  "Nio_readlineb rp buf maxlen =
     bnd (nio_readlineb rp buf maxlen) (\<lambda>(rc, buf1, rp1).
       if rc < 0 then bnd (print_out [''Fd = '' @ dec_int (nio_fd rp1) @ [LF]]) (\<lambda>_. unix_error) else ret (rc, buf1, rp1))"

end
