(* ===== verification/Nio_Spec.thy ===== *)
theory Nio_Spec
  imports Nio
begin

section \<open>What the I/O functions do\<close>

text \<open>
  A descriptor that a reader uses carries a stream: the unread bytes of its buffer, then what the
  script will still deliver.  The buffered functions are specified on that stream, whatever its
  division into pieces and whatever calls are interrupted.
\<close>

definition reads :: "int \<Rightarrow> os \<Rightarrow> os \<Rightarrow> bool" where
  "reads fd s s' \<longleftrightarrow> (\<exists>en es. s' = s\<lparr>os_errno := en, os_in := (os_in s)(fd := es)\<rparr>)"

definition writes :: "int \<Rightarrow> block \<Rightarrow> os \<Rightarrow> os \<Rightarrow> bool" where
  "writes fd bs s s' \<longleftrightarrow> (\<exists>en es. s' = s\<lparr>os_errno := en, os_wr := (os_wr s)(fd := es),
     os_out := (os_out s)(fd := os_out s fd @ bs)\<rparr>)"

lemma readsI: "s\<lparr>os_errno := en, os_in := (os_in s)(fd := es)\<rparr> = s' \<Longrightarrow> reads fd s s'"
  by (auto simp: reads_def)

lemma writesI:
  "s\<lparr>os_errno := en, os_wr := (os_wr s)(fd := es), os_out := (os_out s)(fd := os_out s fd @ bs)\<rparr> = s' \<Longrightarrow>
     writes fd bs s s'"
  by (auto simp: writes_def)

lemma reads_refl [simp]: "reads fd s s"
  by (rule readsI [where en = "os_errno s" and es = "os_in s fd"]) simp

lemma writes_refl [simp]: "writes fd [] s s"
  by (rule writesI [where en = "os_errno s" and es = "os_wr s fd"]) simp

lemma reads_trans:
  assumes "reads fd s s1" "reads fd s1 s2"
  shows "reads fd s s2"
proof -
  from assms obtain en es where "s2 = s1\<lparr>os_errno := en, os_in := (os_in s1)(fd := es)\<rparr>"
    by (auto simp: reads_def)
  with assms(1) show ?thesis by (intro readsI [where en = en and es = es]) (auto simp: reads_def)
qed

lemma writes_trans:
  assumes "writes fd bs s s1" "writes fd bs' s1 s2"
  shows "writes fd (bs @ bs') s s2"
proof -
  from assms obtain en es where "s2 = s1\<lparr>os_errno := en, os_wr := (os_wr s1)(fd := es),
      os_out := (os_out s1)(fd := os_out s1 fd @ bs')\<rparr>"
    by (auto simp: writes_def)
  with assms(1) show ?thesis by (intro writesI [where en = en and es = es]) (auto simp: writes_def)
qed

lemma reads_fields:
  assumes "reads fd s s'"
  shows "os_open s' = os_open s" "os_out s' = os_out s" "os_wr s' = os_wr s"
    "os_net s' = os_net s" "os_fresh_fd s' = os_fresh_fd s" "os_stdout s' = os_stdout s"
    "os_accepts s' = os_accepts s" "os_overlap s' = os_overlap s" "fd' \<noteq> fd \<Longrightarrow> os_in s' fd' = os_in s fd'"
  using assms by (auto simp: reads_def)

lemma writes_fields:
  assumes "writes fd bs s s'"
  shows "os_open s' = os_open s" "os_in s' = os_in s" "os_net s' = os_net s"
    "os_fresh_fd s' = os_fresh_fd s" "os_stdout s' = os_stdout s" "os_accepts s' = os_accepts s"
    "os_out s' fd = os_out s fd @ bs" "fd' \<noteq> fd \<Longrightarrow> os_out s' fd' = os_out s fd'"
    "fd' \<noteq> fd \<Longrightarrow> os_wr s' fd' = os_wr s fd'" "os_overlap s' = os_overlap s"
  using assms by (auto simp: writes_def)

subsection \<open>Writing\<close>

lemma nio_writen_loop_delivers:
  "fd \<in> os_open s \<Longrightarrow> draining (os_wr s fd) \<Longrightarrow> off + nleft \<le> length buf \<Longrightarrow> nleft \<le> SSIZE_MAX \<Longrightarrow>
   \<exists>s'. nio_writen_loop fd buf off nleft n s = Inr (int n, s') \<and>
     writes fd (take nleft (drop off buf)) s s' \<and> draining (os_wr s' fd)"
proof (induction fd buf off nleft n s rule: nio_writen_loop.induct)
  case (1 fd buf off nleft n s)
  show ?case
  proof (cases "nleft = 0")
    case True
    then show ?thesis using 1 by (subst nio_writen_loop.simps) (auto simp: ret_def)
  next
    case False
    show ?thesis
    proof (cases "os_wr s fd")
      case Nil
      let ?s1 = "os_accept_bytes fd (take nleft (drop off buf)) s"
      have "sys_write fd buf off nleft s = Inr (int nleft, ?s1)"
        using 1 Nil by (simp add: sys_write_def blk_read_Inr)
      moreover have "writes fd (take nleft (drop off buf)) s ?s1"
        by (rule writesI [where en = "os_errno s" and es = "os_wr s fd"]) (simp add: os_accept_bytes_def)
      ultimately show ?thesis using False Nil
        by (subst nio_writen_loop.simps)
          (simp add: nio_writen_loop.simps [of _ _ _ 0] ret_def os_accept_bytes_def)
    next
      case (Cons ev es)
      show ?thesis
      proof (cases ev)
        case (Wr_ok k)
        let ?j = "min k nleft"
        let ?s1 = "os_accept_bytes fd (take k (take nleft (drop off buf))) (s\<lparr>os_wr := (os_wr s)(fd := es)\<rparr>)"
        have k: "0 < k" "draining es" using 1 Wr_ok Cons by auto
        have w: "sys_write fd buf off nleft s = Inr (int ?j, ?s1)"
          using 1 Wr_ok Cons by (simp add: sys_write_def blk_read_Inr)
        have w1: "writes fd (take ?j (drop off buf)) s ?s1"
          by (rule writesI [where en = "os_errno s" and es = es]) (simp add: os_accept_bytes_def min.commute)
        have "\<exists>s'. nio_writen_loop fd buf (off + ?j) (nleft - ?j) n ?s1 = Inr (int n, s') \<and>
            writes fd (take (nleft - ?j) (drop (off + ?j) buf)) ?s1 s' \<and> draining (os_wr s' fd)"
          using 1(2) [OF False w] False k 1 by (simp add: os_accept_bytes_def)
        then obtain s' where s': "nio_writen_loop fd buf (off + ?j) (nleft - ?j) n ?s1 = Inr (int n, s')"
          "writes fd (take (nleft - ?j) (drop (off + ?j) buf)) ?s1 s'" "draining (os_wr s' fd)" by blast
        have "take ?j (drop off buf) @ take (nleft - ?j) (drop (off + ?j) buf) = take nleft (drop off buf)"
          by (metis add.commute drop_drop le_add_diff_inverse min.cobounded2 take_add)
        with writes_trans [OF w1 s'(2)] s'(1,3) w False k show ?thesis
          by (subst nio_writen_loop.simps) auto
      next
        case (Wr_err er)
        let ?s1 = "s\<lparr>os_errno := EINTR, os_wr := (os_wr s)(fd := es)\<rparr>"
        have w: "sys_write fd buf off nleft s = Inr (- 1, ?s1)" "draining es"
          using 1 Wr_err Cons by (auto simp: sys_write_def blk_read_Inr)
        have "writes fd [] s ?s1" by (rule writesI [where en = EINTR and es = es]) simp
        moreover obtain s' where "nio_writen_loop fd buf off nleft n ?s1 = Inr (int n, s')"
          "writes fd (take nleft (drop off buf)) ?s1 s'" "draining (os_wr s' fd)"
          using 1(1) [OF False w(1)] w(2) 1 by auto
        ultimately show ?thesis using w False
          by (subst nio_writen_loop.simps) (auto dest: writes_trans)
      qed
    qed
  qed
qed

lemma nio_writen_delivers:
  assumes "fd \<in> os_open s" "draining (os_wr s fd)" "n \<le> length buf" "n \<le> SSIZE_MAX"
  shows "\<exists>s'. nio_writen fd buf n s = Inr (int n, s') \<and> writes fd (take n buf) s s' \<and>
    draining (os_wr s' fd)"
  using nio_writen_loop_delivers [of fd s 0 n buf n] assms by (simp add: nio_writen_def)

lemma nio_writen_closed:
  "fd \<notin> os_open s \<Longrightarrow> 0 < n \<Longrightarrow> nio_writen fd buf n s = Inr (- 1, s\<lparr>os_errno := EBADF\<rparr>)"
  by (simp add: nio_writen_def nio_writen_loop.simps [of fd buf 0 n n s] sys_write_def ret_def)

lemma nio_writen_zero: "nio_writen fd buf 0 s = Inr (0, s)"
  by (simp add: nio_writen_def nio_writen_loop.simps ret_def)

lemma nio_writen_huge:
  "fd \<in> os_open s \<Longrightarrow> SSIZE_MAX < n \<Longrightarrow> nio_writen fd buf n s = Inr (- 1, s\<lparr>os_errno := EINVAL\<rparr>)"
  by (simp add: nio_writen_def nio_writen_loop.simps [of fd buf 0 n n s] sys_write_def ret_def)

subsection \<open>Reading\<close>

definition nio_ok :: "nio \<Rightarrow> bool" where
  "nio_ok rp \<longleftrightarrow> length (nio_buf rp) = 8192 \<and>
     (0 < nio_cnt rp \<longrightarrow> nio_bufptr rp + nat (nio_cnt rp) \<le> 8192)"

definition unread :: "nio \<Rightarrow> block" where
  "unread rp = take (nat (nio_cnt rp)) (drop (nio_bufptr rp) (nio_buf rp))"

definition stream :: "nio \<Rightarrow> os \<Rightarrow> block" where
  "stream rp s = unread rp @ tape (os_in s (nio_fd rp))"

definition readable :: "nio \<Rightarrow> os \<Rightarrow> bool" where
  "readable rp s \<longleftrightarrow> nio_ok rp \<and> nio_fd rp \<in> os_open s \<and> clean (os_in s (nio_fd rp))"

lemma nio_readinitb_readable:
  assumes "length (nio_buf rp) = 8192" "fd \<in> os_open s" "clean (os_in s fd)"
  shows "readable (nio_readinitb rp fd) s" "stream (nio_readinitb rp fd) s = tape (os_in s fd)"
    "nio_fd (nio_readinitb rp fd) = fd"
  using assms by (auto simp: readable_def nio_ok_def stream_def unread_def nio_readinitb_def)

lemma unread_empty: "nio_cnt rp \<le> 0 \<Longrightarrow> unread rp = []"
  by (simp add: unread_def)

lemma unread_nonempty: "nio_ok rp \<Longrightarrow> 0 < nio_cnt rp \<Longrightarrow> length (unread rp) = nat (nio_cnt rp)"
  by (auto simp: unread_def nio_ok_def)

lemma readable_filled:
  "length (nio_buf rp) = 8192 \<Longrightarrow> length bs \<le> 8192 \<Longrightarrow> blk_write (nio_buf rp) 0 bs = Inr buf \<Longrightarrow>
     unread (rp\<lparr>nio_cnt := int (length bs), nio_buf := buf, nio_bufptr := 0\<rparr>) = bs \<and>
     nio_ok (rp\<lparr>nio_cnt := int (length bs), nio_buf := buf, nio_bufptr := 0\<rparr>)"
  by (auto simp: unread_def nio_ok_def blk_write_def split: if_splits)

lemma nio_fill_clean:
  "readable rp s \<Longrightarrow>
   \<exists>rp1 s1. nio_fill rp s = Inr ((if stream rp s = [] then Some 0 else None, rp1), s1) \<and>
     readable rp1 s1 \<and> stream rp1 s1 = stream rp s \<and> nio_fd rp1 = nio_fd rp \<and>
     reads (nio_fd rp) s s1"
proof (induction "rd_size (os_in s (nio_fd rp))" arbitrary: rp s rule: less_induct)
  case less
  let ?fd = "nio_fd rp"
  from less.prems have len: "length (nio_buf rp) = 8192" and op: "?fd \<in> os_open s"
    and cl: "clean (os_in s ?fd)" by (auto simp: readable_def nio_ok_def)
  show ?case
  proof (cases "0 < nio_cnt rp")
    case True
    then have "unread rp \<noteq> []" using less.prems unread_nonempty [of rp] by (auto simp: readable_def)
    with True less.prems show ?thesis
      by (subst nio_fill.simps) (auto simp: ret_def stream_def)
  next
    case False
    then have ur: "unread rp = []" by (simp add: unread_empty)
    obtain r es where st: "rd_step NIO_BUFSIZE (os_in s ?fd) = (r, es)" by fastforce
    note cl' = rd_step_clean [OF cl _ st]
    show ?thesis
    proof (cases r)
      case (Inl e)
      then have e: "e = EINTR" "tape es = tape (os_in s ?fd)" using cl'(2) by (auto simp: NIO_BUFSIZE_def)
      let ?rp = "rp\<lparr>nio_cnt := - 1\<rparr>" and ?s = "s\<lparr>os_errno := EINTR, os_in := (os_in s)(?fd := es)\<rparr>"
      have rd: "sys_read ?fd NIO_BUFSIZE s = Inr ((- 1, []), ?s)"
        using op st Inl e by (simp add: sys_read_def)
      have "rd_size (os_in ?s (nio_fd ?rp)) < rd_size (os_in s ?fd)"
        using sys_read_size [OF rd] by (simp add: NIO_BUFSIZE_def)
      moreover have "readable ?rp ?s"
        using less.prems cl'(1) by (auto simp: readable_def nio_ok_def NIO_BUFSIZE_def)
      ultimately obtain rp1 s1 where
        "nio_fill ?rp ?s = Inr ((if stream ?rp ?s = [] then Some 0 else None, rp1), s1)"
        "readable rp1 s1" "stream rp1 s1 = stream ?rp ?s" "nio_fd rp1 = nio_fd ?rp"
        "reads (nio_fd ?rp) ?s s1" using less.hyps by blast
      moreover have "reads ?fd s ?s" by (rule readsI [where en = EINTR and es = es]) simp
      moreover have "stream ?rp ?s = stream rp s" using ur e by (simp add: stream_def unread_def)
      moreover have "nio_fill rp s = nio_fill ?rp ?s"
        using False rd by (subst nio_fill.simps) (simp add: blk_write_def lift_res_def)
      ultimately show ?thesis by (auto dest: reads_trans)
    next
      case (Inr bs)
      let ?s = "s\<lparr>os_in := (os_in s)(?fd := es)\<rparr>"
      have bs: "tape (os_in s ?fd) = bs @ tape es" "length bs \<le> 8192" "bs = [] \<longleftrightarrow> os_in s ?fd = []"
        using cl'(3) Inr by (auto simp: NIO_BUFSIZE_def)
      obtain buf where buf: "blk_write (nio_buf rp) 0 bs = Inr buf" "length buf = 8192"
        using bs(2) len by (auto simp: blk_write_def)
      have rd: "sys_read ?fd NIO_BUFSIZE s = Inr ((int (length bs), bs), ?s)"
        using op st Inr by (simp add: sys_read_def)
      have rs: "reads ?fd s ?s" by (rule readsI [where en = "os_errno s" and es = es]) simp
      have cl1: "clean es" using cl'(1) by (simp add: NIO_BUFSIZE_def)
      show ?thesis
      proof (cases "bs = []")
        case True
        let ?rp = "rp\<lparr>nio_cnt := 0, nio_buf := buf\<rparr>"
        have "nio_fill rp s = Inr ((Some 0, ?rp), ?s)"
          using False rd buf True by (subst nio_fill.simps) (simp add: ret_def lift_res_def)
        moreover have "stream rp s = []" "stream ?rp ?s = []"
          using ur bs True st Inr by (auto simp: stream_def unread_def)
        moreover have "readable ?rp ?s" using op cl1 buf by (simp add: readable_def nio_ok_def)
        ultimately show ?thesis using rs by auto
      next
        case ne: False
        let ?rp = "rp\<lparr>nio_cnt := int (length bs), nio_buf := buf, nio_bufptr := 0\<rparr>"
        have ok: "unread ?rp = bs" "nio_ok ?rp" using readable_filled [OF len bs(2) buf(1)] by auto
        have "nio_fill rp s = nio_fill ?rp ?s"
          using False rd buf ne by (subst nio_fill.simps) (simp add: lift_res_def)
        also have "\<dots> = Inr ((None, ?rp), ?s)" using ne by (subst nio_fill.simps) (simp add: ret_def)
        finally have "nio_fill rp s = Inr ((None, ?rp), ?s)" .
        moreover have "stream ?rp ?s = stream rp s" "stream rp s \<noteq> []"
          using ur bs ne ok by (auto simp: stream_def)
        moreover have "readable ?rp ?s" using op cl1 ok by (simp add: readable_def)
        ultimately show ?thesis using rs by auto
      qed
    qed
  qed
qed

lemma nio_read_clean:
  assumes "readable rp s" "0 < n"
  shows "\<exists>bs rp1 s1. nio_read rp n s = Inr ((int (length bs), bs, rp1), s1) \<and>
    readable rp1 s1 \<and> stream rp s = bs @ stream rp1 s1 \<and> nio_fd rp1 = nio_fd rp \<and>
    reads (nio_fd rp) s s1 \<and> length bs \<le> n \<and> (bs = [] \<longleftrightarrow> stream rp s = [])"
proof -
  obtain rp1 s1 where f: "nio_fill rp s = Inr ((if stream rp s = [] then Some 0 else None, rp1), s1)"
    "readable rp1 s1" "stream rp1 s1 = stream rp s" "nio_fd rp1 = nio_fd rp" "reads (nio_fd rp) s s1"
    using nio_fill_clean [OF assms(1)] by blast
  show ?thesis
  proof (cases "stream rp s = []")
    case True
    with f show ?thesis by (intro exI [of _ "[]"]) (simp add: nio_read_def ret_def)
  next
    case False
    with f nio_fill_None have c: "0 < nio_cnt rp1" by simp
    define cnt where "cnt = min (nat (nio_cnt rp1)) n"
    have ok: "length (nio_buf rp1) = 8192" "nio_bufptr rp1 + nat (nio_cnt rp1) \<le> 8192"
      using f(2) c by (auto simp: readable_def nio_ok_def)
    have ic: "(if nio_cnt rp1 < int n then nio_cnt rp1 else int n) = int cnt"
      using c by (auto simp: cnt_def)
    let ?bs = "take cnt (drop (nio_bufptr rp1) (nio_buf rp1))"
    let ?rp = "rp1\<lparr>nio_bufptr := nio_bufptr rp1 + cnt, nio_cnt := nio_cnt rp1 - int cnt\<rparr>"
    have cl: "cnt \<le> nat (nio_cnt rp1)" "0 < cnt" "cnt \<le> n" using c assms(2) by (auto simp: cnt_def)
    have lb: "length ?bs = cnt" using ok cl by simp
    have rd: "blk_read (nio_buf rp1) (nio_bufptr rp1) cnt = Inr ?bs" using ok cl by (simp add: blk_read_Inr)
    have "nio_read rp n s = Inr ((int cnt, ?bs, ?rp), s1)"
      unfolding nio_read_def using f(1) False rd by (simp add: ret_def Let_def ic lift_res_def)
    moreover have "readable ?rp s1" using f(2) c cl by (auto simp: readable_def nio_ok_def)
    moreover have "unread rp1 = ?bs @ unread ?rp"
    proof -
      have "nat (nio_cnt rp1) = cnt + nat (nio_cnt rp1 - int cnt)" using cl c by linarith
      then show ?thesis by (simp add: unread_def take_add add.commute)
    qed
    then have "stream rp s = ?bs @ stream ?rp s1" using f(3) by (simp add: stream_def)
    moreover have "?bs \<noteq> []" using lb cl by auto
    ultimately show ?thesis using f(4,5) lb cl False
      by (intro exI [of _ ?bs] exI [of _ ?rp] exI [of _ s1]) simp
  qed
qed

subsection \<open>Lines\<close>

text \<open>The next line of a stream, with its newline, or at most \<open>m\<close> characters of it.\<close>

fun get_line :: "nat \<Rightarrow> block \<Rightarrow> block" where
  "get_line 0 cs = []"
| "get_line (Suc m) [] = []"
| "get_line (Suc m) (c # cs) = (if c = LF then [LF] else c # get_line m cs)"

definition ends_line :: "block \<Rightarrow> bool" where
  "ends_line l \<longleftrightarrow> l \<noteq> [] \<and> last l = LF"

lemma get_line_length: "length (get_line m cs) \<le> m"
  by (induction m cs rule: get_line.induct) auto

lemma get_line_prefix: "\<exists>rest. cs = get_line m cs @ rest"
  by (induction m cs rule: get_line.induct) auto

lemma get_line_empty [simp]: "get_line m cs = [] \<longleftrightarrow> m = 0 \<or> cs = []"
  by (cases "(m, cs)" rule: get_line.cases) auto

lemma get_line_cases:
  "ends_line (get_line m cs) \<or> length (get_line m cs) = m \<or> get_line m cs = cs"
  by (induction m cs rule: get_line.induct) (auto simp: ends_line_def)

text \<open>What \<open>nio_readlineb\<close> returns for a line \<open>l\<close>: its length, and one more when no newline ends it.\<close>

definition line_ret :: "block \<Rightarrow> nat" where
  "line_ret l = (if ends_line l then length l else length l + 1)"

lemma blk_write_one:
  "off < length buf \<Longrightarrow> blk_write buf off [c] = Inr (take off buf @ c # drop (off + 1) buf)"
  by (simp add: blk_write_def)

lemma to_size_Suc: "n < 2147483648 \<Longrightarrow> to_size (int n + 1) = n + 1"
  using to_size_nonneg [of "n + 1"] by (simp add: SIZE_MOD_def add.commute)

lemma nio_readlineb_loop_clean:
  "readable rp s \<Longrightarrow> off < maxlen \<Longrightarrow> maxlen \<le> length buf \<Longrightarrow> maxlen \<le> 2147483647 \<Longrightarrow>
   l = get_line (maxlen - 1 - off) (stream rp s) \<Longrightarrow> 0 < off \<or> l \<noteq> [] \<Longrightarrow>
   \<exists>rp1 s1. nio_readlineb_loop rp buf off (int off + 1) maxlen s =
       Inr ((int (off + line_ret l), take off buf @ l @ NUL # drop (off + length l + 1) buf, rp1), s1) \<and>
     readable rp1 s1 \<and> stream rp s = l @ stream rp1 s1 \<and> nio_fd rp1 = nio_fd rp \<and>
     reads (nio_fd rp) s s1"
proof (induction "maxlen - 1 - off" arbitrary: rp s off buf l)
  case 0
  then have off: "maxlen = off + 1" "l = []" by auto
  then have "to_size (int off + 1) = off + 1"
    using 0 by (intro to_size_Suc) simp
  with off 0 show ?case
    by (subst nio_readlineb_loop.simps)
      (auto simp: blk_write_one lift_res_def ret_def line_ret_def ends_line_def)
next
  case (Suc m)
  from Suc.hyps(2) Suc.prems have off: "off + 1 < maxlen" "maxlen - 1 - (off + 1) = m" by auto
  have sz: "to_size (int off + 1) < maxlen"
    using Suc.prems off by (simp add: to_size_Suc)
  obtain bs rp1 s1 where rd: "nio_read rp 1 s = Inr ((int (length bs), bs, rp1), s1)"
    "readable rp1 s1" "stream rp s = bs @ stream rp1 s1" "nio_fd rp1 = nio_fd rp"
    "reads (nio_fd rp) s s1" "length bs \<le> 1" "bs = [] \<longleftrightarrow> stream rp s = []"
    using nio_read_clean [OF Suc.prems(1), of 1] by auto
  show ?case
  proof (cases bs)
    case Nil
    then have "stream rp s = []" using rd(7) by blast
    then have l: "l = []" using Suc.prems(5) by simp
    with Suc.prems(6) have "int off + 1 \<noteq> 1" by simp
    then have "nio_readlineb_loop rp buf off (int off + 1) maxlen s =
        Inr ((int off + 1, take off buf @ NUL # drop (off + 1) buf, rp1), s1)"
      using rd(1) Nil sz off Suc.prems(3)
      by (subst nio_readlineb_loop.simps) (simp add: blk_write_one lift_res_def ret_def)
    with l rd(2-5) Nil show ?thesis by (simp add: line_ret_def ends_line_def)
  next
    case (Cons c cs)
    with rd(6) have bs: "bs = [c]" by simp
    let ?buf = "take off buf @ c # drop (off + 1) buf"
    have w: "blk_write buf off [c] = Inr ?buf" using off Suc.prems(3) by (intro blk_write_one) simp
    have lb: "length ?buf = length buf" using off Suc.prems(3) by simp
    have l: "l = (if c = LF then [LF] else c # get_line m (stream rp1 s1))"
      using Suc.prems(5) Suc.hyps(2) rd(3) bs by (metis append_Cons append_Nil get_line.simps(3))
    show ?thesis
    proof (cases "c = LF")
      case True
      have tk: "take (off + 1) ?buf = take off buf @ [c]" "drop (off + 1 + 1) ?buf = drop (off + 2) buf"
        using off Suc.prems(3) by auto
      have "blk_write ?buf (off + 1) [NUL] = Inr (take off buf @ c # NUL # drop (off + 2) buf)"
        using off Suc.prems(3) lb tk blk_write_one [of "off + 1" ?buf NUL] by simp
      with True bs rd(1,2,4,5) rd(3) sz w l show ?thesis
        by (subst nio_readlineb_loop.simps)
          (simp add: lift_res_def ret_def line_ret_def ends_line_def)
    next
      case False
      have inc: "c_inc (int off + 1) = Inr (int (off + 1) + 1)"
        using off Suc.prems(4) by (simp add: INT_MAX_def)
      have "\<exists>rp2 s2. nio_readlineb_loop rp1 ?buf (off + 1) (int (off + 1) + 1) maxlen s1 =
         Inr ((int (off + 1 + line_ret (tl l)), take (off + 1) ?buf @ tl l @ NUL #
           drop (off + 1 + length (tl l) + 1) ?buf, rp2), s2) \<and>
         readable rp2 s2 \<and> stream rp1 s1 = tl l @ stream rp2 s2 \<and> nio_fd rp2 = nio_fd rp1 \<and>
         reads (nio_fd rp1) s1 s2"
        using off lb l False rd(2) Suc.prems(3,4) Suc.hyps(2)
        by (intro Suc.hyps(1)) auto
      then obtain rp2 s2 where ih: "nio_readlineb_loop rp1 ?buf (off + 1) (int (off + 1) + 1) maxlen s1 =
         Inr ((int (off + 1 + line_ret (tl l)), take (off + 1) ?buf @ tl l @ NUL #
           drop (off + 1 + length (tl l) + 1) ?buf, rp2), s2)"
         "readable rp2 s2" "stream rp1 s1 = tl l @ stream rp2 s2" "nio_fd rp2 = nio_fd rp1"
         "reads (nio_fd rp1) s1 s2" by blast
      have step: "nio_readlineb_loop rp buf off (int off + 1) maxlen s =
          nio_readlineb_loop rp1 ?buf (off + 1) (int (off + 1) + 1) maxlen s1"
        using sz rd(1) bs False w inc
        by (subst nio_readlineb_loop.simps) (simp add: lift_res_def)
      have "off + 1 + line_ret (tl l) = off + line_ret l"
        using l False by (auto simp: line_ret_def ends_line_def)
      moreover have "take (off + 1) ?buf @ tl l @ NUL # drop (off + 1 + length (tl l) + 1) ?buf =
          take off buf @ l @ NUL # drop (off + length l + 1) buf"
        using l False off Suc.prems(3) by (auto simp: add.commute)
      moreover have "stream rp s = l @ stream rp2 s2" using ih(3) rd(3) bs l False by auto
      ultimately show ?thesis
        using step ih rd(4,5) by (auto dest: reads_trans)
    qed
  qed
qed

lemma nio_readlineb_line:
  assumes "readable rp s" "1 < maxlen" "maxlen \<le> length buf" "maxlen \<le> 2147483647"
    and "stream rp s \<noteq> []" "l = get_line (maxlen - 1) (stream rp s)"
  shows "\<exists>rp1 s1. nio_readlineb rp buf maxlen s =
       Inr ((int (line_ret l), l @ NUL # drop (length l + 1) buf, rp1), s1) \<and>
     readable rp1 s1 \<and> stream rp s = l @ stream rp1 s1 \<and> nio_fd rp1 = nio_fd rp \<and>
     reads (nio_fd rp) s s1"
  using nio_readlineb_loop_clean [of rp s 0 maxlen buf l] assms by (simp add: nio_readlineb_def)

lemma nio_readlineb_eof:
  assumes "readable rp s" "1 < maxlen" "stream rp s = []"
  shows "\<exists>rp1 s1. nio_readlineb rp buf maxlen s = Inr ((0, buf, rp1), s1) \<and>
     readable rp1 s1 \<and> stream rp1 s1 = [] \<and> nio_fd rp1 = nio_fd rp \<and> reads (nio_fd rp) s s1"
proof -
  obtain rp1 s1 where "nio_read rp 1 s = Inr ((0, [], rp1), s1)" "readable rp1 s1" "stream rp1 s1 = []"
    "nio_fd rp1 = nio_fd rp" "reads (nio_fd rp) s s1"
    using nio_read_clean [OF assms(1), of 1] assms(3) by auto
  moreover have "to_size 1 < maxlen" using assms(2) to_size_nonneg [of 1] by (simp add: SIZE_MOD_def)
  ultimately show ?thesis
    by (simp add: nio_readlineb_def nio_readlineb_loop.simps [of rp buf 0 1] ret_def)
qed

lemma nio_readlineb_closed:
  assumes "nio_fd rp \<notin> os_open s" "nio_cnt rp \<le> 0" "1 < maxlen"
  shows "nio_readlineb rp buf maxlen s = Inr ((- 1, buf, rp\<lparr>nio_cnt := - 1\<rparr>), s\<lparr>os_errno := EBADF\<rparr>)"
proof -
  have "nio_fill rp s = Inr ((Some (- 1), rp\<lparr>nio_cnt := - 1\<rparr>), s\<lparr>os_errno := EBADF\<rparr>)"
    using assms by (subst nio_fill.simps) (simp add: sys_read_def blk_write_def lift_res_def ret_def)
  then have "nio_read rp 1 s = Inr ((- 1, [], rp\<lparr>nio_cnt := - 1\<rparr>), s\<lparr>os_errno := EBADF\<rparr>)"
    by (simp add: nio_read_def ret_def)
  moreover have "to_size 1 < maxlen" using assms(3) to_size_nonneg [of 1] by (simp add: SIZE_MOD_def)
  ultimately show ?thesis
    by (simp add: nio_readlineb_def nio_readlineb_loop.simps [of rp buf 0 1] ret_def)
qed

subsection \<open>Blocks of a given size\<close>

lemma two_writes:
  "off + length bs + length cs \<le> length buf \<Longrightarrow>
     take (off + length bs) (take off buf @ bs @ drop (off + length bs) buf) @ cs @
       drop (off + length bs + length cs) (take off buf @ bs @ drop (off + length bs) buf) =
     take off buf @ (bs @ cs) @ drop (off + length (bs @ cs)) buf"
  by (simp add: add.commute add.left_commute)

lemma nio_readnb_loop_clean:
  "readable rp s \<Longrightarrow> off + nleft \<le> length buf \<Longrightarrow> nleft \<le> n \<Longrightarrow>
   cs = take nleft (stream rp s) \<Longrightarrow>
   \<exists>rp1 s1. nio_readnb_loop rp buf off nleft n s =
       Inr ((int (n - nleft + length cs), take off buf @ cs @ drop (off + length cs) buf, rp1), s1) \<and>
     readable rp1 s1 \<and> stream rp s = cs @ stream rp1 s1 \<and> nio_fd rp1 = nio_fd rp \<and>
     reads (nio_fd rp) s s1"
proof (induction nleft arbitrary: rp s off buf cs rule: less_induct)
  case (less nleft)
  show ?case
  proof (cases "nleft = 0")
    case True
    then show ?thesis using less.prems by (subst nio_readnb_loop.simps) (simp add: ret_def)
  next
    case False
    then obtain bs rp1 s1 where rd: "nio_read rp nleft s = Inr ((int (length bs), bs, rp1), s1)"
      "readable rp1 s1" "stream rp s = bs @ stream rp1 s1" "nio_fd rp1 = nio_fd rp"
      "reads (nio_fd rp) s s1" "length bs \<le> nleft" "bs = [] \<longleftrightarrow> stream rp s = []"
      using nio_read_clean [OF less.prems(1), of nleft] by auto
    let ?buf = "take off buf @ bs @ drop (off + length bs) buf"
    have w: "blk_write buf off bs = Inr ?buf"
      using rd(6) less.prems(2) by (intro blk_write_Inr) simp
    show ?thesis
    proof (cases "bs = []")
      case True
      then have "cs = []" using rd(7) less.prems(4) by simp
      have "nio_readnb_loop rp buf off nleft n s = Inr ((int (n - nleft), ?buf, rp1), s1)"
        using False rd(1) True w by (subst nio_readnb_loop.simps) (simp add: lift_res_def ret_def)
      with True \<open>cs = []\<close> rd(2-5) show ?thesis by simp
    next
      case ne: False
      let ?k = "length bs"
      have k: "0 < ?k" using ne by simp
      let ?cs = "take (nleft - ?k) (stream rp1 s1)"
      have cs: "cs = bs @ ?cs" using less.prems(4) rd(3,6) by simp
      have "\<exists>rp2 s2. nio_readnb_loop rp1 ?buf (off + ?k) (nleft - ?k) n s1 =
          Inr ((int (n - (nleft - ?k) + length ?cs),
            take (off + ?k) ?buf @ ?cs @ drop (off + ?k + length ?cs) ?buf, rp2), s2) \<and>
          readable rp2 s2 \<and> stream rp1 s1 = ?cs @ stream rp2 s2 \<and> nio_fd rp2 = nio_fd rp1 \<and>
          reads (nio_fd rp1) s1 s2"
        using less.prems(2,3) rd(6) k False by (intro less.IH rd(2)) auto
      then obtain rp2 s2 where ih: "nio_readnb_loop rp1 ?buf (off + ?k) (nleft - ?k) n s1 =
          Inr ((int (n - (nleft - ?k) + length ?cs),
            take (off + ?k) ?buf @ ?cs @ drop (off + ?k + length ?cs) ?buf, rp2), s2)"
          "readable rp2 s2" "stream rp1 s1 = ?cs @ stream rp2 s2" "nio_fd rp2 = nio_fd rp1"
          "reads (nio_fd rp1) s1 s2" by blast
      have "n - (nleft - ?k) + length ?cs = n - nleft + length cs"
        using less.prems(3) rd(6) by (subst cs) simp
      moreover have "take (off + ?k) ?buf @ ?cs @ drop (off + ?k + length ?cs) ?buf =
          take off buf @ cs @ drop (off + length cs) buf"
        using less.prems(2) rd(6) two_writes [of off bs ?cs buf] cs by simp
      moreover have "nio_readnb_loop rp buf off nleft n s =
          nio_readnb_loop rp1 ?buf (off + ?k) (nleft - ?k) n s1"
        using False rd(1) ne w by (subst nio_readnb_loop.simps) (simp add: lift_res_def)
      moreover have "stream rp s = cs @ stream rp2 s2" using rd(3) ih(3) cs by (metis append.assoc)
      ultimately show ?thesis using ih(1,2,4,5) rd(4,5) by (auto dest: reads_trans)
    qed
  qed
qed

lemma nio_readnb_clean:
  assumes "readable rp s" "n \<le> length buf"
  shows "\<exists>rp1 s1. nio_readnb rp buf n s =
       Inr ((int (length (take n (stream rp s))),
         take n (stream rp s) @ drop (length (take n (stream rp s))) buf, rp1), s1) \<and>
     readable rp1 s1 \<and> stream rp1 s1 = drop n (stream rp s) \<and> reads (nio_fd rp) s s1"
proof -
  obtain rp1 s1 where "nio_readnb rp buf n s =
       Inr ((int (length (take n (stream rp s))),
         take n (stream rp s) @ drop (length (take n (stream rp s))) buf, rp1), s1)"
     "readable rp1 s1" "stream rp s = take n (stream rp s) @ stream rp1 s1" "reads (nio_fd rp) s s1"
    using nio_readnb_loop_clean [OF assms(1), of 0 n buf n] assms(2) by (auto simp: nio_readnb_def)
  moreover from this(3) have "stream rp1 s1 = drop n (stream rp s)"
    by (metis append_take_drop_id same_append_eq)
  ultimately show ?thesis by blast
qed

lemma nio_readn_loop_clean:
  "fd \<in> os_open s \<Longrightarrow> clean (os_in s fd) \<Longrightarrow> off + nleft \<le> length buf \<Longrightarrow> nleft \<le> n \<Longrightarrow>
   cs = take nleft (tape (os_in s fd)) \<Longrightarrow>
   \<exists>s1. nio_readn_loop fd buf off nleft n s =
       Inr ((int (n - nleft + length cs), take off buf @ cs @ drop (off + length cs) buf), s1) \<and>
     clean (os_in s1 fd) \<and> tape (os_in s fd) = cs @ tape (os_in s1 fd) \<and> reads fd s s1"
proof (induction "rd_size (os_in s fd)" arbitrary: s off nleft buf cs rule: less_induct)
  case less
  show ?case
  proof (cases "nleft = 0")
    case True
    then show ?thesis using less.prems by (subst nio_readn_loop.simps) (simp add: ret_def)
  next
    case False
    obtain r es where st: "rd_step nleft (os_in s fd) = (r, es)" by fastforce
    have cl: "clean es" "r = Inl e \<Longrightarrow> e = EINTR \<and> tape es = tape (os_in s fd)"
      "r = Inr bs \<Longrightarrow> tape (os_in s fd) = bs @ tape es \<and> length bs \<le> nleft \<and> (bs = [] \<longleftrightarrow> os_in s fd = [])"
      for e bs using rd_step_clean [OF less.prems(2) _ st] False by auto
    show ?thesis
    proof (cases r)
      case (Inl e)
      let ?s = "s\<lparr>os_errno := EINTR, os_in := (os_in s)(fd := es)\<rparr>"
      have rd: "sys_read fd nleft s = Inr ((- 1, []), ?s)"
        using less.prems(1) st Inl cl(2) [OF Inl] by (simp add: sys_read_def)
      have rs: "reads fd s ?s" by (rule readsI [where en = EINTR and es = es]) simp
      have "\<exists>s1. nio_readn_loop fd buf off nleft n ?s =
           Inr ((int (n - nleft + length cs), take off buf @ cs @ drop (off + length cs) buf), s1) \<and>
         clean (os_in s1 fd) \<and> tape (os_in ?s fd) = cs @ tape (os_in s1 fd) \<and> reads fd ?s s1"
        using less.prems cl(1) cl(2) [OF Inl] sys_read_size [OF rd] False
        by (intro less.hyps) auto
      then show ?thesis using rd False cl(2) [OF Inl] reads_trans [OF rs]
        by (subst nio_readn_loop.simps) auto
    next
      case (Inr bs)
      let ?s = "s\<lparr>os_in := (os_in s)(fd := es)\<rparr>" and ?k = "length bs"
      let ?buf = "take off buf @ bs @ drop (off + length bs) buf"
      note bs = cl(3) [OF Inr]
      have rd: "sys_read fd nleft s = Inr ((int ?k, bs), ?s)"
        using less.prems(1) st Inr by (simp add: sys_read_def)
      have rs: "reads fd s ?s" by (rule readsI [where en = "os_errno s" and es = es]) simp
      show ?thesis
      proof (cases "bs = []")
        case True
        then have "os_in s fd = []" "es = []" using bs st by auto
        with True rd False less.prems rs show ?thesis
          by (subst nio_readn_loop.simps) (simp add: ret_def)
      next
        case ne: False
        let ?cs = "take (nleft - ?k) (tape es)"
        have cs: "cs = bs @ ?cs" using less.prems(5) bs by simp
        have w: "blk_write buf off bs = Inr ?buf"
          using bs less.prems(3) by (intro blk_write_Inr) simp
        have "\<exists>s1. nio_readn_loop fd ?buf (off + ?k) (nleft - ?k) n ?s =
            Inr ((int (n - (nleft - ?k) + length ?cs),
              take (off + ?k) ?buf @ ?cs @ drop (off + ?k + length ?cs) ?buf), s1) \<and>
            clean (os_in s1 fd) \<and> tape (os_in ?s fd) = ?cs @ tape (os_in s1 fd) \<and> reads fd ?s s1"
          using less.prems bs cl(1) sys_read_size [OF rd] False ne by (intro less.hyps) auto
        then obtain s1 where ih: "nio_readn_loop fd ?buf (off + ?k) (nleft - ?k) n ?s =
            Inr ((int (n - (nleft - ?k) + length ?cs),
              take (off + ?k) ?buf @ ?cs @ drop (off + ?k + length ?cs) ?buf), s1)"
            "clean (os_in s1 fd)" "tape es = ?cs @ tape (os_in s1 fd)" "reads fd ?s s1"
          by auto
        have "n - (nleft - ?k) + length ?cs = n - nleft + length cs"
          using less.prems(4) bs by (subst cs) simp
        moreover have "take (off + ?k) ?buf @ ?cs @ drop (off + ?k + length ?cs) ?buf =
            take off buf @ cs @ drop (off + length cs) buf"
          using less.prems(3) bs two_writes [of off bs ?cs buf]
          by (subst (1 2) cs) (simp add: ac_simps)
        moreover have "nio_readn_loop fd buf off nleft n s =
            nio_readn_loop fd ?buf (off + ?k) (nleft - ?k) n ?s"
          using False rd ne w by (subst nio_readn_loop.simps) (simp add: lift_res_def)
        moreover have "tape (os_in s fd) = cs @ tape (os_in s1 fd)"
          using bs ih(3) cs by (metis append.assoc)
        ultimately show ?thesis using ih(1,2) reads_trans [OF rs ih(4)] by auto
      qed
    qed
  qed
qed

lemma nio_readn_clean:
  assumes "fd \<in> os_open s" "clean (os_in s fd)" "n \<le> length buf"
  shows "\<exists>s1. nio_readn fd buf n s =
       Inr ((int (length (take n (tape (os_in s fd)))),
         take n (tape (os_in s fd)) @ drop (length (take n (tape (os_in s fd)))) buf), s1) \<and>
     tape (os_in s1 fd) = drop n (tape (os_in s fd)) \<and> reads fd s s1"
proof -
  obtain s1 where "nio_readn fd buf n s =
       Inr ((int (length (take n (tape (os_in s fd)))),
         take n (tape (os_in s fd)) @ drop (length (take n (tape (os_in s fd)))) buf), s1)"
     "tape (os_in s fd) = take n (tape (os_in s fd)) @ tape (os_in s1 fd)" "reads fd s s1"
    using nio_readn_loop_clean [OF assms(1,2), of 0 n buf n] assms(3) by (auto simp: nio_readn_def)
  moreover from this(2) have "tape (os_in s1 fd) = drop n (tape (os_in s fd))"
    by (metis append_take_drop_id same_append_eq)
  ultimately show ?thesis by blast
qed

subsection \<open>Progress on every script\<close>

text \<open>
  \<open>nio_work\<close>: what is left of the script and of the buffer.  No call adds to it, and on an open
  descriptor a call of \<open>nio_readlineb\<close> that returns anything but \<open>0\<close>, an error too, takes from it.
\<close>

definition nio_work :: "nio \<Rightarrow> os \<Rightarrow> nat" where
  "nio_work rp s = rd_size (os_in s (nio_fd rp)) + nat (nio_cnt rp)"

definition progress :: "bool \<Rightarrow> nio \<Rightarrow> os \<Rightarrow> nio \<Rightarrow> os \<Rightarrow> bool" where
  "progress strict rp s rp' s' \<longleftrightarrow> nio_fd rp' = nio_fd rp \<and> os_open s' = os_open s \<and>
     (nio_fd rp \<in> os_open s \<longrightarrow> nio_work rp' s' \<le> nio_work rp s \<and> (strict \<longrightarrow> nio_work rp' s' < nio_work rp s))"

lemma progress_trans:
  "progress b rp s rp1 s1 \<Longrightarrow> progress b' rp1 s1 rp2 s2 \<Longrightarrow> progress (b \<or> b') rp s rp2 s2"
  by (auto simp: progress_def)

lemma progress_weaken: "progress b rp s rp' s' \<Longrightarrow> (b' \<Longrightarrow> b) \<Longrightarrow> progress b' rp s rp' s'"
  by (auto simp: progress_def)

lemma sys_read_work:
  assumes "sys_read fd n s = Inr ((rc, bs), s1)"
  shows "os_open s1 = os_open s \<and> length bs = nat rc \<and> (fd \<in> os_open s \<longrightarrow>
    rd_size (os_in s1 fd) + nat rc \<le> rd_size (os_in s fd) \<and>
    (rc < 0 \<longrightarrow> rd_size (os_in s1 fd) < rd_size (os_in s fd)))"
proof (cases "fd \<in> os_open s")
  case True
  then show ?thesis
    using assms by (cases "(n, os_in s fd)" rule: rd_step.cases)
      (auto simp: sys_read_def split: if_splits)
qed (use assms in \<open>auto simp: sys_read_def\<close>)

lemma nio_fill_progress:
  "nio_fill rp s = Inr ((r, rp1), s1) \<Longrightarrow>
     progress (case r of Some rc \<Rightarrow> rc < 0 | None \<Rightarrow> False) rp s rp1 s1 \<and> (\<forall>rc. r = Some rc \<longrightarrow> rc \<le> 0)"
proof (induction rp s rule: nio_fill.induct)
  case (1 rp s)
  let ?strict = "\<lambda>r :: int option. case r of Some rc \<Rightarrow> rc < 0 | None \<Rightarrow> False"
  show ?case
  proof (cases "0 < nio_cnt rp")
    case True
    then show ?thesis using 1(3) by (simp add: nio_fill.simps ret_def progress_def)
  next
    case cnt: False
    from 1(3) cnt obtain rc bs t where rd: "sys_read (nio_fd rp) NIO_BUFSIZE s = Inr ((rc, bs), t)"
      by (subst (asm) nio_fill.simps) (auto simp: bnd_eq_Inr_iff)
    from 1(3) cnt rd obtain buf where wr: "lift_res (blk_write (nio_buf rp) 0 bs) t = Inr (buf, t)"
      by (subst (asm) nio_fill.simps) (auto simp: bnd_eq_Inr_iff lift_res_def split: sum.splits)
    define q where "q = rp\<lparr>nio_cnt := rc, nio_buf := buf\<rparr>"
    define q0 where "q0 = rp\<lparr>nio_cnt := rc, nio_buf := buf, nio_bufptr := 0\<rparr>"
    have run: "nio_fill rp s =
       (if rc < 0 then
          if os_errno t = ECONNRESET then ret (Some 0, q) t
          else if os_errno t \<noteq> EINTR then ret (Some (- 1), q) t
          else nio_fill q t
        else if rc = 0 then ret (Some 0, q) t
        else nio_fill q0 t)"
      using cnt by (subst nio_fill.simps) (simp add: bnd_Inr [of "sys_read (nio_fd rp) NIO_BUFSIZE" s, OF rd] wr q_def q0_def)
    have p: "progress (rc < 0) rp s q t" "progress (rc < 0) rp s q0 t"
      using sys_read_work [OF rd] cnt by (auto simp: progress_def nio_work_def q_def q0_def)
    note ih = 1(1) [OF cnt rd refl wr, folded q_def] 1(2) [OF cnt rd refl wr, folded q0_def]
    consider (intr) "rc < 0" "os_errno t = EINTR" | (err) "rc < 0" "os_errno t \<noteq> EINTR"
      | (eof) "rc = 0" | (data) "0 < rc" by fastforce
    then show ?thesis
    proof cases
      case intr
      with run 1(3) have r: "nio_fill q t = Inr ((r, rp1), s1)" by simp
      have "progress (?strict r) q t rp1 s1 \<and> (\<forall>rc. r = Some rc \<longrightarrow> rc \<le> 0)"
        by (rule ih(1)) (use intr r in simp_all)
      with p(1) show ?thesis by (blast intro: progress_weaken dest: progress_trans)
    next
      case data
      with run 1(3) have r: "nio_fill q0 t = Inr ((r, rp1), s1)" by simp
      have "progress (?strict r) q0 t rp1 s1 \<and> (\<forall>rc. r = Some rc \<longrightarrow> rc \<le> 0)"
        by (rule ih(2)) (use data r in simp_all)
      with p(2) show ?thesis by (blast intro: progress_weaken dest: progress_trans)
    qed (use run 1(3) p in \<open>auto simp: ret_def split: if_splits elim: progress_weaken\<close>)
  qed
qed

lemma nio_read_progress:
  assumes "nio_read rp 1 s = Inr ((rc, cs, rp1), s1)"
  shows "progress (rc \<noteq> 0) rp s rp1 s1"
  using assms
proof (cases rule: nio_read_cases)
  case returned
  from nio_fill_progress [OF returned(1)] have "progress (rc < 0) rp s rp1 s1" "rc \<le> 0" by simp_all
  then show ?thesis by (auto elim: progress_weaken)
next
  case (copied rp2)
  from nio_fill_progress [OF copied(1)] have "progress False rp s rp2 s1" by simp
  moreover have "progress True rp2 s1 rp1 s1" using copied(2,3,5) by (auto simp: progress_def nio_work_def)
  ultimately have "progress (False \<or> True) rp s rp1 s1" by (rule progress_trans)
  then show ?thesis by (auto elim: progress_weaken)
qed

lemma nio_readlineb_loop_progress:
  "nio_readlineb_loop rp buf off n maxlen s = Inr ((rc, buf', rp1), s1) \<Longrightarrow>
     progress (to_size n < maxlen \<and> (rc \<noteq> 0 \<and> n = 1)) rp s rp1 s1"
proof (induction rp buf off n maxlen s rule: nio_readlineb_loop.induct)
  case (1 rp buf off n maxlen s)
  show ?case
  proof (cases "to_size n < maxlen")
    case False
    then show ?thesis using 1(2)
      by (subst (asm) nio_readlineb_loop.simps) (auto simp: bnd_eq_Inr_iff lift_res_def ret_def progress_def split: sum.splits)
  next
    case True
    from 1(2) True obtain k cs rp2 s2 where rd: "nio_read rp 1 s = Inr ((k, cs, rp2), s2)"
      by (subst (asm) nio_readlineb_loop.simps) (auto simp: bnd_eq_Inr_iff)
    have p: "progress (k \<noteq> 0) rp s rp2 s2" by (rule nio_read_progress [OF rd])
    note run = 1(2) [unfolded nio_readlineb_loop.simps [of rp buf off n maxlen s] if_P [OF True]
        bnd_Inr [of "nio_read rp 1" s, OF rd] prod.case]
    show ?thesis
    proof (cases "k = 1 \<and> cs \<noteq> [LF]")
      case c: True
      with run obtain buf1 n1 where "lift_res (blk_write buf off cs) s2 = Inr (buf1, s2)"
        "lift_res (c_inc n) s2 = Inr (n1, s2)"
        "nio_readlineb_loop rp2 buf1 (off + 1) n1 maxlen s2 = Inr ((rc, buf', rp1), s1)"
        by (auto simp: bnd_eq_Inr_iff lift_res_def split: sum.splits)
      with 1(1) [OF True rd] c have "progress False rp2 s2 rp1 s1" by (blast intro: progress_weaken)
      with p have "progress (k \<noteq> 0 \<or> False) rp s rp1 s1" by (rule progress_trans)
      with c show ?thesis by (auto elim: progress_weaken)
    next
      case False
      with run have eq: "rp1 = rp2 \<and> s1 = s2 \<and> (k = 0 \<and> n = 1 \<longrightarrow> rc = 0)"
        by (auto simp: bnd_eq_Inr_iff lift_res_def ret_def split: sum.splits if_splits)
      from p have "progress (to_size n < maxlen \<and> (rc \<noteq> 0 \<and> n = 1)) rp s rp2 s2"
        by (rule progress_weaken) (use eq in auto)
      with eq show ?thesis by simp
    qed
  qed
qed

lemma nio_readlineb_progress:
  "nio_readlineb rp buf maxlen s = Inr ((rc, buf', rp1), s1) \<Longrightarrow> 1 < maxlen \<Longrightarrow>
     progress (rc \<noteq> 0) rp s rp1 s1"
  using nio_readlineb_loop_progress [of rp buf 0 1 maxlen s rc buf' rp1 s1] to_size_nonneg [of 1]
  by (auto simp: nio_readlineb_def SIZE_MOD_def elim: progress_weaken)

text \<open>No loop here runs out of anything: what stops a call is an access outside a buffer.\<close>

lemma nio_fill_stops: "nio_fill rp s = Inl e \<Longrightarrow> e = Overflow"
proof (induction rp s rule: nio_fill.induct)
  case (1 rp s)
  show ?case using 1(3) 1(1,2) unfolding nio_fill.simps [of rp s]
    by (auto simp: bnd_def ret_def lift_res_def blk_write_def sys_read_def split: if_splits sum.splits prod.splits; blast)
qed

lemma nio_read_stops: "nio_read rp n s = Inl e \<Longrightarrow> e \<noteq> No_fuel"
  using nio_fill_stops [of rp s e]
  by (auto simp: nio_read_def bnd_def ret_def lift_res_def blk_read_def Let_def
      split: if_splits sum.splits prod.splits option.splits)

lemma nio_readlineb_loop_stops:
  "nio_readlineb_loop rp buf off n maxlen s = Inl e \<Longrightarrow> e \<noteq> No_fuel"
proof (induction rp buf off n maxlen s rule: nio_readlineb_loop.induct)
  case (1 rp buf off n maxlen s)
  show ?case using 1(2) 1(1) nio_read_stops [of rp 1 s e] unfolding nio_readlineb_loop.simps [of rp buf off n maxlen s]
    by (auto simp: bnd_def ret_def lift_res_def blk_write_def c_inc_def
      split: if_splits sum.splits prod.splits)
qed

lemma nio_writen_loop_stops:
  "nio_writen_loop fd buf off nleft n s = Inl e \<Longrightarrow> e \<noteq> No_fuel"
proof (induction fd buf off nleft n s rule: nio_writen_loop.induct)
  case (1 fd buf off nleft n s)
  have w: "sys_write fd buf off nleft s = Inl e \<Longrightarrow> e \<noteq> No_fuel"
    by (auto simp: sys_write_def blk_read_def split: if_splits list.splits wr_event.splits)
  show ?case using 1(3) 1(1,2) w unfolding nio_writen_loop.simps [of fd buf off nleft n s]
    by (auto simp: bnd_def ret_def split: if_splits sum.splits prod.splits)
qed

lemma sys_write_keeps:
  "sys_write fd buf off n s = Inr (rc, s1) \<Longrightarrow> os_open s1 = os_open s \<and> os_in s1 = os_in s"
  by (auto simp: sys_write_def os_accept_bytes_def split: if_splits list.splits wr_event.splits sum.splits)

lemma nio_writen_loop_keeps:
  "nio_writen_loop fd buf off nleft n s = Inr (rc, s1) \<Longrightarrow> os_open s1 = os_open s \<and> os_in s1 = os_in s"
proof (induction fd buf off nleft n s rule: nio_writen_loop.induct)
  case (1 fd buf off nleft n s)
  show ?case
  proof (cases "nleft = 0")
    case True
    then show ?thesis using 1(3) by (simp add: nio_writen_loop.simps ret_def)
  next
    case False
    from 1(3) False obtain k t where w: "sys_write fd buf off nleft s = Inr (k, t)"
      by (subst (asm) nio_writen_loop.simps) (auto simp: bnd_eq_Inr_iff)
    have "t = s1 \<or> os_open s1 = os_open t \<and> os_in s1 = os_in t"
      using 1(3) 1(1,2) [OF False w] False
      unfolding nio_writen_loop.simps [of fd buf off nleft n s] bnd_Inr [of "sys_write fd buf off nleft" s, OF w]
      by (auto simp: bnd_def w ret_def split: if_splits)
    then show ?thesis using sys_write_keeps [OF w] by auto
  qed
qed

end
