(* ===== verification/Uri.thy ===== *)
theory Uri
  imports Os
begin

section \<open>Splitting a URI (\<open>parse_uri\<close> of \<open>lib/src/proxy-module.c\<close>)\<close>

text \<open>
  A pointer into the URI is the rest of its characters; at the end it points to the terminator.
  The results go into the caller's three buffers.  \<open>scheme\<close> is an array of ten bytes on the stack.
\<close>

definition peek :: "string \<Rightarrow> char" where
  "peek cs = (case cs of [] \<Rightarrow> NUL | c # _ \<Rightarrow> c)"

lemma peek_simps [simp]: "peek [] = NUL" "peek (c # cs) = c"
  by (simp_all add: peek_def)

abbreviation COLON :: char where "COLON \<equiv> CHR 0x3A"
abbreviation SLASH :: char where "SLASH \<equiv> CHR 0x2F"

text \<open>Each part stores what it reads and gives back the buffer and the rest of the URI.\<close>

definition uri_host :: "string \<Rightarrow> block \<Rightarrow> (os, block \<times> string) cmd" where
  "uri_host p host =
     (let h = takeWhile (\<lambda>c. c \<noteq> SLASH \<and> c \<noteq> COLON \<and> c \<noteq> LF) p in
     bnd (lift_res (blk_write host 0 h)) (\<lambda>host.
     bnd (lift_res (blk_write host (length h) [NUL])) (\<lambda>host.
     ret (host, drop (length h) p))))"

definition uri_port :: "string \<Rightarrow> block \<Rightarrow> (os, block \<times> string) cmd" where
  "uri_port q port =
     (if peek q = COLON then
        let p = tl q; d = takeWhile isdigit p in
        bnd (lift_res (blk_write port 0 d)) (\<lambda>port. ret (port, drop (length d) p))
      else bnd (lift_res (blk_puts port ''80'')) (\<lambda>port. ret (port, q)))"

definition uri_path :: "string \<Rightarrow> block \<Rightarrow> (os, block) cmd" where
  "uri_path p path =
     (if peek p = SLASH then
        let t = takeWhile (\<lambda>c. c \<noteq> LF) p in
        bnd (lift_res (blk_write path 0 t)) (\<lambda>path. lift_res (blk_write path (length t) [NUL]))
      else lift_res (blk_puts path ''/''))"

definition parse_uri ::
  "junk \<Rightarrow> block \<Rightarrow> block \<Rightarrow> block \<Rightarrow> block \<Rightarrow> (os, bool \<times> block \<times> block \<times> block) cmd" where
  "parse_uri junk uri host port path =
     bnd (lift_res (c_str uri)) (\<lambda>u.
     let len = length (takeWhile (\<lambda>c. c \<noteq> COLON) u) in
     if len = length u then ret (False, host, port, path)
     else
     bnd (lift_res (blk_write (local_array junk ''scheme'' 10) 0 (take len u))) (\<lambda>scheme.
     bnd (lift_res (blk_write scheme len [NUL])) (\<lambda>scheme.
     bnd (lift_res (c_str scheme)) (\<lambda>sc.
     if \<not> strcasecmp0 sc ''http'' then
       bnd (print_out [''Requested uri includes unsupported scheme, only support HTTP request so far'']) (\<lambda>_.
       ret (False, host, port, path))
     else
       let p = drop (len + 1) u in
       if peek p \<noteq> SLASH then ret (False, host, port, path)
       else if peek (tl p) \<noteq> SLASH then ret (False, host, port, path)
       else
         bnd (uri_host (drop 2 p) host) (\<lambda>(host, q).
         bnd (uri_port q port) (\<lambda>(port, p).
         bnd (uri_path p path) (\<lambda>path.
         ret (True, host, port, path))))))))"

subsection \<open>The scheme\<close>

lemma c_str_NUL: "c_str blk = Inr u \<Longrightarrow> NUL \<notin> set u"
  using NUL_notin_cstr [of blk] by (simp only: c_str_def split: if_splits) blast+

lemma takeWhile_all: "\<forall>x \<in> set xs. p x \<Longrightarrow> takeWhile p xs = xs"
  by (simp add: takeWhile_eq_all_conv)

lemma colon_split:
  "COLON \<notin> set sc \<Longrightarrow> takeWhile (\<lambda>c. c \<noteq> COLON) (sc @ COLON # p) = sc"
  by (subst takeWhile_append2) auto

text \<open>A first colon at position 10 or later makes \<open>parse_uri\<close> write behind \<open>scheme\<close>.\<close>

lemma parse_uri_overflow:
  assumes "c_str uri = Inr (sc @ COLON # rest)" "COLON \<notin> set sc" "10 \<le> length sc"
  shows "parse_uri junk uri host port path s = Inl Overflow"
proof (cases "length sc = 10")
  case True
  then have "blk_write (local_array junk ''scheme'' 10) 0 sc = Inr sc" by (simp add: blk_write_def)
  with True assms show ?thesis
    by (simp add: parse_uri_def cmd_simps Let_def colon_split blk_write_Inl)
next
  case False
  with assms show ?thesis
    by (simp add: parse_uri_def cmd_simps Let_def colon_split blk_write_Inl)
qed

lemma parse_uri_no_colon:
  assumes "c_str uri = Inr u" "COLON \<notin> set u"
  shows "parse_uri junk uri host port path s = Inr ((False, host, port, path), s)"
proof -
  have "takeWhile (\<lambda>c. c \<noteq> COLON) u = u" using assms(2) by (intro takeWhile_all) auto
  then show ?thesis using assms(1) by (simp only: parse_uri_def bnd_lift_res ret_def Let_def if_True simp_thms)
qed

lemma parse_uri_scheme:
  assumes "c_str uri = Inr (sc @ COLON # p)" "COLON \<notin> set sc" "NUL \<notin> set sc" "length sc < 10"
  shows "parse_uri junk uri host port path s =
     (if \<not> strcasecmp0 sc ''http'' then
       bnd (print_out [''Requested uri includes unsupported scheme, only support HTTP request so far'']) (\<lambda>_.
       ret (False, host, port, path))
     else
       if peek p \<noteq> SLASH then ret (False, host, port, path)
       else if peek (tl p) \<noteq> SLASH then ret (False, host, port, path)
       else
         bnd (uri_host (drop 2 p) host) (\<lambda>(host, q).
         bnd (uri_port q port) (\<lambda>(port, p).
         bnd (uri_path p path) (\<lambda>path.
         ret (True, host, port, path))))) s"
proof -
  let ?a = "local_array junk ''scheme'' 10"
  have w: "blk_write ?a 0 sc = Inr (sc @ drop (length sc) ?a)"
    "blk_write (sc @ drop (length sc) ?a) (length sc) [NUL] = Inr (sc @ NUL # drop (Suc (length sc)) ?a)"
    "c_str (sc @ NUL # drop (Suc (length sc)) ?a) = Inr sc"
    using assms(3,4) by (simp_all add: blk_write_def c_str_def)
  have d: "take (length sc) (sc @ COLON # p) = sc" "drop (length sc + 1) (sc @ COLON # p) = p"
    "length sc = length (sc @ COLON # p) \<longleftrightarrow> False"
    by simp_all
  show ?thesis
    by (simp only: parse_uri_def assms(1) colon_split [OF assms(2)] bnd_lift_res w d Let_def if_False)
qed

subsection \<open>The other parts\<close>

lemma write_terminated:
  assumes "length t < length blk"
  shows "bnd (lift_res (blk_write blk 0 t)) (\<lambda>b. bnd (lift_res (blk_write b (length t) [NUL])) f) s =
    f (t @ NUL # drop (Suc (length t)) blk) s"
  using assms by (simp add: blk_write_Inr bnd_lift_res)

lemma uri_host_ok:
  assumes "\<forall>c \<in> set h. c \<noteq> SLASH \<and> c \<noteq> COLON \<and> c \<noteq> LF" "r = [] \<or> hd r \<in> {SLASH, COLON, LF}"
    and "length h < length host"
  shows "uri_host (h @ r) host s = Inr ((h @ NUL # drop (Suc (length h)) host, r), s)"
proof -
  have "takeWhile (\<lambda>c. c \<noteq> SLASH \<and> c \<noteq> COLON \<and> c \<noteq> LF) (h @ r) = h"
    using assms(1,2) by (subst takeWhile_append2) (auto simp: takeWhile_eq_Nil_iff)
  then show ?thesis using assms(3) by (simp add: uri_host_def Let_def write_terminated ret_def)
qed

lemma uri_port_ok:
  assumes "\<forall>c \<in> set d. isdigit c" "r = [] \<or> \<not> isdigit (hd r)" "length d \<le> length port"
  shows "uri_port (COLON # d @ r) port s = Inr ((d @ drop (length d) port, r), s)"
proof -
  have "takeWhile isdigit (d @ r) = d"
    using assms(1,2) by (subst takeWhile_append2) (auto simp: takeWhile_eq_Nil_iff)
  then show ?thesis using assms(3) by (simp add: uri_port_def Let_def bnd_lift_res blk_write_Inr ret_def)
qed

lemma uri_port_default:
  assumes "peek q \<noteq> COLON" "2 < length port"
  shows "uri_port q port s = Inr ((''80'' @ NUL # drop 3 port, q), s)"
  using assms by (simp add: uri_port_def bnd_lift_res blk_puts_Inr ret_def numeral_3_eq_3)

lemma uri_path_ok:
  assumes "peek t = SLASH" "LF \<notin> set t" "length t < length path"
  shows "uri_path t path s = Inr (t @ NUL # drop (Suc (length t)) path, s)"
proof -
  have tw: "takeWhile (\<lambda>c. c \<noteq> LF) t = t" using assms(2) by (intro takeWhile_all) auto
  show ?thesis unfolding uri_path_def tw Let_def
    using assms by (simp add: bnd_lift_res blk_write_Inr lift_res_def)
qed

lemma uri_path_default:
  assumes "peek t \<noteq> SLASH" "1 < length path"
  shows "uri_path t path s = Inr (''/'' @ NUL # drop 2 path, s)"
  using assms by (simp add: uri_path_def blk_puts_Inr lift_res_def numeral_2_eq_2)

subsection \<open>Printing and parsing\<close>

lemma http_chars:
  assumes "strcasecmp0 sc ''http''"
  shows "length sc = 4" "COLON \<notin> set sc" "NUL \<notin> set sc"
proof -
  from assms have m: "map to_lower sc = ''http''" by (simp add: strcasecmp0_def to_lower_def)
  show "length sc = 4" using strcasecmp0_length [OF assms] by simp
  have "to_lower c \<notin> set ''http'' \<Longrightarrow> c \<notin> set sc" for c using m by (metis image_eqI list.set_map)
  then show "COLON \<notin> set sc" "NUL \<notin> set sc" by (simp_all add: to_lower_def)
qed

text \<open>A URI with host \<open>h\<close>, the port \<open>po\<close> if there is one, and the path and query \<open>pa\<close>, if any.\<close>

definition uri_text :: "string \<Rightarrow> string \<Rightarrow> string option \<Rightarrow> string \<Rightarrow> string" where
  "uri_text sc h po pa = sc @ ''://'' @ h @ (case po of None \<Rightarrow> [] | Some d \<Rightarrow> COLON # d) @ pa"

definition uri_parts_ok :: "string \<Rightarrow> string option \<Rightarrow> string \<Rightarrow> bool" where
  "uri_parts_ok h po pa \<longleftrightarrow>
     (\<forall>c \<in> set h. c \<noteq> SLASH \<and> c \<noteq> COLON \<and> c \<noteq> LF) \<and>
     (\<forall>d. po = Some d \<longrightarrow> (\<forall>c \<in> set d. isdigit c)) \<and>
     (pa = [] \<or> hd pa = SLASH) \<and> LF \<notin> set pa"

lemma not_isdigit_SLASH [simp]: "\<not> isdigit SLASH"
  by (simp add: isdigit_def)

lemma parse_uri_ok:
  assumes "c_str uri = Inr (uri_text sc h po pa)" "strcasecmp0 sc ''http''" "uri_parts_ok h po pa"
    and room: "length h < length host" "length pa < length path" "1 < length path"
      "case po of None \<Rightarrow> 2 < length port | Some d \<Rightarrow> length d \<le> length port"
  shows "parse_uri junk uri host port path s = Inr ((True,
     h @ NUL # drop (Suc (length h)) host,
     (case po of None \<Rightarrow> ''80'' @ NUL # drop 3 port | Some d \<Rightarrow> d @ drop (length d) port),
     (if pa = [] then ''/'' @ NUL # drop 2 path else pa @ NUL # drop (Suc (length pa)) path)), s)"
proof -
  let ?q = "(case po of None \<Rightarrow> [] | Some d \<Rightarrow> COLON # d) @ pa"
  have c: "c_str uri = Inr (sc @ COLON # (''//'' @ h @ ?q))"
    using assms(1) by (simp add: uri_text_def)
  note ok = assms(3) [unfolded uri_parts_ok_def]
  have hd_pa: "pa \<noteq> [] \<Longrightarrow> hd pa = SLASH" using ok by blast
  have "?q = [] \<or> hd ?q \<in> {SLASH, COLON, LF}" using hd_pa by (cases po) auto
  then have h: "uri_host (h @ ?q) host s = Inr ((h @ NUL # drop (Suc (length h)) host, ?q), s)"
    using ok room(1) by (intro uri_host_ok) auto
  have "pa = [] \<or> \<not> isdigit (hd pa)" using hd_pa by auto
  then have p: "uri_port ?q port s =
      Inr ((case po of None \<Rightarrow> ''80'' @ NUL # drop 3 port | Some d \<Rightarrow> d @ drop (length d) port, pa), s)"
    using ok room(4) uri_port_ok [of _ pa port s] uri_port_default [of pa port s] hd_pa
    by (cases po; cases pa) (auto simp del: append_Nil2)
  have t: "uri_path pa path s =
      Inr (if pa = [] then ''/'' @ NUL # drop 2 path else pa @ NUL # drop (Suc (length pa)) path, s)"
    using uri_path_ok [of pa path s] uri_path_default [of pa path s] ok room(2,3) by (cases pa) auto
  show ?thesis
    using assms(2) http_chars [OF assms(2)] h p t
    by (subst parse_uri_scheme [OF c]) (auto simp: ret_def)
qed

lemma cstr_Cons: "cstr (c # cs) = (if c = NUL then [] else c # cstr cs)"
  by (simp add: cstr_def)

lemma cstr_padded [simp]: "NUL \<notin> set xs \<Longrightarrow> cstr (xs @ drop n (replicate k NUL)) = xs"
  by (simp add: drop_replicate)

text \<open>With zeroed buffers, as in \<open>worker_main\<close>, the caller reads back the parts as strings.\<close>

lemma parse_uri_roundtrip:
  assumes "c_str uri = Inr (uri_text sc h po pa)" "strcasecmp0 sc ''http''" "uri_parts_ok h po pa"
    and "length h < n" "length pa < n" "2 < n" "case po of None \<Rightarrow> True | Some d \<Rightarrow> length d < n"
  shows "\<exists>hb pb qb. parse_uri junk uri (replicate n NUL) (replicate n NUL) (replicate n NUL) s =
      Inr ((True, hb, pb, qb), s) \<and>
    c_str hb = Inr h \<and> c_str pb = Inr (case po of None \<Rightarrow> ''80'' | Some d \<Rightarrow> d) \<and>
    c_str qb = Inr (if pa = [] then ''/'' else pa) \<and> length hb = n \<and> length pb = n \<and> length qb = n"
proof -
  have "NUL \<notin> set (uri_text sc h po pa)" using assms(1) by (rule c_str_NUL)
  then have nul: "NUL \<notin> set h" "\<And>d. po = Some d \<Longrightarrow> NUL \<notin> set d" "NUL \<notin> set pa"
    by (auto simp: uri_text_def)
  have room: "case po of None \<Rightarrow> 2 < length (replicate n NUL) | Some d \<Rightarrow> length d \<le> length (replicate n NUL)"
    using assms(6,7) by (cases po) auto
  show ?thesis
    using parse_uri_ok [OF assms(1-3), of "replicate n NUL" "replicate n NUL" "replicate n NUL" junk s]
      room assms(4-7) nul
    by (cases po) (auto simp: c_str_def drop_replicate cstr_Cons)
qed

subsection \<open>No other outcome\<close>

lemma uri_host_total:
  assumes "length p < length host"
  shows "\<exists>hb q. uri_host p host s = Inr ((hb, q), s) \<and> length q \<le> length p"
proof -
  let ?h = "takeWhile (\<lambda>c. c \<noteq> SLASH \<and> c \<noteq> COLON \<and> c \<noteq> LF) p"
  have "length ?h < length host" using assms length_takeWhile_le le_less_trans by blast
  then show ?thesis by (simp add: uri_host_def Let_def write_terminated ret_def)
qed

lemma uri_port_total:
  assumes "length q \<le> length port" "2 < length port"
  shows "\<exists>pb p. uri_port q port s = Inr ((pb, p), s) \<and> length p \<le> length q"
proof -
  have "length (takeWhile isdigit (tl q)) \<le> length port"
    using assms length_takeWhile_le [of isdigit "tl q"] by simp
  then show ?thesis using assms(2)
    by (simp add: uri_port_def Let_def bnd_lift_res blk_write_Inr blk_puts_Inr ret_def)
qed

lemma uri_path_total:
  assumes "length p < length path" "1 < length path"
  shows "\<exists>qb. uri_path p path s = Inr (qb, s)"
proof -
  have "length (takeWhile (\<lambda>c. c \<noteq> LF) p) < length path"
    using assms(1) length_takeWhile_le le_less_trans by blast
  then show ?thesis using assms(2)
    by (simp add: uri_path_def Let_def bnd_lift_res blk_write_Inr blk_puts_Inr lift_res_def)
qed

text \<open>With room for the whole URI in the caller's buffers, the scheme is the only danger.\<close>

lemma parse_uri_stops_iff:
  assumes u: "c_str uri = Inr u"
    and room: "length u < length host" "length u < length port" "length u < length path"
  shows "(\<exists>e. parse_uri junk uri host port path s = Inl e) \<longleftrightarrow>
    COLON \<in> set u \<and> 10 \<le> length (takeWhile (\<lambda>c. c \<noteq> COLON) u)"
proof (cases "COLON \<in> set u")
  case False
  then show ?thesis using parse_uri_no_colon [OF u] by simp
next
  case True
  then obtain sc p where sp: "u = sc @ COLON # p" "COLON \<notin> set sc" by (meson split_list_first)
  have nul: "NUL \<notin> set sc" using c_str_NUL [OF u] sp by simp
  show ?thesis
  proof (cases "10 \<le> length sc")
    case True
    then show ?thesis using parse_uri_overflow [OF u [unfolded sp] sp(2)] sp by (simp add: colon_split)
  next
    case False
    have "\<exists>r. parse_uri junk uri host port path s = Inr r"
    proof (cases "strcasecmp0 sc ''http'' \<and> peek p = SLASH \<and> peek (tl p) = SLASH")
      case True
      then have lp: "2 \<le> length p" by (cases p; cases "tl p") auto
      have "length (drop 2 p) < length host" using room sp by simp
      then obtain hb q where h: "uri_host (drop 2 p) host s = Inr ((hb, q), s)"
        "length q \<le> length (drop 2 p)" using uri_host_total by blast
      have "length q \<le> length port" "2 < length port" using h(2) room sp lp by auto
      then obtain pb p' where po: "uri_port q port s = Inr ((pb, p'), s)" "length p' \<le> length q"
        using uri_port_total by blast
      have "length p' < length path" "1 < length path" using po(2) h(2) room sp lp by auto
      then obtain qb where "uri_path p' path s = Inr (qb, s)" using uri_path_total by blast
      with h po True show ?thesis
        using parse_uri_scheme [OF u [unfolded sp] sp(2) nul] False by (auto simp: ret_def)
    next
      case bad: False
      then show ?thesis
        using parse_uri_scheme [OF u [unfolded sp] sp(2) nul] False
        by (auto simp: ret_def print_out_def bnd_basic)
    qed
    then show ?thesis using False sp by (auto simp: colon_split)
  qed
qed

text \<open>Whatever it accepts has the scheme \<open>http\<close> and an authority.\<close>

lemma parse_uri_sound:
  assumes u: "c_str uri = Inr u" and r: "parse_uri junk uri host port path s = Inr ((True, r), s')"
  shows "\<exists>sc p. u = sc @ ''://'' @ p \<and> strcasecmp0 sc ''http''"
proof (cases "COLON \<in> set u")
  case False
  then show ?thesis using parse_uri_no_colon [OF u] r by simp
next
  case True
  then obtain sc p where sp: "u = sc @ COLON # p" "COLON \<notin> set sc" by (meson split_list_first)
  have nul: "NUL \<notin> set sc" using c_str_NUL [OF u] sp by simp
  have "length sc < 10"
    using parse_uri_overflow [OF u [unfolded sp] sp(2)] r by (metis Inl_not_Inr not_less)
  then have "strcasecmp0 sc ''http'' \<and> peek p = SLASH \<and> peek (tl p) = SLASH"
    using parse_uri_scheme [OF u [unfolded sp] sp(2) nul, of junk host port path s] r
    by (auto simp: ret_def print_out_def bnd_basic split: if_splits)
  then have "strcasecmp0 sc ''http''" "p = ''//'' @ drop 2 p"
    by (cases p; cases "tl p"; simp add: numeral_2_eq_2)+
  then have "u = sc @ ''://'' @ drop 2 p \<and> strcasecmp0 sc ''http''" using sp by simp
  then show ?thesis by blast
qed

end
