(* ===== verification/Request.thy ===== *)
theory Request
  imports Nio_Spec Uri
begin

section \<open>The request line and the error page (\<open>parse_request\<close>, \<open>response_failure\<close>)\<close>

text \<open>
  \<open>response_failure\<close> builds the page in an array of \<open>MAXBUF\<close> bytes with \<open>sprintf\<close>, reading from
  the array that it writes to.  C leaves that undefined, so what it makes of the array is a part of
  the state (\<open>os_overlap\<close>), and what the page looks like is stated where it \<open>appends\<close>.  Diagnostics
  that only go through the logging macros of \<open>comm.h\<close> are left out.
\<close>

definition MAXBUF :: nat where
  "MAXBUF = 8192"

abbreviation CRLF :: string where "CRLF \<equiv> [CR, LF]"

definition send_str :: "int \<Rightarrow> block \<Rightarrow> (os, unit) cmd" where
  "send_str fd buf =
     bnd (lift_res (c_strlen buf)) (\<lambda>n. bnd (nio_writen fd buf n) (\<lambda>_. ret ()))"

definition sprintf_append :: "block \<Rightarrow> string \<Rightarrow> (os, block) cmd" where
  "sprintf_append blk txt = bnd (gets os_overlap) (\<lambda>f. lift_res (f blk txt))"

definition response_failure ::
  "junk \<Rightarrow> int \<Rightarrow> string \<Rightarrow> string \<Rightarrow> string \<Rightarrow> string \<Rightarrow> (os, unit) cmd" where
  "response_failure junk connfd cause errnum shortmsg longmsg =
     bnd (lift_res (blk_puts (local_array junk ''body'' MAXBUF) ''<html><title>Proxy Error</title>'')) (\<lambda>body.
     bnd (sprintf_append body (''<body bgcolor=ffffff>'' @ CRLF)) (\<lambda>body.
     bnd (sprintf_append body (errnum @ '': '' @ shortmsg @ CRLF)) (\<lambda>body.
     bnd (sprintf_append body (''<p>'' @ longmsg @ '': '' @ cause @ CRLF)) (\<lambda>body.
     bnd (sprintf_append body (''<hr><em>The Mini Proxy server</em>'' @ CRLF)) (\<lambda>body.
     bnd (lift_res (blk_puts (local_array junk ''buf'' MAXLINE)
            (''HTTP/1.0 '' @ errnum @ '' '' @ shortmsg @ CRLF))) (\<lambda>buf.
     bnd (send_str connfd buf) (\<lambda>_.
     bnd (lift_res (blk_puts buf (''Content-type: text/html'' @ CRLF))) (\<lambda>buf.
     bnd (send_str connfd buf) (\<lambda>_.
     bnd (lift_res (c_strlen body)) (\<lambda>n.
     bnd (lift_res (blk_puts buf (''Content-length: '' @ dec_int (to_int n) @ CRLF @ CRLF))) (\<lambda>buf.
     bnd (send_str connfd buf) (\<lambda>_.
     send_str connfd body))))))))))))"

subsection \<open>Reading the request line\<close>

text \<open>One conversion \<open>%s\<close> of \<open>sscanf\<close>: the next word, and what follows it.\<close>

definition scan_str :: "string \<Rightarrow> (string \<times> string) option" where
  "scan_str t =
     (let r = dropWhile isspace t in
      if r = [] then None
      else Some (takeWhile (\<lambda>c. \<not> isspace c) r, dropWhile (\<lambda>c. \<not> isspace c) r))"

fun sscanf_strs :: "string \<Rightarrow> block list \<Rightarrow> stop + block list" where
  "sscanf_strs t [] = Inr []"
| "sscanf_strs t (b # bs) =
     (case scan_str t of
        None \<Rightarrow> Inr (b # bs)
      | Some (w, t') \<Rightarrow>
          (case blk_puts b w of
             Inl e \<Rightarrow> Inl e
           | Inr b' \<Rightarrow> (case sscanf_strs t' bs of Inl e \<Rightarrow> Inl e | Inr bs' \<Rightarrow> Inr (b' # bs'))))"

definition format_hint :: string where
  "format_hint = ''Valid request format: [method] [uri] [version], ex> GET http://google.com HTTP/1.0''"

definition parse_request ::
  "junk \<Rightarrow> int \<Rightarrow> string \<Rightarrow> block \<Rightarrow> block \<Rightarrow> block \<Rightarrow> (os, bool \<times> block \<times> block \<times> block) cmd" where
  "parse_request junk connfd request host port path =
     (if request = [] then
        bnd (response_failure junk connfd request ''400'' ''Bad request'' format_hint) (\<lambda>_.
        bnd (print_out [''Empty request detected'' @ [LF]]) (\<lambda>_.
        ret (False, host, port, path)))
      else
      bnd (lift_res (sscanf_strs request (replicate 3 (replicate MAXLINE NUL)))) (\<lambda>ws.
      let uri_blk = ws ! 1 in
      bnd (lift_res (c_str (ws ! 0))) (\<lambda>method.
      bnd (lift_res (c_str uri_blk)) (\<lambda>uri.
      bnd (lift_res (c_str (ws ! 2))) (\<lambda>protocol.
      if method = [] \<or> uri = [] \<or> protocol = [] then
        bnd (response_failure junk connfd request ''400'' ''Bad request'' format_hint) (\<lambda>_.
        bnd (print_out [''Invalid request format, empty field found'' @ [LF]]) (\<lambda>_.
        ret (False, host, port, path)))
      else if \<not> strcasecmp0 method ''GET'' then
        bnd (response_failure junk connfd method ''501'' ''Not implemented''
          ''Mini Proxy does not implement this method yet'') (\<lambda>_.
        ret (False, host, port, path))
      else if \<not> strcasecmp0 protocol ''HTTP/1.0'' \<and> \<not> strcasecmp0 protocol ''HTTP/1.1'' then
        bnd (response_failure junk connfd protocol ''400'' ''Bad request''
          ''Mini Proxy requires request version to be either HTTP/1.0 or HTPP/1.1'') (\<lambda>_.
        ret (False, host, port, path))
      else
        bnd (parse_uri junk uri_blk host port path) (\<lambda>(ok, host, port, path).
        if \<not> ok then
          bnd (response_failure junk connfd uri ''404'' ''Not found''
            ''Mini Proxy couldn't parse the request'') (\<lambda>_.
          ret (False, host, port, path))
        else ret (True, host, port, path)))))))"

subsection \<open>The page that is sent\<close>

definition failure_body :: "string \<Rightarrow> string \<Rightarrow> string \<Rightarrow> string \<Rightarrow> string" where
  "failure_body cause errnum shortmsg longmsg =
     ''<html><title>Proxy Error</title>'' @ ''<body bgcolor=ffffff>'' @ CRLF @
     errnum @ '': '' @ shortmsg @ CRLF @ ''<p>'' @ longmsg @ '': '' @ cause @ CRLF @
     ''<hr><em>The Mini Proxy server</em>'' @ CRLF"

definition failure_page :: "string \<Rightarrow> string \<Rightarrow> string \<Rightarrow> string \<Rightarrow> string" where
  "failure_page cause errnum shortmsg longmsg =
     ''HTTP/1.0 '' @ errnum @ '' '' @ shortmsg @ CRLF @
     ''Content-type: text/html'' @ CRLF @
     ''Content-length: '' @ dec_digits (length (failure_body cause errnum shortmsg longmsg)) @ CRLF @ CRLF @
     failure_body cause errnum shortmsg longmsg"

lemma send_str_ok:
  assumes "fd \<in> os_open s" "draining (os_wr s fd)" "NUL \<notin> set t" "length t \<le> 2147483647"
  shows "\<exists>s'. send_str fd (t @ NUL # rest) s = Inr ((), s') \<and> writes fd t s s' \<and> draining (os_wr s' fd)"
proof -
  have "\<exists>s'. nio_writen fd (t @ NUL # rest) (length t) s = Inr (int (length t), s') \<and>
      writes fd (take (length t) (t @ NUL # rest)) s s' \<and> draining (os_wr s' fd)"
    using assms by (intro nio_writen_delivers) (auto simp: SSIZE_MAX_def)
  then show ?thesis using assms(3) by (auto simp: send_str_def bnd_basic c_strlen_Inr bnd_lift_res ret_def)
qed

lemma sprintf_append_step:
  assumes "appends s" "NUL \<notin> set t"
  shows "bnd (sprintf_append (t @ NUL # rest) txt) f s =
    (if length txt \<le> length rest then f ((t @ txt) @ NUL # drop (length txt) rest) s else Inl Overflow)"
  using assms
  by (simp add: sprintf_append_def appends_def append_text_def c_str_Inr bnd_lift_res bnd_assoc bnd_gets
      blk_puts_Inr blk_puts_Inl)

text \<open>The five steps that build the page fit the array exactly when the whole page does.\<close>

lemma failure_body_built:
  fixes cause errnum shortmsg longmsg
  defines "B \<equiv> failure_body cause errnum shortmsg longmsg"
  assumes ap: "appends s" and nul: "NUL \<notin> set B"
  shows "bnd (lift_res (blk_puts (local_array junk ''body'' MAXBUF) ''<html><title>Proxy Error</title>'')) (\<lambda>body.
     bnd (sprintf_append body (''<body bgcolor=ffffff>'' @ CRLF)) (\<lambda>body.
     bnd (sprintf_append body (errnum @ '': '' @ shortmsg @ CRLF)) (\<lambda>body.
     bnd (sprintf_append body (''<p>'' @ longmsg @ '': '' @ cause @ CRLF)) (\<lambda>body.
     bnd (sprintf_append body (''<hr><em>The Mini Proxy server</em>'' @ CRLF)) f)))) s =
     (if length B < 8192 then f (B @ NUL # drop (Suc (length B)) (local_array junk ''body'' MAXBUF)) s
      else Inl Overflow)"
proof -
  let ?A = "local_array junk ''body'' MAXBUF"
  let ?t1 = "''<html><title>Proxy Error</title>''" and ?t2 = "''<body bgcolor=ffffff>'' @ CRLF"
  let ?t3 = "errnum @ '': '' @ shortmsg @ CRLF" and ?t4 = "''<p>'' @ longmsg @ '': '' @ cause @ CRLF"
  let ?t5 = "''<hr><em>The Mini Proxy server</em>'' @ CRLF"
  have B: "B = (((?t1 @ ?t2) @ ?t3) @ ?t4) @ ?t5" by (simp add: B_def failure_body_def)
  have n: "NUL \<notin> set ?t1" "NUL \<notin> set (?t1 @ ?t2)" "NUL \<notin> set ((?t1 @ ?t2) @ ?t3)"
    "NUL \<notin> set (((?t1 @ ?t2) @ ?t3) @ ?t4)"
    using nul unfolding B by (simp_all only: set_append Un_iff de_Morgan_disj simp_thms)
  have w: "blk_puts ?A ?t1 = Inr (?t1 @ NUL # drop (Suc (length ?t1)) ?A)"
    by (intro blk_puts_Inr) (simp add: MAXBUF_def)
  have lA: "length ?A = 8192" by (simp add: MAXBUF_def)
  have lB: "length B = length ?t1 + length ?t2 + length ?t3 + length ?t4 + length ?t5"
    by (simp only: B length_append add.assoc)
  show ?thesis
    unfolding w bnd_lift_res sprintf_append_step [OF ap n(1)] sprintf_append_step [OF ap n(2)]
      sprintf_append_step [OF ap n(3)] sprintf_append_step [OF ap n(4)] length_drop lA drop_drop lB
    by (simp only: B [symmetric] add.assoc) (auto simp: add.commute add.left_commute)
qed

lemma failure_body_NUL:
  "NUL \<notin> set (failure_body cause errnum shortmsg longmsg) \<longleftrightarrow>
     NUL \<notin> set cause \<and> NUL \<notin> set errnum \<and> NUL \<notin> set shortmsg \<and> NUL \<notin> set longmsg"
  by (auto simp: failure_body_def)

lemma response_failure_overflow:
  assumes ap: "appends s" and "NUL \<notin> set (failure_body cause errnum shortmsg longmsg)"
    and "8192 \<le> length (failure_body cause errnum shortmsg longmsg)"
  shows "response_failure junk connfd cause errnum shortmsg longmsg s = Inl Overflow"
  using assms(3) by (simp only: response_failure_def failure_body_built [OF assms(1,2)] not_less [symmetric] if_False)

lemma response_failure_ok:
  assumes fd: "connfd \<in> os_open s" "draining (os_wr s connfd)" and ap: "appends s"
    and nul: "NUL \<notin> set (failure_body cause errnum shortmsg longmsg)"
    and len: "length (failure_body cause errnum shortmsg longmsg) < 8192"
  shows "\<exists>s'. response_failure junk connfd cause errnum shortmsg longmsg s = Inr ((), s') \<and>
    writes connfd (failure_page cause errnum shortmsg longmsg) s s' \<and> draining (os_wr s' connfd)"
proof -
  let ?B = "failure_body cause errnum shortmsg longmsg"
  let ?h1 = "''HTTP/1.0 '' @ errnum @ '' '' @ shortmsg @ CRLF" and ?h2 = "''Content-type: text/html'' @ CRLF"
  let ?h3 = "''Content-length: '' @ dec_int (to_int (length ?B)) @ CRLF @ CRLF"
  have d: "dec_int (to_int (length ?B)) = dec_digits (length ?B)" using len by (simp add: dec_int_def)
  have dl: "length (dec_digits (length ?B)) \<le> Suc 3" using len by (intro dec_digits_length) simp
  have l: "length ?h1 < 8192" using len by (simp add: failure_body_def)
  have n: "NUL \<notin> set ?h1" "NUL \<notin> set ?h2" "NUL \<notin> set ?h3" using nul d by (auto simp: failure_body_NUL)
  let ?A = "local_array junk ''buf'' MAXLINE"
  define r1 where "r1 = drop (Suc (length ?h1)) ?A"
  have w1: "blk_puts ?A ?h1 = Inr (?h1 @ NUL # r1)"
    unfolding r1_def using l by (intro blk_puts_Inr) (simp add: MAXLINE_def)
  have lb: "length (?h1 @ NUL # r1) = 8192" using l unfolding r1_def by (simp add: MAXLINE_def)
  define r2 where "r2 = drop (Suc (length ?h2)) (?h1 @ NUL # r1)"
  have w2: "blk_puts (?h1 @ NUL # r1) ?h2 = Inr (?h2 @ NUL # r2)"
    unfolding r2_def by (intro blk_puts_Inr) (simp only: lb, simp)
  have lb2: "length (?h2 @ NUL # r2) = 8192" using lb unfolding r2_def by simp
  define r3 where "r3 = drop (Suc (length ?h3)) (?h2 @ NUL # r2)"
  have w3: "blk_puts (?h2 @ NUL # r2) ?h3 = Inr (?h3 @ NUL # r3)"
    unfolding r3_def using dl by (intro blk_puts_Inr) (simp only: lb2, simp add: d)
  obtain s1 where s1: "send_str connfd (?h1 @ NUL # r1) s = Inr ((), s1)" "writes connfd ?h1 s s1"
    "draining (os_wr s1 connfd)" using send_str_ok [OF fd(1,2) n(1)] l by fastforce
  note fd1 = fd(1) [folded writes_fields(1) [OF s1(2)]]
  obtain s2 where s2: "send_str connfd (?h2 @ NUL # r2) s1 = Inr ((), s2)" "writes connfd ?h2 s1 s2"
    "draining (os_wr s2 connfd)" using send_str_ok [OF fd1 s1(3) n(2)] by fastforce
  note fd2 = fd1 [folded writes_fields(1) [OF s2(2)]]
  obtain s3 where s3: "send_str connfd (?h3 @ NUL # r3) s2 = Inr ((), s3)" "writes connfd ?h3 s2 s3"
    "draining (os_wr s3 connfd)" using send_str_ok [OF fd2 s2(3) n(3)] d dl by fastforce
  note fd3 = fd2 [folded writes_fields(1) [OF s3(2)]]
  let ?r = "drop (Suc (length ?B)) (local_array junk ''body'' MAXBUF)"
  obtain s4 where s4: "send_str connfd (?B @ NUL # ?r) s3 = Inr ((), s4)" "writes connfd ?B s3 s4"
    "draining (os_wr s4 connfd)" using send_str_ok [OF fd3 s3(3) nul] len by fastforce
  have sl: "c_strlen (?B @ NUL # ?r) = Inr (length ?B)" using nul by (simp add: c_strlen_def)
  have "response_failure junk connfd cause errnum shortmsg longmsg s = Inr ((), s4)"
    unfolding response_failure_def failure_body_built [OF ap nul] using len
    by (simp only: if_True w1 w2 w3 sl bnd_lift_res bnd_Inr [of "send_str connfd (?h1 @ NUL # r1)" s, OF s1(1)] bnd_Inr [of "send_str connfd (?h2 @ NUL # r2)" s1, OF s2(1)]
        bnd_Inr [of "send_str connfd (?h3 @ NUL # r3)" s2, OF s3(1)] s4(1))
  moreover have "writes connfd (?h1 @ ?h2 @ ?h3 @ ?B) s s4"
    by (intro writes_trans [OF s1(2)] writes_trans [OF s2(2)] writes_trans [OF s3(2)] s4(2))
  then have "writes connfd (failure_page cause errnum shortmsg longmsg) s s4"
    by (simp add: failure_page_def d)
  ultimately show ?thesis using s4(3) by blast
qed

subsection \<open>The words of the request line\<close>

fun scan_words :: "nat \<Rightarrow> string \<Rightarrow> string list" where
  "scan_words 0 t = []"
| "scan_words (Suc k) t = (case scan_str t of None \<Rightarrow> [] | Some (w, t') \<Rightarrow> w # scan_words k t')"

lemma scan_str_word:
  assumes "w \<noteq> []" "\<forall>c \<in> set w. \<not> isspace c" "r = [] \<or> isspace (hd r)" "\<forall>c \<in> set sp. isspace c"
  shows "scan_str (sp @ w @ r) = Some (w, r)"
proof -
  have "dropWhile isspace (sp @ w @ r) = w @ r"
    using assms(1,2,4) by (cases w) (auto simp: dropWhile_append)
  moreover have "takeWhile (\<lambda>c. \<not> isspace c) (w @ r) = w" "dropWhile (\<lambda>c. \<not> isspace c) (w @ r) = r"
    using assms(2,3) by (auto simp: takeWhile_append dropWhile_append takeWhile_eq_Nil_iff dropWhile_eq_self_iff)
  ultimately show ?thesis using assms(1) by (simp add: scan_str_def)
qed

lemma scan_str_Some:
  assumes "scan_str t = Some (w, t')"
  shows "w \<noteq> []" "length w + length t' \<le> length t" "set w \<subseteq> set t" "set t' \<subseteq> set t" "\<forall>c \<in> set w. \<not> isspace c"
proof -
  let ?r = "dropWhile isspace t"
  from assms have w: "?r \<noteq> []" "w = takeWhile (\<lambda>c. \<not> isspace c) ?r" "t' = dropWhile (\<lambda>c. \<not> isspace c) ?r"
    by (auto simp: scan_str_def Let_def split: if_splits)
  show "w \<noteq> []" using w(1,2) hd_dropWhile [of isspace t] by (cases ?r) auto
  have r: "w @ t' = ?r" using w by simp
  have t: "t = takeWhile isspace t @ w @ t'" using r by simp
  have "length t = length (takeWhile isspace t) + (length w + length t')"
    using arg_cong [OF t, of length] by (simp only: length_append)
  then show "length w + length t' \<le> length t" by simp
  have "set t = set (takeWhile isspace t) \<union> (set w \<union> set t')"
    using arg_cong [OF t, of set] by (simp only: set_append)
  then show "set w \<subseteq> set t" "set t' \<subseteq> set t" by blast+
  show "\<forall>c \<in> set w. \<not> isspace c" using w(2) by (auto dest: set_takeWhileD)
qed

definition padded :: "string \<Rightarrow> block" where
  "padded w = w @ replicate (MAXLINE - length w) NUL"

lemma padded_Nil: "padded [] = replicate MAXLINE NUL" by (simp add: padded_def)

lemma c_str_padded: "NUL \<notin> set w \<Longrightarrow> length w < MAXLINE \<Longrightarrow> c_str (padded w) = Inr w"
  by (simp add: c_str_def padded_def)

lemma blk_puts_padded: "length w < MAXLINE \<Longrightarrow> blk_puts (replicate MAXLINE NUL) w = Inr (padded w)"
  by (simp add: blk_puts_Inr padded_def flip: replicate_Suc)

lemma sscanf_strs_words:
  "length t < MAXLINE \<Longrightarrow> sscanf_strs t (replicate k (replicate MAXLINE NUL)) =
     Inr (map padded (scan_words k t @ replicate (k - length (scan_words k t)) []))"
proof (induction k arbitrary: t)
  case (Suc k)
  show ?case
  proof (cases "scan_str t")
    case None
    then show ?thesis by (simp add: padded_Nil)
  next
    case (Some wt)
    obtain w t' where wt: "wt = (w, t')" by (cases wt)
    with Some scan_str_Some(2) [of t w t'] Suc.prems have "length w < MAXLINE" "length t' < MAXLINE" by auto
    with Some wt Suc.IH [of t'] show ?thesis by (simp add: blk_puts_padded)
  qed
qed simp

lemma scan_words_chars: "w \<in> set (scan_words k t) \<Longrightarrow> w \<noteq> [] \<and> length w \<le> length t \<and> set w \<subseteq> set t"
proof (induction k arbitrary: t)
  case (Suc k)
  show ?case
  proof (cases "scan_str t")
    case (Some wt)
    obtain v t' where wt: "wt = (v, t')" by (cases wt)
    note s = scan_str_Some [OF Some [unfolded wt]]
    show ?thesis using Suc.prems Suc.IH [of t'] Some wt s by fastforce
  qed (use Suc.prems in simp)
qed simp

lemma scan_words_length: "length (scan_words k t) \<le> k"
  by (induction k arbitrary: t) (auto split: option.splits)

subsection \<open>The verdict on a request\<close>

text \<open>The three arrays that \<open>sscanf\<close> fills, read as strings.\<close>

lemma request_fields:
  assumes "length req < MAXLINE" "NUL \<notin> set req"
  shows "\<exists>m u p. sscanf_strs req (replicate 3 (replicate MAXLINE NUL)) = Inr [padded m, padded u, padded p] \<and>
    c_str (padded m) = Inr m \<and> c_str (padded u) = Inr u \<and> c_str (padded p) = Inr p \<and>
    scan_words 3 req = filter (\<lambda>w. w \<noteq> []) [m, u, p] \<and> (u = [] \<longrightarrow> p = []) \<and> (m = [] \<longrightarrow> u = []) \<and>
    NUL \<notin> set m \<and> NUL \<notin> set u \<and> NUL \<notin> set p \<and> length m < MAXLINE \<and> length u < MAXLINE \<and> length p < MAXLINE"
proof -
  let ?ws = "scan_words 3 req"
  have ok: "w \<noteq> [] \<and> length w < MAXLINE \<and> NUL \<notin> set w" if "w \<in> set ?ws" for w
    using scan_words_chars [OF that] assms by auto
  have M: "0 < MAXLINE" by (simp add: MAXLINE_def)
  note ss = sscanf_strs_words [OF assms(1), of 3]
  consider "?ws = []" | m where "?ws = [m]" | m u where "?ws = [m, u]" | m u p where "?ws = [m, u, p]"
    using scan_words_length [of 3 req]
    by (cases ?ws; cases "tl ?ws"; cases "tl (tl ?ws)"; cases "tl (tl (tl ?ws))") auto
  then show ?thesis
  proof cases
    case 1
    then show ?thesis using ss M
      by (intro exI [of _ "[]"]) (simp add: c_str_padded numeral_3_eq_3)
  next
    case (2 m)
    then show ?thesis using ss M ok
      by (intro exI [of _ m] exI [of _ "[]"]) (simp add: c_str_padded numeral_3_eq_3)
  next
    case (3 m u)
    then show ?thesis using ss M ok
      by (intro exI [of _ m] exI [of _ u] exI [of _ "[]"]) (simp add: c_str_padded numeral_3_eq_3)
  next
    case (4 m u p)
    then show ?thesis using ss M ok
      by (intro exI [of _ m] exI [of _ u] exI [of _ p]) (simp add: c_str_padded numeral_3_eq_3)
  qed
qed

text \<open>What follows the conversions, for each kind of request line.\<close>

lemma parse_request_fields:
  assumes "request \<noteq> []" "sscanf_strs request (replicate 3 (replicate MAXLINE NUL)) = Inr [mb, ub, pb]"
    and "c_str mb = Inr m" "c_str ub = Inr u" "c_str pb = Inr p"
  shows "parse_request junk connfd request host port path s =
     (if m = [] \<or> u = [] \<or> p = [] then
        bnd (response_failure junk connfd request ''400'' ''Bad request'' format_hint) (\<lambda>_.
        bnd (print_out [''Invalid request format, empty field found'' @ [LF]]) (\<lambda>_.
        ret (False, host, port, path)))
      else if \<not> strcasecmp0 m ''GET'' then
        bnd (response_failure junk connfd m ''501'' ''Not implemented''
          ''Mini Proxy does not implement this method yet'') (\<lambda>_.
        ret (False, host, port, path))
      else if \<not> strcasecmp0 p ''HTTP/1.0'' \<and> \<not> strcasecmp0 p ''HTTP/1.1'' then
        bnd (response_failure junk connfd p ''400'' ''Bad request''
          ''Mini Proxy requires request version to be either HTTP/1.0 or HTPP/1.1'') (\<lambda>_.
        ret (False, host, port, path))
      else
        bnd (parse_uri junk ub host port path) (\<lambda>(ok, host, port, path).
        if \<not> ok then
          bnd (response_failure junk connfd u ''404'' ''Not found''
            ''Mini Proxy couldn't parse the request'') (\<lambda>_.
          ret (False, host, port, path))
        else ret (True, host, port, path))) s"
proof -
  have n: "[mb, ub, pb] ! 0 = mb" "[mb, ub, pb] ! 1 = ub" "[mb, ub, pb] ! 2 = pb" by simp_all
  show ?thesis
    by (simp only: parse_request_def assms if_False bnd_lift_res Let_def n)
qed

text \<open>
  \<open>refusal request\<close>: what is wrong with a request line, as the four strings of its error page.  A line
  that is too long in the scheme of its URI is not refused, it overflows an array.
\<close>

definition uri_accepted :: "string \<Rightarrow> bool" where
  "uri_accepted u \<longleftrightarrow> strcasecmp0 (takeWhile (\<lambda>c. c \<noteq> COLON) u) ''http'' \<and>
     take 3 (dropWhile (\<lambda>c. c \<noteq> COLON) u) = ''://''"

definition scheme_fits :: "string \<Rightarrow> bool" where
  "scheme_fits u \<longleftrightarrow> COLON \<notin> set u \<or> length (takeWhile (\<lambda>c. c \<noteq> COLON) u) < 10"

definition refusal :: "string \<Rightarrow> (string \<times> string \<times> string \<times> string) option" where
  "refusal request = (case scan_words 3 request of
     [m, u, p] \<Rightarrow>
       if \<not> strcasecmp0 m ''GET'' then
         Some (m, ''501'', ''Not implemented'', ''Mini Proxy does not implement this method yet'')
       else if \<not> strcasecmp0 p ''HTTP/1.0'' \<and> \<not> strcasecmp0 p ''HTTP/1.1'' then
         Some (p, ''400'', ''Bad request'',
           ''Mini Proxy requires request version to be either HTTP/1.0 or HTPP/1.1'')
       else if scheme_fits u \<and> \<not> uri_accepted u then
         Some (u, ''404'', ''Not found'', ''Mini Proxy couldn't parse the request'')
       else None
   | _ \<Rightarrow> Some (request, ''400'', ''Bad request'', format_hint))"

lemma parse_uri_refuses:
  assumes u: "c_str uri = Inr u" and ref: "scheme_fits u" "\<not> uri_accepted u"
  shows "\<exists>ls. parse_uri junk uri host port path s =
    Inr ((False, host, port, path), s\<lparr>os_stdout := os_stdout s @ ls\<rparr>)"
proof (cases "COLON \<in> set u")
  case False
  then show ?thesis using parse_uri_no_colon [OF u] by (intro exI [of _ "[]"]) simp
next
  case True
  then obtain sc p where sp: "u = sc @ COLON # p" "COLON \<notin> set sc" by (meson split_list_first)
  have nul: "NUL \<notin> set sc" using c_str_NUL [OF u] sp by simp
  have len: "length sc < 10" using ref(1) sp by (simp add: scheme_fits_def colon_split)
  have dw: "dropWhile (\<lambda>c. c \<noteq> COLON) u = COLON # p"
    using sp by (subst sp(1), subst dropWhile_append2) auto
  have "\<not> (strcasecmp0 sc ''http'' \<and> peek p = SLASH \<and> peek (tl p) = SLASH)"
    using ref(2) sp dw by (cases p; cases "tl p") (auto simp: uri_accepted_def colon_split)
  then show ?thesis
    using parse_uri_scheme [OF u [unfolded sp] sp(2) nul len]
    by (auto simp: ret_def print_out_def bnd_basic intro: exI [of _ "[]"])
qed

lemma parse_uri_accepts_only:
  assumes u: "c_str uri = Inr u" and r: "parse_uri junk uri host port path s = Inr (r, s')"
    and ok: "uri_accepted u \<or> \<not> scheme_fits u"
  shows "fst r"
proof (cases "COLON \<in> set u")
  case False
  then have dw: "dropWhile (\<lambda>c. c \<noteq> COLON) u = []" by (auto simp: dropWhile_eq_Nil_conv)
  have "\<not> uri_accepted u" unfolding uri_accepted_def dw by simp
  then show ?thesis using ok False by (simp add: scheme_fits_def)
next
  case True
  then obtain sc p where sp: "u = sc @ COLON # p" "COLON \<notin> set sc" by (meson split_list_first)
  have nul: "NUL \<notin> set sc" using c_str_NUL [OF u] sp by simp
  have len: "length sc < 10"
  proof (rule ccontr)
    assume "\<not> length sc < 10"
    then show False using parse_uri_overflow [OF u [unfolded sp] sp(2)] r by simp
  qed
  have dw: "dropWhile (\<lambda>c. c \<noteq> COLON) u = COLON # p"
    using sp by (subst sp(1), subst dropWhile_append2) auto
  have "strcasecmp0 sc ''http''" "take 2 p = ''//''"
    using ok sp dw len by (auto simp: uri_accepted_def scheme_fits_def colon_split)
  then have "strcasecmp0 sc ''http''" "peek p = SLASH" "peek (tl p) = SLASH"
    by (cases p; cases "tl p"; simp)+
  with r show ?thesis
    unfolding parse_uri_scheme [OF u [unfolded sp] sp(2) nul len]
    by (auto simp: bnd_eq_Inr_iff ret_def)
qed

text \<open>Every refusal sends its page, when that fits the array in which it is built, and overflows it otherwise.\<close>

lemma failure_responds:
  assumes "connfd \<in> os_open s" "draining (os_wr s connfd)" "appends s"
    and nul: "NUL \<notin> set cause" "NUL \<notin> set (errnum @ shortmsg @ longmsg)"
  shows "if length (failure_body cause errnum shortmsg longmsg) < 8192
    then \<exists>s'. response_failure junk connfd cause errnum shortmsg longmsg s = Inr ((), s') \<and>
      writes connfd (failure_page cause errnum shortmsg longmsg) s s'
    else response_failure junk connfd cause errnum shortmsg longmsg s = Inl Overflow"
proof -
  have "NUL \<notin> set (failure_body cause errnum shortmsg longmsg)" using nul by (simp add: failure_body_NUL)
  from response_failure_ok [OF assms(1-3) this, of junk] response_failure_overflow [OF assms(3) this, of junk connfd]
  show ?thesis by auto
qed

text \<open>What a transaction that sends only to one descriptor leaves alone.\<close>

definition only_writes :: "int \<Rightarrow> block \<Rightarrow> os \<Rightarrow> os \<Rightarrow> bool" where
  "only_writes fd bs s s' \<longleftrightarrow> os_out s' = (os_out s)(fd := os_out s fd @ bs) \<and>
     os_in s' = os_in s \<and> os_open s' = os_open s \<and> os_fresh_fd s' = os_fresh_fd s"

lemma writes_only: "writes fd bs s s' \<Longrightarrow> only_writes fd bs s (s'\<lparr>os_stdout := ls\<rparr>)"
  by (auto simp: writes_def only_writes_def)

lemma parse_request_refuses:
  assumes fd: "connfd \<in> os_open s" "draining (os_wr s connfd)" "appends s"
    and req: "length request < MAXLINE" "NUL \<notin> set request"
    and ref: "refusal request = Some (cause, errnum, shortmsg, longmsg)"
  shows "if length (failure_body cause errnum shortmsg longmsg) < 8192
    then \<exists>s'. parse_request junk connfd request host port path s = Inr ((False, host, port, path), s') \<and>
      only_writes connfd (failure_page cause errnum shortmsg longmsg) s s'
    else parse_request junk connfd request host port path s = Inl Overflow"
proof -
  let ?fail = "response_failure junk connfd cause errnum shortmsg longmsg"
  from request_fields [OF req] obtain m u p where
    f: "sscanf_strs request (replicate 3 (replicate MAXLINE NUL)) = Inr [padded m, padded u, padded p]"
    "c_str (padded m) = Inr m" "c_str (padded u) = Inr u" "c_str (padded p) = Inr p"
    "scan_words 3 request = filter (\<lambda>w. w \<noteq> []) [m, u, p]" "u = [] \<longrightarrow> p = []" "m = [] \<longrightarrow> u = []"
    "NUL \<notin> set m" "NUL \<notin> set u" "NUL \<notin> set p" by blast
  have refm: "refusal request = (if p = [] then Some (request, ''400'', ''Bad request'', format_hint)
     else if \<not> strcasecmp0 m ''GET'' then
         Some (m, ''501'', ''Not implemented'', ''Mini Proxy does not implement this method yet'')
       else if \<not> strcasecmp0 p ''HTTP/1.0'' \<and> \<not> strcasecmp0 p ''HTTP/1.1'' then
         Some (p, ''400'', ''Bad request'',
           ''Mini Proxy requires request version to be either HTTP/1.0 or HTPP/1.1'')
       else if scheme_fits u \<and> \<not> uri_accepted u then
         Some (u, ''404'', ''Not found'', ''Mini Proxy couldn't parse the request'')
       else None)"
    using f(5-7) by (auto simp: refusal_def)
  have nul: "NUL \<notin> set cause" "NUL \<notin> set (errnum @ shortmsg @ longmsg)"
    using ref refm f(8-10) req(2) by (auto simp: format_hint_def split: if_splits)
  have run: "\<exists>ls ls'. parse_request junk connfd request host port path s =
      bnd ?fail (\<lambda>_. bnd (print_out ls') (\<lambda>_. ret (False, host, port, path))) (s\<lparr>os_stdout := os_stdout s @ ls\<rparr>)"
  proof (cases "request = []")
    case True
    then have "scan_words 3 request = []" by (simp add: numeral_3_eq_3 scan_str_def)
    then have "refusal request = Some (request, ''400'', ''Bad request'', format_hint)" by (simp add: refusal_def)
    then show ?thesis using True ref
      by - (rule exI [of _ "[]"], rule exI [of _ "[''Empty request detected'' @ [LF]]"], simp add: parse_request_def)
  next
    case False
    note pr = parse_request_fields [OF False f(1-4), of junk connfd host port path s]
    show ?thesis
    proof (cases "p = []")
      case True
      then show ?thesis unfolding pr using ref refm
        by - (rule exI [of _ "[]"],
            rule exI [of _ "[''Invalid request format, empty field found'' @ [LF]]"], simp)
    next
      case ne: False
      then have e: "m \<noteq> []" "u \<noteq> []" using f(6,7) by auto
      have po: "bnd (print_out []) g = g ()" for g :: "unit \<Rightarrow> (os, bool \<times> block \<times> block \<times> block) cmd"
        by (rule ext) (simp add: print_out_def bnd_basic)
      show ?thesis
      proof (cases "strcasecmp0 m ''GET'' \<and> (strcasecmp0 p ''HTTP/1.0'' \<or> strcasecmp0 p ''HTTP/1.1'')")
        case False
        then show ?thesis using ref refm ne e
          by (intro exI [of _ "[]"] exI [of _ "[]"]) (auto simp: pr po)
      next
        case True
        then have "scheme_fits u" "\<not> uri_accepted u" using ref refm ne by (auto split: if_splits)
        from parse_uri_refuses [OF f(3) this, of junk host port path s] obtain ls where
          ls: "parse_uri junk (padded u) host port path s =
            Inr ((False, host, port, path), s\<lparr>os_stdout := os_stdout s @ ls\<rparr>)" by blast
        then show ?thesis using ref refm ne e True
          by (intro exI [of _ ls] exI [of _ "[]"]) (auto simp: pr po split: if_splits)
      qed
    qed
  qed
  then obtain ls ls' where r: "parse_request junk connfd request host port path s =
      bnd ?fail (\<lambda>_. bnd (print_out ls') (\<lambda>_. ret (False, host, port, path))) (s\<lparr>os_stdout := os_stdout s @ ls\<rparr>)"
    by blast
  let ?t = "s\<lparr>os_stdout := os_stdout s @ ls\<rparr>"
  have fr: "if length (failure_body cause errnum shortmsg longmsg) < 8192
    then \<exists>s'. ?fail ?t = Inr ((), s') \<and> writes connfd (failure_page cause errnum shortmsg longmsg) ?t s'
    else ?fail ?t = Inl Overflow"
    using fd by (intro failure_responds [OF _ _ _ nul]) (simp_all add: appends_def)
  show ?thesis
  proof (cases "length (failure_body cause errnum shortmsg longmsg) < 8192")
    case True
    with fr obtain s' where s': "?fail ?t = Inr ((), s')"
      "writes connfd (failure_page cause errnum shortmsg longmsg) ?t s'" by auto
    have "only_writes connfd (failure_page cause errnum shortmsg longmsg) s (s'\<lparr>os_stdout := os_stdout s' @ ls'\<rparr>)"
      using writes_only [OF s'(2)] by (simp add: only_writes_def)
    then show ?thesis using True r s'(1) by (auto simp: print_out_def bnd_basic ret_def)
  next
    case False
    with fr r show ?thesis by simp
  qed
qed

text \<open>And nothing else is refused.\<close>

lemma parse_request_refuses_only:
  assumes req: "length request < MAXLINE" "NUL \<notin> set request"
    and ref: "refusal request = None"
    and r: "parse_request junk connfd request host port path s = Inr (r, s')"
  shows "fst r"
proof -
  from request_fields [OF req] obtain m u p where
    f: "sscanf_strs request (replicate 3 (replicate MAXLINE NUL)) = Inr [padded m, padded u, padded p]"
    "c_str (padded m) = Inr m" "c_str (padded u) = Inr u" "c_str (padded p) = Inr p"
    "scan_words 3 request = filter (\<lambda>w. w \<noteq> []) [m, u, p]" "u = [] \<longrightarrow> p = []" "m = [] \<longrightarrow> u = []" by blast
  have k: "m \<noteq> []" "u \<noteq> []" "p \<noteq> []" "strcasecmp0 m ''GET''"
    "strcasecmp0 p ''HTTP/1.0'' \<or> strcasecmp0 p ''HTTP/1.1''" "\<not> scheme_fits u \<or> uri_accepted u"
    using ref f(5-7) by (auto simp: refusal_def split: if_splits)
  have "request \<noteq> []" using f(5) k by (auto simp: numeral_3_eq_3 scan_str_def)
  note pr = parse_request_fields [OF this f(1-4), of junk connfd host port path s]
  from r [unfolded pr] k obtain q t where q: "parse_uri junk (padded u) host port path s = Inr (q, t)"
    by (auto simp: bnd_eq_Inr_iff)
  have "fst q" using parse_uri_accepts_only [OF f(3) q] k(6) by blast
  with r [unfolded pr] k q show ?thesis by (cases q) (auto simp: ret_def)
qed

text \<open>
  The two lengths of a line without three words for which the page certainly fits, and certainly does
  not.
\<close>

lemma refusal_malformed:
  "length (scan_words 3 request) < 3 \<Longrightarrow> refusal request = Some (request, ''400'', ''Bad request'', format_hint)"
  by (auto simp: refusal_def split: list.split)

lemma parse_request_malformed:
  assumes fd: "connfd \<in> os_open s" "draining (os_wr s connfd)" "appends s"
    and req: "length (scan_words 3 request) < 3" "length request \<le> 7900" "NUL \<notin> set request"
  shows "\<exists>s'. parse_request junk connfd request host port path s = Inr ((False, host, port, path), s') \<and>
    os_out s' connfd = os_out s connfd @ failure_page request ''400'' ''Bad request'' format_hint"
proof -
  have "length request < MAXLINE" using req(2) by (simp add: MAXLINE_def)
  from parse_request_refuses [OF fd this req(3) refusal_malformed [OF req(1)], of junk host port path] req(2)
  show ?thesis by (auto simp: failure_body_def format_hint_def only_writes_def)
qed

lemma parse_request_smash:
  assumes ap: "appends s"
    and req: "length (scan_words 3 request) < 3" "8000 \<le> length request" "length request < MAXLINE"
    "NUL \<notin> set request"
  shows "parse_request junk connfd request host port path s = Inl Overflow"
proof -
  from request_fields [OF req(3,4)] obtain m u p where
    f: "sscanf_strs request (replicate 3 (replicate MAXLINE NUL)) = Inr [padded m, padded u, padded p]"
    "c_str (padded m) = Inr m" "c_str (padded u) = Inr u" "c_str (padded p) = Inr p"
    "scan_words 3 request = filter (\<lambda>w. w \<noteq> []) [m, u, p]" by blast
  have e: "m = [] \<or> u = [] \<or> p = []" using f(5) req(1) by (auto split: if_splits)
  have "NUL \<notin> set (failure_body request ''400'' ''Bad request'' format_hint)"
    "8192 \<le> length (failure_body request ''400'' ''Bad request'' format_hint)"
    using req(2,4) by (auto simp: failure_body_def format_hint_def)
  note o = response_failure_overflow [OF ap this, of junk connfd]
  have "request \<noteq> []" using req(2) by auto
  then show ?thesis using parse_request_fields [OF _ f(1-4), of junk connfd host port path s] e o by simp
qed

lemma parse_request_accepts:
  assumes req: "scan_words 3 request = [m, u, p]" "length request < MAXLINE" "NUL \<notin> set request"
    and kind: "strcasecmp0 m ''GET''" "strcasecmp0 p ''HTTP/1.0'' \<or> strcasecmp0 p ''HTTP/1.1''"
    and uri: "u = uri_text sc h po pa" "strcasecmp0 sc ''http''" "uri_parts_ok h po pa"
  shows "\<exists>hb pb qb. parse_request junk connfd request (replicate MAXLINE NUL) (replicate MAXLINE NUL)
        (replicate MAXLINE NUL) s = Inr ((True, hb, pb, qb), s) \<and>
    c_str hb = Inr h \<and> c_str pb = Inr (case po of None \<Rightarrow> ''80'' | Some d \<Rightarrow> d) \<and>
    c_str qb = Inr (if pa = [] then ''/'' else pa)"
proof -
  from request_fields [OF req(2,3)] obtain m' u' p' where
    f: "sscanf_strs request (replicate 3 (replicate MAXLINE NUL)) = Inr [padded m', padded u', padded p']"
    "c_str (padded m') = Inr m'" "c_str (padded u') = Inr u'" "c_str (padded p') = Inr p'"
    "scan_words 3 request = filter (\<lambda>w. w \<noteq> []) [m', u', p']" "length u' < MAXLINE" by blast
  have e: "m' = m" "u' = u" "p' = p" "m \<noteq> []" "u \<noteq> []" "p \<noteq> []"
    using f(5) req(1) by (auto split: if_splits)
  have ne: "request \<noteq> []" using req(1) by (auto simp: numeral_3_eq_3 scan_str_def)
  have len: "length h < MAXLINE" "length pa < MAXLINE" "2 < MAXLINE"
    "case po of None \<Rightarrow> True | Some d \<Rightarrow> length d < MAXLINE"
    using f(6) e uri(1) by (auto simp: uri_text_def MAXLINE_def split: option.splits)
  have "c_str (padded u) = Inr (uri_text sc h po pa)" using f(3) e uri(1) by simp
  from parse_uri_roundtrip [OF this uri(2,3) len, of junk s] obtain hb pb qb where
    r: "parse_uri junk (padded u) (replicate MAXLINE NUL) (replicate MAXLINE NUL) (replicate MAXLINE NUL) s =
      Inr ((True, hb, pb, qb), s)"
    "c_str hb = Inr h" "c_str pb = Inr (case po of None \<Rightarrow> ''80'' | Some d \<Rightarrow> d)"
    "c_str qb = Inr (if pa = [] then ''/'' else pa)" by blast
  then show ?thesis using parse_request_fields [OF ne f(1-4)] e kind by (auto simp: ret_def)
qed

end
