(* ===== verification/Inet.thy ===== *)
theory Inet
  imports Os
begin

section \<open>Opening connections (\<open>lib/src/inet-helper.c\<close>, and the same functions of \<open>csapp.c\<close>)\<close>

text \<open>
  The repository has two versions of \<open>open_clientfd\<close> and \<open>open_listenfd\<close>.  The one of
  \<open>inet-helper.c\<close> ends the process when the name cannot be resolved, the one of \<open>csapp.c\<close> returns
  \<open>-2\<close>.  Both try the addresses in order and close the sockets that they give up.
\<close>

fun client_walk :: "addr list \<Rightarrow> (os, int option) cmd" where
  "client_walk [] = ret None"
| "client_walk (a # as) =
     bnd (sys_socket a) (\<lambda>fd.
     if fd < 0 then client_walk as
     else bnd (sys_connect fd a) (\<lambda>c.
       if c \<noteq> - 1 then ret (Some fd)
       else bnd (sys_close fd) (\<lambda>_. client_walk as)))"

definition open_clientfd :: "string \<Rightarrow> string \<Rightarrow> (os, int) cmd" where
  "open_clientfd hostname port =
     bnd (gets (\<lambda>s. net_gai (os_net s) (Some hostname) port)) (\<lambda>r.
     case r of
       Inl rc \<Rightarrow> halt (Exit 1)
     | Inr as \<Rightarrow> bnd (client_walk as) (\<lambda>p. case p of None \<Rightarrow> ret (- 1) | Some fd \<Rightarrow> ret fd))"

fun listen_walk :: "addr list \<Rightarrow> (os, int option) cmd" where
  "listen_walk [] = ret None"
| "listen_walk (a # as) =
     bnd (sys_socket a) (\<lambda>fd.
     if fd < 0 then listen_walk as
     else bnd (sys_bind fd a) (\<lambda>b.
       if b = 0 then ret (Some fd)
       else bnd (sys_close fd) (\<lambda>_. listen_walk as)))"

definition open_listenfd :: "string \<Rightarrow> (os, int) cmd" where
  "open_listenfd port =
     bnd (gets (\<lambda>s. net_gai (os_net s) None port)) (\<lambda>r.
     case r of
       Inl rc \<Rightarrow> halt (Exit 1)
     | Inr as \<Rightarrow> bnd (listen_walk as) (\<lambda>p.
         case p of None \<Rightarrow> ret (- 1)
         | Some fd \<Rightarrow> bnd (sys_listen fd) (\<lambda>l.
             if l < 0 then bnd (sys_close fd) (\<lambda>_. ret (- 1)) else ret fd)))"

subsection \<open>The versions of \<open>csapp.c\<close>\<close>

text \<open>The walk gives back \<open>Inl r\<close> when the function returns \<open>r\<close> from inside the loop.\<close>

fun csapp_client_walk :: "addr list \<Rightarrow> (os, int + int option) cmd" where
  "csapp_client_walk [] = ret (Inr None)"
| "csapp_client_walk (a # as) =
     bnd (sys_socket a) (\<lambda>fd.
     if fd < 0 then csapp_client_walk as
     else bnd (sys_connect fd a) (\<lambda>c.
       if c \<noteq> - 1 then ret (Inr (Some fd))
       else bnd (sys_close fd) (\<lambda>r. if r < 0 then ret (Inl (- 1)) else csapp_client_walk as)))"

definition csapp_open_clientfd :: "string \<Rightarrow> string \<Rightarrow> (os, int) cmd" where
  "csapp_open_clientfd hostname port =
     bnd (gets (\<lambda>s. net_gai (os_net s) (Some hostname) port)) (\<lambda>r.
     case r of
       Inl rc \<Rightarrow> ret (- 2)
     | Inr as \<Rightarrow> bnd (csapp_client_walk as) (\<lambda>p.
         case p of Inl r \<Rightarrow> ret r | Inr None \<Rightarrow> ret (- 1) | Inr (Some fd) \<Rightarrow> ret fd))"

fun csapp_listen_walk :: "addr list \<Rightarrow> (os, int + int option) cmd" where
  "csapp_listen_walk [] = ret (Inr None)"
| "csapp_listen_walk (a # as) =
     bnd (sys_socket a) (\<lambda>fd.
     if fd < 0 then csapp_listen_walk as
     else bnd (sys_bind fd a) (\<lambda>b.
       if b = 0 then ret (Inr (Some fd))
       else bnd (sys_close fd) (\<lambda>r. if r < 0 then ret (Inl (- 1)) else csapp_listen_walk as)))"

definition csapp_open_listenfd :: "string \<Rightarrow> (os, int) cmd" where
  "csapp_open_listenfd port =
     bnd (gets (\<lambda>s. net_gai (os_net s) None port)) (\<lambda>r.
     case r of
       Inl rc \<Rightarrow> ret (- 2)
     | Inr as \<Rightarrow> bnd (csapp_listen_walk as) (\<lambda>p.
         case p of
           Inl r \<Rightarrow> ret r
         | Inr None \<Rightarrow> ret (- 1)
         | Inr (Some fd) \<Rightarrow> bnd (sys_listen fd) (\<lambda>l.
             if l < 0 then bnd (sys_close fd) (\<lambda>_. ret (- 1)) else ret fd)))"

definition Open_clientfd :: "string \<Rightarrow> string \<Rightarrow> (os, int) cmd" where
  "Open_clientfd hostname port =
     bnd (csapp_open_clientfd hostname port) (\<lambda>rc. if rc < 0 then unix_error else ret rc)"

definition Open_listenfd :: "string \<Rightarrow> (os, int) cmd" where
  "Open_listenfd port = bnd (csapp_open_listenfd port) (\<lambda>rc. if rc < 0 then unix_error else ret rc)"

subsection \<open>Descriptors\<close>

text \<open>New descriptors are fresh; a walk leaves open exactly the descriptor it returns.\<close>

definition fds_ok :: "os \<Rightarrow> bool" where
  "fds_ok s \<longleftrightarrow> (\<forall>fd \<in> os_open s. fd < os_fresh_fd s) \<and> 0 \<le> os_fresh_fd s"

definition opens :: "int set \<Rightarrow> os \<Rightarrow> os \<Rightarrow> bool" where
  "opens fds s s' \<longleftrightarrow> os_fresh_fd s \<le> os_fresh_fd s' \<and>
     (\<exists>en n. s' = s\<lparr>os_errno := en, os_open := os_open s \<union> fds, os_fresh_fd := n\<rparr>)"

lemma opensI:
  "os_fresh_fd s \<le> n \<Longrightarrow> s\<lparr>os_errno := en, os_open := os_open s \<union> fds, os_fresh_fd := n\<rparr> = s' \<Longrightarrow>
     opens fds s s'"
  by (auto simp: opens_def)

lemma opens_refl [simp]: "opens {} s s"
  by (rule opensI [where n = "os_fresh_fd s" and en = "os_errno s"]) simp_all

lemma opens_trans:
  assumes "opens {} s s1" "opens fds s1 s2"
  shows "opens fds s s2"
proof -
  from assms(2) obtain en n where "s2 = s1\<lparr>os_errno := en, os_open := os_open s1 \<union> fds, os_fresh_fd := n\<rparr>"
    "os_fresh_fd s1 \<le> n" by (auto simp: opens_def)
  with assms(1) show ?thesis by (intro opensI [where n = n and en = en]) (auto simp: opens_def)
qed

lemma opens_fields:
  assumes "opens fds s s'"
  shows "os_open s' = os_open s \<union> fds" "os_in s' = os_in s" "os_wr s' = os_wr s" "os_out s' = os_out s"
    "os_net s' = os_net s" "os_accepts s' = os_accepts s" "os_stdout s' = os_stdout s"
    "os_fresh_fd s \<le> os_fresh_fd s'"
  using assms by (auto simp: opens_def)

lemma fds_ok_opens: "fds_ok s \<Longrightarrow> opens {} s s' \<Longrightarrow> fds_ok s'"
  using opens_fields [of "{}" s s'] by (auto simp: fds_ok_def)

definition reachable :: "net \<Rightarrow> addr list \<Rightarrow> bool" where
  "reachable n as \<longleftrightarrow> (\<exists>a \<in> set as. net_socket n a \<and> net_connect n a)"

text \<open>
  \<open>close_error s as\<close>: one of the sockets that the walk gives up, on an address before the first one
  that accepts, reports an error when it is closed.
\<close>

definition tried :: "net \<Rightarrow> addr list \<Rightarrow> addr list" where
  "tried n as = filter (net_socket n) (takeWhile (\<lambda>a. \<not> (net_socket n a \<and> net_connect n a)) as)"

definition close_error :: "os \<Rightarrow> addr list \<Rightarrow> bool" where
  "close_error s as \<longleftrightarrow>
     (\<exists>i < length (tried (os_net s) as). net_close (os_net s) (os_fresh_fd s + int i) \<noteq> None)"

lemma tried_simps [simp]:
  "tried n [] = []"
  "tried n (a # as) = (if \<not> net_socket n a then tried n as
     else if net_connect n a then [] else a # tried n as)"
  by (simp_all add: tried_def)

lemma client_walk_cases:
  "fds_ok s \<Longrightarrow>
   (if reachable (os_net s) as
    then \<exists>fd s'. client_walk as s = Inr (Some fd, s') \<and> os_fresh_fd s \<le> fd \<and> opens {fd} s s' \<and> fds_ok s'
    else \<exists>s'. client_walk as s = Inr (None, s') \<and> opens {} s s')"
proof (induction as arbitrary: s)
  case Nil
  have "opens {} s s" by simp
  then show ?case by (auto simp: reachable_def ret_def)
next
  case (Cons a as)
  let ?fd = "os_fresh_fd s"
  let ?s1 = "s\<lparr>os_open := insert ?fd (os_open s), os_fresh_fd := ?fd + 1\<rparr>"
  have fresh: "?fd \<notin> os_open s" "0 \<le> ?fd" using Cons.prems by (auto simp: fds_ok_def)
  show ?case
  proof (cases "net_socket (os_net s) a")
    case False
    let ?s = "s\<lparr>os_errno := E_other\<rparr>"
    have o: "opens {} s ?s" by (rule opensI [where n = "os_fresh_fd s" and en = E_other]) simp_all
    from Cons.IH [OF fds_ok_opens [OF Cons.prems o]] False show ?thesis
      by (auto simp: sys_socket_def reachable_def intro: opens_trans [OF o] split: if_splits)
  next
    case sock: True
    show ?thesis
    proof (cases "net_connect (os_net s) a")
      case True
      have "opens {?fd} s ?s1" by (rule opensI [where n = "?fd + 1" and en = "os_errno s"]) simp_all
      moreover have "fds_ok ?s1" using Cons.prems by (auto simp: fds_ok_def)
      ultimately show ?thesis using sock True fresh
        by (auto simp: sys_socket_def sys_connect_def reachable_def ret_def)
    next
      case False
      let ?t = "s\<lparr>os_open := insert ?fd (os_open s), os_fresh_fd := ?fd + 1, os_errno := E_other\<rparr>"
      obtain r en where cl: "sys_close ?fd ?t = Inr (r, ?t\<lparr>os_open := os_open ?t - {?fd}, os_errno := en\<rparr>)"
        by (rule sys_close_runs)
      let ?s = "s\<lparr>os_fresh_fd := ?fd + 1, os_errno := en\<rparr>"
      have o: "opens {} s ?s" by (rule opensI [where n = "?fd + 1" and en = en]) simp_all
      have "client_walk (a # as) s = client_walk as ?s"
        using sock False fresh cl by (simp add: sys_socket_def sys_connect_def bnd_def)
      with Cons.IH [OF fds_ok_opens [OF Cons.prems o]] False show ?thesis
        by (auto simp: reachable_def intro: opens_trans [OF o] split: if_splits)
    qed
  qed
qed

lemma open_clientfd_connected:
  assumes "fds_ok s" "net_gai (os_net s) (Some h) po = Inr as" "reachable (os_net s) as"
  shows "\<exists>fd s'. open_clientfd h po s = Inr (fd, s') \<and> os_fresh_fd s \<le> fd \<and> opens {fd} s s' \<and> fds_ok s'"
  using client_walk_cases [OF assms(1), of as] assms(2,3)
  by (auto simp: open_clientfd_def bnd_basic ret_def)

lemma open_clientfd_unreachable:
  assumes "fds_ok s" "net_gai (os_net s) (Some h) po = Inr as" "\<not> reachable (os_net s) as"
  shows "\<exists>s'. open_clientfd h po s = Inr (- 1, s') \<and> opens {} s s'"
  using client_walk_cases [OF assms(1), of as] assms(2,3)
  by (auto simp: open_clientfd_def bnd_basic ret_def)

lemma open_clientfd_unresolved:
  "net_gai (os_net s) (Some h) po = Inl rc \<Longrightarrow> open_clientfd h po s = Inl (Exit 1)"
  by (simp add: open_clientfd_def bnd_basic halt_def)

text \<open>
  The two versions agree when no \<open>close\<close> fails.  A failing one ends the loop of \<open>csapp.c\<close> with
  \<open>-1\<close>; that of \<open>inet-helper.c\<close> goes on to the next address.
\<close>

lemma csapp_client_walk_eq:
  "fds_ok s \<Longrightarrow>
   (if close_error s as then \<exists>s'. csapp_client_walk as s = Inr (Inl (- 1), s') \<and> opens {} s s'
    else csapp_client_walk as s =
      (case client_walk as s of Inl e \<Rightarrow> Inl e | Inr (p, s') \<Rightarrow> Inr (Inr p, s')))"
proof (induction as arbitrary: s)
  case Nil
  then show ?case by (simp add: close_error_def ret_def)
next
  case (Cons a as)
  let ?fd = "os_fresh_fd s" and ?n = "os_net s"
  have fresh: "0 \<le> ?fd" "insert ?fd (os_open s) - {?fd} = os_open s" using Cons.prems by (auto simp: fds_ok_def)
  show ?case
  proof (cases "net_socket ?n a")
    case False
    let ?s = "s\<lparr>os_errno := E_other\<rparr>"
    have o: "opens {} s ?s" by (rule opensI [where n = "os_fresh_fd s" and en = E_other]) simp_all
    have "close_error s (a # as) = close_error ?s as" using False by (simp add: close_error_def)
    with Cons.IH [OF fds_ok_opens [OF Cons.prems o]] False fresh show ?thesis
      by (auto simp: sys_socket_def bnd_def intro: opens_trans [OF o] split: if_splits)
  next
    case sock: True
    show ?thesis
    proof (cases "net_connect ?n a")
      case True
      with sock fresh show ?thesis
        by (simp add: close_error_def sys_socket_def sys_connect_def bnd_def ret_def)
    next
      case False
      let ?t = "s\<lparr>os_open := insert ?fd (os_open s), os_fresh_fd := ?fd + 1, os_errno := E_other\<rparr>"
      have "?fd \<in> os_open ?t" by simp
      then obtain en where cl: "sys_close ?fd ?t = Inr (if net_close (os_net ?t) ?fd = None then 0 else - 1,
          ?t\<lparr>os_open := os_open ?t - {?fd}, os_errno := en\<rparr>)" by (rule sys_close_open)
      let ?s = "s\<lparr>os_fresh_fd := ?fd + 1, os_errno := en\<rparr>"
      have o: "opens {} s ?s" by (rule opensI [where n = "?fd + 1" and en = en]) simp_all
      have run: "csapp_client_walk (a # as) s =
          (if net_close ?n ?fd = None then csapp_client_walk as ?s else Inr (Inl (- 1), ?s))"
        "client_walk (a # as) s = client_walk as ?s"
        using sock False fresh cl by (simp_all add: sys_socket_def sys_connect_def bnd_def ret_def)
      have "close_error s (a # as) \<longleftrightarrow> net_close ?n ?fd \<noteq> None \<or> close_error ?s as"
        using sock False by (simp add: close_error_def less_Suc_eq_0_disj ex_disj_distrib conj_disj_distribR add.assoc)
          (auto simp: algebra_simps)
      with Cons.IH [OF fds_ok_opens [OF Cons.prems o]] o show ?thesis
        unfolding run by (auto intro: opens_trans [OF o] split: if_splits)
    qed
  qed
qed

lemma csapp_open_clientfd_unresolved:
  "net_gai (os_net s) (Some h) po = Inl rc \<Longrightarrow> csapp_open_clientfd h po s = Inr (- 2, s)"
  by (simp add: csapp_open_clientfd_def bnd_basic ret_def)

lemma csapp_open_clientfd_eq:
  assumes "fds_ok s" "net_gai (os_net s) (Some h) po = Inr as"
  shows "\<not> close_error s as \<Longrightarrow> csapp_open_clientfd h po s = open_clientfd h po s"
    and "close_error s as \<Longrightarrow> \<exists>s'. csapp_open_clientfd h po s = Inr (- 1, s') \<and> opens {} s s'"
proof -
  show "csapp_open_clientfd h po s = open_clientfd h po s" if "\<not> close_error s as"
    using csapp_client_walk_eq [OF assms(1), of as] assms(2) that
    by (auto simp: csapp_open_clientfd_def open_clientfd_def bnd_def gets_def ret_def
        split: sum.splits option.splits)
  show "\<exists>s'. csapp_open_clientfd h po s = Inr (- 1, s') \<and> opens {} s s'" if "close_error s as"
    using csapp_client_walk_eq [OF assms(1), of as] assms(2) that
    by (auto simp: csapp_open_clientfd_def bnd_def gets_def ret_def)
qed

subsection \<open>Listening\<close>

lemma listen_walk_cases:
  "fds_ok s \<Longrightarrow>
   (if \<exists>a \<in> set as. net_socket (os_net s) a \<and> net_bind (os_net s) a
    then \<exists>fd s'. listen_walk as s = Inr (Some fd, s') \<and> os_fresh_fd s \<le> fd \<and> opens {fd} s s'
    else \<exists>s'. listen_walk as s = Inr (None, s') \<and> opens {} s s')"
proof (induction as arbitrary: s)
  case Nil
  have "opens {} s s" by simp
  then show ?case by (auto simp: ret_def)
next
  case (Cons a as)
  let ?fd = "os_fresh_fd s"
  let ?s1 = "s\<lparr>os_open := insert ?fd (os_open s), os_fresh_fd := ?fd + 1\<rparr>"
  have fresh: "?fd \<notin> os_open s" "0 \<le> ?fd" using Cons.prems by (auto simp: fds_ok_def)
  show ?case
  proof (cases "net_socket (os_net s) a")
    case False
    let ?s = "s\<lparr>os_errno := E_other\<rparr>"
    have o: "opens {} s ?s" by (rule opensI [where n = "os_fresh_fd s" and en = E_other]) simp_all
    from Cons.IH [OF fds_ok_opens [OF Cons.prems o]] False show ?thesis
      by (auto simp: sys_socket_def intro: opens_trans [OF o] split: if_splits)
  next
    case sock: True
    show ?thesis
    proof (cases "net_bind (os_net s) a")
      case True
      have "opens {?fd} s ?s1" by (rule opensI [where n = "?fd + 1" and en = "os_errno s"]) simp_all
      then show ?thesis using sock True fresh by (auto simp: sys_socket_def sys_bind_def ret_def)
    next
      case False
      let ?t = "s\<lparr>os_open := insert ?fd (os_open s), os_fresh_fd := ?fd + 1, os_errno := E_other\<rparr>"
      obtain r en where cl: "sys_close ?fd ?t = Inr (r, ?t\<lparr>os_open := os_open ?t - {?fd}, os_errno := en\<rparr>)"
        by (rule sys_close_runs)
      let ?s = "s\<lparr>os_fresh_fd := ?fd + 1, os_errno := en\<rparr>"
      have o: "opens {} s ?s" by (rule opensI [where n = "?fd + 1" and en = en]) simp_all
      have "listen_walk (a # as) s = listen_walk as ?s"
        using sock False fresh cl by (simp add: sys_socket_def sys_bind_def bnd_def)
      with Cons.IH [OF fds_ok_opens [OF Cons.prems o]] False show ?thesis
        by (auto intro: opens_trans [OF o] split: if_splits)
    qed
  qed
qed

text \<open>Whatever happens, no descriptor is lost: the one that is returned is the only new one.\<close>

lemma open_listenfd_no_leak:
  assumes "fds_ok s" "open_listenfd po s = Inr (fd, s')"
  shows "os_open s' = (if fd < 0 then os_open s else insert fd (os_open s))" "fd < 0 \<Longrightarrow> fd = - 1"
proof -
  from assms(2) obtain as where as: "net_gai (os_net s) None po = Inr as"
    by (cases "net_gai (os_net s) None po") (auto simp: open_listenfd_def bnd_basic halt_def)
  have "os_open s' = (if fd < 0 then os_open s else insert fd (os_open s)) \<and> (fd < 0 \<longrightarrow> fd = - 1)"
  proof (cases "\<exists>a \<in> set as. net_socket (os_net s) a \<and> net_bind (os_net s) a")
    case False
    with listen_walk_cases [OF assms(1), of as] obtain s1 where "listen_walk as s = Inr (None, s1)"
      "opens {} s s1" by (auto split: if_splits)
    with assms(2) as show ?thesis
      by (auto simp: open_listenfd_def bnd_basic ret_def opens_fields)
  next
    case True
    with listen_walk_cases [OF assms(1), of as] obtain fd1 s1 where
      w: "listen_walk as s = Inr (Some fd1, s1)" "os_fresh_fd s \<le> fd1" "opens {fd1} s s1"
      by (auto split: if_splits)
    have "fd1 \<notin> os_open s" "0 \<le> fd1" using w(2) assms(1) by (auto simp: fds_ok_def)
    with w assms(2) as show ?thesis
      by (auto simp: open_listenfd_def bnd_basic ret_def opens_fields bnd_eq_Inr_iff sys_listen_def
          sys_close_def split: if_splits option.splits)
  qed
  then show "os_open s' = (if fd < 0 then os_open s else insert fd (os_open s))" "fd < 0 \<Longrightarrow> fd = - 1"
    by auto
qed

end
