(* ===== verification/Posix.thy ===== *)
theory Posix
  imports Prelude
begin

section \<open>Semaphores\<close>

text \<open>
  A semaphore is a natural number in the state of its component; \<open>get\<close> reads it and \<open>put\<close>
  writes it.  \<open>P\<close> and \<open>V\<close> are the wrappers of \<open>lib/src/csapp.c\<close>.  In a sequential run a wait on
  a semaphore that is 0 never ends: the outcome is \<open>Blocked\<close>.  \<open>sem_post\<close> fails when the value is
  already the largest one (\<open>SEM_VALUE_MAX\<close>), and \<open>V\<close> then exits with code 0 (\<open>unix_error\<close>).
\<close>

definition SEM_VALUE_MAX :: nat where
  "SEM_VALUE_MAX = 2147483647"

definition P :: "('s \<Rightarrow> nat) \<Rightarrow> (nat \<Rightarrow> 's \<Rightarrow> 's) \<Rightarrow> ('s, unit) cmd" where
  "P get put s = (if get s = 0 then Inl Blocked else Inr ((), put (get s - 1) s))"

definition V :: "('s \<Rightarrow> nat) \<Rightarrow> (nat \<Rightarrow> 's \<Rightarrow> 's) \<Rightarrow> ('s, unit) cmd" where
  "V get put s = (if get s < SEM_VALUE_MAX then Inr ((), put (get s + 1) s) else Inl (Exit 0))"

lemma P_Inr [simp]: "0 < get s \<Longrightarrow> P get put s = Inr ((), put (get s - 1) s)"
  by (simp add: P_def)

lemma P_blocked [simp]: "get s = 0 \<Longrightarrow> P get put s = Inl Blocked"
  by (simp add: P_def)

lemma V_Inr [simp]: "get s < SEM_VALUE_MAX \<Longrightarrow> V get put s = Inr ((), put (get s + 1) s)"
  by (simp add: V_def)

end
