(* ===== verification/RWLock.thy ===== *)
theory RWLock
  imports Posix
begin

section \<open>The reader-writer lock of the cache (\<open>lib/src/cache.c\<close>, \<open>app/reader-writer.c\<close>)\<close>

text \<open>
  The lock favours readers: the first reader takes the writers' semaphore \<open>w\<close>, the last one gives
  it back, and \<open>mutex\<close> protects the count of readers.  The lock's variables are a record that the
  cache's state extends, so the four operations below are the ones the cache's model calls.  The
  second part interleaves any number of readers and writers.
\<close>

record rwlock =
  rw_readcnt :: int
  rw_mutex :: nat
  rw_w :: nat

subsection \<open>Operations\<close>

definition rw_P_mutex :: "('a rwlock_scheme, unit) cmd" where
  "rw_P_mutex = P rw_mutex (\<lambda>v. rw_mutex_update (\<lambda>_. v))"
definition rw_V_mutex :: "('a rwlock_scheme, unit) cmd" where
  "rw_V_mutex = V rw_mutex (\<lambda>v. rw_mutex_update (\<lambda>_. v))"
definition rw_P_w :: "('a rwlock_scheme, unit) cmd" where
  "rw_P_w = P rw_w (\<lambda>v. rw_w_update (\<lambda>_. v))"
definition rw_V_w :: "('a rwlock_scheme, unit) cmd" where
  "rw_V_w = V rw_w (\<lambda>v. rw_w_update (\<lambda>_. v))"

text \<open>\<open>readcnt++\<close> and \<open>readcnt--\<close>.\<close>

definition readers_inc :: "('a rwlock_scheme, unit) cmd" where
  "readers_inc =
     bnd (gets rw_readcnt) (\<lambda>n.
     bnd (lift_res (c_inc n)) (\<lambda>n'.
     modify (\<lambda>s. s\<lparr>rw_readcnt := n'\<rparr>)))"

definition readers_dec :: "('a rwlock_scheme, unit) cmd" where
  "readers_dec =
     bnd (gets rw_readcnt) (\<lambda>n.
     bnd (lift_res (c_dec n)) (\<lambda>n'.
     modify (\<lambda>s. s\<lparr>rw_readcnt := n'\<rparr>)))"

definition pre_read :: "('a rwlock_scheme, unit) cmd" where
  "pre_read =
     bnd rw_P_mutex (\<lambda>_.
     bnd readers_inc (\<lambda>_.
     bnd (gets rw_readcnt) (\<lambda>n.
     bnd (if n = 1 then rw_P_w else ret ()) (\<lambda>_.
     rw_V_mutex))))"

definition post_read :: "('a rwlock_scheme, unit) cmd" where
  "post_read =
     bnd rw_P_mutex (\<lambda>_.
     bnd readers_dec (\<lambda>_.
     bnd (gets rw_readcnt) (\<lambda>n.
     bnd (if n = 0 then rw_V_w else ret ()) (\<lambda>_.
     rw_V_mutex))))"

definition pre_write :: "('a rwlock_scheme, unit) cmd" where
  "pre_write = rw_P_w"

definition post_write :: "('a rwlock_scheme, unit) cmd" where
  "post_write = rw_V_w"

lemmas rw_cmds = rw_P_mutex_def rw_V_mutex_def rw_P_w_def rw_V_w_def P_def V_def
  readers_inc_def readers_dec_def cmd_simps

text \<open>The lock as nobody holds it, one reader holds it, a writer holds it.\<close>

definition rw_free :: "'a rwlock_scheme \<Rightarrow> bool" where
  "rw_free s \<longleftrightarrow> rw_readcnt s = 0 \<and> rw_mutex s = 1 \<and> rw_w s = 1"

abbreviation with_reader :: "'a rwlock_scheme \<Rightarrow> 'a rwlock_scheme" where
  "with_reader s \<equiv> s\<lparr>rw_readcnt := 1, rw_w := 0\<rparr>"

abbreviation with_writer :: "'a rwlock_scheme \<Rightarrow> 'a rwlock_scheme" where
  "with_writer s \<equiv> s\<lparr>rw_w := 0\<rparr>"

lemma pre_read_free: "rw_free s \<Longrightarrow> pre_read s = Inr ((), with_reader s)"
  by (simp add: rw_free_def pre_read_def rw_cmds c_inc_def INT_MAX_def SEM_VALUE_MAX_def bnd_def)

lemma post_read_reader:
  "rw_readcnt s = 1 \<Longrightarrow> rw_mutex s = 1 \<Longrightarrow> rw_w s = 0 \<Longrightarrow>
     post_read s = Inr ((), s\<lparr>rw_readcnt := 0, rw_w := 1\<rparr>)"
  by (simp add: post_read_def rw_cmds c_dec_def INT_MAX_def SEM_VALUE_MAX_def bnd_def)

lemma pre_write_free: "rw_free s \<Longrightarrow> pre_write s = Inr ((), with_writer s)"
  by (simp add: rw_free_def pre_write_def rw_cmds)

lemma post_write_writer: "rw_w s = 0 \<Longrightarrow> post_write s = Inr ((), s\<lparr>rw_w := 1\<rparr>)"
  by (simp add: post_write_def rw_cmds SEM_VALUE_MAX_def)

text \<open>
  Critical sections do not nest: whoever holds the lock in either mode and asks to write waits for
  ever, and a writer that asks to read waits for ever.
\<close>

lemma pre_write_blocked: "rw_w s = 0 \<Longrightarrow> pre_write s = Inl Blocked"
  by (simp add: pre_write_def rw_cmds)

lemma pre_read_blocked:
  "rw_readcnt s = 0 \<Longrightarrow> rw_mutex s = 1 \<Longrightarrow> rw_w s = 0 \<Longrightarrow> pre_read s = Inl Blocked"
  by (simp add: pre_read_def rw_cmds c_inc_def INT_MAX_def bnd_def)

subsection \<open>Interleaved readers and writers\<close>

datatype rwloc =
    Out
  | R_lock      \<comment> \<open>\<open>pre_read\<close>: before \<open>P(&mutex)\<close>\<close>
  | R_inc       \<comment> \<open>before \<open>readcnt++\<close>\<close>
  | R_gate      \<comment> \<open>before \<open>if (readcnt == 1) P(&w)\<close>\<close>
  | R_unlock    \<comment> \<open>before \<open>V(&mutex)\<close>\<close>
  | Reading
  | R_relock    \<comment> \<open>\<open>post_read\<close>: before \<open>P(&mutex)\<close>\<close>
  | R_dec
  | R_last      \<comment> \<open>before \<open>if (readcnt == 0) V(&w)\<close>\<close>
  | R_leave
  | W_wait      \<comment> \<open>\<open>pre_write\<close>: before \<open>P(&w)\<close>\<close>
  | Writing

record rwsys =
  rw_lock :: rwlock
  rw_thr :: "rwloc list"

text \<open>What a thread executes at each location, and where it goes; no successor is a loop's exit.\<close>

fun rw_action :: "rwloc \<Rightarrow> (rwlock, unit) cmd" where
  "rw_action Out = ret ()"
| "rw_action R_lock = rw_P_mutex"
| "rw_action R_inc = readers_inc"
| "rw_action R_gate = bnd (gets rw_readcnt) (\<lambda>n. if n = 1 then rw_P_w else ret ())"
| "rw_action R_unlock = rw_V_mutex"
| "rw_action Reading = ret ()"
| "rw_action R_relock = rw_P_mutex"
| "rw_action R_dec = readers_dec"
| "rw_action R_last = bnd (gets rw_readcnt) (\<lambda>n. if n = 0 then rw_V_w else ret ())"
| "rw_action R_leave = rw_V_mutex"
| "rw_action W_wait = rw_P_w"
| "rw_action Writing = rw_V_w"

fun rw_next :: "rwloc \<Rightarrow> rwloc list" where
  "rw_next Out = [R_lock, W_wait]"
| "rw_next R_lock = [R_inc]"
| "rw_next R_inc = [R_gate]"
| "rw_next R_gate = [R_unlock]"
| "rw_next R_unlock = [Reading]"
| "rw_next Reading = [R_relock]"
| "rw_next R_relock = [R_dec]"
| "rw_next R_dec = [R_last]"
| "rw_next R_last = [R_leave]"
| "rw_next R_leave = [Out]"
| "rw_next W_wait = [Writing]"
| "rw_next Writing = [Out]"

inductive rw_step :: "rwsys \<Rightarrow> rwsys \<Rightarrow> bool" where
  move: "i < length (rw_thr s) \<Longrightarrow> rw_action (rw_thr s ! i) (rw_lock s) = Inr ((), l) \<Longrightarrow>
     p \<in> set (rw_next (rw_thr s ! i)) \<Longrightarrow>
     rw_step s (s\<lparr>rw_lock := l, rw_thr := (rw_thr s)[i := p]\<rparr>)"

definition rw_start :: "nat \<Rightarrow> rwsys" where
  "rw_start t = \<lparr>rw_lock = \<lparr>rw_readcnt = 0, rw_mutex = 1, rw_w = 1\<rparr>, rw_thr = replicate t Out\<rparr>"

inductive rw_reach :: "nat \<Rightarrow> rwsys \<Rightarrow> bool" for t where
  start: "rw_reach t (rw_start t)"
| step: "rw_reach t s \<Longrightarrow> rw_step s s' \<Longrightarrow> rw_reach t s'"

subsection \<open>The invariant\<close>

definition in_mutex :: "rwloc \<Rightarrow> bool" where
  "in_mutex l \<longleftrightarrow> l \<in> {R_inc, R_gate, R_unlock, R_dec, R_last, R_leave}"

definition counted :: "rwloc \<Rightarrow> bool" where
  "counted l \<longleftrightarrow> l \<in> {R_gate, R_unlock, Reading, R_relock, R_dec}"

text \<open>The readers own \<open>w\<close> but for the first one at the gate, and still own it before the last post.\<close>

definition readers_own :: "rwsys \<Rightarrow> bool" where
  "readers_own s \<longleftrightarrow> cnt ((=) R_last) (rw_thr s) = 1 \<or>
     0 < rw_readcnt (rw_lock s) \<and>
     \<not> (cnt ((=) R_gate) (rw_thr s) = 1 \<and> rw_readcnt (rw_lock s) = 1)"

definition rw_inv :: "rwsys \<Rightarrow> bool" where
  "rw_inv s \<longleftrightarrow> (let l = rw_lock s; ts = rw_thr s in
     int (rw_mutex l) + cnt in_mutex ts = 1 \<and>
     rw_readcnt l = cnt counted ts \<and>
     int (rw_w l) + cnt ((=) Writing) ts + (if readers_own s then 1 else 0) = 1)"

lemma rw_inv_start: "rw_inv (rw_start t)"
  by (simp add: rw_inv_def rw_start_def readers_own_def in_mutex_def counted_def)

lemma in_mutex_parts:
  "cnt ((=) R_gate) ts + cnt ((=) R_last) ts + cnt ((=) R_dec) ts + cnt ((=) R_inc) ts
     + cnt ((=) R_unlock) ts + cnt ((=) R_leave) ts = cnt in_mutex ts"
  by (induction ts) (auto simp: in_mutex_def)

lemma counted_parts:
  "cnt counted ts = cnt ((=) R_gate) ts + cnt ((=) R_unlock) ts + cnt ((=) Reading) ts
     + cnt ((=) R_relock) ts + cnt ((=) R_dec) ts"
  by (induction ts) (auto simp: counted_def)

lemma rw_step_inv:
  assumes "rw_step s s'" "rw_inv s"
  shows "rw_inv s'"
  using assms(1)
proof cases
  case (move i l p)
  let ?ts = "rw_thr s"
  note parts = in_mutex_parts [of ?ts] counted_parts [of ?ts]
  note nn = cnt_nonneg [of "(=) R_gate" ?ts] cnt_nonneg [of "(=) R_last" ?ts]
    cnt_nonneg [of "(=) R_dec" ?ts] cnt_nonneg [of "(=) R_inc" ?ts]
    cnt_nonneg [of "(=) R_unlock" ?ts] cnt_nonneg [of "(=) R_leave" ?ts]
    cnt_nonneg [of "(=) Reading" ?ts] cnt_nonneg [of "(=) R_relock" ?ts]
    cnt_nonneg [of "(=) Writing" ?ts]
  have me: "1 \<le> cnt ((=) (?ts ! i)) ?ts" using move(2) by (rule cnt_pos) simp
  note ups = cnt_update [OF move(2)]
  show ?thesis
  proof (cases "?ts ! i")
    case R_inc
    with move me parts nn assms(2) show ?thesis
      by (auto simp: rw_inv_def readers_own_def Let_def ups in_mutex_def counted_def rw_cmds
          c_inc_def simp del: cnt_nonneg split: if_splits)
  qed (use move me parts nn assms(2) in \<open>auto simp: rw_inv_def readers_own_def Let_def ups
      in_mutex_def counted_def rw_cmds c_dec_def simp del: cnt_nonneg split: if_splits\<close>)
qed

lemma rw_reach_inv: "rw_reach t s \<Longrightarrow> rw_inv s \<and> length (rw_thr s) = t"
proof (induction rule: rw_reach.induct)
  case start
  show ?case by (simp add: rw_inv_start) (simp add: rw_start_def)
next
  case (step s s')
  then show ?case by (auto intro: rw_step_inv elim: rw_step.cases)
qed

lemma rw_inv_nums:
  assumes "rw_inv s"
  shows "cnt in_mutex (rw_thr s) \<le> 1"
    "cnt ((=) Writing) (rw_thr s) \<le> 1"
    "0 < cnt ((=) Writing) (rw_thr s) \<Longrightarrow> \<not> readers_own s"
    "rw_readcnt (rw_lock s) = cnt counted (rw_thr s)"
    "0 < cnt ((=) Writing) (rw_thr s) \<Longrightarrow> rw_w (rw_lock s) = 0"
  using assms cnt_nonneg [of "(=) Writing" "rw_thr s"]
  by (auto simp: rw_inv_def Let_def simp del: cnt_nonneg split: if_splits)

lemma rw_readers_own:
  assumes "rw_inv s" "0 < cnt ((=) Reading) (rw_thr s)"
  shows "readers_own s"
proof -
  let ?ts = "rw_thr s"
  note nn = cnt_nonneg [of "(=) R_gate" ?ts] cnt_nonneg [of "(=) R_unlock" ?ts]
    cnt_nonneg [of "(=) R_relock" ?ts] cnt_nonneg [of "(=) R_dec" ?ts]
  have "rw_readcnt (rw_lock s) = cnt counted ?ts" using assms(1) by (rule rw_inv_nums)
  with counted_parts [of ?ts] nn assms(2) show ?thesis
    by (auto simp: readers_own_def simp del: cnt_nonneg)
qed

lemma rw_exclusion:
  assumes "rw_inv s"
  shows "cnt ((=) Writing) (rw_thr s) \<le> 1 \<and>
    (0 < cnt ((=) Writing) (rw_thr s) \<longrightarrow> cnt ((=) Reading) (rw_thr s) = 0)"
proof -
  have "cnt ((=) Reading) (rw_thr s) = 0" if "0 < cnt ((=) Writing) (rw_thr s)"
    using rw_readers_own [OF assms] rw_inv_nums(3) [OF assms that]
      cnt_nonneg [of "(=) Reading" "rw_thr s"] by linarith
  then show ?thesis using rw_inv_nums(2) [OF assms] by simp
qed

subsection \<open>Progress\<close>

definition rw_moves :: "rwsys \<Rightarrow> nat \<Rightarrow> bool" where
  "rw_moves s i \<longleftrightarrow> (\<exists>s'. rw_step s s' \<and> rw_thr s' ! i \<noteq> rw_thr s ! i)"

lemma rw_next_move: "rw_next l \<noteq> [] \<and> hd (rw_next l) \<noteq> l"
  by (cases l) auto

lemma rw_movesI:
  assumes "i < length (rw_thr s)" "rw_action (rw_thr s ! i) (rw_lock s) = Inr ((), l)"
  shows "rw_moves s i"
proof -
  let ?p = "hd (rw_next (rw_thr s ! i))"
  have "?p \<in> set (rw_next (rw_thr s ! i))" "?p \<noteq> rw_thr s ! i"
    using rw_next_move by (auto intro: list.set_sel)
  with rw_step.move [OF assms this(1)] assms(1) show ?thesis
    unfolding rw_moves_def by force
qed

text \<open>A thread that holds \<open>mutex\<close> waits for nothing but, as the first reader, for a writer.\<close>

lemma rw_holder_runs:
  assumes inv: "rw_inv s" and i: "i < length (rw_thr s)" and m: "in_mutex (rw_thr s ! i)"
    and few: "int (length (rw_thr s)) < INT_MAX"
    and free: "rw_thr s ! i = R_gate \<Longrightarrow> 0 < rw_w (rw_lock s)"
  shows "\<exists>l. rw_action (rw_thr s ! i) (rw_lock s) = Inr ((), l)"
proof -
  have mx: "rw_mutex (rw_lock s) = 0"
    using cnt_pos [of i "rw_thr s" in_mutex, OF i m] inv by (auto simp: rw_inv_def Let_def)
  have c: "0 \<le> rw_readcnt (rw_lock s)" "rw_readcnt (rw_lock s) < INT_MAX"
    using rw_inv_nums(4) [OF inv] few length_filter_le [of counted "rw_thr s"]
    unfolding cnt_def by linarith+
  have w: "rw_w (rw_lock s) < SEM_VALUE_MAX"
    using inv cnt_nonneg [of "(=) Writing" "rw_thr s"]
    unfolding rw_inv_def Let_def SEM_VALUE_MAX_def by (simp split: if_splits del: cnt_nonneg)
  from m mx c w free show ?thesis
    by (cases "rw_thr s ! i") (auto simp: in_mutex_def rw_cmds c_inc_def c_dec_def INT_MAX_def SEM_VALUE_MAX_def)
qed

lemma rw_writer_moves:
  assumes inv: "rw_inv s" and "0 < cnt ((=) Writing) (rw_thr s)"
  shows "\<exists>i < length (rw_thr s). rw_thr s ! i \<noteq> Out \<and> rw_moves s i"
proof -
  from cnt_pos_ex [OF assms(2)] obtain i where i: "i < length (rw_thr s)" "rw_thr s ! i = Writing"
    by auto
  with rw_inv_nums(5) [OF assms] have "\<exists>l. rw_action (rw_thr s ! i) (rw_lock s) = Inr ((), l)"
    by (simp add: rw_cmds SEM_VALUE_MAX_def)
  with rw_movesI [OF i(1)] i show ?thesis by auto
qed

lemma rw_gate_counts:
  assumes "rw_inv s" "i < length (rw_thr s)" "rw_thr s ! i = R_gate"
  shows "cnt ((=) R_gate) (rw_thr s) = 1" "cnt ((=) R_last) (rw_thr s) = 0"
proof -
  let ?ts = "rw_thr s"
  note nn = cnt_nonneg [of "(=) R_last" ?ts] cnt_nonneg [of "(=) R_dec" ?ts]
    cnt_nonneg [of "(=) R_inc" ?ts] cnt_nonneg [of "(=) R_unlock" ?ts]
    cnt_nonneg [of "(=) R_leave" ?ts]
  have "1 \<le> cnt ((=) R_gate) ?ts" using assms(2,3) by (intro cnt_pos) auto
  with in_mutex_parts [of ?ts] nn rw_inv_nums(1) [OF assms(1)]
  show "cnt ((=) R_gate) ?ts = 1" "cnt ((=) R_last) ?ts = 0" by linarith+
qed

lemma rw_gate_open:
  assumes inv: "rw_inv s" and i: "i < length (rw_thr s)" "rw_thr s ! i = R_gate"
    and w: "rw_w (rw_lock s) = 0" "cnt ((=) Writing) (rw_thr s) = 0"
  shows "rw_action R_gate (rw_lock s) = Inr ((), rw_lock s)"
proof -
  from inv w have "readers_own s" by (auto simp: rw_inv_def Let_def split: if_splits)
  with rw_gate_counts [OF inv i] have "rw_readcnt (rw_lock s) \<noteq> 1" by (simp add: readers_own_def)
  then show ?thesis by (simp add: cmd_simps)
qed

lemma rw_in_mutex_progress:
  assumes inv: "rw_inv s" and few: "int (length (rw_thr s)) < INT_MAX"
    and m: "0 < cnt in_mutex (rw_thr s)"
  shows "\<exists>i < length (rw_thr s). rw_thr s ! i \<noteq> Out \<and> rw_moves s i"
proof -
  from cnt_pos_ex [OF m] obtain i where i: "i < length (rw_thr s)" "in_mutex (rw_thr s ! i)" by blast
  then have out: "rw_thr s ! i \<noteq> Out" by (auto simp: in_mutex_def)
  show ?thesis
  proof (cases "0 < cnt ((=) Writing) (rw_thr s)")
    case True
    then show ?thesis by (rule rw_writer_moves [OF inv])
  next
    case False
    then have "cnt ((=) Writing) (rw_thr s) = 0"
      using cnt_nonneg [of "(=) Writing" "rw_thr s"] by linarith
    then have "\<exists>l. rw_action (rw_thr s ! i) (rw_lock s) = Inr ((), l)"
      using rw_gate_open [OF inv i(1)] rw_holder_runs [OF inv i few]
      by (cases "rw_thr s ! i = R_gate \<and> rw_w (rw_lock s) = 0") auto
    with rw_movesI [OF i(1)] i(1) out show ?thesis by blast
  qed
qed

text \<open>With \<open>mutex\<close> free, only a waiting writer can be stuck, and then a reader or a writer is inside.\<close>

lemma rw_outside_runs:
  assumes "rw_mutex l = 1" "\<not> in_mutex p" "p \<noteq> Writing" "p = W_wait \<Longrightarrow> 0 < rw_w l"
  shows "\<exists>l'. rw_action p l = Inr ((), l')"
  using assms by (cases p) (auto simp: in_mutex_def rw_cmds)

lemma rw_readers_inside:
  assumes inv: "rw_inv s" and z: "cnt in_mutex (rw_thr s) = 0"
    and w: "rw_w (rw_lock s) = 0" "cnt ((=) Writing) (rw_thr s) = 0"
  shows "\<exists>j < length (rw_thr s). counted (rw_thr s ! j)"
proof -
  let ?ts = "rw_thr s"
  note nn = cnt_nonneg [of "(=) R_last" ?ts] cnt_nonneg [of "(=) R_dec" ?ts]
    cnt_nonneg [of "(=) R_inc" ?ts] cnt_nonneg [of "(=) R_unlock" ?ts]
    cnt_nonneg [of "(=) R_leave" ?ts] cnt_nonneg [of "(=) R_gate" ?ts]
  from inv w have own: "readers_own s" by (auto simp: rw_inv_def Let_def split: if_splits)
  have "cnt ((=) R_last) ?ts = 0" using in_mutex_parts [of ?ts] z nn by linarith
  with own rw_inv_nums(4) [OF inv] have "0 < cnt counted ?ts" by (simp add: readers_own_def)
  then show ?thesis by (rule cnt_pos_ex)
qed

lemma rw_progress:
  assumes inv: "rw_inv s" and few: "int (length (rw_thr s)) < INT_MAX"
    and busy: "\<exists>l \<in> set (rw_thr s). l \<noteq> Out"
  shows "\<exists>i < length (rw_thr s). rw_thr s ! i \<noteq> Out \<and> rw_moves s i"
proof -
  let ?ts = "rw_thr s"
  consider (m) "0 < cnt in_mutex ?ts" | (w) "0 < cnt ((=) Writing) ?ts"
    | (n) "cnt in_mutex ?ts = 0" "cnt ((=) Writing) ?ts = 0"
    using cnt_nonneg [of in_mutex ?ts] cnt_nonneg [of "(=) Writing" ?ts] by linarith
  then show ?thesis
  proof cases
    case n
    then have mx: "rw_mutex (rw_lock s) = 1" using inv by (simp add: rw_inv_def Let_def)
    have out: "\<not> in_mutex (?ts ! i) \<and> ?ts ! i \<noteq> Writing" if "i < length ?ts" for i
      using n nth_mem [OF that] by (auto simp: cnt_zero_iff)
    have "\<exists>i < length ?ts. ?ts ! i \<noteq> Out \<and> (?ts ! i = W_wait \<longrightarrow> 0 < rw_w (rw_lock s))"
    proof (cases "rw_w (rw_lock s) = 0")
      case True
      from rw_readers_inside [OF inv n(1) True n(2)] show ?thesis by (auto simp: counted_def)
    qed (use busy in \<open>auto simp: in_set_conv_nth\<close>)
    then show ?thesis using rw_outside_runs [OF mx] out rw_movesI by meson
  qed (rule rw_in_mutex_progress [OF inv few], assumption, rule rw_writer_moves [OF inv])
qed

text \<open>
  Readers are favoured: while one reader is inside, another one enters in four steps of its own,
  whatever writers wait.
\<close>

lemma pre_read_shared:
  assumes "0 < rw_readcnt s" "rw_readcnt s < INT_MAX" "rw_mutex s = 1"
  shows "pre_read s = Inr ((), s\<lparr>rw_readcnt := rw_readcnt s + 1\<rparr>)"
  using assms by (simp add: pre_read_def rw_cmds SEM_VALUE_MAX_def bnd_def)

text \<open>The operations, run without interruption, are runs of the interleaved system.\<close>

lemma rw_reach_move:
  "rw_reach t s \<Longrightarrow> i < t \<Longrightarrow> rw_action (rw_thr s ! i) (rw_lock s) = Inr ((), l) \<Longrightarrow>
   p \<in> set (rw_next (rw_thr s ! i)) \<Longrightarrow> rw_reach t (s\<lparr>rw_lock := l, rw_thr := (rw_thr s)[i := p]\<rparr>)"
  by (auto intro: rw_reach.step move dest: rw_reach_inv)

lemma rw_reach_pre_read:
  assumes re: "rw_reach t s" "i < t" "rw_thr s ! i = Out" and run: "pre_read (rw_lock s) = Inr ((), l)"
  shows "rw_reach t (s\<lparr>rw_lock := l, rw_thr := (rw_thr s)[i := Reading]\<rparr>)"
proof -
  have n: "i < length (rw_thr s)" using rw_reach_inv [OF re(1)] re(2) by simp
  from run obtain l1 l2 l3 where
    c: "rw_P_mutex (rw_lock s) = Inr ((), l1)" "readers_inc l1 = Inr ((), l2)"
      "bnd (gets rw_readcnt) (\<lambda>n. if n = 1 then rw_P_w else ret ()) l2 = Inr ((), l3)"
      "rw_V_mutex l3 = Inr ((), l)"
    by (auto simp: pre_read_def bnd_gets bnd_eq_Inr_iff)
  from rw_reach_move [OF re(1,2), of "rw_lock s" R_lock] re(3)
  have "rw_reach t (s\<lparr>rw_lock := rw_lock s, rw_thr := (rw_thr s)[i := R_lock]\<rparr>)" by (simp add: ret_def)
  from rw_reach_move [OF this re(2), of l1 R_inc] c n
  have "rw_reach t (s\<lparr>rw_lock := l1, rw_thr := (rw_thr s)[i := R_inc]\<rparr>)" by simp
  from rw_reach_move [OF this re(2), of l2 R_gate] c n
  have "rw_reach t (s\<lparr>rw_lock := l2, rw_thr := (rw_thr s)[i := R_gate]\<rparr>)" by simp
  from rw_reach_move [OF this re(2), of l3 R_unlock] c n
  have "rw_reach t (s\<lparr>rw_lock := l3, rw_thr := (rw_thr s)[i := R_unlock]\<rparr>)" by simp
  from rw_reach_move [OF this re(2), of l Reading] c n
  show ?thesis by simp
qed

lemma rw_reach_pre_write:
  assumes re: "rw_reach t s" "i < t" "rw_thr s ! i = Out" and run: "pre_write (rw_lock s) = Inr ((), l)"
  shows "rw_reach t (s\<lparr>rw_lock := l, rw_thr := (rw_thr s)[i := Writing]\<rparr>)"
proof -
  have n: "i < length (rw_thr s)" using rw_reach_inv [OF re(1)] re(2) by simp
  from rw_reach_move [OF re(1,2), of "rw_lock s" W_wait] re(3)
  have "rw_reach t (s\<lparr>rw_lock := rw_lock s, rw_thr := (rw_thr s)[i := W_wait]\<rparr>)" by (simp add: ret_def)
  from rw_reach_move [OF this re(2), of l Writing] run n
  show ?thesis by (simp add: pre_write_def)
qed

end
