(* ===== verification/Cache.thy ===== *)
theory Cache
  imports RWLock
begin

section \<open>The LRU cache: data and operations (\<open>lib/src/cache.c\<close>)\<close>

text \<open>
  A cache record is a node of a doubly linked list between two dummy nodes; the list is ordered from
  the least to the most recently used record.  The heap maps the address of a live node to its
  contents, and an address that was freed, or never allocated, to \<open>None\<close>; addresses are not reused.
  The strings of a node are owned by it and never change, so the node holds their characters.  Its
  payload is a separate block of raw bytes.  \<open>c_junk\<close> gives the bytes that a fresh block happens to
  hold before anything is written to it.
\<close>

datatype ptr = Null | Ref nat | Undef

record cnode =
  cn_host :: string
  cn_port :: string
  cn_path :: string
  cn_payload :: block
  cn_bytesize :: nat
  cn_prev :: ptr
  cn_next :: ptr

record cache = rwlock +
  c_heap :: "nat \<Rightarrow> cnode option"
  c_fresh :: nat
  c_junk :: "nat \<Rightarrow> nat \<Rightarrow> char"
  c_front :: ptr
  c_end :: ptr
  c_count :: int
  c_load :: "64 word"

definition MAX_CACHE_SIZE :: "64 word" where
  "MAX_CACHE_SIZE = 1049000"

definition MAX_OBJECT_SIZE :: nat where
  "MAX_OBJECT_SIZE = 102400"

subsection \<open>Access to nodes\<close>

fun deref :: "ptr \<Rightarrow> (cache, cnode) cmd" where
  "deref Null s = Inl Null_deref"
| "deref Undef s = Inl Wild_ptr"
| "deref (Ref a) s = (case c_heap s a of None \<Rightarrow> Inl Use_after_free | Some n \<Rightarrow> Inr (n, s))"

definition load_prev :: "ptr \<Rightarrow> (cache, ptr) cmd" where
  "load_prev p = bnd (deref p) (\<lambda>n. ret (cn_prev n))"

definition load_next :: "ptr \<Rightarrow> (cache, ptr) cmd" where
  "load_next p = bnd (deref p) (\<lambda>n. ret (cn_next n))"

definition hset_prev :: "(nat \<Rightarrow> cnode option) \<Rightarrow> nat \<Rightarrow> ptr \<Rightarrow> (nat \<Rightarrow> cnode option)" where
  "hset_prev h a q = h(a := map_option (cn_prev_update (\<lambda>_. q)) (h a))"

definition hset_next :: "(nat \<Rightarrow> cnode option) \<Rightarrow> nat \<Rightarrow> ptr \<Rightarrow> (nat \<Rightarrow> cnode option)" where
  "hset_next h a q = h(a := map_option (cn_next_update (\<lambda>_. q)) (h a))"

fun set_prev :: "ptr \<Rightarrow> ptr \<Rightarrow> (cache, unit) cmd" where
  "set_prev Null q s = Inl Null_deref"
| "set_prev Undef q s = Inl Wild_ptr"
| "set_prev (Ref a) q s =
     (if c_heap s a = None then Inl Use_after_free
      else Inr ((), s\<lparr>c_heap := hset_prev (c_heap s) a q\<rparr>))"

fun set_next :: "ptr \<Rightarrow> ptr \<Rightarrow> (cache, unit) cmd" where
  "set_next Null q s = Inl Null_deref"
| "set_next Undef q s = Inl Wild_ptr"
| "set_next (Ref a) q s =
     (if c_heap s a = None then Inl Use_after_free
      else Inr ((), s\<lparr>c_heap := hset_next (c_heap s) a q\<rparr>))"

text \<open>The assertions are compiled in: \<open>NDEBUG\<close> is not defined.\<close>

definition c_assert :: "bool \<Rightarrow> ('s, unit) cmd" where
  "c_assert b = (if b then ret () else halt Assert_fail)"

subsection \<open>Nodes\<close>

text \<open>
  \<open>new_node\<close> sizes the payload block by \<open>strlen(payload) + 1\<close> and copies \<open>bytesize\<close> bytes into
  it; the two links stay uninitialised.
\<close>

definition new_node :: "string \<Rightarrow> string \<Rightarrow> string \<Rightarrow> block \<Rightarrow> nat \<Rightarrow> (cache, ptr) cmd" where
  "new_node host port path payload bytesize =
     bnd (gets c_fresh) (\<lambda>a.
     bnd (gets c_junk) (\<lambda>junk.
     bnd (lift_res (c_strlen payload)) (\<lambda>len.
     bnd (lift_res (blk_read payload 0 bytesize)) (\<lambda>bs.
     bnd (lift_res (blk_write (map (junk a) [0..<len + 1]) 0 bs)) (\<lambda>blk.
     bnd (modify (\<lambda>s. s\<lparr>c_fresh := a + 1,
       c_heap := (c_heap s)(a \<mapsto> \<lparr>cn_host = host, cn_port = port, cn_path = path,
         cn_payload = blk, cn_bytesize = bytesize, cn_prev = Undef, cn_next = Undef\<rparr>)\<rparr>)) (\<lambda>_.
     ret (Ref a)))))))"

fun free_node :: "ptr \<Rightarrow> (cache, unit) cmd" where
  "free_node Null s = Inl Null_deref"
| "free_node Undef s = Inl Wild_ptr"
| "free_node (Ref a) s =
     (if c_heap s a = None then Inl Use_after_free
      else Inr ((), s\<lparr>c_heap := (c_heap s)(a := None)\<rparr>))"

definition cache_init :: "(cache, unit) cmd" where
  "cache_init =
     bnd (modify (\<lambda>s. s\<lparr>c_load := 0, c_count := 0\<rparr>)) (\<lambda>_.
     bnd (new_node [] [] [] [NUL] 0) (\<lambda>f.
     bnd (modify (\<lambda>s. s\<lparr>c_front := f\<rparr>)) (\<lambda>_.
     bnd (new_node [] [] [] [NUL] 0) (\<lambda>e.
     bnd (modify (\<lambda>s. s\<lparr>c_end := e\<rparr>)) (\<lambda>_.
     bnd (set_next f e) (\<lambda>_.
     bnd (set_prev f Null) (\<lambda>_.
     bnd (set_prev e f) (\<lambda>_.
     bnd (set_next e Null) (\<lambda>_.
     modify (\<lambda>s. s\<lparr>rw_readcnt := 0, rw_w := 1, rw_mutex := 1\<rparr>))))))))))"

definition is_empty :: "(cache, bool) cmd" where
  "is_empty =
     bnd (gets c_front) (\<lambda>f.
     bnd (gets c_end) (\<lambda>e.
     bnd (load_next f) (\<lambda>fn.
     if fn = e then bnd (load_prev e) (\<lambda>ep. ret (f = ep)) else ret False)))"

definition is_match :: "ptr \<Rightarrow> string \<Rightarrow> string \<Rightarrow> string \<Rightarrow> (cache, bool) cmd" where
  "is_match node host port path =
     bnd (deref node) (\<lambda>n.
     if \<not> strcasecmp0 (cn_host n) host then ret False
     else if \<not> strcasecmp0 (cn_port n) port then ret False
     else if \<not> strcasecmp0 (cn_path n) path then ret False
     else ret True)"

subsection \<open>The consistency check that ends every update\<close>

text \<open>
  A walk over the list is bounded by the number of addresses ever allocated: a longer one visits
  a node twice and never ends.
\<close>

fun check_walk :: "nat \<Rightarrow> ptr \<Rightarrow> nat \<Rightarrow> (cache, nat) cmd" where
  "check_walk 0 p count = halt No_fuel"
| "check_walk (Suc k) p count =
     bnd (gets c_end) (\<lambda>e.
     if p = e then ret count
     else bnd (load_prev p) (\<lambda>pp.
       bnd (load_next pp) (\<lambda>ppn.
       bnd (c_assert (p = ppn)) (\<lambda>_.
       bnd (load_next p) (\<lambda>p'.
       check_walk k p' (count + 1))))))"

definition cache_check :: "(cache, unit) cmd" where
  "cache_check =
     bnd pre_read (\<lambda>_.
     bnd (gets c_count) (\<lambda>cc.
     bnd (if cc = 0 then
            bnd is_empty (\<lambda>b.
            bnd (c_assert b) (\<lambda>_.
            bnd (gets c_front) (\<lambda>f.
            bnd (load_prev f) (\<lambda>fp.
            if fp = Null then
              bnd (gets c_end) (\<lambda>e.
              bnd (load_next e) (\<lambda>en.
              c_assert (en = Null)))
            else halt Assert_fail))))
          else
            bnd (gets c_front) (\<lambda>f.
            bnd (load_next f) (\<lambda>p.
            bnd (gets (\<lambda>s. Suc (c_fresh s))) (\<lambda>fuel.
            bnd (check_walk fuel p 0) (\<lambda>count.
            c_assert (count = to_size cc)))))) (\<lambda>_.
     post_read)))"

subsection \<open>Queue operations\<close>

text \<open>\<open>cache_load += strlen(node->payload)\<close> and \<open>cache_load -= strlen(del->payload)\<close>.\<close>

definition load_add :: "ptr \<Rightarrow> (cache, unit) cmd" where
  "load_add p =
     bnd (deref p) (\<lambda>n.
     bnd (lift_res (c_strlen (cn_payload n))) (\<lambda>l.
     modify (\<lambda>s. s\<lparr>c_load := c_load s + of_nat l\<rparr>)))"

definition load_sub :: "ptr \<Rightarrow> (cache, unit) cmd" where
  "load_sub p =
     bnd (deref p) (\<lambda>n.
     bnd (lift_res (c_strlen (cn_payload n))) (\<lambda>l.
     modify (\<lambda>s. s\<lparr>c_load := c_load s - of_nat l\<rparr>)))"

definition count_inc :: "(cache, unit) cmd" where
  "count_inc =
     bnd (gets c_count) (\<lambda>c. bnd (lift_res (c_inc c)) (\<lambda>c'. modify (\<lambda>s. s\<lparr>c_count := c'\<rparr>)))"

definition count_dec :: "(cache, unit) cmd" where
  "count_dec =
     bnd (gets c_count) (\<lambda>c. bnd (lift_res (c_dec c)) (\<lambda>c'. modify (\<lambda>s. s\<lparr>c_count := c'\<rparr>)))"

text \<open>
  The four assignments that put a node before the end dummy, in the two orders the code has:
  \<open>enqueue\<close> writes \<open>node->prev\<close> before \<open>node->next\<close>, \<open>update\<close> the other way round.
\<close>

definition enqueue :: "ptr \<Rightarrow> (cache, unit) cmd" where
  "enqueue node =
     bnd pre_write (\<lambda>_.
     bnd (gets c_end) (\<lambda>e.
     bnd (load_prev e) (\<lambda>ep.
     bnd (set_prev node ep) (\<lambda>_.
     bnd (set_next node e) (\<lambda>_.
     bnd (set_prev e node) (\<lambda>_.
     bnd (load_prev node) (\<lambda>np.
     bnd (set_next np node) (\<lambda>_.
     bnd count_inc (\<lambda>_.
     bnd (load_add node) (\<lambda>_.
     bnd post_write (\<lambda>_.
     cache_check)))))))))))"

definition dequeue :: "(cache, ptr) cmd" where
  "dequeue =
     bnd pre_write (\<lambda>_.
     bnd is_empty (\<lambda>b.
     if b then bnd post_write (\<lambda>_. ret Null)
     else
       bnd (gets c_front) (\<lambda>f.
       bnd (load_next f) (\<lambda>del.
       bnd (load_next del) (\<lambda>dn.
       bnd (set_next f dn) (\<lambda>_.
       bnd (load_next f) (\<lambda>fn.
       bnd (set_prev fn f) (\<lambda>_.
       bnd count_dec (\<lambda>_.
       bnd (load_sub del) (\<lambda>_.
       bnd post_write (\<lambda>_.
       bnd cache_check (\<lambda>_.
       ret del))))))))))))"

definition update :: "ptr \<Rightarrow> (cache, unit) cmd" where
  "update node =
     bnd pre_write (\<lambda>_.
     bnd (load_prev node) (\<lambda>np.
     bnd (load_next node) (\<lambda>nn.
     bnd (set_next np nn) (\<lambda>_.
     bnd (load_next node) (\<lambda>nn'.
     bnd (load_prev node) (\<lambda>np'.
     bnd (set_prev nn' np') (\<lambda>_.
     bnd (gets c_end) (\<lambda>e.
     bnd (set_next node e) (\<lambda>_.
     bnd (load_prev e) (\<lambda>ep.
     bnd (set_prev node ep) (\<lambda>_.
     bnd (set_prev e node) (\<lambda>_.
     bnd (load_prev node) (\<lambda>np''.
     bnd (set_next np'' node) (\<lambda>_.
     bnd post_write (\<lambda>_.
     cache_check)))))))))))))))"

subsection \<open>The interface used by the proxy\<close>

fun evict :: "nat \<Rightarrow> (cache, unit) cmd" where
  "evict 0 = halt No_fuel"
| "evict (Suc k) =
     bnd (gets c_load) (\<lambda>l.
     if MAX_CACHE_SIZE < l then
       bnd dequeue (\<lambda>del. bnd (free_node del) (\<lambda>_. evict k))
     else ret ())"

definition add_cache :: "string \<Rightarrow> string \<Rightarrow> string \<Rightarrow> block \<Rightarrow> nat \<Rightarrow> (cache, unit) cmd" where
  "add_cache host port path payload bytesize =
     bnd (new_node host port path payload bytesize) (\<lambda>node.
     bnd (enqueue node) (\<lambda>_.
     bnd (gets c_load) (\<lambda>l.
     if MAX_CACHE_SIZE < l then bnd (gets (\<lambda>s. Suc (c_fresh s))) evict else ret ())))"

fun find_node :: "nat \<Rightarrow> ptr \<Rightarrow> string \<Rightarrow> string \<Rightarrow> string \<Rightarrow> (cache, ptr option) cmd" where
  "find_node 0 p host port path = halt No_fuel"
| "find_node (Suc k) p host port path =
     bnd (gets c_front) (\<lambda>f.
     if p = f then ret None
     else bnd (is_match p host port path) (\<lambda>m.
       if m then ret (Some p)
       else bnd (load_prev p) (\<lambda>p'. find_node k p' host port path)))"

text \<open>
  \<open>is_cached\<close> gives back \<open>None\<close> where the code returns 0, and the caller's buffer and the size
  where it returns 1.  It is composed of the search, under the readers' lock, and of the use of
  the node found, after that lock is released.
\<close>

definition cache_search :: "string \<Rightarrow> string \<Rightarrow> string \<Rightarrow> (cache, ptr option) cmd" where
  "cache_search host port path =
     bnd pre_read (\<lambda>_.
     bnd is_empty (\<lambda>b.
     if b then bnd post_read (\<lambda>_. ret None)
     else
       bnd (gets c_end) (\<lambda>e.
       bnd (load_prev e) (\<lambda>p.
       bnd (gets (\<lambda>s. Suc (c_fresh s))) (\<lambda>fuel.
       bnd (find_node fuel p host port path) (\<lambda>r.
       bnd post_read (\<lambda>_. ret r)))))))"

definition cache_use :: "ptr \<Rightarrow> block \<Rightarrow> (cache, block \<times> nat) cmd" where
  "cache_use p payload =
     bnd (update p) (\<lambda>_.
     bnd (deref p) (\<lambda>n.
     bnd (lift_res (blk_read (cn_payload n) 0 (cn_bytesize n))) (\<lambda>bs.
     bnd (lift_res (blk_write payload 0 bs)) (\<lambda>payload'.
     ret (payload', cn_bytesize n)))))"

definition is_cached ::
  "string \<Rightarrow> string \<Rightarrow> string \<Rightarrow> block \<Rightarrow> (cache, (block \<times> nat) option) cmd" where
  "is_cached host port path payload =
     bnd (cache_search host port path) (\<lambda>r.
     case r of None \<Rightarrow> ret None | Some p \<Rightarrow> bnd (cache_use p payload) (\<lambda>x. ret (Some x)))"

text \<open>\<open>print_cache\<close> gives back the lines it prints.  It takes no lock.\<close>

fun print_walk :: "nat \<Rightarrow> ptr \<Rightarrow> (cache, string list) cmd" where
  "print_walk 0 p = halt No_fuel"
| "print_walk (Suc k) p =
     bnd (gets c_end) (\<lambda>e.
     if p = e then ret []
     else bnd (deref p) (\<lambda>n.
       bnd (print_walk k (cn_next n)) (\<lambda>ls.
       ret ((''('' @ cn_host n @ '', '' @ cn_port n @ '', '' @ cn_path n @ '') => payload size (''
         @ dec_digits (cn_bytesize n) @ '')'' @ [LF]) # ls))))"

definition print_cache :: "(cache, string list) cmd" where
  "print_cache =
     bnd (gets c_front) (\<lambda>f.
     bnd (load_next f) (\<lambda>p.
     bnd (gets (\<lambda>s. Suc (c_fresh s))) (\<lambda>fuel.
     bnd (print_walk fuel p) (\<lambda>ls.
     ret ((''=============== CACHE Queue ==============='' @ [LF]) # ls)))))"

fun destroy_walk :: "nat \<Rightarrow> ptr \<Rightarrow> (cache, unit) cmd" where
  "destroy_walk 0 p = halt No_fuel"
| "destroy_walk (Suc k) p =
     (if p = Null then ret ()
      else bnd (load_next p) (\<lambda>nxt. bnd (free_node p) (\<lambda>_. destroy_walk k nxt)))"

definition cache_destroy :: "(cache, unit) cmd" where
  "cache_destroy =
     bnd pre_write (\<lambda>_.
     bnd (gets c_front) (\<lambda>f.
     bnd (gets (\<lambda>s. Suc (c_fresh s))) (\<lambda>fuel.
     bnd (destroy_walk fuel f) (\<lambda>_.
     bnd (modify (\<lambda>s. s\<lparr>c_load := 0, c_count := 0\<rparr>)) (\<lambda>_.
     post_write)))))"

end
