(* ===== verification/Proxy_Module.thy ===== *)
theory Proxy_Module
  imports Request Inet Cache
begin

section \<open>One transaction of a worker (\<open>lib/src/proxy-module.c\<close>)\<close>

text \<open>
  The world of a worker is the operating system and the cache.  \<open>worker_main\<close> reads the request
  line, answers from the cache when it can, and otherwise asks the server, relays its response and
  stores it.  The header strings are those of \<open>app/proxy.h\<close>.
\<close>

definition user_agent_hdr :: string where
  "user_agent_hdr = ''User-Agent: Mozilla/5.0 (X11; Linux x86_64; rv:10.0.3) Gecko/20120305 '' @
     ''Firefox/10.0.3'' @ CRLF"

definition accept_hdr :: string where
  "accept_hdr = ''Accept: '' @
     ''text/html,application/xhtml+xml,application/xml;q=0.9,*/*;q=0.8'' @ CRLF"

definition accept_encoding_hdr :: string where
  "accept_encoding_hdr = ''Accept-Encoding: gzip, deflate'' @ CRLF"

definition connection_hdr :: string where
  "connection_hdr = ''Connection: close'' @ CRLF"

definition proxy_connection_hdr :: string where
  "proxy_connection_hdr = ''Proxy-Connection: close'' @ CRLF @ CRLF"

definition HEADER_LINE_SIZE :: int where
  "HEADER_LINE_SIZE = 100"

record world =
  w_os :: os
  w_cache :: cache

definition in_os :: "(os, 'a) cmd \<Rightarrow> (world, 'a) cmd" where
  "in_os = zoom w_os (\<lambda>x w. w\<lparr>w_os := x\<rparr>)"

definition in_cache :: "(cache, 'a) cmd \<Rightarrow> (world, 'a) cmd" where
  "in_cache = zoom w_cache (\<lambda>x w. w\<lparr>w_cache := x\<rparr>)"

text \<open>A local \<open>nio_t\<close> that \<open>nio_readinitb\<close> has associated with \<open>fd\<close>.\<close>

definition local_nio :: "junk \<Rightarrow> string \<Rightarrow> int \<Rightarrow> nio" where
  "local_nio junk name fd = nio_readinitb
     \<lparr>nio_fd = 0, nio_cnt = 0, nio_bufptr = 0, nio_buf = local_array junk name NIO_BUFSIZE\<rparr> fd"

subsection \<open>Towards the server\<close>

definition forward_request :: "junk \<Rightarrow> int \<Rightarrow> block \<Rightarrow> block \<Rightarrow> block \<Rightarrow> (os, unit) cmd" where
  "forward_request junk forwardfd host port path =
     bnd (lift_res (c_str path)) (\<lambda>pa.
     bnd (lift_res (blk_puts (local_array junk ''forwardbuf'' MAXLINE) (''GET '' @ pa @ '' HTTP/1.0'' @ CRLF))) (\<lambda>buf.
     bnd (send_str forwardfd buf) (\<lambda>_.
     bnd (lift_res (c_str host)) (\<lambda>h.
     bnd (lift_res (blk_puts buf (''Host: '' @ h @ CRLF))) (\<lambda>buf.
     bnd (send_str forwardfd buf) (\<lambda>_.
     bnd (send_str forwardfd (user_agent_hdr @ [NUL])) (\<lambda>_.
     bnd (send_str forwardfd (accept_hdr @ [NUL])) (\<lambda>_.
     bnd (send_str forwardfd (accept_encoding_hdr @ [NUL])) (\<lambda>_.
     bnd (send_str forwardfd (connection_hdr @ [NUL])) (\<lambda>_.
     send_str forwardfd (proxy_connection_hdr @ [NUL])))))))))))"

text \<open>
  The header lines of the client.  The loop goes on only while the counter has reached the limit,
  so it ends in its first round.  \<open>strcmp\<close> reads no further than the first difference.
\<close>

definition is_crlf :: "block \<Rightarrow> bool" where
  "is_crlf buf \<longleftrightarrow> take 3 buf = [CR, LF, NUL]"

function header_loop :: "nio \<Rightarrow> block \<Rightarrow> int \<Rightarrow> (os, nio) cmd" where
  "header_loop rp buf headerline s =
     (if is_crlf buf then ret rp s
      else bnd (nio_readlineb rp buf MAXLINE) (\<lambda>r s1. case r of (rc, buf1, rp1) \<Rightarrow>
        bnd (lift_res (c_inc headerline)) (\<lambda>h s2.
        if h < HEADER_LINE_SIZE then ret rp1 s2 else header_loop rp1 buf1 h s2) s1) s)"
  by pat_completeness auto
termination
  by (relation "measure (\<lambda>(rp, buf, h, s). nat (INT_MAX - h))")
    (auto simp: lift_res_def c_inc_def split: sum.splits if_splits)

declare header_loop.simps [simp del]

definition read_request_header :: "junk \<Rightarrow> nio \<Rightarrow> (os, nio) cmd" where
  "read_request_header junk rp =
     bnd (nio_readlineb rp (local_array junk ''header'' MAXLINE) MAXLINE) (\<lambda>(rc, buf, rp).
     header_loop rp buf 0)"

subsection \<open>Towards the client\<close>

text \<open>
  The loop of \<open>forward_response\<close>; \<open>off\<close> is \<open>payload_offset\<close>.  A line of length \<open>-1\<close> (an error)
  counts as the largest \<open>size_t\<close>.  The first argument bounds the number of rounds; \<open>No_fuel\<close> says
  that the loop is still running after so many.  On an open descriptor every round uses up a part of
  the script, on one that is not open \<open>tot\<close> goes down by one, so that the bound of
  \<open>forward_response\<close> is never reached (\<open>forward_response_stops\<close> in \<open>Relay_Spec\<close>).
\<close>

fun forward_loop ::
  "nat \<Rightarrow> nio \<Rightarrow> block \<Rightarrow> int \<Rightarrow> block \<Rightarrow> nat \<Rightarrow> nat \<Rightarrow> (os, nat \<times> block) cmd" where
  "forward_loop 0 rp buf connfd payload off tot = halt No_fuel"
| "forward_loop (Suc k) rp buf connfd payload off tot =
     bnd (nio_readlineb rp buf MAXLINE) (\<lambda>(rc, buf, rp).
     let n = to_size rc in
     if n = 0 then ret (tot, payload)
     else
       let tot = (tot + n) mod SIZE_MOD in
       bnd (if tot \<le> MAX_OBJECT_SIZE then
              bnd (lift_res (blk_read buf 0 n)) (\<lambda>bs.
              bnd (lift_res (blk_write payload off bs)) (\<lambda>payload.
              ret (payload, off + n)))
            else ret (payload, off)) (\<lambda>(payload, off).
       bnd (nio_writen connfd buf n) (\<lambda>_.
       forward_loop k rp buf connfd payload off tot)))"

definition forward_response :: "junk \<Rightarrow> int \<Rightarrow> int \<Rightarrow> block \<Rightarrow> (os, nat \<times> block) cmd" where
  "forward_response junk forwardfd connfd payload =
     bnd (gets (\<lambda>s. Suc (rd_size (os_in s forwardfd)) + SIZE_MOD)) (\<lambda>fuel.
     forward_loop fuel (local_nio junk ''forward_nio'' forwardfd) (local_array junk ''forwardbuf2'' MAXLINE)
       connfd payload 0 0)"

definition forward_response_cached :: "int \<Rightarrow> block \<Rightarrow> nat \<Rightarrow> (os, nat) cmd" where
  "forward_response_cached connfd payload_cache bytesize =
     bnd (nio_writen connfd payload_cache bytesize) (\<lambda>_. ret bytesize)"

subsection \<open>The transaction\<close>

text \<open>The part of \<open>worker_main\<close> from the cache miss on.\<close>

definition serve_fresh ::
  "junk \<Rightarrow> int \<Rightarrow> nio \<Rightarrow> block \<Rightarrow> block \<Rightarrow> block \<Rightarrow> string \<Rightarrow> string \<Rightarrow> string \<Rightarrow> (world, unit) cmd" where
  "serve_fresh junk connfd nio host port path h po pa =
     bnd (in_os (read_request_header junk nio)) (\<lambda>nio.
     bnd (in_os (open_clientfd h po)) (\<lambda>forwardfd.
     bnd (in_os (forward_request junk forwardfd host port path)) (\<lambda>_.
     bnd (in_os (print_out [''CACHE MISS!'' @ [LF]])) (\<lambda>_.
     bnd (in_os (forward_response junk forwardfd connfd (replicate MAX_OBJECT_SIZE NUL))) (\<lambda>(tot, payload).
     if tot < MAX_OBJECT_SIZE then
       bnd (in_cache (add_cache h po pa payload tot)) (\<lambda>_.
       bnd (in_cache print_cache) (\<lambda>ls. in_os (print_out ls)))
     else ret ())))))"

text \<open>The part of \<open>worker_main\<close> after the request is parsed.\<close>

definition serve :: "junk \<Rightarrow> int \<Rightarrow> nio \<Rightarrow> block \<Rightarrow> block \<Rightarrow> block \<Rightarrow> (world, unit) cmd" where
  "serve junk connfd nio host port path =
     bnd (lift_res (c_str host)) (\<lambda>h.
     bnd (lift_res (c_str port)) (\<lambda>po.
     bnd (lift_res (c_str path)) (\<lambda>pa.
     bnd (in_cache (is_cached h po pa (local_array junk ''payload_cache'' MAX_OBJECT_SIZE))) (\<lambda>cached.
     case cached of
       Some (payload_cache, bytesize) \<Rightarrow>
         bnd (in_os (print_out [''CACHE HIT!'' @ [LF]])) (\<lambda>_.
         bnd (in_os (forward_response_cached connfd payload_cache bytesize)) (\<lambda>_. ret ()))
     | None \<Rightarrow> serve_fresh junk connfd nio host port path h po pa))))"

definition worker_main :: "junk \<Rightarrow> int \<Rightarrow> (world, unit) cmd" where
  "worker_main junk connfd =
     bnd (in_os (nio_readlineb (local_nio junk ''nio'' connfd) (local_array junk ''request'' MAXLINE) MAXLINE))
       (\<lambda>(rc, request, nio).
     if to_size rc = 0 then ret ()
     else
     bnd (lift_res (c_str request)) (\<lambda>request.
     bnd (in_os (parse_request junk connfd request (replicate MAXLINE NUL) (replicate MAXLINE NUL)
       (replicate MAXLINE NUL))) (\<lambda>(ok, host, port, path).
     if \<not> ok then ret () else serve junk connfd nio host port path)))"

end
