(* ===== verification/Relay_Spec.thy ===== *)
theory Relay_Spec
  imports Proxy_Module
begin

section \<open>What the proxy sends to the server and to the client\<close>

subsection \<open>The request\<close>

definition request_text :: "string \<Rightarrow> string \<Rightarrow> string" where
  "request_text h pa = ''GET '' @ pa @ '' HTTP/1.0'' @ CRLF @ ''Host: '' @ h @ CRLF @
     user_agent_hdr @ accept_hdr @ accept_encoding_hdr @ connection_hdr @ proxy_connection_hdr"

lemma send_strs:
  assumes "fd \<in> os_open s" "draining (os_wr s fd)" "NUL \<notin> set t" "length t \<le> 2147483647"
    and "\<And>s1. writes fd t s s1 \<Longrightarrow> fd \<in> os_open s1 \<Longrightarrow> draining (os_wr s1 fd) \<Longrightarrow>
      \<exists>s2. f () s1 = Inr ((), s2) \<and> writes fd ts s1 s2"
  shows "\<exists>s2. bnd (send_str fd (t @ NUL # rest)) f s = Inr ((), s2) \<and> writes fd (t @ ts) s s2"
proof -
  from send_str_ok [OF assms(1-4)] obtain s1 where s1: "send_str fd (t @ NUL # rest) s = Inr ((), s1)"
    "writes fd t s s1" "draining (os_wr s1 fd)" by blast
  with assms(1,5) obtain s2 where "f () s1 = Inr ((), s2)" "writes fd ts s1 s2"
    by (metis writes_fields(1))
  then show ?thesis using s1 writes_trans [OF s1(2)] by auto
qed

lemma hdr_NUL:
  "NUL \<notin> set user_agent_hdr" "NUL \<notin> set accept_hdr" "NUL \<notin> set accept_encoding_hdr"
  "NUL \<notin> set connection_hdr" "NUL \<notin> set proxy_connection_hdr"
  by (simp_all add: user_agent_hdr_def accept_hdr_def accept_encoding_hdr_def connection_hdr_def
      proxy_connection_hdr_def)

lemma hdr_length:
  "length user_agent_hdr \<le> 2147483647" "length accept_hdr \<le> 2147483647"
  "length accept_encoding_hdr \<le> 2147483647" "length connection_hdr \<le> 2147483647"
  "length proxy_connection_hdr \<le> 2147483647"
  by (simp_all add: user_agent_hdr_def accept_hdr_def accept_encoding_hdr_def connection_hdr_def
      proxy_connection_hdr_def)

lemma send_last:
  assumes "fd \<in> os_open s" "draining (os_wr s fd)" "NUL \<notin> set t" "length t \<le> 2147483647"
  shows "\<exists>s2. send_str fd (t @ [NUL]) s = Inr ((), s2) \<and> writes fd t s s2"
  using send_str_ok [OF assms] by blast

lemma bnd_lift_res_fun: "bnd (lift_res (Inr x)) f = f x"
  by (rule ext) (simp add: bnd_lift_res)

lemma forward_request_ok:
  assumes fd: "fd \<in> os_open s" "draining (os_wr s fd)"
    and str: "c_str host = Inr h" "c_str path = Inr pa"
    and room: "length pa + 15 < 8192" "length h + 8 < 8192"
  shows "\<exists>s'. forward_request junk fd host port path s = Inr ((), s') \<and> writes fd (request_text h pa) s s'"
proof -
  let ?A = "local_array junk ''forwardbuf'' MAXLINE"
  let ?t1 = "''GET '' @ pa @ '' HTTP/1.0'' @ CRLF" and ?t2 = "''Host: '' @ h @ CRLF"
  have nul: "NUL \<notin> set h" "NUL \<notin> set pa" using str c_str_NUL by blast+
  define r1 where "r1 = drop (Suc (length ?t1)) ?A"
  have w1: "blk_puts ?A ?t1 = Inr (?t1 @ NUL # r1)"
    unfolding r1_def using room by (intro blk_puts_Inr) (simp add: MAXLINE_def)
  have l1: "length (?t1 @ NUL # r1) = 8192" unfolding r1_def using room by (simp add: MAXLINE_def)
  define r2 where "r2 = drop (Suc (length ?t2)) (?t1 @ NUL # r1)"
  have w2: "blk_puts (?t1 @ NUL # r1) ?t2 = Inr (?t2 @ NUL # r2)"
    unfolding r2_def using room by (intro blk_puts_Inr) (simp only: l1, simp)
  have "\<exists>s'. forward_request junk fd host port path s = Inr ((), s') \<and>
    writes fd (?t1 @ ?t2 @ user_agent_hdr @ accept_hdr @ accept_encoding_hdr @ connection_hdr @
      proxy_connection_hdr) s s'"
    unfolding forward_request_def str w1 w2 bnd_lift_res_fun
    using room nul hdr_NUL hdr_length
    by (intro send_strs send_last fd) (simp_all only: set_append length_append, simp_all)
  then show ?thesis by (simp add: request_text_def)
qed

subsection \<open>The response\<close>

text \<open>
  The bytes that the proxy sends for a response: line by line, at most 8191 characters at a time,
  with a NUL after every piece that no newline ends.
\<close>

function relay :: "block \<Rightarrow> block" where
  "relay cs =
     (if cs = [] then []
      else let l = get_line 8191 cs in
        l @ (if ends_line l then [] else [NUL]) @ relay (drop (length l) cs))"
  by pat_completeness auto
termination
proof (relation "measure length", goal_cases)
  case (2 cs l)
  then have "l \<noteq> []" by simp
  with 2 show ?case by (cases cs) auto
qed simp

declare relay.simps [simp del]

lemma relay_Nil [simp]: "relay [] = []"
  by (subst relay.simps) simp

lemma relay_step:
  assumes "cs \<noteq> []" "l = get_line 8191 cs" "cs = l @ rest"
  shows "relay cs = l @ (if ends_line l then [] else [NUL]) @ relay rest"
  using assms by (subst relay.simps) (metis append_eq_conv_conj)

lemma relay_length: "length cs \<le> length (relay cs)"
proof (induction cs rule: relay.induct)
  case (1 cs)
  show ?case
  proof (cases "cs = []")
    case False
    let ?l = "get_line 8191 cs"
    obtain rest where r: "cs = ?l @ rest" using get_line_prefix by blast
    then have "rest = drop (length ?l) cs" by (metis append_eq_conv_conj)
    with 1 [OF False refl] have "length rest \<le> length (relay rest)" by simp
    moreover have "length cs = length ?l + length rest" using r by (metis length_append)
    ultimately show ?thesis using relay_step [OF False refl r] by simp
  qed simp
qed

text \<open>
  A response whose lines are short is passed on unchanged when it ends with a newline or is
  empty, and with one extra NUL otherwise.
\<close>

definition short_lines :: "block \<Rightarrow> bool" where
  "short_lines cs \<longleftrightarrow> (\<forall>a l b. cs = a @ l @ b \<and> LF \<notin> set l \<longrightarrow> length l \<le> 8190)"

lemma short_lines_append: "short_lines (a @ b) \<Longrightarrow> short_lines b"
  unfolding short_lines_def by (metis append.assoc)

lemma get_line_LF: "\<exists>l' t. get_line m cs = l' @ t \<and> LF \<notin> set l' \<and> (t = [] \<or> t = [LF])"
proof (induction m cs rule: get_line.induct)
  case (3 m c cs)
  show ?case
  proof (cases "c = LF")
    case True
    then show ?thesis by (intro exI [of _ "[]"] exI [of _ "[LF]"]) simp
  next
    case False
    with 3 obtain l' t where "get_line m cs = l' @ t" "LF \<notin> set l'" "t = [] \<or> t = [LF]" by blast
    with False show ?thesis by (intro exI [of _ "c # l'"] exI [of _ t]) auto
  qed
qed simp_all

lemma relay_short_lines:
  "short_lines cs \<Longrightarrow> relay cs = (if cs = [] \<or> ends_line cs then cs else cs @ [NUL])"
proof (induction cs rule: relay.induct)
  case (1 cs)
  show ?case
  proof (cases "cs = []")
    case False
    let ?l = "get_line 8191 cs"
    obtain rest where r: "cs = ?l @ rest" using get_line_prefix by blast
    then have rd: "rest = drop (length ?l) cs" by (metis append_eq_conv_conj)
    have "short_lines rest" using "1.prems" r short_lines_append by metis
    then have ih: "relay rest = (if rest = [] \<or> ends_line rest then rest else rest @ [NUL])"
      using "1.IH" [OF False refl] rd by simp
    have ne: "?l \<noteq> []" using False by simp
    show ?thesis
    proof (cases "ends_line ?l")
      case True
      then have "ends_line cs \<longleftrightarrow> rest = [] \<or> ends_line rest"
        using r ne by (cases "rest = []") (auto simp: ends_line_def, metis last_appendR, metis last_appendR)
      moreover have "relay cs = ?l @ relay rest" using relay_step [OF False refl r] True by simp
      ultimately show ?thesis using ih r False by (metis append.assoc)
    next
      case nl: False
      obtain l' t where "?l = l' @ t" "LF \<notin> set l'" "t = [] \<or> t = [LF]" using get_line_LF by blast
      with nl have "LF \<notin> set ?l" by (auto simp: ends_line_def)
      then have "length ?l \<le> 8190" using "1.prems" r unfolding short_lines_def by (metis append_Nil)
      then have "?l = cs" using get_line_cases [of 8191 cs] nl by auto
      with r have "rest = []" by (metis append_self_conv)
      then show ?thesis using relay_step [OF False refl r] nl \<open>?l = cs\<close> False by simp
    qed
  qed simp
qed

subsection \<open>The relay loop\<close>

text \<open>The effect on the system: input of one descriptor used up, output added to another.\<close>

definition relays :: "int \<Rightarrow> int \<Rightarrow> block \<Rightarrow> os \<Rightarrow> os \<Rightarrow> bool" where
  "relays rfd wfd bs s s' \<longleftrightarrow> (\<exists>s1. reads rfd s s1 \<and> writes wfd bs s1 s')"

lemma reads_writes_swap:
  assumes "writes wfd bs s s1" "reads rfd s1 s2"
  shows "\<exists>s3. reads rfd s s3 \<and> writes wfd bs s3 s2"
proof -
  from assms(1) obtain en es where s1: "s1 = s\<lparr>os_errno := en, os_wr := (os_wr s)(wfd := es),
      os_out := (os_out s)(wfd := os_out s wfd @ bs)\<rparr>" by (auto simp: writes_def)
  from assms(2) obtain en' es' where s2: "s2 = s1\<lparr>os_errno := en', os_in := (os_in s1)(rfd := es')\<rparr>"
    by (auto simp: reads_def)
  let ?s3 = "s\<lparr>os_errno := en', os_in := (os_in s)(rfd := es')\<rparr>"
  have "reads rfd s ?s3" by (rule readsI [where en = en' and es = es']) simp
  moreover have "writes wfd bs ?s3 s2" unfolding s2 s1
    by (rule writesI [where en = en' and es = es]) simp
  ultimately show ?thesis by blast
qed

lemma relays_trans:
  assumes "relays rfd wfd bs s s1" "relays rfd wfd bs' s1 s2"
  shows "relays rfd wfd (bs @ bs') s s2"
proof -
  from assms obtain a b where a: "reads rfd s a" "writes wfd bs a s1" and b: "reads rfd s1 b" "writes wfd bs' b s2"
    by (auto simp: relays_def)
  from reads_writes_swap [OF a(2) b(1)] obtain c where "reads rfd a c" "writes wfd bs c b" by blast
  with a b show ?thesis by (meson reads_trans relays_def writes_trans)
qed

lemma relays_fields:
  assumes "relays rfd wfd bs s s'"
  shows "os_open s' = os_open s" "os_out s' wfd = os_out s wfd @ bs"
    "fd \<noteq> wfd \<Longrightarrow> os_out s' fd = os_out s fd" "fd \<noteq> rfd \<Longrightarrow> os_in s' fd = os_in s fd"
    "fd \<noteq> wfd \<Longrightarrow> os_wr s' fd = os_wr s fd"
    "os_net s' = os_net s" "os_fresh_fd s' = os_fresh_fd s" "os_stdout s' = os_stdout s"
    "os_accepts s' = os_accepts s"
  using assms by (auto simp: relays_def reads_fields writes_fields)

lemma forward_loop_relays:
  "readable rp s \<Longrightarrow> connfd \<in> os_open s \<Longrightarrow> draining (os_wr s connfd) \<Longrightarrow>
   cs = stream rp s \<Longrightarrow> length cs < k \<Longrightarrow> tot + length (relay cs) < SIZE_MOD \<Longrightarrow>
   length buf = 8192 \<Longrightarrow> length payload = MAX_OBJECT_SIZE \<Longrightarrow>
   (tot \<le> MAX_OBJECT_SIZE \<longrightarrow> off = tot) \<Longrightarrow>
   \<exists>payload' s'. forward_loop k rp buf connfd payload off tot s =
       Inr ((tot + length (relay cs), payload'), s') \<and>
     relays (nio_fd rp) connfd (relay cs) s s' \<and> length payload' = MAX_OBJECT_SIZE \<and>
     (tot + length (relay cs) \<le> MAX_OBJECT_SIZE \<longrightarrow>
        payload' = take tot payload @ relay cs @ drop (tot + length (relay cs)) payload)"
proof (induction k arbitrary: rp s cs tot buf payload off)
  case (Suc k)
  show ?case
  proof (cases "cs = []")
    case True
    with Suc.prems(4) obtain rp1 s1 where r: "nio_readlineb rp buf MAXLINE s = Inr ((0, buf, rp1), s1)"
      "reads (nio_fd rp) s s1"
      using nio_readlineb_eof [OF Suc.prems(1), of MAXLINE buf] by (auto simp: MAXLINE_def)
    have "to_size 0 = 0" by (simp add: to_size_def)
    then have "forward_loop (Suc k) rp buf connfd payload off tot s = Inr ((tot, payload), s1)"
      using r(1) by (simp add: ret_def)
    moreover have "relays (nio_fd rp) connfd [] s s1" using r(2) by (auto simp: relays_def)
    ultimately show ?thesis using True Suc.prems(8) by auto
  next
    case False
    define l where "l = get_line 8191 cs"
    have ll: "length l \<le> 8191" "l \<noteq> []" using False get_line_length by (auto simp: l_def)
    have ne: "stream rp s \<noteq> []" "l = get_line (MAXLINE - 1) (stream rp s)"
      using False Suc.prems(4) by (simp_all add: l_def MAXLINE_def)
    from nio_readlineb_line [OF Suc.prems(1) _ _ _ ne, of buf] Suc.prems(7) obtain rp1 s1 where
      r: "nio_readlineb rp buf MAXLINE s =
            Inr ((int (line_ret l), l @ NUL # drop (length l + 1) buf, rp1), s1)"
         "readable rp1 s1" "stream rp s = l @ stream rp1 s1" "nio_fd rp1 = nio_fd rp"
         "reads (nio_fd rp) s s1" by (auto simp: MAXLINE_def)
    let ?buf = "l @ NUL # drop (length l + 1) buf" and ?n = "line_ret l" and ?cs = "stream rp1 s1"
    define piece where "piece = l @ (if ends_line l then [] else [NUL])"
    have n: "?n = length piece" "0 < ?n" "?n \<le> 8192" "to_size (int ?n) = ?n"
      using ll by (auto simp: piece_def line_ret_def SIZE_MOD_def)
    have tk: "take ?n ?buf = piece" by (simp add: piece_def line_ret_def)
    have bl: "length ?buf = 8192" using ll Suc.prems(7) by simp
    have rel: "relay cs = piece @ relay ?cs"
      using relay_step [OF False l_def, of ?cs] r(3) Suc.prems(4) by (simp add: piece_def)
    have m: "(tot + ?n) mod SIZE_MOD = tot + ?n" using Suc.prems(6) rel n(1) by simp
    have fd1: "connfd \<in> os_open s1" "draining (os_wr s1 connfd)"
      using Suc.prems(2,3) reads_fields [OF r(5)] by auto
    from nio_writen_delivers [OF fd1, of ?n ?buf] n(3) bl obtain s2 where
      w: "nio_writen connfd ?buf ?n s1 = Inr (int ?n, s2)" "writes connfd piece s1 s2"
        "draining (os_wr s2 connfd)" unfolding tk by (auto simp: SSIZE_MAX_def)
    define payload1 where "payload1 = (if tot + ?n \<le> MAX_OBJECT_SIZE
      then take off payload @ piece @ drop (off + ?n) payload else payload)"
    define off1 where "off1 = (if tot + ?n \<le> MAX_OBJECT_SIZE then off + ?n else off)"
    have lp: "length payload1 = MAX_OBJECT_SIZE" using Suc.prems(8,9) n(1) by (auto simp: payload1_def)
    define copying :: "(os, block \<times> nat) cmd" where "copying = (if tot + ?n \<le> MAX_OBJECT_SIZE then
              bnd (lift_res (blk_read ?buf 0 ?n)) (\<lambda>bs.
              bnd (lift_res (blk_write payload off bs)) (\<lambda>payload. ret (payload, off + ?n)))
            else ret (payload, off))"
    have copy: "copying s1 = Inr ((payload1, off1), s1)"
    proof (cases "tot + ?n \<le> MAX_OBJECT_SIZE")
      case True
      then have "off + ?n \<le> length payload" using Suc.prems(8,9) by simp
      then have "blk_write payload off piece = Inr payload1"
        using True n(1) by (simp add: payload1_def blk_write_Inr)
      moreover have "blk_read ?buf 0 ?n = Inr piece" using n(3) bl tk by (simp add: blk_read_Inr)
      ultimately show ?thesis using True by (simp add: copying_def bnd_lift_res ret_def off1_def)
    qed (simp add: copying_def payload1_def off1_def ret_def)
    have step: "forward_loop (Suc k) rp buf connfd payload off tot s =
        forward_loop k rp1 ?buf connfd payload1 off1 (tot + ?n) s2"
    proof -
      have "forward_loop (Suc k) rp buf connfd payload off tot s =
        bnd copying (\<lambda>(payload, off).
         bnd (nio_writen connfd ?buf ?n) (\<lambda>_.
         forward_loop k rp1 ?buf connfd payload off (tot + ?n))) s1"
        using r(1) n(2,4) m
        by (simp only: forward_loop.simps bnd_Inr prod.case Let_def copying_def) simp
      also have "\<dots> = bnd (nio_writen connfd ?buf ?n) (\<lambda>_.
         forward_loop k rp1 ?buf connfd payload1 off1 (tot + ?n)) s1"
        by (simp add: copy del: forward_loop.simps)
      also have "\<dots> = forward_loop k rp1 ?buf connfd payload1 off1 (tot + ?n) s2"
        by (simp only: bnd_Inr w(1))
      finally show ?thesis .
    qed
    have fd2: "readable rp1 s2" "connfd \<in> os_open s2" "?cs = stream rp1 s2"
      using r(2) fd1(1) writes_fields [OF w(2)] by (auto simp: readable_def stream_def)
    have lc: "length ?cs < length cs" using r(3) Suc.prems(4) ll by simp
    have pr: "length ?cs < k" "tot + ?n + length (relay ?cs) < SIZE_MOD"
      "tot + ?n \<le> MAX_OBJECT_SIZE \<longrightarrow> off1 = tot + ?n"
      using Suc.prems(5,6,9) lc rel n(1) by (auto simp: off1_def)
    from Suc.IH [OF fd2(1,2) w(3) fd2(3) pr(1,2) bl lp pr(3)] obtain payload' s' where
      ih: "forward_loop k rp1 ?buf connfd payload1 off1 (tot + ?n) s2 =
          Inr ((tot + ?n + length (relay ?cs), payload'), s')"
        "relays (nio_fd rp1) connfd (relay ?cs) s2 s'" "length payload' = MAX_OBJECT_SIZE"
        "tot + ?n + length (relay ?cs) \<le> MAX_OBJECT_SIZE \<longrightarrow>
           payload' = take (tot + ?n) payload1 @ relay ?cs @ drop (tot + ?n + length (relay ?cs)) payload1"
      by blast
    have "relays (nio_fd rp) connfd piece s s2" using r(5) w(2) by (auto simp: relays_def)
    with ih(2) r(4) rel have rl: "relays (nio_fd rp) connfd (relay cs) s s'"
      by (auto intro: relays_trans)
    have tl: "tot + ?n + length (relay ?cs) = tot + length (relay cs)" using rel n(1) by simp
    have "payload' = take tot payload @ relay cs @ drop (tot + length (relay cs)) payload"
      if c: "tot + length (relay cs) \<le> MAX_OBJECT_SIZE"
    proof -
      have c1: "tot + ?n \<le> MAX_OBJECT_SIZE" "off = tot" using c rel n(1) Suc.prems(9) by auto
      have "take (tot + ?n) payload1 @ relay ?cs @ drop (tot + ?n + length (relay ?cs)) payload1 =
          take tot payload @ (piece @ relay ?cs) @ drop (tot + length (piece @ relay ?cs)) payload"
        using two_writes [of tot piece "relay ?cs" payload] c1 n(1) c rel Suc.prems(8)
        by (simp add: payload1_def)
      then show ?thesis using ih(4) c tl rel by simp
    qed
    with step ih(1,3) rl tl show ?thesis by auto
  qed
qed simp

lemma local_nio_readable:
  assumes "fd \<in> os_open s" "clean (os_in s fd)"
  shows "readable (local_nio junk name fd) s" "stream (local_nio junk name fd) s = tape (os_in s fd)"
    "nio_fd (local_nio junk name fd) = fd"
  using assms nio_readinitb_readable by (auto simp: local_nio_def NIO_BUFSIZE_def)

lemma tape_length: "length (tape es) \<le> rd_size es"
  by (induction es rule: tape.induct) auto

text \<open>
  A response that ends regularly is relayed completely, and the payload holds what was sent when
  it is not too large.
\<close>

lemma forward_response_ok:
  assumes "forwardfd \<in> os_open s" "clean (os_in s forwardfd)"
    and "connfd \<in> os_open s" "draining (os_wr s connfd)"
    and "length (relay (tape (os_in s forwardfd))) < SIZE_MOD"
  defines "bs \<equiv> relay (tape (os_in s forwardfd))"
  shows "\<exists>payload s'. forward_response junk forwardfd connfd (replicate MAX_OBJECT_SIZE NUL) s =
      Inr ((length bs, payload), s') \<and> relays forwardfd connfd bs s s' \<and>
    (length bs \<le> MAX_OBJECT_SIZE \<longrightarrow> payload = bs @ replicate (MAX_OBJECT_SIZE - length bs) NUL)"
proof -
  let ?rp = "local_nio junk ''forward_nio'' forwardfd"
  note rp = local_nio_readable [OF assms(1,2), of junk "''forward_nio''"]
  have "length (tape (os_in s forwardfd)) < Suc (rd_size (os_in s forwardfd)) + SIZE_MOD"
    using tape_length [of "os_in s forwardfd"] by simp
  from forward_loop_relays [OF rp(1) assms(3,4) rp(2) [symmetric] this, of 0
      "local_array junk ''forwardbuf2'' MAXLINE" "replicate MAX_OBJECT_SIZE NUL" 0] assms(5)
  obtain payload s' where r: "forward_loop (Suc (rd_size (os_in s forwardfd)) + SIZE_MOD) ?rp
      (local_array junk ''forwardbuf2'' MAXLINE) connfd (replicate MAX_OBJECT_SIZE NUL) 0 0 s =
      Inr ((length bs, payload), s')" "relays forwardfd connfd bs s s'"
    "length bs \<le> MAX_OBJECT_SIZE \<longrightarrow> payload = bs @ drop (length bs) (replicate MAX_OBJECT_SIZE NUL)"
    by (auto simp: bs_def rp(3) MAXLINE_def)
  have "forward_response junk forwardfd connfd (replicate MAX_OBJECT_SIZE NUL) s = Inr ((length bs, payload), s')"
    unfolding forward_response_def bnd_gets by (rule r(1))
  with r(2,3) show ?thesis by (auto simp: drop_replicate)
qed

subsection \<open>An error that is taken for a length\<close>

text \<open>
  When the server cannot be reached, every \<open>nio_readlineb\<close> fails, its result \<open>-1\<close> is added to the
  sum as \<open>2 ^ 64 - 1\<close>, and nothing is sent.  The loop goes on until the sum has come down to the
  size of an object; then \<open>memcpy\<close> of \<open>2 ^ 64 - 1\<close> bytes runs out of the line buffer.
\<close>

lemma forward_loop_spin_round:
  assumes "nio_fd rp \<notin> os_open s" "nio_cnt rp \<le> 0" "tot < SIZE_MOD" "length buf = MAXLINE"
  defines "r \<equiv> (if tot = 0 then SIZE_MOD else tot) - 1"
  shows "\<exists>s1. os_open s1 = os_open s \<and>
    forward_loop (Suc k) rp buf connfd payload off tot s =
      (if r \<le> MAX_OBJECT_SIZE then Inl Overread
       else forward_loop k (rp\<lparr>nio_cnt := - 1\<rparr>) buf connfd payload off r s1)"
proof -
  let ?rp = "rp\<lparr>nio_cnt := - 1\<rparr>" and ?s1 = "s\<lparr>os_errno := EBADF\<rparr>"
  have rd: "nio_readlineb rp buf MAXLINE s = Inr ((- 1, buf, ?rp), ?s1)"
    using assms(1,2) by (intro nio_readlineb_closed) (simp_all add: MAXLINE_def)
  have n: "to_size (- 1) = SIZE_MOD - 1" "SIZE_MOD - 1 \<noteq> 0" "SSIZE_MAX < SIZE_MOD - 1" "0 < SIZE_MOD - 1"
    by (simp_all add: to_size_minus_1 SIZE_MOD_def SSIZE_MAX_def)
  obtain s2 where wr: "nio_writen connfd buf (SIZE_MOD - 1) ?s1 = Inr (- 1, s2)" "os_open s2 = os_open s"
    using nio_writen_huge [of connfd ?s1 "SIZE_MOD - 1" buf] n(3)
      nio_writen_closed [of connfd ?s1 "SIZE_MOD - 1" buf] n(4)
    by (cases "connfd \<in> os_open s") auto
  have m: "(tot + (SIZE_MOD - 1)) mod SIZE_MOD = r"
    using assms(3) by (simp add: r_def mod_if SIZE_MOD_def)
  have over: "blk_read buf 0 (SIZE_MOD - 1) = Inl Overread"
    using assms(4) by (simp add: blk_read_def SIZE_MOD_def MAXLINE_def)
  have "forward_loop (Suc k) rp buf connfd payload off tot s =
      (if r \<le> MAX_OBJECT_SIZE then Inl Overread else forward_loop k ?rp buf connfd payload off r s2)"
  proof (cases "r \<le> MAX_OBJECT_SIZE")
    case True
    then show ?thesis unfolding forward_loop.simps
      by (simp only: bnd_Inr rd prod.case Let_def n(1,2) m if_True if_False over bnd_lift_res)
        (simp only: bnd_def lift_res_def sum.case)
  next
    case False
    then show ?thesis unfolding forward_loop.simps
      by (simp only: bnd_Inr rd prod.case Let_def n(1,2) m if_False bnd_ret) (simp only: bnd_Inr wr)
  qed
  with wr(2) show ?thesis by blast
qed

lemma forward_loop_spins:
  "nio_fd rp \<notin> os_open s \<Longrightarrow> nio_cnt rp \<le> 0 \<Longrightarrow> tot < SIZE_MOD \<Longrightarrow> length buf = MAXLINE \<Longrightarrow>
   tot = 0 \<or> MAX_OBJECT_SIZE < tot \<Longrightarrow>
   forward_loop k rp buf connfd payload off tot s =
     (if MAX_OBJECT_SIZE + k < (if tot = 0 then SIZE_MOD else tot) then Inl No_fuel else Inl Overread)"
proof (induction k arbitrary: rp s tot)
  case 0
  then show ?case by (auto simp: halt_def SIZE_MOD_def MAX_OBJECT_SIZE_def)
next
  case (Suc k)
  let ?r = "(if tot = 0 then SIZE_MOD else tot) - 1"
  from forward_loop_spin_round [OF Suc.prems(1-4), of k connfd payload off] obtain s1 where
    s1: "os_open s1 = os_open s" "forward_loop (Suc k) rp buf connfd payload off tot s =
      (if ?r \<le> MAX_OBJECT_SIZE then Inl Overread
       else forward_loop k (rp\<lparr>nio_cnt := - 1\<rparr>) buf connfd payload off ?r s1)" by blast
  show ?case
  proof (cases "?r \<le> MAX_OBJECT_SIZE")
    case True
    then show ?thesis unfolding s1(2) by simp
  next
    case False
    have "forward_loop k (rp\<lparr>nio_cnt := - 1\<rparr>) buf connfd payload off ?r s1 =
        (if MAX_OBJECT_SIZE + k < (if ?r = 0 then SIZE_MOD else ?r) then Inl No_fuel else Inl Overread)"
      using False Suc.prems by (intro Suc.IH) (auto simp: s1(1) SIZE_MOD_def)
    moreover have "?r \<noteq> 0" using False by (auto simp: MAX_OBJECT_SIZE_def)
    ultimately show ?thesis unfolding s1(2) using False by auto
  qed
qed

lemma forward_response_spins:
  assumes "fd \<notin> os_open s"
  shows "forward_loop k (local_nio junk name fd) (local_array junk name' MAXLINE) connfd payload 0 0 s =
    (if k < SIZE_MOD - MAX_OBJECT_SIZE then Inl No_fuel else Inl Overread)"
proof -
  have "forward_loop k (local_nio junk name fd) (local_array junk name' MAXLINE) connfd payload 0 0 s =
     (if MAX_OBJECT_SIZE + k < (if (0 :: nat) = 0 then SIZE_MOD else 0) then Inl No_fuel else Inl Overread)"
    using assms by (intro forward_loop_spins) (auto simp: local_nio_def nio_readinitb_def SIZE_MOD_def local_array_def)
  then show ?thesis by (auto simp: SIZE_MOD_def MAX_OBJECT_SIZE_def)
qed

text \<open>
  The bound on the number of rounds is never reached: \<open>forward_response\<close> returns, or stops for
  another reason, whatever the server and the network do.
\<close>

lemma forward_loop_stops:
  "nio_fd rp \<in> os_open s \<Longrightarrow> nio_work rp s < k \<Longrightarrow>
   forward_loop k rp buf connfd payload off tot s \<noteq> Inl No_fuel"
proof (induction k arbitrary: rp buf payload off tot s)
  case (Suc k)
  show ?case
  proof (cases "nio_readlineb rp buf MAXLINE s")
    case (Inl e)
    then have "e \<noteq> No_fuel" by (auto simp: nio_readlineb_def dest: nio_readlineb_loop_stops)
    then show ?thesis using Inl by simp
  next
    case (Inr r)
    then obtain rc buf1 rp1 s1 where rd: "nio_readlineb rp buf MAXLINE s = Inr ((rc, buf1, rp1), s1)"
      by (cases r) auto
    have p: "progress (rc \<noteq> 0) rp s rp1 s1"
      by (rule nio_readlineb_progress [OF rd]) (simp add: MAXLINE_def)
    have next_round: "forward_loop k rp1 buf1 connfd payload' off' tot' s2 \<noteq> Inl No_fuel"
      if "nio_writen connfd buf1 m s1 = Inr (x, s2)" "rc \<noteq> 0" for payload' off' tot' s2 x m
    proof (rule Suc.IH)
      have "os_open s2 = os_open s1 \<and> os_in s2 = os_in s1"
        using that(1) unfolding nio_writen_def by (rule nio_writen_loop_keeps)
      then show "nio_fd rp1 \<in> os_open s2" "nio_work rp1 s2 < k"
        using p Suc.prems that(2) by (auto simp: progress_def nio_work_def)
    qed
    have wr: "nio_writen connfd buf1 m s1 = Inl e \<Longrightarrow> e \<noteq> No_fuel" for m e
      by (auto simp: nio_writen_def dest: nio_writen_loop_stops)
    show ?thesis
    proof (cases "to_size rc = 0")
      case True
      then show ?thesis by (simp add: rd ret_def)
    next
      case False
      then have "rc \<noteq> 0" by (auto simp: to_size_def)
      with False show ?thesis
        using next_round [of "to_size rc"] wr [of "to_size rc"]
        by (auto simp: rd bnd_def lift_res_def ret_def Let_def blk_read_def blk_write_def split: sum.splits if_splits)
    qed
  qed
qed simp

lemma forward_response_stops: "forward_response junk fd connfd payload s \<noteq> Inl No_fuel"
proof (cases "fd \<in> os_open s")
  case True
  then show ?thesis unfolding forward_response_def bnd_gets
    by (intro forward_loop_stops) (simp_all add: nio_work_def local_nio_def nio_readinitb_def)
next
  case False
  have "\<not> Suc (rd_size (os_in s fd)) + SIZE_MOD < SIZE_MOD - MAX_OBJECT_SIZE" by simp
  then show ?thesis unfolding forward_response_def bnd_gets forward_response_spins [OF False] by simp
qed

lemma forward_response_closed:
  assumes "fd \<notin> os_open s"
  shows "forward_response junk fd connfd payload s = Inl Overread"
proof -
  have "\<not> Suc (rd_size (os_in s fd)) + SIZE_MOD < SIZE_MOD - MAX_OBJECT_SIZE" by simp
  then show ?thesis unfolding forward_response_def bnd_gets forward_response_spins [OF assms] by simp
qed

end
