(* ===== verification/Cache_Inv.thy ===== *)
theory Cache_Inv
  imports Cache
begin

section \<open>The LRU cache: the list invariant and the queue operations\<close>

text \<open>
  The invariant ties the heap to the list of the addresses between the two dummies: the nodes are
  doubly linked in that order, nothing else is allocated but a known set of detached nodes, the
  counter is the length, the load is the sum of the payload lengths, and the lock is free.  Each
  queue operation is shown to run to its end under the invariant and to act on the list of
  addresses as on a sequence.
\<close>

subsection \<open>Links\<close>

definition nxt :: "(nat \<Rightarrow> cnode option) \<Rightarrow> nat \<rightharpoonup> ptr" where
  "nxt h a = map_option cn_next (h a)"

definition prv :: "(nat \<Rightarrow> cnode option) \<Rightarrow> nat \<rightharpoonup> ptr" where
  "prv h a = map_option cn_prev (h a)"

lemma links_hset [simp]:
  "nxt (hset_prev h a q) = nxt h"
  "prv (hset_next h a q) = prv h"
  "h a \<noteq> None \<Longrightarrow> nxt (hset_next h a q) = (nxt h)(a \<mapsto> q)"
  "h a \<noteq> None \<Longrightarrow> prv (hset_prev h a q) = (prv h)(a \<mapsto> q)"
  by (auto simp: nxt_def prv_def hset_prev_def hset_next_def fun_eq_iff option.map_comp comp_def)

lemma hset_None [simp]:
  "hset_prev h a q b = None \<longleftrightarrow> h b = None"
  "hset_next h a q b = None \<longleftrightarrow> h b = None"
  by (auto simp: hset_prev_def hset_next_def)

lemma dom_hset [simp]: "dom (hset_prev h a q) = dom h" "dom (hset_next h a q) = dom h"
  by (auto simp: hset_prev_def hset_next_def dom_def)

lemma load_next_Ref [simp]: "nxt (c_heap s) a = Some p \<Longrightarrow> load_next (Ref a) s = Inr (p, s)"
  by (auto simp: load_next_def nxt_def bnd_def ret_def)

lemma load_prev_Ref [simp]: "prv (c_heap s) a = Some p \<Longrightarrow> load_prev (Ref a) s = Inr (p, s)"
  by (auto simp: load_prev_def prv_def bnd_def ret_def)

text \<open>The part of a node that no queue operation changes.\<close>

definition data :: "cnode \<Rightarrow> string \<times> string \<times> string \<times> block \<times> nat" where
  "data n = (cn_host n, cn_port n, cn_path n, cn_payload n, cn_bytesize n)"

definition hdata :: "(nat \<Rightarrow> cnode option) \<Rightarrow> nat \<rightharpoonup> string \<times> string \<times> string \<times> block \<times> nat" where
  "hdata h a = map_option data (h a)"

lemma hdata_hset [simp]: "hdata (hset_prev h a q) = hdata h" "hdata (hset_next h a q) = hdata h"
  by (auto simp: hdata_def data_def [abs_def] hset_prev_def hset_next_def fun_eq_iff
      option.map_comp comp_def)

subsection \<open>Segments of the doubly linked list\<close>

fun dseg :: "(nat \<Rightarrow> cnode option) \<Rightarrow> nat list \<Rightarrow> bool" where
  "dseg h (a # b # as) = (nxt h a = Some (Ref b) \<and> prv h b = Some (Ref a) \<and> dseg h (b # as))"
| "dseg h _ = True"

lemma dseg_append: "dseg h (xs @ a # ys) = (dseg h (xs @ [a]) \<and> dseg h (a # ys))"
proof (induction xs)
  case (Cons x xs)
  then show ?case by (cases xs) auto
qed simp

lemma in_set_tlD: "a \<in> set (tl xs) \<Longrightarrow> a \<in> set xs"
  by (cases xs) auto

lemma dseg_frame:
  "\<forall>a \<in> set (butlast as). nxt h' a = nxt h a \<Longrightarrow>
   \<forall>a \<in> set (tl as). prv h' a = prv h a \<Longrightarrow> dseg h' as = dseg h as"
proof (induction h as rule: dseg.induct)
  case (1 h a b as)
  then have "\<forall>x \<in> set (butlast (b # as)). nxt h' x = nxt h x"
    "\<forall>x \<in> set (tl (b # as)). prv h' x = prv h x" by auto
  with 1 show ?case by simp
qed auto

lemma dseg_link:
  assumes "dseg h (ys @ [l])" "distinct (ys @ [l, m, e])"
    and "nxt h' = (nxt h)(m \<mapsto> Ref e, l \<mapsto> Ref m)" "prv h' = (prv h)(m \<mapsto> Ref l, e \<mapsto> Ref m)"
  shows "dseg h' (ys @ [l, m, e])"
proof -
  have "dseg h' (ys @ [l]) = dseg h (ys @ [l])"
    using assms(2) by (intro dseg_frame) (auto simp: assms(3,4) dest: in_set_tlD)
  with assms show ?thesis by (simp add: dseg_append [of h' ys l "[m, e]"])
qed

lemma dseg_unlink:
  assumes "dseg h (xs @ p # m # z # zs)" "distinct (xs @ p # m # z # zs)"
    and "nxt h' = (nxt h)(p \<mapsto> Ref z)" "prv h' = (prv h)(z \<mapsto> Ref p)"
  shows "dseg h' (xs @ p # z # zs)"
proof -
  have "dseg h' (xs @ [p]) = dseg h (xs @ [p])"
    using assms(2) by (intro dseg_frame) (auto simp: assms(3,4) dest: in_set_tlD)
  moreover have "dseg h' (z # zs) = dseg h (z # zs)"
    using assms(2) by (intro dseg_frame) (auto simp: assms(3,4) dest: in_set_butlastD split: if_splits)
  ultimately show ?thesis
    using assms by (simp add: dseg_append [of h xs p "m # z # zs"] dseg_append [of h' xs p "z # zs"])
qed

subsection \<open>The invariant\<close>

definition payload_ok :: "cnode \<Rightarrow> bool" where
  "payload_ok n \<longleftrightarrow> NUL \<in> set (cn_payload n) \<and> cn_bytesize n \<le> length (cn_payload n)"

definition plen :: "cnode \<Rightarrow> nat" where
  "plen n = length (cstr (cn_payload n))"

definition load_of :: "(nat \<Rightarrow> cnode option) \<Rightarrow> nat list \<Rightarrow> nat" where
  "load_of h xs = (\<Sum>a \<leftarrow> xs. plen (the (h a)))"

text \<open>The shape of the heap: \<open>f\<close> and \<open>e\<close> are the dummies, \<open>D\<close> the detached nodes.\<close>

definition cache_shape :: "nat set \<Rightarrow> cache \<Rightarrow> nat \<Rightarrow> nat list \<Rightarrow> nat \<Rightarrow> bool" where
  "cache_shape D s f xs e \<longleftrightarrow>
     c_front s = Ref f \<and> c_end s = Ref e \<and>
     distinct (f # xs @ [e]) \<and> dseg (c_heap s) (f # xs @ [e]) \<and>
     prv (c_heap s) f = Some Null \<and> nxt (c_heap s) e = Some Null \<and>
     dom (c_heap s) = insert f (insert e (set xs)) \<union> D \<and>
     D \<inter> insert f (insert e (set xs)) = {} \<and>
     (\<forall>a \<in> dom (c_heap s). a < c_fresh s)"

definition cache_nums :: "cache \<Rightarrow> nat list \<Rightarrow> bool" where
  "cache_nums s xs \<longleftrightarrow>
     (\<forall>a \<in> set xs. payload_ok (the (c_heap s a))) \<and>
     c_count s = int (length xs) \<and> int (length xs) \<le> INT_MAX \<and>
     c_load s = of_nat (load_of (c_heap s) xs) \<and> load_of (c_heap s) xs < 2 ^ 64"

definition cache_ok :: "nat set \<Rightarrow> cache \<Rightarrow> nat \<Rightarrow> nat list \<Rightarrow> nat \<Rightarrow> bool" where
  "cache_ok D s f xs e \<longleftrightarrow> cache_shape D s f xs e \<and> cache_nums s xs \<and> rw_free s"

subsection \<open>The numbers depend on the data only\<close>

lemma hdata_fields:
  assumes "hdata h' a = hdata h a" "h a \<noteq> None"
  shows "plen (the (h' a)) = plen (the (h a))" "payload_ok (the (h' a)) = payload_ok (the (h a))"
proof -
  from assms obtain n n' where "h a = Some n" "h' a = Some n'" "data n' = data n"
    by (auto simp: hdata_def)
  then show "plen (the (h' a)) = plen (the (h a))" "payload_ok (the (h' a)) = payload_ok (the (h a))"
    by (auto simp: data_def plen_def payload_ok_def)
qed

lemma load_of_cong:
  "\<forall>a \<in> set xs. hdata h' a = hdata h a \<and> h a \<noteq> None \<Longrightarrow> load_of h' xs = load_of h xs"
  unfolding load_of_def
  by (intro arg_cong [where f = sum_list] map_cong refl) (blast intro: hdata_fields(1))

lemma load_of_simps [simp]:
  "load_of h [] = 0"
  "load_of h (a # xs) = plen (the (h a)) + load_of h xs"
  "load_of h (xs @ ys) = load_of h xs + load_of h ys"
  by (simp_all add: load_of_def)

lemma cache_shape_fresh: "cache_shape D s f xs e \<Longrightarrow> length xs + 2 \<le> c_fresh s"
proof -
  assume sh: "cache_shape D s f xs e"
  then have "set (f # xs @ [e]) \<subseteq> {..<c_fresh s}" by (auto simp: cache_shape_def)
  then have "card (set (f # xs @ [e])) \<le> c_fresh s"
    using card_mono [of "{..<c_fresh s}"] by fastforce
  moreover have "card (set (f # xs @ [e])) = length (f # xs @ [e])"
    using sh by (intro distinct_card) (simp add: cache_shape_def)
  ultimately show ?thesis by simp
qed

text \<open>The lock's fields, the counter and the load do not matter to the shape.\<close>

lemma cache_shape_cong:
  "cache_shape D s f xs e \<Longrightarrow> c_heap s' = c_heap s \<Longrightarrow> c_front s' = c_front s \<Longrightarrow>
     c_end s' = c_end s \<Longrightarrow> c_fresh s' = c_fresh s \<Longrightarrow> cache_shape D s' f xs e"
  by (simp add: cache_shape_def)

subsection \<open>Walks\<close>

lemma shape_next:
  assumes "cache_shape D s f xs e" "f # xs @ [e] = us @ a # b # vs"
  shows "nxt (c_heap s) a = Some (Ref b)" "prv (c_heap s) b = Some (Ref a)"
  using assms dseg_append [of "c_heap s" us a "b # vs"] by (auto simp: cache_shape_def)

lemma is_empty_shape:
  assumes "cache_shape D s f xs e"
  shows "is_empty s = Inr (xs = [], s)"
proof -
  obtain z zs where z: "xs @ [e] = z # zs" by (cases "xs @ [e]") auto
  obtain us l where l: "f # xs = us @ [l]" by (metis list.distinct(1) rev_exhaust)
  have n: "nxt (c_heap s) f = Some (Ref z)" by (rule shape_next(1) [OF assms, of "[]" f z zs]) (simp add: z)
  have p: "prv (c_heap s) e = Some (Ref l)" by (rule shape_next(2) [OF assms, of us l e "[]"]) (simp add: l [symmetric])
  have "z = e \<longleftrightarrow> xs = []" using assms z by (cases xs) (auto simp: cache_shape_def)
  moreover have "l = f \<longleftrightarrow> xs = []" using assms l by (cases xs rule: rev_cases) (auto simp: cache_shape_def)
  ultimately show ?thesis
    using assms n p by (auto simp: is_empty_def cmd_simps bnd_def cache_shape_def)
qed

lemma check_walk_shape:
  assumes "cache_shape D s f xs e" "f # xs @ [e] = us @ u # ys @ [e]" "length ys < k"
  shows "check_walk k (Ref (hd (ys @ [e]))) n s = Inr (n + length ys, s)"
  using assms(2,3)
proof (induction k arbitrary: us u ys n)
  case (Suc k)
  have e: "c_end s = Ref e" using assms(1) by (simp add: cache_shape_def)
  show ?case
  proof (cases ys)
    case Nil
    with e show ?thesis by (simp add: cmd_simps)
  next
    case (Cons y ys')
    have "distinct (us @ u # ys @ [e])"
      using assms(1) unfolding cache_shape_def Suc.prems(1) by blast
    with Cons have "y \<noteq> e" by auto
    obtain z zs where z: "ys' @ [e] = z # zs" by (cases "ys' @ [e]") auto
    have "prv (c_heap s) y = Some (Ref u)" "nxt (c_heap s) u = Some (Ref y)"
      using shape_next [OF assms(1), of us u y "ys' @ [e]"] Suc.prems(1) Cons by auto
    moreover have "nxt (c_heap s) y = Some (Ref z)"
      using shape_next(1) [OF assms(1), of "us @ [u]" y z zs] Suc.prems(1) Cons z by auto
    moreover have "check_walk k (Ref (hd (ys' @ [e]))) (n + 1) s = Inr (n + 1 + length ys', s)"
      using Suc.prems Cons by (intro Suc.IH [of "us @ [u]" y]) auto
    ultimately show ?thesis
      using e \<open>y \<noteq> e\<close> Cons z by (simp add: cmd_simps bnd_def c_assert_def)
  qed
qed simp

subsection \<open>The consistency check passes and changes nothing\<close>

lemma rw_restore:
  fixes s :: cache
  assumes "rw_free s"
  shows "s\<lparr>rw_readcnt := 0, rw_w := Suc 0\<rparr> = s" "s\<lparr>rw_w := Suc 0\<rparr> = s"
  using assms by (cases s; simp add: rw_free_def)+

lemma post_read_with_reader:
  fixes s :: cache
  assumes "rw_free s"
  shows "post_read (with_reader s) = Inr ((), s)"
  using assms rw_restore [OF assms] by (subst post_read_reader) (auto simp: rw_free_def)

lemma cache_check_ok:
  assumes ok: "cache_ok D s f xs e"
  shows "cache_check s = Inr ((), s)"
proof -
  let ?s = "with_reader s"
  from ok have sh: "cache_shape D ?s f xs e" and free: "rw_free s"
    and c: "c_count s = int (length xs)" "int (length xs) \<le> INT_MAX"
    by (auto simp: cache_ok_def cache_nums_def intro: cache_shape_cong)
  have ends: "c_front s = Ref f" "c_end s = Ref e" "prv (c_heap s) f = Some Null"
    "nxt (c_heap s) e = Some Null"
    using sh by (auto simp: cache_shape_def)
  obtain z zs where z: "xs @ [e] = z # zs" by (cases "xs @ [e]") auto
  have first: "nxt (c_heap s) f = Some (Ref z)"
    using shape_next(1) [OF sh, of "[]" f z zs] z by simp
  have "check_walk (Suc (c_fresh s)) (Ref (hd (xs @ [e]))) 0 ?s = Inr (0 + length xs, ?s)"
    using cache_shape_fresh [OF sh] by (intro check_walk_shape [OF sh, of "[]" f]) auto
  then have walk: "check_walk (Suc (c_fresh s)) (Ref z) 0 ?s = Inr (length xs, ?s)"
    by (simp add: z del: check_walk.simps)
  have size: "length xs < SIZE_MOD" using c(2) by (simp add: INT_MAX_def SIZE_MOD_def)
  show ?thesis
  proof (cases "xs = []")
    case True
    then show ?thesis
      using pre_read_free [OF free] is_empty_shape [OF sh] post_read_with_reader [OF free] ends c
      by (simp add: cache_check_def cmd_simps bnd_def c_assert_def)
  next
    case False
    then show ?thesis
      using pre_read_free [OF free] walk first post_read_with_reader [OF free] ends c size
      by (simp add: cache_check_def cmd_simps bnd_def c_assert_def del: check_walk.simps)
  qed
qed

subsection \<open>Appending, removing the oldest, moving to the end\<close>

text \<open>What all queue operations keep.\<close>

definition keeps :: "cache \<Rightarrow> cache \<Rightarrow> bool" where
  "keeps s s' \<longleftrightarrow> hdata (c_heap s') = hdata (c_heap s) \<and> c_fresh s' = c_fresh s \<and> c_junk s' = c_junk s"

lemma keeps_refl [simp]: "keeps s s" by (simp add: keeps_def)

lemma keeps_trans: "keeps s s' \<Longrightarrow> keeps s' s'' \<Longrightarrow> keeps s s''" by (simp add: keeps_def)

lemma load_add_ok:
  "c_heap s m \<noteq> None \<Longrightarrow> payload_ok (the (c_heap s m)) \<Longrightarrow>
     load_add (Ref m) s = Inr ((), s\<lparr>c_load := c_load s + of_nat (plen (the (c_heap s m)))\<rparr>)"
  by (auto simp: load_add_def bnd_def cmd_simps c_strlen_def payload_ok_def plen_def)

lemma load_sub_ok:
  "c_heap s m \<noteq> None \<Longrightarrow> payload_ok (the (c_heap s m)) \<Longrightarrow>
     load_sub (Ref m) s = Inr ((), s\<lparr>c_load := c_load s - of_nat (plen (the (c_heap s m)))\<rparr>)"
  by (auto simp: load_sub_def bnd_def cmd_simps c_strlen_def payload_ok_def plen_def)

lemma shape_members:
  assumes "cache_shape D s f xs e" "a \<in> insert f (insert e (set xs)) \<union> D"
  shows "c_heap s a \<noteq> None"
  using assms by (auto simp: cache_shape_def dom_def)

text \<open>The last node before the end dummy.\<close>

lemma shape_last:
  assumes "cache_shape D s f xs e"
  shows "prv (c_heap s) e = Some (Ref (last (f # xs)))" "last (f # xs) \<noteq> e"
    "c_heap s (last (f # xs)) \<noteq> None" "last (f # xs) \<in> set (f # xs)"
proof -
  have split: "f # xs @ [e] = butlast (f # xs) @ last (f # xs) # e # []"
    using append_butlast_last_id [of "f # xs"] by (metis append_Cons append_Nil append_assoc list.distinct(1))
  show "prv (c_heap s) e = Some (Ref (last (f # xs)))" by (rule shape_next(2) [OF assms split])
  have "last (f # xs) \<in> set (f # xs)" by (rule last_in_set) simp
  then show "last (f # xs) \<in> set (f # xs)" "last (f # xs) \<noteq> e" "c_heap s (last (f # xs)) \<noteq> None"
    using assms shape_members [OF assms, of "last (f # xs)"] by (auto simp: cache_shape_def)
qed

definition hlink :: "(nat \<Rightarrow> cnode option) \<Rightarrow> nat \<Rightarrow> nat \<Rightarrow> nat \<Rightarrow> (nat \<Rightarrow> cnode option)" where
  "hlink h l m e = hset_next (hset_prev (hset_next (hset_prev h m (Ref l)) m (Ref e)) e (Ref m)) l (Ref m)"

lemma hlink_links:
  assumes "h l \<noteq> None" "h m \<noteq> None" "h e \<noteq> None"
  shows "nxt (hlink h l m e) = (nxt h)(m \<mapsto> Ref e, l \<mapsto> Ref m)"
    "prv (hlink h l m e) = (prv h)(m \<mapsto> Ref l, e \<mapsto> Ref m)"
    "hdata (hlink h l m e) = hdata h" "dom (hlink h l m e) = dom h"
  using assms by (simp_all add: hlink_def)

lemma shape_link:
  assumes sh: "cache_shape D s f xs e" and m: "m \<in> D"
    and h: "nxt (c_heap s') = (nxt (c_heap s))(m \<mapsto> Ref e, last (f # xs) \<mapsto> Ref m)"
      "prv (c_heap s') = (prv (c_heap s))(m \<mapsto> Ref (last (f # xs)), e \<mapsto> Ref m)"
      "dom (c_heap s') = dom (c_heap s)"
    and same: "c_front s' = c_front s" "c_end s' = c_end s" "c_fresh s' = c_fresh s"
  shows "cache_shape (D - {m}) s' f (xs @ [m]) e"
proof -
  let ?l = "last (f # xs)"
  have fx: "f # xs = butlast (f # xs) @ [?l]" by simp
  have m': "m \<noteq> f" "m \<noteq> e" "m \<notin> set xs" using sh m by (auto simp: cache_shape_def)
  have seg: "dseg (c_heap s) (butlast (f # xs) @ [?l])"
    using sh dseg_append [of "c_heap s" "butlast (f # xs)" ?l "[e]"] fx
    unfolding cache_shape_def by (metis append.assoc append_Cons append_Nil)
  have dist: "distinct (butlast (f # xs) @ [?l, m, e])"
  proof -
    have "distinct ((f # xs) @ [m, e])" using sh m' by (auto simp: cache_shape_def)
    then show ?thesis by (subst (asm) fx) simp
  qed
  have "dseg (c_heap s') (butlast (f # xs) @ [?l, m, e])"
    by (rule dseg_link [OF seg dist h(1,2)])
  also have "butlast (f # xs) @ [?l, m, e] = f # (xs @ [m]) @ [e]"
    using fx by (metis append.assoc append_Cons append_Nil)
  finally have "dseg (c_heap s') (f # (xs @ [m]) @ [e])" .
  then show ?thesis
    using sh m m' h same shape_last [OF sh]
    by (auto simp: cache_shape_def)
qed

lemma enqueue_ok:
  assumes ok: "cache_ok D s f xs e" and m: "m \<in> D" and p: "payload_ok (the (c_heap s m))"
    and room: "load_of (c_heap s) xs + plen (the (c_heap s m)) < 2 ^ 64"
    and cnt: "int (length xs) < INT_MAX"
  shows "\<exists>s'. enqueue (Ref m) s = Inr ((), s') \<and> cache_ok (D - {m}) s' f (xs @ [m]) e \<and> keeps s s'"
proof -
  define l where "l = last (f # xs)"
  from ok have sh: "cache_shape D s f xs e" and free: "rw_free s" by (auto simp: cache_ok_def)
  note last = shape_last [OF sh, folded l_def]
  have mem: "c_heap s e \<noteq> None" "c_heap s m \<noteq> None" "c_heap s l \<noteq> None"
    using shape_members [OF sh] m last by blast+
  then obtain ne nm nl where nodes: "c_heap s e = Some ne" "c_heap s m = Some nm" "c_heap s l = Some nl"
    by auto
  have neq: "m \<noteq> l" "m \<noteq> e" using sh m last(4) by (auto simp: cache_shape_def)
  have ends: "c_end s = Ref e" using sh by (simp add: cache_shape_def)
  define h' where "h' = hlink (c_heap s) l m e"
  note hl = hlink_links [OF mem(3,2,1), folded h'_def]
  let ?n = "plen nm"
  let ?s' = "s\<lparr>c_heap := h', c_count := c_count s + 1, c_load := c_load s + of_nat ?n, rw_w := 1\<rparr>"
  have hm: "h' m \<noteq> None" using hl(4) mem by auto
  have dat: "plen (the (h' m)) = ?n" "payload_ok (the (h' m))"
    using hdata_fields [of h' m "c_heap s"] hl(3) nodes p by auto
  have run: "enqueue (Ref m) s = cache_check ?s'"
    using pre_write_free [OF free] nodes last(1) neq ends hm dat ok cnt free
    by (simp add: enqueue_def cmd_simps bnd_def h'_def [unfolded hlink_def] count_inc_def
        load_add_ok post_write_writer cache_ok_def cache_nums_def rw_free_def)
  have h_frame: "\<forall>a \<in> set (xs @ [m]). hdata h' a = hdata (c_heap s) a \<and> c_heap s a \<noteq> None"
    using shape_members [OF sh] m hl(3) by auto
  have "cache_shape (D - {m}) ?s' f (xs @ [m]) e"
    using hl by (intro shape_link [OF sh m]) (simp_all add: l_def)
  moreover have "cache_nums ?s' (xs @ [m])"
  proof -
    have "load_of h' (xs @ [m]) = load_of (c_heap s) (xs @ [m])" by (rule load_of_cong [OF h_frame])
    moreover have "\<forall>a \<in> set (xs @ [m]). payload_ok (the (h' a))"
      using hdata_fields(2) [of h' _ "c_heap s"] h_frame ok p by (auto simp: cache_ok_def cache_nums_def)
    ultimately show ?thesis
      using ok room cnt nodes by (auto simp: cache_ok_def cache_nums_def)
  qed
  ultimately have ok': "cache_ok (D - {m}) ?s' f (xs @ [m]) e"
    using free by (simp add: cache_ok_def rw_free_def)
  moreover have "keeps s ?s'" using hl by (simp add: keeps_def)
  ultimately show ?thesis using run cache_check_ok [OF ok'] by auto
qed

text \<open>
  A node whose payload block holds no NUL: the count is incremented, then \<open>strlen\<close> of the payload
  runs past the block.
\<close>

lemma load_add_unterminated:
  "c_heap s m = Some nd \<Longrightarrow> NUL \<notin> set (cn_payload nd) \<Longrightarrow> load_add (Ref m) s = Inl Overread"
  by (simp add: load_add_def bnd_def cmd_simps c_strlen_def)

lemma enqueue_unterminated:
  assumes ok: "cache_ok D s f xs e" and m: "m \<in> D" and p: "NUL \<notin> set (cn_payload (the (c_heap s m)))"
    and cnt: "int (length xs) < INT_MAX"
  shows "enqueue (Ref m) s = Inl Overread"
proof -
  define l where "l = last (f # xs)"
  from ok have sh: "cache_shape D s f xs e" and free: "rw_free s" by (auto simp: cache_ok_def)
  note last = shape_last [OF sh, folded l_def]
  have mem: "c_heap s e \<noteq> None" "c_heap s m \<noteq> None" "c_heap s l \<noteq> None"
    using shape_members [OF sh] m last by blast+
  then obtain ne nm nl where nodes: "c_heap s e = Some ne" "c_heap s m = Some nm" "c_heap s l = Some nl"
    by auto
  have neq: "m \<noteq> l" "m \<noteq> e" using sh m last(4) by (auto simp: cache_shape_def)
  have ends: "c_end s = Ref e" using sh by (simp add: cache_shape_def)
  define h' where "h' = hlink (c_heap s) l m e"
  note hl = hlink_links [OF mem(3,2,1), folded h'_def]
  obtain nm' where hm: "h' m = Some nm'" using hl(4) mem by auto
  have "hdata h' m = hdata (c_heap s) m" using hl(3) by simp
  then have "cn_payload nm' = cn_payload nm" using hm nodes(2) by (simp add: hdata_def data_def)
  then have "NUL \<notin> set (cn_payload nm')" using p nodes(2) by simp
  then show ?thesis
    using pre_write_free [OF free] nodes last(1) neq ends hm ok cnt free
    by (simp add: enqueue_def cmd_simps bnd_def h'_def [unfolded hlink_def] count_inc_def
        load_add_unterminated cache_ok_def cache_nums_def rw_free_def)
qed

lemma shape_unlink:
  assumes sh: "cache_shape D s f (ys @ m # zs) e"
    and h: "nxt (c_heap s') = (nxt (c_heap s))(last (f # ys) \<mapsto> Ref (hd (zs @ [e])))"
      "prv (c_heap s') = (prv (c_heap s))(hd (zs @ [e]) \<mapsto> Ref (last (f # ys)))"
      "dom (c_heap s') = dom (c_heap s)"
    and same: "c_front s' = c_front s" "c_end s' = c_end s" "c_fresh s' = c_fresh s"
  shows "cache_shape (insert m D) s' f (ys @ zs) e"
proof -
  obtain us p where p: "f # ys = us @ [p]" by (metis list.distinct(1) rev_exhaust)
  then have lp: "last (f # ys) = p" by (metis last_snoc)
  obtain z ws where z: "zs @ [e] = z # ws" by (cases "zs @ [e]") auto
  have all: "f # (ys @ m # zs) @ [e] = us @ p # m # z # ws"
    using p z by (metis append.assoc append_Cons append_Nil)
  have "dseg (c_heap s) (us @ p # m # z # ws)" "distinct (us @ p # m # z # ws)"
    using sh unfolding cache_shape_def all by auto
  then have "dseg (c_heap s') (us @ p # z # ws)"
    by (rule dseg_unlink) (use h z lp in simp_all)
  then have seg: "dseg (c_heap s') (f # (ys @ zs) @ [e])"
    using p z by (metis append.assoc append_Cons append_Nil)
  have "p \<in> insert f (set ys)" using lp last_in_set [of "f # ys"] by auto
  moreover have "z \<in> insert e (set zs)" using z by (cases zs) auto
  ultimately have ne: "p \<noteq> e" "z \<noteq> f" using sh by (auto simp: cache_shape_def)
  have "prv (c_heap s') f = Some Null" "nxt (c_heap s') e = Some Null"
    using sh z lp ne h by (auto simp: cache_shape_def)
  moreover have "dom (c_heap s') = insert f (insert e (set (ys @ zs))) \<union> insert m D"
    "insert m D \<inter> insert f (insert e (set (ys @ zs))) = {}"
    using sh h(3) by (auto simp: cache_shape_def)
  ultimately show ?thesis
    using sh seg h(3) same unfolding cache_shape_def by simp
qed

lemma dequeue_ok:
  assumes ok: "cache_ok D s f (d # xs) e"
  shows "\<exists>s'. dequeue s = Inr (Ref d, s') \<and> cache_ok (insert d D) s' f xs e \<and> keeps s s'"
proof -
  from ok have sh: "cache_shape D s f (d # xs) e" and free: "rw_free s" by (auto simp: cache_ok_def)
  define z where "z = hd (xs @ [e])"
  obtain zs where z: "xs @ [e] = z # zs" unfolding z_def by (cases "xs @ [e]") auto
  then have zm: "z \<in> insert e (set xs)" by (cases xs) auto
  have links: "nxt (c_heap s) f = Some (Ref d)" "nxt (c_heap s) d = Some (Ref z)"
    using shape_next(1) [OF sh, of "[]" f d "xs @ [e]"] shape_next(1) [OF sh, of "[f]" d z zs] z
    by auto
  obtain nf nd nz where nodes: "c_heap s f = Some nf" "c_heap s d = Some nd" "c_heap s z = Some nz"
    using shape_members [OF sh] zm by (metis (no_types) Un_iff insert_iff list.simps(15) not_None_eq)
  have neq: "f \<noteq> d" "d \<noteq> z" "f \<noteq> z" using sh zm by (auto simp: cache_shape_def)
  have ends: "c_front s = Ref f" using sh by (simp add: cache_shape_def)
  have sh': "cache_shape D (with_writer s) f (d # xs) e" using sh by (rule cache_shape_cong) auto
  define h' where "h' = hset_prev (hset_next (c_heap s) f (Ref z)) z (Ref f)"
  have hl: "nxt h' = (nxt (c_heap s))(f \<mapsto> Ref z)" "prv h' = (prv (c_heap s))(z \<mapsto> Ref f)"
    "dom h' = dom (c_heap s)" "hdata h' = hdata (c_heap s)"
    using nodes neq by (simp_all add: h'_def)
  let ?n = "plen nd"
  let ?s' = "s\<lparr>c_heap := h', c_count := c_count s - 1, c_load := c_load s - of_nat ?n, rw_w := 1\<rparr>"
  have hd: "h' d \<noteq> None" using hl(3) nodes by auto
  have dat: "plen (the (h' d)) = ?n" "payload_ok (the (h' d))"
    using hdata_fields [of h' d "c_heap s"] hl(4) nodes ok by (auto simp: cache_ok_def cache_nums_def)
  have run: "dequeue s = bnd cache_check (\<lambda>_. ret (Ref d)) ?s'"
    using pre_write_free [OF free] is_empty_shape [OF sh'] nodes links neq ends hd dat ok free
    by (simp add: dequeue_def cmd_simps bnd_def h'_def count_dec_def load_sub_ok
        post_write_writer cache_ok_def cache_nums_def rw_free_def)
  have h_frame: "\<forall>a \<in> set (d # xs). hdata h' a = hdata (c_heap s) a \<and> c_heap s a \<noteq> None"
    using shape_members [OF sh] hl(4) by auto
  have "cache_shape (insert d D) ?s' f xs e"
    using hl shape_unlink [of D s f "[]" d xs e ?s'] sh by (simp add: z_def)
  moreover have "cache_nums ?s' xs"
  proof -
    have "load_of h' xs = load_of (c_heap s) xs" using h_frame by (intro load_of_cong) auto
    moreover have "\<forall>a \<in> set xs. payload_ok (the (h' a))"
      using hdata_fields(2) [of h' _ "c_heap s"] h_frame ok by (auto simp: cache_ok_def cache_nums_def)
    ultimately show ?thesis
      using ok nodes by (auto simp: cache_ok_def cache_nums_def)
  qed
  ultimately have ok': "cache_ok (insert d D) ?s' f xs e"
    using free by (simp add: cache_ok_def rw_free_def)
  moreover have "keeps s ?s'" using hl by (simp add: keeps_def)
  ultimately show ?thesis using run cache_check_ok [OF ok'] by (auto simp: bnd_def ret_def)
qed

lemma dequeue_empty:
  assumes ok: "cache_ok D s f [] e"
  shows "dequeue s = Inr (Null, s)"
proof -
  from ok have free: "rw_free s" and sh: "cache_shape D (with_writer s) f [] e"
    by (auto simp: cache_ok_def intro: cache_shape_cong)
  from is_empty_shape [OF sh] pre_write_free [OF free] rw_restore [OF free] show ?thesis
    by (simp add: dequeue_def bnd_def cmd_simps post_write_writer)
qed

lemma free_node_ok:
  assumes ok: "cache_ok D s f xs e" and d: "d \<in> D"
  shows "\<exists>s'. free_node (Ref d) s = Inr ((), s') \<and> cache_ok (D - {d}) s' f xs e \<and>
           hdata (c_heap s') = (hdata (c_heap s))(d := None) \<and>
           c_fresh s' = c_fresh s \<and> c_junk s' = c_junk s"
proof -
  from ok have sh: "cache_shape D s f xs e" by (simp add: cache_ok_def)
  have out: "d \<noteq> f" "d \<noteq> e" "d \<notin> set xs" using sh d by (auto simp: cache_shape_def)
  let ?h = "(c_heap s)(d := None)"
  let ?s' = "s\<lparr>c_heap := ?h\<rparr>"
  have links: "nxt ?h = (nxt (c_heap s))(d := None)" "prv ?h = (prv (c_heap s))(d := None)"
    "hdata ?h = (hdata (c_heap s))(d := None)"
    by (auto simp: nxt_def prv_def hdata_def)
  have "dseg ?h (f # xs @ [e]) = dseg (c_heap s) (f # xs @ [e])"
    using out by (intro dseg_frame) (auto simp: links dest: in_set_butlastD in_set_tlD)
  then have "cache_shape (D - {d}) ?s' f xs e"
    using sh out d by (auto simp: cache_shape_def links)
  moreover have "load_of ?h xs = load_of (c_heap s) xs"
    unfolding load_of_def using out by (intro arg_cong [where f = sum_list] map_cong) auto
  then have "cache_nums ?s' xs" using ok out by (auto simp: cache_ok_def cache_nums_def)
  ultimately have "cache_ok (D - {d}) ?s' f xs e" using ok by (simp add: cache_ok_def rw_free_def)
  moreover have "c_heap s d \<noteq> None" using shape_members [OF sh, of d] d by blast
  ultimately show ?thesis using links by auto
qed

lemma update_ok:
  assumes ok: "cache_ok D s f (ys @ m # zs) e"
  shows "\<exists>s'. update (Ref m) s = Inr ((), s') \<and> cache_ok D s' f (ys @ zs @ [m]) e \<and> keeps s s'"
proof -
  from ok have sh: "cache_shape D s f (ys @ m # zs) e" and free: "rw_free s"
    by (auto simp: cache_ok_def)
  define p where "p = last (f # ys)"
  define z where "z = hd (zs @ [e])"
  define l where "l = last (f # ys @ zs)"
  obtain us where us: "f # ys = us @ [p]" unfolding p_def by (metis append_butlast_last_id list.distinct(1))
  obtain ws where z: "zs @ [e] = z # ws" unfolding z_def by (cases "zs @ [e]") auto
  have zm: "z \<in> insert e (set zs)" using z by (cases zs) auto
  have pm: "p \<in> insert f (set ys)" using last_in_set [of "f # ys"] by (simp add: p_def)
  have lm: "l \<in> insert f (set ys \<union> set zs)" using last_in_set [of "f # ys @ zs"] by (simp add: l_def)
  have all: "f # (ys @ m # zs) @ [e] = us @ p # m # z # ws"
    using us z by (metis append.assoc append_Cons append_Nil)
  have links: "nxt (c_heap s) m = Some (Ref z)" "prv (c_heap s) m = Some (Ref p)"
    using shape_next(1) [OF sh, of "us @ [p]" m z ws] shape_next(2) [OF sh, of us p m "z # ws"] all
    by auto
  have some: "c_heap s a \<noteq> None" if "a \<in> {m, p, z, l, e}" for a
    using shape_members [OF sh] that zm pm lm by auto
  obtain nm np nz nl ne where nodes: "c_heap s m = Some nm" "c_heap s p = Some np"
    "c_heap s z = Some nz" "c_heap s l = Some nl" "c_heap s e = Some ne"
    using some [of m] some [of p] some [of z] some [of l] some [of e] by auto
  have neq: "m \<noteq> p" "m \<noteq> z" "p \<noteq> z" "m \<noteq> e" "l \<noteq> m" "l \<noteq> e" "p \<noteq> e"
    using sh zm pm lm by (auto simp: cache_shape_def)
  have ends: "c_end s = Ref e" using sh by (simp add: cache_shape_def)
  let ?h1 = "hset_prev (hset_next (c_heap s) p (Ref z)) z (Ref p)"
  have sh1: "cache_shape (insert m D) (s\<lparr>c_heap := ?h1\<rparr>) f (ys @ zs) e"
    using nodes by (intro shape_unlink [OF sh]) (simp_all add: p_def [symmetric] z_def [symmetric] del: last.simps)
  have pe: "prv ?h1 e = Some (Ref l)" using shape_last(1) [OF sh1] by (simp add: l_def)
  let ?h2 = "hset_next (hset_prev (hset_prev (hset_next ?h1 m (Ref e)) m (Ref l)) e (Ref m)) l (Ref m)"
  let ?s' = "s\<lparr>c_heap := ?h2, rw_w := 1\<rparr>"
  have run: "update (Ref m) s = cache_check ?s'"
    using pre_write_free [OF free] nodes links neq ends free pe
    by (simp add: update_def cmd_simps bnd_def post_write_writer rw_free_def split: if_splits)
  have hd2: "hdata ?h2 = hdata (c_heap s)" by simp
  have "cache_shape (insert m D - {m}) ?s' f ((ys @ zs) @ [m]) e"
    using nodes neq by (intro shape_link [OF sh1]) (simp_all add: l_def [symmetric] fun_upd_twist del: last.simps)
  then have "cache_shape D ?s' f (ys @ zs @ [m]) e"
    using sh by (simp add: cache_shape_def)
  moreover have "cache_nums ?s' (ys @ zs @ [m])"
  proof -
    have fr: "\<forall>a \<in> set (ys @ zs @ [m]). hdata ?h2 a = hdata (c_heap s) a \<and> c_heap s a \<noteq> None"
      using shape_members [OF sh] hd2 by auto
    have "load_of ?h2 (ys @ zs @ [m]) = load_of (c_heap s) (ys @ zs @ [m])" by (rule load_of_cong [OF fr])
    moreover have "\<forall>a \<in> set (ys @ zs @ [m]). payload_ok (the (?h2 a))"
      using hdata_fields(2) [of ?h2 _ "c_heap s"] fr ok by (auto simp: cache_ok_def cache_nums_def)
    ultimately show ?thesis using ok by (auto simp: cache_ok_def cache_nums_def)
  qed
  ultimately have ok': "cache_ok D ?s' f (ys @ zs @ [m]) e"
    using free by (simp add: cache_ok_def rw_free_def)
  moreover have "keeps s ?s'" by (simp add: keeps_def)
  ultimately show ?thesis using run cache_check_ok [OF ok'] by auto
qed

end
