(* ===== verification/Cache_Lru.thy ===== *)
theory Cache_Lru
  imports Cache_Inv
begin

section \<open>The LRU cache: lookup, insertion with eviction, and the abstract cache\<close>

text \<open>
  The abstract cache is the list of its entries from the least to the most recently used one.  A
  lookup moves the youngest matching entry to the end, an insertion appends an entry and then drops
  the oldest ones until the payloads fit.  The operations of \<open>Cache\<close> refine it.
\<close>

type_synonym entry = "string \<times> string \<times> string \<times> block \<times> nat"

fun entry_match :: "string \<Rightarrow> string \<Rightarrow> string \<Rightarrow> entry \<Rightarrow> bool" where
  "entry_match host port path (h, po, pa, blk, n) \<longleftrightarrow>
     strcasecmp0 h host \<and> strcasecmp0 po port \<and> strcasecmp0 pa path"

fun entry_len :: "entry \<Rightarrow> nat" where
  "entry_len (h, po, pa, blk, n) = length (cstr blk)"

subsection \<open>The abstract cache\<close>

definition lru_find :: "(entry \<Rightarrow> bool) \<Rightarrow> entry list \<Rightarrow> entry option" where
  "lru_find m es = List.find m (rev es)"

definition lru_touch :: "(entry \<Rightarrow> bool) \<Rightarrow> entry list \<Rightarrow> entry list" where
  "lru_touch m es =
     (let newer = takeWhile (\<lambda>x. \<not> m x) (rev es)
      in case dropWhile (\<lambda>x. \<not> m x) (rev es) of
           [] \<Rightarrow> es | x # older \<Rightarrow> rev older @ rev newer @ [x])"

definition lru_load :: "entry list \<Rightarrow> nat" where
  "lru_load es = (\<Sum>x \<leftarrow> es. entry_len x)"

fun lru_evict :: "entry list \<Rightarrow> entry list" where
  "lru_evict [] = []"
| "lru_evict (x # es) = (if 1049000 < lru_load (x # es) then lru_evict es else x # es)"

lemma lru_load_simps [simp]:
  "lru_load [] = 0" "lru_load (x # es) = entry_len x + lru_load es"
  "lru_load (es @ es') = lru_load es + lru_load es'"
  by (simp_all add: lru_load_def)

lemma lru_evict_load: "lru_load (lru_evict es) \<le> 1049000"
  by (induction es) auto

lemma lru_evict_suffix: "\<exists>old. es = old @ lru_evict es"
proof (induction es)
  case (Cons x es)
  then obtain old where old: "es = old @ lru_evict es" ..
  show ?case
  proof (cases "1049000 < lru_load (x # es)")
    case True
    with old have "x # es = (x # old) @ lru_evict (x # es)" by simp
    then show ?thesis ..
  qed simp
qed simp

lemma lru_evict_keeps_last:
  "entry_len x \<le> 1049000 \<Longrightarrow> \<exists>es'. lru_evict (es @ [x]) = es' @ [x]"
  by (induction es) auto

lemma lru_evict_small: "lru_load es \<le> 1049000 \<Longrightarrow> lru_evict es = es"
  by (cases es) auto

lemma find_append:
  "List.find p (xs @ ys) = (case List.find p xs of None \<Rightarrow> List.find p ys | Some x \<Rightarrow> Some x)"
  by (induction xs) auto

lemma find_all_not: "\<forall>x \<in> set xs. \<not> p x \<Longrightarrow> List.find p xs = None"
  by (simp add: find_None_iff)

lemma lru_find_snoc: "lru_find m (es @ [x]) = (if m x then Some x else lru_find m es)"
  by (simp add: lru_find_def)

lemma lru_touch_split:
  assumes "m x" "\<forall>y \<in> set zs. \<not> m y"
  shows "lru_touch m (ys @ x # zs) = ys @ zs @ [x]" "lru_find m (ys @ x # zs) = Some x"
proof -
  have "takeWhile (\<lambda>x. \<not> m x) (rev (ys @ x # zs)) = rev zs"
    "dropWhile (\<lambda>x. \<not> m x) (rev (ys @ x # zs)) = x # rev ys"
    using assms by (auto simp: takeWhile_append dropWhile_append)
  then show "lru_touch m (ys @ x # zs) = ys @ zs @ [x]" by (simp add: lru_touch_def)
  show "lru_find m (ys @ x # zs) = Some x"
    using assms find_all_not [of "rev zs" m] by (simp add: lru_find_def find_append)
qed

subsection \<open>Addresses and entries\<close>

definition entry_at :: "cache \<Rightarrow> nat \<Rightarrow> entry" where
  "entry_at s a = the (hdata (c_heap s) a)"

definition entries :: "cache \<Rightarrow> nat list \<Rightarrow> entry list" where
  "entries s xs = map (entry_at s) xs"

lemma entry_at_data: "c_heap s a = Some n \<Longrightarrow> entry_at s a = data n"
  by (simp add: entry_at_def hdata_def)

lemma plen_entry: "c_heap s a \<noteq> None \<Longrightarrow> plen (the (c_heap s a)) = entry_len (entry_at s a)"
  by (auto simp: entry_at_data data_def plen_def)

lemma load_of_entries:
  assumes "\<forall>a \<in> set xs. c_heap s a \<noteq> None"
  shows "load_of (c_heap s) xs = lru_load (entries s xs)"
proof -
  have "load_of (c_heap s) xs = sum_list (map (\<lambda>a. entry_len (entry_at s a)) xs)"
    unfolding load_of_def using assms
    by (intro arg_cong [where f = sum_list] map_cong) (auto simp: plen_entry)
  then show ?thesis by (simp add: lru_load_def entries_def comp_def)
qed

lemma keeps_entries: "keeps s s' \<Longrightarrow> entries s' xs = entries s xs"
  by (simp add: keeps_def entries_def entry_at_def)

lemma is_match_ok:
  "c_heap s a \<noteq> None \<Longrightarrow>
     is_match (Ref a) host port path s = Inr (entry_match host port path (entry_at s a), s)"
  by (auto simp: is_match_def bnd_def ret_def entry_at_data data_def)

subsection \<open>Search\<close>

lemma find_node_shape:
  assumes sh: "cache_shape D s f xs e"
  shows "xs = ys @ zs \<Longrightarrow> length ys < k \<Longrightarrow>
    find_node k (Ref (last (f # ys))) host port path s =
      Inr (map_option Ref (List.find (\<lambda>a. entry_match host port path (entry_at s a)) (rev ys)), s)"
proof (induction ys arbitrary: zs k rule: rev_induct)
  case Nil
  then obtain k' where "k = Suc k'" by (cases k) auto
  then show ?case using sh by (simp add: bnd_def gets_def ret_def cache_shape_def)
next
  case (snoc y ys)
  then obtain k' where k: "k = Suc k'" by (cases k) auto
  have y: "y \<noteq> f" "c_heap s y \<noteq> None"
    using sh shape_members [OF sh, of y] snoc.prems(1) by (auto simp: cache_shape_def)
  have "f # xs @ [e] = butlast (f # ys) @ last (f # ys) # y # zs @ [e]"
    using snoc.prems(1) append_butlast_last_id [of "f # ys"] by (metis append.assoc append_Cons append_Nil list.distinct(1))
  then have prev: "prv (c_heap s) y = Some (Ref (last (f # ys)))"
    by (rule shape_next(2) [OF sh])
  have "find_node k' (Ref (last (f # ys))) host port path s =
      Inr (map_option Ref (List.find (\<lambda>a. entry_match host port path (entry_at s a)) (rev ys)), s)"
    using snoc.prems k by (intro snoc.IH [of "y # zs"]) auto
  moreover have "last (f # ys @ [y]) = y" by simp
  ultimately show ?case
    using y prev k is_match_ok [OF y(2)] sh
    by (simp add: bnd_def gets_def ret_def cache_shape_def del: last.simps)
qed

lemma cache_search_ok:
  assumes ok: "cache_ok D s f xs e"
  shows "cache_search host port path s =
    Inr (map_option Ref (List.find (\<lambda>a. entry_match host port path (entry_at s a)) (rev xs)), s)"
proof -
  let ?s = "with_reader s"
  from ok have free: "rw_free s" and sh: "cache_shape D s f xs e" and sh': "cache_shape D ?s f xs e"
    by (auto simp: cache_ok_def intro: cache_shape_cong)
  have ea: "entry_at ?s = entry_at s" by (simp add: fun_eq_iff entry_at_def)
  have ends: "c_end s = Ref e" using sh by (simp add: cache_shape_def)
  have "find_node (Suc (c_fresh s)) (Ref (last (f # xs))) host port path ?s =
      Inr (map_option Ref (List.find (\<lambda>a. entry_match host port path (entry_at s a)) (rev xs)), ?s)"
    using find_node_shape [OF sh', of xs "[]" "Suc (c_fresh s)"] cache_shape_fresh [OF sh] ea by simp
  with pre_read_free [OF free] is_empty_shape [OF sh'] post_read_with_reader [OF free] ends
    shape_last(1) [OF sh]
  show ?thesis
    by (cases "xs = []") (simp_all add: cache_search_def bnd_def gets_def ret_def del: last.simps find_node.simps)
qed

lemma find_rev_split:
  "List.find p (rev xs) = Some a \<Longrightarrow> \<exists>ys zs. xs = ys @ a # zs \<and> p a \<and> (\<forall>b \<in> set zs. \<not> p b)"
proof (induction xs rule: rev_induct)
  case (snoc x xs)
  show ?case
  proof (cases "p x")
    case True
    with snoc.prems have "xs @ [x] = xs @ a # [] \<and> p a \<and> (\<forall>b \<in> set []. \<not> p b)" by simp
    then show ?thesis by blast
  next
    case False
    with snoc.prems have "List.find p (rev xs) = Some a" by simp
    then obtain ys zs where "xs = ys @ a # zs" "p a" "\<forall>b \<in> set zs. \<not> p b"
      using snoc.IH by blast
    with False have "xs @ [x] = ys @ a # (zs @ [x]) \<and> p a \<and> (\<forall>b \<in> set (zs @ [x]). \<not> p b)" by simp
    then show ?thesis by blast
  qed
qed simp

lemma find_entries:
  "lru_find m (entries s xs) = map_option (entry_at s) (List.find (\<lambda>a. m (entry_at s a)) (rev xs))"
proof -
  have "List.find m (map (entry_at s) ys) = map_option (entry_at s) (List.find (\<lambda>a. m (entry_at s a)) ys)"
    for ys by (induction ys) auto
  then show ?thesis by (simp add: lru_find_def entries_def rev_map)
qed

lemma is_cached_miss:
  assumes "cache_ok D s f xs e" "lru_find (entry_match host port path) (entries s xs) = None"
  shows "is_cached host port path buf s = Inr (None, s)"
  using cache_search_ok [OF assms(1)] assms(2)
  by (simp add: find_entries is_cached_def bnd_def ret_def)

lemma is_cached_hit:
  assumes ok: "cache_ok D s f xs e"
    and hit: "lru_find (entry_match host port path) (entries s xs) = Some (h, po, pa, blk, n)"
    and fits: "n \<le> length buf"
  shows "\<exists>s' xs'. is_cached host port path buf s = Inr (Some (take n blk @ drop n buf, n), s') \<and>
    cache_ok D s' f xs' e \<and> keeps s s' \<and>
    entries s' xs' = lru_touch (entry_match host port path) (entries s xs)"
proof -
  let ?m = "entry_match host port path"
  from hit obtain a where a: "List.find (\<lambda>a. ?m (entry_at s a)) (rev xs) = Some a"
    and ea: "entry_at s a = (h, po, pa, blk, n)"
    by (auto simp: find_entries)
  from find_rev_split [OF a] obtain ys zs where xs: "xs = ys @ a # zs" and m: "?m (entry_at s a)"
    and rest: "\<forall>b \<in> set zs. \<not> ?m (entry_at s b)" by blast
  from update_ok [of D s f ys a zs e] ok xs obtain s' where
    up: "update (Ref a) s = Inr ((), s')" and ok': "cache_ok D s' f (ys @ zs @ [a]) e"
    and k: "keeps s s'" by blast
  have sh': "cache_shape D s' f (ys @ zs @ [a]) e" using ok' by (simp add: cache_ok_def)
  obtain nd where nd: "c_heap s' a = Some nd" using shape_members [OF sh', of a] by auto
  have "entry_at s' a = entry_at s a" using k by (simp add: entry_at_def keeps_def)
  then have d: "data nd = (h, po, pa, blk, n)" using nd ea by (simp add: entry_at_data)
  have "payload_ok nd" using ok' nd by (auto simp: cache_ok_def cache_nums_def)
  then have len: "n \<le> length blk" using d by (auto simp: payload_ok_def data_def)
  have "is_cached host port path buf s = Inr (Some (take n blk @ drop n buf, n), s')"
    using cache_search_ok [OF ok, of host port path] a up nd d len fits
    by (simp add: is_cached_def cache_use_def bnd_def ret_def lift_res_def data_def
        blk_read_Inr blk_write_Inr)
  moreover have "entries s' (ys @ zs @ [a]) = lru_touch ?m (entries s xs)"
  proof -
    have "lru_touch ?m (map (entry_at s) ys @ entry_at s a # map (entry_at s) zs) =
        map (entry_at s) ys @ map (entry_at s) zs @ [entry_at s a]"
      using m rest by (intro lru_touch_split) auto
    then show ?thesis using keeps_entries [OF k, of "ys @ zs @ [a]"] xs by (simp add: entries_def)
  qed
  ultimately show ?thesis using ok' k by blast
qed

subsection \<open>Insertion\<close>

text \<open>The block that \<open>new_node\<close> fills: \<open>bytesize\<close> bytes of the payload, then what was there before.\<close>

definition stored_block :: "(nat \<Rightarrow> char) \<Rightarrow> block \<Rightarrow> nat \<Rightarrow> block" where
  "stored_block junk payload n =
     take n payload @ map junk [n..<length (cstr payload) + 1]"

lemma new_node_run:
  assumes "NUL \<in> set payload" "n \<le> length (cstr payload) + 1"
  shows "new_node host port path payload n s = Inr (Ref (c_fresh s), s\<lparr>c_fresh := c_fresh s + 1,
    c_heap := (c_heap s)(c_fresh s \<mapsto> \<lparr>cn_host = host, cn_port = port, cn_path = path,
      cn_payload = stored_block (c_junk s (c_fresh s)) payload n, cn_bytesize = n,
      cn_prev = Undef, cn_next = Undef\<rparr>)\<rparr>)"
proof -
  have n: "n \<le> length payload" using assms length_cstr_less [OF assms(1)] by linarith
  have "drop n (map (c_junk s (c_fresh s)) [0..<length (cstr payload) + 1]) =
      map (c_junk s (c_fresh s)) [n..<length (cstr payload) + 1]"
    by (simp only: drop_map drop_upt add_0)
  with n assms show ?thesis
    by (simp add: new_node_def cmd_simps c_strlen_def blk_read_Inr blk_write_Inr stored_block_def
        del: upt_Suc)
qed

lemma new_node_overflow:
  assumes "NUL \<in> set payload" "length (cstr payload) + 1 < n" "n \<le> length payload"
  shows "new_node host port path payload n s = Inl Overflow"
  using assms by (simp add: new_node_def cmd_simps c_strlen_def blk_read_Inr blk_write_Inl del: upt_Suc)

lemma length_stored_block:
  "NUL \<in> set payload \<Longrightarrow> n \<le> length (cstr payload) + 1 \<Longrightarrow>
     length (stored_block junk payload n) = length (cstr payload) + 1"
  using length_cstr_less [of payload] by (simp add: stored_block_def del: upt_Suc)

lemma new_node_ok:
  assumes ok: "cache_ok D s f xs e" and p: "NUL \<in> set payload" "n \<le> length (cstr payload) + 1"
  shows "\<exists>s'. new_node host port path payload n s = Inr (Ref (c_fresh s), s') \<and>
    cache_ok (insert (c_fresh s) D) s' f xs e \<and> c_fresh s \<notin> D \<and>
    c_fresh s' = c_fresh s + 1 \<and> c_junk s' = c_junk s \<and> entries s' xs = entries s xs \<and>
    entry_at s' (c_fresh s) = (host, port, path, stored_block (c_junk s (c_fresh s)) payload n, n)"
proof -
  let ?a = "c_fresh s"
  from ok have sh: "cache_shape D s f xs e" by (simp add: cache_ok_def)
  have out: "?a \<noteq> f" "?a \<noteq> e" "?a \<notin> set xs" "?a \<notin> D"
    using sh by (fastforce simp: cache_shape_def)+
  define nd where "nd = \<lparr>cn_host = host, cn_port = port, cn_path = path,
      cn_payload = stored_block (c_junk s ?a) payload n, cn_bytesize = n,
      cn_prev = Undef, cn_next = Undef\<rparr>"
  let ?h = "(c_heap s)(?a \<mapsto> nd)"
  let ?s' = "s\<lparr>c_fresh := ?a + 1, c_heap := ?h\<rparr>"
  have links: "nxt ?h = (nxt (c_heap s))(?a \<mapsto> Undef)" "prv ?h = (prv (c_heap s))(?a \<mapsto> Undef)"
    by (auto simp: nxt_def prv_def nd_def)
  have "dseg ?h (f # xs @ [e]) = dseg (c_heap s) (f # xs @ [e])"
    using out by (intro dseg_frame) (auto simp: links dest: in_set_butlastD in_set_tlD)
  then have "cache_shape (insert ?a D) ?s' f xs e"
    using sh out by (auto simp: cache_shape_def links intro: less_SucI)
  moreover have "load_of ?h xs = load_of (c_heap s) xs"
    unfolding load_of_def using out by (intro arg_cong [where f = sum_list] map_cong) auto
  then have "cache_nums ?s' xs" using ok out by (auto simp: cache_ok_def cache_nums_def)
  ultimately have "cache_ok (insert ?a D) ?s' f xs e" using ok by (simp add: cache_ok_def rw_free_def)
  moreover have "entries ?s' xs = entries s xs"
    using out by (auto simp: entries_def entry_at_def hdata_def)
  moreover have "entry_at ?s' ?a = (host, port, path, stored_block (c_junk s ?a) payload n, n)"
    by (simp add: entry_at_def hdata_def data_def nd_def)
  ultimately show ?thesis using new_node_run [OF p, of host port path s] out by (auto simp: nd_def)
qed

subsection \<open>Eviction\<close>

lemma entries_simps [simp]:
  "entries s [] = []" "entries s (a # xs) = entry_at s a # entries s xs"
  "entries s (xs @ ys) = entries s xs @ entries s ys" "length (entries s xs) = length xs"
  by (simp_all add: entries_def)

lemma load_exceeds:
  assumes "cache_ok D s f xs e"
  shows "MAX_CACHE_SIZE < c_load s \<longleftrightarrow> 1049000 < lru_load (entries s xs)"
proof -
  have "\<forall>a \<in> set xs. c_heap s a \<noteq> None"
    using assms shape_members [of D s f xs e] by (auto simp: cache_ok_def)
  then have "load_of (c_heap s) xs = lru_load (entries s xs)" by (rule load_of_entries)
  moreover have "unat (c_load s) = load_of (c_heap s) xs"
    using assms by (auto simp: cache_ok_def cache_nums_def unat_of_nat)
  ultimately show ?thesis by (simp add: word_less_nat_alt MAX_CACHE_SIZE_def)
qed

lemma entries_cong:
  "\<forall>a \<in> set xs. hdata (c_heap s') a = hdata (c_heap s) a \<Longrightarrow> entries s' xs = entries s xs"
  by (simp add: entries_def entry_at_def)

lemma evict_ok:
  "cache_ok {} s f xs e \<Longrightarrow> length xs < k \<Longrightarrow>
     \<exists>s' xs'. evict k s = Inr ((), s') \<and> cache_ok {} s' f xs' e \<and>
       entries s' xs' = lru_evict (entries s xs) \<and> c_fresh s' = c_fresh s \<and> c_junk s' = c_junk s \<and>
       (\<exists>old. xs = old @ xs')"
proof (induction xs arbitrary: s k)
  case Nil
  then obtain k' where "k = Suc k'" by (cases k) auto
  with load_exceeds [OF Nil.prems(1)] Nil.prems(1) show ?case
    by (intro exI [of _ s] exI [of _ "[]"]) (simp add: bnd_def gets_def ret_def)
next
  case (Cons d xs)
  then obtain k' where k: "k = Suc k'" by (cases k) auto
  show ?case
  proof (cases "1049000 < lru_load (entries s (d # xs))")
    case False
    with load_exceeds [OF Cons.prems(1)] Cons.prems(1) k show ?thesis
      by (intro exI [of _ s] exI [of _ "d # xs"]) (simp add: bnd_def gets_def ret_def)
  next
    case True
    from dequeue_ok [OF Cons.prems(1)] obtain s1 where s1: "dequeue s = Inr (Ref d, s1)"
      "cache_ok (insert d {}) s1 f xs e" "keeps s s1" by blast
    from free_node_ok [OF s1(2), of d] obtain s2 where s2: "free_node (Ref d) s1 = Inr ((), s2)"
      "cache_ok {} s2 f xs e" "hdata (c_heap s2) = (hdata (c_heap s1))(d := None)"
      "c_fresh s2 = c_fresh s1" "c_junk s2 = c_junk s1" by auto
    have "d \<notin> set xs" using Cons.prems(1) by (auto simp: cache_ok_def cache_shape_def)
    then have "entries s2 xs = entries s1 xs" using s2(3) by (intro entries_cong) auto
    moreover have "entries s1 xs = entries s xs" using s1(3) by (rule keeps_entries)
    moreover obtain s' xs' where "evict k' s2 = Inr ((), s')" "cache_ok {} s' f xs' e"
      "entries s' xs' = lru_evict (entries s2 xs)" "c_fresh s' = c_fresh s2" "c_junk s' = c_junk s2"
      "\<exists>old. d # xs = old @ xs'"
      using Cons.IH [OF s2(2), of k'] Cons.prems(2) k by (auto intro: exI [of _ "d # x" for x])
    moreover have "evict k s = evict k' s2"
      using True load_exceeds [OF Cons.prems(1)] s1(1) s2(1) k by (simp add: bnd_def gets_def)
    ultimately show ?thesis
      using True s1(3) s2(4,5) by (auto simp: keeps_def)
  qed
qed

lemma add_cache_ok:
  assumes ok: "cache_ok {} s f xs e"
    and p: "NUL \<in> set payload" "n \<le> length (cstr payload) + 1"
    and stored: "NUL \<in> set (stored_block (c_junk s (c_fresh s)) payload n)"
    and cnt: "int (length xs) < INT_MAX"
    and room: "lru_load (entries s xs) \<le> 1049000" "length payload \<le> 1049000"
  shows "\<exists>s' xs'. add_cache host port path payload n s = Inr ((), s') \<and> cache_ok {} s' f xs' e \<and>
    entries s' xs' = lru_evict (entries s xs @
      [(host, port, path, stored_block (c_junk s (c_fresh s)) payload n, n)]) \<and>
    c_fresh s' = c_fresh s + 1 \<and> c_junk s' = c_junk s \<and> (\<exists>old. xs @ [c_fresh s] = old @ xs')"
proof -
  let ?a = "c_fresh s" and ?b = "stored_block (c_junk s (c_fresh s)) payload n"
  obtain s1 where s1: "new_node host port path payload n s = Inr (Ref ?a, s1)"
    "cache_ok {?a} s1 f xs e" "c_fresh s1 = ?a + 1" "c_junk s1 = c_junk s"
    "entries s1 xs = entries s xs" "entry_at s1 ?a = (host, port, path, ?b, n)"
    using new_node_ok [OF ok p, of host port path] by blast
  have sh1: "cache_shape {?a} s1 f xs e" using s1(2) by (simp add: cache_ok_def)
  then obtain nd where nd: "c_heap s1 ?a = Some nd" using shape_members [OF sh1, of ?a] by auto
  have len: "length ?b = length (cstr payload) + 1" using p by (rule length_stored_block)
  have pok: "payload_ok nd" using s1(6) nd stored len p(2) by (auto simp: entry_at_data data_def payload_ok_def)
  have pl: "plen nd \<le> 1049000"
    using s1(6) nd length_cstr_less [OF stored] length_cstr_less [OF p(1)] len room(2)
    by (auto simp: entry_at_data data_def plen_def)
  have "load_of (c_heap s1) xs = lru_load (entries s1 xs)"
    using shape_members [OF sh1] by (intro load_of_entries) blast
  then have ld: "load_of (c_heap s1) xs + plen (the (c_heap s1 ?a)) < 2 ^ 64"
    using room(1) pl nd s1(5) by simp
  obtain s2 where s2: "enqueue (Ref ?a) s1 = Inr ((), s2)" "cache_ok ({?a} - {?a}) s2 f (xs @ [?a]) e"
    "keeps s1 s2" using enqueue_ok [OF s1(2) _ _ ld cnt] nd pok by auto
  have ok2: "cache_ok {} s2 f (xs @ [?a]) e" using s2(2) by simp
  have e2: "entries s2 (xs @ [?a]) = entries s xs @ [(host, port, path, ?b, n)]"
    using keeps_entries [OF s2(3)] s1(5,6) by (metis entries_simps)
  have "length (xs @ [?a]) < Suc (c_fresh s2)"
    using cache_shape_fresh [of "{}" s2 f "xs @ [?a]" e] ok2 by (auto simp: cache_ok_def)
  from evict_ok [OF ok2 this] obtain s' xs' where ev: "evict (Suc (c_fresh s2)) s2 = Inr ((), s')"
    "cache_ok {} s' f xs' e" "entries s' xs' = lru_evict (entries s2 (xs @ [?a]))"
    "c_fresh s' = c_fresh s2" "c_junk s' = c_junk s2" "\<exists>old. xs @ [?a] = old @ xs'" by blast
  have frames: "c_fresh s2 = c_fresh s + 1" "c_junk s2 = c_junk s"
    using s1(3,4) s2(3) by (auto simp: keeps_def)
  have run: "add_cache host port path payload n s =
      (if MAX_CACHE_SIZE < c_load s2 then evict (Suc (c_fresh s2)) s2 else Inr ((), s2))"
    using s1(1) s2(1) by (simp add: add_cache_def bnd_def gets_def ret_def del: evict.simps)
  show ?thesis
  proof (cases "MAX_CACHE_SIZE < c_load s2")
    case True
    with run ev frames e2 show ?thesis by (auto simp del: evict.simps)
  next
    case False
    then have "lru_evict (entries s2 (xs @ [?a])) = entries s2 (xs @ [?a])"
      using load_exceeds [OF ok2] by (intro lru_evict_small) simp
    with run False ok2 frames e2 show ?thesis by auto
  qed
qed

subsection \<open>The cache as its callers see it\<close>

text \<open>The entries, read off the heap by following the links from the front dummy.\<close>

fun chain :: "nat \<Rightarrow> cache \<Rightarrow> ptr \<Rightarrow> nat list" where
  "chain 0 s p = []"
| "chain (Suc k) s p =
     (if p = c_end s then []
      else case p of
        Ref a \<Rightarrow> (case nxt (c_heap s) a of None \<Rightarrow> [] | Some q \<Rightarrow> a # chain k s q)
      | _ \<Rightarrow> [])"

definition contents :: "cache \<Rightarrow> entry list" where
  "contents s = (case load_next (c_front s) s of
     Inl _ \<Rightarrow> [] | Inr (p, _) \<Rightarrow> entries s (chain (Suc (c_fresh s)) s p))"

lemma chain_shape:
  assumes sh: "cache_shape D s f xs e"
  shows "f # xs @ [e] = us @ ys @ [e] \<Longrightarrow> us \<noteq> [] \<Longrightarrow> length ys < k \<Longrightarrow>
     chain k s (Ref (hd (ys @ [e]))) = ys"
proof (induction ys arbitrary: us k)
  case Nil
  then obtain k' where "k = Suc k'" by (cases k) auto
  with sh show ?case by (simp add: cache_shape_def)
next
  case (Cons y ys)
  then obtain k' where k: "k = Suc k'" by (cases k) auto
  have "distinct (us @ (y # ys) @ [e])"
    using sh unfolding cache_shape_def Cons.prems(1) by blast
  then have ye: "y \<noteq> e" by auto
  obtain z zs where z: "ys @ [e] = z # zs" by (cases "ys @ [e]") auto
  have "f # xs @ [e] = us @ y # z # zs" using Cons.prems(1) z by simp
  then have "nxt (c_heap s) y = Some (Ref z)" by (rule shape_next(1) [OF sh])
  moreover have "chain k' s (Ref (hd (ys @ [e]))) = ys"
    using Cons.prems k by (intro Cons.IH [of "us @ [y]"]) auto
  ultimately show ?case using sh ye k z by (simp add: cache_shape_def)
qed

lemma shape_first:
  assumes "cache_shape D s f xs e"
  shows "nxt (c_heap s) f = Some (Ref (hd (xs @ [e])))"
proof -
  obtain z zs where "xs @ [e] = z # zs" by (cases "xs @ [e]") auto
  with shape_next(1) [OF assms, of "[]" f z zs] show ?thesis by simp
qed

lemma contents_shape:
  assumes sh: "cache_shape D s f xs e"
  shows "contents s = entries s xs"
proof -
  have "chain (Suc (c_fresh s)) s (Ref (hd (xs @ [e]))) = xs"
    using cache_shape_fresh [OF sh] by (intro chain_shape [OF sh, of "[f]"]) auto
  with shape_first [OF sh] sh show ?thesis
    by (simp add: contents_def cache_shape_def del: chain.simps)
qed

text \<open>
  A valid cache: well-formed, nothing detached (so nothing leaked), the load within the limit.
\<close>

definition cache_valid :: "cache \<Rightarrow> bool" where
  "cache_valid s \<longleftrightarrow> (\<exists>f xs e. cache_ok {} s f xs e) \<and> lru_load (contents s) \<le> 1049000"

lemma contents_ok: "cache_ok D s f xs e \<Longrightarrow> contents s = entries s xs"
  using contents_shape [of D s f xs e] by (simp add: cache_ok_def)

lemma cache_validI:
  "cache_ok {} s f xs e \<Longrightarrow> lru_load (entries s xs) \<le> 1049000 \<Longrightarrow> cache_valid s"
  using contents_shape [of "{}" s f xs e] by (auto simp: cache_valid_def cache_ok_def)

lemma cache_validE:
  assumes "cache_valid s"
  obtains f xs e where "cache_ok {} s f xs e" "contents s = entries s xs"
    "lru_load (entries s xs) \<le> 1049000"
  using assms contents_shape by (auto simp: cache_valid_def cache_ok_def)

lemma lru_touch_load: "lru_load (lru_touch m es) = lru_load es"
proof (cases "dropWhile (\<lambda>x. \<not> m x) (rev es)")
  case (Cons x older)
  have "rev es = takeWhile (\<lambda>x. \<not> m x) (rev es) @ x # older"
    using Cons by (metis takeWhile_dropWhile_id)
  then have "es = rev older @ x # rev (takeWhile (\<lambda>x. \<not> m x) (rev es))"
    by (metis rev_append rev_rev_ident rev.simps(2) append.assoc append_Cons append_Nil)
  then have "lru_load es = lru_load (rev older @ x # rev (takeWhile (\<lambda>x. \<not> m x) (rev es)))"
    by simp
  then show ?thesis using Cons by (simp add: lru_touch_def Let_def)
next
  case Nil
  then show ?thesis by (simp only: lru_touch_def Let_def list.case)
qed

subsection \<open>The contract of an object cache\<close>

locale object_cache =
  fixes valid :: "'s \<Rightarrow> bool"
    and contents :: "'s \<Rightarrow> entry list"
    and storable :: "'s \<Rightarrow> block \<Rightarrow> nat \<Rightarrow> bool"
    and lookup :: "string \<Rightarrow> string \<Rightarrow> string \<Rightarrow> block \<Rightarrow> ('s, (block \<times> nat) option) cmd"
    and store :: "string \<Rightarrow> string \<Rightarrow> string \<Rightarrow> block \<Rightarrow> nat \<Rightarrow> ('s, unit) cmd"
  assumes lookup_miss: "valid s \<Longrightarrow> lru_find (entry_match h po pa) (contents s) = None \<Longrightarrow>
      lookup h po pa buf s = Inr (None, s)"
    and lookup_hit: "valid s \<Longrightarrow>
      lru_find (entry_match h po pa) (contents s) = Some (h', po', pa', blk, n) \<Longrightarrow>
      n \<le> length buf \<Longrightarrow>
      \<exists>s'. lookup h po pa buf s = Inr (Some (take n blk @ drop n buf, n), s') \<and> valid s' \<and>
        contents s' = lru_touch (entry_match h po pa) (contents s)"
    and store_ok: "valid s \<Longrightarrow> storable s payload n \<Longrightarrow>
      \<exists>s' blk. store h po pa payload n s = Inr ((), s') \<and> valid s' \<and>
        take n blk = take n payload \<and> cstr blk = cstr payload \<and> entry_len (h, po, pa, blk, n) \<le> 1049000 \<and>
        contents s' = lru_evict (contents s @ [(h, po, pa, blk, n)])"
    and contents_fit: "valid s \<Longrightarrow> (h, po, pa, blk, n) \<in> set (contents s) \<Longrightarrow> n \<le> length blk"
begin

text \<open>What was stored last under a key is what a lookup of that key gives.\<close>

lemma found_after_store:
  assumes v: "valid s" and st: "storable s payload n"
    and m: "entry_match h' po' pa' (h, po, pa, [], 0)"
  shows "\<exists>s1 blk. store h po pa payload n s = Inr ((), s1) \<and> valid s1 \<and> take n blk = take n payload \<and>
    contents s1 = lru_evict (contents s @ [(h, po, pa, blk, n)]) \<and>
    lru_find (entry_match h' po' pa') (contents s1) = Some (h, po, pa, blk, n) \<and>
    lru_touch (entry_match h' po' pa') (contents s1) = contents s1"
proof -
  from store_ok [OF v st, of h po pa] obtain s1 blk where s1: "store h po pa payload n s = Inr ((), s1)"
    "valid s1" "take n blk = take n payload" "entry_len (h, po, pa, blk, n) \<le> 1049000"
    "contents s1 = lru_evict (contents s @ [(h, po, pa, blk, n)])" by blast
  obtain es where es: "contents s1 = es @ [(h, po, pa, blk, n)]"
    using lru_evict_keeps_last [OF s1(4), of "contents s"] s1(5) by auto
  have me: "entry_match h' po' pa' (h, po, pa, blk, n)" using m by simp
  then have "lru_find (entry_match h' po' pa') (contents s1) = Some (h, po, pa, blk, n)"
    by (simp only: es lru_find_snoc if_True)
  moreover have "lru_touch (entry_match h' po' pa') (contents s1) = contents s1"
    using lru_touch_split(1) [of "entry_match h' po' pa'" "(h, po, pa, blk, n)" "[]" es] me es by simp
  ultimately show ?thesis using s1 by blast
qed

lemma lookup_after_store:
  assumes v: "valid s" and st: "storable s payload n" and fits: "n \<le> length buf"
    and m: "entry_match h' po' pa' (h, po, pa, [], 0)"
  shows "\<exists>s1 s2. store h po pa payload n s = Inr ((), s1) \<and>
    lookup h' po' pa' buf s1 = Inr (Some (take n payload @ drop n buf, n), s2) \<and> valid s2 \<and>
    contents s2 = contents s1"
proof -
  from found_after_store [OF v st m] obtain s1 blk where s1: "store h po pa payload n s = Inr ((), s1)"
    "valid s1" "take n blk = take n payload"
    "lru_find (entry_match h' po' pa') (contents s1) = Some (h, po, pa, blk, n)"
    "lru_touch (entry_match h' po' pa') (contents s1) = contents s1" by blast
  from lookup_hit [OF s1(2,4) fits] s1 show ?thesis by auto
qed

lemma found_fits:
  assumes "valid s" "lru_find m (contents s) = Some (h, po, pa, blk, n)"
  shows "n \<le> length blk"
proof -
  have "(h, po, pa, blk, n) \<in> set (contents s)"
    using assms(2) find_rev_split [of m "contents s"] by (fastforce simp: lru_find_def)
  then show ?thesis using contents_fit [OF assms(1)] by blast
qed

text \<open>A lookup that hits hits again, with the same answer, and then changes nothing.\<close>

lemma lookup_again:
  assumes v: "valid s" and hit: "lookup h po pa buf s = Inr (Some r, s1)"
    and fits: "\<And>e. e \<in> set (contents s) \<Longrightarrow> snd (snd (snd (snd e))) \<le> length buf"
  shows "\<exists>s2. lookup h po pa buf s1 = Inr (Some r, s2) \<and> valid s2 \<and> contents s2 = contents s1"
proof -
  let ?m = "entry_match h po pa"
  from hit lookup_miss [OF v, of h po pa buf] obtain x where x: "lru_find ?m (contents s) = Some x"
    by (cases "lru_find ?m (contents s)") auto
  obtain h' po' pa' blk n where xd: "x = (h', po', pa', blk, n)" by (cases x) auto
  from x obtain ys zs where sp: "contents s = ys @ x # zs" "?m x" "\<forall>y \<in> set zs. \<not> ?m y"
    using find_rev_split [of ?m "contents s" x] by (auto simp: lru_find_def)
  have n: "n \<le> length buf" using fits [of x] sp(1) xd by auto
  from lookup_hit [OF v x [unfolded xd] n] hit have r: "r = (take n blk @ drop n buf, n)" "valid s1"
    and c: "contents s1 = (ys @ zs) @ [x]"
    using lru_touch_split(1) [OF sp(2,3), of ys] sp(1) by auto
  have f: "lru_find ?m (contents s1) = Some x" using c sp(2) by (simp only: lru_find_snoc if_True)
  from lookup_hit [OF r(2) f [unfolded xd] n] lru_touch_split(1) [of ?m x "[]" "ys @ zs"] sp(2) c r
  show ?thesis by auto
qed

end

subsection \<open>The code's cache satisfies the contract\<close>

text \<open>
  \<open>text_payload s payload n\<close>: the first \<open>n\<close> bytes of a terminated array are text, with a NUL at most as
  the last byte, and the counter of the cache has room.

  \<open>new_node\<close> copies \<open>n\<close> bytes into a block of \<open>strlen(payload) + 1\<close>.  When the text comes without its
  NUL, which is so for every response that ends in a newline, the last byte of the block keeps what
  \<open>malloc\<close> left there.  \<open>ends_copied s payload n\<close>: the stored block ends with a NUL, either because
  one was copied, or because \<open>malloc\<close> happened to leave one.  Only then can the payload be used with
  \<open>strlen\<close>, as \<open>enqueue\<close> does at once.
\<close>

definition text_payload :: "cache \<Rightarrow> block \<Rightarrow> nat \<Rightarrow> bool" where
  "text_payload s payload n \<longleftrightarrow>
     NUL \<in> set payload \<and> length payload \<le> 1049000 \<and> int (length (contents s)) < INT_MAX \<and>
     (n = length (cstr payload) + 1 \<or> n = length (cstr payload))"

definition ends_copied :: "cache \<Rightarrow> block \<Rightarrow> nat \<Rightarrow> bool" where
  "ends_copied s payload n \<longleftrightarrow>
     n = length (cstr payload) + 1 \<or> c_junk s (c_fresh s) (length (cstr payload)) = NUL"

definition storable :: "cache \<Rightarrow> block \<Rightarrow> nat \<Rightarrow> bool" where
  "storable s payload n \<longleftrightarrow> text_payload s payload n \<and> ends_copied s payload n"

lemma storable_iff:
  "storable s payload n \<longleftrightarrow>
     NUL \<in> set payload \<and> length payload \<le> 1049000 \<and> int (length (contents s)) < INT_MAX \<and>
     (n = length (cstr payload) + 1 \<or>
      n = length (cstr payload) \<and> c_junk s (c_fresh s) n = NUL)"
  by (auto simp: storable_def text_payload_def ends_copied_def)

lemma stored_block_cstr:
  assumes "NUL \<in> set payload"
    and "n = length (cstr payload) + 1 \<or> n = length (cstr payload) \<and> junk n = NUL"
  shows "stored_block junk payload n = cstr payload @ [NUL]"
proof -
  obtain rest where "payload = cstr payload @ NUL # rest" using cstr_split [OF assms(1)] ..
  then obtain cs where "payload = cs @ NUL # rest" "NUL \<notin> set cs" by (metis NUL_notin_cstr)
  with assms(2) show ?thesis by (auto simp: stored_block_def)
qed

lemma is_cached_miss_contents:
  assumes "cache_valid s" "lru_find (entry_match h po pa) (contents s) = None"
  shows "is_cached h po pa buf s = Inr (None, s)"
  using assms is_cached_miss by (auto elim!: cache_validE)

lemma is_cached_hit_contents:
  assumes v: "cache_valid s"
    and hit: "lru_find (entry_match h po pa) (contents s) = Some (h', po', pa', blk, n)"
    and fits: "n \<le> length buf"
  shows "\<exists>s'. is_cached h po pa buf s = Inr (Some (take n blk @ drop n buf, n), s') \<and>
    cache_valid s' \<and> contents s' = lru_touch (entry_match h po pa) (contents s)"
proof -
  from v obtain f xs e where ok: "cache_ok {} s f xs e" and c: "contents s = entries s xs"
    and l: "lru_load (entries s xs) \<le> 1049000" by (rule cache_validE)
  from is_cached_hit [OF ok hit [unfolded c] fits] obtain s' xs' where
    r: "is_cached h po pa buf s = Inr (Some (take n blk @ drop n buf, n), s')"
    "cache_ok {} s' f xs' e" "entries s' xs' = lru_touch (entry_match h po pa) (entries s xs)"
    by blast
  have "contents s' = entries s' xs'" using r(2) by (rule contents_ok)
  moreover have "cache_valid s'" using r l lru_touch_load by (intro cache_validI [OF r(2)]) simp
  ultimately show ?thesis using r c by auto
qed

lemma add_cache_contents:
  assumes v: "cache_valid s" and st: "storable s payload n"
  shows "\<exists>s' blk. add_cache h po pa payload n s = Inr ((), s') \<and> cache_valid s' \<and>
    take n blk = take n payload \<and> cstr blk = cstr payload \<and> entry_len (h, po, pa, blk, n) \<le> 1049000 \<and>
    contents s' = lru_evict (contents s @ [(h, po, pa, blk, n)])"
proof -
  let ?b = "cstr payload @ [NUL]"
  from v obtain f xs e where ok: "cache_ok {} s f xs e" and c: "contents s = entries s xs"
    and l: "lru_load (entries s xs) \<le> 1049000" by (rule cache_validE)
  from st have p: "NUL \<in> set payload" "n \<le> length (cstr payload) + 1" "length payload \<le> 1049000"
    "int (length xs) < INT_MAX"
    and blk: "stored_block (c_junk s (c_fresh s)) payload n = ?b"
    using stored_block_cstr [of payload n "c_junk s (c_fresh s)"] c by (auto simp: storable_iff)
  have "\<exists>s' xs'. add_cache h po pa payload n s = Inr ((), s') \<and> cache_ok {} s' f xs' e \<and>
    entries s' xs' = lru_evict (entries s xs @ [(h, po, pa, ?b, n)])"
    using add_cache_ok [OF ok p(1,2) _ p(4) l p(3), of h po pa] blk by auto
  then obtain s' xs' where r: "add_cache h po pa payload n s = Inr ((), s')" "cache_ok {} s' f xs' e"
    "entries s' xs' = lru_evict (entries s xs @ [(h, po, pa, ?b, n)])" by blast
  have v': "cache_valid s'" using r(3) lru_evict_load by (intro cache_validI [OF r(2)]) simp
  have c': "contents s' = entries s' xs'" using r(2) by (rule contents_ok)
  obtain rest where rest: "payload = cstr payload @ NUL # rest" using cstr_split [OF p(1)] ..
  have "take n (cstr payload @ NUL # rest) = take n ?b" using p(2) by (simp add: take_Cons')
  then have "take n ?b = take n payload" using rest by simp
  moreover have "cstr ?b = cstr payload" by simp
  moreover have "entry_len (h, po, pa, ?b, n) \<le> 1049000" using p(3) length_cstr_le [of payload] by simp
  ultimately show ?thesis using r c c' v' by (intro exI [of _ s'] exI [of _ ?b]) simp
qed

text \<open>
  Text that is stored without its NUL, in a block where \<open>malloc\<close> left none: \<open>enqueue\<close> reads past it.
\<close>

lemma stored_block_unterminated:
  assumes "NUL \<in> set payload" "n \<le> length (cstr payload)"
    and "\<forall>i \<in> {n..length (cstr payload)}. junk i \<noteq> NUL"
  shows "NUL \<notin> set (stored_block junk payload n)"
proof -
  obtain rest where "payload = cstr payload @ NUL # rest" using cstr_split [OF assms(1)] ..
  then have "take n payload = take n (cstr payload)" using assms(2) by (metis append_eq_conv_conj take_append diff_is_0_eq' take0 append_Nil2)
  then have "NUL \<notin> set (take n payload)" using NUL_notin_cstr [of payload] in_set_takeD by metis
  then show ?thesis using assms(3) by (auto simp: stored_block_def simp del: upt_Suc)
qed

lemma add_cache_overread:
  assumes v: "cache_valid s" and p: "text_payload s payload n" "\<not> ends_copied s payload n"
  shows "add_cache h po pa payload n s = Inl Overread"
proof -
  from v obtain f xs e where ok: "cache_ok {} s f xs e" and c: "contents s = entries s xs"
    by (rule cache_validE)
  let ?a = "c_fresh s" and ?b = "stored_block (c_junk s (c_fresh s)) payload n"
  from p have q: "NUL \<in> set payload" "n \<le> length (cstr payload) + 1" "n = length (cstr payload)"
    "int (length xs) < INT_MAX" "c_junk s ?a n \<noteq> NUL"
    using c by (auto simp: text_payload_def ends_copied_def)
  obtain s1 where s1: "new_node h po pa payload n s = Inr (Ref ?a, s1)" "cache_ok {?a} s1 f xs e"
    "entry_at s1 ?a = (h, po, pa, ?b, n)" using new_node_ok [OF ok q(1,2), of h po pa] by blast
  have sh1: "cache_shape {?a} s1 f xs e" using s1(2) by (simp add: cache_ok_def)
  then obtain nd where nd: "c_heap s1 ?a = Some nd" using shape_members [OF sh1, of ?a] by auto
  have "NUL \<notin> set ?b" using q by (intro stored_block_unterminated) auto
  then have "NUL \<notin> set (cn_payload (the (c_heap s1 ?a)))" using s1(3) nd by (simp add: entry_at_data data_def)
  then have "enqueue (Ref ?a) s1 = Inl Overread"
    using enqueue_unterminated [OF s1(2) _ _ q(4), of ?a] by simp
  then show ?thesis using s1(1) by (simp add: add_cache_def bnd_def)
qed

lemma add_cache_overflow:
  assumes "NUL \<in> set payload" "length (cstr payload) + 1 < n" "n \<le> length payload"
  shows "add_cache h po pa payload n s = Inl Overflow"
  using new_node_overflow [OF assms] by (simp add: add_cache_def bnd_def)

lemma cache_contents_fit:
  assumes "cache_valid s" "(h, po, pa, blk, n) \<in> set (contents s)"
  shows "n \<le> length blk"
proof -
  from assms(1) obtain f xs e where ok: "cache_ok {} s f xs e" and c: "contents s = entries s xs"
    by (rule cache_validE)
  from assms(2) c obtain a where a: "a \<in> set xs" "entry_at s a = (h, po, pa, blk, n)"
    by (auto simp: entries_def)
  have sh: "cache_shape {} s f xs e" using ok by (simp add: cache_ok_def)
  obtain nd where nd: "c_heap s a = Some nd" using shape_members [OF sh] a(1) by auto
  then have "payload_ok nd" using ok a(1) by (auto simp: cache_ok_def cache_nums_def)
  then show ?thesis using entry_at_data [OF nd] a(2) by (simp add: payload_ok_def data_def)
qed

interpretation lru: object_cache cache_valid contents storable is_cached add_cache
  by unfold_locales
    (fact is_cached_miss_contents is_cached_hit_contents add_cache_contents cache_contents_fit)+

end
