(* ===== verification/Cache_Use.thy ===== *)
theory Cache_Use
  imports Cache_Lru
begin

section \<open>The LRU cache over its life: creation, printing, races and destruction\<close>

text \<open>
  \<open>cache_init\<close> sets up a valid empty cache.  \<open>print_cache\<close> walks the entries from the oldest to the
  youngest.  The search of \<open>is_cached\<close> and its use of the node it found are two critical sections;
  an insertion of another thread that comes between them can free the node.  \<open>cache_destroy\<close> frees
  every node, and the globals keep pointing to the freed dummies.
\<close>

subsection \<open>Creation\<close>

lemma cache_init_run:
  "cache_init s = Inr ((), s\<lparr>c_load := 0, c_count := 0, c_front := Ref (c_fresh s),
     c_end := Ref (c_fresh s + 1), c_fresh := c_fresh s + 2, rw_readcnt := 0, rw_w := 1, rw_mutex := 1,
     c_heap := (c_heap s)
       (c_fresh s \<mapsto> \<lparr>cn_host = [], cn_port = [], cn_path = [],
          cn_payload = [c_junk s (c_fresh s) 0], cn_bytesize = 0,
          cn_prev = Null, cn_next = Ref (c_fresh s + 1)\<rparr>,
        c_fresh s + 1 \<mapsto> \<lparr>cn_host = [], cn_port = [], cn_path = [],
          cn_payload = [c_junk s (c_fresh s + 1) 0], cn_bytesize = 0,
          cn_prev = Ref (c_fresh s), cn_next = Null\<rparr>)\<rparr>)"
  by (simp add: cache_init_def bnd_def modify_def new_node_run stored_block_def hset_next_def
      hset_prev_def fun_upd_twist)

lemma cache_init_ok:
  assumes "c_heap s = Map.empty" "cache_init s = Inr ((), s')"
  shows "cache_ok {} s' (c_fresh s) [] (c_fresh s + 1)"
  using assms
  by (auto simp: cache_init_run cache_ok_def cache_shape_def cache_nums_def nxt_def prv_def
      rw_free_def INT_MAX_def split: if_splits)

lemma cache_init_valid:
  assumes "c_heap s = Map.empty"
  shows "\<exists>s'. cache_init s = Inr ((), s') \<and> cache_valid s' \<and> contents s' = []"
proof -
  obtain s' where s': "cache_init s = Inr ((), s')" by (simp add: cache_init_run)
  have ok: "cache_ok {} s' (c_fresh s) [] (c_fresh s + 1)" by (rule cache_init_ok [OF assms s'])
  have "contents s' = []" using contents_ok [OF ok] by simp
  moreover have "cache_valid s'" by (rule cache_validI [OF ok]) simp
  ultimately show ?thesis using s' by blast
qed

subsection \<open>Printing\<close>

fun entry_line :: "entry \<Rightarrow> string" where
  "entry_line (h, po, pa, blk, n) =
     ''('' @ h @ '', '' @ po @ '', '' @ pa @ '') => payload size ('' @ dec_digits n @ '')'' @ [LF]"

lemma print_walk_shape:
  assumes sh: "cache_shape D s f xs e"
  shows "f # xs @ [e] = us @ ys @ [e] \<Longrightarrow> us \<noteq> [] \<Longrightarrow> length ys < k \<Longrightarrow>
     print_walk k (Ref (hd (ys @ [e]))) s = Inr (map entry_line (entries s ys), s)"
proof (induction ys arbitrary: us k)
  case Nil
  then obtain k' where "k = Suc k'" by (cases k) auto
  with sh show ?case by (simp add: cache_shape_def bnd_def gets_def ret_def)
next
  case (Cons y ys)
  then obtain k' where k: "k = Suc k'" by (cases k) auto
  have "distinct (us @ (y # ys) @ [e])"
    using sh unfolding cache_shape_def Cons.prems(1) by blast
  then have ye: "y \<noteq> e" by auto
  have "y \<in> set (f # xs @ [e])" unfolding Cons.prems(1) by simp
  then obtain nd where nd: "c_heap s y = Some nd" using shape_members [OF sh] by auto
  obtain z zs where z: "ys @ [e] = z # zs" by (cases "ys @ [e]") auto
  have "f # xs @ [e] = us @ y # z # zs" using Cons.prems(1) z by simp
  then have "nxt (c_heap s) y = Some (Ref z)" by (rule shape_next(1) [OF sh])
  then have next_y: "cn_next nd = Ref z" using nd by (simp add: nxt_def)
  have "print_walk k' (Ref (hd (ys @ [e]))) s = Inr (map entry_line (entries s ys), s)"
    using Cons.prems k by (intro Cons.IH [of "us @ [y]"]) auto
  then show ?case using sh ye k z nd next_y entry_at_data [OF nd]
    by (simp add: cache_shape_def bnd_def gets_def ret_def data_def)
qed

lemma print_cache_lines:
  assumes "cache_valid s"
  shows "print_cache s =
    Inr ((''=============== CACHE Queue ==============='' @ [LF]) # map entry_line (contents s), s)"
proof -
  from assms obtain f xs e where ok: "cache_ok {} s f xs e" and c: "contents s = entries s xs"
    by (rule cache_validE)
  from ok have sh: "cache_shape {} s f xs e" by (simp add: cache_ok_def)
  have "print_walk (Suc (c_fresh s)) (Ref (hd (xs @ [e]))) s = Inr (map entry_line (entries s xs), s)"
    using cache_shape_fresh [OF sh] by (intro print_walk_shape [OF sh, of "[f]"]) auto
  moreover have "load_next (c_front s) s = Inr (Ref (hd (xs @ [e])), s)"
    using shape_first [OF sh] sh by (simp add: cache_shape_def)
  ultimately show ?thesis using c by (simp add: print_cache_def bnd_def gets_def ret_def del: print_walk.simps)
qed

subsection \<open>A node that is freed between its discovery and its use\<close>

lemma cache_use_dangling:
  "c_heap s a = None \<Longrightarrow> rw_free s \<Longrightarrow> cache_use (Ref a) buf s = Inl Use_after_free"
  by (simp add: cache_use_def update_def pre_write_free load_prev_def bnd_def)

lemma evicted_between:
  assumes v: "cache_valid s" and st: "storable s payload n"
    and c: "contents s = x # es"
    and hit: "entry_match h po pa x" "\<forall>y \<in> set es. \<not> entry_match h po pa y"
    and full: "1049000 < lru_load (x # es) + length (cstr payload)"
  shows "\<exists>p s'. cache_search h po pa s = Inr (Some p, s) \<and>
    add_cache h' po' pa' payload n s = Inr ((), s') \<and>
    (\<forall>buf. cache_use p buf s' = Inl Use_after_free)"
proof -
  let ?b = "cstr payload @ [NUL]" and ?m = "entry_match h po pa"
  from v obtain f xs e where ok: "cache_ok {} s f xs e" and cs: "contents s = entries s xs"
    and l: "lru_load (entries s xs) \<le> 1049000" by (rule cache_validE)
  from cs c obtain a as where xs: "xs = a # as" "entry_at s a = x" "entries s as = es"
    by (cases xs) auto
  from st have p: "NUL \<in> set payload" "n \<le> length (cstr payload) + 1" "length payload \<le> 1049000"
    "int (length xs) < INT_MAX"
    and blk: "stored_block (c_junk s (c_fresh s)) payload n = ?b"
    using stored_block_cstr [of payload n "c_junk s (c_fresh s)"] cs by (auto simp: storable_iff)
  have "\<exists>s' xs'. add_cache h' po' pa' payload n s = Inr ((), s') \<and> cache_ok {} s' f xs' e \<and>
    entries s' xs' = lru_evict (entries s xs @ [(h', po', pa', ?b, n)]) \<and>
    (\<exists>old. xs @ [c_fresh s] = old @ xs')"
    using add_cache_ok [OF ok p(1,2) _ p(4) l p(3), of h' po' pa'] blk by auto
  then obtain s' xs' old where r: "add_cache h' po' pa' payload n s = Inr ((), s')"
    "cache_ok {} s' f xs' e" "entries s' xs' = lru_evict (entries s xs @ [(h', po', pa', ?b, n)])"
    "xs @ [c_fresh s] = old @ xs'" by blast
  have "lru_load (entries s xs) = lru_load (x # es)" using cs c by simp
  then have "entries s' xs' \<noteq> entries s xs @ [(h', po', pa', ?b, n)]"
    using full r(3) lru_evict_load [of "entries s xs @ [(h', po', pa', ?b, n)]"] by auto
  moreover have "lru_evict (entries s xs @ [(h', po', pa', ?b, n)]) =
      lru_evict (entries s as @ [(h', po', pa', ?b, n)])"
    using full xs by simp
  moreover obtain o2 where "entries s as @ [(h', po', pa', ?b, n)] =
      o2 @ lru_evict (entries s as @ [(h', po', pa', ?b, n)])" using lru_evict_suffix by blast
  ultimately have "length (entries s' xs') \<le> length (entries s as @ [(h', po', pa', ?b, n)])"
    using r(3) by (metis length_append le_add2)
  moreover have "length es = length as" using xs(3) by (metis entries_simps(4))
  ultimately have "length xs' < length (xs @ [c_fresh s])" using xs by simp
  then have "old \<noteq> []" using r(4) by auto
  then have "a \<in> set old" using r(4) xs by (cases old) auto
  have sh: "cache_shape {} s f xs e" and sh': "cache_shape {} s' f xs' e" and free: "rw_free s'"
    using ok r(2) by (auto simp: cache_ok_def)
  have "c_fresh s \<noteq> a" using sh xs by (force simp: cache_shape_def)
  then have "distinct (xs @ [c_fresh s])" using sh by (force simp: cache_shape_def)
  then have "a \<notin> set xs'" using \<open>a \<in> set old\<close> unfolding r(4) by auto
  moreover have "a \<noteq> f" "a \<noteq> e" using sh xs by (auto simp: cache_shape_def)
  ultimately have "c_heap s' a = None" using sh' by (auto simp: cache_shape_def)
  then have "cache_use (Ref a) buf s' = Inl Use_after_free" for buf using free by (rule cache_use_dangling)
  moreover have "List.find (\<lambda>a. ?m (entry_at s a)) (rev xs) = Some a"
  proof -
    have "List.find (\<lambda>a. ?m (entry_at s a)) (rev as) = None"
      using hit(2) xs(3) by (intro find_all_not) (auto simp: entries_def)
    then show ?thesis using xs hit(1) by (simp add: find_append)
  qed
  ultimately show ?thesis using cache_search_ok [OF ok, of h po pa] r(1) by auto
qed

subsection \<open>Destruction\<close>

lemma destroy_walk_chain:
  "(\<And>i. Suc i < length as \<Longrightarrow> nxt h (as ! i) = Some (Ref (as ! Suc i))) \<Longrightarrow>
   as \<noteq> [] \<longrightarrow> nxt h (last as) = Some Null \<Longrightarrow>
   distinct as \<Longrightarrow> length as < k \<Longrightarrow> \<forall>a \<in> set as. c_heap s a = h a \<Longrightarrow>
   destroy_walk k (if as = [] then Null else Ref (hd as)) s =
     Inr ((), s\<lparr>c_heap := (\<lambda>a. if a \<in> set as then None else c_heap s a)\<rparr>)"
proof (induction as arbitrary: k s)
  case Nil
  then obtain k' where "k = Suc k'" by (cases k) auto
  then show ?case by (simp add: ret_def)
next
  case (Cons a as)
  then obtain k' where k: "k = Suc k'" by (cases k) auto
  let ?q = "if as = [] then Null else Ref (hd as)"
  let ?s1 = "s\<lparr>c_heap := (c_heap s)(a := None)\<rparr>"
  have na: "nxt h a = Some ?q"
    using Cons.prems(1) [of 0] Cons.prems(2) by (cases as) auto
  then obtain nd where nd: "c_heap s a = Some nd" "cn_next nd = ?q"
    using Cons.prems(5) by (auto simp: nxt_def)
  have step: "destroy_walk k (Ref a) s = destroy_walk k' ?q ?s1"
    using k nd by (simp add: load_next_def bnd_def ret_def)
  have "destroy_walk k' ?q ?s1 =
      Inr ((), ?s1\<lparr>c_heap := (\<lambda>b. if b \<in> set as then None else c_heap ?s1 b)\<rparr>)"
  proof (rule Cons.IH)
    show "nxt h (as ! i) = Some (Ref (as ! Suc i))" if "Suc i < length as" for i
      using Cons.prems(1) [of "Suc i"] that by simp
  qed (use Cons.prems k in auto)
  then show ?case by (simp add: step) (simp add: fun_eq_iff)
qed

lemma cache_destroy_ok:
  assumes "cache_valid s"
  shows "\<exists>s'. cache_destroy s = Inr ((), s') \<and> c_heap s' = Map.empty \<and> c_load s' = 0 \<and> c_count s' = 0 \<and>
    rw_free s' \<and> c_front s' = c_front s \<and> c_end s' = c_end s \<and> c_fresh s' = c_fresh s"
proof -
  from assms obtain f xs e where ok: "cache_ok {} s f xs e" by (rule cache_validE)
  let ?s = "with_writer s" and ?as = "f # xs @ [e]"
  from ok have free: "rw_free s" and sh: "cache_shape {} s f xs e" by (auto simp: cache_ok_def)
  have "destroy_walk (Suc (c_fresh s)) (if ?as = [] then Null else Ref (hd ?as)) ?s =
      Inr ((), ?s\<lparr>c_heap := (\<lambda>a. if a \<in> set ?as then None else c_heap ?s a)\<rparr>)"
  proof (rule destroy_walk_chain [where h = "c_heap s"])
    show "nxt (c_heap s) (?as ! i) = Some (Ref (?as ! Suc i))" if "Suc i < length ?as" for i
      using that by (intro shape_next(1) [OF sh, of "take i ?as" _ _ "drop (Suc (Suc i)) ?as"])
        (metis Cons_nth_drop_Suc Suc_lessD append_take_drop_id)
  qed (use sh cache_shape_fresh [OF sh] in \<open>auto simp: cache_shape_def\<close>)
  moreover have "(\<lambda>a. if a \<in> set ?as then None else c_heap ?s a) = Map.empty"
    using sh by (auto simp: cache_shape_def fun_eq_iff)
  ultimately have "destroy_walk (Suc (c_fresh s)) (Ref f) ?s = Inr ((), ?s\<lparr>c_heap := Map.empty\<rparr>)"
    by (simp only: list.sel list.distinct if_False)
  with free sh show ?thesis
    by (simp add: cache_destroy_def bnd_def gets_def modify_def pre_write_free post_write_writer
        cache_shape_def rw_free_def del: destroy_walk.simps)
qed

text \<open>Every later call of a worker that is still running uses freed memory.\<close>

lemma after_destroy:
  assumes "c_heap s = Map.empty" "rw_free s" "c_front s = Ref f" "c_end s = Ref e" "e \<noteq> c_fresh s"
  shows "is_cached h po pa buf s = Inl Use_after_free"
    "NUL \<in> set payload \<Longrightarrow> n \<le> length (cstr payload) + 1 \<Longrightarrow>
       add_cache h po pa payload n s = Inl Use_after_free"
    "cache_destroy s = Inl Use_after_free"
  using assms
  by (simp_all add: is_cached_def cache_search_def add_cache_def new_node_run enqueue_def is_empty_def
      cache_destroy_def load_next_def load_prev_def bnd_def gets_def pre_read_free pre_write_free
      rw_free_def)

lemma destroyed_cache_unusable:
  assumes "cache_valid s"
  shows "\<exists>s'. cache_destroy s = Inr ((), s') \<and> c_heap s' = Map.empty \<and>
    (\<forall>h po pa buf. is_cached h po pa buf s' = Inl Use_after_free) \<and>
    (\<forall>h po pa payload n. NUL \<in> set payload \<and> n \<le> length (cstr payload) + 1 \<longrightarrow>
       add_cache h po pa payload n s' = Inl Use_after_free)"
proof -
  from assms obtain f xs e where ok: "cache_ok {} s f xs e" by (rule cache_validE)
  then have "c_front s = Ref f" "c_end s = Ref e" "e \<noteq> c_fresh s"
    by (force simp: cache_ok_def cache_shape_def)+
  with cache_destroy_ok [OF assms] after_destroy show ?thesis by (metis (no_types, lifting))
qed

end
