(* ===== verification/Worker_Spec.thy ===== *)
theory Worker_Spec
  imports Relay_Spec Cache_Use
begin

section \<open>Transactions from end to end\<close>

subsection \<open>The request line and the header lines\<close>

lemma scan_str_gap:
  assumes "scan_str t = Some (w, t')" "scan_str t' = Some (v, t'')"
  shows "length v + length t'' + 1 \<le> length t'"
proof -
  have t': "t' = dropWhile (\<lambda>c. \<not> isspace c) (dropWhile isspace t)" "t' \<noteq> []"
    using assms by (auto simp: scan_str_def Let_def split: if_splits)
  then have sp: "isspace (hd t')" using hd_dropWhile by force
  let ?r = "dropWhile isspace t'"
  have "v = takeWhile (\<lambda>c. \<not> isspace c) ?r" "t'' = dropWhile (\<lambda>c. \<not> isspace c) ?r"
    using assms(2) by (auto simp: scan_str_def Let_def split: if_splits)
  then have "length v + length t'' = length ?r" by (metis length_append takeWhile_dropWhile_id)
  moreover have "length ?r < length t'"
    using sp t'(2) length_dropWhile_le [of isspace "tl t'"] by (cases t') auto
  ultimately show ?thesis by simp
qed

lemma three_words_length:
  assumes "scan_words 3 t = [m, u, p]"
  shows "length m + length u + length p + 2 \<le> length t"
proof -
  from assms obtain t1 t2 t3 where
    s: "scan_str t = Some (m, t1)" "scan_str t1 = Some (u, t2)" "scan_str t2 = Some (p, t3)"
    by (auto simp: numeral_3_eq_3 split: option.splits)
  with scan_str_gap [OF s(1,2)] scan_str_gap [OF s(2,3)] scan_str_Some(2) [OF s(1)] show ?thesis by simp
qed

text \<open>
  The client on \<open>connfd\<close> asks for an object: its first line is a valid request for host \<open>h\<close>,
  port \<open>po\<close> and path \<open>pa\<close>.
\<close>

definition valid_line :: "string \<Rightarrow> string \<Rightarrow> string \<Rightarrow> string \<Rightarrow> bool" where
  "valid_line l h po pa \<longleftrightarrow> NUL \<notin> set l \<and> length l \<le> 8191 \<and>
     (\<exists>m u p sc pd pq. scan_words 3 l = [m, u, p] \<and> strcasecmp0 m ''GET'' \<and>
       (strcasecmp0 p ''HTTP/1.0'' \<or> strcasecmp0 p ''HTTP/1.1'') \<and>
       u = uri_text sc h pd pq \<and> strcasecmp0 sc ''http'' \<and> uri_parts_ok h pd pq \<and>
       po = (case pd of None \<Rightarrow> ''80'' | Some d \<Rightarrow> d) \<and> pa = (if pq = [] then ''/'' else pq))"

definition requests :: "os \<Rightarrow> int \<Rightarrow> string \<Rightarrow> string \<Rightarrow> string \<Rightarrow> bool" where
  "requests s connfd h po pa \<longleftrightarrow> connfd \<in> os_open s \<and> clean (os_in s connfd) \<and>
     draining (os_wr s connfd) \<and> valid_line (get_line 8191 (tape (os_in s connfd))) h po pa"

text \<open>A valid request always fits the buffer in which it is forwarded.\<close>

lemma valid_line_fits:
  assumes "valid_line l h po pa"
  shows "length pa + 15 < 8192" "length h + 8 < 8192"
proof -
  from assms obtain m u p sc pd pq where v: "scan_words 3 l = [m, u, p]" "strcasecmp0 m ''GET''"
    "strcasecmp0 p ''HTTP/1.0'' \<or> strcasecmp0 p ''HTTP/1.1''" "u = uri_text sc h pd pq"
    "strcasecmp0 sc ''http''" "pa = (if pq = [] then ''/'' else pq)" "length l \<le> 8191"
    by (auto simp: valid_line_def)
  have "length m = 3" "length p = 8" "length sc = 4" using v(2,3,5) by (auto dest!: strcasecmp0_length)
  moreover have "length m + length u + length p + 2 \<le> length l" using v(1) by (rule three_words_length)
  moreover have "length sc + 3 + length h + length pq \<le> length u" using v(4) by (simp add: uri_text_def)
  ultimately show "length pa + 15 < 8192" "length h + 8 < 8192" using v(6,7) by auto
qed

lemma in_os_Inr: "m (w_os w) = Inr (x, s') \<Longrightarrow> in_os m w = Inr (x, w\<lparr>w_os := s'\<rparr>)"
  by (simp add: in_os_def)

lemma in_cache_Inr: "m (w_cache w) = Inr (x, s') \<Longrightarrow> in_cache m w = Inr (x, w\<lparr>w_cache := s'\<rparr>)"
  by (simp add: in_cache_def)

lemma in_os_Inl: "m (w_os w) = Inl e \<Longrightarrow> in_os m w = Inl e"
  by (simp add: in_os_def)

lemma in_cache_Inl: "m (w_cache w) = Inl e \<Longrightarrow> in_cache m w = Inl e"
  by (simp add: in_cache_def)

lemma worker_reads_line:
  assumes "connfd \<in> os_open (w_os w)" "clean (os_in (w_os w) connfd)"
    and l: "l = get_line 8191 (tape (os_in (w_os w) connfd))" "l \<noteq> []" "NUL \<notin> set l"
  shows "\<exists>nio s1. worker_main junk connfd w =
     bnd (in_os (parse_request junk connfd l (replicate MAXLINE NUL) (replicate MAXLINE NUL)
       (replicate MAXLINE NUL))) (\<lambda>(ok, host, port, path).
     if \<not> ok then ret () else serve junk connfd nio host port path) (w\<lparr>w_os := s1\<rparr>) \<and>
    readable nio s1 \<and> nio_fd nio = connfd \<and> reads connfd (w_os w) s1 \<and>
    tape (os_in (w_os w) connfd) = l @ stream nio s1"
proof -
  let ?s = "w_os w" and ?rp = "local_nio junk ''nio'' connfd" and ?buf = "local_array junk ''request'' MAXLINE"
  note rp = local_nio_readable [OF assms(1,2), of junk "''nio''"]
  have ne: "stream ?rp ?s \<noteq> []" "l = get_line (MAXLINE - 1) (stream ?rp ?s)"
    using l rp(2) by (auto simp: MAXLINE_def)
  from nio_readlineb_line [OF rp(1) _ _ _ ne, of ?buf] obtain rp1 s1 where
    r: "nio_readlineb ?rp ?buf MAXLINE ?s =
          Inr ((int (line_ret l), l @ NUL # drop (length l + 1) ?buf, rp1), s1)"
       "readable rp1 s1" "stream ?rp ?s = l @ stream rp1 s1" "nio_fd rp1 = nio_fd ?rp"
       "reads (nio_fd ?rp) ?s s1" by (auto simp: MAXLINE_def)
  have ll: "length l \<le> 8191" using l(1) get_line_length by simp
  have n: "to_size (int (line_ret l)) \<noteq> 0" using ll l(2) by (simp add: line_ret_def SIZE_MOD_def)
  have c: "c_str (l @ NUL # drop (length l + 1) ?buf) = Inr l" using l(3) by (simp add: c_str_def)
  have "worker_main junk connfd w =
     bnd (in_os (parse_request junk connfd l (replicate MAXLINE NUL) (replicate MAXLINE NUL)
       (replicate MAXLINE NUL))) (\<lambda>(ok, host, port, path).
     if \<not> ok then ret () else serve junk connfd rp1 host port path) (w\<lparr>w_os := s1\<rparr>)"
    unfolding worker_main_def
    by (simp only: bnd_Inr in_os_Inr r(1) prod.case n if_False c bnd_lift_res)
  with r rp show ?thesis by (auto simp: rp)
qed

lemma worker_request:
  assumes req: "requests (w_os w) connfd h po pa"
  shows "\<exists>nio s1 hb pb qb. worker_main junk connfd w = serve junk connfd nio hb pb qb (w\<lparr>w_os := s1\<rparr>) \<and>
    readable nio s1 \<and> nio_fd nio = connfd \<and> reads connfd (w_os w) s1 \<and>
    c_str hb = Inr h \<and> c_str pb = Inr po \<and> c_str qb = Inr pa"
proof -
  let ?l = "get_line 8191 (tape (os_in (w_os w) connfd))"
  from req have fd: "connfd \<in> os_open (w_os w)" "clean (os_in (w_os w) connfd)"
    and v: "valid_line ?l h po pa" by (auto simp: requests_def)
  from v obtain m u p sc pd pq where v': "scan_words 3 ?l = [m, u, p]" "strcasecmp0 m ''GET''"
    "strcasecmp0 p ''HTTP/1.0'' \<or> strcasecmp0 p ''HTTP/1.1''" "u = uri_text sc h pd pq"
    "strcasecmp0 sc ''http''" "uri_parts_ok h pd pq" "po = (case pd of None \<Rightarrow> ''80'' | Some d \<Rightarrow> d)"
    "pa = (if pq = [] then ''/'' else pq)" "NUL \<notin> set ?l" "length ?l \<le> 8191"
    by (auto simp: valid_line_def)
  have "?l \<noteq> []"
  proof
    assume "?l = []"
    with v'(1) have "scan_words 3 [] = [m, u, p]" by (simp only:)
    then show False by (simp add: numeral_3_eq_3 scan_str_def)
  qed
  from worker_reads_line [OF fd refl this v'(9), of junk] obtain nio s1 where
    w: "worker_main junk connfd w =
     bnd (in_os (parse_request junk connfd ?l (replicate MAXLINE NUL) (replicate MAXLINE NUL)
       (replicate MAXLINE NUL))) (\<lambda>(ok, host, port, path).
     if \<not> ok then ret () else serve junk connfd nio host port path) (w\<lparr>w_os := s1\<rparr>)"
    "readable nio s1" "nio_fd nio = connfd" "reads connfd (w_os w) s1" by blast
  have "length ?l < MAXLINE" using v'(10) by (simp add: MAXLINE_def)
  from parse_request_accepts [OF v'(1) this v'(9) v'(2-6), of junk connfd s1] v'(7,8)
  obtain hb pb qb where p: "parse_request junk connfd ?l (replicate MAXLINE NUL) (replicate MAXLINE NUL)
      (replicate MAXLINE NUL) s1 = Inr ((True, hb, pb, qb), s1)"
    "c_str hb = Inr h" "c_str pb = Inr po" "c_str qb = Inr pa" by auto
  have "worker_main junk connfd w = serve junk connfd nio hb pb qb (w\<lparr>w_os := s1\<rparr>)"
    using p(1) unfolding w(1) by (simp add: in_os_def zoom_def bnd_def)
  with w p show ?thesis by blast
qed

text \<open>One call of \<open>nio_readlineb\<close> on a regular stream, at its end or not.\<close>

lemma nio_readlineb_any:
  assumes "readable rp s" "length buf = 8192"
  defines "l \<equiv> get_line 8191 (stream rp s)"
  shows "\<exists>rc buf1 rp1 s1. nio_readlineb rp buf MAXLINE s = Inr ((rc, buf1, rp1), s1) \<and>
    readable rp1 s1 \<and> stream rp s = l @ stream rp1 s1 \<and> nio_fd rp1 = nio_fd rp \<and>
    reads (nio_fd rp) s s1 \<and> length buf1 = 8192 \<and>
    buf1 = (if l = [] then buf else l @ NUL # drop (length l + 1) buf)"
proof (cases "stream rp s = []")
  case True
  then have "l = []" by (simp add: l_def)
  with True nio_readlineb_eof [OF assms(1) _ True, of MAXLINE buf] assms(2) show ?thesis
    by (auto simp: MAXLINE_def)
next
  case False
  then have l: "l \<noteq> []" "length l \<le> 8191" using get_line_length by (auto simp: l_def)
  have "l = get_line (MAXLINE - 1) (stream rp s)" by (simp add: l_def MAXLINE_def)
  from nio_readlineb_line [OF assms(1) _ _ _ False this, of buf] assms(2) obtain rp1 s1 where
    "nio_readlineb rp buf MAXLINE s = Inr ((int (line_ret l), l @ NUL # drop (length l + 1) buf, rp1), s1)"
    "readable rp1 s1" "stream rp s = l @ stream rp1 s1" "nio_fd rp1 = nio_fd rp" "reads (nio_fd rp) s s1"
    by (auto simp: MAXLINE_def)
  moreover have "length (l @ NUL # drop (length l + 1) buf) = 8192" using l(2) assms(2) by simp
  ultimately show ?thesis using l(1) by auto
qed

text \<open>
  \<open>read_request_header\<close> takes at most two lines of the stream, however many header lines there are.
\<close>

lemma read_request_header_two_lines:
  assumes "readable rp s"
  defines "l1 \<equiv> get_line 8191 (stream rp s)"
  shows "\<exists>rp1 s1 l2. read_request_header junk rp s = Inr (rp1, s1) \<and> readable rp1 s1 \<and>
    nio_fd rp1 = nio_fd rp \<and> reads (nio_fd rp) s s1 \<and> stream rp s = l1 @ l2 @ stream rp1 s1 \<and>
    (l1 = CRLF \<longrightarrow> l2 = []) \<and> (l1 \<noteq> CRLF \<and> l1 \<noteq> [] \<longrightarrow> l2 = get_line 8191 (drop (length l1) (stream rp s)))"
proof -
  let ?B = "local_array junk ''header'' MAXLINE"
  have "length ?B = 8192" by (simp add: MAXLINE_def)
  from nio_readlineb_any [OF assms(1) this, folded l1_def] obtain rc buf1 rp1 s1 where
    r1: "nio_readlineb rp ?B MAXLINE s = Inr ((rc, buf1, rp1), s1)" "readable rp1 s1"
      "stream rp s = l1 @ stream rp1 s1" "nio_fd rp1 = nio_fd rp" "reads (nio_fd rp) s s1"
      "length buf1 = 8192" "buf1 = (if l1 = [] then ?B else l1 @ NUL # drop (length l1 + 1) ?B)"
    by blast
  have hdr: "read_request_header junk rp s = header_loop rp1 buf1 0 s1"
    using r1(1) by (simp add: read_request_header_def)
  have crlf: "is_crlf buf1 \<longleftrightarrow> l1 = CRLF" if "l1 \<noteq> []"
  proof
    assume "is_crlf buf1"
    then have t: "take 3 (l1 @ NUL # drop (length l1 + 1) ?B) = [CR, LF, NUL]"
      using that r1(7) by (simp add: is_crlf_def)
    obtain l' t' where l': "l1 = l' @ t'" "LF \<notin> set l'" "t' = [] \<or> t' = [LF]"
      using get_line_LF unfolding l1_def by blast
    from t that obtain a as where "l1 = a # as" by (cases l1) auto
    with t l' show "l1 = CRLF" by (cases as; cases "tl as"; cases l'; cases "tl l'") auto
  qed (use r1(7) that in \<open>simp add: is_crlf_def\<close>)
  show ?thesis
  proof (cases "is_crlf buf1")
    case True
    then have "header_loop rp1 buf1 0 s1 = Inr (rp1, s1)" by (subst header_loop.simps) (simp add: ret_def)
    with hdr r1 crlf True show ?thesis by (intro exI [of _ rp1] exI [of _ s1] exI [of _ "[]"]) auto
  next
    case False
    from nio_readlineb_any [OF r1(2,6)] obtain rc2 buf2 rp2 s2 where
      r2: "nio_readlineb rp1 buf1 MAXLINE s1 = Inr ((rc2, buf2, rp2), s2)" "readable rp2 s2"
        "stream rp1 s1 = get_line 8191 (stream rp1 s1) @ stream rp2 s2" "nio_fd rp2 = nio_fd rp1"
        "reads (nio_fd rp1) s1 s2" by blast
    have "header_loop rp1 buf1 0 s1 = Inr (rp2, s2)"
      using False r2(1) by (subst header_loop.simps)
        (simp add: bnd_lift_res INT_MAX_def HEADER_LINE_SIZE_def ret_def)
    moreover have "drop (length l1) (stream rp s) = stream rp1 s1" using r1(3) by simp
    moreover have "l1 \<noteq> CRLF" using False crlf by auto
    moreover have "stream rp s = l1 @ get_line 8191 (stream rp1 s1) @ stream rp2 s2"
      using r1(3) r2(3) by metis
    ultimately show ?thesis using hdr r1(4,5) r2(2,4,5) reads_trans
      by (intro exI [of _ rp2] exI [of _ s2] exI [of _ "get_line 8191 (stream rp1 s1)"]) auto
  qed
qed

subsection \<open>Asking the server\<close>

text \<open>
  \<open>server_sends s h po resp\<close>: the name resolves to an address that accepts a connection, and on any
  new descriptor the server sends \<open>resp\<close> and takes what is sent to it.
\<close>

definition server_up :: "os \<Rightarrow> string \<Rightarrow> string \<Rightarrow> bool" where
  "server_up s h po \<longleftrightarrow>
     (\<exists>as. net_gai (os_net s) (Some h) po = Inr as \<and> reachable (os_net s) as)"

definition server_sends :: "os \<Rightarrow> string \<Rightarrow> string \<Rightarrow> block \<Rightarrow> bool" where
  "server_sends s h po resp \<longleftrightarrow> server_up s h po \<and>
     (\<forall>fd \<ge> os_fresh_fd s. clean (os_in s fd) \<and> tape (os_in s fd) = resp \<and> draining (os_wr s fd))"

lemma print_out_run: "print_out ls s = Inr ((), s\<lparr>os_stdout := os_stdout s @ ls\<rparr>)"
  by (simp add: print_out_def modify_def)

text \<open>Everything up to the storing of the response.\<close>

lemma serve_fresh_relays:
  assumes nio: "readable nio (w_os w)" "nio_fd nio = connfd"
    and fds: "fds_ok (w_os w)" "draining (os_wr (w_os w) connfd)"
    and srv: "server_sends (w_os w) h po resp"
    and str: "c_str host = Inr h" "c_str path = Inr pa"
    and room: "length pa + 15 < 8192" "length h + 8 < 8192" "length (relay resp) < SIZE_MOD"
  defines "bs \<equiv> relay resp"
  shows "\<exists>fd payload s'. serve_fresh junk connfd nio host port path h po pa w =
      (if length bs < MAX_OBJECT_SIZE then
         bnd (in_cache (add_cache h po pa payload (length bs))) (\<lambda>_.
         bnd (in_cache print_cache) (\<lambda>ls. in_os (print_out ls))) (w\<lparr>w_os := s'\<rparr>)
       else Inr ((), w\<lparr>w_os := s'\<rparr>)) \<and>
    (length bs < MAX_OBJECT_SIZE \<longrightarrow> payload = bs @ replicate (MAX_OBJECT_SIZE - length bs) NUL) \<and>
    os_fresh_fd (w_os w) \<le> fd \<and> os_open s' = insert fd (os_open (w_os w)) \<and>
    os_out s' connfd = os_out (w_os w) connfd @ bs \<and>
    os_out s' fd = os_out (w_os w) fd @ request_text h pa \<and>
    (\<forall>d. d \<noteq> connfd \<and> d \<noteq> fd \<longrightarrow> os_out s' d = os_out (w_os w) d \<and> os_in s' d = os_in (w_os w) d \<and>
       os_wr s' d = os_wr (w_os w) d) \<and>
    os_stdout s' = os_stdout (w_os w) @ [''CACHE MISS!'' @ [LF]] \<and> fds_ok s' \<and>
    os_net s' = os_net (w_os w)"
proof -
  let ?s = "w_os w"
  from nio have cf: "connfd \<in> os_open ?s" by (simp add: readable_def)
  from read_request_header_two_lines [OF nio(1), of junk] obtain nio1 s1 where
    h1: "read_request_header junk nio ?s = Inr (nio1, s1)" "reads connfd ?s s1" using nio(2) by auto
  note f1 = reads_fields [OF h1(2)]
  from srv obtain as where as: "net_gai (os_net s1) (Some h) po = Inr as" "reachable (os_net s1) as"
    by (auto simp: server_sends_def server_up_def f1)
  have "fds_ok s1" using fds(1) by (simp add: fds_ok_def f1)
  from open_clientfd_connected [OF this as] obtain fd s2 where
    o: "open_clientfd h po s1 = Inr (fd, s2)" "os_fresh_fd s1 \<le> fd" "opens {fd} s1 s2" "fds_ok s2" by blast
  note f2 = opens_fields [OF o(3)]
  have new: "os_fresh_fd ?s \<le> fd" "fd \<noteq> connfd" "fd \<in> os_open s2" "connfd \<in> os_open s2"
    using o(2) f1 f2 fds(1) cf by (auto simp: fds_ok_def)
  have sin: "clean (os_in s2 fd)" "tape (os_in s2 fd) = resp" "draining (os_wr s2 fd)"
    using srv new(1,2) by (auto simp: server_sends_def f1 f2)
  from forward_request_ok [OF new(3) sin(3) str room(1,2), of junk port] obtain s3 where
    r: "forward_request junk fd host port path s2 = Inr ((), s3)" "writes fd (request_text h pa) s2 s3" by blast
  note f3 = writes_fields [OF r(2)]
  let ?s4 = "s3\<lparr>os_stdout := os_stdout s3 @ [''CACHE MISS!'' @ [LF]]\<rparr>"
  have w4: "fd \<in> os_open ?s4" "clean (os_in ?s4 fd)" "connfd \<in> os_open ?s4" "draining (os_wr ?s4 connfd)"
    "tape (os_in ?s4 fd) = resp"
    using new sin fds(2) by (simp_all add: f3 f2 f1)
  have "length (relay (tape (os_in ?s4 fd))) < SIZE_MOD" using w4(5) room(3) by simp
  from forward_response_ok [OF w4(1-4) this, of junk] w4(5) obtain payload s5 where
    fr: "forward_response junk fd connfd (replicate MAX_OBJECT_SIZE NUL) ?s4 = Inr ((length bs, payload), s5)"
    "relays fd connfd bs ?s4 s5"
    "length bs \<le> MAX_OBJECT_SIZE \<longrightarrow> payload = bs @ replicate (MAX_OBJECT_SIZE - length bs) NUL"
    by (auto simp: bs_def)
  note f5 = relays_fields [OF fr(2)]
  have run: "serve_fresh junk connfd nio host port path h po pa w =
      (if length bs < MAX_OBJECT_SIZE then
         bnd (in_cache (add_cache h po pa payload (length bs))) (\<lambda>_.
         bnd (in_cache print_cache) (\<lambda>ls. in_os (print_out ls))) (w\<lparr>w_os := s5\<rparr>)
       else Inr ((), w\<lparr>w_os := s5\<rparr>))"
    using h1(1) o(1) r(1) fr(1)
    by (simp add: serve_fresh_def in_os_Inr print_out_run ret_def)
  have "os_open s5 = insert fd (os_open ?s)" "os_out s5 connfd = os_out ?s connfd @ bs"
    "os_out s5 fd = os_out ?s fd @ request_text h pa" "os_net s5 = os_net ?s"
    "os_stdout s5 = os_stdout ?s @ [''CACHE MISS!'' @ [LF]]"
    "\<forall>d. d \<noteq> connfd \<and> d \<noteq> fd \<longrightarrow> os_out s5 d = os_out ?s d \<and> os_in s5 d = os_in ?s d \<and> os_wr s5 d = os_wr ?s d"
    using new(2) by (simp_all add: f5 f3 f2 f1)
  moreover have "fds_ok s5" using o(4) by (simp add: fds_ok_def f5 f3)
  ultimately show ?thesis using run fr(3) new(1) by (intro exI [of _ fd] exI [of _ payload] exI [of _ s5]) simp
qed

subsection \<open>A hit\<close>

lemma serve_hit:
  assumes os: "connfd \<in> os_open (w_os w)" "draining (os_wr (w_os w) connfd)"
    and c: "cache_valid (w_cache w)"
    and hit: "lru_find (entry_match h po pa) (contents (w_cache w)) = Some (h', po', pa', blk, n)"
    and n: "n \<le> MAX_OBJECT_SIZE"
    and str: "c_str host = Inr h" "c_str port = Inr po" "c_str path = Inr pa"
  shows "\<exists>w'. serve junk connfd nio host port path w = Inr ((), w') \<and>
    os_out (w_os w') connfd = os_out (w_os w) connfd @ take n blk \<and>
    os_open (w_os w') = os_open (w_os w) \<and>
    (\<forall>d. d \<noteq> connfd \<longrightarrow> os_out (w_os w') d = os_out (w_os w) d) \<and>
    os_fresh_fd (w_os w') = os_fresh_fd (w_os w) \<and> os_in (w_os w') = os_in (w_os w) \<and>
    os_stdout (w_os w') = os_stdout (w_os w) @ [''CACHE HIT!'' @ [LF]] \<and>
    cache_valid (w_cache w') \<and>
    contents (w_cache w') = lru_touch (entry_match h po pa) (contents (w_cache w))"
proof -
  let ?B = "local_array junk ''payload_cache'' MAX_OBJECT_SIZE"
  have fits: "n \<le> length ?B" using n by simp
  from lru.lookup_hit [OF c hit fits] obtain c' where c':
    "is_cached h po pa ?B (w_cache w) = Inr (Some (take n blk @ drop n ?B, n), c')" "cache_valid c'"
    "contents c' = lru_touch (entry_match h po pa) (contents (w_cache w))" by blast
  have "n \<le> length blk" by (rule lru.found_fits [OF c hit])
  then have lb: "length (take n blk @ drop n ?B) = MAX_OBJECT_SIZE" "length (take n blk) = n" using n by auto
  let ?s = "w_os w\<lparr>os_stdout := os_stdout (w_os w) @ [''CACHE HIT!'' @ [LF]]\<rparr>"
  have "connfd \<in> os_open ?s" "draining (os_wr ?s connfd)" using os by simp_all
  from nio_writen_delivers [OF this, of n "take n blk @ drop n ?B"] n lb obtain s' where
    s': "nio_writen connfd (take n blk @ drop n ?B) n ?s = Inr (int n, s')" "writes connfd (take n blk) ?s s'"
    by (auto simp: MAX_OBJECT_SIZE_def SSIZE_MAX_def)
  have "serve junk connfd nio host port path w = Inr ((), w\<lparr>w_cache := c', w_os := s'\<rparr>)"
    using c'(1) s'(1) str
    by (simp add: serve_def bnd_lift_res in_cache_Inr in_os_Inr print_out_run forward_response_cached_def ret_def)
  then show ?thesis using c'(2,3) writes_fields [OF s'(2)] by auto
qed

lemma requests_cong:
  "requests s connfd h po pa \<Longrightarrow> connfd \<in> os_open s' \<Longrightarrow> os_in s' connfd = os_in s connfd \<Longrightarrow>
     os_wr s' connfd = os_wr s connfd \<Longrightarrow> requests s' connfd h po pa"
  by (simp add: requests_def)

lemma worker_hit:
  assumes req: "requests (w_os w) connfd h po pa"
    and c: "cache_valid (w_cache w)"
    and hit: "lru_find (entry_match h po pa) (contents (w_cache w)) = Some (h', po', pa', blk, n)"
    and n: "n \<le> MAX_OBJECT_SIZE"
  shows "\<exists>w'. worker_main junk connfd w = Inr ((), w') \<and>
    os_out (w_os w') connfd = os_out (w_os w) connfd @ take n blk \<and>
    os_open (w_os w') = os_open (w_os w) \<and>
    (\<forall>d. d \<noteq> connfd \<longrightarrow> os_out (w_os w') d = os_out (w_os w) d \<and> os_in (w_os w') d = os_in (w_os w) d) \<and>
    os_fresh_fd (w_os w') = os_fresh_fd (w_os w) \<and>
    cache_valid (w_cache w') \<and>
    contents (w_cache w') = lru_touch (entry_match h po pa) (contents (w_cache w))"
proof -
  from worker_request [OF req, of junk] obtain nio s1 hb pb qb where
    r: "worker_main junk connfd w = serve junk connfd nio hb pb qb (w\<lparr>w_os := s1\<rparr>)"
      "reads connfd (w_os w) s1" "c_str hb = Inr h" "c_str pb = Inr po" "c_str qb = Inr pa" by blast
  note f = reads_fields [OF r(2)]
  have o: "connfd \<in> os_open (w_os (w\<lparr>w_os := s1\<rparr>))" "draining (os_wr (w_os (w\<lparr>w_os := s1\<rparr>)) connfd)"
    using req by (simp_all add: f requests_def)
  have c': "cache_valid (w_cache (w\<lparr>w_os := s1\<rparr>))"
    "lru_find (entry_match h po pa) (contents (w_cache (w\<lparr>w_os := s1\<rparr>))) = Some (h', po', pa', blk, n)"
    using c hit by simp_all
  from serve_hit [OF o c' n r(3-5), of junk nio] show ?thesis unfolding r(1) by (auto simp: f)
qed

subsection \<open>A miss\<close>

definition response_block :: "block \<Rightarrow> block" where
  "response_block bs = bs @ replicate (MAX_OBJECT_SIZE - length bs) NUL"

text \<open>
  \<open>text_response bs\<close>: a NUL only as the last byte.  \<open>copy_terminated s bs\<close>: the copy of such bytes that
  \<open>new_node\<close> makes holds a NUL, the last one of \<open>bs\<close> or one that \<open>malloc\<close> left in the block.
\<close>

definition text_response :: "block \<Rightarrow> bool" where
  "text_response bs \<longleftrightarrow> NUL \<notin> set (butlast bs)"

definition copy_terminated :: "cache \<Rightarrow> block \<Rightarrow> bool" where
  "copy_terminated s bs \<longleftrightarrow> bs \<noteq> [] \<and> last bs = NUL \<or> c_junk s (c_fresh s) (length bs) = NUL"

lemma cstr_text_response:
  assumes "text_response bs" "length bs < MAX_OBJECT_SIZE"
  shows "length (cstr (response_block bs)) = (if bs \<noteq> [] \<and> last bs = NUL then length bs - 1 else length bs)"
proof (cases "bs \<noteq> [] \<and> last bs = NUL")
  case True
  then have "response_block bs = butlast bs @ NUL # replicate (MAX_OBJECT_SIZE - length bs) NUL"
    using append_butlast_last_id [of bs] by (simp add: response_block_def)
  moreover have "cstr (butlast bs @ NUL # t) = butlast bs" for t
    using assms(1) by (simp add: text_response_def)
  ultimately show ?thesis using True by simp
next
  case False
  have "NUL \<notin> set bs"
  proof (cases "bs = []")
    case ne: False
    then have "set bs = insert (last bs) (set (butlast bs))"
      by (metis append_butlast_last_id list.simps(15) rotate1.simps(2) set_rotate1)
    then show ?thesis using False ne assms(1) by (auto simp: text_response_def)
  qed simp
  moreover have "0 < MAX_OBJECT_SIZE - length bs" using assms(2) by simp
  then obtain k where "MAX_OBJECT_SIZE - length bs = Suc k" by (metis gr0_conv_Suc)
  ultimately have "cstr (response_block bs) = bs" by (simp add: response_block_def)
  then show ?thesis using False by auto
qed

lemma text_response_payload:
  assumes "text_response bs" "length bs < MAX_OBJECT_SIZE" "int (length (contents s)) < INT_MAX"
  shows "text_payload s (response_block bs) (length bs)"
    "ends_copied s (response_block bs) (length bs) \<longleftrightarrow> copy_terminated s bs"
proof -
  have "NUL \<in> set (response_block bs)" "length (response_block bs) \<le> 1049000"
    using assms(2) by (auto simp: response_block_def MAX_OBJECT_SIZE_def)
  then show "text_payload s (response_block bs) (length bs)"
    using cstr_text_response [OF assms(1,2)] assms(3) by (cases bs) (auto simp: text_payload_def)
  show "ends_copied s (response_block bs) (length bs) \<longleftrightarrow> copy_terminated s bs"
    using cstr_text_response [OF assms(1,2)] by (cases bs) (auto simp: ends_copied_def copy_terminated_def)
qed

lemma worker_miss_relays:
  assumes req: "requests (w_os w) connfd h po pa" "fds_ok (w_os w)"
    and srv: "server_sends (w_os w) h po resp" "length (relay resp) < SIZE_MOD"
    and c: "cache_valid (w_cache w)" "lru_find (entry_match h po pa) (contents (w_cache w)) = None"
  defines "bs \<equiv> relay resp"
  shows "\<exists>fd s'. worker_main junk connfd w =
      (if length bs < MAX_OBJECT_SIZE then
         bnd (in_cache (add_cache h po pa (response_block bs) (length bs))) (\<lambda>_.
         bnd (in_cache print_cache) (\<lambda>ls. in_os (print_out ls))) (w\<lparr>w_os := s'\<rparr>)
       else Inr ((), w\<lparr>w_os := s'\<rparr>)) \<and>
    fd \<noteq> connfd \<and> fd \<notin> os_open (w_os w) \<and> os_open s' = insert fd (os_open (w_os w)) \<and>
    os_out s' connfd = os_out (w_os w) connfd @ bs \<and>
    os_out s' fd = os_out (w_os w) fd @ request_text h pa \<and>
    (\<forall>d. d \<noteq> connfd \<and> d \<noteq> fd \<longrightarrow> os_out s' d = os_out (w_os w) d \<and> os_in s' d = os_in (w_os w) d \<and>
       os_wr s' d = os_wr (w_os w) d) \<and> fds_ok s'"
proof -
  from worker_request [OF req(1), of junk] obtain nio s1 hb pb qb where
    r: "worker_main junk connfd w = serve junk connfd nio hb pb qb (w\<lparr>w_os := s1\<rparr>)"
      "readable nio s1" "nio_fd nio = connfd" "reads connfd (w_os w) s1"
      "c_str hb = Inr h" "c_str pb = Inr po" "c_str qb = Inr pa" by blast
  note f = reads_fields [OF r(4)]
  let ?w = "w\<lparr>w_os := s1\<rparr>"
  have op: "connfd \<in> os_open (w_os w)" using req(1) by (simp add: requests_def)
  then have lt: "connfd < os_fresh_fd (w_os w)" using req(2) by (simp add: fds_ok_def)
  have o: "readable nio (w_os ?w)" "fds_ok (w_os ?w)" "draining (os_wr (w_os ?w) connfd)"
    using req r(2) by (simp_all add: f requests_def fds_ok_def)
  have sv: "server_sends (w_os ?w) h po resp"
    using srv(1) lt by (auto simp: server_sends_def server_up_def f)
  have fits: "length pa + 15 < 8192" "length h + 8 < 8192"
    using req(1) valid_line_fits by (auto simp: requests_def)
  from lru.lookup_miss [OF c] have "is_cached h po pa buf (w_cache ?w) = Inr (None, w_cache ?w)" for buf
    by simp
  then have "serve junk connfd nio hb pb qb ?w = serve_fresh junk connfd nio hb pb qb h po pa ?w"
    using r(5-7) by (simp add: serve_def bnd_lift_res in_cache_Inr)
  with r(1) have w: "worker_main junk connfd w = serve_fresh junk connfd nio hb pb qb h po pa ?w" by simp
  have ww: "?w\<lparr>w_os := x\<rparr> = w\<lparr>w_os := x\<rparr>" "w_os ?w = s1" for x by simp_all
  from serve_fresh_relays [OF o(1) r(3) o(2,3) sv r(5,7) fits srv(2), of junk pb,
      folded bs_def, folded response_block_def, unfolded ww] obtain fd payload s' where
    s': "serve_fresh junk connfd nio hb pb qb h po pa ?w =
      (if length bs < MAX_OBJECT_SIZE then
         bnd (in_cache (add_cache h po pa payload (length bs))) (\<lambda>_.
         bnd (in_cache print_cache) (\<lambda>ls. in_os (print_out ls))) (w\<lparr>w_os := s'\<rparr>)
       else Inr ((), w\<lparr>w_os := s'\<rparr>))"
      "length bs < MAX_OBJECT_SIZE \<longrightarrow> payload = response_block bs"
      "os_fresh_fd s1 \<le> fd" "os_open s' = insert fd (os_open s1)"
      "os_out s' connfd = os_out s1 connfd @ bs" "os_out s' fd = os_out s1 fd @ request_text h pa"
      "\<forall>d. d \<noteq> connfd \<and> d \<noteq> fd \<longrightarrow> os_out s' d = os_out s1 d \<and> os_in s' d = os_in s1 d \<and> os_wr s' d = os_wr s1 d"
      "fds_ok s'"
    by blast
  have "fd \<noteq> connfd" "fd \<notin> os_open (w_os w)"
    using s'(3) lt req(2) by (auto simp: f fds_ok_def)
  with s' w show ?thesis
    by (intro exI [of _ fd] exI [of _ s']) (auto simp: f)
qed

lemma worker_miss:
  assumes req: "requests (w_os w) connfd h po pa" "fds_ok (w_os w)"
    and srv: "server_sends (w_os w) h po resp"
    and c: "cache_valid (w_cache w)" "lru_find (entry_match h po pa) (contents (w_cache w)) = None"
    and bs: "bs = relay resp" "length bs < MAX_OBJECT_SIZE"
    and st: "storable (w_cache w) (response_block bs) (length bs)"
  shows "\<exists>w' fd blk. worker_main junk connfd w = Inr ((), w') \<and>
    os_out (w_os w') connfd = os_out (w_os w) connfd @ bs \<and>
    os_out (w_os w') fd = os_out (w_os w) fd @ request_text h pa \<and>
    fd \<notin> os_open (w_os w) \<and> os_open (w_os w') = insert fd (os_open (w_os w)) \<and>
    (\<forall>d. d \<noteq> connfd \<and> d \<noteq> fd \<longrightarrow> os_out (w_os w') d = os_out (w_os w) d \<and>
       os_in (w_os w') d = os_in (w_os w) d \<and> os_wr (w_os w') d = os_wr (w_os w) d) \<and>
    fds_ok (w_os w') \<and> cache_valid (w_cache w') \<and> take (length bs) blk = bs \<and>
    contents (w_cache w') = lru_evict (contents (w_cache w) @ [(h, po, pa, blk, length bs)]) \<and>
    lru_find (entry_match h po pa) (contents (w_cache w')) = Some (h, po, pa, blk, length bs)"
proof -
  have "length (relay resp) < SIZE_MOD" using bs by (simp add: MAX_OBJECT_SIZE_def SIZE_MOD_def)
  from worker_miss_relays [OF req srv this c, of junk] bs obtain fd s' where
    r: "worker_main junk connfd w =
         bnd (in_cache (add_cache h po pa (response_block bs) (length bs))) (\<lambda>_.
         bnd (in_cache print_cache) (\<lambda>ls. in_os (print_out ls))) (w\<lparr>w_os := s'\<rparr>)"
      "fd \<notin> os_open (w_os w)" "os_open s' = insert fd (os_open (w_os w))"
      "os_out s' connfd = os_out (w_os w) connfd @ bs" "os_out s' fd = os_out (w_os w) fd @ request_text h pa"
      "\<forall>d. d \<noteq> connfd \<and> d \<noteq> fd \<longrightarrow> os_out s' d = os_out (w_os w) d \<and> os_in s' d = os_in (w_os w) d \<and>
         os_wr s' d = os_wr (w_os w) d" "fds_ok s'" by auto
  have "entry_match h po pa (h, po, pa, [], 0)" by simp
  from lru.found_after_store [OF c(1) st this] obtain c' blk where
    c': "add_cache h po pa (response_block bs) (length bs) (w_cache w) = Inr ((), c')" "cache_valid c'"
      "take (length bs) blk = take (length bs) (response_block bs)"
      "contents c' = lru_evict (contents (w_cache w) @ [(h, po, pa, blk, length bs)])"
      "lru_find (entry_match h po pa) (contents c') = Some (h, po, pa, blk, length bs)" by blast
  obtain ls where p: "print_cache c' = Inr (ls, c')" using print_cache_lines [OF c'(2)] by blast
  let ?w' = "w\<lparr>w_os := s'\<lparr>os_stdout := os_stdout s' @ ls\<rparr>, w_cache := c'\<rparr>"
  have "worker_main junk connfd w = Inr ((), ?w')"
    unfolding r(1) using c'(1) p by (simp add: in_cache_Inr in_os_Inr print_out_run)
  moreover have "take (length bs) blk = bs" using c'(3) by (simp add: response_block_def)
  moreover have "fds_ok (w_os ?w')" using r(7) by (simp add: fds_ok_def)
  ultimately show ?thesis using r(2-6) c'(2,4,5)
    by (intro exI [of _ ?w'] exI [of _ fd] exI [of _ blk]) simp
qed

text \<open>Text whose copy is not terminated: \<open>strlen\<close> reads past it as soon as it is enqueued.\<close>

lemma worker_miss_overread:
  assumes req: "requests (w_os w) connfd h po pa" "fds_ok (w_os w)"
    and srv: "server_sends (w_os w) h po resp"
    and c: "cache_valid (w_cache w)" "lru_find (entry_match h po pa) (contents (w_cache w)) = None"
    and bs: "bs = relay resp" "length bs < MAX_OBJECT_SIZE"
    and st: "text_payload (w_cache w) (response_block bs) (length bs)"
      "\<not> ends_copied (w_cache w) (response_block bs) (length bs)"
  shows "worker_main junk connfd w = Inl Overread"
proof -
  have "length (relay resp) < SIZE_MOD" using bs by (simp add: MAX_OBJECT_SIZE_def SIZE_MOD_def)
  from worker_miss_relays [OF req srv this c, of junk] bs obtain s' where
    r: "worker_main junk connfd w =
         bnd (in_cache (add_cache h po pa (response_block bs) (length bs))) (\<lambda>_.
         bnd (in_cache print_cache) (\<lambda>ls. in_os (print_out ls))) (w\<lparr>w_os := s'\<rparr>)" by auto
  have "add_cache h po pa (response_block bs) (length bs) (w_cache w) = Inl Overread"
    using c(1) st by (rule add_cache_overread)
  then show ?thesis unfolding r by (simp add: in_cache_Inl)
qed

text \<open>The next client that asks for the same object gets the same bytes, without the server.\<close>

lemma worker_hit_after_miss:
  assumes req: "requests (w_os w) c1 h po pa" "requests (w_os w) c2 h po pa" "c1 \<noteq> c2" "fds_ok (w_os w)"
    and srv: "server_sends (w_os w) h po resp"
    and c: "cache_valid (w_cache w)" "lru_find (entry_match h po pa) (contents (w_cache w)) = None"
    and bs: "bs = relay resp" "length bs < MAX_OBJECT_SIZE"
    and st: "storable (w_cache w) (response_block bs) (length bs)"
  shows "\<exists>w1 w2. worker_main junk1 c1 w = Inr ((), w1) \<and> worker_main junk2 c2 w1 = Inr ((), w2) \<and>
    os_out (w_os w2) c1 = os_out (w_os w) c1 @ bs \<and> os_out (w_os w2) c2 = os_out (w_os w) c2 @ bs \<and>
    (\<forall>d. d \<noteq> c2 \<longrightarrow> os_out (w_os w2) d = os_out (w_os w1) d \<and> os_in (w_os w2) d = os_in (w_os w1) d) \<and>
    os_open (w_os w2) = os_open (w_os w1) \<and> os_fresh_fd (w_os w2) = os_fresh_fd (w_os w1) \<and>
    cache_valid (w_cache w2)"
proof -
  from worker_miss [OF req(1,4) srv c bs st, of junk1] obtain w1 fd blk where
    m: "worker_main junk1 c1 w = Inr ((), w1)" "os_out (w_os w1) c1 = os_out (w_os w) c1 @ bs"
      "fd \<notin> os_open (w_os w)" "os_open (w_os w1) = insert fd (os_open (w_os w))"
      "\<forall>d. d \<noteq> c1 \<and> d \<noteq> fd \<longrightarrow> os_out (w_os w1) d = os_out (w_os w) d \<and>
         os_in (w_os w1) d = os_in (w_os w) d \<and> os_wr (w_os w1) d = os_wr (w_os w) d"
      "cache_valid (w_cache w1)" "take (length bs) blk = bs"
      "lru_find (entry_match h po pa) (contents (w_cache w1)) = Some (h, po, pa, blk, length bs)" by blast
  have c2: "c2 \<in> os_open (w_os w)" "c2 \<noteq> fd" using req(2) m(3) by (auto simp: requests_def)
  then have "requests (w_os w1) c2 h po pa"
    using m(4,5) req(2,3) by (intro requests_cong [OF req(2)]) auto
  moreover have "length bs \<le> MAX_OBJECT_SIZE" using bs(2) by simp
  ultimately obtain w2 where h2: "worker_main junk2 c2 w1 = Inr ((), w2)"
    "os_out (w_os w2) c2 = os_out (w_os w1) c2 @ take (length bs) blk"
    "os_open (w_os w2) = os_open (w_os w1)"
    "\<forall>d. d \<noteq> c2 \<longrightarrow> os_out (w_os w2) d = os_out (w_os w1) d \<and> os_in (w_os w2) d = os_in (w_os w1) d"
    "os_fresh_fd (w_os w2) = os_fresh_fd (w_os w1)"
    "cache_valid (w_cache w2)" using worker_hit [OF _ m(6) m(8)] by blast
  have "os_out (w_os w2) c2 = os_out (w_os w) c2 @ bs" using h2(2) m(5,7) c2 req(3) by auto
  moreover have "os_out (w_os w2) c1 = os_out (w_os w) c1 @ bs" using h2(4) m(2) req(3) by simp
  ultimately show ?thesis using m(1) h2 by blast
qed

end
