(* ===== verification/Worker_Faults.thy ===== *)
theory Worker_Faults
  imports Worker_Spec
begin

section \<open>Transactions that end otherwise\<close>

text \<open>
  Clients that close early or send a request that is refused, responses that are too large for the
  cache, and the inputs on which a transaction leaves defined behaviour or takes the process down.
\<close>

subsection \<open>Early ends\<close>

lemma worker_eof:
  assumes "connfd \<in> os_open (w_os w)" "clean (os_in (w_os w) connfd)" "tape (os_in (w_os w) connfd) = []"
  shows "\<exists>s1. worker_main junk connfd w = Inr ((), w\<lparr>w_os := s1\<rparr>) \<and> reads connfd (w_os w) s1"
proof -
  let ?rp = "local_nio junk ''nio'' connfd" and ?buf = "local_array junk ''request'' MAXLINE"
  note rp = local_nio_readable [OF assms(1,2), of junk "''nio''"]
  from nio_readlineb_eof [OF rp(1), of MAXLINE ?buf] rp(2) assms(3) obtain rp1 s1 where
    r: "nio_readlineb ?rp ?buf MAXLINE (w_os w) = Inr ((0, ?buf, rp1), s1)" "reads (nio_fd ?rp) (w_os w) s1"
    by (auto simp: MAXLINE_def)
  have "to_size 0 = 0" by (simp add: to_size_def)
  with r rp(3) show ?thesis by (auto simp: worker_main_def in_os_Inr ret_def)
qed

text \<open>A refused request gets an error page, and the cache is not consulted.\<close>

lemma worker_malformed:
  assumes fd: "connfd \<in> os_open (w_os w)" "clean (os_in (w_os w) connfd)" "draining (os_wr (w_os w) connfd)"
    and ap: "appends (w_os w)"
    and l: "l = get_line 8191 (tape (os_in (w_os w) connfd))" "l \<noteq> []" "NUL \<notin> set l"
    and bad: "length (scan_words 3 l) < 3" "length l \<le> 7900"
  shows "\<exists>s'. worker_main junk connfd w = Inr ((), w\<lparr>w_os := s'\<rparr>) \<and>
    os_out s' connfd = os_out (w_os w) connfd @ failure_page l ''400'' ''Bad request'' format_hint"
proof -
  from worker_reads_line [OF fd(1,2) l, of junk] obtain nio s1 where
    w: "worker_main junk connfd w =
     bnd (in_os (parse_request junk connfd l (replicate MAXLINE NUL) (replicate MAXLINE NUL)
       (replicate MAXLINE NUL))) (\<lambda>(ok, host, port, path).
     if \<not> ok then ret () else serve junk connfd nio host port path) (w\<lparr>w_os := s1\<rparr>)"
    "reads connfd (w_os w) s1" by blast
  note f = reads_fields [OF w(2)]
  have "connfd \<in> os_open s1" "draining (os_wr s1 connfd)" "appends s1"
    using fd ap by (simp_all add: f appends_def)
  from parse_request_malformed [OF this bad l(3), of junk] obtain s' where
    "parse_request junk connfd l (replicate MAXLINE NUL) (replicate MAXLINE NUL) (replicate MAXLINE NUL) s1 =
      Inr ((False, replicate MAXLINE NUL, replicate MAXLINE NUL, replicate MAXLINE NUL), s')"
    "os_out s' connfd = os_out s1 connfd @ failure_page l ''400'' ''Bad request'' format_hint" by blast
  then show ?thesis unfolding w(1) by (auto simp: in_os_Inr ret_def f)
qed

text \<open>A first line of 8000 characters or more without three words overflows the error page.\<close>

lemma worker_smash:
  assumes fd: "connfd \<in> os_open (w_os w)" "clean (os_in (w_os w) connfd)" and ap: "appends (w_os w)"
    and l: "l = get_line 8191 (tape (os_in (w_os w) connfd))" "NUL \<notin> set l"
    and bad: "length (scan_words 3 l) < 3" "8000 \<le> length l"
  shows "worker_main junk connfd w = Inl Overflow"
proof -
  have "length l \<le> 8191" unfolding l(1) by (rule get_line_length)
  then have ne: "l \<noteq> []" and len: "length l < MAXLINE" using bad(2) by (auto simp: MAXLINE_def)
  from worker_reads_line [OF fd l(1) ne l(2), of junk] obtain nio s1 where
    w: "worker_main junk connfd w =
     bnd (in_os (parse_request junk connfd l (replicate MAXLINE NUL) (replicate MAXLINE NUL)
       (replicate MAXLINE NUL))) (\<lambda>(ok, host, port, path).
     if \<not> ok then ret () else serve junk connfd nio host port path) (w\<lparr>w_os := s1\<rparr>)"
    "reads connfd (w_os w) s1" by blast
  have "appends s1" using ap reads_fields [OF w(2)] by (simp add: appends_def)
  from parse_request_smash [OF this bad len l(2)] show ?thesis unfolding w(1) by (simp add: in_os_Inl)
qed

subsection \<open>Large responses\<close>

lemma worker_large:
  assumes req: "requests (w_os w) connfd h po pa" "fds_ok (w_os w)"
    and srv: "server_sends (w_os w) h po resp" "length (relay resp) < SIZE_MOD"
    and c: "cache_valid (w_cache w)" "lru_find (entry_match h po pa) (contents (w_cache w)) = None"
    and large: "MAX_OBJECT_SIZE \<le> length (relay resp)"
  shows "\<exists>s'. worker_main junk connfd w = Inr ((), w\<lparr>w_os := s'\<rparr>) \<and>
    os_out s' connfd = os_out (w_os w) connfd @ relay resp"
  using worker_miss_relays [OF req srv c, of junk] large by auto

subsection \<open>Responses that are not text\<close>

text \<open>
  \<open>new_node\<close> takes the size of its block from \<open>strlen\<close> and copies the number of bytes received: a
  response with a NUL before its last byte is written behind the block.
\<close>

lemma cstr_append: "cstr (a @ b) = (if NUL \<in> set a then cstr a else a @ cstr b)"
  by (auto simp: cstr_def takeWhile_append)

lemma cstr_relay: "length (cstr (relay cs)) \<le> length (cstr cs)"
proof (induction cs rule: relay.induct)
  case (1 cs)
  show ?case
  proof (cases "cs = []")
    case False
    let ?l = "get_line 8191 cs"
    obtain rest where r: "cs = ?l @ rest" using get_line_prefix by blast
    then have "rest = drop (length ?l) cs" by (metis append_eq_conv_conj)
    with 1 [OF False refl] have ih: "length (cstr (relay rest)) \<le> length (cstr rest)" by simp
    have "cstr (relay cs) = cstr (?l @ (if ends_line ?l then [] else [NUL]) @ relay rest)"
      by (rule arg_cong [OF relay_step [OF False refl r]])
    also have "length \<dots> \<le> length (cstr (?l @ rest))" using ih by (auto simp: cstr_append)
    finally show ?thesis using r by metis
  qed simp
qed

lemma cstr_response_block: "cstr (response_block bs) = cstr bs"
  by (simp add: response_block_def cstr_append cstr_no_NUL)

lemma worker_binary_overflow:
  assumes req: "requests (w_os w) connfd h po pa" "fds_ok (w_os w)"
    and srv: "server_sends (w_os w) h po resp"
    and c: "cache_valid (w_cache w)" "lru_find (entry_match h po pa) (contents (w_cache w)) = None"
    and bin: "length (cstr resp) + 1 < length resp"
    and small: "length (relay resp) < MAX_OBJECT_SIZE"
  shows "worker_main junk connfd w = Inl Overflow"
proof -
  let ?bs = "relay resp"
  have "length ?bs < SIZE_MOD" using small by (simp add: MAX_OBJECT_SIZE_def SIZE_MOD_def)
  from worker_miss_relays [OF req srv this c, of junk] small obtain s' where
    r: "worker_main junk connfd w =
         bnd (in_cache (add_cache h po pa (response_block ?bs) (length ?bs))) (\<lambda>_.
         bnd (in_cache print_cache) (\<lambda>ls. in_os (print_out ls))) (w\<lparr>w_os := s'\<rparr>)" by auto
  have "length (cstr (response_block ?bs)) + 1 < length ?bs"
    using cstr_relay [of resp] bin relay_length [of resp] by (simp add: cstr_response_block)
  moreover have "NUL \<in> set (response_block ?bs)" "length ?bs \<le> length (response_block ?bs)"
    using small by (simp_all add: response_block_def)
  ultimately have "add_cache h po pa (response_block ?bs) (length ?bs) (w_cache w) = Inl Overflow"
    using new_node_overflow by (simp add: add_cache_def)
  then show ?thesis unfolding r by (simp add: in_cache_Inl)
qed

subsection \<open>Servers that cannot be asked\<close>

lemma worker_unresolved:
  assumes req: "requests (w_os w) connfd h po pa"
    and srv: "net_gai (os_net (w_os w)) (Some h) po = Inl rc"
    and c: "cache_valid (w_cache w)" "lru_find (entry_match h po pa) (contents (w_cache w)) = None"
  shows "worker_main junk connfd w = Inl (Exit 1)"
proof -
  from worker_request [OF req, of junk] obtain nio s1 hb pb qb where
    r: "worker_main junk connfd w = serve junk connfd nio hb pb qb (w\<lparr>w_os := s1\<rparr>)"
      "readable nio s1" "reads connfd (w_os w) s1" "c_str hb = Inr h" "c_str pb = Inr po" "c_str qb = Inr pa"
    by blast
  from read_request_header_two_lines [OF r(2), of junk] obtain nio1 s2 where
    h: "read_request_header junk nio s1 = Inr (nio1, s2)" "reads (nio_fd nio) s1 s2" by blast
  have "net_gai (os_net s2) (Some h) po = Inl rc"
    using srv reads_fields(4) [OF h(2)] reads_fields(4) [OF r(3)] by simp
  then have "open_clientfd h po s2 = Inl (Exit 1)" by (rule open_clientfd_unresolved)
  with h(1) r lru.lookup_miss [OF c] show ?thesis
    by (simp add: serve_def serve_fresh_def bnd_lift_res in_cache_Inr in_os_Inr in_os_Inl)
qed

lemma send_str_closed:
  assumes "fd \<notin> os_open s" "NUL \<notin> set t" "t \<noteq> []"
  shows "send_str fd (t @ NUL # rest) s = Inr ((), s\<lparr>os_errno := EBADF\<rparr>)"
  using assms nio_writen_closed [OF assms(1), of "length t" "t @ NUL # rest"]
  by (simp add: send_str_def c_strlen_Inr bnd_lift_res ret_def)

lemma forward_request_closed:
  assumes fd: "fd \<notin> os_open s" and str: "c_str host = Inr h" "c_str path = Inr pa"
    and room: "length pa + 15 < 8192" "length h + 8 < 8192"
  shows "forward_request junk fd host port path s = Inr ((), s\<lparr>os_errno := EBADF\<rparr>)"
proof -
  let ?A = "local_array junk ''forwardbuf'' MAXLINE"
  let ?t1 = "''GET '' @ pa @ '' HTTP/1.0'' @ CRLF" and ?t2 = "''Host: '' @ h @ CRLF"
  let ?s = "s\<lparr>os_errno := EBADF\<rparr>"
  have nul: "NUL \<notin> set h" "NUL \<notin> set pa" using str c_str_NUL by blast+
  define r1 where "r1 = drop (Suc (length ?t1)) ?A"
  have w1: "blk_puts ?A ?t1 = Inr (?t1 @ NUL # r1)"
    unfolding r1_def using room by (intro blk_puts_Inr) (simp add: MAXLINE_def)
  have l1: "length (?t1 @ NUL # r1) = 8192" unfolding r1_def using room by (simp add: MAXLINE_def)
  define r2 where "r2 = drop (Suc (length ?t2)) (?t1 @ NUL # r1)"
  have w2: "blk_puts (?t1 @ NUL # r1) ?t2 = Inr (?t2 @ NUL # r2)"
    unfolding r2_def using room by (intro blk_puts_Inr) (simp only: l1, simp)
  have e: "?s\<lparr>os_errno := EBADF\<rparr> = ?s" by simp
  have n: "NUL \<notin> set ?t1" "NUL \<notin> set ?t2" "?t1 \<noteq> []" "?t2 \<noteq> []" using nul by auto
  have ne: "user_agent_hdr \<noteq> []" "accept_hdr \<noteq> []" "accept_encoding_hdr \<noteq> []" "connection_hdr \<noteq> []"
    "proxy_connection_hdr \<noteq> []"
    by (simp_all add: user_agent_hdr_def accept_hdr_def accept_encoding_hdr_def connection_hdr_def
        proxy_connection_hdr_def)
  have fd': "fd \<notin> os_open ?s" using fd by simp
  show ?thesis
    unfolding forward_request_def str w1 w2 bnd_lift_res_fun
    by (simp only: bnd_Inr send_str_closed [OF fd n(1,3)] send_str_closed [OF fd' n(2,4)]
        send_str_closed [OF fd' hdr_NUL(1) ne(1)] send_str_closed [OF fd' hdr_NUL(2) ne(2)]
        send_str_closed [OF fd' hdr_NUL(3) ne(3)] send_str_closed [OF fd' hdr_NUL(4) ne(4)]
        send_str_closed [OF fd' hdr_NUL(5) ne(5)] e)
qed

text \<open>
  When no address accepts a connection, the worker goes on with the descriptor \<open>-1\<close>.  It never
  comes back from the relay loop, which ends outside the line buffer after \<open>2 ^ 64 - MAX_OBJECT_SIZE\<close>
  rounds.
\<close>

lemma worker_unreachable:
  assumes req: "requests (w_os w) connfd h po pa" "fds_ok (w_os w)" "- 1 \<notin> os_open (w_os w)"
    and srv: "net_gai (os_net (w_os w)) (Some h) po = Inr as" "\<not> reachable (os_net (w_os w)) as"
    and c: "cache_valid (w_cache w)" "lru_find (entry_match h po pa) (contents (w_cache w)) = None"
  shows "worker_main junk connfd w = Inl Overread"
proof -
  from worker_request [OF req(1), of junk] obtain nio s1 hb pb qb where
    r: "worker_main junk connfd w = serve junk connfd nio hb pb qb (w\<lparr>w_os := s1\<rparr>)"
      "readable nio s1" "nio_fd nio = connfd" "reads connfd (w_os w) s1"
      "c_str hb = Inr h" "c_str pb = Inr po" "c_str qb = Inr pa" by blast
  from read_request_header_two_lines [OF r(2), of junk] r(3) obtain nio1 s2 where
    h: "read_request_header junk nio s1 = Inr (nio1, s2)" "reads connfd s1 s2" by blast
  have f: "os_open s2 = os_open (w_os w)" "os_net s2 = os_net (w_os w)"
    "os_fresh_fd s2 = os_fresh_fd (w_os w)"
    using reads_fields [OF r(4)] reads_fields [OF h(2)] by simp_all
  have "fds_ok s2" using req(2) f by (simp add: fds_ok_def)
  from open_clientfd_unreachable [OF this] srv obtain s3 where
    o: "open_clientfd h po s2 = Inr (- 1, s3)" "opens {} s2 s3" by (metis f(2))
  have f3: "- 1 \<notin> os_open s3" using opens_fields [OF o(2)] f req(3) by auto
  have fits: "length pa + 15 < 8192" "length h + 8 < 8192"
    using req(1) valid_line_fits by (auto simp: requests_def)
  note fr = forward_request_closed [OF f3 r(5,7) fits, of junk pb]
  let ?s4 = "s3\<lparr>os_errno := EBADF, os_stdout := os_stdout s3 @ [''CACHE MISS!'' @ [LF]]\<rparr>"
  have "forward_response junk (- 1) connfd (replicate MAX_OBJECT_SIZE NUL) ?s4 = Inl Overread"
    using f3 by (intro forward_response_closed) simp
  with fr o(1) h(1) r lru.lookup_miss [OF c] show ?thesis
    by (simp add: serve_def serve_fresh_def bnd_lift_res in_cache_Inr in_os_Inr in_os_Inl print_out_run)
qed

end
