(* ===== verification/Sbuf.thy ===== *)
theory Sbuf
  imports Posix
begin

section \<open>The message queue of connections (\<open>lib/src/sbuf.c\<close>)\<close>

text \<open>
  The queue is a ring of \<open>n\<close> slots with two counters that only grow, \<open>front\<close> and \<open>rear\<close>, and three
  semaphores.  This theory models its operations as one thread runs them, gives the list of queued
  items as abstraction, and proves that the ring is a bounded first-in first-out queue.
\<close>

record sbuf =
  sb_buf :: "int list"
  sb_n :: int
  sb_front :: int
  sb_rear :: int
  sb_mutex :: nat
  sb_slots :: nat
  sb_items :: nat

definition P_slots :: "(sbuf, unit) cmd" where
  "P_slots = P sb_slots (\<lambda>v. sb_slots_update (\<lambda>_. v))"
definition P_items :: "(sbuf, unit) cmd" where
  "P_items = P sb_items (\<lambda>v. sb_items_update (\<lambda>_. v))"
definition P_mutex :: "(sbuf, unit) cmd" where
  "P_mutex = P sb_mutex (\<lambda>v. sb_mutex_update (\<lambda>_. v))"
definition V_slots :: "(sbuf, unit) cmd" where
  "V_slots = V sb_slots (\<lambda>v. sb_slots_update (\<lambda>_. v))"
definition V_items :: "(sbuf, unit) cmd" where
  "V_items = V sb_items (\<lambda>v. sb_items_update (\<lambda>_. v))"
definition V_mutex :: "(sbuf, unit) cmd" where
  "V_mutex = V sb_mutex (\<lambda>v. sb_mutex_update (\<lambda>_. v))"

lemmas sbuf_sems = P_slots_def P_items_def P_mutex_def V_slots_def V_items_def V_mutex_def

subsection \<open>Operations\<close>

definition sbuf_setup :: "int \<Rightarrow> (sbuf, unit) cmd" where
  "sbuf_setup n = modify (\<lambda>s. s\<lparr>sb_buf := replicate (nat n) 0, sb_n := n,
     sb_front := 0, sb_rear := 0, sb_mutex := 1, sb_slots := nat n, sb_items := 0\<rparr>)"

text \<open>Access to \<open>buf[i]\<close> with a signed index.\<close>

definition slot_write :: "int \<Rightarrow> int \<Rightarrow> (sbuf, unit) cmd" where
  "slot_write i item s =
     (if 0 \<le> i \<and> i < int (length (sb_buf s))
      then Inr ((), s\<lparr>sb_buf := (sb_buf s)[nat i := item]\<rparr>) else Inl Overflow)"

definition slot_read :: "int \<Rightarrow> (sbuf, int) cmd" where
  "slot_read i s =
     (if 0 \<le> i \<and> i < int (length (sb_buf s)) then Inr (sb_buf s ! nat i, s) else Inl Overread)"

text \<open>The subscripts \<open>(++sp->rear) % sp->n\<close> and \<open>(++sp->front) % sp->n\<close>.\<close>

definition next_rear :: "(sbuf, int) cmd" where
  "next_rear =
     bnd (gets sb_rear) (\<lambda>r.
     bnd (lift_res (c_inc r)) (\<lambda>r'.
     bnd (modify (\<lambda>s. s\<lparr>sb_rear := r'\<rparr>)) (\<lambda>_.
     bnd (gets sb_n) (\<lambda>n.
     lift_res (c_rem r' n)))))"

definition next_front :: "(sbuf, int) cmd" where
  "next_front =
     bnd (gets sb_front) (\<lambda>f.
     bnd (lift_res (c_inc f)) (\<lambda>f'.
     bnd (modify (\<lambda>s. s\<lparr>sb_front := f'\<rparr>)) (\<lambda>_.
     bnd (gets sb_n) (\<lambda>n.
     lift_res (c_rem f' n)))))"

definition sbuf_insert :: "int \<Rightarrow> (sbuf, unit) cmd" where
  "sbuf_insert item =
     bnd P_slots (\<lambda>_.
     bnd P_mutex (\<lambda>_.
     bnd next_rear (\<lambda>i.
     bnd (slot_write i item) (\<lambda>_.
     bnd V_mutex (\<lambda>_.
     V_items)))))"

definition sbuf_remove :: "(sbuf, int) cmd" where
  "sbuf_remove =
     bnd P_items (\<lambda>_.
     bnd P_mutex (\<lambda>_.
     bnd next_front (\<lambda>i.
     bnd (slot_read i) (\<lambda>removed.
     bnd V_mutex (\<lambda>_.
     bnd V_slots (\<lambda>_.
     ret removed))))))"

definition sbuf_is_empty :: "sbuf \<Rightarrow> bool" where
  "sbuf_is_empty s \<longleftrightarrow> sb_front s = sb_rear s"

subsection \<open>Abstraction and invariant\<close>

text \<open>The queued items, oldest first: the slots of the positions \<open>front + 1, \<dots>, rear\<close>.\<close>

definition sb_contents :: "sbuf \<Rightarrow> int list" where
  "sb_contents s = map (\<lambda>k. sb_buf s ! nat (k mod sb_n s)) [sb_front s + 1 .. sb_rear s]"

definition sb_inv :: "sbuf \<Rightarrow> bool" where
  "sb_inv s \<longleftrightarrow>
     0 < sb_n s \<and> sb_n s \<le> INT_MAX \<and> length (sb_buf s) = nat (sb_n s) \<and>
     0 \<le> sb_front s \<and> sb_front s \<le> sb_rear s \<and> sb_rear s \<le> sb_front s + sb_n s \<and>
     sb_rear s \<le> INT_MAX \<and> sb_mutex s = 1 \<and>
     sb_slots s = nat (sb_n s - (sb_rear s - sb_front s)) \<and>
     sb_items s = nat (sb_rear s - sb_front s)"

lemma length_sb_contents: "length (sb_contents s) = nat (sb_rear s - sb_front s)"
  by (simp add: sb_contents_def)

lemma sb_inv_setup:
  "0 < n \<Longrightarrow> n \<le> INT_MAX \<Longrightarrow>
     \<exists>s'. sbuf_setup n s = Inr ((), s') \<and> sb_inv s' \<and> sb_contents s' = [] \<and> sb_n s' = n \<and> sb_rear s' = 0"
  by (auto simp: sbuf_setup_def sb_inv_def sb_contents_def cmd_simps)

text \<open>Two positions less than \<open>n\<close> apart never share a slot.\<close>

lemma mod_distinct_window:
  fixes n j k :: int
  assumes "0 < n" "j < k" "k - j < n"
  shows "j mod n \<noteq> k mod n"
proof
  assume "j mod n = k mod n"
  then have "n dvd (k - j)" by (metis mod_eq_dvd_iff)
  with assms show False by (auto dest: zdvd_imp_le)
qed

lemma slot_index_bounds:
  fixes n k :: int
  assumes "0 < n" "length xs = nat n"
  shows "0 \<le> k mod n" and "k mod n < int (length xs)"
  using assms by (simp_all add: pos_mod_bound)

lemma sb_contents_insert:
  assumes inv: "sb_inv s" and room: "sb_rear s < sb_front s + sb_n s"
  shows "sb_contents (s\<lparr>sb_rear := sb_rear s + 1,
           sb_buf := (sb_buf s)[nat ((sb_rear s + 1) mod sb_n s) := x]\<rparr>) = sb_contents s @ [x]"
proof -
  let ?n = "sb_n s" and ?r = "sb_rear s + 1"
  let ?buf = "(sb_buf s)[nat (?r mod ?n) := x]"
  from inv have n: "0 < ?n" and len: "length (sb_buf s) = nat ?n"
    and fr: "sb_front s \<le> sb_rear s" by (auto simp: sb_inv_def)
  have rest: "?buf ! nat (k mod ?n) = sb_buf s ! nat (k mod ?n)"
    if "sb_front s + 1 \<le> k" "k \<le> sb_rear s" for k
  proof -
    have "k mod ?n \<noteq> ?r mod ?n"
      using that room n by (intro mod_distinct_window) auto
    then have "nat (?r mod ?n) \<noteq> nat (k mod ?n)"
      using n by (simp add: eq_nat_nat_iff)
    then show ?thesis by simp
  qed
  have last: "?buf ! nat (?r mod ?n) = x"
    using n len by (simp add: nat_less_iff)
  have "[sb_front s + 1 .. ?r] = [sb_front s + 1 .. sb_rear s] @ [?r]"
    using fr by (simp add: upto_rec2)
  then show ?thesis
    using rest last by (simp add: sb_contents_def)
qed

lemma sb_contents_remove:
  assumes inv: "sb_inv s" and "sb_front s < sb_rear s"
  shows "sb_contents s = sb_buf s ! nat ((sb_front s + 1) mod sb_n s)
           # sb_contents (s\<lparr>sb_front := sb_front s + 1\<rparr>)"
  using assms by (simp add: sb_contents_def upto_rec1)

subsection \<open>Each operation on every branch\<close>

lemma sbuf_insert_refines:
  assumes inv: "sb_inv s" and room: "length (sb_contents s) < nat (sb_n s)"
    and budget: "sb_rear s < INT_MAX"
  shows "\<exists>s'. sbuf_insert x s = Inr ((), s') \<and> sb_inv s' \<and>
           sb_contents s' = sb_contents s @ [x] \<and> sb_n s' = sb_n s \<and>
           sb_rear s' = sb_rear s + 1"
proof -
  from inv room have room': "sb_rear s < sb_front s + sb_n s"
    by (auto simp: sb_inv_def length_sb_contents)
  note c = sb_contents_insert [OF inv room', of x]
  have idx: "0 \<le> (sb_rear s + 1) mod sb_n s" "(sb_rear s + 1) mod sb_n s < int (length (sb_buf s))"
    using inv by (auto simp: sb_inv_def intro: slot_index_bounds)
  have sems: "0 < sb_slots s" "sb_mutex s = 1" "sb_items s < SEM_VALUE_MAX"
    using inv room' budget
    by (auto simp: sb_inv_def SEM_VALUE_MAX_def INT_MAX_def)
  have nums: "0 \<le> sb_rear s + 1" "0 < sb_n s" using inv by (auto simp: sb_inv_def)
  let ?s' = "s\<lparr>sb_rear := sb_rear s + 1,
     sb_buf := (sb_buf s)[nat ((sb_rear s + 1) mod sb_n s) := x],
     sb_slots := sb_slots s - 1, sb_items := sb_items s + 1\<rparr>"
  have run: "sbuf_insert x s = Inr ((), ?s')"
    using sems idx nums budget
    by (simp add: sbuf_insert_def next_rear_def sbuf_sems cmd_simps slot_write_def SEM_VALUE_MAX_def)
  moreover have "sb_inv ?s'"
    using inv room' budget by (auto simp: sb_inv_def)
  moreover have "sb_contents ?s' = sb_contents s @ [x]"
    using c by (simp add: sb_contents_def)
  ultimately show ?thesis by auto
qed

lemma sbuf_remove_refines:
  assumes inv: "sb_inv s" and cons: "sb_contents s = x # xs"
  shows "\<exists>s'. sbuf_remove s = Inr (x, s') \<and> sb_inv s' \<and> sb_contents s' = xs \<and>
           sb_n s' = sb_n s \<and> sb_rear s' = sb_rear s"
proof -
  from cons have "length (sb_contents s) \<noteq> 0" by simp
  then have lt: "sb_front s < sb_rear s" by (simp add: length_sb_contents)
  note c = sb_contents_remove [OF inv lt]
  have idx: "0 \<le> (sb_front s + 1) mod sb_n s" "(sb_front s + 1) mod sb_n s < int (length (sb_buf s))"
    using inv by (auto simp: sb_inv_def intro: slot_index_bounds)
  have sems: "0 < sb_items s" "sb_mutex s = 1" "sb_slots s < SEM_VALUE_MAX"
    using inv lt by (auto simp: sb_inv_def SEM_VALUE_MAX_def INT_MAX_def)
  have nums: "0 \<le> sb_front s + 1" "0 < sb_n s" "sb_front s < INT_MAX"
    using inv lt by (auto simp: sb_inv_def)
  let ?s' = "s\<lparr>sb_front := sb_front s + 1, sb_items := sb_items s - 1, sb_slots := sb_slots s + 1\<rparr>"
  have run: "sbuf_remove s = Inr (sb_buf s ! nat ((sb_front s + 1) mod sb_n s), ?s')"
    using sems idx nums
    by (simp add: sbuf_remove_def next_front_def sbuf_sems cmd_simps slot_read_def SEM_VALUE_MAX_def)
  have same: "sb_contents ?s' = sb_contents (s\<lparr>sb_front := sb_front s + 1\<rparr>)"
    by (simp add: sb_contents_def)
  have "sb_inv ?s'"
    using inv lt by (auto simp: sb_inv_def)
  then show ?thesis
    using run c cons same by simp
qed

lemma sbuf_insert_full:
  assumes "sb_inv s" "length (sb_contents s) = nat (sb_n s)"
  shows "sbuf_insert x s = Inl Blocked"
proof -
  from assms have "sb_slots s = 0" by (auto simp: sb_inv_def length_sb_contents)
  then show ?thesis by (simp add: sbuf_insert_def sbuf_sems)
qed

lemma sbuf_remove_empty:
  assumes "sb_inv s" "sb_contents s = []"
  shows "sbuf_remove s = Inl Blocked"
proof -
  from assms(2) have "length (sb_contents s) = 0" by simp
  with assms(1) have "sb_items s = 0" by (auto simp: sb_inv_def length_sb_contents)
  then show ?thesis by (simp add: sbuf_remove_def sbuf_sems)
qed

lemma sbuf_is_empty_iff: "sb_inv s \<Longrightarrow> sbuf_is_empty s \<longleftrightarrow> sb_contents s = []"
  using length_sb_contents [of s] by (auto simp: sbuf_is_empty_def sb_inv_def simp flip: length_0_conv)

text \<open>
  The counters never wrap: the insertion after \<open>INT_MAX\<close> others increments \<open>rear\<close> past the
  largest \<open>int\<close>.
\<close>

lemma sbuf_insert_exhausted:
  assumes "sb_inv s" "length (sb_contents s) < nat (sb_n s)" "sb_rear s = INT_MAX"
  shows "sbuf_insert x s = Inl Int_overflow"
proof -
  from assms have "0 < sb_slots s" "sb_mutex s = 1"
    by (auto simp: sb_inv_def length_sb_contents)
  then show ?thesis
    using assms(3) by (simp add: sbuf_insert_def next_rear_def sbuf_sems cmd_simps c_inc_def)
qed

subsection \<open>The contract of a bounded queue\<close>

text \<open>
  What the master and the workers rely on: insertion at one end, removal at the other, blocking
  when full or empty, and a budget of insertions.  The runs of a client that performs a sequence
  of operations are studied once, under the contract.
\<close>

datatype 'a qop = Put 'a | Get

fun puts :: "'a qop list \<Rightarrow> 'a list" where
  "puts [] = []"
| "puts (Put x # ops) = x # puts ops"
| "puts (Get # ops) = puts ops"

fun q_run :: "('a \<Rightarrow> ('s, unit) cmd) \<Rightarrow> ('s, 'a) cmd \<Rightarrow> 'a qop list \<Rightarrow> ('s, 'a list) cmd" where
  "q_run ins rem [] = ret []"
| "q_run ins rem (Put x # ops) = bnd (ins x) (\<lambda>_. q_run ins rem ops)"
| "q_run ins rem (Get # ops) =
     bnd rem (\<lambda>x. bnd (q_run ins rem ops) (\<lambda>xs. ret (x # xs)))"

text \<open>A schedule that never inserts into a full queue nor removes from an empty one.\<close>

fun feasible :: "nat \<Rightarrow> nat \<Rightarrow> 'a qop list \<Rightarrow> bool" where
  "feasible cap len [] = True"
| "feasible cap len (Put x # ops) = (len < cap \<and> feasible cap (Suc len) ops)"
| "feasible cap len (Get # ops) = (0 < len \<and> feasible cap (len - 1) ops)"

locale bounded_fifo =
  fixes inv :: "'s \<Rightarrow> bool"
    and contents :: "'s \<Rightarrow> 'a list"
    and cap :: "'s \<Rightarrow> nat"
    and budget :: "'s \<Rightarrow> nat"
    and ins :: "'a \<Rightarrow> ('s, unit) cmd"
    and rem :: "('s, 'a) cmd"
  assumes ins_ok: "inv s \<Longrightarrow> length (contents s) < cap s \<Longrightarrow> 0 < budget s \<Longrightarrow>
      \<exists>s'. ins x s = Inr ((), s') \<and> inv s' \<and> contents s' = contents s @ [x] \<and>
        cap s' = cap s \<and> Suc (budget s') = budget s"
    and ins_full: "inv s \<Longrightarrow> length (contents s) = cap s \<Longrightarrow> ins x s = Inl Blocked"
    and ins_spent: "inv s \<Longrightarrow> length (contents s) < cap s \<Longrightarrow> budget s = 0 \<Longrightarrow>
      ins x s = Inl Int_overflow"
    and rem_ok: "inv s \<Longrightarrow> contents s = x # xs \<Longrightarrow>
      \<exists>s'. rem s = Inr (x, s') \<and> inv s' \<and> contents s' = xs \<and>
        cap s' = cap s \<and> budget s' = budget s"
    and rem_empty: "inv s \<Longrightarrow> contents s = [] \<Longrightarrow> rem s = Inl Blocked"
    and bounded: "inv s \<Longrightarrow> length (contents s) \<le> cap s"
begin

lemma ins_Inr:
  assumes "inv s" "ins x s = Inr (u, s')"
  shows "inv s'" "contents s' = contents s @ [x]" "cap s' = cap s"
proof -
  have "length (contents s) < cap s" "0 < budget s"
    using assms bounded [OF assms(1)] ins_full [OF assms(1), of x] ins_spent [OF assms(1), of x]
    by (force simp: le_less)+
  from ins_ok [OF assms(1) this, of x] assms(2)
  show "inv s'" "contents s' = contents s @ [x]" "cap s' = cap s" by auto
qed

lemma rem_Inr:
  assumes "inv s" "rem s = Inr (x, s')"
  shows "inv s'" "contents s = x # contents s'" "cap s' = cap s"
proof -
  have "contents s \<noteq> []" using assms rem_empty by auto
  then obtain y ys where "contents s = y # ys" by (cases "contents s") auto
  from rem_ok [OF assms(1) this] this assms(2)
  show "inv s'" "contents s = x # contents s'" "cap s' = cap s" by auto
qed

lemma run_fifo:
  assumes "inv s" "q_run ins rem ops s = Inr (outs, s')"
  shows "inv s' \<and> contents s @ puts ops = outs @ contents s'"
  using assms
proof (induction ops arbitrary: s outs)
  case Nil
  then show ?case by (simp add: cmd_simps)
next
  case (Cons op ops)
  show ?case
  proof (cases op)
    case (Put x)
    with Cons.prems(2) obtain s1 where "ins x s = Inr ((), s1)" "q_run ins rem ops s1 = Inr (outs, s')"
      by (auto simp: bnd_eq_Inr_iff)
    with Put Cons.IH [of s1 outs] ins_Inr [OF Cons.prems(1)] show ?thesis by auto
  next
    case Get
    with Cons.prems(2) obtain x s1 xs where "rem s = Inr (x, s1)" "q_run ins rem ops s1 = Inr (xs, s')"
        "outs = x # xs"
      by (auto simp: bnd_eq_Inr_iff cmd_simps)
    with Get Cons.IH [of s1 xs] rem_Inr [OF Cons.prems(1)] show ?thesis by auto
  qed
qed

lemma run_completes:
  assumes "inv s" "feasible (cap s) (length (contents s)) ops" "length (puts ops) \<le> budget s"
  shows "\<exists>outs s'. q_run ins rem ops s = Inr (outs, s')"
  using assms
proof (induction ops arbitrary: s)
  case Nil
  then show ?case by (simp add: cmd_simps)
next
  case (Cons op ops)
  show ?case
  proof (cases op)
    case (Put x)
    with Cons.prems have "length (contents s) < cap s" "0 < budget s" by auto
    with ins_ok [OF Cons.prems(1) this, of x] Put Cons.prems Cons.IH show ?thesis by force
  next
    case Get
    with Cons.prems obtain y ys where "contents s = y # ys" by (cases "contents s") auto
    with rem_ok [OF Cons.prems(1) this] Get Cons.prems Cons.IH show ?thesis
      by (force simp: cmd_simps)
  qed
qed

end

interpretation sbuf_fifo: bounded_fifo sb_inv sb_contents "\<lambda>s. nat (sb_n s)"
  "\<lambda>s. nat (INT_MAX - sb_rear s)" sbuf_insert sbuf_remove
proof
  fix s x
  assume s: "sb_inv s" "length (sb_contents s) < nat (sb_n s)" "0 < nat (INT_MAX - sb_rear s)"
  then have "sb_rear s < INT_MAX" by simp
  from sbuf_insert_refines [OF s(1,2) this, of x] this
  show "\<exists>s'. sbuf_insert x s = Inr ((), s') \<and> sb_inv s' \<and> sb_contents s' = sb_contents s @ [x] \<and>
      nat (sb_n s') = nat (sb_n s) \<and> Suc (nat (INT_MAX - sb_rear s')) = nat (INT_MAX - sb_rear s)"
    by auto
next
  fix s x
  assume "sb_inv s" "length (sb_contents s) < nat (sb_n s)" "nat (INT_MAX - sb_rear s) = 0"
  then show "sbuf_insert x s = Inl Int_overflow"
    by (intro sbuf_insert_exhausted) (auto simp: sb_inv_def)
next
  fix s x xs
  assume "sb_inv s" "sb_contents s = x # xs"
  then show "\<exists>s'. sbuf_remove s = Inr (x, s') \<and> sb_inv s' \<and> sb_contents s' = xs \<and>
      nat (sb_n s') = nat (sb_n s) \<and> nat (INT_MAX - sb_rear s') = nat (INT_MAX - sb_rear s)"
    by (auto dest: sbuf_remove_refines)
qed (auto intro: sbuf_insert_full sbuf_remove_empty simp: sb_inv_def length_sb_contents)

end
