(* ===== verification/Proxy.thy ===== *)
theory Proxy
  imports Worker_Faults Sbuf
begin

section \<open>The server process (\<open>app/proxy.c\<close>)\<close>

text \<open>
  The main thread accepts connections and puts their descriptors into the queue; each worker thread
  takes a descriptor, makes a transaction and closes it.  A round is one pass of an endless loop.
  The rounds of different threads may follow each other in any order.
\<close>

definition NTHREADS :: nat where
  "NTHREADS = 8"

definition SBUFSIZE :: int where
  "SBUFSIZE = 64"

record proxy =
  px_world :: world
  px_queue :: sbuf
  px_workers :: "nat list"

definition in_world :: "(world, 'a) cmd \<Rightarrow> (proxy, 'a) cmd" where
  "in_world = zoom px_world (\<lambda>x p. p\<lparr>px_world := x\<rparr>)"

definition in_queue :: "(sbuf, 'a) cmd \<Rightarrow> (proxy, 'a) cmd" where
  "in_queue = zoom px_queue (\<lambda>x p. p\<lparr>px_queue := x\<rparr>)"

definition listen_round :: "int \<Rightarrow> (proxy, unit) cmd" where
  "listen_round listenfd =
     bnd (in_world (in_os (sys_accept listenfd))) (\<lambda>connfd.
     bnd (in_queue (sbuf_insert connfd)) (\<lambda>_.
     bnd (gets (\<lambda>p. net_name (os_net (w_os (px_world p))) connfd)) (\<lambda>ok.
     if \<not> ok then halt (Exit 1) else ret ())))"

text \<open>\<open>listen_on\<close> never returns: its first \<open>k\<close> rounds.\<close>

fun listen_on :: "nat \<Rightarrow> int \<Rightarrow> (proxy, unit) cmd" where
  "listen_on 0 listenfd = ret ()"
| "listen_on (Suc k) listenfd = bnd (listen_round listenfd) (\<lambda>_. listen_on k listenfd)"

definition worker_setup :: "(proxy, unit) cmd" where
  "worker_setup = modify (\<lambda>p. p\<lparr>px_workers := [0..<NTHREADS]\<rparr>)"

definition worker_round :: "junk \<Rightarrow> (proxy, unit) cmd" where
  "worker_round junk =
     bnd (in_queue sbuf_remove) (\<lambda>connfd.
     bnd (in_world (worker_main junk connfd)) (\<lambda>_.
     bnd (in_world (in_os (sys_close connfd))) (\<lambda>_.
     ret ())))"

definition sigpipe_handler :: "(proxy, unit) cmd" where
  "sigpipe_handler = in_world (in_os (print_out [''SIGPIPE received: pipe was broken'' @ [LF]]))"

definition sigterm_handler :: "(proxy, unit) cmd" where
  "sigterm_handler =
     bnd (in_world (in_cache cache_destroy)) (\<lambda>_.
     in_world (in_os (print_out [''Cache destroyed, exit by SIGTERM'' @ [LF]])))"

text \<open>\<open>main\<close> up to the call of \<open>listen_on\<close>; the code after that call is never reached.\<close>

definition proxy_init :: "string list \<Rightarrow> (proxy, int) cmd" where
  "proxy_init argv =
     (if length argv \<noteq> 2 then halt (Exit 0)
      else
      bnd (in_world (in_cache cache_init)) (\<lambda>_.
      bnd (in_queue (sbuf_setup SBUFSIZE)) (\<lambda>_.
      bnd worker_setup (\<lambda>_.
      bnd (in_world (in_os (open_listenfd (argv ! 1)))) (\<lambda>listenfd.
      bnd (in_world (in_os (print_out [''Listenfd has been initialized successfully'' @ [LF]]))) (\<lambda>_.
      ret listenfd))))))"

definition proxy_main :: "nat \<Rightarrow> string list \<Rightarrow> (proxy, unit) cmd" where
  "proxy_main k argv = bnd (proxy_init argv) (\<lambda>listenfd. listen_on k listenfd)"

subsection \<open>Start\<close>

lemma in_world_Inr: "m (px_world p) = Inr (x, w) \<Longrightarrow> in_world m p = Inr (x, p\<lparr>px_world := w\<rparr>)"
  by (simp add: in_world_def)

lemma in_world_Inl: "m (px_world p) = Inl e \<Longrightarrow> in_world m p = Inl e"
  by (simp add: in_world_def)

lemma in_queue_Inr: "m (px_queue p) = Inr (x, q) \<Longrightarrow> in_queue m p = Inr (x, p\<lparr>px_queue := q\<rparr>)"
  by (simp add: in_queue_def)

lemma in_queue_Inl: "m (px_queue p) = Inl e \<Longrightarrow> in_queue m p = Inl e"
  by (simp add: in_queue_def)

lemmas in_simps = in_world_Inr in_world_Inl in_queue_Inr in_queue_Inl in_os_Inr in_os_Inl
  in_cache_Inr in_cache_Inl

lemma open_listenfd_not_stuck:
  assumes "fds_ok s" "net_gai (os_net s) None po = Inr as"
  shows "\<exists>fd s'. open_listenfd po s = Inr (fd, s')"
proof (cases "\<exists>a \<in> set as. net_socket (os_net s) a \<and> net_bind (os_net s) a")
  case True
  with listen_walk_cases [OF assms(1), of as] obtain fd s1 where "listen_walk as s = Inr (Some fd, s1)"
    by (auto split: if_splits)
  with assms(2) show ?thesis
    by (simp add: open_listenfd_def bnd_gets)
      (simp add: sys_listen_def sys_close_def bnd_def ret_def split: option.split)
next
  case False
  with listen_walk_cases [OF assms(1), of as] obtain s1 where "listen_walk as s = Inr (None, s1)"
    by (auto split: if_splits)
  with assms(2) show ?thesis by (simp add: open_listenfd_def bnd_gets ret_def)
qed

lemma proxy_init_ok:
  assumes "length argv = 2" "c_heap (w_cache (px_world p)) = Map.empty" "fds_ok (w_os (px_world p))"
    and "net_gai (os_net (w_os (px_world p))) None (argv ! 1) = Inr as"
  shows "\<exists>listenfd p'. proxy_init argv p = Inr (listenfd, p') \<and>
    cache_valid (w_cache (px_world p')) \<and> contents (w_cache (px_world p')) = [] \<and>
    sb_inv (px_queue p') \<and> sb_contents (px_queue p') = [] \<and> sb_n (px_queue p') = 64 \<and>
    length (px_workers p') = 8"
proof -
  let ?w = "px_world p"
  obtain c where c: "cache_init (w_cache ?w) = Inr ((), c)" "cache_valid c" "contents c = []"
    using cache_init_valid [OF assms(2)] by blast
  obtain q where q: "sbuf_setup SBUFSIZE (px_queue p) = Inr ((), q)" "sb_inv q" "sb_contents q = []" "sb_n q = 64"
    using sb_inv_setup [of SBUFSIZE "px_queue p"] by (auto simp: SBUFSIZE_def INT_MAX_def)
  obtain fd s where l: "open_listenfd (argv ! 1) (w_os ?w) = Inr (fd, s)"
    using open_listenfd_not_stuck [OF assms(3,4)] by blast
  show ?thesis
    using assms(1) c q l
    by (simp add: proxy_init_def in_simps worker_setup_def bnd_modify print_out_run ret_def NTHREADS_def)
qed

subsection \<open>Accepting and serving\<close>

text \<open>An accepted connection, or the \<open>-1\<close> of a failed \<open>accept\<close>, goes to the end of the queue.\<close>

lemma listen_round_ok:
  assumes "os_accepts (w_os (px_world p)) = c # cs" "net_name (os_net (w_os (px_world p))) c"
    and "sb_inv (px_queue p)" "length (sb_contents (px_queue p)) < nat (sb_n (px_queue p))"
    and "sb_rear (px_queue p) < INT_MAX"
  shows "\<exists>p'. listen_round listenfd p = Inr ((), p') \<and> sb_inv (px_queue p') \<and>
    sb_contents (px_queue p') = sb_contents (px_queue p) @ [c] \<and>
    os_accepts (w_os (px_world p')) = cs \<and> w_cache (px_world p') = w_cache (px_world p)"
proof -
  have b: "0 < nat (INT_MAX - sb_rear (px_queue p))" using assms(5) by simp
  from sbuf_fifo.ins_ok [OF assms(3,4) b, of c] obtain q where
    q: "sbuf_insert c (px_queue p) = Inr ((), q)" "sb_inv q" "sb_contents q = sb_contents (px_queue p) @ [c]"
    by auto
  then show ?thesis using assms(1,2)
    by (simp add: listen_round_def sys_accept_def in_simps bnd_gets ret_def)
qed

lemma listen_round_full:
  assumes "os_accepts (w_os (px_world p)) = c # cs"
    and "sb_inv (px_queue p)" "length (sb_contents (px_queue p)) = nat (sb_n (px_queue p))"
  shows "listen_round listenfd p = Inl Blocked"
  using sbuf_fifo.ins_full [OF assms(2,3), of c] assms(1)
  by (simp add: listen_round_def sys_accept_def in_simps)

lemma worker_round_ok:
  assumes q: "sb_inv (px_queue p)" "sb_contents (px_queue p) = c # cs"
    and w: "worker_main junk c (px_world p) = Inr ((), w')"
  shows "\<exists>p'. worker_round junk p = Inr ((), p') \<and> sb_inv (px_queue p') \<and> sb_contents (px_queue p') = cs \<and>
    w_cache (px_world p') = w_cache w' \<and> os_out (w_os (px_world p')) = os_out (w_os w') \<and>
    os_open (w_os (px_world p')) = os_open (w_os w') - {c}"
proof -
  from sbuf_fifo.rem_ok [OF q] obtain r where
    r: "sbuf_remove (px_queue p) = Inr (c, r)" "sb_inv r" "sb_contents r = cs" by auto
  obtain k en where "sys_close c (w_os w') =
      Inr (k, w_os w'\<lparr>os_open := os_open (w_os w') - {c}, os_errno := en\<rparr>)"
    by (rule sys_close_runs)
  with r w show ?thesis by (simp add: worker_round_def in_simps ret_def)
qed

lemma worker_round_waits:
  "sb_inv (px_queue p) \<Longrightarrow> sb_contents (px_queue p) = [] \<Longrightarrow> worker_round junk p = Inl Blocked"
  using sbuf_fifo.rem_empty by (simp add: worker_round_def in_simps)

text \<open>
  A worker closes the descriptor of the client only: after every miss the descriptor of the server
  stays open.
\<close>

lemma worker_round_leaks:
  assumes q: "sb_inv (px_queue p)" "sb_contents (px_queue p) = c # cs"
    and req: "requests (w_os (px_world p)) c h po pa" "fds_ok (w_os (px_world p))"
      "finite (os_open (w_os (px_world p)))"
    and srv: "server_sends (w_os (px_world p)) h po resp"
    and ca: "cache_valid (w_cache (px_world p))"
      "lru_find (entry_match h po pa) (contents (w_cache (px_world p))) = None"
    and st: "length (relay resp) < MAX_OBJECT_SIZE"
      "storable (w_cache (px_world p)) (response_block (relay resp)) (length (relay resp))"
  shows "\<exists>p'. worker_round junk p = Inr ((), p') \<and>
    card (os_open (w_os (px_world p'))) = card (os_open (w_os (px_world p)))"
proof -
  from worker_miss [OF req(1,2) srv ca refl st, of junk] obtain w' fd where
    m: "worker_main junk c (px_world p) = Inr ((), w')" "fd \<notin> os_open (w_os (px_world p))"
      "os_open (w_os w') = insert fd (os_open (w_os (px_world p)))" by blast
  have c: "c \<in> os_open (w_os (px_world p))" using req(1) by (simp add: requests_def)
  from worker_round_ok [OF q m(1)] obtain p' where
    "worker_round junk p = Inr ((), p')" "os_open (w_os (px_world p')) = os_open (w_os w') - {c}" by blast
  moreover have "card (insert fd (os_open (w_os (px_world p))) - {c}) = card (os_open (w_os (px_world p)))"
    using c m(2) req(3) by (simp add: card_Diff_singleton)
  ultimately show ?thesis using m(3) by auto
qed

subsection \<open>Termination signals\<close>

text \<open>
  The handler of \<open>SIGTERM\<close> frees the cache and returns; the workers go on and use freed nodes.
\<close>

lemma sigterm_then_request:
  assumes ca: "cache_valid (w_cache (px_world p))"
    and req: "requests (w_os (px_world p)) c h po pa"
  shows "\<exists>p'. sigterm_handler p = Inr ((), p') \<and>
    c_heap (w_cache (px_world p')) = Map.empty \<and>
    worker_main junk c (px_world p') = Inl Use_after_free"
proof -
  from destroyed_cache_unusable [OF ca] obtain k where
    k: "cache_destroy (w_cache (px_world p)) = Inr ((), k)" "c_heap k = Map.empty"
      "\<forall>h po pa buf. is_cached h po pa buf k = Inl Use_after_free" by blast
  let ?o = "w_os (px_world p)"
  let ?w = "(px_world p)\<lparr>w_cache := k, w_os := ?o\<lparr>os_stdout := os_stdout ?o @
    [''Cache destroyed, exit by SIGTERM'' @ [LF]]\<rparr>\<rparr>"
  have h: "sigterm_handler p = Inr ((), p\<lparr>px_world := ?w\<rparr>)"
    using k(1) by (simp add: sigterm_handler_def in_simps print_out_run)
  have "requests (w_os ?w) c h po pa" using req by (simp add: requests_def)
  from worker_request [OF this, of junk] obtain nio s1 hb pb qb where
    r: "worker_main junk c ?w = serve junk c nio hb pb qb (?w\<lparr>w_os := s1\<rparr>)"
      "c_str hb = Inr h" "c_str pb = Inr po" "c_str qb = Inr pa" by blast
  have "serve junk c nio hb pb qb (?w\<lparr>w_os := s1\<rparr>) = Inl Use_after_free"
    using k(3) r(2-4) by (simp add: serve_def bnd_lift_res in_cache_Inl)
  with r(1) h k(2) show ?thesis by (intro exI [of _ "p\<lparr>px_world := ?w\<rparr>"]) simp
qed

end
