(* ===== verification/Sio.thy ===== *)
theory Sio
  imports Os
begin

section \<open>Signal-safe output (the \<open>sio\<close> functions of \<open>lib/src/csapp.c\<close>)\<close>

text \<open>
  \<open>sio_ltoa\<close> writes the digits of a \<open>long\<close> backwards and reverses them in place.  The array is a
  block, each store is checked against its size, and the negation of the smallest \<open>long\<close> is the
  overflow that it is in C.
\<close>

definition LONG_MAX :: int where
  "LONG_MAX = 9223372036854775807"

definition blk_get :: "block \<Rightarrow> int \<Rightarrow> stop + char" where
  "blk_get s i = (if 0 \<le> i \<and> i < int (length s) then Inr (s ! nat i) else Inl Overread)"

definition blk_put :: "block \<Rightarrow> int \<Rightarrow> char \<Rightarrow> stop + block" where
  "blk_put s i c = (if 0 \<le> i \<and> i < int (length s) then Inr (s[nat i := c]) else Inl Overflow)"

function sio_strlen_from :: "block \<Rightarrow> nat \<Rightarrow> stop + nat" where
  "sio_strlen_from s i =
     (if i < length s then (if s ! i = NUL then Inr i else sio_strlen_from s (i + 1)) else Inl Overread)"
  by pat_completeness auto
termination by (relation "measure (\<lambda>(s, i). length s - i)") auto

declare sio_strlen_from.simps [simp del]

definition sio_strlen :: "block \<Rightarrow> stop + nat" where
  "sio_strlen s = sio_strlen_from s 0"

function sio_reverse_loop :: "block \<Rightarrow> int \<Rightarrow> int \<Rightarrow> stop + block" where
  "sio_reverse_loop s i j =
     (if i < j then
        (case blk_get s i of Inl e \<Rightarrow> Inl e | Inr c \<Rightarrow>
        (case blk_get s j of Inl e \<Rightarrow> Inl e | Inr d \<Rightarrow>
        (case blk_put s i d of Inl e \<Rightarrow> Inl e | Inr s1 \<Rightarrow>
        (case blk_put s1 j c of Inl e \<Rightarrow> Inl e | Inr s2 \<Rightarrow> sio_reverse_loop s2 (i + 1) (j - 1)))))
      else Inr s)"
  by pat_completeness auto
termination by (relation "measure (\<lambda>(s, i, j). nat (j - i))") auto

declare sio_reverse_loop.simps [simp del]

definition sio_reverse :: "block \<Rightarrow> stop + block" where
  "sio_reverse s =
     (case c_strlen s of Inl e \<Rightarrow> Inl e | Inr n \<Rightarrow> sio_reverse_loop s 0 (int n - 1))"

definition sio_digit :: "int \<Rightarrow> char" where
  "sio_digit c = (if c < 10 then char_of (nat (c + 48)) else char_of (nat (c - 10 + 97)))"

text \<open>The \<open>do\<close> loop, from \<open>s[i]\<close> on, for a \<open>v\<close> that is not negative and a base of at least 2.\<close>

function sio_digits :: "int \<Rightarrow> block \<Rightarrow> int \<Rightarrow> int \<Rightarrow> stop + (block \<times> int)" where
  "sio_digits v s b i =
     (case blk_put s i (sio_digit (v mod b)) of Inl e \<Rightarrow> Inl e | Inr s1 \<Rightarrow>
      (if 2 \<le> b \<and> 0 < v div b then sio_digits (v div b) s1 b (i + 1) else Inr (s1, i + 1)))"
  by pat_completeness auto
termination
proof (relation "measure (\<lambda>(v, s, b, i). nat v)", goal_cases)
  case (2 v s b i s1)
  then have "b \<le> v" using pos_imp_zdiv_pos_iff [of b v] by simp
  with 2 have "0 < v" by simp
  with 2 show ?case by (simp add: int_div_less_self)
qed simp

declare sio_digits.simps [simp del]

definition sio_ltoa :: "int \<Rightarrow> block \<Rightarrow> int \<Rightarrow> stop + block" where
  "sio_ltoa v s b =
     (let neg = v < 0 in
      case (if neg then (if v = - LONG_MAX - 1 then Inl Int_overflow else Inr (- v)) else Inr v) of
        Inl e \<Rightarrow> Inl e
      | Inr v \<Rightarrow>
      (case sio_digits v s b 0 of Inl e \<Rightarrow> Inl e | Inr (s1, i) \<Rightarrow>
      (case (if neg then map_sum id (\<lambda>t. (t, i + 1)) (blk_put s1 i (CHR ''-'')) else Inr (s1, i)) of
         Inl e \<Rightarrow> Inl e
       | Inr (s2, j) \<Rightarrow>
      (case blk_put s2 j NUL of Inl e \<Rightarrow> Inl e | Inr s3 \<Rightarrow> sio_reverse s3))))"

definition sio_puts :: "block \<Rightarrow> (os, int) cmd" where
  "sio_puts s = bnd (lift_res (sio_strlen s)) (\<lambda>n. sys_write 1 s 0 n)"

definition sio_putl :: "junk \<Rightarrow> int \<Rightarrow> (os, int) cmd" where
  "sio_putl junk v = bnd (lift_res (sio_ltoa v (local_array junk ''s'' 128) 10)) (\<lambda>s. sio_puts s)"

definition sio_error :: "block \<Rightarrow> (os, 'a) cmd" where
  "sio_error s = bnd (sio_puts s) (\<lambda>_. halt (Exit 1))"

definition Sio_putl :: "junk \<Rightarrow> int \<Rightarrow> (os, int) cmd" where
  "Sio_putl junk v =
     bnd (sio_putl junk v) (\<lambda>n. if n < 0 then sio_error (''Sio_putl error'' @ [NUL]) else ret n)"

definition Sio_puts :: "block \<Rightarrow> (os, int) cmd" where
  "Sio_puts s = bnd (sio_puts s) (\<lambda>n. if n < 0 then sio_error (''Sio_puts error'' @ [NUL]) else ret n)"

subsection \<open>Length and reversal\<close>

lemma sio_strlen_from_ok:
  "NUL \<notin> set (drop i t) \<Longrightarrow> i \<le> length t \<Longrightarrow> sio_strlen_from (t @ NUL # rest) i = Inr (length t)"
proof (induction "length t - i" arbitrary: i)
  case 0
  then have "i = length t" by simp
  then show ?case by (subst sio_strlen_from.simps) simp
next
  case (Suc n)
  then have i: "i < length t" by simp
  then have "drop i t = t ! i # drop (Suc i) t" by (simp add: Cons_nth_drop_Suc)
  with Suc.prems have "t ! i \<noteq> NUL" "NUL \<notin> set (drop (i + 1) t)" by auto
  with Suc i show ?case by (subst sio_strlen_from.simps) (simp add: nth_append)
qed

lemma sio_strlen_ok: "NUL \<notin> set t \<Longrightarrow> sio_strlen (t @ NUL # rest) = Inr (length t)"
  using sio_strlen_from_ok [of 0 t rest] by (simp add: sio_strlen_def)

lemma blk_get_mid: "blk_get (a @ c # b) (int (length a)) = Inr c"
  by (simp add: blk_get_def)

lemma blk_put_mid: "blk_put (a @ c # b) (int (length a)) d = Inr (a @ d # b)"
  by (simp add: blk_put_def)

text \<open>The loop reverses the part between its two indices.\<close>

lemma sio_reverse_loop_ok:
  "i = int (length a) \<Longrightarrow> j = int (length a + length t) - 1 \<Longrightarrow>
     sio_reverse_loop (a @ t @ b) i j = Inr (a @ rev t @ b)"
proof (induction "length t" arbitrary: a t b i j rule: less_induct)
  case less
  show ?case
  proof (cases "length t \<le> 1")
    case True
    then have "rev t = t" by (cases t) auto
    with True less.prems show ?thesis by (subst sio_reverse_loop.simps) auto
  next
    case False
    then obtain c u where t1: "t = c # u" by (cases t) auto
    with False obtain v d where "u = v @ [d]" by (cases u rule: rev_cases) auto
    with t1 have t: "t = c # v @ [d]" by simp
    have j: "j = int (length (a @ c # v))" "j = int (length (a @ d # v))" using less.prems(2) t by simp_all
    have g1: "blk_get (a @ t @ b) i = Inr c" using t less.prems(1) blk_get_mid [of a c "v @ d # b"] by simp
    have g2: "blk_get (a @ t @ b) j = Inr d" using t j(1) blk_get_mid [of "a @ c # v" d b] by simp
    have p1: "blk_put (a @ t @ b) i d = Inr (a @ d # v @ d # b)"
      using t less.prems(1) blk_put_mid [of a c "v @ d # b" d] by simp
    have p2: "blk_put (a @ d # v @ d # b) j c = Inr ((a @ [d]) @ v @ (c # b))"
      using j(2) blk_put_mid [of "a @ d # v" d b c] by simp
    have "sio_reverse_loop ((a @ [d]) @ v @ (c # b)) (i + 1) (j - 1) = Inr ((a @ [d]) @ rev v @ (c # b))"
      using t less.prems by (intro less.hyps) auto
    moreover have "i < j" using less.prems t by simp
    ultimately show ?thesis using g1 g2 p1 p2 t by (subst sio_reverse_loop.simps) simp
  qed
qed

lemma sio_reverse_ok: "NUL \<notin> set t \<Longrightarrow> sio_reverse (t @ NUL # rest) = Inr (rev t @ NUL # rest)"
  using sio_reverse_loop_ok [of 0 "[]" "int (length t) - 1" t "NUL # rest"]
  by (simp add: sio_reverse_def c_strlen_def)

subsection \<open>Decimal digits\<close>

lemma sio_digit_dec: "0 \<le> d \<Longrightarrow> d < 10 \<Longrightarrow> sio_digit d = char_of (48 + nat d)"
  by (simp add: sio_digit_def nat_add_distrib add.commute)

lemma sio_digits_ok:
  "length a + length (dec_digits n) \<le> length a + length r \<Longrightarrow>
   sio_digits (int n) (a @ r) 10 (int (length a)) =
     Inr (a @ rev (dec_digits n) @ drop (length (dec_digits n)) r, int (length a + length (dec_digits n)))"
proof (induction n arbitrary: a r rule: less_induct)
  case (less n)
  have "dec_digits n \<noteq> []" by (subst dec_digits.simps) auto
  with less.prems obtain c r' where r: "r = c # r'" by (cases r) auto
  let ?d = "char_of (48 + n mod 10)"
  have d: "sio_digit (int n mod 10) = ?d"
    using sio_digit_dec [of "int n mod 10"] by (simp add: nat_mod_distrib)
  have p: "blk_put (a @ r) (int (length a)) (sio_digit (int n mod 10)) = Inr (a @ ?d # r')"
    using r d blk_put_mid by simp
  show ?case
  proof (cases "n < 10")
    case True
    then have "dec_digits n = [?d]" by (subst dec_digits.simps) simp
    moreover have "int n div 10 = 0" using True by simp
    ultimately show ?thesis using p r by (subst sio_digits.simps) simp
  next
    case False
    then have dd: "dec_digits n = dec_digits (n div 10) @ [?d]" by (subst dec_digits.simps) simp
    have "sio_digits (int (n div 10)) ((a @ [?d]) @ r') 10 (int (length (a @ [?d]))) =
       Inr ((a @ [?d]) @ rev (dec_digits (n div 10)) @ drop (length (dec_digits (n div 10))) r',
         int (length (a @ [?d]) + length (dec_digits (n div 10))))"
      using False less.prems r dd by (intro less.IH) auto
    moreover have "0 < int n div 10" using False by simp
    ultimately show ?thesis using p r dd
      by (subst sio_digits.simps) (simp add: zdiv_int add.commute)
  qed
qed

text \<open>
  \<open>sio_ltoa\<close> renders a \<open>long\<close> as \<open>printf\<close> does, but for the smallest one, whose negation overflows.
\<close>

lemma sio_ltoa_dec:
  assumes "- LONG_MAX \<le> v" "length (dec_int v) < length s"
  shows "sio_ltoa v s 10 = Inr (dec_int v @ NUL # drop (Suc (length (dec_int v))) s)"
proof (cases "v < 0")
  case False
  then have v: "v = int (nat v)" "dec_int v = dec_digits (nat v)" by (simp_all add: dec_int_def)
  let ?d = "dec_digits (nat v)"
  have dg: "sio_digits v s 10 0 = Inr (rev ?d @ drop (length ?d) s, int (length ?d))"
    using sio_digits_ok [of "[]" "nat v" s] assms(2) v by simp
  obtain c r where r: "drop (length ?d) s = c # r" using assms(2) v by (cases "drop (length ?d) s") auto
  then have r': "drop (Suc (length ?d)) s = r" by (metis drop_Suc drop_tl list.sel(3) tl_drop)
  have "blk_put (rev ?d @ c # r) (int (length ?d)) NUL = Inr (rev ?d @ NUL # r)"
    using blk_put_mid [of "rev ?d" c r NUL] by simp
  with False dg r r' v(2) show ?thesis
    by (simp add: sio_ltoa_def Let_def sio_reverse_ok LONG_MAX_def)
next
  case True
  then have v: "- v = int (nat (- v))" "dec_int v = CHR ''-'' # dec_digits (nat (- v))"
    by (simp_all add: dec_int_def)
  let ?d = "dec_digits (nat (- v))"
  have dg: "sio_digits (- v) s 10 0 = Inr (rev ?d @ drop (length ?d) s, int (length ?d))"
    using sio_digits_ok [of "[]" "nat (- v)" s] assms(2) v by simp
  have "2 \<le> length (drop (length ?d) s)" using assms(2) v(2) by simp
  then obtain c c' r where r: "drop (length ?d) s = c # c' # r"
    by (cases "drop (length ?d) s"; cases "tl (drop (length ?d) s)") auto
  then have r': "drop (Suc (Suc (length ?d))) s = r" by (metis drop_Suc drop_tl list.sel(3) tl_drop)
  have "blk_put (rev ?d @ c # c' # r) (int (length ?d)) (CHR ''-'') = Inr (rev ?d @ CHR ''-'' # c' # r)"
    using blk_put_mid [of "rev ?d" c "c' # r"] by simp
  moreover have "blk_put (rev ?d @ CHR ''-'' # c' # r) (int (length ?d) + 1) NUL =
      Inr ((rev ?d @ [CHR ''-'']) @ NUL # r)"
    using blk_put_mid [of "rev ?d @ [CHR ''-'']" c' r NUL] by (simp add: add.commute)
  moreover have "sio_reverse ((rev ?d @ [CHR ''-'']) @ NUL # r) = Inr (rev (rev ?d @ [CHR ''-'']) @ NUL # r)"
    by (rule sio_reverse_ok) simp
  ultimately show ?thesis using True dg r r' v(2) assms(1)
    by (simp add: sio_ltoa_def Let_def)
qed

lemma sio_ltoa_min: "sio_ltoa (- LONG_MAX - 1) s b = Inl Int_overflow"
  by (simp add: sio_ltoa_def LONG_MAX_def)

lemma dec_int_length:
  assumes "- LONG_MAX \<le> v" "v \<le> LONG_MAX"
  shows "length (dec_int v) < 128"
proof -
  have "nat \<bar>v\<bar> < 10 ^ Suc 18" using assms by (auto simp: LONG_MAX_def)
  then have "length (dec_digits (nat \<bar>v\<bar>)) \<le> Suc 18" by (rule dec_digits_length)
  then show ?thesis by (auto simp: dec_int_def)
qed

lemma dec_int_NUL: "NUL \<notin> set (dec_int v)"
  by (simp add: dec_int_def)

lemma sio_putl_ok:
  assumes "1 \<in> os_open s" "os_wr s 1 = []" "- LONG_MAX \<le> v" "v \<le> LONG_MAX"
  shows "sio_putl junk v s = Inr (int (length (dec_int v)), os_accept_bytes 1 (dec_int v) s)"
proof -
  let ?A = "local_array junk ''s'' 128" and ?t = "dec_int v"
  have l: "length ?t < length ?A" using dec_int_length [OF assms(3,4)] by simp
  note a = sio_ltoa_dec [OF assms(3) l]
  have n: "sio_strlen (?t @ NUL # drop (Suc (length ?t)) ?A) = Inr (length ?t)"
    by (rule sio_strlen_ok [OF dec_int_NUL])
  have "length ?t \<le> SSIZE_MAX" using l by (simp add: SSIZE_MAX_def)
  then show ?thesis using assms(1,2)
    by (simp add: sio_putl_def a bnd_lift_res sio_puts_def n sys_write_def blk_read_def)
qed

end
