(* ===== verification/Rio.thy ===== *)
theory Rio
  imports Nio_Spec
begin

section \<open>The robust I/O package (\<open>rio\<close> functions of \<open>lib/src/csapp.c\<close>) beside \<open>nio\<close>\<close>

text \<open>
  \<open>nio\<close> started as a copy of \<open>rio\<close>.  \<open>rio_t\<close> has the same fields as \<open>nio_t\<close>, so the same record
  stands for it.  This theory models the functions that differ and compares the two packages:
  \<open>rio\<close> reports a reset connection as an error where \<open>nio\<close> takes it for the end of the stream, and
  \<open>rio_readlineb\<close> returns the length of the line in every case.
\<close>

type_synonym rio = nio

function rio_readn_loop :: "int \<Rightarrow> block \<Rightarrow> nat \<Rightarrow> nat \<Rightarrow> nat \<Rightarrow> (os, int \<times> block) cmd" where
  "rio_readn_loop fd buf off nleft n s =
     (if nleft = 0 then ret (int (n - nleft), buf) s
      else bnd (sys_read fd nleft) (\<lambda>r s1. case r of (nread, bs) \<Rightarrow>
        if nread < 0 then
          if os_errno s1 = EINTR then rio_readn_loop fd buf off nleft n s1
          else ret (- 1, buf) s1
        else if nread = 0 then ret (int (n - nleft), buf) s1
        else bnd (lift_res (blk_write buf off bs)) (\<lambda>buf' s2.
          rio_readn_loop fd buf' (off + nat nread) (nleft - nat nread) n s2) s1) s)"
  by pat_completeness auto
termination
  by (relation "measure (\<lambda>(fd, buf, off, nleft, n, s). rd_size (os_in s fd))")
    (auto simp: lift_res_def blk_write_def split: if_splits dest: sys_read_size)

definition rio_readn :: "int \<Rightarrow> block \<Rightarrow> nat \<Rightarrow> (os, int \<times> block) cmd" where
  "rio_readn fd buf n = rio_readn_loop fd buf 0 n n"

function rio_writen_loop :: "int \<Rightarrow> block \<Rightarrow> nat \<Rightarrow> nat \<Rightarrow> nat \<Rightarrow> (os, int) cmd" where
  "rio_writen_loop fd buf off nleft n s =
     (if nleft = 0 then ret (int n) s
      else bnd (sys_write fd buf off nleft) (\<lambda>nwritten s1.
        if nwritten \<le> 0 then
          if os_errno s1 = EINTR then rio_writen_loop fd buf off nleft n s1
          else ret (- 1) s1
        else rio_writen_loop fd buf (off + nat nwritten) (nleft - nat nwritten) n s1) s)"
  by pat_completeness auto
termination
proof (relation "measure (\<lambda>(fd, buf, off, nleft, n, s). length (os_wr s fd) + nleft)", goal_cases)
  case (2 fd buf off nleft n s rc s1)
  then show ?case using sys_write_size [of fd buf off nleft s rc s1] by simp
next
  case (3 fd buf off nleft n s rc s1)
  then show ?case using sys_write_size [of fd buf off nleft s rc s1] by simp
qed simp

definition rio_writen :: "int \<Rightarrow> block \<Rightarrow> nat \<Rightarrow> (os, int) cmd" where
  "rio_writen fd buf n = rio_writen_loop fd buf 0 n n"

declare rio_readn_loop.simps [simp del] rio_writen_loop.simps [simp del]

function rio_fill :: "rio \<Rightarrow> (os, int option \<times> rio) cmd" where
  "rio_fill rp s =
     (if 0 < nio_cnt rp then ret (None, rp) s
      else bnd (sys_read (nio_fd rp) NIO_BUFSIZE) (\<lambda>r s1. case r of (rc, bs) \<Rightarrow>
        bnd (lift_res (blk_write (nio_buf rp) 0 bs)) (\<lambda>buf s2.
        if rc < 0 then
          if os_errno s2 \<noteq> EINTR then ret (Some (- 1), rp\<lparr>nio_cnt := rc, nio_buf := buf\<rparr>) s2
          else rio_fill (rp\<lparr>nio_cnt := rc, nio_buf := buf\<rparr>) s2
        else if rc = 0 then ret (Some 0, rp\<lparr>nio_cnt := rc, nio_buf := buf\<rparr>) s2
        else rio_fill (rp\<lparr>nio_cnt := rc, nio_buf := buf, nio_bufptr := 0\<rparr>) s2) s1) s)"
  by pat_completeness auto
termination
  by (relation "measure (\<lambda>(rp, s). rd_size (os_in s (nio_fd rp)))")
    (auto simp: lift_res_def blk_write_def NIO_BUFSIZE_def split: if_splits dest: sys_read_size)

declare rio_fill.simps [simp del]

definition rio_read :: "rio \<Rightarrow> nat \<Rightarrow> (os, int \<times> block \<times> rio) cmd" where
  "rio_read rp n =
     bnd (rio_fill rp) (\<lambda>(r, rp1).
     case r of Some rc \<Rightarrow> ret (rc, [], rp1)
     | None \<Rightarrow>
         let cnt = (if nio_cnt rp1 < int n then nio_cnt rp1 else int n) in
         bnd (lift_res (blk_read (nio_buf rp1) (nio_bufptr rp1) (nat cnt))) (\<lambda>bs.
         ret (cnt, bs, rp1\<lparr>nio_bufptr := nio_bufptr rp1 + nat cnt, nio_cnt := nio_cnt rp1 - cnt\<rparr>)))"

definition rio_readinitb :: "rio \<Rightarrow> int \<Rightarrow> rio" where
  "rio_readinitb rp fd = rp\<lparr>nio_fd := fd, nio_cnt := 0, nio_bufptr := 0\<rparr>"

text \<open>\<open>rio_readnb\<close> after \<open>off\<close> of the \<open>n\<close> bytes; a round that stores bytes leaves fewer to read.\<close>

function rio_readnb_loop ::
  "rio \<Rightarrow> block \<Rightarrow> nat \<Rightarrow> nat \<Rightarrow> nat \<Rightarrow> (os, int \<times> block \<times> rio) cmd" where
  "rio_readnb_loop rp buf off nleft n s =
     (if nleft = 0 then ret (int (n - nleft), buf, rp) s
      else bnd (rio_read rp nleft) (\<lambda>r s1. case r of (nread, bs, rp1) \<Rightarrow>
        bnd (lift_res (blk_write buf off bs)) (\<lambda>buf1 s2.
        if nread < 0 then ret (- 1, buf1, rp1) s2
        else if nread = 0 then ret (int (n - nleft), buf1, rp1) s2
        else rio_readnb_loop rp1 buf1 (off + nat nread) (nleft - nat nread) n s2) s1) s)"
  by pat_completeness auto
termination
  by (relation "measure (\<lambda>(rp, buf, off, nleft, n, s). nleft)") auto

declare rio_readnb_loop.simps [simp del]

definition rio_readnb :: "rio \<Rightarrow> block \<Rightarrow> nat \<Rightarrow> (os, int \<times> block \<times> rio) cmd" where
  "rio_readnb rp buf n = rio_readnb_loop rp buf 0 n n"

function rio_readlineb_loop ::
  "rio \<Rightarrow> block \<Rightarrow> nat \<Rightarrow> int \<Rightarrow> nat \<Rightarrow> (os, int \<times> block \<times> rio) cmd" where
  "rio_readlineb_loop rp buf off n maxlen s =
     (if to_size n < maxlen then
        bnd (rio_read rp 1) (\<lambda>r s1. case r of (rc, cs, rp1) \<Rightarrow>
        if rc = 1 then
          bnd (lift_res (blk_write buf off cs)) (\<lambda>buf1 s2.
          if cs = [LF] then
            bnd (lift_res (c_inc n)) (\<lambda>n1 s3.
            bnd (lift_res (blk_write buf1 (off + 1) [NUL])) (\<lambda>buf2 s4. ret (n1 - 1, buf2, rp1) s4) s3) s2
          else bnd (lift_res (c_inc n)) (\<lambda>n1 s3. rio_readlineb_loop rp1 buf1 (off + 1) n1 maxlen s3) s2) s1
        else if rc = 0 then
          if n = 1 then ret (0, buf, rp1) s1
          else bnd (lift_res (blk_write buf off [NUL])) (\<lambda>buf1 s2. ret (n - 1, buf1, rp1) s2) s1
        else ret (- 1, buf, rp1) s1) s
      else bnd (lift_res (blk_write buf off [NUL])) (\<lambda>buf1 s1. ret (n - 1, buf1, rp) s1) s)"
  by pat_completeness auto
termination
  by (relation "measure (\<lambda>(rp, buf, off, n, maxlen, s). nat (INT_MAX - n))")
    (auto simp: lift_res_def c_inc_def split: sum.splits if_splits)

declare rio_readlineb_loop.simps [simp del]

definition rio_readlineb :: "rio \<Rightarrow> block \<Rightarrow> nat \<Rightarrow> (os, int \<times> block \<times> rio) cmd" where
  "rio_readlineb rp buf maxlen = rio_readlineb_loop rp buf 0 1 maxlen"

subsection \<open>The wrappers that exit\<close>

definition Rio_readn :: "int \<Rightarrow> block \<Rightarrow> nat \<Rightarrow> (os, int \<times> block) cmd" where
  "Rio_readn fd buf n =
     bnd (rio_readn fd buf n) (\<lambda>(k, buf1). if k < 0 then unix_error else ret (k, buf1))"

definition Rio_writen :: "int \<Rightarrow> block \<Rightarrow> nat \<Rightarrow> (os, unit) cmd" where
  "Rio_writen fd buf n =
     bnd (rio_writen fd buf n) (\<lambda>k. if to_size k \<noteq> n then unix_error else ret ())"

definition Rio_readnb :: "rio \<Rightarrow> block \<Rightarrow> nat \<Rightarrow> (os, int \<times> block \<times> rio) cmd" where
  "Rio_readnb rp buf n =
     bnd (rio_readnb rp buf n) (\<lambda>(rc, buf1, rp1). if rc < 0 then unix_error else ret (rc, buf1, rp1))"

definition Rio_readlineb :: "rio \<Rightarrow> block \<Rightarrow> nat \<Rightarrow> (os, int \<times> block \<times> rio) cmd" where
  "Rio_readlineb rp buf maxlen =
     bnd (rio_readlineb rp buf maxlen) (\<lambda>(rc, buf1, rp1).
       if rc < 0 then unix_error else ret (rc, buf1, rp1))"

subsection \<open>Where the packages agree\<close>

text \<open>As long as no call fails other than by an interruption, the two refill alike.\<close>

lemma rio_fill_eq: "readable rp s \<Longrightarrow> rio_fill rp s = nio_fill rp s"
proof (induction "rd_size (os_in s (nio_fd rp))" arbitrary: rp s rule: less_induct)
  case less
  let ?fd = "nio_fd rp"
  from less.prems have op: "?fd \<in> os_open s" and cl: "clean (os_in s ?fd)"
    by (auto simp: readable_def)
  show ?case
  proof (cases "0 < nio_cnt rp")
    case True
    then show ?thesis by (simp add: rio_fill.simps [of rp] nio_fill.simps [of rp])
  next
    case False
    obtain r es where st: "rd_step NIO_BUFSIZE (os_in s ?fd) = (r, es)" by fastforce
    have N: "0 < NIO_BUFSIZE" by (simp add: NIO_BUFSIZE_def)
    note cl' = rd_step_clean [OF cl N st]
    show ?thesis
    proof (cases r)
      case (Inl e)
      let ?rp = "rp\<lparr>nio_cnt := - 1\<rparr>" and ?s = "s\<lparr>os_errno := EINTR, os_in := (os_in s)(?fd := es)\<rparr>"
      have rd: "sys_read ?fd NIO_BUFSIZE s = Inr ((- 1, []), ?s)"
        using op st Inl cl'(2) by (simp add: sys_read_def)
      have "rd_size (os_in ?s (nio_fd ?rp)) < rd_size (os_in s ?fd)"
        using sys_read_size [OF rd N] by simp
      moreover have "readable ?rp ?s" using less.prems cl'(1) by (auto simp: readable_def nio_ok_def)
      ultimately have "rio_fill ?rp ?s = nio_fill ?rp ?s" by (rule less.hyps)
      then show ?thesis using False rd
        by (simp add: rio_fill.simps [of rp] nio_fill.simps [of rp] blk_write_def lift_res_def)
    next
      case (Inr bs)
      let ?s = "s\<lparr>os_in := (os_in s)(?fd := es)\<rparr>"
      have rd: "sys_read ?fd NIO_BUFSIZE s = Inr ((int (length bs), bs), ?s)"
        using op st Inr by (simp add: sys_read_def)
      let ?rp = "\<lambda>buf. rp\<lparr>nio_cnt := int (length bs), nio_buf := buf, nio_bufptr := 0\<rparr>"
      have "bs \<noteq> [] \<Longrightarrow> rio_fill (?rp buf) ?s = nio_fill (?rp buf) ?s" for buf
        by (simp add: rio_fill.simps [of "?rp buf"] nio_fill.simps [of "?rp buf"])
      then show ?thesis using False rd
        by (simp add: rio_fill.simps [of rp] nio_fill.simps [of rp] blk_write_def lift_res_def bnd_def)
    qed
  qed
qed

lemma rio_read_eq: "readable rp s \<Longrightarrow> rio_read rp n s = nio_read rp n s"
  using rio_fill_eq by (simp add: rio_read_def nio_read_def bnd_def)

lemma rio_readnb_loop_eq:
  "readable rp s \<Longrightarrow> rio_readnb_loop rp buf off nleft n s = nio_readnb_loop rp buf off nleft n s"
proof (induction nleft arbitrary: rp s off buf rule: less_induct)
  case (less nleft)
  show ?case
  proof (cases "nleft = 0")
    case True
    then show ?thesis by (simp add: rio_readnb_loop.simps nio_readnb_loop.simps)
  next
    case False
    then obtain bs rp1 s1 where rd: "nio_read rp nleft s = Inr ((int (length bs), bs, rp1), s1)"
      "readable rp1 s1" using nio_read_clean [OF less.prems, of nleft] by blast
    have "rio_readnb_loop rp1 buf1 (off + length bs) (nleft - length bs) n s1 =
        nio_readnb_loop rp1 buf1 (off + length bs) (nleft - length bs) n s1" if "bs \<noteq> []" for buf1
      using False that by (intro less.IH rd(2)) simp
    with False rd(1) rio_read_eq [OF less.prems] show ?thesis
      by (simp add: rio_readnb_loop.simps [of rp] nio_readnb_loop.simps [of rp] lift_res_def bnd_def
          split: sum.split)
  qed
qed

lemma rio_readnb_eq: "readable rp s \<Longrightarrow> rio_readnb rp buf n s = nio_readnb rp buf n s"
  by (simp add: rio_readnb_def nio_readnb_def rio_readnb_loop_eq)

subsection \<open>Where they differ\<close>

text \<open>Same buffer, same stream; \<open>rio\<close> returns the length of the line.\<close>

lemma rio_readlineb_loop_eq:
  "readable rp s \<Longrightarrow> off < maxlen \<Longrightarrow> maxlen \<le> length buf \<Longrightarrow> maxlen \<le> 2147483647 \<Longrightarrow>
   l = get_line (maxlen - 1 - off) (stream rp s) \<Longrightarrow>
   rio_readlineb_loop rp buf off (int off + 1) maxlen s =
     (case nio_readlineb_loop rp buf off (int off + 1) maxlen s of
        Inl e \<Rightarrow> Inl e
      | Inr ((k, b, rp1), s1) \<Rightarrow> Inr ((if k \<le> 0 then k else int (off + length l), b, rp1), s1))"
proof (induction "maxlen - 1 - off" arbitrary: rp s off buf l)
  case 0
  then have off: "maxlen = off + 1" "l = []" by auto
  then have "to_size (int off + 1) = off + 1" using 0 by (intro to_size_Suc) simp
  with off 0 show ?case
    by (simp add: rio_readlineb_loop.simps [of rp] nio_readlineb_loop.simps [of rp] blk_write_one
        lift_res_def ret_def)
next
  case (Suc m)
  from Suc.hyps(2) Suc.prems have off: "off + 1 < maxlen" "maxlen - 1 - (off + 1) = m" by auto
  have sz: "to_size (int off + 1) < maxlen" using Suc.prems off by (simp add: to_size_Suc)
  have inc: "c_inc (int off + 1) = Inr (int (off + 1) + 1)" using off Suc.prems(4) by (simp add: INT_MAX_def)
  obtain bs rp1 s1 where rd: "nio_read rp 1 s = Inr ((int (length bs), bs, rp1), s1)"
    "readable rp1 s1" "stream rp s = bs @ stream rp1 s1" "length bs \<le> 1" "bs = [] \<longleftrightarrow> stream rp s = []"
    using nio_read_clean [OF Suc.prems(1), of 1] by auto
  have rr: "rio_read rp 1 s = Inr ((int (length bs), bs, rp1), s1)"
    using rio_read_eq [OF Suc.prems(1)] rd(1) by simp
  show ?case
  proof (cases bs)
    case Nil
    then have "stream rp s = []" using rd(5) by blast
    then have l: "l = []" using Suc.prems(5) by simp
    from Nil l rd(1) rr sz off Suc.prems(3) show ?thesis
      by (simp add: rio_readlineb_loop.simps [of rp] nio_readlineb_loop.simps [of rp] blk_write_one
          lift_res_def ret_def)
  next
    case (Cons c cs)
    with rd(4) have bs: "bs = [c]" by simp
    let ?buf = "take off buf @ c # drop (off + 1) buf"
    have w: "blk_write buf off [c] = Inr ?buf" using off Suc.prems(3) by (intro blk_write_one) simp
    have lb: "length ?buf = length buf" using off Suc.prems(3) by simp
    have l: "l = (if c = LF then [LF] else c # get_line m (stream rp1 s1))"
      using Suc.prems(5) Suc.hyps(2) rd(3) bs by (metis append_Cons append_Nil get_line.simps(3))
    show ?thesis
    proof (cases "c = LF")
      case True
      have "off + 1 < length ?buf" using off Suc.prems(3) lb by simp
      note w2 = blk_write_one [OF this, of NUL]
      from True bs rd(1) rr sz w w2 l inc show ?thesis
        by (simp add: rio_readlineb_loop.simps [of rp] nio_readlineb_loop.simps [of rp]
            lift_res_def ret_def)
    next
      case False
      have "rio_readlineb_loop rp1 ?buf (off + 1) (int (off + 1) + 1) maxlen s1 =
        (case nio_readlineb_loop rp1 ?buf (off + 1) (int (off + 1) + 1) maxlen s1 of
          Inl e \<Rightarrow> Inl e
        | Inr ((k, b, rp1), s1) \<Rightarrow> Inr ((if k \<le> 0 then k else int (off + 1 + length (tl l)), b, rp1), s1))"
        using off lb l False rd(2) Suc.prems(3,4) Suc.hyps(2) by (intro Suc.hyps(1)) auto
      moreover have "off + 1 + length (tl l) = off + length l" using l False by simp
      moreover have "rio_readlineb_loop rp buf off (int off + 1) maxlen s =
          rio_readlineb_loop rp1 ?buf (off + 1) (int (off + 1) + 1) maxlen s1"
        using sz rr bs False w inc
        by (simp add: rio_readlineb_loop.simps [of rp] lift_res_def)
      moreover have "nio_readlineb_loop rp buf off (int off + 1) maxlen s =
          nio_readlineb_loop rp1 ?buf (off + 1) (int (off + 1) + 1) maxlen s1"
        using sz rd(1) bs False w inc
        by (simp add: nio_readlineb_loop.simps [of rp] lift_res_def)
      ultimately show ?thesis by (simp only:)
    qed
  qed
qed

lemma nio_rio_readlineb:
  assumes "readable rp s" "1 < maxlen" "maxlen \<le> length buf" "maxlen \<le> 2147483647"
    and "stream rp s \<noteq> []" "l = get_line (maxlen - 1) (stream rp s)"
  shows "\<exists>b rp1 s1. nio_readlineb rp buf maxlen s = Inr ((int (line_ret l), b, rp1), s1) \<and>
    rio_readlineb rp buf maxlen s = Inr ((int (length l), b, rp1), s1) \<and>
    c_str b = Inr (cstr l) \<and> stream rp s = l @ stream rp1 s1"
proof -
  from nio_readlineb_line [OF assms] obtain rp1 s1 where
    n: "nio_readlineb rp buf maxlen s = Inr ((int (line_ret l), l @ NUL # drop (length l + 1) buf, rp1), s1)"
    "stream rp s = l @ stream rp1 s1" by blast
  have "l \<noteq> []" using assms(2,5,6) by simp
  then have "0 < line_ret l" by (simp add: line_ret_def)
  then have "rio_readlineb rp buf maxlen s = Inr ((int (length l), l @ NUL # drop (length l + 1) buf, rp1), s1)"
    using rio_readlineb_loop_eq [OF assms(1) _ assms(3,4), of 0 l] assms(2,6) n(1)
    by (simp add: rio_readlineb_def nio_readlineb_def)
  moreover have "c_str (l @ NUL # drop (length l + 1) buf) = Inr (cstr l)"
    by (auto simp: c_str_def cstr_def takeWhile_append sym [OF takeWhile_eq_all_conv [THEN iffD2]])
  ultimately show ?thesis using n by blast
qed

text \<open>A reset connection: the end of the stream for \<open>nio\<close>, an error for \<open>rio\<close>.\<close>

lemma reset_connection:
  assumes "nio_fd rp \<in> os_open s" "nio_cnt rp \<le> 0" "os_in s (nio_fd rp) = Rd_err ECONNRESET # es" "1 < maxlen"
  shows "\<exists>rp1 s1. nio_readlineb rp buf maxlen s = Inr ((0, buf, rp1), s1)"
    "\<exists>rp1 s1. rio_readlineb rp buf maxlen s = Inr ((- 1, buf, rp1), s1)"
proof -
  let ?s = "s\<lparr>os_errno := ECONNRESET, os_in := (os_in s)(nio_fd rp := es)\<rparr>"
  have rd: "sys_read (nio_fd rp) NIO_BUFSIZE s = Inr ((- 1, []), ?s)"
    using assms(1,3) by (simp add: sys_read_def)
  have n: "nio_fill rp s = Inr ((Some 0, rp\<lparr>nio_cnt := - 1\<rparr>), ?s)"
    using assms(2) rd by (simp add: nio_fill.simps [of rp] blk_write_def lift_res_def ret_def)
  have r: "rio_fill rp s = Inr ((Some (- 1), rp\<lparr>nio_cnt := - 1\<rparr>), ?s)"
    using assms(2) rd by (simp add: rio_fill.simps [of rp] blk_write_def lift_res_def ret_def)
  have sz: "to_size 1 < maxlen" using assms(4) to_size_Suc [of 0] by simp
  show "\<exists>rp1 s1. nio_readlineb rp buf maxlen s = Inr ((0, buf, rp1), s1)"
    using n sz by (simp add: nio_readlineb_def nio_readlineb_loop.simps [of rp] nio_read_def ret_def)
  show "\<exists>rp1 s1. rio_readlineb rp buf maxlen s = Inr ((- 1, buf, rp1), s1)"
    using r sz by (simp add: rio_readlineb_def rio_readlineb_loop.simps [of rp] rio_read_def ret_def)
qed

end
