(* ===== verification/Sbuf_Conc.thy ===== *)
theory Sbuf_Conc
  imports Sbuf
begin

section \<open>The message queue under interleaving (\<open>lib/src/sbuf.c\<close>)\<close>

text \<open>
  Any number of threads run \<open>sbuf_insert\<close> and \<open>sbuf_remove\<close> on one ring.  A step is one thread
  executing one semaphore operation, one increment of a counter or one access to a slot; each step
  runs the very command that the sequential model of \<open>Sbuf\<close> is composed of.  The history variables
  \<open>q_put\<close> and \<open>q_got\<close> record the stored and the fetched items in the order of the accesses.
\<close>

datatype qloc =
    Idle
  | Ins_slots int        \<comment> \<open>before \<open>P(&sp->slots)\<close>\<close>
  | Ins_lock int         \<comment> \<open>before \<open>P(&sp->mutex)\<close>\<close>
  | Ins_inc int          \<comment> \<open>before \<open>++sp->rear\<close>\<close>
  | Ins_store int int    \<comment> \<open>before the store into the slot\<close>
  | Ins_unlock           \<comment> \<open>before \<open>V(&sp->mutex)\<close>\<close>
  | Ins_post             \<comment> \<open>before \<open>V(&sp->items)\<close>\<close>
  | Rem_items
  | Rem_lock
  | Rem_inc
  | Rem_load int
  | Rem_unlock int
  | Rem_post int

record qsys =
  q_ring :: sbuf
  q_thr :: "qloc list"
  q_put :: "int list"
  q_got :: "int list"

inductive q_step :: "qsys \<Rightarrow> qsys \<Rightarrow> bool" where
  call_insert: "i < length (q_thr s) \<Longrightarrow> q_thr s ! i = Idle \<Longrightarrow>
     q_step s (s\<lparr>q_thr := (q_thr s)[i := Ins_slots x]\<rparr>)"
| insert_P_slots: "i < length (q_thr s) \<Longrightarrow> q_thr s ! i = Ins_slots x \<Longrightarrow>
     P_slots (q_ring s) = Inr (u, r) \<Longrightarrow>
     q_step s (s\<lparr>q_ring := r, q_thr := (q_thr s)[i := Ins_lock x]\<rparr>)"
| insert_P_mutex: "i < length (q_thr s) \<Longrightarrow> q_thr s ! i = Ins_lock x \<Longrightarrow>
     P_mutex (q_ring s) = Inr (u, r) \<Longrightarrow>
     q_step s (s\<lparr>q_ring := r, q_thr := (q_thr s)[i := Ins_inc x]\<rparr>)"
| insert_inc: "i < length (q_thr s) \<Longrightarrow> q_thr s ! i = Ins_inc x \<Longrightarrow>
     next_rear (q_ring s) = Inr (k, r) \<Longrightarrow>
     q_step s (s\<lparr>q_ring := r, q_thr := (q_thr s)[i := Ins_store x k]\<rparr>)"
| insert_store: "i < length (q_thr s) \<Longrightarrow> q_thr s ! i = Ins_store x k \<Longrightarrow>
     slot_write k x (q_ring s) = Inr (u, r) \<Longrightarrow>
     q_step s (s\<lparr>q_ring := r, q_thr := (q_thr s)[i := Ins_unlock], q_put := q_put s @ [x]\<rparr>)"
| insert_V_mutex: "i < length (q_thr s) \<Longrightarrow> q_thr s ! i = Ins_unlock \<Longrightarrow>
     V_mutex (q_ring s) = Inr (u, r) \<Longrightarrow>
     q_step s (s\<lparr>q_ring := r, q_thr := (q_thr s)[i := Ins_post]\<rparr>)"
| insert_V_items: "i < length (q_thr s) \<Longrightarrow> q_thr s ! i = Ins_post \<Longrightarrow>
     V_items (q_ring s) = Inr (u, r) \<Longrightarrow>
     q_step s (s\<lparr>q_ring := r, q_thr := (q_thr s)[i := Idle]\<rparr>)"
| call_remove: "i < length (q_thr s) \<Longrightarrow> q_thr s ! i = Idle \<Longrightarrow>
     q_step s (s\<lparr>q_thr := (q_thr s)[i := Rem_items]\<rparr>)"
| remove_P_items: "i < length (q_thr s) \<Longrightarrow> q_thr s ! i = Rem_items \<Longrightarrow>
     P_items (q_ring s) = Inr (u, r) \<Longrightarrow>
     q_step s (s\<lparr>q_ring := r, q_thr := (q_thr s)[i := Rem_lock]\<rparr>)"
| remove_P_mutex: "i < length (q_thr s) \<Longrightarrow> q_thr s ! i = Rem_lock \<Longrightarrow>
     P_mutex (q_ring s) = Inr (u, r) \<Longrightarrow>
     q_step s (s\<lparr>q_ring := r, q_thr := (q_thr s)[i := Rem_inc]\<rparr>)"
| remove_inc: "i < length (q_thr s) \<Longrightarrow> q_thr s ! i = Rem_inc \<Longrightarrow>
     next_front (q_ring s) = Inr (k, r) \<Longrightarrow>
     q_step s (s\<lparr>q_ring := r, q_thr := (q_thr s)[i := Rem_load k]\<rparr>)"
| remove_load: "i < length (q_thr s) \<Longrightarrow> q_thr s ! i = Rem_load k \<Longrightarrow>
     slot_read k (q_ring s) = Inr (v, r) \<Longrightarrow>
     q_step s (s\<lparr>q_ring := r, q_thr := (q_thr s)[i := Rem_unlock v], q_got := q_got s @ [v]\<rparr>)"
| remove_V_mutex: "i < length (q_thr s) \<Longrightarrow> q_thr s ! i = Rem_unlock v \<Longrightarrow>
     V_mutex (q_ring s) = Inr (u, r) \<Longrightarrow>
     q_step s (s\<lparr>q_ring := r, q_thr := (q_thr s)[i := Rem_post v]\<rparr>)"
| remove_V_slots: "i < length (q_thr s) \<Longrightarrow> q_thr s ! i = Rem_post v \<Longrightarrow>
     V_slots (q_ring s) = Inr (u, r) \<Longrightarrow>
     q_step s (s\<lparr>q_ring := r, q_thr := (q_thr s)[i := Idle]\<rparr>)"

text \<open>The start: \<open>sbuf_setup\<close> with \<open>n\<close> slots, \<open>t\<close> threads outside the queue.\<close>

definition q_start :: "int \<Rightarrow> nat \<Rightarrow> qsys" where
  "q_start n t = \<lparr>q_ring = \<lparr>sb_buf = replicate (nat n) 0, sb_n = n, sb_front = 0, sb_rear = 0,
     sb_mutex = 1, sb_slots = nat n, sb_items = 0\<rparr>,
     q_thr = replicate t Idle, q_put = [], q_got = []\<rparr>"

inductive q_reach :: "int \<Rightarrow> nat \<Rightarrow> qsys \<Rightarrow> bool" for n t where
  start: "q_reach n t (q_start n t)"
| step: "q_reach n t s \<Longrightarrow> q_step s s' \<Longrightarrow> q_reach n t s'"

subsection \<open>The invariant\<close>

fun holds_mutex :: "qloc \<Rightarrow> bool" where
  "holds_mutex (Ins_inc x) = True"
| "holds_mutex (Ins_store x k) = True"
| "holds_mutex Ins_unlock = True"
| "holds_mutex Rem_inc = True"
| "holds_mutex (Rem_load k) = True"
| "holds_mutex (Rem_unlock v) = True"
| "holds_mutex _ = False"

text \<open>A slot reserved but \<open>rear\<close> not yet advanced; \<open>rear\<close> advanced but the item not announced.\<close>

fun slot_reserved :: "qloc \<Rightarrow> bool" where
  "slot_reserved (Ins_lock x) = True"
| "slot_reserved (Ins_inc x) = True"
| "slot_reserved _ = False"

fun item_unposted :: "qloc \<Rightarrow> bool" where
  "item_unposted (Ins_store x k) = True"
| "item_unposted Ins_unlock = True"
| "item_unposted Ins_post = True"
| "item_unposted _ = False"

fun item_reserved :: "qloc \<Rightarrow> bool" where
  "item_reserved Rem_lock = True"
| "item_reserved Rem_inc = True"
| "item_reserved _ = False"

fun slot_unposted :: "qloc \<Rightarrow> bool" where
  "slot_unposted (Rem_load k) = True"
| "slot_unposted (Rem_unlock v) = True"
| "slot_unposted (Rem_post v) = True"
| "slot_unposted _ = False"

fun storing :: "qloc \<Rightarrow> bool" where
  "storing (Ins_store x k) = True"
| "storing _ = False"

fun loading :: "qloc \<Rightarrow> bool" where
  "loading (Rem_load k) = True"
| "loading _ = False"

definition q_counts :: "qsys \<Rightarrow> bool" where
  "q_counts s \<longleftrightarrow> (let r = q_ring s; ts = q_thr s in
     0 < sb_n r \<and> sb_n r \<le> INT_MAX \<and> length (sb_buf r) = nat (sb_n r) \<and>
     0 \<le> sb_front r \<and> sb_rear r \<le> INT_MAX \<and>
     int (sb_mutex r) + cnt holds_mutex ts = 1 \<and>
     int (sb_items r) + cnt item_reserved ts + cnt item_unposted ts = sb_rear r - sb_front r \<and>
     int (sb_slots r) + cnt slot_reserved ts + cnt slot_unposted ts + (sb_rear r - sb_front r) = sb_n r \<and>
     int (length (q_put s)) + cnt storing ts = sb_rear r \<and>
     int (length (q_got s)) + cnt loading ts = sb_front r)"

definition q_index :: "qsys \<Rightarrow> bool" where
  "q_index s \<longleftrightarrow> (\<forall>i < length (q_thr s).
     (\<forall>x k. q_thr s ! i = Ins_store x k \<longrightarrow> k = sb_rear (q_ring s) mod sb_n (q_ring s)) \<and>
     (\<forall>k. q_thr s ! i = Rem_load k \<longrightarrow> k = sb_front (q_ring s) mod sb_n (q_ring s)))"

text \<open>The positions that hold a stored item which is not fetched yet still hold it.\<close>

definition q_data :: "qsys \<Rightarrow> bool" where
  "q_data s \<longleftrightarrow>
     (\<forall>k. int (length (q_got s)) < k \<and> k \<le> int (length (q_put s)) \<longrightarrow>
        sb_buf (q_ring s) ! nat (k mod sb_n (q_ring s)) = q_put s ! nat (k - 1)) \<and>
     q_got s = take (length (q_got s)) (q_put s)"

lemma cnt_mono: "(\<And>x. p x \<Longrightarrow> q x) \<Longrightarrow> cnt p xs \<le> cnt q xs"
  by (induction xs) auto

lemma cnt_holders_parts:
  "cnt storing ts + cnt loading ts \<le> cnt holds_mutex ts"
  "cnt storing ts \<le> cnt item_unposted ts" "cnt loading ts \<le> cnt slot_unposted ts"
proof -
  show "cnt storing ts + cnt loading ts \<le> cnt holds_mutex ts"
  proof (induction ts)
    case (Cons t ts)
    then show ?case by (cases t) auto
  qed simp
  show "cnt storing ts \<le> cnt item_unposted ts"
    by (rule cnt_mono) (auto elim: storing.elims)
  show "cnt loading ts \<le> cnt slot_unposted ts"
    by (rule cnt_mono) (auto elim: loading.elims)
qed

lemma q_counts_start: "0 < n \<Longrightarrow> n \<le> INT_MAX \<Longrightarrow> q_counts (q_start n t)"
  by (simp add: q_counts_def q_start_def)

lemmas q_cmds = P_slots_def P_items_def P_mutex_def V_slots_def V_items_def V_mutex_def
  P_def V_def next_rear_def next_front_def slot_write_def slot_read_def cmd_simps

lemma c_inc_Inr_iff: "c_inc i = Inr j \<longleftrightarrow> i < INT_MAX \<and> j = i + 1"
  by (auto simp: c_inc_def)

lemma next_rear_Inr:
  assumes "next_rear r = Inr (k, r')" "0 \<le> sb_rear r" "0 < sb_n r"
  shows "r' = r\<lparr>sb_rear := sb_rear r + 1\<rparr>" "k = (sb_rear r + 1) mod sb_n r" "sb_rear r < INT_MAX"
proof -
  have lt: "sb_rear r < INT_MAX"
    using assms(1) by (cases "sb_rear r < INT_MAX") (auto simp: next_rear_def cmd_simps c_inc_def)
  with assms show "r' = r\<lparr>sb_rear := sb_rear r + 1\<rparr>" "k = (sb_rear r + 1) mod sb_n r" "sb_rear r < INT_MAX"
    by (auto simp: next_rear_def cmd_simps)
qed

lemma next_front_Inr:
  assumes "next_front r = Inr (k, r')" "0 \<le> sb_front r" "0 < sb_n r"
  shows "r' = r\<lparr>sb_front := sb_front r + 1\<rparr>" "k = (sb_front r + 1) mod sb_n r" "sb_front r < INT_MAX"
proof -
  have lt: "sb_front r < INT_MAX"
    using assms(1) by (cases "sb_front r < INT_MAX") (auto simp: next_front_def cmd_simps c_inc_def)
  with assms show "r' = r\<lparr>sb_front := sb_front r + 1\<rparr>" "k = (sb_front r + 1) mod sb_n r" "sb_front r < INT_MAX"
    by (auto simp: next_front_def cmd_simps)
qed

lemma q_counts_bounds:
  assumes "q_counts s"
  shows "0 < sb_n (q_ring s)" "0 \<le> sb_front (q_ring s)"
    "sb_front (q_ring s) \<le> sb_rear (q_ring s)" "0 \<le> sb_rear (q_ring s)"
    "sb_rear (q_ring s) \<le> sb_front (q_ring s) + sb_n (q_ring s)"
    "length (sb_buf (q_ring s)) = nat (sb_n (q_ring s))"
proof -
  note nonneg = cnt_nonneg [of item_reserved "q_thr s"] cnt_nonneg [of item_unposted "q_thr s"]
    cnt_nonneg [of slot_reserved "q_thr s"] cnt_nonneg [of slot_unposted "q_thr s"]
  from assms nonneg show "0 < sb_n (q_ring s)" "0 \<le> sb_front (q_ring s)"
    "sb_front (q_ring s) \<le> sb_rear (q_ring s)" "0 \<le> sb_rear (q_ring s)"
    "sb_rear (q_ring s) \<le> sb_front (q_ring s) + sb_n (q_ring s)"
    "length (sb_buf (q_ring s)) = nat (sb_n (q_ring s))"
    unfolding q_counts_def Let_def by linarith+
qed

lemma q_counts_step: "q_step s s' \<Longrightarrow> q_counts s \<Longrightarrow> q_counts s'"
proof (induction rule: q_step.induct)
  case (insert_inc i s x k r)
  from next_rear_Inr [OF insert_inc(3)] q_counts_bounds [OF insert_inc(4)] insert_inc(1,2,4)
  show ?case by (auto simp: q_counts_def Let_def cnt_update)
next
  case (remove_inc i s k r)
  from next_front_Inr [OF remove_inc(3)] q_counts_bounds [OF remove_inc(4)] remove_inc(1,2,4)
  show ?case by (auto simp: q_counts_def Let_def cnt_update)
qed (auto simp: q_counts_def Let_def cnt_update q_cmds split: if_splits)

lemma q_mutex_unique:
  assumes "q_counts s" "i < length (q_thr s)" "j < length (q_thr s)"
    "holds_mutex (q_thr s ! i)" "holds_mutex (q_thr s ! j)"
  shows "i = j"
proof (rule ccontr)
  assume "i \<noteq> j"
  with assms have "2 \<le> cnt holds_mutex (q_thr s)" by (intro cnt_two)
  with assms(1) show False by (auto simp: q_counts_def Let_def)
qed

lemma q_index_step: "q_step s s' \<Longrightarrow> q_counts s \<Longrightarrow> q_index s \<Longrightarrow> q_index s'"
proof (induction rule: q_step.induct)
  case (insert_inc i s x k r)
  have "\<not> holds_mutex (q_thr s ! j)" if "j < length (q_thr s)" "j \<noteq> i" for j
    using q_mutex_unique [OF insert_inc(4) insert_inc(1) that(1)] insert_inc(2) that(2) by auto
  with next_rear_Inr [OF insert_inc(3)] q_counts_bounds [OF insert_inc(4)] insert_inc(1,2,5)
  show ?case by (fastforce simp: q_index_def nth_list_update)
next
  case (remove_inc i s k r)
  have "\<not> holds_mutex (q_thr s ! j)" if "j < length (q_thr s)" "j \<noteq> i" for j
    using q_mutex_unique [OF remove_inc(4) remove_inc(1) that(1)] remove_inc(2) that(2) by auto
  with next_front_Inr [OF remove_inc(3)] q_counts_bounds [OF remove_inc(4)] remove_inc(1,2,5)
  show ?case by (fastforce simp: q_index_def nth_list_update)
qed (auto simp: q_index_def nth_list_update q_cmds split: if_splits)

lemma q_storing_lengths:
  assumes c: "q_counts s" and i: "i < length (q_thr s)" and h: "q_thr s ! i = Ins_store x k"
  shows "int (length (q_put s)) + 1 = sb_rear (q_ring s)"
    "int (length (q_got s)) = sb_front (q_ring s)"
    "sb_front (q_ring s) < sb_rear (q_ring s)"
proof -
  have "1 \<le> cnt storing (q_thr s)" using i h by (intro cnt_pos [of i]) auto
  with cnt_holders_parts(1,2) [of "q_thr s"] cnt_nonneg [of loading "q_thr s"]
    cnt_nonneg [of item_reserved "q_thr s"] c
  show "int (length (q_put s)) + 1 = sb_rear (q_ring s)"
    "int (length (q_got s)) = sb_front (q_ring s)"
    "sb_front (q_ring s) < sb_rear (q_ring s)"
    unfolding q_counts_def Let_def by linarith+
qed

lemma q_loading_lengths:
  assumes c: "q_counts s" and i: "i < length (q_thr s)" and h: "q_thr s ! i = Rem_load k"
  shows "int (length (q_put s)) = sb_rear (q_ring s)"
    "int (length (q_got s)) + 1 = sb_front (q_ring s)"
proof -
  have "1 \<le> cnt loading (q_thr s)" using i h by (intro cnt_pos [of i]) auto
  with cnt_holders_parts(1) [of "q_thr s"] cnt_nonneg [of storing "q_thr s"] c
  show "int (length (q_put s)) = sb_rear (q_ring s)"
    "int (length (q_got s)) + 1 = sb_front (q_ring s)"
    unfolding q_counts_def Let_def by linarith+
qed

lemma q_data_store:
  assumes c: "q_counts s" and d: "q_data s" and ix: "q_index s"
    and i: "i < length (q_thr s)" and h: "q_thr s ! i = Ins_store x k"
    and w: "slot_write k x (q_ring s) = Inr (u, r)"
  shows "q_data (s\<lparr>q_ring := r, q_thr := ts, q_put := q_put s @ [x]\<rparr>)"
proof -
  let ?n = "sb_n (q_ring s)" and ?m = "sb_rear (q_ring s)"
  note b = q_counts_bounds [OF c] and l = q_storing_lengths [OF c i h]
  from ix i h have k: "k = ?m mod ?n" by (auto simp: q_index_def)
  from w have r: "r = q_ring s\<lparr>sb_buf := (sb_buf (q_ring s))[nat k := x]\<rparr>"
    by (auto simp: slot_write_def split: if_splits)
  have len: "nat (?m mod ?n) < length (sb_buf (q_ring s))"
    using b by (simp add: nat_less_iff)
  have other: "nat (?m mod ?n) \<noteq> nat (j mod ?n)"
    if "int (length (q_got s)) < j" "j \<le> int (length (q_put s))" for j
    using mod_distinct_window [of ?n j ?m] that b l by (simp add: eq_nat_nat_iff)
  have old: "sb_buf (q_ring s) ! nat (j mod ?n) = q_put s ! nat (j - 1)"
    if "int (length (q_got s)) < j" "j \<le> int (length (q_put s))" for j
    using d that by (simp add: q_data_def)
  have le: "length (q_got s) \<le> length (q_put s)" using b l by linarith
  show ?thesis
    unfolding q_data_def
  proof (intro conjI allI impI)
    fix j
    assume "int (length (q_got (s\<lparr>q_ring := r, q_thr := ts, q_put := q_put s @ [x]\<rparr>))) < j \<and>
      j \<le> int (length (q_put (s\<lparr>q_ring := r, q_thr := ts, q_put := q_put s @ [x]\<rparr>)))"
    then have j: "int (length (q_got s)) < j" "j \<le> ?m" using l by auto
    have "sb_buf r ! nat (j mod ?n) = (q_put s @ [x]) ! nat (j - 1)"
    proof (cases "j = ?m")
      case True
      then have "nat (j - 1) = length (q_put s)" using l by linarith
      with True len show ?thesis by (simp add: r k)
    next
      case False
      then have le: "j \<le> int (length (q_put s))" using j l by linarith
      then have "nat (j - 1) < length (q_put s)" using j(1) by linarith
      with other [OF j(1) le] old [OF j(1) le] show ?thesis
        by (simp add: r k nth_append)
    qed
    then show "sb_buf (q_ring (s\<lparr>q_ring := r, q_thr := ts, q_put := q_put s @ [x]\<rparr>)) !
        nat (j mod sb_n (q_ring (s\<lparr>q_ring := r, q_thr := ts, q_put := q_put s @ [x]\<rparr>))) =
      q_put (s\<lparr>q_ring := r, q_thr := ts, q_put := q_put s @ [x]\<rparr>) ! nat (j - 1)"
      by (simp add: r)
  next
    show "q_got (s\<lparr>q_ring := r, q_thr := ts, q_put := q_put s @ [x]\<rparr>) =
        take (length (q_got (s\<lparr>q_ring := r, q_thr := ts, q_put := q_put s @ [x]\<rparr>)))
         (q_put (s\<lparr>q_ring := r, q_thr := ts, q_put := q_put s @ [x]\<rparr>))"
      using d le by (simp add: q_data_def)
  qed
qed

lemma q_data_load:
  assumes c: "q_counts s" and d: "q_data s" and ix: "q_index s"
    and i: "i < length (q_thr s)" and h: "q_thr s ! i = Rem_load k"
    and w: "slot_read k (q_ring s) = Inr (v, r)"
  shows "q_data (s\<lparr>q_ring := r, q_thr := ts, q_got := q_got s @ [v]\<rparr>)"
proof -
  let ?g = "length (q_got s)"
  note b = q_counts_bounds [OF c] and l = q_loading_lengths [OF c i h]
  from ix i h have k: "k = sb_front (q_ring s) mod sb_n (q_ring s)" by (auto simp: q_index_def)
  from w have r: "r = q_ring s" and v: "v = sb_buf (q_ring s) ! nat k"
    by (auto simp: slot_read_def split: if_splits)
  have lt: "?g < length (q_put s)" using b(3) l by linarith
  have "v = q_put s ! nat (sb_front (q_ring s) - 1)"
    using d l b(3) unfolding q_data_def v k by simp
  also have "nat (sb_front (q_ring s) - 1) = ?g" using l by linarith
  finally have "q_got s @ [v] = take (Suc ?g) (q_put s)"
    using lt d by (metis q_data_def take_Suc_conv_app_nth)
  then show ?thesis
    using d lt by (auto simp: q_data_def r min_def)
qed

text \<open>Every other step leaves the slots and the histories alone.\<close>

lemma q_data_frame:
  "q_data s \<Longrightarrow> sb_buf r = sb_buf (q_ring s) \<Longrightarrow> sb_n r = sb_n (q_ring s) \<Longrightarrow>
     q_data (s\<lparr>q_ring := r, q_thr := ts\<rparr>)"
  by (simp add: q_data_def)

lemma q_data_step:
  assumes st: "q_step s s'" and c: "q_counts s" and ix: "q_index s" and d: "q_data s"
  shows "q_data s'"
  using st
proof cases
  case (insert_store i x k u r)
  then show ?thesis using q_data_store [OF c d ix] by simp
next
  case (remove_load i k v r)
  then show ?thesis using q_data_load [OF c d ix] by simp
next
  case (insert_inc i x k r)
  with next_rear_Inr [OF insert_inc(4)] q_counts_bounds [OF c] d show ?thesis
    by (auto intro: q_data_frame)
next
  case (remove_inc i k r)
  with next_front_Inr [OF remove_inc(4)] q_counts_bounds [OF c] d show ?thesis
    by (auto intro: q_data_frame)
qed (use d in \<open>auto simp: q_cmds q_data_def split: if_splits\<close>)

subsection \<open>Every reachable state\<close>

lemma q_reach_inv:
  assumes "q_reach n t s" "0 < n" "n \<le> INT_MAX"
  shows "q_counts s \<and> q_index s \<and> q_data s"
  using assms(1)
proof induction
  case start
  with assms(2,3) show ?case
    by (simp add: q_counts_start) (simp add: q_start_def q_index_def q_data_def)
next
  case (step s s')
  then show ?case using q_counts_step q_index_step q_data_step by blast
qed

lemma q_reach_n: "q_reach n t s \<Longrightarrow> sb_n (q_ring s) = n \<and> length (q_thr s) = t"
proof (induction rule: q_reach.induct)
  case start
  show ?case by (simp add: q_start_def)
next
  case (step s s')
  from step.hyps(2) show ?case
  proof cases
    case (insert_inc i x k r)
    from insert_inc(4) step.IH insert_inc(1) show ?thesis
      by (auto simp: next_rear_def cmd_simps c_inc_def c_rem_def split: if_splits)
  next
    case (remove_inc i k r)
    from remove_inc(4) step.IH remove_inc(1) show ?thesis
      by (auto simp: next_front_def cmd_simps c_inc_def c_rem_def split: if_splits)
  qed (use step.IH in \<open>auto simp: q_cmds split: if_splits\<close>)
qed

lemma q_history:
  assumes "q_reach n t s" "0 < n" "n \<le> INT_MAX"
  shows "\<exists>rest. q_put s = q_got s @ rest \<and> int (length rest) \<le> n"
proof -
  from q_reach_inv [OF assms] have c: "q_counts s" and d: "q_data s" by auto
  note parts = cnt_holders_parts [of "q_thr s"] cnt_nonneg [of slot_reserved "q_thr s"]
    cnt_nonneg [of storing "q_thr s"]
  from d have "q_put s = q_got s @ drop (length (q_got s)) (q_put s)"
    by (metis q_data_def append_take_drop_id)
  moreover have "int (length (q_put s)) \<le> int (length (q_got s)) + n"
    using c parts q_reach_n [OF assms(1)] unfolding q_counts_def Let_def by linarith
  ultimately show ?thesis
    using assms(2) by (intro exI [of _ "drop (length (q_got s)) (q_put s)"]) auto
qed

text \<open>
  A quiescent state has no thread between its first wait and its last post.  There the ring is in
  a state of the sequential model, and it holds exactly what was stored and not fetched.
\<close>

fun in_flight :: "qloc \<Rightarrow> bool" where
  "in_flight Idle = False"
| "in_flight (Ins_slots x) = False"
| "in_flight Rem_items = False"
| "in_flight _ = True"

lemma in_flight_parts:
  "\<not> in_flight l \<Longrightarrow> \<not> holds_mutex l \<and> \<not> slot_reserved l \<and> \<not> item_unposted l \<and>
     \<not> item_reserved l \<and> \<not> slot_unposted l \<and> \<not> storing l \<and> \<not> loading l"
  by (cases l) auto

lemma q_quiescent_inv:
  assumes "q_reach n t s" "0 < n" "n \<le> INT_MAX" "cnt in_flight (q_thr s) = 0"
  shows "sb_inv (q_ring s) \<and> q_put s = q_got s @ sb_contents (q_ring s)"
proof -
  let ?r = "q_ring s"
  from q_reach_inv [OF assms(1-3)] have c: "q_counts s" and d: "q_data s" by auto
  from assms(4) have none: "\<forall>l \<in> set (q_thr s). \<not> in_flight l" by (simp add: cnt_zero_iff)
  then have z: "cnt holds_mutex (q_thr s) = 0" "cnt slot_reserved (q_thr s) = 0"
    "cnt item_unposted (q_thr s) = 0" "cnt item_reserved (q_thr s) = 0"
    "cnt slot_unposted (q_thr s) = 0" "cnt storing (q_thr s) = 0" "cnt loading (q_thr s) = 0"
    using in_flight_parts by (auto simp: cnt_zero_iff)
  have inv: "sb_inv ?r" using c z by (auto simp: q_counts_def Let_def sb_inv_def)
  have len: "int (length (q_put s)) = sb_rear ?r" "int (length (q_got s)) = sb_front ?r"
    using c z by (auto simp: q_counts_def Let_def)
  have "drop (length (q_got s)) (q_put s) = sb_contents ?r"
  proof (rule nth_equalityI)
    show "length (drop (length (q_got s)) (q_put s)) = length (sb_contents ?r)"
      using len by (simp add: length_sb_contents nat_diff_distrib' flip: len)
    fix i
    assume "i < length (drop (length (q_got s)) (q_put s))"
    then have i: "length (q_got s) + i < length (q_put s)" by simp
    then have up: "[sb_front ?r + 1 .. sb_rear ?r] ! i = sb_front ?r + 1 + int i"
      using len by (subst nth_upto) linarith+
    have "i < length [sb_front ?r + 1 .. sb_rear ?r]" using i len by simp
    then have "sb_contents ?r ! i = sb_buf ?r ! nat ((sb_front ?r + 1 + int i) mod sb_n ?r)"
      by (simp add: sb_contents_def up)
    also have "\<dots> = q_put s ! nat (sb_front ?r + 1 + int i - 1)"
      using d i len unfolding q_data_def by simp
    also have "nat (sb_front ?r + 1 + int i - 1) = length (q_got s) + i" using len by linarith
    finally show "drop (length (q_got s)) (q_put s) ! i = sb_contents ?r ! i"
      using i by simp
  qed
  with d inv show ?thesis by (metis q_data_def append_take_drop_id)
qed

subsection \<open>Progress\<close>

text \<open>
  A thread inside the protected region always finds its next command defined: no access outside
  the ring, no overflow below the insertion budget, no semaphore above its maximum.
\<close>

lemma q_runs_inc:
  assumes "q_counts s"
  shows "sb_rear (q_ring s) < INT_MAX \<Longrightarrow> \<exists>k r. next_rear (q_ring s) = Inr (k, r)"
    "sb_front (q_ring s) < INT_MAX \<Longrightarrow> \<exists>k r. next_front (q_ring s) = Inr (k, r)"
  using q_counts_bounds [OF assms] by (auto simp: next_rear_def next_front_def cmd_simps)

lemma q_runs_slot:
  assumes "q_counts s" "q_index s" "i < length (q_thr s)"
  shows "q_thr s ! i = Ins_store x k \<Longrightarrow> \<exists>r. slot_write k x (q_ring s) = Inr ((), r)"
    "q_thr s ! i = Rem_load k \<Longrightarrow> \<exists>v r. slot_read k (q_ring s) = Inr (v, r)"
  using q_counts_bounds [OF assms(1)] assms(2,3)
  by (auto simp: q_index_def slot_write_def slot_read_def)

lemma q_runs_V:
  assumes c: "q_counts s" and i: "i < length (q_thr s)"
  shows "holds_mutex (q_thr s ! i) \<Longrightarrow> \<exists>r. V_mutex (q_ring s) = Inr ((), r)"
    "item_unposted (q_thr s ! i) \<Longrightarrow> \<exists>r. V_items (q_ring s) = Inr ((), r)"
    "slot_unposted (q_thr s ! i) \<Longrightarrow> \<exists>r. V_slots (q_ring s) = Inr ((), r)"
proof -
  note nn = cnt_nonneg [of item_reserved "q_thr s"] cnt_nonneg [of slot_reserved "q_thr s"]
    cnt_nonneg [of item_unposted "q_thr s"] cnt_nonneg [of slot_unposted "q_thr s"]
    cnt_nonneg [of holds_mutex "q_thr s"]
  show "\<exists>r. V_mutex (q_ring s) = Inr ((), r)" if "holds_mutex (q_thr s ! i)"
    using cnt_pos [of i "q_thr s" holds_mutex] that i c
    by (auto simp: q_counts_def Let_def V_mutex_def V_def SEM_VALUE_MAX_def)
  show "\<exists>r. V_items (q_ring s) = Inr ((), r)" if "item_unposted (q_thr s ! i)"
  proof -
    have "int (sb_items (q_ring s)) < int SEM_VALUE_MAX"
      using cnt_pos [of i "q_thr s" item_unposted] that i c nn
      unfolding q_counts_def Let_def SEM_VALUE_MAX_def INT_MAX_def by linarith
    then show ?thesis by (simp add: V_items_def V_def)
  qed
  show "\<exists>r. V_slots (q_ring s) = Inr ((), r)" if "slot_unposted (q_thr s ! i)"
  proof -
    have "int (sb_slots (q_ring s)) < int SEM_VALUE_MAX"
      using cnt_pos [of i "q_thr s" slot_unposted] that i c nn q_counts_bounds [OF c]
      unfolding q_counts_def Let_def SEM_VALUE_MAX_def INT_MAX_def by linarith
    then show ?thesis by (simp add: V_slots_def V_def)
  qed
qed

text \<open>A step of thread \<open>j\<close> that is in flight.\<close>

definition q_moves :: "qsys \<Rightarrow> nat \<Rightarrow> bool" where
  "q_moves s j \<longleftrightarrow> (\<exists>s'. q_step s s' \<and> q_thr s' ! j \<noteq> q_thr s ! j)"

lemma q_movesI: "q_step s s' \<Longrightarrow> q_thr s' ! j \<noteq> q_thr s ! j \<Longrightarrow> q_moves s j"
  by (auto simp: q_moves_def)

lemma q_holder_moves:
  assumes c: "q_counts s" and ix: "q_index s" and j: "j < length (q_thr s)"
    and b: "sb_rear (q_ring s) < INT_MAX"
    and l: "in_flight (q_thr s ! j)" "\<not> slot_reserved (q_thr s ! j)" "\<not> item_reserved (q_thr s ! j)"
  shows "q_moves s j"
proof -
  note V = q_runs_V [OF c j] and sl = q_runs_slot [OF c ix j]
  show ?thesis
  proof (cases "q_thr s ! j")
    case (Ins_store x k)
    with sl obtain r where "slot_write k x (q_ring s) = Inr ((), r)" by auto
    with q_step.insert_store [OF j Ins_store] j Ins_store show ?thesis by (auto intro!: q_movesI)
  next
    case Ins_unlock
    with V obtain r where "V_mutex (q_ring s) = Inr ((), r)" by auto
    with q_step.insert_V_mutex [OF j Ins_unlock] j Ins_unlock show ?thesis by (auto intro!: q_movesI)
  next
    case Ins_post
    with V obtain r where "V_items (q_ring s) = Inr ((), r)" by auto
    with q_step.insert_V_items [OF j Ins_post] j Ins_post show ?thesis by (auto intro!: q_movesI)
  next
    case (Rem_load k)
    with sl obtain v r where "slot_read k (q_ring s) = Inr (v, r)" by auto
    with q_step.remove_load [OF j Rem_load] j Rem_load show ?thesis by (auto intro!: q_movesI)
  next
    case (Rem_unlock v)
    with V obtain r where "V_mutex (q_ring s) = Inr ((), r)" by auto
    with q_step.remove_V_mutex [OF j Rem_unlock] j Rem_unlock show ?thesis by (auto intro!: q_movesI)
  next
    case (Rem_post v)
    with V obtain r where "V_slots (q_ring s) = Inr ((), r)" by auto
    with q_step.remove_V_slots [OF j Rem_post] j Rem_post show ?thesis by (auto intro!: q_movesI)
  qed (use l in auto)
qed

lemma q_reserved_moves:
  assumes c: "q_counts s" and j: "j < length (q_thr s)" and b: "sb_rear (q_ring s) < INT_MAX"
    and l: "slot_reserved (q_thr s ! j) \<or> item_reserved (q_thr s ! j)"
    and h: "holds_mutex (q_thr s ! j) \<or> cnt holds_mutex (q_thr s) = 0"
  shows "q_moves s j"
proof (cases "q_thr s ! j")
  case (Ins_lock x)
  with h c have "sb_mutex (q_ring s) = 1" by (auto simp: q_counts_def Let_def)
  then obtain r where "P_mutex (q_ring s) = Inr ((), r)" by (auto simp: P_mutex_def)
  with q_step.insert_P_mutex [OF j Ins_lock] j Ins_lock show ?thesis by (auto intro!: q_movesI)
next
  case (Ins_inc x)
  from q_runs_inc(1) [OF c b] obtain k r where "next_rear (q_ring s) = Inr (k, r)" by auto
  with q_step.insert_inc [OF j Ins_inc] j Ins_inc show ?thesis by (auto intro!: q_movesI)
next
  case Rem_lock
  with h c have "sb_mutex (q_ring s) = 1" by (auto simp: q_counts_def Let_def)
  then obtain r where "P_mutex (q_ring s) = Inr ((), r)" by (auto simp: P_mutex_def)
  with q_step.remove_P_mutex [OF j Rem_lock] j Rem_lock show ?thesis by (auto intro!: q_movesI)
next
  case Rem_inc
  from q_counts_bounds(3) [OF c] b have "sb_front (q_ring s) < INT_MAX" by simp
  from q_runs_inc(2) [OF c this] obtain k r where "next_front (q_ring s) = Inr (k, r)" by auto
  with q_step.remove_inc [OF j Rem_inc] j Rem_inc show ?thesis by (auto intro!: q_movesI)
qed (use l in auto)

lemma q_in_flight_moves:
  assumes c: "q_counts s" and ix: "q_index s" and b: "sb_rear (q_ring s) < INT_MAX"
    and fl: "0 < cnt in_flight (q_thr s)"
  shows "\<exists>j < length (q_thr s). in_flight (q_thr s ! j) \<and> q_moves s j"
proof (cases "0 < cnt holds_mutex (q_thr s)")
  case True
  from cnt_pos_ex [OF this] obtain j where j: "j < length (q_thr s)" "holds_mutex (q_thr s ! j)"
    by blast
  then have "in_flight (q_thr s ! j)" using in_flight_parts by blast
  then show ?thesis
    using q_reserved_moves [OF c j(1) b] q_holder_moves [OF c ix j(1) b] j by blast
next
  case False
  then have z: "cnt holds_mutex (q_thr s) = 0" using cnt_nonneg [of holds_mutex "q_thr s"] by linarith
  from cnt_pos_ex [OF fl] obtain j where j: "j < length (q_thr s)" "in_flight (q_thr s ! j)"
    by blast
  then show ?thesis
    using q_reserved_moves [OF c j(1) b] q_holder_moves [OF c ix j(1) b] z by blast
qed

subsection \<open>Uninterrupted calls are runs\<close>

text \<open>
  What a whole call of the sequential model does is one of the runs of the interleaved system, by
  any thread that is outside the queue; so is every sequence of calls.
\<close>

lemma q_reach_insert:
  assumes re: "q_reach n t s" and i: "i < t" "q_thr s ! i = Idle"
    and run: "sbuf_insert x (q_ring s) = Inr ((), r)"
  shows "q_reach n t (s\<lparr>q_ring := r, q_put := q_put s @ [x]\<rparr>)"
proof -
  from run obtain r1 r2 r3 r4 r5 k where
    c: "P_slots (q_ring s) = Inr ((), r1)" "P_mutex r1 = Inr ((), r2)" "next_rear r2 = Inr (k, r3)"
      "slot_write k x r3 = Inr ((), r4)" "V_mutex r4 = Inr ((), r5)" "V_items r5 = Inr ((), r)"
    by (auto simp: sbuf_insert_def bnd_eq_Inr_iff)
  have l: "i < length (q_thr s)" using q_reach_n [OF re] i(1) by simp
  have self: "(q_thr s)[i := Idle] = q_thr s" using i(2) list_update_id by metis
  let ?at = "\<lambda>r p. s\<lparr>q_ring := r, q_thr := (q_thr s)[i := p]\<rparr>"
  let ?in = "\<lambda>r p. s\<lparr>q_ring := r, q_thr := (q_thr s)[i := p], q_put := q_put s @ [x]\<rparr>"
  have "q_reach n t (?at (q_ring s) (Ins_slots x))"
    using q_reach.step [OF re call_insert [OF l i(2), of x]] by simp
  from q_reach.step [OF this insert_P_slots [of i _ x "()" r1]]
  have "q_reach n t (?at r1 (Ins_lock x))" using l c by simp
  from q_reach.step [OF this insert_P_mutex [of i _ x "()" r2]]
  have "q_reach n t (?at r2 (Ins_inc x))" using l c by simp
  from q_reach.step [OF this insert_inc [of i _ x k r3]]
  have "q_reach n t (?at r3 (Ins_store x k))" using l c by simp
  from q_reach.step [OF this insert_store [of i _ x k "()" r4]]
  have "q_reach n t (?in r4 Ins_unlock)" using l c by simp
  from q_reach.step [OF this insert_V_mutex [of i _ "()" r5]]
  have "q_reach n t (s\<lparr>q_put := q_put s @ [x], q_ring := r5, q_thr := (q_thr s)[i := Ins_post]\<rparr>)" using l c by simp
  from q_reach.step [OF this insert_V_items [of i _ "()" r]]
  have "q_reach n t (s\<lparr>q_put := q_put s @ [x], q_ring := r, q_thr := (q_thr s)[i := Idle]\<rparr>)"
    using l c by simp
  then show ?thesis using self by (cases s) simp
qed

lemma q_reach_remove:
  assumes re: "q_reach n t s" and i: "i < t" "q_thr s ! i = Idle"
    and run: "sbuf_remove (q_ring s) = Inr (v, r)"
  shows "q_reach n t (s\<lparr>q_ring := r, q_got := q_got s @ [v]\<rparr>)"
proof -
  from run obtain r1 r2 r3 r4 r5 k where
    c: "P_items (q_ring s) = Inr ((), r1)" "P_mutex r1 = Inr ((), r2)" "next_front r2 = Inr (k, r3)"
      "slot_read k r3 = Inr (v, r4)" "V_mutex r4 = Inr ((), r5)" "V_slots r5 = Inr ((), r)"
    by (auto simp: sbuf_remove_def bnd_eq_Inr_iff ret_def)
  have l: "i < length (q_thr s)" using q_reach_n [OF re] i(1) by simp
  have self: "(q_thr s)[i := Idle] = q_thr s" using i(2) list_update_id by metis
  let ?at = "\<lambda>r p. s\<lparr>q_ring := r, q_thr := (q_thr s)[i := p]\<rparr>"
  let ?in = "\<lambda>r p. s\<lparr>q_ring := r, q_thr := (q_thr s)[i := p], q_got := q_got s @ [v]\<rparr>"
  have "q_reach n t (?at (q_ring s) Rem_items)"
    using q_reach.step [OF re call_remove [OF l i(2)]] by simp
  from q_reach.step [OF this remove_P_items [of i _ "()" r1]]
  have "q_reach n t (?at r1 Rem_lock)" using l c by simp
  from q_reach.step [OF this remove_P_mutex [of i _ "()" r2]]
  have "q_reach n t (?at r2 Rem_inc)" using l c by simp
  from q_reach.step [OF this remove_inc [of i _ k r3]]
  have "q_reach n t (?at r3 (Rem_load k))" using l c by simp
  from q_reach.step [OF this remove_load [of i _ k v r4]]
  have "q_reach n t (?in r4 (Rem_unlock v))" using l c by simp
  from q_reach.step [OF this remove_V_mutex [of i _ v "()" r5]]
  have "q_reach n t (s\<lparr>q_got := q_got s @ [v], q_ring := r5, q_thr := (q_thr s)[i := Rem_post v]\<rparr>)" using l c by simp
  from q_reach.step [OF this remove_V_slots [of i _ v "()" r]]
  have "q_reach n t (s\<lparr>q_got := q_got s @ [v], q_ring := r, q_thr := (q_thr s)[i := Idle]\<rparr>)"
    using l c by simp
  then show ?thesis using self by (cases s) simp
qed

lemma q_reach_calls:
  assumes "q_reach n t s" "i < t" "q_thr s ! i = Idle"
    and "q_run sbuf_insert sbuf_remove ops (q_ring s) = Inr (outs, r)"
  shows "q_reach n t (s\<lparr>q_ring := r, q_put := q_put s @ puts ops, q_got := q_got s @ outs\<rparr>)"
  using assms
proof (induction ops arbitrary: s outs)
  case Nil
  then show ?case by (cases s) (auto simp: ret_def)
next
  case (Cons op ops)
  show ?case
  proof (cases op)
    case (Put x)
    with Cons.prems(4) obtain r1 where r1: "sbuf_insert x (q_ring s) = Inr ((), r1)"
      "q_run sbuf_insert sbuf_remove ops r1 = Inr (outs, r)" by (auto simp: bnd_eq_Inr_iff)
    from Cons.IH [OF q_reach_insert [OF Cons.prems(1-3) r1(1)]] r1(2) Cons.prems(2,3) Put
    show ?thesis by simp
  next
    case Get
    with Cons.prems(4) obtain v r1 xs where r1: "sbuf_remove (q_ring s) = Inr (v, r1)"
      "q_run sbuf_insert sbuf_remove ops r1 = Inr (xs, r)" "outs = v # xs"
      by (auto simp: bnd_eq_Inr_iff ret_def)
    from Cons.IH [OF q_reach_remove [OF Cons.prems(1-3) r1(1)]] r1(2,3) Cons.prems(2,3) Get
    show ?thesis by simp
  qed
qed

end
