(* ===== verification/Samples.thy ===== *)
theory Samples
  imports Proxy Worker_Faults Sio Rio Sbuf_Conc
begin

section \<open>Concrete states\<close>

text \<open>
  Small closed states for the applications of the properties: a network in which every name
  resolves, two clients that ask for the same object, a server that answers \<open>hello\<close>, and caches
  with no, one small, and one large entry.
\<close>

lemma get_line_numeral [simp]:
  "get_line (numeral k) [] = []"
  "get_line (numeral k) (c # cs) = (if c = LF then [LF] else c # get_line (pred_numeral k) cs)"
  by (simp_all add: numeral_eq_Suc)

definition net0 :: net where
  "net0 = \<lparr>net_gai = \<lambda>h po. if h = Some ''nowhere'' then Inl 1 else if h = Some ''down'' then Inr [7] else Inr [1],
     net_socket = \<lambda>a. True, net_connect = \<lambda>a. a = 1, net_bind = \<lambda>a. True, net_listen = True,
     net_name = \<lambda>c. True, net_close = \<lambda>fd. None\<rparr>"

definition req_line :: "string \<Rightarrow> string" where
  "req_line h = ''GET http://'' @ h @ ''/ HTTP/1.0'' @ CRLF"

text \<open>Client descriptors 4 and 5; the server's bytes come on descriptors from 20 on.\<close>

definition os_with :: "string \<Rightarrow> block \<Rightarrow> os" where
  "os_with l resp = \<lparr>os_errno = E_none, os_open = {3, 4, 5},
     os_in = (\<lambda>fd. if fd = 4 \<or> fd = 5 then [Rd_data l, Rd_err EINTR, Rd_data CRLF]
       else if 20 \<le> fd \<and> resp \<noteq> [] then [Rd_data resp] else []),
     os_wr = (\<lambda>fd. []), os_out = (\<lambda>fd. []), os_fresh_fd = 20, os_net = net0,
     os_accepts = [4, 5], os_stdout = [], os_overlap = append_text\<rparr>"

definition blank_cache :: cache where
  "blank_cache = \<lparr>rw_readcnt = 0, rw_mutex = 0, rw_w = 0, c_heap = Map.empty, c_fresh = 0,
     c_junk = (\<lambda>a i. NUL), c_front = Null, c_end = Null, c_count = 0, c_load = 0\<rparr>"

definition cache0 :: cache where
  "cache0 = (case cache_init blank_cache of Inr (u, s) \<Rightarrow> s | Inl e \<Rightarrow> blank_cache)"

lemma cache0_ok: "cache_valid cache0" "contents cache0 = []" "c_junk cache0 a i = NUL"
proof -
  have "c_heap blank_cache = Map.empty" by (simp add: blank_cache_def)
  from cache_init_valid [OF this] show "cache_valid cache0" "contents cache0 = []"
    by (auto simp: cache0_def)
  show "c_junk cache0 a i = NUL" by (simp add: cache0_def cache_init_run blank_cache_def)
qed

text \<open>An empty cache whose \<open>malloc\<close> returns blocks full of the letter \<open>x\<close>.\<close>

definition dirty_cache :: cache where
  "dirty_cache = (case cache_init (blank_cache\<lparr>c_junk := \<lambda>a i. CHR ''x''\<rparr>) of Inr (u, s) \<Rightarrow> s | Inl e \<Rightarrow> blank_cache)"

lemma dirty_cache_ok:
  "cache_valid dirty_cache" "contents dirty_cache = []" "c_junk dirty_cache a i = CHR ''x''"
proof -
  have "c_heap (blank_cache\<lparr>c_junk := \<lambda>a i. CHR ''x''\<rparr>) = Map.empty" by (simp add: blank_cache_def)
  from cache_init_valid [OF this] show "cache_valid dirty_cache" "contents dirty_cache = []"
    by (auto simp: dirty_cache_def)
  show "c_junk dirty_cache a i = CHR ''x''" by (simp add: dirty_cache_def cache_init_run blank_cache_def)
qed

definition w0 :: world where
  "w0 = \<lparr>w_os = os_with (req_line ''h'') ''hello'', w_cache = cache0\<rparr>"

definition junk0 :: junk where
  "junk0 = (\<lambda>name i. CHR ''x'')"

lemma req_line_valid:
  assumes "scan_words 3 (req_line h) = [''GET'', ''http://'' @ h @ ''/'', ''HTTP/1.0'']"
    and "uri_parts_ok h None ''/''" "NUL \<notin> set h" "length h \<le> 100"
  shows "valid_line (req_line h) h ''80'' ''/''"
proof -
  have "''http://'' @ h @ ''/'' = uri_text ''http'' h None ''/''" by (simp add: uri_text_def)
  moreover have "NUL \<notin> set (req_line h)" "length (req_line h) \<le> 8191"
    using assms(3,4) by (simp_all add: req_line_def)
  ultimately show ?thesis unfolding valid_line_def
    by (intro conjI exI [of _ "''GET''"] exI [of _ "''http://'' @ h @ ''/''"] exI [of _ "''HTTP/1.0''"]
        exI [of _ "''http''"] exI [of _ None] exI [of _ "''/''"] assms(1,2)) simp_all
qed

lemma req_lines:
  "h \<in> {''h'', ''down'', ''nowhere''} \<Longrightarrow> valid_line (req_line h) h ''80'' ''/''"
  "h \<in> {''h'', ''down'', ''nowhere''} \<Longrightarrow> get_line 8191 (req_line h @ CRLF) = req_line h"
  by (auto intro!: req_line_valid simp: uri_parts_ok_def numeral_3_eq_3 scan_str_def isspace_def)
    (auto simp: req_line_def numeral_3_eq_3 scan_str_def isspace_def)

lemma os_with_simps [simp]:
  "os_open (os_with l resp) = {3, 4, 5}" "os_wr (os_with l resp) fd = []"
  "os_out (os_with l resp) fd = []" "os_fresh_fd (os_with l resp) = 20" "os_net (os_with l resp) = net0"
  "os_accepts (os_with l resp) = [4, 5]" "fds_ok (os_with l resp)" "appends (os_with l resp)"
  "os_overlap (os_with l resp) = append_text"
  "os_in (os_with l resp) 4 = [Rd_data l, Rd_err EINTR, Rd_data CRLF]"
  "os_in (os_with l resp) 5 = [Rd_data l, Rd_err EINTR, Rd_data CRLF]"
  "os_in (os_with l resp) (- 1) = []"
  by (simp_all add: os_with_def fds_ok_def appends_def)

lemma requests_sample:
  "fd = 4 \<or> fd = 5 \<Longrightarrow> h \<in> {''h'', ''down'', ''nowhere''} \<Longrightarrow>
     requests (os_with (req_line h) resp) fd h ''80'' ''/''"
  using req_lines [of h] by (auto simp: requests_def simp del: insert_iff)

lemma server0: "server_sends (os_with l resp) ''h'' po resp"
  by (auto simp: server_sends_def server_up_def reachable_def net0_def os_with_def)

lemma relay_hello: "relay ''hello'' = ''hello'' @ [NUL]"
  by (subst relay.simps) (simp add: ends_line_def)

lemma storable_hello: "storable cache0 (response_block (relay ''hello'')) (length (relay ''hello''))"
  using cache0_ok
  by (simp add: storable_iff cstr_response_block relay_hello INT_MAX_def)
    (simp add: response_block_def MAX_OBJECT_SIZE_def cstr_Cons)

lemma hello_text: "text_response (relay ''hello'')" "copy_terminated (w_cache w0) (relay ''hello'')"
  by (simp_all add: relay_hello text_response_def copy_terminated_def)

lemma dirty_text:
  "text_response (relay [CHR ''o'', CHR ''k'', LF])"
  "length (relay [CHR ''o'', CHR ''k'', LF]) < MAX_OBJECT_SIZE"
  "\<not> copy_terminated dirty_cache (relay [CHR ''o'', CHR ''k'', LF])"
proof -
  have "relay [CHR ''o'', CHR ''k'', LF] = [CHR ''o'', CHR ''k'', LF]"
    by (subst relay.simps) (simp add: ends_line_def)
  then show "text_response (relay [CHR ''o'', CHR ''k'', LF])"
    "length (relay [CHR ''o'', CHR ''k'', LF]) < MAX_OBJECT_SIZE"
    "\<not> copy_terminated dirty_cache (relay [CHR ''o'', CHR ''k'', LF])"
    by (simp_all add: text_response_def copy_terminated_def dirty_cache_ok MAX_OBJECT_SIZE_def)
qed

text \<open>A cache with one entry.\<close>

definition cache_with :: "string \<Rightarrow> block \<Rightarrow> nat \<Rightarrow> cache" where
  "cache_with h payload n =
     (case add_cache h ''80'' ''/'' payload n cache0 of Inr (u, s) \<Rightarrow> s | Inl e \<Rightarrow> cache0)"

lemma cache_with_ok:
  assumes "storable cache0 payload n"
  shows "cache_valid (cache_with h payload n) \<and>
    (\<exists>blk. take n blk = take n payload \<and> contents (cache_with h payload n) = [(h, ''80'', ''/'', blk, n)] \<and>
      lru_find (entry_match h ''80'' ''/'') (contents (cache_with h payload n)) = Some (h, ''80'', ''/'', blk, n))"
proof -
  have "entry_match h ''80'' ''/'' (h, ''80'', ''/'', [], 0)" by simp
  from lru.found_after_store [OF cache0_ok(1) assms this] obtain s1 blk where
    s1: "add_cache h ''80'' ''/'' payload n cache0 = Inr ((), s1)" "cache_valid s1"
      "take n blk = take n payload" "contents s1 = lru_evict (contents cache0 @ [(h, ''80'', ''/'', blk, n)])"
      "lru_find (entry_match h ''80'' ''/'') (contents s1) = Some (h, ''80'', ''/'', blk, n)" by blast
  have "contents s1 \<noteq> []" using s1(5) by (auto simp: lru_find_def)
  then have "contents s1 = [(h, ''80'', ''/'', blk, n)]"
    using s1(4) cache0_ok(2) by (auto split: if_splits)
  with s1 show ?thesis by (auto simp: cache_with_def)
qed

text \<open>A cache that holds the object of the server, and one that is more than half full.\<close>

definition hello_cache :: cache where
  "hello_cache = cache_with ''h'' (response_block (relay ''hello'')) (length (relay ''hello''))"

lemma hello_cache_ok:
  "cache_valid hello_cache"
  "\<exists>blk. lru_find (entry_match ''h'' ''80'' ''/'') (contents hello_cache) =
     Some (''h'', ''80'', ''/'', blk, length (relay ''hello''))"
  using cache_with_ok [OF storable_hello, of "''h''"] by (auto simp: hello_cache_def)

definition big :: block where
  "big = replicate 600000 (CHR ''a'') @ [NUL]"

lemma cstr_text: "NUL \<notin> set t \<Longrightarrow> cstr (t @ [NUL]) = t"
  by (simp add: cstr_append cstr_Cons)

lemma cstr_big: "cstr big = replicate 600000 (CHR ''a'')"
  unfolding big_def by (rule cstr_text) (simp only: set_replicate_conv_if, simp)

lemma big_length: "length (cstr big) = 600000" "length big = 600001" "NUL \<in> set big"
  by (simp_all only: cstr_big length_replicate)
    (simp_all only: big_def length_append length_replicate set_append, simp_all)

lemma storable_big:
  "int (length (contents s)) < INT_MAX \<Longrightarrow> storable s big 600001"
  by (simp add: storable_iff big_length)

definition half_full :: cache where
  "half_full = cache_with ''h'' big 600001"

lemma half_full_ok:
  "cache_valid half_full"
  "\<exists>blk. contents half_full = [(''h'', ''80'', ''/'', blk, 600001)] \<and> length (cstr blk) = 600000"
proof -
  have "storable cache0 big 600001" by (rule storable_big) (simp add: cache0_ok INT_MAX_def)
  from cache_with_ok [OF this, of "''h''"] obtain blk where
    b: "cache_valid half_full" "take 600001 blk = take 600001 big"
      "contents half_full = [(''h'', ''80'', ''/'', blk, 600001)]" by (auto simp: half_full_def)
  have "blk = big @ drop 600001 blk"
    using append_take_drop_id [of 600001 blk] b(2) big_length(2) by simp
  then have "cstr blk = cstr big" using big_length(3) cstr_append [of big] by metis
  with b show "cache_valid half_full"
    "\<exists>blk. contents half_full = [(''h'', ''80'', ''/'', blk, 600001)] \<and> length (cstr blk) = 600000"
    by (simp_all add: big_length)
qed

text \<open>A request line that is one long word.\<close>

definition word_line :: "nat \<Rightarrow> string" where
  "word_line n = replicate n (CHR ''a'') @ CRLF"

lemma get_line_newline: "LF \<notin> set xs \<Longrightarrow> length xs < m \<Longrightarrow> get_line m (xs @ LF # ys) = xs @ [LF]"
proof (induction xs arbitrary: m)
  case Nil
  then show ?case by (cases m) auto
next
  case (Cons x xs)
  then show ?case by (cases m) auto
qed

lemma word_line_ok:
  assumes "0 < n"
  shows "scan_words 3 (word_line n) = [replicate n (CHR ''a'')]" "length (word_line n) = n + 2"
    "NUL \<notin> set (word_line n)" "n + 2 \<le> 8191 \<Longrightarrow> get_line 8191 (word_line n @ CRLF) = word_line n"
proof -
  have "scan_str ([] @ replicate n (CHR ''a'') @ CRLF) = Some (replicate n (CHR ''a''), CRLF)"
    using assms by (intro scan_str_word) (auto simp: isspace_def)
  then show "scan_words 3 (word_line n) = [replicate n (CHR ''a'')]"
    by (simp add: word_line_def numeral_3_eq_3) (simp add: scan_str_def isspace_def)
  show "length (word_line n) = n + 2" "NUL \<notin> set (word_line n)" by (simp_all add: word_line_def)
  assume "n + 2 \<le> 8191"
  then show "get_line 8191 (word_line n @ CRLF) = word_line n"
    using get_line_newline [of "replicate n (CHR ''a'') @ [CR]" 8191 CRLF]
    by (simp add: word_line_def)
qed

definition p0 :: proxy where
  "p0 = \<lparr>px_world = \<lparr>w_os = os_with (req_line ''h'') ''hello'', w_cache = blank_cache\<rparr>,
     px_queue = \<lparr>sb_buf = [], sb_n = 0, sb_front = 0, sb_rear = 0, sb_mutex = 0, sb_slots = 0, sb_items = 0\<rparr>,
     px_workers = []\<rparr>"

text \<open>Queues of two slots: empty, and with the items of a list.\<close>

definition ring :: "int list \<Rightarrow> sbuf" where
  "ring xs = \<lparr>sb_buf = [0, 0][1 := (xs @ [0]) ! 0, 0 := (xs @ [0, 0]) ! 1], sb_n = 2, sb_front = 0,
     sb_rear = int (length xs), sb_mutex = 1, sb_slots = 2 - length xs, sb_items = length xs\<rparr>"

lemma ring_ok: "sb_inv (ring [])" "sb_inv (ring [x])" "sb_inv (ring [x, y])"
    "sb_contents (ring []) = []" "sb_contents (ring [x]) = [x]" "sb_contents (ring [x, y]) = [x, y]"
  by (simp_all add: sb_inv_def ring_def sb_contents_def INT_MAX_def upto_rec1 eval_nat_numeral)

text \<open>The proxy at work, with client 4 in the queue.\<close>

definition p1 :: proxy where
  "p1 = \<lparr>px_world = w0, px_queue = ring [4], px_workers = [0..<8]\<rparr>"

lemma w0_simps [simp]: "w_os w0 = os_with (req_line ''h'') ''hello''" "w_cache w0 = cache0"
  by (simp_all add: w0_def)

lemma hello_size: "length (relay ''hello'') = 6" "length (relay ''hello'') < MAX_OBJECT_SIZE"
  by (simp_all add: relay_hello MAX_OBJECT_SIZE_def)

lemma find_cache0: "lru_find m (contents cache0) = None"
  by (simp add: cache0_ok lru_find_def)

text \<open>A server on descriptor 3 whose two lines come in three pieces.\<close>

definition relay_os :: os where
  "relay_os = (os_with (req_line ''h'') [])\<lparr>os_in :=
     (\<lambda>fd. if fd = 3 then [Rd_data ''a'', Rd_err EINTR, Rd_data [LF], Rd_data ''b''] else [])\<rparr>"

lemma relay_os_tape: "tape (os_in relay_os 3) = [CHR ''a'', LF, CHR ''b'']"
    "clean (os_in relay_os 3)" "os_open relay_os = {3, 4, 5}" "os_out relay_os fd = []"
    "draining (os_wr relay_os 4)" "appends relay_os"
  by (simp_all add: relay_os_def appends_def)

lemma relay_os_relay: "relay [CHR ''a'', LF, CHR ''b''] = [CHR ''a'', LF, CHR ''b'', NUL]"
  by (subst relay.simps, simp add: ends_line_def)
    (subst relay.simps, simp add: ends_line_def)

end
