(* ===== verification/Cache_Results.thy ===== *)
theory Cache_Results
  imports Samples
begin

section \<open>What the cache and its lock guarantee\<close>

text \<open>
  The properties of \<open>lib/src/cache.c\<close> that its callers rely on, and the ways in which the separate
  critical sections of one call let another thread interfere.  The abstract cache is the list of
  the entries, from the least to the most recently used one (\<open>Cache_Lru\<close>).
\<close>

subsection \<open>The operations implement a list of entries in order of use\<close>

text \<open>C4. \<open>is_cached\<close> is the lookup of the abstract cache, on both branches.  A miss gives 0 and
  changes nothing.  A hit gives the youngest matching entry, copies its \<open>bytesize\<close> bytes to the
  start of the caller's buffer, and moves the entry to the end of the list.\<close>

theorem is_cached_is_lookup:
  assumes "cache_valid s" "\<And>e. e \<in> set (contents s) \<Longrightarrow> snd (snd (snd (snd e))) \<le> length buf"
  shows "case lru_find (entry_match h po pa) (contents s) of
      None \<Rightarrow> is_cached h po pa buf s = Inr (None, s)
    | Some (h', po', pa', blk, n) \<Rightarrow>
        \<exists>s'. is_cached h po pa buf s = Inr (Some (take n blk @ drop n buf, n), s') \<and> cache_valid s' \<and>
          contents s' = lru_touch (entry_match h po pa) (contents s)"
proof (cases "lru_find (entry_match h po pa) (contents s)")
  case None
  then show ?thesis using lru.lookup_miss [OF assms(1) None] by simp
next
  case (Some x)
  obtain h' po' pa' blk n where x: "x = (h', po', pa', blk, n)" by (cases x)
  have "x \<in> set (contents s)" using Some
    by (metis find_Some_iff lru_find_def nth_mem set_rev)
  from assms(2) [OF this] have "n \<le> length buf" by (simp add: x)
  from lru.lookup_hit [OF assms(1) Some [unfolded x] this] show ?thesis by (simp add: Some x)
qed

lemma letter_case: "strcasecmp0 ''h'' ''H''" "strcasecmp0 ''/A'' ''/a''" "strcasecmp0 ''80'' ''80''"
    "strcasecmp0 ''/'' ''/''"
  by code_simp+

lemma is_cached_is_lookup_witness:
  "\<exists>blk s'. is_cached ''H'' ''80'' ''/'' (replicate 8 NUL) hello_cache =
     Inr (Some (take 6 blk @ replicate 2 NUL, 6), s') \<and> cache_valid s'"
proof -
  obtain blk where c: "contents hello_cache = [(''h'', ''80'', ''/'', blk, 6)]"
    using cache_with_ok [OF storable_hello, of "''h''"] by (auto simp: hello_cache_def hello_size(1))
  have "case lru_find (entry_match ''H'' ''80'' ''/'') (contents hello_cache) of
      None \<Rightarrow> is_cached ''H'' ''80'' ''/'' (replicate 8 NUL) hello_cache = Inr (None, hello_cache)
    | Some (h', po', pa', blk, n) \<Rightarrow>
        \<exists>s'. is_cached ''H'' ''80'' ''/'' (replicate 8 NUL) hello_cache =
            Inr (Some (take n blk @ drop n (replicate 8 NUL), n), s') \<and> cache_valid s' \<and>
          contents s' = lru_touch (entry_match ''H'' ''80'' ''/'') (contents hello_cache)"
    by (rule is_cached_is_lookup [OF hello_cache_ok(1)]) (simp add: c)
  then show ?thesis by (intro exI [of _ blk]) (auto simp: c lru_find_def letter_case)
qed

text \<open>C5. \<open>add_cache\<close> on a terminated array of which \<open>n\<close> bytes, not fewer than its text, are to be stored.
  When the \<open>n\<close> bytes reach behind the text and its NUL, the copy overflows the block that \<open>new_node\<close> sized
  with \<open>strlen\<close>.  Otherwise, when the copy holds a NUL, it is the insertion of the abstract cache: it
  appends the new entry and drops the oldest ones until the payloads are within 1049000 bytes, so the
  new entry survives, and it keeps the cache valid: the list well linked, the counters exact, no node
  leaked, the lock free.  The copy holds a NUL when the last of the \<open>n\<close> bytes is the NUL of the text,
  or when \<open>malloc\<close> happened to leave one in the byte that is not copied.  When neither is so, \<open>enqueue\<close>
  reads behind the block.\<close>

theorem add_cache_is_insertion:
  assumes "cache_valid s" "NUL \<in> set payload" "length payload \<le> 1049000"
    and "int (length (contents s)) < INT_MAX"
    and "length (cstr payload) \<le> n" "n \<le> length payload"
  shows "if length (cstr payload) + 1 < n then add_cache h po pa payload n s = Inl Overflow
    else if n = length (cstr payload) + 1 \<or> c_junk s (c_fresh s) n = NUL
    then \<exists>s' blk es. add_cache h po pa payload n s = Inr ((), s') \<and> cache_valid s' \<and>
      take n blk = take n payload \<and>
      contents s' = lru_evict (contents s @ [(h, po, pa, blk, n)]) \<and>
      contents s' = es @ [(h, po, pa, blk, n)] \<and> lru_load (contents s') \<le> 1049000
    else add_cache h po pa payload n s = Inl Overread"
proof -
  consider (over) "length (cstr payload) + 1 < n"
    | (ok) "\<not> length (cstr payload) + 1 < n" "n = length (cstr payload) + 1 \<or> c_junk s (c_fresh s) n = NUL"
    | (bad) "n = length (cstr payload)" "c_junk s (c_fresh s) n \<noteq> NUL"
    using assms(5) by linarith
  then show ?thesis
  proof cases
    case over
    then show ?thesis using add_cache_overflow [OF assms(2) _ assms(6)] by simp
  next
    case ok
    have "storable s payload n" using ok assms(2-5) by (auto simp: storable_iff)
    from lru.store_ok [OF assms(1) this, of h po pa] obtain s' blk where
      s: "add_cache h po pa payload n s = Inr ((), s')" "cache_valid s'" "take n blk = take n payload"
        "entry_len (h, po, pa, blk, n) \<le> 1049000"
        "contents s' = lru_evict (contents s @ [(h, po, pa, blk, n)])" by blast
    with lru_evict_keeps_last [OF s(4), of "contents s"] lru_evict_load [of "contents s @ [(h, po, pa, blk, n)]"] ok
    show ?thesis by auto
  next
    case bad
    have "text_payload s payload n" "\<not> ends_copied s payload n"
      using bad assms(2-4) by (auto simp: text_payload_def ends_copied_def)
    with bad show ?thesis using add_cache_overread [OF assms(1)] by simp
  qed
qed

lemma add_cache_is_insertion_witness:
  "(\<exists>s' blk. add_cache ''b'' ''80'' ''/'' big 600001 half_full = Inr ((), s') \<and>
     contents s' = [(''b'', ''80'', ''/'', blk, 600001)]) \<and>
   add_cache ''b'' ''80'' ''/'' (''ok'' @ [LF, NUL]) 3 dirty_cache = Inl Overread \<and>
   add_cache ''b'' ''80'' ''/'' (''ok'' @ [NUL, LF]) 4 dirty_cache = Inl Overflow"
proof -
  obtain old where c: "contents half_full = [(''h'', ''80'', ''/'', old, 600001)]" "length (cstr old) = 600000"
    using half_full_ok(2) by blast
  have room: "int (length (contents half_full)) < INT_MAX" by (simp add: c INT_MAX_def)
  have "\<exists>s' blk es. add_cache ''b'' ''80'' ''/'' big 600001 half_full = Inr ((), s') \<and>
      take 600001 blk = take 600001 big \<and>
      contents s' = lru_evict (contents half_full @ [(''b'', ''80'', ''/'', blk, 600001)]) \<and>
      contents s' = es @ [(''b'', ''80'', ''/'', blk, 600001)]"
    using add_cache_is_insertion [OF half_full_ok(1) big_length(3) _ room, of 600001 "''b''" "''80''" "''/''"]
    by (auto simp: big_length)
  then obtain s' blk es where
    s: "add_cache ''b'' ''80'' ''/'' big 600001 half_full = Inr ((), s')" "take 600001 blk = take 600001 big"
      "contents s' = lru_evict [(''h'', ''80'', ''/'', old, 600001), (''b'', ''80'', ''/'', blk, 600001)]"
      "contents s' = es @ [(''b'', ''80'', ''/'', blk, 600001)]"
    by (auto simp: c)
  have "blk = big @ drop 600001 blk"
    using append_take_drop_id [of 600001 blk] s(2) big_length(2) by simp
  then have "cstr blk = cstr big" using big_length(3) cstr_append [of big] by metis
  then have "length (cstr blk) = 600000" by (simp only: big_length)
  with s have "\<exists>s' blk. add_cache ''b'' ''80'' ''/'' big 600001 half_full = Inr ((), s') \<and>
     contents s' = [(''b'', ''80'', ''/'', blk, 600001)]" by (auto simp: c(2))
  moreover have d: "int (length (contents dirty_cache)) < INT_MAX" by (simp add: dirty_cache_ok INT_MAX_def)
  have "add_cache ''b'' ''80'' ''/'' (''ok'' @ [LF, NUL]) 3 dirty_cache = Inl Overread"
    using add_cache_is_insertion [OF dirty_cache_ok(1) _ _ d, of "''ok'' @ [LF, NUL]" 3 "''b''" "''80''" "''/''"]
    by (simp add: cstr_Cons dirty_cache_ok)
  moreover have "add_cache ''b'' ''80'' ''/'' (''ok'' @ [NUL, LF]) 4 dirty_cache = Inl Overflow"
    using add_cache_is_insertion [OF dirty_cache_ok(1) _ _ d, of "''ok'' @ [NUL, LF]" 4 "''b''" "''80''" "''/''"]
    by (simp add: cstr_Cons)
  ultimately show ?thesis by blast
qed

text \<open>What was stored last is what a lookup finds: after \<open>add_cache\<close>, \<open>is_cached\<close> on a key that
  equals the stored one up to letter case hits, gives back exactly the \<open>n\<close> bytes, and leaves the
  order of the entries as it is.\<close>

theorem lookup_after_add:
  assumes "cache_valid s" "storable s payload n" "n \<le> length buf"
    and "strcasecmp0 h h'" "strcasecmp0 po po'" "strcasecmp0 pa pa'"
  shows "\<exists>s1 s2. add_cache h po pa payload n s = Inr ((), s1) \<and>
    is_cached h' po' pa' buf s1 = Inr (Some (take n payload @ drop n buf, n), s2) \<and>
    cache_valid s2 \<and> contents s2 = contents s1"
  using lru.lookup_after_store [OF assms(1-3), of h' po' pa' h po pa] assms(4-6) by simp

lemma lookup_after_add_witness:
  "\<exists>s1 s2. add_cache ''h'' ''80'' ''/A'' (''hello'' @ [NUL]) 6 cache0 = Inr ((), s1) \<and>
     is_cached ''H'' ''80'' ''/a'' (replicate 7 NUL) s1 = Inr (Some (''hello'' @ [NUL, NUL], 6), s2)"
proof -
  have "storable cache0 (''hello'' @ [NUL]) 6"
    using cache0_ok by (simp add: storable_iff INT_MAX_def cstr_Cons)
  from lookup_after_add [OF cache0_ok(1) this, of "replicate 7 NUL" "''h''" "''H''" "''80''" "''80''" "''/A''" "''/a''"]
  show ?thesis by (auto simp: letter_case)
qed

subsection \<open>Creation, the consistency check, and destruction\<close>

text \<open>\<open>cache_init\<close> gives a valid empty cache, and on a valid cache none of the assertions of
  \<open>cache_check\<close> fails: the check walks the list, changes nothing, and ends.\<close>

theorem cache_init_and_check:
  assumes "c_heap s = Map.empty" "cache_valid v"
  shows "(\<exists>s'. cache_init s = Inr ((), s') \<and> cache_valid s' \<and> contents s' = []) \<and>
    cache_check v = Inr ((), v)"
  using cache_init_valid [OF assms(1)] assms(2) cache_check_ok by (auto elim: cache_validE)

lemma cache_init_and_check_witness:
  "(\<exists>s'. cache_init blank_cache = Inr ((), s') \<and> cache_valid s' \<and> contents s' = []) \<and>
    cache_check half_full = Inr ((), half_full)"
  by (rule cache_init_and_check) (simp_all add: blank_cache_def half_full_ok)

text \<open>\<open>cache_destroy\<close> frees every node, the dummies included, once; but the globals keep
  pointing to the freed dummies, so every later lookup, insertion or second destruction reads
  freed memory.\<close>

theorem destroyed_cache_is_unusable:
  assumes "cache_valid s"
  shows "\<exists>s'. cache_destroy s = Inr ((), s') \<and> c_heap s' = Map.empty \<and>
    (\<forall>h po pa buf. is_cached h po pa buf s' = Inl Use_after_free) \<and>
    (\<forall>h po pa payload n. NUL \<in> set payload \<and> n \<le> length (cstr payload) + 1 \<longrightarrow>
       add_cache h po pa payload n s' = Inl Use_after_free)"
  using assms by (rule destroyed_cache_unusable)

lemma destroyed_cache_is_unusable_witness:
  "\<exists>s'. cache_destroy half_full = Inr ((), s') \<and> c_heap s' = Map.empty \<and>
     (\<forall>buf. is_cached ''h'' ''80'' ''/'' buf s' = Inl Use_after_free)"
  using destroyed_cache_is_unusable [OF half_full_ok(1)] by blast

text \<open>C18. \<open>is_cached\<close> releases the readers' lock between finding a node and using it.  When another
  thread inserts in between, and the found entry is the oldest one of a cache that becomes too
  full, the node is freed and the copy reads freed memory.  \<open>storable\<close>: the insertion is one that
  completes, of text whose copy holds a NUL.\<close>

theorem hit_races_with_eviction:
  assumes "cache_valid s" "storable s payload n"
    and "contents s = x # es"
    and "entry_match h po pa x" "\<forall>y \<in> set es. \<not> entry_match h po pa y"
    and "1049000 < lru_load (x # es) + length (cstr payload)"
  shows "\<exists>p s'. cache_search h po pa s = Inr (Some p, s) \<and>
    add_cache h' po' pa' payload n s = Inr ((), s') \<and>
    (\<forall>buf. cache_use p buf s' = Inl Use_after_free)"
  using assms by (rule evicted_between)

lemma hit_races_with_eviction_witness:
  "\<exists>p s'. cache_search ''h'' ''80'' ''/'' half_full = Inr (Some p, half_full) \<and>
    add_cache ''b'' ''80'' ''/'' big 600001 half_full = Inr ((), s') \<and>
    (\<forall>buf. cache_use p buf s' = Inl Use_after_free)"
proof -
  obtain old where c: "contents half_full = [(''h'', ''80'', ''/'', old, 600001)]" "length (cstr old) = 600000"
    using half_full_ok(2) by blast
  have "storable half_full big 600001" by (rule storable_big) (simp add: c INT_MAX_def)
  from hit_races_with_eviction [OF half_full_ok(1) this c(1)] show ?thesis
    by (simp add: c(2) big_length)
qed

end
