(* ===== verification/Queue_Results.thy ===== *)
theory Queue_Results
  imports Samples
begin

section \<open>What the queue of connections and the lock guarantee\<close>

text \<open>
  The properties of \<open>lib/src/sbuf.c\<close> and of the reader-writer lock of \<open>lib/src/cache.c\<close>, for whole
  calls and for every interleaving of their steps.
\<close>

subsection \<open>The queue, call by call\<close>

text \<open>\<open>sbuf_insert\<close> on every branch: on a full queue it waits, after 2147483647 insertions the
  counter \<open>rear\<close> overflows, and otherwise the item is appended and nothing else changes.\<close>

theorem sbuf_insert_cases:
  assumes "sb_inv s"
  shows "if length (sb_contents s) = nat (sb_n s) then sbuf_insert x s = Inl Blocked
    else if sb_rear s = INT_MAX then sbuf_insert x s = Inl Int_overflow
    else \<exists>s'. sbuf_insert x s = Inr ((), s') \<and> sb_inv s' \<and> sb_contents s' = sb_contents s @ [x] \<and>
      sb_n s' = sb_n s"
proof -
  have "length (sb_contents s) \<le> nat (sb_n s)" "sb_rear s \<le> INT_MAX"
    using assms sbuf_fifo.bounded by (auto simp: sb_inv_def)
  then show ?thesis
    using sbuf_insert_full [OF assms] sbuf_insert_exhausted [OF assms] sbuf_insert_refines [OF assms, of x]
    by (auto simp: le_less)
qed

lemma sbuf_insert_cases_witness:
  "sbuf_insert 9 (ring [7, 8]) = Inl Blocked \<and>
   (\<exists>s'. sbuf_insert 9 (ring [7]) = Inr ((), s') \<and> sb_contents s' = [7, 9])"
proof -
  have "sb_n (ring [7, 8]) = 2" "sb_n (ring [7]) = 2" "sb_rear (ring [7]) \<noteq> INT_MAX"
    by (simp_all add: ring_def INT_MAX_def)
  then show ?thesis
    using sbuf_insert_cases [of "ring [7, 8]" 9] sbuf_insert_cases [of "ring [7]" 9]
    by (auto simp: ring_ok)
qed

text \<open>The queue is first-in first-out: a sequence of insertions and removals that neither
  overfills nor underruns the queue completes, and what it removed, followed by what is left, is
  what was there, followed by what it inserted.\<close>

theorem queue_is_fifo:
  assumes "sb_inv s" "feasible (nat (sb_n s)) (length (sb_contents s)) ops"
    and "int (length (puts ops)) \<le> INT_MAX - sb_rear s"
  shows "\<exists>outs s'. q_run sbuf_insert sbuf_remove ops s = Inr (outs, s') \<and> sb_inv s' \<and>
    sb_contents s @ puts ops = outs @ sb_contents s'"
proof -
  have "length (puts ops) \<le> nat (INT_MAX - sb_rear s)" using assms(3) by simp
  from sbuf_fifo.run_completes [OF assms(1,2) this] sbuf_fifo.run_fifo [OF assms(1)]
  show ?thesis by blast
qed

lemma queue_is_fifo_witness:
  "\<exists>outs s'. q_run sbuf_insert sbuf_remove [Put 1, Get, Get, Put 2, Put 3, Get] (ring [7]) = Inr (outs, s') \<and>
     [7, 1, 2, 3] = outs @ sb_contents s'"
  using queue_is_fifo [OF ring_ok(2), of 7 "[Put 1, Get, Get, Put 2, Put 3, Get]"]
  by (auto simp: ring_ok) (auto simp: ring_def INT_MAX_def)

subsection \<open>The queue under every interleaving\<close>

text \<open>C6. In every state that any number of threads can reach, stepping through \<open>sbuf_insert\<close> and
  \<open>sbuf_remove\<close> in any order: at most one thread is between the two operations on \<open>mutex\<close>, what
  was fetched is a prefix of what was stored, at most \<open>n\<close> items are outstanding, and when no
  call is under way the ring holds exactly the outstanding items.\<close>

theorem queue_is_fifo_for_all_threads:
  assumes "q_reach n t s" "0 < n" "n \<le> INT_MAX"
  shows "cnt holds_mutex (q_thr s) \<le> 1 \<and>
    (\<exists>rest. q_put s = q_got s @ rest \<and> int (length rest) \<le> n) \<and>
    (cnt in_flight (q_thr s) = 0 \<longrightarrow> sb_inv (q_ring s) \<and> q_put s = q_got s @ sb_contents (q_ring s))"
proof -
  have "q_counts s" using q_reach_inv [OF assms] by simp
  then have "cnt holds_mutex (q_thr s) \<le> 1" by (auto simp: q_counts_def Let_def)
  then show ?thesis using q_history [OF assms] q_quiescent_inv [OF assms] by blast
qed

lemma queue_is_fifo_for_all_threads_witness:
  "\<exists>s. q_reach 2 3 s \<and> q_put s = [5] \<and> sb_contents (q_ring s) = [5]"
proof -
  have s0: "q_reach 2 3 (q_start 2 3)" by (rule q_reach.start)
  have "sb_inv (q_ring (q_start 2 3))" "sb_contents (q_ring (q_start 2 3)) = []"
    "sb_n (q_ring (q_start 2 3)) = 2" "sb_rear (q_ring (q_start 2 3)) < INT_MAX"
    by (simp_all add: q_start_def sb_inv_def sb_contents_def INT_MAX_def)
  with sbuf_insert_refines [of "q_ring (q_start 2 3)" 5] obtain r where
    "sbuf_insert 5 (q_ring (q_start 2 3)) = Inr ((), r)" by auto
  from q_reach_insert [OF s0 _ _ this, of 0]
  have r: "q_reach 2 3 ((q_start 2 3)\<lparr>q_ring := r, q_put := [5]\<rparr>)" by (simp add: q_start_def)
  have "cnt in_flight (replicate 3 Idle) = 0" by (simp add: numeral_3_eq_3)
  with queue_is_fifo_for_all_threads [OF r] r show ?thesis
    by (intro exI [of _ "(q_start 2 3)\<lparr>q_ring := r, q_put := [5]\<rparr>"]) (auto simp: q_start_def INT_MAX_def)
qed

text \<open>C7. No deadlock inside the queue: as long as the insertion budget lasts, whenever some call is
  past its first wait, one of the calls under way can take its next step without an access
  outside the ring, an overflow, or a wait.\<close>

theorem queue_never_stuck:
  assumes "q_reach n t s" "0 < n" "n \<le> INT_MAX" "sb_rear (q_ring s) < INT_MAX"
    and "0 < cnt in_flight (q_thr s)"
  shows "\<exists>j < length (q_thr s). in_flight (q_thr s ! j) \<and> q_moves s j"
  using q_reach_inv [OF assms(1-3)] by (intro q_in_flight_moves assms(4,5)) simp_all

lemma queue_never_stuck_witness:
  "\<exists>s. q_thr s = [Ins_lock 5, Idle] \<and> (\<exists>j < Suc 1. in_flight (q_thr s ! j) \<and> q_moves s j)"
proof -
  let ?s = "(q_start 1 2)\<lparr>q_thr := [Ins_slots 5, Idle]\<rparr>"
  let ?r = "(q_ring (q_start 1 2))\<lparr>sb_slots := 0\<rparr>"
  have t: "q_thr (q_start 1 2) = [Idle, Idle]" by (simp add: q_start_def numeral_2_eq_2)
  have "q_reach 1 2 (q_start 1 2)" by (rule q_reach.start)
  from q_reach.step [OF this q_step.call_insert [of 0 _ 5]] have s: "q_reach 1 2 ?s" by (simp add: t)
  have "P_slots (q_ring ?s) = Inr ((), ?r)"
    by (simp add: q_start_def sbuf_sems P_def cmd_simps)
  from q_reach.step [OF s q_step.insert_P_slots [of 0 _ 5 "()" ?r]] this
  have r: "q_reach 1 2 ((q_start 1 2)\<lparr>q_ring := ?r, q_thr := [Ins_lock 5, Idle]\<rparr>)" by simp
  from queue_never_stuck [OF r] show ?thesis
    by (intro exI [of _ "(q_start 1 2)\<lparr>q_ring := ?r, q_thr := [Ins_lock 5, Idle]\<rparr>"])
      (simp add: q_start_def INT_MAX_def)
qed

subsection \<open>The reader-writer lock under every interleaving\<close>

text \<open>C8. In every state that readers and writers can reach, at most one thread is in a writer's
  critical section, and then none is in a reader's.\<close>

theorem lock_excludes:
  assumes "rw_reach t s"
  shows "cnt ((=) Writing) (rw_thr s) \<le> 1 \<and>
    (0 < cnt ((=) Writing) (rw_thr s) \<longrightarrow> cnt ((=) Reading) (rw_thr s) = 0)"
  using rw_reach_inv [OF assms] by (intro rw_exclusion) simp

lemma lock_excludes_witness:
  "\<exists>s. rw_reach 2 s \<and> rw_thr s = [Writing, Out] \<and> cnt ((=) Writing) (rw_thr s) \<le> 1"
proof -
  have t: "rw_thr (rw_start 2) = [Out, Out]" by (simp add: rw_start_def numeral_2_eq_2)
  have "pre_write (rw_lock (rw_start 2)) = Inr ((), (rw_lock (rw_start 2))\<lparr>rw_w := 0\<rparr>)"
    by (rule pre_write_free) (simp add: rw_free_def rw_start_def)
  from rw_reach_pre_write [OF rw_reach.start _ _ this, of 0]
  have r: "rw_reach 2 ((rw_start 2)\<lparr>rw_lock := (rw_lock (rw_start 2))\<lparr>rw_w := 0\<rparr>, rw_thr := [Writing, Out]\<rparr>)"
    by (simp add: t)
  from lock_excludes [OF r] r show ?thesis by (intro exI conjI) (rule r, simp_all)
qed

text \<open>C9. The lock never deadlocks: with fewer than 2147483647 threads, whenever a thread is
  entering, inside or leaving, some such thread can take its next step.\<close>

theorem lock_never_stuck:
  assumes "rw_reach t s" "int t < INT_MAX" "\<exists>l \<in> set (rw_thr s). l \<noteq> Out"
  shows "\<exists>i < length (rw_thr s). rw_thr s ! i \<noteq> Out \<and> rw_moves s i"
  using rw_reach_inv [OF assms(1)] assms(2,3) by (intro rw_progress) simp_all

lemma lock_never_stuck_witness:
  "\<exists>s. rw_reach 2 s \<and> rw_thr s = [Reading, Out] \<and> (\<exists>i < Suc 1. rw_thr s ! i \<noteq> Out \<and> rw_moves s i)"
proof -
  have t: "rw_thr (rw_start 2) = [Out, Out]" by (simp add: rw_start_def numeral_2_eq_2)
  have "pre_read (rw_lock (rw_start 2)) = Inr ((), with_reader (rw_lock (rw_start 2)))"
    by (rule pre_read_free) (simp add: rw_free_def rw_start_def)
  from rw_reach_pre_read [OF rw_reach.start _ _ this, of 0]
  have r: "rw_reach 2 ((rw_start 2)\<lparr>rw_lock := with_reader (rw_lock (rw_start 2)), rw_thr := [Reading, Out]\<rparr>)"
    by (simp add: t)
  from lock_never_stuck [OF r] show ?thesis
    by (intro exI [of _ "(rw_start 2)\<lparr>rw_lock := with_reader (rw_lock (rw_start 2)), rw_thr := [Reading, Out]\<rparr>"])
      (simp add: r INT_MAX_def)
qed

end
