(* ===== verification/Io_Results.thy ===== *)
theory Io_Results
  imports Samples
begin

section \<open>What the I/O functions guarantee\<close>

text \<open>
  The properties of \<open>lib/src/nio.c\<close>, of the corresponding functions of \<open>lib/src/csapp.c\<close>, and of
  \<open>lib/src/inet-helper.c\<close>.  Streams may come in any pieces and calls may be interrupted.
\<close>

text \<open>C13. \<open>nio_readlineb\<close> gets the next line of the stream, with its newline, or at most
  \<open>maxlen - 1\<close> characters of it, terminates it with a NUL inside the buffer, and leaves the rest of
  the stream for the next call.  The value it returns is the length of the line only when a newline
  ends it; for a line that is cut by the limit or by the end of the stream it is one more.\<close>

theorem nio_readlineb_takes_a_line:
  assumes "readable rp s" "1 < maxlen" "maxlen \<le> length buf" "maxlen \<le> 2147483647"
    and "stream rp s \<noteq> []"
  shows "\<exists>l rp1 s1. nio_readlineb rp buf maxlen s =
       Inr ((int (if last l = LF then length l else length l + 1), l @ NUL # drop (length l + 1) buf, rp1), s1) \<and>
     l = get_line (maxlen - 1) (stream rp s) \<and> l \<noteq> [] \<and> length l < maxlen \<and>
     stream rp s = l @ stream rp1 s1 \<and> readable rp1 s1 \<and> reads (nio_fd rp) s s1"
proof -
  let ?l = "get_line (maxlen - 1) (stream rp s)"
  have "?l \<noteq> []" using assms(2,5) by simp
  moreover have "length ?l < maxlen" using get_line_length [of "maxlen - 1" "stream rp s"] assms(2) by simp
  ultimately show ?thesis using nio_readlineb_line [OF assms refl] by (auto simp: line_ret_def ends_line_def)
qed

definition relay_nio :: nio where
  "relay_nio = local_nio junk0 ''nio'' 3"

lemma relay_nio_readable: "readable relay_nio relay_os" "stream relay_nio relay_os = [CHR ''a'', LF, CHR ''b'']"
  using local_nio_readable [of 3 relay_os junk0 "''nio''"] by (simp_all add: relay_nio_def relay_os_tape)

lemma nio_readlineb_takes_a_line_witness:
  "\<exists>rp1 s1. nio_readlineb relay_nio (replicate 4 NUL) 4 relay_os =
     Inr ((2, [CHR ''a'', LF, NUL, NUL], rp1), s1) \<and> stream rp1 s1 = ''b''"
proof -
  have l: "get_line (4 - 1) (stream relay_nio relay_os) = [CHR ''a'', LF]"
    by (simp add: relay_nio_readable numeral_3_eq_3)
  have "1 < (4::nat)" "4 \<le> length (replicate 4 NUL)" "(4::nat) \<le> 2147483647"
    "stream relay_nio relay_os \<noteq> []" by (simp_all add: relay_nio_readable)
  from nio_readlineb_takes_a_line [OF relay_nio_readable(1) this, unfolded l]
  show ?thesis by (auto simp: relay_nio_readable)
qed

text \<open>The only differences between \<open>nio_readlineb\<close> and the \<open>rio_readlineb\<close> it was copied from,
  on a stream that ends regularly: both store the same line and leave the same rest, but \<open>rio\<close>
  returns the length of the line in every case.\<close>

theorem nio_and_rio_read_the_same_line:
  assumes "readable rp s" "1 < maxlen" "maxlen \<le> length buf" "maxlen \<le> 2147483647"
    and "stream rp s \<noteq> []"
  shows "\<exists>l b rp1 s1. nio_readlineb rp buf maxlen s =
      Inr ((int (if last l = LF then length l else length l + 1), b, rp1), s1) \<and>
    rio_readlineb rp buf maxlen s = Inr ((int (length l), b, rp1), s1) \<and>
    l = get_line (maxlen - 1) (stream rp s) \<and> c_str b = Inr (cstr l) \<and> stream rp s = l @ stream rp1 s1"
proof -
  have "get_line (maxlen - 1) (stream rp s) \<noteq> []" using assms(2,5) by simp
  then show ?thesis using nio_rio_readlineb [OF assms refl] by (auto simp: line_ret_def ends_line_def)
qed

lemma nio_and_rio_read_the_same_line_witness:
  "\<exists>b rp1 s1. nio_readlineb relay_nio (replicate 2 NUL) 2 relay_os = Inr ((2, b, rp1), s1) \<and>
     rio_readlineb relay_nio (replicate 2 NUL) 2 relay_os = Inr ((1, b, rp1), s1)"
proof -
  have l: "get_line (2 - 1) (stream relay_nio relay_os) = ''a''"
    by (simp add: relay_nio_readable)
  have "1 < (2::nat)" "2 \<le> length (replicate 2 NUL)" "(2::nat) \<le> 2147483647"
    "stream relay_nio relay_os \<noteq> []" by (simp_all add: relay_nio_readable)
  from nio_and_rio_read_the_same_line [OF relay_nio_readable(1) this, unfolded l]
  show ?thesis by auto
qed

text \<open>C14. \<open>nio_writen\<close> delivers all \<open>n\<close> bytes however small the pieces that each \<open>write\<close> accepts and
  however often a call is interrupted, and returns \<open>n\<close>; \<open>nio_readnb\<close> gets the next \<open>n\<close> bytes of a
  stream, or all that is left of it, and leaves the rest.\<close>

theorem nio_transfers_everything:
  assumes "fd \<in> os_open s" "draining (os_wr s fd)" "n \<le> length buf" "n \<le> SSIZE_MAX"
    and "readable rp t" "m \<le> length dst"
  shows "(\<exists>s'. nio_writen fd buf n s = Inr (int n, s') \<and> writes fd (take n buf) s s') \<and>
    (\<exists>rp1 t1. nio_readnb rp dst m t = Inr ((int (min m (length (stream rp t))),
         take m (stream rp t) @ drop (min m (length (stream rp t))) dst, rp1), t1) \<and>
       stream rp1 t1 = drop m (stream rp t) \<and> reads (nio_fd rp) t t1)"
  using nio_writen_delivers [OF assms(1-4)] nio_readnb_clean [OF assms(5,6)]
  by (auto simp: min.commute)

lemma nio_transfers_everything_witness:
  "\<exists>s'. nio_writen 4 ''abc'' 3 (relay_os\<lparr>os_wr := (\<lambda>_. [Wr_ok 1, Wr_err EINTR, Wr_ok 1])\<rparr>) = Inr (3, s') \<and>
     os_out s' 4 = ''abc''"
proof -
  let ?s = "relay_os\<lparr>os_wr := (\<lambda>_. [Wr_ok 1, Wr_err EINTR, Wr_ok 1])\<rparr>"
  have "4 \<in> os_open ?s" "draining (os_wr ?s 4)" by (simp_all add: relay_os_tape)
  from nio_transfers_everything [OF this, of 3 "''abc''" relay_nio relay_os 0 "[]"]
  obtain s' where s': "nio_writen 4 ''abc'' 3 ?s = Inr (3, s')" "writes 4 (take 3 ''abc'') ?s s'"
    by (auto simp: SSIZE_MAX_def relay_nio_readable)
  from writes_fields(7) [OF s'(2)] s'(1) show ?thesis by (simp add: relay_os_tape)
qed

text \<open>C15. \<open>open_clientfd\<close> gives a new connected descriptor when one of the addresses accepts a
  connection and \<open>-1\<close> when none does, and loses none of the sockets it tried: the descriptor it
  returns is the only one that is opened.  When the name has no address it ends the process, where
  the version of \<open>csapp.c\<close> returns \<open>-2\<close>.  Apart from that the two versions agree unless the \<open>close\<close>
  of a socket that was given up reports an error.  The version of \<open>csapp.c\<close> then returns \<open>-1\<close> at once,
  also when a later address would have accepted; the other one goes on.  A descriptor whose
  \<open>close\<close> fails is released, as on Linux.\<close>

theorem open_clientfd_outcomes:
  assumes "fds_ok s"
  shows "case net_gai (os_net s) (Some h) po of
      Inl rc \<Rightarrow> open_clientfd h po s = Inl (Exit 1) \<and> csapp_open_clientfd h po s = Inr (- 2, s)
    | Inr as \<Rightarrow>
        (\<exists>fd s'. open_clientfd h po s = Inr (fd, s') \<and>
          (if reachable (os_net s) as
           then os_fresh_fd s \<le> fd \<and> os_open s' = insert fd (os_open s) \<and> fd \<notin> os_open s
           else fd = - 1 \<and> os_open s' = os_open s)) \<and>
        (if close_error s as
         then \<exists>s'. csapp_open_clientfd h po s = Inr (- 1, s') \<and> os_open s' = os_open s
         else csapp_open_clientfd h po s = open_clientfd h po s)"
proof (cases "net_gai (os_net s) (Some h) po")
  case (Inl rc)
  then show ?thesis
    using open_clientfd_unresolved [OF Inl] csapp_open_clientfd_unresolved [OF Inl] by simp
next
  case (Inr as)
  have "fd \<notin> os_open s" if "os_fresh_fd s \<le> fd" for fd using assms that by (auto simp: fds_ok_def)
  then have "\<exists>fd s'. open_clientfd h po s = Inr (fd, s') \<and>
      (if reachable (os_net s) as
       then os_fresh_fd s \<le> fd \<and> os_open s' = insert fd (os_open s) \<and> fd \<notin> os_open s
       else fd = - 1 \<and> os_open s' = os_open s)"
    using open_clientfd_connected [OF assms Inr] open_clientfd_unreachable [OF assms Inr]
    by (cases "reachable (os_net s) as") (fastforce dest: opens_fields(1))+
  moreover have "if close_error s as
      then \<exists>s'. csapp_open_clientfd h po s = Inr (- 1, s') \<and> os_open s' = os_open s
      else csapp_open_clientfd h po s = open_clientfd h po s"
    using csapp_open_clientfd_eq [OF assms Inr] by (auto simp: opens_fields(1))
  ultimately show ?thesis using Inr by simp
qed

text \<open>A host with two addresses: the first refuses, and closing its socket is interrupted.\<close>

definition two_addresses :: os where
  "two_addresses = relay_os\<lparr>os_net := net0\<lparr>net_gai := \<lambda>h po. Inr [7, 1], net_close := \<lambda>fd. Some EINTR\<rparr>\<rparr>"

lemma open_clientfd_outcomes_witness:
  "(\<exists>fd s'. open_clientfd ''h'' ''80'' relay_os = Inr (fd, s') \<and> os_open s' = {fd, 3, 4, 5}) \<and>
   (\<exists>s'. open_clientfd ''down'' ''80'' relay_os = Inr (- 1, s')) \<and>
   open_clientfd ''nowhere'' ''80'' relay_os = Inl (Exit 1) \<and>
   (\<exists>fd s'. open_clientfd ''h'' ''80'' two_addresses = Inr (fd, s') \<and> os_open s' = {fd, 3, 4, 5}) \<and>
   (\<exists>s'. csapp_open_clientfd ''h'' ''80'' two_addresses = Inr (- 1, s') \<and> os_open s' = {3, 4, 5})"
proof -
  have n: "fds_ok relay_os" "os_net relay_os = net0" by (simp_all add: relay_os_def fds_ok_def)
  have t: "fds_ok two_addresses" "os_open two_addresses = {3, 4, 5}"
    "os_net two_addresses = net0\<lparr>net_gai := \<lambda>h po. Inr [7, 1], net_close := \<lambda>fd. Some EINTR\<rparr>"
    using n(1) by (simp_all add: two_addresses_def fds_ok_def relay_os_tape)
  have "reachable (os_net two_addresses) [7, 1]" "close_error two_addresses [7, 1]"
    by (simp_all add: t(3) net0_def reachable_def close_error_def)
  then have "(\<exists>fd s'. open_clientfd ''h'' ''80'' two_addresses = Inr (fd, s') \<and> os_open s' = {fd, 3, 4, 5}) \<and>
     (\<exists>s'. csapp_open_clientfd ''h'' ''80'' two_addresses = Inr (- 1, s') \<and> os_open s' = {3, 4, 5})"
    using open_clientfd_outcomes [OF t(1), of "''h''" "''80''"] by (auto simp: t(2,3))
  then show ?thesis
    using open_clientfd_outcomes [OF n(1), of "''h''" "''80''"] open_clientfd_outcomes [OF n(1), of "''down''" "''80''"]
      open_clientfd_outcomes [OF n(1), of "''nowhere''" "''80''"]
    by (auto simp: n(2) net0_def reachable_def relay_os_tape)
qed

text \<open>\<open>sio_putl\<close> writes the decimal digits of every \<open>long\<close> to the standard output, within its buffer of
  128 bytes and without a call that is not safe in a signal handler, except for the
  smallest \<open>long\<close>, whose negation overflows in \<open>sio_ltoa\<close>.\<close>

theorem sio_putl_prints_decimal:
  assumes "1 \<in> os_open s" "os_wr s 1 = []" "- LONG_MAX - 1 \<le> v" "v \<le> LONG_MAX"
  shows "sio_putl junk v s =
    (if v = - LONG_MAX - 1 then Inl Int_overflow
     else Inr (int (length (dec_int v)), os_accept_bytes 1 (dec_int v) s))"
  using sio_putl_ok [OF assms(1,2)] assms(3,4)
  by (auto simp: sio_putl_def sio_ltoa_min bnd_lift_res bnd_def lift_res_def)

lemma sio_putl_prints_decimal_witness:
  "sio_putl junk0 (- 120) (relay_os\<lparr>os_open := {1}\<rparr>) =
     Inr (4, os_accept_bytes 1 ''-120'' (relay_os\<lparr>os_open := {1}\<rparr>))"
proof -
  have "dec_int (- 120) = ''-120''" by code_simp
  moreover have "1 \<in> os_open (relay_os\<lparr>os_open := {1}\<rparr>)" "os_wr (relay_os\<lparr>os_open := {1}\<rparr>) 1 = []"
    by (simp_all add: relay_os_def)
  ultimately show ?thesis using sio_putl_prints_decimal [of "relay_os\<lparr>os_open := {1}\<rparr>" "- 120" junk0]
    by (simp add: LONG_MAX_def)
qed

end
