(* ===== verification/Request_Results.thy ===== *)
theory Request_Results
  imports Samples
begin

section \<open>What the handling of a request guarantees\<close>

text \<open>
  The properties of \<open>parse_uri\<close>, \<open>parse_request\<close>, \<open>response_failure\<close>, \<open>forward_request\<close> and
  \<open>read_request_header\<close> of \<open>lib/src/proxy-module.c\<close>.
\<close>

text \<open>C10. Printing and parsing a URI: for every host, optional port and path that \<open>uri_parts_ok\<close>
  admits, parsing the text \<open>http://host[:port][path]\<close> in any letter case of the scheme into zeroed
  buffers with room succeeds and gives back the host, the port or 80, and the path or a slash.\<close>

theorem parse_uri_inverts_printing:
  assumes "c_str uri = Inr (uri_text sc h po pa)" "strcasecmp0 sc ''http''" "uri_parts_ok h po pa"
    and "length h < n" "length pa < n" "2 < n" "case po of None \<Rightarrow> True | Some d \<Rightarrow> length d < n"
  shows "\<exists>hb pb qb. parse_uri junk uri (replicate n NUL) (replicate n NUL) (replicate n NUL) s =
      Inr ((True, hb, pb, qb), s) \<and>
    c_str hb = Inr h \<and> c_str pb = Inr (case po of None \<Rightarrow> ''80'' | Some d \<Rightarrow> d) \<and>
    c_str qb = Inr (if pa = [] then ''/'' else pa)"
  using parse_uri_roundtrip [OF assms] by blast

lemma parse_uri_inverts_printing_witness:
  "\<exists>hb pb qb. parse_uri junk0 (''HTTP://a.b:81/c?d'' @ [NUL]) (replicate 99 NUL) (replicate 99 NUL)
      (replicate 99 NUL) relay_os = Inr ((True, hb, pb, qb), relay_os) \<and>
    c_str hb = Inr ''a.b'' \<and> c_str pb = Inr ''81'' \<and> c_str qb = Inr ''/c?d''"
proof -
  have "c_str (''HTTP://a.b:81/c?d'' @ [NUL]) = Inr (uri_text ''HTTP'' ''a.b'' (Some ''81'') ''/c?d'')"
    by (subst c_str_Inr) (simp_all add: uri_text_def cstr_Cons)
  moreover have "strcasecmp0 ''HTTP'' ''http''" by code_simp
  moreover have "uri_parts_ok ''a.b'' (Some ''81'') ''/c?d''" by (simp add: uri_parts_ok_def isdigit_def)
  ultimately show ?thesis
    using parse_uri_inverts_printing [of _ "''HTTP''" "''a.b''" "Some ''81''" "''/c?d''" 99 junk0 relay_os]
    by fastforce
qed

text \<open>C11. Memory safety of \<open>parse_uri\<close>: with buffers that have room for the whole URI, it stops
  with an overflow exactly when the first colon is at position 10 or later (the array \<open>scheme\<close> has
  ten bytes), and what it accepts has the scheme \<open>http\<close> and an authority.\<close>

theorem parse_uri_safe_iff:
  assumes "c_str uri = Inr u" "length u < length host" "length u < length port" "length u < length path"
  shows "((\<exists>e. parse_uri junk uri host port path s = Inl e) \<longleftrightarrow>
      COLON \<in> set u \<and> 10 \<le> length (takeWhile (\<lambda>c. c \<noteq> COLON) u)) \<and>
    (\<forall>r s'. parse_uri junk uri host port path s = Inr ((True, r), s') \<longrightarrow>
      (\<exists>sc p. u = sc @ ''://'' @ p \<and> strcasecmp0 sc ''http''))"
  using parse_uri_stops_iff [OF assms] parse_uri_sound [OF assms(1)] by blast

lemma parse_uri_safe_iff_witness:
  "\<exists>e. parse_uri junk0 (''aaaaaaaaaa://h/'' @ [NUL]) (replicate 99 NUL) (replicate 99 NUL)
     (replicate 99 NUL) relay_os = Inl e"
proof -
  have "c_str (''aaaaaaaaaa://h/'' @ [NUL]) = Inr ''aaaaaaaaaa://h/''" by (subst c_str_Inr) (simp_all add: cstr_Cons)
  from parse_uri_safe_iff [OF this, of "replicate 99 NUL" "replicate 99 NUL" "replicate 99 NUL" junk0 relay_os]
  show ?thesis by auto
qed

text \<open>\<open>parse_request\<close> accepts every line of three words whose method is \<open>GET\<close>, whose version is
  1.0 or 1.1 (in any letter case) and whose URI is well formed; it sends nothing and leaves the
  parts in the caller's buffers.\<close>

theorem parse_request_accepts_get:
  assumes "scan_words 3 request = [m, u, p]" "length request < MAXLINE" "NUL \<notin> set request"
    and "strcasecmp0 m ''GET''" "strcasecmp0 p ''HTTP/1.0'' \<or> strcasecmp0 p ''HTTP/1.1''"
    and "u = uri_text sc h po pa" "strcasecmp0 sc ''http''" "uri_parts_ok h po pa"
  shows "\<exists>hb pb qb. parse_request junk connfd request (replicate MAXLINE NUL) (replicate MAXLINE NUL)
        (replicate MAXLINE NUL) s = Inr ((True, hb, pb, qb), s) \<and>
    c_str hb = Inr h \<and> c_str pb = Inr (case po of None \<Rightarrow> ''80'' | Some d \<Rightarrow> d) \<and>
    c_str qb = Inr (if pa = [] then ''/'' else pa)"
  using assms by (rule parse_request_accepts)

lemma parse_request_accepts_get_witness:
  "\<exists>hb pb qb. parse_request junk0 4 ''get HTTP://a:8/ http/1.1'' (replicate MAXLINE NUL)
      (replicate MAXLINE NUL) (replicate MAXLINE NUL) relay_os = Inr ((True, hb, pb, qb), relay_os) \<and>
    c_str hb = Inr ''a'' \<and> c_str pb = Inr ''8'' \<and> c_str qb = Inr ''/''"
proof -
  have "scan_words 3 ''get HTTP://a:8/ http/1.1'' = [''get'', ''HTTP://a:8/'', ''http/1.1'']"
    by (simp add: numeral_3_eq_3 scan_str_def isspace_def)
  moreover have "strcasecmp0 ''get'' ''GET''" "strcasecmp0 ''http/1.1'' ''HTTP/1.1''" "strcasecmp0 ''HTTP'' ''http''"
    by code_simp+
  moreover have "''HTTP://a:8/'' = uri_text ''HTTP'' ''a'' (Some ''8'') ''/''" by (simp add: uri_text_def)
  moreover have "uri_parts_ok ''a'' (Some ''8'') ''/''" by (simp add: uri_parts_ok_def isdigit_def)
  ultimately show ?thesis
    using parse_request_accepts_get [of "''get HTTP://a:8/ http/1.1''" "''get''" "''HTTP://a:8/''" "''http/1.1''"
        "''HTTP''" "''a''" "Some ''8''" "''/''" junk0 4 relay_os]
    by (simp add: MAXLINE_def)
qed



text \<open>What a valid request makes the proxy send to the server: the request line with the path and
  version 1.0, the \<open>Host\<close> header with the client's host, and the five fixed header lines of
  \<open>proxy.h\<close>, ended by an empty line.  Whatever the client asked for, every piece fits the buffer of
  8192 bytes in which it is composed.\<close>

theorem forwarded_request:
  assumes "valid_line l h po pa" "c_str host = Inr h" "c_str path = Inr pa"
    and "fd \<in> os_open s" "draining (os_wr s fd)"
  shows "\<exists>s'. forward_request junk fd host port path s = Inr ((), s') \<and> writes fd (request_text h pa) s s' \<and>
    (\<exists>t. request_text h pa = ''GET '' @ pa @ '' HTTP/1.0'' @ CRLF @ ''Host: '' @ h @ CRLF @ t @ CRLF @ CRLF)"
proof -
  have "request_text h pa = ''GET '' @ pa @ '' HTTP/1.0'' @ CRLF @ ''Host: '' @ h @ CRLF @
      (user_agent_hdr @ accept_hdr @ accept_encoding_hdr @ connection_hdr @ ''Proxy-Connection: close'') @ CRLF @ CRLF"
    by (simp add: request_text_def proxy_connection_hdr_def)
  with forward_request_ok [OF assms(4,5,2,3) valid_line_fits [OF assms(1)], of junk port]
  show ?thesis by blast
qed

lemma forwarded_request_witness:
  "\<exists>s' t. forward_request junk0 4 (''h'' @ [NUL]) [] (''/'' @ [NUL]) relay_os = Inr ((), s') \<and>
     os_out s' 4 = ''GET / HTTP/1.0'' @ CRLF @ ''Host: h'' @ CRLF @ t @ CRLF @ CRLF"
proof -
  have c: "c_str (''h'' @ [NUL]) = Inr ''h''" "c_str (''/'' @ [NUL]) = Inr ''/''"
    by (simp_all add: c_str_Inr cstr_Cons)
  have "4 \<in> os_open relay_os" by (simp add: relay_os_tape)
  from forwarded_request [OF req_lines(1) [of "''h''"] c this relay_os_tape(5), of junk0 "[]"]
  obtain s' t where s: "forward_request junk0 4 (''h'' @ [NUL]) [] (''/'' @ [NUL]) relay_os = Inr ((), s')"
    "writes 4 (request_text ''h'' ''/'') relay_os s'"
    "request_text ''h'' ''/'' = ''GET '' @ ''/'' @ '' HTTP/1.0'' @ CRLF @ ''Host: '' @ ''h'' @ CRLF @ t @ CRLF @ CRLF"
    by auto
  from writes_fields(7) [OF s(2)] s(1,3) show ?thesis by (auto simp: relay_os_tape)
qed

text \<open>\<open>read_request_header\<close> terminates after at most two lines, however many header lines the
  client sends: the test that should limit their number ends the loop in its first round.  It takes
  one line when that is empty and two otherwise, and leaves the rest of the headers unread.\<close>

theorem header_reading_stops_early:
  assumes "readable rp s" "l1 = get_line 8191 (stream rp s)"
  shows "\<exists>rp1 s1 l2. read_request_header junk rp s = Inr (rp1, s1) \<and> readable rp1 s1 \<and>
    reads (nio_fd rp) s s1 \<and> stream rp s = l1 @ l2 @ stream rp1 s1 \<and>
    (l1 = CRLF \<longrightarrow> l2 = []) \<and>
    (l1 \<noteq> CRLF \<and> l1 \<noteq> [] \<longrightarrow> l2 = get_line 8191 (drop (length l1) (stream rp s)))"
  using read_request_header_two_lines [OF assms(1), of junk] assms(2) by blast

lemma header_reading_stops_early_witness:
  "\<exists>rp1 s1. read_request_header junk0 (local_nio junk0 ''nio'' 3)
      (relay_os\<lparr>os_in := (\<lambda>_. [Rd_data (''A: b'' @ CRLF @ ''C: d'' @ CRLF @ ''E: f'' @ CRLF @ CRLF)])\<rparr>) =
      Inr (rp1, s1) \<and> stream rp1 s1 = ''E: f'' @ CRLF @ CRLF"
proof -
  let ?t = "''A: b'' @ CRLF @ ''C: d'' @ CRLF @ ''E: f'' @ CRLF @ CRLF"
  let ?s = "relay_os\<lparr>os_in := (\<lambda>_. [Rd_data ?t])\<rparr>"
  have r: "readable (local_nio junk0 ''nio'' 3) ?s" "stream (local_nio junk0 ''nio'' 3) ?s = ?t"
    using local_nio_readable [of 3 ?s junk0 "''nio''"] by (simp_all add: relay_os_tape)
  have g: "get_line 8191 ?t = ''A: b'' @ CRLF" by simp
  obtain rp1 s1 l2 where h: "read_request_header junk0 (local_nio junk0 ''nio'' 3) ?s = Inr (rp1, s1)"
    "?t = (''A: b'' @ CRLF) @ l2 @ stream rp1 s1"
    "''A: b'' @ CRLF \<noteq> CRLF \<and> ''A: b'' @ CRLF \<noteq> [] \<longrightarrow> l2 = get_line 8191 (drop (length (''A: b'' @ CRLF)) ?t)"
    using header_reading_stops_early [OF r(1) refl, of junk0] unfolding r(2) g by blast
  from h(3) have "l2 = ''C: d'' @ CRLF" by simp
  with h(1,2) show ?thesis by auto
qed

end
