(* ===== verification/Wrappers.thy ===== *)
theory Wrappers
  imports Os
begin

section \<open>The wrappers of the system calls (\<open>lib/src/csapp.c\<close>)\<close>

text \<open>
  \<open>csapp.c\<close> wraps the calls of the C library in functions that print a message and end the process
  when the call fails.  A call of the library is a parameter: a command on an arbitrary state that
  gives the result of the call, a number for an \<open>int\<close>, an option for a pointer (\<open>None\<close> for \<open>NULL\<close>,
  or for \<open>MAP_FAILED\<close>).  What a wrapper adds is the test of that result.  The message goes to the
  standard error and is not part of the outcome; the exit status is, and it is 0 in every case.
\<close>

definition posix_error :: "int \<Rightarrow> ('s, 'a) cmd" where
  "posix_error code = halt (Exit 0)"

definition Gai_error :: "int \<Rightarrow> ('s, 'a) cmd" where
  "Gai_error code = halt (Exit 0)"

definition app_error :: "('s, 'a) cmd" where
  "app_error = halt (Exit 0)"

definition dns_error :: "('s, 'a) cmd" where
  "dns_error = halt (Exit 0)"

lemmas error_functions = unix_error_def posix_error_def Gai_error_def app_error_def dns_error_def

text \<open>The four patterns: by the sign of the result, with or without giving it back, by \<open>NULL\<close>, and by
  the error number that the call returns.\<close>

definition nonneg :: "('s, int) cmd \<Rightarrow> ('s, int) cmd" where
  "nonneg call = bnd call (\<lambda>rc. if rc < 0 then unix_error else ret rc)"

definition success :: "('s, int) cmd \<Rightarrow> ('s, unit) cmd" where
  "success call = bnd call (\<lambda>rc. if rc < 0 then unix_error else ret ())"

definition nonnull :: "('s, 'p option) cmd \<Rightarrow> ('s, 'p) cmd" where
  "nonnull call = bnd call (\<lambda>p. case p of None \<Rightarrow> unix_error | Some x \<Rightarrow> ret x)"

definition errno_zero :: "('s, int) cmd \<Rightarrow> ('s, unit) cmd" where
  "errno_zero call = bnd call (\<lambda>rc. if rc \<noteq> 0 then posix_error rc else ret ())"

subsection \<open>Processes\<close>

definition Fork :: "('s, int) cmd \<Rightarrow> ('s, int) cmd" where
  "Fork fork = nonneg fork"

definition Execve ::
  "(string \<Rightarrow> string list \<Rightarrow> string list \<Rightarrow> ('s, int) cmd) \<Rightarrow> string \<Rightarrow> string list \<Rightarrow> string list \<Rightarrow> ('s, unit) cmd" where
  "Execve execve filename argv envp = success (execve filename argv envp)"

text \<open>\<open>wait\<close> and \<open>waitpid\<close> also store the status of the child.\<close>

definition Wait :: "('s, int \<times> int) cmd \<Rightarrow> ('s, int \<times> int) cmd" where
  "Wait wait = bnd wait (\<lambda>(pid, status). if pid < 0 then unix_error else ret (pid, status))"

definition Waitpid :: "(int \<Rightarrow> int \<Rightarrow> ('s, int \<times> int) cmd) \<Rightarrow> int \<Rightarrow> int \<Rightarrow> ('s, int \<times> int) cmd" where
  "Waitpid waitpid pid options =
     bnd (waitpid pid options) (\<lambda>(retpid, status). if retpid < 0 then unix_error else ret (retpid, status))"

definition Kill :: "(int \<Rightarrow> int \<Rightarrow> ('s, int) cmd) \<Rightarrow> int \<Rightarrow> int \<Rightarrow> ('s, unit) cmd" where
  "Kill kill pid signum = success (kill pid signum)"

definition Pause :: "('s, int) cmd \<Rightarrow> ('s, unit) cmd" where
  "Pause pause = bnd pause (\<lambda>_. ret ())"

text \<open>The result of \<open>sleep\<close> is unsigned, so the test for a negative one never succeeds.\<close>

definition Sleep :: "(nat \<Rightarrow> ('s, nat) cmd) \<Rightarrow> nat \<Rightarrow> ('s, nat) cmd" where
  "Sleep sleep secs = bnd (sleep secs) (\<lambda>rc. if rc < 0 then unix_error else ret rc)"

definition Alarm :: "(nat \<Rightarrow> ('s, nat) cmd) \<Rightarrow> nat \<Rightarrow> ('s, nat) cmd" where
  "Alarm alarm seconds = alarm seconds"

definition Setpgid :: "(int \<Rightarrow> int \<Rightarrow> ('s, int) cmd) \<Rightarrow> int \<Rightarrow> int \<Rightarrow> ('s, unit) cmd" where
  "Setpgid setpgid pid pgid = success (setpgid pid pgid)"

definition Getpgrp :: "('s, int) cmd \<Rightarrow> ('s, int) cmd" where
  "Getpgrp getpgrp = getpgrp"

subsection \<open>Signals\<close>

record 'h sigact =
  sa_handler :: 'h
  sa_mask :: "int set"
  sa_restart :: bool

text \<open>\<open>Signal\<close> installs a handler with an empty mask and \<open>SA_RESTART\<close>, and gives the old handler.\<close>

definition Signal :: "(int \<Rightarrow> 'h sigact \<Rightarrow> ('s, int \<times> 'h sigact) cmd) \<Rightarrow> int \<Rightarrow> 'h \<Rightarrow> ('s, 'h) cmd" where
  "Signal sigaction signum handler =
     bnd (sigaction signum \<lparr>sa_handler = handler, sa_mask = {}, sa_restart = True\<rparr>) (\<lambda>(rc, old_action).
     if rc < 0 then unix_error else ret (sa_handler old_action))"

text \<open>A signal set is a set of signal numbers; the functions that change one give it back.\<close>

definition Sigprocmask ::
  "(int \<Rightarrow> int set \<Rightarrow> ('s, int \<times> int set) cmd) \<Rightarrow> int \<Rightarrow> int set \<Rightarrow> ('s, int set) cmd" where
  "Sigprocmask sigprocmask how sigs =
     bnd (sigprocmask how sigs) (\<lambda>(rc, oldset). if rc < 0 then unix_error else ret oldset)"

definition Sigemptyset :: "('s, int \<times> int set) cmd \<Rightarrow> ('s, int set) cmd" where
  "Sigemptyset sigemptyset = bnd sigemptyset (\<lambda>(rc, sigs). if rc < 0 then unix_error else ret sigs)"

definition Sigfillset :: "('s, int \<times> int set) cmd \<Rightarrow> ('s, int set) cmd" where
  "Sigfillset sigfillset = bnd sigfillset (\<lambda>(rc, sigs). if rc < 0 then unix_error else ret sigs)"

definition Sigaddset ::
  "(int set \<Rightarrow> int \<Rightarrow> ('s, int \<times> int set) cmd) \<Rightarrow> int set \<Rightarrow> int \<Rightarrow> ('s, int set) cmd" where
  "Sigaddset sigaddset sigs signum =
     bnd (sigaddset sigs signum) (\<lambda>(rc, sigs'). if rc < 0 then unix_error else ret sigs')"

definition Sigdelset ::
  "(int set \<Rightarrow> int \<Rightarrow> ('s, int \<times> int set) cmd) \<Rightarrow> int set \<Rightarrow> int \<Rightarrow> ('s, int set) cmd" where
  "Sigdelset sigdelset sigs signum =
     bnd (sigdelset sigs signum) (\<lambda>(rc, sigs'). if rc < 0 then unix_error else ret sigs')"

definition Sigismember :: "(int set \<Rightarrow> int \<Rightarrow> ('s, int) cmd) \<Rightarrow> int set \<Rightarrow> int \<Rightarrow> ('s, int) cmd" where
  "Sigismember sigismember sigs signum = nonneg (sigismember sigs signum)"

text \<open>\<open>sigsuspend\<close> always returns -1; only \<open>errno\<close> tells whether it failed.\<close>

definition Sigsuspend :: "('s \<Rightarrow> errno) \<Rightarrow> (int set \<Rightarrow> ('s, int) cmd) \<Rightarrow> int set \<Rightarrow> ('s, int) cmd" where
  "Sigsuspend get_errno sigsuspend sigs =
     bnd (sigsuspend sigs) (\<lambda>rc. bnd (gets get_errno) (\<lambda>e. if e \<noteq> EINTR then unix_error else ret rc))"

subsection \<open>Files\<close>

definition Open :: "(string \<Rightarrow> int \<Rightarrow> nat \<Rightarrow> ('s, int) cmd) \<Rightarrow> string \<Rightarrow> int \<Rightarrow> nat \<Rightarrow> ('s, int) cmd" where
  "Open opener pathname flags mode = nonneg (opener pathname flags mode)"

text \<open>\<open>Read\<close>, \<open>Write\<close> and \<open>Close\<close> use the calls of the operating system's model.\<close>

definition Read :: "int \<Rightarrow> nat \<Rightarrow> (os, int \<times> block) cmd" where
  "Read fd count = bnd (sys_read fd count) (\<lambda>(rc, bs). if rc < 0 then unix_error else ret (rc, bs))"

definition Write :: "int \<Rightarrow> block \<Rightarrow> nat \<Rightarrow> (os, int) cmd" where
  "Write fd buf count = nonneg (sys_write fd buf 0 count)"

definition Lseek :: "(int \<Rightarrow> int \<Rightarrow> int \<Rightarrow> ('s, int) cmd) \<Rightarrow> int \<Rightarrow> int \<Rightarrow> int \<Rightarrow> ('s, int) cmd" where
  "Lseek lseek fildes offset whence = nonneg (lseek fildes offset whence)"

definition Close :: "int \<Rightarrow> (os, unit) cmd" where
  "Close fd = success (sys_close fd)"

definition Select ::
  "(int \<Rightarrow> int set \<Rightarrow> int set \<Rightarrow> int set \<Rightarrow> ('s, int) cmd) \<Rightarrow> int \<Rightarrow> int set \<Rightarrow> int set \<Rightarrow> int set \<Rightarrow> ('s, int) cmd" where
  "Select select n readfds writefds exceptfds = nonneg (select n readfds writefds exceptfds)"

definition Dup2 :: "(int \<Rightarrow> int \<Rightarrow> ('s, int) cmd) \<Rightarrow> int \<Rightarrow> int \<Rightarrow> ('s, int) cmd" where
  "Dup2 dup2 fd1 fd2 = nonneg (dup2 fd1 fd2)"

definition Stat :: "(string \<Rightarrow> ('s, int \<times> 'st) cmd) \<Rightarrow> string \<Rightarrow> ('s, 'st) cmd" where
  "Stat stat filename = bnd (stat filename) (\<lambda>(rc, buf). if rc < 0 then unix_error else ret buf)"

definition Fstat :: "(int \<Rightarrow> ('s, int \<times> 'st) cmd) \<Rightarrow> int \<Rightarrow> ('s, 'st) cmd" where
  "Fstat fstat fd = bnd (fstat fd) (\<lambda>(rc, buf). if rc < 0 then unix_error else ret buf)"

definition Opendir :: "(string \<Rightarrow> ('s, 'd option) cmd) \<Rightarrow> string \<Rightarrow> ('s, 'd) cmd" where
  "Opendir opendir name = nonnull (opendir name)"

text \<open>The end of a directory is \<open>NULL\<close> with \<open>errno\<close> 0, so \<open>errno\<close> is reset before the call.\<close>

definition Readdir ::
  "('s \<Rightarrow> errno) \<Rightarrow> (errno \<Rightarrow> 's \<Rightarrow> 's) \<Rightarrow> ('d \<Rightarrow> ('s, 'e option) cmd) \<Rightarrow> 'd \<Rightarrow> ('s, 'e option) cmd" where
  "Readdir get_errno put_errno readdir dirp =
     bnd (modify (put_errno E_none)) (\<lambda>_.
     bnd (readdir dirp) (\<lambda>dep.
     bnd (gets get_errno) (\<lambda>e.
     if dep = None \<and> e \<noteq> E_none then unix_error else ret dep)))"

definition Closedir :: "('d \<Rightarrow> ('s, int) cmd) \<Rightarrow> 'd \<Rightarrow> ('s, int) cmd" where
  "Closedir closedir dirp = nonneg (closedir dirp)"

subsection \<open>Memory\<close>

definition Mmap ::
  "(nat \<Rightarrow> nat \<Rightarrow> int \<Rightarrow> int \<Rightarrow> int \<Rightarrow> int \<Rightarrow> ('s, 'p option) cmd) \<Rightarrow>
     nat \<Rightarrow> nat \<Rightarrow> int \<Rightarrow> int \<Rightarrow> int \<Rightarrow> int \<Rightarrow> ('s, 'p) cmd" where
  "Mmap mmap addr len prot flags fd offset = nonnull (mmap addr len prot flags fd offset)"

definition Munmap :: "('p \<Rightarrow> nat \<Rightarrow> ('s, int) cmd) \<Rightarrow> 'p \<Rightarrow> nat \<Rightarrow> ('s, unit) cmd" where
  "Munmap munmap start len = success (munmap start len)"

definition Malloc :: "(nat \<Rightarrow> ('s, 'p option) cmd) \<Rightarrow> nat \<Rightarrow> ('s, 'p) cmd" where
  "Malloc malloc sz = nonnull (malloc sz)"

definition Realloc :: "('p \<Rightarrow> nat \<Rightarrow> ('s, 'p option) cmd) \<Rightarrow> 'p \<Rightarrow> nat \<Rightarrow> ('s, 'p) cmd" where
  "Realloc realloc p sz = nonnull (realloc p sz)"

definition Calloc :: "(nat \<Rightarrow> nat \<Rightarrow> ('s, 'p option) cmd) \<Rightarrow> nat \<Rightarrow> nat \<Rightarrow> ('s, 'p) cmd" where
  "Calloc calloc nmemb sz = nonnull (calloc nmemb sz)"

definition Free :: "('p \<Rightarrow> ('s, unit) cmd) \<Rightarrow> 'p \<Rightarrow> ('s, unit) cmd" where
  "Free free p = free p"

subsection \<open>Standard I/O\<close>

definition Fclose :: "('f \<Rightarrow> ('s, int) cmd) \<Rightarrow> 'f \<Rightarrow> ('s, unit) cmd" where
  "Fclose fclose fp = bnd (fclose fp) (\<lambda>rc. if rc \<noteq> 0 then unix_error else ret ())"

definition Fdopen :: "(int \<Rightarrow> string \<Rightarrow> ('s, 'f option) cmd) \<Rightarrow> int \<Rightarrow> string \<Rightarrow> ('s, 'f) cmd" where
  "Fdopen fdopen fd mode = nonnull (fdopen fd mode)"

text \<open>\<open>fgets\<close> gives \<open>NULL\<close> both at the end of the file and on an error; \<open>ferror\<close> tells which.\<close>

definition Fgets ::
  "(int \<Rightarrow> 'f \<Rightarrow> ('s, string option) cmd) \<Rightarrow> ('f \<Rightarrow> 's \<Rightarrow> bool) \<Rightarrow> int \<Rightarrow> 'f \<Rightarrow> ('s, string option) cmd" where
  "Fgets fgets ferror n stream =
     bnd (fgets n stream) (\<lambda>rptr.
     bnd (gets (ferror stream)) (\<lambda>err.
     if rptr = None \<and> err then app_error else ret rptr))"

definition Fopen :: "(string \<Rightarrow> string \<Rightarrow> ('s, 'f option) cmd) \<Rightarrow> string \<Rightarrow> string \<Rightarrow> ('s, 'f) cmd" where
  "Fopen fopen filename mode = nonnull (fopen filename mode)"

definition EOF :: int where
  "EOF = - 1"

definition Fputs :: "(string \<Rightarrow> 'f \<Rightarrow> ('s, int) cmd) \<Rightarrow> string \<Rightarrow> 'f \<Rightarrow> ('s, unit) cmd" where
  "Fputs fputs s stream = bnd (fputs s stream) (\<lambda>rc. if rc = EOF then unix_error else ret ())"

definition Fread ::
  "(nat \<Rightarrow> nat \<Rightarrow> 'f \<Rightarrow> ('s, nat \<times> block) cmd) \<Rightarrow> ('f \<Rightarrow> 's \<Rightarrow> bool) \<Rightarrow> nat \<Rightarrow> nat \<Rightarrow> 'f \<Rightarrow>
     ('s, nat \<times> block) cmd" where
  "Fread fread ferror sz nmemb stream =
     bnd (fread sz nmemb stream) (\<lambda>(n, bs).
     bnd (gets (ferror stream)) (\<lambda>err.
     if n < nmemb \<and> err then unix_error else ret (n, bs)))"

definition Fwrite :: "(block \<Rightarrow> nat \<Rightarrow> nat \<Rightarrow> 'f \<Rightarrow> ('s, nat) cmd) \<Rightarrow> block \<Rightarrow> nat \<Rightarrow> nat \<Rightarrow> 'f \<Rightarrow> ('s, unit) cmd" where
  "Fwrite fwrite p sz nmemb stream =
     bnd (fwrite p sz nmemb stream) (\<lambda>n. if n < nmemb then unix_error else ret ())"

subsection \<open>Sockets\<close>

text \<open>The calls that the network's model has are used; an address is a member of its list.\<close>

definition Socket :: "addr \<Rightarrow> (os, int) cmd" where
  "Socket a = nonneg (sys_socket a)"

definition Setsockopt :: "(int \<Rightarrow> int \<Rightarrow> int \<Rightarrow> int \<Rightarrow> ('s, int) cmd) \<Rightarrow> int \<Rightarrow> int \<Rightarrow> int \<Rightarrow> int \<Rightarrow> ('s, unit) cmd" where
  "Setsockopt setsockopt fd level optname optval = success (setsockopt fd level optname optval)"

definition Bind :: "int \<Rightarrow> addr \<Rightarrow> (os, unit) cmd" where
  "Bind sockfd my_addr = success (sys_bind sockfd my_addr)"

definition Listen :: "int \<Rightarrow> (os, unit) cmd" where
  "Listen fd = success (sys_listen fd)"

definition Accept :: "int \<Rightarrow> (os, int) cmd" where
  "Accept fd = nonneg (sys_accept fd)"

definition Connect :: "int \<Rightarrow> addr \<Rightarrow> (os, unit) cmd" where
  "Connect sockfd serv_addr = success (sys_connect sockfd serv_addr)"

definition Getaddrinfo :: "string option \<Rightarrow> string \<Rightarrow> (os, addr list) cmd" where
  "Getaddrinfo node service =
     bnd (gets (\<lambda>s. net_gai (os_net s) node service)) (\<lambda>r.
     case r of Inl rc \<Rightarrow> Gai_error rc | Inr res \<Rightarrow> ret res)"

definition Getnameinfo :: "('a \<Rightarrow> int \<Rightarrow> ('s, int \<times> string \<times> string) cmd) \<Rightarrow> 'a \<Rightarrow> int \<Rightarrow> ('s, string \<times> string) cmd" where
  "Getnameinfo getnameinfo sa flags =
     bnd (getnameinfo sa flags) (\<lambda>(rc, names). if rc \<noteq> 0 then Gai_error rc else ret names)"

definition Freeaddrinfo :: "('r \<Rightarrow> ('s, unit) cmd) \<Rightarrow> 'r \<Rightarrow> ('s, unit) cmd" where
  "Freeaddrinfo freeaddrinfo res = freeaddrinfo res"

definition Inet_ntop :: "(int \<Rightarrow> 'a \<Rightarrow> ('s, string option) cmd) \<Rightarrow> int \<Rightarrow> 'a \<Rightarrow> ('s, string) cmd" where
  "Inet_ntop inet_ntop af src = nonnull (inet_ntop af src)"

definition Inet_pton :: "(int \<Rightarrow> string \<Rightarrow> ('s, int \<times> 'a) cmd) \<Rightarrow> int \<Rightarrow> string \<Rightarrow> ('s, 'a) cmd" where
  "Inet_pton inet_pton af src =
     bnd (inet_pton af src) (\<lambda>(rc, dst).
     if rc = 0 then app_error else if rc < 0 then unix_error else ret dst)"

definition Gethostbyname :: "(string \<Rightarrow> ('s, 'h option) cmd) \<Rightarrow> string \<Rightarrow> ('s, 'h) cmd" where
  "Gethostbyname gethostbyname name =
     bnd (gethostbyname name) (\<lambda>p. case p of None \<Rightarrow> dns_error | Some h \<Rightarrow> ret h)"

definition Gethostbyaddr :: "('a \<Rightarrow> int \<Rightarrow> int \<Rightarrow> ('s, 'h option) cmd) \<Rightarrow> 'a \<Rightarrow> int \<Rightarrow> int \<Rightarrow> ('s, 'h) cmd" where
  "Gethostbyaddr gethostbyaddr addr len type =
     bnd (gethostbyaddr addr len type) (\<lambda>p. case p of None \<Rightarrow> dns_error | Some h \<Rightarrow> ret h)"

subsection \<open>Threads and semaphores\<close>

definition Pthread_create :: "('r \<Rightarrow> 'v \<Rightarrow> ('s, int \<times> 't) cmd) \<Rightarrow> 'r \<Rightarrow> 'v \<Rightarrow> ('s, 't) cmd" where
  "Pthread_create pthread_create routine argp =
     bnd (pthread_create routine argp) (\<lambda>(rc, tid). if rc \<noteq> 0 then posix_error rc else ret tid)"

definition Pthread_cancel :: "('t \<Rightarrow> ('s, int) cmd) \<Rightarrow> 't \<Rightarrow> ('s, unit) cmd" where
  "Pthread_cancel pthread_cancel tid = errno_zero (pthread_cancel tid)"

definition Pthread_join :: "('t \<Rightarrow> ('s, int \<times> 'v) cmd) \<Rightarrow> 't \<Rightarrow> ('s, 'v) cmd" where
  "Pthread_join pthread_join tid =
     bnd (pthread_join tid) (\<lambda>(rc, v). if rc \<noteq> 0 then posix_error rc else ret v)"

definition Pthread_detach :: "('t \<Rightarrow> ('s, int) cmd) \<Rightarrow> 't \<Rightarrow> ('s, unit) cmd" where
  "Pthread_detach pthread_detach tid = errno_zero (pthread_detach tid)"

definition Pthread_exit :: "('v \<Rightarrow> ('s, unit) cmd) \<Rightarrow> 'v \<Rightarrow> ('s, unit) cmd" where
  "Pthread_exit pthread_exit retval = pthread_exit retval"

definition Pthread_self :: "('s, 't) cmd \<Rightarrow> ('s, 't) cmd" where
  "Pthread_self pthread_self = pthread_self"

definition Pthread_once :: "('o \<Rightarrow> 'r \<Rightarrow> ('s, int) cmd) \<Rightarrow> 'o \<Rightarrow> 'r \<Rightarrow> ('s, unit) cmd" where
  "Pthread_once pthread_once once_control init_function =
     bnd (pthread_once once_control init_function) (\<lambda>_. ret ())"

definition Sem_init :: "('m \<Rightarrow> int \<Rightarrow> nat \<Rightarrow> ('s, int) cmd) \<Rightarrow> 'm \<Rightarrow> int \<Rightarrow> nat \<Rightarrow> ('s, unit) cmd" where
  "Sem_init sem_init sem pshared value = success (sem_init sem pshared value)"

subsection \<open>What the patterns guarantee\<close>

lemma nonneg_cases:
  "call s = Inr (rc, s') \<Longrightarrow> nonneg call s = (if rc < 0 then Inl (Exit 0) else Inr (rc, s'))"
  "call s = Inr (rc, s') \<Longrightarrow> success call s = (if rc < 0 then Inl (Exit 0) else Inr ((), s'))"
  by (simp_all add: nonneg_def success_def bnd_def unix_error_def halt_def ret_def)

lemma nonneg_Inr:
  "nonneg call s = Inr (rc, s') \<longleftrightarrow> call s = Inr (rc, s') \<and> 0 \<le> rc"
  "success call s = Inr (u, s') \<longleftrightarrow> (\<exists>rc. call s = Inr (rc, s') \<and> 0 \<le> rc)"
  by (auto simp: nonneg_def success_def bnd_def unix_error_def halt_def ret_def split: if_splits sum.splits)

lemma nonnull_Inr: "nonnull call s = Inr (p, s') \<longleftrightarrow> call s = Inr (Some p, s')"
  by (auto simp: nonnull_def bnd_eq_Inr_iff unix_error_def halt_def ret_def split: option.splits)

lemma nonnull_None: "call s = Inr (None, s') \<Longrightarrow> nonnull call s = Inl (Exit 0)"
  by (simp add: nonnull_def bnd_def unix_error_def halt_def)

lemma errno_zero_Inr: "errno_zero call s = Inr (u, s') \<longleftrightarrow> call s = Inr (0, s')"
  by (auto simp: errno_zero_def bnd_eq_Inr_iff posix_error_def halt_def ret_def split: if_splits)

text \<open>What comes back from \<open>Read\<close> and \<open>Write\<close> is what the kernel transferred.\<close>

lemma Read_Inr:
  "Read fd n s = Inr ((rc, bs), s') \<longleftrightarrow> sys_read fd n s = Inr ((rc, bs), s') \<and> 0 \<le> rc"
  by (auto simp: Read_def bnd_def unix_error_def halt_def ret_def split: if_splits sum.splits)

lemma Close_again: "Close fd s = Inr ((), s') \<Longrightarrow> Close fd s' = Inl (Exit 0)"
  by (auto simp: Close_def sys_close_def success_def bnd_def unix_error_def halt_def ret_def
      split: if_splits option.splits)

end
