(* ===== verification/Client.thy ===== *)
theory Client
  imports Rio Worker_Faults
begin

section \<open>The line client (\<open>app/client.c\<close>)\<close>

text \<open>
  The client sends each line of its standard input to the server and prints what
  \<open>Rio_readlineb\<close> then leaves in the same buffer.  The standard input is a list of characters;
  \<open>fgets\<close> takes the next line of it, or at most \<open>MAXLINE - 1\<close> characters.
\<close>

definition fgets_stdin :: "block \<Rightarrow> string \<Rightarrow> (os, (block \<times> string) option) cmd" where
  "fgets_stdin buf input =
     (if input = [] then ret None
      else let l = get_line (MAXLINE - 1) input in
        bnd (lift_res (blk_write buf 0 (l @ [NUL]))) (\<lambda>buf. ret (Some (buf, drop (length l) input))))"

lemma fgets_stdin_less [simp]:
  "fgets_stdin buf input s = Inr (Some (buf1, rest), s1) \<Longrightarrow> length rest < length input"
  by (auto simp: fgets_stdin_def Let_def ret_def bnd_eq_Inr_iff MAXLINE_def split: if_splits)

function client_loop :: "rio \<Rightarrow> block \<Rightarrow> int \<Rightarrow> string \<Rightarrow> (os, unit) cmd" where
  "client_loop rp buf clientfd input s =
     bnd (fgets_stdin buf input) (\<lambda>r s1.
     case r of
       None \<Rightarrow> ret () s1
     | Some (buf1, rest) \<Rightarrow>
         bnd (bnd (lift_res (c_strlen buf1)) (\<lambda>n.
           bnd (Rio_writen clientfd buf1 n) (\<lambda>_.
           bnd (Rio_readlineb rp buf1 MAXLINE) (\<lambda>(rc, buf2, rp1).
           bnd (lift_res (c_str buf2)) (\<lambda>t.
           bnd (print_out [t]) (\<lambda>_. ret (buf2, rp1)))))))
           (\<lambda>q s2. case q of (buf2, rp1) \<Rightarrow> client_loop rp1 buf2 clientfd rest s2) s1) s"
  by pat_completeness auto
termination
  by (relation "measure (\<lambda>(rp, buf, clientfd, input, s). length input)") auto

declare client_loop.simps [simp del]

definition client_main :: "junk \<Rightarrow> string list \<Rightarrow> string \<Rightarrow> (os, unit) cmd" where
  "client_main junk argv input =
     (if length argv \<noteq> 3 then halt (Exit 0)
      else
      bnd (csapp_open_clientfd (argv ! 1) (argv ! 2)) (\<lambda>clientfd.
      bnd (client_loop (rio_readinitb \<lparr>nio_fd = 0, nio_cnt = 0, nio_bufptr = 0,
             nio_buf = local_array junk ''rio'' NIO_BUFSIZE\<rparr> clientfd)
             (local_array junk ''buf'' MAXLINE) clientfd input) (\<lambda>_.
      bnd (sys_close clientfd) (\<lambda>_. ret ()))))"

subsection \<open>\<open>rio\<close> on regular streams\<close>

lemma sys_write_draining:
  assumes "fd \<in> os_open s" "draining (os_wr s fd)" "off + n \<le> length buf" "0 < n" "n \<le> SSIZE_MAX"
    and "sys_write fd buf off n s = Inr (rc, s1)"
  shows "fd \<in> os_open s1" "draining (os_wr s1 fd)" "rc \<le> int n" "rc \<le> 0 \<Longrightarrow> os_errno s1 = EINTR"
proof -
  obtain bs where bs: "blk_read buf off n = Inr bs" using assms(3) by (simp add: blk_read_Inr)
  then show "fd \<in> os_open s1" "draining (os_wr s1 fd)" "rc \<le> int n" "rc \<le> 0 \<Longrightarrow> os_errno s1 = EINTR"
    using assms by (auto simp: sys_write_def os_accept_bytes_def min_def split: list.splits wr_event.splits if_splits)
qed

lemma rio_writen_loop_eq:
  "fd \<in> os_open s \<Longrightarrow> draining (os_wr s fd) \<Longrightarrow> off + nleft \<le> length buf \<Longrightarrow> nleft \<le> SSIZE_MAX \<Longrightarrow>
   rio_writen_loop fd buf off nleft n s = nio_writen_loop fd buf off nleft n s"
proof (induction fd buf off nleft n s rule: rio_writen_loop.induct)
  case (1 fd buf off nleft n s)
  show ?case
  proof (cases "nleft = 0")
    case True
    then show ?thesis by (simp add: rio_writen_loop.simps nio_writen_loop.simps)
  next
    case False
    let ?rec = "\<lambda>nwritten s1. nwritten \<le> 0 \<and> os_errno s1 = EINTR"
    have "(if rc \<le> 0 then
          if os_errno s1 = EINTR then rio_writen_loop fd buf off nleft n s1 else ret (- 1) s1
        else rio_writen_loop fd buf (off + nat rc) (nleft - nat rc) n s1) =
      (if rc \<le> 0 then
          if os_errno s1 = EINTR then nio_writen_loop fd buf off nleft n s1
          else if os_errno s1 = EPIPE then ret (int n) s1 else ret (- 1) s1
        else nio_writen_loop fd buf (off + nat rc) (nleft - nat rc) n s1)"
      if w: "sys_write fd buf off nleft s = Inr (rc, s1)" for rc s1
    proof -
      note d = sys_write_draining [OF 1(3-5) _ 1(6) w]
      show ?thesis
      proof (cases "rc \<le> 0")
        case True
        with d False 1(1) [OF False w True] 1(5,6) show ?thesis by simp
      next
        case pos: False
        with d False 1(2) [OF False w pos] 1(5,6) show ?thesis by simp
      qed
    qed
    then show ?thesis using False
      by (subst rio_writen_loop.simps, subst nio_writen_loop.simps)
        (simp add: bnd_def split: sum.split prod.split)
  qed
qed

lemma Rio_writen_delivers:
  assumes "fd \<in> os_open s" "draining (os_wr s fd)" "n \<le> length buf" "n \<le> SSIZE_MAX"
  shows "\<exists>s'. Rio_writen fd buf n s = Inr ((), s') \<and> writes fd (take n buf) s s' \<and> draining (os_wr s' fd)"
proof -
  have "rio_writen fd buf n s = nio_writen fd buf n s"
    using rio_writen_loop_eq [OF assms(1,2), of 0 n buf n] assms(3,4)
    by (simp add: rio_writen_def nio_writen_def)
  with nio_writen_delivers [OF assms] obtain s' where
    "rio_writen fd buf n s = Inr (int n, s')" "writes fd (take n buf) s s'" "draining (os_wr s' fd)" by auto
  moreover have "to_size (int n) = n" using assms(4) by (simp add: to_size_def SIZE_MOD_def SSIZE_MAX_def)
  ultimately show ?thesis by (auto simp: Rio_writen_def bnd_def ret_def)
qed

lemma Rio_readlineb_any:
  assumes "readable rp s" "length buf = 8192"
  defines "l \<equiv> get_line 8191 (stream rp s)"
  shows "\<exists>rp1 s1. Rio_readlineb rp buf MAXLINE s =
      Inr ((int (length l), (if l = [] then buf else l @ NUL # drop (length l + 1) buf), rp1), s1) \<and>
    readable rp1 s1 \<and> stream rp s = l @ stream rp1 s1 \<and> nio_fd rp1 = nio_fd rp \<and> reads (nio_fd rp) s s1"
proof -
  have m: "1 < MAXLINE" "MAXLINE \<le> length buf" "MAXLINE \<le> 2147483647" using assms(2) by (simp_all add: MAXLINE_def)
  have l: "l = get_line (MAXLINE - 1 - 0) (stream rp s)" by (simp add: l_def MAXLINE_def)
  have eq: "rio_readlineb rp buf MAXLINE s = (case nio_readlineb rp buf MAXLINE s of
      Inl e \<Rightarrow> Inl e
    | Inr ((k, b, rp1), s1) \<Rightarrow> Inr ((if k \<le> 0 then k else int (length l), b, rp1), s1))"
    using rio_readlineb_loop_eq [OF assms(1) _ m(2,3) l, unfolded add_0] m(1)
    by (simp add: rio_readlineb_def nio_readlineb_def)
  have "\<exists>k rp1 s1. nio_readlineb rp buf MAXLINE s =
      Inr ((k, (if l = [] then buf else l @ NUL # drop (length l + 1) buf), rp1), s1) \<and>
      (if k \<le> 0 then k else int (length l)) = int (length l) \<and>
    readable rp1 s1 \<and> stream rp s = l @ stream rp1 s1 \<and> nio_fd rp1 = nio_fd rp \<and> reads (nio_fd rp) s s1"
  proof (cases "stream rp s = []")
    case True
    with nio_readlineb_eof [OF assms(1) m(1) True, of buf] show ?thesis by (intro exI [of _ 0]) (auto simp: l_def)
  next
    case False
    then have "l \<noteq> []" by (simp add: l_def)
    moreover have "0 < line_ret l" using \<open>l \<noteq> []\<close> by (auto simp: line_ret_def)
    ultimately show ?thesis
      using nio_readlineb_line [OF assms(1) m False l [unfolded diff_zero]]
      by (intro exI [of _ "int (line_ret l)"]) auto
  qed
  then show ?thesis unfolding Rio_readlineb_def by (auto simp: eq bnd_def ret_def)
qed

subsection \<open>What the client prints\<close>

text \<open>
  For every line of the input, the next line of the server's stream; once the stream is at its end, the
  client prints its own line, which is still in the buffer.
\<close>

function client_out :: "string \<Rightarrow> block \<Rightarrow> string list" where
  "client_out input cs =
     (if input = [] then []
      else let l = get_line 8191 input; r = get_line 8191 cs in
        (if r = [] then l else cstr r) # client_out (drop (length l) input) (drop (length r) cs))"
  by pat_completeness auto
termination
  by (relation "measure (\<lambda>(input, cs). length input)") (auto simp: Let_def)

declare client_out.simps [simp del]

lemma client_loop_prints:
  "readable rp s \<Longrightarrow> nio_fd rp \<in> os_open s \<Longrightarrow> draining (os_wr s (nio_fd rp)) \<Longrightarrow>
   length buf = 8192 \<Longrightarrow> NUL \<notin> set input \<Longrightarrow>
   \<exists>s'. client_loop rp buf (nio_fd rp) input s = Inr ((), s') \<and>
     os_stdout s' = os_stdout s @ client_out input (stream rp s) \<and>
     os_out s' (nio_fd rp) = os_out s (nio_fd rp) @ input \<and>
     nio_fd rp \<in> os_open s' \<and> os_open s' = os_open s"
proof (induction input arbitrary: rp s buf rule: length_induct)
  case (1 input)
  let ?fd = "nio_fd rp"
  show ?case
  proof (cases "input = []")
    case True
    with 1 show ?thesis
      by (subst client_loop.simps) (simp add: fgets_stdin_def ret_def client_out.simps bnd_def)
  next
    case False
    define l where "l = get_line 8191 input"
    define rest where "rest = drop (length l) input"
    have l: "l \<noteq> []" "length l \<le> 8191" using False get_line_length by (auto simp: l_def)
    have input: "input = l @ rest"
      using get_line_prefix [of input 8191] unfolding l_def rest_def by (metis append_eq_conv_conj)
    have nul: "NUL \<notin> set l" "NUL \<notin> set rest" using 1(6) input by auto
    define buf1 where "buf1 = l @ NUL # drop (length l + 1) buf"
    have b1: "length buf1 = 8192" using l(2) 1(5) by (simp add: buf1_def)
    have g: "fgets_stdin buf input s = Inr (Some (buf1, rest), s)"
      using False l(2) 1(5) by (simp add: fgets_stdin_def MAXLINE_def l_def [symmetric] Let_def bnd_lift_res
          blk_write_Inr buf1_def ret_def rest_def)
    have n: "c_strlen buf1 = Inr (length l)" using nul by (simp add: buf1_def c_strlen_def)
    from Rio_writen_delivers [OF 1(3,4), of "length l" buf1] b1 l(2) obtain s1 where
      w: "Rio_writen ?fd buf1 (length l) s = Inr ((), s1)" "writes ?fd l s s1" "draining (os_wr s1 ?fd)"
      by (auto simp: buf1_def SSIZE_MAX_def)
    note wf = writes_fields [OF w(2)]
    have r1: "readable rp s1" "stream rp s1 = stream rp s"
      using 1(2) wf by (simp_all add: readable_def stream_def)
    define r where "r = get_line 8191 (stream rp s)"
    define buf2 where "buf2 = (if r = [] then buf1 else r @ NUL # drop (length r + 1) buf1)"
    from Rio_readlineb_any [OF r1(1) b1, unfolded r1(2), folded r_def buf2_def] obtain rp1 s2 where
      rd: "Rio_readlineb rp buf1 MAXLINE s1 = Inr ((int (length r), buf2, rp1), s2)" "readable rp1 s2"
        "stream rp s = r @ stream rp1 s2" "nio_fd rp1 = ?fd" "reads ?fd s1 s2" by blast
    note rf = reads_fields [OF rd(5)]
    have rl: "length r \<le> 8191" using get_line_length by (simp add: r_def)
    have t: "c_str buf2 = Inr (if r = [] then l else cstr r)"
      using nul(1) by (auto simp: buf2_def buf1_def c_str_def cstr_append cstr_Cons cstr_no_NUL)
    let ?t = "if r = [] then l else cstr r"
    let ?s3 = "s2\<lparr>os_stdout := os_stdout s2 @ [?t]\<rparr>"
    have step: "client_loop rp buf ?fd input s = client_loop rp1 buf2 ?fd rest ?s3"
      by (subst client_loop.simps)
        (simp add: bnd_def g lift_res_def n w(1) rd(1) t print_out_run ret_def)
    have "length rest < length input" using input l(1) by simp
    moreover have "readable rp1 ?s3" "stream rp1 ?s3 = stream rp1 s2"
      using rd(2) by (simp_all add: readable_def stream_def)
    moreover have "length buf2 = 8192" using b1 rl by (simp add: buf2_def)
    moreover have "nio_fd rp1 \<in> os_open ?s3" "draining (os_wr ?s3 (nio_fd rp1))"
      using rd(4) rf wf w(3) 1(3) by simp_all
    ultimately obtain s' where s': "client_loop rp1 buf2 ?fd rest ?s3 = Inr ((), s')"
      "os_stdout s' = os_stdout ?s3 @ client_out rest (stream rp1 s2)"
      "os_out s' ?fd = os_out ?s3 ?fd @ rest" "os_open s' = os_open ?s3"
      using 1(1) nul(2) rd(4) by metis
    have "drop (length r) (stream rp s) = stream rp1 s2" using rd(3) by (metis append_eq_conv_conj)
    then have "client_out input (stream rp s) = ?t # client_out rest (stream rp1 s2)"
      using False by (subst client_out.simps) (simp add: l_def [symmetric] r_def [symmetric] rest_def [symmetric] Let_def)
    with s' step rf wf 1(3) input show ?thesis by (intro exI [of _ s']) simp
  qed
qed

end
