(* ===== verification/System_Results.thy ===== *)
theory System_Results
  imports Samples Wrappers Client
begin

section \<open>Results on the wrappers and the small programs\<close>

text \<open>
  The contract of the wrappers of \<open>csapp.c\<close> and the conversation of the client of \<open>app/client.c\<close>.
\<close>

lemma nonneg_Exit:
  "nonneg call s = Inl e \<longleftrightarrow> call s = Inl e \<or> e = Exit 0 \<and> (\<exists>rc s'. call s = Inr (rc, s') \<and> rc < 0)"
  "success call s = Inl e \<longleftrightarrow> call s = Inl e \<or> e = Exit 0 \<and> (\<exists>rc s'. call s = Inr (rc, s') \<and> rc < 0)"
  by (auto simp: nonneg_def success_def bnd_def unix_error_def halt_def ret_def split: if_splits sum.splits)

lemma nonnull_Exit:
  "nonnull call s = Inl e \<longleftrightarrow> call s = Inl e \<or> e = Exit 0 \<and> (\<exists>s'. call s = Inr (None, s'))"
  by (auto simp: nonnull_def bnd_def unix_error_def halt_def ret_def split: option.splits sum.splits)

text \<open>A wrapper returns exactly when the wrapped call succeeds, with the result of the call, and
  ends the process with status 0 when it fails; \<open>Sleep\<close> never fails, and a descriptor can be
  closed once only.\<close>

theorem wrappers_return_only_successes:
  "(Fork fork s = Inr (pid, s') \<longleftrightarrow> fork s = Inr (pid, s') \<and> 0 \<le> pid) \<and>
   (Fork fork s = Inl e \<longleftrightarrow> fork s = Inl e \<or> e = Exit 0 \<and> (\<exists>rc s'. fork s = Inr (rc, s') \<and> rc < 0)) \<and>
   (Malloc malloc n s = Inr (p, s') \<longleftrightarrow> malloc n s = Inr (Some p, s')) \<and>
   (Malloc malloc n s = Inl e \<longleftrightarrow> malloc n s = Inl e \<or> e = Exit 0 \<and> (\<exists>s'. malloc n s = Inr (None, s'))) \<and>
   (Pthread_detach pthread_detach tid s = Inr ((), s') \<longleftrightarrow> pthread_detach tid s = Inr (0, s')) \<and>
   Sleep sleep secs s = sleep secs s \<and>
   (Inet_pton inet_pton af src s = Inr (dst, s') \<longleftrightarrow>
      (\<exists>rc. inet_pton af src s = Inr ((rc, dst), s') \<and> 0 < rc)) \<and>
   (Read fd k t = Inr ((rc, bs), t') \<longleftrightarrow> sys_read fd k t = Inr ((rc, bs), t') \<and> 0 \<le> rc) \<and>
   (Close fd t = Inr ((), t') \<longleftrightarrow>
      fd \<in> os_open t \<and> net_close (os_net t) fd = None \<and> t' = t\<lparr>os_open := os_open t - {fd}\<rparr>) \<and>
   bnd (Close fd) (\<lambda>_. Close fd) t = Inl (Exit 0)"
proof (intro conjI)
  show "Sleep sleep secs s = sleep secs s"
    by (simp add: Sleep_def bnd_def ret_def split: sum.split)
  show "Inet_pton inet_pton af src s = Inr (dst, s') \<longleftrightarrow>
      (\<exists>rc. inet_pton af src s = Inr ((rc, dst), s') \<and> 0 < rc)"
    by (auto simp: Inet_pton_def bnd_def unix_error_def app_error_def halt_def ret_def
        split: if_splits sum.splits)
  show "Close fd t = Inr ((), t') \<longleftrightarrow>
      fd \<in> os_open t \<and> net_close (os_net t) fd = None \<and> t' = t\<lparr>os_open := os_open t - {fd}\<rparr>"
    "bnd (Close fd) (\<lambda>_. Close fd) t = Inl (Exit 0)"
    by (auto simp: Close_def sys_close_def success_def bnd_def unix_error_def halt_def ret_def set_errno_def modify_def
        split: option.splits if_splits)
qed (simp_all add: Fork_def Malloc_def Pthread_detach_def nonneg_Inr nonneg_Exit nonnull_Inr nonnull_Exit
      errno_zero_Inr Read_Inr)

text \<open>\<open>app/client.c\<close> against a server that accepts it: every character of the standard input is
  sent, in order; each line of it is answered by printing the next line that the server sends; and
  the connection is closed at the end of the input.  When the server has sent its last line, the
  client prints its own lines instead, which \<open>Rio_readlineb\<close> leaves in the shared buffer.\<close>

theorem client_prints_the_servers_lines:
  assumes "fds_ok s" "server_sends s host port resp" "NUL \<notin> set input"
    and "\<And>fd. net_close (os_net s) fd = None"
  shows "\<exists>fd s'. client_main junk [prog, host, port] input s = Inr ((), s') \<and>
     os_fresh_fd s \<le> fd \<and> os_out s' fd = os_out s fd @ input \<and>
     os_stdout s' = os_stdout s @ client_out input resp \<and> os_open s' = os_open s"
proof -
  from assms(2) obtain as where as: "net_gai (os_net s) (Some host) port = Inr as" "reachable (os_net s) as"
    by (auto simp: server_sends_def server_up_def)
  from open_clientfd_connected [OF assms(1) as] obtain fd s1 where
    o: "open_clientfd host port s = Inr (fd, s1)" "os_fresh_fd s \<le> fd" "opens {fd} s s1" by blast
  note f = opens_fields [OF o(3)]
  let ?rp = "\<lparr>nio_fd = 0, nio_cnt = 0, nio_bufptr = 0, nio_buf = local_array junk ''rio'' NIO_BUFSIZE\<rparr>"
  let ?rp1 = "rio_readinitb ?rp fd"
  have cl: "clean (os_in s1 fd)" "tape (os_in s1 fd) = resp" "draining (os_wr s1 fd)" "fd \<in> os_open s1"
    using assms(2) o(2) f by (auto simp: server_sends_def)
  have eq: "?rp1 = nio_readinitb ?rp fd" by (simp add: rio_readinitb_def nio_readinitb_def)
  have buf: "length (nio_buf ?rp) = 8192" by (simp add: local_array_def NIO_BUFSIZE_def)
  have r: "readable ?rp1 s1" "stream ?rp1 s1 = resp" "nio_fd ?rp1 = fd"
    using nio_readinitb_readable [OF buf cl(4,1)] cl(2) by (simp_all add: eq)
  have "length (local_array junk ''buf'' MAXLINE) = 8192" by (simp add: local_array_def MAXLINE_def)
  from client_loop_prints [OF r(1) _ _ this assms(3)] r cl obtain s2 where
    s2: "client_loop ?rp1 (local_array junk ''buf'' MAXLINE) fd input s1 = Inr ((), s2)"
      "os_stdout s2 = os_stdout s1 @ client_out input resp" "os_out s2 fd = os_out s1 fd @ input"
      "os_open s2 = os_open s1" by auto
  have co: "csapp_open_clientfd host port s = Inr (fd, s1)"
    using csapp_open_clientfd_eq(1) [OF assms(1) as(1)] o(1) assms(4) by (simp add: close_error_def)
  have new: "fd \<notin> os_open s" using assms(1) o(2) by (auto simp: fds_ok_def)
  obtain r en where "sys_close fd s2 = Inr (r, s2\<lparr>os_open := os_open s2 - {fd}, os_errno := en\<rparr>)"
    by (rule sys_close_runs)
  then have "client_main junk [prog, host, port] input s =
      Inr ((), s2\<lparr>os_open := os_open s2 - {fd}, os_errno := en\<rparr>)"
    using s2(1,4) cl(4) by (simp add: client_main_def bnd_def co ret_def)
  with o(2) s2 f new show ?thesis by (intro exI [of _ fd]) auto
qed

lemma os_with_stdout: "os_stdout (os_with l resp) = []"
  by (simp add: os_with_def)

lemma client_prints_the_servers_lines_witness:
  "\<exists>fd s'. client_main junk0 [''client'', ''h'', ''80''] [CHR ''a'', LF, CHR ''c'', LF] (os_with [] [CHR ''b'', LF]) = Inr ((), s') \<and>
     os_out s' fd = [CHR ''a'', LF, CHR ''c'', LF] \<and> os_stdout s' = [[CHR ''b'', LF], [CHR ''c'', LF]] \<and>
     os_open s' = {3, 4, 5}"
proof -
  let ?s = "os_with [] [CHR ''b'', LF]"
  have "fds_ok ?s" "NUL \<notin> set [CHR ''a'', LF, CHR ''c'', LF]" by simp_all
  moreover have "\<And>fd. net_close (os_net ?s) fd = None" by (simp add: net0_def)
  ultimately obtain fd s' where
    "client_main junk0 [''client'', ''h'', ''80''] [CHR ''a'', LF, CHR ''c'', LF] ?s = Inr ((), s')"
    "os_out s' fd = [CHR ''a'', LF, CHR ''c'', LF]" "os_open s' = {3, 4, 5}"
    "os_stdout s' = client_out [CHR ''a'', LF, CHR ''c'', LF] [CHR ''b'', LF]"
    using client_prints_the_servers_lines [of ?s "''h''" "''80''" "[CHR ''b'', LF]" "[CHR ''a'', LF, CHR ''c'', LF]" junk0 "''client''"]
      server0 by (auto simp: os_with_stdout)
  moreover have "client_out [CHR ''a'', LF, CHR ''c'', LF] [CHR ''b'', LF] = [[CHR ''b'', LF], [CHR ''c'', LF]]"
    by (simp add: client_out.simps cstr_Cons Let_def)
  ultimately show ?thesis by auto
qed

end
