(* ===== verification/Logging.thy ===== *)
theory Logging
  imports Prelude
begin

section \<open>The logging macros (\<open>lib/include/comm.h\<close>)\<close>

text \<open>
  Each macro flushes both standard streams and prints one coloured message.  A stream has the
  characters that wait in its buffer and those that were written.  The text of a message, after the
  conversions of its format, is a parameter, as are the name of the file, the line and the function
  that the debugging variants print.  \<open>POSIX_ERROR\<close> has a message and the text of \<open>strerror\<close>.
\<close>

record stream2 =
  out_pending :: string
  out_file :: string
  err_file :: string

definition fflush_stdout :: "(stream2, unit) cmd" where
  "fflush_stdout = modify (\<lambda>s. s\<lparr>out_file := out_file s @ out_pending s, out_pending := []\<rparr>)"

text \<open>The standard error is not buffered.\<close>

definition fflush_stderr :: "(stream2, unit) cmd" where
  "fflush_stderr = ret ()"

definition fprintf_stdout :: "string \<Rightarrow> (stream2, unit) cmd" where
  "fprintf_stdout t = modify (\<lambda>s. s\<lparr>out_pending := out_pending s @ t\<rparr>)"

definition fprintf_stderr :: "string \<Rightarrow> (stream2, unit) cmd" where
  "fprintf_stderr t = modify (\<lambda>s. s\<lparr>err_file := err_file s @ t\<rparr>)"

definition ESC :: string where
  "ESC = [CHR 0x1B]"

definition ANSI_COLOR_RED :: string where "ANSI_COLOR_RED = ESC @ ''[31m''"

definition ANSI_COLOR_GREEN :: string where "ANSI_COLOR_GREEN = ESC @ ''[32m''"

definition ANSI_COLOR_YELLOW :: string where "ANSI_COLOR_YELLOW = ESC @ ''[33m''"

definition ANSI_COLOR_BLUE :: string where "ANSI_COLOR_BLUE = ESC @ ''[34m''"

definition ANSI_COLOR_MAGENTA :: string where "ANSI_COLOR_MAGENTA = ESC @ ''[35m''"

definition ANSI_COLOR_CYAN :: string where "ANSI_COLOR_CYAN = ESC @ ''[36m''"

definition ANSI_COLOR_RESET :: string where "ANSI_COLOR_RESET = ESC @ ''[0m''"

definition EXIT_FAILURE :: int where
  "EXIT_FAILURE = 1"

subsection \<open>The public variants\<close>

definition LOG_PUBLIC :: "string \<Rightarrow> (stream2, unit) cmd" where
  "LOG_PUBLIC text =
     bnd fflush_stdout (\<lambda>_.
     bnd fflush_stderr (\<lambda>_.
     fprintf_stdout (ANSI_COLOR_YELLOW @ ''LOG: '' @ text @ ANSI_COLOR_RESET)))"

definition INFO_PUBLIC :: "string \<Rightarrow> (stream2, unit) cmd" where
  "INFO_PUBLIC text =
     bnd fflush_stdout (\<lambda>_.
     bnd fflush_stderr (\<lambda>_.
     fprintf_stdout (ANSI_COLOR_BLUE @ ''INFO: '' @ text @ ANSI_COLOR_RESET)))"

definition WARNING_PUBLIC :: "string \<Rightarrow> (stream2, unit) cmd" where
  "WARNING_PUBLIC text =
     bnd fflush_stdout (\<lambda>_.
     bnd fflush_stderr (\<lambda>_.
     fprintf_stdout (ANSI_COLOR_RED @ ''WARNING: '' @ text @ ANSI_COLOR_RESET)))"

definition ERROR_PUBLIC :: "int \<Rightarrow> string \<Rightarrow> (stream2, unit) cmd" where
  "ERROR_PUBLIC exitcode text =
     bnd fflush_stdout (\<lambda>_.
     bnd fflush_stderr (\<lambda>_.
     bnd (fprintf_stderr (ANSI_COLOR_RED @ ''ERROR: '' @ text @ ANSI_COLOR_RESET)) (\<lambda>_.
     halt (Exit exitcode))))"

definition POSIX_ERROR_PUBLIC :: "string \<Rightarrow> string \<Rightarrow> (stream2, unit) cmd" where
  "POSIX_ERROR_PUBLIC msg strerror =
     bnd fflush_stdout (\<lambda>_.
     bnd fflush_stderr (\<lambda>_.
     bnd (fprintf_stderr (ANSI_COLOR_RED @ ''ERROR: '' @ msg @ '': '' @ strerror @ [LF] @ ANSI_COLOR_RESET)) (\<lambda>_.
     halt (Exit EXIT_FAILURE))))"

subsection \<open>The debugging variants\<close>

definition place :: "string \<Rightarrow> nat \<Rightarrow> string \<Rightarrow> string" where
  "place file line func = ''['' @ file @ '', '' @ dec_digits line @ '', '' @ func @ '']'' @ [LF]"

definition LOG_DEBUG :: "string \<Rightarrow> nat \<Rightarrow> string \<Rightarrow> string \<Rightarrow> (stream2, unit) cmd" where
  "LOG_DEBUG file line func text =
     bnd fflush_stdout (\<lambda>_.
     bnd fflush_stderr (\<lambda>_.
     fprintf_stdout (ANSI_COLOR_YELLOW @ ''LOG: '' @ place file line func @ ANSI_COLOR_RESET @
       ANSI_COLOR_YELLOW @ text @ ANSI_COLOR_RESET)))"

definition INFO_DEBUG :: "string \<Rightarrow> nat \<Rightarrow> string \<Rightarrow> string \<Rightarrow> (stream2, unit) cmd" where
  "INFO_DEBUG file line func text =
     bnd fflush_stdout (\<lambda>_.
     bnd fflush_stderr (\<lambda>_.
     fprintf_stdout (ANSI_COLOR_BLUE @ ''INFO: '' @ place file line func @ ANSI_COLOR_RESET @
       ANSI_COLOR_BLUE @ text @ ANSI_COLOR_RESET)))"

definition WARNING_DEBUG :: "string \<Rightarrow> nat \<Rightarrow> string \<Rightarrow> string \<Rightarrow> (stream2, unit) cmd" where
  "WARNING_DEBUG file line func text =
     bnd fflush_stdout (\<lambda>_.
     bnd fflush_stderr (\<lambda>_.
     fprintf_stdout (ANSI_COLOR_RED @ ''WARNING: '' @ place file line func @ ANSI_COLOR_RESET @
       ANSI_COLOR_RED @ text @ ANSI_COLOR_RESET)))"

definition ERROR_DEBUG :: "int \<Rightarrow> string \<Rightarrow> nat \<Rightarrow> string \<Rightarrow> string \<Rightarrow> (stream2, unit) cmd" where
  "ERROR_DEBUG exitcode file line func text =
     bnd fflush_stdout (\<lambda>_.
     bnd fflush_stderr (\<lambda>_.
     bnd (fprintf_stderr (ANSI_COLOR_RED @ ''ERROR: '' @ place file line func @ ANSI_COLOR_RESET @
       ANSI_COLOR_RED @ text @ ANSI_COLOR_RESET)) (\<lambda>_.
     halt (Exit exitcode))))"

definition POSIX_ERROR_DEBUG :: "string \<Rightarrow> nat \<Rightarrow> string \<Rightarrow> string \<Rightarrow> string \<Rightarrow> (stream2, unit) cmd" where
  "POSIX_ERROR_DEBUG file line func msg strerror =
     bnd fflush_stdout (\<lambda>_.
     bnd fflush_stderr (\<lambda>_.
     bnd (fprintf_stderr (ANSI_COLOR_RED @ ''ERROR: '' @ place file line func @ msg @ '': '' @ strerror @ [LF] @
       ANSI_COLOR_RESET)) (\<lambda>_.
     halt (Exit EXIT_FAILURE))))"

subsection \<open>The choice between them\<close>

text \<open>\<open>dbg\<close> says whether \<open>DEBUG\<close> is defined.\<close>

definition LOG :: "bool \<Rightarrow> string \<Rightarrow> nat \<Rightarrow> string \<Rightarrow> string \<Rightarrow> (stream2, unit) cmd" where
  "LOG dbg file line func text = (if dbg then LOG_DEBUG file line func text else LOG_PUBLIC text)"

definition INFO :: "bool \<Rightarrow> string \<Rightarrow> nat \<Rightarrow> string \<Rightarrow> string \<Rightarrow> (stream2, unit) cmd" where
  "INFO dbg file line func text = (if dbg then INFO_DEBUG file line func text else INFO_PUBLIC text)"

definition WARNING :: "bool \<Rightarrow> string \<Rightarrow> nat \<Rightarrow> string \<Rightarrow> string \<Rightarrow> (stream2, unit) cmd" where
  "WARNING dbg file line func text =
     (if dbg then WARNING_DEBUG file line func text else WARNING_PUBLIC text)"

definition ERROR :: "bool \<Rightarrow> int \<Rightarrow> string \<Rightarrow> nat \<Rightarrow> string \<Rightarrow> string \<Rightarrow> (stream2, unit) cmd" where
  "ERROR dbg exitcode file line func text =
     (if dbg then ERROR_DEBUG exitcode file line func text else ERROR_PUBLIC exitcode text)"

definition POSIX_ERROR :: "bool \<Rightarrow> string \<Rightarrow> nat \<Rightarrow> string \<Rightarrow> string \<Rightarrow> string \<Rightarrow> (stream2, unit) cmd" where
  "POSIX_ERROR dbg file line func msg strerror =
     (if dbg then POSIX_ERROR_DEBUG file line func msg strerror else POSIX_ERROR_PUBLIC msg strerror)"

lemmas log_cmds = fflush_stdout_def fflush_stderr_def fprintf_stdout_def fprintf_stderr_def
  bnd_def modify_def ret_def halt_def

subsection \<open>What is printed\<close>

text \<open>The output of the process so far, written or not.\<close>

definition out_text :: "stream2 \<Rightarrow> string" where
  "out_text s = out_file s @ out_pending s"

text \<open>
  \<open>LOG\<close>, \<open>INFO\<close> and \<open>WARNING\<close> always return; they add one message that ends with the reset sequence
  to the standard output, after everything printed before, and only that message can
  still wait in the buffer.
\<close>

lemma log_appends:
  assumes "m \<in> {LOG dbg file line func text, INFO dbg file line func text, WARNING dbg file line func text}"
  shows "\<exists>s' t. m s = Inr ((), s') \<and> out_text s' = out_text s @ t @ text @ ANSI_COLOR_RESET \<and>
    out_file s' = out_text s \<and> err_file s' = err_file s"
  using assms
  by (auto simp: LOG_def INFO_def WARNING_def LOG_DEBUG_def INFO_DEBUG_def WARNING_DEBUG_def
      LOG_PUBLIC_def INFO_PUBLIC_def WARNING_PUBLIC_def log_cmds out_text_def)

lemma error_exits:
  "ERROR dbg code file line func text s = Inl (Exit code)"
  "POSIX_ERROR dbg file line func msg strerror s = Inl (Exit 1)"
  by (simp_all add: ERROR_def POSIX_ERROR_def ERROR_DEBUG_def ERROR_PUBLIC_def POSIX_ERROR_DEBUG_def
      POSIX_ERROR_PUBLIC_def log_cmds EXIT_FAILURE_def)

end
