(* ===== verification/Reader_Writer.thy ===== *)
theory Reader_Writer
  imports RWLock
begin

section \<open>The reader-writer demonstration (\<open>app/reader-writer.c\<close>)\<close>

text \<open>
  The program that tries out the lock of the cache: readers and writers that print a line inside
  their critical sections for ever.  A round is one pass of an endless loop.
\<close>

record rwdemo = rwlock +
  rwd_out :: "string list"

definition rw_print :: "string \<Rightarrow> (rwdemo, unit) cmd" where
  "rw_print t = modify (\<lambda>s. s\<lparr>rwd_out := rwd_out s @ [t @ [LF]]\<rparr>)"

definition reader_round :: "(rwdemo, unit) cmd" where
  "reader_round =
     bnd rw_P_mutex (\<lambda>_.
     bnd readers_inc (\<lambda>_.
     bnd (gets rw_readcnt) (\<lambda>n.
     bnd (if n = 1 then rw_P_w else ret ()) (\<lambda>_.
     bnd rw_V_mutex (\<lambda>_.
     bnd (rw_print ''reading ...'') (\<lambda>_.
     bnd rw_P_mutex (\<lambda>_.
     bnd readers_dec (\<lambda>_.
     bnd (gets rw_readcnt) (\<lambda>n.
     bnd (if n = 0 then rw_V_w else ret ()) (\<lambda>_.
     rw_V_mutex))))))))))"

definition writer_round :: "(rwdemo, unit) cmd" where
  "writer_round =
     bnd rw_P_w (\<lambda>_.
     bnd (rw_print ''writing ...'') (\<lambda>_.
     rw_V_w))"

fun reader :: "nat \<Rightarrow> (rwdemo, unit) cmd" where
  "reader 0 = ret ()"
| "reader (Suc k) = bnd reader_round (\<lambda>_. reader k)"

fun writer :: "nat \<Rightarrow> (rwdemo, unit) cmd" where
  "writer 0 = ret ()"
| "writer (Suc k) = bnd writer_round (\<lambda>_. writer k)"

text \<open>A round is a critical section of the cache's lock: \<open>pre_read\<close>, the line, \<open>post_read\<close>.\<close>

lemma reader_round_eq:
  "reader_round = bnd pre_read (\<lambda>_. bnd (rw_print ''reading ...'') (\<lambda>_. post_read))"
  by (simp add: reader_round_def pre_read_def post_read_def bnd_def fun_eq_iff split: sum.split)

lemma writer_round_eq:
  "writer_round = bnd pre_write (\<lambda>_. bnd (rw_print ''writing ...'') (\<lambda>_. post_write))"
  by (simp add: writer_round_def pre_write_def post_write_def)

lemma reader_round_ok:
  assumes "rw_free s"
  shows "reader_round s = Inr ((), s\<lparr>rwd_out := rwd_out s @ [''reading ...'' @ [LF]]\<rparr>)"
  using assms by (simp add: reader_round_def rw_print_def rw_free_def rw_cmds SEM_VALUE_MAX_def bnd_def
      c_inc_def c_dec_def INT_MAX_def)

lemma writer_round_ok:
  assumes "rw_free s"
  shows "writer_round s = Inr ((), s\<lparr>rwd_out := rwd_out s @ [''writing ...'' @ [LF]]\<rparr>)"
  using assms by (simp add: writer_round_def rw_print_def rw_free_def rw_cmds SEM_VALUE_MAX_def bnd_def)

lemma reader_rounds:
  "rw_free s \<Longrightarrow> reader k s = Inr ((), s\<lparr>rwd_out := rwd_out s @ replicate k (''reading ...'' @ [LF])\<rparr>)"
proof (induction k arbitrary: s)
  case (Suc k)
  have "rw_free (s\<lparr>rwd_out := rwd_out s @ [''reading ...'' @ [LF]]\<rparr>)"
    using Suc.prems by (simp add: rw_free_def)
  from Suc.IH [OF this] reader_round_ok [OF Suc.prems] show ?case by (simp add: bnd_def)
qed (simp add: ret_def)

lemma writer_rounds:
  "rw_free s \<Longrightarrow> writer k s = Inr ((), s\<lparr>rwd_out := rwd_out s @ replicate k (''writing ...'' @ [LF])\<rparr>)"
proof (induction k arbitrary: s)
  case (Suc k)
  have "rw_free (s\<lparr>rwd_out := rwd_out s @ [''writing ...'' @ [LF]]\<rparr>)"
    using Suc.prems by (simp add: rw_free_def)
  from Suc.IH [OF this] writer_round_ok [OF Suc.prems] show ?case by (simp add: bnd_def)
qed (simp add: ret_def)

end
