(* ===== verification/Gt_Base.thy ===== *)
theory Gt_Base
  imports Prelude
begin

section \<open>Shared vocabulary of the test framework\<close>

text \<open>
  The test framework under \<open>src/googletest\<close> is C++: a \<open>std::vector\<close> is a list whose elements are
  reached through checked accesses, a \<open>std::string\<close> or a stream that is written to is a list of
  characters, and a function that can run into an access outside a container or a failed
  \<open>GTEST_CHECK_\<close> gives \<open>Inl\<close> of the reason and \<open>Inr\<close> of its result otherwise.
\<close>

named_theorems vec_simps \<open>accesses to vectors within their bounds\<close>

definition bindr :: "'e + 'a \<Rightarrow> ('a \<Rightarrow> 'e + 'b) \<Rightarrow> 'e + 'b" where
  "bindr m f = (case m of Inl e \<Rightarrow> Inl e | Inr x \<Rightarrow> f x)"

lemma bindr_simps [simp]: "bindr (Inr x) f = f x" "bindr (Inl e) f = Inl e"
  by (simp_all add: bindr_def)

lemma bindr_cong [fundef_cong]:
  assumes "m = m'" "\<And>x. m' = Inr x \<Longrightarrow> f x = f' x"
  shows "bindr m f = bindr m' f'"
  using assms by (simp add: bindr_def split: sum.split)

lemma bindr_eq_Inr: "bindr m f = Inr y \<longleftrightarrow> (\<exists>x. m = Inr x \<and> f x = Inr y)"
  by (auto simp: bindr_def split: sum.split)

lemma bindr_assoc: "bindr (bindr m f) g = bindr m (\<lambda>x. bindr (f x) g)"
  by (simp add: bindr_def split: sum.split)

definition vat :: "'a list \<Rightarrow> nat \<Rightarrow> stop + 'a" where
  "vat xs i = (if i < length xs then Inr (xs ! i) else Inl Overread)"

definition vput :: "'a list \<Rightarrow> nat \<Rightarrow> 'a \<Rightarrow> stop + 'a list" where
  "vput xs i x = (if i < length xs then Inr (xs[i := x]) else Inl Overflow)"

lemma vat_Inr [vec_simps]: "i < length xs \<Longrightarrow> vat xs i = Inr (xs ! i)"
  by (simp add: vat_def)

lemma vput_Inr [vec_simps]: "i < length xs \<Longrightarrow> vput xs i x = Inr (xs[i := x])"
  by (simp add: vput_def)

lemma vat_eq_Inr: "vat xs i = Inr x \<longleftrightarrow> i < length xs \<and> x = xs ! i"
  by (auto simp: vat_def)

lemma vput_eq_Inr: "vput xs i x = Inr ys \<longleftrightarrow> i < length xs \<and> ys = xs[i := x]"
  by (auto simp: vput_def)

text \<open>Number of elements that satisfy a test, and how an update changes it.\<close>

lemma count_update_less:
  "i < length xs \<Longrightarrow> p (xs ! i) \<Longrightarrow> \<not> p y \<Longrightarrow> length (filter p (xs[i := y])) < length (filter p xs)"
proof (induction xs arbitrary: i)
  case (Cons x xs)
  then show ?case by (cases i) (auto simp: less_Suc_eq_le Suc_le_eq)
qed simp

lemma count_update_le:
  "\<not> p y \<Longrightarrow> length (filter p (xs[i := y])) \<le> length (filter p xs)"
proof (induction xs arbitrary: i)
  case (Cons x xs)
  then show ?case by (cases i) (auto simp: le_SucI)
qed simp

subsection \<open>Loops\<close>

text \<open>\<open>rfold body is s\<close> runs the body of a loop for the values of its variable in turn.\<close>

fun rfold :: "('i \<Rightarrow> 's \<Rightarrow> stop + 's) \<Rightarrow> 'i list \<Rightarrow> 's \<Rightarrow> stop + 's" where
  "rfold body [] s = Inr s"
| "rfold body (i # is) s = bindr (body i s) (rfold body is)"

lemma rfold_append: "rfold body (is @ js) s = bindr (rfold body is s) (rfold body js)"
proof (induction "is" arbitrary: s)
  case (Cons i "is")
  then have "rfold body (is @ js) = (\<lambda>s. bindr (rfold body is s) (rfold body js))" by (rule ext)
  then show ?case by (simp add: bindr_assoc)
qed simp

lemma rfold_upt_inv:
  assumes "\<And>i s. i < n \<Longrightarrow> I i s \<Longrightarrow> \<exists>s'. body i s = Inr s' \<and> I (Suc i) s'" "I 0 s"
  shows "\<exists>s'. rfold body [0..<n] s = Inr s' \<and> I n s'"
  using assms
proof (induction n)
  case (Suc n)
  then obtain s1 where "rfold body [0..<n] s = Inr s1" "I n s1" by (metis less_SucI)
  with Suc.prems(1) [of n s1] show ?case by (auto simp: rfold_append)
qed simp

text \<open>Rendering: a number that is written to a stream, and the separator idiom.\<close>

definition show_bool :: "bool \<Rightarrow> string" where
  "show_bool b = (if b then ''1'' else ''0'')"

end
