(* ===== verification/Gt_Strings.thy ===== *)
theory Gt_Strings
  imports Gt_Base
begin

section \<open>Strings of the test framework (\<open>googletest/src/gtest.cc\<close>, \<open>gtest-port.cc\<close>)\<close>

text \<open>
  A C string that may be \<open>NULL\<close> is an option; its characters do not contain the terminator.  A
  \<open>std::string\<close> may contain NUL characters, which \<open>c_str\<close> cuts.
\<close>

subsection \<open>Comparison\<close>

definition CStringEquals :: "string option \<Rightarrow> string option \<Rightarrow> bool" where
  "CStringEquals lhs rhs =
     (case lhs of None \<Rightarrow> rhs = None
      | Some l \<Rightarrow> (case rhs of None \<Rightarrow> False | Some r \<Rightarrow> l = r))"

definition CaseInsensitiveCStringEquals :: "string option \<Rightarrow> string option \<Rightarrow> bool" where
  "CaseInsensitiveCStringEquals lhs rhs =
     (case lhs of None \<Rightarrow> rhs = None
      | Some l \<Rightarrow> (case rhs of None \<Rightarrow> False | Some r \<Rightarrow> strcasecmp0 l r))"

definition EndsWithCaseInsensitive :: "string \<Rightarrow> string \<Rightarrow> bool" where
  "EndsWithCaseInsensitive str suffix \<longleftrightarrow>
     length suffix \<le> length str \<and>
     CaseInsensitiveCStringEquals (Some (cstr (drop (length str - length suffix) str))) (Some (cstr suffix))"

subsection \<open>Formatting\<close>

definition hex_digit :: "nat \<Rightarrow> char" where
  "hex_digit d = (if d < 10 then char_of (48 + d) else char_of (55 + d))"

fun hex_digits :: "nat \<Rightarrow> string" where
  "hex_digits n = (if n < 16 then [hex_digit n] else hex_digits (n div 16) @ [hex_digit (n mod 16)])"

declare hex_digits.simps [simp del]

text \<open>\<open>setfill('0')\<close> and \<open>setw\<close> pad on the left of the whole text, before a sign.\<close>

definition zero_padded :: "nat \<Rightarrow> string \<Rightarrow> string" where
  "zero_padded width t = replicate (width - length t) CHR ''0'' @ t"

definition FormatIntWidthN :: "int \<Rightarrow> nat \<Rightarrow> string" where
  "FormatIntWidthN value width = zero_padded width (dec_int value)"

definition FormatIntWidth2 :: "int \<Rightarrow> string" where
  "FormatIntWidth2 value = FormatIntWidthN value 2"

definition FormatHexUInt32 :: "32 word \<Rightarrow> string" where
  "FormatHexUInt32 value = hex_digits (unat value)"

definition FormatHexInt :: "int \<Rightarrow> string" where
  "FormatHexInt value = FormatHexUInt32 (word_of_int value)"

definition FormatByte :: "8 word \<Rightarrow> string" where
  "FormatByte value = zero_padded 2 (hex_digits (unat value))"

text \<open>NUL characters of a message become the two characters backslash and 0.\<close>

fun StringStreamToString :: "string \<Rightarrow> string" where
  "StringStreamToString [] = []"
| "StringStreamToString (ch # ss) = (if ch = NUL then [CHR 0x5C, CHR ''0''] else [ch]) @ StringStreamToString ss"

lemma StringStreamToString_id: "NUL \<notin> set s \<Longrightarrow> StringStreamToString s = s"
  by (induction s) auto

definition AppendUserMessage :: "string \<Rightarrow> string \<Rightarrow> string" where
  "AppendUserMessage gtest_msg user_msg =
     (let user_msg_string = StringStreamToString user_msg in
      if user_msg_string = [] then gtest_msg
      else if gtest_msg = [] then user_msg_string
      else gtest_msg @ [LF] @ user_msg_string)"

definition FormatCountableNoun :: "int \<Rightarrow> string \<Rightarrow> string \<Rightarrow> string" where
  "FormatCountableNoun count singular_form plural_form =
     dec_int count @ '' '' @ (if count = 1 then singular_form else plural_form)"

definition FormatTestCount :: "int \<Rightarrow> string" where
  "FormatTestCount test_count = FormatCountableNoun test_count ''test'' ''tests''"

definition FormatTestSuiteCount :: "int \<Rightarrow> string" where
  "FormatTestSuiteCount test_suite_count = FormatCountableNoun test_suite_count ''test suite'' ''test suites''"

text \<open>Where something is, for a compiler message; a negative line is unknown.\<close>

definition FormatFileLocation :: "string option \<Rightarrow> int \<Rightarrow> string" where
  "FormatFileLocation f l =
     (let file_name = (case f of None \<Rightarrow> ''unknown file'' | Some n \<Rightarrow> n)
      in if l < 0 then file_name @ '':'' else file_name @ '':'' @ dec_int l @ '':'')"

subsection \<open>Splitting\<close>

text \<open>\<open>str.find(delimiter, pos)\<close> searches the rest of the string; \<open>pos\<close> moves behind the delimiter.\<close>

function SplitString :: "string \<Rightarrow> char \<Rightarrow> string list" where
  "SplitString str delimiter =
     (if delimiter \<in> set str
      then takeWhile (\<lambda>c. c \<noteq> delimiter) str # SplitString (tl (dropWhile (\<lambda>c. c \<noteq> delimiter) str)) delimiter
      else [str])"
  by pat_completeness auto
termination
proof (relation "measure (\<lambda>(str, delimiter). length str)")
  fix str :: string and d :: char
  assume "d \<in> set str"
  moreover have "length (dropWhile (\<lambda>c. c \<noteq> d) str) \<le> length str" by (rule length_dropWhile_le)
  ultimately show "((tl (dropWhile (\<lambda>c. c \<noteq> d) str), d), str, d) \<in> measure (\<lambda>(str, delimiter). length str)"
    by (cases str) auto
qed simp

declare SplitString.simps [simp del]

definition SkipPrefix :: "string \<Rightarrow> string \<Rightarrow> bool \<times> string" where
  "SkipPrefix prefix pstr =
     (if take (length prefix) pstr = prefix then (True, drop (length prefix) pstr) else (False, pstr))"

text \<open>Joining with a character, the inverse of splitting.\<close>

fun join_with :: "char \<Rightarrow> string list \<Rightarrow> string" where
  "join_with d [] = []"
| "join_with d [s] = s"
| "join_with d (s # ss) = s @ d # join_with d ss"

lemma SplitString_not_Nil [simp]: "SplitString str d \<noteq> []"
  by (subst SplitString.simps) simp

lemma SplitString_no_delimiter: "s \<in> set (SplitString str d) \<Longrightarrow> d \<notin> set s"
proof (induction str d rule: SplitString.induct)
  case (1 str d)
  show ?case
  proof (cases "d \<in> set str")
    case True
    then have "SplitString str d = takeWhile (\<lambda>c. c \<noteq> d) str # SplitString (tl (dropWhile (\<lambda>c. c \<noteq> d) str)) d"
      by (simp add: SplitString.simps [of str])
    with 1 True show ?thesis by (auto dest: set_takeWhileD)
  next
    case False
    with "1.prems" show ?thesis by (simp add: SplitString.simps [of str])
  qed
qed

lemma join_Split: "join_with d (SplitString str d) = str"
proof (induction str d rule: SplitString.induct)
  case (1 str d)
  show ?case
  proof (cases "d \<in> set str")
    case True
    let ?rest = "dropWhile (\<lambda>c. c \<noteq> d) str"
    have "?rest \<noteq> []" using True by (simp add: dropWhile_eq_Nil_conv)
    then have hd: "?rest = d # tl ?rest" using hd_dropWhile [of "\<lambda>c. c \<noteq> d" str] by (metis list.collapse)
    obtain q qs where q: "SplitString (tl ?rest) d = q # qs" by (metis SplitString_not_Nil neq_Nil_conv)
    have "SplitString str d = takeWhile (\<lambda>c. c \<noteq> d) str # q # qs" using True q by (simp add: SplitString.simps [of str])
    then have "join_with d (SplitString str d) = takeWhile (\<lambda>c. c \<noteq> d) str @ d # tl ?rest"
      using 1 True q by simp
    then show ?thesis using hd by (metis takeWhile_dropWhile_id)
  next
    case False
    then show ?thesis by (simp add: SplitString.simps [of str])
  qed
qed

lemma Split_join:
  "ss \<noteq> [] \<Longrightarrow> \<forall>s \<in> set ss. d \<notin> set s \<Longrightarrow> SplitString (join_with d ss) d = ss"
proof (induction d ss rule: join_with.induct)
  case (2 d s)
  then show ?case by (subst SplitString.simps) simp
next
  case (3 d s t ss)
  have "takeWhile (\<lambda>c. c \<noteq> d) (s @ d # join_with d (t # ss)) = s"
    "dropWhile (\<lambda>c. c \<noteq> d) (s @ d # join_with d (t # ss)) = d # join_with d (t # ss)"
    using 3(3) by (auto simp: takeWhile_append dropWhile_append)
  with 3 show ?case by (subst SplitString.simps) simp
qed simp

subsection \<open>Numbers in the environment and in flags\<close>

text \<open>\<open>strtol\<close> in base 10: white space, a sign, digits; without a digit nothing is consumed.
  It gives the value, cut to the range of \<open>long\<close>, and what it did not consume.\<close>

definition strtol :: "string \<Rightarrow> int \<times> string" where
  "strtol str =
     (let body = dropWhile isspace str;
          neg = (body \<noteq> [] \<and> hd body = CHR ''-'');
          num = (if body \<noteq> [] \<and> (hd body = CHR ''-'' \<or> hd body = CHR ''+'') then tl body else body);
          ds = takeWhile isdigit num;
          v = fold (\<lambda>c n. 10 * n + (of_char c - 48)) ds (0 :: int)
      in if ds = [] then (0, str)
         else (max (- 9223372036854775808) (min 9223372036854775807 (if neg then - v else v)), dropWhile isdigit num))"

definition int32_of :: "int \<Rightarrow> int" where
  "int32_of i = (i + 2147483648) mod 4294967296 - 2147483648"

text \<open>\<open>ParseInt32\<close> without its warnings; \<open>None\<close> when it returns false.\<close>

definition ParseInt32 :: "string \<Rightarrow> int option" where
  "ParseInt32 str =
     (case strtol str of (long_value, end) \<Rightarrow>
        if end \<noteq> [] then None
        else let result = int32_of long_value in
          if long_value = 9223372036854775807 \<or> long_value = - 9223372036854775808 \<or> result \<noteq> long_value
          then None else Some result)"

lemma int32_of_range: "- 2147483648 \<le> int32_of i" "int32_of i \<le> 2147483647"
  unfolding int32_of_def
  using pos_mod_sign [of 4294967296 "i + 2147483648"] pos_mod_bound [of 4294967296 "i + 2147483648"] by linarith+

lemma int32_of_eq_iff: "int32_of i = i \<longleftrightarrow> - 2147483648 \<le> i \<and> i \<le> 2147483647"
proof
  assume "int32_of i = i"
  then show "- 2147483648 \<le> i \<and> i \<le> 2147483647" using int32_of_range [of i] by simp
next
  assume "- 2147483648 \<le> i \<and> i \<le> 2147483647"
  then have "(i + 2147483648) mod 4294967296 = i + 2147483648" by (intro mod_pos_pos_trivial) auto
  then show "int32_of i = i" by (simp add: int32_of_def)
qed

lemma ParseInt32_range: "ParseInt32 str = Some v \<Longrightarrow> - 2147483648 \<le> v \<and> v \<le> 2147483647"
  by (auto simp: ParseInt32_def Let_def int32_of_range split: prod.splits if_splits)
    (metis int32_of_range)+

text \<open>Reading back a printed number.\<close>

lemma fold_digits_dec:
  "fold (\<lambda>c n. 10 * n + (of_char c - 48)) (dec_digits n) (0 :: int) = int n"
proof (induction n rule: dec_digits.induct)
  case (1 n)
  have d: "(of_char (char_of (48 + k) :: char) :: int) = 48 + int k" if "k < 10" for k :: nat
  proof -
    have "(of_char (char_of (48 + k) :: char) :: int) = int (of_char (char_of (48 + k) :: char))"
      by (simp only: of_nat_of_char)
    with that show ?thesis by simp
  qed
  show ?case
  proof (cases "n < 10")
    case True
    with d [OF True] show ?thesis by (subst dec_digits.simps) simp
  next
    case False
    with 1 have "fold (\<lambda>c n. 10 * n + (of_char c - 48)) (dec_digits n) (0 :: int) =
        10 * int (n div 10) + int (n mod 10)"
      using d [of "n mod 10"] by (subst dec_digits.simps) simp
    then show ?thesis by (metis mult_div_mod_eq of_nat_add of_nat_mult of_nat_numeral)
  qed
qed

lemma dec_digits_chars: "c \<in> set (dec_digits n) \<Longrightarrow> isdigit c"
proof (induction n rule: dec_digits.induct)
  case (1 n)
  have d: "isdigit (char_of (48 + k) :: char)" if "k < 10" for k :: nat
    using that by (simp add: isdigit_def)
  show ?case
  proof (cases "n < 10")
    case True
    with "1.prems" d [OF True] show ?thesis by (subst (asm) dec_digits.simps) simp
  next
    case False
    with "1.prems" have "c \<in> set (dec_digits (n div 10)) \<or> c = char_of (48 + n mod 10)"
      by (subst (asm) dec_digits.simps) auto
    with "1.IH" [OF False] d [of "n mod 10"] show ?thesis by auto
  qed
qed

lemma dec_digits_Nil [simp]: "dec_digits n \<noteq> []"
  by (subst dec_digits.simps) simp

lemma dec_digits_inj: "dec_digits m = dec_digits n \<Longrightarrow> m = n"
proof -
  assume "dec_digits m = dec_digits n"
  with fold_digits_dec [of m] have "fold (\<lambda>c n. 10 * n + (of_char c - 48)) (dec_digits n) (0 :: int) = int m" by simp
  with fold_digits_dec [of n] show "m = n" by (metis of_nat_eq_iff)
qed

lemma minus_not_digit: "\<not> isdigit CHR ''-''"
  by (simp add: isdigit_def)

lemma dec_int_inj: "dec_int m = dec_int n \<Longrightarrow> m = n"
proof -
  assume e: "dec_int m = dec_int n"
  have h: "hd (dec_digits k) \<noteq> CHR ''-''" for k
    using dec_digits_chars [of "hd (dec_digits k)" k] minus_not_digit by auto
  have "CHR ''-'' # ds \<noteq> dec_digits k" for ds k using h [of k] by (metis list.sel(1))
  with e have "m < 0 \<longleftrightarrow> n < 0" by (auto simp: dec_int_def split: if_splits) metis+
  with e dec_digits_inj [of "nat (- m)" "nat (- n)"] dec_digits_inj [of "nat m" "nat n"] show ?thesis
    by (auto simp: dec_int_def split: if_splits)
qed

lemma digit_not_space: "isdigit c \<Longrightarrow> \<not> isspace c \<and> c \<noteq> CHR ''-'' \<and> c \<noteq> CHR ''+''"
  by (auto simp: isdigit_def isspace_def Let_def)

lemma ParseInt32_dec:
  assumes "v \<le> 2147483647"
  shows "ParseInt32 (dec_digits v) = Some (int v)"
proof -
  obtain c cs where c: "dec_digits v = c # cs" by (meson dec_digits_Nil neq_Nil_conv)
  have all: "\<forall>x \<in> set (dec_digits v). isdigit x" using dec_digits_chars by blast
  then have "isdigit c" using c by simp
  note d = digit_not_space [OF this]
  have "strtol (dec_digits v) = (int v, [])"
  proof -
    have "dropWhile isspace (dec_digits v) = dec_digits v" using c d by simp
    moreover have "takeWhile isdigit (dec_digits v) = dec_digits v" "dropWhile isdigit (dec_digits v) = []"
      using all by simp_all
    ultimately show ?thesis
      using assms c d fold_digits_dec [of v] by (simp add: strtol_def Let_def)
  qed
  then show ?thesis using assms int32_of_eq_iff [of "int v"] by (simp add: ParseInt32_def)
qed

subsection \<open>Flags\<close>

definition GTEST_FLAG_PREFIX :: string where
  "GTEST_FLAG_PREFIX = ''gtest_''"

definition GTEST_FLAG_PREFIX_DASH :: string where
  "GTEST_FLAG_PREFIX_DASH = ''gtest-''"

definition ParseFlagValue :: "string option \<Rightarrow> string option \<Rightarrow> bool \<Rightarrow> string option" where
  "ParseFlagValue str flag_name def_optional =
     (case str of None \<Rightarrow> None | Some s \<Rightarrow>
      case flag_name of None \<Rightarrow> None | Some f \<Rightarrow>
      let flag_str = ''--'' @ GTEST_FLAG_PREFIX @ f in
      if take (length flag_str) s \<noteq> flag_str then None
      else let flag_end = drop (length flag_str) s in
        if def_optional \<and> flag_end = [] then Some flag_end
        else if flag_end = [] \<or> hd flag_end \<noteq> CHR ''='' then None
        else Some (tl flag_end))"

definition ParseBoolFlag :: "string option \<Rightarrow> string option \<Rightarrow> bool option" where
  "ParseBoolFlag str flag_name =
     (case ParseFlagValue str flag_name True of None \<Rightarrow> None
      | Some v \<Rightarrow> Some (\<not> (v \<noteq> [] \<and> hd v \<in> {CHR ''0'', CHR ''f'', CHR ''F''})))"

definition ParseInt32Flag :: "string option \<Rightarrow> string option \<Rightarrow> int option" where
  "ParseInt32Flag str flag_name =
     (case ParseFlagValue str flag_name False of None \<Rightarrow> None | Some v \<Rightarrow> ParseInt32 v)"

definition ParseStringFlag :: "string option \<Rightarrow> string option \<Rightarrow> string option" where
  "ParseStringFlag str flag_name = ParseFlagValue str flag_name False"

text \<open>The \<open>||\<close> and \<open>&&\<close> of the code skip prefixes of the same pointer one after the other.\<close>

definition HasGoogleTestFlagPrefix :: "string \<Rightarrow> bool" where
  "HasGoogleTestFlagPrefix str =
     (let (dashes, s) = (case SkipPrefix ''--'' str of (True, s) \<Rightarrow> (True, s) | (False, s) \<Rightarrow>
            (case SkipPrefix ''-'' s of (True, s) \<Rightarrow> (True, s) | (False, s) \<Rightarrow> SkipPrefix ''/'' s)) in
      dashes \<and> \<not> fst (SkipPrefix (GTEST_FLAG_PREFIX @ ''internal_'') s) \<and>
      (fst (SkipPrefix GTEST_FLAG_PREFIX s) \<or> fst (SkipPrefix GTEST_FLAG_PREFIX_DASH s)))"

lemma ParseFlagValue_printed:
  "ParseFlagValue (Some (''--gtest_'' @ f @ ''='' @ v)) (Some f) b = Some v"
  by (simp add: ParseFlagValue_def GTEST_FLAG_PREFIX_def)

end
