(* ===== verification/Gt_Filter.thy ===== *)
theory Gt_Filter
  imports Gt_Strings
begin

section \<open>Test filters (\<open>googletest/src/gtest.cc\<close>)\<close>

text \<open>
  The matcher of \<open>--gtest_filter\<close>: a loop with two pointers into the pattern and the name and one
  restart point, with no bound of its own, hence a partial function.  It is proved to return,
  with the answer of the recursive definition of wildcards.
\<close>

subsection \<open>The matcher\<close>

text \<open>\<open>p\<close>, \<open>n\<close>: how far \<open>pattern\<close> and \<open>name\<close> have come; \<open>pn\<close>, \<open>nn\<close>: \<open>pattern_next\<close> and \<open>name_next\<close>.\<close>

partial_function (option) match_loop :: "string \<Rightarrow> string \<Rightarrow> nat \<Rightarrow> nat \<Rightarrow> nat \<Rightarrow> nat \<Rightarrow> bool option" where
  "match_loop name pattern p n pn nn =
     (if \<not> (p < length pattern \<or> n < length name) then Some True
      else if p < length pattern \<and> pattern ! p = CHR ''*'' then match_loop name pattern (Suc p) n p (Suc n)
      else if p < length pattern \<and> pattern ! p = CHR ''?'' \<and> n < length name
      then match_loop name pattern (Suc p) (Suc n) pn nn
      else if p < length pattern \<and> pattern ! p \<noteq> CHR ''?'' \<and> n < length name \<and> name ! n = pattern ! p
      then match_loop name pattern (Suc p) (Suc n) pn nn
      else if 0 < nn \<and> nn \<le> length name then match_loop name pattern pn nn pn nn
      else Some False)"

definition PatternMatchesString :: "string \<Rightarrow> string \<Rightarrow> bool option" where
  "PatternMatchesString name_str pattern = match_loop name_str pattern 0 0 0 0"

subsection \<open>Filters\<close>

definition IsGlobPattern :: "string \<Rightarrow> bool" where
  "IsGlobPattern pattern \<longleftrightarrow> list_ex (\<lambda>c. c = CHR ''?'' \<or> c = CHR ''*'') pattern"

text \<open>The patterns with wildcards, and the set of the others.\<close>

record unit_test_filter =
  glob_patterns :: "string list"
  exact_match_patterns :: "string set"

definition empty_filter :: unit_test_filter where
  "empty_filter = \<lparr>glob_patterns = [], exact_match_patterns = {}\<rparr>"

definition UnitTestFilter :: "string \<Rightarrow> unit_test_filter" where
  "UnitTestFilter flt =
     (let all_patterns = SplitString flt CHR '':'' in
      \<lparr>glob_patterns = filter IsGlobPattern all_patterns,
       exact_match_patterns = set (filter (\<lambda>p. \<not> IsGlobPattern p) all_patterns)\<rparr>)"

text \<open>\<open>any_of\<close> stops at the first pattern that matches.\<close>

fun any_glob :: "string \<Rightarrow> string list \<Rightarrow> bool option" where
  "any_glob name [] = Some False"
| "any_glob name (p # ps) =
     Option.bind (PatternMatchesString name p) (\<lambda>b. if b then Some True else any_glob name ps)"

definition MatchesName :: "unit_test_filter \<Rightarrow> string \<Rightarrow> bool option" where
  "MatchesName f name =
     (if name \<in> exact_match_patterns f then Some True else any_glob name (glob_patterns f))"

record pos_neg_filter =
  positive_filter :: unit_test_filter
  negative_filter :: unit_test_filter

definition kUniversalFilter :: string where
  "kUniversalFilter = ''*''"

definition PositiveAndNegativeUnitTestFilter :: "string \<Rightarrow> pos_neg_filter" where
  "PositiveAndNegativeUnitTestFilter flt =
     (case SplitString flt CHR ''-'' of
        [] \<Rightarrow> \<lparr>positive_filter = empty_filter, negative_filter = empty_filter\<rparr>
      | [positive] \<Rightarrow> \<lparr>positive_filter = UnitTestFilter positive, negative_filter = empty_filter\<rparr>
      | positive # negative # rest \<Rightarrow>
          \<lparr>positive_filter = UnitTestFilter (if positive = [] then kUniversalFilter else positive),
           negative_filter = UnitTestFilter (fold (\<lambda>part s. s @ ''-'' @ part) rest negative)\<rparr>)"

definition MatchesNamePN :: "pos_neg_filter \<Rightarrow> string \<Rightarrow> bool option" where
  "MatchesNamePN f name =
     Option.bind (MatchesName (positive_filter f) name) (\<lambda>b.
     if b then map_option Not (MatchesName (negative_filter f) name) else Some False)"

definition MatchesTest :: "pos_neg_filter \<Rightarrow> string \<Rightarrow> string \<Rightarrow> bool option" where
  "MatchesTest f test_suite_name test_name = MatchesNamePN f (test_suite_name @ ''.'' @ test_name)"

definition MatchesFilter :: "string \<Rightarrow> string \<Rightarrow> bool option" where
  "MatchesFilter name_str flt = MatchesName (UnitTestFilter flt) name_str"

definition FilterMatchesTest :: "string \<Rightarrow> string \<Rightarrow> string \<Rightarrow> bool option" where
  "FilterMatchesTest gtest_filter test_suite_name test_name =
     MatchesTest (PositiveAndNegativeUnitTestFilter gtest_filter) test_suite_name test_name"

subsection \<open>What wildcards mean\<close>

fun glob :: "string \<Rightarrow> string \<Rightarrow> bool" where
  "glob [] n \<longleftrightarrow> n = []"
| "glob (c # p) n \<longleftrightarrow>
     (if c = CHR ''*'' then (\<exists>k \<le> length n. glob p (drop k n))
      else n \<noteq> [] \<and> (c = CHR ''?'' \<or> c = hd n) \<and> glob p (tl n))"

definition from_here :: "string \<Rightarrow> string \<Rightarrow> nat \<Rightarrow> nat \<Rightarrow> bool" where
  "from_here name pattern p n \<longleftrightarrow> glob (drop p pattern) (drop n name)"

lemma from_here_end: "n \<le> length name \<Longrightarrow> from_here name pattern (length pattern) n \<longleftrightarrow> n = length name"
  by (auto simp: from_here_def)

lemma from_here_star:
  assumes "p < length pattern" "pattern ! p = CHR ''*''" "n \<le> length name"
  shows "from_here name pattern p n \<longleftrightarrow> (\<exists>k. n \<le> k \<and> k \<le> length name \<and> from_here name pattern (Suc p) k)"
proof -
  have "drop p pattern = CHR ''*'' # drop (Suc p) pattern" using assms by (metis Cons_nth_drop_Suc)
  then have "from_here name pattern p n \<longleftrightarrow> (\<exists>k \<le> length name - n. glob (drop (Suc p) pattern) (drop k (drop n name)))"
    by (simp add: from_here_def)
  also have "\<dots> \<longleftrightarrow> (\<exists>k. n \<le> k \<and> k \<le> length name \<and> from_here name pattern (Suc p) k)"
    (is "?L \<longleftrightarrow> ?R")
  proof
    assume ?L
    then obtain k where "k \<le> length name - n" "glob (drop (Suc p) pattern) (drop (k + n) name)" by auto
    then show ?R using assms(3) by (intro exI [of _ "k + n"]) (simp add: from_here_def)
  next
    assume ?R
    then obtain k where "n \<le> k" "k \<le> length name" "glob (drop (Suc p) pattern) (drop k name)"
      by (auto simp: from_here_def)
    then show ?L by (intro exI [of _ "k - n"]) simp
  qed
  finally show ?thesis .
qed

lemma from_here_char:
  assumes "p < length pattern" "pattern ! p \<noteq> CHR ''*''" "n \<le> length name"
  shows "from_here name pattern p n \<longleftrightarrow>
    n < length name \<and> (pattern ! p = CHR ''?'' \<or> pattern ! p = name ! n) \<and> from_here name pattern (Suc p) (Suc n)"
proof -
  have "drop p pattern = pattern ! p # drop (Suc p) pattern" using assms by (metis Cons_nth_drop_Suc)
  then show ?thesis using assms(2,3)
    by (cases "n < length name") (auto simp: from_here_def hd_drop_conv_nth tl_drop drop_Suc)
qed

text \<open>
  The state of the loop.  Before the first star, everything so far has matched one for one.
  Behind a star, \<open>nn - 1\<close> is where the text for the star ended in the current attempt, and the pattern from the
  star to \<open>p\<close> has no star and has matched one for one.
\<close>

text \<open>Across a segment without stars, a match moves one for one.\<close>

lemma from_here_segment:
  assumes "p0 \<le> p" "p \<le> length pattern" "\<forall>i. p0 \<le> i \<and> i < p \<longrightarrow> pattern ! i \<noteq> CHR ''*''"
    "k \<le> length name" "from_here name pattern p0 k"
  shows "k + (p - p0) \<le> length name \<and> from_here name pattern p (k + (p - p0))"
  using assms
proof (induction "p - p0" arbitrary: p0 k)
  case (Suc d)
  then have p0: "p0 < length pattern" "pattern ! p0 \<noteq> CHR ''*''" "d = p - Suc p0" "Suc p0 \<le> p" by auto
  from from_here_char [OF p0(1,2) Suc.prems(4)] Suc.prems(5)
  have "Suc k \<le> length name" "from_here name pattern (Suc p0) (Suc k)" by auto
  from Suc.hyps(1) [OF p0(3,4) Suc.prems(2) _ this] Suc.prems(3) p0(4)
  have "Suc k + (p - Suc p0) \<le> length name \<and> from_here name pattern p (Suc k + (p - Suc p0))" by auto
  moreover have "Suc k + (p - Suc p0) = k + (p - p0)" using p0(4) by simp
  ultimately show ?case by (simp only:)
qed simp

definition star_inv :: "string \<Rightarrow> string \<Rightarrow> nat \<Rightarrow> nat \<Rightarrow> nat \<Rightarrow> nat \<Rightarrow> bool" where
  "star_inv name pattern p n pn nn \<longleftrightarrow> pn < p \<and> p \<le> length pattern \<and> n \<le> length name \<and> 0 < nn \<and>
     pattern ! pn = CHR ''*'' \<and> (\<forall>i. Suc pn \<le> i \<and> i < p \<longrightarrow> pattern ! i \<noteq> CHR ''*'') \<and> n = (nn - 1) + (p - Suc pn)"

text \<open>The answer of the loop: the rest matches here, or the star can take more.\<close>

definition still :: "string \<Rightarrow> string \<Rightarrow> nat \<Rightarrow> nat \<Rightarrow> nat \<Rightarrow> nat \<Rightarrow> bool" where
  "still name pattern p n pn nn \<longleftrightarrow> from_here name pattern p n \<or>
     (\<exists>k. nn \<le> k \<and> k \<le> length name \<and> from_here name pattern (Suc pn) k)"

lemma still_star:
  assumes "star_inv name pattern p n pn nn" "p < length pattern" "pattern ! p = CHR ''*''"
  shows "still name pattern (Suc p) n p (Suc n) \<longleftrightarrow> still name pattern p n pn nn"
proof -
  have n: "n \<le> length name" and seg: "Suc pn \<le> p" "\<forall>i. Suc pn \<le> i \<and> i < p \<longrightarrow> pattern ! i \<noteq> CHR ''*''"
    and at: "n = (nn - 1) + (p - Suc pn)" "0 < nn"
    using assms(1) by (auto simp: star_inv_def)
  have "from_here name pattern (Suc p) n \<or> (\<exists>k. Suc n \<le> k \<and> k \<le> length name \<and> from_here name pattern (Suc p) k) \<longleftrightarrow>
      from_here name pattern p n"
    unfolding from_here_star [OF assms(2,3) n] using n by (metis Suc_leD not_less_eq_eq order_antisym_conv order_refl)
  moreover have "from_here name pattern p n"
    if k: "nn \<le> k" "k \<le> length name" "from_here name pattern (Suc pn) k" for k
  proof -
    from from_here_segment [OF seg(1) _ seg(2) k(2,3)] assms(2)
    have m: "k + (p - Suc pn) \<le> length name" "from_here name pattern p (k + (p - Suc pn))" by auto
    have "n \<le> k + (p - Suc pn)" using at k(1) by simp
    moreover have "\<exists>j. k + (p - Suc pn) \<le> j \<and> j \<le> length name \<and> from_here name pattern (Suc p) j"
      using m(2) unfolding from_here_star [OF assms(2,3) m(1)] .
    ultimately show ?thesis unfolding from_here_star [OF assms(2,3) n] by (meson order_trans)
  qed
  ultimately show ?thesis unfolding still_def by blast
qed

lemma match_loop_star:
  "star_inv name pattern p n pn nn \<Longrightarrow>
     match_loop name pattern p n pn nn = Some (still name pattern p n pn nn)"
proof (induction "(length pattern - pn, Suc (length name) - nn, length pattern - p)" arbitrary: p n pn nn
    rule: wf_induct_rule [OF wf_lex_prod [OF wf_less_than wf_lex_prod [OF wf_less_than wf_less_than]]])
  case (1 p pn nn n)
  note inv = "1.prems" [unfolded star_inv_def]
  note IH = "1.hyps"
  have n: "n \<le> length name" "p \<le> length pattern" "pn < length pattern" using inv by auto
  consider (fin) "p = length pattern" "n = length name"
    | (star) "p < length pattern" "pattern ! p = CHR ''*''"
    | (char) "p < length pattern" "pattern ! p \<noteq> CHR ''*''" "n < length name" "pattern ! p = CHR ''?'' \<or> name ! n = pattern ! p"
    | (fail) "p < length pattern \<or> n < length name" "p < length pattern \<longrightarrow> pattern ! p \<noteq> CHR ''*''"
        "\<not> (p < length pattern \<and> n < length name \<and> (pattern ! p = CHR ''?'' \<or> name ! n = pattern ! p))"
    using n by fastforce
  then show ?case
  proof cases
    case fin
    then have "from_here name pattern p n" by (simp add: from_here_def)
    with fin show ?thesis by (subst match_loop.simps) (simp add: still_def)
  next
    case star
    have inv': "star_inv name pattern (Suc p) n p (Suc n)" using star n by (auto simp: star_inv_def)
    have "match_loop name pattern (Suc p) n p (Suc n) = Some (still name pattern (Suc p) n p (Suc n))"
      using inv star(1) by (intro IH inv') auto
    with star still_star [OF "1.prems" star] show ?thesis by (subst match_loop.simps) simp
  next
    case char
    have inv': "star_inv name pattern (Suc p) (Suc n) pn nn" using char inv by (auto simp: star_inv_def less_Suc_eq)
    have "match_loop name pattern (Suc p) (Suc n) pn nn = Some (still name pattern (Suc p) (Suc n) pn nn)"
      using char(1) by (intro IH inv') auto
    moreover have "from_here name pattern p n = from_here name pattern (Suc p) (Suc n)"
      using from_here_char [OF char(1,2) n(1)] char(3,4) by auto
    ultimately show ?thesis using char by (subst match_loop.simps) (auto simp: still_def)
  next
    case fail
    have no: "\<not> from_here name pattern p n"
    proof (cases "p < length pattern")
      case True
      with from_here_char [OF True _ n(1)] fail show ?thesis by auto
    next
      case False
      with fail n show ?thesis using from_here_end [OF n(1), of pattern] by (cases "p = length pattern") auto
    qed
    have un: "match_loop name pattern p n pn nn =
        (if 0 < nn \<and> nn \<le> length name then match_loop name pattern pn nn pn nn else Some False)"
      using fail by (subst match_loop.simps) auto
    show ?thesis
    proof (cases "nn \<le> length name")
      case True
      have inv': "star_inv name pattern (Suc pn) nn pn (Suc nn)" using inv n True by (auto simp: star_inv_def)
      have "match_loop name pattern (Suc pn) nn pn (Suc nn) = Some (still name pattern (Suc pn) nn pn (Suc nn))"
        using True by (intro IH inv') auto
      moreover have "match_loop name pattern pn nn pn nn = match_loop name pattern (Suc pn) nn pn (Suc nn)"
        using inv n by (subst match_loop.simps) simp
      moreover have "still name pattern (Suc pn) nn pn (Suc nn) = still name pattern p n pn nn"
        using no True unfolding still_def by (metis Suc_leD Suc_leI le_eq_less_or_eq)
      ultimately show ?thesis using un True inv by simp
    next
      case False
      then have "\<not> still name pattern p n pn nn" using no by (auto simp: still_def)
      with un False show ?thesis by simp
    qed
  qed
qed

lemma match_loop_plain:
  "p \<le> length pattern \<Longrightarrow> n \<le> length name \<Longrightarrow>
     match_loop name pattern p n 0 0 = Some (from_here name pattern p n)"
proof (induction "length pattern - p" arbitrary: p n)
  case 0
  then have p: "p = length pattern" by simp
  with 0 from_here_end [OF 0(3), of pattern] show ?case by (subst match_loop.simps) auto
next
  case (Suc d)
  then have p: "p < length pattern" "d = length pattern - Suc p" "Suc p \<le> length pattern" by auto
  show ?case
  proof (cases "pattern ! p = CHR ''*''")
    case True
    then have inv: "star_inv name pattern (Suc p) n p (Suc n)" using p Suc.prems by (auto simp: star_inv_def)
    have "still name pattern (Suc p) n p (Suc n) = from_here name pattern p n"
      unfolding still_def from_here_star [OF p(1) True Suc.prems(2)]
      using Suc.prems(2) by (metis Suc_leD le_refl not_less_eq_eq order_antisym)
    with match_loop_star [OF inv] p True show ?thesis by (subst match_loop.simps) simp
  next
    case False
    note ch = from_here_char [OF p(1) False Suc.prems(2)]
    show ?thesis
    proof (cases "n < length name \<and> (pattern ! p = CHR ''?'' \<or> name ! n = pattern ! p)")
      case True
      with Suc.hyps(1) [OF p(2,3)] have "match_loop name pattern (Suc p) (Suc n) 0 0 = Some (from_here name pattern (Suc p) (Suc n))"
        by simp
      with True False p(1) ch show ?thesis by (subst match_loop.simps) auto
    next
      case no: False
      with False p(1) ch show ?thesis by (subst match_loop.simps) auto
    qed
  qed
qed

lemma PatternMatchesString_glob: "PatternMatchesString name pattern = Some (glob pattern name)"
  unfolding PatternMatchesString_def by (subst match_loop_plain) (simp_all add: from_here_def)

subsection \<open>What filters mean\<close>

text \<open>A list of patterns accepts a name when one of them does.\<close>

definition accepted :: "string \<Rightarrow> string \<Rightarrow> bool" where
  "accepted flt name \<longleftrightarrow> (\<exists>p \<in> set (SplitString flt CHR '':''). glob p name)"

lemma glob_plain: "\<not> IsGlobPattern p \<Longrightarrow> glob p name \<longleftrightarrow> name = p"
proof (induction p arbitrary: name)
  case (Cons c p)
  then show ?case by (cases name) (auto simp: IsGlobPattern_def)
qed simp

lemma any_glob_iff: "any_glob name ps = Some (\<exists>p \<in> set ps. glob p name)"
  by (induction ps) (auto simp: PatternMatchesString_glob)

lemma UnitTestFilter_accepted: "MatchesName (UnitTestFilter flt) name = Some (accepted flt name)"
proof -
  have "(\<exists>p \<in> set ps. glob p name) \<longleftrightarrow> name \<in> set (filter (\<lambda>p. \<not> IsGlobPattern p) ps) \<or>
      (\<exists>p \<in> set (filter IsGlobPattern ps). glob p name)" for ps
    using glob_plain [of _ name] by auto
  then show ?thesis by (auto simp: MatchesName_def UnitTestFilter_def Let_def any_glob_iff accepted_def)
qed

lemma empty_filter_rejects: "MatchesName empty_filter name = Some False"
  by (simp add: MatchesName_def empty_filter_def)

lemma fold_join: "fold (\<lambda>part s. s @ ''-'' @ part) rest s = join_with CHR ''-'' (s # rest)"
proof (induction rest arbitrary: s)
  case (Cons r rest)
  have "join_with CHR ''-'' ((s @ ''-'' @ r) # rest) = s @ CHR ''-'' # join_with CHR ''-'' (r # rest)"
    by (cases rest) simp_all
  with Cons.IH [of "s @ ''-'' @ r"] show ?case by simp
qed simp

lemma SplitString_first:
  "SplitString flt d = takeWhile (\<lambda>c. c \<noteq> d) flt # (if d \<in> set flt then SplitString (tl (dropWhile (\<lambda>c. c \<noteq> d) flt)) d else [])"
proof (cases "d \<in> set flt")
  case False
  then have t: "takeWhile (\<lambda>c. c \<noteq> d) flt = flt" by (auto simp: takeWhile_eq_all_conv)
  from False show ?thesis by (subst SplitString.simps) (simp add: t)
qed (subst SplitString.simps, simp)

text \<open>The part before the first dash accepts, the part behind it rejects.\<close>

definition selects :: "string \<Rightarrow> string \<Rightarrow> bool" where
  "selects flt name \<longleftrightarrow>
     (if CHR ''-'' \<in> set flt
      then accepted (if hd flt = CHR ''-'' then ''*'' else takeWhile (\<lambda>c. c \<noteq> CHR ''-'') flt) name \<and>
        \<not> accepted (tl (dropWhile (\<lambda>c. c \<noteq> CHR ''-'') flt)) name
      else accepted flt name)"

lemma FilterMatchesTest_selects:
  "FilterMatchesTest flt suite test = Some (selects flt (suite @ ''.'' @ test))"
proof (cases "CHR ''-'' \<in> set flt")
  case False
  then have "SplitString flt CHR ''-'' = [flt]" by (subst SplitString.simps) simp
  with False show ?thesis
    by (simp add: FilterMatchesTest_def MatchesTest_def MatchesNamePN_def PositiveAndNegativeUnitTestFilter_def
        UnitTestFilter_accepted empty_filter_rejects selects_def)
next
  case True
  let ?pos = "takeWhile (\<lambda>c. c \<noteq> CHR ''-'') flt" and ?neg = "tl (dropWhile (\<lambda>c. c \<noteq> CHR ''-'') flt)"
  obtain n ns where n: "SplitString ?neg CHR ''-'' = n # ns" by (metis SplitString_not_Nil neq_Nil_conv)
  then have "join_with CHR ''-'' (n # ns) = ?neg" using join_Split [of "CHR ''-''" ?neg] by simp
  then have f: "fold (\<lambda>part s. s @ ''-'' @ part) ns n = ?neg" by (simp only: fold_join)
  have "SplitString flt CHR ''-'' = ?pos # n # ns" using True n by (simp add: SplitString_first [of flt])
  then have pn: "PositiveAndNegativeUnitTestFilter flt =
      \<lparr>positive_filter = UnitTestFilter (if ?pos = [] then ''*'' else ?pos), negative_filter = UnitTestFilter ?neg\<rparr>"
    using f by (simp add: PositiveAndNegativeUnitTestFilter_def kUniversalFilter_def)
  have "?pos = [] \<longleftrightarrow> hd flt = CHR ''-''" using True by (cases flt) auto
  then show ?thesis using True
    by (simp add: FilterMatchesTest_def MatchesTest_def MatchesNamePN_def pn UnitTestFilter_accepted selects_def)
qed

end
