(* ===== verification/Gt_Runner.thy ===== *)
theory Gt_Runner
  imports Gt_Filter Gt_Base "HOL-Library.Multiset"
begin

section \<open>Random numbers and shuffling (\<open>gtest.cc\<close>, \<open>gtest-internal-inl.h\<close>)\<close>

text \<open>The generator keeps one 32 bit number.  A failed \<open>GTEST_CHECK_\<close> aborts.\<close>

type_synonym random = "32 word"

definition kMaxRange :: "32 word" where
  "kMaxRange = 2147483648"

definition Reseed :: "32 word \<Rightarrow> random" where
  "Reseed seed = seed"

definition Generate :: "32 word \<Rightarrow> random \<Rightarrow> stop + (32 word \<times> random)" where
  "Generate rng state =
     (let state1 = (1103515245 * state + 12345) mod kMaxRange in
      if \<not> 0 < rng then Inl Assert_fail
      else if \<not> rng \<le> kMaxRange then Inl Assert_fail
      else Inr (state1 mod rng, state1))"

text \<open>Fisher-Yates: the last element of the range that is left changes places with a random one.\<close>

fun shuffle_loop :: "nat \<Rightarrow> nat \<Rightarrow> random \<times> 'a list \<Rightarrow> stop + (random \<times> 'a list)" where
  "shuffle_loop begin width (rnd, v) =
     (if width < 2 then Inr (rnd, v)
      else let last_in_range = begin + width - 1 in
        bindr (Generate (word_of_nat width) rnd) (\<lambda>(k, rnd1).
        let selected = begin + unat k in
        bindr (vat v selected) (\<lambda>x.
        bindr (vat v last_in_range) (\<lambda>y.
        bindr (vput v selected y) (\<lambda>v1.
        bindr (vput v1 last_in_range x) (\<lambda>v2.
        shuffle_loop begin (width - 1) (rnd1, v2)))))))"

declare shuffle_loop.simps [simp del]

definition ShuffleRange :: "random \<Rightarrow> int \<Rightarrow> int \<Rightarrow> 'a list \<Rightarrow> stop + (random \<times> 'a list)" where
  "ShuffleRange rnd begin end v =
     (let size = int (length v) in
      if \<not> (0 \<le> begin \<and> begin \<le> size) then Inl Assert_fail
      else if \<not> (begin \<le> end \<and> end \<le> size) then Inl Assert_fail
      else shuffle_loop (nat begin) (nat (end - begin)) (rnd, v))"

definition Shuffle :: "random \<Rightarrow> 'a list \<Rightarrow> stop + (random \<times> 'a list)" where
  "Shuffle rnd v = ShuffleRange rnd 0 (int (length v)) v"

definition kMaxRandomSeed :: int where
  "kMaxRandomSeed = 99999"

text \<open>The time is used when the flag is 0; both are reduced as 32 bit numbers.\<close>

definition GetRandomSeedFromFlag :: "int \<Rightarrow> int \<Rightarrow> int" where
  "GetRandomSeedFromFlag time random_seed_flag =
     (let raw_seed = (if random_seed_flag = 0 then word_of_int time else word_of_int random_seed_flag :: 32 word) in
      uint ((raw_seed - 1) mod 99999) + 1)"

definition GetNextRandomSeed :: "int \<Rightarrow> stop + int" where
  "GetNextRandomSeed seed =
     (if \<not> (1 \<le> seed \<and> seed \<le> kMaxRandomSeed) then Inl Assert_fail
      else let next_seed = seed + 1 in Inr (if kMaxRandomSeed < next_seed then 1 else next_seed))"

subsection \<open>Results\<close>

lemma Generate_ok:
  assumes "0 < rng" "rng \<le> kMaxRange"
  shows "\<exists>k state1. Generate rng state = Inr (k, state1) \<and> k < rng \<and> state1 < kMaxRange"
proof -
  have "(1103515245 * state + 12345) mod kMaxRange < kMaxRange" by (rule word_mod_less_divisor) (simp add: kMaxRange_def)
  then show ?thesis using assms by (simp add: Generate_def Let_def word_mod_less_divisor)
qed

lemma Generate_eq_Inr: "Generate rng state = Inr (k, state1) \<Longrightarrow> 0 < rng \<and> rng \<le> kMaxRange \<and> k < rng"
  by (auto simp: Generate_def Let_def word_mod_less_divisor split: if_splits)

lemma seed_range: "1 \<le> GetRandomSeedFromFlag t f \<and> GetRandomSeedFromFlag t f \<le> kMaxRandomSeed"
proof -
  have "(x :: 32 word) mod 99999 < 99999" for x by (rule word_mod_less_divisor) simp
  then have "uint ((x :: 32 word) mod 99999) < 99999" for x by (simp add: word_less_def)
  then have "uint ((x :: 32 word) mod 99999) \<le> 99998" for x using zle_diff1_eq [of _ 99999] by simp
  then show ?thesis by (simp add: GetRandomSeedFromFlag_def kMaxRandomSeed_def Let_def)
qed

lemma next_seed_range: "1 \<le> s \<Longrightarrow> s \<le> kMaxRandomSeed \<Longrightarrow>
    \<exists>s'. GetNextRandomSeed s = Inr s' \<and> 1 \<le> s' \<and> s' \<le> kMaxRandomSeed"
  by (auto simp: GetNextRandomSeed_def kMaxRandomSeed_def)

text \<open>A shuffle returns, permutes the range and leaves the rest.\<close>

definition shuffled :: "nat \<Rightarrow> nat \<Rightarrow> 'a list \<Rightarrow> 'a list \<Rightarrow> bool" where
  "shuffled b e v v' \<longleftrightarrow> length v' = length v \<and> mset v' = mset v \<and> take b v' = take b v \<and> drop e v' = drop e v"

lemma shuffle_loop_ok:
  "b + w \<le> length v \<Longrightarrow> w \<le> 2147483648 \<Longrightarrow>
     \<exists>rnd' v'. shuffle_loop b w (rnd, v) = Inr (rnd', v') \<and> shuffled b (b + w) v v'"
proof (induction w arbitrary: rnd v)
  case 0
  then show ?case by (simp add: shuffle_loop.simps shuffled_def)
next
  case (Suc w)
  show ?case
  proof (cases "Suc w < 2")
    case True
    then show ?thesis by (simp add: shuffle_loop.simps shuffled_def)
  next
    case False
    let ?r = "word_of_nat (Suc w) :: 32 word"
    have r: "unat ?r = Suc w" using Suc.prems(2) by (simp add: unat_word_ariths(1) unsigned_of_nat take_bit_nat_eq_self)
    have "0 < ?r" "?r \<le> kMaxRange"
      using r Suc.prems(2) False by (auto simp: word_less_nat_alt word_le_nat_alt kMaxRange_def)
    from Generate_ok [OF this, of rnd] obtain k rnd1 where
      k: "Generate ?r rnd = Inr (k, rnd1)" "k < ?r" by blast
    have kb: "unat k \<le> w" using k(2) r by (simp add: word_less_nat_alt)
    let ?i = "b + unat k" and ?j = "b + w"
    let ?v = "v[?i := v ! ?j, ?j := v ! ?i]"
    have len: "?i < length v" "?j < length v" using kb Suc.prems(1) by auto
    from Suc.IH [of ?v rnd1] Suc.prems obtain rnd2 v2 where
      v2: "shuffle_loop b w (rnd1, ?v) = Inr (rnd2, v2)" "shuffled b (b + w) ?v v2" by auto
    have m: "mset ?v = mset v" using mset_swap [OF len(2,1)] by simp
    have d: "drop (b + Suc w) v2 = drop (b + Suc w) v"
    proof -
      have "drop 1 (drop (b + w) v2) = drop 1 (drop (b + w) ?v)" using v2(2) by (simp add: shuffled_def)
      then have "drop (b + Suc w) v2 = drop (b + Suc w) ?v" by (simp add: add.commute)
      also have "\<dots> = drop (b + Suc w) v" using kb by (simp add: drop_update_cancel)
      finally show ?thesis .
    qed
    have "shuffled b (b + Suc w) v v2" using v2(2) m d by (simp add: shuffled_def)
    moreover have "shuffle_loop b (Suc w) (rnd, v) = Inr (rnd2, v2)"
      using False k(1) len v2(1) by (subst shuffle_loop.simps) (simp add: Let_def vec_simps)
    ultimately show ?thesis by blast
  qed
qed

lemma ShuffleRange_ok:
  assumes "0 \<le> b" "b \<le> e" "e \<le> int (length v)" "length v \<le> 2147483648"
  shows "\<exists>rnd' v'. ShuffleRange rnd b e v = Inr (rnd', v') \<and> shuffled (nat b) (nat e) v v'"
proof -
  have "nat b + nat (e - b) = nat e" using assms by simp
  with shuffle_loop_ok [of "nat b" "nat (e - b)" v rnd] assms show ?thesis by (simp add: ShuffleRange_def nat_le_iff)
qed

lemma Shuffle_ok: "length v \<le> 2147483648 \<Longrightarrow> \<exists>rnd' v'. Shuffle rnd v = Inr (rnd', v') \<and> mset v' = mset v"
  using ShuffleRange_ok [of 0 "int (length v)" v rnd] by (auto simp: Shuffle_def shuffled_def)


section \<open>Running the tests (\<open>googletest/src/gtest.cc\<close>)\<close>

text \<open>
  The registered suites and tests, the selection by filter and shard, and the run itself.  The code
  under test is a parameter: a piece of user code runs on a world and gives the part results it
  reports, what it throws if it throws, and the new world.  The events that the listeners see are
  logged; the listeners themselves do not throw, and the flags \<open>throw_on_failure\<close> and
  \<open>break_on_failure\<close> are off.  Times, properties of results and the printed notices are left out.
\<close>

subsection \<open>Results\<close>

datatype part_type = kSuccess | kNonFatalFailure | kFatalFailure | kSkip

record part_result =
  pr_type :: part_type
  pr_message :: string

definition part_failed :: "part_result \<Rightarrow> bool" where
  "part_failed p \<longleftrightarrow> pr_type p = kNonFatalFailure \<or> pr_type p = kFatalFailure"

type_synonym test_result = "part_result list"

definition CountIf :: "('a \<Rightarrow> bool) \<Rightarrow> 'a list \<Rightarrow> nat" where
  "CountIf predicate c = foldl (\<lambda>count x. if predicate x then Suc count else count) 0 c"

definition Failed :: "test_result \<Rightarrow> bool" where
  "Failed r \<longleftrightarrow> list_ex part_failed r"

definition Skipped :: "test_result \<Rightarrow> bool" where
  "Skipped r \<longleftrightarrow> \<not> Failed r \<and> 0 < CountIf (\<lambda>p. pr_type p = kSkip) r"

definition Passed :: "test_result \<Rightarrow> bool" where
  "Passed r \<longleftrightarrow> \<not> Skipped r \<and> \<not> Failed r"

definition HasFatalFailure :: "test_result \<Rightarrow> bool" where
  "HasFatalFailure r \<longleftrightarrow> 0 < CountIf (\<lambda>p. pr_type p = kFatalFailure) r"

definition HasNonfatalFailure :: "test_result \<Rightarrow> bool" where
  "HasNonfatalFailure r \<longleftrightarrow> 0 < CountIf (\<lambda>p. pr_type p = kNonFatalFailure) r"

subsection \<open>Tests, suites and the unit test\<close>

datatype event =
    OnTestDisabled string | OnTestStart string | OnTestPartResult part_result | OnTestEnd string
  | OnTestSuiteStart string | OnTestSuiteEnd string | OnTestIterationStart int | OnTestIterationEnd int
  | OnEnvironmentsSetUpStart | OnEnvironmentsSetUpEnd | OnEnvironmentsTearDownStart | OnEnvironmentsTearDownEnd
  | OnTestProgramStart | OnTestProgramEnd

text \<open>The exceptions that the handlers of the framework tell apart.\<close>

datatype cxx_exception = AssertionException | GoogleTestFailureException | OtherException

type_synonym 'w code = "'w \<Rightarrow> part_result list \<times> cxx_exception option \<times> 'w"

record 'w test_info =
  ti_name :: string
  ti_same_class :: bool
  ti_should_run :: bool
  ti_is_disabled :: bool
  ti_matches_filter :: bool
  ti_in_another_shard :: bool
  ti_result :: test_result
  ti_ctor :: "'w code"
  ti_setup :: "'w code"
  ti_body :: "'w code"
  ti_teardown :: "'w code"
  ti_dtor :: "'w code"

record 'w test_suite =
  ts_name :: string
  ts_tests :: "'w test_info list"
  ts_indices :: "nat list"
  ts_should_run :: bool
  ts_ad_hoc :: test_result
  ts_setup :: "'w code"
  ts_teardown :: "'w code"

record 'w unit_test =
  ut_suites :: "'w test_suite list"
  ut_indices :: "nat list"
  ut_last_death :: int
  ut_ad_hoc :: test_result
  ut_envs :: "('w code \<times> 'w code) list"
  ut_world :: 'w
  ut_random :: random
  ut_random_seed :: int
  ut_log :: "event list"

definition is_reportable :: "'w test_info \<Rightarrow> bool" where
  "is_reportable ti \<longleftrightarrow> ti_matches_filter ti \<and> \<not> ti_in_another_shard ti"

definition TestPassed :: "'w test_info \<Rightarrow> bool" where
  "TestPassed ti \<longleftrightarrow> ti_should_run ti \<and> Passed (ti_result ti)"

definition TestSkipped :: "'w test_info \<Rightarrow> bool" where
  "TestSkipped ti \<longleftrightarrow> ti_should_run ti \<and> Skipped (ti_result ti)"

definition TestFailed :: "'w test_info \<Rightarrow> bool" where
  "TestFailed ti \<longleftrightarrow> ti_should_run ti \<and> Failed (ti_result ti)"

definition successful_test_count :: "'w test_suite \<Rightarrow> nat" where
  "successful_test_count ts = CountIf TestPassed (ts_tests ts)"

definition skipped_test_count :: "'w test_suite \<Rightarrow> nat" where
  "skipped_test_count ts = CountIf TestSkipped (ts_tests ts)"

definition failed_test_count :: "'w test_suite \<Rightarrow> nat" where
  "failed_test_count ts = CountIf TestFailed (ts_tests ts)"

definition reportable_disabled_test_count :: "'w test_suite \<Rightarrow> nat" where
  "reportable_disabled_test_count ts = CountIf (\<lambda>ti. is_reportable ti \<and> ti_is_disabled ti) (ts_tests ts)"

definition disabled_test_count :: "'w test_suite \<Rightarrow> nat" where
  "disabled_test_count ts = CountIf ti_is_disabled (ts_tests ts)"

definition reportable_test_count :: "'w test_suite \<Rightarrow> nat" where
  "reportable_test_count ts = CountIf is_reportable (ts_tests ts)"

definition test_to_run_count :: "'w test_suite \<Rightarrow> nat" where
  "test_to_run_count ts = CountIf ti_should_run (ts_tests ts)"

definition total_test_count :: "'w test_suite \<Rightarrow> nat" where
  "total_test_count ts = length (ts_tests ts)"

definition SuiteFailed :: "'w test_suite \<Rightarrow> bool" where
  "SuiteFailed ts \<longleftrightarrow> 0 < failed_test_count ts \<or> Failed (ts_ad_hoc ts)"

definition SuitePassed :: "'w test_suite \<Rightarrow> bool" where
  "SuitePassed ts \<longleftrightarrow> \<not> SuiteFailed ts"

definition TestSuitePassed :: "'w test_suite \<Rightarrow> bool" where
  "TestSuitePassed ts \<longleftrightarrow> ts_should_run ts \<and> SuitePassed ts"

definition TestSuiteFailed :: "'w test_suite \<Rightarrow> bool" where
  "TestSuiteFailed ts \<longleftrightarrow> ts_should_run ts \<and> SuiteFailed ts"

definition SumOverTestSuiteList :: "'w test_suite list \<Rightarrow> ('w test_suite \<Rightarrow> nat) \<Rightarrow> nat" where
  "SumOverTestSuiteList suite_list method = foldl (\<lambda>sum ts. sum + method ts) 0 suite_list"

definition successful_test_suite_count :: "'w unit_test \<Rightarrow> nat" where
  "successful_test_suite_count u = CountIf TestSuitePassed (ut_suites u)"

definition failed_test_suite_count :: "'w unit_test \<Rightarrow> nat" where
  "failed_test_suite_count u = CountIf TestSuiteFailed (ut_suites u)"

definition test_suite_to_run_count :: "'w unit_test \<Rightarrow> nat" where
  "test_suite_to_run_count u = CountIf ts_should_run (ut_suites u)"

definition UnitTestFailed :: "'w unit_test \<Rightarrow> bool" where
  "UnitTestFailed u \<longleftrightarrow> 0 < failed_test_suite_count u \<or> Failed (ut_ad_hoc u)"

definition UnitTestPassed :: "'w unit_test \<Rightarrow> bool" where
  "UnitTestPassed u \<longleftrightarrow> \<not> UnitTestFailed u"

subsection \<open>Sharding\<close>

text \<open>An environment gives the values of its variables; \<open>exit\<close> ends the process.\<close>

definition Int32FromEnvOrDie :: "(string \<Rightarrow> string option) \<Rightarrow> string \<Rightarrow> int \<Rightarrow> stop + int" where
  "Int32FromEnvOrDie env var default_val =
     (case env var of None \<Rightarrow> Inr default_val
      | Some str_val \<Rightarrow> (case ParseInt32 str_val of None \<Rightarrow> Inl (Exit 1) | Some result \<Rightarrow> Inr result))"

definition ShouldShard :: "(string \<Rightarrow> string option) \<Rightarrow> string \<Rightarrow> string \<Rightarrow> bool \<Rightarrow> stop + bool" where
  "ShouldShard env total_shards_env shard_index_env in_subprocess_for_death_test =
     (if in_subprocess_for_death_test then Inr False
      else
        bindr (Int32FromEnvOrDie env total_shards_env (- 1)) (\<lambda>total_shards.
        bindr (Int32FromEnvOrDie env shard_index_env (- 1)) (\<lambda>shard_index.
        if total_shards = - 1 \<and> shard_index = - 1 then Inr False
        else if total_shards = - 1 \<and> shard_index \<noteq> - 1 then Inl (Exit 1)
        else if total_shards \<noteq> - 1 \<and> shard_index = - 1 then Inl (Exit 1)
        else if shard_index < 0 \<or> total_shards \<le> shard_index then Inl (Exit 1)
        else Inr (1 < total_shards))))"

text \<open>The remainder of C, which is undefined for 0.\<close>

definition ShouldRunTestOnShard :: "int \<Rightarrow> int \<Rightarrow> int \<Rightarrow> stop + bool" where
  "ShouldRunTestOnShard total_shards shard_index test_id =
     bindr (c_rem test_id total_shards) (\<lambda>r. Inr (r = shard_index))"

definition kTestTotalShards :: string where "kTestTotalShards = ''GTEST_TOTAL_SHARDS''"

definition kTestShardIndex :: string where "kTestShardIndex = ''GTEST_SHARD_INDEX''"

definition kDisableTestFilter :: string where "kDisableTestFilter = ''DISABLED_*:*/DISABLED_*''"

record run_flags =
  fl_filter :: string
  fl_also_run_disabled :: bool
  fl_fail_fast :: bool
  fl_shuffle :: bool
  fl_repeat :: int
  fl_random_seed :: int
  fl_recreate_environments :: bool
  fl_catch_exceptions :: bool
  fl_list_tests :: bool
  fl_help :: bool

text \<open>A filter always gives an answer (see \<open>Gt_Filter\<close>), so a missing one cannot occur here.\<close>

definition matches :: "bool option \<Rightarrow> stop + bool" where
  "matches r = (case r of None \<Rightarrow> Inl No_fuel | Some b \<Rightarrow> Inr b)"

text \<open>The inner loop of \<open>FilterTests\<close> over the tests of a suite.\<close>

fun filter_suite ::
  "run_flags \<Rightarrow> bool \<Rightarrow> int \<Rightarrow> int \<Rightarrow> string \<Rightarrow> 'w test_info list \<Rightarrow> int \<Rightarrow> int \<Rightarrow>
     stop + ('w test_info list \<times> bool \<times> int \<times> int)" where
  "filter_suite fl honor total_shards shard_index suite [] runnable selected = Inr ([], False, runnable, selected)"
| "filter_suite fl honor total_shards shard_index suite (ti # tis) runnable selected =
     bindr (matches (MatchesName (UnitTestFilter kDisableTestFilter) suite)) (\<lambda>d1.
     bindr (if d1 then Inr True else matches (MatchesName (UnitTestFilter kDisableTestFilter) (ti_name ti))) (\<lambda>is_disabled.
     bindr (matches (MatchesTest (PositiveAndNegativeUnitTestFilter (fl_filter fl)) suite (ti_name ti))) (\<lambda>matches_filter.
     let is_runnable = (fl_also_run_disabled fl \<or> \<not> is_disabled) \<and> matches_filter in
     bindr (if honor then bindr (ShouldRunTestOnShard total_shards shard_index runnable) (\<lambda>b. Inr (\<not> b)) else Inr False)
       (\<lambda>is_in_another_shard.
     let is_selected = is_runnable \<and> \<not> is_in_another_shard;
         ti1 = ti\<lparr>ti_is_disabled := is_disabled, ti_matches_filter := matches_filter,
                  ti_in_another_shard := is_in_another_shard, ti_should_run := is_selected\<rparr> in
     bindr (filter_suite fl honor total_shards shard_index suite tis
         (if is_runnable then runnable + 1 else runnable) (if is_selected then selected + 1 else selected))
       (\<lambda>(tis1, should, runnable1, selected1).
     Inr (ti1 # tis1, is_selected \<or> should, runnable1, selected1))))))"

fun filter_suites ::
  "run_flags \<Rightarrow> bool \<Rightarrow> int \<Rightarrow> int \<Rightarrow> 'w test_suite list \<Rightarrow> int \<Rightarrow> int \<Rightarrow>
     stop + ('w test_suite list \<times> int \<times> int)" where
  "filter_suites fl honor total_shards shard_index [] runnable selected = Inr ([], runnable, selected)"
| "filter_suites fl honor total_shards shard_index (ts # tss) runnable selected =
     bindr (filter_suite fl honor total_shards shard_index (ts_name ts) (ts_tests ts) runnable selected)
       (\<lambda>(tis, should, runnable1, selected1).
     bindr (filter_suites fl honor total_shards shard_index tss runnable1 selected1) (\<lambda>(tss1, runnable2, selected2).
     Inr (ts\<lparr>ts_tests := tis, ts_should_run := should\<rparr> # tss1, runnable2, selected2)))"

definition FilterTests ::
  "run_flags \<Rightarrow> (string \<Rightarrow> string option) \<Rightarrow> bool \<Rightarrow> 'w test_suite list \<Rightarrow> stop + ('w test_suite list \<times> int)" where
  "FilterTests fl env honor suites =
     bindr (if honor then Int32FromEnvOrDie env kTestTotalShards (- 1) else Inr (- 1)) (\<lambda>total_shards.
     bindr (if honor then Int32FromEnvOrDie env kTestShardIndex (- 1) else Inr (- 1)) (\<lambda>shard_index.
     bindr (filter_suites fl honor total_shards shard_index suites 0 0) (\<lambda>(suites1, runnable, selected).
     Inr (suites1, selected))))"

subsection \<open>One test\<close>

text \<open>
  \<open>HandleExceptionsInMethodIfSupported\<close>: the parts that the code reports go to the current result and to
  the listeners.  An exception that leaves the code is reported as one more fatal failure, unless it is
  an \<open>AssertionException\<close>, whose failure was reported already; a \<open>GoogleTestFailureException\<close>
  is thrown again, and with \<open>catch_exceptions\<close> off nothing is caught.
\<close>

definition exception_part :: part_result where
  "exception_part = \<lparr>pr_type = kFatalFailure, pr_message = ''C++ exception''\<rparr>"

definition HandleExceptions :: "bool \<Rightarrow> cxx_exception option \<Rightarrow> stop + part_result list" where
  "HandleExceptions catch_exceptions thrown =
     (case thrown of None \<Rightarrow> Inr []
      | Some e \<Rightarrow>
          if catch_exceptions then
            (case e of AssertionException \<Rightarrow> Inr []
             | GoogleTestFailureException \<Rightarrow> Inl Uncaught
             | OtherException \<Rightarrow> Inr [exception_part])
          else Inl Uncaught)"

definition run_code ::
  "bool \<Rightarrow> 'w code \<Rightarrow> test_result \<times> 'w \<times> event list \<Rightarrow> stop + (bool \<times> test_result \<times> 'w \<times> event list)" where
  "run_code catch code = (\<lambda>(r, w, log).
     case code w of (ps, thrown, w1) \<Rightarrow>
       bindr (HandleExceptions catch thrown) (\<lambda>qs.
       Inr (thrown \<noteq> None, r @ ps @ qs, w1, log @ map OnTestPartResult (ps @ qs))))"

text \<open>\<open>HasSameFixtureClass\<close> reports a non-fatal failure when the classes differ.\<close>

definition fixture_part :: part_result where
  "fixture_part = \<lparr>pr_type = kNonFatalFailure,
     pr_message = ''All tests in the same test suite must use the same fixture class''\<rparr>"

definition Test_Run ::
  "bool \<Rightarrow> 'w test_info \<Rightarrow> test_result \<times> 'w \<times> event list \<Rightarrow> stop + (test_result \<times> 'w \<times> event list)" where
  "Test_Run catch ti = (\<lambda>(r, w, log).
     if \<not> ti_same_class ti then Inr (r @ [fixture_part], w, log @ [OnTestPartResult fixture_part])
     else
       bindr (run_code catch (ti_setup ti) (r, w, log)) (\<lambda>(threw, s1).
       bindr (if \<not> HasFatalFailure (fst s1) \<and> \<not> Skipped (fst s1) then run_code catch (ti_body ti) s1 else Inr (False, s1))
         (\<lambda>(threw, s2).
       bindr (run_code catch (ti_teardown ti) s2) (\<lambda>(threw, s3). Inr s3))))"

text \<open>A constructor that has thrown leaves no test object: \<open>test->Run()\<close> then goes through \<open>NULL\<close>.\<close>

definition TestInfo_Run ::
  "bool \<Rightarrow> 'w test_info \<Rightarrow> 'w \<times> event list \<Rightarrow> stop + ('w test_info \<times> 'w \<times> event list)" where
  "TestInfo_Run catch ti = (\<lambda>(w, log).
     if \<not> ti_should_run ti
     then Inr (ti, w, if ti_is_disabled ti \<and> ti_matches_filter ti then log @ [OnTestDisabled (ti_name ti)] else log)
     else
       bindr (run_code catch (ti_ctor ti) (ti_result ti, w, log @ [OnTestStart (ti_name ti)])) (\<lambda>(threw, s1).
       bindr (if \<not> HasFatalFailure (fst s1) \<and> \<not> Skipped (fst s1)
              then if threw then Inl Null_deref else Test_Run catch ti s1 else Inr s1) (\<lambda>s2.
       bindr (if \<not> threw then run_code catch (ti_dtor ti) s2 else Inr (False, s2)) (\<lambda>(threw1, r, w1, log1).
       Inr (ti\<lparr>ti_result := r\<rparr>, w1, log1 @ [OnTestEnd (ti_name ti)])))))"

definition skip_part :: part_result where
  "skip_part = \<lparr>pr_type = kSkip, pr_message = []\<rparr>"

definition TestInfo_Skip :: "'w test_info \<Rightarrow> event list \<Rightarrow> 'w test_info \<times> event list" where
  "TestInfo_Skip ti log =
     (if \<not> ti_should_run ti then (ti, log)
      else (ti\<lparr>ti_result := ti_result ti @ [skip_part]\<rparr>,
            log @ [OnTestStart (ti_name ti), OnTestPartResult skip_part, OnTestEnd (ti_name ti)]))"

subsection \<open>One suite\<close>

text \<open>\<open>GetElementOr(v, i, -1)\<close>, and the pointer it leads to: \<open>NULL\<close> is dereferenced by the callers.\<close>

definition GetMutable :: "'a list \<Rightarrow> nat list \<Rightarrow> nat \<Rightarrow> stop + (nat \<times> 'a)" where
  "GetMutable objects indices i =
     (if i < length indices then bindr (vat objects (indices ! i)) (\<lambda>x. Inr (indices ! i, x)) else Inl Null_deref)"

type_synonym 'w suite_state = "'w test_suite \<times> 'w \<times> event list"

definition skip_test :: "nat \<Rightarrow> 'w suite_state \<Rightarrow> stop + 'w suite_state" where
  "skip_test i = (\<lambda>(ts, w, log).
     bindr (GetMutable (ts_tests ts) (ts_indices ts) i) (\<lambda>(k, ti).
     case TestInfo_Skip ti log of (ti1, log1) \<Rightarrow> Inr (ts\<lparr>ts_tests := (ts_tests ts)[k := ti1]\<rparr>, w, log1)))"

definition run_test :: "bool \<Rightarrow> nat \<Rightarrow> 'w suite_state \<Rightarrow> stop + 'w suite_state" where
  "run_test catch i = (\<lambda>(ts, w, log).
     bindr (GetMutable (ts_tests ts) (ts_indices ts) i) (\<lambda>(k, ti).
     bindr (TestInfo_Run catch ti (w, log)) (\<lambda>(ti1, w1, log1).
     Inr (ts\<lparr>ts_tests := (ts_tests ts)[k := ti1]\<rparr>, w1, log1))))"

text \<open>The loop over the tests, with the inner loop that skips the rest after a failure.\<close>

fun run_tests :: "bool \<Rightarrow> bool \<Rightarrow> bool \<Rightarrow> nat list \<Rightarrow> 'w suite_state \<Rightarrow> stop + 'w suite_state" where
  "run_tests catch fail_fast skip_all [] s = Inr s"
| "run_tests catch fail_fast skip_all (i # is) s =
     bindr (if skip_all then skip_test i s else run_test catch i s) (\<lambda>s1.
     bindr (GetMutable (ts_tests (fst s1)) (ts_indices (fst s1)) i) (\<lambda>(k, ti).
     if fail_fast \<and> Failed (ti_result ti) then rfold skip_test is s1
     else run_tests catch fail_fast skip_all is s1))"

definition TestSuite_Run :: "bool \<Rightarrow> bool \<Rightarrow> 'w test_suite \<Rightarrow> 'w \<times> event list \<Rightarrow> stop + 'w suite_state" where
  "TestSuite_Run catch fail_fast ts = (\<lambda>(w, log).
     if \<not> ts_should_run ts then Inr (ts, w, log)
     else
       bindr (run_code catch (ts_setup ts) (ts_ad_hoc ts, w, log @ [OnTestSuiteStart (ts_name ts)])) (\<lambda>(threw, r1, w1, log1).
       let skip_all = Failed r1 in
       bindr (run_tests catch fail_fast skip_all [0..<total_test_count ts] (ts\<lparr>ts_ad_hoc := r1\<rparr>, w1, log1)) (\<lambda>(ts2, w2, log2).
       bindr (run_code catch (ts_teardown ts2) (ts_ad_hoc ts2, w2, log2)) (\<lambda>(threw, r3, w3, log3).
       Inr (ts2\<lparr>ts_ad_hoc := r3\<rparr>, w3, log3 @ [OnTestSuiteEnd (ts_name ts)])))))"

definition TestSuite_Skip :: "'w test_suite \<Rightarrow> 'w \<times> event list \<Rightarrow> stop + 'w suite_state" where
  "TestSuite_Skip ts = (\<lambda>(w, log).
     if \<not> ts_should_run ts then Inr (ts, w, log)
     else
       bindr (rfold skip_test [0..<total_test_count ts] (ts, w, log @ [OnTestSuiteStart (ts_name ts)])) (\<lambda>(ts1, w1, log1).
       Inr (ts1, w1, log1 @ [OnTestSuiteEnd (ts_name ts)])))"

definition ClearResult :: "'w test_suite \<Rightarrow> 'w test_suite" where
  "ClearResult ts = ts\<lparr>ts_ad_hoc := [], ts_tests := map (\<lambda>ti. ti\<lparr>ti_result := []\<rparr>) (ts_tests ts)\<rparr>"

definition UnshuffleTests :: "'w test_suite \<Rightarrow> 'w test_suite" where
  "UnshuffleTests ts = ts\<lparr>ts_indices := [0..<length (ts_indices ts)]\<rparr>"

subsection \<open>All tests\<close>

definition at_suite ::
  "('w test_suite \<Rightarrow> 'w \<times> event list \<Rightarrow> stop + 'w suite_state) \<Rightarrow> nat \<Rightarrow> 'w unit_test \<Rightarrow> stop + 'w unit_test" where
  "at_suite f i u =
     bindr (GetMutable (ut_suites u) (ut_indices u) i) (\<lambda>(k, ts).
     bindr (f ts (ut_world u, ut_log u)) (\<lambda>(ts1, w1, log1).
     Inr (u\<lparr>ut_suites := (ut_suites u)[k := ts1], ut_world := w1, ut_log := log1\<rparr>)))"

fun run_suites :: "bool \<Rightarrow> bool \<Rightarrow> nat list \<Rightarrow> 'w unit_test \<Rightarrow> stop + 'w unit_test" where
  "run_suites catch fail_fast [] u = Inr u"
| "run_suites catch fail_fast (i # is) u =
     bindr (at_suite (TestSuite_Run catch fail_fast) i u) (\<lambda>u1.
     bindr (GetMutable (ut_suites u1) (ut_indices u1) i) (\<lambda>(k, ts).
     if fail_fast \<and> SuiteFailed ts then rfold (at_suite TestSuite_Skip) is u1
     else run_suites catch fail_fast is u1))"

text \<open>
  User code outside the tests reports to the ad hoc result of the unit test.  The environments
  are called without a handler: what they throw leaves \<open>RunAllTests\<close>, with the state at that moment.
\<close>

datatype 'w fault = Stopped stop | Thrown cxx_exception "'w unit_test"

definition stops :: "stop + 'a \<Rightarrow> 'w fault + 'a" where
  "stops m = (case m of Inl e \<Rightarrow> Inl (Stopped e) | Inr x \<Rightarrow> Inr x)"

definition run_ad_hoc :: "'w code \<Rightarrow> 'w unit_test \<Rightarrow> 'w fault + 'w unit_test" where
  "run_ad_hoc code u =
     (case code (ut_world u) of (ps, thrown, w) \<Rightarrow>
        let u1 = u\<lparr>ut_ad_hoc := ut_ad_hoc u @ ps, ut_world := w, ut_log := ut_log u @ map OnTestPartResult ps\<rparr> in
        case thrown of None \<Rightarrow> Inr u1 | Some e \<Rightarrow> Inl (Thrown e u1))"

fun run_envs :: "'w code list \<Rightarrow> 'w unit_test \<Rightarrow> 'w fault + 'w unit_test" where
  "run_envs [] u = Inr u"
| "run_envs (env # envs) u = bindr (run_ad_hoc env u) (run_envs envs)"

definition say_event :: "event \<Rightarrow> 'w unit_test \<Rightarrow> 'w unit_test" where
  "say_event e u = u\<lparr>ut_log := ut_log u @ [e]\<rparr>"

text \<open>\<open>ShuffleTests\<close>: the death test suites come first and are shuffled apart.\<close>

definition ShuffleTests :: "'w unit_test \<Rightarrow> stop + 'w unit_test" where
  "ShuffleTests u =
     bindr (ShuffleRange (ut_random u) 0 (ut_last_death u + 1) (ut_indices u)) (\<lambda>(r1, v1).
     bindr (ShuffleRange r1 (ut_last_death u + 1) (int (length (ut_suites u))) v1) (\<lambda>(r2, v2).
     bindr (rfold (\<lambda>ts (r, tss). bindr (Shuffle r (ts_indices ts)) (\<lambda>(r1, v). Inr (r1, tss @ [ts\<lparr>ts_indices := v\<rparr>])))
        (ut_suites u) (r2, [])) (\<lambda>(r3, tss).
     Inr (u\<lparr>ut_random := r3, ut_indices := v2, ut_suites := tss\<rparr>))))"

definition UnshuffleAll :: "'w unit_test \<Rightarrow> 'w unit_test" where
  "UnshuffleAll u = u\<lparr>ut_suites := map UnshuffleTests (ut_suites u), ut_indices := [0..<length (ut_suites u)]\<rparr>"

text \<open>The part of the loop of \<open>RunAllTests\<close> between the two events of an iteration.\<close>

definition run_environments_and_suites :: "run_flags \<Rightarrow> bool \<Rightarrow> bool \<Rightarrow> 'w unit_test \<Rightarrow> 'w fault + 'w unit_test" where
  "run_environments_and_suites fl set_up tear_down u =
     bindr (if set_up
            then bindr (run_envs (map fst (ut_envs u)) (say_event OnEnvironmentsSetUpStart u)) (\<lambda>u1.
                 Inr (say_event OnEnvironmentsSetUpEnd u1))
            else Inr u) (\<lambda>u3.
     bindr (if Skipped (ut_ad_hoc u3) then Inr u3
            else if \<not> HasFatalFailure (ut_ad_hoc u3)
            then stops (run_suites (fl_catch_exceptions fl) (fl_fail_fast fl) [0..<length (ut_suites u3)] u3)
            else stops (rfold (at_suite TestSuite_Skip) [0..<length (ut_suites u3)] u3)) (\<lambda>u4.
     if tear_down
     then bindr (run_envs (map snd (rev (ut_envs u4))) (say_event OnEnvironmentsTearDownStart u4)) (\<lambda>u5.
          Inr (say_event OnEnvironmentsTearDownEnd u5))
     else Inr u4))"

text \<open>The body of the loop of \<open>RunAllTests\<close>; it gives whether the iteration passed.\<close>

definition run_iteration ::
  "run_flags \<Rightarrow> bool \<Rightarrow> int \<Rightarrow> bool \<Rightarrow> int \<Rightarrow> 'w unit_test \<Rightarrow> 'w fault + (bool \<times> 'w unit_test)" where
  "run_iteration fl has_tests_to_run repeat recreate i u =
     (let u0 = u\<lparr>ut_suites := map ClearResult (ut_suites u)\<rparr> in
      bindr (if has_tests_to_run \<and> fl_shuffle fl
             then stops (ShuffleTests (u0\<lparr>ut_random := Reseed (word_of_int (ut_random_seed u0))\<rparr>)) else Inr u0) (\<lambda>u1.
      let u2 = say_event (OnTestIterationStart i) u1 in
      bindr (if has_tests_to_run
             then run_environments_and_suites fl (i = 0 \<or> recreate) (i = repeat - 1 \<or> recreate) u2 else Inr u2) (\<lambda>u5.
      let u6 = say_event (OnTestIterationEnd i) u5;
          passed = UnitTestPassed u6;
          u7 = UnshuffleAll u6 in
      if fl_shuffle fl
      then bindr (stops (GetNextRandomSeed (ut_random_seed u7))) (\<lambda>seed. Inr (passed, u7\<lparr>ut_random_seed := seed\<rparr>))
      else Inr (passed, u7))))"

text \<open>The loop: a negative count repeats until the counter overflows.\<close>

function run_repeat ::
  "run_flags \<Rightarrow> bool \<Rightarrow> int \<Rightarrow> bool \<Rightarrow> int \<Rightarrow> bool \<Rightarrow> 'w unit_test \<Rightarrow> 'w fault + (bool \<times> 'w unit_test)" where
  "run_repeat fl has_tests_to_run repeat recreate i failed u =
     (if \<not> repeat < 0 \<and> i = repeat then Inr (failed, u)
      else
        bindr (run_iteration fl has_tests_to_run repeat recreate i u) (\<lambda>(passed, u1).
        bindr (stops (c_inc i)) (\<lambda>i1.
        run_repeat fl has_tests_to_run repeat recreate i1 (failed \<or> \<not> passed) u1)))"
  by pat_completeness auto
termination
  by (relation "measure (\<lambda>(fl, h, r, rc, i, f, u). nat (INT_MAX - i))") (auto simp: c_inc_def stops_def split: if_splits)

declare run_repeat.simps [simp del]

text \<open>Help and the list of the tests end the run before it starts.\<close>

definition RunAllTests ::
  "run_flags \<Rightarrow> (string \<Rightarrow> string option) \<Rightarrow> int \<Rightarrow> bool \<Rightarrow> 'w unit_test \<Rightarrow> 'w fault + (bool \<times> 'w unit_test)" where
  "RunAllTests fl env time in_subprocess_for_death_test u =
     (if fl_help fl then Inr (True, u)
      else
        bindr (stops (ShouldShard env kTestTotalShards kTestShardIndex in_subprocess_for_death_test)) (\<lambda>should_shard.
        bindr (stops (FilterTests fl env should_shard (ut_suites u))) (\<lambda>(suites, selected).
        if fl_list_tests fl then Inr (True, u\<lparr>ut_suites := suites\<rparr>)
        else
          let has_tests_to_run = 0 < selected;
              u1 = say_event OnTestProgramStart
                (u\<lparr>ut_suites := suites, ut_random_seed := GetRandomSeedFromFlag time (fl_random_seed fl)\<rparr>);
              repeat = (if in_subprocess_for_death_test then 1 else fl_repeat fl);
              recreate = fl_recreate_environments fl \<or> repeat < 0 in
          bindr (run_repeat fl has_tests_to_run repeat recreate 0 False u1) (\<lambda>(failed, u2).
          Inr (\<not> failed, say_event OnTestProgramEnd u2)))))"

text \<open>
  \<open>UnitTest::Run\<close> calls it with the same handler of exceptions; the handler gives \<open>false\<close>, and the
  failure that it reports goes to the ad hoc result, since no test is current.
\<close>

definition UnitTest_Run ::
  "run_flags \<Rightarrow> (string \<Rightarrow> string option) \<Rightarrow> int \<Rightarrow> bool \<Rightarrow> 'w unit_test \<Rightarrow> stop + (int \<times> 'w unit_test)" where
  "UnitTest_Run fl env time in_subprocess_for_death_test u =
     (case RunAllTests fl env time in_subprocess_for_death_test u of
        Inr (passed, u1) \<Rightarrow> Inr (if passed then 0 else 1, u1)
      | Inl (Stopped e) \<Rightarrow> Inl e
      | Inl (Thrown e u1) \<Rightarrow>
          bindr (HandleExceptions (fl_catch_exceptions fl) (Some e)) (\<lambda>qs.
          Inr (1, u1\<lparr>ut_ad_hoc := ut_ad_hoc u1 @ qs, ut_log := ut_log u1 @ map OnTestPartResult qs\<rparr>)))"

end
