(* ===== verification/Gt_Runner_Spec.thy ===== *)
theory Gt_Runner_Spec
  imports Gt_Runner
begin

section \<open>The verdict of a run and the partition into shards\<close>

text \<open>
  The verdict is tied to the log: every part that is reported reaches exactly one result
  and the listeners, and the run fails iff one of the parts in the log is a failure.
\<close>

definition fails :: "event list \<Rightarrow> bool" where
  "fails evs \<longleftrightarrow> (\<exists>p. OnTestPartResult p \<in> set evs \<and> part_failed p)"

lemma fails_simps [simp]:
  "fails [] \<longleftrightarrow> False" "fails (xs @ ys) \<longleftrightarrow> fails xs \<or> fails ys"
  "fails (e # es) \<longleftrightarrow> (\<exists>p. e = OnTestPartResult p \<and> part_failed p) \<or> fails es"
  "fails (map OnTestPartResult ps) \<longleftrightarrow> Failed ps"
  by (auto simp: fails_def Failed_def list_ex_iff)

lemma Failed_simps [simp]:
  "Failed [] \<longleftrightarrow> False" "Failed (xs @ ys) \<longleftrightarrow> Failed xs \<or> Failed ys" "Failed (p # ps) \<longleftrightarrow> part_failed p \<or> Failed ps"
  by (simp_all add: Failed_def)

lemma part_failed_simps [simp]: "part_failed exception_part" "part_failed fixture_part" "\<not> part_failed skip_part"
  by (simp_all add: part_failed_def exception_part_def fixture_part_def skip_part_def)

lemma CountIf_eq: "CountIf P xs = length (filter P xs)"
proof -
  have "foldl (\<lambda>count x. if P x then Suc count else count) n xs = n + length (filter P xs)" for n
    by (induction xs arbitrary: n) auto
  then show ?thesis by (simp add: CountIf_def)
qed

lemma CountIf_pos: "0 < CountIf P xs \<longleftrightarrow> (\<exists>x \<in> set xs. P x)"
  by (auto simp: CountIf_eq filter_empty_conv)

subsection \<open>One test\<close>

text \<open>A state is a result, a world and a log; both the result and the log grow by the same parts.\<close>

definition reports :: "test_result \<times> 'w \<times> event list \<Rightarrow> test_result \<times> 'w \<times> event list \<Rightarrow> bool" where
  "reports s s' \<longleftrightarrow> (\<exists>ps evs. fst s' = fst s @ ps \<and> snd (snd s') = snd (snd s) @ evs \<and> (fails evs \<longleftrightarrow> Failed ps))"

lemma reports_refl [simp]: "reports s s"
  by (auto simp: reports_def)

lemma reports_trans:
  assumes "reports s1 s2" "reports s2 s3"
  shows "reports s1 s3"
proof -
  from assms(1) obtain ps evs where 1: "fst s2 = fst s1 @ ps" "snd (snd s2) = snd (snd s1) @ evs" "fails evs \<longleftrightarrow> Failed ps"
    unfolding reports_def by blast
  from assms(2) obtain ps' evs' where 2: "fst s3 = fst s2 @ ps'" "snd (snd s3) = snd (snd s2) @ evs'"
    "fails evs' \<longleftrightarrow> Failed ps'" unfolding reports_def by blast
  show ?thesis unfolding reports_def
    by (rule exI [of _ "ps @ ps'"], rule exI [of _ "evs @ evs'"]) (simp add: 1 2)
qed

text \<open>
  What is asked of the code under test: its exceptions can be caught.  An \<open>AssertionException\<close> comes from a
  listener that has seen a fatal failure, so this failure is among the parts.
\<close>

definition tame :: "bool \<Rightarrow> 'w code \<Rightarrow> bool" where
  "tame catch code \<longleftrightarrow> (\<forall>w. case code w of (ps, thrown, w1) \<Rightarrow>
     (case thrown of None \<Rightarrow> True
      | Some e \<Rightarrow> catch \<and> (case e of AssertionException \<Rightarrow> HasFatalFailure ps
          | GoogleTestFailureException \<Rightarrow> False | OtherException \<Rightarrow> True)))"

definition tame_test :: "bool \<Rightarrow> 'w test_info \<Rightarrow> bool" where
  "tame_test catch ti \<longleftrightarrow> tame catch (ti_ctor ti) \<and> tame catch (ti_setup ti) \<and> tame catch (ti_body ti) \<and>
     tame catch (ti_teardown ti) \<and> tame catch (ti_dtor ti)"

lemma tame_test_result [simp]: "tame_test c (ti\<lparr>ti_result := r\<rparr>) = tame_test c ti"
  by (simp add: tame_test_def)

lemma HasFatalFailure_simps [simp]:
  "HasFatalFailure (ps @ qs) \<longleftrightarrow> HasFatalFailure ps \<or> HasFatalFailure qs" "HasFatalFailure [exception_part]" "\<not> HasFatalFailure []"
  by (auto simp: HasFatalFailure_def CountIf_pos exception_part_def)

lemma HasFatalFailure_Failed: "HasFatalFailure ps \<Longrightarrow> Failed ps"
  by (auto simp: HasFatalFailure_def CountIf_pos Failed_def list_ex_iff part_failed_def)

lemma run_code_parts:
  assumes "tame c code"
  shows "\<exists>threw ps w'. run_code c code (r, w, log) = Inr (threw, r @ ps, w', log @ map OnTestPartResult ps) \<and>
    (threw \<longrightarrow> HasFatalFailure ps)"
proof -
  obtain ps thrown w1 where c: "code w = (ps, thrown, w1)" by (cases "code w")
  from assms c have "case (ps, thrown, w1) of (ps, thrown, w1) \<Rightarrow>
     (case thrown of None \<Rightarrow> True
      | Some e \<Rightarrow> c \<and> (case e of AssertionException \<Rightarrow> HasFatalFailure ps
          | GoogleTestFailureException \<Rightarrow> False | OtherException \<Rightarrow> True))"
    unfolding tame_def by metis
  then show ?thesis
    by (cases thrown; simp add: run_code_def HandleExceptions_def c split: cxx_exception.splits)
      (auto intro: exI [of _ "ps @ [exception_part]"])
qed

lemma run_code_reports:
  assumes "tame c code"
  shows "\<exists>threw s'. run_code c code s = Inr (threw, s') \<and> reports s s' \<and> (threw \<longrightarrow> HasFatalFailure (fst s'))"
proof -
  obtain r w log where s: "s = (r, w, log)" by (cases s)
  from run_code_parts [OF assms, of r w log] obtain threw ps w1 where
    1: "run_code c code s = Inr (threw, r @ ps, w1, log @ map OnTestPartResult ps)" "threw \<longrightarrow> HasFatalFailure ps"
    by (auto simp: s)
  have "reports s (r @ ps, w1, log @ map OnTestPartResult ps)"
    unfolding reports_def by (rule exI [of _ ps], rule exI [of _ "map OnTestPartResult ps"]) (simp add: s)
  with 1 show ?thesis by simp
qed

lemma Test_Run_reports:
  assumes "tame_test c ti"
  shows "\<exists>s'. Test_Run c ti s = Inr s' \<and> reports s s'"
proof (cases "ti_same_class ti")
  case True
  have tame: "tame c (ti_setup ti)" "tame c (ti_body ti)" "tame c (ti_teardown ti)" using assms by (simp_all add: tame_test_def)
  from run_code_reports [OF tame(1), of s] obtain t1 s1 where 1: "run_code c (ti_setup ti) s = Inr (t1, s1)" "reports s s1" by blast
  have "\<exists>t2 s2. (if \<not> HasFatalFailure (fst s1) \<and> \<not> Skipped (fst s1) then run_code c (ti_body ti) s1 else Inr (False, s1)) =
      Inr (t2, s2) \<and> reports s1 s2"
    using run_code_reports [OF tame(2), of s1] by (auto simp del: split_paired_Ex)
  then obtain t2 s2 where 2: "(if \<not> HasFatalFailure (fst s1) \<and> \<not> Skipped (fst s1) then run_code c (ti_body ti) s1
      else Inr (False, s1)) = Inr (t2, s2)" "reports s1 s2" by blast
  from run_code_reports [OF tame(3), of s2] obtain t3 s3 where 3: "run_code c (ti_teardown ti) s2 = Inr (t3, s3)" "reports s2 s3" by blast
  have "Test_Run c ti s = Inr s3" using True 1(1) 2(1) 3(1) by (cases s) (simp add: Test_Run_def)
  with reports_trans [OF 1(2) reports_trans [OF 2(2) 3(2)]] show ?thesis by blast
next
  case False
  then show ?thesis by (cases s) (fastforce simp: Test_Run_def reports_def)
qed

lemma TestInfo_Run_ok:
  assumes "tame_test c ti"
  shows "\<exists>ps w1 evs. TestInfo_Run c ti (w, log) = Inr (ti\<lparr>ti_result := ti_result ti @ ps\<rparr>, w1, log @ evs) \<and>
     (fails evs \<longleftrightarrow> Failed ps) \<and> (\<not> ti_should_run ti \<longrightarrow> ps = [])"
proof (cases "ti_should_run ti")
  case False
  then show ?thesis by (intro exI [of _ "[]"]) (simp add: TestInfo_Run_def)
next
  case True
  let ?s = "(ti_result ti, w, log @ [OnTestStart (ti_name ti)])"
  have tame: "tame c (ti_ctor ti)" "tame c (ti_dtor ti)" using assms by (simp_all add: tame_test_def)
  from run_code_reports [OF tame(1), of ?s] obtain threw s1 where
    1: "run_code c (ti_ctor ti) ?s = Inr (threw, s1)" "reports ?s s1" "threw \<longrightarrow> HasFatalFailure (fst s1)" by blast
  have "\<exists>s2. (if \<not> HasFatalFailure (fst s1) \<and> \<not> Skipped (fst s1) then if threw then Inl Null_deref else Test_Run c ti s1
      else Inr s1) = Inr s2 \<and> reports s1 s2"
    using Test_Run_reports [OF assms, of s1] 1(3) by (auto simp del: split_paired_Ex)
  then obtain s2 where 2: "(if \<not> HasFatalFailure (fst s1) \<and> \<not> Skipped (fst s1) then if threw then Inl Null_deref
      else Test_Run c ti s1 else Inr s1) = Inr s2" "reports s1 s2" by blast
  have "\<exists>t3 s3. (if \<not> threw then run_code c (ti_dtor ti) s2 else Inr (False, s2)) = Inr (t3, s3) \<and> reports s2 s3"
    using run_code_reports [OF tame(2), of s2] by (auto simp del: split_paired_Ex)
  then obtain t3 r3 w3 log3 where 3: "(if \<not> threw then run_code c (ti_dtor ti) s2 else Inr (False, s2)) = Inr (t3, r3, w3, log3)"
    "reports s2 (r3, w3, log3)" by (metis prod_cases3)
  from reports_trans [OF 1(2) reports_trans [OF 2(2) 3(2)]] obtain ps evs where
    p: "r3 = ti_result ti @ ps" "log3 = log @ [OnTestStart (ti_name ti)] @ evs" "fails evs \<longleftrightarrow> Failed ps" by (auto simp: reports_def)
  have "TestInfo_Run c ti (w, log) = Inr (ti\<lparr>ti_result := r3\<rparr>, w3, log3 @ [OnTestEnd (ti_name ti)])"
    unfolding TestInfo_Run_def using True by (simp only: 1(1) 2(1) 3(1) bindr_simps prod.case if_True if_False not_True_eq_False)
  with p True show ?thesis
    by (intro exI [of _ ps] exI [of _ w3] exI [of _ "[OnTestStart (ti_name ti)] @ evs @ [OnTestEnd (ti_name ti)]"]) simp
qed

lemma TestInfo_Skip_ok:
  "\<exists>ps evs. TestInfo_Skip ti log = (ti\<lparr>ti_result := ti_result ti @ ps\<rparr>, log @ evs) \<and>
     (fails evs \<longleftrightarrow> Failed ps) \<and> (\<not> ti_should_run ti \<longrightarrow> ps = [])"
  by (cases "ti_should_run ti") (fastforce simp: TestInfo_Skip_def)+

subsection \<open>One suite\<close>

text \<open>The indices are positions, and only selected tests have failures.\<close>

definition bad :: "'w test_suite \<Rightarrow> bool" where
  "bad ts \<longleftrightarrow> (\<exists>ti \<in> set (ts_tests ts). Failed (ti_result ti))"

definition suite_ok :: "bool \<Rightarrow> 'w test_suite \<Rightarrow> bool" where
  "suite_ok c ts \<longleftrightarrow> tame c (ts_setup ts) \<and> tame c (ts_teardown ts) \<and> (\<forall>ti \<in> set (ts_tests ts). tame_test c ti) \<and>
     length (ts_indices ts) = length (ts_tests ts) \<and> set (ts_indices ts) \<subseteq> {..<length (ts_tests ts)} \<and>
     (\<forall>ti \<in> set (ts_tests ts). \<not> ti_should_run ti \<longrightarrow> \<not> Failed (ti_result ti))"

lemma SuiteFailed_bad: "suite_ok c ts \<Longrightarrow> SuiteFailed ts \<longleftrightarrow> bad ts \<or> Failed (ts_ad_hoc ts)"
  by (auto simp: SuiteFailed_def failed_test_count_def CountIf_pos TestFailed_def bad_def suite_ok_def)

definition grows :: "bool \<Rightarrow> 'w suite_state \<Rightarrow> 'w suite_state \<Rightarrow> bool" where
  "grows c s s' \<longleftrightarrow> (case s of (ts, w, log) \<Rightarrow> case s' of (ts', w', log') \<Rightarrow>
     ClearResult ts' = ClearResult ts \<and> ts_ad_hoc ts' = ts_ad_hoc ts \<and>
     (\<exists>evs. log' = log @ evs \<and> (bad ts' \<longleftrightarrow> bad ts \<or> fails evs)) \<and> (suite_ok c ts \<longrightarrow> suite_ok c ts'))"

lemma grows_refl [simp]: "grows c s s"
  by (auto simp: grows_def split: prod.split)

lemma grows_trans: "grows c s1 s2 \<Longrightarrow> grows c s2 s3 \<Longrightarrow> grows c s1 s3"
  unfolding grows_def by (cases s1; cases s2; cases s3) fastforce

lemma ClearResult_eqD:
  assumes "ClearResult ts' = ClearResult ts"
  shows "length (ts_tests ts') = length (ts_tests ts)" "ts_indices ts' = ts_indices ts"
    "ts_should_run ts' = ts_should_run ts" "ts_name ts' = ts_name ts"
proof -
  from assms have "map (\<lambda>ti. ti\<lparr>ti_result := []\<rparr>) (ts_tests ts') = map (\<lambda>ti. ti\<lparr>ti_result := []\<rparr>) (ts_tests ts)"
    by (cases ts; cases ts') (simp add: ClearResult_def)
  then show "length (ts_tests ts') = length (ts_tests ts)" by (rule map_eq_imp_length_eq)
qed (use assms in \<open>cases ts; cases ts'; simp add: ClearResult_def\<close>)+

lemma update_grows:
  assumes "k < length (ts_tests ts)" "ti = ts_tests ts ! k" "fails evs \<longleftrightarrow> Failed ps" "\<not> ti_should_run ti \<longrightarrow> ps = []"
  shows "grows c (ts, w, log) (ts\<lparr>ts_tests := (ts_tests ts)[k := ti\<lparr>ti_result := ti_result ti @ ps\<rparr>]\<rparr>, w', log @ evs)"
proof -
  let ?ti = "ti\<lparr>ti_result := ti_result ti @ ps\<rparr>"
  have ex: "(\<exists>x \<in> set ((ts_tests ts)[k := ?ti]). P x) \<longleftrightarrow> P ?ti \<or> (\<exists>j < length (ts_tests ts). j \<noteq> k \<and> P (ts_tests ts ! j))" for P
  proof
    assume "\<exists>x \<in> set ((ts_tests ts)[k := ?ti]). P x"
    then obtain j where "j < length (ts_tests ts)" "P ((ts_tests ts)[k := ?ti] ! j)" by (auto simp: in_set_conv_nth)
    then show "P ?ti \<or> (\<exists>j < length (ts_tests ts). j \<noteq> k \<and> P (ts_tests ts ! j))"
      by (cases "j = k") auto
  next
    assume "P ?ti \<or> (\<exists>j < length (ts_tests ts). j \<noteq> k \<and> P (ts_tests ts ! j))"
    then obtain j where "j < length (ts_tests ts)" "P ((ts_tests ts)[k := ?ti] ! j)"
      using assms(1) by (metis nth_list_update_eq nth_list_update_neq)
    then show "\<exists>x \<in> set ((ts_tests ts)[k := ?ti]). P x" by (metis length_list_update nth_mem)
  qed
  have "bad (ts\<lparr>ts_tests := (ts_tests ts)[k := ?ti]\<rparr>) \<longleftrightarrow>
      Failed (ti_result ?ti) \<or> (\<exists>j < length (ts_tests ts). j \<noteq> k \<and> Failed (ti_result (ts_tests ts ! j)))"
    by (simp add: bad_def ex)
  moreover have "bad ts \<longleftrightarrow> (\<exists>j < length (ts_tests ts). Failed (ti_result (ts_tests ts ! j)))"
    by (metis bad_def in_set_conv_nth)
  ultimately have "bad (ts\<lparr>ts_tests := (ts_tests ts)[k := ?ti]\<rparr>) \<longleftrightarrow> bad ts \<or> fails evs"
    using assms by auto
  moreover have "map (\<lambda>ti. ti\<lparr>ti_result := []\<rparr>) ((ts_tests ts)[k := ?ti]) = map (\<lambda>ti. ti\<lparr>ti_result := []\<rparr>) (ts_tests ts)"
    using assms(1,2) by (simp add: map_update list_update_same_conv)
  moreover have "suite_ok c (ts\<lparr>ts_tests := (ts_tests ts)[k := ?ti]\<rparr>)" if "suite_ok c ts"
  proof -
    have "\<not> Failed (ti_result x)" if "x \<in> set ((ts_tests ts)[k := ?ti])" "\<not> ti_should_run x" for x
      using that \<open>suite_ok c ts\<close> assms nth_mem [OF assms(1)] set_update_subset_insert [of "ts_tests ts" k ?ti]
      by (fastforce simp: suite_ok_def)
    moreover have "tame_test c x" if "x \<in> set ((ts_tests ts)[k := ?ti])" for x
      using that \<open>suite_ok c ts\<close> assms(2) nth_mem [OF assms(1)] set_update_subset_insert [of "ts_tests ts" k ?ti]
      by (fastforce simp: suite_ok_def)
    ultimately show ?thesis using that by (simp add: suite_ok_def)
  qed
  ultimately show ?thesis by (auto simp: grows_def ClearResult_def)
qed

lemma GetMutable_ok:
  "length indices = length xs \<Longrightarrow> set indices \<subseteq> {..<length xs} \<Longrightarrow> i < length xs \<Longrightarrow>
     GetMutable xs indices i = Inr (indices ! i, xs ! (indices ! i)) \<and> indices ! i < length xs"
  using nth_mem [of i indices] subsetD [of "set indices" "{..<length xs}" "indices ! i"]
  by (simp add: GetMutable_def vat_def)

lemma run_test_ok:
  assumes "suite_ok c ts" "i < length (ts_tests ts)"
  shows "\<exists>s'. run_test c i (ts, w, log) = Inr s' \<and> grows c (ts, w, log) s'"
    and "\<exists>s'. skip_test i (ts, w, log) = Inr s' \<and> grows c (ts, w, log) s'"
proof -
  have g: "GetMutable (ts_tests ts) (ts_indices ts) i = Inr (ts_indices ts ! i, ts_tests ts ! (ts_indices ts ! i))"
    "ts_indices ts ! i < length (ts_tests ts)"
    using GetMutable_ok [of "ts_indices ts" "ts_tests ts" i] assms by (auto simp: suite_ok_def)
  let ?ti = "ts_tests ts ! (ts_indices ts ! i)"
  have "tame_test c ?ti" using assms(1) nth_mem [OF g(2)] by (simp add: suite_ok_def)
  from TestInfo_Run_ok [OF this, of w log] obtain ps w1 evs where
    "TestInfo_Run c ?ti (w, log) = Inr (?ti\<lparr>ti_result := ti_result ?ti @ ps\<rparr>, w1, log @ evs)"
    "fails evs \<longleftrightarrow> Failed ps" "\<not> ti_should_run ?ti \<longrightarrow> ps = []" by blast
  with update_grows [OF g(2) refl this(2,3)] g(1)
  show "\<exists>s'. run_test c i (ts, w, log) = Inr s' \<and> grows c (ts, w, log) s'" by (simp add: run_test_def)
  from TestInfo_Skip_ok [of ?ti log] obtain ps evs where
    "TestInfo_Skip ?ti log = (?ti\<lparr>ti_result := ti_result ?ti @ ps\<rparr>, log @ evs)"
    "fails evs \<longleftrightarrow> Failed ps" "\<not> ti_should_run ?ti \<longrightarrow> ps = []" by blast
  with update_grows [OF g(2) refl this(2,3)] g(1)
  show "\<exists>s'. skip_test i (ts, w, log) = Inr s' \<and> grows c (ts, w, log) s'" by (simp add: skip_test_def)
qed

lemma growsD:
  assumes "grows c (ts, w, log) (ts', w', log')" "suite_ok c ts"
  shows "suite_ok c ts'" "length (ts_tests ts') = length (ts_tests ts)" "ts_should_run ts' = ts_should_run ts"
  using assms ClearResult_eqD [of ts' ts] by (auto simp: grows_def)

lemma skips_ok:
  "suite_ok c ts \<Longrightarrow> set is \<subseteq> {..<length (ts_tests ts)} \<Longrightarrow>
     \<exists>s'. rfold skip_test is (ts, w, log) = Inr s' \<and> grows c (ts, w, log) s'"
proof (induction "is" arbitrary: ts w log)
  case (Cons i "is")
  from run_test_ok(2) [of c ts i w log] Cons.prems obtain ts1 w1 log1 where
    s1: "skip_test i (ts, w, log) = Inr (ts1, w1, log1)" "grows c (ts, w, log) (ts1, w1, log1)" by fastforce
  note g = growsD [OF s1(2) Cons.prems(1)]
  from Cons.IH [of ts1 w1 log1] g Cons.prems obtain s2 where
    "rfold skip_test is (ts1, w1, log1) = Inr s2" "grows c (ts1, w1, log1) s2" by auto
  with s1 grows_trans show ?case by (metis bindr_simps(1) rfold.simps(2))
qed simp

lemma run_tests_ok:
  "suite_ok c ts \<Longrightarrow> set is \<subseteq> {..<length (ts_tests ts)} \<Longrightarrow>
     \<exists>s'. run_tests c ff sk is (ts, w, log) = Inr s' \<and> grows c (ts, w, log) s'"
proof (induction "is" arbitrary: ts w log)
  case (Cons i "is")
  have i: "i < length (ts_tests ts)" "set is \<subseteq> {..<length (ts_tests ts)}" using Cons.prems by auto
  from run_test_ok [OF Cons.prems(1) i(1), of w log] obtain ts1 w1 log1 where
    s1: "(if sk then skip_test i (ts, w, log) else run_test c i (ts, w, log)) = Inr (ts1, w1, log1)"
      "grows c (ts, w, log) (ts1, w1, log1)" by (cases sk) fastforce+
  note g = growsD [OF s1(2) Cons.prems(1)]
  obtain k ti where k: "GetMutable (ts_tests ts1) (ts_indices ts1) i = Inr (k, ti)"
    using GetMutable_ok [of "ts_indices ts1" "ts_tests ts1" i] g i(1) by (auto simp: suite_ok_def)
  have "\<exists>s'. (if ff \<and> Failed (ti_result ti) then rfold skip_test is (ts1, w1, log1)
      else run_tests c ff sk is (ts1, w1, log1)) = Inr s' \<and> grows c (ts1, w1, log1) s'"
    using skips_ok [OF g(1), of "is" w1 log1] Cons.IH [OF g(1), of w1 log1] i(2) g(2) by simp
  then obtain s2 where s2: "(if ff \<and> Failed (ti_result ti) then rfold skip_test is (ts1, w1, log1)
      else run_tests c ff sk is (ts1, w1, log1)) = Inr s2" "grows c (ts1, w1, log1) s2" by blast
  have "run_tests c ff sk (i # is) (ts, w, log) = Inr s2" using s1(1) k s2(1) by simp
  with grows_trans [OF s1(2) s2(2)] show ?case by blast
qed simp

end
