(* ===== verification/Gt_Run.thy ===== *)
theory Gt_Run
  imports Gt_Runner_Spec
begin

section \<open>The verdict of all suites\<close>

text \<open>
  The results of a suite, of all suites and of all iterations are tied to the log in the same way as
  those of one test: a failure is counted iff a failing part was logged.
\<close>

subsection \<open>A suite with its own code\<close>

definition sfail :: "'w test_suite \<Rightarrow> bool" where
  "sfail ts \<longleftrightarrow> bad ts \<or> Failed (ts_ad_hoc ts)"

definition suite_fine :: "bool \<Rightarrow> 'w test_suite \<Rightarrow> bool" where
  "suite_fine c ts \<longleftrightarrow> suite_ok c ts \<and> (\<not> ts_should_run ts \<longrightarrow> \<not> sfail ts)"

definition sgrows :: "bool \<Rightarrow> 'w suite_state \<Rightarrow> 'w suite_state \<Rightarrow> bool" where
  "sgrows c s s' \<longleftrightarrow> (case s of (ts, w, log) \<Rightarrow> case s' of (ts', w', log') \<Rightarrow>
     suite_fine c ts' \<and> length (ts_tests ts') = length (ts_tests ts) \<and> (\<exists>evs. log' = log @ evs \<and> (sfail ts' \<longleftrightarrow> sfail ts \<or> fails evs)))"

lemma bad_ad_hoc [simp]: "bad (ts\<lparr>ts_ad_hoc := r\<rparr>) = bad ts" "suite_ok c (ts\<lparr>ts_ad_hoc := r\<rparr>) = suite_ok c ts"
  by (simp_all add: bad_def suite_ok_def)

lemma TestSuite_Run_ok:
  assumes "suite_fine c ts"
  shows "\<exists>s'. TestSuite_Run c ff ts (w, log) = Inr s' \<and> sgrows c (ts, w, log) s'"
proof (cases "ts_should_run ts")
  case False
  with assms show ?thesis by (simp add: TestSuite_Run_def sgrows_def)
next
  case True
  have tame: "tame c (ts_setup ts)" using assms by (simp add: suite_fine_def suite_ok_def)
  from run_code_parts [OF this, of "ts_ad_hoc ts" w "log @ [OnTestSuiteStart (ts_name ts)]"]
  obtain t ps w1 where 1: "run_code c (ts_setup ts) (ts_ad_hoc ts, w, log @ [OnTestSuiteStart (ts_name ts)]) =
    Inr (t, ts_ad_hoc ts @ ps, w1, (log @ [OnTestSuiteStart (ts_name ts)]) @ map OnTestPartResult ps)" by blast
  let ?ts = "ts\<lparr>ts_ad_hoc := ts_ad_hoc ts @ ps\<rparr>" and ?log = "(log @ [OnTestSuiteStart (ts_name ts)]) @ map OnTestPartResult ps"
  have ok: "suite_ok c ?ts" using assms by (simp add: suite_fine_def)
  from run_tests_ok [OF ok, of "[0..<total_test_count ts]" ff "Failed (ts_ad_hoc ts @ ps)" w1 ?log]
  obtain ts2 w2 log2 where
    r: "run_tests c ff (Failed (ts_ad_hoc ts @ ps)) [0..<total_test_count ts] (?ts, w1, ?log) = Inr (ts2, w2, log2)"
      "grows c (?ts, w1, ?log) (ts2, w2, log2)" by (auto simp: total_test_count_def atLeast0LessThan)
  from r(2) obtain evs where g: "ts_ad_hoc ts2 = ts_ad_hoc ts @ ps" "log2 = ?log @ evs" "bad ts2 \<longleftrightarrow> bad ts \<or> fails evs" "suite_ok c ts2"
    using ok by (auto simp: grows_def)
  have should: "ts_should_run ts2" using growsD(3) [OF r(2) ok] True by simp
  have "tame c (ts_teardown ts2)" using g(4) by (simp add: suite_ok_def)
  from run_code_parts [OF this, of "ts_ad_hoc ts2" w2 log2] obtain t' ps' w3 where
    d: "run_code c (ts_teardown ts2) (ts_ad_hoc ts2, w2, log2) = Inr (t', ts_ad_hoc ts2 @ ps', w3, log2 @ map OnTestPartResult ps')" by blast
  have "TestSuite_Run c ff ts (w, log) =
      Inr (ts2\<lparr>ts_ad_hoc := ts_ad_hoc ts2 @ ps'\<rparr>, w3, (log2 @ map OnTestPartResult ps') @ [OnTestSuiteEnd (ts_name ts)])"
    using True 1 r(1) d by (simp add: TestSuite_Run_def)
  moreover have "sgrows c (ts, w, log)
      (ts2\<lparr>ts_ad_hoc := ts_ad_hoc ts2 @ ps'\<rparr>, w3, (log2 @ map OnTestPartResult ps') @ [OnTestSuiteEnd (ts_name ts)])"
    using g should growsD(2) [OF r(2) ok] by (auto simp: sgrows_def suite_fine_def sfail_def)
  ultimately show ?thesis by blast
qed

lemma TestSuite_Skip_ok:
  assumes "suite_fine c ts"
  shows "\<exists>s'. TestSuite_Skip ts (w, log) = Inr s' \<and> sgrows c (ts, w, log) s'"
proof (cases "ts_should_run ts")
  case False
  with assms show ?thesis by (simp add: TestSuite_Skip_def sgrows_def)
next
  case True
  let ?log = "log @ [OnTestSuiteStart (ts_name ts)]"
  have ok: "suite_ok c ts" using assms by (simp add: suite_fine_def)
  from skips_ok [OF ok, of "[0..<total_test_count ts]" w ?log] obtain ts2 w2 log2 where
    r: "rfold skip_test [0..<total_test_count ts] (ts, w, ?log) = Inr (ts2, w2, log2)" "grows c (ts, w, ?log) (ts2, w2, log2)"
    by (auto simp: total_test_count_def atLeast0LessThan)
  then have "TestSuite_Skip ts (w, log) = Inr (ts2, w2, log2 @ [OnTestSuiteEnd (ts_name ts)])"
    using True by (simp add: TestSuite_Skip_def)
  moreover from r(2) obtain evs where "ts_ad_hoc ts2 = ts_ad_hoc ts" "log2 = ?log @ evs" "bad ts2 \<longleftrightarrow> bad ts \<or> fails evs" "suite_ok c ts2"
    using ok by (auto simp: grows_def)
  then have "sgrows c (ts, w, log) (ts2, w2, log2 @ [OnTestSuiteEnd (ts_name ts)])"
    using growsD(2,3) [OF r(2) ok] True by (auto simp: sgrows_def suite_fine_def sfail_def)
  ultimately show ?thesis by blast
qed

subsection \<open>All suites\<close>

definition ufail :: "'w unit_test \<Rightarrow> bool" where
  "ufail u \<longleftrightarrow> (\<exists>ts \<in> set (ut_suites u). sfail ts) \<or> Failed (ut_ad_hoc u)"

definition unit_ok :: "bool \<Rightarrow> 'w unit_test \<Rightarrow> bool" where
  "unit_ok c u \<longleftrightarrow> (\<forall>env \<in> set (ut_envs u). tame c (fst env) \<and> tame c (snd env)) \<and>
     (\<forall>ts \<in> set (ut_suites u). suite_fine c ts) \<and> length (ut_indices u) = length (ut_suites u) \<and>
     set (ut_indices u) \<subseteq> {..<length (ut_suites u)}"

lemma UnitTestFailed_ufail: "unit_ok c u \<Longrightarrow> UnitTestFailed u \<longleftrightarrow> ufail u"
  by (auto simp: UnitTestFailed_def failed_test_suite_count_def CountIf_pos TestSuiteFailed_def SuiteFailed_bad [of c]
      ufail_def unit_ok_def suite_fine_def sfail_def)

definition sizes :: "'w unit_test \<Rightarrow> nat list" where
  "sizes u = map (\<lambda>ts. length (ts_tests ts)) (ut_suites u)"

lemma sizes_length: "sizes u' = sizes u \<Longrightarrow> length (ut_suites u') = length (ut_suites u)"
  unfolding sizes_def by (rule map_eq_imp_length_eq)

definition ugrows :: "bool \<Rightarrow> 'w unit_test \<Rightarrow> 'w unit_test \<Rightarrow> bool" where
  "ugrows c u u' \<longleftrightarrow> unit_ok c u' \<and> sizes u' = sizes u \<and> ut_last_death u' = ut_last_death u \<and>
     ut_random_seed u' = ut_random_seed u \<and>
     (\<exists>evs. ut_log u' = ut_log u @ evs \<and> (ufail u' \<longleftrightarrow> ufail u \<or> fails evs) \<and>
        (Failed (ut_ad_hoc u') \<longrightarrow> Failed (ut_ad_hoc u) \<or> fails evs) \<and> (Failed (ut_ad_hoc u) \<longrightarrow> Failed (ut_ad_hoc u')))"

lemma ugrows_refl: "unit_ok c u \<Longrightarrow> ugrows c u u"
  by (auto simp: ugrows_def)

lemma ugrows_trans:
  assumes "ugrows c u1 u2" "ugrows c u2 u3"
  shows "ugrows c u1 u3"
proof -
  from assms(1) obtain e1 where 1: "ut_log u2 = ut_log u1 @ e1" "ufail u2 \<longleftrightarrow> ufail u1 \<or> fails e1"
    "Failed (ut_ad_hoc u2) \<longrightarrow> Failed (ut_ad_hoc u1) \<or> fails e1" "Failed (ut_ad_hoc u1) \<longrightarrow> Failed (ut_ad_hoc u2)"
    unfolding ugrows_def by blast
  from assms(2) obtain e2 where 2: "ut_log u3 = ut_log u2 @ e2" "ufail u3 \<longleftrightarrow> ufail u2 \<or> fails e2"
    "Failed (ut_ad_hoc u3) \<longrightarrow> Failed (ut_ad_hoc u2) \<or> fails e2" "Failed (ut_ad_hoc u2) \<longrightarrow> Failed (ut_ad_hoc u3)"
    unfolding ugrows_def by blast
  have "\<exists>evs. ut_log u3 = ut_log u1 @ evs \<and> (ufail u3 \<longleftrightarrow> ufail u1 \<or> fails evs) \<and>
      (Failed (ut_ad_hoc u3) \<longrightarrow> Failed (ut_ad_hoc u1) \<or> fails evs) \<and> (Failed (ut_ad_hoc u1) \<longrightarrow> Failed (ut_ad_hoc u3))"
    by (rule exI [of _ "e1 @ e2"]) (use 1 2 in auto)
  with assms show ?thesis by (simp add: ugrows_def)
qed

lemma ugrowsD: "ugrows c u u' \<Longrightarrow> unit_ok c u'" "ugrows c u u' \<Longrightarrow> length (ut_suites u') = length (ut_suites u)"
  unfolding ugrows_def by (blast, blast dest: sizes_length)

lemma update_ex: "k < length xs \<Longrightarrow> (\<exists>x \<in> set (xs[k := y]). P x) \<longleftrightarrow> P y \<or> (\<exists>j < length xs. j \<noteq> k \<and> P (xs ! j))"
  by (metis (no_types, lifting) in_set_conv_nth length_list_update nth_list_update_eq nth_list_update_neq)

lemma nth_ex: "k < length xs \<Longrightarrow> (\<exists>x \<in> set xs. P x) \<longleftrightarrow> P (xs ! k) \<or> (\<exists>j < length xs. j \<noteq> k \<and> P (xs ! j))"
  by (metis in_set_conv_nth)

lemma at_suite_ok:
  assumes "\<And>ts w log. suite_fine c ts \<Longrightarrow> \<exists>s'. f ts (w, log) = Inr s' \<and> sgrows c (ts, w, log) s'"
    and "unit_ok c u" "i < length (ut_suites u)"
  shows "\<exists>u'. at_suite f i u = Inr u' \<and> ugrows c u u'"
proof -
  let ?k = "ut_indices u ! i"
  have k: "GetMutable (ut_suites u) (ut_indices u) i = Inr (?k, ut_suites u ! ?k)" "?k < length (ut_suites u)"
    using GetMutable_ok [of "ut_indices u" "ut_suites u" i] assms(2,3) by (auto simp: unit_ok_def)
  have "suite_fine c (ut_suites u ! ?k)" using assms(2) k(2) by (simp add: unit_ok_def)
  from assms(1) [OF this, of "ut_world u" "ut_log u"] obtain ts1 w1 log1 where
    s: "f (ut_suites u ! ?k) (ut_world u, ut_log u) = Inr (ts1, w1, log1)"
      "sgrows c (ut_suites u ! ?k, ut_world u, ut_log u) (ts1, w1, log1)" by auto
  then obtain evs where e: "suite_fine c ts1" "length (ts_tests ts1) = length (ts_tests (ut_suites u ! ?k))" "log1 = ut_log u @ evs" "sfail ts1 \<longleftrightarrow> sfail (ut_suites u ! ?k) \<or> fails evs"
    by (auto simp: sgrows_def)
  let ?u = "u\<lparr>ut_suites := (ut_suites u)[?k := ts1], ut_world := w1, ut_log := log1\<rparr>"
  have "unit_ok c ?u"
    using assms(2) e(1) set_update_subset_insert [of "ut_suites u" ?k ts1] by (auto simp: unit_ok_def)
  moreover have "ufail ?u \<longleftrightarrow> ufail u \<or> fails evs"
    using e(4) by (simp add: ufail_def update_ex [OF k(2)] nth_ex [OF k(2)]) blast
  moreover have "sizes ?u = sizes u"
    using e(2) k(2) by (simp add: sizes_def map_update list_update_same_conv)
  ultimately have "ugrows c u ?u" using e(3) by (auto simp: ugrows_def)
  with k(1) s(1) show ?thesis by (simp add: at_suite_def)
qed

lemma skip_suites_ok:
  "unit_ok c u \<Longrightarrow> set is \<subseteq> {..<length (ut_suites u)} \<Longrightarrow> \<exists>u'. rfold (at_suite TestSuite_Skip) is u = Inr u' \<and> ugrows c u u'"
proof (induction "is" arbitrary: u)
  case (Cons i "is")
  have "i < length (ut_suites u)" using Cons.prems by simp
  from at_suite_ok [of c TestSuite_Skip, OF TestSuite_Skip_ok Cons.prems(1) this] obtain u1 where
    u1: "at_suite TestSuite_Skip i u = Inr u1" "ugrows c u u1" by blast
  from Cons.IH [OF ugrowsD(1) [OF u1(2)]] ugrowsD(2) [OF u1(2)] Cons.prems(2) obtain u2 where
    u2: "rfold (at_suite TestSuite_Skip) is u1 = Inr u2" "ugrows c u1 u2" by auto
  have "rfold (at_suite TestSuite_Skip) (i # is) u = Inr u2" using u1(1) u2(1) by simp
  with ugrows_trans [OF u1(2) u2(2)] show ?case by blast
qed (simp add: ugrows_refl)

lemma run_suites_ok:
  "unit_ok c u \<Longrightarrow> set is \<subseteq> {..<length (ut_suites u)} \<Longrightarrow> \<exists>u'. run_suites c ff is u = Inr u' \<and> ugrows c u u'"
proof (induction "is" arbitrary: u)
  case (Cons i "is")
  have i: "i < length (ut_suites u)" using Cons.prems by simp
  from at_suite_ok [of c "TestSuite_Run c ff", OF TestSuite_Run_ok Cons.prems(1) i] obtain u1 where
    u1: "at_suite (TestSuite_Run c ff) i u = Inr u1" "ugrows c u u1" by blast
  note g = ugrowsD [OF u1(2)]
  have "is": "set is \<subseteq> {..<length (ut_suites u1)}" using g(2) Cons.prems(2) by simp
  obtain k ts where k: "GetMutable (ut_suites u1) (ut_indices u1) i = Inr (k, ts)"
    using GetMutable_ok [of "ut_indices u1" "ut_suites u1" i] g i by (auto simp: unit_ok_def)
  from skip_suites_ok [OF g(1) "is"] Cons.IH [OF g(1) "is"] obtain u2 where
    u2: "(if ff \<and> SuiteFailed ts then rfold (at_suite TestSuite_Skip) is u1 else run_suites c ff is u1) = Inr u2" "ugrows c u1 u2"
    by (cases "ff \<and> SuiteFailed ts") auto
  have "run_suites c ff (i # is) u = Inr u2" using u1(1) k u2(1) by simp
  with ugrows_trans [OF u1(2) u2(2)] show ?case by blast
qed (simp add: ugrows_refl)

section \<open>The run: iterations, shuffling and the final verdict\<close>

lemma ugrows_step:
  assumes "unit_ok c u" "ut_suites u' = ut_suites u" "ut_indices u' = ut_indices u" "ut_last_death u' = ut_last_death u"
    "ut_random_seed u' = ut_random_seed u" "ut_envs u' = ut_envs u" "ut_log u' = ut_log u @ evs" "ut_ad_hoc u' = ut_ad_hoc u @ ps" "fails evs \<longleftrightarrow> Failed ps"
  shows "ugrows c u u'"
  using assms by (auto simp: ugrows_def unit_ok_def sizes_def ufail_def)

lemma say_event_ok: "unit_ok c u \<Longrightarrow> (\<And>p. e \<noteq> OnTestPartResult p) \<Longrightarrow> ugrows c u (say_event e u)"
  by (rule ugrows_step [where evs = "[e]" and ps = "[]"]) (simp_all add: say_event_def)

text \<open>What an exception of an environment leaves: the log has grown, and a failure has been or will be reported.\<close>

definition escapes :: "bool \<Rightarrow> 'w unit_test \<Rightarrow> cxx_exception \<Rightarrow> 'w unit_test \<Rightarrow> bool" where
  "escapes c u e u' \<longleftrightarrow> c \<and> (\<exists>evs. ut_log u' = ut_log u @ evs \<and>
     (case e of AssertionException \<Rightarrow> fails evs | GoogleTestFailureException \<Rightarrow> False | OtherException \<Rightarrow> True))"

text \<open>\<open>leads P c u m\<close>: the computation returns with \<open>P\<close>, or an environment has thrown.\<close>

definition leads :: "('a \<Rightarrow> bool) \<Rightarrow> bool \<Rightarrow> 'w unit_test \<Rightarrow> 'w fault + 'a \<Rightarrow> bool" where
  "leads P c u m \<longleftrightarrow> (\<exists>x. m = Inr x \<and> P x) \<or> (\<exists>e u'. m = Inl (Thrown e u') \<and> escapes c u e u')"

lemma leads_Inr [simp]: "leads P c u (Inr x) \<longleftrightarrow> P x"
  by (simp add: leads_def)

lemma stops_simps [simp]: "stops (Inr x) = Inr x" "stops (Inl e) = Inl (Stopped e)"
  by (simp_all add: stops_def)

lemma escapes_trans:
  assumes "ut_log u1 = ut_log u @ evs" "escapes c u1 e u2"
  shows "escapes c u e u2"
  using assms by (cases e) (auto simp: escapes_def)

lemma leads_bind:
  assumes "leads (ugrows c u) c u m" "\<And>u1. ugrows c u u1 \<Longrightarrow> leads P c u1 (f u1)"
  shows "leads P c u (bindr m f)"
proof -
  from assms(1) consider (ret) u1 where "m = Inr u1" "ugrows c u u1" | (throw) e u' where "m = Inl (Thrown e u')" "escapes c u e u'"
    by (auto simp: leads_def)
  then show ?thesis
  proof cases
    case ret
    then obtain evs where "ut_log u1 = ut_log u @ evs" by (auto simp: ugrows_def)
    with assms(2) [OF ret(2)] ret(1) escapes_trans show ?thesis by (fastforce simp: leads_def)
  qed (simp add: leads_def)
qed

lemma leads_mono: "leads P c u m \<Longrightarrow> (\<And>x. P x \<Longrightarrow> Q x) \<Longrightarrow> leads Q c u m"
  by (auto simp: leads_def)

lemma leads_chain:
  assumes "leads (ugrows c u) c u m" "\<And>u1. ugrows c u u1 \<Longrightarrow> leads (ugrows c u1) c u1 (f u1)"
  shows "leads (ugrows c u) c u (bindr m f)"
  by (rule leads_bind [OF assms(1)]) (rule leads_mono [OF assms(2)], assumption, rule ugrows_trans)

lemma leads_from: "ugrows c u u1 \<Longrightarrow> leads (ugrows c u1) c u1 m \<Longrightarrow> leads (ugrows c u) c u m"
  unfolding leads_def by (auto 0 3 simp: ugrows_def [of c u u1] intro: ugrows_trans [of c u u1] escapes_trans)

lemma leads_refl: "unit_ok c u \<Longrightarrow> leads (ugrows c u) c u (Inr u)"
  by (simp add: ugrows_refl)

lemma run_ad_hoc_ok:
  assumes "unit_ok c u" "tame c code"
  shows "leads (ugrows c u) c u (run_ad_hoc code u)"
proof -
  obtain ps thrown w where code: "code (ut_world u) = (ps, thrown, w)" by (cases "code (ut_world u)")
  let ?u = "u\<lparr>ut_ad_hoc := ut_ad_hoc u @ ps, ut_world := w, ut_log := ut_log u @ map OnTestPartResult ps\<rparr>"
  have "ugrows c u ?u"
    by (rule ugrows_step [OF assms(1), where evs = "map OnTestPartResult ps" and ps = ps]) simp_all
  moreover have "escapes c u e ?u" if "thrown = Some e" for e
    using assms(2) [unfolded tame_def, rule_format, of "ut_world u"] that code HasFatalFailure_Failed
    by (auto simp: escapes_def split: cxx_exception.splits)
  ultimately show ?thesis by (cases thrown) (simp_all add: run_ad_hoc_def code leads_def)
qed

lemma run_envs_ok: "unit_ok c u \<Longrightarrow> (\<forall>env \<in> set envs. tame c env) \<Longrightarrow> leads (ugrows c u) c u (run_envs envs u)"
proof (induction envs arbitrary: u)
  case (Cons env envs)
  show ?case
    using Cons.prems Cons.IH by (auto intro!: leads_chain run_ad_hoc_ok dest: ugrowsD(1))
qed (simp add: ugrows_refl)

subsection \<open>Clearing, shuffling and putting back\<close>

text \<open>What a shuffle needs of the sizes, and what the seeds keep.\<close>

definition limits_ok :: "'w unit_test \<Rightarrow> bool" where
  "limits_ok u \<longleftrightarrow> - 1 \<le> ut_last_death u \<and> ut_last_death u < int (length (sizes u)) \<and> length (sizes u) \<le> 2147483648 \<and>
     (\<forall>n \<in> set (sizes u). n \<le> 2147483648) \<and> 1 \<le> ut_random_seed u \<and> ut_random_seed u \<le> kMaxRandomSeed"

lemma limits_ugrows: "ugrows c u u' \<Longrightarrow> limits_ok u' \<longleftrightarrow> limits_ok u"
  by (simp add: ugrows_def limits_ok_def)

lemma ClearResult_simps [simp]:
  "suite_fine c ts \<Longrightarrow> suite_fine c (ClearResult ts)" "\<not> sfail (ClearResult ts)" "ts_tests (ClearResult ts) = map (\<lambda>ti. ti\<lparr>ti_result := []\<rparr>) (ts_tests ts)"
  by (auto simp: ClearResult_def suite_fine_def suite_ok_def sfail_def bad_def)

lemma Clear_ok:
  assumes "unit_ok c u"
  shows "unit_ok c (u\<lparr>ut_suites := map ClearResult (ut_suites u)\<rparr>)"
    "ufail (u\<lparr>ut_suites := map ClearResult (ut_suites u)\<rparr>) \<longleftrightarrow> Failed (ut_ad_hoc u)"
    "limits_ok u \<Longrightarrow> limits_ok (u\<lparr>ut_suites := map ClearResult (ut_suites u)\<rparr>)"
  using assms by (auto simp: unit_ok_def ufail_def limits_ok_def sizes_def comp_def)

text \<open>Another order of the tests changes nothing that counts.\<close>

lemma fine_order:
  "suite_fine c ts \<Longrightarrow> length v = length (ts_tests ts) \<Longrightarrow> set v \<subseteq> {..<length (ts_tests ts)} \<Longrightarrow> suite_fine c (ts\<lparr>ts_indices := v\<rparr>)"
  "sfail (ts\<lparr>ts_indices := v\<rparr>) = sfail ts"
  by (auto simp: suite_fine_def suite_ok_def sfail_def bad_def)

lemma shuffle_suites_ok:
  "(\<forall>ts \<in> set tss. suite_fine c ts \<and> length (ts_tests ts) \<le> 2147483648) \<Longrightarrow>
     \<exists>r' vs. rfold (\<lambda>ts (r, tss). bindr (Shuffle r (ts_indices ts)) (\<lambda>(r1, v). Inr (r1, tss @ [ts\<lparr>ts_indices := v\<rparr>])))
        tss (r, acc) = Inr (r', acc @ map2 (\<lambda>ts v. ts\<lparr>ts_indices := v\<rparr>) tss vs) \<and>
      list_all2 (\<lambda>ts v. mset v = mset (ts_indices ts)) tss vs"
proof (induction tss arbitrary: r acc)
  case (Cons ts tss)
  have "length (ts_indices ts) \<le> 2147483648" using Cons.prems by (simp add: suite_fine_def suite_ok_def)
  from Shuffle_ok [OF this, of r] obtain r1 v where v: "Shuffle r (ts_indices ts) = Inr (r1, v)" "mset v = mset (ts_indices ts)" by blast
  from Cons.IH [of r1 "acc @ [ts\<lparr>ts_indices := v\<rparr>]"] Cons.prems obtain r' vs where
    r': "rfold (\<lambda>ts (r, tss). bindr (Shuffle r (ts_indices ts)) (\<lambda>(r1, v). Inr (r1, tss @ [ts\<lparr>ts_indices := v\<rparr>]))) tss
        (r1, acc @ [ts\<lparr>ts_indices := v\<rparr>]) = Inr (r', (acc @ [ts\<lparr>ts_indices := v\<rparr>]) @ map2 (\<lambda>ts v. ts\<lparr>ts_indices := v\<rparr>) tss vs)"
      "list_all2 (\<lambda>ts v. mset v = mset (ts_indices ts)) tss vs" by auto
  show ?case by (rule exI [of _ r'], rule exI [of _ "v # vs"]) (use v r' in simp)
qed simp

lemma orders_ok:
  assumes "list_all2 (\<lambda>ts v. mset v = mset (ts_indices ts)) tss vs" "\<forall>ts \<in> set tss. suite_fine c ts"
  shows "(\<forall>ts \<in> set (map2 (\<lambda>ts v. ts\<lparr>ts_indices := v\<rparr>) tss vs). suite_fine c ts) \<and>
    ((\<exists>ts \<in> set (map2 (\<lambda>ts v. ts\<lparr>ts_indices := v\<rparr>) tss vs). sfail ts) \<longleftrightarrow> (\<exists>ts \<in> set tss. sfail ts)) \<and>
    map (\<lambda>ts. length (ts_tests ts)) (map2 (\<lambda>ts v. ts\<lparr>ts_indices := v\<rparr>) tss vs) = map (\<lambda>ts. length (ts_tests ts)) tss"
  using assms
proof (induction tss vs rule: list_all2_induct)
  case (Cons ts tss v vs)
  have "length v = length (ts_tests ts)" "set v \<subseteq> {..<length (ts_tests ts)}"
    using Cons.hyps(1) Cons.prems mset_eq_length [of v "ts_indices ts"] mset_eq_setD [of v "ts_indices ts"]
    by (auto simp: suite_fine_def suite_ok_def)
  then have "suite_fine c (ts\<lparr>ts_indices := v\<rparr>)" by (rule fine_order(1) [rotated]) (use Cons.prems in simp)
  then show ?case using Cons.IH Cons.prems by (simp add: fine_order(2))
qed simp

lemma ShuffleTests_ok:
  assumes "unit_ok c u" "limits_ok u"
  shows "\<exists>u'. ShuffleTests u = Inr u' \<and> ugrows c u u' \<and> ut_log u' = ut_log u \<and> ut_ad_hoc u' = ut_ad_hoc u \<and> (ufail u' \<longleftrightarrow> ufail u)"
proof -
  let ?n = "length (ut_suites u)" and ?d = "ut_last_death u + 1"
  have d: "0 \<le> ?d" "?d \<le> int ?n" "?n \<le> 2147483648" "\<forall>ts \<in> set (ut_suites u). length (ts_tests ts) \<le> 2147483648"
    using assms(2) by (auto simp: limits_ok_def sizes_def)
  have ix: "length (ut_indices u) = ?n" "set (ut_indices u) \<subseteq> {..<?n}" "\<forall>ts \<in> set (ut_suites u). suite_fine c ts"
    using assms(1) by (auto simp: unit_ok_def)
  from ShuffleRange_ok [of 0 ?d "ut_indices u" "ut_random u"] d ix obtain r1 v1 where
    1: "ShuffleRange (ut_random u) 0 ?d (ut_indices u) = Inr (r1, v1)" "mset v1 = mset (ut_indices u)" "length v1 = ?n"
    by (auto simp: shuffled_def)
  from ShuffleRange_ok [of ?d "int ?n" v1 r1] d 1(3) obtain r2 v2 where
    2: "ShuffleRange r1 ?d (int ?n) v1 = Inr (r2, v2)" "mset v2 = mset v1" "length v2 = ?n"
    by (auto simp: shuffled_def)
  from shuffle_suites_ok [of "ut_suites u" c r2 "[]"] d(4) ix(3) obtain r3 vs where
    3: "rfold (\<lambda>ts (r, tss). bindr (Shuffle r (ts_indices ts)) (\<lambda>(r1, v). Inr (r1, tss @ [ts\<lparr>ts_indices := v\<rparr>])))
        (ut_suites u) (r2, []) = Inr (r3, map2 (\<lambda>ts v. ts\<lparr>ts_indices := v\<rparr>) (ut_suites u) vs)"
      "list_all2 (\<lambda>ts v. mset v = mset (ts_indices ts)) (ut_suites u) vs" by auto
  let ?tss = "map2 (\<lambda>ts v. ts\<lparr>ts_indices := v\<rparr>) (ut_suites u) vs"
  let ?u = "u\<lparr>ut_random := r3, ut_indices := v2, ut_suites := ?tss\<rparr>"
  have o: "\<forall>ts \<in> set ?tss. suite_fine c ts" "(\<exists>ts \<in> set ?tss. sfail ts) \<longleftrightarrow> (\<exists>ts \<in> set (ut_suites u). sfail ts)"
    "map (\<lambda>ts. length (ts_tests ts)) ?tss = map (\<lambda>ts. length (ts_tests ts)) (ut_suites u)"
    using orders_ok [OF 3(2) ix(3)] by blast+
  have l: "length ?tss = ?n" using 3(2) by (simp add: list_all2_lengthD [symmetric])
  have "set v2 \<subseteq> {..<?n}" using 1(2) 2(2) ix(2) by (metis mset_eq_setD)
  then have u: "unit_ok c ?u" using o(1) l 2(3) assms(1) by (simp add: unit_ok_def)
  have f: "ufail ?u \<longleftrightarrow> ufail u" using o(2) by (simp add: ufail_def)
  have s: "sizes ?u = sizes u" using o(3) by (simp add: sizes_def)
  have "ShuffleTests u = Inr ?u" unfolding ShuffleTests_def using 1(1) 2(1) 3(1) by simp
  moreover have "ugrows c u ?u" using u f s by (auto simp: ugrows_def)
  ultimately show ?thesis using f by auto
qed

lemma Unshuffle_ok:
  assumes "unit_ok c u"
  shows "unit_ok c (UnshuffleAll u)" "limits_ok (UnshuffleAll u) \<longleftrightarrow> limits_ok u"
    "ut_log (UnshuffleAll u) = ut_log u" "ut_ad_hoc (UnshuffleAll u) = ut_ad_hoc u" "ut_random_seed (UnshuffleAll u) = ut_random_seed u"
  using assms
  by (auto simp: unit_ok_def UnshuffleAll_def UnshuffleTests_def limits_ok_def sizes_def comp_def suite_fine_def suite_ok_def
      sfail_def bad_def)

subsection \<open>One iteration\<close>

text \<open>The verdict of an iteration: what the ad hoc result held before, or what the iteration reported.\<close>

definition iterated :: "bool \<Rightarrow> 'w unit_test \<Rightarrow> bool \<times> 'w unit_test \<Rightarrow> bool" where
  "iterated c u = (\<lambda>(passed, u'). unit_ok c u' \<and> limits_ok u' \<and>
     (\<exists>evs. ut_log u' = ut_log u @ evs \<and> (\<not> passed \<longleftrightarrow> Failed (ut_ad_hoc u) \<or> fails evs) \<and>
        (Failed (ut_ad_hoc u') \<longrightarrow> Failed (ut_ad_hoc u) \<or> fails evs) \<and> (Failed (ut_ad_hoc u) \<longrightarrow> Failed (ut_ad_hoc u'))))"

text \<open>The part of an iteration between its two events.\<close>

lemma env_events: "\<And>p. OnEnvironmentsSetUpStart \<noteq> OnTestPartResult p" "\<And>p. OnEnvironmentsSetUpEnd \<noteq> OnTestPartResult p"
    "\<And>p. OnEnvironmentsTearDownStart \<noteq> OnTestPartResult p" "\<And>p. OnEnvironmentsTearDownEnd \<noteq> OnTestPartResult p"
    "\<And>p. OnTestIterationStart i \<noteq> OnTestPartResult p" "\<And>p. OnTestIterationEnd i \<noteq> OnTestPartResult p"
  by simp_all

lemma wrapped_envs_ok:
  assumes "unit_ok c u" "\<And>p. e1 \<noteq> OnTestPartResult p" "\<And>p. e2 \<noteq> OnTestPartResult p" "\<forall>env \<in> set envs. tame c env"
  shows "leads (ugrows c u) c u (bindr (run_envs envs (say_event e1 u)) (\<lambda>u1. Inr (say_event e2 u1)))"
proof -
  note g1 = say_event_ok [OF assms(1,2)]
  have "leads (ugrows c (say_event e1 u)) c (say_event e1 u)
      (bindr (run_envs envs (say_event e1 u)) (\<lambda>u1. Inr (say_event e2 u1)))"
    by (rule leads_chain [OF run_envs_ok [OF ugrowsD(1) [OF g1] assms(4)]])
      (simp add: say_event_ok [OF ugrowsD(1) assms(3)])
  with g1 show ?thesis by (rule leads_from)
qed

lemma envs_tame:
  assumes "unit_ok c u"
  shows "\<forall>env \<in> set (map fst (ut_envs u)). tame c env" "\<forall>env \<in> set (map snd (rev (ut_envs u))). tame c env"
  using assms by (auto simp: unit_ok_def)

lemma all_suites_ok:
  assumes "unit_ok c u"
  shows "leads (ugrows c u) c u
    (if Skipped (ut_ad_hoc u) then Inr u
     else if \<not> HasFatalFailure (ut_ad_hoc u) then stops (run_suites c ff [0..<length (ut_suites u)] u)
     else stops (rfold (at_suite TestSuite_Skip) [0..<length (ut_suites u)] u))"
proof -
  have "set [0..<length (ut_suites u)] \<subseteq> {..<length (ut_suites u)}" by (simp add: atLeast0LessThan)
  from run_suites_ok [OF assms this, of ff] skip_suites_ok [OF assms this] obtain u1 u2 where
    "run_suites c ff [0..<length (ut_suites u)] u = Inr u1" "ugrows c u u1"
    "rfold (at_suite TestSuite_Skip) [0..<length (ut_suites u)] u = Inr u2" "ugrows c u u2" by blast
  with ugrows_refl [OF assms] show ?thesis by simp
qed

lemma run_environments_and_suites_ok:
  assumes "unit_ok (fl_catch_exceptions fl) u"
  shows "leads (ugrows (fl_catch_exceptions fl) u) (fl_catch_exceptions fl) u (run_environments_and_suites fl set_up tear_down u)"
proof -
  let ?c = "fl_catch_exceptions fl"
  have up: "leads (ugrows ?c u) ?c u (if set_up
      then bindr (run_envs (map fst (ut_envs u)) (say_event OnEnvironmentsSetUpStart u)) (\<lambda>u1.
           Inr (say_event OnEnvironmentsSetUpEnd u1)) else Inr u)"
    using wrapped_envs_ok [OF assms env_events(1,2) envs_tame(1) [OF assms]] leads_refl [OF assms] by simp
  have down: "leads (ugrows ?c v) ?c v (if tear_down
      then bindr (run_envs (map snd (rev (ut_envs v))) (say_event OnEnvironmentsTearDownStart v)) (\<lambda>u5.
           Inr (say_event OnEnvironmentsTearDownEnd u5)) else Inr v)" if "unit_ok ?c v" for v
    using wrapped_envs_ok [OF that env_events(3,4) envs_tame(2) [OF that]] leads_refl [OF that] by simp
  show ?thesis unfolding run_environments_and_suites_def
    by (rule leads_chain [OF up], rule leads_chain [OF all_suites_ok]) (erule ugrowsD(1), rule down, erule ugrowsD(1))
qed

lemma ugrows_evs:
  assumes "ugrows c u u'" "ufail u \<longleftrightarrow> Failed (ut_ad_hoc u)"
  shows "\<exists>evs. ut_log u' = ut_log u @ evs \<and> (ufail u' \<longleftrightarrow> Failed (ut_ad_hoc u) \<or> fails evs) \<and>
        (Failed (ut_ad_hoc u') \<longrightarrow> Failed (ut_ad_hoc u) \<or> fails evs) \<and> (Failed (ut_ad_hoc u) \<longrightarrow> Failed (ut_ad_hoc u'))"
  using assms unfolding ugrows_def by auto

text \<open>The end of an iteration: the verdict, the order as before and the next seed.\<close>

lemma iteration_end_ok:
  fixes u :: "'w unit_test"
  assumes "ugrows c u u5" "limits_ok u" "ufail u \<longleftrightarrow> Failed (ut_ad_hoc u)"
  shows "\<exists>r. (let u6 = say_event (OnTestIterationEnd i) u5; passed = UnitTestPassed u6; u7 = UnshuffleAll u6 in
      if shuf then bindr (stops (GetNextRandomSeed (ut_random_seed u7))) (\<lambda>seed. Inr (passed, u7\<lparr>ut_random_seed := seed\<rparr>))
      else Inr (passed, u7)) = (Inr r :: 'w fault + (bool \<times> 'w unit_test)) \<and> iterated c u r"
proof -
  let ?u6 = "say_event (OnTestIterationEnd i) u5"
  let ?u7 = "UnshuffleAll ?u6"
  have g6: "ugrows c u ?u6" by (rule ugrows_trans [OF assms(1) say_event_ok [OF ugrowsD(1) [OF assms(1)] env_events(6)]])
  note ok6 = ugrowsD(1) [OF g6]
  have l7: "unit_ok c ?u7" "limits_ok ?u7" using Unshuffle_ok(1,2) [OF ok6] limits_ugrows [OF g6] assms(2) by simp_all
  from ugrows_evs [OF g6 assms(3)] obtain evs where evs: "ut_log ?u6 = ut_log u @ evs"
    "ufail ?u6 \<longleftrightarrow> Failed (ut_ad_hoc u) \<or> fails evs" "Failed (ut_ad_hoc ?u6) \<longrightarrow> Failed (ut_ad_hoc u) \<or> fails evs"
    "Failed (ut_ad_hoc u) \<longrightarrow> Failed (ut_ad_hoc ?u6)" by blast
  have p: "\<not> UnitTestPassed ?u6 \<longleftrightarrow> Failed (ut_ad_hoc u) \<or> fails evs"
    using evs(2) UnitTestFailed_ufail [OF ok6] by (simp add: UnitTestPassed_def)
  have it: "iterated c u (UnitTestPassed ?u6, ?u7)"
    unfolding iterated_def prod.case using l7 p evs(1,3,4) Unshuffle_ok(3,4) [OF ok6] by metis
  from l7(2) next_seed_range [of "ut_random_seed ?u7"] obtain s where
    s: "GetNextRandomSeed (ut_random_seed ?u7) = Inr s" "1 \<le> s" "s \<le> kMaxRandomSeed" by (auto simp: limits_ok_def)
  have it2: "iterated c u (UnitTestPassed ?u6, ?u7\<lparr>ut_random_seed := s\<rparr>)"
    using it s(2,3) by (simp add: iterated_def unit_ok_def limits_ok_def sizes_def)
  from it it2 show ?thesis by (simp add: Let_def s(1))
qed

lemma run_iteration_ok:
  fixes u :: "'w unit_test"
  assumes "unit_ok (fl_catch_exceptions fl) u" "limits_ok u"
  shows "leads (iterated (fl_catch_exceptions fl) u) (fl_catch_exceptions fl) u (run_iteration fl h rep rc i u)"
proof -
  let ?c = "fl_catch_exceptions fl"
  define u0 where "u0 = u\<lparr>ut_suites := map ClearResult (ut_suites u)\<rparr>"
  have u0: "unit_ok ?c u0" "ufail u0 \<longleftrightarrow> Failed (ut_ad_hoc u0)" "limits_ok u0" "ut_log u0 = ut_log u" "ut_ad_hoc u0 = ut_ad_hoc u"
    using Clear_ok [OF assms(1)] assms(2) by (simp_all add: u0_def)
  let ?ur = "u0\<lparr>ut_random := Reseed (word_of_int (ut_random_seed u0))\<rparr>"
  have ur: "ugrows ?c u0 ?ur" by (rule ugrows_step [OF u0(1), where evs = "[]" and ps = "[]"]) simp_all
  have shuf: "leads (ugrows ?c u0) ?c u0 (if h \<and> fl_shuffle fl then stops (ShuffleTests ?ur) else Inr u0)"
    using ShuffleTests_ok [OF ugrowsD(1) [OF ur]] limits_ugrows [OF ur] u0(3) ugrows_refl [OF u0(1)] ugrows_trans [OF ur]
    by auto
  have body: "leads (ugrows ?c u1) ?c u1 (if h then run_environments_and_suites fl (i = 0 \<or> rc) (i = rep - 1 \<or> rc)
      (say_event (OnTestIterationStart i) u1) else Inr (say_event (OnTestIterationStart i) u1))" if "ugrows ?c u0 u1" for u1
  proof -
    note g = say_event_ok [OF ugrowsD(1) [OF that] env_events(5), of i]
    show ?thesis using leads_from [OF g run_environments_and_suites_ok [OF ugrowsD(1) [OF g]]] g by simp
  qed
  have run: "run_iteration fl h rep rc i u =
      bindr (bindr (if h \<and> fl_shuffle fl then stops (ShuffleTests ?ur) else Inr u0) (\<lambda>u1.
        if h then run_environments_and_suites fl (i = 0 \<or> rc) (i = rep - 1 \<or> rc) (say_event (OnTestIterationStart i) u1)
        else Inr (say_event (OnTestIterationStart i) u1)))
      (\<lambda>u5. let u6 = say_event (OnTestIterationEnd i) u5; passed = UnitTestPassed u6; u7 = UnshuffleAll u6 in
         if fl_shuffle fl then bindr (stops (GetNextRandomSeed (ut_random_seed u7))) (\<lambda>seed. Inr (passed, u7\<lparr>ut_random_seed := seed\<rparr>))
         else Inr (passed, u7))"
    by (simp only: run_iteration_def Let_def u0_def bindr_assoc)
  have "leads (iterated ?c u0) ?c u0 (run_iteration fl h rep rc i u)"
    unfolding run
  proof (rule leads_bind [OF leads_chain [OF shuf body]], assumption)
    fix u5 assume g5: "ugrows ?c u0 u5"
    from iteration_end_ok [OF g5 u0(3,2), of i "fl_shuffle fl"] show "leads (iterated ?c u0) ?c u5
        (let u6 = say_event (OnTestIterationEnd i) u5; passed = UnitTestPassed u6; u7 = UnshuffleAll u6 in
         if fl_shuffle fl then bindr (stops (GetNextRandomSeed (ut_random_seed u7))) (\<lambda>seed. Inr (passed, u7\<lparr>ut_random_seed := seed\<rparr>))
         else Inr (passed, u7))" by (elim exE conjE) (simp only: leads_Inr)
  qed
  then show ?thesis using u0(4,5) by (simp add: leads_def iterated_def escapes_def)
qed

subsection \<open>All iterations\<close>

text \<open>The verdict of the loop over the iterations.\<close>

definition repeated :: "'w unit_test \<Rightarrow> bool \<Rightarrow> bool \<times> 'w unit_test \<Rightarrow> bool" where
  "repeated u before = (\<lambda>(failed, u'). \<exists>evs. ut_log u' = ut_log u @ evs \<and> (failed \<longleftrightarrow> before \<or> fails evs))"

lemma run_repeat_ok:
  assumes "0 \<le> i" "i \<le> rep" "rep \<le> INT_MAX" "unit_ok (fl_catch_exceptions fl) u" "limits_ok u"
  shows "leads (repeated u (failed \<or> (i < rep \<and> Failed (ut_ad_hoc u)))) (fl_catch_exceptions fl) u
    (run_repeat fl h rep rc i failed u)"
  using assms
proof (induction "nat (rep - i)" arbitrary: i failed u)
  case 0
  then show ?case by (subst run_repeat.simps) (simp add: repeated_def)
next
  case (Suc n)
  let ?c = "fl_catch_exceptions fl"
  from Suc have i: "i < rep" "i < INT_MAX" "n = nat (rep - (i + 1))" by auto
  have run: "run_repeat fl h rep rc i failed u = bindr (run_iteration fl h rep rc i u) (\<lambda>(passed, u1).
      run_repeat fl h rep rc (i + 1) (failed \<or> \<not> passed) u1)"
    using i(1,2) Suc.prems(1) by (subst run_repeat.simps) simp
  from run_iteration_ok [OF Suc.prems(4,5), of h rep rc i] consider
    (ret) passed u1 where "run_iteration fl h rep rc i u = Inr (passed, u1)" "iterated ?c u (passed, u1)"
  | (throw) e u' where "run_iteration fl h rep rc i u = Inl (Thrown e u')" "escapes ?c u e u'" by (auto simp: leads_def)
  then show ?case
  proof cases
    case ret
    from ret(2) obtain e1 where e1: "ut_log u1 = ut_log u @ e1" "\<not> passed \<longleftrightarrow> Failed (ut_ad_hoc u) \<or> fails e1"
      "Failed (ut_ad_hoc u1) \<longrightarrow> Failed (ut_ad_hoc u) \<or> fails e1" "unit_ok ?c u1" "limits_ok u1" unfolding iterated_def by blast
    have "leads (repeated u1 ((failed \<or> \<not> passed) \<or> (i + 1 < rep \<and> Failed (ut_ad_hoc u1)))) ?c u1
        (run_repeat fl h rep rc (i + 1) (failed \<or> \<not> passed) u1)"
      using Suc.hyps(1) [OF i(3) _ _ Suc.prems(3) e1(4,5), of "failed \<or> \<not> passed"] i(1) Suc.prems(1) by simp
    then have "leads (repeated u (failed \<or> (i < rep \<and> Failed (ut_ad_hoc u)))) ?c u1
        (run_repeat fl h rep rc (i + 1) (failed \<or> \<not> passed) u1)"
      by (rule leads_mono) (use e1(1-3) i(1) in \<open>auto simp: repeated_def\<close>)
    with ret(1) escapes_trans [OF e1(1)] show ?thesis unfolding run by (auto simp: leads_def)
  qed (simp add: run leads_def)
qed

end
