(* ===== verification/Gt_Shards.thy ===== *)
theory Gt_Shards
  imports Gt_Run
begin

section \<open>Selection by filter and shard, and the whole run\<close>

text \<open>
  The tests of all suites in the order they were registered; a test is eligible when the filter
  selects it and it is not disabled.  The eligible tests are numbered, and a shard takes those whose
  number is congruent to its index.
\<close>

definition disabled :: "string \<Rightarrow> string \<Rightarrow> bool" where
  "disabled suite test \<longleftrightarrow> accepted kDisableTestFilter suite \<or> accepted kDisableTestFilter test"

definition eligible :: "run_flags \<Rightarrow> string \<Rightarrow> string \<Rightarrow> bool" where
  "eligible fl suite test \<longleftrightarrow>
     (fl_also_run_disabled fl \<or> \<not> disabled suite test) \<and> selects (fl_filter fl) (suite @ ''.'' @ test)"

definition eligibles :: "run_flags \<Rightarrow> 'w test_suite list \<Rightarrow> bool list" where
  "eligibles fl tss = concat (map (\<lambda>ts. map (\<lambda>ti. eligible fl (ts_name ts) (ti_name ti)) (ts_tests ts)) tss)"

definition marked :: "'w test_suite list \<Rightarrow> bool list" where
  "marked tss = map ti_should_run (concat (map ts_tests tss))"

text \<open>Which of the tests a shard takes, and the number that the next eligible test gets.\<close>

fun picks :: "bool \<Rightarrow> int \<Rightarrow> int \<Rightarrow> bool list \<Rightarrow> int \<Rightarrow> bool list" where
  "picks honor t k [] r = []"
| "picks honor t k (b # bs) r = (b \<and> (honor \<longrightarrow> r mod t = k)) # picks honor t k bs (if b then r + 1 else r)"

definition trues :: "bool list \<Rightarrow> int" where
  "trues bs = int (length (filter id bs))"

lemma trues_simps [simp]: "trues [] = 0" "trues (b # bs) = (if b then 1 else 0) + trues bs" "trues (as @ bs) = trues as + trues bs"
  by (simp_all add: trues_def)

lemma trues_nonneg [simp]: "0 \<le> trues bs" by (simp add: trues_def)

lemma picks_append: "picks honor t k (as @ bs) r = picks honor t k as r @ picks honor t k bs (r + trues as)"
  by (induction as arbitrary: r) (auto simp: ac_simps)

lemma length_picks [simp]: "length (picks honor t k bs r) = length bs"
  by (induction bs arbitrary: r) auto

lemma picks_all: "picks False t k bs r = bs"
  by (induction bs arbitrary: r) auto

lemma picks_nth: "n < length bs \<Longrightarrow> picks True t k bs r ! n \<longleftrightarrow> bs ! n \<and> (r + trues (take n bs)) mod t = k"
proof (induction bs arbitrary: n r)
  case (Cons b bs)
  then show ?case by (cases n) (auto simp: ac_simps)
qed simp

text \<open>What a selection keeps of a test.\<close>

definition untouched :: "'w test_info \<Rightarrow> 'w test_info \<Rightarrow> bool" where
  "untouched ti ti' \<longleftrightarrow> ti_name ti' = ti_name ti \<and> ti_result ti' = ti_result ti \<and> (\<forall>c. tame_test c ti' = tame_test c ti)"

definition kept_suite :: "'w test_suite \<Rightarrow> 'w test_suite \<Rightarrow> bool" where
  "kept_suite ts ts' \<longleftrightarrow> list_all2 untouched (ts_tests ts) (ts_tests ts') \<and> ts_indices ts' = ts_indices ts \<and>
     ts_ad_hoc ts' = ts_ad_hoc ts \<and> ts_setup ts' = ts_setup ts \<and> ts_teardown ts' = ts_teardown ts"

lemma filter_suite_ok:
  assumes "honor \<longrightarrow> 0 < t" "0 \<le> r"
  shows "\<exists>tis'. filter_suite fl honor t k suite tis r s =
      Inr (tis', list_ex id (picks honor t k (map (\<lambda>ti. eligible fl suite (ti_name ti)) tis) r),
        r + trues (map (\<lambda>ti. eligible fl suite (ti_name ti)) tis),
        s + trues (picks honor t k (map (\<lambda>ti. eligible fl suite (ti_name ti)) tis) r)) \<and>
      map ti_should_run tis' = picks honor t k (map (\<lambda>ti. eligible fl suite (ti_name ti)) tis) r \<and> list_all2 untouched tis tis'"
  using assms
proof (induction tis arbitrary: r s)
  case (Cons ti tis)
  let ?e = "eligible fl suite (ti_name ti)"
  have d: "(if accepted kDisableTestFilter suite then Inr True
      else Inr (accepted kDisableTestFilter (ti_name ti)) :: stop + bool) = Inr (disabled suite (ti_name ti))"
    by (simp add: disabled_def)
  have m: "matches (MatchesTest (PositiveAndNegativeUnitTestFilter (fl_filter fl)) suite (ti_name ti)) =
      Inr (selects (fl_filter fl) (suite @ ''.'' @ ti_name ti))"
    using FilterMatchesTest_selects [of "fl_filter fl" suite "ti_name ti"] by (simp add: FilterMatchesTest_def matches_def)
  have o: "(if honor then bindr (ShouldRunTestOnShard t k r) (\<lambda>b. Inr (\<not> b)) else Inr False) = Inr (honor \<and> r mod t \<noteq> k)"
    using Cons.prems by (simp add: ShouldRunTestOnShard_def)
  have r: "honor \<longrightarrow> 0 < t" "0 \<le> (if ?e then r + 1 else r)" using Cons.prems by simp_all
  define s1 where "s1 = (if ?e \<and> (honor \<longrightarrow> r mod t = k) then s + 1 else s)"
  from Cons.IH [OF r, of s1] obtain tis' where
    rest: "filter_suite fl honor t k suite tis (if ?e then r + 1 else r) s1 =
      Inr (tis', list_ex id (picks honor t k (map (\<lambda>ti. eligible fl suite (ti_name ti)) tis) (if ?e then r + 1 else r)),
        (if ?e then r + 1 else r) + trues (map (\<lambda>ti. eligible fl suite (ti_name ti)) tis),
        s1 + trues (picks honor t k (map (\<lambda>ti. eligible fl suite (ti_name ti)) tis) (if ?e then r + 1 else r)))"
      "map ti_should_run tis' = picks honor t k (map (\<lambda>ti. eligible fl suite (ti_name ti)) tis) (if ?e then r + 1 else r)"
      "list_all2 untouched tis tis'" by blast
  have e: "((fl_also_run_disabled fl \<or> \<not> disabled suite (ti_name ti)) \<and> selects (fl_filter fl) (suite @ ''.'' @ ti_name ti)) = ?e"
    by (simp add: eligible_def)
  let ?ti = "ti\<lparr>ti_is_disabled := disabled suite (ti_name ti), ti_matches_filter := selects (fl_filter fl) (suite @ ''.'' @ ti_name ti),
                  ti_in_another_shard := honor \<and> r mod t \<noteq> k, ti_should_run := ?e \<and> (honor \<longrightarrow> r mod t = k)\<rparr>"
  have x: "(?e \<and> \<not> (honor \<and> r mod t \<noteq> k)) = (?e \<and> (honor \<longrightarrow> r mod t = k))" by blast
  have eqn: "filter_suite fl honor t k suite (ti # tis) r s =
      bindr (filter_suite fl honor t k suite tis (if ?e then r + 1 else r) s1) (\<lambda>(tis1, should, runnable1, selected1).
        Inr (?ti # tis1, (?e \<and> (honor \<longrightarrow> r mod t = k)) \<or> should, runnable1, selected1))"
    by (simp only: filter_suite.simps UnitTestFilter_accepted matches_def option.case bindr_simps d
        m [unfolded matches_def] o Let_def e x s1_def)
  have "untouched ti ?ti" by (simp add: untouched_def tame_test_def)
  with rest(3) have "list_all2 untouched (ti # tis) (?ti # tis')" by simp
  moreover have "map ti_should_run (?ti # tis') = picks honor t k (map (\<lambda>ti. eligible fl suite (ti_name ti)) (ti # tis)) r"
    using rest(2) by simp
  moreover have "filter_suite fl honor t k suite (ti # tis) r s =
      Inr (?ti # tis', list_ex id (picks honor t k (map (\<lambda>ti. eligible fl suite (ti_name ti)) (ti # tis)) r),
        r + trues (map (\<lambda>ti. eligible fl suite (ti_name ti)) (ti # tis)),
        s + trues (picks honor t k (map (\<lambda>ti. eligible fl suite (ti_name ti)) (ti # tis)) r))"
    unfolding eqn rest(1) by (simp add: s1_def)
  ultimately show ?case by blast
qed simp

lemma filter_suites_ok:
  assumes "honor \<longrightarrow> 0 < t" "0 \<le> r"
  shows "\<exists>tss'. filter_suites fl honor t k tss r s =
      Inr (tss', r + trues (eligibles fl tss), s + trues (picks honor t k (eligibles fl tss) r)) \<and>
      marked tss' = picks honor t k (eligibles fl tss) r \<and>
      list_all2 kept_suite tss tss'"
  using assms
proof (induction tss arbitrary: r s)
  case (Cons ts tss)
  let ?es = "map (\<lambda>ti. eligible fl (ts_name ts) (ti_name ti)) (ts_tests ts)"
  from filter_suite_ok [OF Cons.prems, of fl k "ts_name ts" "ts_tests ts" s] obtain tis' where
    1: "filter_suite fl honor t k (ts_name ts) (ts_tests ts) r s =
      Inr (tis', list_ex id (picks honor t k ?es r), r + trues ?es, s + trues (picks honor t k ?es r))"
      "map ti_should_run tis' = picks honor t k ?es r" "list_all2 untouched (ts_tests ts) tis'" by blast
  have "0 \<le> r + trues ?es" using Cons.prems(2) by simp
  from Cons.IH [OF Cons.prems(1) this, of "s + trues (picks honor t k ?es r)"] obtain tss' where
    2: "filter_suites fl honor t k tss (r + trues ?es) (s + trues (picks honor t k ?es r)) =
      Inr (tss', (r + trues ?es) + trues (eligibles fl tss),
        (s + trues (picks honor t k ?es r)) + trues (picks honor t k (eligibles fl tss) (r + trues ?es)))"
      "marked tss' = picks honor t k (eligibles fl tss) (r + trues ?es)"
      "list_all2 kept_suite tss tss'" by blast
  have e: "eligibles fl (ts # tss) = ?es @ eligibles fl tss" by (simp add: eligibles_def)
  let ?ts = "ts\<lparr>ts_tests := tis', ts_should_run := list_ex id (picks honor t k ?es r)\<rparr>"
  have "filter_suites fl honor t k (ts # tss) r s =
      Inr (?ts # tss', r + trues (eligibles fl (ts # tss)), s + trues (picks honor t k (eligibles fl (ts # tss)) r))"
    by (simp add: 1(1) 2(1) e picks_append)
  moreover have "marked (?ts # tss') = picks honor t k (eligibles fl (ts # tss)) r"
    using 1(2) 2(2) by (simp add: marked_def e picks_append)
  ultimately show ?case using 1(3) 2(3) by (intro exI [of _ "?ts # tss'"]) (simp add: kept_suite_def [of ts])
qed (simp add: eligibles_def marked_def)

subsection \<open>Shards\<close>

definition shard_env :: "(string \<Rightarrow> string option) \<Rightarrow> int \<Rightarrow> int \<Rightarrow> bool" where
  "shard_env env t k \<longleftrightarrow> Int32FromEnvOrDie env kTestTotalShards (- 1) = Inr t \<and>
     Int32FromEnvOrDie env kTestShardIndex (- 1) = Inr k \<and> 0 \<le> k \<and> k < t"

lemma FilterTests_all:
  "\<exists>tss'. FilterTests fl env False tss = Inr (tss', trues (eligibles fl tss)) \<and> marked tss' = eligibles fl tss"
  using filter_suites_ok [of False "- 1" 0 fl "- 1" tss 0] by (auto simp: FilterTests_def picks_all)

lemma FilterTests_shard:
  assumes "shard_env env t k"
  shows "\<exists>tss'. FilterTests fl env True tss = Inr (tss', trues (picks True t k (eligibles fl tss) 0)) \<and>
    marked tss' = picks True t k (eligibles fl tss) 0"
  using filter_suites_ok [of True t 0 fl k tss 0] assms by (auto simp: FilterTests_def shard_env_def)

lemma ShouldShard_True:
  assumes "ShouldShard env kTestTotalShards kTestShardIndex ind = Inr True"
  shows "\<exists>t k. shard_env env t k"
  using assms by (auto simp: ShouldShard_def shard_env_def bindr_eq_Inr split: if_splits)

subsection \<open>The whole run\<close>

text \<open>What the registration leaves: nothing has run, the tests are in order, and they can be numbered.\<close>

definition registered :: "'w unit_test \<Rightarrow> bool" where
  "registered u \<longleftrightarrow> ut_indices u = [0..<length (ut_suites u)] \<and>
     (\<forall>ts \<in> set (ut_suites u). ts_indices ts = [0..<length (ts_tests ts)] \<and> ts_ad_hoc ts = [] \<and>
        (\<forall>ti \<in> set (ts_tests ts). ti_result ti = []) \<and> length (ts_tests ts) \<le> 2147483648) \<and>
     - 1 \<le> ut_last_death u \<and> ut_last_death u < int (length (ut_suites u)) \<and> length (ut_suites u) \<le> 2147483648"

text \<open>The code of the tests, of the suites and of the environments can be handled.\<close>

definition tame_unit :: "bool \<Rightarrow> 'w unit_test \<Rightarrow> bool" where
  "tame_unit c u \<longleftrightarrow> (\<forall>ts \<in> set (ut_suites u). tame c (ts_setup ts) \<and> tame c (ts_teardown ts) \<and>
      (\<forall>ti \<in> set (ts_tests ts). tame_test c ti)) \<and>
     (\<forall>env \<in> set (ut_envs u). tame c (fst env) \<and> tame c (snd env))"

lemma registered_filtered:
  assumes "registered u" "tame_unit c u" "list_all2 kept_suite (ut_suites u) tss'" "1 \<le> s" "s \<le> kMaxRandomSeed"
  shows "unit_ok c (u\<lparr>ut_suites := tss', ut_random_seed := s\<rparr>)" "limits_ok (u\<lparr>ut_suites := tss', ut_random_seed := s\<rparr>)"
proof -
  have len: "length tss' = length (ut_suites u)" using assms(3) by (simp add: list_all2_lengthD)
  have each: "suite_fine c ts' \<and> length (ts_tests ts') \<le> 2147483648" if ts': "ts' \<in> set tss'" for ts'
  proof -
    from ts' obtain ts where "ts \<in> set (ut_suites u)" "kept_suite ts ts'"
      using assms(3) list_all2_nthD2 [OF assms(3)] len nth_mem by (fastforce simp: in_set_conv_nth)
    then have ts: "ts \<in> set (ut_suites u)" "list_all2 untouched (ts_tests ts) (ts_tests ts')" "ts_indices ts' = ts_indices ts"
      "ts_ad_hoc ts' = ts_ad_hoc ts" "ts_setup ts' = ts_setup ts" "ts_teardown ts' = ts_teardown ts"
      by (simp_all add: kept_suite_def)
    have l: "length (ts_tests ts') = length (ts_tests ts)" using ts(2) by (simp add: list_all2_lengthD)
    have "ti_result ti = [] \<and> tame_test c ti" if "ti \<in> set (ts_tests ts')" for ti
    proof -
      from that obtain j where j: "j < length (ts_tests ts')" "ti = ts_tests ts' ! j" by (auto simp: in_set_conv_nth)
      with list_all2_nthD2 [OF ts(2) j(1)] have "ti_result ti = ti_result (ts_tests ts ! j)"
        "tame_test c ti = tame_test c (ts_tests ts ! j)" by (simp_all add: untouched_def)
      then show ?thesis using assms(1,2) ts(1) j(1) l by (simp add: registered_def tame_unit_def)
    qed
    then have "\<not> sfail ts'" "\<forall>ti \<in> set (ts_tests ts'). \<not> Failed (ti_result ti)" "\<forall>ti \<in> set (ts_tests ts'). tame_test c ti"
      using ts(1,4) assms(1) by (auto simp: sfail_def bad_def registered_def)
    moreover have "ts_indices ts' = [0..<length (ts_tests ts')]" "length (ts_tests ts') \<le> 2147483648"
      using ts(1,3) assms(1) l by (auto simp: registered_def)
    moreover have "tame c (ts_setup ts')" "tame c (ts_teardown ts')"
      using ts(1,5,6) assms(2) by (auto simp: tame_unit_def)
    ultimately show ?thesis by (auto simp: suite_fine_def suite_ok_def)
  qed
  with assms(1,2) len show "unit_ok c (u\<lparr>ut_suites := tss', ut_random_seed := s\<rparr>)"
    by (auto simp: unit_ok_def registered_def tame_unit_def)
  from each assms(1,4,5) len show "limits_ok (u\<lparr>ut_suites := tss', ut_random_seed := s\<rparr>)"
    by (auto simp: limits_ok_def registered_def sizes_def)
qed

lemma FilterTests_fine:
  assumes "registered u" "tame_unit c u" "ShouldShard env kTestTotalShards kTestShardIndex ind = Inr shard"
    "1 \<le> s" "s \<le> kMaxRandomSeed"
  shows "\<exists>tss' n. FilterTests fl env shard (ut_suites u) = Inr (tss', n) \<and>
    unit_ok c (u\<lparr>ut_suites := tss', ut_random_seed := s\<rparr>) \<and> limits_ok (u\<lparr>ut_suites := tss', ut_random_seed := s\<rparr>)"
proof -
  have "\<exists>t k. (shard \<longrightarrow> 0 < t) \<and> (if shard then Int32FromEnvOrDie env kTestTotalShards (- 1) else Inr (- 1)) = Inr t \<and>
      (if shard then Int32FromEnvOrDie env kTestShardIndex (- 1) else Inr (- 1)) = Inr k"
    using ShouldShard_True [of env ind] assms(3) by (cases shard) (auto simp: shard_env_def)
  then obtain t k where tk: "shard \<longrightarrow> 0 < t" "(if shard then Int32FromEnvOrDie env kTestTotalShards (- 1) else Inr (- 1)) = Inr t"
      "(if shard then Int32FromEnvOrDie env kTestShardIndex (- 1) else Inr (- 1)) = Inr k" by blast
  from filter_suites_ok [OF tk(1) order_refl, of fl k "ut_suites u" 0] obtain tss' r n where
    f: "filter_suites fl shard t k (ut_suites u) 0 0 = Inr (tss', r, n)" "list_all2 kept_suite (ut_suites u) tss'" by blast
  then have "FilterTests fl env shard (ut_suites u) = Inr (tss', n)" using tk(2,3) by (simp add: FilterTests_def)
  with registered_filtered [OF assms(1,2) f(2) assms(4,5)] show ?thesis by blast
qed

text \<open>What \<open>RunAllTests\<close> gives when neither the help nor the list of the tests is asked for.\<close>

lemma RunAllTests_ok:
  assumes "registered u" "tame_unit (fl_catch_exceptions fl) u"
    "ShouldShard env kTestTotalShards kTestShardIndex ind = Inr shard"
    "0 \<le> fl_repeat fl" "fl_repeat fl \<le> INT_MAX" "\<not> fl_help fl" "\<not> fl_list_tests fl"
  shows "leads (\<lambda>(passed, u'). repeated u ((ind \<or> 0 < fl_repeat fl) \<and> Failed (ut_ad_hoc u)) (\<not> passed, u'))
    (fl_catch_exceptions fl) u (RunAllTests fl env time ind u)"
proof -
  let ?s = "GetRandomSeedFromFlag time (fl_random_seed fl)" and ?c = "fl_catch_exceptions fl"
  from FilterTests_fine [OF assms(1-3), of ?s fl] seed_range obtain tss n where
    f: "FilterTests fl env shard (ut_suites u) = Inr (tss, n)"
      "unit_ok ?c (u\<lparr>ut_suites := tss, ut_random_seed := ?s\<rparr>)" "limits_ok (u\<lparr>ut_suites := tss, ut_random_seed := ?s\<rparr>)" by blast
  let ?u1 = "say_event OnTestProgramStart (u\<lparr>ut_suites := tss, ut_random_seed := ?s\<rparr>)"
  have g: "ugrows ?c (u\<lparr>ut_suites := tss, ut_random_seed := ?s\<rparr>) ?u1" by (rule say_event_ok [OF f(2)]) simp
  have u1: "unit_ok ?c ?u1" "limits_ok ?u1" using ugrowsD(1) [OF g] limits_ugrows [OF g] f(3) by simp_all
  define rep where "rep = (if ind then 1 else fl_repeat fl)"
  have rep: "0 \<le> rep" "rep \<le> INT_MAX" "(0 < rep) = (ind \<or> 0 < fl_repeat fl)" using assms(4,5) by (auto simp: rep_def INT_MAX_def)
  define m where "m = run_repeat fl (0 < n) rep (fl_recreate_environments fl \<or> rep < 0) 0 False ?u1"
  have run: "RunAllTests fl env time ind u = bindr m (\<lambda>(failed, u2). Inr (\<not> failed, say_event OnTestProgramEnd u2))"
    unfolding RunAllTests_def Let_def rep_def [symmetric] m_def by (simp add: assms(3,6,7) f(1))
  have "leads (repeated ?u1 (False \<or> (0 < rep \<and> Failed (ut_ad_hoc ?u1)))) ?c ?u1 m"
    unfolding m_def by (rule run_repeat_ok [OF order_refl rep(1,2) u1])
  then consider (ret) failed u2 where "m = Inr (failed, u2)" "repeated ?u1 (0 < rep \<and> Failed (ut_ad_hoc ?u1)) (failed, u2)"
    | (throw) e u2 where "m = Inl (Thrown e u2)" "escapes ?c ?u1 e u2" by (auto simp: leads_def)
  then show ?thesis
  proof cases
    case ret
    from ret(2) obtain evs where evs: "ut_log u2 = ut_log ?u1 @ evs" "failed \<longleftrightarrow> (0 < rep \<and> Failed (ut_ad_hoc ?u1)) \<or> fails evs"
      by (auto simp: repeated_def)
    have "ut_log (say_event OnTestProgramEnd u2) = ut_log u @ ([OnTestProgramStart] @ evs @ [OnTestProgramEnd])"
      using evs(1) by (simp add: say_event_def)
    moreover have "failed \<longleftrightarrow> ((ind \<or> 0 < fl_repeat fl) \<and> Failed (ut_ad_hoc u)) \<or> fails ([OnTestProgramStart] @ evs @ [OnTestProgramEnd])"
      using evs(2) rep(3) by (auto simp: say_event_def)
    ultimately show ?thesis using ret(1) by (auto simp: run repeated_def)
  next
    case throw
    from escapes_trans [OF _ throw(2), of u "[OnTestProgramStart]"] have "escapes ?c u e u2" by (simp add: say_event_def)
    with throw(1) show ?thesis by (simp add: run leads_def)
  qed
qed

text \<open>The exit code: an exception that an environment has thrown is a failure that was reported, or is reported now.\<close>

lemma UnitTest_Run_ok:
  assumes "registered u" "tame_unit (fl_catch_exceptions fl) u"
    "ShouldShard env kTestTotalShards kTestShardIndex ind = Inr shard"
    "0 \<le> fl_repeat fl" "fl_repeat fl \<le> INT_MAX" "\<not> fl_help fl" "\<not> fl_list_tests fl"
  shows "\<exists>code u' evs. UnitTest_Run fl env time ind u = Inr (code, u') \<and> ut_log u' = ut_log u @ evs \<and>
    code = (if fails evs \<or> ((ind \<or> 0 < fl_repeat fl) \<and> Failed (ut_ad_hoc u)) then 1 else 0)"
proof -
  from RunAllTests_ok [OF assms, of time] consider
    (ret) passed u' where "RunAllTests fl env time ind u = Inr (passed, u')"
      "repeated u ((ind \<or> 0 < fl_repeat fl) \<and> Failed (ut_ad_hoc u)) (\<not> passed, u')"
  | (throw) e u' where "RunAllTests fl env time ind u = Inl (Thrown e u')" "escapes (fl_catch_exceptions fl) u e u'"
    unfolding leads_def by auto
  then show ?thesis
  proof cases
    case ret
    then obtain evs where "ut_log u' = ut_log u @ evs" "passed \<longleftrightarrow> \<not> (fails evs \<or> ((ind \<or> 0 < fl_repeat fl) \<and> Failed (ut_ad_hoc u)))"
      unfolding repeated_def by auto
    with ret(1) show ?thesis unfolding UnitTest_Run_def
      by (intro exI [of _ "if passed then 0 else 1"] exI [of _ u'] exI [of _ evs]) simp
  next
    case throw
    from throw(2) obtain evs where evs: "fl_catch_exceptions fl" "ut_log u' = ut_log u @ evs"
      "case e of AssertionException \<Rightarrow> fails evs | GoogleTestFailureException \<Rightarrow> False | OtherException \<Rightarrow> True"
      unfolding escapes_def by auto
    let ?qs = "if e = OtherException then [exception_part] else []"
    let ?u = "u'\<lparr>ut_ad_hoc := ut_ad_hoc u' @ ?qs, ut_log := ut_log u' @ map OnTestPartResult ?qs\<rparr>"
    have "UnitTest_Run fl env time ind u = Inr (1, ?u)"
      using throw(1) evs(1,3) by (cases e) (simp_all add: UnitTest_Run_def HandleExceptions_def)
    moreover have "fails (evs @ map OnTestPartResult ?qs)" using evs(3) by (cases e) simp_all
    ultimately show ?thesis using evs(2)
      by (intro exI [of _ "1 :: int"] exI [of _ ?u] exI [of _ "evs @ map OnTestPartResult ?qs"]) simp
  qed
qed

end
