(* ===== verification/Gt_FilePath.thy ===== *)
theory Gt_FilePath
  imports Gt_Strings
begin

section \<open>File paths (\<open>googletest/src/gtest-filepath.cc\<close>)\<close>

text \<open>
  A \<open>FilePath\<close> is its string, on a platform whose only separator is the slash.  Every path that is
  made from a string is normalized by the constructor.  The calls \<open>stat\<close> and \<open>mkdir\<close> of the
  operating system are parameters: \<open>stat s p\<close> says what is found at a path, and \<open>mkdir p s\<close> gives the
  result of the call and the new state of the file system.
\<close>

abbreviation kPathSeparator :: char where "kPathSeparator \<equiv> CHR ''/''"

definition kCurrentDirectoryString :: string where
  "kCurrentDirectoryString = ''./''"

definition IsPathSeparator :: "char \<Rightarrow> bool" where
  "IsPathSeparator c \<longleftrightarrow> c = kPathSeparator"

subsection \<open>Normalization\<close>

text \<open>\<open>out\<close> is what has been written so far: a separator is dropped behind a separator.\<close>

fun normalize_loop :: "string \<Rightarrow> string \<Rightarrow> string" where
  "normalize_loop out [] = out"
| "normalize_loop out (character # i) =
     (if \<not> IsPathSeparator character then normalize_loop (out @ [character]) i
      else if out = [] \<or> last out \<noteq> kPathSeparator then normalize_loop (out @ [kPathSeparator]) i
      else normalize_loop out i)"

definition Normalize :: "string \<Rightarrow> string" where
  "Normalize pathname = normalize_loop [] pathname"

definition FilePath :: "string \<Rightarrow> string" where
  "FilePath pathname = Normalize pathname"

subsection \<open>Parts of a path\<close>

definition IsDirectory :: "string \<Rightarrow> bool" where
  "IsDirectory p \<longleftrightarrow> p \<noteq> [] \<and> IsPathSeparator (last p)"

definition CalculateRootLength :: "string \<Rightarrow> nat" where
  "CalculateRootLength p = (if p \<noteq> [] \<and> IsPathSeparator (hd p) then 1 else 0)"

definition IsAbsolutePath :: "string \<Rightarrow> bool" where
  "IsAbsolutePath p \<longleftrightarrow> 0 < CalculateRootLength p"

definition IsRootDirectory :: "string \<Rightarrow> bool" where
  "IsRootDirectory p \<longleftrightarrow> (let root_length = CalculateRootLength p in
     0 < root_length \<and> root_length = length p \<and> IsPathSeparator (p ! (root_length - 1)))"

text \<open>The position of the last separator, as \<open>strrchr\<close> finds it in the C string.\<close>

definition FindLastPathSeparator :: "string \<Rightarrow> nat option" where
  "FindLastPathSeparator p =
     (let t = cstr p in
      if kPathSeparator \<in> set t then Some (length t - 1 - length (takeWhile (\<lambda>c. c \<noteq> kPathSeparator) (rev t))) else None)"

definition RemoveTrailingPathSeparator :: "string \<Rightarrow> string" where
  "RemoveTrailingPathSeparator p = (if IsDirectory p then FilePath (butlast p) else p)"

definition RemoveDirectoryName :: "string \<Rightarrow> string" where
  "RemoveDirectoryName p =
     (case FindLastPathSeparator p of None \<Rightarrow> p | Some k \<Rightarrow> FilePath (drop (Suc k) (cstr p)))"

definition RemoveFileName :: "string \<Rightarrow> string" where
  "RemoveFileName p =
     (case FindLastPathSeparator p of None \<Rightarrow> FilePath kCurrentDirectoryString | Some k \<Rightarrow> FilePath (take (Suc k) (cstr p)))"

definition RemoveExtension :: "string \<Rightarrow> string \<Rightarrow> string" where
  "RemoveExtension extension p =
     (let dot_extension = ''.'' @ extension in
      if EndsWithCaseInsensitive p dot_extension
      then FilePath (take (length p - length dot_extension) p) else p)"

definition ConcatPaths :: "string \<Rightarrow> string \<Rightarrow> string" where
  "ConcatPaths directory relative_path =
     (if directory = [] then relative_path
      else FilePath (RemoveTrailingPathSeparator directory @ [kPathSeparator] @ relative_path))"

definition MakeFileName :: "string \<Rightarrow> string \<Rightarrow> int \<Rightarrow> string \<Rightarrow> string" where
  "MakeFileName directory base_name number extension =
     ConcatPaths directory
       (FilePath (if number = 0 then base_name @ ''.'' @ extension
                  else base_name @ ''_'' @ dec_int number @ ''.'' @ extension))"

subsection \<open>The file system\<close>

datatype stat_kind = Stat_dir | Stat_other

definition FileOrDirectoryExists :: "('fs \<Rightarrow> string \<Rightarrow> stat_kind option) \<Rightarrow> 'fs \<Rightarrow> string \<Rightarrow> bool" where
  "FileOrDirectoryExists stat s p \<longleftrightarrow> stat s p \<noteq> None"

definition DirectoryExists :: "('fs \<Rightarrow> string \<Rightarrow> stat_kind option) \<Rightarrow> 'fs \<Rightarrow> string \<Rightarrow> bool" where
  "DirectoryExists stat s p \<longleftrightarrow> stat s p = Some Stat_dir"

text \<open>The loop over the numbers ends with an overflow when no number is free.\<close>

function unique_loop ::
  "('fs \<Rightarrow> string \<Rightarrow> stat_kind option) \<Rightarrow> 'fs \<Rightarrow> string \<Rightarrow> string \<Rightarrow> string \<Rightarrow> int \<Rightarrow> stop + string" where
  "unique_loop stat s directory base_name extension number =
     (let full_pathname = MakeFileName directory base_name number extension in
      bindr (c_inc number) (\<lambda>next.
      if FileOrDirectoryExists stat s full_pathname
      then unique_loop stat s directory base_name extension next
      else Inr full_pathname))"
  by pat_completeness auto
termination
  by (relation "measure (\<lambda>(stat, s, d, b, e, n). nat (INT_MAX - n))") (auto simp: c_inc_def split: if_splits)

declare unique_loop.simps [simp del]

definition GenerateUniqueFileName ::
  "('fs \<Rightarrow> string \<Rightarrow> stat_kind option) \<Rightarrow> 'fs \<Rightarrow> string \<Rightarrow> string \<Rightarrow> string \<Rightarrow> stop + string" where
  "GenerateUniqueFileName stat s directory base_name extension =
     unique_loop stat s directory base_name extension 0"

definition CreateFolder ::
  "('fs \<Rightarrow> string \<Rightarrow> stat_kind option) \<Rightarrow> (string \<Rightarrow> 'fs \<Rightarrow> int \<times> 'fs) \<Rightarrow> string \<Rightarrow> 'fs \<Rightarrow> bool \<times> 'fs" where
  "CreateFolder stat mkdir p s =
     (case mkdir p s of (result, s1) \<Rightarrow>
        if result = - 1 then (DirectoryExists stat s1 p, s1) else (True, s1))"

text \<open>The recursion over the parents has no bound of its own.\<close>

partial_function (option) CreateDirectoriesRecursively ::
  "('fs \<Rightarrow> string \<Rightarrow> stat_kind option) \<Rightarrow> (string \<Rightarrow> 'fs \<Rightarrow> int \<times> 'fs) \<Rightarrow> string \<Rightarrow> 'fs \<Rightarrow> (bool \<times> 'fs) option" where
  "CreateDirectoriesRecursively stat mkdir p s =
     (if \<not> IsDirectory p then Some (False, s)
      else if length p = 0 \<or> DirectoryExists stat s p then Some (True, s)
      else Option.bind
        (CreateDirectoriesRecursively stat mkdir (RemoveFileName (RemoveTrailingPathSeparator p)) s) (\<lambda>(ok, s1).
        Some (if ok then CreateFolder stat mkdir p s1 else (False, s1))))"

subsection \<open>Normal paths\<close>

text \<open>No two separators in a row.\<close>

fun normal :: "string \<Rightarrow> bool" where
  "normal (c # d # cs) \<longleftrightarrow> \<not> (c = kPathSeparator \<and> d = kPathSeparator) \<and> normal (d # cs)"
| "normal cs \<longleftrightarrow> True"

lemma normal_append: "normal (xs @ ys) \<longleftrightarrow> normal xs \<and> normal ys \<and>
    \<not> (xs \<noteq> [] \<and> ys \<noteq> [] \<and> last xs = kPathSeparator \<and> hd ys = kPathSeparator)"
proof (induction xs)
  case (Cons c cs)
  then show ?case by (cases cs; cases ys) auto
qed simp

lemma normalize_loop_normal: "normal out \<Longrightarrow> normal (normalize_loop out xs)"
  by (induction out xs rule: normalize_loop.induct) (auto simp: IsPathSeparator_def normal_append)

lemma normalize_loop_id: "normal (out @ xs) \<Longrightarrow> normalize_loop out xs = out @ xs"
proof (induction out xs rule: normalize_loop.induct)
  case (2 out c i)
  then have "normal ((out @ [c]) @ i)" by simp
  moreover have "\<not> (out \<noteq> [] \<and> last out = kPathSeparator \<and> c = kPathSeparator)"
    using 2(4) by (auto simp: normal_append)
  ultimately show ?case using 2 by (auto simp: IsPathSeparator_def)
qed simp

lemma FilePath_normal: "normal (FilePath p)"
  by (simp add: FilePath_def Normalize_def normalize_loop_normal)

lemma FilePath_id: "normal p \<Longrightarrow> FilePath p = p"
  using normalize_loop_id [of "[]" p] by (simp add: FilePath_def Normalize_def)

lemma normal_take: "normal p \<Longrightarrow> normal (take k p)" and normal_drop: "normal p \<Longrightarrow> normal (drop k p)"
  using normal_append [of "take k p" "drop k p"] by simp_all

lemma normal_butlast: "normal p \<Longrightarrow> normal (butlast p)"
  by (simp add: butlast_conv_take normal_take)

text \<open>The last separator.\<close>

lemma last_separator:
  assumes "NUL \<notin> set p" "FindLastPathSeparator p = Some k"
  shows "k < length p" "p ! k = kPathSeparator" "kPathSeparator \<notin> set (drop (Suc k) p)" "cstr p = p"
proof -
  let ?q = "takeWhile (\<lambda>c. c \<noteq> kPathSeparator) (rev p)"
  show c: "cstr p = p" using assms(1) by (rule cstr_no_NUL)
  from assms(2) have in_p: "kPathSeparator \<in> set p" and k: "k = length p - 1 - length ?q"
    by (auto simp: FindLastPathSeparator_def Let_def c split: if_splits)
  have d: "dropWhile (\<lambda>c. c \<noteq> kPathSeparator) (rev p) \<noteq> []" using in_p by (simp add: dropWhile_eq_Nil_conv)
  then obtain t where t: "dropWhile (\<lambda>c. c \<noteq> kPathSeparator) (rev p) = kPathSeparator # t"
    using hd_dropWhile [OF d] by (metis list.collapse)
  then have "rev p = ?q @ kPathSeparator # t" by (metis takeWhile_dropWhile_id)
  then have p: "p = rev t @ kPathSeparator # rev ?q" by (metis rev_append rev_rev_ident rev.simps(2) append_assoc append_Cons append_Nil)
  then have kt: "k = length t" using k by (metis add_diff_cancel_right' add_Suc_right diff_Suc_1 length_Cons length_append length_rev)
  show "k < length p" "p ! k = kPathSeparator" by (subst p, simp add: kt nth_append)+
  have "drop (Suc k) p = rev ?q" by (subst p) (simp add: kt)
  then show "kPathSeparator \<notin> set (drop (Suc k) p)" by (auto dest: set_takeWhileD)
qed

lemma no_separator: "NUL \<notin> set p \<Longrightarrow> FindLastPathSeparator p = None \<longleftrightarrow> kPathSeparator \<notin> set p"
  by (simp add: FindLastPathSeparator_def Let_def cstr_no_NUL)

lemma RemoveFileName_parent:
  assumes "NUL \<notin> set p" "normal p" "kPathSeparator \<in> set p"
  shows "RemoveFileName p @ RemoveDirectoryName p = p" "IsDirectory (RemoveFileName p)"
    "kPathSeparator \<notin> set (RemoveDirectoryName p)" "length (RemoveFileName p) \<le> length p"
proof -
  from assms(1,3) no_separator obtain k where k: "FindLastPathSeparator p = Some k" by fastforce
  note l = last_separator [OF assms(1) k]
  have eq: "RemoveFileName p = take (Suc k) p" "RemoveDirectoryName p = drop (Suc k) p"
    using assms(2) by (simp_all add: RemoveFileName_def RemoveDirectoryName_def k l(4) FilePath_id normal_take normal_drop)
  show "RemoveFileName p @ RemoveDirectoryName p = p" "kPathSeparator \<notin> set (RemoveDirectoryName p)"
    "length (RemoveFileName p) \<le> length p" using l(3) by (simp_all add: eq)
  show "IsDirectory (RemoveFileName p)"
    using l(1,2) by (auto simp: eq IsDirectory_def IsPathSeparator_def take_Suc_conv_app_nth)
qed

lemma normal_current [simp]: "normal kCurrentDirectoryString" "IsDirectory kCurrentDirectoryString"
  by (simp_all add: kCurrentDirectoryString_def IsDirectory_def IsPathSeparator_def)

lemma RemoveFileName_alone:
  "NUL \<notin> set p \<Longrightarrow> kPathSeparator \<notin> set p \<Longrightarrow> RemoveFileName p = kCurrentDirectoryString \<and> RemoveDirectoryName p = p"
  using no_separator [of p] by (simp add: RemoveFileName_def RemoveDirectoryName_def FilePath_id)

lemma normal_RemoveTrailing: "normal p \<Longrightarrow> RemoveTrailingPathSeparator p = (if IsDirectory p then butlast p else p)"
  by (simp add: RemoveTrailingPathSeparator_def FilePath_id normal_butlast)

text \<open>A path is put together again from its directory and its file.\<close>

lemma ConcatPaths_split:
  assumes "NUL \<notin> set p" "normal p" "kPathSeparator \<in> set (tl p)"
  shows "ConcatPaths (RemoveFileName p) (RemoveDirectoryName p) = p"
proof -
  have "kPathSeparator \<in> set p" using assms(3) by (cases p) auto
  note r = RemoveFileName_parent [OF assms(1,2) this]
  have d: "normal (RemoveFileName p)" using assms(2) r(1) by (metis normal_append)
  obtain q where q: "RemoveFileName p = q @ [kPathSeparator]"
    using r(2) unfolding IsDirectory_def IsPathSeparator_def by (metis append_butlast_last_id)
  have "ConcatPaths (RemoveFileName p) (RemoveDirectoryName p) = FilePath (q @ [kPathSeparator] @ RemoveDirectoryName p)"
    using d r(2) by (simp add: ConcatPaths_def normal_RemoveTrailing q)
  also have "\<dots> = p" using r(1) assms(2) by (simp add: q FilePath_id)
  finally show ?thesis .
qed

subsection \<open>Creating directories\<close>

text \<open>What is relied on: \<open>mkdir\<close> leaves the directories that exist, and when it succeeds its path is one.\<close>

definition fs_laws :: "('fs \<Rightarrow> string \<Rightarrow> stat_kind option) \<Rightarrow> (string \<Rightarrow> 'fs \<Rightarrow> int \<times> 'fs) \<Rightarrow> bool" where
  "fs_laws stat mkdir \<longleftrightarrow> (\<forall>p s result s1. mkdir p s = (result, s1) \<longrightarrow>
     (result \<noteq> - 1 \<longrightarrow> DirectoryExists stat s1 p) \<and>
     (\<forall>q. DirectoryExists stat s q \<longrightarrow> DirectoryExists stat s1 q))"

lemma CreateFolder_ok:
  assumes "fs_laws stat mkdir" "CreateFolder stat mkdir p s = (ok, s1)"
  shows "ok \<longleftrightarrow> DirectoryExists stat s1 p" "DirectoryExists stat s q \<Longrightarrow> DirectoryExists stat s1 q"
  using assms by (auto simp: CreateFolder_def fs_laws_def split: prod.splits if_splits)

lemma CreateDirectories_current:
  "DirectoryExists stat s kCurrentDirectoryString \<Longrightarrow>
     CreateDirectoriesRecursively stat mkdir kCurrentDirectoryString s = Some (True, s)"
  by (subst CreateDirectoriesRecursively.simps) simp

text \<open>Without the current directory the recursion does not end.\<close>

lemma CreateDirectories_diverges:
  assumes "\<not> DirectoryExists stat s kCurrentDirectoryString"
  shows "CreateDirectoriesRecursively stat mkdir kCurrentDirectoryString s = None"
proof -
  have parent: "RemoveFileName (RemoveTrailingPathSeparator kCurrentDirectoryString) = kCurrentDirectoryString"
    by (simp add: normal_RemoveTrailing) (simp add: kCurrentDirectoryString_def RemoveFileName_alone)
  have "\<not> (p = kCurrentDirectoryString \<and> t = s \<and> st = stat)"
    if "CreateDirectoriesRecursively st mk p t = Some y" for st mk p t y
    using that
  proof (induction rule: CreateDirectoriesRecursively.raw_induct [rotated, consumes 1, case_names step])
    case (step rec st mk p t y)
    show ?case
    proof
      assume p: "p = kCurrentDirectoryString \<and> t = s \<and> st = stat"
      with step(2) assms obtain r where "rec st mk p t = Some r"
        by (auto simp: parent bind_eq_Some_conv split: if_splits) (simp add: kCurrentDirectoryString_def)
      with step(1) p show False by blast
    qed
  qed
  from this [of stat mkdir kCurrentDirectoryString s] show ?thesis
    by (cases "CreateDirectoriesRecursively stat mkdir kCurrentDirectoryString s") blast+
qed

text \<open>
  The recursion walks up from \<open>p\<close> over its directory prefixes and then to \<open>./\<close> again and again.
  \<open>nowhere stat s p\<close>: none of these exists.
\<close>

definition dir_prefix :: "string \<Rightarrow> string \<Rightarrow> bool" where
  "dir_prefix q p \<longleftrightarrow> IsDirectory q \<and> (\<exists>r. p = q @ r)"

definition nowhere :: "('fs \<Rightarrow> string \<Rightarrow> stat_kind option) \<Rightarrow> 'fs \<Rightarrow> string \<Rightarrow> bool" where
  "nowhere stat s p \<longleftrightarrow> \<not> DirectoryExists stat s kCurrentDirectoryString \<and>
     (\<forall>q. dir_prefix q p \<longrightarrow> \<not> DirectoryExists stat s q)"

lemma dir_prefix_up:
  assumes "kPathSeparator \<notin> set d" "u = [] \<or> IsDirectory u"
  shows "dir_prefix q (u @ d @ [kPathSeparator]) \<longleftrightarrow> q = u @ d @ [kPathSeparator] \<or> dir_prefix q u"
proof
  assume "dir_prefix q (u @ d @ [kPathSeparator])"
  then obtain r where q: "IsDirectory q" "u @ d @ [kPathSeparator] = q @ r" by (auto simp: dir_prefix_def)
  then have last: "q \<noteq> []" "last q = kPathSeparator" by (auto simp: IsDirectory_def IsPathSeparator_def)
  show "q = u @ d @ [kPathSeparator] \<or> dir_prefix q u"
  proof (cases r rule: rev_cases)
    case Nil
    then show ?thesis using q(2) by simp
  next
    case (snoc r' c)
    then have e: "u @ d = q @ r'" using q(2) by simp
    have "\<exists>t. u = q @ t"
    proof (rule ccontr)
      assume n: "\<nexists>t. u = q @ t"
      from e obtain v where "u @ v = q \<and> d = v @ r' \<or> u = q @ v" by (auto simp: append_eq_append_conv2)
      with n have v: "q = u @ v" "d = v @ r'" by auto
      then have "v \<noteq> []" using n by auto
      then have "kPathSeparator \<in> set d" using v last(2) by (auto dest: last_in_set)
      then show False using assms(1) by simp
    qed
    then show ?thesis using q(1) by (simp add: dir_prefix_def)
  qed
next
  assume "q = u @ d @ [kPathSeparator] \<or> dir_prefix q u"
  then show "dir_prefix q (u @ d @ [kPathSeparator])"
    by (auto simp: dir_prefix_def IsDirectory_def IsPathSeparator_def)
qed

lemma CreateDirectories_ok:
  "fs_laws stat mkdir \<Longrightarrow> NUL \<notin> set p \<Longrightarrow> normal p \<Longrightarrow>
     if IsDirectory p \<and> nowhere stat s p then CreateDirectoriesRecursively stat mkdir p s = None
     else \<exists>ok s1. CreateDirectoriesRecursively stat mkdir p s = Some (ok, s1) \<and>
       (ok \<longrightarrow> DirectoryExists stat s1 p) \<and> (\<forall>q. DirectoryExists stat s q \<longrightarrow> DirectoryExists stat s1 q)"
proof (induction "length p" arbitrary: p rule: less_induct)
  case less
  let ?q = "RemoveTrailingPathSeparator p"
  let ?parent = "RemoveFileName ?q"
  show ?case
  proof (cases "IsDirectory p \<and> \<not> DirectoryExists stat s p")
    case False
    then have "\<not> (IsDirectory p \<and> nowhere stat s p)" by (auto simp: nowhere_def dir_prefix_def)
    then show ?thesis using False
      by (subst (1 2) CreateDirectoriesRecursively.simps) (auto simp: IsDirectory_def)
  next
    case True
    then have q: "?q = butlast p" "p \<noteq> []" using less.prems(3) by (auto simp: normal_RemoveTrailing IsDirectory_def)
    have p: "p = butlast p @ [kPathSeparator]"
      using True q(2) by (metis IsDirectory_def IsPathSeparator_def append_butlast_last_id)
    have ok: "NUL \<notin> set ?q" "normal ?q" using less.prems(2,3) by (auto simp: q normal_butlast dest: in_set_butlastD)
    have up: "if nowhere stat s p then CreateDirectoriesRecursively stat mkdir ?parent s = None
      else \<exists>ok s1. CreateDirectoriesRecursively stat mkdir ?parent s = Some (ok, s1) \<and>
        (\<forall>q. DirectoryExists stat s q \<longrightarrow> DirectoryExists stat s1 q)"
    proof (cases "kPathSeparator \<in> set ?q")
      case sep: True
      note r = RemoveFileName_parent [OF ok sep]
      have sub: "set ?parent \<subseteq> set ?q" using r(1) by (metis set_append Un_upper1)
      have "length ?parent < length p" using r(4) q by (simp add: q(1)) (metis One_nat_def Suc_pred le_imp_less_Suc length_greater_0_conv)
      moreover have "NUL \<notin> set ?parent" using ok(1) sub by blast
      moreover have "normal ?parent" using ok(2) r(1) by (metis normal_append)
      moreover have "p = ?parent @ RemoveDirectoryName ?q @ [kPathSeparator]" using p r(1) q(1) by (metis append.assoc)
      then have "dir_prefix q p \<longleftrightarrow> q = p \<or> dir_prefix q ?parent" for q
        using dir_prefix_up [OF r(3), of ?parent q] r(2) by simp
      then have "nowhere stat s p \<longleftrightarrow> nowhere stat s ?parent" using True by (auto simp: nowhere_def)
      ultimately show ?thesis using less.hyps [of ?parent] less.prems(1) r(2) by (auto split: if_splits)
    next
      case False
      with ok(1) have c: "?parent = kCurrentDirectoryString" using RemoveFileName_alone by blast
      have "dir_prefix q p \<longleftrightarrow> q = p" for q
        using dir_prefix_up [of "butlast p" "[]" q] False q(1) p
        by (auto simp: dir_prefix_def IsDirectory_def)
      then have "nowhere stat s p \<longleftrightarrow> \<not> DirectoryExists stat s kCurrentDirectoryString"
        using True by (auto simp: nowhere_def)
      then show ?thesis unfolding c
        using CreateDirectories_current [of stat s mkdir] CreateDirectories_diverges [of stat s mkdir] by auto
    qed
    have run: "CreateDirectoriesRecursively stat mkdir p s =
        Option.bind (CreateDirectoriesRecursively stat mkdir ?parent s) (\<lambda>(ok, s1).
          Some (if ok then CreateFolder stat mkdir p s1 else (False, s1)))"
      using True q(2) by (subst CreateDirectoriesRecursively.simps) simp
    show ?thesis
    proof (cases "nowhere stat s p")
      case lost: True
      with up run True show ?thesis by simp
    next
      case False
      with up obtain ok s1 where s1: "CreateDirectoriesRecursively stat mkdir ?parent s = Some (ok, s1)"
        "\<forall>q. DirectoryExists stat s q \<longrightarrow> DirectoryExists stat s1 q" by auto
      obtain ok2 s2 where "CreateFolder stat mkdir p s1 = (ok2, s2)" by (cases "CreateFolder stat mkdir p s1")
      then show ?thesis using False run s1 CreateFolder_ok [OF less.prems(1)] by (cases ok) auto
    qed
  qed
qed

subsection \<open>Unique names\<close>

lemma unique_loop_ok:
  "0 \<le> number \<Longrightarrow> number \<le> INT_MAX \<Longrightarrow>
   (case unique_loop stat s d b e number of
      Inr f \<Rightarrow> \<not> FileOrDirectoryExists stat s f \<and> (\<exists>n. number \<le> n \<and> n < INT_MAX \<and> f = MakeFileName d b n e \<and>
        (\<forall>k. number \<le> k \<and> k < n \<longrightarrow> FileOrDirectoryExists stat s (MakeFileName d b k e)))
    | Inl er \<Rightarrow> er = Int_overflow \<and> (\<forall>k. number \<le> k \<and> k < INT_MAX \<longrightarrow> FileOrDirectoryExists stat s (MakeFileName d b k e)))"
proof (induction stat s d b e number rule: unique_loop.induct)
  case (1 stat s d b e number)
  consider "number = INT_MAX" | "number < INT_MAX" "FileOrDirectoryExists stat s (MakeFileName d b number e)"
    | "number < INT_MAX" "\<not> FileOrDirectoryExists stat s (MakeFileName d b number e)" using "1.prems" by fastforce
  then show ?case
  proof cases
    case 1
    then show ?thesis by (subst unique_loop.simps) (auto simp: c_inc_def)
  next
    case 2
    have split: "number \<le> k \<and> k < n \<longleftrightarrow> k = number \<or> number + 1 \<le> k \<and> k < n" if "number < n" for k n
      using that by auto
    have eq: "unique_loop stat s d b e number = unique_loop stat s d b e (number + 1)"
      using 2 by (subst unique_loop.simps) (simp add: Let_def)
    have "case unique_loop stat s d b e (number + 1) of
      Inr f \<Rightarrow> \<not> FileOrDirectoryExists stat s f \<and> (\<exists>n. number + 1 \<le> n \<and> n < INT_MAX \<and> f = MakeFileName d b n e \<and>
        (\<forall>k. number + 1 \<le> k \<and> k < n \<longrightarrow> FileOrDirectoryExists stat s (MakeFileName d b k e)))
    | Inl er \<Rightarrow> er = Int_overflow \<and> (\<forall>k. number + 1 \<le> k \<and> k < INT_MAX \<longrightarrow> FileOrDirectoryExists stat s (MakeFileName d b k e))"
      using 2 "1.prems" by (intro "1.IH" [OF refl _ 2(2)]) auto
    then show ?thesis unfolding eq using 2 split
      by (auto split: sum.splits) (metis add1_zle_eq order_less_le zle_add1_eq_le)+
  next
    case 3
    then show ?thesis by (subst unique_loop.simps) (auto simp: Let_def)
  qed
qed

end
