(* ===== verification/Gm_Matching_Max.thy ===== *)
theory Gm_Matching_Max
  imports Gt_Base
begin

section \<open>Maximum bipartite matching (\<open>googlemock/src/gmock-matchers.cc\<close>)\<close>

text \<open>
  \<open>UnorderedElementsAre\<close> decides whether the elements of a container can be assigned to the matchers.
  The matrix of the pairs that match is flattened in a vector; the search keeps for every element
  the matcher it is assigned to and for every matcher its element, where \<open>None\<close> is the
  value \<open>kUnused\<close>.
\<close>

subsection \<open>The matrix\<close>

record match_matrix =
  num_elements :: nat
  num_matchers :: nat
  matched :: "bool list"

definition MatchMatrix :: "nat \<Rightarrow> nat \<Rightarrow> match_matrix" where
  "MatchMatrix n m = \<lparr>num_elements = n, num_matchers = m, matched = replicate (n * m) False\<rparr>"

definition SpaceIndex :: "match_matrix \<Rightarrow> nat \<Rightarrow> nat \<Rightarrow> nat" where
  "SpaceIndex g ilhs irhs = ilhs * num_matchers g + irhs"

definition HasEdge :: "match_matrix \<Rightarrow> nat \<Rightarrow> nat \<Rightarrow> stop + bool" where
  "HasEdge g ilhs irhs = vat (matched g) (SpaceIndex g ilhs irhs)"

definition SetEdge :: "match_matrix \<Rightarrow> nat \<Rightarrow> nat \<Rightarrow> bool \<Rightarrow> stop + match_matrix" where
  "SetEdge g ilhs irhs b =
     bindr (vput (matched g) (SpaceIndex g ilhs irhs) b) (\<lambda>bs. Inr (g\<lparr>matched := bs\<rparr>))"

subsection \<open>The search\<close>

record bip_state =
  bp_left :: "nat option list"
  bp_right :: "nat option list"
  seen :: "bool list"

definition unseen :: "bip_state \<Rightarrow> nat" where
  "unseen s = length (filter Not (seen s))"

definition mark :: "nat \<Rightarrow> bip_state \<Rightarrow> bip_state" where
  "mark irhs s = s\<lparr>seen := (seen s)[irhs := True]\<rparr>"

definition link :: "nat \<Rightarrow> nat \<Rightarrow> bip_state \<Rightarrow> stop + bip_state" where
  "link ilhs irhs s =
     bindr (vput (bp_left s) ilhs (Some irhs)) (\<lambda>l.
     bindr (vput (bp_right s) irhs (Some ilhs)) (\<lambda>r.
     Inr (s\<lparr>bp_left := l, bp_right := r\<rparr>)))"

lemma link_fields: "link i r s = Inr s' \<Longrightarrow> i < length (bp_left s) \<and> r < length (bp_right s) \<and>
    bp_left s' = (bp_left s)[i := Some r] \<and> bp_right s' = (bp_right s)[r := Some i] \<and> seen s' = seen s"
  by (auto simp: link_def bindr_eq_Inr vput_eq_Inr)

lemma mark_fields [simp]: "bp_left (mark r s) = bp_left s" "bp_right (mark r s) = bp_right s"
    "seen (mark r s) = (seen s)[r := True]"
  by (simp_all add: mark_def)

text \<open>\<open>TryAugment\<close> from matcher \<open>irhs\<close> on: the loop over the matchers with the search from the element
  that a matcher is assigned to.\<close>

function TryAugment :: "match_matrix \<Rightarrow> nat \<Rightarrow> nat \<Rightarrow> bip_state \<Rightarrow> stop + (bool \<times> bip_state)" where
  "TryAugment g ilhs irhs s =
     (if num_matchers g \<le> irhs then Inr (False, s)
      else bindr (vat (seen s) irhs) (\<lambda>m.
        if m then TryAugment g ilhs (Suc irhs) s
        else bindr (HasEdge g ilhs irhs) (\<lambda>e.
          if \<not> e then TryAugment g ilhs (Suc irhs) s
          else bindr (vat (bp_right s) irhs) (\<lambda>q.
            bindr (case q of None \<Rightarrow> Inr (True, mark irhs s)
                   | Some l \<Rightarrow> TryAugment g l 0 (mark irhs s)) (\<lambda>(found, s1).
              if found then bindr (link ilhs irhs s1) (\<lambda>s2. Inr (True, s2))
              else TryAugment g ilhs (Suc irhs) s1)))))"
  by pat_completeness auto

lemma TryAugment_unseen:
  assumes "TryAugment_dom (g, i, r, s)" "TryAugment g i r s = Inr (b, s')"
  shows "unseen s' \<le> unseen s"
  using assms
proof (induction arbitrary: b s' rule: TryAugment.pinduct)
  case (1 g i r s)
  have m: "unseen (mark r s) \<le> unseen s" by (simp add: unseen_def mark_def count_update_le)
  show ?case
  proof (cases "num_matchers g \<le> r \<or> seen s ! r \<or> HasEdge g i r = Inr False \<or> r \<ge> length (seen s)")
    case True
    then show ?thesis
      using 1 by (auto simp: TryAugment.psimps bindr_eq_Inr vat_eq_Inr split: if_splits)
  next
    case False
    then have r: "r < num_matchers g" "r < length (seen s)" "\<not> seen s ! r" by auto
    from 1(6) r False obtain q found s1 where q: "HasEdge g i r = Inr True" "r < length (bp_right s)" "q = bp_right s ! r"
      and f: "(case q of None \<Rightarrow> Inr (True, mark r s) | Some l \<Rightarrow> TryAugment g l 0 (mark r s)) = Inr (found, s1)"
      and t: "(if found then bindr (link i r s1) (\<lambda>s2. Inr (True, s2)) else TryAugment g i (Suc r) s1) = Inr (b, s')"
      by (auto simp: TryAugment.psimps [OF 1(1)] bindr_eq_Inr vat_eq_Inr)
    have v: "vat (seen s) r = Inr False" "vat (bp_right s) r = Inr q" using r q by (simp_all add: vat_def)
    have s1: "unseen s1 \<le> unseen s"
    proof (cases q)
      case None
      with f m show ?thesis by simp
    next
      case (Some l)
      with f have "TryAugment g l 0 (mark r s) = Inr (found, s1)" by simp
      from 1(4) [OF _ v(1) _ q(1) _ v(2) Some this] r m show ?thesis by force
    qed
    show ?thesis
    proof (cases found)
      case True
      with t obtain s2 where "link i r s1 = Inr s2" "s' = s2" by (auto simp: bindr_eq_Inr)
      with link_fields s1 show ?thesis by (fastforce simp: unseen_def)
    next
      case False
      with t have "TryAugment g i (Suc r) s1 = Inr (b, s')" by simp
      from 1(5) [OF _ v(1) _ q(1) _ v(2) f refl _ this] r False s1 show ?thesis by force
    qed
  qed
qed

termination TryAugment
proof (relation "measures [\<lambda>(g, i, r, s). unseen s, \<lambda>(g, i, r, s). num_matchers g - r]", goal_cases)
  case (4 g ilhs irhs s x xa xb y)
  then show ?case by (auto simp: unseen_def mark_def vat_eq_Inr intro: count_update_less)
next
  case (5 g i r s m e q p found s1)
  have "unseen (mark r s) < unseen s"
    using 5 by (auto simp: unseen_def mark_def vat_eq_Inr intro: count_update_less)
  moreover have "unseen s1 \<le> unseen (mark r s)"
    using 5 by (auto dest: TryAugment_unseen split: option.splits)
  ultimately show ?case by simp
qed auto

declare TryAugment.simps [simp del]

subsection \<open>The whole computation\<close>

text \<open>\<open>Compute\<close>: one search from every element, with the vector of the marks reset, and then the pairs.\<close>

function augment_all :: "match_matrix \<Rightarrow> nat \<Rightarrow> bip_state \<Rightarrow> stop + bip_state" where
  "augment_all g ilhs s =
     (if num_elements g \<le> ilhs then Inr s
      else bindr (vat (bp_left s) ilhs) (\<lambda>q.
        if q \<noteq> None then Inl Assert_fail
        else bindr (TryAugment g ilhs 0 (s\<lparr>seen := replicate (num_matchers g) False\<rparr>)) (\<lambda>(found, s1).
          augment_all g (Suc ilhs) s1)))"
  by pat_completeness auto
termination
  by (relation "measure (\<lambda>(g, ilhs, s). num_elements g - ilhs)") auto

declare augment_all.simps [simp del]

fun linked_pairs :: "nat \<Rightarrow> nat option list \<Rightarrow> (nat \<times> nat) list" where
  "linked_pairs ilhs [] = []"
| "linked_pairs ilhs (None # ls) = linked_pairs (Suc ilhs) ls"
| "linked_pairs ilhs (Some irhs # ls) = (ilhs, irhs) # linked_pairs (Suc ilhs) ls"

definition MaxBipartiteMatchState :: "match_matrix \<Rightarrow> bip_state" where
  "MaxBipartiteMatchState g =
     \<lparr>bp_left = replicate (num_elements g) None, bp_right = replicate (num_matchers g) None, seen = []\<rparr>"

definition FindMaxBipartiteMatching :: "match_matrix \<Rightarrow> stop + (nat \<times> nat) list" where
  "FindMaxBipartiteMatching g =
     bindr (augment_all g 0 (MaxBipartiteMatchState g)) (\<lambda>s. Inr (linked_pairs 0 (bp_left s)))"


section \<open>The search finds a maximum matching\<close>

text \<open>
  The search is described by a relation with one rule per case of the loop, and its properties are
  proved by rule induction: a failing search leaves a set of matchers that is closed under
  the edges of the elements assigned to them, and a successful one extends the matching by its root
  without touching any closed set.
\<close>

definition edge :: "match_matrix \<Rightarrow> nat \<Rightarrow> nat \<Rightarrow> bool" where
  "edge g l r \<longleftrightarrow> matched g ! SpaceIndex g l r"

definition mm_ok :: "match_matrix \<Rightarrow> bool" where
  "mm_ok g \<longleftrightarrow> length (matched g) = num_elements g * num_matchers g"

lemma SpaceIndex_less: "l < num_elements g \<Longrightarrow> r < num_matchers g \<Longrightarrow>
    SpaceIndex g l r < num_elements g * num_matchers g"
  unfolding SpaceIndex_def
  by (metis add.commute add_less_cancel_left less_le_trans mult.commute mult_Suc_right mult_le_mono2 Suc_leI)

lemma HasEdge_edge: "mm_ok g \<Longrightarrow> l < num_elements g \<Longrightarrow> r < num_matchers g \<Longrightarrow> HasEdge g l r = Inr (edge g l r)"
  by (simp add: HasEdge_def vat_def mm_ok_def SpaceIndex_less edge_def)

definition bip_ok :: "match_matrix \<Rightarrow> bip_state \<Rightarrow> bool" where
  "bip_ok g s \<longleftrightarrow> length (bp_left s) = num_elements g \<and> length (bp_right s) = num_matchers g \<and>
     length (seen s) = num_matchers g \<and>
     (\<forall>r < num_matchers g. \<forall>l. bp_right s ! r = Some l \<longrightarrow> l < num_elements g)"

definition joined :: "nat \<Rightarrow> nat \<Rightarrow> bip_state \<Rightarrow> bip_state" where
  "joined i r s = s\<lparr>bp_left := (bp_left s)[i := Some r], bp_right := (bp_right s)[r := Some i]\<rparr>"

lemma joined_fields [simp]:
  "bp_left (joined i r s) = (bp_left s)[i := Some r]" "bp_right (joined i r s) = (bp_right s)[r := Some i]"
  "seen (joined i r s) = seen s"
  by (simp_all add: joined_def)

lemma link_joined: "i < length (bp_left s) \<Longrightarrow> r < length (bp_right s) \<Longrightarrow> link i r s = Inr (joined i r s)"
  by (simp add: link_def vput_Inr joined_def)

lemma bip_ok_mark: "bip_ok g s \<Longrightarrow> bip_ok g (mark r s)"
  by (simp add: bip_ok_def)

lemma bip_ok_joined: "bip_ok g s \<Longrightarrow> i < num_elements g \<Longrightarrow> bip_ok g (joined i r s)"
  by (cases "r < num_matchers g") (auto simp: bip_ok_def nth_list_update split: if_splits)

inductive aug :: "match_matrix \<Rightarrow> nat \<Rightarrow> nat \<Rightarrow> bip_state \<Rightarrow> bool \<Rightarrow> bip_state \<Rightarrow> bool" for g where
  none: "num_matchers g \<le> r \<Longrightarrow> aug g i r s False s"
| skip: "r < num_matchers g \<Longrightarrow> seen s ! r \<or> \<not> edge g i r \<Longrightarrow> aug g i (Suc r) s b s' \<Longrightarrow> aug g i r s b s'"
| free: "r < num_matchers g \<Longrightarrow> \<not> seen s ! r \<Longrightarrow> edge g i r \<Longrightarrow> bp_right s ! r = None \<Longrightarrow>
    aug g i r s True (joined i r (mark r s))"
| path: "r < num_matchers g \<Longrightarrow> \<not> seen s ! r \<Longrightarrow> edge g i r \<Longrightarrow> bp_right s ! r = Some l \<Longrightarrow>
    aug g l 0 (mark r s) True s1 \<Longrightarrow> aug g i r s True (joined i r s1)"
| dead: "r < num_matchers g \<Longrightarrow> \<not> seen s ! r \<Longrightarrow> edge g i r \<Longrightarrow> bp_right s ! r = Some l \<Longrightarrow>
    aug g l 0 (mark r s) False s1 \<Longrightarrow> aug g i (Suc r) s1 b s' \<Longrightarrow> aug g i r s b s'"

text \<open>The function runs along the relation, without an access outside a vector.\<close>

lemma TryAugment_aug:
  "mm_ok g \<Longrightarrow> bip_ok g s \<Longrightarrow> i < num_elements g \<Longrightarrow>
     \<exists>b s'. TryAugment g i r s = Inr (b, s') \<and> aug g i r s b s' \<and> bip_ok g s'"
proof (induction g i r s rule: TryAugment.induct)
  case (1 g i r s)
  note lens = 1(6) [unfolded bip_ok_def]
  consider "num_matchers g \<le> r" | "r < num_matchers g" "seen s ! r"
    | "r < num_matchers g" "\<not> seen s ! r" "\<not> edge g i r" | "r < num_matchers g" "\<not> seen s ! r" "edge g i r"
    by fastforce
  then show ?case
  proof cases
    case 1
    with \<open>bip_ok g s\<close> show ?thesis by (auto simp: TryAugment.simps [of g i r s] intro: aug.none)
  next
    case 2
    then have "vat (seen s) r = Inr True" using lens by (simp add: vat_def)
    with 2 "1.IH"(1) [OF _ this] "1.prems" show ?thesis
      by (auto simp: TryAugment.simps [of g i r s] intro: aug.skip)
  next
    case 3
    then have "vat (seen s) r = Inr False" using lens by (simp add: vat_def)
    with 3 "1.IH"(2) [OF _ this, of False] "1.prems" show ?thesis
      by (auto simp: TryAugment.simps [of g i r s] HasEdge_edge intro: aug.skip)
  next
    case 4
    let ?q = "bp_right s ! r"
    have v: "vat (seen s) r = Inr False" "vat (bp_right s) r = Inr ?q" "HasEdge g i r = Inr True"
      using 4 lens "1.prems" by (simp_all add: vat_def HasEdge_edge)
    have un: "TryAugment g i r s =
        bindr (case ?q of None \<Rightarrow> Inr (True, mark r s) | Some l \<Rightarrow> TryAugment g l 0 (mark r s)) (\<lambda>(found, s1).
          if found then bindr (link i r s1) (\<lambda>s2. Inr (True, s2)) else TryAugment g i (Suc r) s1)"
      using 4 v by (simp add: TryAugment.simps [of g i r s])
    show ?thesis
    proof (cases ?q)
      case None
      with 4 lens "1.prems" un aug.free [OF 4 None] show ?thesis
        by (intro exI [of _ True] exI [of _ "joined i r (mark r s)"])
          (simp add: link_joined bip_ok_mark bip_ok_joined)
    next
      case (Some l)
      have l: "l < num_elements g" using Some lens 4(1) by auto
      from "1.IH"(3) [OF _ v(1) _ v(3) _ v(2) Some "1.prems"(1) bip_ok_mark [OF "1.prems"(2)] l] 4
      obtain b s1 where s1: "TryAugment g l 0 (mark r s) = Inr (b, s1)" "aug g l 0 (mark r s) b s1" "bip_ok g s1"
        by auto
      show ?thesis
      proof (cases b)
        case True
        have "i < length (bp_left s1)" "r < length (bp_right s1)" using s1(3) "1.prems"(3) 4(1) by (simp_all add: bip_ok_def)
        then have "TryAugment g i r s = Inr (True, joined i r s1)" using un Some s1(1) True by (simp add: link_joined)
        moreover have "aug g i r s True (joined i r s1)" using aug.path [OF 4 Some] s1(2) True by simp
        ultimately show ?thesis using s1(3) "1.prems"(3) bip_ok_joined by blast
      next
        case False
        have "(case ?q of None \<Rightarrow> Inr (True, mark r s) | Some l \<Rightarrow> TryAugment g l 0 (mark r s)) = Inr (b, s1)"
          using Some s1(1) by simp
        from "1.IH"(4) [OF _ v(1) _ v(3) _ v(2) this refl _ "1.prems"(1) s1(3) "1.prems"(3)] 4 False
        obtain b' s2 where s2: "TryAugment g i (Suc r) s1 = Inr (b', s2)" "aug g i (Suc r) s1 b' s2" "bip_ok g s2"
          by auto
        with False s1 un Some aug.dead [OF 4 Some, of s1 b' s2] show ?thesis by simp
      qed
    qed
  qed
qed


subsection \<open>What a search leaves behind\<close>

definition marks :: "bip_state \<Rightarrow> nat set" where
  "marks s = {r. r < length (seen s) \<and> seen s ! r}"

lemma marks_joined [simp]: "marks (joined i r s) = marks s"
  by (simp add: marks_def)

lemma marks_mark: "r < length (seen s) \<Longrightarrow> marks (mark r s) = insert r (marks s)"
  by (auto simp: marks_def nth_list_update)

text \<open>All matchers that an element matches lie in a set.\<close>

definition within :: "match_matrix \<Rightarrow> nat \<Rightarrow> nat set \<Rightarrow> bool" where
  "within g l S \<longleftrightarrow> (\<forall>r < num_matchers g. edge g l r \<longrightarrow> r \<in> S)"

text \<open>Every matcher of the set is assigned, to an element that has no edge leaving the set.\<close>

definition closed :: "match_matrix \<Rightarrow> nat set \<Rightarrow> nat option list \<Rightarrow> bool" where
  "closed g S rt \<longleftrightarrow> (\<forall>r \<in> S. r < num_matchers g \<and> (\<exists>l. rt ! r = Some l \<and> within g l S))"

lemma aug_ok: "aug g i r s b s' \<Longrightarrow> length (seen s') = length (seen s) \<and> length (bp_left s') = length (bp_left s) \<and>
    length (bp_right s') = length (bp_right s)"
  by (induction rule: aug.induct) simp_all

lemma aug_marks: "aug g i r s b s' \<Longrightarrow> length (seen s) = num_matchers g \<Longrightarrow> marks s \<subseteq> marks s'"
proof (induction rule: aug.induct)
  case (dead r s i l s1 b s')
  have "length (seen s1) = num_matchers g" using aug_ok [OF dead.hyps(5)] dead.prems by simp
  with dead show ?case by (auto simp: marks_mark)
qed (auto simp: marks_mark)

lemma aug_fails: "aug g i r s b s' \<Longrightarrow> \<not> b \<Longrightarrow> bp_left s' = bp_left s \<and> bp_right s' = bp_right s"
  by (induction rule: aug.induct) simp_all

text \<open>A search from inside a closed set fails, and no search changes what a closed set is assigned to.\<close>

lemma aug_inside: "aug g i r s b s' \<Longrightarrow> closed g S (bp_right s) \<Longrightarrow> within g i S \<Longrightarrow> \<not> b"
proof (induction rule: aug.induct)
  case (free r s i)
  then have "r \<in> S" by (auto simp: within_def)
  with free show ?case by (auto simp: closed_def)
next
  case (path r s i l s1)
  then have "r \<in> S" by (auto simp: within_def)
  with path show ?case by (auto simp: closed_def)
next
  case (dead r s i l s1 b s')
  with aug_fails [OF dead.hyps(5)] show ?case by simp
qed (auto simp: closed_def within_def)

lemma aug_outside: "aug g i r s b s' \<Longrightarrow> closed g S (bp_right s) \<Longrightarrow> q \<in> S \<Longrightarrow> bp_right s' ! q = bp_right s ! q"
proof (induction rule: aug.induct)
  case (free r s i)
  then show ?case by (cases "q = r") (auto simp: closed_def)
next
  case (path r s i l s1)
  have "q \<noteq> r"
  proof
    assume "q = r"
    with path.prems path.hyps(4) have "within g l S" by (auto simp: closed_def)
    with aug_inside [OF path.hyps(5)] path.prems show False by simp
  qed
  with path show ?case by simp
next
  case (dead r s i l s1 b s')
  with aug_fails [OF dead.hyps(5)] show ?case by simp
qed simp_all

text \<open>What a failing search marks is closed and contains all that its root matches.\<close>

lemma aug_failed:
  "aug g i r s b s' \<Longrightarrow> \<not> b \<Longrightarrow> length (seen s) = num_matchers g \<Longrightarrow>
     (\<forall>q. r \<le> q \<and> q < num_matchers g \<and> edge g i q \<longrightarrow> q \<in> marks s') \<and>
     (\<forall>q \<in> marks s' - marks s. q < num_matchers g \<and> (\<exists>l. bp_right s ! q = Some l \<and> within g l (marks s')))"
proof (induction rule: aug.induct)
  case (skip r s i b s')
  have "marks s \<subseteq> marks s'" using aug_marks [OF skip.hyps(3)] skip.prems by simp
  moreover have "r \<in> marks s'" if "edge g i r" using that skip.hyps(1,2) skip.prems calculation by (auto simp: marks_def)
  ultimately show ?case using skip.IH skip.prems by (metis Suc_leI le_neq_implies_less)
next
  case (dead r s i l s1 b s')
  have len: "length (seen s1) = num_matchers g" using aug_ok [OF dead.hyps(5)] dead.prems by simp
  have m: "insert r (marks s) \<subseteq> marks s1" "marks s1 \<subseteq> marks s'"
    using aug_marks [OF dead.hyps(5)] aug_marks [OF dead.hyps(6)] len dead.prems dead.hyps(1) by (auto simp: marks_mark)
  have rt: "bp_right s1 = bp_right s" using aug_fails [OF dead.hyps(5)] by simp
  have ws: "within g k (marks s')" if "within g k (marks s1)" for k using that m(2) by (auto simp: within_def)
  have l: "within g l (marks s1)" using dead.IH(1) dead.prems by (auto simp: within_def)
  have old: "q < num_matchers g \<and> (\<exists>l. bp_right s ! q = Some l \<and> within g l (marks s'))"
    if "q \<in> marks s' - marks s" for q
  proof (cases "q \<in> marks s1")
    case True
    show ?thesis
    proof (cases "q = r")
      case True
      with dead.hyps(1,4) ws [OF l] show ?thesis by auto
    next
      case False
      with True that dead.prems dead.hyps(1) have "q \<in> marks s1 - marks (mark r s)" by (auto simp: marks_mark)
      with dead.IH(1) dead.prems obtain k where "q < num_matchers g" "bp_right s ! q = Some k" "within g k (marks s1)"
        by auto
      with ws show ?thesis by blast
    qed
  next
    case False
    with that dead.IH(2) dead.prems len rt show ?thesis by auto
  qed
  have "q \<in> marks s'" if "r \<le> q" "q < num_matchers g" "edge g i q" for q
    using that m dead.IH(2) [OF dead.prems(1) len] by (cases "q = r") auto
  with old show ?case by blast
qed (auto simp: marks_def)

subsection \<open>What a successful search links\<close>

text \<open>The two vectors are inverse to each other and contain edges only.\<close>

definition consistent :: "match_matrix \<Rightarrow> bip_state \<Rightarrow> bool" where
  "consistent g s \<longleftrightarrow>
     (\<forall>l < num_elements g. \<forall>r < num_matchers g. bp_left s ! l = Some r \<longleftrightarrow> bp_right s ! r = Some l) \<and>
     (\<forall>l < num_elements g. \<forall>r. bp_left s ! l = Some r \<longrightarrow> r < num_matchers g \<and> edge g l r)"

text \<open>
  \<open>linked g i s s'\<close>: what a successful search from \<open>i\<close> leaves.  The matcher that \<open>i\<close> was assigned to
  before, if any, still refers to \<open>i\<close>; its caller overwrites that reference.
\<close>

definition linked :: "match_matrix \<Rightarrow> nat \<Rightarrow> bip_state \<Rightarrow> bip_state \<Rightarrow> bool" where
  "linked g i s s' \<longleftrightarrow>
     (\<forall>l < num_elements g. bp_left s' ! l = None \<longleftrightarrow> l \<noteq> i \<and> bp_left s ! l = None) \<and>
     (\<forall>l < num_elements g. \<forall>r. bp_left s' ! l = Some r \<longrightarrow>
        r < num_matchers g \<and> edge g l r \<and> bp_right s' ! r = Some l) \<and>
     (\<forall>l < num_elements g. \<forall>r < num_matchers g. bp_right s' ! r = Some l \<longrightarrow>
        bp_left s' ! l = Some r \<or> l = i \<and> bp_left s ! i = Some r) \<and>
     (\<forall>r \<in> marks s. r < num_matchers g \<longrightarrow> bp_right s' ! r = bp_right s ! r) \<and>
     (\<forall>l < num_elements g. \<forall>r \<in> marks s. bp_left s' ! l = Some r \<longrightarrow> bp_left s ! l = Some r \<and> l \<noteq> i)"

definition root_ok :: "nat \<Rightarrow> bip_state \<Rightarrow> bool" where
  "root_ok i s \<longleftrightarrow> (\<forall>r. bp_left s ! i = Some r \<longrightarrow> r \<in> marks s)"

lemma consistent_mark [simp]: "consistent g (mark r s) \<longleftrightarrow> consistent g s"
  by (simp add: consistent_def)

lemma linkedD:
  assumes "linked g i s s'"
  shows "l < num_elements g \<Longrightarrow> bp_left s' ! l = None \<longleftrightarrow> l \<noteq> i \<and> bp_left s ! l = None"
    and "l < num_elements g \<Longrightarrow> bp_left s' ! l = Some r \<Longrightarrow> r < num_matchers g \<and> edge g l r \<and> bp_right s' ! r = Some l"
    and "l < num_elements g \<Longrightarrow> r < num_matchers g \<Longrightarrow> bp_right s' ! r = Some l \<Longrightarrow>
        bp_left s' ! l = Some r \<or> l = i \<and> bp_left s ! i = Some r"
    and "r \<in> marks s \<Longrightarrow> r < num_matchers g \<Longrightarrow> bp_right s' ! r = bp_right s ! r"
    and "l < num_elements g \<Longrightarrow> r \<in> marks s \<Longrightarrow> bp_left s' ! l = Some r \<Longrightarrow> bp_left s ! l = Some r \<and> l \<noteq> i"
  using assms unfolding linked_def by blast+

lemma consistentD:
  assumes "consistent g s" "l < num_elements g"
  shows "bp_left s ! l = Some r \<Longrightarrow> r < num_matchers g \<and> edge g l r \<and> bp_right s ! r = Some l"
    and "r < num_matchers g \<Longrightarrow> bp_right s ! r = Some l \<Longrightarrow> bp_left s ! l = Some r"
  using assms unfolding consistent_def by blast+

lemma linked_free:
  assumes "bip_ok g s" "consistent g s" "root_ok i s" "i < num_elements g" "r < num_matchers g"
    "\<not> seen s ! r" "edge g i r" "bp_right s ! r = None"
  shows "linked g i s (joined i r (mark r s))"
proof -
  have r: "r \<notin> marks s" using assms(6) by (simp add: marks_def)
  have lens: "i < length (bp_left s)" "r < length (bp_right s)" using assms by (simp_all add: bip_ok_def)
  have un: "bp_left s ! k \<noteq> Some r" if "k < num_elements g" for k
    using consistentD(1) [OF assms(2) that, of r] assms(8) by auto
  show ?thesis unfolding linked_def joined_fields mark_fields
  proof (intro conjI allI impI ballI)
    fix k assume "k < num_elements g"
    then show "((bp_left s)[i := Some r] ! k = None) = (k \<noteq> i \<and> bp_left s ! k = None)"
      using lens by (cases "k = i") auto
  next
    fix k q assume k: "k < num_elements g" and e: "(bp_left s)[i := Some r] ! k = Some q"
    have "q = r \<and> k = i \<or> k \<noteq> i \<and> bp_left s ! k = Some q \<and> q \<noteq> r" using e lens un [OF k] by (cases "k = i") auto
    then show "q < num_matchers g" "edge g k q" "(bp_right s)[r := Some i] ! q = Some k"
      using consistentD(1) [OF assms(2) k, of q] assms(5,7) lens by auto
  next
    fix k q assume k: "k < num_elements g" "q < num_matchers g" and e: "(bp_right s)[r := Some i] ! q = Some k"
    then show "(bp_left s)[i := Some r] ! k = Some q \<or> k = i \<and> bp_left s ! i = Some q"
      using consistentD(2) [OF assms(2) k] lens by (cases "q = r"; cases "k = i") auto
  next
    fix q assume "q \<in> marks s"
    then show "(bp_right s)[r := Some i] ! q = bp_right s ! q" using r by (cases "q = r") auto
  next
    fix k q assume "q \<in> marks s" and e: "(bp_left s)[i := Some r] ! k = Some q"
    then show "bp_left s ! k = Some q" "k \<noteq> i" using r lens by (cases "k = i"; auto)+
  qed
qed

lemma linked_path:
  assumes ok: "bip_ok g s" "consistent g s" "root_ok i s" "i < num_elements g" "r < num_matchers g"
    and r: "\<not> seen s ! r" "edge g i r" "bp_right s ! r = Some l"
    and l: "linked g l (mark r s) s1" "bip_ok g s1"
  shows "linked g i s (joined i r s1)"
proof -
  have len: "r < length (seen s)" using ok by (simp add: bip_ok_def)
  have rm: "r \<notin> marks s" "marks (mark r s) = insert r (marks s)"
    using r(1) marks_mark [OF len] by (simp_all add: marks_def)
  have ln: "l < num_elements g" using ok(1,5) r(3) by (auto simp: bip_ok_def)
  have lr: "bp_left s ! l = Some r" using consistentD(2) [OF ok(2) ln ok(5) r(3)] .
  have li: "l \<noteq> i" using ok(3) lr rm(1) by (auto simp: root_ok_def)
  note L = linkedD [OF l(1), unfolded rm(2) mark_fields]
  have at_r: "bp_left s1 ! k \<noteq> Some r" if "k < num_elements g" for k
    using L(5) [OF that, of r] consistentD(1) [OF ok(2) that, of r] r(3) by auto
  have root: "bp_left s1 ! i = Some q" if "bp_left s ! i = Some q" for q
  proof -
    have "q \<in> marks s" using ok(3) that by (simp add: root_ok_def)
    moreover have q: "q < num_matchers g" "bp_right s ! q = Some i" using consistentD(1) [OF ok(2,4) that] by auto
    ultimately have "bp_right s1 ! q = Some i" using L(4) [of q] by simp
    from L(3) [OF ok(4) q(1) this] li show ?thesis by blast
  qed
  have lens: "i < length (bp_left s1)" "r < length (bp_right s1)" using l(2) ok(4,5) by (simp_all add: bip_ok_def)
  show ?thesis unfolding linked_def joined_fields
  proof (intro conjI allI impI ballI)
    fix k assume "k < num_elements g"
    from L(1) [OF this] show "((bp_left s1)[i := Some r] ! k = None) = (k \<noteq> i \<and> bp_left s ! k = None)"
      using lens lr li by (cases "k = i"; cases "k = l") auto
  next
    fix k q assume k: "k < num_elements g" and e: "(bp_left s1)[i := Some r] ! k = Some q"
    have "q = r \<and> k = i \<or> k \<noteq> i \<and> bp_left s1 ! k = Some q \<and> q \<noteq> r" using e lens at_r [OF k] by (cases "k = i") auto
    then show "q < num_matchers g" "edge g k q" "(bp_right s1)[r := Some i] ! q = Some k"
      using L(2) [OF k, of q] ok(5) r(2) lens by auto
  next
    fix k q assume k: "k < num_elements g" and q: "q < num_matchers g" and e: "(bp_right s1)[r := Some i] ! q = Some k"
    show "(bp_left s1)[i := Some r] ! k = Some q \<or> k = i \<and> bp_left s ! i = Some q"
    proof (cases "q = r")
      case True
      with e lens show ?thesis by simp
    next
      case False
      with e have "bp_right s1 ! q = Some k" by simp
      from L(3) [OF k q this] False lr have s1: "bp_left s1 ! k = Some q" by auto
      have "bp_left s ! i \<noteq> None" if "k = i" using L(1) [OF ok(4)] s1 that li by auto
      with root s1 lens show ?thesis by (cases "k = i") auto
    qed
  next
    fix q assume "q \<in> marks s" "q < num_matchers g"
    then show "(bp_right s1)[r := Some i] ! q = bp_right s ! q" using L(4) [of q] rm(1) by (cases "q = r") auto
  next
    fix k q assume k: "k < num_elements g" and q: "q \<in> marks s" and e: "(bp_left s1)[i := Some r] ! k = Some q"
    have "k \<noteq> i" using e lens rm(1) q by auto
    with e L(5) [OF k, of q] q show "bp_left s ! k = Some q" "k \<noteq> i" by auto
  qed
qed

lemma linked_later:
  assumes "linked g i s1 s'" "bp_left s1 = bp_left s" "bp_right s1 = bp_right s" "marks s \<subseteq> marks s1"
  shows "linked g i s s'"
proof -
  note L = linkedD [OF assms(1), unfolded assms(2,3)]
  show ?thesis unfolding linked_def using L(1,2,3) L(4) L(5) [OF _ subsetD [OF assms(4)]] subsetD [OF assms(4)]
    by blast
qed

lemma aug_linked:
  "aug g i r s b s' \<Longrightarrow> b \<Longrightarrow> mm_ok g \<Longrightarrow> bip_ok g s \<Longrightarrow> consistent g s \<Longrightarrow> root_ok i s \<Longrightarrow> i < num_elements g \<Longrightarrow>
     linked g i s s' \<and> bip_ok g s'"
proof (induction rule: aug.induct)
  case (free r s i)
  show ?case
    using linked_free [OF free.prems(3-6) free.hyps] bip_ok_joined [OF bip_ok_mark [OF free.prems(3)] free.prems(6)] ..
next
  case (path r s i l s1)
  have m: "bip_ok g (mark r s)" "consistent g (mark r s)"
    using bip_ok_mark [OF path.prems(3)] path.prems(4) by (simp_all only: consistent_mark)
  have l: "l < num_elements g" using path.hyps(1,4) path.prems(3) unfolding bip_ok_def by blast
  have lr: "bp_left s ! l = Some r" by (rule consistentD(2) [OF path.prems(4) l path.hyps(1,4)])
  have "r < length (seen s)" using path.prems(3) path.hyps(1) unfolding bip_ok_def by simp
  then have "root_ok l (mark r s)" by (simp add: root_ok_def marks_mark lr)
  from path.IH [OF _ path.prems(2) m this l] have "linked g l (mark r s) s1" "bip_ok g s1" by auto
  with linked_path [OF path.prems(3-6) path.hyps(1-4)] bip_ok_joined path.prems(6) show ?case by blast
next
  case (dead r s i l s1 b s')
  have f: "bp_left s1 = bp_left s" "bp_right s1 = bp_right s" using aug_fails [OF dead.hyps(5)] by simp_all
  have len: "length (seen s) = num_matchers g" using dead.prems(3) unfolding bip_ok_def by blast
  then have m: "marks s \<subseteq> marks s1" using aug_marks [OF dead.hyps(5)] dead.hyps(1) by (auto simp: marks_mark)
  have "length (seen s1) = num_matchers g" using aug_ok [OF dead.hyps(5)] len by simp
  with dead.prems(3) have ok: "bip_ok g s1" unfolding bip_ok_def f by blast
  have co: "consistent g s1" using dead.prems(4) unfolding consistent_def f .
  have "root_ok i s1" using dead.prems(5) m unfolding root_ok_def f by blast
  from dead.IH(2) [OF dead.prems(1,2) ok co this dead.prems(6)]
  have "linked g i s1 s'" "bip_ok g s'" by blast+
  with f m linked_later show ?case by blast
qed simp_all

subsection \<open>The loop over the elements\<close>

lemma within_mono: "within g l S \<Longrightarrow> S \<subseteq> T \<Longrightarrow> within g l T"
  by (auto simp: within_def)

lemma closed_Un: "closed g S rt \<Longrightarrow> closed g T rt \<Longrightarrow> closed g (S \<union> T) rt"
  unfolding closed_def by (blast intro: within_mono)

lemma closed_agree: "closed g S rt \<Longrightarrow> (\<And>q. q \<in> S \<Longrightarrow> rt' ! q = rt ! q) \<Longrightarrow> closed g S rt'"
  unfolding closed_def by simp

definition reset :: "match_matrix \<Rightarrow> bip_state \<Rightarrow> bip_state" where
  "reset g s = s\<lparr>seen := replicate (num_matchers g) False\<rparr>"

lemma reset_fields [simp]: "bp_left (reset g s) = bp_left s" "bp_right (reset g s) = bp_right s"
  "marks (reset g s) = {}" "consistent g (reset g s) = consistent g s"
  by (auto simp: reset_def marks_def consistent_def)

text \<open>After the first \<open>k\<close> elements, those that are not assigned have all their edges in a closed set.\<close>

definition search_inv :: "match_matrix \<Rightarrow> nat \<Rightarrow> nat set \<Rightarrow> bip_state \<Rightarrow> bool" where
  "search_inv g k S s \<longleftrightarrow> bip_ok g (reset g s) \<and> consistent g s \<and> closed g S (bp_right s) \<and>
     (\<forall>l. k \<le> l \<longrightarrow> l < num_elements g \<longrightarrow> bp_left s ! l = None) \<and>
     (\<forall>l < k. bp_left s ! l = None \<longrightarrow> within g l S)"

lemma search_step:
  assumes "mm_ok g" "search_inv g k S s" "k < num_elements g"
  shows "\<exists>b s1 T. TryAugment g k 0 (reset g s) = Inr (b, s1) \<and> search_inv g (Suc k) T s1"
proof -
  from assms(2) have inv: "bip_ok g (reset g s)" "consistent g (reset g s)" "closed g S (bp_right s)"
      "\<And>l. k \<le> l \<Longrightarrow> l < num_elements g \<Longrightarrow> bp_left s ! l = None"
      "\<And>l. l < k \<Longrightarrow> bp_left s ! l = None \<Longrightarrow> within g l S"
    unfolding search_inv_def by simp_all
  from TryAugment_aug [OF assms(1) inv(1) assms(3)] obtain b s1 where
    t: "TryAugment g k 0 (reset g s) = Inr (b, s1)" "aug g k 0 (reset g s) b s1" "bip_ok g s1" by blast
  have "length (seen s1) = num_matchers g" using t(3) unfolding bip_ok_def by blast
  then have ok: "bip_ok g (reset g s1)" using t(3) unfolding bip_ok_def reset_def by (auto simp del: all_simps)
  have keep: "bp_right s1 ! q = bp_right s ! q" if "q \<in> S" for q
    using aug_outside [OF t(2) _ that] inv(3) by simp
  have cl: "closed g S (bp_right s1)" by (rule closed_agree [OF inv(3) keep])
  show ?thesis
  proof (cases b)
    case True
    have root: "root_ok k (reset g s)" using inv(4) [of k] assms(3) by (simp add: root_ok_def)
    from aug_linked [OF t(2) True assms(1) inv(1,2) root assms(3)] have L: "linked g k (reset g s) s1" ..
    note D = linkedD [OF L, unfolded reset_fields]
    have "consistent g s1" unfolding consistent_def
      using D(2,3) inv(4) [OF le_refl assms(3)] by (metis option.distinct(1))
    moreover have "bp_left s1 ! l = None" if "Suc k \<le> l" "l < num_elements g" for l
      using D(1) [OF that(2)] inv(4) that by simp
    moreover have "within g l S" if "l < Suc k" "bp_left s1 ! l = None" for l
      using D(1) [of l] inv(5) [of l] that assms(3) by (cases "l = k") auto
    ultimately have "search_inv g (Suc k) S s1" using ok cl unfolding search_inv_def by simp
    with t(1) show ?thesis by blast
  next
    case False
    have f: "bp_left s1 = bp_left s" "bp_right s1 = bp_right s" using aug_fails [OF t(2) False] by simp_all
    have "length (seen (reset g s)) = num_matchers g" by (simp add: reset_def)
    from aug_failed [OF t(2) False this] have
      k: "within g k (marks s1)" and m: "closed g (marks s1) (bp_right s1)"
      by (auto simp: within_def closed_def f)
    have "within g l (S \<union> marks s1)" if "l < Suc k" "bp_left s1 ! l = None" for l
      using that inv(5) [of l] k within_mono [OF _ Un_upper1] within_mono [OF _ Un_upper2]
      by (cases "l = k") (auto simp: f)
    moreover have "bp_left s1 ! l = None" if "Suc k \<le> l" "l < num_elements g" for l
      using inv(4) that f by simp
    moreover have "consistent g s1" using inv(2) unfolding consistent_def f reset_fields .
    ultimately have "search_inv g (Suc k) (S \<union> marks s1) s1"
      using ok closed_Un [OF cl m] unfolding search_inv_def by simp
    with t(1) show ?thesis by blast
  qed
qed

lemma augment_all_ok:
  "mm_ok g \<Longrightarrow> search_inv g k S s \<Longrightarrow> k \<le> num_elements g \<Longrightarrow>
     \<exists>s' T. augment_all g k s = Inr s' \<and> search_inv g (num_elements g) T s'"
proof (induction "num_elements g - k" arbitrary: k S s)
  case 0
  then show ?case by (auto simp: augment_all.simps [of g k])
next
  case (Suc d)
  then have k: "k < num_elements g" "d = num_elements g - Suc k" "Suc k \<le> num_elements g" by simp_all
  from search_step [OF Suc.prems(1,2) k(1)] obtain b s1 T where
    s1: "TryAugment g k 0 (reset g s) = Inr (b, s1)" "search_inv g (Suc k) T s1" by blast
  have "vat (bp_left s) k = Inr None"
    using Suc.prems(2) k(1) unfolding search_inv_def bip_ok_def by (simp add: vat_def del: all_simps)
  with s1 k have "augment_all g k s = augment_all g (Suc k) s1"
    by (simp add: augment_all.simps [of g k] reset_def)
  with Suc.hyps(1) [OF k(2) Suc.prems(1) s1(2) k(3)] show ?case by simp
qed

subsection \<open>The result is a maximum matching\<close>

definition matching :: "match_matrix \<Rightarrow> (nat \<times> nat) list \<Rightarrow> bool" where
  "matching g ps \<longleftrightarrow> distinct (map fst ps) \<and> distinct (map snd ps) \<and>
     (\<forall>(l, r) \<in> set ps. l < num_elements g \<and> r < num_matchers g \<and> edge g l r)"

lemma linked_pairs_eq:
  "linked_pairs k ls = map (\<lambda>i. (k + i, the (ls ! i))) (filter (\<lambda>i. ls ! i \<noteq> None) [0..<length ls])"
proof (induction k ls rule: linked_pairs.induct)
  case (2 k ls)
  then show ?case by (simp add: upt_conv_Cons map_Suc_upt [symmetric] filter_map o_def del: upt_Suc)
next
  case (3 k r ls)
  then show ?case by (simp add: upt_conv_Cons map_Suc_upt [symmetric] filter_map o_def del: upt_Suc)
qed simp

lemma final_matching:
  assumes "search_inv g (num_elements g) S s"
  shows "matching g (linked_pairs 0 (bp_left s))"
proof -
  from assms have inv: "length (bp_left s) = num_elements g" "consistent g s"
    unfolding search_inv_def bip_ok_def by (simp_all del: all_simps)
  let ?is = "filter (\<lambda>i. bp_left s ! i \<noteq> None) [0..<num_elements g]"
  have r: "bp_right s ! the (bp_left s ! i) = Some i \<and> the (bp_left s ! i) < num_matchers g \<and>
      edge g i (the (bp_left s ! i))" if "i \<in> set ?is" for i
    using that consistentD(1) [OF inv(2), of i "the (bp_left s ! i)"] by auto
  have "inj_on (\<lambda>i. the (bp_left s ! i)) (set ?is)"
    using r by (intro inj_onI) (metis option.inject)
  then show ?thesis unfolding matching_def linked_pairs_eq inv(1)
    using r by (auto simp: distinct_map o_def)
qed

lemma final_length:
  assumes "search_inv g (num_elements g) S s"
  shows "length (linked_pairs 0 (bp_left s)) + card {l. l < num_elements g \<and> bp_left s ! l = None} = num_elements g"
proof -
  from assms have len: "length (bp_left s) = num_elements g"
    unfolding search_inv_def bip_ok_def by (simp del: all_simps)
  have "length (linked_pairs 0 (bp_left s)) = card {l. l < num_elements g \<and> bp_left s ! l \<noteq> None}"
    using len by (simp add: linked_pairs_eq length_filter_conv_card) (rule arg_cong [of _ _ card], auto)
  moreover have "{l. l < num_elements g} = {l. l < num_elements g \<and> bp_left s ! l \<noteq> None} \<union>
      {l. l < num_elements g \<and> bp_left s ! l = None}" by auto
  moreover have "card ({l. l < num_elements g \<and> bp_left s ! l \<noteq> None} \<union> {l. l < num_elements g \<and> bp_left s ! l = None}) =
      card {l. l < num_elements g \<and> bp_left s ! l \<noteq> None} + card {l. l < num_elements g \<and> bp_left s ! l = None}"
    by (rule card_Un_disjoint) auto
  ultimately show ?thesis by (metis card_Collect_less_nat)
qed

text \<open>Every matching leaves as many elements out as the search does: the elements that are
  assigned to the closed set, and those that are not assigned, compete for the closed set only.\<close>

lemma matching_bound:
  assumes inv: "search_inv g (num_elements g) S s" and qs: "matching g qs"
  shows "length qs + card {l. l < num_elements g \<and> bp_left s ! l = None} \<le> num_elements g"
proof -
  let ?n = "num_elements g"
  let ?F = "{l. l < ?n \<and> bp_left s ! l = None}"
  let ?A = "{l. l < ?n \<and> (\<exists>r \<in> S. bp_left s ! l = Some r)}"
  from inv have co: "consistent g s" and cl: "closed g S (bp_right s)" and F: "\<And>l. l \<in> ?F \<Longrightarrow> within g l S"
    unfolding search_inv_def by simp_all
  have ok: "\<And>r l. r < num_matchers g \<Longrightarrow> bp_right s ! r = Some l \<Longrightarrow> l < ?n"
    using inv unfolding search_inv_def bip_ok_def by (simp del: all_simps)
  have S: "\<exists>l. l \<in> ?A \<and> bp_right s ! r = Some l" if "r \<in> S" for r
    using that cl ok consistentD(2) [OF co] unfolding closed_def by blast
  have A: "within g l S" if "l \<in> ?A" for l
  proof -
    from that obtain r where r: "r \<in> S" "l < ?n" "bp_left s ! l = Some r" by blast
    then have "bp_right s ! r = Some l" using consistentD(1) [OF co] by blast
    with cl r(1) show ?thesis unfolding closed_def by force
  qed
  let ?f = "\<lambda>r. the (bp_right s ! r)"
  have fin: "finite S" using cl by (auto simp: closed_def intro!: finite_subset [of S "{..<num_matchers g}"])
  have "inj_on ?f S"
  proof (rule inj_onI)
    fix x y assume "x \<in> S" "y \<in> S" "?f x = ?f y"
    with S [of x] S [of y] have "\<exists>l < ?n. bp_right s ! x = Some l \<and> bp_right s ! y = Some l" by auto
    then show "x = y" using consistentD(2) [OF co] cl \<open>x \<in> S\<close> \<open>y \<in> S\<close> unfolding closed_def
      by (metis option.inject)
  qed
  moreover have "?f ` S \<subseteq> ?A" using S by force
  ultimately have card_A: "card S \<le> card ?A" using fin by (intro card_inj_on_le) auto
  let ?Q = "{p \<in> set qs. fst p \<in> ?A \<union> ?F}" and ?R = "{p \<in> set qs. fst p \<notin> ?A \<union> ?F}"
  have Qs: "snd p \<in> S" if "p \<in> ?Q" for p
    using that A F qs unfolding matching_def within_def by (cases p) fastforce
  have "inj_on snd (set qs)" "inj_on fst (set qs)" "distinct qs" using qs by (simp_all add: matching_def distinct_map)
  then have "card ?Q \<le> card S" using Qs fin by (intro card_inj_on_le [of snd]) (auto intro: inj_on_subset)
  moreover have "card ?R \<le> card ({..<?n} - (?A \<union> ?F))"
    using \<open>inj_on fst (set qs)\<close> qs by (intro card_inj_on_le [of fst]) (auto simp: matching_def intro: inj_on_subset)
  moreover have "length qs = card ?Q + card ?R"
  proof -
    have "card {p \<in> set qs. P p} = length (filter P qs)" for P
      using distinct_card [OF distinct_filter [OF \<open>distinct qs\<close>, of P]] by simp
    then show ?thesis using sum_length_filter_compl [of "\<lambda>p. fst p \<in> ?A \<union> ?F" qs] by presburger
  qed
  moreover have "card ({..<?n} - (?A \<union> ?F)) = ?n - (card ?A + card ?F)"
  proof -
    have "card (?A \<union> ?F) = card ?A + card ?F" by (intro card_Un_disjoint) auto
    moreover have "card ({..<?n} - (?A \<union> ?F)) = card {..<?n} - card (?A \<union> ?F)" by (intro card_Diff_subset) auto
    ultimately show ?thesis by simp
  qed
  moreover have "card ?A + card ?F \<le> ?n"
  proof -
    have "card ?A + card ?F = card (?A \<union> ?F)" by (intro card_Un_disjoint [symmetric]) auto
    also have "\<dots> \<le> card {..<?n}" by (intro card_mono) auto
    finally show ?thesis by simp
  qed
  ultimately show ?thesis using card_A by linarith
qed

lemma search_inv_start: "search_inv g 0 {} (MaxBipartiteMatchState g)"
  by (simp add: search_inv_def MaxBipartiteMatchState_def bip_ok_def reset_def consistent_def closed_def)

lemma FindMaxBipartiteMatching_max:
  assumes "mm_ok g"
  shows "\<exists>ps. FindMaxBipartiteMatching g = Inr ps \<and> matching g ps \<and> (\<forall>qs. matching g qs \<longrightarrow> length qs \<le> length ps)"
proof -
  from augment_all_ok [OF assms search_inv_start] obtain s S where
    s: "augment_all g 0 (MaxBipartiteMatchState g) = Inr s" "search_inv g (num_elements g) S s" by auto
  then show ?thesis using final_matching [OF s(2)] final_length [OF s(2)] matching_bound [OF s(2)]
    by (fastforce simp: FindMaxBipartiteMatching_def)
qed

end
