(* ===== verification/Gm_Unordered.thy ===== *)
theory Gm_Unordered
  imports Gm_Matching_Max
begin

section \<open>Matching without order (\<open>googlemock/src/gmock-matchers.cc\<close>)\<close>

text \<open>
  The rest of \<open>gmock-matchers.cc\<close>: the helpers of the matrix, and the matcher behind
  \<open>UnorderedElementsAre\<close>, \<open>IsSupersetOf\<close> and \<open>IsSubsetOf\<close> with its explanations.  A listener is
  \<open>None\<close> when it is not interested and \<open>Some\<close> of the text written to it otherwise; a
  stream is the text written to it.  What a sub-matcher says of itself is a parameter.
\<close>

type_synonym listener = "string option"

definition say :: "string \<Rightarrow> listener \<Rightarrow> listener" where
  "say t l = map_option (\<lambda>s. s @ t) l"

definition IsInterested :: "listener \<Rightarrow> bool" where
  "IsInterested l \<longleftrightarrow> l \<noteq> None"

subsection \<open>Helpers of the matrix\<close>

text \<open>\<open>NextGraph\<close> adds 1 to the binary number whose least significant digit is the first entry; it
  walks over the entries in the order of the two loops.\<close>

fun next_graph_loop :: "match_matrix \<Rightarrow> (nat \<times> nat) list \<Rightarrow> stop + (bool \<times> match_matrix)" where
  "next_graph_loop g [] = Inr (False, g)"
| "next_graph_loop g ((ilhs, irhs) # is) =
     bindr (vat (matched g) (SpaceIndex g ilhs irhs)) (\<lambda>b.
     if \<not> b then bindr (SetEdge g ilhs irhs True) (\<lambda>g1. Inr (True, g1))
     else bindr (SetEdge g ilhs irhs False) (\<lambda>g1. next_graph_loop g1 is))"

definition NextGraph :: "match_matrix \<Rightarrow> stop + (bool \<times> match_matrix)" where
  "NextGraph g = next_graph_loop g (List.product [0..<num_elements g] [0..<num_matchers g])"

text \<open>\<open>Randomize\<close> takes the last bit of a number of \<open>rand()\<close> for every entry: the numbers are a
  parameter.\<close>

definition Randomize :: "(nat \<Rightarrow> nat) \<Rightarrow> match_matrix \<Rightarrow> stop + match_matrix" where
  "Randomize rand g =
     bindr (rfold (\<lambda>ilhs. rfold (\<lambda>irhs (g1, k).
         bindr (SetEdge g1 ilhs irhs (odd (rand k))) (\<lambda>g2. Inr (g2, Suc k))) [0..<num_matchers g])
       [0..<num_elements g] (g, 0)) (\<lambda>(g1, k). Inr g1)"

definition DebugString :: "match_matrix \<Rightarrow> stop + string" where
  "DebugString g =
     bindr (rfold (\<lambda>i (ss, sep).
         bindr (rfold (\<lambda>j ss. bindr (HasEdge g i j) (\<lambda>b. Inr (ss @ show_bool b))) [0..<num_matchers g] (ss @ sep)) (\<lambda>ss.
         Inr (ss, '';''))) [0..<num_elements g] ([], [])) (\<lambda>(ss, sep). Inr ss)"

definition LogElementMatcherPairVec :: "(nat \<times> nat) list \<Rightarrow> string" where
  "LogElementMatcherPairVec pairs = ''{'' @
     fst (fold (\<lambda>(l, r) (os, sep). (os @ sep @ [LF] @ ''  ('' @ ''element #'' @ dec_digits l @ '', '' @
       ''matcher #'' @ dec_digits r @ '')'', '','')) pairs ([], [])) @ [LF] @ ''}''"

subsection \<open>Descriptions\<close>

datatype match_flags = Superset | Subset | ExactMatch

definition has_superset :: "match_flags \<Rightarrow> bool" where
  "has_superset f \<longleftrightarrow> f = Superset \<or> f = ExactMatch"

definition has_subset :: "match_flags \<Rightarrow> bool" where
  "has_subset f \<longleftrightarrow> f = Subset \<or> f = ExactMatch"

text \<open>A describer: what \<open>DescribeTo\<close> and \<open>DescribeNegationTo\<close> write.\<close>

type_synonym describer = "string \<times> string"

definition Elements :: "nat \<Rightarrow> string" where
  "Elements n = dec_digits n @ '' element'' @ (if n = 1 then [] else ''s'')"

fun describe_list :: "match_flags \<Rightarrow> nat \<Rightarrow> string \<Rightarrow> describer list \<Rightarrow> string" where
  "describe_list f i sep [] = []"
| "describe_list f i sep (d # ds) = sep @
     (if f = ExactMatch then '' - element #'' @ dec_digits i @ '' '' else '' - an element '') @ fst d @
     describe_list f (Suc i) (if f = ExactMatch then '', and'' @ [LF] else [LF]) ds"

definition DescribeToImpl :: "match_flags \<Rightarrow> describer list \<Rightarrow> string" where
  "DescribeToImpl f ds =
     (case f of
        ExactMatch \<Rightarrow>
          (case ds of
             [] \<Rightarrow> ''is empty''
           | [d] \<Rightarrow> ''has '' @ Elements 1 @ '' and that element '' @ fst d
           | _ \<Rightarrow> ''has '' @ Elements (length ds) @ '' and there exists some permutation of elements such that:'' @ [LF] @
                  describe_list f 0 [] ds)
      | Superset \<Rightarrow> ''a surjection from elements to requirements exists such that:'' @ [LF] @ describe_list f 0 [] ds
      | Subset \<Rightarrow> ''an injection from elements to requirements exists such that:'' @ [LF] @ describe_list f 0 [] ds)"

definition DescribeNegationToImpl :: "match_flags \<Rightarrow> describer list \<Rightarrow> string" where
  "DescribeNegationToImpl f ds =
     (case f of
        ExactMatch \<Rightarrow>
          (case ds of
             [] \<Rightarrow> ''isn't empty''
           | [d] \<Rightarrow> ''doesn't have '' @ Elements 1 @ '', or has '' @ Elements 1 @ '' that '' @ snd d
           | _ \<Rightarrow> ''doesn't have '' @ Elements (length ds) @ '', or there exists no permutation of elements such that:'' @ [LF] @
                  describe_list f 0 [] ds)
      | Superset \<Rightarrow> ''no surjection from elements to requirements exists such that:'' @ [LF] @ describe_list f 0 [] ds
      | Subset \<Rightarrow> ''no injection from elements to requirements exists such that:'' @ [LF] @ describe_list f 0 [] ds)"

subsection \<open>The decision\<close>

text \<open>Which elements and which matchers have a partner at all.\<close>

definition partners :: "match_matrix \<Rightarrow> stop + (bool list \<times> bool list)" where
  "partners g = rfold (\<lambda>ilhs. rfold (\<lambda>irhs (em, mm).
       bindr (HasEdge g ilhs irhs) (\<lambda>b.
       bindr (vat em ilhs) (\<lambda>e. bindr (vput em ilhs (e \<or> b)) (\<lambda>em1.
       bindr (vat mm irhs) (\<lambda>m. bindr (vput mm irhs (m \<or> b)) (\<lambda>mm1. Inr (em1, mm1)))))))
     [0..<num_matchers g]) [0..<num_elements g] (replicate (num_elements g) False, replicate (num_matchers g) False)"

definition unmatched_matchers :: "describer list \<Rightarrow> bool list \<Rightarrow> listener \<Rightarrow> stop + (bool \<times> listener)" where
  "unmatched_matchers ds mm l =
     bindr (rfold (\<lambda>mi (result, l, sep).
         bindr (vat mm mi) (\<lambda>m. if m then Inr (result, l, sep)
         else if IsInterested l
         then bindr (vat ds mi) (\<lambda>d.
           Inr (False, say (sep @ ''matcher #'' @ dec_digits mi @ '': '' @ fst d) l, '','' @ [LF]))
         else Inr (False, l, sep))) [0..<length mm]
       (True, l, ''where the following matchers don't match any elements:'' @ [LF])) (\<lambda>(result, l, sep). Inr (result, l))"

definition unmatched_elements :: "string list \<Rightarrow> bool list \<Rightarrow> bool \<Rightarrow> listener \<Rightarrow> stop + (bool \<times> listener)" where
  "unmatched_elements printouts em result l =
     bindr (rfold (\<lambda>ei (result, l, outer_sep, sep).
         bindr (vat em ei) (\<lambda>m. if m then Inr (result, l, outer_sep, sep)
         else if IsInterested l
         then bindr (vat printouts ei) (\<lambda>p.
           Inr (False, say (outer_sep @ sep @ ''element #'' @ dec_digits ei @ '': '' @ p) l, [], '','' @ [LF]))
         else Inr (False, l, outer_sep, sep))) [0..<length em]
       (result, l, if result then [] else [LF] @ ''and '',
        ''where the following elements don't match any matchers:'' @ [LF])) (\<lambda>(result, l, outer_sep, sep). Inr (result, l))"

definition VerifyMatchMatrix ::
  "match_flags \<Rightarrow> describer list \<Rightarrow> string list \<Rightarrow> match_matrix \<Rightarrow> listener \<Rightarrow> stop + (bool \<times> listener)" where
  "VerifyMatchMatrix f ds printouts g l =
     (if num_elements g = 0 \<and> num_matchers g = 0 then Inr (True, l)
      else if f = ExactMatch \<and> num_elements g \<noteq> num_matchers g
      then Inr (False, if num_elements g \<noteq> 0 \<and> IsInterested l then say (''which has '' @ Elements (num_elements g)) l else l)
      else
        bindr (partners g) (\<lambda>(em, mm).
        bindr (if has_superset f then unmatched_matchers ds mm l else Inr (True, l)) (\<lambda>(result, l).
        if has_subset f then unmatched_elements printouts em result l else Inr (result, l))))"

definition FindPairing :: "match_flags \<Rightarrow> match_matrix \<Rightarrow> listener \<Rightarrow> stop + (bool \<times> listener)" where
  "FindPairing f g l =
     bindr (FindMaxBipartiteMatching g) (\<lambda>matches.
     let max_flow = length matches in
     if has_superset f \<and> max_flow < num_matchers g
     then Inr (False, say (''where no permutation of the elements can satisfy all matchers, and the closest match is '' @
        dec_digits max_flow @ '' of '' @ dec_digits (num_matchers g) @ '' matchers with the pairings:'' @ [LF] @
        LogElementMatcherPairVec matches) l)
     else if has_subset f \<and> max_flow < num_elements g
     then Inr (False, say (''where not all elements can be matched, and the closest match is '' @
        dec_digits max_flow @ '' of '' @ dec_digits (num_matchers g) @ '' matchers with the pairings:'' @ [LF] @
        LogElementMatcherPairVec matches) l)
     else if 1 < length matches
     then Inr (True, fst (fold (\<lambda>(e, m) (l, sep).
         (say (sep @ '' - element #'' @ dec_digits e @ '' is matched by matcher #'' @ dec_digits m) l, '','' @ [LF]))
       matches (l, ''where:'' @ [LF])))
     else Inr (True, l))"

text \<open>A sub-matcher: whether it matches an element, and its description.\<close>

record 'a matcher =
  mt_matches :: "'a \<Rightarrow> bool"
  mt_describer :: describer

text \<open>\<open>AnalyzeElements\<close> runs every matcher on every element, then fills the matrix from the results.\<close>

definition did_match :: "'a matcher list \<Rightarrow> 'a list \<Rightarrow> bool list" where
  "did_match ms xs = concat (map (\<lambda>x. map (\<lambda>m. mt_matches m x) ms) xs)"

definition AnalyzeElements ::
  "('a \<Rightarrow> string) \<Rightarrow> 'a matcher list \<Rightarrow> 'a list \<Rightarrow> listener \<Rightarrow> stop + (match_matrix \<times> string list)" where
  "AnalyzeElements PrintToString ms xs l =
     bindr (rfold (\<lambda>ilhs. rfold (\<lambda>irhs (g, iter).
         bindr (vat (did_match ms xs) iter) (\<lambda>b.
         bindr (SetEdge g ilhs irhs b) (\<lambda>g1. Inr (g1, Suc iter)))) [0..<length ms])
       [0..<length xs] (MatchMatrix (length xs) (length ms), 0)) (\<lambda>(g, iter).
     Inr (g, if IsInterested l then map PrintToString xs else []))"

definition MatchAndExplain ::
  "('a \<Rightarrow> string) \<Rightarrow> match_flags \<Rightarrow> 'a matcher list \<Rightarrow> 'a list \<Rightarrow> listener \<Rightarrow> stop + (bool \<times> listener)" where
  "MatchAndExplain PrintToString f ms xs l =
     bindr (AnalyzeElements PrintToString ms xs l) (\<lambda>(matrix, printouts).
     bindr (VerifyMatchMatrix f (map mt_describer ms) printouts matrix l) (\<lambda>(ok, l).
     if ok then FindPairing f matrix l else Inr (False, l)))"

end
