(* ===== verification/Gm_Unordered_Spec.thy ===== *)
theory Gm_Unordered_Spec
  imports Gm_Unordered
begin

section \<open>Matching without order decides the existence of an assignment\<close>

lemma IsInterested_say [simp]: "IsInterested (say t l) = IsInterested l"
  by (simp add: IsInterested_def say_def)

subsection \<open>The matrix of a container\<close>

lemma length_did_match [simp]: "length (did_match ms xs) = length xs * length ms"
  unfolding did_match_def by (induction xs) simp_all

lemma did_match_nth:
  "i < length xs \<Longrightarrow> j < length ms \<Longrightarrow> did_match ms xs ! (i * length ms + j) \<longleftrightarrow> mt_matches (ms ! j) (xs ! i)"
proof (induction xs arbitrary: i)
  case (Cons x xs)
  have eq: "did_match ms (x # xs) = map (\<lambda>m. mt_matches m x) ms @ did_match ms xs" by (simp add: did_match_def)
  show ?case
  proof (cases i)
    case 0
    with Cons.prems show ?thesis by (simp add: eq nth_append)
  next
    case (Suc i')
    with Cons.IH [of i'] Cons.prems show ?thesis by (simp add: eq nth_append)
  qed
qed simp

definition filled :: "'a matcher list \<Rightarrow> 'a list \<Rightarrow> nat \<Rightarrow> match_matrix \<times> nat \<Rightarrow> bool" where
  "filled ms xs k = (\<lambda>(g, iter). iter = k \<and> num_elements g = length xs \<and> num_matchers g = length ms \<and> mm_ok g \<and>
     (\<forall>q < k. matched g ! q = did_match ms xs ! q))"

lemma fill_row:
  assumes "i < length xs" "filled ms xs (i * length ms) s"
  shows "\<exists>s'. rfold (\<lambda>irhs (g, iter).
         bindr (vat (did_match ms xs) iter) (\<lambda>b.
         bindr (SetEdge g i irhs b) (\<lambda>g1. Inr (g1, Suc iter)))) [0..<length ms] s = Inr s' \<and>
     filled ms xs (i * length ms + length ms) s'"
proof (rule rfold_upt_inv [where I = "\<lambda>j. filled ms xs (i * length ms + j)"])
  fix j s assume j: "j < length ms" and f: "filled ms xs (i * length ms + j) s"
  obtain g where g: "s = (g, i * length ms + j)" "num_elements g = length xs" "num_matchers g = length ms" "mm_ok g"
      "\<forall>q < i * length ms + j. matched g ! q = did_match ms xs ! q"
    using f by (cases s) (simp add: filled_def)
  have k: "i * length ms + j < length xs * length ms"
    using SpaceIndex_less [of i g j] g assms(1) j by (simp add: SpaceIndex_def)
  let ?g = "g\<lparr>matched := (matched g)[i * length ms + j := did_match ms xs ! (i * length ms + j)]\<rparr>"
  have "filled ms xs (i * length ms + Suc j) (?g, Suc (i * length ms + j))"
    using g k by (auto simp: filled_def mm_ok_def nth_list_update less_Suc_eq)
  moreover have "SetEdge g i j b = Inr (g\<lparr>matched := (matched g)[i * length ms + j := b]\<rparr>)" for b
    using g k by (simp add: SetEdge_def SpaceIndex_def vput_Inr mm_ok_def)
  ultimately show "\<exists>s'. (case s of (g, iter) \<Rightarrow>
         bindr (vat (did_match ms xs) iter) (\<lambda>b.
         bindr (SetEdge g i j b) (\<lambda>g1. Inr (g1, Suc iter)))) = Inr s' \<and> filled ms xs (i * length ms + Suc j) s'"
    using k by (simp add: g(1) vat_Inr)
qed (use assms in simp)

lemma AnalyzeElements_ok:
  "\<exists>g. AnalyzeElements pr ms xs l = Inr (g, if IsInterested l then map pr xs else []) \<and> mm_ok g \<and>
     num_elements g = length xs \<and> num_matchers g = length ms \<and>
     (\<forall>i < length xs. \<forall>j < length ms. edge g i j \<longleftrightarrow> mt_matches (ms ! j) (xs ! i))"
proof -
  have "filled ms xs 0 (MatchMatrix (length xs) (length ms), 0)"
    by (simp add: filled_def MatchMatrix_def mm_ok_def)
  then have "\<exists>s'. rfold (\<lambda>ilhs. rfold (\<lambda>irhs (g, iter).
         bindr (vat (did_match ms xs) iter) (\<lambda>b.
         bindr (SetEdge g ilhs irhs b) (\<lambda>g1. Inr (g1, Suc iter)))) [0..<length ms])
       [0..<length xs] (MatchMatrix (length xs) (length ms), 0) = Inr s' \<and> filled ms xs (length xs * length ms) s'"
    using fill_row [of _ xs ms]
    by (intro rfold_upt_inv [where I = "\<lambda>i. filled ms xs (i * length ms)"]) (auto simp: add.commute)
  then obtain s' where s': "rfold (\<lambda>ilhs. rfold (\<lambda>irhs (g, iter).
         bindr (vat (did_match ms xs) iter) (\<lambda>b.
         bindr (SetEdge g ilhs irhs b) (\<lambda>g1. Inr (g1, Suc iter)))) [0..<length ms])
       [0..<length xs] (MatchMatrix (length xs) (length ms), 0) = Inr s'" "filled ms xs (length xs * length ms) s'" by blast
  obtain g iter where g: "s' = (g, iter)" by (cases s')
  have "edge g i j \<longleftrightarrow> mt_matches (ms ! j) (xs ! i)" if ij: "i < length xs" "j < length ms" for i j
    using s'(2) SpaceIndex_less [of i g j] ij did_match_nth [OF ij]
    by (simp add: g filled_def edge_def SpaceIndex_def)
  with s' show ?thesis by (auto simp: AnalyzeElements_def g filled_def)
qed

subsection \<open>Elements and matchers without a partner\<close>

definition partners_at :: "match_matrix \<Rightarrow> nat \<Rightarrow> nat \<Rightarrow> bool list \<times> bool list \<Rightarrow> bool" where
  "partners_at g i j = (\<lambda>(em, mm). length em = num_elements g \<and> length mm = num_matchers g \<and>
     (\<forall>k < num_elements g. em ! k \<longleftrightarrow> (\<exists>q < num_matchers g. (k < i \<or> k = i \<and> q < j) \<and> edge g k q)) \<and>
     (\<forall>q < num_matchers g. mm ! q \<longleftrightarrow> (\<exists>k < num_elements g. (k < i \<or> k = i \<and> q < j) \<and> edge g k q)))"

lemma partners_row:
  assumes "mm_ok g" "i < num_elements g" "partners_at g i 0 s"
  shows "\<exists>s'. rfold (\<lambda>irhs (em, mm).
       bindr (HasEdge g i irhs) (\<lambda>b.
       bindr (vat em i) (\<lambda>e. bindr (vput em i (e \<or> b)) (\<lambda>em1.
       bindr (vat mm irhs) (\<lambda>m. bindr (vput mm irhs (m \<or> b)) (\<lambda>mm1. Inr (em1, mm1)))))))
     [0..<num_matchers g] s = Inr s' \<and> partners_at g i (num_matchers g) s'"
proof (rule rfold_upt_inv [where I = "partners_at g i"])
  fix j s assume j: "j < num_matchers g" and p: "partners_at g i j s"
  obtain em mm where s: "s = (em, mm)" by (cases s)
  from p have len: "length em = num_elements g" "length mm = num_matchers g" by (simp_all add: partners_at_def s)
  have "partners_at g i (Suc j) (em[i := em ! i \<or> edge g i j], mm[j := mm ! j \<or> edge g i j])"
    using p assms(2) j unfolding partners_at_def s
    by (auto simp: nth_list_update less_Suc_eq)
  with len assms(1,2) j show "\<exists>s'. (case s of (em, mm) \<Rightarrow>
       bindr (HasEdge g i j) (\<lambda>b.
       bindr (vat em i) (\<lambda>e. bindr (vput em i (e \<or> b)) (\<lambda>em1.
       bindr (vat mm j) (\<lambda>m. bindr (vput mm j (m \<or> b)) (\<lambda>mm1. Inr (em1, mm1))))))) = Inr s' \<and> partners_at g i (Suc j) s'"
    by (simp add: s HasEdge_edge vec_simps)
qed (use assms in simp)

lemma partners_ok:
  assumes "mm_ok g"
  shows "\<exists>em mm. partners g = Inr (em, mm) \<and> length em = num_elements g \<and> length mm = num_matchers g \<and>
     (\<forall>k < num_elements g. em ! k \<longleftrightarrow> (\<exists>q < num_matchers g. edge g k q)) \<and>
     (\<forall>q < num_matchers g. mm ! q \<longleftrightarrow> (\<exists>k < num_elements g. edge g k q))"
proof -
  have next_row: "partners_at g (Suc i) 0 s" if "partners_at g i (num_matchers g) s" for i s
    using that by (auto simp: partners_at_def less_Suc_eq)
  have "partners_at g 0 0 (replicate (num_elements g) False, replicate (num_matchers g) False)"
    by (simp add: partners_at_def)
  then have "\<exists>s'. partners g = Inr s' \<and> partners_at g (num_elements g) 0 s'"
    unfolding partners_def using partners_row [OF assms] next_row
    by (intro rfold_upt_inv [where I = "\<lambda>i. partners_at g i 0"]) blast+
  then show ?thesis by (auto simp: partners_at_def)
qed

lemma unmatched_matchers_ok:
  assumes "length ds = length mm"
  shows "\<exists>l'. unmatched_matchers ds mm l = Inr (\<forall>q < length mm. mm ! q, l') \<and> IsInterested l' = IsInterested l"
proof -
  let ?I = "\<lambda>i (result, l', sep :: string). (result \<longleftrightarrow> (\<forall>q < i. mm ! q)) \<and> IsInterested l' = IsInterested l"
  have "\<exists>s'. rfold (\<lambda>mi (result, l, sep).
         bindr (vat mm mi) (\<lambda>m. if m then Inr (result, l, sep)
         else if IsInterested l
         then bindr (vat ds mi) (\<lambda>d.
           Inr (False, say (sep @ ''matcher #'' @ dec_digits mi @ '': '' @ fst d) l, '','' @ [LF]))
         else Inr (False, l, sep))) [0..<length mm]
       (True, l, ''where the following matchers don't match any elements:'' @ [LF]) = Inr s' \<and> ?I (length mm) s'"
    using assms by (intro rfold_upt_inv [where I = ?I]) (auto simp: vat_Inr All_less_Suc)
  then show ?thesis by (auto simp: unmatched_matchers_def)
qed

lemma unmatched_elements_ok:
  assumes "IsInterested l \<Longrightarrow> length ps = length em"
  shows "\<exists>l'. unmatched_elements ps em result l = Inr (result \<and> (\<forall>q < length em. em ! q), l') \<and> IsInterested l' = IsInterested l"
proof -
  let ?I = "\<lambda>i (r, l', os :: string, sep :: string). (r \<longleftrightarrow> result \<and> (\<forall>q < i. em ! q)) \<and> IsInterested l' = IsInterested l"
  have "\<exists>s'. rfold (\<lambda>ei (result, l, outer_sep, sep).
         bindr (vat em ei) (\<lambda>m. if m then Inr (result, l, outer_sep, sep)
         else if IsInterested l
         then bindr (vat ps ei) (\<lambda>p.
           Inr (False, say (outer_sep @ sep @ ''element #'' @ dec_digits ei @ '': '' @ p) l, [], '','' @ [LF]))
         else Inr (False, l, outer_sep, sep))) [0..<length em]
       (result, l, if result then [] else [LF] @ ''and '',
        ''where the following elements don't match any matchers:'' @ [LF]) = Inr s' \<and> ?I (length em) s'"
    using assms by (intro rfold_upt_inv [where I = ?I]) (auto simp: vat_Inr All_less_Suc)
  then show ?thesis by (auto simp: unmatched_elements_def)
qed

subsection \<open>Matchings and assignments\<close>

lemma matching_length: "matching g ps \<Longrightarrow> length ps \<le> num_elements g \<and> length ps \<le> num_matchers g"
proof
  assume m: "matching g ps"
  have "card (set (map fst ps)) \<le> card {..<num_elements g}" using m by (intro card_mono) (auto simp: matching_def)
  with m show "length ps \<le> num_elements g" by (simp add: matching_def distinct_card del: set_map)
  have "card (set (map snd ps)) \<le> card {..<num_matchers g}" using m by (intro card_mono) (auto simp: matching_def)
  with m show "length ps \<le> num_matchers g" by (simp add: matching_def distinct_card del: set_map)
qed

definition assigns_elements :: "match_matrix \<Rightarrow> (nat \<Rightarrow> nat) \<Rightarrow> bool" where
  "assigns_elements g a \<longleftrightarrow> inj_on a {..<num_elements g} \<and> (\<forall>i < num_elements g. a i < num_matchers g \<and> edge g i (a i))"

definition assigns_matchers :: "match_matrix \<Rightarrow> (nat \<Rightarrow> nat) \<Rightarrow> bool" where
  "assigns_matchers g a \<longleftrightarrow> inj_on a {..<num_matchers g} \<and> (\<forall>j < num_matchers g. a j < num_elements g \<and> edge g (a j) j)"

lemma full_list: "distinct xs \<Longrightarrow> set xs \<subseteq> {..<n} \<Longrightarrow> length xs = n \<Longrightarrow> set xs = {..<n}"
  by (intro card_subset_eq) (auto simp: distinct_card)

lemma elements_matching:
  "(\<exists>ps. matching g ps \<and> length ps = num_elements g) \<longleftrightarrow> (\<exists>a. assigns_elements g a)"
proof
  assume "\<exists>ps. matching g ps \<and> length ps = num_elements g"
  then obtain ps where m: "matching g ps" "length ps = num_elements g" by blast
  then have d: "distinct (map fst ps)" "distinct (map snd ps)" by (simp_all add: matching_def)
  have dom: "set (map fst ps) = {..<num_elements g}" using m by (intro full_list) (auto simp: matching_def)
  let ?a = "\<lambda>i. the (map_of ps i)"
  have a: "(i, ?a i) \<in> set ps" if "i < num_elements g" for i
  proof -
    have "i \<in> fst ` set ps" using that dom by simp
    then obtain r where "map_of ps i = Some r" by (metis domIff dom_map_of_conv_image_fst option.exhaust)
    then show ?thesis by (simp add: map_of_SomeD)
  qed
  have "inj_on ?a {..<num_elements g}"
  proof (rule inj_onI)
    fix i j assume ij: "i \<in> {..<num_elements g}" "j \<in> {..<num_elements g}" and eq: "?a i = ?a j"
    from ij have "(i, ?a i) \<in> set ps" "(j, ?a j) \<in> set ps" using a by simp_all
    then have "(i, ?a i) \<in> set ps" "(j, ?a i) \<in> set ps" by (simp_all only: eq)
    with d(2) show "i = j" unfolding distinct_map inj_on_def by fastforce
  qed
  moreover have "?a i < num_matchers g \<and> edge g i (?a i)" if "i < num_elements g" for i
    using m(1) a [OF that] unfolding matching_def by blast
  ultimately show "\<exists>a. assigns_elements g a" unfolding assigns_elements_def by blast
next
  assume "\<exists>a. assigns_elements g a"
  then obtain a where a: "assigns_elements g a" ..
  let ?ps = "map (\<lambda>i. (i, a i)) [0..<num_elements g]"
  have "matching g ?ps"
    using a by (auto simp: matching_def assigns_elements_def distinct_map o_def lessThan_atLeast0)
  then show "\<exists>ps. matching g ps \<and> length ps = num_elements g" by (intro exI [of _ ?ps]) simp
qed

lemma matchers_matching:
  "(\<exists>ps. matching g ps \<and> length ps = num_matchers g) \<longleftrightarrow> (\<exists>a. assigns_matchers g a)"
proof
  assume "\<exists>ps. matching g ps \<and> length ps = num_matchers g"
  then obtain ps where m: "matching g ps" "length ps = num_matchers g" by blast
  then have d: "distinct (map fst ps)" "distinct (map snd ps)" by (simp_all add: matching_def)
  have dom: "set (map snd ps) = {..<num_matchers g}" using m by (intro full_list) (auto simp: matching_def)
  have "\<exists>i. (i, j) \<in> set ps" if "j < num_matchers g" for j
  proof -
    have "j \<in> snd ` set ps" using that dom by simp
    then show ?thesis by auto
  qed
  then obtain a where a: "\<And>j. j < num_matchers g \<Longrightarrow> (a j, j) \<in> set ps" by metis
  have "inj_on a {..<num_matchers g}"
  proof (rule inj_onI)
    fix i j assume "i \<in> {..<num_matchers g}" "j \<in> {..<num_matchers g}" "a i = a j"
    then have "(a i, i) \<in> set ps" "(a i, j) \<in> set ps" using a [of i] a [of j] by auto
    with d(1) show "i = j" unfolding distinct_map inj_on_def by fastforce
  qed
  moreover have "a j < num_elements g \<and> edge g (a j) j" if "j < num_matchers g" for j
    using m(1) a [OF that] unfolding matching_def by blast
  ultimately show "\<exists>a. assigns_matchers g a" unfolding assigns_matchers_def by blast
next
  assume "\<exists>a. assigns_matchers g a"
  then obtain a where a: "assigns_matchers g a" ..
  let ?ps = "map (\<lambda>j. (a j, j)) [0..<num_matchers g]"
  have "matching g ?ps"
    using a by (auto simp: matching_def assigns_matchers_def distinct_map o_def lessThan_atLeast0)
  then show "\<exists>ps. matching g ps \<and> length ps = num_matchers g" by (intro exI [of _ ?ps]) simp
qed

subsection \<open>The decision\<close>

definition accepts :: "match_flags \<Rightarrow> match_matrix \<Rightarrow> bool" where
  "accepts f g \<longleftrightarrow> (has_superset f \<longrightarrow> (\<exists>a. assigns_matchers g a)) \<and> (has_subset f \<longrightarrow> (\<exists>a. assigns_elements g a))"

lemma FindPairing_ok:
  assumes "mm_ok g"
  shows "\<exists>l'. FindPairing f g l = Inr (accepts f g, l')"
proof -
  from FindMaxBipartiteMatching_max [OF assms] obtain ps where
    ps: "FindMaxBipartiteMatching g = Inr ps" "matching g ps" "\<And>qs. matching g qs \<Longrightarrow> length qs \<le> length ps" by blast
  note le = matching_length [OF ps(2)]
  have sz: "(\<exists>qs. matching g qs \<and> length qs = k) \<longleftrightarrow> \<not> length ps < k" if "length ps \<le> k" for k
    using that ps(2,3) by (metis leD le_neq_implies_less)
  have "(\<exists>a. assigns_matchers g a) \<longleftrightarrow> \<not> length ps < num_matchers g"
    "(\<exists>a. assigns_elements g a) \<longleftrightarrow> \<not> length ps < num_elements g"
    using sz [of "num_matchers g"] sz [of "num_elements g"] le
    unfolding matchers_matching [symmetric] elements_matching [symmetric] by blast+
  then show ?thesis by (auto simp: FindPairing_def ps(1) accepts_def Let_def)
qed

lemma VerifyMatchMatrix_ok:
  assumes "mm_ok g" "length ds = num_matchers g" "IsInterested l \<Longrightarrow> length ps = num_elements g"
  shows "\<exists>ok l'. VerifyMatchMatrix f ds ps g l = Inr (ok, l') \<and> (\<not> ok \<longrightarrow> \<not> accepts f g)"
proof -
  consider "num_elements g = 0 \<and> num_matchers g = 0"
    | "f = ExactMatch" "num_elements g \<noteq> num_matchers g"
    | "\<not> (num_elements g = 0 \<and> num_matchers g = 0)" "\<not> (f = ExactMatch \<and> num_elements g \<noteq> num_matchers g)" by blast
  then show ?thesis
  proof cases
    case 2
    have "\<not> accepts f g"
    proof
      assume "accepts f g"
      then obtain ps qs where "matching g ps" "length ps = num_matchers g" "matching g qs" "length qs = num_elements g"
        using 2(1) by (auto simp: accepts_def has_superset_def has_subset_def matchers_matching [symmetric]
            elements_matching [symmetric])
      with matching_length [of g ps] matching_length [of g qs] 2(2) show False by simp
    qed
    with 2 show ?thesis by (auto simp: VerifyMatchMatrix_def)
  next
    case 3
    from partners_ok [OF assms(1)] obtain em mm where p: "partners g = Inr (em, mm)"
      "length em = num_elements g" "length mm = num_matchers g"
      "\<forall>k < num_elements g. em ! k \<longleftrightarrow> (\<exists>q < num_matchers g. edge g k q)"
      "\<forall>q < num_matchers g. mm ! q \<longleftrightarrow> (\<exists>k < num_elements g. edge g k q)" by blast
    have mm: "\<forall>q < num_matchers g. mm ! q" if "assigns_matchers g a" for a
      using that p(5) by (auto simp: assigns_matchers_def)
    have em: "\<forall>k < num_elements g. em ! k" if "assigns_elements g a" for a
      using that p(4) by (auto simp: assigns_elements_def)
    obtain r l1 where r: "(if has_superset f then unmatched_matchers ds mm l else Inr (True, l)) = Inr (r, l1)"
      "IsInterested l1 = IsInterested l" "\<not> r \<longrightarrow> has_superset f \<and> \<not> (\<forall>q < num_matchers g. mm ! q)"
      using unmatched_matchers_ok [of ds mm l] assms(2) p(3) by (cases "has_superset f") auto
    have "\<exists>ok l'. (if has_subset f then unmatched_elements ps em r l1 else Inr (r, l1)) = Inr (ok, l') \<and>
        (ok \<longrightarrow> r) \<and> (\<not> ok \<longrightarrow> \<not> r \<or> has_subset f \<and> \<not> (\<forall>k < num_elements g. em ! k))"
      using unmatched_elements_ok [of l1 ps em r] assms(3) r(2) p(2) by (cases "has_subset f") auto
    then obtain ok l2 where ok: "(if has_subset f then unmatched_elements ps em r l1 else Inr (r, l1)) = Inr (ok, l2)"
      "\<not> ok \<longrightarrow> \<not> r \<or> has_subset f \<and> \<not> (\<forall>k < num_elements g. em ! k)" by blast
    have "VerifyMatchMatrix f ds ps g l = Inr (ok, l2)"
      using 3 p(1) r(1) ok(1) unfolding VerifyMatchMatrix_def by (auto simp del: if_split)
    moreover have "\<not> accepts f g" if "\<not> ok" using that ok(2) r(3) mm em unfolding accepts_def by blast
    ultimately show ?thesis by blast
  next
    case 1
    then show ?thesis by (intro exI [of _ True]) (simp add: VerifyMatchMatrix_def)
  qed
qed

text \<open>The matcher on a container.\<close>

definition element_assignment :: "('a matcher list) \<Rightarrow> 'a list \<Rightarrow> (nat \<Rightarrow> nat) \<Rightarrow> bool" where
  "element_assignment ms xs a \<longleftrightarrow> inj_on a {..<length xs} \<and>
     (\<forall>i < length xs. a i < length ms \<and> mt_matches (ms ! a i) (xs ! i))"

definition matcher_assignment :: "('a matcher list) \<Rightarrow> 'a list \<Rightarrow> (nat \<Rightarrow> nat) \<Rightarrow> bool" where
  "matcher_assignment ms xs a \<longleftrightarrow> inj_on a {..<length ms} \<and>
     (\<forall>j < length ms. a j < length xs \<and> mt_matches (ms ! j) (xs ! a j))"

lemma MatchAndExplain_ok:
  "\<exists>l'. MatchAndExplain pr f ms xs l = Inr
     ((has_superset f \<longrightarrow> (\<exists>a. matcher_assignment ms xs a)) \<and> (has_subset f \<longrightarrow> (\<exists>a. element_assignment ms xs a)), l')"
proof -
  from AnalyzeElements_ok [of pr ms xs l] obtain g where
    g: "AnalyzeElements pr ms xs l = Inr (g, if IsInterested l then map pr xs else [])" "mm_ok g"
      "num_elements g = length xs" "num_matchers g = length ms"
      "\<forall>i < length xs. \<forall>j < length ms. edge g i j \<longleftrightarrow> mt_matches (ms ! j) (xs ! i)" by blast
  have "assigns_elements g a \<longleftrightarrow> element_assignment ms xs a" for a
    using g(3-5) by (auto simp: assigns_elements_def element_assignment_def)
  moreover have "assigns_matchers g a \<longleftrightarrow> matcher_assignment ms xs a" for a
    using g(3-5) by (auto simp: assigns_matchers_def matcher_assignment_def)
  ultimately have acc: "accepts f g \<longleftrightarrow> (has_superset f \<longrightarrow> (\<exists>a. matcher_assignment ms xs a)) \<and>
      (has_subset f \<longrightarrow> (\<exists>a. element_assignment ms xs a))" by (simp add: accepts_def)
  let ?ps = "if IsInterested l then map pr xs else []"
  from VerifyMatchMatrix_ok [OF g(2), of "map mt_describer ms" l ?ps f] g obtain ok l1 where
    v: "VerifyMatchMatrix f (map mt_describer ms) ?ps g l = Inr (ok, l1)" "\<not> ok \<longrightarrow> \<not> accepts f g" by auto
  show ?thesis
  proof (cases ok)
    case True
    with FindPairing_ok [OF g(2), of f l1] v(1) g(1) show ?thesis by (simp add: MatchAndExplain_def acc [symmetric])
  next
    case False
    with v g(1) show ?thesis by (simp add: MatchAndExplain_def acc [symmetric])
  qed
qed

text \<open>With as many matchers as elements, either direction is a permutation.\<close>

lemma assignments_same_length:
  assumes "matcher_assignment ms xs a" "element_assignment ms xs b"
  shows "length ms = length xs"
proof (rule antisym)
  have "card {..<length ms} \<le> card {..<length xs}"
    using assms(1) by (intro card_inj_on_le [of a]) (auto simp: matcher_assignment_def)
  then show "length ms \<le> length xs" by simp
  have "card {..<length xs} \<le> card {..<length ms}"
    using assms(2) by (intro card_inj_on_le [of b]) (auto simp: element_assignment_def)
  then show "length xs \<le> length ms" by simp
qed

end
