(* ===== verification/Gt_Results.thy ===== *)
theory Gt_Results
  imports Gt_Shards Gt_FilePath Gm_Unordered_Spec
begin

section \<open>Results on the test framework\<close>

subsection \<open>Running tests\<close>

text \<open>C19. \<open>UnitTest::Run\<close> returns for every registered set of suites, whatever the tests do and in
  whatever order the shuffle puts them, and its exit code is right: it is 1 iff a failing part was
  reported to the listeners during the run, or the ad hoc result held a failure before and there was an
  iteration; for the help and for the list of the tests it is 0 and nothing is run.  The code under test
  may throw when exceptions are caught: anything but a \<open>GoogleTestFailureException\<close>, and an
  \<open>AssertionException\<close> only after a fatal failure; an environment that throws ends the run.  The number of
  repetitions is not negative and the variables for shards are right.\<close>

theorem run_fails_iff_failure_reported:
  assumes "registered u" "tame_unit (fl_catch_exceptions fl) u"
    "ShouldShard env kTestTotalShards kTestShardIndex death = Inr shard"
    "0 \<le> fl_repeat fl" "fl_repeat fl \<le> INT_MAX"
  shows "\<exists>code u' evs. UnitTest_Run fl env time death u = Inr (code, u') \<and> ut_log u' = ut_log u @ evs \<and>
    (if fl_help fl \<or> fl_list_tests fl then code = 0 \<and> evs = []
     else code = (if fails evs \<or> ((death \<or> 0 < fl_repeat fl) \<and> Failed (ut_ad_hoc u)) then 1 else 0))"
proof (cases "fl_help fl \<or> fl_list_tests fl")
  case True
  from FilterTests_fine [OF assms(1-3), of 1 fl] obtain tss n where
    "FilterTests fl env shard (ut_suites u) = Inr (tss, n)" by (auto simp: kMaxRandomSeed_def)
  with True assms(3) show ?thesis by (cases "fl_help fl") (simp_all add: UnitTest_Run_def RunAllTests_def)
next
  case False
  with UnitTest_Run_ok [OF assms, of time] show ?thesis by auto
qed

text \<open>
  A unit test with one suite of two tests, one of which throws, and an environment that throws when it
  is torn down, run in a random order.
\<close>

definition quiet_code :: "unit code" where
  "quiet_code w = ([], None, w)"

definition throwing_code :: "unit code" where
  "throwing_code w = ([], Some OtherException, w)"

definition sample_test :: "string \<Rightarrow> unit code \<Rightarrow> unit test_info" where
  "sample_test name body = \<lparr>ti_name = name, ti_same_class = True, ti_should_run = False, ti_is_disabled = False,
     ti_matches_filter = False, ti_in_another_shard = False, ti_result = [], ti_ctor = quiet_code, ti_setup = quiet_code,
     ti_body = body, ti_teardown = quiet_code, ti_dtor = quiet_code\<rparr>"

definition sample_suite :: "unit test_suite" where
  "sample_suite = \<lparr>ts_name = ''S'', ts_tests = [sample_test ''A'' quiet_code, sample_test ''B'' throwing_code],
     ts_indices = [0, 1], ts_should_run = False, ts_ad_hoc = [], ts_setup = quiet_code, ts_teardown = quiet_code\<rparr>"

definition sample_unit :: "unit unit_test" where
  "sample_unit = \<lparr>ut_suites = [sample_suite], ut_indices = [0], ut_last_death = - 1, ut_ad_hoc = [],
     ut_envs = [(quiet_code, throwing_code)], ut_world = (), ut_random = 0, ut_random_seed = 0, ut_log = []\<rparr>"

definition sample_flags :: run_flags where
  "sample_flags = \<lparr>fl_filter = ''*'', fl_also_run_disabled = True, fl_fail_fast = False, fl_shuffle = True,
     fl_repeat = 2, fl_random_seed = 5, fl_recreate_environments = True, fl_catch_exceptions = True,
     fl_list_tests = False, fl_help = False\<rparr>"

lemma sample_registered: "registered sample_unit" "tame_unit True sample_unit"
  by (simp_all add: registered_def tame_unit_def tame_test_def tame_def sample_unit_def sample_suite_def sample_test_def
      quiet_code_def throwing_code_def upt_rec)

lemma run_fails_iff_failure_reported_witness:
  "\<exists>code u' evs. UnitTest_Run sample_flags (\<lambda>_. None) 0 False sample_unit = Inr (code, u') \<and> ut_log u' = evs \<and>
    code = (if fails evs then 1 else 0)"
proof -
  have "ShouldShard (\<lambda>_. None) kTestTotalShards kTestShardIndex False = Inr False"
    by (simp add: ShouldShard_def Int32FromEnvOrDie_def)
  from run_fails_iff_failure_reported [OF sample_registered(1) _ this, of sample_flags 0] sample_registered(2) show ?thesis
    by (simp add: sample_flags_def INT_MAX_def sample_unit_def)
qed

text \<open>C20. Sharding splits the work.  When the environment names the same number of shards and
  each of the indexes below it, every run selects some of the tests without failing, and the
  selections together are exactly what a run without sharding selects, each test in one shard only.\<close>

definition sharded :: "nat \<Rightarrow> nat \<Rightarrow> string \<Rightarrow> string option" where
  "sharded t k = [kTestTotalShards \<mapsto> dec_digits t, kTestShardIndex \<mapsto> dec_digits k]"

lemma sharded_env: "k < t \<Longrightarrow> t \<le> 2147483647 \<Longrightarrow> shard_env (sharded t k) (int t) (int k)"
  by (simp add: shard_env_def sharded_def Int32FromEnvOrDie_def ParseInt32_dec kTestTotalShards_def kTestShardIndex_def)

theorem shards_partition_the_tests:
  assumes "0 < t" "t \<le> 2147483647"
  shows "\<exists>all part. FilterTests fl env False tss = Inr (all, trues (marked all)) \<and>
    (\<forall>k < t. FilterTests fl (sharded t k) True tss = Inr (part k, trues (marked (part k)))) \<and>
    (\<forall>n < length (marked all). \<forall>k < t. marked (part k) ! n \<longrightarrow> marked all ! n) \<and>
    (\<forall>n < length (marked all). marked all ! n \<longrightarrow> (\<exists>!k. k < t \<and> marked (part k) ! n))"
proof -
  from FilterTests_all [of fl env tss] obtain all where
    all: "FilterTests fl env False tss = Inr (all, trues (marked all))" "marked all = eligibles fl tss" by auto
  have "\<exists>p. FilterTests fl (sharded t k) True tss = Inr (p, trues (marked p)) \<and>
      marked p = picks True (int t) (int k) (eligibles fl tss) 0" if "k < t" for k
    using FilterTests_shard [OF sharded_env [OF that assms(2)], of fl tss] by auto
  then obtain part where part: "k < t \<Longrightarrow> FilterTests fl (sharded t k) True tss = Inr (part k, trues (marked (part k))) \<and>
      marked (part k) = picks True (int t) (int k) (eligibles fl tss) 0" for k by metis
  have nth: "marked (part k) ! n \<longleftrightarrow> marked all ! n \<and> nat (trues (take n (marked all))) mod t = k"
    if "k < t" "n < length (marked all)" for k n
  proof -
    have "trues (take n (marked all)) mod int t = int (nat (trues (take n (marked all))) mod t)" by (simp add: zmod_int)
    then show ?thesis using that part [of k] all(2) by (simp add: picks_nth)
  qed
  have "\<exists>!k. k < t \<and> marked (part k) ! n" if "n < length (marked all)" "marked all ! n" for n
  proof (rule ex1I [of _ "nat (trues (take n (marked all))) mod t"])
    show "nat (trues (take n (marked all))) mod t < t \<and> marked (part (nat (trues (take n (marked all))) mod t)) ! n"
      using that assms(1) nth by simp
    show "k = nat (trues (take n (marked all))) mod t" if "k < t \<and> marked (part k) ! n" for k
      using that nth [of k n] \<open>n < length (marked all)\<close> by simp
  qed
  then show ?thesis using all(1) part nth by (intro exI [of _ all] exI [of _ part]) blast
qed

lemma star_selects: "selects ''*'' name"
  by (auto simp: selects_def accepted_def SplitString.simps intro: exI [of _ "length name"])

lemma shards_partition_the_tests_witness:
  "\<exists>all part. FilterTests sample_flags (\<lambda>_. None) False [sample_suite] = Inr (all, 2) \<and>
    (\<forall>k < 3. FilterTests sample_flags (sharded 3 k) True [sample_suite] = Inr (part k, trues (marked (part k)))) \<and>
    (\<exists>!k. k < 3 \<and> marked (part k) ! 1)"
proof -
  from shards_partition_the_tests [of 3 sample_flags "\<lambda>_. None" "[sample_suite]"] obtain all part where
    p: "FilterTests sample_flags (\<lambda>_. None) False [sample_suite] = Inr (all, trues (marked all))"
      "\<forall>k < 3. FilterTests sample_flags (sharded 3 k) True [sample_suite] = Inr (part k, trues (marked (part k)))"
      "\<forall>n < length (marked all). marked all ! n \<longrightarrow> (\<exists>!k. k < 3 \<and> marked (part k) ! n)" by auto
  from p(1) FilterTests_all [of sample_flags "\<lambda>_. None" "[sample_suite]"] have m: "marked all = eligibles sample_flags [sample_suite]" by auto
  have "eligibles sample_flags [sample_suite] = [True, True]"
    by (simp add: eligibles_def eligible_def sample_suite_def sample_test_def sample_flags_def star_selects)
  with p m show ?thesis by (intro exI [of _ all] exI [of _ part]) auto
qed

text \<open>C22. The filter of tests.  The loop over a pattern with its single backtracking point always ends
  and accepts exactly the names that the pattern denotes when a star is any text and a question mark
  any character; a filter then selects a test as its positive and negative patterns say.\<close>

theorem filter_selects_what_it_denotes:
  "PatternMatchesString name pattern = Some (glob pattern name) \<and>
   FilterMatchesTest flt suite test = Some (selects flt (suite @ ''.'' @ test))"
  using PatternMatchesString_glob FilterMatchesTest_selects by blast

text \<open>A shuffle never fails on a range of the vector, and permutes the elements of the range only.\<close>

theorem shuffle_permutes_the_range:
  assumes "0 \<le> b" "b \<le> e" "e \<le> int (length v)" "length v \<le> 2147483648"
  shows "\<exists>rnd' v'. ShuffleRange rnd b e v = Inr (rnd', v') \<and> mset v' = mset v \<and>
    take (nat b) v' = take (nat b) v \<and> drop (nat e) v' = drop (nat e) v"
  using ShuffleRange_ok [OF assms, of rnd] by (auto simp: shuffled_def)

lemma shuffle_permutes_the_range_witness:
  "\<exists>rnd' v'. ShuffleRange 7 1 4 [10, 20, 30, 40, 50 :: nat] = Inr (rnd', v') \<and> mset v' = mset [10, 20, 30, 40, 50] \<and>
    hd v' = 10 \<and> drop 4 v' = [50]"
proof -
  from shuffle_permutes_the_range [of 1 4 "[10, 20, 30, 40, 50 :: nat]" 7] obtain rnd' v' where
    "ShuffleRange 7 1 4 [10, 20, 30, 40, 50 :: nat] = Inr (rnd', v')" "mset v' = mset [10, 20, 30, 40, 50]"
    "take 1 v' = [10]" "drop 4 v' = [50]" by auto
  then show ?thesis by (cases v') auto
qed

text \<open>\<open>SplitString\<close> and joining with the delimiter are inverse to each other.\<close>

theorem split_and_join:
  "join_with d (SplitString str d) = str \<and>
   (ss \<noteq> [] \<and> (\<forall>s \<in> set ss. d \<notin> set s) \<longrightarrow> SplitString (join_with d ss) d = ss)"
  using join_Split Split_join by blast

lemma split_and_join_witness:
  "join_with CHR '':'' (SplitString ''a::b'' CHR '':'') = ''a::b'' \<and>
   SplitString (join_with CHR '':'' [''a'', [], ''b'']) CHR '':'' = [''a'', [], ''b'']"
  using split_and_join [of "CHR '':''" "''a::b''" "[''a'', [], ''b'']"] by simp

subsection \<open>Paths\<close>

text \<open>A path is put together again from its directory and its last part, for every normal path with a
  separator behind its first character; the last part has no separator.\<close>

theorem path_split_and_join:
  assumes "NUL \<notin> set p" "normal p" "kPathSeparator \<in> set (tl p)"
  shows "ConcatPaths (RemoveFileName p) (RemoveDirectoryName p) = p \<and> IsDirectory (RemoveFileName p) \<and>
    kPathSeparator \<notin> set (RemoveDirectoryName p) \<and> normal (FilePath q)"
proof -
  have "kPathSeparator \<in> set p" using assms(3) by (cases p) auto
  with ConcatPaths_split [OF assms] RemoveFileName_parent [OF assms(1,2)] FilePath_normal show ?thesis by blast
qed

lemma path_split_and_join_witness:
  "ConcatPaths (RemoveFileName ''a/b/c.xml'') (RemoveDirectoryName ''a/b/c.xml'') = ''a/b/c.xml'' \<and>
   IsDirectory (RemoveFileName ''a/b/c.xml'')"
  using path_split_and_join [of "''a/b/c.xml''" "''a//b''"] by simp

text \<open>C23. \<open>CreateDirectoriesRecursively\<close> on any path without doubled separators.  It walks up over the
  directories that the path names and then to \<open>./\<close>.  When the path ends in a separator and none of these
  exists, the root of an absolute path included, it never ends.  Otherwise it ends, reports success only
  when the path is then a directory, and removes nothing.  What is relied on of the file system is
  \<open>fs_laws\<close>: a successful \<open>mkdir\<close> makes its directory, and none removes one.\<close>

theorem directories_created_or_no_end:
  assumes "fs_laws stat mkdir" "NUL \<notin> set p" "normal p"
  shows "if IsDirectory p \<and> nowhere stat s p then CreateDirectoriesRecursively stat mkdir p s = None
    else \<exists>ok s1. CreateDirectoriesRecursively stat mkdir p s = Some (ok, s1) \<and>
      (ok \<longrightarrow> DirectoryExists stat s1 p) \<and> (\<forall>q. DirectoryExists stat s q \<longrightarrow> DirectoryExists stat s1 q)"
  using assms by (rule CreateDirectories_ok)

text \<open>A file system that is the set of its directories.\<close>

definition dir_stat :: "string set \<Rightarrow> string \<Rightarrow> stat_kind option" where
  "dir_stat s p = (if p \<in> s then Some Stat_dir else None)"

definition dir_make :: "string \<Rightarrow> string set \<Rightarrow> int \<times> string set" where
  "dir_make p s = (0, insert p s)"

lemma directories_created_or_no_end_witness:
  "(\<exists>ok s1. CreateDirectoriesRecursively dir_stat dir_make ''a/b/'' {''./''} = Some (ok, s1) \<and> (ok \<longrightarrow> ''a/b/'' \<in> s1) \<and> ''./'' \<in> s1) \<and>
   (\<exists>ok s1. CreateDirectoriesRecursively dir_stat dir_make ''/b/'' {''/''} = Some (ok, s1) \<and> (ok \<longrightarrow> ''/b/'' \<in> s1) \<and> ''/'' \<in> s1) \<and>
   CreateDirectoriesRecursively dir_stat dir_make ''a/b/'' {} = None"
proof (intro conjI)
  have laws: "fs_laws dir_stat dir_make"
    by (auto simp: fs_laws_def dir_stat_def dir_make_def DirectoryExists_def)
  have n: "NUL \<notin> set ''a/b/''" "normal ''a/b/''" "NUL \<notin> set ''/b/''" "normal ''/b/''" by simp_all
  have e: "DirectoryExists dir_stat S q \<longleftrightarrow> q \<in> S" for S q by (simp add: DirectoryExists_def dir_stat_def)
  have "\<not> nowhere dir_stat {''./''} ''a/b/''" by (simp add: nowhere_def e kCurrentDirectoryString_def)
  with directories_created_or_no_end [OF laws n(1,2), of "{''./''}"]
  show "\<exists>ok s1. CreateDirectoriesRecursively dir_stat dir_make ''a/b/'' {''./''} = Some (ok, s1) \<and> (ok \<longrightarrow> ''a/b/'' \<in> s1) \<and> ''./'' \<in> s1"
    by (fastforce simp: e)
  have "dir_prefix ''/'' ''/b/''" by (simp add: dir_prefix_def IsDirectory_def IsPathSeparator_def)
  then have "\<not> nowhere dir_stat {''/''} ''/b/''" by (auto simp: nowhere_def e)
  with directories_created_or_no_end [OF laws n(3,4), of "{''/''}"]
  show "\<exists>ok s1. CreateDirectoriesRecursively dir_stat dir_make ''/b/'' {''/''} = Some (ok, s1) \<and> (ok \<longrightarrow> ''/b/'' \<in> s1) \<and> ''/'' \<in> s1"
    by (fastforce simp: e)
  have "nowhere dir_stat {} ''a/b/''" by (simp add: nowhere_def e)
  moreover have "IsDirectory ''a/b/''" by (simp add: IsDirectory_def IsPathSeparator_def)
  ultimately show "CreateDirectoriesRecursively dir_stat dir_make ''a/b/'' {} = None"
    using directories_created_or_no_end [OF laws n(1,2), of "{}"] by simp
qed

text \<open>The name that \<open>GenerateUniqueFileName\<close> gives is free, and it carries the smallest number whose name is free;
  when all names are taken, the counter overflows.\<close>

theorem unique_name_is_first_free:
  "case GenerateUniqueFileName stat s d b e of
     Inr f \<Rightarrow> \<not> FileOrDirectoryExists stat s f \<and> (\<exists>n. 0 \<le> n \<and> n < INT_MAX \<and> f = MakeFileName d b n e \<and>
       (\<forall>k. 0 \<le> k \<and> k < n \<longrightarrow> FileOrDirectoryExists stat s (MakeFileName d b k e)))
   | Inl er \<Rightarrow> er = Int_overflow \<and> (\<forall>k. 0 \<le> k \<and> k < INT_MAX \<longrightarrow> FileOrDirectoryExists stat s (MakeFileName d b k e))"
  unfolding GenerateUniqueFileName_def by (rule unique_loop_ok) (simp_all add: INT_MAX_def)

lemma unique_name_is_first_free_witness:
  "GenerateUniqueFileName dir_stat {} ''out'' ''r'' ''xml'' = Inr (MakeFileName ''out'' ''r'' 0 ''xml'')"
proof (cases "GenerateUniqueFileName dir_stat {} ''out'' ''r'' ''xml''")
  case (Inl er)
  with unique_name_is_first_free [of dir_stat "{}" "''out''" "''r''" "''xml''"] show ?thesis
    by (auto simp: FileOrDirectoryExists_def dir_stat_def INT_MAX_def)
next
  case (Inr f)
  with unique_name_is_first_free [of dir_stat "{}" "''out''" "''r''" "''xml''"] obtain n where
    n: "0 \<le> n" "f = MakeFileName ''out'' ''r'' n ''xml''" "\<forall>k. 0 \<le> k \<and> k < n \<longrightarrow> FileOrDirectoryExists dir_stat {} (MakeFileName ''out'' ''r'' k ''xml'')"
    by auto
  then have "n = 0" by (auto simp: FileOrDirectoryExists_def dir_stat_def)
  with n(2) Inr show ?thesis by simp
qed

subsection \<open>Unordered matching\<close>

text \<open>\<open>FindMaxBipartiteMatching\<close> ends for every matrix and gives a matching, and none has more pairs.\<close>

theorem pairing_is_a_maximum:
  assumes "mm_ok g"
  shows "\<exists>ps. FindMaxBipartiteMatching g = Inr ps \<and> matching g ps \<and> (\<forall>qs. matching g qs \<longrightarrow> length qs \<le> length ps)"
  by (rule FindMaxBipartiteMatching_max [OF assms])

text \<open>Two elements that both fit the first of two matchers, the second only the first element.\<close>

definition sample_matrix :: match_matrix where
  "sample_matrix = \<lparr>num_elements = 2, num_matchers = 2, matched = [True, True, True, False]\<rparr>"

lemma pairing_is_a_maximum_witness:
  "\<exists>ps. FindMaxBipartiteMatching sample_matrix = Inr ps \<and> 2 \<le> length ps"
proof -
  have "mm_ok sample_matrix" by (simp add: mm_ok_def sample_matrix_def)
  from pairing_is_a_maximum [OF this] obtain ps where
    ps: "FindMaxBipartiteMatching sample_matrix = Inr ps" "\<And>qs. matching sample_matrix qs \<Longrightarrow> length qs \<le> length ps" by blast
  have "matching sample_matrix [(0, 1), (1, 0)]"
    by (simp add: matching_def sample_matrix_def edge_def SpaceIndex_def)
  with ps show ?thesis by fastforce
qed

text \<open>C21. The decision of \<open>UnorderedElementsAre\<close> and its variants, which builds the matrix, tests rows and columns and then
  searches a maximum pairing, is right: it returns, and matches iff each matcher can be assigned an element of its own
  (superset), each element a matcher of its own (subset), or both (exact).\<close>

theorem unordered_match_is_assignment:
  "\<exists>l'. MatchAndExplain pr f ms xs l = Inr
     ((has_superset f \<longrightarrow> (\<exists>a. matcher_assignment ms xs a)) \<and> (has_subset f \<longrightarrow> (\<exists>a. element_assignment ms xs a)), l')"
  by (rule MatchAndExplain_ok)

lemma unordered_match_is_assignment_witness:
  "\<exists>l'. MatchAndExplain dec_digits ExactMatch
     [\<lparr>mt_matches = (\<lambda>x. 1 < x), mt_describer = ([], [])\<rparr>, \<lparr>mt_matches = (\<lambda>x. x = 3), mt_describer = ([], [])\<rparr>]
     [3, 2 :: nat] None = Inr (True, l')"
proof -
  let ?ms = "[\<lparr>mt_matches = (\<lambda>x. 1 < x), mt_describer = ([], [])\<rparr>, \<lparr>mt_matches = (\<lambda>x. x = 3), mt_describer = ([], [])\<rparr>]"
  have "matcher_assignment ?ms [3, 2 :: nat] (\<lambda>j. 1 - j)" "element_assignment ?ms [3, 2 :: nat] (\<lambda>j. 1 - j)"
    by (auto simp: matcher_assignment_def element_assignment_def inj_on_def less_Suc_eq numeral_2_eq_2)
  with unordered_match_is_assignment [of dec_digits ExactMatch ?ms "[3, 2]" None] show ?thesis by auto
qed

end
