(* ===== verification/Gt_Edit.thy ===== *)
theory Gt_Edit
  imports Gt_Strings
begin

section \<open>Differences of texts and failure messages (\<open>googletest/src/gtest.cc\<close>)\<close>

text \<open>
  The edits that turn one sequence into another, the unified diff that is printed for them, and the
  message of a failed comparison.  The costs of the edits are \<open>double\<close>s in the code; their arithmetic is a
  parameter here, because nothing but the choice between valid edits depends on it.
\<close>

datatype edit_type = kMatch | kAdd | kRemove | kReplace

record 'c arith =
  of_index :: "nat \<Rightarrow> 'c"
  plus_one :: "'c \<Rightarrow> 'c"
  plus_replace :: "'c \<Rightarrow> 'c"
  is_less :: "'c \<Rightarrow> 'c \<Rightarrow> bool"

text \<open>Accesses to a vector of vectors.\<close>

definition mat :: "'a list list \<Rightarrow> nat \<Rightarrow> nat \<Rightarrow> stop + 'a" where
  "mat m i j = bindr (vat m i) (\<lambda>row. vat row j)"

definition mput :: "'a list list \<Rightarrow> nat \<Rightarrow> nat \<Rightarrow> 'a \<Rightarrow> stop + 'a list list" where
  "mput m i j x = bindr (vat m i) (\<lambda>row. bindr (vput row j x) (\<lambda>row1. vput m i row1))"

subsection \<open>Optimal edits\<close>

type_synonym 'c tables = "'c list list \<times> edit_type list list"

definition set_cell :: "nat \<Rightarrow> nat \<Rightarrow> 'c \<Rightarrow> edit_type \<Rightarrow> 'c tables \<Rightarrow> stop + 'c tables" where
  "set_cell i j cost move = (\<lambda>(costs, best_move).
     bindr (mput costs i j cost) (\<lambda>costs1.
     bindr (mput best_move i j move) (\<lambda>best1. Inr (costs1, best1))))"

text \<open>The body of the two nested loops.\<close>

definition fill_cell :: "'c arith \<Rightarrow> nat list \<Rightarrow> nat list \<Rightarrow> nat \<Rightarrow> nat \<Rightarrow> 'c tables \<Rightarrow> stop + 'c tables" where
  "fill_cell ar left right l_i r_i = (\<lambda>(costs, best_move).
     bindr (vat left l_i) (\<lambda>l. bindr (vat right r_i) (\<lambda>r.
     if l = r
     then bindr (mat costs l_i r_i) (\<lambda>c. set_cell (l_i + 1) (r_i + 1) c kMatch (costs, best_move))
     else
       bindr (mat costs (l_i + 1) r_i) (\<lambda>add.
       bindr (mat costs l_i (r_i + 1)) (\<lambda>remove.
       bindr (mat costs l_i r_i) (\<lambda>replace.
       if is_less ar add remove \<and> is_less ar add replace
       then set_cell (l_i + 1) (r_i + 1) (plus_one ar add) kAdd (costs, best_move)
       else if is_less ar remove add \<and> is_less ar remove replace
       then set_cell (l_i + 1) (r_i + 1) (plus_one ar remove) kRemove (costs, best_move)
       else set_cell (l_i + 1) (r_i + 1) (plus_replace ar replace) kReplace (costs, best_move)))))))"

text \<open>
  The best path, in reverse order.  An index below 0 would be the largest \<open>size_t\<close>, which is outside the table.
\<close>

function best_path :: "edit_type list list \<Rightarrow> nat \<Rightarrow> nat \<Rightarrow> stop + edit_type list" where
  "best_path best_move l_i r_i =
     (if \<not> (0 < l_i \<or> 0 < r_i) then Inr []
      else bindr (mat best_move l_i r_i) (\<lambda>move.
        if move \<noteq> kAdd \<and> l_i = 0 \<or> move \<noteq> kRemove \<and> r_i = 0 then Inl Overread
        else bindr (best_path best_move (if move \<noteq> kAdd then l_i - 1 else l_i) (if move \<noteq> kRemove then r_i - 1 else r_i))
          (\<lambda>path. Inr (move # path))))"
  by pat_completeness auto
termination
proof (relation "measure (\<lambda>(m, l, r). l + r)", goal_cases)
  case (2 m l r move)
  then show ?case by (cases move) auto
qed simp

declare best_path.simps [simp del]

definition CalculateOptimalEdits :: "'c arith \<Rightarrow> nat list \<Rightarrow> nat list \<Rightarrow> stop + edit_type list" where
  "CalculateOptimalEdits ar left right =
     (let costs = replicate (length left + 1) (replicate (length right + 1) (of_index ar 0));
          best_move = replicate (length left + 1) (replicate (length right + 1) kMatch) in
      bindr (rfold (\<lambda>l_i. set_cell l_i 0 (of_index ar l_i) kRemove) [0..<length left + 1] (costs, best_move)) (\<lambda>t1.
      bindr (rfold (\<lambda>r_i. set_cell 0 r_i (of_index ar r_i) kAdd) [1..<length right + 1] t1) (\<lambda>t2.
      bindr (rfold (\<lambda>l_i. rfold (\<lambda>r_i. fill_cell ar left right l_i r_i) [0..<length right]) [0..<length left] t2) (\<lambda>t3.
      bindr (best_path (snd t3) (length left) (length right)) (\<lambda>path.
      Inr (rev path))))))"

subsection \<open>Strings\<close>

text \<open>\<open>InternalStrings\<close>: equal strings have equal numbers.\<close>

definition GetId :: "string \<Rightarrow> (string \<times> nat) list \<Rightarrow> nat \<times> (string \<times> nat) list" where
  "GetId str ids =
     (case map_of ids str of Some i \<Rightarrow> (i, ids) | None \<Rightarrow> let id = length ids in (id, (str, id) # ids))"

fun get_ids :: "string list \<Rightarrow> (string \<times> nat) list \<Rightarrow> nat list \<times> (string \<times> nat) list" where
  "get_ids [] ids = ([], ids)"
| "get_ids (s # ss) ids =
     (case GetId s ids of (i, ids1) \<Rightarrow> case get_ids ss ids1 of (is, ids2) \<Rightarrow> (i # is, ids2))"

definition CalculateStringEdits :: "'c arith \<Rightarrow> string list \<Rightarrow> string list \<Rightarrow> stop + edit_type list" where
  "CalculateStringEdits ar left right =
     (case get_ids left [] of (left_ids, table1) \<Rightarrow>
      case get_ids right table1 of (right_ids, table2) \<Rightarrow>
      CalculateOptimalEdits ar left_ids right_ids)"

subsection \<open>Hunks\<close>

record hunk =
  left_start :: nat
  right_start :: nat
  adds :: nat
  removes :: nat
  common :: nat
  hunk_lines :: "(char \<times> string) list"
  hunk_adds :: "(char \<times> string) list"
  hunk_removes :: "(char \<times> string) list"

definition Hunk :: "nat \<Rightarrow> nat \<Rightarrow> hunk" where
  "Hunk l r = \<lparr>left_start = l, right_start = r, adds = 0, removes = 0, common = 0,
     hunk_lines = [], hunk_adds = [], hunk_removes = []\<rparr>"

definition FlushEdits :: "hunk \<Rightarrow> hunk" where
  "FlushEdits h = h\<lparr>hunk_lines := hunk_lines h @ hunk_removes h @ hunk_adds h, hunk_removes := [], hunk_adds := []\<rparr>"

definition PushLine :: "char \<Rightarrow> string \<Rightarrow> hunk \<Rightarrow> hunk" where
  "PushLine edit line h =
     (if edit = CHR '' '' then
        let h1 = FlushEdits (h\<lparr>common := common h + 1\<rparr>) in h1\<lparr>hunk_lines := hunk_lines h1 @ [(CHR '' '', line)]\<rparr>
      else if edit = CHR ''-'' then h\<lparr>removes := removes h + 1, hunk_removes := hunk_removes h @ [(CHR ''-'', line)]\<rparr>
      else if edit = CHR ''+'' then h\<lparr>adds := adds h + 1, hunk_adds := hunk_adds h @ [(CHR ''+'', line)]\<rparr>
      else h)"

definition has_edits :: "hunk \<Rightarrow> bool" where
  "has_edits h \<longleftrightarrow> adds h \<noteq> 0 \<or> removes h \<noteq> 0"

definition PrintHeader :: "hunk \<Rightarrow> string" where
  "PrintHeader h = ''@@ '' @
     (if removes h \<noteq> 0 then ''-'' @ dec_digits (left_start h) @ '','' @ dec_digits (removes h + common h) else []) @
     (if removes h \<noteq> 0 \<and> adds h \<noteq> 0 then '' '' else []) @
     (if adds h \<noteq> 0 then ''+'' @ dec_digits (right_start h) @ '','' @ dec_digits (adds h + common h) else []) @
     '' @@'' @ [LF]"

definition PrintTo :: "hunk \<Rightarrow> string" where
  "PrintTo h = PrintHeader h @ concat (map (\<lambda>(c, line). c # line @ [LF]) (hunk_lines (FlushEdits h)))"

subsection \<open>The unified diff\<close>

text \<open>What one edit adds to a hunk.  A line is its C string.\<close>

definition push_edit :: "edit_type \<Rightarrow> string list \<Rightarrow> string list \<Rightarrow> nat \<Rightarrow> nat \<Rightarrow> hunk \<Rightarrow> stop + hunk" where
  "push_edit edit left right l_i r_i h =
     bindr (if edit = kMatch \<or> edit = kRemove \<or> edit = kReplace
            then bindr (vat left l_i) (\<lambda>line. Inr (PushLine (if edit = kMatch then CHR '' '' else CHR ''-'') (cstr line) h))
            else Inr h) (\<lambda>h1.
     if edit = kAdd \<or> edit = kReplace
     then bindr (vat right r_i) (\<lambda>line. Inr (PushLine CHR ''+'' (cstr line) h1)) else Inr h1)"

text \<open>The loop over the edits up to the end of a hunk.\<close>

function hunk_loop ::
  "edit_type list \<Rightarrow> string list \<Rightarrow> string list \<Rightarrow> nat \<Rightarrow> nat \<Rightarrow> nat \<Rightarrow> nat \<Rightarrow> nat \<Rightarrow> hunk \<Rightarrow> stop + (nat \<times> nat \<times> nat \<times> hunk)" where
  "hunk_loop edits left right context l_i r_i edit_i n_suffix h =
     (if length edits \<le> edit_i then Inr (l_i, r_i, edit_i, h)
      else
        let it = edit_i + length (takeWhile (\<lambda>e. e = kMatch) (drop edit_i edits)) in
        if context \<le> n_suffix \<and> (it = length edits \<or> context \<le> it - edit_i) then Inr (l_i, r_i, edit_i, h)
        else
          let edit = edits ! edit_i in
          bindr (push_edit edit left right l_i r_i h) (\<lambda>h1.
          hunk_loop edits left right context (if edit \<noteq> kAdd then l_i + 1 else l_i) (if edit \<noteq> kRemove then r_i + 1 else r_i)
            (edit_i + 1) (if edit = kMatch then n_suffix + 1 else 0) h1))"
  by pat_completeness auto
termination
  by (relation "measure (\<lambda>(edits, left, right, context, l, r, e, n, h). length edits - e)") auto

declare hunk_loop.simps [simp del]

definition context_lines :: "string list \<Rightarrow> nat \<Rightarrow> nat \<Rightarrow> hunk \<Rightarrow> stop + hunk" where
  "context_lines left l_i prefix_context =
     rfold (\<lambda>i h. bindr (vat left (l_i - i)) (\<lambda>line. Inr (PushLine CHR '' '' (cstr line) h))) (rev [1..<prefix_context + 1])"

text \<open>A pass of the outer loop: the first edit, the context before it, and the hunk.\<close>

definition one_hunk ::
  "edit_type list \<Rightarrow> string list \<Rightarrow> string list \<Rightarrow> nat \<Rightarrow> nat \<Rightarrow> nat \<Rightarrow> nat \<Rightarrow> stop + (nat \<times> nat \<times> nat \<times> hunk)" where
  "one_hunk edits left right context l_i r_i edit_i =
     (let k = length (takeWhile (\<lambda>e. e = kMatch) (drop edit_i edits));
          prefix_context = min (l_i + k) context in
      bindr (context_lines left (l_i + k) prefix_context (Hunk (l_i + k - prefix_context + 1) (r_i + k - prefix_context + 1))) (\<lambda>h.
      hunk_loop edits left right context (l_i + k) (r_i + k) (edit_i + k) 0 h))"

lemma hunk_loop_progress:
  "hunk_loop edits left right ctx l r e n h = Inr (l', r', e', h') \<Longrightarrow> e \<le> e' \<and> (e' = e \<longrightarrow> h' = h)"
proof (induction edits left right ctx l r e n h rule: hunk_loop.induct)
  case (1 edits left right ctx l r e n h)
  let ?it = "e + length (takeWhile (\<lambda>e. e = kMatch) (drop e edits))"
  show ?case
  proof (cases "length edits \<le> e \<or> ctx \<le> n \<and> (?it = length edits \<or> ctx \<le> ?it - e)")
    case True
    with "1.prems" show ?thesis by (subst (asm) hunk_loop.simps) (auto simp: Let_def split: if_splits)
  next
    case False
    with "1.prems" obtain h1 where h1: "push_edit (edits ! e) left right l r h = Inr h1"
      "hunk_loop edits left right ctx (if edits ! e \<noteq> kAdd then l + 1 else l) (if edits ! e \<noteq> kRemove then r + 1 else r)
        (e + 1) (if edits ! e = kMatch then n + 1 else 0) h1 = Inr (l', r', e', h')"
      by (subst (asm) hunk_loop.simps) (auto simp: Let_def bindr_eq_Inr)
    from "1.IH" [OF _ refl _ refl h1] False have "e + 1 \<le> e'" by auto
    then show ?thesis by simp
  qed
qed

lemma context_lines_no_edits:
  "context_lines left l k h = Inr h1 \<Longrightarrow> \<not> has_edits h \<Longrightarrow> \<not> has_edits h1"
proof -
  have "rfold (\<lambda>i h. bindr (vat left (l - i)) (\<lambda>line. Inr (PushLine CHR '' '' (cstr line) h))) is h = Inr h1 \<Longrightarrow>
      \<not> has_edits h \<Longrightarrow> \<not> has_edits h1" for "is"
    by (induction "is" arbitrary: h) (auto simp: bindr_eq_Inr has_edits_def PushLine_def FlushEdits_def Let_def)
  then show "context_lines left l k h = Inr h1 \<Longrightarrow> \<not> has_edits h \<Longrightarrow> \<not> has_edits h1" by (simp add: context_lines_def)
qed

lemma one_hunk_progress:
  assumes "one_hunk edits left right ctx l r e = Inr (l', r', e', h)" "has_edits h"
  shows "e < e'"
proof -
  let ?k = "length (takeWhile (\<lambda>e. e = kMatch) (drop e edits))"
  from assms(1) obtain h1 where h1: "context_lines left (l + ?k) (min (l + ?k) ctx)
      (Hunk (l + ?k - min (l + ?k) ctx + 1) (r + ?k - min (l + ?k) ctx + 1)) = Inr h1"
    "hunk_loop edits left right ctx (l + ?k) (r + ?k) (e + ?k) 0 h1 = Inr (l', r', e', h)"
    by (auto simp: one_hunk_def Let_def bindr_eq_Inr)
  have "\<not> has_edits h1" using context_lines_no_edits [OF h1(1)] by (simp add: has_edits_def Hunk_def)
  with hunk_loop_progress [OF h1(2)] assms(2) show ?thesis by (cases "e' = e + ?k") auto
qed

text \<open>The outer loop ends with a hunk that has no edits.\<close>

function diff_loop ::
  "edit_type list \<Rightarrow> string list \<Rightarrow> string list \<Rightarrow> nat \<Rightarrow> nat \<Rightarrow> nat \<Rightarrow> nat \<Rightarrow> string \<Rightarrow> stop + string" where
  "diff_loop edits left right context l_i r_i edit_i ss =
     (if length edits \<le> edit_i then Inr ss
      else bindr (one_hunk edits left right context l_i r_i edit_i) (\<lambda>(l, r, e, h).
        if \<not> has_edits h then Inr ss else diff_loop edits left right context l r e (ss @ PrintTo h)))"
  by pat_completeness auto
termination
  by (relation "measure (\<lambda>(edits, left, right, context, l, r, e, ss). length edits - e)")
    (auto dest: one_hunk_progress)

declare diff_loop.simps [simp del]

definition CreateUnifiedDiff :: "'c arith \<Rightarrow> string list \<Rightarrow> string list \<Rightarrow> nat \<Rightarrow> stop + string" where
  "CreateUnifiedDiff ar left right context =
     bindr (CalculateStringEdits ar left right) (\<lambda>edits. diff_loop edits left right context 0 0 0 [])"

subsection \<open>Messages\<close>

text \<open>The loop of \<open>SplitEscapedString\<close>: it gives the lines and the start of the rest.\<close>

definition split_escaped_step :: "string \<Rightarrow> nat \<Rightarrow> string list \<times> nat \<times> bool \<Rightarrow> stop + (string list \<times> nat \<times> bool)" where
  "split_escaped_step str i = (\<lambda>(ls, start, escaped).
     bindr (vat str i) (\<lambda>c.
     if escaped then
       if c = CHR ''n'' then Inr (ls @ [take (i - start - 1) (drop start str)], i + 1, False)
       else Inr (ls, start, False)
     else Inr (ls, start, c = CHR 0x5C)))"

definition SplitEscapedString :: "string \<Rightarrow> stop + string list" where
  "SplitEscapedString str =
     (let quoted = 2 < length str \<and> hd str = CHR 0x22 \<and> last str = CHR 0x22;
          start = (if quoted then 1 else 0);
          end = (if quoted then length str - 1 else length str) in
      bindr (rfold (split_escaped_step str) [start..<end - 1] ([], start, False)) (\<lambda>(ls, start1, escaped).
      Inr (ls @ [take (end - start1) (drop start1 str)])))"

text \<open>The context of the diff is 2, and a failure carries its message.\<close>

definition EqFailure :: "'c arith \<Rightarrow> string \<Rightarrow> string \<Rightarrow> string \<Rightarrow> string \<Rightarrow> bool \<Rightarrow> stop + string" where
  "EqFailure ar lhs_expression rhs_expression lhs_value rhs_value ignoring_case =
     (let msg = ''Expected equality of these values:'' @ [LF] @ ''  '' @ lhs_expression @
            (if lhs_value \<noteq> lhs_expression then [LF] @ ''    Which is: '' @ lhs_value else []) @
            [LF] @ ''  '' @ rhs_expression @
            (if rhs_value \<noteq> rhs_expression then [LF] @ ''    Which is: '' @ rhs_value else []) @
            (if ignoring_case then [LF] @ ''Ignoring case'' else []) in
      if lhs_value \<noteq> [] \<and> rhs_value \<noteq> []
      then bindr (SplitEscapedString lhs_value) (\<lambda>lhs_lines.
           bindr (SplitEscapedString rhs_value) (\<lambda>rhs_lines.
           if 1 < length lhs_lines \<or> 1 < length rhs_lines
           then bindr (CreateUnifiedDiff ar lhs_lines rhs_lines 2) (\<lambda>diff.
             Inr (StringStreamToString (msg @ [LF] @ ''With diff:'' @ [LF] @ diff)))
           else Inr (StringStreamToString msg)))
      else Inr (StringStreamToString msg))"

definition GetBoolAssertionFailureMessage :: "string \<Rightarrow> string \<Rightarrow> string \<Rightarrow> string \<Rightarrow> string" where
  "GetBoolAssertionFailureMessage actual_message expression_text actual_predicate_value expected_predicate_value =
     StringStreamToString (''Value of: '' @ expression_text @ [LF] @ ''  Actual: '' @ actual_predicate_value @
     (if actual_message \<noteq> [] then '' ('' @ actual_message @ '')'' else []) @
     [LF] @ ''Expected: '' @ expected_predicate_value)"

end
