(* ===== verification/Gt_Edit_Spec.thy ===== *)
theory Gt_Edit_Spec
  imports Gt_Edit
begin

section \<open>What the edits and the diff promise\<close>

text \<open>
  A list of edits is a script for two sequences when carrying it out uses up both: a match
  consumes equal elements, a replacement different ones.  The edits that the tables lead to
  are a script whatever the arithmetic of the costs does, no index leaves a table or a sequence, and
  the diff is empty only for equal texts or without context.
\<close>

fun script :: "edit_type list \<Rightarrow> 'a list \<Rightarrow> 'a list \<Rightarrow> bool" where
  "script [] xs ys \<longleftrightarrow> xs = [] \<and> ys = []"
| "script (kMatch # es) xs ys \<longleftrightarrow> xs \<noteq> [] \<and> ys \<noteq> [] \<and> hd xs = hd ys \<and> script es (tl xs) (tl ys)"
| "script (kReplace # es) xs ys \<longleftrightarrow> xs \<noteq> [] \<and> ys \<noteq> [] \<and> hd xs \<noteq> hd ys \<and> script es (tl xs) (tl ys)"
| "script (kAdd # es) xs ys \<longleftrightarrow> ys \<noteq> [] \<and> script es xs (tl ys)"
| "script (kRemove # es) xs ys \<longleftrightarrow> xs \<noteq> [] \<and> script es (tl xs) ys"

lemma script_append: "script es xs ys \<Longrightarrow> script fs us vs \<Longrightarrow> script (es @ fs) (xs @ us) (ys @ vs)"
  by (induction es xs ys rule: script.induct) auto

lemma script_length: "script es xs ys \<Longrightarrow> length es \<le> length xs + length ys"
  by (induction es xs ys rule: script.induct) (auto simp: neq_Nil_conv)

lemma script_map: "script es (map f xs) (map f ys) \<Longrightarrow> inj_on f (set xs \<union> set ys) \<Longrightarrow> script es xs ys"
proof (induction es xs ys rule: script.induct)
  case (2 es xs ys)
  then obtain x xs' y ys' where xy: "xs = x # xs'" "ys = y # ys'" by (auto simp: neq_Nil_conv)
  with 2 have "f x = f y" "x \<in> set xs \<union> set ys" "y \<in> set xs \<union> set ys" by auto
  with 2(3) have "x = y" by (rule inj_onD)
  with 2 xy show ?case by (auto intro: inj_on_subset)
next
  case (3 es xs ys)
  then show ?case by (cases xs; cases ys) (auto intro: inj_on_subset)
next
  case (4 es xs ys)
  then show ?case by (cases ys) (auto intro: inj_on_subset)
next
  case (5 es xs ys)
  then show ?case by (cases xs) (auto intro: inj_on_subset)
qed simp

lemma script_matches: "script es xs ys \<Longrightarrow> \<forall>e \<in> set es. e = kMatch \<Longrightarrow> xs = ys"
  by (induction es xs ys rule: script.induct) (auto simp: neq_Nil_conv)

subsection \<open>Tables\<close>

definition table :: "'a list list \<Rightarrow> nat \<Rightarrow> nat \<Rightarrow> bool" where
  "table m a b \<longleftrightarrow> length m = a \<and> (\<forall>i < a. length (m ! i) = b)"

lemma mat_ok: "table m a b \<Longrightarrow> i < a \<Longrightarrow> j < b \<Longrightarrow> mat m i j = Inr (m ! i ! j)"
  by (simp add: mat_def table_def vat_def)

lemma mput_ok: "table m a b \<Longrightarrow> i < a \<Longrightarrow> j < b \<Longrightarrow> mput m i j x = Inr (m[i := (m ! i)[j := x]])"
  by (simp add: mput_def table_def vat_def vput_def)

lemma table_put: "table m a b \<Longrightarrow> table (m[i := (m ! i)[j := x]]) a b"
  unfolding table_def by (metis length_list_update nth_list_update_eq nth_list_update_neq)

lemma cell_put: "table m a b \<Longrightarrow> i < a \<Longrightarrow> j < b \<Longrightarrow> p < a \<Longrightarrow> q < b \<Longrightarrow>
    m[i := (m ! i)[j := x]] ! p ! q = (if p = i \<and> q = j then x else m ! p ! q)"
  by (auto simp: table_def nth_list_update)

definition tables_ok :: "nat \<Rightarrow> nat \<Rightarrow> 'c tables \<Rightarrow> bool" where
  "tables_ok a b t \<longleftrightarrow> table (fst t) a b \<and> table (snd t) a b"

text \<open>Writing a cell leaves the moves of all others.\<close>

definition cell_set :: "nat \<Rightarrow> nat \<Rightarrow> nat \<Rightarrow> nat \<Rightarrow> edit_type \<Rightarrow> 'c tables \<Rightarrow> 'c tables \<Rightarrow> bool" where
  "cell_set a b i j move t t' \<longleftrightarrow> tables_ok a b t' \<and>
     (\<forall>p < a. \<forall>q < b. snd t' ! p ! q = (if p = i \<and> q = j then move else snd t ! p ! q))"

lemma set_cell_ok:
  assumes "tables_ok a b t" "i < a" "j < b"
  shows "\<exists>t'. set_cell i j c move t = Inr t' \<and> cell_set a b i j move t t'"
proof -
  obtain costs best where t: "t = (costs, best)" by (cases t)
  with assms have ok: "table costs a b" "table best a b" by (simp_all add: tables_ok_def)
  show ?thesis
    by (simp add: t set_cell_def mput_ok [OF ok(1) assms(2,3)] mput_ok [OF ok(2) assms(2,3)] cell_set_def tables_ok_def
        table_put ok cell_put [OF ok(2) assms(2,3)])
qed

text \<open>What the code promises of a move: it can be made, and it is a match iff the elements are equal.\<close>

definition move_ok :: "nat list \<Rightarrow> nat list \<Rightarrow> nat \<Rightarrow> nat \<Rightarrow> edit_type \<Rightarrow> bool" where
  "move_ok left right i j move \<longleftrightarrow>
     (if i = 0 then move = kAdd else if j = 0 then move = kRemove
      else (move = kMatch) = (left ! (i - 1) = right ! (j - 1)))"

lemma fill_cell_ok:
  assumes "tables_ok (length left + 1) (length right + 1) t" "i < length left" "j < length right"
  shows "\<exists>t' move. fill_cell ar left right i j t = Inr t' \<and> cell_set (length left + 1) (length right + 1) (i + 1) (j + 1) move t t' \<and>
    move_ok left right (i + 1) (j + 1) move"
proof -
  obtain costs best where t: "t = (costs, best)" by (cases t)
  have c: "mat costs i j = Inr (costs ! i ! j)" "mat costs (i + 1) j = Inr (costs ! (i + 1) ! j)"
    "mat costs i (j + 1) = Inr (costs ! i ! (j + 1))"
    using assms mat_ok [of costs "length left + 1" "length right + 1"] by (auto simp: t tables_ok_def)
  have "\<exists>t'. set_cell (i + 1) (j + 1) x move t = Inr t' \<and> cell_set (length left + 1) (length right + 1) (i + 1) (j + 1) move t t'"
    for x move using assms by (intro set_cell_ok) auto
  then obtain T where T: "\<And>x move. set_cell (i + 1) (j + 1) x move t = Inr (T x move) \<and>
      cell_set (length left + 1) (length right + 1) (i + 1) (j + 1) move t (T x move)" by metis
  have "\<exists>x move. fill_cell ar left right i j t = Inr (T x move) \<and> move_ok left right (i + 1) (j + 1) move"
  proof (cases "left ! i = right ! j")
    case True
    then show ?thesis using T c assms
      by (intro exI [of _ "costs ! i ! j"] exI [of _ kMatch]) (simp add: fill_cell_def t vat_def move_ok_def)
  next
    case False
    define x move where "x = (let add = costs ! (i + 1) ! j; remove = costs ! i ! (j + 1); replace = costs ! i ! j in
        if is_less ar add remove \<and> is_less ar add replace then plus_one ar add
        else if is_less ar remove add \<and> is_less ar remove replace then plus_one ar remove else plus_replace ar replace)"
      and "move = (let add = costs ! (i + 1) ! j; remove = costs ! i ! (j + 1); replace = costs ! i ! j in
        if is_less ar add remove \<and> is_less ar add replace then kAdd
        else if is_less ar remove add \<and> is_less ar remove replace then kRemove else kReplace)"
    have "fill_cell ar left right i j t = Inr (T x move)"
      using False T c assms by (simp add: fill_cell_def t vat_def x_def move_def Let_def)
    moreover have "move_ok left right (i + 1) (j + 1) move" using False by (simp add: move_ok_def move_def Let_def)
    ultimately show ?thesis by blast
  qed
  with T show ?thesis by blast
qed

subsection \<open>The loops over the tables\<close>

definition fills :: "nat list \<Rightarrow> nat list \<Rightarrow> (nat \<Rightarrow> nat \<Rightarrow> bool) \<Rightarrow> 'c tables \<Rightarrow> bool" where
  "fills left right P t \<longleftrightarrow> tables_ok (length left + 1) (length right + 1) t \<and>
     (\<forall>p < length left + 1. \<forall>q < length right + 1. P p q \<and> 0 < p + q \<longrightarrow> move_ok left right p q (snd t ! p ! q))"

lemma fills_step:
  assumes "fills left right P t" "cell_set (length left + 1) (length right + 1) i j move t t'"
    "move_ok left right i j move \<or> i + j = 0" "\<And>p q. P' p q \<Longrightarrow> P p q \<or> p = i \<and> q = j"
  shows "fills left right P' t'"
  using assms unfolding fills_def cell_set_def by (smt (verit) add_is_0 not_gr_zero)

lemma rfold_from_inv:
  assumes "\<And>i s. m \<le> i \<Longrightarrow> i < n \<Longrightarrow> I i s \<Longrightarrow> \<exists>s'. body i s = Inr s' \<and> I (Suc i) s'" "I m s" "m \<le> n"
  shows "\<exists>s'. rfold body [m..<n] s = Inr s' \<and> I n s'"
proof -
  have "\<exists>s'. rfold body [m..<m + k] s = Inr s' \<and> I (m + k) s'" if "m + k \<le> n" for k
    using that
  proof (induction k)
    case (Suc k)
    then obtain s1 where s1: "rfold body [m..<m + k] s = Inr s1" "I (m + k) s1" by auto
    from assms(1) [OF _ _ s1(2)] Suc.prems obtain s2 where "body (m + k) s1 = Inr s2" "I (Suc (m + k)) s2" by auto
    with s1(1) show ?case by (simp add: rfold_append)
  qed (simp add: assms(2))
  from this [of "n - m"] assms(3) show ?thesis by simp
qed

lemma tables_filled:
  fixes ar :: "'c arith"
  shows "\<exists>t. bindr (rfold (\<lambda>l_i. set_cell l_i 0 (of_index ar l_i) kRemove) [0..<length left + 1]
      (replicate (length left + 1) (replicate (length right + 1) (of_index ar 0)),
       replicate (length left + 1) (replicate (length right + 1) kMatch))) (\<lambda>t1.
    bindr (rfold (\<lambda>r_i. set_cell 0 r_i (of_index ar r_i) kAdd) [1..<length right + 1] t1) (\<lambda>t2.
    rfold (\<lambda>l_i. rfold (\<lambda>r_i. fill_cell ar left right l_i r_i) [0..<length right]) [0..<length left] t2)) = Inr t \<and>
    fills left right (\<lambda>p q. True) t"
proof -
  let ?L = "length left" and ?R = "length right"
  let ?t0 = "(replicate (?L + 1) (replicate (?R + 1) (of_index ar 0)), replicate (?L + 1) (replicate (?R + 1) kMatch))"
  have t0: "fills left right (\<lambda>p q. q = 0 \<and> p < 0) ?t0" by (simp add: fills_def tables_ok_def table_def del: replicate_Suc)
  have "\<exists>t1. rfold (\<lambda>l_i. set_cell l_i 0 (of_index ar l_i) kRemove) [0..<?L + 1] ?t0 = Inr t1 \<and>
      fills left right (\<lambda>p q. q = 0 \<and> p < ?L + 1) t1"
  proof (rule rfold_upt_inv [where I = "\<lambda>i. fills left right (\<lambda>p q. q = 0 \<and> p < i)", OF _ t0])
    fix i and t :: "'c tables" assume i: "i < ?L + 1" "fills left right (\<lambda>p q. q = 0 \<and> p < i) t"
    then have "tables_ok (?L + 1) (?R + 1) t" by (simp add: fills_def)
    from set_cell_ok [OF this i(1), of 0 "of_index ar i" kRemove] obtain t' where
      t': "set_cell i 0 (of_index ar i) kRemove t = Inr t'" "cell_set (?L + 1) (?R + 1) i 0 kRemove t t'" by auto
    have "fills left right (\<lambda>p q. q = 0 \<and> p < Suc i) t'"
      by (rule fills_step [OF i(2) t'(2)]) (auto simp: move_ok_def)
    with t'(1) show "\<exists>t'. set_cell i 0 (of_index ar i) kRemove t = Inr t' \<and> fills left right (\<lambda>p q. q = 0 \<and> p < Suc i) t'"
      by blast
  qed
  then obtain t1 where t1: "rfold (\<lambda>l_i. set_cell l_i 0 (of_index ar l_i) kRemove) [0..<?L + 1] ?t0 = Inr t1"
    "fills left right (\<lambda>p q. q = 0 \<and> p < ?L + 1) t1" by blast
  have "fills left right (\<lambda>p q. q = 0 \<or> p = 0 \<and> q < 1) t1" using t1(2) by (auto simp: fills_def)
  then have "\<exists>t2. rfold (\<lambda>r_i. set_cell 0 r_i (of_index ar r_i) kAdd) [1..<?R + 1] t1 = Inr t2 \<and>
      fills left right (\<lambda>p q. q = 0 \<or> p = 0 \<and> q < ?R + 1) t2"
  proof (rule rfold_from_inv [where I = "\<lambda>j. fills left right (\<lambda>p q. q = 0 \<or> p = 0 \<and> q < j)", rotated])
    fix j and t :: "'c tables" assume j: "1 \<le> j" "j < ?R + 1" "fills left right (\<lambda>p q. q = 0 \<or> p = 0 \<and> q < j) t"
    then have "tables_ok (?L + 1) (?R + 1) t" by (simp add: fills_def)
    from set_cell_ok [OF this, of 0 j "of_index ar j" kAdd] j(2) obtain t' where
      t': "set_cell 0 j (of_index ar j) kAdd t = Inr t'" "cell_set (?L + 1) (?R + 1) 0 j kAdd t t'" by auto
    have "fills left right (\<lambda>p q. q = 0 \<or> p = 0 \<and> q < Suc j) t'"
      by (rule fills_step [OF j(3) t'(2)]) (auto simp: move_ok_def)
    with t'(1) show "\<exists>t'. set_cell 0 j (of_index ar j) kAdd t = Inr t' \<and> fills left right (\<lambda>p q. q = 0 \<or> p = 0 \<and> q < Suc j) t'"
      by blast
  qed simp
  then obtain t2 where t2: "rfold (\<lambda>r_i. set_cell 0 r_i (of_index ar r_i) kAdd) [1..<?R + 1] t1 = Inr t2"
    "fills left right (\<lambda>p q. q = 0 \<or> p = 0 \<and> q < ?R + 1) t2" by blast
  have row: "\<exists>t'. rfold (\<lambda>r_i. fill_cell ar left right i r_i) [0..<?R] t = Inr t' \<and> fills left right (\<lambda>p q. q = 0 \<or> p < Suc i + 1) t'"
    if i: "i < ?L" "fills left right (\<lambda>p q. q = 0 \<or> p < i + 1) t" for i and t :: "'c tables"
  proof -
    have "\<exists>t'. rfold (\<lambda>r_i. fill_cell ar left right i r_i) [0..<?R] t = Inr t' \<and>
        fills left right (\<lambda>p q. q = 0 \<or> p < i + 1 \<or> p = i + 1 \<and> q < ?R + 1) t'"
    proof (rule rfold_upt_inv [where I = "\<lambda>j. fills left right (\<lambda>p q. q = 0 \<or> p < i + 1 \<or> p = i + 1 \<and> q < j + 1)"])
      fix j and t :: "'c tables" assume j: "j < ?R" "fills left right (\<lambda>p q. q = 0 \<or> p < i + 1 \<or> p = i + 1 \<and> q < j + 1) t"
      then have "tables_ok (?L + 1) (?R + 1) t" by (simp add: fills_def)
      from fill_cell_ok [OF this i(1) j(1), of ar] obtain t' move where
        t': "fill_cell ar left right i j t = Inr t'" "cell_set (?L + 1) (?R + 1) (i + 1) (j + 1) move t t'"
        "move_ok left right (i + 1) (j + 1) move" by blast
      have "fills left right (\<lambda>p q. q = 0 \<or> p < i + 1 \<or> p = i + 1 \<and> q < Suc j + 1) t'"
        by (rule fills_step [OF j(2) t'(2)]) (use t'(3) in auto)
      with t'(1) show "\<exists>t'. fill_cell ar left right i j t = Inr t' \<and>
          fills left right (\<lambda>p q. q = 0 \<or> p < i + 1 \<or> p = i + 1 \<and> q < Suc j + 1) t'" by blast
    next
      show "fills left right (\<lambda>p q. q = 0 \<or> p < i + 1 \<or> p = i + 1 \<and> q < 0 + 1) t" using i(2) by (auto simp: fills_def)
    qed
    then obtain t' where "rfold (\<lambda>r_i. fill_cell ar left right i r_i) [0..<?R] t = Inr t'"
      "fills left right (\<lambda>p q. q = 0 \<or> p < i + 1 \<or> p = i + 1 \<and> q < ?R + 1) t'" by blast
    moreover from this(2) have "fills left right (\<lambda>p q. q = 0 \<or> p < Suc i + 1) t'" by (auto simp: fills_def less_Suc_eq)
    ultimately show ?thesis by blast
  qed
  have "fills left right (\<lambda>p q. q = 0 \<or> p < 0 + 1) t2" using t2(2) by (simp add: fills_def)
  then have "\<exists>t3. rfold (\<lambda>l_i. rfold (\<lambda>r_i. fill_cell ar left right l_i r_i) [0..<?R]) [0..<?L] t2 = Inr t3 \<and>
      fills left right (\<lambda>p q. q = 0 \<or> p < ?L + 1) t3"
    by (rule rfold_upt_inv [where I = "\<lambda>i. fills left right (\<lambda>p q. q = 0 \<or> p < i + 1)", rotated]) (rule row)
  then obtain t3 where
    t3: "rfold (\<lambda>l_i. rfold (\<lambda>r_i. fill_cell ar left right l_i r_i) [0..<?R]) [0..<?L] t2 = Inr t3"
      "fills left right (\<lambda>p q. q = 0 \<or> p < ?L + 1) t3" by blast
  have "fills left right (\<lambda>p q. True) t3" using t3(2) by (simp add: fills_def)
  with t1(1) t2(1) t3(1) show ?thesis by simp
qed

subsection \<open>The path\<close>

lemma take_last: "0 < i \<Longrightarrow> i \<le> length xs \<Longrightarrow> take i xs = take (i - 1) xs @ [xs ! (i - 1)]"
  by (cases i) (simp_all add: take_Suc_conv_app_nth)

lemma best_path_ok:
  assumes "fills left right (\<lambda>p q. True) t" "i \<le> length left" "j \<le> length right"
  shows "\<exists>path. best_path (snd t) i j = Inr path \<and> script (rev path) (take i left) (take j right)"
  using assms(2,3)
proof (induction "i + j" arbitrary: i j rule: less_induct)
  case less
  show ?case
  proof (cases "0 < i \<or> 0 < j")
    case False
    then show ?thesis by (subst best_path.simps) simp
  next
    case True
    let ?move = "snd t ! i ! j"
    have m: "mat (snd t) i j = Inr ?move" "move_ok left right i j ?move"
      using assms(1) less.prems True by (auto simp: fills_def tables_ok_def mat_ok [of "snd t" "length left + 1" "length right + 1"])
    let ?i = "if ?move \<noteq> kAdd then i - 1 else i" and ?j = "if ?move \<noteq> kRemove then j - 1 else j"
    have fit: "?move \<noteq> kAdd \<longrightarrow> 0 < i" "?move \<noteq> kRemove \<longrightarrow> 0 < j" using m(2) True by (auto simp: move_ok_def split: if_splits)
    have "?i + ?j < i + j" using fit True by (cases ?move) auto
    moreover have "?i \<le> length left" "?j \<le> length right" using less.prems by auto
    ultimately obtain path where
      p: "best_path (snd t) ?i ?j = Inr path" "script (rev path) (take ?i left) (take ?j right)" using less.hyps by blast
    have eq: "best_path (snd t) i j = Inr (?move # path)"
      using True m(1) fit p(1) by (subst best_path.simps) auto
    have one: "script [?move] (if ?move \<noteq> kAdd then [left ! (i - 1)] else []) (if ?move \<noteq> kRemove then [right ! (j - 1)] else [])"
      using m(2) fit by (cases ?move) (auto simp: move_ok_def)
    have l: "take i left = take ?i left @ (if ?move \<noteq> kAdd then [left ! (i - 1)] else [])"
      using fit less.prems by (simp add: take_last)
    have r: "take j right = take ?j right @ (if ?move \<noteq> kRemove then [right ! (j - 1)] else [])"
      using fit less.prems by (simp add: take_last)
    have "script (rev path @ [?move]) (take i left) (take j right)"
      unfolding l r by (rule script_append [OF p(2) one])
    with eq show ?thesis by simp
  qed
qed

lemma best_path_same:
  assumes "fills left left (\<lambda>p q. True) t" "i \<le> length left"
  shows "best_path (snd t) i i = Inr (replicate i kMatch)"
  using assms(2)
proof (induction i)
  case 0
  then show ?case by (subst best_path.simps) simp
next
  case (Suc i)
  have "mat (snd t) (Suc i) (Suc i) = Inr (snd t ! Suc i ! Suc i)" "snd t ! Suc i ! Suc i = kMatch"
    using assms(1) Suc.prems by (auto simp: fills_def tables_ok_def move_ok_def mat_ok [of "snd t" "length left + 1" "length left + 1"])
  with Suc show ?case by (subst best_path.simps) simp
qed

lemma CalculateOptimalEdits_script:
  "\<exists>es. CalculateOptimalEdits ar left right = Inr es \<and> script es left right \<and> (left = right \<longrightarrow> es = replicate (length left) kMatch)"
proof -
  from tables_filled [of ar left right] obtain t where
    t: "bindr (rfold (\<lambda>l_i. set_cell l_i 0 (of_index ar l_i) kRemove) [0..<length left + 1]
      (replicate (length left + 1) (replicate (length right + 1) (of_index ar 0)),
       replicate (length left + 1) (replicate (length right + 1) kMatch))) (\<lambda>t1.
    bindr (rfold (\<lambda>r_i. set_cell 0 r_i (of_index ar r_i) kAdd) [1..<length right + 1] t1) (\<lambda>t2.
    rfold (\<lambda>l_i. rfold (\<lambda>r_i. fill_cell ar left right l_i r_i) [0..<length right]) [0..<length left] t2)) = Inr t"
    "fills left right (\<lambda>p q. True) t" by blast
  from best_path_ok [OF t(2)] obtain path where
    p: "best_path (snd t) (length left) (length right) = Inr path" "script (rev path) left right" by fastforce
  have "CalculateOptimalEdits ar left right = bindr (Inr t) (\<lambda>t3. bindr (best_path (snd t3) (length left) (length right)) (\<lambda>path. Inr (rev path)))"
    unfolding CalculateOptimalEdits_def Let_def t(1) [symmetric] by (simp only: bindr_assoc)
  then have "CalculateOptimalEdits ar left right = Inr (rev path)" using p(1) by simp
  moreover have "rev path = replicate (length left) kMatch" if "left = right"
    using best_path_same [of left t "length left"] t(2) p(1) that by (metis Inr_inject order_refl rev_replicate)
  ultimately show ?thesis using p(2) by blast
qed

subsection \<open>Strings\<close>

definition ids_ok :: "(string \<times> nat) list \<Rightarrow> bool" where
  "ids_ok ids \<longleftrightarrow> distinct (map fst ids) \<and> distinct (map snd ids) \<and> (\<forall>(s, i) \<in> set ids. i < length ids)"

lemma GetId_ok:
  assumes "ids_ok ids"
  shows "case GetId s ids of (i, ids1) \<Rightarrow> ids_ok ids1 \<and> map_of ids1 s = Some i \<and> map_of ids \<subseteq>\<^sub>m map_of ids1"
proof (cases "map_of ids s")
  case None
  then have "s \<notin> fst ` set ids" by (simp add: map_of_eq_None_iff)
  moreover have "length ids \<notin> snd ` set ids" using assms by (auto simp: ids_ok_def)
  ultimately show ?thesis using assms None
    by (auto simp: GetId_def Let_def ids_ok_def map_le_def less_Suc_eq split: prod.splits)
qed (simp add: GetId_def assms)

lemma get_ids_ok:
  "ids_ok ids \<Longrightarrow> get_ids ss ids = (is, ids2) \<Longrightarrow>
     ids_ok ids2 \<and> map_of ids \<subseteq>\<^sub>m map_of ids2 \<and> set ss \<subseteq> dom (map_of ids2) \<and> is = map (the \<circ> map_of ids2) ss"
proof (induction ss arbitrary: ids "is")
  case (Cons s ss)
  obtain i ids1 where i: "GetId s ids = (i, ids1)" by (cases "GetId s ids")
  obtain js where js: "get_ids ss ids1 = (js, ids2)" "is = i # js" using Cons.prems(2) i by (auto split: prod.splits)
  have 1: "ids_ok ids1" "map_of ids1 s = Some i" "map_of ids \<subseteq>\<^sub>m map_of ids1" using GetId_ok [OF Cons.prems(1), of s] i by simp_all
  note 2 = Cons.IH [OF 1(1) js(1)]
  from 2 1(2) have "map_of ids2 s = Some i" unfolding map_le_def by force
  with 1 2 js(2) show ?case using map_le_trans by auto
qed simp

lemma ids_inj:
  assumes "ids_ok ids"
  shows "inj_on (the \<circ> map_of ids) (dom (map_of ids))"
proof (rule inj_onI)
  fix s s' assume "s \<in> dom (map_of ids)" "s' \<in> dom (map_of ids)" "(the \<circ> map_of ids) s = (the \<circ> map_of ids) s'"
  then obtain i where "map_of ids s = Some i" "map_of ids s' = Some i" by (auto simp: dom_def)
  then have "(s, i) \<in> set ids" "(s', i) \<in> set ids" by (simp_all add: map_of_SomeD)
  with assms show "s = s'" unfolding ids_ok_def by (metis (no_types, lifting) distinct_map inj_onD prod.inject snd_conv)
qed

lemma CalculateStringEdits_script:
  "\<exists>es. CalculateStringEdits ar left right = Inr es \<and> script es left right \<and> (left = right \<longrightarrow> es = replicate (length left) kMatch)"
proof -
  obtain ls t1 where l: "get_ids left [] = (ls, t1)" by (cases "get_ids left []")
  obtain rs t2 where r: "get_ids right t1 = (rs, t2)" by (cases "get_ids right t1")
  have 1: "ids_ok t1" "set left \<subseteq> dom (map_of t1)" "ls = map (the \<circ> map_of t1) left"
    using get_ids_ok [OF _ l] by (simp_all add: ids_ok_def)
  note 2 = get_ids_ok [OF 1(1) r]
  let ?f = "the \<circ> map_of t2"
  have "map_of t1 s = map_of t2 s" if "s \<in> set left" for s using 1(2) 2 that unfolding map_le_def by blast
  then have ls: "ls = map ?f left" using 1(3) by simp
  have rs: "rs = map ?f right" using 2 by blast
  have "set left \<subseteq> dom (map_of t2)" using 1(2) 2 by (meson map_le_implies_dom_le subset_trans)
  then have inj: "inj_on ?f (set left \<union> set right)" using ids_inj [of t2] 2 by (meson Un_least inj_on_subset)
  from CalculateOptimalEdits_script [of ar ls rs] obtain es where
    es: "CalculateOptimalEdits ar ls rs = Inr es" "script es ls rs" "ls = rs \<longrightarrow> es = replicate (length ls) kMatch" by blast
  have "script es left right" using script_map [OF _ inj] es(2) unfolding ls rs by blast
  then show ?thesis using es(1,3) l r ls rs by (simp add: CalculateStringEdits_def)
qed

subsection \<open>The diff\<close>

text \<open>What is left of the two texts and of the script.\<close>

definition at_edit :: "edit_type list \<Rightarrow> 'a list \<Rightarrow> 'a list \<Rightarrow> nat \<Rightarrow> nat \<Rightarrow> nat \<Rightarrow> bool" where
  "at_edit edits left right l r e \<longleftrightarrow> l \<le> length left \<and> r \<le> length right \<and> e \<le> length edits \<and>
     script (drop e edits) (drop l left) (drop r right)"

lemma at_edit_step:
  assumes "at_edit edits left right l r e" "e < length edits"
  shows "at_edit edits left right (if edits ! e \<noteq> kAdd then l + 1 else l) (if edits ! e \<noteq> kRemove then r + 1 else r) (e + 1)"
    "edits ! e \<noteq> kAdd \<Longrightarrow> l < length left" "edits ! e \<noteq> kRemove \<Longrightarrow> r < length right"
proof -
  have "drop e edits = edits ! e # drop (e + 1) edits" using assms(2) by (simp add: Cons_nth_drop_Suc)
  then have s: "script (edits ! e # drop (e + 1) edits) (drop l left) (drop r right)" using assms(1) by (simp add: at_edit_def)
  then show "edits ! e \<noteq> kAdd \<Longrightarrow> l < length left" "edits ! e \<noteq> kRemove \<Longrightarrow> r < length right"
    by (cases "edits ! e"; simp)+
  from s assms show "at_edit edits left right (if edits ! e \<noteq> kAdd then l + 1 else l) (if edits ! e \<noteq> kRemove then r + 1 else r) (e + 1)"
    by (cases "edits ! e") (auto simp: at_edit_def tl_drop drop_Suc)
qed

lemma at_edit_matches:
  "at_edit edits left right l r e \<Longrightarrow> k \<le> length (takeWhile (\<lambda>e. e = kMatch) (drop e edits)) \<Longrightarrow>
     at_edit edits left right (l + k) (r + k) (e + k)"
proof (induction k)
  case (Suc k)
  have "k < length (takeWhile (\<lambda>e. e = kMatch) (drop e edits))" using Suc.prems(2) by simp
  then have "k < length (drop e edits)" by (rule less_le_trans [OF _ length_takeWhile_le])
  moreover have "drop e edits ! k = kMatch"
    using nth_mem [OF \<open>k < length (takeWhile _ _)\<close>] by (auto dest: set_takeWhileD simp: takeWhile_nth \<open>k < length (takeWhile _ _)\<close>)
  moreover have "at_edit edits left right (l + k) (r + k) (e + k)" using Suc by simp
  ultimately show ?case using at_edit_step(1) [of edits left right "l + k" "r + k" "e + k"] by simp
qed simp

lemma push_edit_ok:
  assumes "edit \<noteq> kAdd \<Longrightarrow> l < length left" "edit \<noteq> kRemove \<Longrightarrow> r < length right"
  shows "\<exists>h1. push_edit edit left right l r h = Inr h1 \<and> (has_edits h1 \<longleftrightarrow> has_edits h \<or> edit \<noteq> kMatch)"
  using assms by (cases edit) (simp_all add: push_edit_def vat_def PushLine_def FlushEdits_def has_edits_def Let_def)

lemma hunk_loop_ok:
  "at_edit edits left right l r e \<Longrightarrow>
     \<exists>l' r' e' h'. hunk_loop edits left right ctx l r e n h = Inr (l', r', e', h') \<and> at_edit edits left right l' r' e' \<and>
       (has_edits h \<longrightarrow> has_edits h')"
proof (induction edits left right ctx l r e n h rule: hunk_loop.induct)
  case (1 edits left right ctx l r e n h)
  let ?it = "e + length (takeWhile (\<lambda>e. e = kMatch) (drop e edits))"
  show ?case
  proof (cases "length edits \<le> e \<or> ctx \<le> n \<and> (?it = length edits \<or> ctx \<le> ?it - e)")
    case True
    with "1.prems" show ?thesis by (subst hunk_loop.simps) (auto simp: Let_def)
  next
    case False
    then have e: "e < length edits" by simp
    note st = at_edit_step [OF "1.prems" e]
    from push_edit_ok [OF st(2,3)] obtain h1 where h1: "push_edit (edits ! e) left right l r h = Inr h1"
      "has_edits h1 \<longleftrightarrow> has_edits h \<or> edits ! e \<noteq> kMatch" by blast
    let ?rest = "hunk_loop edits left right ctx (if edits ! e \<noteq> kAdd then l + 1 else l) (if edits ! e \<noteq> kRemove then r + 1 else r)
        (e + 1) (if edits ! e = kMatch then n + 1 else 0) h1"
    have "hunk_loop edits left right ctx l r e n h = ?rest" using False h1(1) by (subst hunk_loop.simps) (auto simp: Let_def)
    moreover have "\<exists>l' r' e' h'. ?rest = Inr (l', r', e', h') \<and> at_edit edits left right l' r' e' \<and> (has_edits h1 \<longrightarrow> has_edits h')"
      using "1.IH" [OF _ refl _ refl h1(1) st(1)] False by blast
    ultimately show ?thesis using h1(2) by auto
  qed
qed

text \<open>With context, the hunk has the edit that it starts at; without, it is empty.\<close>

lemma hunk_loop_first:
  assumes "at_edit edits left right l r e" "e < length edits" "edits ! e \<noteq> kMatch"
  shows "0 < ctx \<Longrightarrow> \<exists>l' r' e' h'. hunk_loop edits left right ctx l r e 0 h = Inr (l', r', e', h') \<and>
      at_edit edits left right l' r' e' \<and> has_edits h'"
    "hunk_loop edits left right 0 l r e 0 h = Inr (l, r, e, h)"
proof -
  have t: "takeWhile (\<lambda>e. e = kMatch) (drop e edits) = []" using assms(2,3) by (simp add: Cons_nth_drop_Suc [symmetric])
  show "hunk_loop edits left right 0 l r e 0 h = Inr (l, r, e, h)" using assms(2) t by (subst hunk_loop.simps) simp
  assume c: "0 < ctx"
  note st = at_edit_step [OF assms(1,2)]
  from push_edit_ok [OF st(2,3)] obtain h1 where h1: "push_edit (edits ! e) left right l r h = Inr h1" "has_edits h1"
    using assms(3) by blast
  have "hunk_loop edits left right ctx l r e 0 h = hunk_loop edits left right ctx (if edits ! e \<noteq> kAdd then l + 1 else l)
      (if edits ! e \<noteq> kRemove then r + 1 else r) (e + 1) 0 h1"
    using assms(2,3) c h1(1) by (subst hunk_loop.simps) (simp add: Let_def)
  with hunk_loop_ok [OF st(1), of ctx 0 h1] h1(2)
  show "\<exists>l' r' e' h'. hunk_loop edits left right ctx l r e 0 h = Inr (l', r', e', h') \<and>
      at_edit edits left right l' r' e' \<and> has_edits h'" by auto
qed

lemma context_lines_ok:
  assumes "k \<le> l" "l \<le> length left"
  shows "\<exists>h1. context_lines left l k h = Inr h1"
proof -
  have "\<exists>h1. rfold (\<lambda>i h. bindr (vat left (l - i)) (\<lambda>line. Inr (PushLine CHR '' '' (cstr line) h))) is h = Inr h1"
    if "\<forall>i \<in> set is. 0 < i \<and> i \<le> l" for "is"
    using that
  proof (induction "is" arbitrary: h)
    case (Cons i "is")
    then have "l - i < length left" using assms(2) by auto
    with Cons show ?case by (simp add: vat_def)
  qed simp
  moreover have "\<forall>i \<in> set (rev [1..<k + 1]). 0 < i \<and> i \<le> l" using assms(1) by auto
  ultimately show ?thesis unfolding context_lines_def by blast
qed

lemma one_hunk_ok:
  assumes "at_edit edits left right l r e"
  shows "\<exists>l' r' e' h. one_hunk edits left right ctx l r e = Inr (l', r', e', h) \<and> at_edit edits left right l' r' e' \<and>
    ((\<exists>x \<in> set (drop e edits). x \<noteq> kMatch) \<and> 0 < ctx \<longleftrightarrow> has_edits h)"
proof -
  let ?k = "length (takeWhile (\<lambda>e. e = kMatch) (drop e edits))"
  have at: "at_edit edits left right (l + ?k) (r + ?k) (e + ?k)" by (rule at_edit_matches [OF assms order_refl])
  then have "l + ?k \<le> length left" by (simp add: at_edit_def)
  from context_lines_ok [OF _ this] obtain h1 where
    h1: "context_lines left (l + ?k) (min (l + ?k) ctx)
      (Hunk (l + ?k - min (l + ?k) ctx + 1) (r + ?k - min (l + ?k) ctx + 1)) = Inr h1" by fastforce
  have no: "\<not> has_edits h1" using context_lines_no_edits [OF h1] by (simp add: has_edits_def Hunk_def)
  have eq: "one_hunk edits left right ctx l r e = hunk_loop edits left right ctx (l + ?k) (r + ?k) (e + ?k) 0 h1"
    using h1 by (simp add: one_hunk_def Let_def)
  show ?thesis
  proof (cases "\<exists>x \<in> set (drop e edits). x \<noteq> kMatch")
    case False
    then have "takeWhile (\<lambda>e. e = kMatch) (drop e edits) = drop e edits" unfolding takeWhile_eq_all_conv by blast
    then have "?k = length edits - e" by (simp only: length_drop)
    then have "e + ?k = length edits" using assms by (simp add: at_edit_def)
    then have "one_hunk edits left right ctx l r e = Inr (l + ?k, r + ?k, e + ?k, h1)" unfolding eq by (subst hunk_loop.simps) simp
    with at no False show ?thesis by blast
  next
    case True
    then have "takeWhile (\<lambda>e. e = kMatch) (drop e edits) \<noteq> drop e edits" unfolding takeWhile_eq_all_conv by blast
    then have len: "?k < length (drop e edits)"
      by (metis le_neq_implies_less length_takeWhile_le take_all_iff takeWhile_eq_take order_refl)
    then have "drop e edits ! ?k \<noteq> kMatch" using nth_length_takeWhile by fastforce
    then have e: "e + ?k < length edits" "edits ! (e + ?k) \<noteq> kMatch" using len by auto
    show ?thesis
    proof (cases "0 < ctx")
      case c: True
      from hunk_loop_first(1) [OF at e c, of h1] True c show ?thesis unfolding eq by blast
    next
      case False
      with hunk_loop_first(2) [OF at e, of h1] at no show ?thesis unfolding eq by auto
    qed
  qed
qed

lemma PrintTo_not_Nil: "PrintTo h \<noteq> []"
  by (simp add: PrintTo_def PrintHeader_def)

lemma diff_loop_ok:
  "at_edit edits left right l r e \<Longrightarrow>
     \<exists>d. diff_loop edits left right ctx l r e ss = Inr (ss @ d) \<and> (d = [] \<longleftrightarrow> (\<forall>x \<in> set (drop e edits). x = kMatch) \<or> ctx = 0)"
proof (induction edits left right ctx l r e ss rule: diff_loop.induct)
  case (1 edits left right ctx l r e ss)
  show ?case
  proof (cases "length edits \<le> e")
    case True
    then show ?thesis by (subst diff_loop.simps) simp
  next
    case False
    from one_hunk_ok [OF "1.prems", of ctx] obtain l' r' e' h where
      h: "one_hunk edits left right ctx l r e = Inr (l', r', e', h)" "at_edit edits left right l' r' e'"
      "(\<exists>x \<in> set (drop e edits). x \<noteq> kMatch) \<and> 0 < ctx \<longleftrightarrow> has_edits h" by blast
    show ?thesis
    proof (cases "has_edits h")
      case True
      from "1.IH" [OF False h(1) refl refl refl] True h(2) obtain d where
        "diff_loop edits left right ctx l' r' e' (ss @ PrintTo h) = Inr ((ss @ PrintTo h) @ d)" by auto
      then have "diff_loop edits left right ctx l r e ss = Inr (ss @ (PrintTo h @ d))"
        using False h(1) True by (subst diff_loop.simps) simp
      moreover have "PrintTo h @ d \<noteq> []" by (simp add: PrintTo_not_Nil)
      moreover have "\<not> ((\<forall>x \<in> set (drop e edits). x = kMatch) \<or> ctx = 0)" using h(3) True by auto
      ultimately show ?thesis by blast
    next
      case noedits: False
      then have "diff_loop edits left right ctx l r e ss = Inr (ss @ [])" using False h(1) by (subst diff_loop.simps) simp
      moreover have "(\<forall>x \<in> set (drop e edits). x = kMatch) \<or> ctx = 0" using h(3) noedits by auto
      ultimately show ?thesis by blast
    qed
  qed
qed

lemma CreateUnifiedDiff_ok:
  "\<exists>d. CreateUnifiedDiff ar left right ctx = Inr d \<and> (d = [] \<longleftrightarrow> left = right \<or> ctx = 0)"
proof -
  from CalculateStringEdits_script [of ar left right] obtain es where
    es: "CalculateStringEdits ar left right = Inr es" "script es left right" "left = right \<longrightarrow> es = replicate (length left) kMatch" by blast
  have "at_edit es left right 0 0 0" using es(2) by (simp add: at_edit_def)
  from diff_loop_ok [OF this, of ctx "[]"] obtain d where
    d: "diff_loop es left right ctx 0 0 0 [] = Inr d" "d = [] \<longleftrightarrow> (\<forall>x \<in> set es. x = kMatch) \<or> ctx = 0" by auto
  have "(\<forall>x \<in> set es. x = kMatch) \<longleftrightarrow> left = right" using es(2,3) script_matches by auto
  with d es(1) show ?thesis by (simp add: CreateUnifiedDiff_def)
qed

subsection \<open>Messages\<close>

lemma SplitEscapedString_ok: "\<exists>ls. SplitEscapedString str = Inr ls \<and> ls \<noteq> []"
proof -
  have loop: "\<exists>ls start' escaped'. rfold (split_escaped_step str) is (acc, start, escaped) = Inr (ls, start', escaped')"
    if "\<forall>i \<in> set is. i < length str" for "is" acc start escaped
    using that by (induction "is" arbitrary: acc start escaped) (auto simp: split_escaped_step_def vat_def)
  let ?q = "2 < length str \<and> hd str = CHR 0x22 \<and> last str = CHR 0x22"
  let ?start = "if ?q then 1 else 0" and ?stop = "if ?q then length str - 1 else length str"
  have "\<forall>i \<in> set [?start..<?stop - 1]. i < length str" by auto
  from loop [OF this, of "[]" ?start False] show ?thesis by (auto simp: SplitEscapedString_def Let_def)
qed

lemma EqFailure_ok: "\<exists>msg. EqFailure ar le re lv rv ic = Inr msg"
proof -
  obtain ls where ls: "SplitEscapedString lv = Inr ls" using SplitEscapedString_ok by blast
  obtain rs where rs: "SplitEscapedString rv = Inr rs" using SplitEscapedString_ok by blast
  obtain d where d: "CreateUnifiedDiff ar ls rs 2 = Inr d" using CreateUnifiedDiff_ok by blast
  show ?thesis by (simp add: EqFailure_def Let_def ls rs d)
qed

end
