(* ===== verification/Gt_Utf8.thy ===== *)
theory Gt_Utf8
  imports Gt_Strings "HOL-Library.Word"
begin

unbundle bit_operations_syntax

section \<open>Wide strings in UTF-8 (\<open>googletest/src/gtest.cc\<close>)\<close>

text \<open>
  Code points are 32 bit numbers.  A wide string is the list of its \<open>wchar_t\<close>s with the terminator; whether a
  \<open>wchar_t\<close> has 16 bits, as on Windows, is a parameter.
\<close>

definition kMaxCodePoint1 :: "32 word" where "kMaxCodePoint1 = push_bit 7 1 - 1"

definition kMaxCodePoint2 :: "32 word" where "kMaxCodePoint2 = push_bit (5 + 6) 1 - 1"

definition kMaxCodePoint3 :: "32 word" where "kMaxCodePoint3 = push_bit (4 + 2 * 6) 1 - 1"

definition kMaxCodePoint4 :: "32 word" where "kMaxCodePoint4 = push_bit (3 + 3 * 6) 1 - 1"

text \<open>The low bits and what is left.\<close>

definition ChopLowBits :: "32 word \<Rightarrow> nat \<Rightarrow> 32 word \<times> 32 word" where
  "ChopLowBits bits n = (bits AND (push_bit n 1 - 1), drop_bit n bits)"

text \<open>The conversion to \<open>char\<close>.\<close>

definition to_char :: "32 word \<Rightarrow> char" where
  "to_char w = char_of (unat w)"

definition CodePointToUtf8 :: "32 word \<Rightarrow> string" where
  "CodePointToUtf8 code_point =
     (if kMaxCodePoint4 < code_point then ''(Invalid Unicode 0x'' @ FormatHexUInt32 code_point @ '')''
      else if code_point \<le> kMaxCodePoint1 then cstr [to_char code_point, NUL]
      else if code_point \<le> kMaxCodePoint2 then
        (case ChopLowBits code_point 6 of (b1, c1) \<Rightarrow>
         cstr [to_char (0xC0 OR c1), to_char (0x80 OR b1), NUL])
      else if code_point \<le> kMaxCodePoint3 then
        (case ChopLowBits code_point 6 of (b2, c1) \<Rightarrow>
         case ChopLowBits c1 6 of (b1, c2) \<Rightarrow>
         cstr [to_char (0xE0 OR c2), to_char (0x80 OR b1), to_char (0x80 OR b2), NUL])
      else
        (case ChopLowBits code_point 6 of (b3, c1) \<Rightarrow>
         case ChopLowBits c1 6 of (b2, c2) \<Rightarrow>
         case ChopLowBits c2 6 of (b1, c3) \<Rightarrow>
         cstr [to_char (0xF0 OR c3), to_char (0x80 OR b1), to_char (0x80 OR b2), to_char (0x80 OR b3), NUL]))"

definition IsUtf16SurrogatePair :: "bool \<Rightarrow> 32 word \<Rightarrow> 32 word \<Rightarrow> bool" where
  "IsUtf16SurrogatePair wide16 first second \<longleftrightarrow>
     wide16 \<and> first AND 0xFC00 = 0xD800 \<and> second AND 0xFC00 = 0xDC00"

definition CreateCodePointFromUtf16SurrogatePair :: "bool \<Rightarrow> 32 word \<Rightarrow> 32 word \<Rightarrow> 32 word" where
  "CreateCodePointFromUtf16SurrogatePair wide16 first second =
     (let mask = push_bit 10 1 - 1 in
      if wide16 then (push_bit 10 (first AND mask) OR (second AND mask)) + 0x10000 else first)"

text \<open>The loop of \<open>WideStringToUtf8\<close>.\<close>

function utf8_loop :: "bool \<Rightarrow> 32 word list \<Rightarrow> nat \<Rightarrow> nat \<Rightarrow> string \<Rightarrow> stop + string" where
  "utf8_loop wide16 str num_chars i stream =
     (if num_chars \<le> i then Inr stream
      else bindr (vat str i) (\<lambda>first.
        if first = 0 then Inr stream
        else bindr (if i + 1 < num_chars then bindr (vat str (i + 1)) (\<lambda>second. Inr (Some second)) else Inr None) (\<lambda>next.
          case next of
            Some second \<Rightarrow>
              if IsUtf16SurrogatePair wide16 first second
              then utf8_loop wide16 str num_chars (i + 2)
                (stream @ CodePointToUtf8 (CreateCodePointFromUtf16SurrogatePair wide16 first second))
              else utf8_loop wide16 str num_chars (i + 1) (stream @ CodePointToUtf8 first)
          | None \<Rightarrow> utf8_loop wide16 str num_chars (i + 1) (stream @ CodePointToUtf8 first))))"
  by pat_completeness auto
termination
  by (relation "measure (\<lambda>(w, str, n, i, s). n - i)") auto

declare utf8_loop.simps [simp del]

text \<open>\<open>wcslen\<close> reads up to the terminator; its result is converted to \<open>int\<close>.\<close>

definition wcslen :: "32 word list \<Rightarrow> stop + nat" where
  "wcslen str = (if 0 \<in> set str then Inr (length (takeWhile (\<lambda>c. c \<noteq> 0) str)) else Inl Overread)"

definition WideStringToUtf8 :: "bool \<Rightarrow> 32 word list \<Rightarrow> int \<Rightarrow> stop + string" where
  "WideStringToUtf8 wide16 str num_chars =
     bindr (if num_chars = - 1 then bindr (wcslen str) (\<lambda>n. Inr (to_int n)) else Inr num_chars) (\<lambda>num.
     bindr (utf8_loop wide16 str (nat num) 0 []) (\<lambda>stream. Inr (StringStreamToString stream)))"

definition ShowWideCString :: "bool \<Rightarrow> 32 word list option \<Rightarrow> stop + string" where
  "ShowWideCString wide16 wide_c_str =
     (case wide_c_str of None \<Rightarrow> Inr ''(null)'' | Some str \<Rightarrow> WideStringToUtf8 wide16 str (- 1))"

text \<open>A wide C string here is its characters before the terminator.\<close>

definition WideCStringEquals :: "32 word list option \<Rightarrow> 32 word list option \<Rightarrow> bool" where
  "WideCStringEquals lhs rhs =
     (case lhs of None \<Rightarrow> rhs = None | Some l \<Rightarrow> (case rhs of None \<Rightarrow> False | Some r \<Rightarrow> l = r))"

subsection \<open>UTF-8\<close>

text \<open>The first code point of a text, and what follows it.\<close>

definition cont :: "char \<Rightarrow> nat option" where
  "cont c = (let b = of_char c in if 128 \<le> b \<and> b < 192 then Some (b - 128) else None)"

definition utf8_next :: "string \<Rightarrow> (nat \<times> string) option" where
  "utf8_next s = (case s of [] \<Rightarrow> None | c # cs \<Rightarrow>
     let b = of_char c in
     if b < 128 then Some (b, cs)
     else if 192 \<le> b \<and> b < 224 then
       (case cs of c1 # r \<Rightarrow> map_option (\<lambda>x1. ((b - 192) * 64 + x1, r)) (cont c1) | _ \<Rightarrow> None)
     else if 224 \<le> b \<and> b < 240 then
       (case cs of c1 # c2 # r \<Rightarrow> Option.bind (cont c1) (\<lambda>x1. map_option (\<lambda>x2. ((b - 224) * 4096 + x1 * 64 + x2, r)) (cont c2)) | _ \<Rightarrow> None)
     else if 240 \<le> b \<and> b < 248 then
       (case cs of c1 # c2 # c3 # r \<Rightarrow> Option.bind (cont c1) (\<lambda>x1. Option.bind (cont c2) (\<lambda>x2.
          map_option (\<lambda>x3. ((b - 240) * 262144 + x1 * 4096 + x2 * 64 + x3, r)) (cont c3))) | _ \<Rightarrow> None)
     else None)"

lemma utf8_next_Nil [simp]: "utf8_next [] = None"
  by (simp add: utf8_next_def)

lemma utf8_next_shorter: "utf8_next s = Some (cp, r) \<Longrightarrow> length r < length s"
  by (auto simp: utf8_next_def Let_def bind_eq_Some_conv split: list.splits if_splits)

function utf8_decode :: "string \<Rightarrow> nat list option" where
  "utf8_decode s =
     (if s = [] then Some []
      else case utf8_next s of None \<Rightarrow> None | Some (cp, r) \<Rightarrow> map_option (\<lambda>cps. cp # cps) (utf8_decode r))"
  by pat_completeness auto
termination
  by (relation "measure length") (auto dest: utf8_next_shorter)

declare utf8_decode.simps [simp del]

subsection \<open>Every code point is encoded\<close>

lemma of_to_char: "(of_char (to_char w) :: nat) = unat w mod 256"
  by (simp add: to_char_def)

lemma chop6: "unat (fst (ChopLowBits w 6)) = unat w mod 64" "unat (snd (ChopLowBits w 6)) = unat w div 64"
proof -
  have "w AND (push_bit 6 1 - 1) = take_bit 6 w" by (simp add: take_bit_eq_mask mask_eq_exp_minus_1)
  then show "unat (fst (ChopLowBits w 6)) = unat w mod 64" by (simp add: ChopLowBits_def take_bit_eq_mod unat_mod_distrib)
  show "unat (snd (ChopLowBits w 6)) = unat w div 64" by (simp add: ChopLowBits_def unat_drop_bit_eq drop_bit_eq_div unat_div_distrib)
qed

lemma nat_or_low: "x < 2 ^ k \<Longrightarrow> (push_bit k d OR x :: nat) = push_bit k d + x"
proof -
  assume x: "x < 2 ^ k"
  have "\<not> bit (push_bit k d) n \<or> \<not> bit x n" for n
  proof (cases "n < k")
    case False
    have "take_bit k x = x" using x by (simp add: take_bit_nat_eq_self)
    with False have "\<not> bit x n" by (metis bit_take_bit_iff)
    then show ?thesis by simp
  qed (simp add: bit_push_bit_iff)
  then show ?thesis by (simp add: disjunctive_add)
qed

lemma or_low:
  "unat x < 64 \<Longrightarrow> unat (0x80 OR x :: 32 word) = 128 + unat x"
  "unat x < 32 \<Longrightarrow> unat (0xC0 OR x :: 32 word) = 192 + unat x"
  "unat x < 16 \<Longrightarrow> unat (0xE0 OR x :: 32 word) = 224 + unat x"
  "unat x < 8 \<Longrightarrow> unat (0xF0 OR x :: 32 word) = 240 + unat x"
  using nat_or_low [of "unat x" 6 2] nat_or_low [of "unat x" 5 6] nat_or_low [of "unat x" 4 14] nat_or_low [of "unat x" 3 30]
  by (simp_all add: unsigned_or_eq push_bit_nat_def)

lemma cont_char: "unat x < 64 \<Longrightarrow> cont (to_char (0x80 OR x)) = Some (unat x)"
  by (simp add: cont_def of_to_char or_low Let_def)

lemma to_char_not_NUL: "unat w mod 256 \<noteq> 0 \<Longrightarrow> to_char w \<noteq> NUL"
proof
  assume "unat w mod 256 \<noteq> 0" "to_char w = NUL"
  then have "(of_char (to_char w) :: nat) = 0" by simp
  with \<open>unat w mod 256 \<noteq> 0\<close> show False by (simp only: of_to_char)
qed

lemma max_code_points:
  "unat kMaxCodePoint1 = 127" "unat kMaxCodePoint2 = 2047" "unat kMaxCodePoint3 = 65535" "unat kMaxCodePoint4 = 2097151"
  by (simp_all add: kMaxCodePoint1_def kMaxCodePoint2_def kMaxCodePoint3_def kMaxCodePoint4_def)

text \<open>The bytes of a code point, in arithmetic.\<close>

definition utf8_bytes :: "nat \<Rightarrow> nat list" where
  "utf8_bytes n =
     (if n < 0x80 then [n]
      else if n < 0x800 then [192 + n div 64, 128 + n mod 64]
      else if n < 0x10000 then [224 + n div 4096, 128 + n div 64 mod 64, 128 + n mod 64]
      else [240 + n div 262144, 128 + n div 4096 mod 64, 128 + n div 64 mod 64, 128 + n mod 64])"

lemma utf8_bytes_bounds: "0 < n \<Longrightarrow> n \<le> 2097151 \<Longrightarrow> b \<in> set (utf8_bytes n) \<Longrightarrow> 0 < b \<and> b < 256"
  by (auto simp: utf8_bytes_def less_mult_imp_div_less split: if_splits)

lemma utf8_bytes_not_NUL: "0 < n \<Longrightarrow> n \<le> 2097151 \<Longrightarrow> NUL \<notin> set (map char_of (utf8_bytes n))"
proof
  assume n: "0 < n" "n \<le> 2097151" "NUL \<in> set (map char_of (utf8_bytes n))"
  then obtain b where b: "b \<in> set (utf8_bytes n)" "char_of b = NUL" by auto
  then have "b mod 256 = of_char NUL" by (metis of_char_of)
  with utf8_bytes_bounds [OF n(1,2) b(1)] show False by simp
qed

lemma CodePointToUtf8_bytes:
  assumes "0 < unat w" "unat w \<le> 2097151"
  shows "CodePointToUtf8 w = map char_of (utf8_bytes (unat w))"
proof -
  define b1 c1 where "b1 = fst (ChopLowBits w 6)" "c1 = snd (ChopLowBits w 6)"
  define b2 c2 where "b2 = fst (ChopLowBits c1 6)" "c2 = snd (ChopLowBits c1 6)"
  define b3 c3 where "b3 = fst (ChopLowBits c2 6)" "c3 = snd (ChopLowBits c2 6)"
  have b: "unat b1 = unat w mod 64" "unat c1 = unat w div 64" "unat b2 = unat w div 64 mod 64" "unat c2 = unat w div 4096"
    "unat b3 = unat w div 4096 mod 64" "unat c3 = unat w div 262144"
    by (simp_all add: b1_c1_def b2_c2_def b3_c3_def chop6 div_mult2_eq [symmetric])
  have ch: "ChopLowBits w 6 = (b1, c1)" "ChopLowBits c1 6 = (b2, c2)" "ChopLowBits c2 6 = (b3, c3)"
    by (simp_all add: b1_c1_def b2_c2_def b3_c3_def)
  have le: "kMaxCodePoint4 < w \<longleftrightarrow> 2097151 < unat w" "w \<le> kMaxCodePoint1 \<longleftrightarrow> unat w \<le> 127"
    "w \<le> kMaxCodePoint2 \<longleftrightarrow> unat w \<le> 2047" "w \<le> kMaxCodePoint3 \<longleftrightarrow> unat w \<le> 65535"
    by (simp_all add: word_less_nat_alt word_le_nat_alt max_code_points)
  have bl: "unat b1 < 64" "unat b2 < 64" "unat b3 < 64" using b by simp_all
  note nn = utf8_bytes_not_NUL [OF assms]
  have cs: "cstr (map char_of (utf8_bytes (unat w)) @ [NUL]) = map char_of (utf8_bytes (unat w))"
    using nn by (rule cstr_terminated)
  consider (1) "unat w \<le> 127" | (2) "127 < unat w" "unat w \<le> 2047" | (3) "2047 < unat w" "unat w \<le> 65535" | (4) "65535 < unat w"
    by linarith
  then show ?thesis
  proof cases
    case 1
    then have "utf8_bytes (unat w) = [unat w]" by (simp add: utf8_bytes_def)
    with 1 assms(2) cs show ?thesis by (simp add: CodePointToUtf8_def le to_char_def)
  next
    case 2
    then have c: "unat c1 < 32" using b(2) by simp
    have "utf8_bytes (unat w) = [unat (0xC0 OR c1), unat (0x80 OR b1)]"
      using 2 bl c by (simp add: utf8_bytes_def or_low b(1,2))
    with 2 assms(2) cs show ?thesis by (simp add: CodePointToUtf8_def le ch to_char_def)
  next
    case 3
    then have c: "unat c2 < 16" using b(4) by simp
    have "utf8_bytes (unat w) = [unat (0xE0 OR c2), unat (0x80 OR b2), unat (0x80 OR b1)]"
      using 3 bl c by (simp add: utf8_bytes_def or_low b(1,3,4))
    with 3 assms(2) cs show ?thesis by (simp add: CodePointToUtf8_def le ch to_char_def)
  next
    case 4
    then have c: "unat c3 < 8" using b(6) assms(2) by simp
    have "utf8_bytes (unat w) = [unat (0xF0 OR c3), unat (0x80 OR b3), unat (0x80 OR b2), unat (0x80 OR b1)]"
      using 4 bl c by (simp add: utf8_bytes_def or_low b(1,3,5,6))
    with 4 assms(2) cs show ?thesis by (simp add: CodePointToUtf8_def le ch to_char_def)
  qed
qed

lemma cont_byte: "x < 64 \<Longrightarrow> cont (char_of (128 + x)) = Some x"
  by (simp add: cont_def Let_def)

lemma utf8_next_bytes:
  assumes "n \<le> 2097151"
  shows "utf8_next (map char_of (utf8_bytes n) @ rest) = Some (n, rest)"
proof -
  have s: "n div 4096 = n div 64 div 64" "n div 262144 = n div 4096 div 64" by (simp_all only: div_mult2_eq [symmetric]) simp_all
  have e: "n div 64 * 64 + n mod 64 = n" "n div 4096 * 4096 + n div 64 mod 64 * 64 + n mod 64 = n"
    "n div 262144 * 262144 + n div 4096 mod 64 * 4096 + n div 64 mod 64 * 64 + n mod 64 = n"
    using s div_mult_mod_eq [of n 64] div_mult_mod_eq [of "n div 64" 64] div_mult_mod_eq [of "n div 4096" 64] by linarith+
  consider (1) "n < 0x80" | (2) "0x80 \<le> n" "n < 0x800" | (3) "0x800 \<le> n" "n < 0x10000" | (4) "0x10000 \<le> n" by linarith
  then show ?thesis
  proof cases
    case 2
    then have "n div 64 < 32" by simp
    with 2 e(1) show ?thesis by (simp add: utf8_next_def utf8_bytes_def cont_byte Let_def)
  next
    case 3
    then have "n div 4096 < 16" by simp
    with 3 e(2) show ?thesis by (simp add: utf8_next_def utf8_bytes_def cont_byte Let_def)
  next
    case 4
    have "n div 262144 < 8" using assms by simp
    with 4 e(3) show ?thesis by (simp add: utf8_next_def utf8_bytes_def cont_byte Let_def)
  qed (simp add: utf8_next_def utf8_bytes_def)
qed

lemma utf8_next_encoded:
  assumes "0 < unat w" "unat w \<le> 2097151"
  shows "utf8_next (CodePointToUtf8 w @ rest) = Some (unat w, rest)" "NUL \<notin> set (CodePointToUtf8 w)"
  unfolding CodePointToUtf8_bytes [OF assms] by (rule utf8_next_bytes [OF assms(2)], rule utf8_bytes_not_NUL [OF assms])

subsection \<open>Every text is converted\<close>

text \<open>Unicode scalar values but 0, and their encodings as \<open>wchar_t\<close>s of 32 and of 16 bits.\<close>

definition scalar :: "nat \<Rightarrow> bool" where
  "scalar cp \<longleftrightarrow> 0 < cp \<and> cp < 0x110000 \<and> \<not> (0xD800 \<le> cp \<and> cp < 0xE000)"

definition units :: "bool \<Rightarrow> nat \<Rightarrow> 32 word list" where
  "units wide16 cp =
     (if wide16 \<and> 0x10000 \<le> cp
      then [word_of_nat (0xD800 + (cp - 0x10000) div 1024), word_of_nat (0xDC00 + (cp - 0x10000) mod 1024)]
      else [word_of_nat cp])"

lemma unat_small: "n < 4294967296 \<Longrightarrow> unat (word_of_nat n :: 32 word) = n"
  by (simp add: unsigned_of_nat take_bit_nat_eq_self)

lemma high_bits: "unat (w AND 0xFC00 :: 32 word) = 1024 * (unat w div 1024 mod 64)"
proof -
  have m: "(0xFC00 :: 32 word) = push_bit 10 (mask 6)" by (simp add: mask_eq_exp_minus_1)
  have "w AND 0xFC00 = push_bit 10 (take_bit 6 (drop_bit 10 w))"
    unfolding m by (rule bit_word_eqI) (auto simp: bit_simps)
  moreover have "unat (push_bit 10 (take_bit 6 (drop_bit 10 w))) = 1024 * (unat w div 1024 mod 64)"
  proof -
    have "unat (take_bit 6 (drop_bit 10 w)) = unat w div 1024 mod 64"
      by (simp add: unsigned_take_bit_eq unat_drop_bit_eq drop_bit_eq_div take_bit_eq_mod unat_mod_distrib unat_div_distrib)
    moreover have "unat w div 1024 mod 64 * 1024 < 4294967296" using mod_less_divisor [of 64 "unat w div 1024"] by linarith
    ultimately show ?thesis by (simp add: unsigned_push_bit_eq push_bit_nat_def take_bit_nat_eq_self)
  qed
  ultimately show ?thesis by simp
qed

lemma low_bits: "unat (w AND (push_bit 10 1 - 1) :: 32 word) = unat w mod 1024"
proof -
  have "w AND (push_bit 10 1 - 1) = take_bit 10 w" by (simp add: take_bit_eq_mask mask_eq_exp_minus_1)
  then show ?thesis by (simp add: take_bit_eq_mod unat_mod_distrib)
qed

lemma surrogate_iff:
  assumes "unat w < 65536"
  shows "w AND 0xFC00 = (0xD800 :: 32 word) \<longleftrightarrow> 0xD800 \<le> unat w \<and> unat w < 0xDC00"
    "w AND 0xFC00 = (0xDC00 :: 32 word) \<longleftrightarrow> 0xDC00 \<le> unat w \<and> unat w < 0xE000"
proof -
  have d: "unat w div 1024 < 64" using assms by auto
  have e: "w AND 0xFC00 = c \<longleftrightarrow> 1024 * (unat w div 1024) = unat c" for c :: "32 word"
    using high_bits [of w] d by (metis mod_less word_unat_eq_iff)
  note e [of "0xD800"] e [of "0xDC00"]
  moreover have "1024 * (unat w div 1024) = 55296 \<longleftrightarrow> 55296 \<le> unat w \<and> unat w < 56320"
    "1024 * (unat w div 1024) = 56320 \<longleftrightarrow> 56320 \<le> unat w \<and> unat w < 57344" by auto
  ultimately show "w AND 0xFC00 = (0xD800 :: 32 word) \<longleftrightarrow> 0xD800 \<le> unat w \<and> unat w < 0xDC00"
    "w AND 0xFC00 = (0xDC00 :: 32 word) \<longleftrightarrow> 0xDC00 \<le> unat w \<and> unat w < 0xE000" by simp_all
qed

lemma mod_high: "h < 1024 \<Longrightarrow> (0xD800 + h) mod 1024 = (h :: nat)" "h < 1024 \<Longrightarrow> (0xDC00 + h) mod 1024 = h"
  by (subst mod_add_left_eq [symmetric], simp)+

lemma unat_push10: "unat (x :: 32 word) = h \<Longrightarrow> h < 1024 \<Longrightarrow> unat (push_bit 10 x) = 1024 * h"
  by (simp add: unsigned_push_bit_eq push_bit_nat_def take_bit_nat_eq_self)

lemma pair_code_point:
  assumes "0x10000 \<le> cp" "cp < 0x110000"
  shows "IsUtf16SurrogatePair True (word_of_nat (0xD800 + (cp - 0x10000) div 1024)) (word_of_nat (0xDC00 + (cp - 0x10000) mod 1024))"
    "unat (CreateCodePointFromUtf16SurrogatePair True (word_of_nat (0xD800 + (cp - 0x10000) div 1024))
       (word_of_nat (0xDC00 + (cp - 0x10000) mod 1024))) = cp"
proof -
  let ?h = "(cp - 0x10000) div 1024" and ?l = "(cp - 0x10000) mod 1024"
  let ?f = "word_of_nat (0xD800 + ?h) :: 32 word" and ?s = "word_of_nat (0xDC00 + ?l) :: 32 word"
  have hl: "?h < 1024" "?l < 1024" using assms by auto
  have u: "unat ?f = 0xD800 + ?h" "unat ?s = 0xDC00 + ?l" using hl by (simp_all only: unat_small)
  show "IsUtf16SurrogatePair True ?f ?s"
    using surrogate_iff(1) [of ?f] surrogate_iff(2) [of ?s] hl unfolding u by (simp add: IsUtf16SurrogatePair_def)
  have m: "unat (?f AND (push_bit 10 1 - 1)) = ?h" "unat (?s AND (push_bit 10 1 - 1)) = ?l"
    unfolding low_bits u using hl by (simp_all only: mod_high)
  have p: "unat (push_bit 10 (?f AND (push_bit 10 1 - 1)) :: 32 word) = 1024 * ?h"
    by (rule unat_push10 [OF m(1) hl(1)])
  have "unat (push_bit 10 (?f AND (push_bit 10 1 - 1)) OR (?s AND (push_bit 10 1 - 1))) = push_bit 10 ?h OR ?l"
    unfolding unsigned_or_eq p m(2) by (simp add: push_bit_nat_def mult.commute)
  also have "\<dots> = 1024 * ?h + ?l" using nat_or_low [of ?l 10 ?h] hl(2) by (simp add: push_bit_nat_def)
  also have "\<dots> = cp - 0x10000" by simp
  finally have o: "unat (push_bit 10 (?f AND (push_bit 10 1 - 1)) OR (?s AND (push_bit 10 1 - 1))) = cp - 0x10000" .
  show "unat (CreateCodePointFromUtf16SurrogatePair True ?f ?s) = cp"
    unfolding CreateCodePointFromUtf16SurrogatePair_def Let_def if_True unat_word_ariths(1) o using assms by simp
qed

text \<open>The loop after the units of some code points.\<close>

lemma units_not_Nil [simp]: "units w cp \<noteq> []"
  by (simp add: units_def)

lemma vat_mid: "vat (pre @ x # post) (length pre) = Inr x"
  by (simp add: vat_def)

lemma utf8_loop_pair:
  assumes "wide16" "0x10000 \<le> cp" "cp < 0x110000" "length pre + 2 \<le> n"
  shows "utf8_loop wide16 (pre @ units wide16 cp @ post) n (length pre) acc =
    utf8_loop wide16 ((pre @ units wide16 cp) @ post) n (length (pre @ units wide16 cp)) (acc @ CodePointToUtf8 (word_of_nat cp))"
proof -
  let ?f = "word_of_nat (0xD800 + (cp - 0x10000) div 1024) :: 32 word" and ?s = "word_of_nat (0xDC00 + (cp - 0x10000) mod 1024) :: 32 word"
  obtain f s where fs: "f = ?f" "s = ?s" by blast
  have u: "units wide16 cp = [f, s]" using assms(1,2) unfolding units_def fs by simp
  have "(cp - 0x10000) div 1024 < 1024" using assms(3) by auto
  then have "unat f \<noteq> 0" unfolding fs by (subst unat_small) simp_all
  then have f0: "f \<noteq> 0" by auto
  note pair = pair_code_point [OF assms(2,3), folded fs]
  have "cp < 4294967296" using assms(3) by simp
  then have cc: "CreateCodePointFromUtf16SurrogatePair True f s = word_of_nat cp"
    unfolding word_unat_eq_iff using pair(2) unat_small [of cp] by simp
  have v: "vat (pre @ f # s # post) (length pre) = Inr f" "vat (pre @ f # s # post) (length pre + 1) = Inr s"
    using vat_mid [of pre] vat_mid [of "pre @ [f]" s post] by simp_all
  show ?thesis
    unfolding u using assms(1,4) f0 pair(1) cc v by (subst utf8_loop.simps) simp
qed

lemma utf8_loop_single:
  assumes "scalar cp" "\<not> (wide16 \<and> 0x10000 \<le> cp)" "length pre + 1 \<le> n" "n < length (pre @ units wide16 cp @ post)"
  shows "utf8_loop wide16 (pre @ units wide16 cp @ post) n (length pre) acc =
    utf8_loop wide16 ((pre @ units wide16 cp) @ post) n (length (pre @ units wide16 cp)) (acc @ CodePointToUtf8 (word_of_nat cp))"
proof -
  obtain f where f: "f = (word_of_nat cp :: 32 word)" by blast
  have u: "units wide16 cp = [f]" using assms(2) unfolding units_def f by auto
  have cp: "0 < cp" "cp < 0x110000" "\<not> (0xD800 \<le> cp \<and> cp < 0xE000)" using assms(1) by (simp_all add: scalar_def)
  then have uf: "unat f = cp" unfolding f by (simp add: unat_small)
  then have f0: "f \<noteq> 0" using cp(1) by auto
  have no: "\<not> IsUtf16SurrogatePair wide16 f s" for s
    using assms(2) surrogate_iff(1) [of f] cp(3) unfolding uf by (auto simp: IsUtf16SurrogatePair_def)
  have v: "vat (pre @ f # post) (length pre) = Inr f" by (rule vat_mid)
  show ?thesis
  proof (cases "length pre + 1 < n")
    case True
    then have "length pre + 1 < length (pre @ f # post)" using assms(4) u by auto
    then obtain g where "vat (pre @ f # post) (length pre + 1) = Inr g" by (simp add: vat_def)
    with True assms(3) f0 no v show ?thesis unfolding u f [symmetric] by (subst utf8_loop.simps) simp
  next
    case False
    with assms(3) f0 no v show ?thesis unfolding u f [symmetric] by (subst utf8_loop.simps) simp
  qed
qed

lemma utf8_loop_text:
  "\<forall>cp \<in> set cps. scalar cp \<Longrightarrow>
     utf8_loop wide16 (pre @ concat (map (units wide16) cps) @ [0]) (length pre + length (concat (map (units wide16) cps))) (length pre) acc =
     Inr (acc @ concat (map (\<lambda>cp. CodePointToUtf8 (word_of_nat cp)) cps))"
proof (induction cps arbitrary: pre acc)
  case Nil
  then show ?case by (subst utf8_loop.simps) simp
next
  case (Cons cp cps)
  let ?post = "concat (map (units wide16) cps) @ [0]" and ?n = "length pre + length (concat (map (units wide16) (cp # cps)))"
  have step: "utf8_loop wide16 (pre @ units wide16 cp @ ?post) ?n (length pre) acc =
    utf8_loop wide16 ((pre @ units wide16 cp) @ ?post) ?n (length (pre @ units wide16 cp)) (acc @ CodePointToUtf8 (word_of_nat cp))"
  proof (cases "wide16 \<and> 0x10000 \<le> cp")
    case True
    then have "length (units wide16 cp) = 2" by (simp add: units_def)
    with True Cons.prems show ?thesis by (intro utf8_loop_pair) (auto simp: scalar_def)
  next
    case False
    then have "length (units wide16 cp) = 1" by (auto simp: units_def)
    with False Cons.prems show ?thesis by (intro utf8_loop_single) simp_all
  qed
  have "?n = length (pre @ units wide16 cp) + length (concat (map (units wide16) cps))" by simp
  with step Cons.IH [of "pre @ units wide16 cp" "acc @ CodePointToUtf8 (word_of_nat cp)"] Cons.prems
  show ?case by (simp add: add.assoc)
qed

lemma units_not_0: "scalar cp \<Longrightarrow> 0 \<notin> set (units wide16 cp)"
proof -
  assume "scalar cp"
  then have cp: "0 < cp" "cp < 0x110000" by (simp_all add: scalar_def)
  have "(cp - 0x10000) div 1024 < 1024" "(cp - 0x10000) mod 1024 < 1024" using cp by auto
  then have "unat (word_of_nat (0xD800 + (cp - 0x10000) div 1024) :: 32 word) \<noteq> 0"
    "unat (word_of_nat (0xDC00 + (cp - 0x10000) mod 1024) :: 32 word) \<noteq> 0" "unat (word_of_nat cp :: 32 word) \<noteq> 0"
    using cp by (subst unat_small; simp)+
  then have "(word_of_nat (0xD800 + (cp - 0x10000) div 1024) :: 32 word) \<noteq> 0"
    "(word_of_nat (0xDC00 + (cp - 0x10000) mod 1024) :: 32 word) \<noteq> 0" "(word_of_nat cp :: 32 word) \<noteq> 0"
    by (metis unsigned_0)+
  then show ?thesis unfolding units_def by simp
qed

lemma utf8_decode_text:
  assumes "\<forall>cp \<in> set cps. scalar cp"
  shows "utf8_decode (concat (map (\<lambda>cp. CodePointToUtf8 (word_of_nat cp)) cps)) = Some cps"
    "NUL \<notin> set (concat (map (\<lambda>cp. CodePointToUtf8 (word_of_nat cp)) cps))"
proof -
  have "utf8_decode (concat (map (\<lambda>cp. CodePointToUtf8 (word_of_nat cp)) cps)) = Some cps \<and>
    NUL \<notin> set (concat (map (\<lambda>cp. CodePointToUtf8 (word_of_nat cp)) cps))"
    using assms
  proof (induction cps)
    case Nil
    then show ?case by (subst utf8_decode.simps) simp
  next
    case (Cons cp cps)
    let ?rest = "concat (map (\<lambda>cp. CodePointToUtf8 (word_of_nat cp)) cps)"
    obtain w where w: "w = (word_of_nat cp :: 32 word)" by blast
    have "0 < cp" "cp < 0x110000" using Cons.prems by (simp_all add: scalar_def)
    then have u: "unat w = cp" unfolding w by (simp add: unat_small)
    have b: "0 < unat w" "unat w \<le> 2097151" using \<open>0 < cp\<close> \<open>cp < 0x110000\<close> unfolding u by simp_all
    note n = utf8_next_encoded [OF b]
    have "CodePointToUtf8 w @ ?rest \<noteq> []" using n(1) [of ?rest] by (metis option.distinct(1) utf8_next_Nil)
    then have "utf8_decode (CodePointToUtf8 w @ ?rest) = map_option (\<lambda>cps. cp # cps) (utf8_decode ?rest)"
      using n(1) [of ?rest] u by (subst utf8_decode.simps) (simp only: if_False option.case prod.case)
    with Cons n(2) show ?case by (simp add: w [symmetric])
  qed
  then show "utf8_decode (concat (map (\<lambda>cp. CodePointToUtf8 (word_of_nat cp)) cps)) = Some cps"
    "NUL \<notin> set (concat (map (\<lambda>cp. CodePointToUtf8 (word_of_nat cp)) cps))" by blast+
qed

lemma WideStringToUtf8_text:
  assumes "\<forall>cp \<in> set cps. scalar cp" "length (concat (map (units wide16) cps)) \<le> 2147483647"
  shows "\<exists>s. WideStringToUtf8 wide16 (concat (map (units wide16) cps) @ [0]) (- 1) = Inr s \<and> utf8_decode s = Some cps"
proof -
  let ?u = "concat (map (units wide16) cps)"
  have "\<forall>c \<in> set ?u. c \<noteq> 0" using assms(1) units_not_0 by fastforce
  then have "takeWhile (\<lambda>c. c \<noteq> 0) (?u @ [0]) = ?u" by (subst takeWhile_append2) (blast, simp)
  then have "wcslen (?u @ [0]) = Inr (length ?u)" by (simp add: wcslen_def)
  moreover have "utf8_loop wide16 (?u @ [0]) (length ?u) 0 [] = Inr (concat (map (\<lambda>cp. CodePointToUtf8 (word_of_nat cp)) cps))"
    using utf8_loop_text [OF assms(1), of wide16 "[]" "[]"] by simp
  ultimately show ?thesis
    using assms(2) utf8_decode_text [OF assms(1)] by (simp add: WideStringToUtf8_def StringStreamToString_id)
qed

end
