(* ===== verification/Gt_Regex.thy ===== *)
theory Gt_Regex
  imports Gt_Strings
begin

section \<open>Simple regular expressions (\<open>googletest/src/gtest-port.cc\<close>)\<close>

text \<open>
  Where neither RE2 nor the regular expressions of POSIX are at hand, the class \<open>RE\<close> is implemented
  by a matcher of the framework's own.  A C string that is read is the list of its characters without
  the terminator; \<open>char_at\<close> reads the terminator too, and nothing behind it.
\<close>

definition char_at :: "string \<Rightarrow> nat \<Rightarrow> stop + char" where
  "char_at s i = (if i < length s then Inr (s ! i) else if i = length s then Inr NUL else Inl Overread)"

subsection \<open>Classes of characters\<close>

definition IsInSet :: "char \<Rightarrow> string \<Rightarrow> bool" where
  "IsInSet ch str \<longleftrightarrow> ch \<noteq> NUL \<and> ch \<in> set str"

definition char_between :: "char \<Rightarrow> char \<Rightarrow> char \<Rightarrow> bool" where
  "char_between a ch b \<longleftrightarrow> (of_char a :: nat) \<le> of_char ch \<and> (of_char ch :: nat) \<le> of_char b"

definition IsAsciiDigit :: "char \<Rightarrow> bool" where
  "IsAsciiDigit ch = char_between CHR ''0'' ch CHR ''9''"

definition IsAsciiPunct :: "char \<Rightarrow> bool" where
  "IsAsciiPunct ch = IsInSet ch
     (''^-!'' @ [CHR 0x22] @ ''#$%&'' @ [CHR 0x27] @ ''()*+,./:;<=>?@['' @ [CHR 0x5C] @ '']_'' @ [CHR 0x60] @ ''{|}~'')"

definition IsRepeat :: "char \<Rightarrow> bool" where
  "IsRepeat ch = IsInSet ch ''?*+''"

definition IsAsciiWhiteSpace :: "char \<Rightarrow> bool" where
  "IsAsciiWhiteSpace ch = IsInSet ch ('' '' @ [CHR 0x0C, CHR 0x0A, CHR 0x0D, CHR 0x09, CHR 0x0B])"

definition IsAsciiWordChar :: "char \<Rightarrow> bool" where
  "IsAsciiWordChar ch \<longleftrightarrow>
     char_between CHR ''a'' ch CHR ''z'' \<or> char_between CHR ''A'' ch CHR ''Z'' \<or>
     char_between CHR ''0'' ch CHR ''9'' \<or> ch = CHR ''_''"

definition IsValidEscape :: "char \<Rightarrow> bool" where
  "IsValidEscape c \<longleftrightarrow> IsAsciiPunct c \<or> IsInSet c ''dDfnrsStvwW''"

definition AtomMatchesChar :: "bool \<Rightarrow> char \<Rightarrow> char \<Rightarrow> bool" where
  "AtomMatchesChar escaped pattern_char ch =
     (if escaped then
        if pattern_char = CHR ''d'' then IsAsciiDigit ch
        else if pattern_char = CHR ''D'' then \<not> IsAsciiDigit ch
        else if pattern_char = CHR ''f'' then ch = CHR 0x0C
        else if pattern_char = CHR ''n'' then ch = CHR 0x0A
        else if pattern_char = CHR ''r'' then ch = CHR 0x0D
        else if pattern_char = CHR ''s'' then IsAsciiWhiteSpace ch
        else if pattern_char = CHR ''S'' then \<not> IsAsciiWhiteSpace ch
        else if pattern_char = CHR ''t'' then ch = CHR 0x09
        else if pattern_char = CHR ''v'' then ch = CHR 0x0B
        else if pattern_char = CHR ''w'' then IsAsciiWordChar ch
        else if pattern_char = CHR ''W'' then \<not> IsAsciiWordChar ch
        else IsAsciiPunct pattern_char \<and> pattern_char = ch
      else (pattern_char = CHR ''.'' \<and> ch \<noteq> CHR 0x0A) \<or> pattern_char = ch)"

subsection \<open>Validation\<close>

abbreviation BSL :: char where "BSL \<equiv> CHR 0x5C"
abbreviation QUOT :: char where "QUOT \<equiv> CHR 0x22"

definition FormatRegexSyntaxError :: "string \<Rightarrow> nat \<Rightarrow> string" where
  "FormatRegexSyntaxError regex index =
     StringStreamToString (''Syntax error at index '' @ dec_int (int index) @
       '' in simple regular expression '' @ [QUOT] @ regex @ [QUOT] @ '': '')"

text \<open>
  The failure that the character \<open>ch\<close> at index \<open>i\<close>, before the rest \<open>cs\<close>, gives rise to when it is not
  part of an escape sequence.
\<close>

definition char_error :: "string \<Rightarrow> nat \<Rightarrow> char \<Rightarrow> string \<Rightarrow> bool \<Rightarrow> string option" where
  "char_error regex i ch cs prev_repeatable =
     (if ch = CHR ''^'' \<and> 0 < i
      then Some (FormatRegexSyntaxError regex i @ [CHR 0x27, CHR ''^'', CHR 0x27] @ '' can only appear at the beginning.'')
      else if ch = CHR ''$'' \<and> cs \<noteq> []
      then Some (FormatRegexSyntaxError regex i @ [CHR 0x27, CHR ''$'', CHR 0x27] @ '' can only appear at the end.'')
      else if IsInSet ch ''()[]{}|''
      then Some (FormatRegexSyntaxError regex i @ [CHR 0x27, ch, CHR 0x27] @ '' is unsupported.'')
      else if IsRepeat ch \<and> \<not> prev_repeatable
      then Some (FormatRegexSyntaxError regex i @ [CHR 0x27, ch, CHR 0x27] @ '' can only follow a repeatable token.'')
      else None)"

text \<open>The loop of \<open>ValidateRegex\<close> at index \<open>i\<close>, before the rest of the expression; \<open>fs\<close> are the failures added so far.\<close>

function validate_loop ::
  "string \<Rightarrow> string \<Rightarrow> nat \<Rightarrow> bool \<Rightarrow> bool \<Rightarrow> string list \<Rightarrow> bool \<times> string list" where
  "validate_loop regex rest i prev_repeatable is_valid fs =
     (case rest of
        [] \<Rightarrow> (is_valid, fs)
      | ch # cs \<Rightarrow>
          if ch = BSL
          then (case cs of
                  [] \<Rightarrow> (False, fs @ [FormatRegexSyntaxError regex i @ [CHR 0x27, BSL, CHR 0x27] @ '' cannot appear at the end.''])
                | e # cs' \<Rightarrow>
                    if IsValidEscape e then validate_loop regex cs' (i + 2) True is_valid fs
                    else validate_loop regex cs' (i + 2) True False
                      (fs @ [FormatRegexSyntaxError regex i @ ''invalid escape sequence '' @ [QUOT, BSL, e, QUOT] @ ''.'']))
          else (case char_error regex i ch cs prev_repeatable of
                  Some f \<Rightarrow> validate_loop regex cs (i + 1) (\<not> IsInSet ch ''^$?*+'') False (fs @ [f])
                | None \<Rightarrow> validate_loop regex cs (i + 1) (\<not> IsInSet ch ''^$?*+'') is_valid fs))"
  by pat_completeness auto
termination validate_loop
  by (relation "measure (\<lambda>(regex, rest, i, p, v, fs). length rest)") auto

declare validate_loop.simps [simp del]

definition ValidateRegex :: "string option \<Rightarrow> bool \<times> string list" where
  "ValidateRegex regex =
     (case regex of
        None \<Rightarrow> (False, [''NULL is not a valid simple regular expression.''])
      | Some r \<Rightarrow> validate_loop r r 0 False True [])"

subsection \<open>Matching\<close>

text \<open>
  The largest \<open>size_t\<close> but one bounds the repetitions of \<open>*\<close> and \<open>+\<close>.  The loop over the number \<open>i\<close> of
  repetitions keeps the string from its \<open>i\<close>-th character on.
\<close>

definition max_repeat :: nat where
  "max_repeat = 18446744073709551614"

function (sequential)
  MatchRegexAtHead :: "string \<Rightarrow> string \<Rightarrow> stop + bool"
  and repeat_loop :: "nat \<Rightarrow> nat \<Rightarrow> bool \<Rightarrow> char \<Rightarrow> string \<Rightarrow> nat \<Rightarrow> string \<Rightarrow> stop + bool" where
  "MatchRegexAtHead regex str =
     (if regex = [] then Inr True
      else if hd regex = CHR ''$'' then Inr (str = [])
      else
        let escaped = (hd regex = BSL); r = (if escaped then tl regex else regex) in
        bindr (char_at r 1) (\<lambda>next.
          if IsRepeat next
          then repeat_loop (if next = CHR ''+'' then 1 else 0) (if next = CHR ''?'' then 1 else max_repeat)
                 escaped (hd r) (drop 2 r) 0 str
          else if str = [] \<or> \<not> AtomMatchesChar escaped (hd r) (hd str) then Inr False
          else MatchRegexAtHead (tl r) (tl str)))"
| "repeat_loop min_count max_count escaped c regex i str =
     (if max_count < i then Inr False
      else
        bindr (if min_count \<le> i then MatchRegexAtHead regex str else Inr False) (\<lambda>found.
          if found then Inr True
          else if str = [] \<or> \<not> AtomMatchesChar escaped c (hd str) then Inr False
          else repeat_loop min_count max_count escaped c regex (i + 1) (tl str)))"
  by pat_completeness auto
termination MatchRegexAtHead
  by (relation "inv_image (less_than <*lex*> less_than <*lex*> less_than)
      (case_sum (\<lambda>(regex, str). (length regex, 0, length str))
        (\<lambda>(mn, mx, e, c, regex, i, str). (length regex, 1, length str)))")
    (auto simp: in_lex_prod split: if_splits)

declare MatchRegexAtHead.simps [simp del] repeat_loop.simps [simp del]

definition MatchRepetitionAndRegexAtHead :: "bool \<Rightarrow> char \<Rightarrow> char \<Rightarrow> string \<Rightarrow> string \<Rightarrow> stop + bool" where
  "MatchRepetitionAndRegexAtHead escaped c repeat regex str =
     repeat_loop (if repeat = CHR ''+'' then 1 else 0) (if repeat = CHR ''?'' then 1 else max_repeat)
       escaped c regex 0 str"

text \<open>The loop of \<open>MatchRegexAnywhere\<close> tries every rest of the string, the empty one included.\<close>

fun anywhere_loop :: "string \<Rightarrow> string \<Rightarrow> stop + bool" where
  "anywhere_loop regex str =
     bindr (MatchRegexAtHead regex str) (\<lambda>found.
       if found then Inr True
       else case str of [] \<Rightarrow> Inr False | c # cs \<Rightarrow> anywhere_loop regex cs)"

declare anywhere_loop.simps [simp del]

definition MatchRegexAnywhere :: "string option \<Rightarrow> string option \<Rightarrow> stop + bool" where
  "MatchRegexAnywhere regex str =
     (case (regex, str) of
        (Some r, Some s) \<Rightarrow>
          if r \<noteq> [] \<and> hd r = CHR ''^'' then MatchRegexAtHead (tl r) s else anywhere_loop r s
      | _ \<Rightarrow> Inr False)"

subsection \<open>The class \<open>RE\<close>\<close>

record RE =
  re_pattern :: string
  full_pattern :: string
  re_is_valid :: bool

text \<open>\<open>RE_Init\<close> gives the object and the failures that are added.\<close>

definition RE_Init :: "string option \<Rightarrow> RE \<times> string list" where
  "RE_Init regex =
     (let pattern = (case regex of Some r \<Rightarrow> r | None \<Rightarrow> []);
          (valid, fs) = ValidateRegex regex
      in if \<not> valid then (\<lparr>re_pattern = pattern, full_pattern = [], re_is_valid = False\<rparr>, fs)
         else
           (\<lparr>re_pattern = pattern,
             full_pattern =
               (if pattern = [] \<or> hd pattern \<noteq> CHR ''^'' then ''^'' else []) @ pattern @
               (if pattern = [] \<or> last pattern \<noteq> CHR ''$'' then ''$'' else []),
             re_is_valid = True\<rparr>, fs))"

definition RE_FullMatch :: "string option \<Rightarrow> RE \<Rightarrow> stop + bool" where
  "RE_FullMatch str re = (if re_is_valid re then MatchRegexAnywhere (Some (cstr (full_pattern re))) str else Inr False)"

definition RE_PartialMatch :: "string option \<Rightarrow> RE \<Rightarrow> stop + bool" where
  "RE_PartialMatch str re = (if re_is_valid re then MatchRegexAnywhere (Some (cstr (re_pattern re))) str else Inr False)"

end
