(* ===== verification/Gt_Regex_Spec.thy ===== *)
theory Gt_Regex_Spec
  imports Gt_Regex
begin

section \<open>What a simple regular expression denotes\<close>

text \<open>
  The abstract syntax of the simple regular expressions, the strings that they match, and the proof
  that validation accepts exactly the printed expressions and that matching decides their language.
\<close>

subsection \<open>Syntax and language\<close>

datatype quant = One | Opt | Star | Plus

datatype item = Item (item_escaped: bool) (item_char: char) (item_quant: quant)

datatype simple_re = Simple_re (bol: bool) (items: "item list") (eol: bool)

fun show_quant :: "quant \<Rightarrow> string" where
  "show_quant One = []"
| "show_quant Opt = ''?''"
| "show_quant Star = ''*''"
| "show_quant Plus = ''+''"

fun show_item :: "item \<Rightarrow> string" where
  "show_item (Item e c q) = (if e then [BSL, c] else [c]) @ show_quant q"

definition show_tail :: "item list \<Rightarrow> bool \<Rightarrow> string" where
  "show_tail its e = concat (map show_item its) @ (if e then ''$'' else [])"

fun show_re :: "simple_re \<Rightarrow> string" where
  "show_re (Simple_re b its e) = (if b then ''^'' else []) @ show_tail its e"

definition special :: "char \<Rightarrow> bool" where
  "special c \<longleftrightarrow> c \<in> set (NUL # BSL # ''^$()[]{}|?*+'')"

fun item_ok :: "item \<Rightarrow> bool" where
  "item_ok (Item e c q) \<longleftrightarrow> (if e then IsValidEscape c else \<not> special c)"

fun quant_count :: "quant \<Rightarrow> nat \<Rightarrow> bool" where
  "quant_count One n \<longleftrightarrow> n = 1"
| "quant_count Opt n \<longleftrightarrow> n \<le> 1"
| "quant_count Star n \<longleftrightarrow> True"
| "quant_count Plus n \<longleftrightarrow> 1 \<le> n"

text \<open>A string is in the language of a list of items when it can be cut into a piece for each.\<close>

definition item_match :: "item \<Rightarrow> string \<Rightarrow> bool" where
  "item_match it p \<longleftrightarrow> quant_count (item_quant it) (length p) \<and>
     (\<forall>ch \<in> set p. AtomMatchesChar (item_escaped it) (item_char it) ch)"

fun items_match :: "item list \<Rightarrow> string \<Rightarrow> bool" where
  "items_match [] p \<longleftrightarrow> p = []"
| "items_match (it # its) p \<longleftrightarrow> (\<exists>n \<le> length p. item_match it (take n p) \<and> items_match its (drop n p))"

definition head_match :: "item list \<Rightarrow> bool \<Rightarrow> string \<Rightarrow> bool" where
  "head_match its e s \<longleftrightarrow> (\<exists>n \<le> length s. items_match its (take n s) \<and> (e \<longrightarrow> n = length s))"

lemma head_match_Nil: "head_match [] e s \<longleftrightarrow> (e \<longrightarrow> s = [])"
  by (auto simp: head_match_def)

lemma head_match_Cons:
  "head_match (it # its) e s \<longleftrightarrow> (\<exists>n \<le> length s. item_match it (take n s) \<and> head_match its e (drop n s))"
proof
  assume "head_match (it # its) e s"
  then obtain m n where mn: "m \<le> length s" "e \<longrightarrow> m = length s" "n \<le> length (take m s)"
    "item_match it (take n (take m s))" "items_match its (drop n (take m s))"
    unfolding head_match_def items_match.simps by blast
  then have "n \<le> m" by simp
  with mn have "item_match it (take n s)" "items_match its (take (m - n) (drop n s))" "e \<longrightarrow> m - n = length (drop n s)"
    by (simp_all add: min_def drop_take)
  moreover have "m - n \<le> length (drop n s)" using mn(1) by simp
  ultimately show "\<exists>n \<le> length s. item_match it (take n s) \<and> head_match its e (drop n s)"
    using mn(1) \<open>n \<le> m\<close> unfolding head_match_def by (intro exI [of _ n]) auto
next
  assume "\<exists>n \<le> length s. item_match it (take n s) \<and> head_match its e (drop n s)"
  then obtain n k where nk: "n \<le> length s" "item_match it (take n s)" "k \<le> length (drop n s)"
    "items_match its (take k (drop n s))" "e \<longrightarrow> k = length (drop n s)"
    unfolding head_match_def by blast
  then have "items_match (it # its) (take (n + k) s)"
    by (auto simp: min_def drop_take intro!: exI [of _ n])
  with nk show "head_match (it # its) e s" unfolding head_match_def by (intro exI [of _ "n + k"]) auto
qed

subsection \<open>Matching at the head\<close>

lemma repeat_loop_iff:
  assumes tail: "\<And>s. length s \<le> max_repeat \<Longrightarrow> MatchRegexAtHead regex s = Inr (P s)" and "length s \<le> max_repeat"
  shows "repeat_loop mn mx e c regex i s =
    Inr (\<exists>n \<le> length s. i + n \<le> mx \<and> mn \<le> i + n \<and> (\<forall>ch \<in> set (take n s). AtomMatchesChar e c ch) \<and> P (drop n s))"
  using assms(2)
proof (induction s arbitrary: i)
  case Nil
  then show ?case by (subst repeat_loop.simps) (simp add: tail)
next
  case (Cons a s)
  let ?Q = "\<lambda>i s n. i + n \<le> mx \<and> mn \<le> i + n \<and> (\<forall>ch \<in> set (take n s). AtomMatchesChar e c ch) \<and> P (drop n s)"
  have split: "(\<exists>n \<le> length (a # s). ?Q i (a # s) n) \<longleftrightarrow>
    i \<le> mx \<and> mn \<le> i \<and> P (a # s) \<or> AtomMatchesChar e c a \<and> (\<exists>n \<le> length s. ?Q (i + 1) s n)"
  proof
    assume "\<exists>n \<le> length (a # s). ?Q i (a # s) n"
    then obtain n where "n \<le> length (a # s)" "?Q i (a # s) n" by blast
    then show "i \<le> mx \<and> mn \<le> i \<and> P (a # s) \<or> AtomMatchesChar e c a \<and> (\<exists>n \<le> length s. ?Q (i + 1) s n)"
      by (cases n) auto
  next
    assume "i \<le> mx \<and> mn \<le> i \<and> P (a # s) \<or> AtomMatchesChar e c a \<and> (\<exists>n \<le> length s. ?Q (i + 1) s n)"
    then show "\<exists>n \<le> length (a # s). ?Q i (a # s) n"
    proof
      assume "i \<le> mx \<and> mn \<le> i \<and> P (a # s)"
      then show ?thesis by (intro exI [of _ 0]) simp
    next
      assume "AtomMatchesChar e c a \<and> (\<exists>n \<le> length s. ?Q (i + 1) s n)"
      then obtain n where "AtomMatchesChar e c a" "n \<le> length s" "?Q (i + 1) s n" by blast
      then show ?thesis by (intro exI [of _ "Suc n"]) auto
    qed
  qed
  show ?case
    unfolding split using Cons.prems by (subst repeat_loop.simps) (simp add: tail Cons.IH)
qed

lemma show_tail_Nil: "show_tail [] e = (if e then ''$'' else [])"
  by (simp add: show_tail_def)

lemma show_tail_Cons: "show_tail (it # its) e = show_item it @ show_tail its e"
  by (simp add: show_tail_def)

lemma IsRepeat_iff: "IsRepeat c \<longleftrightarrow> c = CHR ''?'' \<or> c = CHR ''*'' \<or> c = CHR ''+''"
  by (auto simp: IsRepeat_def IsInSet_def)

lemma not_special: "\<not> special c \<Longrightarrow> c \<noteq> NUL \<and> c \<noteq> BSL \<and> c \<noteq> CHR ''^'' \<and> c \<noteq> CHR ''$'' \<and> \<not> IsInSet c ''()[]{}|'' \<and> \<not> IsRepeat c"
  by (auto simp: special_def IsRepeat_def IsInSet_def)

lemma show_tail_char_at: "list_all item_ok its \<Longrightarrow> \<exists>c. char_at (x # show_tail its e) 1 = Inr c \<and> \<not> IsRepeat c"
proof (cases its)
  case Nil
  then show ?thesis by (simp add: show_tail_Nil char_at_def IsRepeat_iff)
next
  case (Cons it its')
  assume "list_all item_ok its"
  then show ?thesis using Cons by (cases it) (auto simp: show_tail_Cons char_at_def IsRepeat_iff special_def)
qed

lemma max_repeat_ge: "1 \<le> max_repeat"
  by (simp add: max_repeat_def)

lemma MatchRegexAtHead_item:
  assumes ok: "item_ok (Item esc c q)" "list_all item_ok its"
    and tail: "\<And>s. length s \<le> max_repeat \<Longrightarrow> MatchRegexAtHead (show_tail its e) s = Inr (head_match its e s)"
    and len: "length s \<le> max_repeat"
  shows "MatchRegexAtHead (show_item (Item esc c q) @ show_tail its e) s =
    Inr (\<exists>n \<le> length s. item_match (Item esc c q) (take n s) \<and> head_match its e (drop n s))"
proof -
  define r where "r = c # show_quant q @ show_tail its e"
  let ?re = "show_item (Item esc c q) @ show_tail its e"
  have c: "c \<noteq> CHR ''$''" "c \<noteq> BSL" if "\<not> esc" using ok(1) that by (auto dest: not_special)
  have re: "?re = (if esc then BSL # r else r)" by (simp add: r_def)
  have hd: "?re \<noteq> []" "hd ?re \<noteq> CHR ''$''" "(hd ?re = BSL) = esc" "(if esc then tl ?re else ?re) = r"
    unfolding re using c by (auto simp: r_def)
  have hdr: "hd r = c" by (simp add: r_def)
  show ?thesis
  proof (cases "q = One")
    case True
    obtain d where d: "char_at r 1 = Inr d" "\<not> IsRepeat d"
      using show_tail_char_at [OF ok(2), of c e] True by (auto simp: r_def)
    have "MatchRegexAtHead ?re s = (if s = [] \<or> \<not> AtomMatchesChar esc c (hd s) then Inr False else MatchRegexAtHead (tl r) (tl s))"
      by (subst MatchRegexAtHead.simps) (simp only: hd hdr d Let_def if_False bindr_simps)
    also have "tl r = show_tail its e" using True by (simp add: r_def)
    also have "(if s = [] \<or> \<not> AtomMatchesChar esc c (hd s) then Inr False else MatchRegexAtHead (show_tail its e) (tl s)) =
      Inr (s \<noteq> [] \<and> AtomMatchesChar esc c (hd s) \<and> head_match its e (tl s))" using tail len by simp
    also have "(s \<noteq> [] \<and> AtomMatchesChar esc c (hd s) \<and> head_match its e (tl s)) \<longleftrightarrow>
      (\<exists>n \<le> length s. item_match (Item esc c q) (take n s) \<and> head_match its e (drop n s))"
      using True by (cases s) (auto simp: item_match_def)
    finally show ?thesis .
  next
    case False
    then obtain m where m: "show_quant q = [m]" "IsRepeat m"
      "m = CHR ''+'' \<longleftrightarrow> q = Plus" "m = CHR ''?'' \<longleftrightarrow> q = Opt" by (cases q) (auto simp: IsRepeat_iff)
    then have r: "char_at r 1 = Inr m" "drop 2 r = show_tail its e" by (simp_all add: r_def char_at_def)
    have "MatchRegexAtHead ?re s =
      repeat_loop (if q = Plus then 1 else 0) (if q = Opt then 1 else max_repeat) esc c (show_tail its e) 0 s"
      by (subst MatchRegexAtHead.simps) (simp only: hd hdr r m Let_def if_False if_True bindr_simps)
    also have "\<dots> = Inr (\<exists>n \<le> length s. n \<le> (if q = Opt then 1 else max_repeat) \<and> (if q = Plus then 1 else 0) \<le> n \<and>
        (\<forall>ch \<in> set (take n s). AtomMatchesChar esc c ch) \<and> head_match its e (drop n s))"
      using repeat_loop_iff [OF tail len] by simp
    also have "(\<exists>n \<le> length s. n \<le> (if q = Opt then 1 else max_repeat) \<and> (if q = Plus then 1 else 0) \<le> n \<and>
        (\<forall>ch \<in> set (take n s). AtomMatchesChar esc c ch) \<and> head_match its e (drop n s)) \<longleftrightarrow>
      (\<exists>n \<le> length s. item_match (Item esc c q) (take n s) \<and> head_match its e (drop n s))"
    proof -
      have "item_match (Item esc c q) (take n s) \<longleftrightarrow> n \<le> (if q = Opt then 1 else max_repeat) \<and>
          (if q = Plus then 1 else 0) \<le> n \<and> (\<forall>ch \<in> set (take n s). AtomMatchesChar esc c ch)" if "n \<le> length s" for n
        using that len False by (cases q) (simp_all add: item_match_def)
      then show ?thesis by (simp cong: conj_cong)
    qed
    finally show ?thesis .
  qed
qed

lemma MatchRegexAtHead_iff:
  "list_all item_ok its \<Longrightarrow> length s \<le> max_repeat \<Longrightarrow> MatchRegexAtHead (show_tail its e) s = Inr (head_match its e s)"
proof (induction its arbitrary: s)
  case Nil
  then show ?case by (subst MatchRegexAtHead.simps) (simp add: show_tail_Nil head_match_Nil)
next
  case (Cons it its)
  obtain esc c q where it: "it = Item esc c q" by (cases it)
  with Cons show ?case unfolding head_match_Cons show_tail_Cons by (simp only:) (rule MatchRegexAtHead_item, simp_all)
qed

subsection \<open>Validation accepts exactly the printed expressions\<close>

lemma IsValidEscape_not_NUL: "IsValidEscape c \<Longrightarrow> c \<noteq> NUL"
  by (auto simp: IsValidEscape_def IsAsciiPunct_def IsInSet_def)

lemma validate_loop_char:
  "ch \<noteq> BSL \<Longrightarrow> validate_loop regex (ch # cs) i prev v fs =
     (case char_error regex i ch cs prev of
        Some f \<Rightarrow> validate_loop regex cs (i + 1) (\<not> IsInSet ch ''^$?*+'') False (fs @ [f])
      | None \<Rightarrow> validate_loop regex cs (i + 1) (\<not> IsInSet ch ''^$?*+'') v fs)"
  by (subst validate_loop.simps) simp

lemma validate_loop_escape:
  "validate_loop regex (BSL # e # cs) i prev v fs =
     (if IsValidEscape e then validate_loop regex cs (i + 2) True v fs
      else validate_loop regex cs (i + 2) True False
        (fs @ [FormatRegexSyntaxError regex i @ ''invalid escape sequence '' @ [QUOT, BSL, e, QUOT] @ ''.'']))"
  by (subst validate_loop.simps) simp

lemma validate_loop_failures: "v = (fs = []) \<Longrightarrow> fst (validate_loop regex rest i prev v fs) = (snd (validate_loop regex rest i prev v fs) = [])"
proof (induction regex rest i prev v fs rule: validate_loop.induct)
  case (1 regex rest i prev v fs)
  then show ?case
    by (subst (1 2) validate_loop.simps) (auto split: list.split option.split)
qed

lemma validate_loop_sound:
  assumes "fst (validate_loop regex rest i prev v fs)" "NUL \<notin> set rest" "i = 0 \<Longrightarrow> rest = [] \<or> hd rest \<noteq> CHR ''^''"
  shows "v \<and> (\<exists>q its e. list_all item_ok its \<and> rest = show_quant q @ show_tail its e \<and> (q \<noteq> One \<longrightarrow> prev))"
  using assms
proof (induction regex rest i prev v fs rule: validate_loop.induct)
  case (1 regex rest i prev v fs)
  note IH = "1.IH" and P = "1.prems"
  consider "rest = []" | cs where "rest = BSL # cs" | ch cs where "rest = ch # cs" "ch \<noteq> BSL" by (cases rest) blast+
  then show ?case
  proof cases
    case 1
    with P(1) have "v" by (subst (asm) validate_loop.simps) simp
    with 1 show ?thesis by (intro conjI exI [of _ One] exI [of _ "[]"] exI [of _ False]) (simp_all add: show_tail_Nil)
  next
    case (2 cs)
    show ?thesis
    proof (cases cs)
      case Nil
      with P(1) 2 show ?thesis by (subst (asm) validate_loop.simps) simp
    next
      case (Cons e cs')
      have ok: "IsValidEscape e"
      proof (rule ccontr)
        assume n: "\<not> IsValidEscape e"
        with IH(2) [OF 2 refl Cons] 2 Cons P show False by (simp add: validate_loop_escape)
      qed
      with IH(1) [OF 2 refl Cons] 2 Cons P obtain q its f
        where "v" "list_all item_ok its" "cs' = show_quant q @ show_tail its f"
        by (auto simp: validate_loop_escape)
      with 2 Cons ok show ?thesis
        by (intro conjI exI [of _ One] exI [of _ "Item True e q # its"] exI [of _ f]) (simp_all add: show_tail_Cons)
    qed
  next
    case (3 ch cs)
    have none: "char_error regex i ch cs prev = None"
    proof (rule ccontr)
      assume "char_error regex i ch cs prev \<noteq> None"
      then obtain f where "char_error regex i ch cs prev = Some f" by blast
      with IH(4) [OF 3] 3 P show False by (simp add: validate_loop_char)
    qed
    with IH(3) [OF 3] 3 P obtain q its f
      where t: "v" "list_all item_ok its" "cs = show_quant q @ show_tail its f" "q \<noteq> One \<longrightarrow> \<not> IsInSet ch ''^$?*+''"
      by (auto simp: validate_loop_char)
    have ch: "ch \<noteq> NUL" "ch \<noteq> CHR ''^''" "ch = CHR ''$'' \<Longrightarrow> cs = []" "\<not> IsInSet ch ''()[]{}|''" "IsRepeat ch \<Longrightarrow> prev"
      using none P(2,3) 3 by (auto simp: char_error_def split: if_splits)
    consider "ch = CHR ''$''" | "IsRepeat ch" | "\<not> special ch"
      using ch(1,2,4) 3(2) by (auto simp: special_def IsRepeat_iff IsInSet_def)
    then show ?thesis
    proof cases
      case 1
      with ch(3) 3 t(1) show ?thesis
        by (intro conjI exI [of _ One] exI [of _ "[]"] exI [of _ True]) (simp_all add: show_tail_Nil)
    next
      case 2
      then have "q = One" using t(4) by (auto simp: IsRepeat_iff IsInSet_def)
      obtain q' where "show_quant q' = [ch]"
        using 2 show_quant.simps(2-4) unfolding IsRepeat_iff by metis
      with \<open>q = One\<close> t ch(5) 2 3 show ?thesis
        by (intro conjI exI [of _ q'] exI [of _ its] exI [of _ f]) simp_all
    next
      case 3
      with t \<open>rest = ch # cs\<close> show ?thesis
        by (intro conjI exI [of _ One] exI [of _ "Item False ch q # its"] exI [of _ f]) (simp_all add: show_tail_Cons)
    qed
  qed
qed

lemma validate_loop_quant:
  "q \<noteq> One \<longrightarrow> prev \<Longrightarrow>
     validate_loop regex (show_quant q @ cs) i prev v fs =
     (if q = One then validate_loop regex cs i prev v fs else validate_loop regex cs (i + 1) False v fs)"
  by (cases q) (simp_all add: validate_loop_char char_error_def IsInSet_def IsRepeat_def)

lemma validate_loop_complete:
  "list_all item_ok its \<Longrightarrow> q \<noteq> One \<longrightarrow> prev \<Longrightarrow>
     validate_loop regex (show_quant q @ show_tail its e) i prev True fs = (True, fs)"
proof (induction its arbitrary: q prev i)
  case Nil
  have "validate_loop regex [] i prev True fs = (True, fs)" for i prev by (subst validate_loop.simps) simp
  with Nil show ?case
    by (simp add: validate_loop_quant show_tail_Nil validate_loop_char char_error_def IsInSet_def IsRepeat_def)
next
  case (Cons it its)
  obtain esc c q' where it: "it = Item esc c q'" by (cases it)
  have "validate_loop regex (show_item it @ show_tail its e) i prev True fs = (True, fs)" for i prev
  proof (cases esc)
    case True
    then show ?thesis using Cons.prems Cons.IH [of q' True] it by (simp add: validate_loop_escape)
  next
    case False
    then have c: "\<not> special c" using Cons.prems it by simp
    then have "char_error regex i c cs prev = None" "c \<noteq> BSL" for cs
      by (auto simp: char_error_def dest: not_special)
    moreover have "\<not> IsInSet c ''^$?*+''" using c by (auto simp: special_def IsInSet_def)
    ultimately show ?thesis using False Cons.prems Cons.IH [of q' True] it by (simp add: validate_loop_char)
  qed
  with Cons.prems show ?case by (simp add: validate_loop_quant show_tail_Cons)
qed

lemma show_tail_hd: "list_all item_ok its \<Longrightarrow> show_tail its e \<noteq> [] \<Longrightarrow> hd (show_tail its e) \<noteq> CHR ''^''"
proof (cases its)
  case (Cons it its')
  assume "list_all item_ok its"
  then show ?thesis using Cons by (cases it) (auto simp: show_tail_Cons special_def)
qed (auto simp: show_tail_Nil)

text \<open>The first loop iteration is the only one that accepts a \<open>^\<close>.\<close>

lemma ValidateRegex_iff:
  assumes "NUL \<notin> set regex"
  shows "fst (ValidateRegex (Some regex)) \<longleftrightarrow> (\<exists>re. list_all item_ok (items re) \<and> regex = show_re re)"
proof
  assume a: "fst (ValidateRegex (Some regex))"
  show "\<exists>re. list_all item_ok (items re) \<and> regex = show_re re"
  proof (cases "regex \<noteq> [] \<and> hd regex = CHR ''^''")
    case True
    then obtain cs where cs: "regex = CHR ''^'' # cs" by (cases regex) auto
    then have "fst (validate_loop regex cs 1 False True [])"
      using a by (simp add: ValidateRegex_def validate_loop_char char_error_def IsInSet_def IsRepeat_def)
    then obtain its e where "list_all item_ok its" "cs = show_tail its e"
      using validate_loop_sound [of regex cs 1 False True "[]"] assms cs by auto
    then show ?thesis using cs by (intro exI [of _ "Simple_re True its e"]) simp
  next
    case False
    then obtain its e where "list_all item_ok its" "regex = show_tail its e"
      using validate_loop_sound [of regex regex 0 False True "[]"] assms a by (auto simp: ValidateRegex_def)
    then show ?thesis by (intro exI [of _ "Simple_re False its e"]) simp
  qed
next
  assume "\<exists>re. list_all item_ok (items re) \<and> regex = show_re re"
  then obtain b its e where re: "list_all item_ok its" "regex = show_re (Simple_re b its e)"
    by (metis simple_re.exhaust_sel simple_re.sel(2))
  have v: "validate_loop r (show_tail its e) i False True [] = (True, [])" for r i
    using validate_loop_complete [OF re(1), of One False] by simp
  show "fst (ValidateRegex (Some regex))"
    using re v by (cases b) (simp_all add: ValidateRegex_def validate_loop_char char_error_def IsInSet_def IsRepeat_def)
qed

lemma ValidateRegex_failures: "fst (ValidateRegex regex) \<longleftrightarrow> snd (ValidateRegex regex) = []"
  using validate_loop_failures [of True "[]"] by (cases regex) (simp_all add: ValidateRegex_def)

subsection \<open>Partial and full matches\<close>

lemma anywhere_loop_iff:
  assumes "list_all item_ok its" "length s \<le> max_repeat"
  shows "anywhere_loop (show_tail its e) s = Inr (\<exists>n \<le> length s. head_match its e (drop n s))"
  using assms(2)
proof (induction s)
  case Nil
  then show ?case by (subst anywhere_loop.simps) (simp add: MatchRegexAtHead_iff [OF assms(1)])
next
  case (Cons c s)
  have "(\<exists>n \<le> length (c # s). head_match its e (drop n (c # s))) \<longleftrightarrow>
    head_match its e (c # s) \<or> (\<exists>n \<le> length s. head_match its e (drop n s))"
  proof
    assume "\<exists>n \<le> length (c # s). head_match its e (drop n (c # s))"
    then obtain n where "n \<le> length (c # s)" "head_match its e (drop n (c # s))" by blast
    then show "head_match its e (c # s) \<or> (\<exists>n \<le> length s. head_match its e (drop n s))" by (cases n) auto
  next
    assume "head_match its e (c # s) \<or> (\<exists>n \<le> length s. head_match its e (drop n s))"
    then show "\<exists>n \<le> length (c # s). head_match its e (drop n (c # s))"
      by (metis Suc_le_mono drop_0 drop_Suc_Cons le0 length_Cons)
  qed
  with Cons show ?case by (subst anywhere_loop.simps) (simp add: MatchRegexAtHead_iff [OF assms(1)])
qed

lemma MatchRegexAnywhere_iff:
  assumes "list_all item_ok its" "length s \<le> max_repeat"
  shows "MatchRegexAnywhere (Some (show_re (Simple_re b its e))) (Some s) =
    Inr (\<exists>n \<le> length s. (b \<longrightarrow> n = 0) \<and> head_match its e (drop n s))"
proof (cases b)
  case True
  then show ?thesis using assms by (simp add: MatchRegexAnywhere_def MatchRegexAtHead_iff)
next
  case False
  then show ?thesis
    using assms show_tail_hd [OF assms(1), of e] by (auto simp: MatchRegexAnywhere_def anywhere_loop_iff)
qed

text \<open>An expression whose last character is an escaped dollar sign, not the anchor.\<close>

definition ends_in_escaped_dollar :: "simple_re \<Rightarrow> bool" where
  "ends_in_escaped_dollar re \<longleftrightarrow> \<not> eol re \<and> items re \<noteq> [] \<and> last (items re) = Item True CHR ''$'' One"

lemma show_item_not_Nil: "show_item it \<noteq> []"
  by (cases it) simp

lemma last_show_item: "item_ok it \<Longrightarrow> last (show_item it) = CHR ''$'' \<longleftrightarrow> it = Item True CHR ''$'' One"
proof (cases it)
  case (Item e c q)
  assume "item_ok it"
  with Item show ?thesis by (cases q) (auto simp: special_def split: if_splits)
qed

lemma last_show_re:
  assumes "list_all item_ok (items re)" "show_re re \<noteq> []"
  shows "last (show_re re) = CHR ''$'' \<longleftrightarrow> eol re \<or> ends_in_escaped_dollar re"
proof -
  obtain b its e where re: "re = Simple_re b its e" by (cases re)
  show ?thesis
  proof (cases "its = []")
    case True
    then show ?thesis using assms re by (auto simp: ends_in_escaped_dollar_def show_tail_Nil split: if_splits)
  next
    case False
    then obtain its' it where its: "its = its' @ [it]" by (metis rev_exhaust)
    then have "item_ok it" using assms re by simp
    then show ?thesis
      using last_show_item [of it] show_item_not_Nil [of it] its re
      by (auto simp: ends_in_escaped_dollar_def show_tail_def)
  qed
qed

lemma no_NUL_show_tail: "list_all item_ok its \<Longrightarrow> NUL \<notin> set (show_tail its e)"
proof (induction its)
  case (Cons it its)
  obtain x c q where "it = Item x c q" by (cases it)
  with Cons show ?case
    by (cases q) (auto simp: show_tail_Cons special_def dest: IsValidEscape_not_NUL split: if_splits)
qed (simp add: show_tail_Nil)

lemma head_match_eol: "head_match its True s = items_match its s"
  by (auto simp: head_match_def)

lemma RE_Init_valid:
  assumes ok: "list_all item_ok (items re)"
  shows "RE_Init (Some (show_re re)) =
    (\<lparr>re_pattern = show_re re, full_pattern = show_re (Simple_re True (items re) (\<not> ends_in_escaped_dollar re)), re_is_valid = True\<rparr>, [])"
proof -
  obtain b its e where re: "re = Simple_re b its e" by (cases re)
  have "NUL \<notin> set (show_re re)" using no_NUL_show_tail [of its e] ok re by simp
  with ok have "fst (ValidateRegex (Some (show_re re)))" by (auto simp: ValidateRegex_iff)
  then have v: "ValidateRegex (Some (show_re re)) = (True, [])"
    using ValidateRegex_failures [of "Some (show_re re)"] by (simp add: prod_eq_iff)
  have h: "(if show_re re = [] \<or> hd (show_re re) \<noteq> CHR ''^'' then ''^'' else []) @ show_re re = CHR ''^'' # show_tail its e"
    using show_tail_hd [of its e] ok re by (cases b) auto
  have n: "ends_in_escaped_dollar re \<Longrightarrow> \<not> e" using re by (simp add: ends_in_escaped_dollar_def)
  have "show_re re = [] \<Longrightarrow> \<not> ends_in_escaped_dollar re \<and> \<not> e"
    using re show_item_not_Nil by (auto simp: ends_in_escaped_dollar_def show_tail_def neq_Nil_conv)
  then have l: "(if show_re re = [] \<or> last (show_re re) \<noteq> CHR ''$'' then ''$'' else []) =
    (if e \<or> ends_in_escaped_dollar re then [] else ''$'')"
    using last_show_re [OF ok] re by auto
  have "show_tail its e @ (if e \<or> ends_in_escaped_dollar re then [] else ''$'') = show_tail its (\<not> ends_in_escaped_dollar re)"
    using n by (auto simp: show_tail_def)
  then show ?thesis
    unfolding RE_Init_def option.case Let_def v prod.case append_assoc [symmetric] h l using re by simp
qed

lemma RE_matches:
  assumes "list_all item_ok (items re)" "NUL \<notin> set s" "length s \<le> max_repeat"
  shows "RE_PartialMatch (Some s) (fst (RE_Init (Some (show_re re)))) =
      Inr (\<exists>n \<le> length s. (bol re \<longrightarrow> n = 0) \<and> head_match (items re) (eol re) (drop n s))"
    "RE_FullMatch (Some s) (fst (RE_Init (Some (show_re re)))) =
      Inr (head_match (items re) (\<not> ends_in_escaped_dollar re) s)"
proof -
  obtain b its e where re: "re = Simple_re b its e" by (cases re)
  have c: "cstr (show_re (Simple_re b its e)) = show_re (Simple_re b its e)" for b e
    using no_NUL_show_tail [of its e] assms(1) re by (intro cstr_no_NUL) simp
  show "RE_PartialMatch (Some s) (fst (RE_Init (Some (show_re re)))) =
      Inr (\<exists>n \<le> length s. (bol re \<longrightarrow> n = 0) \<and> head_match (items re) (eol re) (drop n s))"
    using assms MatchRegexAnywhere_iff [of its s b e] c [of b e]
    unfolding RE_Init_valid [OF assms(1)] RE_PartialMatch_def by (simp add: re)
  show "RE_FullMatch (Some s) (fst (RE_Init (Some (show_re re)))) =
      Inr (head_match (items re) (\<not> ends_in_escaped_dollar re) s)"
    using assms MatchRegexAnywhere_iff [of its s True "\<not> ends_in_escaped_dollar re"] c [of True "\<not> ends_in_escaped_dollar re"]
    unfolding RE_Init_valid [OF assms(1)] RE_FullMatch_def by (simp add: re)
qed

end
