(* ===== verification/Gm_Utils.thy ===== *)
theory Gm_Utils
  imports Gt_Strings
begin

section \<open>Utilities of the mock library (\<open>googlemock/src/gmock-internal-utils.cc\<close>)\<close>

subsection \<open>Messages\<close>

text \<open>\<open>names\<close> and \<open>values\<close> must have the same length; otherwise \<open>GTEST_CHECK_\<close> aborts.\<close>

definition build_one :: "string list \<Rightarrow> string list \<Rightarrow> nat \<Rightarrow> stop + string" where
  "build_one names values i = bindr (vat names i) (\<lambda>n. bindr (vat values i) (\<lambda>v. Inr (n @ '': '' @ v)))"

definition JoinAsKeyValueTuple :: "string list \<Rightarrow> string list \<Rightarrow> stop + string" where
  "JoinAsKeyValueTuple names values =
     (if length names \<noteq> length values then Inl Assert_fail
      else if values = [] then Inr []
      else
        bindr (build_one names values 0) (\<lambda>first.
        bindr (rfold (\<lambda>i result. bindr (build_one names values i) (\<lambda>s. Inr (result @ '', '' @ s)))
                 [1..<length values] (''('' @ first)) (\<lambda>result.
        Inr (result @ '')''))))"

subsection \<open>Names of identifiers\<close>

text \<open>The classification of characters in the C locale (\<open>gtest-port.h\<close>).\<close>

definition IsUpper :: "char \<Rightarrow> bool" where
  "IsUpper ch = (let k = (of_char ch :: nat) in 65 \<le> k \<and> k \<le> 90)"

definition IsLower :: "char \<Rightarrow> bool" where
  "IsLower ch = (let k = (of_char ch :: nat) in 97 \<le> k \<and> k \<le> 122)"

definition IsAlpha :: "char \<Rightarrow> bool" where
  "IsAlpha ch \<longleftrightarrow> IsUpper ch \<or> IsLower ch"

definition IsDigit :: "char \<Rightarrow> bool" where
  "IsDigit ch = isdigit ch"

definition IsAlNum :: "char \<Rightarrow> bool" where
  "IsAlNum ch \<longleftrightarrow> IsAlpha ch \<or> IsDigit ch"

definition ToLower :: "char \<Rightarrow> char" where
  "ToLower ch = (if IsUpper ch then char_of (of_char ch + 32 :: nat) else ch)"

text \<open>The loop of \<open>ConvertIdentifierNameToWords\<close> before the rest of the name.\<close>

fun words_loop :: "char \<Rightarrow> string \<Rightarrow> string \<Rightarrow> string" where
  "words_loop prev_char [] result = result"
| "words_loop prev_char (c # p) result =
     (let starts_new_word = IsUpper c \<or> (\<not> IsAlpha prev_char \<and> IsLower c) \<or> (\<not> IsDigit prev_char \<and> IsDigit c)
      in words_loop c p
           (if IsAlNum c
            then (if starts_new_word \<and> result \<noteq> [] then result @ '' '' else result) @ [ToLower c]
            else result))"

definition ConvertIdentifierNameToWords :: "string \<Rightarrow> string" where
  "ConvertIdentifierNameToWords id_name = words_loop NUL id_name []"

text \<open>The words that the description of the function speaks of: \<open>[A-Za-z][a-z]*\<close> and \<open>[0-9]+\<close>.\<close>

function id_words :: "string \<Rightarrow> string list" where
  "id_words [] = []"
| "id_words (c # cs) =
     (if IsAlpha c then (c # takeWhile IsLower cs) # id_words (dropWhile IsLower cs)
      else if IsDigit c then (c # takeWhile IsDigit cs) # id_words (dropWhile IsDigit cs)
      else id_words cs)"
  by pat_completeness auto
termination id_words
  by (relation "measure length") (simp_all add: length_dropWhile_le less_Suc_eq_le)

lemma classes_disjoint: "IsLower c \<Longrightarrow> \<not> IsUpper c" "IsDigit c \<Longrightarrow> \<not> IsAlpha c"
  by (auto simp: IsLower_def IsUpper_def IsDigit_def IsAlpha_def isdigit_def Let_def)

text \<open>Characters that continue a word are appended in lower case.\<close>

lemma words_loop_lower:
  "IsAlpha prev \<Longrightarrow> words_loop prev s result =
     words_loop (last (prev # takeWhile IsLower s)) (dropWhile IsLower s) (result @ map ToLower (takeWhile IsLower s))"
proof (induction s arbitrary: prev result)
  case (Cons c s)
  then show ?case
    using classes_disjoint [of c] by (cases "IsLower c") (auto simp: IsAlNum_def IsAlpha_def)
qed simp

lemma words_loop_digits:
  "IsDigit prev \<Longrightarrow> words_loop prev s result =
     words_loop (last (prev # takeWhile IsDigit s)) (dropWhile IsDigit s) (result @ map ToLower (takeWhile IsDigit s))"
proof (induction s arbitrary: prev result)
  case (Cons c s)
  then show ?case
    using classes_disjoint [of c] by (cases "IsDigit c") (auto simp: IsAlNum_def IsAlpha_def)
qed simp

definition add_words :: "string \<Rightarrow> string list \<Rightarrow> string" where
  "add_words result ws = fold (\<lambda>w r. (if r = [] then [] else r @ '' '') @ w) ws result"

lemma words_loop_words:
  "(s \<noteq> [] \<longrightarrow> (IsLower (hd s) \<longrightarrow> \<not> IsAlpha prev) \<and> (IsDigit (hd s) \<longrightarrow> \<not> IsDigit prev)) \<Longrightarrow>
     words_loop prev s result = add_words result (map (map ToLower) (id_words s))"
proof (induction s arbitrary: prev result rule: id_words.induct)
  case 1
  then show ?case by (simp add: add_words_def)
next
  case (2 c cs)
  let ?r = "(if result = [] then [] else result @ '' '') @ [ToLower c]"
  consider (alpha) "IsAlpha c" | (digit) "IsDigit c" "\<not> IsAlpha c" | (other) "\<not> IsAlNum c" by (auto simp: IsAlNum_def)
  then show ?case
  proof cases
    case alpha
    let ?rest = "dropWhile IsLower cs"
    have "words_loop prev (c # cs) result = words_loop c cs ?r"
      using alpha 2(4) by (auto simp: IsAlNum_def IsAlpha_def)
    also have "\<dots> = words_loop (last (c # takeWhile IsLower cs)) ?rest (?r @ map ToLower (takeWhile IsLower cs))"
      by (rule words_loop_lower [OF alpha])
    also have "\<dots> = add_words (?r @ map ToLower (takeWhile IsLower cs)) (map (map ToLower) (id_words ?rest))"
    proof (rule 2(1) [OF alpha], intro impI conjI)
      assume "?rest \<noteq> []"
      then have "\<not> IsLower (hd ?rest)" by (rule hd_dropWhile)
      then show "IsLower (hd ?rest) \<Longrightarrow> \<not> IsAlpha (last (c # takeWhile IsLower cs))" by simp
      have "IsAlpha (last (c # takeWhile IsLower cs))"
        using alpha last_in_set [of "takeWhile IsLower cs"] set_takeWhileD [of _ IsLower cs] by (auto simp: IsAlpha_def)
      then show "\<not> IsDigit (last (c # takeWhile IsLower cs))" using classes_disjoint(2) by blast
    qed
    finally show ?thesis using alpha by (simp add: add_words_def)
  next
    case digit
    let ?rest = "dropWhile IsDigit cs"
    have "words_loop prev (c # cs) result = words_loop c cs ?r"
      using digit 2(4) by (auto simp: IsAlNum_def IsAlpha_def)
    also have "\<dots> = words_loop (last (c # takeWhile IsDigit cs)) ?rest (?r @ map ToLower (takeWhile IsDigit cs))"
      by (rule words_loop_digits [OF digit(1)])
    also have "\<dots> = add_words (?r @ map ToLower (takeWhile IsDigit cs)) (map (map ToLower) (id_words ?rest))"
    proof (rule 2(2) [OF digit(2,1)], intro impI conjI)
      assume "?rest \<noteq> []"
      then have "\<not> IsDigit (hd ?rest)" by (rule hd_dropWhile)
      then show "IsDigit (hd ?rest) \<Longrightarrow> \<not> IsDigit (last (c # takeWhile IsDigit cs))" by simp
      have "IsDigit (last (c # takeWhile IsDigit cs))"
        using digit last_in_set [of "takeWhile IsDigit cs"] set_takeWhileD [of _ IsDigit cs] by auto
      then show "\<not> IsAlpha (last (c # takeWhile IsDigit cs))" using classes_disjoint(2) by blast
    qed
    finally show ?thesis using digit by (simp add: add_words_def)
  next
    case other
    then have "words_loop prev (c # cs) result = words_loop c cs result" by simp
    also have "\<dots> = add_words result (map (map ToLower) (id_words cs))"
      using other by (intro 2(3)) (auto simp: IsAlNum_def)
    finally show ?thesis using other by (simp add: IsAlNum_def)
  qed
qed

lemma ConvertIdentifierNameToWords_words:
  "ConvertIdentifierNameToWords id_name = add_words [] (map (map ToLower) (id_words id_name))"
proof -
  have "\<not> IsAlpha NUL" "\<not> IsDigit NUL" by (simp_all add: IsAlpha_def IsUpper_def IsLower_def IsDigit_def)
  then show ?thesis unfolding ConvertIdentifierNameToWords_def by (intro words_loop_words) simp
qed

subsection \<open>Logging\<close>

datatype LogSeverity = kInfo | kWarning

definition kInfoVerbosity :: string where "kInfoVerbosity = ''info''"
definition kWarningVerbosity :: string where "kWarningVerbosity = ''warning''"
definition kErrorVerbosity :: string where "kErrorVerbosity = ''error''"

text \<open>\<open>verbose\<close> is the value of the flag \<open>--gmock_verbose\<close>.\<close>

definition LogIsVisible :: "string \<Rightarrow> LogSeverity \<Rightarrow> bool" where
  "LogIsVisible verbose severity \<longleftrightarrow>
     (if verbose = kInfoVerbosity then True
      else if verbose = kErrorVerbosity then False
      else severity = kWarning)"

text \<open>
  What \<open>Log\<close> prints; \<open>stack_trace k\<close> is the stack trace without its \<open>k\<close> top frames, and \<open>ndebug\<close> tells
  whether \<open>NDEBUG\<close> was defined when the library was compiled.
\<close>

definition Log :: "(int \<Rightarrow> string) \<Rightarrow> bool \<Rightarrow> string \<Rightarrow> LogSeverity \<Rightarrow> string \<Rightarrow> int \<Rightarrow> string" where
  "Log stack_trace ndebug verbose severity message stack_frames_to_skip =
     (if \<not> LogIsVisible verbose severity then []
      else
        (if severity = kWarning then [LF] @ ''GMOCK WARNING:'' else []) @
        (if message = [] \<or> hd message \<noteq> LF then [LF] else []) @ message @
        (if 0 \<le> stack_frames_to_skip
         then (if message \<noteq> [] \<and> last message \<noteq> LF then [LF] else []) @
              ''Stack trace:'' @ [LF] @ stack_trace (if ndebug then 0 else stack_frames_to_skip + 1)
         else []))"

text \<open>A message that is visible at one level is visible at every more verbose one.\<close>

lemma LogIsVisible_mono:
  "LogIsVisible kErrorVerbosity s \<Longrightarrow> LogIsVisible v s" "LogIsVisible v s \<Longrightarrow> LogIsVisible kInfoVerbosity s"
  by (simp_all add: LogIsVisible_def kErrorVerbosity_def kInfoVerbosity_def)

section \<open>How often a call is expected (\<open>googlemock/src/gmock-cardinalities.cc\<close>)\<close>

text \<open>
  A cardinality is the pair of bounds of \<open>BetweenCardinalityImpl\<close>, the only implementation of the
  interface in the repository.  An \<open>int\<close> is an integer; none of the functions computes with one.
  Building a cardinality gives the failures that it reports as well.
\<close>

record cardinality =
  min_calls :: int
  max_calls :: int

definition BetweenCardinalityImpl :: "int \<Rightarrow> int \<Rightarrow> cardinality \<times> string list" where
  "BetweenCardinalityImpl a_min a_max =
     (let lo = (if 0 \<le> a_min then a_min else 0);
          hi = (if lo \<le> a_max then a_max else lo)
      in (\<lparr>min_calls = lo, max_calls = hi\<rparr>,
          if a_min < 0 then
            [''The invocation lower bound must be >= 0, '' @ ''but is actually '' @ dec_int a_min @ ''.'']
          else if a_max < 0 then
            [''The invocation upper bound must be >= 0, '' @ ''but is actually '' @ dec_int a_max @ ''.'']
          else if a_max < a_min then
            [''The invocation upper bound ('' @ dec_int a_max @ '') must be >= the invocation lower bound ('' @ dec_int a_min @ '').'']
          else []))"

definition ConservativeLowerBound :: "cardinality \<Rightarrow> int" where
  "ConservativeLowerBound c = min_calls c"

definition ConservativeUpperBound :: "cardinality \<Rightarrow> int" where
  "ConservativeUpperBound c = max_calls c"

definition IsSatisfiedByCallCount :: "cardinality \<Rightarrow> int \<Rightarrow> bool" where
  "IsSatisfiedByCallCount c call_count \<longleftrightarrow> min_calls c \<le> call_count \<and> call_count \<le> max_calls c"

definition IsSaturatedByCallCount :: "cardinality \<Rightarrow> int \<Rightarrow> bool" where
  "IsSaturatedByCallCount c call_count \<longleftrightarrow> max_calls c \<le> call_count"

definition IsOverSaturatedByCallCount :: "cardinality \<Rightarrow> int \<Rightarrow> bool" where
  "IsOverSaturatedByCallCount c call_count \<longleftrightarrow>
     IsSaturatedByCallCount c call_count \<and> \<not> IsSatisfiedByCallCount c call_count"

definition FormatTimes :: "int \<Rightarrow> string" where
  "FormatTimes n =
     (if n = 1 then ''once'' else if n = 2 then ''twice'' else dec_int n @ '' times'')"

definition DescribeTo :: "cardinality \<Rightarrow> string" where
  "DescribeTo c =
     (if min_calls c = 0 then
        if max_calls c = 0 then ''never called''
        else if max_calls c = INT_MAX then ''called any number of times''
        else ''called at most '' @ FormatTimes (max_calls c)
      else if min_calls c = max_calls c then ''called '' @ FormatTimes (min_calls c)
      else if max_calls c = INT_MAX then ''called at least '' @ FormatTimes (min_calls c)
      else ''called between '' @ dec_int (min_calls c) @ '' and '' @ dec_int (max_calls c) @ '' times'')"

definition DescribeActualCallCountTo :: "int \<Rightarrow> string" where
  "DescribeActualCallCountTo actual_call_count =
     (if 0 < actual_call_count then ''called '' @ FormatTimes actual_call_count else ''never called'')"

definition Between :: "int \<Rightarrow> int \<Rightarrow> cardinality \<times> string list" where
  "Between a_min a_max = BetweenCardinalityImpl a_min a_max"

definition AtLeast :: "int \<Rightarrow> cardinality \<times> string list" where
  "AtLeast n = Between n INT_MAX"

definition AtMost :: "int \<Rightarrow> cardinality \<times> string list" where
  "AtMost n = Between 0 n"

definition AnyNumber :: "cardinality \<times> string list" where
  "AnyNumber = AtLeast 0"

definition Exactly :: "int \<Rightarrow> cardinality \<times> string list" where
  "Exactly n = Between n n"

subsection \<open>The bounds are ordered\<close>

definition card_ok :: "cardinality \<Rightarrow> bool" where
  "card_ok c \<longleftrightarrow> 0 \<le> min_calls c \<and> min_calls c \<le> max_calls c"

lemma Between_ok [simp]: "card_ok (fst (Between a_min a_max))"
  by (simp add: Between_def BetweenCardinalityImpl_def card_ok_def Let_def)

lemma AtLeast_ok [simp]: "card_ok (fst (AtLeast n))" and Exactly_ok [simp]: "card_ok (fst (Exactly n))"
  by (simp_all add: AtLeast_def Exactly_def)

lemma Between_exact:
  "snd (Between a_min a_max) = [] \<longleftrightarrow> 0 \<le> a_min \<and> a_min \<le> a_max"
  "snd (Between a_min a_max) = [] \<Longrightarrow> fst (Between a_min a_max) = \<lparr>min_calls = a_min, max_calls = a_max\<rparr>"
  by (auto simp: Between_def BetweenCardinalityImpl_def Let_def split: if_splits)

lemma Exactly_nat: "fst (Exactly (int n)) = \<lparr>min_calls = int n, max_calls = int n\<rparr>"
  by (simp add: Exactly_def Between_def BetweenCardinalityImpl_def Let_def)

lemma IsOverSaturated_iff:
  "card_ok c \<Longrightarrow> IsOverSaturatedByCallCount c n \<longleftrightarrow> max_calls c < n"
  by (auto simp: IsOverSaturatedByCallCount_def IsSaturatedByCallCount_def IsSatisfiedByCallCount_def card_ok_def)

text \<open>The call that saturates a cardinality leaves it satisfied.\<close>

lemma saturating_call:
  "card_ok c \<Longrightarrow> \<not> IsSaturatedByCallCount c n \<Longrightarrow> IsSaturatedByCallCount c (n + 1) \<Longrightarrow> IsSatisfiedByCallCount c (n + 1)"
  by (auto simp: IsSaturatedByCallCount_def IsSatisfiedByCallCount_def card_ok_def)

end
