(* ===== verification/Gm_Base64.thy ===== *)
theory Gm_Base64
  imports Gm_Utils
begin

unbundle bit_operations_syntax

section \<open>Decoding base 64 (\<open>googlemock/src/gmock-internal-utils.cc\<close>)\<close>

text \<open>
  A \<open>char\<close> of the decoder that serves as a number of six bits or as a byte under construction is an
  \<open>8 word\<close>: shifts are done in \<open>int\<close> and cut to eight bits afterwards, which is what \<open>push_bit\<close> on
  eight bits gives.  \<open>std::array::operator[]\<close> does not check its index, so that a byte above 127,
  which is a negative \<open>char\<close>, reads outside the table.
\<close>

definition kBase64 :: string where
  "kBase64 = ''ABCDEFGHIJKLMNOPQRSTUVWXYZabcdefghijklmnopqrstuvwxyz0123456789+/''"

definition UndoWebSafeEncoding :: "char \<Rightarrow> char" where
  "UndoWebSafeEncoding c = (if c = CHR ''-'' then CHR ''+'' else if c = CHR ''_'' then CHR ''/'' else c)"

fun UnBase64Impl :: "char \<Rightarrow> string \<Rightarrow> 8 word \<Rightarrow> 8 word" where
  "UnBase64Impl c [] carry = 65"
| "UnBase64Impl c (b # base64) carry = (if b = c then carry else UnBase64Impl c base64 (carry + 1))"

definition UnBase64 :: "string \<Rightarrow> 8 word list" where
  "UnBase64 base64 = map (\<lambda>i. UnBase64Impl (UndoWebSafeEncoding (char_of i)) base64 0) [0..<256 :: nat]"

definition kUnBase64 :: "8 word list" where
  "kUnBase64 = UnBase64 kBase64"

text \<open>The read of the table at a character.\<close>

definition unbase64_at :: "char \<Rightarrow> stop + 8 word" where
  "unbase64_at c =
     (let i = (of_char c :: nat) in if i < 128 then vat kUnBase64 i else Inl Overread)"

fun unescape_loop :: "string \<Rightarrow> nat \<Rightarrow> 8 word \<Rightarrow> string \<Rightarrow> stop + (bool \<times> string)" where
  "unescape_loop [] bit_pos dst decoded = Inr (True, decoded)"
| "unescape_loop (src # encoded) bit_pos dst decoded =
     (if isspace src \<or> src = CHR ''='' then unescape_loop encoded bit_pos dst decoded
      else
        bindr (unbase64_at src) (\<lambda>src_bin.
          if 64 \<le> src_bin then Inr (False, [])
          else if bit_pos = 0
          then unescape_loop encoded 6 (dst OR push_bit 2 src_bin) decoded
          else
            unescape_loop encoded ((bit_pos + 6) mod 8) (push_bit (10 - bit_pos) src_bin)
              (decoded @ [char_of (unat (dst OR drop_bit (bit_pos - 2) src_bin))])))"

definition Base64Unescape :: "string \<Rightarrow> stop + (bool \<times> string)" where
  "Base64Unescape encoded = unescape_loop encoded 0 0 []"

subsection \<open>The alphabet\<close>

definition skipped :: "char \<Rightarrow> bool" where
  "skipped c \<longleftrightarrow> isspace c \<or> c = CHR ''=''"

definition code_char :: "char \<Rightarrow> bool" where
  "code_char c \<longleftrightarrow> UndoWebSafeEncoding c \<in> set kBase64"

lemma kBase64_length: "length kBase64 = 64" and kBase64_distinct: "distinct kBase64"
  by (simp_all add: kBase64_def)

lemma UnBase64Impl_nth: "distinct bs \<Longrightarrow> i < length bs \<Longrightarrow> UnBase64Impl (bs ! i) bs carry = carry + word_of_nat i"
proof (induction bs arbitrary: i carry)
  case (Cons b bs)
  show ?case
  proof (cases i)
    case (Suc j)
    with Cons.prems have "b \<noteq> bs ! j" by (metis distinct.simps(2) length_Cons nth_mem Suc_less_eq)
    with Suc Cons.prems Cons.IH [of j "carry + 1"] show ?thesis by (simp add: add.assoc)
  qed simp
qed simp

lemma UnBase64Impl_notin: "c \<notin> set bs \<Longrightarrow> UnBase64Impl c bs carry = 65"
  by (induction bs arbitrary: carry) auto

lemma kBase64_ascii: "c \<in> set kBase64 \<Longrightarrow> (of_char c :: nat) < 128 \<and> \<not> skipped c"
proof -
  have "\<forall>c \<in> set kBase64. (of_char c :: nat) < 128 \<and> \<not> skipped c"
    unfolding kBase64_def skipped_def isspace_def Let_def by simp
  then show "c \<in> set kBase64 \<Longrightarrow> (of_char c :: nat) < 128 \<and> \<not> skipped c" by blast
qed

lemma unbase64_at_table:
  "(of_char c :: nat) < 128 \<Longrightarrow> unbase64_at c = Inr (UnBase64Impl (UndoWebSafeEncoding c) kBase64 0)"
  by (simp add: unbase64_at_def vat_def kUnBase64_def UnBase64_def)

lemma unbase64_at_code:
  assumes "UndoWebSafeEncoding c = kBase64 ! i" "i < 64"
  shows "unbase64_at c = Inr (word_of_nat i)" "\<not> skipped c"
proof -
  have "kBase64 ! i \<in> set kBase64" using assms(2) by (simp add: kBase64_length)
  then have a: "(of_char (kBase64 ! i) :: nat) < 128" "\<not> skipped (kBase64 ! i)" using kBase64_ascii by blast+
  have c: "c = CHR ''-'' \<or> c = CHR ''_'' \<or> c = kBase64 ! i"
    using assms(1) by (auto simp: UndoWebSafeEncoding_def split: if_splits)
  have "(of_char c :: nat) < 128" using c a(1) by auto
  then show "unbase64_at c = Inr (word_of_nat i)"
    using UnBase64Impl_nth [OF kBase64_distinct, of i 0] assms by (simp add: unbase64_at_table kBase64_length)
  show "\<not> skipped c" using c a(2) by (auto simp: skipped_def isspace_def)
qed

lemma unbase64_at_other: "(of_char c :: nat) < 128 \<Longrightarrow> \<not> code_char c \<Longrightarrow> unbase64_at c = Inr 65"
  by (simp add: unbase64_at_table UnBase64Impl_notin code_char_def)

subsection \<open>Encoding, the reference\<close>

text \<open>The groups of six bits of a text, the last one filled up with zeros.\<close>

fun sextets :: "8 word list \<Rightarrow> 8 word list" where
  "sextets [] = []"
| "sextets [a] = [drop_bit 2 a, push_bit 4 (a AND 3)]"
| "sextets [a, b] = [drop_bit 2 a, push_bit 4 (a AND 3) OR drop_bit 4 b, push_bit 2 (b AND 15)]"
| "sextets (a # b # c # bytes) =
     [drop_bit 2 a, push_bit 4 (a AND 3) OR drop_bit 4 b, push_bit 2 (b AND 15) OR drop_bit 6 c, c AND 63] @ sextets bytes"

definition char_byte :: "char \<Rightarrow> 8 word" where
  "char_byte c = word_of_nat (of_char c)"

definition padding :: "nat \<Rightarrow> string" where
  "padding n = (if n mod 3 = 0 then [] else if n mod 3 = 1 then ''=='' else ''='')"

definition base64_encode :: "string \<Rightarrow> string" where
  "base64_encode s = map (\<lambda>v. kBase64 ! unat v) (sextets (map char_byte s)) @ padding (length s)"

lemma char_of_byte [simp]: "char_of (unat (char_byte c)) = c"
  by (simp add: char_byte_def unsigned_of_nat take_bit_eq_mod)

lemma low_mask: "(3 :: 8 word) = mask 2" "(15 :: 8 word) = mask 4" "(63 :: 8 word) = mask 6"
  by (simp_all add: mask_eq_exp_minus_1)

lemma bit8_cases: "n < LENGTH(8) \<Longrightarrow> n \<in> {0, 1, 2, 3, 4, 5, 6, 7 :: nat}"
  by auto

lemma sextet_bytes:
  fixes a b c :: "8 word"
  shows "push_bit 2 (drop_bit 2 a) OR drop_bit 4 (push_bit 4 (a AND 3) OR drop_bit 4 b) = a"
    "push_bit 4 (push_bit 4 (a AND 3) OR drop_bit 4 b) OR drop_bit 2 (push_bit 2 (b AND 15) OR drop_bit 6 c) = b"
    "push_bit 6 (push_bit 2 (b AND 15) OR drop_bit 6 c) OR (c AND 63) = c"
    "push_bit 2 (drop_bit 2 a) OR drop_bit 4 (push_bit 4 (a AND 3)) = a"
    "push_bit 4 (push_bit 4 (a AND 3) OR drop_bit 4 b) OR drop_bit 2 (push_bit 2 (b AND 15)) = b"
  unfolding low_mask
  by ((rule bit_word_eqI, drule bit8_cases, auto simp: bit_simps simp flip: numeral_2_eq_2 numeral_3_eq_3)[1])+

subsection \<open>Decoding the groups\<close>

text \<open>The decoder on the groups of six bits, without the characters that stand for them.\<close>

fun decode_loop :: "8 word list \<Rightarrow> nat \<Rightarrow> 8 word \<Rightarrow> string \<Rightarrow> string" where
  "decode_loop [] bit_pos dst decoded = decoded"
| "decode_loop (v # vs) bit_pos dst decoded =
     (if bit_pos = 0 then decode_loop vs 6 (dst OR push_bit 2 v) decoded
      else decode_loop vs ((bit_pos + 6) mod 8) (push_bit (10 - bit_pos) v)
             (decoded @ [char_of (unat (dst OR drop_bit (bit_pos - 2) v))]))"

lemma push_bit_8 [simp]: "push_bit 8 (v :: 8 word) = 0"
  by (rule bit_word_eqI) (simp add: bit_simps)

lemma decode_step:
  "decode_loop (v # vs) 0 0 decoded = decode_loop vs 6 (push_bit 2 v) decoded"
  "decode_loop (v # vs) 6 dst decoded = decode_loop vs 4 (push_bit 4 v) (decoded @ [char_of (unat (dst OR drop_bit 4 v))])"
  "decode_loop (v # vs) 4 dst decoded = decode_loop vs 2 (push_bit 6 v) (decoded @ [char_of (unat (dst OR drop_bit 2 v))])"
  "decode_loop (v # vs) 2 dst decoded = decode_loop vs 0 0 (decoded @ [char_of (unat (dst OR v))])"
  by simp_all

lemma decode_sextets: "decode_loop (sextets bytes) 0 0 decoded = decoded @ map (\<lambda>b. char_of (unat b)) bytes"
proof (induction bytes arbitrary: decoded rule: sextets.induct)
  case (4 a b c bytes)
  then show ?case
    by (simp only: sextets.simps append.simps decode_step sextet_bytes list.map append_assoc)
qed (simp_all only: sextets.simps decode_step decode_loop.simps(1) sextet_bytes list.map append_assoc append.simps append_Nil2)

lemma sextets_six_bits: "v \<in> set (sextets bytes) \<Longrightarrow> unat v < 64"
proof -
  have t: "take_bit 6 (drop_bit 2 a) = drop_bit 2 a" "take_bit 6 (push_bit 4 (a AND 3)) = push_bit 4 (a AND 3)"
    "take_bit 6 (push_bit 2 (a AND 15)) = push_bit 2 (a AND 15)" "take_bit 6 (a AND 63) = a AND 63"
    "take_bit 6 (push_bit 4 (a AND 3) OR drop_bit 4 b) = push_bit 4 (a AND 3) OR drop_bit 4 b"
    "take_bit 6 (push_bit 2 (a AND 15) OR drop_bit 6 b) = push_bit 2 (a AND 15) OR drop_bit 6 b" for a b :: "8 word"
    unfolding low_mask
    by ((rule bit_word_eqI, drule bit8_cases, auto simp: bit_simps dest: bit_imp_le_length simp flip: numeral_2_eq_2 numeral_3_eq_3)[1])+
  assume "v \<in> set (sextets bytes)"
  then have "take_bit 6 v = v"
    by (induction bytes rule: sextets.induct) (auto simp only: sextets.simps t set_append set_simps)
  then have "unat v = take_bit 6 (unat v)" by (metis unsigned_take_bit_eq)
  also have "\<dots> < 2 ^ 6" by (rule take_bit_nat_less_exp)
  finally show "unat v < 64" by simp
qed

text \<open>The decoder runs over the characters that are not skipped.\<close>

lemma unescape_codes:
  assumes "map UndoWebSafeEncoding (filter (\<lambda>c. \<not> skipped c) t) = map (\<lambda>v. kBase64 ! unat v) vs"
    "\<forall>v \<in> set vs. unat v < 64"
  shows "unescape_loop t bit_pos dst decoded = Inr (True, decode_loop vs bit_pos dst decoded)"
  using assms
proof (induction t arbitrary: vs bit_pos dst decoded)
  case (Cons c t)
  show ?case
  proof (cases "skipped c")
    case True
    then have "isspace c \<or> c = CHR ''=''" by (simp add: skipped_def)
    with True Cons show ?thesis by simp
  next
    case False
    then obtain v ws where vs: "vs = v # ws" "UndoWebSafeEncoding c = kBase64 ! unat v"
      "map UndoWebSafeEncoding (filter (\<lambda>c. \<not> skipped c) t) = map (\<lambda>v. kBase64 ! unat v) ws"
      using Cons.prems(1) by auto
    have v: "unat v < 64" "\<forall>v \<in> set ws. unat v < 64" using Cons.prems(2) vs(1) by simp_all
    have "unbase64_at c = Inr v" using unbase64_at_code(1) [OF vs(2) v(1)] by simp
    moreover have "\<not> 64 \<le> v" using v(1) by (simp add: word_le_nat_alt)
    moreover have "\<not> (isspace c \<or> c = CHR ''='')" using False by (simp add: skipped_def)
    ultimately show ?thesis using Cons.IH [OF vs(3) v(2)] vs(1) by simp
  qed
qed simp

lemma filter_encode: "filter (\<lambda>c. c \<noteq> CHR ''='') (base64_encode s) = map (\<lambda>v. kBase64 ! unat v) (sextets (map char_byte s))"
proof -
  have "CHR ''='' \<notin> set (map (\<lambda>v. kBase64 ! unat v) (sextets (map char_byte s)))"
  proof
    assume "CHR ''='' \<in> set (map (\<lambda>v. kBase64 ! unat v) (sextets (map char_byte s)))"
    then obtain v where "v \<in> set (sextets (map char_byte s))" "CHR ''='' = kBase64 ! unat v" by auto
    then have "CHR ''='' \<in> set kBase64" using sextets_six_bits [of v "map char_byte s"] by (metis kBase64_length nth_mem)
    then show False by (simp add: kBase64_def)
  qed
  then have "filter (\<lambda>c. c \<noteq> CHR ''='') (map (\<lambda>v. kBase64 ! unat v) (sextets (map char_byte s))) =
    map (\<lambda>v. kBase64 ! unat v) (sextets (map char_byte s))"
    by (intro filter_True) metis
  moreover have "filter (\<lambda>c. c \<noteq> CHR ''='') (padding n) = []" for n by (simp add: padding_def)
  ultimately show ?thesis by (simp add: base64_encode_def)
qed

lemma Base64Unescape_encoded:
  assumes "map UndoWebSafeEncoding (filter (\<lambda>c. \<not> skipped c) t) = filter (\<lambda>c. c \<noteq> CHR ''='') (base64_encode s)"
  shows "Base64Unescape t = Inr (True, s)"
proof -
  have "map (\<lambda>b. char_of (unat b)) (map char_byte s) = s" by (simp add: comp_def)
  then show ?thesis
    using unescape_codes [OF assms [unfolded filter_encode], of 0 0 "[]"] sextets_six_bits
    by (simp add: Base64Unescape_def decode_sextets)
qed

text \<open>On ASCII texts the decoder accepts exactly the texts over the alphabet.\<close>

lemma unescape_loop_decides:
  assumes "\<forall>c \<in> set t. (of_char c :: nat) < 128"
  shows "\<exists>d. unescape_loop t bit_pos dst decoded = Inr (\<forall>c \<in> set t. skipped c \<or> code_char c, d) \<and>
    ((\<forall>c \<in> set t. skipped c \<or> code_char c) \<or> d = [])"
  using assms
proof (induction t arbitrary: bit_pos dst decoded)
  case (Cons c t)
  have c: "(of_char c :: nat) < 128" using Cons.prems by simp
  show ?case
  proof (cases "skipped c")
    case True
    then have "isspace c \<or> c = CHR ''=''" by (simp add: skipped_def)
    with True Cons show ?thesis by simp
  next
    case False
    show ?thesis
    proof (cases "code_char c")
      case True
      then obtain i where i: "UndoWebSafeEncoding c = kBase64 ! i" "i < 64"
        unfolding code_char_def by (metis in_set_conv_nth kBase64_length)
      then have "unbase64_at c = Inr (word_of_nat i)" by (rule unbase64_at_code)
      moreover have "\<not> 64 \<le> (word_of_nat i :: 8 word)"
        using i(2) by (simp add: word_le_nat_alt unsigned_of_nat take_bit_nat_eq_self)
      moreover have "\<not> (isspace c \<or> c = CHR ''='')" using False by (simp add: skipped_def)
      ultimately show ?thesis using True Cons by simp
    next
      case not_code: False
      moreover have "\<not> (isspace c \<or> c = CHR ''='')" using False by (simp add: skipped_def)
      ultimately show ?thesis using False unbase64_at_other [OF c not_code] by simp
    qed
  qed
qed simp

lemma Base64Unescape_decides:
  assumes "\<forall>c \<in> set t. (of_char c :: nat) < 128"
  shows "\<exists>d. Base64Unescape t = Inr (\<forall>c \<in> set t. skipped c \<or> code_char c, d) \<and>
    ((\<forall>c \<in> set t. skipped c \<or> code_char c) \<or> d = [])"
  unfolding Base64Unescape_def by (rule unescape_loop_decides [OF assms])

end
