(* ===== verification/Gt_Text_Results.thy ===== *)
theory Gt_Text_Results
  imports Gt_Edit_Spec Gt_Utf8 Gt_Regex_Spec Gm_Base64
begin

section \<open>Results on texts: differences, encodings and patterns\<close>

subsection \<open>Differences\<close>

text \<open>The costs of the code in units of 1/100000.\<close>

definition code_costs :: "int arith" where
  "code_costs = \<lparr>of_index = (\<lambda>i. 100000 * int i), plus_one = (\<lambda>c. c + 100000), plus_replace = (\<lambda>c. c + 100001),
     is_less = (\<lambda>a b. a < b)\<rparr>"

definition edit_count :: "edit_type list \<Rightarrow> nat" where
  "edit_count es = length (filter (\<lambda>e. e \<noteq> kMatch) es)"

lemma three_replacements:
  "CalculateOptimalEdits code_costs [0, 1, 0] [1, 0, 1] = Inr [kReplace, kReplace, kReplace]"
  by code_simp

text \<open>C28. The edits that are found for two texts always exist and are a script that turns the one
  into the other, whatever the arithmetic of the costs does; equal texts get matches only, and the
  unified diff is empty exactly for equal texts, or when no context is asked for.  The edits are not
  the fewest, though: for 0 1 0 and 1 0 1 the code replaces three times where two edits do.\<close>

theorem diff_is_right_but_not_minimal:
  "(\<exists>es. CalculateStringEdits ar left right = Inr es \<and> script es left right \<and>
      (left = right \<longrightarrow> es = replicate (length left) kMatch)) \<and>
   (\<exists>d. CreateUnifiedDiff ar left right ctx = Inr d \<and> (d = [] \<longleftrightarrow> left = right \<or> ctx = 0)) \<and>
   (\<exists>es. CalculateOptimalEdits code_costs [0, 1, 0] [1, 0, 1] = Inr es \<and>
      script [kRemove, kMatch, kMatch, kAdd] [0, 1, 0 :: nat] [1, 0, 1] \<and> edit_count [kRemove, kMatch, kMatch, kAdd] < edit_count es)"
proof (intro conjI)
  show "\<exists>es. CalculateStringEdits ar left right = Inr es \<and> script es left right \<and>
      (left = right \<longrightarrow> es = replicate (length left) kMatch)" by (rule CalculateStringEdits_script)
  show "\<exists>d. CreateUnifiedDiff ar left right ctx = Inr d \<and> (d = [] \<longleftrightarrow> left = right \<or> ctx = 0)" by (rule CreateUnifiedDiff_ok)
  show "\<exists>es. CalculateOptimalEdits code_costs [0, 1, 0] [1, 0, 1] = Inr es \<and>
      script [kRemove, kMatch, kMatch, kAdd] [0, 1, 0 :: nat] [1, 0, 1] \<and> edit_count [kRemove, kMatch, kMatch, kAdd] < edit_count es"
    unfolding three_replacements by (simp add: edit_count_def)
qed

lemma diff_is_right_but_not_minimal_witness:
  "\<exists>d. CreateUnifiedDiff code_costs [''a'', ''b''] [''a'', ''c''] 2 = Inr d \<and> d \<noteq> []"
  using diff_is_right_but_not_minimal [of code_costs "[''a'', ''b'']" "[''a'', ''c'']" 2] by auto

subsection \<open>Wide strings\<close>

text \<open>Converting a wide string that holds Unicode text, in 32 bit units or in UTF-16 with its
  surrogate pairs, gives UTF-8 that decodes to the same text.\<close>

theorem wide_text_survives:
  assumes "\<forall>cp \<in> set cps. scalar cp" "length (concat (map (units wide16) cps)) \<le> 2147483647"
  shows "\<exists>s. WideStringToUtf8 wide16 (concat (map (units wide16) cps) @ [0]) (- 1) = Inr s \<and> utf8_decode s = Some cps"
  by (rule WideStringToUtf8_text [OF assms])

lemma wide_text_survives_witness:
  "\<exists>s. WideStringToUtf8 True (concat (map (units True) [0x41, 0x20AC, 0x1F600]) @ [0]) (- 1) = Inr s \<and>
    utf8_decode s = Some [0x41, 0x20AC, 0x1F600]"
  by (rule wide_text_survives) (simp_all add: scalar_def units_def)

subsection \<open>Base 64\<close>

text \<open>\<open>Base64Unescape\<close> recovers every byte string from its encoding, with or without padding, with
  white space anywhere and in either alphabet.\<close>

theorem base64_decodes_encoded:
  assumes "map UndoWebSafeEncoding (filter (\<lambda>c. \<not> skipped c) t) = filter (\<lambda>c. c \<noteq> CHR ''='') (base64_encode s)"
  shows "Base64Unescape t = Inr (True, s)"
  by (rule Base64Unescape_encoded [OF assms])

lemma base64_decodes_encoded_witness:
  "Base64Unescape (''_-A'' @ [LF] @ ''='') = Inr (True, [CHR 0xFF, CHR 0xE0])"
proof (rule base64_decodes_encoded)
  show "map UndoWebSafeEncoding (filter (\<lambda>c. \<not> skipped c) (''_-A'' @ [LF] @ ''='')) =
    filter (\<lambda>c. c \<noteq> CHR ''='') (base64_encode [CHR 0xFF, CHR 0xE0])"
    by code_simp
qed

subsection \<open>Simple regular expressions\<close>

text \<open>C27. The framework's own regular expressions.  Validation accepts exactly the printed expressions
  of the syntax; for these \<open>PartialMatch\<close> decides whether some part of the string is in the language, and
  \<open>FullMatch\<close> whether the whole string is, unless the expression ends in an escaped dollar sign: then
  the anchor is not added and a prefix is enough.\<close>

theorem simple_regex_decides:
  assumes "NUL \<notin> set regex"
  shows "(fst (ValidateRegex (Some regex)) \<longleftrightarrow> (\<exists>re. list_all item_ok (items re) \<and> regex = show_re re)) \<and>
    (\<forall>re s. list_all item_ok (items re) \<and> regex = show_re re \<and> NUL \<notin> set s \<and> length s \<le> max_repeat \<longrightarrow>
      RE_PartialMatch (Some s) (fst (RE_Init (Some regex))) =
        Inr (\<exists>n \<le> length s. (bol re \<longrightarrow> n = 0) \<and> head_match (items re) (eol re) (drop n s)) \<and>
      RE_FullMatch (Some s) (fst (RE_Init (Some regex))) =
        Inr (if ends_in_escaped_dollar re then head_match (items re) False s else items_match (items re) s))"
  using ValidateRegex_iff [OF assms] RE_matches head_match_eol by auto

text \<open>\<open>a*\\$\<close>, which matches the whole of \<open>aa$b\<close> according to the code.\<close>

lemma simple_regex_decides_witness:
  "RE_FullMatch (Some ''aa$b'') (fst (RE_Init (Some (''a*'' @ [BSL] @ ''$'')))) = Inr True \<and>
   \<not> items_match [Item False CHR ''a'' Star, Item True CHR ''$'' One] ''aa$b''"
proof -
  let ?re = "Simple_re False [Item False CHR ''a'' Star, Item True CHR ''$'' One] False"
  have m: "head_match [Item False CHR ''a'' Star, Item True CHR ''$'' One] False ''aa$b''"
    unfolding head_match_def by (rule exI [of _ 3]) (simp add: item_match_def AtomMatchesChar_def IsAsciiPunct_def IsInSet_def, rule exI [of _ 2], simp, rule exI [of _ 1], simp)
  have n: "\<not> items_match [Item False CHR ''a'' Star, Item True CHR ''$'' One] ''aa$b''"
  proof
    assume "items_match [Item False CHR ''a'' Star, Item True CHR ''$'' One] ''aa$b''"
    then obtain n k where nk: "n \<le> length ''aa$b''" "item_match (Item False CHR ''a'' Star) (take n ''aa$b'')"
      "item_match (Item True CHR ''$'' One) (take k (drop n ''aa$b''))" "drop k (drop n ''aa$b'') = []"
      unfolding items_match.simps by blast
    have "length (take k (drop n ''aa$b'')) = 1" using nk(3) by (simp only: item_match_def item.sel quant_count.simps)
    moreover have "length (drop k (drop n ''aa$b'')) = 0" unfolding nk(4) by simp
    moreover have "length ''aa$b'' = 4" by simp
    ultimately have "n = 3" using nk(1) unfolding length_take length_drop by linarith
    with nk(2) show False by (simp add: item_match_def AtomMatchesChar_def)
  qed
  have ok: "list_all item_ok (items ?re)" "''a*'' @ [BSL] @ ''$'' = show_re ?re" "ends_in_escaped_dollar ?re"
    by (simp_all add: special_def IsValidEscape_def IsAsciiPunct_def IsInSet_def show_tail_def ends_in_escaped_dollar_def)
  have "NUL \<notin> set (''a*'' @ [BSL] @ ''$'')" by simp
  note d = simple_regex_decides [OF this, THEN conjunct2, rule_format, of ?re "''aa$b''"]
  have "RE_FullMatch (Some ''aa$b'') (fst (RE_Init (Some (''a*'' @ [BSL] @ ''$'')))) =
    Inr (if ends_in_escaped_dollar ?re then head_match (items ?re) False ''aa$b'' else items_match (items ?re) ''aa$b'')"
    by (rule d [THEN conjunct2]) (intro conjI ok(1,2), simp, simp add: max_repeat_def)
  then have "RE_FullMatch (Some ''aa$b'') (fst (RE_Init (Some (''a*'' @ [BSL] @ ''$'')))) = Inr True"
    using ok(3) m by simp
  with n show ?thesis by simp
qed

end
