(* ===== verification/Gm_Expect.thy ===== *)
theory Gm_Expect
  imports Gm_Utils
begin

section \<open>Expectations (\<open>googlemock/src/gmock-spec-builders.cc\<close>, \<open>gmock-spec-builders.h\<close>)\<close>

text \<open>
  The state of the mock library: all expectations, the function mockers that own them, the sequences
  and the registry of mock objects.

  \<^item> An expectation is named by the number of its creation.  It is held by shared pointers, so a
    reference to it never dangles.  A set of expectations is ordered by their addresses, which
    are given by \<open>address\<close>.
  \<^item> The tuple of arguments of a call has the type \<open>'a\<close>, what an action does the type \<open>'b\<close>.
    A matcher is given by what it matches, how it explains a match and how it describes itself.
  \<^item> A failure that is reported and a text that is printed are events, in their order.
    A failed \<open>Assert\<close> aborts the process.
  \<^item> Every function below runs under the lock of the library, which makes it one step.
\<close>

subsection \<open>Data\<close>

datatype Clause = kNone | kWith | kTimes | kInSequence | kAfter | kWillOnce | kWillRepeatedly | kRetiresOnSaturation

text \<open>The clauses are compared by their place in the enumeration.\<close>

fun clause_no :: "Clause \<Rightarrow> nat" where
  "clause_no kNone = 0"
| "clause_no kWith = 1"
| "clause_no kTimes = 2"
| "clause_no kInSequence = 3"
| "clause_no kAfter = 4"
| "clause_no kWillOnce = 5"
| "clause_no kWillRepeatedly = 6"
| "clause_no kRetiresOnSaturation = 7"

lemma clause_no_inj: "clause_no a = clause_no b \<Longrightarrow> a = b"
  by (cases a; cases b) simp_all

instantiation Clause :: linorder
begin

definition less_eq_Clause :: "Clause \<Rightarrow> Clause \<Rightarrow> bool" where
  "less_eq_Clause a b \<longleftrightarrow> clause_no a \<le> clause_no b"

definition less_Clause :: "Clause \<Rightarrow> Clause \<Rightarrow> bool" where
  "less_Clause a b \<longleftrightarrow> clause_no a < clause_no b"

instance
  by standard (auto simp: less_eq_Clause_def less_Clause_def dest: clause_no_inj)

end

datatype OnCallClause = oNone | oWith | oWillByDefault

datatype 'b action = DoDefault | Action 'b

record 'a matcher =
  m_matches :: "'a \<Rightarrow> bool"
  m_explain :: "'a \<Rightarrow> string"
  m_describe :: string

definition any_matcher :: "'a matcher" where
  "any_matcher = \<lparr>m_matches = (\<lambda>a. True), m_explain = (\<lambda>a. []), m_describe = ''is anything''\<rparr>"

record ('a, 'b) expectation =
  exp_file :: "string option"
  exp_line :: int
  source_text :: string
  description :: string
  cardinality_specified :: bool
  cardinality :: cardinality
  immediate_prerequisites :: "nat list"
  call_count :: int
  retired :: bool
  untyped_actions :: "'b action list"
  extra_matcher_specified :: bool
  repeated_action_specified :: bool
  retires_on_saturation :: bool
  last_clause :: Clause
  action_count_checked :: bool
  owner :: nat
  matchers :: "'a matcher"
  extra_matcher :: "'a matcher"
  repeated_action :: "'b action"

record ('a, 'b) on_call_spec =
  spec_file :: "string option"
  spec_line :: int
  spec_last_clause :: OnCallClause
  spec_matchers :: "'a matcher"
  spec_extra_matcher :: "'a matcher"
  spec_action :: "'b action"

record ('a, 'b) mocker =
  mock_obj :: "nat option"
  mocker_name :: "string option"
  returns_void :: bool
  on_call_specs :: "('a, 'b) on_call_spec list"
  expectations :: "nat list"

datatype CallReaction = kAllow | kWarn | kFail

datatype event = Failure "string option" int string | Printed string

record mock_object_state =
  first_used_file :: "string option"
  first_used_line :: int
  first_used_test_suite :: string
  first_used_test :: string
  leakable :: bool
  function_mockers :: "nat list"

record ('a, 'b) mock_state =
  exps :: "nat \<Rightarrow> ('a, 'b) expectation"
  next_exp :: nat
  address :: "nat \<Rightarrow> nat"
  mockers :: "nat \<Rightarrow> ('a, 'b) mocker"
  last_expectation :: "nat \<Rightarrow> nat option"
  implicit_sequence :: "nat option"
  next_sequence :: nat
  states :: "(nat \<times> mock_object_state) list"
  current_test :: "(string \<times> string) option"
  reactions :: "nat \<Rightarrow> CallReaction option"
  catch_leaked_mocks :: bool
  verbose :: string
  default_mock_behavior :: int
  ndebug :: bool
  stack_trace :: "int \<Rightarrow> string"
  events :: "event list"

subsection \<open>Reports\<close>

definition emit :: "event \<Rightarrow> (('a, 'b) mock_state, unit) cmd" where
  "emit e = modify (\<lambda>s. s\<lparr>events := events s @ [e]\<rparr>)"

definition Expect :: "bool \<Rightarrow> string option \<Rightarrow> int \<Rightarrow> string \<Rightarrow> (('a, 'b) mock_state, unit) cmd" where
  "Expect condition f l msg = (if condition then ret () else emit (Failure f l (cstr msg)))"

definition Assert :: "bool \<Rightarrow> (('a, 'b) mock_state, unit) cmd" where
  "Assert condition = (if condition then ret () else halt Assert_fail)"

definition log_message :: "LogSeverity \<Rightarrow> string \<Rightarrow> int \<Rightarrow> (('a, 'b) mock_state, unit) cmd" where
  "log_message severity message stack_frames_to_skip s =
     (let t = Log (stack_trace s) (ndebug s) (verbose s) severity message stack_frames_to_skip
      in if t = [] then Inr ((), s) else emit (Printed t) s)"

definition LogWithLocation :: "LogSeverity \<Rightarrow> string option \<Rightarrow> int \<Rightarrow> string \<Rightarrow> (('a, 'b) mock_state, unit) cmd" where
  "LogWithLocation severity f l message = log_message severity (FormatFileLocation f l @ '' '' @ message @ [LF]) 0"

subsection \<open>Sets and sequences\<close>

definition set_insert :: "(nat \<Rightarrow> nat) \<Rightarrow> nat \<Rightarrow> nat list \<Rightarrow> nat list" where
  "set_insert addr e es = (if e \<in> set es then es else insort_key addr e es)"

definition upd_exp :: "nat \<Rightarrow> (('a, 'b) expectation \<Rightarrow> ('a, 'b) expectation) \<Rightarrow> (('a, 'b) mock_state, unit) cmd" where
  "upd_exp i f = modify (\<lambda>s. s\<lparr>exps := (exps s)(i := f (exps s i))\<rparr>)"

text \<open>\<open>Sequence::AddExpectation\<close>.\<close>

definition AddExpectation :: "nat \<Rightarrow> nat \<Rightarrow> (('a, 'b) mock_state, unit) cmd" where
  "AddExpectation sq i s =
     (if last_expectation s sq = Some i then Inr ((), s)
      else
        bnd (case last_expectation s sq of
               Some l \<Rightarrow> upd_exp i (\<lambda>e. e\<lparr>immediate_prerequisites := set_insert (address s) l (immediate_prerequisites e)\<rparr>)
             | None \<Rightarrow> ret ())
          (\<lambda>_. modify (\<lambda>s. s\<lparr>last_expectation := (last_expectation s)(sq := Some i)\<rparr>)) s)"

text \<open>The constructor tells whether it has created the sequence; the destructor is given that.\<close>

definition InSequence_ctor :: "(('a, 'b) mock_state, bool) cmd" where
  "InSequence_ctor s =
     (if implicit_sequence s = None
      then Inr (True, s\<lparr>implicit_sequence := Some (next_sequence s), next_sequence := next_sequence s + 1,
                        last_expectation := (last_expectation s)(next_sequence s := None)\<rparr>)
      else Inr (False, s))"

definition InSequence_dtor :: "bool \<Rightarrow> (('a, 'b) mock_state, unit) cmd" where
  "InSequence_dtor sequence_created =
     (if sequence_created then modify (\<lambda>s. s\<lparr>implicit_sequence := None\<rparr>) else ret ())"

subsection \<open>The state of an expectation\<close>

definition new_expectation :: "nat \<Rightarrow> string option \<Rightarrow> int \<Rightarrow> string \<Rightarrow> 'a matcher \<Rightarrow> ('a, 'b) expectation" where
  "new_expectation m a_file a_line a_source_text ms =
     \<lparr>exp_file = a_file, exp_line = a_line, source_text = a_source_text, description = [],
      cardinality_specified = False, cardinality = fst (Exactly 1), immediate_prerequisites = [],
      call_count = 0, retired = False, untyped_actions = [], extra_matcher_specified = False,
      repeated_action_specified = False, retires_on_saturation = False, last_clause = kNone,
      action_count_checked = False, owner = m, matchers = ms, extra_matcher = any_matcher,
      repeated_action = DoDefault\<rparr>"

definition IsSatisfied :: "('a, 'b) expectation \<Rightarrow> bool" where
  "IsSatisfied e = IsSatisfiedByCallCount (cardinality e) (call_count e)"

definition IsSaturated :: "('a, 'b) expectation \<Rightarrow> bool" where
  "IsSaturated e = IsSaturatedByCallCount (cardinality e) (call_count e)"

definition IsOverSaturated :: "('a, 'b) expectation \<Rightarrow> bool" where
  "IsOverSaturated e = IsOverSaturatedByCallCount (cardinality e) (call_count e)"

definition Retire :: "('a, 'b) expectation \<Rightarrow> ('a, 'b) expectation" where
  "Retire e = e\<lparr>retired := True\<rparr>"

definition IncrementCallCount :: "nat \<Rightarrow> (('a, 'b) mock_state, unit) cmd" where
  "IncrementCallCount i s =
     bnd (lift_res (c_inc (call_count (exps s i)))) (\<lambda>n. upd_exp i (\<lambda>e. e\<lparr>call_count := n\<rparr>)) s"

definition DescribeLocationTo :: "('a, 'b) expectation \<Rightarrow> string" where
  "DescribeLocationTo e = FormatFileLocation (exp_file e) (exp_line e) @ '' ''"

definition DescribeCallCountTo :: "('a, 'b) expectation \<Rightarrow> string" where
  "DescribeCallCountTo e =
     ''         Expected: to be '' @ DescribeTo (cardinality e) @ [LF] @ ''           Actual: '' @
     DescribeActualCallCountTo (call_count e) @ '' - '' @
     (if IsOverSaturated e then ''over-saturated'' else if IsSaturated e then ''saturated''
      else if IsSatisfied e then ''satisfied'' else ''unsatisfied'') @
     '' and '' @ (if retired e then ''retired'' else ''active'')"

definition MaybeDescribeExtraMatcherTo :: "('a, 'b) expectation \<Rightarrow> string" where
  "MaybeDescribeExtraMatcherTo e =
     (if extra_matcher_specified e
      then ''    Expected args: '' @ m_describe (extra_matcher e) @ [LF] else [])"

subsection \<open>Walks over the pre-requisites\<close>

text \<open>
  The three walks take the last expectation off a vector and push some of its pre-requisites.  A
  walk that would not end has the value \<open>None\<close>.
\<close>

definition retire_step :: "nat \<Rightarrow> (nat \<Rightarrow> ('a, 'b) expectation) \<times> nat list \<Rightarrow> (nat \<Rightarrow> ('a, 'b) expectation) \<times> nat list" where
  "retire_step next = (\<lambda>(ex, ws).
     if retired (ex next) then (ex, ws) else (ex(next := Retire (ex next)), ws @ [next]))"

partial_function (option) retire_loop ::
  "(nat \<Rightarrow> ('a, 'b) expectation) \<Rightarrow> nat list \<Rightarrow> (nat \<Rightarrow> ('a, 'b) expectation) option" where
  "retire_loop ex ws =
     (if ws = [] then Some ex
      else let (ex', ws') = fold retire_step (immediate_prerequisites (ex (last ws))) (ex, butlast ws)
           in retire_loop ex' ws')"

definition RetireAllPreRequisites :: "nat \<Rightarrow> (('a, 'b) mock_state, unit) cmd" where
  "RetireAllPreRequisites i s =
     (if retired (exps s i) then Inr ((), s)
      else case retire_loop (exps s) [i] of
             None \<Rightarrow> Inl No_fuel
           | Some ex \<Rightarrow> Inr ((), s\<lparr>exps := ex\<rparr>))"

partial_function (option) satisfied_loop :: "(nat \<Rightarrow> ('a, 'b) expectation) \<Rightarrow> nat list \<Rightarrow> bool option" where
  "satisfied_loop ex ws =
     (if ws = [] then Some True
      else let ps = immediate_prerequisites (ex (last ws))
           in if list_all (\<lambda>next. IsSatisfied (ex next)) ps then satisfied_loop ex (butlast ws @ ps)
              else Some False)"

definition AllPrerequisitesAreSatisfied :: "(nat \<Rightarrow> ('a, 'b) expectation) \<Rightarrow> nat \<Rightarrow> stop + bool" where
  "AllPrerequisitesAreSatisfied ex i = (case satisfied_loop ex [i] of None \<Rightarrow> Inl No_fuel | Some b \<Rightarrow> Inr b)"

definition unsatisfied_step ::
  "(nat \<Rightarrow> nat) \<Rightarrow> (nat \<Rightarrow> ('a, 'b) expectation) \<Rightarrow> nat \<Rightarrow> nat list \<times> nat list \<Rightarrow> nat list \<times> nat list" where
  "unsatisfied_step addr ex next = (\<lambda>(result, ws).
     if IsSatisfied (ex next) then (result, if call_count (ex next) = 0 then ws @ [next] else ws)
     else (set_insert addr next result, ws))"

partial_function (option) unsatisfied_loop ::
  "(nat \<Rightarrow> nat) \<Rightarrow> (nat \<Rightarrow> ('a, 'b) expectation) \<Rightarrow> nat list \<Rightarrow> nat list \<Rightarrow> nat list option" where
  "unsatisfied_loop addr ex result ws =
     (if ws = [] then Some result
      else let (result', ws') =
             fold (unsatisfied_step addr ex) (immediate_prerequisites (ex (last ws))) (result, butlast ws)
           in unsatisfied_loop addr ex result' ws')"

definition FindUnsatisfiedPrerequisites :: "(nat \<Rightarrow> nat) \<Rightarrow> (nat \<Rightarrow> ('a, 'b) expectation) \<Rightarrow> nat \<Rightarrow> stop + nat list" where
  "FindUnsatisfiedPrerequisites addr ex i =
     (case unsatisfied_loop addr ex [] [i] of None \<Rightarrow> Inl No_fuel | Some r \<Rightarrow> Inr r)"

end
