(* ===== verification/Gm_Mocker.thy ===== *)
theory Gm_Mocker
  imports Gm_Expect
begin

section \<open>The clauses of an \<open>EXPECT_CALL\<close> (\<open>gmock-spec-builders.h\<close>, class \<open>TypedExpectation\<close>)\<close>

text \<open>
  Every clause checks its place among the clauses, reports a failure when it is out of place, and
  takes effect in any case.
\<close>

definition ExpectSpecProperty :: "nat \<Rightarrow> bool \<Rightarrow> string \<Rightarrow> (('a, 'b) mock_state, unit) cmd" where
  "ExpectSpecProperty i property failure_message s =
     Expect property (exp_file (exps s i)) (exp_line (exps s i)) failure_message s"

definition plural :: "int \<Rightarrow> string \<Rightarrow> string \<Rightarrow> string" where
  "plural n one many = (if n = 1 then one else many)"

text \<open>The message about too many or too few actions.\<close>

definition action_count_message :: "('a, 'b) expectation \<Rightarrow> bool \<Rightarrow> string" where
  "action_count_message e too_many =
     (let action_count = int (length (untyped_actions e)) in
      DescribeLocationTo e @ ''Too '' @ (if too_many then ''many'' else ''few'') @ '' actions specified in '' @
      source_text e @ ''...'' @ [LF] @ ''Expected to be '' @ DescribeTo (cardinality e) @ '', but has '' @
      (if too_many then [] else ''only '') @ dec_int action_count @ '' WillOnce()'' @ plural action_count [] ''s'' @
      (if repeated_action_specified e then '' and a WillRepeatedly()'' else []) @ ''.'')"

definition CheckActionCountIfNotDone :: "nat \<Rightarrow> (('a, 'b) mock_state, unit) cmd" where
  "CheckActionCountIfNotDone i s =
     (let e = exps s i in
      if action_count_checked e then Inr ((), s)
      else
        bnd (upd_exp i (\<lambda>e. e\<lparr>action_count_checked := True\<rparr>)) (\<lambda>_.
          if \<not> cardinality_specified e then ret ()
          else
            let action_count = int (length (untyped_actions e));
                upper_bound = ConservativeUpperBound (cardinality e);
                lower_bound = ConservativeLowerBound (cardinality e)
            in if upper_bound < action_count \<or> (action_count = upper_bound \<and> repeated_action_specified e)
               then log_message kWarning (action_count_message e True) (- 1)
               else if 0 < action_count \<and> action_count < lower_bound \<and> \<not> repeated_action_specified e
               then log_message kWarning (action_count_message e False) (- 1)
               else ret ()) s)"

definition With :: "nat \<Rightarrow> 'a matcher \<Rightarrow> (('a, 'b) mock_state, unit) cmd" where
  "With i m s =
     bnd (if last_clause (exps s i) = kWith
          then ExpectSpecProperty i False ''.With() cannot appear more than once in an EXPECT_CALL().''
          else ExpectSpecProperty i (last_clause (exps s i) < kWith) ''.With() must be the first clause in an EXPECT_CALL().'')
       (\<lambda>_. upd_exp i (\<lambda>e. e\<lparr>last_clause := kWith, extra_matcher := m, extra_matcher_specified := True\<rparr>)) s"

definition Description :: "nat \<Rightarrow> string \<Rightarrow> (('a, 'b) mock_state, unit) cmd" where
  "Description i name = upd_exp i (\<lambda>e. e\<lparr>description := name\<rparr>)"

definition SpecifyCardinality :: "nat \<Rightarrow> cardinality \<Rightarrow> (('a, 'b) mock_state, unit) cmd" where
  "SpecifyCardinality i a_cardinality =
     upd_exp i (\<lambda>e. e\<lparr>cardinality_specified := True, cardinality := a_cardinality\<rparr>)"

definition UntypedTimes :: "nat \<Rightarrow> cardinality \<Rightarrow> (('a, 'b) mock_state, unit) cmd" where
  "UntypedTimes i a_cardinality s =
     bnd (if last_clause (exps s i) = kTimes
          then ExpectSpecProperty i False ''.Times() cannot appear more than once in an EXPECT_CALL().''
          else ExpectSpecProperty i (last_clause (exps s i) < kTimes)
                 (''.Times() may only appear *before* .InSequence(), .WillOnce(), '' @
                  ''.WillRepeatedly(), or .RetiresOnSaturation(), not after.''))
       (\<lambda>_. bnd (upd_exp i (\<lambda>e. e\<lparr>last_clause := kTimes\<rparr>)) (\<lambda>_. SpecifyCardinality i a_cardinality)) s"

definition Times :: "nat \<Rightarrow> cardinality \<Rightarrow> (('a, 'b) mock_state, unit) cmd" where
  "Times i a_cardinality = UntypedTimes i a_cardinality"

text \<open>The handle of an expectation is looked up in the list of its owner.\<close>

definition GetHandleOf :: "nat \<Rightarrow> nat \<Rightarrow> (('a, 'b) mock_state, nat) cmd" where
  "GetHandleOf m i s = bnd (Assert (i \<in> set (expectations (mockers s m)))) (\<lambda>_. ret i) s"

definition InSequence :: "nat \<Rightarrow> nat \<Rightarrow> (('a, 'b) mock_state, unit) cmd" where
  "InSequence i sq s =
     bnd (ExpectSpecProperty i (last_clause (exps s i) \<le> kInSequence)
            (''.InSequence() cannot appear after .After(), .WillOnce(), .WillRepeatedly(), or '' @ ''.RetiresOnSaturation().''))
       (\<lambda>_. bnd (upd_exp i (\<lambda>e. e\<lparr>last_clause := kInSequence\<rparr>))
       (\<lambda>_. bnd (GetHandleOf (owner (exps s i)) i) (\<lambda>h. AddExpectation sq h))) s"

text \<open>\<open>ps\<close> are the elements of the set of expectations, in its order.\<close>

definition After :: "nat \<Rightarrow> nat list \<Rightarrow> (('a, 'b) mock_state, unit) cmd" where
  "After i ps s =
     bnd (ExpectSpecProperty i (last_clause (exps s i) \<le> kAfter)
            ''.After() cannot appear after .WillOnce(), .WillRepeatedly(), or .RetiresOnSaturation().'')
       (\<lambda>_. upd_exp i (\<lambda>e. e\<lparr>last_clause := kAfter,
          immediate_prerequisites := fold (set_insert (address s)) ps (immediate_prerequisites e)\<rparr>)) s"

definition WillOnce :: "nat \<Rightarrow> 'b action \<Rightarrow> (('a, 'b) mock_state, unit) cmd" where
  "WillOnce i action s =
     bnd (ExpectSpecProperty i (last_clause (exps s i) \<le> kWillOnce)
            ''.WillOnce() cannot appear after .WillRepeatedly() or .RetiresOnSaturation().'')
       (\<lambda>_. upd_exp i (\<lambda>e.
          let actions = untyped_actions e @ [action]
          in e\<lparr>last_clause := kWillOnce, untyped_actions := actions,
               cardinality := (if cardinality_specified e then cardinality e
                               else fst (Exactly (int (length actions))))\<rparr>)) s"

definition WillRepeatedly :: "nat \<Rightarrow> 'b action \<Rightarrow> (('a, 'b) mock_state, unit) cmd" where
  "WillRepeatedly i action s =
     bnd (if last_clause (exps s i) = kWillRepeatedly
          then ExpectSpecProperty i False ''.WillRepeatedly() cannot appear more than once in an EXPECT_CALL().''
          else ExpectSpecProperty i (last_clause (exps s i) < kWillRepeatedly)
                 ''.WillRepeatedly() cannot appear after .RetiresOnSaturation().'')
       (\<lambda>_. bnd (upd_exp i (\<lambda>e. e\<lparr>last_clause := kWillRepeatedly, repeated_action_specified := True,
                 repeated_action := action,
                 cardinality := (if cardinality_specified e then cardinality e
                                 else fst (AtLeast (int (length (untyped_actions e)))))\<rparr>))
       (\<lambda>_. CheckActionCountIfNotDone i)) s"

definition RetiresOnSaturation :: "nat \<Rightarrow> (('a, 'b) mock_state, unit) cmd" where
  "RetiresOnSaturation i s =
     bnd (ExpectSpecProperty i (last_clause (exps s i) < kRetiresOnSaturation)
            ''.RetiresOnSaturation() cannot appear more than once.'')
       (\<lambda>_. bnd (upd_exp i (\<lambda>e. e\<lparr>last_clause := kRetiresOnSaturation, retires_on_saturation := True\<rparr>))
       (\<lambda>_. CheckActionCountIfNotDone i)) s"

subsection \<open>Clauses as values\<close>

text \<open>The clauses of a statement, which are run in their order.\<close>

datatype ('a, 'b) clause =
    With_clause "'a matcher"
  | Times_clause cardinality
  | InSequence_clause nat
  | After_clause "nat list"
  | WillOnce_clause "'b action"
  | WillRepeatedly_clause "'b action"
  | RetiresOnSaturation_clause

fun run_clause :: "nat \<Rightarrow> ('a, 'b) clause \<Rightarrow> (('a, 'b) mock_state, unit) cmd" where
  "run_clause i (With_clause m) = With i m"
| "run_clause i (Times_clause c) = Times i c"
| "run_clause i (InSequence_clause sq) = InSequence i sq"
| "run_clause i (After_clause ps) = After i ps"
| "run_clause i (WillOnce_clause a) = WillOnce i a"
| "run_clause i (WillRepeatedly_clause a) = WillRepeatedly i a"
| "run_clause i RetiresOnSaturation_clause = RetiresOnSaturation i"

fun run_clauses :: "nat \<Rightarrow> ('a, 'b) clause list \<Rightarrow> (('a, 'b) mock_state, unit) cmd" where
  "run_clauses i [] = ret ()"
| "run_clauses i (c # cs) = bnd (run_clause i c) (\<lambda>_. run_clauses i cs)"

section \<open>Function mockers (\<open>gmock-spec-builders.h\<close>, \<open>gmock-spec-builders.cc\<close>)\<close>

subsection \<open>Default actions\<close>

definition spec_matches :: "('a, 'b) on_call_spec \<Rightarrow> 'a \<Rightarrow> bool" where
  "spec_matches spec args \<longleftrightarrow> m_matches (spec_matchers spec) args \<and> m_matches (spec_extra_matcher spec) args"

text \<open>The last specification that matches.\<close>

definition FindOnCallSpec :: "('a, 'b) mocker \<Rightarrow> 'a \<Rightarrow> ('a, 'b) on_call_spec option" where
  "FindOnCallSpec m args = List.find (\<lambda>spec. spec_matches spec args) (rev (on_call_specs m))"

definition DescribeDefaultActionTo :: "('a, 'b) mocker \<Rightarrow> 'a \<Rightarrow> string" where
  "DescribeDefaultActionTo m args =
     (case FindOnCallSpec m args of
        None \<Rightarrow> (if returns_void m then ''returning directly.'' else ''returning default value.'') @ [LF]
      | Some spec \<Rightarrow> ''taking default action specified at:'' @ [LF] @ FormatFileLocation (spec_file spec) (spec_line spec) @ [LF])"

text \<open>The clauses of an \<open>ON_CALL\<close>, on the last specification of the mocker.\<close>

definition upd_mocker :: "nat \<Rightarrow> (('a, 'b) mocker \<Rightarrow> ('a, 'b) mocker) \<Rightarrow> (('a, 'b) mock_state, unit) cmd" where
  "upd_mocker m f = modify (\<lambda>s. s\<lparr>mockers := (mockers s)(m := f (mockers s m))\<rparr>)"

definition upd_spec :: "nat \<Rightarrow> nat \<Rightarrow> (('a, 'b) on_call_spec \<Rightarrow> ('a, 'b) on_call_spec) \<Rightarrow> (('a, 'b) mock_state, unit) cmd" where
  "upd_spec m k f = upd_mocker m (\<lambda>r. r\<lparr>on_call_specs := (on_call_specs r)[k := f (on_call_specs r ! k)]\<rparr>)"

definition spec_With :: "nat \<Rightarrow> nat \<Rightarrow> 'a matcher \<Rightarrow> (('a, 'b) mock_state, unit) cmd" where
  "spec_With m k mt s =
     (let spec = on_call_specs (mockers s m) ! k in
      bnd (Expect (spec_last_clause spec = oNone) (spec_file spec) (spec_line spec)
             ''.With() cannot appear more than once in an ON_CALL().'')
        (\<lambda>_. upd_spec m k (\<lambda>r. r\<lparr>spec_last_clause := oWith, spec_extra_matcher := mt\<rparr>)) s)"

definition IsDoDefault :: "'b action \<Rightarrow> bool" where
  "IsDoDefault a \<longleftrightarrow> (case a of DoDefault \<Rightarrow> True | Action b \<Rightarrow> False)"

definition WillByDefault :: "nat \<Rightarrow> nat \<Rightarrow> 'b action \<Rightarrow> (('a, 'b) mock_state, unit) cmd" where
  "WillByDefault m k action s =
     (let spec = on_call_specs (mockers s m) ! k in
      bnd (Expect (spec_last_clause spec \<noteq> oWillByDefault) (spec_file spec) (spec_line spec)
             ''.WillByDefault() must appear exactly once in an ON_CALL().'')
        (\<lambda>_. bnd (Expect (\<not> IsDoDefault action) (spec_file spec) (spec_line spec) ''DoDefault() cannot be used in ON_CALL().'')
        (\<lambda>_. upd_spec m k (\<lambda>r. r\<lparr>spec_last_clause := oWillByDefault, spec_action := action\<rparr>))) s)"

definition GetAction :: "('a, 'b) on_call_spec \<Rightarrow> (('a, 'b) mock_state, 'b action) cmd" where
  "GetAction spec = bnd (Assert (spec_last_clause spec = oWillByDefault)) (\<lambda>_. ret (spec_action spec))"

subsection \<open>The registry of mock objects\<close>

text \<open>
  The map from mock objects to their states is ordered by the addresses of the objects, and the
  mockers of an object by their own, which are the numbers that name them here.
\<close>

definition no_state :: mock_object_state where
  "no_state = \<lparr>first_used_file = None, first_used_line = - 1, first_used_test_suite = [], first_used_test = [],
     leakable = False, function_mockers = []\<rparr>"

fun upd_states :: "nat \<Rightarrow> (mock_object_state \<Rightarrow> mock_object_state) \<Rightarrow> (nat \<times> mock_object_state) list \<Rightarrow> (nat \<times> mock_object_state) list" where
  "upd_states ob f [] = [(ob, f no_state)]"
| "upd_states ob f ((p, st) # sts) =
     (if ob = p then (p, f st) # sts
      else if ob < p then (ob, f no_state) # (p, st) # sts
      else (p, st) # upd_states ob f sts)"

definition upd_object :: "nat \<Rightarrow> (mock_object_state \<Rightarrow> mock_object_state) \<Rightarrow> (('a, 'b) mock_state, unit) cmd" where
  "upd_object ob f = modify (\<lambda>s. s\<lparr>states := upd_states ob f (states s)\<rparr>)"

definition Mock_Register :: "nat \<Rightarrow> nat \<Rightarrow> (('a, 'b) mock_state, unit) cmd" where
  "Mock_Register ob m = upd_object ob (\<lambda>st. st\<lparr>function_mockers := set_insert id m (function_mockers st)\<rparr>)"

definition RegisterUseByOnCallOrExpectCall :: "nat \<Rightarrow> string option \<Rightarrow> int \<Rightarrow> (('a, 'b) mock_state, unit) cmd" where
  "RegisterUseByOnCallOrExpectCall ob f l s =
     upd_object ob (\<lambda>st.
       if first_used_file st = None
       then
         let st' = st\<lparr>first_used_file := f, first_used_line := l\<rparr>
         in (case current_test s of
               None \<Rightarrow> st'
             | Some (suite, test) \<Rightarrow> st'\<lparr>first_used_test_suite := suite, first_used_test := test\<rparr>)
       else st) s"

fun unregister :: "nat \<Rightarrow> (nat \<times> mock_object_state) list \<Rightarrow> (nat \<times> mock_object_state) list" where
  "unregister m [] = []"
| "unregister m ((ob, st) # sts) =
     (if m \<in> set (function_mockers st)
      then
        let ms = removeAll m (function_mockers st)
        in if ms = [] then sts else (ob, st\<lparr>function_mockers := ms\<rparr>) # sts
      else (ob, st) # unregister m sts)"

definition UnregisterLocked :: "nat \<Rightarrow> (('a, 'b) mock_state, unit) cmd" where
  "UnregisterLocked m = modify (\<lambda>s. s\<lparr>states := unregister m (states s)\<rparr>)"

definition AllowLeak :: "nat \<Rightarrow> (('a, 'b) mock_state, unit) cmd" where
  "AllowLeak ob = upd_object ob (\<lambda>st. st\<lparr>leakable := True\<rparr>)"

text \<open>The report of the registry's destructor about one object, and what it prints and whether it exits.\<close>

definition leak_report :: "(nat \<Rightarrow> string) \<Rightarrow> nat \<Rightarrow> mock_object_state \<Rightarrow> string" where
  "leak_report show_ptr ob st =
     [LF] @ FormatFileLocation (first_used_file st) (first_used_line st) @ '' ERROR: this mock object'' @
     (if first_used_test st = [] then []
      else '' (used in test '' @ first_used_test_suite st @ ''.'' @ first_used_test st @ '')'') @
     '' should be deleted but never is. Its address is @'' @ show_ptr ob @ ''.''"

definition MockObjectRegistry_dtor :: "(nat \<Rightarrow> string) \<Rightarrow> ('a, 'b) mock_state \<Rightarrow> string \<times> bool" where
  "MockObjectRegistry_dtor show_ptr s =
     (if \<not> catch_leaked_mocks s then ([], False)
      else
        let leaked = filter (\<lambda>(ob, st). \<not> leakable st) (states s);
            leaked_count = int (length leaked);
            report = concat (map (\<lambda>(ob, st). leak_report show_ptr ob st) leaked)
        in if 0 < leaked_count
           then (report @ [LF] @ ''ERROR: '' @ dec_int leaked_count @ '' leaked mock '' @
                 plural leaked_count ''object'' ''objects'' @
                 '' found at program exit. Expectations on a mock object are '' @
                 ''verified when the object is destructed. Leaking a mock '' @
                 ''means that its expectations aren'' @ [CHR 0x27] @ ''t verified, which is '' @
                 ''usually a test bug. If you really intend to leak a mock, '' @
                 ''you can suppress this error using '' @
                 ''testing::Mock::AllowLeak(mock_object), or you may use a '' @
                 ''fake or stub instead of a mock.'' @ [LF], True)
           else (report, False))"

subsection \<open>Owners, names and new expectations\<close>

definition RegisterOwner :: "nat \<Rightarrow> nat \<Rightarrow> (('a, 'b) mock_state, unit) cmd" where
  "RegisterOwner m ob = bnd (upd_mocker m (\<lambda>r. r\<lparr>mock_obj := Some ob\<rparr>)) (\<lambda>_. Mock_Register ob m)"

definition SetOwnerAndName :: "nat \<Rightarrow> nat \<Rightarrow> string \<Rightarrow> (('a, 'b) mock_state, unit) cmd" where
  "SetOwnerAndName m ob name = upd_mocker m (\<lambda>r. r\<lparr>mock_obj := Some ob, mocker_name := Some name\<rparr>)"

definition MockObject :: "nat \<Rightarrow> (('a, 'b) mock_state, nat) cmd" where
  "MockObject m s = (case mock_obj (mockers s m) of None \<Rightarrow> Inl Assert_fail | Some ob \<Rightarrow> Inr (ob, s))"

definition Name :: "nat \<Rightarrow> (('a, 'b) mock_state, string) cmd" where
  "Name m s = (case mocker_name (mockers s m) of None \<Rightarrow> Inl Assert_fail | Some n \<Rightarrow> Inr (n, s))"

definition AddNewOnCallSpec :: "nat \<Rightarrow> string option \<Rightarrow> int \<Rightarrow> 'a matcher \<Rightarrow> (('a, 'b) mock_state, nat) cmd" where
  "AddNewOnCallSpec m f l ms =
     bnd (MockObject m) (\<lambda>ob. bnd (RegisterUseByOnCallOrExpectCall ob f l) (\<lambda>_ s.
       Inr (length (on_call_specs (mockers s m)),
         s\<lparr>mockers := (mockers s)(m := (mockers s m)\<lparr>on_call_specs := on_call_specs (mockers s m) @
            [\<lparr>spec_file = f, spec_line = l, spec_last_clause = oNone, spec_matchers = ms,
              spec_extra_matcher = any_matcher, spec_action = DoDefault\<rparr>]\<rparr>)\<rparr>)))"

definition AddNewExpectation :: "nat \<Rightarrow> string option \<Rightarrow> int \<Rightarrow> string \<Rightarrow> 'a matcher \<Rightarrow> (('a, 'b) mock_state, nat) cmd" where
  "AddNewExpectation m f l text ms =
     bnd (MockObject m) (\<lambda>ob. bnd (RegisterUseByOnCallOrExpectCall ob f l) (\<lambda>_ s.
       let i = next_exp s;
           s' = s\<lparr>exps := (exps s)(i := new_expectation m f l text ms), next_exp := i + 1,
                  mockers := (mockers s)(m := (mockers s m)\<lparr>expectations := expectations (mockers s m) @ [i]\<rparr>)\<rparr>
       in bnd (case implicit_sequence s' of None \<Rightarrow> ret () | Some sq \<Rightarrow> AddExpectation sq i) (\<lambda>_. ret i) s'))"

definition InternalDefaultActionSetAt ::
  "nat \<Rightarrow> string option \<Rightarrow> int \<Rightarrow> string \<Rightarrow> string \<Rightarrow> 'a matcher \<Rightarrow> (('a, 'b) mock_state, nat) cmd" where
  "InternalDefaultActionSetAt m f l obj call ms =
     bnd (LogWithLocation kInfo f l (''ON_CALL('' @ obj @ '', '' @ call @ '') invoked''))
       (\<lambda>_. AddNewOnCallSpec m f l ms)"

definition InternalExpectedAt ::
  "nat \<Rightarrow> string option \<Rightarrow> int \<Rightarrow> string \<Rightarrow> string \<Rightarrow> 'a matcher \<Rightarrow> (('a, 'b) mock_state, nat) cmd" where
  "InternalExpectedAt m f l obj call ms =
     (let source_text = ''EXPECT_CALL('' @ obj @ '', '' @ call @ '')'' in
      bnd (LogWithLocation kInfo f l (source_text @ '' invoked'')) (\<lambda>_. AddNewExpectation m f l source_text ms))"

end
