(* ===== verification/Gm_Calls.thy ===== *)
theory Gm_Calls
  imports Gm_Mocker
begin

section \<open>Calls of mock functions and verification (\<open>gmock-spec-builders.h\<close>, \<open>gmock-spec-builders.cc\<close>)\<close>

text \<open>
  What a call needs from outside: how arguments and results are printed (no printer for a result that
  is \<open>void\<close> or cannot be moved), what actions do, which may call mock functions themselves, and the
  default value of the result type.  Calls are those of a build without exceptions, in which a missing
  default value aborts.
\<close>

record ('a, 'b, 'r) hooks =
  print_args :: "'a \<Rightarrow> string"
  print_result :: "('r \<Rightarrow> string) option"
  perform_action :: "'b \<Rightarrow> 'a \<Rightarrow> (('a, 'b) mock_state, 'r) cmd"
  default_value :: "'r option"

subsection \<open>Matching a call\<close>

definition Matches :: "('a, 'b) expectation \<Rightarrow> 'a \<Rightarrow> bool" where
  "Matches e args \<longleftrightarrow> m_matches (matchers e) args \<and> m_matches (extra_matcher e) args"

definition ShouldHandleArguments :: "nat \<Rightarrow> 'a \<Rightarrow> (('a, 'b) mock_state, bool) cmd" where
  "ShouldHandleArguments i args =
     bnd (CheckActionCountIfNotDone i) (\<lambda>_ s.
       if retired (exps s i) then Inr (False, s)
       else bnd (lift_res (AllPrerequisitesAreSatisfied (exps s) i)) (\<lambda>b. ret (b \<and> Matches (exps s i) args)) s)"

fun find_matching :: "nat list \<Rightarrow> 'a \<Rightarrow> (('a, 'b) mock_state, nat option) cmd" where
  "find_matching [] args = ret None"
| "find_matching (i # is) args =
     bnd (ShouldHandleArguments i args) (\<lambda>b. if b then ret (Some i) else find_matching is args)"

definition FindMatchingExpectationLocked :: "nat \<Rightarrow> 'a \<Rightarrow> (('a, 'b) mock_state, nat option) cmd" where
  "FindMatchingExpectationLocked m args s = find_matching (rev (expectations (mockers s m))) args s"

definition PrintIfNotEmpty :: "string \<Rightarrow> string" where
  "PrintIfNotEmpty explanation = (if explanation \<noteq> [] then '', '' @ explanation else [])"

text \<open>The lines about the unsatisfied pre-requisites, numbered from \<open>k\<close>.\<close>

fun list_prereqs :: "(nat \<Rightarrow> ('a, 'b) expectation) \<Rightarrow> nat \<Rightarrow> nat list \<Rightarrow> string" where
  "list_prereqs ex k [] = []"
| "list_prereqs ex k (p # ps) =
     DescribeLocationTo (ex p) @ ''pre-requisite #'' @ dec_int (int k) @ [LF] @ list_prereqs ex (k + 1) ps"

definition ExplainMatchResultTo :: "nat \<Rightarrow> 'a \<Rightarrow> ('a, 'b) mock_state \<Rightarrow> stop + string" where
  "ExplainMatchResultTo i args s =
     (let e = exps s i in
      if retired e
      then Inr (''         Expected: the expectation is active'' @ [LF] @ ''           Actual: it is retired'' @ [LF])
      else if \<not> Matches e args
      then Inr ((if \<not> m_matches (matchers e) args then m_explain (matchers e) args else []) @
                (if \<not> m_matches (extra_matcher e) args
                 then ''    Expected args: '' @ m_describe (extra_matcher e) @ [LF] @
                      ''           Actual: don'' @ [CHR 0x27] @ ''t match'' @
                      PrintIfNotEmpty (m_explain (extra_matcher e) args) @ [LF]
                 else []))
      else
        bindr (AllPrerequisitesAreSatisfied (exps s) i) (\<lambda>b.
          if \<not> b
          then
            bindr (FindUnsatisfiedPrerequisites (address s) (exps s) i) (\<lambda>ps.
              Inr (''         Expected: all pre-requisites are satisfied'' @ [LF] @
                   ''           Actual: the following immediate pre-requisites '' @ ''are not satisfied:'' @ [LF] @
                   list_prereqs (exps s) 0 ps @ ''                   (end of pre-requisites)'' @ [LF]))
          else Inr (''The call matches the expectation.'' @ [LF])))"

text \<open>The loop of \<open>PrintTriedExpectationsLocked\<close> at index \<open>k\<close> of \<open>count\<close>.\<close>

fun print_tried :: "nat \<Rightarrow> nat \<Rightarrow> nat list \<Rightarrow> 'a \<Rightarrow> ('a, 'b) mock_state \<Rightarrow> stop + string" where
  "print_tried count k [] args s = Inr []"
| "print_tried count k (i # is) args s =
     bindr (ExplainMatchResultTo i args s) (\<lambda>explanation.
     bindr (print_tried count (k + 1) is args s) (\<lambda>rest.
       Inr ([LF] @ DescribeLocationTo (exps s i) @
            (if 1 < count then ''tried expectation #'' @ dec_int (int k) @ '': '' else []) @
            source_text (exps s i) @ ''...'' @ [LF] @ explanation @ DescribeCallCountTo (exps s i) @ rest)))"

definition PrintTriedExpectationsLocked :: "nat \<Rightarrow> 'a \<Rightarrow> ('a, 'b) mock_state \<Rightarrow> stop + string" where
  "PrintTriedExpectationsLocked m args s =
     (let es = expectations (mockers s m); count = length es in
      bindr (print_tried count 0 es args s) (\<lambda>tried.
        Inr (''Google Mock tried the following '' @ dec_int (int count) @ '' '' @
             (if count = 1 then ''expectation, but it didn'' @ [CHR 0x27] @ ''t match''
              else ''expectations, but none matched'') @ '':'' @ [LF] @ tried)))"

definition FormatUnexpectedCallMessageLocked :: "nat \<Rightarrow> 'a \<Rightarrow> ('a, 'b) mock_state \<Rightarrow> stop + (string \<times> string)" where
  "FormatUnexpectedCallMessageLocked m args s =
     bindr (PrintTriedExpectationsLocked m args s) (\<lambda>why.
       Inr ([LF] @ ''Unexpected mock function call - '' @ DescribeDefaultActionTo (mockers s m) args, why))"

subsection \<open>Handling a call\<close>

definition actions_ran_out :: "('a, 'b) expectation \<Rightarrow> ('a, 'b) mocker \<Rightarrow> 'a \<Rightarrow> string" where
  "actions_ran_out e mk args =
     (let action_count = int (length (untyped_actions e)) in
      DescribeLocationTo e @ ''Actions ran out in '' @ source_text e @ ''...'' @ [LF] @
      ''Called '' @ dec_int (call_count e) @ '' times, but only '' @ dec_int action_count @ '' WillOnce()'' @
      plural action_count '' is'' ''s are'' @ '' specified - '' @ DescribeDefaultActionTo mk args)"

definition GetCurrentAction :: "nat \<Rightarrow> nat \<Rightarrow> 'a \<Rightarrow> (('a, 'b) mock_state, 'b action) cmd" where
  "GetCurrentAction i m args s =
     (let e = exps s i; count = call_count e; action_count = int (length (untyped_actions e)) in
      bnd (Assert (1 \<le> count)) (\<lambda>_.
      bnd (if 0 < action_count \<and> \<not> repeated_action_specified e \<and> action_count < count
           then log_message kWarning (actions_ran_out e (mockers s m) args) 1 else ret ())
        (\<lambda>_. ret (if count \<le> action_count then untyped_actions e ! nat (count - 1) else repeated_action e))) s)"

definition with_name :: "string \<Rightarrow> string" where
  "with_name d = (if d \<noteq> [] then [CHR 0x22] @ d @ [CHR 0x22] @ '' '' else [])"

text \<open>The action, which is \<open>None\<close> for a call too many, and the texts \<open>what\<close> and \<open>why\<close>.\<close>

definition GetActionForArguments ::
  "nat \<Rightarrow> nat \<Rightarrow> 'a \<Rightarrow> (('a, 'b) mock_state, 'b action option \<times> string \<times> string) cmd" where
  "GetActionForArguments i m args s =
     (if IsSaturated (exps s i)
      then
        bnd (IncrementCallCount i) (\<lambda>_ s.
          Inr ((None,
                ''Mock function '' @ with_name (description (exps s i)) @ ''called more times than expected - '' @
                  DescribeDefaultActionTo (mockers s m) args,
                DescribeCallCountTo (exps s i)), s)) s
      else
        bnd (IncrementCallCount i) (\<lambda>_.
        bnd (RetireAllPreRequisites i) (\<lambda>_.
        bnd (\<lambda>s. if retires_on_saturation (exps s i) \<and> IsSaturated (exps s i) then upd_exp i Retire s else Inr ((), s)) (\<lambda>_.
        bnd (GetCurrentAction i m args) (\<lambda>action s.
          Inr ((Some action,
                ''Mock function '' @ with_name (description (exps s i)) @ ''call matches '' @ source_text (exps s i) @
                  ''...'' @ [LF], []), s))))) s)"

record ('a, 'b) handling =
  handled_by :: "nat option"
  untyped_action :: "'b action option"
  is_excessive :: bool
  what :: string
  why :: string

definition UntypedFindMatchingExpectation :: "nat \<Rightarrow> 'a \<Rightarrow> (('a, 'b) mock_state, ('a, 'b) handling) cmd" where
  "UntypedFindMatchingExpectation m args =
     bnd (FindMatchingExpectationLocked m args) (\<lambda>exp s.
       case exp of
         None \<Rightarrow>
           bnd (lift_res (FormatUnexpectedCallMessageLocked m args s)) (\<lambda>(wt, wy).
             ret \<lparr>handled_by = None, untyped_action = None, is_excessive = False, what = wt, why = wy\<rparr>) s
       | Some i \<Rightarrow>
           (let excessive = IsSaturated (exps s i) in
            bnd (GetActionForArguments i m args) (\<lambda>(action, wt, wy).
              ret \<lparr>handled_by = Some i,
                   untyped_action = (case action of None \<Rightarrow> None | Some a \<Rightarrow> if IsDoDefault a then None else Some a),
                   is_excessive = excessive, what = wt, why = wy\<rparr>) s))"

subsection \<open>Uninteresting calls\<close>

definition intToCallReaction :: "int \<Rightarrow> CallReaction" where
  "intToCallReaction mock_behavior =
     (if mock_behavior = 0 then kAllow else if mock_behavior = 1 then kWarn else if mock_behavior = 2 then kFail else kWarn)"

definition GetReactionOnUninterestingCalls :: "nat \<Rightarrow> ('a, 'b) mock_state \<Rightarrow> CallReaction" where
  "GetReactionOnUninterestingCalls ob s =
     (case reactions s ob of None \<Rightarrow> intToCallReaction (default_mock_behavior s) | Some r \<Rightarrow> r)"

definition SetReactionOnUninterestingCalls :: "nat \<Rightarrow> CallReaction \<Rightarrow> (('a, 'b) mock_state, unit) cmd" where
  "SetReactionOnUninterestingCalls ob reaction = modify (\<lambda>s. s\<lparr>reactions := (reactions s)(ob := Some reaction)\<rparr>)"

definition AllowUninterestingCalls :: "nat \<Rightarrow> (('a, 'b) mock_state, unit) cmd" where
  "AllowUninterestingCalls ob = SetReactionOnUninterestingCalls ob kAllow"

definition WarnUninterestingCalls :: "nat \<Rightarrow> (('a, 'b) mock_state, unit) cmd" where
  "WarnUninterestingCalls ob = SetReactionOnUninterestingCalls ob kWarn"

definition FailUninterestingCalls :: "nat \<Rightarrow> (('a, 'b) mock_state, unit) cmd" where
  "FailUninterestingCalls ob = SetReactionOnUninterestingCalls ob kFail"

definition UnregisterCallReaction :: "nat \<Rightarrow> (('a, 'b) mock_state, unit) cmd" where
  "UnregisterCallReaction ob = modify (\<lambda>s. s\<lparr>reactions := (reactions s)(ob := None)\<rparr>)"

definition IsNaggy :: "nat \<Rightarrow> ('a, 'b) mock_state \<Rightarrow> bool" where
  "IsNaggy ob s \<longleftrightarrow> GetReactionOnUninterestingCalls ob s = kWarn"

definition IsNice :: "nat \<Rightarrow> ('a, 'b) mock_state \<Rightarrow> bool" where
  "IsNice ob s \<longleftrightarrow> GetReactionOnUninterestingCalls ob s = kAllow"

definition IsStrict :: "nat \<Rightarrow> ('a, 'b) mock_state \<Rightarrow> bool" where
  "IsStrict ob s \<longleftrightarrow> GetReactionOnUninterestingCalls ob s = kFail"

definition UntypedDescribeUninterestingCall ::
  "('a, 'b, 'r) hooks \<Rightarrow> nat \<Rightarrow> 'a \<Rightarrow> (('a, 'b) mock_state, string) cmd" where
  "UntypedDescribeUninterestingCall h m args =
     bnd (Name m) (\<lambda>name s.
       Inr (''Uninteresting mock function call - '' @ DescribeDefaultActionTo (mockers s m) args @
            ''    Function call: '' @ name @ print_args h args, s))"

definition ReportUninterestingCall :: "CallReaction \<Rightarrow> string \<Rightarrow> (('a, 'b) mock_state, unit) cmd" where
  "ReportUninterestingCall reaction msg s =
     (let stack_frames_to_skip = (if verbose s = kInfoVerbosity then 3 else - 1) in
      case reaction of
        kAllow \<Rightarrow> log_message kInfo msg stack_frames_to_skip s
      | kWarn \<Rightarrow>
          log_message kWarning
            (msg @ [LF] @ ''NOTE: You can safely ignore the above warning unless this '' @
             ''call should not happen.  Do not suppress it by blindly adding '' @
             ''an EXPECT_CALL() if you don'' @ [CHR 0x27] @ ''t mean to enforce the call.  See '' @
             ''https://github.com/google/googletest/blob/main/docs/gmock_cook_book.md#'' @
             ''knowing-when-to-expect-useoncall for details.'' @ [LF])
            stack_frames_to_skip s
      | kFail \<Rightarrow> Expect False None (- 1) msg s)"

subsection \<open>Performing a call\<close>

definition PerformDefaultAction :: "('a, 'b, 'r) hooks \<Rightarrow> nat \<Rightarrow> 'a \<Rightarrow> (('a, 'b) mock_state, 'r) cmd" where
  "PerformDefaultAction h m args s =
     (case FindOnCallSpec (mockers s m) args of
        Some spec \<Rightarrow>
          bnd (GetAction spec) (\<lambda>a. case a of DoDefault \<Rightarrow> halt Assert_fail | Action b \<Rightarrow> perform_action h b args) s
      | None \<Rightarrow> (case default_value h of None \<Rightarrow> Inl Assert_fail | Some v \<Rightarrow> Inr (v, s)))"

definition PerformAction :: "('a, 'b, 'r) hooks \<Rightarrow> nat \<Rightarrow> 'b action option \<Rightarrow> 'a \<Rightarrow> (('a, 'b) mock_state, 'r) cmd" where
  "PerformAction h m action args =
     (case action of
        None \<Rightarrow> PerformDefaultAction h m args
      | Some a \<Rightarrow> (case a of DoDefault \<Rightarrow> halt Assert_fail | Action b \<Rightarrow> perform_action h b args))"

text \<open>The result and what is added to the description of the call.\<close>

definition PerformActionAndPrintResult ::
  "('a, 'b, 'r) hooks \<Rightarrow> nat \<Rightarrow> 'b action option \<Rightarrow> 'a \<Rightarrow> (('a, 'b) mock_state, 'r \<times> string) cmd" where
  "PerformActionAndPrintResult h m action args =
     bnd (PerformAction h m action args) (\<lambda>r.
       ret (r, case print_result h of None \<Rightarrow> [] | Some p \<Rightarrow> [LF] @ ''          Returns: '' @ p r))"

definition InvokeWith :: "('a, 'b, 'r) hooks \<Rightarrow> nat \<Rightarrow> 'a \<Rightarrow> (('a, 'b) mock_state, 'r) cmd" where
  "InvokeWith h m args s =
     (if expectations (mockers s m) = []
      then
        bnd (MockObject m) (\<lambda>ob s.
          let reaction = GetReactionOnUninterestingCalls ob s;
              need_to_report_uninteresting_call =
                (case reaction of kAllow \<Rightarrow> LogIsVisible (verbose s) kInfo
                 | kWarn \<Rightarrow> LogIsVisible (verbose s) kWarning | kFail \<Rightarrow> True)
          in if \<not> need_to_report_uninteresting_call
             then bnd (Name m) (\<lambda>name. PerformDefaultAction h m args) s
             else
               bnd (UntypedDescribeUninterestingCall h m args) (\<lambda>ss.
               bnd (PerformActionAndPrintResult h m None args) (\<lambda>(r, printed).
               bnd (ReportUninterestingCall reaction (ss @ printed)) (\<lambda>_. ret r))) s) s
      else
        bnd (UntypedFindMatchingExpectation m args) (\<lambda>hd s.
          let found = (handled_by hd \<noteq> None);
              need_to_report_call = (\<not> found \<or> is_excessive hd \<or> LogIsVisible (verbose s) kInfo)
          in if \<not> need_to_report_call then PerformAction h m (untyped_action hd) args s
             else
               bnd (Name m) (\<lambda>name.
               let ss = what hd @ ''    Function call: '' @ name @ print_args h args;
                   loc = (case handled_by hd of None \<Rightarrow> []
                          | Some i \<Rightarrow> if is_excessive hd then [] else DescribeLocationTo (exps s i))
               in bnd (PerformActionAndPrintResult h m (untyped_action hd) args) (\<lambda>(r, printed).
                  let report = ss @ printed @ [LF] @ why hd
                  in bnd (case handled_by hd of
                            None \<Rightarrow> Expect False None (- 1) report
                          | Some i \<Rightarrow>
                              if is_excessive hd then Expect False (exp_file (exps s i)) (exp_line (exps s i)) report
                              else log_message kInfo (loc @ report) 2) (\<lambda>_. ret r))) s) s)"

subsection \<open>Verification\<close>

text \<open>One step of the loop over the expectations of a mocker.\<close>

definition verify_expectation :: "nat \<Rightarrow> bool \<Rightarrow> (('a, 'b) mock_state, bool) cmd" where
  "verify_expectation i expectations_met s =
     (let e = exps s i in
      if IsOverSaturated e then Inr (False, s)
      else if \<not> IsSatisfied e
      then bnd (Expect False (exp_file e) (exp_line e)
                  (''Actual function '' @ with_name (description e) @ ''call count doesn'' @ [CHR 0x27] @ ''t match '' @
                   source_text e @ ''...'' @ [LF] @ MaybeDescribeExtraMatcherTo e @ DescribeCallCountTo e))
             (\<lambda>_. ret False) s
      else Inr (expectations_met, s))"

fun verify_loop :: "nat list \<Rightarrow> bool \<Rightarrow> (('a, 'b) mock_state, bool) cmd" where
  "verify_loop [] expectations_met = ret expectations_met"
| "verify_loop (i # is) expectations_met = bnd (verify_expectation i expectations_met) (verify_loop is)"

definition VerifyAndClearExpectationsLocked :: "nat \<Rightarrow> (('a, 'b) mock_state, bool) cmd" where
  "VerifyAndClearExpectationsLocked m s =
     bnd (verify_loop (expectations (mockers s m)) True) (\<lambda>expectations_met.
       bnd (upd_mocker m (\<lambda>r. r\<lparr>expectations := []\<rparr>)) (\<lambda>_. ret expectations_met)) s"

definition ClearDefaultActionsLocked :: "nat \<Rightarrow> (('a, 'b) mock_state, unit) cmd" where
  "ClearDefaultActionsLocked m = upd_mocker m (\<lambda>r. r\<lparr>on_call_specs := []\<rparr>)"

definition FunctionMocker_dtor :: "nat \<Rightarrow> (('a, 'b) mock_state, unit) cmd" where
  "FunctionMocker_dtor m =
     bnd (VerifyAndClearExpectationsLocked m) (\<lambda>_. bnd (UnregisterLocked m) (\<lambda>_. ClearDefaultActionsLocked m))"

fun verify_mockers :: "nat list \<Rightarrow> bool \<Rightarrow> (('a, 'b) mock_state, bool) cmd" where
  "verify_mockers [] expectations_met = ret expectations_met"
| "verify_mockers (m # ms) expectations_met =
     bnd (VerifyAndClearExpectationsLocked m) (\<lambda>b. verify_mockers ms (if b then expectations_met else False))"

definition Mock_VerifyAndClearExpectationsLocked :: "nat \<Rightarrow> (('a, 'b) mock_state, bool) cmd" where
  "Mock_VerifyAndClearExpectationsLocked ob s =
     (case map_of (states s) ob of
        None \<Rightarrow> Inr (True, s)
      | Some st \<Rightarrow> verify_mockers (function_mockers st) True s)"

fun clear_mockers :: "nat list \<Rightarrow> (('a, 'b) mock_state, unit) cmd" where
  "clear_mockers [] = ret ()"
| "clear_mockers (m # ms) = bnd (ClearDefaultActionsLocked m) (\<lambda>_. clear_mockers ms)"

definition Mock_ClearDefaultActionsLocked :: "nat \<Rightarrow> (('a, 'b) mock_state, unit) cmd" where
  "Mock_ClearDefaultActionsLocked ob s =
     (case map_of (states s) ob of None \<Rightarrow> Inr ((), s) | Some st \<Rightarrow> clear_mockers (function_mockers st) s)"

definition VerifyAndClearExpectations :: "nat \<Rightarrow> (('a, 'b) mock_state, bool) cmd" where
  "VerifyAndClearExpectations ob = Mock_VerifyAndClearExpectationsLocked ob"

definition VerifyAndClear :: "nat \<Rightarrow> (('a, 'b) mock_state, bool) cmd" where
  "VerifyAndClear ob = bnd (Mock_ClearDefaultActionsLocked ob) (\<lambda>_. Mock_VerifyAndClearExpectationsLocked ob)"

end
