(* ===== verification/Gm_Walks.thy ===== *)
theory Gm_Walks
  imports Gm_Expect "HOL-Library.Multiset"
begin

section \<open>The walks over the pre-requisites end and are right\<close>

text \<open>
  The immediate pre-requisites of an expectation were created before it, so that \<open>before\<close> is
  well-founded; the walks take an element off a multiset and add smaller ones.
\<close>

subsection \<open>The order of the expectations\<close>

definition prereq_rel :: "(nat \<Rightarrow> ('a, 'b) expectation) \<Rightarrow> (nat \<times> nat) set" where
  "prereq_rel ex = {(p, i). p \<in> set (immediate_prerequisites (ex i))}"

text \<open>\<open>before ex p i\<close>: the expectation \<open>p\<close> is a direct or indirect pre-requisite of \<open>i\<close>.\<close>

definition before :: "(nat \<Rightarrow> ('a, 'b) expectation) \<Rightarrow> nat \<Rightarrow> nat \<Rightarrow> bool" where
  "before ex p i \<longleftrightarrow> (p, i) \<in> (prereq_rel ex)\<^sup>+"

definition ordered :: "(nat \<Rightarrow> ('a, 'b) expectation) \<Rightarrow> bool" where
  "ordered ex \<longleftrightarrow> (\<forall>i. \<forall>p \<in> set (immediate_prerequisites (ex i)). p < i)"

lemma before_step:
  "before ex q i \<longleftrightarrow> (\<exists>p \<in> set (immediate_prerequisites (ex i)). q = p \<or> before ex q p)"
  unfolding before_def by (subst trancl_unfold_right) (auto simp: prereq_rel_def rtrancl_eq_or_trancl)

lemma before_immediate: "p \<in> set (immediate_prerequisites (ex i)) \<Longrightarrow> before ex p i"
  using before_step by blast

lemma before_trans: "before ex p q \<Longrightarrow> before ex q r \<Longrightarrow> before ex p r"
  unfolding before_def by (rule trancl_trans)

lemma before_cong:
  "(\<And>i. immediate_prerequisites (ex' i) = immediate_prerequisites (ex i)) \<Longrightarrow> before ex' = before ex"
  by (intro ext) (simp add: before_def prereq_rel_def)

lemma before_less: "ordered ex \<Longrightarrow> before ex p i \<Longrightarrow> p < i"
proof -
  assume o: "ordered ex" and "before ex p i"
  then have "(p, i) \<in> (prereq_rel ex)\<^sup>+" by (simp add: before_def)
  then show "p < i"
    by (induction rule: trancl_induct) (use o in \<open>auto simp: ordered_def prereq_rel_def dest: less_trans\<close>)
qed

lemma walk_induct [case_names step]:
  assumes "\<And>ws. (\<And>ws'. (mset ws', mset ws) \<in> mult less_than \<Longrightarrow> P ws') \<Longrightarrow> P ws"
  shows "P (ws :: nat list)"
  using wf_inv_image [OF wf_mult [OF wf_less_than], of mset]
  by (induction ws rule: wf_induct_rule) (auto intro: assms simp: inv_image_def)

lemma walk_less:
  assumes "ws \<noteq> []" "\<forall>q \<in> set qs. q < last ws"
  shows "(mset (butlast ws @ qs), mset ws) \<in> mult less_than"
proof -
  have "mset ws = mset (butlast ws) + {#last ws#}"
    using assms(1) by (metis append_butlast_last_id mset.simps(1) mset_append mset_single_iff_right)
  then show ?thesis
    using one_step_implies_mult [of "{#last ws#}" "mset qs" less_than "mset (butlast ws)"] assms(2) by simp
qed

lemma walk_cases: "ws \<noteq> [] \<Longrightarrow> (\<exists>i \<in> set ws. Q i) \<longleftrightarrow> (\<exists>i \<in> set (butlast ws). Q i) \<or> Q (last ws)"
proof -
  assume "ws \<noteq> []"
  then have "set ws = set (butlast ws) \<union> {last ws}"
    by (metis append_butlast_last_id set_append list.set(1) list.simps(15))
  then show ?thesis by auto
qed

subsection \<open>All pre-requisites are satisfied\<close>

lemma satisfied_loop_iff:
  assumes "ordered ex"
  shows "satisfied_loop ex ws = Some (\<forall>i \<in> set ws. \<forall>p. before ex p i \<longrightarrow> IsSatisfied (ex p))"
proof (induction ws rule: walk_induct)
  case (step ws)
  show ?case
  proof (cases "ws = []")
    case True
    then show ?thesis by (subst satisfied_loop.simps) simp
  next
    case False
    let ?ps = "immediate_prerequisites (ex (last ws))"
    have split: "(\<forall>i \<in> set ws. \<forall>p. before ex p i \<longrightarrow> IsSatisfied (ex p)) \<longleftrightarrow>
      (\<forall>i \<in> set (butlast ws). \<forall>p. before ex p i \<longrightarrow> IsSatisfied (ex p)) \<and>
      (\<forall>p \<in> set ?ps. IsSatisfied (ex p)) \<and> (\<forall>i \<in> set ?ps. \<forall>p. before ex p i \<longrightarrow> IsSatisfied (ex p))"
      using walk_cases [OF False, of "\<lambda>i. \<exists>p. before ex p i \<and> \<not> IsSatisfied (ex p)"] before_step [of ex _ "last ws"] by blast
    have IH: "satisfied_loop ex (butlast ws @ ?ps) =
      Some (\<forall>i \<in> set (butlast ws @ ?ps). \<forall>p. before ex p i \<longrightarrow> IsSatisfied (ex p))"
      using step.IH walk_less [OF False, of ?ps] assms by (simp add: ordered_def)
    show ?thesis
      using False IH unfolding split by (subst satisfied_loop.simps) (auto simp: Let_def list_all_iff)
  qed
qed

lemma AllPrerequisitesAreSatisfied_iff:
  "ordered ex \<Longrightarrow> AllPrerequisitesAreSatisfied ex i = Inr (\<forall>p. before ex p i \<longrightarrow> IsSatisfied (ex p))"
  by (simp add: AllPrerequisitesAreSatisfied_def satisfied_loop_iff)

subsection \<open>All pre-requisites are retired\<close>

lemma Retire_retired: "retired e \<Longrightarrow> Retire e = e"
  by (simp add: Retire_def)

lemma Retire_simps [simp]:
  "retired (Retire e)" "immediate_prerequisites (Retire e) = immediate_prerequisites e"
  "IsSatisfied (Retire e) = IsSatisfied e" "IsSaturated (Retire e) = IsSaturated e"
  by (simp_all add: Retire_def IsSatisfied_def IsSaturated_def)

lemma retire_step_eq:
  "retire_step p (ex, ws) = (if retired (ex p) then (ex, ws) else (ex(p := Retire (ex p)), ws @ [p]))"
  by (simp add: retire_step_def)

lemma fold_retire_step:
  "\<exists>qs. fold retire_step ps (ex, ws) = (\<lambda>j. if j \<in> set ps then Retire (ex j) else ex j, ws @ qs) \<and>
     set qs = {p \<in> set ps. \<not> retired (ex p)}"
proof (induction ps arbitrary: ex ws)
  case (Cons p ps)
  show ?case
  proof (cases "retired (ex p)")
    case True
    then have "(\<lambda>j. if j \<in> set ps then Retire (ex j) else ex j) = (\<lambda>j. if j \<in> set (p # ps) then Retire (ex j) else ex j)"
      by (auto simp: Retire_retired)
    with True Cons.IH [of ex ws] show ?thesis by (auto simp: retire_step_eq)
  next
    case False
    obtain qs where qs: "fold retire_step ps (ex(p := Retire (ex p)), ws @ [p]) =
        (\<lambda>j. if j \<in> set ps then Retire ((ex(p := Retire (ex p))) j) else (ex(p := Retire (ex p))) j, (ws @ [p]) @ qs)"
      "set qs = {q \<in> set ps. \<not> retired ((ex(p := Retire (ex p))) q)}"
      using Cons.IH by blast
    have "(\<lambda>j. if j \<in> set ps then Retire ((ex(p := Retire (ex p))) j) else (ex(p := Retire (ex p))) j) =
      (\<lambda>j. if j \<in> set (p # ps) then Retire (ex j) else ex j)"
      by (auto simp: Retire_retired)
    with False qs show ?thesis by (intro exI [of _ "p # qs"]) (auto simp: retire_step_eq)
  qed
qed simp

definition retired_closed :: "(nat \<Rightarrow> ('a, 'b) expectation) \<Rightarrow> nat list \<Rightarrow> bool" where
  "retired_closed ex ws \<longleftrightarrow>
     (\<forall>i. retired (ex i) \<longrightarrow> i \<notin> set ws \<longrightarrow> (\<forall>p \<in> set (immediate_prerequisites (ex i)). retired (ex p)))"

lemma retired_closed_before:
  assumes "retired_closed ex ws" "retired (ex i)" "before ex p i"
  shows "retired (ex p) \<or> (\<exists>j \<in> set ws. before ex p j)"
proof -
  have "(p, i) \<in> (prereq_rel ex)\<^sup>+" using assms(3) by (simp add: before_def)
  then show ?thesis
  proof (induction rule: converse_trancl_induct)
    case (base y)
    then have "y \<in> set (immediate_prerequisites (ex i))" by (simp add: prereq_rel_def)
    then have "before ex y i" by (rule before_immediate)
    moreover have "i \<in> set ws \<or> retired (ex y)"
      using assms(1,2) \<open>y \<in> set (immediate_prerequisites (ex i))\<close> unfolding retired_closed_def by blast
    ultimately show ?case by blast
  next
    case (step y z)
    then have y: "y \<in> set (immediate_prerequisites (ex z))" by (simp add: prereq_rel_def)
    from step.IH show ?case
    proof
      assume "retired (ex z)"
      then have "z \<in> set ws \<or> retired (ex y)" using assms(1) y unfolding retired_closed_def by blast
      moreover have "before ex y z" using y by (rule before_immediate)
      ultimately show ?thesis by blast
    next
      assume "\<exists>j \<in> set ws. before ex z j"
      with before_trans before_immediate [of y ex z, OF y] show ?thesis by blast
    qed
  qed
qed

lemma retire_loop_eq:
  assumes "ordered ex" "retired_closed ex ws"
  shows "retire_loop ex ws = Some (\<lambda>j. if \<exists>i \<in> set ws. before ex j i then Retire (ex j) else ex j)"
  using assms
proof (induction ws arbitrary: ex rule: walk_induct)
  case (step ws)
  show ?case
  proof (cases "ws = []")
    case True
    then show ?thesis by (subst retire_loop.simps) simp
  next
    case False
    let ?i = "last ws"
    let ?ps = "immediate_prerequisites (ex ?i)"
    define ex' where "ex' = (\<lambda>j. if j \<in> set ?ps then Retire (ex j) else ex j)"
    obtain qs where qs: "fold retire_step ?ps (ex, butlast ws) = (ex', butlast ws @ qs)"
      "set qs = {p \<in> set ?ps. \<not> retired (ex p)}"
      unfolding ex'_def using fold_retire_step by blast
    have pre: "immediate_prerequisites (ex' j) = immediate_prerequisites (ex j)" for j by (simp add: ex'_def)
    have bef: "before ex' = before ex" by (rule before_cong) (rule pre)
    have ord: "ordered ex'" using step.prems(1) by (simp add: ordered_def pre)
    have ws: "set ws = insert ?i (set (butlast ws))"
      using False by (metis append_butlast_last_id list.simps(15) rotate1.simps(2) set_rotate1)
    have cl: "retired_closed ex' (butlast ws @ qs)"
      unfolding retired_closed_def
    proof (intro allI impI ballI)
      fix j p
      assume j: "retired (ex' j)" "j \<notin> set (butlast ws @ qs)" "p \<in> set (immediate_prerequisites (ex' j))"
      show "retired (ex' p)"
      proof (cases "j = ?i")
        case True
        with j(3) show ?thesis unfolding pre by (simp add: ex'_def)
      next
        case neq: False
        have "retired (ex j)" using j(1,2) qs(2) by (auto simp: ex'_def split: if_splits)
        moreover have "j \<notin> set ws" using neq j(2) ws by auto
        ultimately have "retired (ex p)" using step.prems(2) j(3) unfolding pre retired_closed_def by blast
        then show ?thesis by (simp add: ex'_def)
      qed
    qed
    have "(mset (butlast ws @ qs), mset ws) \<in> mult less_than"
      using False step.prems(1) qs(2) by (intro walk_less) (auto simp: ordered_def)
    from step.IH [OF this ord cl]
    have "retire_loop ex ws = Some (\<lambda>j. if \<exists>i \<in> set (butlast ws @ qs). before ex j i then Retire (ex' j) else ex' j)"
      using False qs(1) by (subst retire_loop.simps) (simp add: bef)
    also have "(\<lambda>j. if \<exists>i \<in> set (butlast ws @ qs). before ex j i then Retire (ex' j) else ex' j) =
      (\<lambda>j. if \<exists>i \<in> set ws. before ex j i then Retire (ex j) else ex j)"
    proof
      fix j
      consider (direct) "j \<in> set ?ps" | (indirect) p where "p \<in> set ?ps" "before ex j p" "j \<notin> set ?ps"
        | (none) "\<not> before ex j ?i" "j \<notin> set ?ps" using before_step [of ex j ?i] by blast
      then show "(if \<exists>i \<in> set (butlast ws @ qs). before ex j i then Retire (ex' j) else ex' j) =
        (if \<exists>i \<in> set ws. before ex j i then Retire (ex j) else ex j)"
      proof cases
        case direct
        then have "before ex j ?i" by (rule before_immediate)
        with direct ws show ?thesis by (auto simp: ex'_def Retire_retired)
      next
        case indirect
        then have "before ex j ?i" using before_step by blast
        moreover have "(\<exists>i \<in> set (butlast ws @ qs). before ex j i) \<or> retired (ex j)"
        proof (cases "retired (ex p)")
          case True
          have "retired (ex' j) \<or> (\<exists>i \<in> set (butlast ws @ qs). before ex' j i)"
            using True indirect(1,2) by (intro retired_closed_before [OF cl, of p]) (simp_all add: bef, simp add: ex'_def)
          with indirect(3) bef show ?thesis by (auto simp: ex'_def)
        next
          case False
          with indirect qs(2) show ?thesis by auto
        qed
        ultimately show ?thesis using indirect(3) ws by (auto simp: ex'_def Retire_retired)
      next
        case none
        have "(\<exists>i \<in> set qs. before ex j i) \<Longrightarrow> before ex j ?i" using qs(2) before_step [of ex j ?i] by blast
        with none ws show ?thesis by (auto simp: ex'_def)
      qed
    qed
    finally show ?thesis .
  qed
qed

text \<open>From a closed state, exactly the pre-requisites of \<open>i\<close> retire, and nothing else changes.\<close>

lemma RetireAllPreRequisites_eq:
  assumes "ordered (exps s)" "retired_closed (exps s) []"
  shows "RetireAllPreRequisites i s =
    Inr ((), s\<lparr>exps := (\<lambda>j. if before (exps s) j i then Retire (exps s j) else exps s j)\<rparr>)"
proof (cases "retired (exps s i)")
  case True
  have "before (exps s) j i \<Longrightarrow> retired (exps s j)" for j
    using retired_closed_before [OF assms(2) True, of j] by simp
  then have "(\<lambda>j. if before (exps s) j i then Retire (exps s j) else exps s j) = exps s"
    by (auto simp: Retire_retired)
  with True show ?thesis by (simp add: RetireAllPreRequisites_def)
next
  case False
  have "retired_closed (exps s) [i]" using assms(2) by (simp add: retired_closed_def)
  from retire_loop_eq [OF assms(1) this] False show ?thesis by (simp add: RetireAllPreRequisites_def)
qed

subsection \<open>The unsatisfied pre-requisites\<close>

text \<open>An expectation that is satisfied by at least one call has satisfied pre-requisites only.\<close>

definition called_ok :: "(nat \<Rightarrow> ('a, 'b) expectation) \<Rightarrow> bool" where
  "called_ok ex \<longleftrightarrow>
     (\<forall>i p. IsSatisfied (ex i) \<longrightarrow> call_count (ex i) \<noteq> 0 \<longrightarrow> before ex p i \<longrightarrow> IsSatisfied (ex p))"

lemma set_set_insert [simp]: "set (set_insert addr e es) = insert e (set es)"
  by (auto simp: set_insert_def set_insort_key)

lemma unsatisfied_step_eq:
  "unsatisfied_step addr ex p (result, ws) =
     (if IsSatisfied (ex p) then (result, if call_count (ex p) = 0 then ws @ [p] else ws)
      else (set_insert addr p result, ws))"
  by (simp add: unsatisfied_step_def)

lemma fold_unsatisfied_step:
  "\<exists>r qs. fold (unsatisfied_step addr ex) ps (result, ws) = (r, ws @ qs) \<and>
     set r = set result \<union> {p \<in> set ps. \<not> IsSatisfied (ex p)} \<and>
     set qs = {p \<in> set ps. IsSatisfied (ex p) \<and> call_count (ex p) = 0}"
proof (induction ps arbitrary: result ws)
  case (Cons p ps)
  show ?case
  proof (cases "IsSatisfied (ex p)")
    case True
    show ?thesis
    proof (cases "call_count (ex p) = 0")
      case c: True
      obtain r qs where "fold (unsatisfied_step addr ex) ps (result, ws @ [p]) = (r, (ws @ [p]) @ qs)"
        "set r = set result \<union> {p \<in> set ps. \<not> IsSatisfied (ex p)}"
        "set qs = {p \<in> set ps. IsSatisfied (ex p) \<and> call_count (ex p) = 0}" using Cons.IH by blast
      then have "fold (unsatisfied_step addr ex) (p # ps) (result, ws) = (r, ws @ p # qs) \<and>
        set r = set result \<union> {q \<in> set (p # ps). \<not> IsSatisfied (ex q)} \<and>
        set (p # qs) = {q \<in> set (p # ps). IsSatisfied (ex q) \<and> call_count (ex q) = 0}"
        using True c by (auto simp: unsatisfied_step_eq)
      then show ?thesis by blast
    next
      case c: False
      with True Cons.IH [of result ws] show ?thesis by (auto simp: unsatisfied_step_eq)
    qed
  next
    case False
    with Cons.IH [of "set_insert addr p result" ws] show ?thesis by (auto simp: unsatisfied_step_eq)
  qed
qed simp

lemma unsatisfied_loop_eq:
  assumes "ordered ex" "called_ok ex"
  shows "\<exists>r. unsatisfied_loop addr ex result ws = Some r \<and> set result \<subseteq> set r \<and>
    (\<forall>p \<in> set r - set result. \<not> IsSatisfied (ex p) \<and> (\<exists>i \<in> set ws. before ex p i)) \<and>
    (set r = {} \<longrightarrow> (\<forall>i \<in> set ws. \<forall>p. before ex p i \<longrightarrow> IsSatisfied (ex p)))"
proof (induction ws arbitrary: result rule: walk_induct)
  case (step ws)
  show ?case
  proof (cases "ws = []")
    case True
    then show ?thesis by (subst unsatisfied_loop.simps) simp
  next
    case False
    let ?i = "last ws"
    let ?ps = "immediate_prerequisites (ex ?i)"
    obtain r1 qs where f: "fold (unsatisfied_step addr ex) ?ps (result, butlast ws) = (r1, butlast ws @ qs)"
      "set r1 = set result \<union> {p \<in> set ?ps. \<not> IsSatisfied (ex p)}"
      "set qs = {p \<in> set ?ps. IsSatisfied (ex p) \<and> call_count (ex p) = 0}"
      using fold_unsatisfied_step by blast
    have ws: "set ws = insert ?i (set (butlast ws))"
      using False by (metis append_butlast_last_id list.simps(15) rotate1.simps(2) set_rotate1)
    have "(mset (butlast ws @ qs), mset ws) \<in> mult less_than"
      using False assms(1) f(3) by (intro walk_less) (auto simp: ordered_def)
    from step.IH [OF this, of r1] obtain r where r: "unsatisfied_loop addr ex r1 (butlast ws @ qs) = Some r"
      "set r1 \<subseteq> set r" "\<forall>p \<in> set r - set r1. \<not> IsSatisfied (ex p) \<and> (\<exists>i \<in> set (butlast ws @ qs). before ex p i)"
      "set r = {} \<longrightarrow> (\<forall>i \<in> set (butlast ws @ qs). \<forall>p. before ex p i \<longrightarrow> IsSatisfied (ex p))" by blast
    have "unsatisfied_loop addr ex result ws = Some r"
      using False f(1) r(1) by (subst unsatisfied_loop.simps) simp
    moreover have "set result \<subseteq> set r" using f(2) r(2) by blast
    moreover have "\<not> IsSatisfied (ex p) \<and> (\<exists>i \<in> set ws. before ex p i)" if p: "p \<in> set r - set result" for p
    proof (cases "p \<in> set r1")
      case True
      with p f(2) before_immediate [of p ex ?i] ws show ?thesis by auto
    next
      case False
      with p r(3) obtain i where "\<not> IsSatisfied (ex p)" "i \<in> set (butlast ws @ qs)" "before ex p i" by blast
      moreover from this(2) have "i \<in> set (butlast ws) \<or> before ex i ?i"
        using f(3) before_immediate [of i ex ?i] by auto
      ultimately show ?thesis using before_trans [of ex p i ?i] ws by auto
    qed
    moreover have "\<forall>i \<in> set ws. \<forall>p. before ex p i \<longrightarrow> IsSatisfied (ex p)" if e: "set r = {}"
    proof (intro ballI allI impI)
      fix i p
      assume i: "i \<in> set ws" "before ex p i"
      have sat: "IsSatisfied (ex q)" if "q \<in> set ?ps" for q using e r(2) f(2) that by auto
      show "IsSatisfied (ex p)"
      proof (cases "i \<in> set (butlast ws)")
        case True
        with e r(4) i(2) show ?thesis by auto
      next
        case False
        then have "i = ?i" using i(1) ws by simp
        with i(2) obtain q where q: "q \<in> set ?ps" "p = q \<or> before ex p q" using before_step by blast
        show ?thesis
        proof (cases "p = q")
          case True
          with sat q(1) show ?thesis by simp
        next
          case neq: False
          then have bq: "before ex p q" using q(2) by blast
          show ?thesis
          proof (cases "call_count (ex q) = 0")
            case True
            then have "q \<in> set qs" using f(3) q(1) sat by simp
            with e r(4) bq show ?thesis by auto
          next
            case False
            with assms(2) sat [OF q(1)] bq show ?thesis unfolding called_ok_def by blast
          qed
        qed
      qed
    qed
    ultimately show ?thesis by blast
  qed
qed

lemma FindUnsatisfiedPrerequisites_eq:
  assumes "ordered ex" "called_ok ex"
  shows "\<exists>r. FindUnsatisfiedPrerequisites addr ex i = Inr r \<and>
    (\<forall>p \<in> set r. before ex p i \<and> \<not> IsSatisfied (ex p)) \<and>
    (r = [] \<longleftrightarrow> (\<forall>p. before ex p i \<longrightarrow> IsSatisfied (ex p)))"
proof -
  obtain r where r: "unsatisfied_loop addr ex [] [i] = Some r"
    "\<forall>p \<in> set r. \<not> IsSatisfied (ex p) \<and> before ex p i" "set r = {} \<longrightarrow> (\<forall>p. before ex p i \<longrightarrow> IsSatisfied (ex p))"
    using unsatisfied_loop_eq [OF assms, of addr "[]" "[i]"] by auto
  moreover have "r = [] \<longleftrightarrow> (\<forall>p. before ex p i \<longrightarrow> IsSatisfied (ex p))"
  proof
    assume "r = []"
    with r(3) show "\<forall>p. before ex p i \<longrightarrow> IsSatisfied (ex p)" by simp
  next
    assume a: "\<forall>p. before ex p i \<longrightarrow> IsSatisfied (ex p)"
    show "r = []" using r(2) a by (cases r) auto
  qed
  ultimately show ?thesis by (auto simp: FindUnsatisfiedPrerequisites_def)
qed

end
