(* ===== verification/Gm_Mock_Spec.thy ===== *)
theory Gm_Mock_Spec
  imports Gm_Calls Gm_Walks
begin

section \<open>What holds in every reachable state of the mock library\<close>

subsection \<open>Reports leave the expectations alone\<close>

text \<open>\<open>noted s s'\<close>: at most events were added and action counts checked.\<close>

definition noted :: "('a, 'b) mock_state \<Rightarrow> ('a, 'b) mock_state \<Rightarrow> bool" where
  "noted s s' \<longleftrightarrow>
     (\<exists>cs ev. s' = s\<lparr>exps := (\<lambda>i. (exps s i)\<lparr>action_count_checked := cs i\<rparr>), events := ev\<rparr>)"

lemma same_checked: "(\<lambda>i. (ex i)\<lparr>action_count_checked := action_count_checked (ex i)\<rparr>) = ex"
  by (rule ext) simp

lemma noted_refl [simp]: "noted s s"
  unfolding noted_def by (rule exI [of _ "\<lambda>i. action_count_checked (exps s i)"], rule exI [of _ "events s"]) (simp add: same_checked)

lemma noted_trans: "noted s t \<Longrightarrow> noted t u \<Longrightarrow> noted s u"
proof -
  assume "noted s t" "noted t u"
  then obtain cs ev cs' ev' where t: "t = s\<lparr>exps := (\<lambda>i. (exps s i)\<lparr>action_count_checked := cs i\<rparr>), events := ev\<rparr>"
    and u: "u = t\<lparr>exps := (\<lambda>i. (exps t i)\<lparr>action_count_checked := cs' i\<rparr>), events := ev'\<rparr>"
    unfolding noted_def by blast
  have "u = s\<lparr>exps := (\<lambda>i. (exps s i)\<lparr>action_count_checked := cs' i\<rparr>), events := ev'\<rparr>" unfolding u t by simp
  then show "noted s u" unfolding noted_def by blast
qed

lemma noted_events: "noted s (s\<lparr>events := ev\<rparr>)"
  unfolding noted_def by (rule exI [of _ "\<lambda>i. action_count_checked (exps s i)"], rule exI [of _ ev]) (simp add: same_checked)

lemma noted_checked: "noted s (s\<lparr>exps := (exps s)(i := (exps s i)\<lparr>action_count_checked := b\<rparr>)\<rparr>)"
  unfolding noted_def
  by (rule exI [of _ "\<lambda>j. if j = i then b else action_count_checked (exps s j)"], rule exI [of _ "events s"])
    (auto intro!: arg_cong [where f = "\<lambda>ex. s\<lparr>exps := ex\<rparr>"])

named_theorems noted_simps \<open>what a report keeps\<close>

lemma noted_exps [noted_simps]:
  assumes "noted s s'"
  shows "cardinality (exps s' i) = cardinality (exps s i)" "immediate_prerequisites (exps s' i) = immediate_prerequisites (exps s i)"
    "call_count (exps s' i) = call_count (exps s i)" "retired (exps s' i) = retired (exps s i)"
    "owner (exps s' i) = owner (exps s i)" "Matches (exps s' i) = Matches (exps s i)"
    "retires_on_saturation (exps s' i) = retires_on_saturation (exps s i)"
    "untyped_actions (exps s' i) = untyped_actions (exps s i)" "repeated_action (exps s' i) = repeated_action (exps s i)"
    "IsSatisfied (exps s' i) = IsSatisfied (exps s i)" "IsSaturated (exps s' i) = IsSaturated (exps s i)"
  using assms by (auto simp: noted_def Matches_def IsSatisfied_def IsSaturated_def fun_eq_iff)

lemma noted_rest [noted_simps]:
  assumes "noted s s'"
  shows "next_exp s' = next_exp s" "mockers s' = mockers s" "last_expectation s' = last_expectation s" "address s' = address s"
    "implicit_sequence s' = implicit_sequence s" "next_sequence s' = next_sequence s" "verbose s' = verbose s"
  using assms by (auto simp: noted_def)

lemma noted_before [noted_simps]: "noted s s' \<Longrightarrow> before (exps s') = before (exps s)"
  by (rule before_cong) (simp add: noted_simps)

lemma emit_noted: "\<exists>s'. emit e s = Inr ((), s') \<and> noted s s'"
  by (simp add: emit_def modify_def noted_events)

lemma Expect_noted: "\<exists>s'. Expect b f l msg s = Inr ((), s') \<and> noted s s'"
  by (cases b) (simp_all add: Expect_def ret_def emit_noted)

lemma log_message_noted: "\<exists>s'. log_message sev msg k s = Inr ((), s') \<and> noted s s'"
  by (cases "Log (stack_trace s) (ndebug s) (verbose s) sev msg k = []") (simp_all add: log_message_def Let_def emit_noted)

lemma ExpectSpecProperty_noted: "\<exists>s'. ExpectSpecProperty i b msg s = Inr ((), s') \<and> noted s s'"
  by (simp add: ExpectSpecProperty_def Expect_noted)

lemma LogWithLocation_noted: "\<exists>s'. LogWithLocation sev f l msg s = Inr ((), s') \<and> noted s s'"
  by (simp add: LogWithLocation_def log_message_noted)

lemma CheckActionCountIfNotDone_noted: "\<exists>s'. CheckActionCountIfNotDone i s = Inr ((), s') \<and> noted s s'"
proof (cases "action_count_checked (exps s i)")
  case False
  let ?s = "s\<lparr>exps := (exps s)(i := (exps s i)\<lparr>action_count_checked := True\<rparr>)\<rparr>"
  have "\<exists>s'. log_message kWarning msg (- 1) ?s = Inr ((), s') \<and> noted s s'" for msg
    using log_message_noted [of kWarning msg "- 1" ?s] noted_trans [OF noted_checked] by blast
  moreover have "noted s ?s" by (rule noted_checked)
  ultimately show ?thesis
    using False by (auto simp: CheckActionCountIfNotDone_def upd_exp_def modify_def ret_def bnd_def Let_def)
qed (simp add: CheckActionCountIfNotDone_def)

subsection \<open>Finding the expectation for a call\<close>

text \<open>The expectations that a call may be handled by.\<close>

definition handles :: "(nat \<Rightarrow> ('a, 'b) expectation) \<Rightarrow> 'a \<Rightarrow> nat \<Rightarrow> bool" where
  "handles ex args i \<longleftrightarrow> \<not> retired (ex i) \<and> (\<forall>p. before ex p i \<longrightarrow> IsSatisfied (ex p)) \<and> Matches (ex i) args"

lemma noted_handles [noted_simps]: "noted s s' \<Longrightarrow> handles (exps s') args = handles (exps s) args"
  by (rule ext) (simp add: handles_def noted_simps)

lemma noted_ordered [noted_simps]: "noted s s' \<Longrightarrow> ordered (exps s') = ordered (exps s)"
  by (simp add: ordered_def noted_simps)

lemma ShouldHandleArguments_eq:
  assumes "ordered (exps s)"
  shows "\<exists>s'. ShouldHandleArguments i args s = Inr (handles (exps s) args i, s') \<and> noted s s'"
proof -
  obtain s' where s': "CheckActionCountIfNotDone i s = Inr ((), s')" "noted s s'"
    using CheckActionCountIfNotDone_noted by blast
  have "ordered (exps s')" using assms s'(2) by (simp add: noted_simps)
  from AllPrerequisitesAreSatisfied_iff [OF this, of i] s' show ?thesis
    by (auto simp: ShouldHandleArguments_def handles_def cmd_simps noted_simps)
qed

lemma find_matching_eq:
  "ordered (exps s) \<Longrightarrow> \<exists>s'. find_matching is args s = Inr (List.find (handles (exps s) args) is, s') \<and> noted s s'"
proof (induction "is" arbitrary: s)
  case Nil
  then show ?case by (simp add: ret_def)
next
  case (Cons i "is")
  obtain s1 where s1: "ShouldHandleArguments i args s = Inr (handles (exps s) args i, s1)" "noted s s1"
    using ShouldHandleArguments_eq [OF Cons.prems] by blast
  then have "ordered (exps s1)" using Cons.prems by (simp add: noted_simps)
  from Cons.IH [OF this] obtain s2 where "find_matching is args s1 = Inr (List.find (handles (exps s1) args) is, s2)" "noted s1 s2"
    by blast
  with s1 show ?case using noted_trans by (auto simp: ret_def noted_simps)
qed

lemma FindMatchingExpectationLocked_eq:
  "ordered (exps s) \<Longrightarrow>
     \<exists>s'. FindMatchingExpectationLocked m args s =
       Inr (List.find (handles (exps s) args) (rev (expectations (mockers s m))), s') \<and> noted s s'"
  using find_matching_eq by (simp add: FindMatchingExpectationLocked_def)

subsection \<open>The invariant\<close>

definition exp_ok :: "(nat \<Rightarrow> ('a, 'b) expectation) \<Rightarrow> nat \<Rightarrow> bool" where
  "exp_ok ex i \<longleftrightarrow>
     card_ok (cardinality (ex i)) \<and> 0 \<le> call_count (ex i) \<and>
     (retired (ex i) \<longrightarrow> IsSatisfied (ex i) \<and> (\<forall>p \<in> set (immediate_prerequisites (ex i)). retired (ex p))) \<and>
     (0 < call_count (ex i) \<and> 0 < max_calls (cardinality (ex i)) \<longrightarrow>
        (\<forall>p \<in> set (immediate_prerequisites (ex i)). retired (ex p)))"

definition mock_inv :: "('a, 'b) mock_state \<Rightarrow> bool" where
  "mock_inv s \<longleftrightarrow>
     ordered (exps s) \<and>
     (\<forall>i \<ge> next_exp s. immediate_prerequisites (exps s i) = [] \<and> \<not> retired (exps s i) \<and> call_count (exps s i) = 0) \<and>
     (\<forall>sq l. last_expectation s sq = Some l \<longrightarrow> l < next_exp s) \<and>
     (\<forall>m. \<forall>i \<in> set (expectations (mockers s m)). i < next_exp s \<and> owner (exps s i) = m) \<and>
     (\<forall>i. exp_ok (exps s) i)"

lemma mock_inv_ordered: "mock_inv s \<Longrightarrow> ordered (exps s)"
  by (simp add: mock_inv_def)

lemma mock_inv_closed: "mock_inv s \<Longrightarrow> retired_closed (exps s) []"
  by (auto simp: mock_inv_def exp_ok_def retired_closed_def)

lemma exp_ok_before:
  assumes "mock_inv s" "before (exps s) p i"
    "retired (exps s i) \<or> (0 < call_count (exps s i) \<and> 0 < max_calls (cardinality (exps s i)))"
  shows "retired (exps s p) \<and> IsSatisfied (exps s p)"
proof -
  obtain q where q: "q \<in> set (immediate_prerequisites (exps s i))" "p = q \<or> before (exps s) p q"
    using assms(2) before_step by blast
  then have "retired (exps s q)" using assms(1,3) by (auto simp: mock_inv_def exp_ok_def)
  then have "retired (exps s p)"
    using q(2) retired_closed_before [OF mock_inv_closed [OF assms(1)], of q p] by auto
  then show ?thesis using assms(1) by (auto simp: mock_inv_def exp_ok_def)
qed

lemma mock_inv_called_ok: "mock_inv s \<Longrightarrow> called_ok (exps s)"
  unfolding called_ok_def
proof (intro allI impI)
  fix i p
  assume a: "mock_inv s" "IsSatisfied (exps s i)" "call_count (exps s i) \<noteq> 0" "before (exps s) p i"
  have "0 \<le> call_count (exps s i)" using a(1) by (auto simp: mock_inv_def exp_ok_def)
  then have "0 < call_count (exps s i)" "0 < max_calls (cardinality (exps s i))"
    using a(2,3) by (auto simp: IsSatisfied_def IsSatisfiedByCallCount_def)
  then show "IsSatisfied (exps s p)" using exp_ok_before [OF a(1,4)] by blast
qed

lemma noted_inv: "noted s s' \<Longrightarrow> mock_inv s \<Longrightarrow> mock_inv s'"
  unfolding mock_inv_def exp_ok_def by (simp add: noted_simps)

subsection \<open>A statement\<close>

text \<open>The newest expectation, whose statement is being carried out.\<close>

definition fresh :: "nat \<Rightarrow> ('a, 'b) mock_state \<Rightarrow> bool" where
  "fresh i s \<longleftrightarrow> mock_inv s \<and> next_exp s = Suc i \<and> \<not> retired (exps s i) \<and> call_count (exps s i) = 0 \<and>
     i \<in> set (expectations (mockers s (owner (exps s i))))"

fun clause_ok :: "nat \<Rightarrow> ('a, 'b) clause \<Rightarrow> bool" where
  "clause_ok i (Times_clause c) = card_ok c"
| "clause_ok i (After_clause ps) = (\<forall>p \<in> set ps. p < i)"
| "clause_ok i c = True"

lemma noted_fresh: "noted s s' \<Longrightarrow> fresh i s \<Longrightarrow> fresh i s'"
  using noted_inv unfolding fresh_def by (auto simp: noted_simps)

lemma fresh_upd:
  assumes "fresh i s" "\<not> retired e" "call_count e = 0" "owner e = owner (exps s i)" "card_ok (cardinality e)"
    "\<forall>p \<in> set (immediate_prerequisites e). p < i"
  shows "fresh i (s\<lparr>exps := (exps s)(i := e)\<rparr>)"
proof -
  let ?t = "s\<lparr>exps := (exps s)(i := e)\<rparr>"
  have inv: "mock_inv s" and i: "next_exp s = Suc i" "\<not> retired (exps s i)" "i \<in> set (expectations (mockers s (owner (exps s i))))"
    using assms(1) by (simp_all add: fresh_def)
  have ret: "retired (exps ?t j) = retired (exps s j)" for j using assms(2) i(2) by simp
  have "exp_ok (exps ?t) j" for j
  proof (cases "j = i")
    case True
    then show ?thesis using assms(2,3,5) by (simp add: exp_ok_def)
  next
    case False
    then have "exp_ok (exps s) j" "exps ?t j = exps s j" using inv by (simp_all add: mock_inv_def)
    then show ?thesis unfolding exp_ok_def ret by simp
  qed
  moreover have "ordered (exps ?t)" using inv assms(6) by (simp add: mock_inv_def ordered_def)
  moreover have "\<forall>j \<ge> next_exp ?t. immediate_prerequisites (exps ?t j) = [] \<and> \<not> retired (exps ?t j) \<and> call_count (exps ?t j) = 0"
    using inv i(1) by (simp add: mock_inv_def)
  moreover have "\<forall>m. \<forall>j \<in> set (expectations (mockers ?t m)). j < next_exp ?t \<and> owner (exps ?t j) = m"
    using inv assms(4) by (simp add: mock_inv_def)
  ultimately have "mock_inv ?t" using inv by (simp add: mock_inv_def)
  with i assms(2-4) show ?thesis by (simp add: fresh_def)
qed

lemma fresh_card: "fresh i s \<Longrightarrow> card_ok (cardinality (exps s i))"
  by (auto simp: fresh_def mock_inv_def exp_ok_def)

lemma fresh_prereqs: "fresh i s \<Longrightarrow> \<forall>p \<in> set (immediate_prerequisites (exps s i)). p < i"
  by (auto simp: fresh_def mock_inv_def ordered_def)

lemma set_fold_insert: "set (fold (set_insert addr) ps es) = set ps \<union> set es"
  by (induction ps arbitrary: es) auto

text \<open>\<open>keeps i m\<close>: the command \<open>m\<close> returns and leaves the expectation fresh.\<close>

definition keeps :: "nat \<Rightarrow> (('a, 'b) mock_state, 'c) cmd \<Rightarrow> bool" where
  "keeps i m \<longleftrightarrow> (\<forall>s. fresh i s \<longrightarrow> (\<exists>x s'. m s = Inr (x, s') \<and> fresh i s'))"

lemma keepsD: "keeps i m \<Longrightarrow> fresh i s \<Longrightarrow> \<exists>x s'. m s = Inr (x, s') \<and> fresh i s'"
  by (simp add: keeps_def)

lemma keeps_bnd: "keeps i m \<Longrightarrow> (\<And>x. keeps i (f x)) \<Longrightarrow> keeps i (bnd m f)"
  unfolding keeps_def by (metis bnd_Inr)

lemma keeps_at: "(\<And>s. fresh i s \<Longrightarrow> keeps i (m s)) \<Longrightarrow> keeps i (\<lambda>s. m s s)"
  unfolding keeps_def by blast

lemma keeps_noted: "(\<And>s. \<exists>x s'. m s = Inr (x, s') \<and> noted s s') \<Longrightarrow> keeps i m"
  unfolding keeps_def using noted_fresh by blast

lemma keeps_ret: "keeps i (ret x)"
  by (simp add: keeps_def ret_def)

lemma keeps_ExpectSpecProperty: "keeps i (ExpectSpecProperty j b msg)"
  by (rule keeps_noted) (use ExpectSpecProperty_noted in blast)

lemma keeps_CheckActionCountIfNotDone: "keeps i (CheckActionCountIfNotDone j)"
  by (rule keeps_noted) (use CheckActionCountIfNotDone_noted in blast)

lemma keeps_upd_exp:
  assumes "\<And>e. \<not> retired e \<Longrightarrow> call_count e = 0 \<Longrightarrow> card_ok (cardinality e) \<Longrightarrow>
      \<forall>p \<in> set (immediate_prerequisites e). p < i \<Longrightarrow>
      \<not> retired (f e) \<and> call_count (f e) = 0 \<and> owner (f e) = owner e \<and> card_ok (cardinality (f e)) \<and>
      (\<forall>p \<in> set (immediate_prerequisites (f e)). p < i)"
  shows "keeps i (upd_exp i f)"
  unfolding keeps_def
proof (intro allI impI)
  fix s :: "('a, 'b) mock_state"
  assume s: "fresh i s"
  then have "\<not> retired (exps s i)" "call_count (exps s i) = 0" by (simp_all add: fresh_def)
  note f = assms [OF this fresh_card [OF s] fresh_prereqs [OF s]]
  with s have "fresh i (s\<lparr>exps := (exps s)(i := f (exps s i))\<rparr>)" by (intro fresh_upd) simp_all
  then show "\<exists>x s'. upd_exp i f s = Inr (x, s') \<and> fresh i s'" by (simp add: upd_exp_def modify_def)
qed

lemma keeps_AddExpectation: "keeps i (AddExpectation sq i)"
  unfolding keeps_def
proof (intro allI impI)
  fix s :: "('a, 'b) mock_state"
  assume s: "fresh i s"
  have last: "fresh i t \<Longrightarrow> fresh i (t\<lparr>last_expectation := (last_expectation t)(sq := Some i)\<rparr>)" for t :: "('a, 'b) mock_state"
    unfolding fresh_def mock_inv_def by auto
  show "\<exists>x s'. AddExpectation sq i s = Inr (x, s') \<and> fresh i s'"
  proof (cases "last_expectation s sq")
    case None
    with s last show ?thesis by (simp add: AddExpectation_def modify_def ret_def bnd_def)
  next
    case (Some l)
    show ?thesis
    proof (cases "l = i")
      case True
      with Some s show ?thesis by (simp add: AddExpectation_def)
    next
      case False
      have "l < i" using False Some s by (fastforce simp: fresh_def mock_inv_def less_Suc_eq)
      then have "keeps i (upd_exp i (\<lambda>e :: ('a, 'b) expectation.
          e\<lparr>immediate_prerequisites := set_insert (address s) l (immediate_prerequisites e)\<rparr>))"
        by (intro keeps_upd_exp) auto
      from keepsD [OF this s] obtain x t where t: "upd_exp i (\<lambda>e. e\<lparr>immediate_prerequisites :=
        set_insert (address s) l (immediate_prerequisites e)\<rparr>) s = Inr (x, t)" "fresh i t" by blast
      with Some False last [OF t(2)] show ?thesis by (simp add: AddExpectation_def modify_def)
    qed
  qed
qed

lemma keeps_GetHandleOf:
  assumes "\<And>h. h = i \<Longrightarrow> keeps i (f h)"
  shows "keeps i (\<lambda>s. bnd (GetHandleOf (owner (exps s i)) i) f s)"
  using assms unfolding keeps_def by (auto simp: GetHandleOf_def Assert_def cmd_simps fresh_def)

lemmas keeps_intros = keeps_bnd keeps_ret keeps_ExpectSpecProperty keeps_CheckActionCountIfNotDone keeps_AddExpectation

lemma keeps_if: "keeps i m \<Longrightarrow> keeps i n \<Longrightarrow> keeps i (if b then m else n)"
  by simp

text \<open>Every clause returns and leaves the expectation fresh.\<close>

lemma keeps_run_clause:
  assumes "clause_ok i c"
  shows "keeps i (run_clause i c :: (('a, 'b) mock_state, unit) cmd)"
proof -
  have at: "keeps i m" if "m = (\<lambda>s. n s s)" "\<And>s. keeps i (n s)" for m :: "(('a, 'b) mock_state, unit) cmd" and n
    using that(2) unfolding that(1) keeps_def by blast
  show ?thesis
  proof (cases c)
    case (With_clause m)
    show ?thesis unfolding With_clause run_clause.simps
      by (rule at [OF ext, OF With_def], rule keeps_bnd, (rule keeps_if; rule keeps_ExpectSpecProperty), rule keeps_upd_exp) simp
  next
    case (Times_clause k)
    then have "card_ok k" using assms by simp
    then show ?thesis unfolding Times_clause run_clause.simps Times_def
      by (intro at [OF ext, OF UntypedTimes_def]) (intro keeps_intros keeps_if, (auto simp: SpecifyCardinality_def intro!: keeps_upd_exp)[2])
  next
    case (InSequence_clause sq)
    have o: "owner (exps s i) = owner (exps t i) \<Longrightarrow> True" for s t :: "('a, 'b) mock_state" by simp
    show ?thesis unfolding InSequence_clause run_clause.simps keeps_def
    proof (intro allI impI)
      fix s :: "('a, 'b) mock_state"
      assume s: "fresh i s"
      obtain t where t: "ExpectSpecProperty i (last_clause (exps s i) \<le> kInSequence)
            (''.InSequence() cannot appear after .After(), .WillOnce(), .WillRepeatedly(), or '' @ ''.RetiresOnSaturation().'') s = Inr ((), t)"
        "noted s t" using ExpectSpecProperty_noted by blast
      let ?u = "t\<lparr>exps := (exps t)(i := (exps t i)\<lparr>last_clause := kInSequence\<rparr>)\<rparr>"
      have ft: "fresh i t" using noted_fresh [OF t(2) s] .
      have u: "fresh i ?u" using ft fresh_card [OF ft] fresh_prereqs [OF ft] by (intro fresh_upd) (simp_all add: fresh_def)
      have "owner (exps s i) = owner (exps ?u i)" using t(2) by (simp add: noted_simps)
      moreover have "i \<in> set (expectations (mockers ?u (owner (exps ?u i))))" using u unfolding fresh_def by blast
      ultimately have h: "GetHandleOf (owner (exps s i)) i ?u = Inr (i, ?u)"
        by (simp add: GetHandleOf_def Assert_def ret_def)
      show "\<exists>x s'. InSequence i sq s = Inr (x, s') \<and> fresh i s'"
        using keepsD [OF keeps_AddExpectation u] t(1) h by (simp add: InSequence_def upd_exp_def modify_def)
    qed
  next
    case (After_clause ps)
    then have "\<forall>p \<in> set ps. p < i" using assms by simp
    then show ?thesis unfolding After_clause run_clause.simps
      by (intro at [OF ext, OF After_def]) (intro keeps_intros keeps_upd_exp, auto simp: set_fold_insert)
  next
    case (WillOnce_clause a)
    show ?thesis unfolding WillOnce_clause run_clause.simps
      by (rule at [OF ext, OF WillOnce_def], intro keeps_intros keeps_upd_exp) (simp add: Let_def)
  next
    case (WillRepeatedly_clause a)
    show ?thesis unfolding WillRepeatedly_clause run_clause.simps
      by (rule at [OF ext, OF WillRepeatedly_def], intro keeps_intros keeps_if keeps_upd_exp) simp
  next
    case RetiresOnSaturation_clause
    show ?thesis unfolding RetiresOnSaturation_clause run_clause.simps
      by (rule at [OF ext, OF RetiresOnSaturation_def], intro keeps_intros keeps_upd_exp) simp
  qed
qed

lemma keeps_run_clauses: "\<forall>c \<in> set cs. clause_ok i c \<Longrightarrow> keeps i (run_clauses i cs)"
  by (induction cs) (auto intro: keeps_ret keeps_bnd keeps_run_clause)

lemma new_expectation_ok: "exp_ok ((exps s)(i := new_expectation m f l src ms)) i"
  by (simp add: exp_ok_def new_expectation_def)

lemma new_expectation_fresh:
  assumes "mock_inv s"
  shows "fresh (next_exp s) (s\<lparr>exps := (exps s)(next_exp s := new_expectation m f l src ms), next_exp := next_exp s + 1,
    mockers := (mockers s)(m := (mockers s m)\<lparr>expectations := expectations (mockers s m) @ [next_exp s]\<rparr>)\<rparr>)"
    (is "fresh _ ?t")
proof -
  let ?i = "next_exp s"
  have pre: "\<forall>p \<in> set (immediate_prerequisites (exps s j)). p < j" for j using assms by (simp add: mock_inv_def ordered_def)
  have ret: "retired (exps ?t j) = retired (exps s j)" for j using assms by (simp add: mock_inv_def new_expectation_def)
  have "exp_ok (exps ?t) j" for j
  proof (cases "j = ?i")
    case True
    then show ?thesis using new_expectation_ok [of s ?i m f l src ms] by simp
  next
    case False
    then have "exp_ok (exps s) j" "exps ?t j = exps s j" using assms by (simp_all add: mock_inv_def)
    then show ?thesis unfolding exp_ok_def ret by simp
  qed
  moreover have "ordered (exps ?t)" using pre by (simp add: ordered_def new_expectation_def)
  moreover have "\<forall>j \<ge> next_exp ?t. immediate_prerequisites (exps ?t j) = [] \<and> \<not> retired (exps ?t j) \<and> call_count (exps ?t j) = 0"
    using assms by (simp add: mock_inv_def)
  moreover have "\<forall>n. \<forall>j \<in> set (expectations (mockers ?t n)). j < next_exp ?t \<and> owner (exps ?t j) = n"
    using assms unfolding mock_inv_def by (auto simp: new_expectation_def less_Suc_eq)
  moreover have "\<forall>sq k. last_expectation ?t sq = Some k \<longrightarrow> k < next_exp ?t"
    using assms by (auto simp: mock_inv_def less_Suc_eq)
  ultimately have "mock_inv ?t" unfolding mock_inv_def by blast
  then show ?thesis by (simp add: fresh_def new_expectation_def)
qed

lemma upd_object_inv: "mock_inv (s\<lparr>states := x\<rparr>) = mock_inv s"
  by (simp add: mock_inv_def)

lemma AddNewExpectation_fresh:
  assumes "mock_inv s" "mock_obj (mockers s m) = Some ob"
  shows "\<exists>s'. AddNewExpectation m f l src ms s = Inr (next_exp s, s') \<and> fresh (next_exp s) s'"
proof -
  obtain sts where r: "RegisterUseByOnCallOrExpectCall ob f l s = Inr ((), s\<lparr>states := sts\<rparr>)"
    by (simp add: RegisterUseByOnCallOrExpectCall_def upd_object_def modify_def)
  let ?u = "s\<lparr>states := sts\<rparr>" and ?i = "next_exp s"
  let ?t = "?u\<lparr>exps := (exps ?u)(?i := new_expectation m f l src ms), next_exp := ?i + 1,
    mockers := (mockers ?u)(m := (mockers ?u m)\<lparr>expectations := expectations (mockers ?u m) @ [?i]\<rparr>)\<rparr>"
  have fr: "fresh ?i ?t" using new_expectation_fresh [of ?u m f l src ms] assms(1) by (simp add: upd_object_inv)
  have k: "\<exists>s'. (case implicit_sequence s of None \<Rightarrow> ret () | Some sq \<Rightarrow> AddExpectation sq ?i) ?t = Inr ((), s') \<and> fresh ?i s'"
  proof (cases "implicit_sequence s")
    case None
    with fr show ?thesis by (simp add: ret_def)
  next
    case (Some sq)
    with keepsD [OF keeps_AddExpectation fr] show ?thesis by simp
  qed
  have e: "AddNewExpectation m f l src ms s =
    bnd (case implicit_sequence s of None \<Rightarrow> ret () | Some sq \<Rightarrow> AddExpectation sq ?i) (\<lambda>_. ret ?i) ?t"
    using assms(2) r by (cases "implicit_sequence s") (simp_all add: AddNewExpectation_def MockObject_def Let_def)
  from k show ?thesis unfolding e by (auto simp: ret_def)
qed

lemma InternalExpectedAt_fresh:
  assumes "mock_inv s" "mock_obj (mockers s m) = Some ob"
  shows "\<exists>s'. InternalExpectedAt m f l obj call ms s = Inr (next_exp s, s') \<and> fresh (next_exp s) s'"
proof -
  obtain t where t: "LogWithLocation kInfo f l ((''EXPECT_CALL('' @ obj @ '', '' @ call @ '')'') @ '' invoked'') s = Inr ((), t)" "noted s t"
    using LogWithLocation_noted by blast
  have "mock_obj (mockers t m) = Some ob" "next_exp t = next_exp s" using t(2) assms(2) by (simp_all add: noted_simps)
  with AddNewExpectation_fresh [OF noted_inv [OF t(2) assms(1)]] t(1) show ?thesis
    by (simp add: InternalExpectedAt_def Let_def)
qed

subsection \<open>A call\<close>

text \<open>The state after the call has been given to the expectation \<open>i\<close>.\<close>

definition taken :: "nat \<Rightarrow> (nat \<Rightarrow> ('a, 'b) expectation) \<Rightarrow> nat \<Rightarrow> ('a, 'b) expectation" where
  "taken i ex =
     (let counted = (ex i)\<lparr>call_count := call_count (ex i) + 1\<rparr> in
      if IsSaturated (ex i) then ex(i := counted)
      else
        (\<lambda>j. if j = i
             then (if retires_on_saturation (ex i) \<and> IsSaturated counted then Retire counted else counted)
             else if before ex j i then Retire (ex j) else ex j))"

lemma call_count_update:
  "IsSaturated (e\<lparr>call_count := n\<rparr>) = IsSaturatedByCallCount (cardinality e) n"
  "IsSatisfied (e\<lparr>call_count := n\<rparr>) = IsSatisfiedByCallCount (cardinality e) n"
  by (simp_all add: IsSaturated_def IsSatisfied_def)

lemma taken_prereqs: "immediate_prerequisites (taken i ex j) = immediate_prerequisites (ex j)"
  by (simp add: taken_def Let_def Retire_def)

lemma taken_other: "j \<noteq> i \<Longrightarrow> call_count (taken i ex j) = call_count (ex j) \<and> cardinality (taken i ex j) = cardinality (ex j)"
  by (simp add: taken_def Let_def Retire_def)

lemma taken_retired: "retired (ex j) \<Longrightarrow> retired (taken i ex j)"
  by (auto simp: taken_def Let_def Retire_def)

lemma taken_owner: "owner (taken i ex j) = owner (ex j)" "cardinality (taken i ex j) = cardinality (ex j)"
  by (simp_all add: taken_def Let_def Retire_def)

lemma taken_ok:
  assumes inv: "mock_inv s" and h: "handles (exps s) args i"
  shows "exp_ok (taken i (exps s)) j"
proof -
  let ?ex = "exps s" and ?n = "call_count (exps s i) + 1" and ?c = "cardinality (exps s i)"
  have ok: "exp_ok ?ex k" for k using inv by (simp add: mock_inv_def)
  have nr: "\<not> retired (?ex i)" and sat: "before ?ex p i \<Longrightarrow> IsSatisfied (?ex p)" for p
    using h by (auto simp: handles_def)
  have irr: "\<not> before ?ex i i" using before_less [OF mock_inv_ordered [OF inv], of i i] by blast
  show ?thesis
  proof (cases "IsSaturated (?ex i)")
    case True
    have t: "taken i ?ex = ?ex(i := (?ex i)\<lparr>call_count := ?n\<rparr>)" using True by (simp add: taken_def Let_def)
    have ret: "retired (taken i ?ex k) = retired (?ex k)" for k unfolding t by simp
    show ?thesis
    proof (cases "j = i")
      case False
      then have "taken i ?ex j = ?ex j" unfolding t by simp
      with ok [of j] ret show ?thesis unfolding exp_ok_def by metis
    next
      case j: True
      have "0 < max_calls ?c \<Longrightarrow> 0 < call_count (?ex i)"
        using True by (simp add: IsSaturated_def IsSaturatedByCallCount_def)
      then have "0 < max_calls ?c \<Longrightarrow> \<forall>p \<in> set (immediate_prerequisites (?ex i)). retired (?ex p)"
        using ok [of i] by (simp add: exp_ok_def)
      moreover have "taken i ?ex i = (?ex i)\<lparr>call_count := ?n\<rparr>" unfolding t by simp
      ultimately show ?thesis using ok [of i] nr ret unfolding j exp_ok_def by simp
    qed
  next
    case False
    let ?e = "(?ex i)\<lparr>call_count := ?n\<rparr>"
    have t: "taken i ?ex k = (if k = i then (if retires_on_saturation (?ex i) \<and> IsSaturated ?e then Retire ?e else ?e)
        else if before ?ex k i then Retire (?ex k) else ?ex k)" for k
      using False by (simp add: taken_def Let_def)
    have pre: "p \<in> set (immediate_prerequisites (?ex i)) \<Longrightarrow> retired (taken i ?ex p)" for p
      using before_immediate [of p ?ex i] irr by (auto simp: t)
    show ?thesis
    proof (cases "j = i")
      case j: True
      have n: "card_ok ?c" "0 \<le> ?n" using ok [of i] by (simp_all add: exp_ok_def)
      have "IsSatisfied ?e" if "IsSaturated ?e"
        using saturating_call [OF n(1), of "call_count (?ex i)"] False that
        by (simp add: call_count_update IsSaturated_def)
      then have "retired (taken i ?ex i) \<longrightarrow> IsSatisfied (taken i ?ex i)" using nr by (auto simp: t)
      moreover have "card_ok (cardinality (taken i ?ex i))" "0 \<le> call_count (taken i ?ex i)"
        using n by (simp_all add: t Retire_def)
      ultimately show ?thesis unfolding j exp_ok_def taken_prereqs using pre by blast
    next
      case j: False
      show ?thesis
      proof (cases "before ?ex j i")
        case True
        then have tj: "taken i ?ex j = Retire (?ex j)" using j by (simp add: t)
        have "p \<in> set (immediate_prerequisites (?ex j)) \<Longrightarrow> retired (taken i ?ex p)" for p
          using before_trans [OF before_immediate [of p ?ex j] True] irr by (auto simp: t)
        then show ?thesis using ok [of j] sat [OF True] unfolding exp_ok_def taken_prereqs tj
          by (simp add: Retire_def IsSatisfied_def)
      next
        case nb: False
        then have "taken i ?ex j = ?ex j" using j by (simp add: t)
        with ok [of j] taken_retired [of ?ex _ i] show ?thesis unfolding exp_ok_def by metis
      qed
    qed
  qed
qed

lemma taken_inv:
  assumes inv: "mock_inv s" and h: "handles (exps s) args i" and i: "i < next_exp s"
  shows "mock_inv (s\<lparr>exps := taken i (exps s)\<rparr>)"
proof -
  have b: "before (exps s) j i \<Longrightarrow> j < i" for j by (rule before_less [OF mock_inv_ordered [OF inv]])
  have "taken i (exps s) j = exps s j" if "next_exp s \<le> j" for j
  proof -
    have "j \<noteq> i" "\<not> before (exps s) j i" using b [of j] i that by auto
    then show ?thesis by (simp add: taken_def Let_def)
  qed
  moreover have "ordered (taken i (exps s))" using inv by (simp add: mock_inv_def ordered_def taken_prereqs)
  moreover have "\<forall>j. exp_ok (taken i (exps s)) j" using taken_ok [OF inv h] by blast
  ultimately show ?thesis using inv unfolding mock_inv_def by (simp add: taken_owner)
qed

text \<open>The action for the \<open>n\<close>-th call of an expectation.\<close>

definition action_for :: "('a, 'b) expectation \<Rightarrow> int \<Rightarrow> 'b action" where
  "action_for e n = (if n \<le> int (length (untyped_actions e)) then untyped_actions e ! nat (n - 1) else repeated_action e)"

lemma GetCurrentAction_eq:
  assumes "1 \<le> call_count (exps s i)"
  shows "\<exists>s'. GetCurrentAction i m args s = Inr (action_for (exps s i) (call_count (exps s i)), s') \<and> noted s s'"
proof (cases "0 < int (length (untyped_actions (exps s i))) \<and> \<not> repeated_action_specified (exps s i) \<and>
    int (length (untyped_actions (exps s i))) < call_count (exps s i)")
  case True
  obtain s' where "log_message kWarning (actions_ran_out (exps s i) (mockers s m) args) 1 s = Inr ((), s')" "noted s s'"
    using log_message_noted by blast
  with True assms show ?thesis by (simp add: GetCurrentAction_def Assert_def Let_def cmd_simps action_for_def)
next
  case False
  with assms show ?thesis
    by (auto simp: GetCurrentAction_def Assert_def Let_def cmd_simps action_for_def)
qed

lemma taken_unsaturated:
  assumes "ordered (exps s)" "retired_closed (exps s) []" "\<not> IsSaturated (exps s i)" "\<not> retired (exps s i)"
    "call_count (exps s i) < INT_MAX"
  shows "bnd (IncrementCallCount i) (\<lambda>_. bnd (RetireAllPreRequisites i) (\<lambda>_.
      bnd (\<lambda>s. if retires_on_saturation (exps s i) \<and> IsSaturated (exps s i) then upd_exp i Retire s else Inr ((), s)) f)) s =
    f () (s\<lparr>exps := taken i (exps s)\<rparr>)"
proof -
  let ?e = "(exps s i)\<lparr>call_count := call_count (exps s i) + 1\<rparr>"
  let ?ex = "(exps s)(i := ?e)"
  have pre: "immediate_prerequisites (?ex j) = immediate_prerequisites (exps s j)"
    and ret: "retired (?ex j) = retired (exps s j)" for j by simp_all
  have b: "before ?ex = before (exps s)" by (rule before_cong) (rule pre)
  have o: "ordered ?ex" "retired_closed ?ex []"
    using assms(1,2) unfolding ordered_def retired_closed_def pre ret by simp_all
  have irr: "\<not> before (exps s) i i" using before_less [OF assms(1), of i i] by blast
  have "IncrementCallCount i s = Inr ((), s\<lparr>exps := ?ex\<rparr>)"
    using assms(5) by (simp add: IncrementCallCount_def upd_exp_def modify_def cmd_simps)
  moreover have "RetireAllPreRequisites i (s\<lparr>exps := ?ex\<rparr>) =
    Inr ((), s\<lparr>exps := (\<lambda>j. if before (exps s) j i then Retire (?ex j) else ?ex j)\<rparr>)"
    using RetireAllPreRequisites_eq [of "s\<lparr>exps := ?ex\<rparr>" i] o by (simp add: b cong: if_cong)
  moreover have "(\<lambda>j. if before (exps s) j i then Retire (?ex j) else ?ex j) =
    (\<lambda>j. if j = i then ?e else if before (exps s) j i then Retire (exps s j) else exps s j)"
    using irr by auto
  moreover have "(\<lambda>j. if j = i then ?e else if before (exps s) j i then Retire (exps s j) else exps s j)(i := Retire ?e) =
    (\<lambda>j. if j = i then Retire ?e else if before (exps s) j i then Retire (exps s j) else exps s j)"
    by auto
  ultimately show ?thesis
    using assms(3) by (simp add: taken_def Let_def upd_exp_def modify_def)
qed

lemma GetActionForArguments_eq:
  assumes inv: "mock_inv s" and nr: "\<not> retired (exps s i)" and c: "call_count (exps s i) < INT_MAX"
  shows "\<exists>wt wy s'. GetActionForArguments i m args s =
      Inr ((if IsSaturated (exps s i) then None else Some (action_for (exps s i) (call_count (exps s i) + 1)), wt, wy), s') \<and>
    noted (s\<lparr>exps := taken i (exps s)\<rparr>) s'"
proof (cases "IsSaturated (exps s i)")
  case True
  have "IncrementCallCount i s = Inr ((), s\<lparr>exps := taken i (exps s)\<rparr>)"
    using c True by (simp add: IncrementCallCount_def upd_exp_def modify_def cmd_simps taken_def Let_def)
  with True show ?thesis by (simp add: GetActionForArguments_def)
next
  case False
  let ?t = "s\<lparr>exps := taken i (exps s)\<rparr>"
  have count: "call_count (exps ?t i) = call_count (exps s i) + 1"
    "action_for (exps ?t i) = action_for (exps s i)" using False by (auto simp: taken_def Let_def Retire_def action_for_def fun_eq_iff)
  have "0 \<le> call_count (exps s i)" using inv by (auto simp: mock_inv_def exp_ok_def)
  then obtain s' where "GetCurrentAction i m args ?t = Inr (action_for (exps s i) (call_count (exps s i) + 1), s')" "noted ?t s'"
    using GetCurrentAction_eq [of ?t i m args] unfolding count by auto
  with False show ?thesis
    by (simp add: GetActionForArguments_def taken_unsaturated [OF mock_inv_ordered [OF inv] mock_inv_closed [OF inv] False nr c])
qed

end
