(* ===== verification/Gm_Mock_Reports.thy ===== *)
theory Gm_Mock_Reports
  imports Gm_Mock_Spec
begin

section \<open>Calls of mock functions in reachable states\<close>

subsection \<open>The messages about unexpected calls\<close>

lemma ExplainMatchResultTo_total: "mock_inv s \<Longrightarrow> \<exists>t. ExplainMatchResultTo i args s = Inr t"
  using FindUnsatisfiedPrerequisites_eq [OF mock_inv_ordered mock_inv_called_ok, of s "address s" i]
  by (auto simp: ExplainMatchResultTo_def Let_def AllPrerequisitesAreSatisfied_iff [OF mock_inv_ordered])

lemma print_tried_total: "mock_inv s \<Longrightarrow> \<exists>t. print_tried n k is args s = Inr t"
proof (induction "is" arbitrary: k)
  case (Cons i "is")
  obtain t where "ExplainMatchResultTo i args s = Inr t" using ExplainMatchResultTo_total [OF Cons.prems] by blast
  with Cons.IH [OF Cons.prems, of "k + 1"] show ?case by auto
qed simp

lemma FormatUnexpectedCallMessageLocked_total: "mock_inv s \<Longrightarrow> \<exists>t. FormatUnexpectedCallMessageLocked m args s = Inr t"
proof -
  assume inv: "mock_inv s"
  obtain t where "print_tried (length (expectations (mockers s m))) 0 (expectations (mockers s m)) args s = Inr t"
    using print_tried_total [OF inv] by blast
  then show ?thesis by (simp add: FormatUnexpectedCallMessageLocked_def PrintTriedExpectationsLocked_def Let_def)
qed

subsection \<open>What a call does\<close>

lemma taken_checked:
  "taken i (\<lambda>j. (ex j)\<lparr>action_count_checked := cs j\<rparr>) = (\<lambda>j. (taken i ex j)\<lparr>action_count_checked := cs j\<rparr>)"
proof -
  have "before (\<lambda>j. (ex j)\<lparr>action_count_checked := cs j\<rparr>) = before ex" by (rule before_cong) simp
  moreover have "IsSaturated (e\<lparr>action_count_checked := c\<rparr>) = IsSaturated e" for e :: "('a, 'b) expectation" and c
    by (simp add: IsSaturated_def)
  ultimately show ?thesis by (auto simp: taken_def Let_def Retire_def fun_eq_iff call_count_update)
qed

lemma noted_taken:
  assumes "noted s t"
  shows "noted (s\<lparr>exps := taken i (exps s)\<rparr>) (t\<lparr>exps := taken i (exps t)\<rparr>)"
proof -
  obtain cs ev where t: "t = s\<lparr>exps := (\<lambda>i. (exps s i)\<lparr>action_count_checked := cs i\<rparr>), events := ev\<rparr>"
    using assms unfolding noted_def by blast
  show ?thesis unfolding noted_def
    by (rule exI [of _ cs], rule exI [of _ ev]) (simp add: t taken_checked)
qed

definition normal_action :: "'b action \<Rightarrow> 'b action option" where
  "normal_action a = (if IsDoDefault a then None else Some a)"

definition handler :: "('a, 'b) mock_state \<Rightarrow> nat \<Rightarrow> 'a \<Rightarrow> nat option" where
  "handler s m args = List.find (handles (exps s) args) (rev (expectations (mockers s m)))"

lemma handlerD: "handler s m args = Some i \<Longrightarrow> i \<in> set (expectations (mockers s m)) \<and> handles (exps s) args i"
  by (auto simp: handler_def find_Some_iff rev_nth)

lemma call_unexpected:
  assumes "mock_inv s" "handler s m args = None"
  shows "\<exists>h s'. UntypedFindMatchingExpectation m args s = Inr (h, s') \<and> noted s s' \<and>
    handled_by h = None \<and> untyped_action h = None \<and> \<not> is_excessive h"
proof -
  obtain t where t: "FindMatchingExpectationLocked m args s = Inr (None, t)" "noted s t"
    using FindMatchingExpectationLocked_eq [OF mock_inv_ordered [OF assms(1)], of m args] assms(2) unfolding handler_def by auto
  obtain wt wy where "FormatUnexpectedCallMessageLocked m args t = Inr (wt, wy)"
    using FormatUnexpectedCallMessageLocked_total [OF noted_inv [OF t(2) assms(1)]] by (metis surj_pair)
  with t show ?thesis by (simp add: UntypedFindMatchingExpectation_def cmd_simps)
qed

lemma call_expected:
  assumes inv: "mock_inv s" and h: "handler s m args = Some i" and c: "call_count (exps s i) < INT_MAX"
  shows "\<exists>h s'. UntypedFindMatchingExpectation m args s = Inr (h, s') \<and> noted (s\<lparr>exps := taken i (exps s)\<rparr>) s' \<and>
    handled_by h = Some i \<and> is_excessive h = IsSaturated (exps s i) \<and>
    untyped_action h = (if IsSaturated (exps s i) then None else normal_action (action_for (exps s i) (call_count (exps s i) + 1)))"
proof -
  obtain t where t: "FindMatchingExpectationLocked m args s = Inr (Some i, t)" "noted s t"
    using FindMatchingExpectationLocked_eq [OF mock_inv_ordered [OF inv], of m args] h unfolding handler_def by auto
  have "\<not> retired (exps s i)" using handlerD [OF h] by (simp add: handles_def)
  then have i: "\<not> retired (exps t i)" "call_count (exps t i) < INT_MAX" "IsSaturated (exps t i) = IsSaturated (exps s i)"
    "action_for (exps t i) (call_count (exps t i) + 1) = action_for (exps s i) (call_count (exps s i) + 1)"
    using c t(2) by (simp_all add: noted_simps action_for_def)
  from GetActionForArguments_eq [OF noted_inv [OF t(2) inv] i(1,2), of m args] obtain wt wy u where
    u: "GetActionForArguments i m args t =
      Inr ((if IsSaturated (exps s i) then None else Some (action_for (exps s i) (call_count (exps s i) + 1)), wt, wy), u)"
      "noted (t\<lparr>exps := taken i (exps t)\<rparr>) u"
    unfolding i by blast
  have "noted (s\<lparr>exps := taken i (exps s)\<rparr>) u" using noted_trans [OF noted_taken [OF t(2)] u(2)] .
  with t(1) u(1) i(3) show ?thesis
    by (simp add: UntypedFindMatchingExpectation_def Let_def ret_def normal_action_def)
qed

lemma call_overflow:
  assumes inv: "mock_inv s" and h: "handler s m args = Some i" and c: "\<not> call_count (exps s i) < INT_MAX"
  shows "UntypedFindMatchingExpectation m args s = Inl Int_overflow"
proof -
  obtain t where t: "FindMatchingExpectationLocked m args s = Inr (Some i, t)" "noted s t"
    using FindMatchingExpectationLocked_eq [OF mock_inv_ordered [OF inv], of m args] h unfolding handler_def by auto
  have "IncrementCallCount i t = Inl Int_overflow"
    using c t(2) by (simp add: IncrementCallCount_def c_inc_def noted_simps cmd_simps bnd_def)
  then have "GetActionForArguments i m args t = Inl Int_overflow" by (simp add: GetActionForArguments_def)
  with t(1) show ?thesis by (simp add: UntypedFindMatchingExpectation_def Let_def)
qed

subsection \<open>Reachable states\<close>

definition mock_init :: "('a, 'b) mock_state \<Rightarrow> bool" where
  "mock_init s \<longleftrightarrow> exps s = (\<lambda>i. new_expectation 0 None 0 [] any_matcher) \<and> next_exp s = 0 \<and>
     (\<forall>m. expectations (mockers s m) = []) \<and> (\<forall>sq. last_expectation s sq = None)"

text \<open>
  What tests do with expectations: whole \<open>EXPECT_CALL\<close> statements, whose \<open>After\<close> clauses name
  earlier expectations; calls, of which the step is the part under the lock; verification; the life
  of implicit sequences; owners and reports.
\<close>

inductive mock_step :: "('a, 'b) mock_state \<Rightarrow> ('a, 'b) mock_state \<Rightarrow> bool" where
  expect_call: "mock_obj (mockers s m) = Some ob \<Longrightarrow> InternalExpectedAt m f l obj call ms s = Inr (i, s1) \<Longrightarrow>
     \<forall>c \<in> set cs. clause_ok i c \<Longrightarrow> run_clauses i cs s1 = Inr ((), s2) \<Longrightarrow> mock_step s s2"
| call: "UntypedFindMatchingExpectation m args s = Inr (h, s') \<Longrightarrow> mock_step s s'"
| verify: "VerifyAndClearExpectationsLocked m s = Inr (b, s') \<Longrightarrow> mock_step s s'"
| enter: "InSequence_ctor s = Inr (b, s') \<Longrightarrow> mock_step s s'"
| leave: "InSequence_dtor b s = Inr ((), s') \<Longrightarrow> mock_step s s'"
| register: "RegisterOwner m ob s = Inr ((), s') \<Longrightarrow> mock_step s s'"
| name: "SetOwnerAndName m ob n s = Inr ((), s') \<Longrightarrow> mock_step s s'"
| report: "Expect b f l msg s = Inr ((), s') \<Longrightarrow> mock_step s s'"
| logging: "log_message sev msg k s = Inr ((), s') \<Longrightarrow> mock_step s s'"

inductive mock_reachable :: "('a, 'b) mock_state \<Rightarrow> bool" where
  init: "mock_init s \<Longrightarrow> mock_reachable s"
| step: "mock_reachable s \<Longrightarrow> mock_step s s' \<Longrightarrow> mock_reachable s'"

lemma mock_init_inv: "mock_init s \<Longrightarrow> mock_inv s"
  by (simp add: mock_init_def mock_inv_def ordered_def exp_ok_def new_expectation_def)

lemma verify_expectation_eq:
  "\<exists>s'. verify_expectation i b s = Inr (if IsSatisfied (exps s i) then b else False, s') \<and> noted s s'"
proof -
  have over: "IsOverSaturated (exps s i) \<Longrightarrow> \<not> IsSatisfied (exps s i)"
    by (simp add: IsOverSaturated_def IsSatisfied_def IsOverSaturatedByCallCount_def)
  obtain s' where "Expect False (exp_file (exps s i)) (exp_line (exps s i))
      (''Actual function '' @ with_name (description (exps s i)) @ ''call count doesn'' @ [CHR 0x27] @ ''t match '' @
       source_text (exps s i) @ ''...'' @ [LF] @ MaybeDescribeExtraMatcherTo (exps s i) @ DescribeCallCountTo (exps s i)) s = Inr ((), s')"
    "noted s s'" using Expect_noted by blast
  with over show ?thesis
    by (cases "IsOverSaturated (exps s i)"; cases "IsSatisfied (exps s i)") (simp_all add: verify_expectation_def Let_def ret_def)
qed

lemma verify_loop_eq:
  "\<exists>s'. verify_loop is b s = Inr (b \<and> (\<forall>i \<in> set is. IsSatisfied (exps s i)), s') \<and> noted s s'"
proof (induction "is" arbitrary: b s)
  case Nil
  then show ?case by (simp add: ret_def)
next
  case (Cons i "is")
  obtain t where t: "verify_expectation i b s = Inr (if IsSatisfied (exps s i) then b else False, t)" "noted s t"
    using verify_expectation_eq by blast
  obtain u where "verify_loop is (if IsSatisfied (exps s i) then b else False) t =
      Inr ((if IsSatisfied (exps s i) then b else False) \<and> (\<forall>i \<in> set is. IsSatisfied (exps t i)), u)" "noted t u"
    using Cons.IH by blast
  then have u: "verify_loop is (if IsSatisfied (exps s i) then b else False) t =
      Inr (b \<and> (\<forall>j \<in> set (i # is). IsSatisfied (exps s j)), u)" "noted s u"
    using noted_trans [OF t(2)] by (simp_all add: noted_exps [OF t(2)])
  show ?case unfolding verify_loop.simps bnd_Inr [of "verify_expectation i b" s, OF t(1)] u(1) using u(2) by blast
qed

text \<open>The verification succeeds iff every expectation of the mocker is satisfied; it forgets them.\<close>

lemma VerifyAndClearExpectationsLocked_eq:
  "\<exists>t. VerifyAndClearExpectationsLocked m s = Inr (\<forall>i \<in> set (expectations (mockers s m)). IsSatisfied (exps s i),
      t\<lparr>mockers := (mockers t)(m := (mockers t m)\<lparr>expectations := []\<rparr>)\<rparr>) \<and> noted s t"
proof -
  obtain t where "verify_loop (expectations (mockers s m)) True s =
      Inr (True \<and> (\<forall>i \<in> set (expectations (mockers s m)). IsSatisfied (exps s i)), t)" "noted s t"
    using verify_loop_eq by blast
  then show ?thesis by (intro exI [of _ t]) (simp add: VerifyAndClearExpectationsLocked_def upd_mocker_def modify_def ret_def)
qed

lemma mock_step_inv:
  assumes "mock_step s s'" "mock_inv s"
  shows "mock_inv s'"
  using assms
proof cases
  case (expect_call m ob f l obj call ms i s1 cs)
  then have "i = next_exp s" "fresh i s1" using InternalExpectedAt_fresh [OF assms(2), of m ob f l obj call ms] by auto
  moreover have "keeps i (run_clauses i cs)" using expect_call by (intro keeps_run_clauses) simp
  ultimately obtain x t where "run_clauses i cs s1 = Inr (x, t)" "fresh i t" using keepsD by blast
  with expect_call show ?thesis by (simp add: fresh_def)
next
  case (call m args h)
  show ?thesis
  proof (cases "handler s m args")
    case None
    with call call_unexpected [OF assms(2) None] noted_inv assms(2) show ?thesis by auto
  next
    case (Some i)
    show ?thesis
    proof (cases "call_count (exps s i) < INT_MAX")
      case True
      have "mock_inv (s\<lparr>exps := taken i (exps s)\<rparr>)"
        using handlerD [OF Some] assms(2) by (intro taken_inv [where args = args]) (auto simp: mock_inv_def)
      with call call_expected [OF assms(2) Some True] noted_inv show ?thesis by auto
    next
      case False
      with call call_overflow [OF assms(2) Some] show ?thesis by simp
    qed
  qed
next
  case (verify m b)
  obtain t where t: "s' = t\<lparr>mockers := (mockers t)(m := (mockers t m)\<lparr>expectations := []\<rparr>)\<rparr>" "noted s t"
    using verify VerifyAndClearExpectationsLocked_eq [of m s] by auto
  from noted_inv [OF t(2) assms(2)] show ?thesis unfolding t(1) by (simp add: mock_inv_def)
next
  case (enter b)
  with assms(2) show ?thesis by (auto simp: InSequence_ctor_def mock_inv_def split: if_splits)
next
  case (leave b)
  with assms(2) show ?thesis by (auto simp: InSequence_dtor_def modify_def ret_def mock_inv_def split: if_splits)
next
  case (register m ob)
  then obtain sts where "s' = s\<lparr>mockers := (mockers s)(m := (mockers s m)\<lparr>mock_obj := Some ob\<rparr>), states := sts\<rparr>"
    by (auto simp: RegisterOwner_def upd_mocker_def Mock_Register_def upd_object_def modify_def)
  with assms(2) show ?thesis by (simp add: mock_inv_def)
next
  case (name m ob n)
  then have "s' = s\<lparr>mockers := (mockers s)(m := (mockers s m)\<lparr>mock_obj := Some ob, mocker_name := Some n\<rparr>)\<rparr>"
    by (simp add: SetOwnerAndName_def upd_mocker_def modify_def)
  with assms(2) show ?thesis by (simp add: mock_inv_def)
next
  case (report b f l msg)
  with Expect_noted [of b f l msg s] noted_inv assms(2) show ?thesis by auto
next
  case (logging sev msg k)
  with log_message_noted [of sev msg k s] noted_inv assms(2) show ?thesis by auto
qed

lemma mock_reachable_inv: "mock_reachable s \<Longrightarrow> mock_inv s"
  by (induction rule: mock_reachable.induct) (auto intro: mock_init_inv mock_step_inv)


section \<open>Which failures the mock library reports\<close>

definition is_failure :: "event \<Rightarrow> bool" where
  "is_failure e \<longleftrightarrow> (case e of Failure f l m \<Rightarrow> True | Printed t \<Rightarrow> False)"

definition failures :: "('a, 'b) mock_state \<Rightarrow> event list" where
  "failures s = filter is_failure (events s)"

text \<open>\<open>quiet m\<close>: the command reports no failure.\<close>

definition quiet :: "(('a, 'b) mock_state, 'c) cmd \<Rightarrow> bool" where
  "quiet m \<longleftrightarrow> (\<forall>s x s'. m s = Inr (x, s') \<longrightarrow> failures s' = failures s)"

lemma quietD: "quiet m \<Longrightarrow> m s = Inr (x, s') \<Longrightarrow> failures s' = failures s"
  by (simp add: quiet_def)

lemma quiet_bnd: "quiet m \<Longrightarrow> (\<And>x. quiet (f x)) \<Longrightarrow> quiet (bnd m f)"
  unfolding quiet_def bnd_eq_Inr_iff by (metis surj_pair)

lemma quiet_at: "(\<And>s. quiet (m s)) \<Longrightarrow> quiet (\<lambda>s. m s s)"
  by (simp add: quiet_def)

lemma quiet_if: "quiet m \<Longrightarrow> quiet n \<Longrightarrow> quiet (if b then m else n)"
  by simp

lemma quiet_ret: "quiet (ret x)" and quiet_halt: "quiet (halt e)" and quiet_lift: "quiet (lift_res r)"
  by (simp_all add: quiet_def ret_def halt_def lift_res_def split: sum.split)

lemma quiet_upd_exp: "quiet (upd_exp i f)"
  by (auto simp: quiet_def upd_exp_def modify_def failures_def)

lemma quiet_Assert: "quiet (Assert b)"
  by (simp add: quiet_def Assert_def ret_def halt_def)

lemma quiet_log_message: "quiet (log_message sev msg k)"
  by (auto simp: quiet_def log_message_def emit_def modify_def Let_def failures_def is_failure_def)

lemma quiet_same: "(\<And>s. m s = n s s) \<Longrightarrow> (\<And>s. quiet (n s)) \<Longrightarrow> quiet m"
  by (simp add: quiet_def)

lemmas quiet_intros = quiet_bnd quiet_ret quiet_halt quiet_lift quiet_upd_exp quiet_Assert quiet_log_message quiet_if

lemma quiet_CheckActionCountIfNotDone: "quiet (CheckActionCountIfNotDone i)"
  by (rule quiet_same [where n = "\<lambda>s. if action_count_checked (exps s i) then ret ()
      else bnd (upd_exp i (\<lambda>e. e\<lparr>action_count_checked := True\<rparr>)) (\<lambda>_.
        if \<not> cardinality_specified (exps s i) then ret ()
        else if ConservativeUpperBound (cardinality (exps s i)) < int (length (untyped_actions (exps s i))) \<or>
          (int (length (untyped_actions (exps s i))) = ConservativeUpperBound (cardinality (exps s i)) \<and> repeated_action_specified (exps s i))
        then log_message kWarning (action_count_message (exps s i) True) (- 1)
        else if 0 < int (length (untyped_actions (exps s i))) \<and>
          int (length (untyped_actions (exps s i))) < ConservativeLowerBound (cardinality (exps s i)) \<and> \<not> repeated_action_specified (exps s i)
        then log_message kWarning (action_count_message (exps s i) False) (- 1)
        else ret ())"])
    (simp add: CheckActionCountIfNotDone_def Let_def ret_def, intro quiet_intros)

lemma quiet_ShouldHandleArguments: "quiet (ShouldHandleArguments i args)"
  unfolding ShouldHandleArguments_def
proof (rule quiet_bnd [OF quiet_CheckActionCountIfNotDone])
  fix x :: unit
  show "quiet (\<lambda>s. if retired (exps s i) then Inr (False, s)
      else bnd (lift_res (AllPrerequisitesAreSatisfied (exps s) i)) (\<lambda>b. ret (b \<and> Matches (exps s i) args)) s)"
    by (rule quiet_same [where n = "\<lambda>s. if retired (exps s i) then ret False
      else bnd (lift_res (AllPrerequisitesAreSatisfied (exps s) i)) (\<lambda>b. ret (b \<and> Matches (exps s i) args))"])
      (simp add: ret_def, intro quiet_intros)
qed

lemma quiet_find_matching: "quiet (find_matching is args)"
  by (induction "is") (simp_all add: quiet_ret quiet_bnd quiet_ShouldHandleArguments)

lemma quiet_FindMatchingExpectationLocked: "quiet (FindMatchingExpectationLocked m args)"
  by (rule quiet_same [OF FindMatchingExpectationLocked_def quiet_find_matching])

lemma quiet_IncrementCallCount: "quiet (IncrementCallCount i)"
  by (rule quiet_same [OF IncrementCallCount_def], intro quiet_intros)

lemma quiet_RetireAllPreRequisites: "quiet (RetireAllPreRequisites i)"
  by (auto simp: quiet_def RetireAllPreRequisites_def failures_def split: if_splits option.splits)

lemma quiet_GetCurrentAction: "quiet (GetCurrentAction i m args)"
  by (rule quiet_same [OF GetCurrentAction_def [unfolded Let_def]], intro quiet_intros)

lemma quiet_pure: "(\<And>s x s'. m s = Inr (x, s') \<Longrightarrow> s' = s) \<Longrightarrow> quiet m"
  by (auto simp: quiet_def)

lemma quiet_GetActionForArguments: "quiet (GetActionForArguments i m args)"
  unfolding quiet_def
proof (intro allI impI)
  fix s s' :: "('a, 'b) mock_state" and x
  assume a: "GetActionForArguments i m args s = Inr (x, s')"
  show "failures s' = failures s"
  proof (cases "IsSaturated (exps s i)")
    case True
    with a have "IncrementCallCount i s = Inr ((), s')"
      by (auto simp: GetActionForArguments_def bnd_eq_Inr_iff)
    then show ?thesis by (rule quietD [OF quiet_IncrementCallCount])
  next
    case False
    with a obtain t u v action where t: "IncrementCallCount i s = Inr ((), t)" "RetireAllPreRequisites i t = Inr ((), u)"
      "(if retires_on_saturation (exps u i) \<and> IsSaturated (exps u i) then upd_exp i Retire u else Inr ((), u)) = Inr ((), v)"
      "GetCurrentAction i m args v = Inr (action, s')"
      by (auto simp: GetActionForArguments_def bnd_eq_Inr_iff)
    have "failures v = failures u" using t(3) by (auto simp: upd_exp_def modify_def failures_def split: if_splits)
    then show ?thesis
      using quietD [OF quiet_IncrementCallCount t(1)] quietD [OF quiet_RetireAllPreRequisites t(2)]
        quietD [OF quiet_GetCurrentAction t(4)] by simp
  qed
qed

lemma quiet_UntypedFindMatchingExpectation: "quiet (UntypedFindMatchingExpectation m args)"
  unfolding UntypedFindMatchingExpectation_def
proof (rule quiet_bnd [OF quiet_FindMatchingExpectationLocked])
  fix x :: "nat option"
  show "quiet (\<lambda>s. case x of
         None \<Rightarrow>
           bnd (lift_res (FormatUnexpectedCallMessageLocked m args s)) (\<lambda>(wt, wy).
             ret \<lparr>handled_by = None, untyped_action = None, is_excessive = False, what = wt, why = wy\<rparr>) s
       | Some i \<Rightarrow>
           (let excessive = IsSaturated (exps s i) in
            bnd (GetActionForArguments i m args) (\<lambda>(action, wt, wy).
              ret \<lparr>handled_by = Some i,
                   untyped_action = (case action of None \<Rightarrow> None | Some a \<Rightarrow> if IsDoDefault a then None else Some a),
                   is_excessive = excessive, what = wt, why = wy\<rparr>) s))"
  proof (cases x)
    case None
    show ?thesis unfolding None option.case
      by (rule quiet_at, intro quiet_bnd quiet_lift) (auto simp: quiet_ret split: prod.split)
  next
    case (Some i)
    show ?thesis unfolding Some option.case Let_def
      by (rule quiet_at, intro quiet_bnd quiet_GetActionForArguments) (auto simp: quiet_ret split: prod.split)
  qed
qed

subsection \<open>A call through \<open>InvokeWith\<close>\<close>

text \<open>Actions that only give a result.\<close>

definition pure_hooks :: "('a, 'b, 'r) hooks \<Rightarrow> ('b \<Rightarrow> 'a \<Rightarrow> 'r) \<Rightarrow> 'r \<Rightarrow> bool" where
  "pure_hooks h act dflt \<longleftrightarrow>
     (\<forall>b a s. perform_action h b a s = Inr (act b a, s)) \<and> default_value h = Some dflt"

lemma PerformAction_pure:
  assumes "pure_hooks h act dflt" "on_call_specs (mockers s m) = []" "a \<noteq> Some DoDefault"
  shows "PerformAction h m a args s = Inr (case a of Some (Action b) \<Rightarrow> act b args | _ \<Rightarrow> dflt, s)"
proof (cases a)
  case None
  with assms show ?thesis
    by (simp add: PerformAction_def PerformDefaultAction_def FindOnCallSpec_def pure_hooks_def)
next
  case (Some x)
  with assms obtain b where "x = Action b" by (cases x) auto
  with Some assms(1) show ?thesis by (simp add: PerformAction_def pure_hooks_def)
qed

lemma failures_Expect_False:
  "\<exists>s'. Expect False f l msg s = Inr ((), s') \<and> noted s s' \<and> failures s' = failures s @ [Failure f l (cstr msg)]"
  by (simp add: Expect_def emit_def modify_def noted_events failures_def is_failure_def)

lemma InvokeWith_reports:
  assumes hooks: "pure_hooks h act dflt" and specs: "on_call_specs (mockers s m) = []"
    and name: "mocker_name (mockers s m) = Some n" and es: "expectations (mockers s m) \<noteq> []"
    and find: "UntypedFindMatchingExpectation m args s = Inr (hl, t)" and frame: "mockers t = mockers s"
    and action: "untyped_action hl \<noteq> Some DoDefault"
  shows "\<exists>s'. InvokeWith h m args s = Inr (case untyped_action hl of Some (Action b) \<Rightarrow> act b args | _ \<Rightarrow> dflt, s') \<and> noted t s' \<and>
    length (failures s') = length (failures s) + (if handled_by hl = None \<or> is_excessive hl then 1 else 0)"
proof -
  let ?r = "case untyped_action hl of Some (Action b) \<Rightarrow> act b args | _ \<Rightarrow> dflt"
  have q: "failures t = failures s" using quietD [OF quiet_UntypedFindMatchingExpectation find] .
  have perf: "PerformAction h m (untyped_action hl) args t = Inr (?r, t)"
    using PerformAction_pure [OF hooks _ action, of t m] specs frame by simp
  have nm: "Name m t = Inr (n, t)" using name frame by (simp add: Name_def)
  show ?thesis
  proof (cases "handled_by hl = None \<or> is_excessive hl \<or> LogIsVisible (verbose t) kInfo")
    case False
    with perf q find es show ?thesis by (simp add: InvokeWith_def Let_def)
  next
    case True
    have fail: "\<exists>s'. Expect False f l msg t = Inr ((), s') \<and> noted t s' \<and> length (failures s') = length (failures s) + 1" for f l msg
      using failures_Expect_False [of f l msg t] q by auto
    have log: "\<exists>s'. log_message kInfo msg 2 t = Inr ((), s') \<and> noted t s' \<and> length (failures s') = length (failures s)" for msg
      using log_message_noted [of kInfo msg 2 t] quietD [OF quiet_log_message] q by metis
    obtain printed where pp: "PerformActionAndPrintResult h m (untyped_action hl) args t = Inr ((?r, printed), t)"
      using perf by (simp add: PerformActionAndPrintResult_def ret_def)
    show ?thesis
    proof (cases "handled_by hl")
      case None
      then show ?thesis
        using find es nm pp fail [of None "- 1" "(what hl @ ''    Function call: '' @ n @ print_args h args) @ printed @ [LF] @ why hl"]
        by (auto simp: InvokeWith_def Let_def ret_def)
    next
      case (Some i)
      show ?thesis
      proof (cases "is_excessive hl")
        case ex: True
        then show ?thesis
          using Some find es nm pp fail [of "exp_file (exps t i)" "exp_line (exps t i)"
              "(what hl @ ''    Function call: '' @ n @ print_args h args) @ printed @ [LF] @ why hl"]
          by (auto simp: InvokeWith_def Let_def ret_def)
      next
        case ex: False
        then show ?thesis
          using True Some find es nm pp log [of "DescribeLocationTo (exps t i) @
              (what hl @ ''    Function call: '' @ n @ print_args h args) @ printed @ [LF] @ why hl"]
          by (auto simp: InvokeWith_def Let_def ret_def)
      qed
    qed
  qed
qed

subsection \<open>Verification\<close>

lemma verify_expectation_failures:
  "verify_expectation i b s = Inr (x, s') \<Longrightarrow> exps s' = exps s \<and>
     length (failures s') = length (failures s) + (if IsSatisfied (exps s i) \<or> IsOverSaturated (exps s i) then 0 else 1)"
proof -
  assume a: "verify_expectation i b s = Inr (x, s')"
  have over: "IsOverSaturated (exps s i) \<Longrightarrow> \<not> IsSatisfied (exps s i)"
    by (simp add: IsOverSaturated_def IsSatisfied_def IsOverSaturatedByCallCount_def)
  show ?thesis
    using a over
    by (auto simp: verify_expectation_def Let_def ret_def Expect_def emit_def modify_def failures_def is_failure_def bnd_def split: if_splits)
qed

lemma verify_loop_failures:
  "verify_loop is b s = Inr (x, s') \<Longrightarrow> exps s' = exps s \<and>
     length (failures s') = length (failures s) + length (filter (\<lambda>i. \<not> IsSatisfied (exps s i) \<and> \<not> IsOverSaturated (exps s i)) is)"
proof (induction "is" arbitrary: b s)
  case Nil
  then show ?case by (simp add: ret_def)
next
  case (Cons i "is")
  then obtain y t where t: "verify_expectation i b s = Inr (y, t)" "verify_loop is y t = Inr (x, s')"
    by (auto simp: bnd_eq_Inr_iff)
  with Cons.IH [OF t(2)] verify_expectation_failures [OF t(1)] show ?case by auto
qed

end
