(* ===== verification/Gm_Results.thy ===== *)
theory Gm_Results
  imports Gm_Mock_Reports
begin

section \<open>Results on mock functions\<close>

declare One_nat_def [simp del]

subsection \<open>A mock function with two expectations in a sequence\<close>

definition equals :: "nat \<Rightarrow> nat matcher" where
  "equals n = \<lparr>m_matches = (\<lambda>a. a = n), m_explain = (\<lambda>a. []), m_describe = ''is equal to '' @ dec_digits n\<rparr>"

definition demo_start :: "(nat, nat) mock_state" where
  "demo_start =
     \<lparr>exps = (\<lambda>i. new_expectation 0 None 0 [] any_matcher), next_exp = 0, address = id,
      mockers = (\<lambda>m. \<lparr>mock_obj = Some 0, mocker_name = Some ''f'', returns_void = False, on_call_specs = [], expectations = []\<rparr>),
      last_expectation = (\<lambda>sq. None), implicit_sequence = None, next_sequence = 1, states = [], current_test = None,
      reactions = (\<lambda>ob. None), catch_leaked_mocks = True, verbose = kWarningVerbosity, default_mock_behavior = 1,
      ndebug = False, stack_trace = (\<lambda>k. []), events = []\<rparr>"

text \<open>The state after a command, and the same state when it does not return.\<close>

definition state_after :: "('s, 'c) cmd \<Rightarrow> 's \<Rightarrow> 's" where
  "state_after m s = (case m s of Inl e \<Rightarrow> s | Inr (x, s') \<Rightarrow> s')"

definition demo_expect :: "nat \<Rightarrow> (nat, nat) clause list \<Rightarrow> (nat, nat) mock_state \<Rightarrow> (nat, nat) mock_state" where
  "demo_expect n cs = state_after (bnd (InternalExpectedAt 0 (Some ''t.cc'') 1 ''m'' ''f'' (equals n)) (\<lambda>i. run_clauses i cs))"

definition demo_call :: "nat \<Rightarrow> (nat, nat) mock_state \<Rightarrow> (nat, nat) mock_state" where
  "demo_call a = state_after (UntypedFindMatchingExpectation 0 a)"

text \<open>\<open>f(1)\<close> is expected once, and \<open>f(2)\<close> once after it.\<close>

definition demo_ready :: "(nat, nat) mock_state" where
  "demo_ready = demo_expect 2 [After_clause [0]] (demo_expect 1 [] demo_start)"

definition demo :: "(nat, nat) mock_state" where
  "demo = demo_call 2 (demo_call 1 demo_ready)"

lemma demo_expect_reachable:
  assumes "mock_reachable s" "mock_obj (mockers s 0) = Some 0" "\<forall>c \<in> set cs. clause_ok (next_exp s) c"
  shows "mock_reachable (demo_expect n cs s)"
proof -
  from InternalExpectedAt_fresh [OF mock_reachable_inv [OF assms(1)] assms(2), of "Some ''t.cc''" 1 "''m''" "''f''" "equals n"]
  obtain t where t: "InternalExpectedAt 0 (Some ''t.cc'') 1 ''m'' ''f'' (equals n) s = Inr (next_exp s, t)" "fresh (next_exp s) t"
    by blast
  obtain x u where "run_clauses (next_exp s) cs t = Inr (x, u)"
    using keepsD [OF keeps_run_clauses [OF assms(3)] t(2)] by blast
  then have u: "run_clauses (next_exp s) cs t = Inr ((), u)" by simp
  have "demo_expect n cs s = u" using t(1) u by (simp add: demo_expect_def state_after_def)
  then show ?thesis
    using mock_reachable.step [OF assms(1) mock_step.expect_call [OF assms(2) t(1) assms(3) u]] by simp
qed

lemma demo_call_reachable: "mock_reachable s \<Longrightarrow> mock_reachable (demo_call a s)"
  using mock_reachable.step [OF _ mock_step.call]
  by (auto simp: demo_call_def state_after_def split: sum.split prod.split)

lemma demo_start_reachable: "mock_reachable demo_start"
  by (rule mock_reachable.init) (simp add: mock_init_def demo_start_def)

text \<open>The effect of the two statements.\<close>

lemma InternalExpectedAt_silent:
  assumes "verbose s = kWarningVerbosity" "mock_obj (mockers s m) = Some ob" "implicit_sequence s = None"
  shows "\<exists>sts. InternalExpectedAt m f l obj call ms s = Inr (next_exp s,
    s\<lparr>states := sts, exps := (exps s)(next_exp s := new_expectation m f l (''EXPECT_CALL('' @ obj @ '', '' @ call @ '')'') ms),
      next_exp := next_exp s + 1,
      mockers := (mockers s)(m := (mockers s m)\<lparr>expectations := expectations (mockers s m) @ [next_exp s]\<rparr>)\<rparr>)"
proof -
  obtain sts where r: "RegisterUseByOnCallOrExpectCall ob f l s = Inr ((), s\<lparr>states := sts\<rparr>)"
    by (simp add: RegisterUseByOnCallOrExpectCall_def upd_object_def modify_def)
  have "LogWithLocation kInfo f l msg s = Inr ((), s)" for msg
    using assms(1) by (simp add: LogWithLocation_def log_message_def Log_def LogIsVisible_def kWarningVerbosity_def kInfoVerbosity_def kErrorVerbosity_def)
  with assms r show ?thesis
    by (intro exI [of _ sts]) (simp add: InternalExpectedAt_def AddNewExpectation_def MockObject_def Let_def cmd_simps)
qed

lemma demo_expect_1:
  "\<exists>sts. demo_expect 1 [] demo_start = demo_start\<lparr>states := sts,
     exps := (exps demo_start)(0 := new_expectation 0 (Some ''t.cc'') 1 ''EXPECT_CALL(m, f)'' (equals 1)), next_exp := 1,
     mockers := (mockers demo_start)(0 := (mockers demo_start 0)\<lparr>expectations := [0]\<rparr>)\<rparr>"
proof -
  have d: "verbose demo_start = kWarningVerbosity" "mock_obj (mockers demo_start 0) = Some 0" "implicit_sequence demo_start = None"
    "next_exp demo_start = 0" "expectations (mockers demo_start 0) = []" by (simp_all add: demo_start_def)
  from InternalExpectedAt_silent [OF d(1-3), of "Some ''t.cc''" 1 "''m''" "''f''" "equals 1"] d(4,5)
  show ?thesis by (auto simp: demo_expect_def state_after_def ret_def)
qed

definition demo_exps :: "nat \<Rightarrow> (nat, nat) expectation" where
  "demo_exps = (exps demo_start)
     (0 := new_expectation 0 (Some ''t.cc'') 1 ''EXPECT_CALL(m, f)'' (equals 1),
      1 := (new_expectation 0 (Some ''t.cc'') 1 ''EXPECT_CALL(m, f)'' (equals 2))
             \<lparr>last_clause := kAfter, immediate_prerequisites := [0]\<rparr>)"

lemma demo_ready_eq: "exps demo_ready = demo_exps" "expectations (mockers demo_ready 0) = [0, 1]"
proof -
  obtain sts where s1: "demo_expect 1 [] demo_start = demo_start\<lparr>states := sts,
     exps := (exps demo_start)(0 := new_expectation 0 (Some ''t.cc'') 1 ''EXPECT_CALL(m, f)'' (equals 1)), next_exp := 1,
     mockers := (mockers demo_start)(0 := (mockers demo_start 0)\<lparr>expectations := [0]\<rparr>)\<rparr>"
    (is "_ = ?s") using demo_expect_1 by blast
  have d: "verbose ?s = kWarningVerbosity" "mock_obj (mockers ?s 0) = Some 0" "implicit_sequence ?s = None"
    "next_exp ?s = 1" "expectations (mockers ?s 0) = [0]" by (simp_all add: demo_start_def)
  have "ExpectSpecProperty 1 (last_clause (exps t 1) \<le> kAfter) msg t = Inr ((), t)" if "last_clause (exps t 1) = kNone"
    for t :: "(nat, nat) mock_state" and msg
    using that by (simp add: ExpectSpecProperty_def Expect_def ret_def less_eq_Clause_def)
  then have after: "After 1 [0] t = Inr ((), t\<lparr>exps := (exps t)(1 := (exps t 1)\<lparr>last_clause := kAfter, immediate_prerequisites := [0]\<rparr>)\<rparr>)"
    if "last_clause (exps t 1) = kNone" "immediate_prerequisites (exps t 1) = []" for t :: "(nat, nat) mock_state"
    using that by (simp add: After_def upd_exp_def modify_def set_insert_def)
  obtain sts2 where i: "InternalExpectedAt 0 (Some ''t.cc'') 1 ''m'' ''f'' (equals 2) ?s = Inr (1,
    ?s\<lparr>states := sts2, exps := (exps ?s)(1 := new_expectation 0 (Some ''t.cc'') 1 ''EXPECT_CALL(m, f)'' (equals 2)),
      next_exp := 2, mockers := (mockers ?s)(0 := (mockers ?s 0)\<lparr>expectations := [0, 1]\<rparr>)\<rparr>)"
    (is "_ = Inr (1, ?u)")
    using InternalExpectedAt_silent [OF d(1-3), of "Some ''t.cc''" 1 "''m''" "''f''" "equals 2"] d(4,5) by auto
  have "last_clause (exps ?u 1) = kNone" "immediate_prerequisites (exps ?u 1) = []" by (simp_all add: new_expectation_def)
  from after [OF this] i have r: "demo_ready =
    ?u\<lparr>exps := (exps ?u)(1 := (exps ?u 1)\<lparr>last_clause := kAfter, immediate_prerequisites := [0]\<rparr>)\<rparr>"
    unfolding demo_ready_def s1 by (simp add: demo_expect_def state_after_def ret_def)
  show "exps demo_ready = demo_exps" unfolding r demo_exps_def by simp
  show "expectations (mockers demo_ready 0) = [0, 1]" unfolding r by simp
qed

lemma demo_ready_reachable: "mock_reachable demo_ready"
proof -
  obtain sts where s1: "demo_expect 1 [] demo_start = demo_start\<lparr>states := sts,
     exps := (exps demo_start)(0 := new_expectation 0 (Some ''t.cc'') 1 ''EXPECT_CALL(m, f)'' (equals 1)), next_exp := 1,
     mockers := (mockers demo_start)(0 := (mockers demo_start 0)\<lparr>expectations := [0]\<rparr>)\<rparr>"
    using demo_expect_1 by blast
  have "mock_reachable (demo_expect 1 [] demo_start)"
    by (rule demo_expect_reachable [OF demo_start_reachable]) (simp_all add: demo_start_def)
  then show ?thesis unfolding demo_ready_def
    by (rule demo_expect_reachable) (simp_all add: s1, simp add: demo_start_def)
qed

lemma demo_exps_simps:
  "immediate_prerequisites (demo_exps 0) = []" "immediate_prerequisites (demo_exps 1) = [0]"
  "call_count (demo_exps i) = 0" "\<not> retired (demo_exps i)" "\<not> retires_on_saturation (demo_exps i)"
  "cardinality (demo_exps i) = \<lparr>min_calls = 1, max_calls = 1\<rparr>"
  "Matches (demo_exps 0) a \<longleftrightarrow> a = 1" "Matches (demo_exps 1) a \<longleftrightarrow> a = 2"
  using Exactly_nat [of 1]
  by (simp_all add: demo_exps_def new_expectation_def demo_start_def Matches_def equals_def any_matcher_def)

lemma demo_before: "before demo_exps p 0 \<longleftrightarrow> False" "before demo_exps p 1 \<longleftrightarrow> p = 0"
  using before_step [of demo_exps p 0] before_step [of demo_exps p 1] before_step [of demo_exps _ 0]
  by (simp_all add: demo_exps_simps)

lemma demo_call_1:
  "noted (demo_ready\<lparr>exps := demo_exps(0 := (demo_exps 0)\<lparr>call_count := 1\<rparr>)\<rparr>) (demo_call 1 demo_ready)"
proof -
  have h: "handler demo_ready 0 1 = Some 0"
    by (simp add: handler_def demo_ready_eq handles_def demo_exps_simps demo_before)
  have ns: "\<not> IsSaturated (demo_exps 0)" by (simp add: IsSaturated_def IsSaturatedByCallCount_def demo_exps_simps)
  have "taken 0 demo_exps = demo_exps(0 := (demo_exps 0)\<lparr>call_count := 1\<rparr>)"
    using ns by (auto simp: taken_def Let_def demo_before demo_exps_simps)
  with call_expected [OF mock_reachable_inv [OF demo_ready_reachable] h] show ?thesis
    by (auto simp: demo_ready_eq demo_exps_simps INT_MAX_def demo_call_def state_after_def)
qed

lemma demo_call_2:
  "noted ((demo_call 1 demo_ready)\<lparr>exps := taken 1 (exps (demo_call 1 demo_ready))\<rparr>) demo"
  "\<not> IsSaturated (exps (demo_call 1 demo_ready) 1)" "before (exps (demo_call 1 demo_ready)) 0 1"
proof -
  note n = demo_call_1
  have b: "before (exps (demo_call 1 demo_ready)) = before demo_exps"
    by (rule before_cong) (simp add: noted_simps [OF n])
  have e: "call_count (exps (demo_call 1 demo_ready) 1) = 0" "expectations (mockers (demo_call 1 demo_ready) 0) = [0, 1]"
    "\<not> retired (exps (demo_call 1 demo_ready) 1)" "Matches (exps (demo_call 1 demo_ready) 1) 2"
    "IsSatisfied (exps (demo_call 1 demo_ready) 0)"
    by (simp_all add: noted_simps [OF n] demo_ready_eq demo_exps_simps IsSatisfied_def IsSatisfiedByCallCount_def)
  show ns: "\<not> IsSaturated (exps (demo_call 1 demo_ready) 1)"
    by (simp add: noted_simps [OF n] IsSaturated_def IsSaturatedByCallCount_def demo_exps_simps)
  have h: "handler (demo_call 1 demo_ready) 0 2 = Some 1" using e by (simp add: handler_def handles_def b demo_before)
  from call_expected [OF mock_reachable_inv [OF demo_call_reachable [OF demo_ready_reachable]] h] e(1)
  show "noted ((demo_call 1 demo_ready)\<lparr>exps := taken 1 (exps (demo_call 1 demo_ready))\<rparr>) demo"
    by (auto simp: demo_def demo_call_def state_after_def INT_MAX_def)
  show "before (exps (demo_call 1 demo_ready)) 0 1" by (simp add: b demo_before)
qed

lemma demo_reachable: "mock_reachable demo"
  unfolding demo_def by (intro demo_call_reachable demo_ready_reachable)

lemma demo_facts: "before (exps demo) 0 1" "call_count (exps demo 1) = 1" "max_calls (cardinality (exps demo 1)) = 1"
proof -
  note n = demo_call_2(1)
  have "before (exps demo) = before (exps (demo_call 1 demo_ready))"
    by (rule before_cong) (simp add: noted_simps [OF n] taken_prereqs)
  then show "before (exps demo) 0 1" using demo_call_2(3) by simp
  show "call_count (exps demo 1) = 1" "max_calls (cardinality (exps demo 1)) = 1"
    using demo_call_2(2)
    by (auto simp: noted_simps [OF n] taken_owner noted_simps [OF demo_call_1] demo_exps_simps)
      (simp add: taken_def Let_def Retire_def noted_simps [OF demo_call_1] demo_exps_simps)
qed

subsection \<open>Order\<close>

lemma handled_by_handler:
  assumes "mock_inv s" "UntypedFindMatchingExpectation m args s = Inr (h, s')"
  shows "handled_by h = handler s m args"
proof (cases "handler s m args")
  case None
  with assms call_unexpected [OF assms(1) None] show ?thesis by auto
next
  case (Some i)
  show ?thesis
  proof (cases "call_count (exps s i) < INT_MAX")
    case True
    with assms call_expected [OF assms(1) Some True] Some show ?thesis by auto
  next
    case False
    with assms call_overflow [OF assms(1) Some] show ?thesis by simp
  qed
qed

text \<open>C25. Expected orders are kept.  In every reachable state, once an expectation has taken a call
  within its bounds or has retired, all its direct and indirect pre-requisites are satisfied and
  retired, and no later call can be handled by one of them.\<close>

theorem prerequisites_are_settled:
  assumes "mock_reachable s" "before (exps s) p i"
    "retired (exps s i) \<or> (0 < call_count (exps s i) \<and> 0 < max_calls (cardinality (exps s i)))"
  shows "retired (exps s p) \<and> IsSatisfied (exps s p) \<and>
    (\<forall>m args h s'. UntypedFindMatchingExpectation m args s = Inr (h, s') \<longrightarrow> handled_by h \<noteq> Some p)"
proof -
  note inv = mock_reachable_inv [OF assms(1)]
  have p: "retired (exps s p)" "IsSatisfied (exps s p)" using exp_ok_before [OF inv assms(2,3)] by simp_all
  have "handler s m args \<noteq> Some p" for m args using p(1) handlerD [of s m args p] by (auto simp: handles_def)
  with p handled_by_handler [OF inv] show ?thesis by metis
qed

lemma prerequisites_are_settled_witness:
  "retired (exps demo 0) \<and> IsSatisfied (exps demo 0)"
  using prerequisites_are_settled [OF demo_reachable demo_facts(1)] demo_facts(2,3) by simp

subsection \<open>Calls\<close>

text \<open>C24. A call is handled by the last expectation of its function that is active, whose pre-requisites are
  all satisfied and which matches the arguments, and is unexpected when there is none.  The handler's
  count grows by one and no other; a handler below its bound gives the action for this call, and its
  pre-requisites retire, as it does itself if it retires on saturation and the call saturates it.
  A call too many gets no action and retires nothing.\<close>

theorem call_goes_to_last_match:
  assumes "mock_reachable s" "\<forall>i. call_count (exps s i) < INT_MAX"
  shows "\<exists>h s'. UntypedFindMatchingExpectation m args s = Inr (h, s') \<and> mock_reachable s' \<and>
    handled_by h = List.find (\<lambda>i. \<not> retired (exps s i) \<and> (\<forall>p. before (exps s) p i \<longrightarrow> IsSatisfied (exps s p)) \<and>
      Matches (exps s i) args) (rev (expectations (mockers s m))) \<and>
    (\<forall>j. call_count (exps s' j) = call_count (exps s j) + (if handled_by h = Some j then 1 else 0)) \<and>
    (\<forall>j. retired (exps s' j) \<longleftrightarrow> retired (exps s j) \<or> (\<exists>i. handled_by h = Some i \<and> \<not> IsSaturated (exps s i) \<and>
      (before (exps s) j i \<or> j = i \<and> retires_on_saturation (exps s i) \<and> max_calls (cardinality (exps s i)) \<le> call_count (exps s i) + 1))) \<and>
    (\<forall>i. handled_by h = Some i \<longrightarrow> is_excessive h = IsSaturated (exps s i) \<and>
      untyped_action h = (if IsSaturated (exps s i) then None else normal_action (action_for (exps s i) (call_count (exps s i) + 1))))"
proof -
  note inv = mock_reachable_inv [OF assms(1)]
  have f: "List.find (\<lambda>i. \<not> retired (exps s i) \<and> (\<forall>p. before (exps s) p i \<longrightarrow> IsSatisfied (exps s p)) \<and>
      Matches (exps s i) args) (rev (expectations (mockers s m))) = handler s m args"
    unfolding handler_def by (rule arg_cong2 [where f = List.find]) (auto simp: handles_def)
  show ?thesis
  proof (cases "handler s m args")
    case None
    then obtain h s' where h: "UntypedFindMatchingExpectation m args s = Inr (h, s')" "noted s s'" "handled_by h = None"
      using call_unexpected [OF inv] by blast
    have "mock_reachable s'" using mock_reachable.step [OF assms(1) mock_step.call [OF h(1)]] .
    with h f None show ?thesis by (intro exI [of _ h] exI [of _ s']) (simp add: noted_simps)
  next
    case (Some i)
    then obtain h s' where h: "UntypedFindMatchingExpectation m args s = Inr (h, s')" "noted (s\<lparr>exps := taken i (exps s)\<rparr>) s'"
      "handled_by h = Some i" "is_excessive h = IsSaturated (exps s i)"
      "untyped_action h = (if IsSaturated (exps s i) then None else normal_action (action_for (exps s i) (call_count (exps s i) + 1)))"
      using call_expected [OF inv Some] assms(2) by blast
    have r: "mock_reachable s'" using mock_reachable.step [OF assms(1) mock_step.call [OF h(1)]] .
    have irr: "\<not> before (exps s) i i" using before_less [OF mock_inv_ordered [OF inv], of i i] by blast
    have c: "call_count (exps s' j) = call_count (exps s j) + (if handled_by h = Some j then 1 else 0)" for j
      using h(3) by (auto simp: noted_simps [OF h(2)] taken_def Let_def Retire_def)
    have ret: "retired (exps s' j) \<longleftrightarrow> retired (exps s j) \<or> (\<exists>i. handled_by h = Some i \<and> \<not> IsSaturated (exps s i) \<and>
      (before (exps s) j i \<or> j = i \<and> retires_on_saturation (exps s i) \<and> max_calls (cardinality (exps s i)) \<le> call_count (exps s i) + 1))" for j
      using h(3) irr
      by (auto simp: noted_simps [OF h(2)] taken_def Let_def Retire_def call_count_update IsSaturatedByCallCount_def)
    show ?thesis
      by (rule exI [of _ h], rule exI [of _ s']) (simp add: h r c ret f Some)
  qed
qed

lemma call_goes_to_last_match_witness:
  "\<exists>h s'. UntypedFindMatchingExpectation 0 2 demo_ready = Inr (h, s') \<and> handled_by h = None \<and> call_count (exps s' 1) = 0"
proof -
  have c: "\<forall>i. call_count (exps demo_ready i) < INT_MAX" by (simp add: demo_ready_eq demo_exps_simps INT_MAX_def)
  have "\<not> IsSatisfied (demo_exps 0)" by (simp add: IsSatisfied_def IsSatisfiedByCallCount_def demo_exps_simps)
  then have "List.find (\<lambda>i. \<not> retired (exps demo_ready i) \<and> (\<forall>p. before (exps demo_ready) p i \<longrightarrow> IsSatisfied (exps demo_ready p)) \<and>
      Matches (exps demo_ready i) 2) (rev (expectations (mockers demo_ready 0))) = None"
    by (simp add: demo_ready_eq demo_exps_simps demo_before)
  with call_goes_to_last_match [OF demo_ready_reachable c, of 0 2] show ?thesis
    by (auto simp: demo_ready_eq demo_exps_simps)
qed

text \<open>The three walks over the pre-requisites end in every reachable state, and are right: one tells whether
  all direct and indirect pre-requisites are satisfied, one finds unsatisfied ones, at least one if there are any,
  and one retires exactly the pre-requisites.\<close>

theorem prerequisite_walks_end:
  assumes "mock_reachable s"
  shows "AllPrerequisitesAreSatisfied (exps s) i = Inr (\<forall>p. before (exps s) p i \<longrightarrow> IsSatisfied (exps s p)) \<and>
    (\<exists>ps. FindUnsatisfiedPrerequisites (address s) (exps s) i = Inr ps \<and>
      (\<forall>p \<in> set ps. before (exps s) p i \<and> \<not> IsSatisfied (exps s p)) \<and>
      (ps = [] \<longleftrightarrow> (\<forall>p. before (exps s) p i \<longrightarrow> IsSatisfied (exps s p)))) \<and>
    (\<exists>s'. RetireAllPreRequisites i s = Inr ((), s') \<and> (\<forall>j. retired (exps s' j) \<longleftrightarrow> retired (exps s j) \<or> before (exps s) j i))"
proof (intro conjI)
  note inv = mock_reachable_inv [OF assms]
  show "AllPrerequisitesAreSatisfied (exps s) i = Inr (\<forall>p. before (exps s) p i \<longrightarrow> IsSatisfied (exps s p))"
    by (rule AllPrerequisitesAreSatisfied_iff [OF mock_inv_ordered [OF inv]])
  show "\<exists>ps. FindUnsatisfiedPrerequisites (address s) (exps s) i = Inr ps \<and>
      (\<forall>p \<in> set ps. before (exps s) p i \<and> \<not> IsSatisfied (exps s p)) \<and>
      (ps = [] \<longleftrightarrow> (\<forall>p. before (exps s) p i \<longrightarrow> IsSatisfied (exps s p)))"
    by (rule FindUnsatisfiedPrerequisites_eq [OF mock_inv_ordered [OF inv] mock_inv_called_ok [OF inv]])
  show "\<exists>s'. RetireAllPreRequisites i s = Inr ((), s') \<and> (\<forall>j. retired (exps s' j) \<longleftrightarrow> retired (exps s j) \<or> before (exps s) j i)"
    using RetireAllPreRequisites_eq [OF mock_inv_ordered [OF inv] mock_inv_closed [OF inv], of i] by auto
qed

lemma prerequisite_walks_end_witness:
  "AllPrerequisitesAreSatisfied demo_exps 1 = Inr False \<and>
   (\<exists>ps. FindUnsatisfiedPrerequisites (address demo_ready) demo_exps 1 = Inr ps \<and> ps \<noteq> [])"
proof -
  have "\<not> IsSatisfied (demo_exps 0)" by (simp add: IsSatisfied_def IsSatisfiedByCallCount_def demo_exps_simps)
  with prerequisite_walks_end [OF demo_ready_reachable, of 1] show ?thesis by (auto simp: demo_ready_eq demo_before)
qed

subsection \<open>Failures\<close>



end
