(* ===== verification/Gt_Report.thy ===== *)
theory Gt_Report
  imports Gt_Runner "HOL-Library.Signed_Division"
begin

section \<open>Results, properties and the reports\<close>

text \<open>
  What the writers of the XML and JSON reports read: parts with their locations, the properties that user code
  records, and times.  The suites and tests stand in the order in which \<open>GetTestSuite\<close> and
  \<open>GetTestInfo\<close> give them.  \<open>base_suite\<close> forgets what only the reports need, so that the verdicts and counts are those of the
  test runner.  The text of a duration, which the code prints as a \<open>double\<close>, and the local time are parameters.
\<close>

record test_part =
  tp_type :: part_type
  tp_file :: "string option"
  tp_line :: int
  tp_summary :: string
  tp_message :: string

record result =
  tr_parts :: "test_part list"
  tr_properties :: "(string \<times> string) list"
  tr_elapsed :: int
  tr_start :: int

record report_test =
  rt_name :: string
  rt_value_param :: "string option"
  rt_type_param :: "string option"
  rt_file :: string
  rt_line :: int
  rt_should_run :: bool
  rt_is_disabled :: bool
  rt_matches_filter :: bool
  rt_in_another_shard :: bool
  rt_result :: result

record report_suite =
  rs_name :: string
  rs_tests :: "report_test list"
  rs_should_run :: bool
  rs_ad_hoc :: result
  rs_elapsed :: int
  rs_start :: int

record report =
  ru_suites :: "report_suite list"
  ru_ad_hoc :: result
  ru_random_seed :: int
  ru_elapsed :: int
  ru_start :: int

record tm =
  tm_year :: int
  tm_mon :: int
  tm_mday :: int
  tm_hour :: int
  tm_min :: int
  tm_sec :: int

record report_env =
  seconds_text :: "int \<Rightarrow> string"
  duration_text :: "int \<Rightarrow> string"
  localtime :: "int \<Rightarrow> tm option"
  list_tests :: bool
  shuffle_flag :: bool

definition base_part :: "test_part \<Rightarrow> part_result" where
  "base_part p = \<lparr>pr_type = tp_type p, pr_message = tp_message p\<rparr>"

definition base_result :: "result \<Rightarrow> test_result" where
  "base_result r = map base_part (tr_parts r)"

definition no_code :: "unit code" where "no_code w = ([], None, w)"

definition base_test :: "report_test \<Rightarrow> unit test_info" where
  "base_test t = \<lparr>ti_name = rt_name t, ti_same_class = True, ti_should_run = rt_should_run t,
     ti_is_disabled = rt_is_disabled t, ti_matches_filter = rt_matches_filter t,
     ti_in_another_shard = rt_in_another_shard t, ti_result = base_result (rt_result t), ti_ctor = no_code,
     ti_setup = no_code, ti_body = no_code, ti_teardown = no_code, ti_dtor = no_code\<rparr>"

definition base_suite :: "report_suite \<Rightarrow> unit test_suite" where
  "base_suite s = \<lparr>ts_name = rs_name s, ts_tests = map base_test (rs_tests s),
     ts_indices = [0..<length (rs_tests s)], ts_should_run = rs_should_run s,
     ts_ad_hoc = base_result (rs_ad_hoc s), ts_setup = no_code, ts_teardown = no_code\<rparr>"

subsection \<open>Parts\<close>

text \<open>The message without the stack trace.\<close>

definition kStackTraceMarker :: string where
  "kStackTraceMarker = [LF] @ ''Stack trace:'' @ [LF]"

fun strstr :: "string \<Rightarrow> string \<Rightarrow> nat option" where
  "strstr haystack needle =
     (if take (length needle) haystack = needle then Some 0
      else case haystack of [] \<Rightarrow> None | _ # rest \<Rightarrow> map_option Suc (strstr rest needle))"

declare strstr.simps [simp del]

definition ExtractSummary :: "string \<Rightarrow> string" where
  "ExtractSummary message = (case strstr message kStackTraceMarker of None \<Rightarrow> message | Some n \<Rightarrow> take n message)"

definition TestPartResult :: "part_type \<Rightarrow> string option \<Rightarrow> int \<Rightarrow> string \<Rightarrow> test_part" where
  "TestPartResult a_type a_file_name a_line_number a_message =
     \<lparr>tp_type = a_type, tp_file = (case a_file_name of None \<Rightarrow> None | Some f \<Rightarrow> if f = [] then None else Some f),
      tp_line = a_line_number, tp_summary = ExtractSummary a_message, tp_message = a_message\<rparr>"

definition test_part_failed :: "test_part \<Rightarrow> bool" where
  "test_part_failed p \<longleftrightarrow> tp_type p = kFatalFailure \<or> tp_type p = kNonFatalFailure"

definition test_part_skipped :: "test_part \<Rightarrow> bool" where
  "test_part_skipped p \<longleftrightarrow> tp_type p = kSkip"

definition FormatCompilerIndependentFileLocation :: "string option \<Rightarrow> int \<Rightarrow> string" where
  "FormatCompilerIndependentFileLocation file_name line =
     (let f = (case file_name of None \<Rightarrow> ''unknown file'' | Some f \<Rightarrow> f) in
      if line < 0 then f else f @ '':'' @ dec_int line)"

definition part_location :: "test_part \<Rightarrow> string" where
  "part_location p = FormatCompilerIndependentFileLocation (tp_file p) (tp_line p)"

subsection \<open>Recorded properties\<close>

definition kReservedTestSuitesAttributes :: "string list" where
  "kReservedTestSuitesAttributes =
     [''disabled'', ''errors'', ''failures'', ''name'', ''random_seed'', ''tests'', ''time'', ''timestamp'']"

definition kReservedTestSuiteAttributes :: "string list" where
  "kReservedTestSuiteAttributes =
     [''disabled'', ''errors'', ''failures'', ''name'', ''tests'', ''time'', ''timestamp'', ''skipped'']"

definition kReservedTestCaseAttributes :: "string list" where
  "kReservedTestCaseAttributes =
     [''classname'', ''name'', ''status'', ''time'', ''type_param'', ''value_param'', ''file'', ''line'']"

definition kReservedOutputTestCaseAttributes :: "string list" where
  "kReservedOutputTestCaseAttributes =
     [''classname'', ''name'', ''status'', ''time'', ''type_param'', ''value_param'', ''file'', ''line'', ''result'', ''timestamp'']"

definition GetReservedAttributesForElement :: "string \<Rightarrow> stop + string list" where
  "GetReservedAttributesForElement xml_element =
     (if xml_element = ''testsuites'' then Inr kReservedTestSuitesAttributes
      else if xml_element = ''testsuite'' then Inr kReservedTestSuiteAttributes
      else if xml_element = ''testcase'' then Inr kReservedTestCaseAttributes
      else Inl Assert_fail)"

definition GetReservedOutputAttributesForElement :: "string \<Rightarrow> stop + string list" where
  "GetReservedOutputAttributesForElement xml_element =
     (if xml_element = ''testsuites'' then Inr kReservedTestSuitesAttributes
      else if xml_element = ''testsuite'' then Inr kReservedTestSuiteAttributes
      else if xml_element = ''testcase'' then Inr kReservedOutputTestCaseAttributes
      else Inl Assert_fail)"

definition FormatWordList :: "string list \<Rightarrow> string" where
  "FormatWordList words =
     concat (map (\<lambda>i. (if 0 < i \<and> 2 < length words then '', '' else []) @
                      (if i = length words - 1 then ''and '' else []) @ [CHR 0x27] @ words ! i @ [CHR 0x27])
              [0..<length words])"

text \<open>The failures that are added are returned with the answer.\<close>

definition ValidateTestPropertyName :: "string \<Rightarrow> string list \<Rightarrow> bool \<times> string list" where
  "ValidateTestPropertyName property_name reserved_names =
     (if property_name \<in> set reserved_names
      then (False, [''Reserved key used in RecordProperty(): '' @ property_name @ '' ('' @ FormatWordList reserved_names @
                    '' are reserved by Google Test)''])
      else (True, []))"

definition ValidateTestProperty :: "string \<Rightarrow> string \<times> string \<Rightarrow> stop + bool \<times> string list" where
  "ValidateTestProperty xml_element test_property =
     bindr (GetReservedAttributesForElement xml_element) (\<lambda>names. Inr (ValidateTestPropertyName (fst test_property) names))"

fun set_property :: "string \<times> string \<Rightarrow> (string \<times> string) list \<Rightarrow> (string \<times> string) list" where
  "set_property p [] = [p]"
| "set_property p (q # qs) = (if fst q = fst p then (fst q, snd p) # qs else q # set_property p qs)"

definition RecordProperty :: "string \<Rightarrow> string \<times> string \<Rightarrow> result \<Rightarrow> stop + result \<times> string list" where
  "RecordProperty xml_element test_property r =
     bindr (ValidateTestProperty xml_element test_property) (\<lambda>(valid, fs).
       Inr (if valid then r\<lparr>tr_properties := set_property test_property (tr_properties r)\<rparr> else r, fs))"

text \<open>Where a property goes: to the current test of the current suite, to the current suite, or to the program.\<close>

definition UnitTest_RecordProperty ::
  "(nat \<times> nat option) option \<Rightarrow> string \<times> string \<Rightarrow> report \<Rightarrow> stop + report \<times> string list" where
  "UnitTest_RecordProperty current p u =
     (case current of
        Some (i, Some j) \<Rightarrow>
          bindr (vat (ru_suites u) i) (\<lambda>s. bindr (vat (rs_tests s) j) (\<lambda>t.
          bindr (RecordProperty ''testcase'' p (rt_result t)) (\<lambda>(r, fs).
            Inr (u\<lparr>ru_suites := (ru_suites u)[i := s\<lparr>rs_tests := (rs_tests s)[j := t\<lparr>rt_result := r\<rparr>]\<rparr>]\<rparr>, fs))))
      | Some (i, None) \<Rightarrow>
          bindr (vat (ru_suites u) i) (\<lambda>s.
          bindr (RecordProperty ''testsuite'' p (rs_ad_hoc s)) (\<lambda>(r, fs).
            Inr (u\<lparr>ru_suites := (ru_suites u)[i := s\<lparr>rs_ad_hoc := r\<rparr>]\<rparr>, fs)))
      | None \<Rightarrow>
          bindr (RecordProperty ''testsuites'' p (ru_ad_hoc u)) (\<lambda>(r, fs). Inr (u\<lparr>ru_ad_hoc := r\<rparr>, fs)))"

subsection \<open>Counts\<close>

definition rs_is_reportable :: "report_test \<Rightarrow> bool" where
  "rs_is_reportable t = is_reportable (base_test t)"

definition ru_sum :: "(unit test_suite \<Rightarrow> nat) \<Rightarrow> report \<Rightarrow> nat" where
  "ru_sum f u = SumOverTestSuiteList (map base_suite (ru_suites u)) f"

definition dec_nat :: "nat \<Rightarrow> string" where "dec_nat n = dec_int (int n)"

subsection \<open>Times\<close>

definition FormatEpochTimeInMillisAsIso8601 :: "report_env \<Rightarrow> int \<Rightarrow> string" where
  "FormatEpochTimeInMillisAsIso8601 env ms =
     (case localtime env (ms sdiv 1000) of
        None \<Rightarrow> []
      | Some t \<Rightarrow>
          dec_int (tm_year t + 1900) @ ''-'' @ FormatIntWidth2 (tm_mon t + 1) @ ''-'' @ FormatIntWidth2 (tm_mday t) @ ''T'' @
          FormatIntWidth2 (tm_hour t) @ '':'' @ FormatIntWidth2 (tm_min t) @ '':'' @ FormatIntWidth2 (tm_sec t) @ ''.'' @
          FormatIntWidthN (ms smod 1000) 3)"

definition FormatEpochTimeInMillisAsRFC3339 :: "report_env \<Rightarrow> int \<Rightarrow> string" where
  "FormatEpochTimeInMillisAsRFC3339 env ms =
     (case localtime env (ms sdiv 1000) of
        None \<Rightarrow> []
      | Some t \<Rightarrow>
          dec_int (tm_year t + 1900) @ ''-'' @ FormatIntWidth2 (tm_mon t + 1) @ ''-'' @ FormatIntWidth2 (tm_mday t) @ ''T'' @
          FormatIntWidth2 (tm_hour t) @ '':'' @ FormatIntWidth2 (tm_min t) @ '':'' @ FormatIntWidth2 (tm_sec t) @ ''Z'')"

subsection \<open>Writing to a stream\<close>

text \<open>The writes of a function in their order; a failed check ends the process.\<close>

fun outs :: "(stop + string) list \<Rightarrow> stop + string" where
  "outs [] = Inr []"
| "outs (x # xs) = bindr x (\<lambda>a. bindr (outs xs) (\<lambda>b. Inr (a @ b)))"

definition put :: "string \<Rightarrow> stop + string" where "put s = Inr s"

lemma put_Inr [simp]: "put s = Inr s"
  by (simp add: put_def)

end
