(* ===== verification/Gt_Xml.thy ===== *)
theory Gt_Xml
  imports Gt_Report
begin

section \<open>The XML report\<close>

text \<open>The class \<open>XmlUnitTestResultPrinter\<close> of \<open>gtest.cc\<close>.\<close>

definition IsNormalizableWhitespace :: "char \<Rightarrow> bool" where
  "IsNormalizableWhitespace c \<longleftrightarrow> c = CHR 0x09 \<or> c = CHR 0x0A \<or> c = CHR 0x0D"

definition IsValidXmlCharacter :: "char \<Rightarrow> bool" where
  "IsValidXmlCharacter c \<longleftrightarrow> IsNormalizableWhitespace c \<or> (0x20 :: nat) \<le> of_char c"

definition escape_xml_char :: "bool \<Rightarrow> char \<Rightarrow> string" where
  "escape_xml_char is_attribute ch =
     (if ch = CHR ''<'' then ''&lt;''
      else if ch = CHR ''>'' then ''&gt;''
      else if ch = CHR ''&'' then ''&amp;''
      else if ch = CHR 0x27 then if is_attribute then ''&apos;'' else [CHR 0x27]
      else if ch = CHR 0x22 then if is_attribute then ''&quot;'' else [CHR 0x22]
      else if IsValidXmlCharacter ch
      then if is_attribute \<and> IsNormalizableWhitespace ch then ''&#x'' @ FormatByte (word_of_nat (of_char ch)) @ '';'' else [ch]
      else [])"

definition EscapeXml :: "string \<Rightarrow> bool \<Rightarrow> string" where
  "EscapeXml str is_attribute = StringStreamToString (concat (map (escape_xml_char is_attribute) str))"

definition EscapeXmlAttribute :: "string \<Rightarrow> string" where
  "EscapeXmlAttribute str = EscapeXml str True"

definition EscapeXmlText :: "string \<Rightarrow> string" where
  "EscapeXmlText str = EscapeXml str False"

definition RemoveInvalidXmlCharacters :: "string \<Rightarrow> string" where
  "RemoveInvalidXmlCharacters str = filter IsValidXmlCharacter str"

subsection \<open>Attributes and character data\<close>

definition quoted :: "string \<Rightarrow> string" where "quoted s = [CHR 0x22] @ s @ [CHR 0x22]"

definition OutputXmlAttribute :: "string \<Rightarrow> string \<Rightarrow> string \<Rightarrow> stop + string" where
  "OutputXmlAttribute element_name name value =
     bindr (GetReservedOutputAttributesForElement element_name) (\<lambda>allowed_names.
       if name \<in> set allowed_names then Inr ('' '' @ name @ ''='' @ quoted (EscapeXmlAttribute value))
       else Inl Assert_fail)"

function cdata_loop :: "string \<Rightarrow> string" where
  "cdata_loop segment =
     (case strstr segment '']]>'' of
        Some n \<Rightarrow> take n segment @ '']]>]]&gt;<![CDATA['' @ cdata_loop (drop (n + 3) segment)
      | None \<Rightarrow> segment)"
  by pat_completeness auto

lemma strstr_length: "strstr s t = Some n \<Longrightarrow> n + length t \<le> length s"
proof (induction s t arbitrary: n rule: strstr.induct)
  case (1 s t)
  show ?case
  proof (cases "take (length t) s = t")
    case True
    then have "length t \<le> length s" by (metis length_take min.cobounded1)
    with True 1 show ?thesis by (simp add: strstr.simps [of s])
  next
    case False
    with 1 show ?thesis by (cases s) (force simp: strstr.simps [of "[]" t] strstr.simps [of "a # r" t for a r])+
  qed
qed

termination cdata_loop
  by (relation "measure length") (auto dest: strstr_length)

declare cdata_loop.simps [simp del]

definition OutputXmlCDataSection :: "string \<Rightarrow> string" where
  "OutputXmlCDataSection data = ''<![CDATA['' @ cdata_loop (cstr data) @ '']]>''"

subsection \<open>Properties\<close>

definition property_attribute :: "string \<times> string \<Rightarrow> string" where
  "property_attribute p = '' '' @ fst p @ ''='' @ quoted (EscapeXmlAttribute (snd p))"

definition TestPropertiesAsXmlAttributes :: "result \<Rightarrow> string" where
  "TestPropertiesAsXmlAttributes r = StringStreamToString (concat (map property_attribute (tr_properties r)))"

definition property_element :: "string \<times> string \<Rightarrow> string" where
  "property_element p =
     ''        <property'' @ '' name='' @ quoted (EscapeXmlAttribute (fst p)) @ '' value='' @ quoted (EscapeXmlAttribute (snd p)) @
     ''/>'' @ [LF]"

definition OutputXmlTestProperties :: "result \<Rightarrow> string" where
  "OutputXmlTestProperties r =
     (if tr_properties r = [] then []
      else ''      <properties>'' @ [LF] @ concat (map property_element (tr_properties r)) @ ''      </properties>'' @ [LF])"

subsection \<open>Test results\<close>

text \<open>The loop over the parts with the counters of failures and skips.\<close>

fun xml_parts :: "test_part list \<Rightarrow> nat \<Rightarrow> nat \<Rightarrow> string \<times> nat \<times> nat" where
  "xml_parts [] failures skips = ([], failures, skips)"
| "xml_parts (part # parts) failures skips =
     (let location = part_location part;
          summary = location @ [LF] @ tp_summary part;
          detail = location @ [LF] @ tp_message part
      in if test_part_failed part
         then (case xml_parts parts (failures + 1) skips of (t, fs, ss) \<Rightarrow>
           ((if failures + 1 = 1 \<and> skips = 0 then ''>'' @ [LF] else []) @
            ''      <failure message='' @ quoted (EscapeXmlAttribute summary) @ '' type='' @ quoted [] @ ''>'' @
            OutputXmlCDataSection (RemoveInvalidXmlCharacters detail) @ ''</failure>'' @ [LF] @ t, fs, ss))
         else if test_part_skipped part
         then (case xml_parts parts failures (skips + 1) of (t, fs, ss) \<Rightarrow>
           ((if skips + 1 = 1 \<and> failures = 0 then ''>'' @ [LF] else []) @
            ''      <skipped message='' @ quoted (EscapeXmlAttribute summary) @ ''>'' @
            OutputXmlCDataSection (RemoveInvalidXmlCharacters detail) @ ''</skipped>'' @ [LF] @ t, fs, ss))
         else xml_parts parts failures skips)"

definition OutputXmlTestResult :: "result \<Rightarrow> string" where
  "OutputXmlTestResult r =
     (case xml_parts (tr_parts r) 0 0 of (t, failures, skips) \<Rightarrow>
       t @ (if failures = 0 \<and> skips = 0 \<and> tr_properties r = [] then '' />'' @ [LF]
            else (if failures = 0 \<and> skips = 0 then ''>'' @ [LF] else []) @
                 OutputXmlTestProperties r @ ''    </testcase>'' @ [LF]))"

definition OutputXmlTestSuiteForTestResult :: "report_env \<Rightarrow> result \<Rightarrow> stop + string" where
  "OutputXmlTestSuiteForTestResult env r =
     outs [put ''  <testsuite'',
       OutputXmlAttribute ''testsuite'' ''name'' ''NonTestSuiteFailure'',
       OutputXmlAttribute ''testsuite'' ''tests'' ''1'',
       OutputXmlAttribute ''testsuite'' ''failures'' ''1'',
       OutputXmlAttribute ''testsuite'' ''disabled'' ''0'',
       OutputXmlAttribute ''testsuite'' ''skipped'' ''0'',
       OutputXmlAttribute ''testsuite'' ''errors'' ''0'',
       OutputXmlAttribute ''testsuite'' ''time'' (seconds_text env (tr_elapsed r)),
       OutputXmlAttribute ''testsuite'' ''timestamp'' (FormatEpochTimeInMillisAsIso8601 env (tr_start r)),
       put ''>'',
       put ''    <testcase'',
       OutputXmlAttribute ''testcase'' ''name'' [],
       OutputXmlAttribute ''testcase'' ''status'' ''run'',
       OutputXmlAttribute ''testcase'' ''result'' ''completed'',
       OutputXmlAttribute ''testcase'' ''classname'' [],
       OutputXmlAttribute ''testcase'' ''time'' (seconds_text env (tr_elapsed r)),
       OutputXmlAttribute ''testcase'' ''timestamp'' (FormatEpochTimeInMillisAsIso8601 env (tr_start r)),
       put (OutputXmlTestResult r),
       put (''  </testsuite>'' @ [LF])]"

subsection \<open>Tests, suites and the whole report\<close>

definition optional_attribute :: "string \<Rightarrow> string \<Rightarrow> string option \<Rightarrow> stop + string" where
  "optional_attribute element_name name value =
     (case value of None \<Rightarrow> put [] | Some v \<Rightarrow> OutputXmlAttribute element_name name v)"

definition OutputXmlTestInfo :: "report_env \<Rightarrow> string \<Rightarrow> report_test \<Rightarrow> stop + string" where
  "OutputXmlTestInfo env test_suite_name t =
     (let r = rt_result t; kTestsuite = ''testcase'' in
      if rt_in_another_shard t then Inr []
      else outs ([put ''    <testcase'',
             OutputXmlAttribute kTestsuite ''name'' (rt_name t),
             optional_attribute kTestsuite ''value_param'' (rt_value_param t),
             optional_attribute kTestsuite ''type_param'' (rt_type_param t),
             OutputXmlAttribute kTestsuite ''file'' (rt_file t),
             OutputXmlAttribute kTestsuite ''line'' (dec_int (rt_line t))] @
            (if list_tests env then [put ('' />'' @ [LF])]
             else
               [OutputXmlAttribute kTestsuite ''status'' (if rt_should_run t then ''run'' else ''notrun''),
                OutputXmlAttribute kTestsuite ''result''
                  (if rt_should_run t then if Skipped (base_result r) then ''skipped'' else ''completed'' else ''suppressed''),
                OutputXmlAttribute kTestsuite ''time'' (seconds_text env (tr_elapsed r)),
                OutputXmlAttribute kTestsuite ''timestamp'' (FormatEpochTimeInMillisAsIso8601 env (tr_start r)),
                OutputXmlAttribute kTestsuite ''classname'' test_suite_name,
                put (OutputXmlTestResult r)])))"

definition PrintXmlTestSuite :: "report_env \<Rightarrow> report_suite \<Rightarrow> stop + string" where
  "PrintXmlTestSuite env s =
     (let kTestsuite = ''testsuite''; b = base_suite s in
      outs ([put (''  <'' @ kTestsuite),
             OutputXmlAttribute kTestsuite ''name'' (rs_name s),
             OutputXmlAttribute kTestsuite ''tests'' (dec_nat (reportable_test_count b))] @
            (if list_tests env then []
             else
               [OutputXmlAttribute kTestsuite ''failures'' (dec_nat (failed_test_count b)),
                OutputXmlAttribute kTestsuite ''disabled'' (dec_nat (reportable_disabled_test_count b)),
                OutputXmlAttribute kTestsuite ''skipped'' (dec_nat (skipped_test_count b)),
                OutputXmlAttribute kTestsuite ''errors'' ''0'',
                OutputXmlAttribute kTestsuite ''time'' (seconds_text env (rs_elapsed s)),
                OutputXmlAttribute kTestsuite ''timestamp'' (FormatEpochTimeInMillisAsIso8601 env (rs_start s)),
                put (TestPropertiesAsXmlAttributes (rs_ad_hoc s))]) @
            [put (''>'' @ [LF])] @
            map (OutputXmlTestInfo env (rs_name s)) (filter rs_is_reportable (rs_tests s)) @
            [put (''  </'' @ kTestsuite @ ''>'' @ [LF])]))"

definition xml_declaration :: string where
  "xml_declaration = ''<?xml version='' @ quoted ''1.0'' @ '' encoding='' @ quoted ''UTF-8'' @ ''?>'' @ [LF]"

definition PrintXmlUnitTest :: "report_env \<Rightarrow> report \<Rightarrow> stop + string" where
  "PrintXmlUnitTest env u =
     (let kTestsuites = ''testsuites'' in
      outs ([put xml_declaration, put (''<'' @ kTestsuites),
             OutputXmlAttribute kTestsuites ''tests'' (dec_nat (ru_sum reportable_test_count u)),
             OutputXmlAttribute kTestsuites ''failures'' (dec_nat (ru_sum failed_test_count u)),
             OutputXmlAttribute kTestsuites ''disabled'' (dec_nat (ru_sum reportable_disabled_test_count u)),
             OutputXmlAttribute kTestsuites ''errors'' ''0'',
             OutputXmlAttribute kTestsuites ''time'' (seconds_text env (ru_elapsed u)),
             OutputXmlAttribute kTestsuites ''timestamp'' (FormatEpochTimeInMillisAsIso8601 env (ru_start u))] @
            (if shuffle_flag env then [OutputXmlAttribute kTestsuites ''random_seed'' (dec_int (ru_random_seed u))] else []) @
            [put (TestPropertiesAsXmlAttributes (ru_ad_hoc u)),
             OutputXmlAttribute kTestsuites ''name'' ''AllTests'',
             put (''>'' @ [LF])] @
            map (PrintXmlTestSuite env) (filter (\<lambda>s. 0 < reportable_test_count (base_suite s)) (ru_suites u)) @
            [if Failed (base_result (ru_ad_hoc u)) then OutputXmlTestSuiteForTestResult env (ru_ad_hoc u) else put [],
             put (''</'' @ kTestsuites @ ''>'' @ [LF])]))"

definition PrintXmlTestsList :: "report_env \<Rightarrow> report_suite list \<Rightarrow> stop + string" where
  "PrintXmlTestsList env test_suites =
     (let kTestsuites = ''testsuites'';
          total_tests = sum_list (map (\<lambda>s. total_test_count (base_suite s)) test_suites)
      in outs ([put xml_declaration, put (''<'' @ kTestsuites),
                OutputXmlAttribute kTestsuites ''tests'' (dec_nat total_tests),
                OutputXmlAttribute kTestsuites ''name'' ''AllTests'',
                put (''>'' @ [LF])] @
               map (PrintXmlTestSuite env) test_suites @
               [put (''</'' @ kTestsuites @ ''>'' @ [LF])]))"

text \<open>The file that is written at the end of an iteration.\<close>

definition Xml_OnTestIterationEnd :: "report_env \<Rightarrow> report \<Rightarrow> stop + string" where
  "Xml_OnTestIterationEnd env u = bindr (PrintXmlUnitTest env u) (\<lambda>t. Inr (StringStreamToString t))"

end
