(* ===== verification/Gt_Json.thy ===== *)
theory Gt_Json
  imports Gt_Xml
begin

section \<open>The JSON report\<close>

text \<open>The class \<open>JsonUnitTestResultPrinter\<close> of \<open>gtest.cc\<close>.  A \<open>char\<close> is signed, so bytes from 0x80 on are less than a blank.\<close>

definition escape_json_char :: "char \<Rightarrow> string" where
  "escape_json_char ch =
     (if ch = CHR 0x5C \<or> ch = CHR 0x22 \<or> ch = CHR ''/'' then [CHR 0x5C, ch]
      else if ch = CHR 0x08 then [CHR 0x5C, CHR ''b'']
      else if ch = CHR 0x09 then [CHR 0x5C, CHR ''t'']
      else if ch = CHR 0x0A then [CHR 0x5C, CHR ''n'']
      else if ch = CHR 0x0C then [CHR 0x5C, CHR ''f'']
      else if ch = CHR 0x0D then [CHR 0x5C, CHR ''r'']
      else if (of_char ch :: nat) < 32 \<or> 128 \<le> (of_char ch :: nat)
      then [CHR 0x5C, CHR ''u'', CHR ''0'', CHR ''0''] @ FormatByte (word_of_nat (of_char ch))
      else [ch])"

definition EscapeJson :: "string \<Rightarrow> string" where
  "EscapeJson str = StringStreamToString (concat (map escape_json_char str))"

definition Indent :: "nat \<Rightarrow> string" where "Indent width = replicate width CHR '' ''"

definition comma_LF :: string where "comma_LF = '','' @ [LF]"

definition json_key :: "string \<Rightarrow> string \<Rightarrow> string \<Rightarrow> string \<Rightarrow> bool \<Rightarrow> stop + string" where
  "json_key element_name name printed_value indent comma =
     bindr (GetReservedOutputAttributesForElement element_name) (\<lambda>allowed_names.
       if name \<in> set allowed_names
       then Inr (indent @ quoted name @ '': '' @ printed_value @ (if comma then comma_LF else []))
       else Inl Assert_fail)"

text \<open>The overload for strings and the one for integers.\<close>

definition OutputJsonKey :: "string \<Rightarrow> string \<Rightarrow> string \<Rightarrow> string \<Rightarrow> bool \<Rightarrow> stop + string" where
  "OutputJsonKey element_name name value indent comma = json_key element_name name (quoted (EscapeJson value)) indent comma"

definition OutputJsonKeyInt :: "string \<Rightarrow> string \<Rightarrow> int \<Rightarrow> string \<Rightarrow> bool \<Rightarrow> stop + string" where
  "OutputJsonKeyInt element_name name value indent comma = json_key element_name name (dec_int value) indent comma"

definition json_property :: "string \<Rightarrow> string \<times> string \<Rightarrow> string" where
  "json_property indent p = comma_LF @ indent @ quoted (fst p) @ '': '' @ quoted (EscapeJson (snd p))"

definition TestPropertiesAsJson :: "result \<Rightarrow> string \<Rightarrow> string" where
  "TestPropertiesAsJson r indent = StringStreamToString (concat (map (json_property indent) (tr_properties r)))"

subsection \<open>Test results\<close>

definition json_failure :: "test_part \<Rightarrow> string" where
  "json_failure part =
     (let kIndent = Indent 10; message = EscapeJson (part_location part @ [LF] @ tp_message part) in
      kIndent @ ''  {'' @ [LF] @
      kIndent @ ''    '' @ quoted ''failure'' @ '': '' @ quoted message @ comma_LF @
      kIndent @ ''    '' @ quoted ''type'' @ '': '' @ quoted [] @ [LF] @
      kIndent @ ''  }'')"

fun json_parts :: "test_part list \<Rightarrow> nat \<Rightarrow> string \<times> nat" where
  "json_parts [] failures = ([], failures)"
| "json_parts (part # parts) failures =
     (if test_part_failed part
      then (case json_parts parts (failures + 1) of (t, fs) \<Rightarrow>
        (comma_LF @ (if failures + 1 = 1 then Indent 10 @ quoted ''failures'' @ '': ['' @ [LF] else []) @ json_failure part @ t, fs))
      else json_parts parts failures)"

definition OutputJsonTestResult :: "result \<Rightarrow> string" where
  "OutputJsonTestResult r =
     (case json_parts (tr_parts r) 0 of (t, failures) \<Rightarrow>
       t @ (if 0 < failures then [LF] @ Indent 10 @ '']'' else []) @ [LF] @ Indent 8 @ ''}'')"

definition OutputJsonTestSuiteForTestResult :: "report_env \<Rightarrow> result \<Rightarrow> stop + string" where
  "OutputJsonTestSuiteForTestResult env r =
     outs ([put (Indent 4 @ ''{'' @ [LF]),
            OutputJsonKey ''testsuite'' ''name'' ''NonTestSuiteFailure'' (Indent 6) True,
            OutputJsonKeyInt ''testsuite'' ''tests'' 1 (Indent 6) True] @
           (if list_tests env then []
            else
              [OutputJsonKeyInt ''testsuite'' ''failures'' 1 (Indent 6) True,
               OutputJsonKeyInt ''testsuite'' ''disabled'' 0 (Indent 6) True,
               OutputJsonKeyInt ''testsuite'' ''skipped'' 0 (Indent 6) True,
               OutputJsonKeyInt ''testsuite'' ''errors'' 0 (Indent 6) True,
               OutputJsonKey ''testsuite'' ''time'' (duration_text env (tr_elapsed r)) (Indent 6) True,
               OutputJsonKey ''testsuite'' ''timestamp'' (FormatEpochTimeInMillisAsRFC3339 env (tr_start r)) (Indent 6) True]) @
           [put (Indent 6 @ quoted ''testsuite'' @ '': ['' @ [LF]),
            put (Indent 8 @ ''{'' @ [LF]),
            OutputJsonKey ''testcase'' ''name'' [] (Indent 10) True,
            OutputJsonKey ''testcase'' ''status'' ''RUN'' (Indent 10) True,
            OutputJsonKey ''testcase'' ''result'' ''COMPLETED'' (Indent 10) True,
            OutputJsonKey ''testcase'' ''timestamp'' (FormatEpochTimeInMillisAsRFC3339 env (tr_start r)) (Indent 10) True,
            OutputJsonKey ''testcase'' ''time'' (duration_text env (tr_elapsed r)) (Indent 10) True,
            OutputJsonKey ''testcase'' ''classname'' [] (Indent 10) False,
            put (TestPropertiesAsJson r (Indent 10)),
            put (OutputJsonTestResult r),
            put ([LF] @ Indent 6 @ '']'' @ [LF] @ Indent 4 @ ''}'')])"

subsection \<open>Tests, suites and the whole report\<close>

definition optional_key :: "string \<Rightarrow> string \<Rightarrow> string option \<Rightarrow> string \<Rightarrow> stop + string" where
  "optional_key element_name name value indent =
     (case value of None \<Rightarrow> put [] | Some v \<Rightarrow> OutputJsonKey element_name name v indent True)"

definition OutputJsonTestInfo :: "report_env \<Rightarrow> string \<Rightarrow> report_test \<Rightarrow> stop + string" where
  "OutputJsonTestInfo env test_suite_name t =
     (let r = rt_result t; kTestsuite = ''testcase''; kIndent = Indent 10 in
      outs ([put (Indent 8 @ ''{'' @ [LF]),
             OutputJsonKey kTestsuite ''name'' (rt_name t) kIndent True,
             optional_key kTestsuite ''value_param'' (rt_value_param t) kIndent,
             optional_key kTestsuite ''type_param'' (rt_type_param t) kIndent,
             OutputJsonKey kTestsuite ''file'' (rt_file t) kIndent True,
             OutputJsonKeyInt kTestsuite ''line'' (rt_line t) kIndent False] @
            (if list_tests env then [put ([LF] @ Indent 8 @ ''}'')]
             else
               [put comma_LF,
                OutputJsonKey kTestsuite ''status'' (if rt_should_run t then ''RUN'' else ''NOTRUN'') kIndent True,
                OutputJsonKey kTestsuite ''result''
                  (if rt_should_run t then if Skipped (base_result r) then ''SKIPPED'' else ''COMPLETED'' else ''SUPPRESSED'') kIndent True,
                OutputJsonKey kTestsuite ''timestamp'' (FormatEpochTimeInMillisAsRFC3339 env (tr_start r)) kIndent True,
                OutputJsonKey kTestsuite ''time'' (duration_text env (tr_elapsed r)) kIndent True,
                OutputJsonKey kTestsuite ''classname'' test_suite_name kIndent False,
                put (TestPropertiesAsJson r kIndent),
                put (OutputJsonTestResult r)])))"

text \<open>Loops that write a comma before every element but the first one.\<close>

fun comma_loop :: "bool \<Rightarrow> (stop + string) list \<Rightarrow> bool \<times> (stop + string) list" where
  "comma_loop comma [] = (comma, [])"
| "comma_loop comma (x # xs) =
     (case comma_loop True xs of (c, ys) \<Rightarrow> (c, (if comma then [put comma_LF] else []) @ x # ys))"

definition PrintJsonTestSuite :: "report_env \<Rightarrow> report_suite \<Rightarrow> stop + string" where
  "PrintJsonTestSuite env s =
     (let kTestsuite = ''testsuite''; kIndent = Indent 6; b = base_suite s in
      outs ([put (Indent 4 @ ''{'' @ [LF]),
             OutputJsonKey kTestsuite ''name'' (rs_name s) kIndent True,
             OutputJsonKeyInt kTestsuite ''tests'' (int (reportable_test_count b)) kIndent True] @
            (if list_tests env then []
             else
               [OutputJsonKeyInt kTestsuite ''failures'' (int (failed_test_count b)) kIndent True,
                OutputJsonKeyInt kTestsuite ''disabled'' (int (reportable_disabled_test_count b)) kIndent True,
                OutputJsonKeyInt kTestsuite ''errors'' 0 kIndent True,
                OutputJsonKey kTestsuite ''timestamp'' (FormatEpochTimeInMillisAsRFC3339 env (rs_start s)) kIndent True,
                OutputJsonKey kTestsuite ''time'' (duration_text env (rs_elapsed s)) kIndent False,
                put (TestPropertiesAsJson (rs_ad_hoc s) kIndent @ comma_LF)]) @
            [put (kIndent @ quoted kTestsuite @ '': ['' @ [LF])] @
            snd (comma_loop False (map (OutputJsonTestInfo env (rs_name s)) (filter rs_is_reportable (rs_tests s)))) @
            [put ([LF] @ kIndent @ '']'' @ [LF] @ Indent 4 @ ''}'')]))"

definition PrintJsonUnitTest :: "report_env \<Rightarrow> report \<Rightarrow> stop + string" where
  "PrintJsonUnitTest env u =
     (let kTestsuites = ''testsuites''; kIndent = Indent 2;
          (comma, suites) = comma_loop False (map (PrintJsonTestSuite env) (filter (\<lambda>s. 0 < reportable_test_count (base_suite s)) (ru_suites u)))
      in
      outs ([put (''{'' @ [LF]),
             OutputJsonKeyInt kTestsuites ''tests'' (int (ru_sum reportable_test_count u)) kIndent True,
             OutputJsonKeyInt kTestsuites ''failures'' (int (ru_sum failed_test_count u)) kIndent True,
             OutputJsonKeyInt kTestsuites ''disabled'' (int (ru_sum reportable_disabled_test_count u)) kIndent True,
             OutputJsonKeyInt kTestsuites ''errors'' 0 kIndent True] @
            (if shuffle_flag env then [OutputJsonKeyInt kTestsuites ''random_seed'' (ru_random_seed u) kIndent True] else []) @
            [OutputJsonKey kTestsuites ''timestamp'' (FormatEpochTimeInMillisAsRFC3339 env (ru_start u)) kIndent True,
             OutputJsonKey kTestsuites ''time'' (duration_text env (ru_elapsed u)) kIndent False,
             put (TestPropertiesAsJson (ru_ad_hoc u) kIndent @ comma_LF),
             OutputJsonKey kTestsuites ''name'' ''AllTests'' kIndent True,
             put (kIndent @ quoted kTestsuites @ '': ['' @ [LF])] @
            suites @
            (if Failed (base_result (ru_ad_hoc u))
             then (if comma then [put comma_LF] else []) @ [OutputJsonTestSuiteForTestResult env (ru_ad_hoc u)] else []) @
            [put ([LF] @ kIndent @ '']'' @ [LF] @ ''}'' @ [LF])]))"

definition PrintJsonTestList :: "report_env \<Rightarrow> report_suite list \<Rightarrow> stop + string" where
  "PrintJsonTestList env test_suites =
     (let kTestsuites = ''testsuites''; kIndent = Indent 2;
          total_tests = sum_list (map (\<lambda>s. total_test_count (base_suite s)) test_suites)
      in outs ([put (''{'' @ [LF]),
                OutputJsonKeyInt kTestsuites ''tests'' (int total_tests) kIndent True,
                OutputJsonKey kTestsuites ''name'' ''AllTests'' kIndent True,
                put (kIndent @ quoted kTestsuites @ '': ['' @ [LF])] @
               snd (comma_loop False (map (PrintJsonTestSuite env) test_suites)) @
               [put ([LF] @ kIndent @ '']'' @ [LF] @ ''}'' @ [LF])]))"

definition Json_OnTestIterationEnd :: "report_env \<Rightarrow> report \<Rightarrow> stop + string" where
  "Json_OnTestIterationEnd env u = bindr (PrintJsonUnitTest env u) (\<lambda>t. Inr (StringStreamToString t))"

end
