(* ===== verification/Gt_Xml_Tree.thy ===== *)
theory Gt_Xml_Tree
  imports Gt_Xml
begin

section \<open>The XML report is a well-formed document\<close>

text \<open>
  A grammar of the part of XML that the report uses, which relates a text to the tree that a reader gets from it:
  attribute values and character data with their references replaced, CDATA sections joined, white space between
  elements dropped.  The report reads as the tree of the results.
\<close>

datatype xml = Element string "(string \<times> string) list" "xml list" | Chars string

subsection \<open>The grammar\<close>

definition name_start :: "char \<Rightarrow> bool" where
  "name_start c \<longleftrightarrow> (let n = of_char c :: nat in 65 \<le> n \<and> n \<le> 90 \<or> 97 \<le> n \<and> n \<le> 122 \<or> n = 95)"

definition name_char :: "char \<Rightarrow> bool" where
  "name_char c \<longleftrightarrow> name_start c \<or> (let n = of_char c :: nat in 48 \<le> n \<and> n \<le> 57 \<or> n = 45 \<or> n = 46)"

definition xml_name :: "string \<Rightarrow> bool" where
  "xml_name s \<longleftrightarrow> s \<noteq> [] \<and> name_start (hd s) \<and> list_all name_char s"

definition reference :: "string \<Rightarrow> char \<Rightarrow> bool" where
  "reference r c \<longleftrightarrow>
     (r, c) \<in> {(''&lt;'', CHR ''<''), (''&gt;'', CHR ''>''), (''&amp;'', CHR ''&''), (''&apos;'', CHR 0x27), (''&quot;'', CHR 0x22),
       (''&#x09;'', CHR 0x09), (''&#x0A;'', CHR 0x0A), (''&#x0D;'', CHR 0x0D)}"

inductive att_value :: "string \<Rightarrow> string \<Rightarrow> bool" where
  att_nil: "att_value [] []"
| att_char: "att_value v w \<Longrightarrow> IsValidXmlCharacter c \<Longrightarrow> \<not> IsNormalizableWhitespace c \<Longrightarrow> c \<notin> {CHR ''<'', CHR ''&'', CHR 0x22} \<Longrightarrow>
     att_value (c # v) (c # w)"
| att_ref: "att_value v w \<Longrightarrow> reference r c \<Longrightarrow> att_value (r @ v) (c # w)"

inductive atts :: "string \<Rightarrow> (string \<times> string) list \<Rightarrow> bool" where
  atts_nil: "atts [] []"
| atts_cons: "atts s as \<Longrightarrow> xml_name n \<Longrightarrow> att_value v w \<Longrightarrow> atts ('' '' @ n @ ''='' @ quoted v @ s) ((n, w) # as)"

inductive char_data :: "string \<Rightarrow> string \<Rightarrow> bool" where
  cd_nil: "char_data [] []"
| cd_char: "char_data t d \<Longrightarrow> IsValidXmlCharacter c \<Longrightarrow> c \<notin> {CHR ''<'', CHR ''&'', CHR ''>''} \<Longrightarrow> char_data (c # t) (c # d)"
| cd_ref: "char_data t d \<Longrightarrow> reference r c \<Longrightarrow> char_data (r @ t) (c # d)"
| cd_cdata: "char_data t d \<Longrightarrow> list_all IsValidXmlCharacter e \<Longrightarrow> strstr e '']]>'' = None \<Longrightarrow>
     char_data (''<![CDATA['' @ e @ '']]>'' @ t) (e @ d)"

definition xml_space :: "char \<Rightarrow> bool" where "xml_space c \<longleftrightarrow> c = CHR '' '' \<or> IsNormalizableWhitespace c"

text \<open>The content of an element is made of elements and white space, or it is character data that is more than white space.\<close>

inductive content :: "string \<Rightarrow> xml list \<Rightarrow> bool" and body :: "string \<Rightarrow> xml list \<Rightarrow> bool" where
  c_nil: "content [] []"
| c_space: "content s xs \<Longrightarrow> xml_space c \<Longrightarrow> content (c # s) xs"
| c_elem: "content s ys \<Longrightarrow> body t xs \<Longrightarrow> xml_name n \<Longrightarrow> atts a as \<Longrightarrow> distinct (map fst as) \<Longrightarrow>
     content (''<'' @ n @ a @ ''>'' @ t @ ''</'' @ n @ ''>'' @ s) (Element n as xs # ys)"
| c_empty: "content s ys \<Longrightarrow> xml_name n \<Longrightarrow> atts a as \<Longrightarrow> distinct (map fst as) \<Longrightarrow> list_all xml_space sp \<Longrightarrow>
     content (''<'' @ n @ a @ sp @ ''/>'' @ s) (Element n as [] # ys)"
| b_content: "content t xs \<Longrightarrow> body t xs"
| b_chars: "char_data t d \<Longrightarrow> \<not> list_all xml_space t \<Longrightarrow> body t [Chars d]"

lemma atts_append: "atts a as \<Longrightarrow> atts b bs \<Longrightarrow> atts (a @ b) (as @ bs)"
proof (induction rule: atts.induct)
  case (atts_cons s as n v w)
  then show ?case using atts.atts_cons [of "s @ b" "as @ bs" n v w] by (simp add: quoted_def)
qed simp

lemma content_append: "content s xs \<Longrightarrow> content t ys \<Longrightarrow> content (s @ t) (xs @ ys)"
proof (induction s xs rule: content_body.inducts(1) [where ?P2.0 = "\<lambda>_ _. True"])
  case (c_elem s zs u xs n a as)
  then show ?case using content_body.c_elem [of "s @ t" "zs @ ys" u xs n a as] by simp
next
  case (c_empty s zs n a as sp)
  then show ?case using content_body.c_empty [of "s @ t" "zs @ ys" n a as sp] by simp
qed (auto intro: content_body.intros)

lemma content_space: "list_all xml_space sp \<Longrightarrow> content s xs \<Longrightarrow> content (sp @ s) xs"
  by (induction sp) (auto intro: c_space)

lemma content_concat:
  assumes "\<And>x. x \<in> set xs \<Longrightarrow> content (f x) (g x)"
  shows "content (concat (map f xs)) (concat (map g xs))"
  using assms by (induction xs) (auto intro: content_append c_nil)

subsection \<open>Values and character data\<close>

abbreviation xclean :: "string \<Rightarrow> string" where "xclean \<equiv> RemoveInvalidXmlCharacters"

lemma whitespace_bytes:
  "FormatByte 9 = ''09''" "FormatByte 10 = ''0A''" "FormatByte 13 = ''0D''"
  by code_simp+

lemma escape_xml_char_reads:
  assumes "att_value v w"
  shows "att_value (escape_xml_char True c @ v) (if IsValidXmlCharacter c then c # w else w)"
    and "NUL \<notin> set (escape_xml_char True c)"
proof -
  have ref: "att_value (''&lt;'' @ v) (CHR ''<'' # w)"
    "att_value (''&gt;'' @ v) (CHR ''>'' # w)"
    "att_value (''&amp;'' @ v) (CHR ''&'' # w)"
    "att_value (''&apos;'' @ v) (CHR 0x27 # w)"
    "att_value (''&quot;'' @ v) (CHR 0x22 # w)"
    "att_value (''&#x09;'' @ v) (CHR 0x09 # w)"
    "att_value (''&#x0A;'' @ v) (CHR 0x0A # w)"
    "att_value (''&#x0D;'' @ v) (CHR 0x0D # w)"
    by (rule att_ref [OF assms], simp add: reference_def)+
  consider "c = CHR ''<''" | "c = CHR ''>''" | "c = CHR ''&''" | "c = CHR 0x27" | "c = CHR 0x22" | "c = CHR 0x09" | "c = CHR 0x0A" | "c = CHR 0x0D"
    | (plain) "c \<notin> {CHR ''<'', CHR ''>'', CHR ''&'', CHR 0x27, CHR 0x22}" "\<not> IsNormalizableWhitespace c"
    by (auto simp: IsNormalizableWhitespace_def)
  then have "att_value (escape_xml_char True c @ v) (if IsValidXmlCharacter c then c # w else w) \<and> NUL \<notin> set (escape_xml_char True c)"
  proof cases
    case plain
    have "\<not> IsValidXmlCharacter NUL" by (simp add: IsValidXmlCharacter_def IsNormalizableWhitespace_def)
    then show ?thesis using plain assms by (auto simp: escape_xml_char_def intro: att_char)
  qed (use ref in \<open>simp_all add: escape_xml_char_def IsValidXmlCharacter_def IsNormalizableWhitespace_def whitespace_bytes\<close>)
  then show "att_value (escape_xml_char True c @ v) (if IsValidXmlCharacter c then c # w else w)"
    "NUL \<notin> set (escape_xml_char True c)" by blast+
qed

lemma EscapeXmlAttribute_reads: "att_value (EscapeXmlAttribute v) (xclean v)"
proof -
  have "att_value (concat (map (escape_xml_char True) v)) (xclean v)"
  proof (induction v)
    case (Cons c v)
    then show ?case using escape_xml_char_reads(1) [OF Cons, of c] by (simp add: RemoveInvalidXmlCharacters_def split: if_splits)
  qed (simp add: RemoveInvalidXmlCharacters_def att_nil)
  moreover have "NUL \<notin> set (concat (map (escape_xml_char True) v))" using escape_xml_char_reads(2) [OF att_nil] by simp
  ultimately show ?thesis by (simp add: EscapeXmlAttribute_def EscapeXml_def StringStreamToString_id)
qed

lemma strstr_None: "strstr s t = None \<longleftrightarrow> (\<forall>k. take (length t) (drop k s) \<noteq> t)"
proof (induction s t rule: strstr.induct)
  case (1 s t)
  show ?case
  proof (cases "take (length t) s = t")
    case True
    then have "\<exists>k. take (length t) (drop k s) = t" by (intro exI [of _ 0]) simp
    with True show ?thesis by (simp add: strstr.simps [of s])
  next
    case False
    show ?thesis
    proof (cases s)
      case Nil
      with False show ?thesis by (simp add: strstr.simps [of "[]"])
    next
      case (Cons a r)
      with 1 False have "strstr r t = None \<longleftrightarrow> (\<forall>k. take (length t) (drop k r) \<noteq> t)" by simp
      moreover have "(\<forall>k. take (length t) (drop k s) \<noteq> t) \<longleftrightarrow> (\<forall>k. take (length t) (drop k r) \<noteq> t)"
        using False Cons by (metis drop_0 drop_Suc_Cons not0_implies_Suc)
      ultimately show ?thesis using False Cons by (simp add: strstr.simps [of "a # r"])
    qed
  qed
qed

lemma strstr_Some: "strstr s t = Some n \<Longrightarrow> take (length t) (drop n s) = t \<and> (\<forall>k < n. take (length t) (drop k s) \<noteq> t)"
proof (induction s t arbitrary: n rule: strstr.induct)
  case (1 s t)
  show ?case
  proof (cases "take (length t) s = t")
    case True
    with 1 show ?thesis by (simp add: strstr.simps [of s])
  next
    case False
    with "1.prems" obtain a r m where s: "s = a # r" "strstr r t = Some m" "n = Suc m"
      by (auto simp: strstr.simps [of s] split: list.splits)
    with 1 False have "take (length t) (drop m r) = t" "\<forall>k < m. take (length t) (drop k r) \<noteq> t" by auto
    with s False show ?thesis by (auto simp: less_Suc_eq_0_disj)
  qed
qed

lemma strstr_before: "t \<noteq> [] \<Longrightarrow> strstr s t = Some n \<Longrightarrow> strstr (take n s) t = None"
proof (rule ccontr)
  assume t: "t \<noteq> []" "strstr s t = Some n" "strstr (take n s) t \<noteq> None"
  then obtain k where k: "take (length t) (drop k (take n s)) = t" by (auto simp: strstr_None)
  then have "length (take (length t) (drop k (take n s))) = length t" by simp
  then have "length t \<le> n - k" by (simp add: min_def split: if_splits)
  moreover have "0 < length t" using t(1) by simp
  ultimately have "k < n" by linarith
  moreover have "take (length t) (drop k s) = t" using k \<open>length t \<le> n - k\<close> by (simp add: drop_take min_def)
  ultimately have "k < n" "take (length t) (drop k s) = t" by blast+
  with strstr_Some [OF t(2)] show False by blast
qed

lemma cdata_reads: "list_all IsValidXmlCharacter d \<Longrightarrow> char_data (''<![CDATA['' @ cdata_loop d @ '']]>'') d"
proof (induction d rule: cdata_loop.induct)
  case (1 d)
  show ?case
  proof (cases "strstr d '']]>''")
    case None
    then show ?thesis using cd_cdata [OF cd_nil "1.prems" None] by (simp add: cdata_loop.simps [of d])
  next
    case (Some n)
    let ?rest = "drop (n + 3) d"
    have m: "take 3 (drop n d) = '']]>''" using strstr_Some [OF Some] by (simp add: numeral_3_eq_3)
    have d: "d = take n d @ '']]>'' @ ?rest"
      using append_take_drop_id [of n d] append_take_drop_id [of 3 "drop n d"] m by (simp add: add.commute)
    have v: "list_all IsValidXmlCharacter (take n d)" "list_all IsValidXmlCharacter ?rest"
      using "1.prems" by (auto simp: list_all_iff dest: in_set_takeD in_set_dropD)
    have "char_data (''<![CDATA['' @ cdata_loop ?rest @ '']]>'') ?rest" using 1(1) [OF Some] v(2) by simp
    then have "char_data (''&gt;'' @ ''<![CDATA['' @ cdata_loop ?rest @ '']]>'') (CHR ''>'' # ?rest)"
      by (rule cd_ref) (simp add: reference_def)
    then have "char_data ('']]'' @ ''&gt;'' @ ''<![CDATA['' @ cdata_loop ?rest @ '']]>'') ('']]>'' @ ?rest)"
      using cd_char [OF cd_char, of _ _ "CHR '']''" "CHR '']''"] by (simp add: IsValidXmlCharacter_def)
    then have "char_data (''<![CDATA['' @ take n d @ '']]>'' @ '']]'' @ ''&gt;'' @ ''<![CDATA['' @ cdata_loop ?rest @ '']]>'') (take n d @ '']]>'' @ ?rest)"
      using v(1) strstr_before [OF _ Some] by (intro cd_cdata) simp_all
    moreover have "cdata_loop d = take n d @ '']]>]]&gt;<![CDATA['' @ cdata_loop ?rest" using Some by (simp add: cdata_loop.simps [of d])
    ultimately show ?thesis using d by simp
  qed
qed

lemma OutputXmlCDataSection_reads: "char_data (OutputXmlCDataSection (xclean d)) (xclean d)"
proof -
  have v: "list_all IsValidXmlCharacter (xclean d)" by (simp add: RemoveInvalidXmlCharacters_def list_all_iff)
  have "NUL \<notin> set (xclean d)"
    by (simp add: RemoveInvalidXmlCharacters_def IsValidXmlCharacter_def IsNormalizableWhitespace_def)
  then show ?thesis using cdata_reads [OF v] by (simp add: OutputXmlCDataSection_def cstr_no_NUL)
qed


section \<open>The tree of a report\<close>

text \<open>What the XML report says, as a tree, and that the printed text reads as this tree.\<close>

type_synonym attr = "string \<times> string"

definition att :: "attr \<Rightarrow> string" where
  "att p = '' '' @ fst p @ ''='' @ quoted (EscapeXmlAttribute (snd p))"

definition clean_atts :: "attr list \<Rightarrow> attr list" where
  "clean_atts = map (\<lambda>(n, v). (n, xclean v))"

definition part_tree :: "test_part \<Rightarrow> xml" where
  "part_tree p =
     (let summary = xclean (part_location p @ [LF] @ tp_summary p); detail = xclean (part_location p @ [LF] @ tp_message p) in
      if test_part_failed p then Element ''failure'' [(''message'', summary), (''type'', [])] [Chars detail]
      else Element ''skipped'' [(''message'', summary)] [Chars detail])"

definition reported :: "result \<Rightarrow> test_part list" where
  "reported r = filter (\<lambda>p. test_part_failed p \<or> test_part_skipped p) (tr_parts r)"

definition property_tree :: "attr \<Rightarrow> xml" where
  "property_tree p = Element ''property'' (clean_atts [(''name'', fst p), (''value'', snd p)]) []"

definition result_trees :: "result \<Rightarrow> xml list" where
  "result_trees r = map part_tree (reported r) @
     (if tr_properties r = [] then [] else [Element ''properties'' [] (map property_tree (tr_properties r))])"

definition test_atts :: "report_env \<Rightarrow> string \<Rightarrow> report_test \<Rightarrow> attr list" where
  "test_atts env suite t =
     [(''name'', rt_name t)] @ (case rt_value_param t of None \<Rightarrow> [] | Some v \<Rightarrow> [(''value_param'', v)]) @
     (case rt_type_param t of None \<Rightarrow> [] | Some v \<Rightarrow> [(''type_param'', v)]) @
     [(''file'', rt_file t), (''line'', dec_int (rt_line t))] @
     (if list_tests env then []
      else [(''status'', if rt_should_run t then ''run'' else ''notrun''),
            (''result'', if rt_should_run t then if Skipped (base_result (rt_result t)) then ''skipped'' else ''completed'' else ''suppressed''),
            (''time'', seconds_text env (tr_elapsed (rt_result t))),
            (''timestamp'', FormatEpochTimeInMillisAsIso8601 env (tr_start (rt_result t))),
            (''classname'', suite)])"

definition test_tree :: "report_env \<Rightarrow> string \<Rightarrow> report_test \<Rightarrow> xml" where
  "test_tree env suite t =
     Element ''testcase'' (clean_atts (test_atts env suite t)) (if list_tests env then [] else result_trees (rt_result t))"

definition suite_atts :: "report_env \<Rightarrow> report_suite \<Rightarrow> attr list" where
  "suite_atts env s = (let b = base_suite s in
     [(''name'', rs_name s), (''tests'', dec_nat (reportable_test_count b))] @
     (if list_tests env then []
      else [(''failures'', dec_nat (failed_test_count b)), (''disabled'', dec_nat (reportable_disabled_test_count b)),
            (''skipped'', dec_nat (skipped_test_count b)), (''errors'', ''0''), (''time'', seconds_text env (rs_elapsed s)),
            (''timestamp'', FormatEpochTimeInMillisAsIso8601 env (rs_start s))] @ tr_properties (rs_ad_hoc s)))"

definition suite_tree :: "report_env \<Rightarrow> report_suite \<Rightarrow> xml" where
  "suite_tree env s = Element ''testsuite'' (clean_atts (suite_atts env s))
     (map (test_tree env (rs_name s)) (filter rs_is_reportable (rs_tests s)))"

definition ad_hoc_tree :: "report_env \<Rightarrow> result \<Rightarrow> xml" where
  "ad_hoc_tree env r =
     (let secs = seconds_text env (tr_elapsed r); stamp = FormatEpochTimeInMillisAsIso8601 env (tr_start r) in
      Element ''testsuite'' (clean_atts [(''name'', ''NonTestSuiteFailure''), (''tests'', ''1''), (''failures'', ''1''),
          (''disabled'', ''0''), (''skipped'', ''0''), (''errors'', ''0''), (''time'', secs), (''timestamp'', stamp)])
        [Element ''testcase'' (clean_atts [(''name'', []), (''status'', ''run''), (''result'', ''completed''), (''classname'', []),
            (''time'', secs), (''timestamp'', stamp)]) (result_trees r)])"

definition report_atts :: "report_env \<Rightarrow> report \<Rightarrow> attr list" where
  "report_atts env u =
     [(''tests'', dec_nat (ru_sum reportable_test_count u)), (''failures'', dec_nat (ru_sum failed_test_count u)),
      (''disabled'', dec_nat (ru_sum reportable_disabled_test_count u)), (''errors'', ''0''),
      (''time'', seconds_text env (ru_elapsed u)), (''timestamp'', FormatEpochTimeInMillisAsIso8601 env (ru_start u))] @
     (if shuffle_flag env then [(''random_seed'', dec_int (ru_random_seed u))] else []) @
     tr_properties (ru_ad_hoc u) @ [(''name'', ''AllTests'')]"

definition report_tree :: "report_env \<Rightarrow> report \<Rightarrow> xml" where
  "report_tree env u = Element ''testsuites'' (clean_atts (report_atts env u))
     (map (suite_tree env) (filter (\<lambda>s. 0 < reportable_test_count (base_suite s)) (ru_suites u)) @
      (if Failed (base_result (ru_ad_hoc u)) then [ad_hoc_tree env (ru_ad_hoc u)] else []))"

subsection \<open>Writing\<close>

lemma outs_append: "outs (xs @ ys) = bindr (outs xs) (\<lambda>a. bindr (outs ys) (\<lambda>b. Inr (a @ b)))"
  by (induction xs) (simp_all add: bindr_def split: sum.splits)

lemma outs_map: "(\<And>x. x \<in> set xs \<Longrightarrow> f x = Inr (g x)) \<Longrightarrow> outs (map f xs) = Inr (concat (map g xs))"
  by (induction xs) simp_all

definition written :: "stop + string \<Rightarrow> string \<Rightarrow> bool" where "written r t \<longleftrightarrow> r = Inr t"

lemma attribute_allowed:
  "n \<in> set kReservedTestSuitesAttributes \<Longrightarrow> OutputXmlAttribute ''testsuites'' n v = Inr (att (n, v))"
  "n \<in> set kReservedTestSuiteAttributes \<Longrightarrow> OutputXmlAttribute ''testsuite'' n v = Inr (att (n, v))"
  "n \<in> set kReservedOutputTestCaseAttributes \<Longrightarrow> OutputXmlAttribute ''testcase'' n v = Inr (att (n, v))"
  by (simp_all add: OutputXmlAttribute_def GetReservedOutputAttributesForElement_def att_def)

lemmas reserved_defs = kReservedTestSuitesAttributes_def kReservedTestSuiteAttributes_def
  kReservedOutputTestCaseAttributes_def kReservedTestCaseAttributes_def

lemma xml_name_reserved:
  "n \<in> set kReservedTestSuitesAttributes \<union> set kReservedTestSuiteAttributes \<union> set kReservedOutputTestCaseAttributes \<Longrightarrow> xml_name n"
  by (auto simp: reserved_defs xml_name_def name_start_def name_char_def Let_def)

lemma att_reads:
  assumes "\<forall>p \<in> set as. xml_name (fst p)"
  shows "atts (concat (map att as)) (clean_atts as)"
  using assms
proof (induction as)
  case (Cons p as)
  then have "atts ('' '' @ fst p @ ''='' @ quoted (EscapeXmlAttribute (snd p)) @ concat (map att as)) ((fst p, xclean (snd p)) # clean_atts as)"
    by (intro atts_cons EscapeXmlAttribute_reads) simp_all
  then show ?case by (simp add: att_def [of p] clean_atts_def case_prod_beta)
qed (simp add: clean_atts_def atts_nil)

lemma clean_atts_names [simp]: "map fst (clean_atts as) = map fst as"
  by (simp add: clean_atts_def case_prod_beta)

definition names_ok :: "attr list \<Rightarrow> bool" where
  "names_ok as \<longleftrightarrow> (\<forall>p \<in> set as. xml_name (fst p)) \<and> distinct (map fst as)"

lemma element_reads:
  assumes "names_ok as" "xml_name n" "body t xs" "content s ys"
  shows "content (''<'' @ n @ concat (map att as) @ ''>'' @ t @ ''</'' @ n @ ''>'' @ s) (Element n (clean_atts as) xs # ys)"
  using assms att_reads [of as] by (intro c_elem) (auto simp: names_ok_def)

lemma empty_element_reads:
  assumes "names_ok as" "xml_name n" "content s ys" "list_all xml_space sp"
  shows "content (''<'' @ n @ concat (map att as) @ sp @ ''/>'' @ s) (Element n (clean_atts as) [] # ys)"
  using assms att_reads [of as] by (intro c_empty) (auto simp: names_ok_def)

lemma spaces: "list_all xml_space [LF]" "xml_space CHR '' ''" "xml_space LF"
  by (simp_all add: xml_space_def IsNormalizableWhitespace_def)

lemma c_LF: "content s xs \<Longrightarrow> content (LF # s) xs"
  by (rule c_space [OF _ spaces(3)])

lemma c_blank: "content s xs \<Longrightarrow> content (CHR '' '' # s) xs"
  by (rule c_space [OF _ spaces(2)])

subsection \<open>Results\<close>

definition part_text :: "test_part \<Rightarrow> string" where
  "part_text p =
     (let summary = part_location p @ [LF] @ tp_summary p; detail = part_location p @ [LF] @ tp_message p in
      if test_part_failed p
      then ''      <failure message='' @ quoted (EscapeXmlAttribute summary) @ '' type='' @ quoted [] @ ''>'' @
           OutputXmlCDataSection (xclean detail) @ ''</failure>'' @ [LF]
      else ''      <skipped message='' @ quoted (EscapeXmlAttribute summary) @ ''>'' @
           OutputXmlCDataSection (xclean detail) @ ''</skipped>'' @ [LF])"

lemma xml_parts_eq:
  "xml_parts ps f k =
    ((if f = 0 \<and> k = 0 \<and> filter (\<lambda>p. test_part_failed p \<or> test_part_skipped p) ps \<noteq> [] then ''>'' @ [LF] else []) @
      concat (map part_text (filter (\<lambda>p. test_part_failed p \<or> test_part_skipped p) ps)),
     f + length (filter test_part_failed ps), k + length (filter (\<lambda>p. \<not> test_part_failed p \<and> test_part_skipped p) ps))"
  by (induction ps f k rule: xml_parts.induct) (auto simp: Let_def part_text_def)

lemma no_interesting:
  "length (filter test_part_failed ps) = 0 \<and> length (filter (\<lambda>p. \<not> test_part_failed p \<and> test_part_skipped p) ps) = 0 \<longleftrightarrow>
   filter (\<lambda>p. test_part_failed p \<or> test_part_skipped p) ps = []"
  by (auto simp: filter_empty_conv)

lemma EscapeXmlAttribute_Nil [simp]: "EscapeXmlAttribute [] = []"
  by (simp add: EscapeXmlAttribute_def EscapeXml_def)

lemma xml_names:
  "xml_name ''failure''" "xml_name ''skipped''" "xml_name ''message''" "xml_name ''type''" "xml_name ''property''" "xml_name ''properties''"
  "xml_name ''name''" "xml_name ''value''" "xml_name ''testcase''" "xml_name ''testsuite''" "xml_name ''testsuites''"
  by (simp_all add: xml_name_def name_start_def name_char_def Let_def)

lemma chars_reads: "body (OutputXmlCDataSection (xclean d)) [Chars (xclean d)]"
  by (rule b_chars [OF OutputXmlCDataSection_reads])
     (simp add: OutputXmlCDataSection_def xml_space_def IsNormalizableWhitespace_def)

lemma xclean_Nil [simp]: "xclean [] = []"
  by (simp add: RemoveInvalidXmlCharacters_def)

lemma part_text_reads: "content (part_text p) [part_tree p]"
proof -
  let ?s = "part_location p @ [LF] @ tp_summary p" and ?d = "part_location p @ [LF] @ tp_message p"
  have f: "names_ok [(''message'', ?s), (''type'', [])]" and k: "names_ok [(''message'', ?s)]" by (simp_all add: names_ok_def xml_names)
  have "content (''      '' @ ''<'' @ ''failure'' @ concat (map att [(''message'', ?s), (''type'', [])]) @ ''>'' @
      OutputXmlCDataSection (xclean ?d) @ ''</'' @ ''failure'' @ ''>'' @ [LF])
    [Element ''failure'' (clean_atts [(''message'', ?s), (''type'', [])]) [Chars (xclean ?d)]]"
    using element_reads [OF f xml_names(1) chars_reads c_LF [OF c_nil]] by (simp add: c_blank)
  moreover have "content (''      '' @ ''<'' @ ''skipped'' @ concat (map att [(''message'', ?s)]) @ ''>'' @
      OutputXmlCDataSection (xclean ?d) @ ''</'' @ ''skipped'' @ ''>'' @ [LF])
    [Element ''skipped'' (clean_atts [(''message'', ?s)]) [Chars (xclean ?d)]]"
    using element_reads [OF k xml_names(2) chars_reads c_LF [OF c_nil]] by (simp add: c_blank)
  ultimately show ?thesis by (simp add: part_text_def part_tree_def Let_def att_def clean_atts_def)
qed

lemma property_element_reads: "content (property_element p) [property_tree p]"
proof -
  have n: "names_ok [(''name'', fst p), (''value'', snd p)]" by (simp add: names_ok_def xml_names)
  have "content (''        '' @ ''<'' @ ''property'' @ concat (map att [(''name'', fst p), (''value'', snd p)]) @ [] @ ''/>'' @ [LF]) [property_tree p]"
    using empty_element_reads [OF n xml_names(5) c_LF [OF c_nil], of "[]"] by (simp add: c_blank property_tree_def)
  then show ?thesis by (simp add: property_element_def att_def)
qed

lemma properties_read:
  "content (OutputXmlTestProperties r)
    (if tr_properties r = [] then [] else [Element ''properties'' [] (map property_tree (tr_properties r))])"
proof (cases "tr_properties r = []")
  case True
  then show ?thesis by (simp add: OutputXmlTestProperties_def c_nil)
next
  case False
  have "content (concat (map property_element (tr_properties r))) (concat (map (\<lambda>p. [property_tree p]) (tr_properties r)))"
    by (rule content_concat) (rule property_element_reads)
  then have "content (concat (map property_element (tr_properties r))) (map property_tree (tr_properties r))" by simp
  moreover have "content (''      '') []" by (simp add: c_blank c_nil)
  ultimately have "content (LF # concat (map property_element (tr_properties r)) @ ''      '') (map property_tree (tr_properties r))"
    using content_append by (fastforce intro: c_LF)
  from element_reads [OF _ xml_names(6) b_content [OF this] c_LF [OF c_nil], of "[]"] False show ?thesis
    by (simp add: OutputXmlTestProperties_def names_ok_def c_blank clean_atts_def)
qed

lemma OutputXmlTestResult_reads:
  assumes "names_ok as" "content s ys"
  shows "content (''<testcase'' @ concat (map att as) @ OutputXmlTestResult r @ s)
    (Element ''testcase'' (clean_atts as) (result_trees r) # ys)"
proof (cases "reported r = [] \<and> tr_properties r = []")
  case True
  then have "OutputXmlTestResult r = '' />'' @ [LF]"
    by (simp add: OutputXmlTestResult_def xml_parts_eq reported_def no_interesting filter_empty_conv)
  with True empty_element_reads [OF assms(1) xml_names(9) c_LF [OF assms(2)], of "'' ''"] show ?thesis
    by (simp add: result_trees_def spaces)
next
  case False
  let ?body = "concat (map part_text (reported r)) @ OutputXmlTestProperties r"
  have t: "OutputXmlTestResult r = ''>'' @ [LF] @ ?body @ ''    </testcase>'' @ [LF]"
    using False by (cases "reported r = []")
      (auto simp: OutputXmlTestResult_def xml_parts_eq reported_def filter_empty_conv OutputXmlTestProperties_def)
  have "content (concat (map part_text (reported r))) (concat (map (\<lambda>p. [part_tree p]) (reported r)))"
    by (rule content_concat) (rule part_text_reads)
  then have "content ?body (result_trees r)"
    using content_append [OF _ properties_read] by (simp add: result_trees_def)
  moreover have "content (''    '') []" by (simp add: c_blank c_nil)
  ultimately have "content (LF # ?body @ ''    '') (result_trees r)"
    using content_append by (fastforce intro: c_LF)
  from element_reads [OF assms(1) xml_names(9) b_content [OF this] c_LF [OF assms(2)]] show ?thesis by (simp add: t)
qed

subsection \<open>Tests and suites\<close>

lemma reserved_names:
  "xml_name ''disabled''" "xml_name ''errors''" "xml_name ''failures''" "xml_name ''random_seed''" "xml_name ''tests''"
  "xml_name ''time''" "xml_name ''timestamp''" "xml_name ''skipped''" "xml_name ''classname''" "xml_name ''status''"
  "xml_name ''type_param''" "xml_name ''value_param''" "xml_name ''file''" "xml_name ''line''" "xml_name ''result''"
  by (simp_all add: xml_name_reserved reserved_defs)

definition out_text :: "stop + string \<Rightarrow> string" where
  "out_text r = (case r of Inl _ \<Rightarrow> [] | Inr t \<Rightarrow> t)"

definition reads_to :: "stop + string \<Rightarrow> xml list \<Rightarrow> bool" where
  "reads_to r xs \<longleftrightarrow> (\<exists>t. r = Inr t \<and> content t xs)"

lemma reads_to_text: "reads_to r xs \<Longrightarrow> r = Inr (out_text r) \<and> content (out_text r) xs"
  by (auto simp: reads_to_def out_text_def)

lemma outs_reads:
  assumes "\<And>x. x \<in> set xs \<Longrightarrow> reads_to (f x) [g x]"
  shows "reads_to (outs (map f xs)) (map g xs)"
proof -
  have "outs (map f xs) = Inr (concat (map (\<lambda>x. out_text (f x)) xs))"
    by (rule outs_map) (use assms reads_to_text in blast)
  moreover have "content (concat (map (\<lambda>x. out_text (f x)) xs)) (concat (map (\<lambda>x. [g x]) xs))"
    by (rule content_concat) (use assms reads_to_text in blast)
  ultimately show ?thesis by (simp add: reads_to_def)
qed

lemma test_atts_ok: "names_ok (test_atts env suite t)"
  by (auto simp: names_ok_def test_atts_def xml_names reserved_names split: option.splits)

lemma test_info_text:
  "\<not> rt_in_another_shard t \<Longrightarrow> OutputXmlTestInfo env suite t =
    Inr (''    '' @ ''<testcase'' @ concat (map att (test_atts env suite t)) @
      (if list_tests env then '' />'' @ [LF] else OutputXmlTestResult (rt_result t)))"
  by (cases "rt_value_param t"; cases "rt_type_param t")
     (simp_all add: OutputXmlTestInfo_def Let_def optional_attribute_def attribute_allowed reserved_defs test_atts_def)

lemma OutputXmlTestInfo_reads:
  assumes "\<not> rt_in_another_shard t"
  shows "reads_to (OutputXmlTestInfo env suite t) [test_tree env suite t]"
proof (cases "list_tests env")
  case True
  then show ?thesis using empty_element_reads [OF test_atts_ok xml_names(9) c_LF [OF c_nil], of "'' ''" env suite t]
    by (simp add: reads_to_def test_info_text [OF assms] test_tree_def spaces c_blank)
next
  case False
  then show ?thesis using OutputXmlTestResult_reads [OF test_atts_ok c_nil, of env suite t "rt_result t"]
    by (simp add: reads_to_def test_info_text [OF assms] test_tree_def c_blank)
qed

text \<open>Recorded properties that make valid attributes.\<close>

definition props_ok :: "string list \<Rightarrow> attr list \<Rightarrow> bool" where
  "props_ok reserved ps \<longleftrightarrow> names_ok ps \<and> fst ` set ps \<inter> set reserved = {}"

lemma xml_name_no_NUL: "xml_name n \<Longrightarrow> NUL \<notin> set n"
  by (auto simp: xml_name_def list_all_iff name_char_def name_start_def Let_def)

lemma EscapeXmlAttribute_no_NUL: "NUL \<notin> set (EscapeXmlAttribute v)"
proof -
  have "NUL \<notin> set (StringStreamToString s)" for s by (induction s) auto
  then show ?thesis by (simp add: EscapeXmlAttribute_def EscapeXml_def)
qed

lemma TestPropertiesAsXmlAttributes_text:
  "names_ok (tr_properties r) \<Longrightarrow> TestPropertiesAsXmlAttributes r = concat (map att (tr_properties r))"
proof -
  assume n: "names_ok (tr_properties r)"
  have p: "property_attribute = att" by (rule ext) (simp add: property_attribute_def att_def)
  have "NUL \<notin> set (concat (map att (tr_properties r)))"
    using n xml_name_no_NUL EscapeXmlAttribute_no_NUL by (auto simp: att_def quoted_def names_ok_def)
  then show ?thesis unfolding TestPropertiesAsXmlAttributes_def p by (rule StringStreamToString_id)
qed

definition suite_ok :: "report_suite \<Rightarrow> bool" where
  "suite_ok s \<longleftrightarrow> props_ok kReservedTestSuiteAttributes (tr_properties (rs_ad_hoc s))"

lemma suite_atts_ok: "suite_ok s \<Longrightarrow> names_ok (suite_atts env s)"
  by (auto simp: suite_ok_def props_ok_def names_ok_def suite_atts_def Let_def xml_names reserved_names reserved_defs)

lemma reportable_here: "t \<in> set (filter rs_is_reportable ts) \<Longrightarrow> \<not> rt_in_another_shard t"
  by (simp add: rs_is_reportable_def is_reportable_def base_test_def)

lemma PrintXmlTestSuite_reads:
  assumes "suite_ok s"
  shows "reads_to (PrintXmlTestSuite env s) [suite_tree env s]"
proof -
  let ?ts = "filter rs_is_reportable (rs_tests s)"
  have "reads_to (outs (map (OutputXmlTestInfo env (rs_name s)) ?ts)) (map (test_tree env (rs_name s)) ?ts)"
    by (rule outs_reads) (rule OutputXmlTestInfo_reads [OF reportable_here])
  then obtain body where b: "outs (map (OutputXmlTestInfo env (rs_name s)) ?ts) = Inr body"
    "content body (map (test_tree env (rs_name s)) ?ts)" by (auto simp: reads_to_def)
  have p: "TestPropertiesAsXmlAttributes (rs_ad_hoc s) = concat (map att (tr_properties (rs_ad_hoc s)))"
    using assms by (simp add: suite_ok_def props_ok_def TestPropertiesAsXmlAttributes_text)
  have "PrintXmlTestSuite env s =
      Inr (''  '' @ ''<'' @ ''testsuite'' @ concat (map att (suite_atts env s)) @ ''>'' @ (LF # body @ ''  '') @ ''</'' @ ''testsuite'' @ ''>'' @ [LF])"
    by (simp add: PrintXmlTestSuite_def Let_def outs_append b(1) p attribute_allowed reserved_defs suite_atts_def)
  moreover have "content (''  '') []" by (simp add: c_blank c_nil)
  then have "content (LF # body @ ''  '') (map (test_tree env (rs_name s)) ?ts)"
    using content_append [OF b(2)] by (fastforce intro: c_LF)
  from element_reads [OF suite_atts_ok [OF assms] xml_names(10) b_content [OF this] c_LF [OF c_nil], of env]
  have "content (''  '' @ ''<'' @ ''testsuite'' @ concat (map att (suite_atts env s)) @ ''>'' @ (LF # body @ ''  '') @ ''</'' @ ''testsuite'' @ ''>'' @ [LF])
    [suite_tree env s]" by (simp add: suite_tree_def c_blank)
  ultimately show ?thesis unfolding reads_to_def by blast
qed

lemma OutputXmlTestSuiteForTestResult_reads: "reads_to (OutputXmlTestSuiteForTestResult env r) [ad_hoc_tree env r]"
proof -
  let ?secs = "seconds_text env (tr_elapsed r)" and ?stamp = "FormatEpochTimeInMillisAsIso8601 env (tr_start r)"
  let ?sa = "[(''name'', ''NonTestSuiteFailure''), (''tests'', ''1''), (''failures'', ''1''),
    (''disabled'', ''0''), (''skipped'', ''0''), (''errors'', ''0''), (''time'', ?secs), (''timestamp'', ?stamp)]"
  let ?ta = "[(''name'', []), (''status'', ''run''), (''result'', ''completed''), (''classname'', []), (''time'', ?secs), (''timestamp'', ?stamp)]"
  have n: "names_ok ?sa" "names_ok ?ta" by (simp_all add: names_ok_def xml_names reserved_names)
  have "OutputXmlTestSuiteForTestResult env r =
      Inr (''  '' @ ''<'' @ ''testsuite'' @ concat (map att ?sa) @ ''>'' @
        (''    '' @ ''<testcase'' @ concat (map att ?ta) @ OutputXmlTestResult r @ ''  '') @ ''</'' @ ''testsuite'' @ ''>'' @ [LF])"
    by (simp add: OutputXmlTestSuiteForTestResult_def attribute_allowed reserved_defs)
  moreover have "content (''  '') []" by (simp add: c_blank c_nil)
  from OutputXmlTestResult_reads [OF n(2) this, of r]
  have "content (''    '' @ ''<testcase'' @ concat (map att ?ta) @ OutputXmlTestResult r @ ''  '')
      [Element ''testcase'' (clean_atts ?ta) (result_trees r)]" by (simp add: c_blank)
  from element_reads [OF n(1) xml_names(10) b_content [OF this] c_LF [OF c_nil]]
  have "content (''  '' @ ''<'' @ ''testsuite'' @ concat (map att ?sa) @ ''>'' @
        (''    '' @ ''<testcase'' @ concat (map att ?ta) @ OutputXmlTestResult r @ ''  '') @ ''</'' @ ''testsuite'' @ ''>'' @ [LF]) [ad_hoc_tree env r]"
    by (simp add: ad_hoc_tree_def Let_def c_blank)
  ultimately show ?thesis unfolding reads_to_def by blast
qed

subsection \<open>The whole report\<close>

definition report_ok :: "report \<Rightarrow> bool" where
  "report_ok u \<longleftrightarrow> props_ok kReservedTestSuitesAttributes (tr_properties (ru_ad_hoc u)) \<and> (\<forall>s \<in> set (ru_suites u). suite_ok s)"

lemma report_atts_ok: "report_ok u \<Longrightarrow> names_ok (report_atts env u)"
  by (auto simp: report_ok_def props_ok_def names_ok_def report_atts_def xml_names reserved_names reserved_defs)

lemma PrintXmlUnitTest_reads:
  assumes "report_ok u"
  shows "\<exists>t. PrintXmlUnitTest env u = Inr (xml_declaration @ t) \<and> content t [report_tree env u]"
proof -
  let ?ss = "filter (\<lambda>s. 0 < reportable_test_count (base_suite s)) (ru_suites u)"
  let ?r = "if Failed (base_result (ru_ad_hoc u)) then OutputXmlTestSuiteForTestResult env (ru_ad_hoc u) else put []"
  let ?rt = "if Failed (base_result (ru_ad_hoc u)) then [ad_hoc_tree env (ru_ad_hoc u)] else []"
  have "reads_to (outs (map (PrintXmlTestSuite env) ?ss)) (map (suite_tree env) ?ss)"
    using assms by (intro outs_reads PrintXmlTestSuite_reads) (simp add: report_ok_def)
  then obtain body where b: "outs (map (PrintXmlTestSuite env) ?ss) = Inr body" "content body (map (suite_tree env) ?ss)"
    by (auto simp: reads_to_def)
  have "reads_to ?r ?rt" using OutputXmlTestSuiteForTestResult_reads by (simp add: reads_to_def c_nil)
  then obtain ad where ad: "?r = Inr ad" "content ad ?rt" by (auto simp: reads_to_def)
  have p: "TestPropertiesAsXmlAttributes (ru_ad_hoc u) = concat (map att (tr_properties (ru_ad_hoc u)))"
    using assms by (simp add: report_ok_def props_ok_def TestPropertiesAsXmlAttributes_text)
  have "PrintXmlUnitTest env u =
      Inr (xml_declaration @ ''<'' @ ''testsuites'' @ concat (map att (report_atts env u)) @ ''>'' @ (LF # body @ ad) @
        ''</'' @ ''testsuites'' @ ''>'' @ [LF])"
    unfolding PrintXmlUnitTest_def Let_def outs_append outs.simps b(1) ad(1)
    by (simp add: p attribute_allowed reserved_defs report_atts_def)
  moreover have "content (LF # body @ ad) (map (suite_tree env) ?ss @ ?rt)" by (intro c_LF content_append b ad)
  from element_reads [OF report_atts_ok [OF assms] xml_names(11) b_content [OF this] c_LF [OF c_nil], of env]
  have "content (''<'' @ ''testsuites'' @ concat (map att (report_atts env u)) @ ''>'' @ (LF # body @ ad) @ ''</'' @ ''testsuites'' @ ''>'' @ [LF])
    [report_tree env u]" by (simp only: report_tree_def)
  ultimately show ?thesis by blast
qed

end
