(* ===== verification/Gt_Print.thy ===== *)
theory Gt_Print
  imports Gt_Strings
begin

section \<open>Printing values\<close>

text \<open>
  The functions of \<open>gtest-printers.cc\<close> that print bytes, characters, strings and 128 bit integers.  A character of one of the
  types of C++ is its value as an integer together with the type; an array is the list of the
  elements that exist in memory, with checked accesses.  What a function writes to the stream is its result.
\<close>

subsection \<open>Bytes\<close>

definition PrintByteSegmentInObjectTo :: "8 word list \<Rightarrow> nat \<Rightarrow> nat \<Rightarrow> stop + string" where
  "PrintByteSegmentInObjectTo obj_bytes start num =
     rfold (\<lambda>i os. let j = start + i in
        bindr (vat obj_bytes j) (\<lambda>b.
          Inr (os @ (if i \<noteq> 0 then if j mod 2 = 0 then '' '' else ''-'' else []) @
                 zero_padded 2 (hex_digits (unat b)))))
       [0..<num] []"

definition kThreshold :: nat where "kThreshold = 132"

definition kChunkSize :: nat where "kChunkSize = 64"

definition PrintBytesInObjectTo :: "8 word list \<Rightarrow> nat \<Rightarrow> stop + string" where
  "PrintBytesInObjectTo obj_bytes num =
     (let head = dec_digits num @ ''-byte object <'' in
      if num < kThreshold
      then bindr (PrintByteSegmentInObjectTo obj_bytes 0 num) (\<lambda>t. Inr (head @ t @ ''>''))
      else
        bindr (PrintByteSegmentInObjectTo obj_bytes 0 kChunkSize) (\<lambda>t1.
          let resume_pos = (num - kChunkSize + 1) div 2 * 2 in
          bindr (PrintByteSegmentInObjectTo obj_bytes resume_pos (num - resume_pos)) (\<lambda>t2.
            Inr (head @ t1 @ '' ... '' @ t2 @ ''>''))))"

subsection \<open>Characters\<close>

datatype char_type = Char_t | SChar_t | UChar_t | Char8_t | Char16_t | Char32_t | WChar_t

text \<open>The number of bits and whether the type is signed, as on Linux on x86.\<close>

fun char_width :: "char_type \<Rightarrow> nat" where
  "char_width Char_t = 8"
| "char_width SChar_t = 8"
| "char_width UChar_t = 8"
| "char_width Char8_t = 8"
| "char_width Char16_t = 16"
| "char_width Char32_t = 32"
| "char_width WChar_t = 32"

definition char_signed :: "char_type \<Rightarrow> bool" where
  "char_signed ty \<longleftrightarrow> ty = Char_t \<or> ty = SChar_t \<or> ty = WChar_t"

definition char_value :: "char_type \<Rightarrow> int \<Rightarrow> bool" where
  "char_value ty c \<longleftrightarrow>
     (if char_signed ty then - (2 ^ (char_width ty - 1)) \<le> c \<and> c < 2 ^ (char_width ty - 1)
      else 0 \<le> c \<and> c < 2 ^ char_width ty)"

definition ToChar32 :: "char_type \<Rightarrow> int \<Rightarrow> nat" where
  "ToChar32 ty c = nat (c mod 2 ^ char_width ty)"

text \<open>\<open>static_cast<int>\<close>, which wraps for a \<open>char32_t\<close>.\<close>

definition to_c_int :: "int \<Rightarrow> int" where
  "to_c_int c = (c + 2147483648) mod 4294967296 - 2147483648"

datatype CharFormat = kAsIs | kHexEscape | kSpecialEscape

definition IsPrintableAscii :: "nat \<Rightarrow> bool" where
  "IsPrintableAscii c \<longleftrightarrow> 0x20 \<le> c \<and> c \<le> 0x7E"

definition esc :: "char \<Rightarrow> string" where "esc c = [CHR 0x5C, c]"

definition PrintAsCharLiteralTo :: "char_type \<Rightarrow> int \<Rightarrow> string \<times> CharFormat" where
  "PrintAsCharLiteralTo ty c =
     (let u_c = ToChar32 ty c in
      if u_c = 0 then (esc CHR ''0'', kSpecialEscape)
      else if u_c = 0x27 then (esc (CHR 0x27), kSpecialEscape)
      else if u_c = 0x5C then (esc (CHR 0x5C), kSpecialEscape)
      else if u_c = 7 then (esc CHR ''a'', kSpecialEscape)
      else if u_c = 8 then (esc CHR ''b'', kSpecialEscape)
      else if u_c = 12 then (esc CHR ''f'', kSpecialEscape)
      else if u_c = 10 then (esc CHR ''n'', kSpecialEscape)
      else if u_c = 13 then (esc CHR ''r'', kSpecialEscape)
      else if u_c = 9 then (esc CHR ''t'', kSpecialEscape)
      else if u_c = 11 then (esc CHR ''v'', kSpecialEscape)
      else if IsPrintableAscii u_c then ([char_of u_c], kAsIs)
      else (esc CHR ''x'' @ hex_digits u_c, kHexEscape))"

text \<open>The overload for \<open>char32_t\<close>, which the others call.\<close>

definition PrintAsStringLiteralTo :: "char_type \<Rightarrow> int \<Rightarrow> string \<times> CharFormat" where
  "PrintAsStringLiteralTo ty c =
     (let u = ToChar32 ty c in
      if u = 0x27 then ([CHR 0x27], kAsIs)
      else if u = 0x22 then (esc (CHR 0x22), kSpecialEscape)
      else PrintAsCharLiteralTo Char32_t (int u))"

fun GetCharWidthPrefix :: "char_type \<Rightarrow> string" where
  "GetCharWidthPrefix Char_t = []"
| "GetCharWidthPrefix SChar_t = []"
| "GetCharWidthPrefix UChar_t = []"
| "GetCharWidthPrefix Char8_t = ''u8''"
| "GetCharWidthPrefix Char16_t = ''u''"
| "GetCharWidthPrefix Char32_t = ''U''"
| "GetCharWidthPrefix WChar_t = ''L''"

definition PrintCharAndCodeTo :: "char_type \<Rightarrow> int \<Rightarrow> string" where
  "PrintCharAndCodeTo ty c =
     (let (t, format) = PrintAsCharLiteralTo ty c in
      GetCharWidthPrefix ty @ [CHR 0x27] @ t @ [CHR 0x27] @
      (if c = 0 then []
       else '' ('' @ dec_int (to_c_int c) @
         (if format = kHexEscape \<or> (1 \<le> c \<and> c \<le> 9) then []
          else '', 0x'' @ FormatHexInt (to_c_int c)) @ '')''))"

text \<open>The overloads of \<open>PrintTo\<close> for characters.\<close>

definition PrintTo_char32 :: "int \<Rightarrow> string" where
  "PrintTo_char32 c = ''U+'' @ zero_padded 4 (hex_digits (nat c))"

fun PrintTo_char :: "char_type \<Rightarrow> int \<Rightarrow> string" where
  "PrintTo_char Char_t c = PrintCharAndCodeTo UChar_t (c mod 256)"
| "PrintTo_char SChar_t c = PrintCharAndCodeTo SChar_t c"
| "PrintTo_char UChar_t c = PrintCharAndCodeTo UChar_t c"
| "PrintTo_char WChar_t c = PrintCharAndCodeTo WChar_t c"
| "PrintTo_char Char8_t c = PrintTo_char32 c"
| "PrintTo_char Char16_t c = PrintTo_char32 c"
| "PrintTo_char Char32_t c = PrintTo_char32 c"

definition PrintTo_bool :: "bool \<Rightarrow> string" where
  "PrintTo_bool x = (if x then ''true'' else ''false'')"

subsection \<open>Integers of 128 bits\<close>

text \<open>Storing in front of what the buffer of 40 bytes holds already.\<close>

definition push_front :: "char \<Rightarrow> string \<Rightarrow> stop + string" where
  "push_front c p = (if length p < 40 then Inr (c # p) else Inl Overflow)"

definition long_division :: "64 word \<Rightarrow> 64 word \<Rightarrow> 64 word \<times> 64 word \<times> 64 word" where
  "long_division high low =
     (let high_mod = high mod 10;
          carry = 6 * high_mod + low mod 10
      in (high div 10, low div 10 + high_mod * 1844674407370955161 + carry div 10, carry mod 10))"

definition joined :: "64 word \<Rightarrow> 64 word \<Rightarrow> nat" where
  "joined high low = unat high * 2 ^ 64 + unat low"

lemma carry_bound:
  assumes "l < 2 ^ 64" "h \<le> (9 :: nat)"
  shows "l div 10 + h * 1844674407370955161 + (6 * h + l mod 10) div 10 < 2 ^ 64"
proof -
  define q r c where d: "q = l div 10" "r = l mod 10" "c = (6 * h + l mod 10) div 10"
  have l: "10 * q + r = l" and c: "10 * c \<le> 6 * h + r" by (simp_all add: d)
  have "10 * (q + h * 1844674407370955161 + c) < 10 * 2 ^ 64" using assms l c by simp
  then show ?thesis by (simp add: d)
qed

lemma carry_eq:
  "h * 2 ^ 64 + l = 10 * (h div 10 * 2 ^ 64 + (l div 10 + h mod 10 * 1844674407370955161 + (6 * (h mod 10) + l mod 10) div 10))
    + (6 * (h mod 10) + l mod 10) mod (10 :: nat)"
proof -
  define q r q' r' c d where d: "q = h div 10" "r = h mod 10" "q' = l div 10" "r' = l mod 10"
    "c = (6 * (h mod 10) + l mod 10) div 10" "d = (6 * (h mod 10) + l mod 10) mod 10"
  have h: "h = 10 * q + r" and l: "l = 10 * q' + r'" and e: "6 * r + r' = 10 * c + d" by (simp_all add: d)
  have "h * 2 ^ 64 + l = 10 * (q * 2 ^ 64 + (q' + r * 1844674407370955161 + c)) + d" using e unfolding h l by simp
  then show ?thesis by (simp add: d)
qed

lemma long_division:
  assumes "long_division high low = (high', low', digit)"
  shows "joined high low = 10 * joined high' low' + unat digit" "unat digit < 10"
proof -
  let ?h = "unat high" and ?l = "unat low"
  have bounds: "?h < 2 ^ 64" "?l < 2 ^ 64" by (rule order_less_le_trans [OF unsigned_less], simp)+
  have m: "?h mod 10 \<le> 9" "?l mod 10 \<le> 9" by simp_all
  have eqs: "unat high' = ?h div 10"
    and d: "unat digit = (6 * (?h mod 10) + ?l mod 10) mod 10"
    and l: "unat low' = ?l div 10 + ?h mod 10 * 1844674407370955161 + (6 * (?h mod 10) + ?l mod 10) div 10"
  proof -
    have hm: "unat (high mod 10) = ?h mod 10" "unat (low mod 10) = ?l mod 10" by (simp_all add: unat_mod_distrib)
    have c: "unat (6 * (high mod 10) + low mod 10) = 6 * (?h mod 10) + ?l mod 10"
      using m by (simp add: unat_word_ariths hm)
    have ld: "unat (low div 10) = ?l div 10" by (simp add: unat_div_distrib)
    have cd: "unat ((6 * (high mod 10) + low mod 10) div 10) = (6 * (?h mod 10) + ?l mod 10) div 10"
      by (simp add: unat_div_distrib c)
    have b: "?l div 10 + ?h mod 10 * 1844674407370955161 + (6 * (?h mod 10) + ?l mod 10) div 10 < 2 ^ 64"
      using bounds(2) m(1) by (rule carry_bound)
    show "unat high' = ?h div 10" using assms by (auto simp: long_division_def Let_def unat_div_distrib)
    show "unat digit = (6 * (?h mod 10) + ?l mod 10) mod 10"
      using assms by (auto simp: long_division_def Let_def unat_mod_distrib c)
    show "unat low' = ?l div 10 + ?h mod 10 * 1844674407370955161 + (6 * (?h mod 10) + ?l mod 10) div 10"
      using assms b by (auto simp: long_division_def Let_def unat_word_ariths hm ld cd)
  qed
  show "unat digit < 10" using d by simp
  show "joined high low = 10 * joined high' low' + unat digit"
    unfolding joined_def eqs d l by (rule carry_eq)
qed

lemma long_division_less:
  assumes "high = 0 \<Longrightarrow> low \<noteq> 0" "(high', low', digit) = long_division high low"
  shows "joined high' low' < joined high low"
proof -
  have "0 < joined high low" using assms(1) by (cases "high = 0") (auto simp: joined_def unat_gt_0 unat_eq_0)
  with long_division(1) [OF assms(2) [symmetric]] show ?thesis by simp
qed

function digits128 :: "64 word \<Rightarrow> 64 word \<Rightarrow> string \<Rightarrow> stop + string" where
  "digits128 high low p =
     (if high = 0 \<and> low = 0 then Inr p
      else case long_division high low of (high', low', digit) \<Rightarrow>
        bindr (push_front (char_of (48 + unat digit)) p) (digits128 high' low'))"
  by pat_completeness auto
termination
  by (relation "measure (\<lambda>(high, low, p). joined high low)") (auto intro!: long_division_less)

declare digits128.simps [simp del]

definition PrintTo_uint128 :: "128 word \<Rightarrow> stop + string" where
  "PrintTo_uint128 v =
     (if v = 0 then Inr ''0''
      else bindr (push_front NUL []) (\<lambda>p.
        bindr (digits128 (ucast (drop_bit 64 v)) (ucast v) p) (\<lambda>p. Inr (cstr p))))"

definition PrintTo_int128 :: "128 word \<Rightarrow> stop + string" where
  "PrintTo_int128 v =
     (if v <s 0 then bindr (PrintTo_uint128 (- v)) (\<lambda>t. Inr (''-'' @ t)) else PrintTo_uint128 v)"

subsection \<open>Strings\<close>

definition isxdigit :: "int \<Rightarrow> bool" where
  "isxdigit c \<longleftrightarrow> 48 \<le> c \<and> c \<le> 57 \<or> 65 \<le> c \<and> c \<le> 70 \<or> 97 \<le> c \<and> c \<le> 102"

text \<open>The overloads for one byte look at the byte; the others make sure that there is nothing else.\<close>

definition IsXDigit :: "char_type \<Rightarrow> int \<Rightarrow> bool" where
  "IsXDigit ty ch =
     (if char_width ty = 8 then isxdigit (ch mod 256)
      else let low_byte = ch mod 256 in ch = low_byte \<and> isxdigit low_byte)"

text \<open>The state of the loop: the text, whether the previous character was printed as a hexadecimal escape, and whether any was.\<close>

definition print_char_step :: "char_type \<Rightarrow> int \<Rightarrow> string \<times> bool \<times> CharFormat \<Rightarrow> string \<times> bool \<times> CharFormat" where
  "print_char_step ty cur = (\<lambda>(os, is_previous_hex, print_format).
     let os1 = os @ (if is_previous_hex \<and> IsXDigit ty cur
                     then [CHR 0x22] @ '' '' @ GetCharWidthPrefix ty @ [CHR 0x22] else []);
         (t, f) = PrintAsStringLiteralTo ty cur;
         is_hex = (f = kHexEscape)
     in (os1 @ t, is_hex, if is_hex then kHexEscape else print_format))"

definition PrintCharsAsStringTo :: "char_type \<Rightarrow> int list \<Rightarrow> nat \<Rightarrow> stop + string \<times> CharFormat" where
  "PrintCharsAsStringTo ty from len =
     bindr (vat from 0) (\<lambda>_.
     bindr (rfold (\<lambda>index s. bindr (vat from index) (\<lambda>cur. Inr (print_char_step ty cur s)))
              [0..<len] (GetCharWidthPrefix ty @ [CHR 0x22], False, kAsIs)) (\<lambda>(os, _, print_format).
       Inr (os @ [CHR 0x22], print_format)))"

definition UniversalPrintArray :: "char_type \<Rightarrow> int list \<Rightarrow> nat \<Rightarrow> stop + string" where
  "UniversalPrintArray ty from len =
     bindr (if 0 < len then bindr (vat from (len - 1)) (\<lambda>c. Inr (c = 0)) else Inr False) (\<lambda>b.
       if b then bindr (PrintCharsAsStringTo ty from (len - 1)) (\<lambda>(t, _). Inr t)
       else bindr (PrintCharsAsStringTo ty from len) (\<lambda>(t, _). Inr (t @ '' (no terminating NUL)'')))"

text \<open>A pointer is \<open>None\<close> or its printed address with the elements from there on.\<close>

definition PrintCStringTo :: "char_type \<Rightarrow> (string \<times> int list) option \<Rightarrow> stop + string" where
  "PrintCStringTo ty s =
     (case s of
        None \<Rightarrow> Inr ''NULL''
      | Some (address, cs) \<Rightarrow>
          if 0 \<in> set cs
          then bindr (PrintCharsAsStringTo ty cs (length (takeWhile (\<lambda>c. c \<noteq> 0) cs))) (\<lambda>(t, _).
                 Inr (address @ '' pointing to '' @ t))
          else Inl Overread)"

subsection \<open>Strings that are text\<close>

definition iscntrl :: "nat \<Rightarrow> bool" where
  "iscntrl c \<longleftrightarrow> c < 32 \<or> c = 127"

fun ContainsUnprintableControlCodes :: "string \<Rightarrow> bool" where
  "ContainsUnprintableControlCodes [] = False"
| "ContainsUnprintableControlCodes (ch # s) =
     (if iscntrl (of_char ch) \<and> ch \<noteq> CHR 0x09 \<and> ch \<noteq> CHR 0x0A \<and> ch \<noteq> CHR 0x0D then True
      else ContainsUnprintableControlCodes s)"

definition IsUTF8TrailByte :: "nat \<Rightarrow> bool" where
  "IsUTF8TrailByte t \<longleftrightarrow> 0x80 \<le> t \<and> t \<le> 0xBF"

text \<open>\<open>&&\<close> whose second operand is evaluated only if the first one holds.\<close>

definition andr :: "bool \<Rightarrow> (stop + bool) \<Rightarrow> stop + bool" where
  "andr b r = (if b then r else Inr False)"

definition trail_at :: "string \<Rightarrow> nat \<Rightarrow> stop + bool" where
  "trail_at s i = bindr (vat s i) (\<lambda>c. Inr (IsUTF8TrailByte (of_char c)))"

definition trails :: "string \<Rightarrow> nat list \<Rightarrow> stop + bool" where
  "trails s is = rfold (\<lambda>i b. andr b (trail_at s i)) is True"

text \<open>A condition on the second byte, which is looked at for two of the leads only.\<close>

definition second_at :: "string \<Rightarrow> nat \<Rightarrow> nat \<Rightarrow> nat \<Rightarrow> nat \<Rightarrow> nat \<Rightarrow> stop + bool" where
  "second_at s i lead low high bound =
     bindr (if lead = low then bindr (vat s i) (\<lambda>c. Inr (bound \<le> of_char c)) else Inr True) (\<lambda>b1.
     andr b1 (if lead = high then bindr (vat s i) (\<lambda>c. Inr (of_char c < bound)) else Inr True))"

function valid_utf8_loop :: "string \<Rightarrow> nat \<Rightarrow> nat \<Rightarrow> stop + bool" where
  "valid_utf8_loop s len i =
     (if i < len then
        bindr (vat s i) (\<lambda>c. let lead = of_char c :: nat in
          if lead \<le> 0x7F then valid_utf8_loop s len (i + 1)
          else if lead < 0xC2 then Inr False
          else
            bindr (andr (lead \<le> 0xDF \<and> i + 2 \<le> len) (trail_at s (i + 1))) (\<lambda>two.
            if two then valid_utf8_loop s len (i + 2)
            else
              bindr (andr (0xE0 \<le> lead \<and> lead \<le> 0xEF \<and> i + 3 \<le> len)
                       (bindr (trails s [i + 1, i + 2]) (\<lambda>b. andr b (second_at s (i + 1) lead 0xE0 0xED 0xA0)))) (\<lambda>three.
              if three then valid_utf8_loop s len (i + 3)
              else
                bindr (andr (0xF0 \<le> lead \<and> lead \<le> 0xF4 \<and> i + 4 \<le> len)
                         (bindr (trails s [i + 1, i + 2, i + 3]) (\<lambda>b. andr b (second_at s (i + 1) lead 0xF0 0xF4 0x90)))) (\<lambda>four.
                if four then valid_utf8_loop s len (i + 4) else Inr False))))
      else Inr True)"
  by pat_completeness auto
termination
  by (relation "measure (\<lambda>(s, len, i). len - i)") auto

declare valid_utf8_loop.simps [simp del]

definition IsValidUTF8 :: "string \<Rightarrow> nat \<Rightarrow> stop + bool" where
  "IsValidUTF8 s len = valid_utf8_loop s len 0"

definition ConditionalPrintAsText :: "string \<Rightarrow> nat \<Rightarrow> stop + string" where
  "ConditionalPrintAsText str len =
     (if ContainsUnprintableControlCodes (take len str) then Inr []
      else bindr (IsValidUTF8 str len) (\<lambda>valid.
        Inr (if valid then [CHR 0x0A] @ ''    As Text: '' @ [CHR 0x22] @ cstr str @ [CHR 0x22] else [])))"

text \<open>A \<open>char\<close> of a string as a value of its type, and the data of a \<open>std::basic_string\<close>, which ends with a terminator.\<close>

definition char_val :: "char \<Rightarrow> int" where
  "char_val c = (if of_char c < (128 :: int) then of_char c else of_char c - 256)"

definition PrintStringTo :: "bool \<Rightarrow> string \<Rightarrow> stop + string" where
  "PrintStringTo print_utf8 s =
     bindr (PrintCharsAsStringTo Char_t (map char_val s @ [0]) (length s)) (\<lambda>(t, format).
       if format = kHexEscape \<and> print_utf8
       then bindr (ConditionalPrintAsText (s @ [NUL]) (length s)) (\<lambda>u. Inr (t @ u))
       else Inr t)"

definition PrintBasicStringTo :: "char_type \<Rightarrow> int list \<Rightarrow> stop + string" where
  "PrintBasicStringTo ty s = bindr (PrintCharsAsStringTo ty (s @ [0]) (length s)) (\<lambda>(t, _). Inr t)"

end
