(* ===== verification/Gt_Literal_Spec.thy ===== *)
theory Gt_Literal_Spec
  imports Gt_Print
begin

section \<open>Printed strings are literals\<close>

text \<open>
  A reader of C++ string literals, with the escape sequences of the language and adjacent literals joined, and what it makes of
  a printed string.  The only trouble is the escape \<open>\0\<close>, which takes up octal digits that follow it.
\<close>

subsection \<open>Reading literals\<close>

definition code_of :: "char \<Rightarrow> nat" where "code_of = of_char"

definition octal :: "char \<Rightarrow> bool" where "octal c \<longleftrightarrow> 48 \<le> code_of c \<and> code_of c \<le> 55"

definition xdigit :: "char \<Rightarrow> bool" where "xdigit c \<longleftrightarrow> isxdigit (int (code_of c))"

definition xdigit_value :: "char \<Rightarrow> nat" where
  "xdigit_value c = (let n = code_of c in if n \<le> 57 then n - 48 else if n \<le> 70 then n - 55 else n - 87)"

definition number :: "nat \<Rightarrow> string \<Rightarrow> nat" where
  "number base ds = foldl (\<lambda>n d. base * n + xdigit_value d) 0 ds"

definition simple_escape :: "char \<Rightarrow> nat option" where
  "simple_escape c = map_of [(CHR 0x27, 0x27), (CHR 0x22, 0x22), (CHR 0x5C, 0x5C), (CHR ''a'', 7), (CHR ''b'', 8), (CHR ''f'', 12),
     (CHR ''n'', 10), (CHR ''r'', 13), (CHR ''t'', 9), (CHR ''v'', 11)] c"

function read_body :: "string \<Rightarrow> string \<Rightarrow> nat list option" where
  "read_body pre s =
     (case s of
        [] \<Rightarrow> None
      | c # r \<Rightarrow>
          if c = CHR 0x22
          then if r = [] then Some []
               else if take (length pre + 2) r = '' '' @ pre @ [CHR 0x22] then read_body pre (drop (length pre + 2) r)
               else None
          else if c = CHR 0x5C
          then if r = [] then None
               else if octal (hd r)
               then let ds = takeWhile octal (take 3 r) in map_option ((#) (number 8 ds)) (read_body pre (drop (length ds) r))
               else if hd r = CHR ''x''
               then let ds = takeWhile xdigit (tl r) in
                    if ds = [] then None else map_option ((#) (number 16 ds)) (read_body pre (drop (length ds) (tl r)))
               else (case simple_escape (hd r) of None \<Rightarrow> None | Some v \<Rightarrow> map_option ((#) v) (read_body pre (tl r)))
          else if c = CHR 0x0A then None
          else map_option ((#) (code_of c)) (read_body pre r))"
  by pat_completeness auto
termination
  by (relation "measure (\<lambda>(pre, s). length s)") (auto simp: less_Suc_eq_le)

declare read_body.simps [simp del]

definition read_literal :: "string \<Rightarrow> string \<Rightarrow> nat list option" where
  "read_literal pre s =
     (if take (length pre + 1) s = pre @ [CHR 0x22] then read_body pre (drop (length pre + 1) s) else None)"

subsection \<open>The text of a literal\<close>

text \<open>How a code is printed, and whether as a hexadecimal escape.\<close>

definition lit_char :: "nat \<Rightarrow> string \<times> bool" where
  "lit_char u = map_prod id (\<lambda>f. f = kHexEscape) (PrintAsStringLiteralTo Char32_t (int u))"

definition xcode :: "nat \<Rightarrow> bool" where "xcode u \<longleftrightarrow> isxdigit (int u)"

fun lits :: "string \<Rightarrow> nat list \<Rightarrow> bool \<Rightarrow> string" where
  "lits pre [] h = [CHR 0x22]"
| "lits pre (u # us) h =
     (if h \<and> xcode u then [CHR 0x22] @ '' '' @ pre @ [CHR 0x22] else []) @ fst (lit_char u) @ lits pre us (snd (lit_char u))"

lemma ToChar32_less: "ToChar32 ty c < 4294967296"
  by (cases ty) (auto simp: ToChar32_def nat_less_iff intro: order_less_le_trans [OF pos_mod_bound])

lemma ToChar32_32: "u < 4294967296 \<Longrightarrow> ToChar32 Char32_t (int u) = u"
  by (simp add: ToChar32_def)

lemma PrintAsStringLiteralTo_code:
  "PrintAsStringLiteralTo ty c = PrintAsStringLiteralTo Char32_t (int (ToChar32 ty c))"
  by (simp add: PrintAsStringLiteralTo_def ToChar32_32 [OF ToChar32_less])

lemma IsXDigit_code: "char_value ty c \<Longrightarrow> IsXDigit ty c \<longleftrightarrow> xcode (ToChar32 ty c)"
proof -
  assume v: "char_value ty c"
  have small: "isxdigit d \<Longrightarrow> 0 \<le> d \<and> d < 256" for d by (auto simp: isxdigit_def)
  show ?thesis
  proof (cases "char_width ty = 8")
    case True
    then show ?thesis by (simp add: IsXDigit_def xcode_def ToChar32_def)
  next
    case False
    then have m: "c mod 2 ^ char_width ty = (if c < 0 then c + 4294967296 else c)"
    proof (cases "c < 0")
      case True
      with v False have "ty = WChar_t" "- 2147483648 \<le> c" by (cases ty; auto simp: char_value_def char_signed_def)+
      moreover have "c mod 4294967296 = (c + 4294967296) mod 4294967296" by simp
      moreover have "(c + 4294967296) mod 4294967296 = c + 4294967296"
        using True calculation(2) by (intro mod_pos_pos_trivial) simp_all
      ultimately show ?thesis using True by simp
    next
      case False
      with v show ?thesis by (cases ty) (auto simp: char_value_def char_signed_def)
    qed
    have "c < 0 \<Longrightarrow> 256 \<le> c + 4294967296" using v False by (cases ty) (auto simp: char_value_def char_signed_def)
    then show ?thesis using False m small [of c] small [of "c + 4294967296"]
      by (auto simp: IsXDigit_def xcode_def ToChar32_def Let_def)
  qed
qed

lemma rfold_vat:
  "a + n \<le> length xs \<Longrightarrow>
   rfold (\<lambda>i s. bindr (vat xs i) (\<lambda>x. Inr (f x s))) [a..<a + n] s = Inr (fold f (take n (drop a xs)) s)"
proof (induction n arbitrary: a s)
  case (Suc n)
  have "take (Suc n) (drop a xs) = xs ! a # take n (drop (Suc a) xs)"
    using Suc.prems by (simp add: Cons_nth_drop_Suc [symmetric])
  moreover have "[a..<a + Suc n] = a # [Suc a..<Suc a + n]" by (simp add: upt_rec)
  ultimately show ?case using Suc.IH [of "Suc a" "f (xs ! a) s"] Suc.prems by (simp add: vat_def)
qed simp

lemma print_char_step_lit:
  assumes "char_value ty c"
  shows "\<exists>f'. print_char_step ty c (os, h, f) =
    (os @ (if h \<and> xcode (ToChar32 ty c) then [CHR 0x22] @ '' '' @ GetCharWidthPrefix ty @ [CHR 0x22] else []) @
       fst (lit_char (ToChar32 ty c)), snd (lit_char (ToChar32 ty c)), f')"
  using assms
  by (cases "PrintAsStringLiteralTo ty c")
     (simp add: print_char_step_def lit_char_def IsXDigit_code PrintAsStringLiteralTo_code [symmetric] Let_def)

lemma fold_print_char_step:
  assumes "\<forall>c \<in> set cs. char_value ty c"
  shows "fst (fold (print_char_step ty) cs (os, h, f)) @ [CHR 0x22] =
    os @ lits (GetCharWidthPrefix ty) (map (ToChar32 ty) cs) h"
  using assms
proof (induction cs arbitrary: os h f)
  case (Cons c cs)
  from print_char_step_lit [of ty c os h f] Cons.prems obtain f' where
    "print_char_step ty c (os, h, f) =
    (os @ (if h \<and> xcode (ToChar32 ty c) then [CHR 0x22] @ '' '' @ GetCharWidthPrefix ty @ [CHR 0x22] else []) @
       fst (lit_char (ToChar32 ty c)), snd (lit_char (ToChar32 ty c)), f')" by auto
  with Cons show ?case by simp
qed simp

lemma PrintCharsAsStringTo_lits:
  assumes "\<forall>c \<in> set cs. char_value ty c" "cs @ more \<noteq> []"
  shows "\<exists>f. PrintCharsAsStringTo ty (cs @ more) (length cs) =
    Inr (GetCharWidthPrefix ty @ [CHR 0x22] @ lits (GetCharWidthPrefix ty) (map (ToChar32 ty) cs) False, f)"
proof -
  let ?p = "GetCharWidthPrefix ty @ [CHR 0x22]"
  obtain os h f where r: "fold (print_char_step ty) cs (?p, False, kAsIs) = (os, h, f)"
    by (cases "fold (print_char_step ty) cs (?p, False, kAsIs)") auto
  have "os @ [CHR 0x22] = ?p @ lits (GetCharWidthPrefix ty) (map (ToChar32 ty) cs) False"
    using fold_print_char_step [OF assms(1), of ?p False kAsIs] r by simp
  with r assms(2) rfold_vat [of 0 "length cs" "cs @ more" "print_char_step ty" "(?p, False, kAsIs)"] show ?thesis
    by (simp add: PrintCharsAsStringTo_def vat_def)
qed

subsection \<open>Reading a printed string back\<close>

text \<open>No NUL character is followed by an octal digit.\<close>

fun nul_safe :: "nat list \<Rightarrow> bool" where
  "nul_safe [] = True"
| "nul_safe (u # us) \<longleftrightarrow> \<not> (u = 0 \<and> us \<noteq> [] \<and> 48 \<le> hd us \<and> hd us \<le> 55) \<and> nul_safe us"

lemma code_of_char_of [simp]: "u < 256 \<Longrightarrow> code_of (char_of u) = u"
  by (simp add: code_of_def)

lemma char_of_eq_iff: "u < 256 \<Longrightarrow> char_of u = c \<longleftrightarrow> u = code_of c"
  by (auto simp: code_of_def)

text \<open>The kinds of codes.\<close>

lemma lit_char_cases:
  assumes "u < 4294967296"
  obtains "u = 0" "lit_char u = ([CHR 0x5C, CHR ''0''], False)"
  | c where "0 < u" "simple_escape c = Some u" "\<not> octal c" "c \<noteq> CHR ''x''" "lit_char u = ([CHR 0x5C, c], False)"
  | "0x20 \<le> u" "u \<le> 0x7E" "u \<noteq> 0x22" "u \<noteq> 0x5C" "lit_char u = ([char_of u], False)"
  | "0 < u" "\<not> (48 \<le> u \<and> u \<le> 57)" "lit_char u = ([CHR 0x5C, CHR ''x''] @ hex_digits u, True)"
proof -
  have e: "lit_char u =
    (if u = 0x27 then ([CHR 0x27], False)
     else if u = 0x22 then ([CHR 0x5C, CHR 0x22], False)
     else map_prod id (\<lambda>f. f = kHexEscape) (PrintAsCharLiteralTo Char32_t (int u)))"
    using assms by (simp add: lit_char_def PrintAsStringLiteralTo_def ToChar32_32 esc_def)
  note c = PrintAsCharLiteralTo_def ToChar32_32 esc_def simple_escape_def octal_def code_of_def IsPrintableAscii_def
  consider "u = 0" | "u = 0x27" | "u \<in> {0x22, 0x5C, 7, 8, 12, 10, 13, 9, 11}"
    | "u \<notin> {0, 0x27, 0x22, 0x5C, 7, 8, 12, 10, 13, 9, 11}" by auto
  then show thesis
  proof cases
    case 1
    with e have "lit_char u = map_prod id (\<lambda>f. f = kHexEscape) (PrintAsCharLiteralTo Char32_t 0)" by simp
    then show thesis using 1 by (intro that(1)) (simp_all add: c ToChar32_def)
  next
    case 2
    moreover have "char_of (39 :: nat) = CHR 0x27" by code_simp
    ultimately show thesis using e by (intro that(3)) simp_all
  next
    case 3
    then consider "u = 34" | "u = 92" | "u = 7" | "u = 8" | "u = 12" | "u = 10" | "u = 13" | "u = 9" | "u = 11" by auto
    then show thesis
    proof cases
      case 1
      with e show thesis by (intro that(2) [of "CHR 0x22"]) (simp_all add: c ToChar32_def)
    next
      case 2
      with e show thesis by (intro that(2) [of "CHR 0x5C"]) (simp_all add: c ToChar32_def)
    next
      case 3
      with e show thesis by (intro that(2) [of "CHR ''a''"]) (simp_all add: c ToChar32_def)
    next
      case 4
      with e show thesis by (intro that(2) [of "CHR ''b''"]) (simp_all add: c ToChar32_def)
    next
      case 5
      with e show thesis by (intro that(2) [of "CHR ''f''"]) (simp_all add: c ToChar32_def)
    next
      case 6
      with e show thesis by (intro that(2) [of "CHR ''n''"]) (simp_all add: c ToChar32_def)
    next
      case 7
      with e show thesis by (intro that(2) [of "CHR ''r''"]) (simp_all add: c ToChar32_def)
    next
      case 8
      with e show thesis by (intro that(2) [of "CHR ''t''"]) (simp_all add: c ToChar32_def)
    next
      case 9
      with e show thesis by (intro that(2) [of "CHR ''v''"]) (simp_all add: c ToChar32_def)
    qed
  next
    case 4
    show thesis
    proof (cases "0x20 \<le> u \<and> u \<le> 0x7E")
      case True
      with 4 show thesis by (intro that(3)) (simp_all add: e c)
    next
      case False
      with 4 assms show thesis by (intro that(4)) (auto simp: e c)
    qed
  qed
qed

lemma hex_digit_value: "d < 16 \<Longrightarrow> xdigit (hex_digit d) \<and> xdigit_value (hex_digit d) = d"
  by (auto simp: hex_digit_def xdigit_def xdigit_value_def isxdigit_def Let_def)

lemma hex_digits_number: "number 16 (hex_digits u) = u \<and> (\<forall>c \<in> set (hex_digits u). xdigit c)"
proof (induction u rule: hex_digits.induct)
  case (1 n)
  show ?case
  proof (cases "n < 16")
    case True
    then show ?thesis by (simp add: hex_digits.simps [of n] number_def hex_digit_value)
  next
    case False
    with 1 have "number 16 (hex_digits (n div 16)) = n div 16" "\<forall>c \<in> set (hex_digits (n div 16)). xdigit c" by auto
    with False hex_digit_value [of "n mod 16"] show ?thesis by (simp add: hex_digits.simps [of n] number_def)
  qed
qed

lemma hex_digits_not_Nil [simp]: "hex_digits n \<noteq> []"
  by (subst hex_digits.simps) simp

text \<open>What follows a hexadecimal escape does not look like a part of it.\<close>

lemma lits_after_hex:
  assumes "\<forall>u \<in> set us. u < 4294967296"
  shows "takeWhile xdigit (lits pre us True) = []"
proof (cases us)
  case Nil
  then show ?thesis by (simp add: xdigit_def isxdigit_def code_of_def)
next
  case (Cons u us')
  have q: "\<not> xdigit (CHR 0x22)" "\<not> xdigit (CHR 0x5C)" by (simp_all add: xdigit_def isxdigit_def code_of_def)
  from Cons assms have "u < 4294967296" by simp
  then show ?thesis
  proof (rule lit_char_cases)
    assume "0x20 \<le> u" "u \<le> 0x7E" "lit_char u = ([char_of u], False)"
    with Cons q show ?thesis by (simp add: xcode_def xdigit_def)
  qed (use Cons q in simp_all)
qed

lemma read_break: "read_body pre ([CHR 0x22] @ '' '' @ pre @ [CHR 0x22] @ s) = read_body pre s"
  by (subst read_body.simps) simp

lemma read_plain: "c \<noteq> CHR 0x22 \<Longrightarrow> c \<noteq> CHR 0x5C \<Longrightarrow> c \<noteq> CHR 0x0A \<Longrightarrow> read_body pre (c # s) = map_option ((#) (code_of c)) (read_body pre s)"
  by (subst read_body.simps) simp

lemma read_simple:
  "\<not> octal c \<Longrightarrow> c \<noteq> CHR ''x'' \<Longrightarrow> simple_escape c = Some v \<Longrightarrow> read_body pre (CHR 0x5C # c # s) = map_option ((#) v) (read_body pre s)"
  by (subst read_body.simps) simp

lemma read_hex:
  "takeWhile xdigit s = [] \<Longrightarrow> read_body pre (CHR 0x5C # CHR ''x'' # hex_digits u @ s) = map_option ((#) u) (read_body pre s)"
proof -
  assume s: "takeWhile xdigit s = []"
  have "takeWhile xdigit (hex_digits u @ s) = hex_digits u" using hex_digits_number [of u] s by (simp add: takeWhile_append2)
  moreover have "\<not> octal CHR ''x''" by (simp add: octal_def code_of_def)
  ultimately show ?thesis using hex_digits_number [of u] by (subst read_body.simps) simp
qed

lemma read_octal:
  "ds = takeWhile octal (take 2 s) \<Longrightarrow>
   read_body pre (CHR 0x5C # CHR ''0'' # s) = map_option ((#) (number 8 (CHR ''0'' # ds))) (read_body pre (drop (length ds) s))"
proof -
  assume ds: "ds = takeWhile octal (take 2 s)"
  have "octal CHR ''0''" by (simp add: octal_def code_of_def)
  then have "takeWhile octal (take 3 (CHR ''0'' # s)) = CHR ''0'' # ds" by (simp add: ds eval_nat_numeral)
  moreover have "octal CHR ''0''" by (simp add: octal_def code_of_def)
  ultimately show ?thesis by (subst read_body.simps) (simp add: Let_def)
qed

lemma read_end: "read_body pre [CHR 0x22] = Some []"
  by (subst read_body.simps) simp

text \<open>How many codes a \<open>\0\<close> takes with it.\<close>

lemma lits_octal:
  assumes "48 \<le> u" "u \<le> 55"
  shows "lits pre (u # us) False = char_of u # lits pre us False" "octal (char_of u)"
proof -
  have "u < 4294967296" using assms by simp
  then have "lit_char u = ([char_of u], False)"
    by (rule lit_char_cases) (use assms in \<open>auto simp: simple_escape_def split: if_splits\<close>)
  then show "lits pre (u # us) False = char_of u # lits pre us False" by simp
  show "octal (char_of u)" using assms by (simp add: octal_def)
qed

lemma lits_not_octal:
  assumes "\<forall>u \<in> set us. u < 4294967296" "us = [] \<or> \<not> (48 \<le> hd us \<and> hd us \<le> 55)"
  shows "takeWhile octal (take n (lits pre us False)) = []"
proof -
  have q: "\<not> octal (CHR 0x22)" "\<not> octal (CHR 0x5C)" by (simp_all add: octal_def code_of_def)
  show ?thesis
  proof (cases us)
    case Nil
    with q show ?thesis by (cases n) simp_all
  next
    case (Cons u us')
    with assms have u: "u < 4294967296" "\<not> (48 \<le> u \<and> u \<le> 55)" by auto
    from u(1) show ?thesis
    proof (rule lit_char_cases)
      assume "0x20 \<le> u" "u \<le> 0x7E" "lit_char u = ([char_of u], False)"
      with Cons u(2) show ?thesis by (cases n) (auto simp: octal_def)
    qed (use Cons q in \<open>cases n; simp\<close>)+
  qed
qed

lemma octal_run:
  assumes "\<forall>u \<in> set us. u < 4294967296"
  shows "\<exists>k \<le> length us. length (takeWhile octal (take n (lits pre us False))) = k \<and>
    drop k (lits pre us False) = lits pre (drop k us) False \<and>
    (0 < n \<longrightarrow> (k = 0 \<longleftrightarrow> us = [] \<or> \<not> (48 \<le> hd us \<and> hd us \<le> 55)))"
  using assms
proof (induction us arbitrary: n)
  case Nil
  then show ?case using lits_not_octal [where us = "[]"] by simp
next
  case (Cons u us)
  show ?case
  proof (cases "48 \<le> u \<and> u \<le> 55 \<and> 0 < n")
    case True
    then obtain m where n: "n = Suc m" by (cases n) auto
    from Cons obtain k where k: "k \<le> length us" "length (takeWhile octal (take m (lits pre us False))) = k"
      "drop k (lits pre us False) = lits pre (drop k us) False" by fastforce
    with True n lits_octal(1) [where u = u and pre = pre and us = us] lits_octal(2) [of u] show ?thesis by (intro exI [of _ "Suc k"]) (simp del: lits.simps)
  next
    case False
    then have "takeWhile octal (take n (lits pre (u # us) False)) = []"
      using lits_not_octal [where us = "u # us" and n = n and pre = pre] Cons.prems by (cases "n = 0") auto
    with False show ?thesis by (intro exI [of _ 0]) (auto simp del: lits.simps)
  qed
qed

lemma map_Some_iff: "map_option ((#) u) r = Some xs \<longleftrightarrow> (\<exists>ys. r = Some ys \<and> xs = u # ys)"
  by (cases r) auto

definition reads_as :: "nat list option \<Rightarrow> nat list \<Rightarrow> bool" where
  "reads_as r us \<longleftrightarrow> (\<exists>xs. r = Some xs \<and> length xs \<le> length us \<and> (if nul_safe us then xs = us else length xs < length us))"

lemma reads_as_Cons: "0 < u \<Longrightarrow> reads_as r us \<Longrightarrow> reads_as (map_option ((#) u) r) (u # us)"
  by (auto simp: reads_as_def split: if_splits)

lemma read_lits:
  assumes "\<forall>u \<in> set us. u < 4294967296"
  shows "reads_as (read_body pre (lits pre us h)) us"
  using assms
proof (induction "length us" arbitrary: us h rule: less_induct)
  case less
  show ?case
  proof (cases us)
    case Nil
    then show ?thesis by (simp add: read_end reads_as_def)
  next
    case (Cons u us')
    have "read_body pre (lits pre us h) = read_body pre (lits pre us False)"
      using Cons read_break [of pre] by (cases "h \<and> xcode u") simp_all
    moreover have IH: "reads_as (read_body pre (lits pre us' b)) us'" for b
      using less.hyps [of us'] less.prems Cons by simp
    have "u < 4294967296" using less.prems Cons by simp
    then have "reads_as (read_body pre (lits pre us False)) us"
    proof (rule lit_char_cases)
      assume u: "u = 0" "lit_char u = ([CHR 0x5C, CHR ''0''], False)"
      define ds where "ds = takeWhile octal (take 2 (lits pre us' False))"
      obtain k where k: "k \<le> length us'" "length ds = k" "drop k (lits pre us' False) = lits pre (drop k us') False"
        "k = 0 \<longleftrightarrow> us' = [] \<or> \<not> (48 \<le> hd us' \<and> hd us' \<le> 55)"
        using octal_run [where us = us' and n = 2 and pre = pre] less.prems Cons by (auto simp: ds_def)
      have r: "read_body pre (lits pre us False) =
          map_option ((#) (number 8 (CHR ''0'' # ds))) (read_body pre (lits pre (drop k us') False))"
        using Cons u(2) read_octal [OF ds_def, of pre] k by simp
      have d: "reads_as (read_body pre (lits pre (drop k us') False)) (drop k us')"
        using less.prems Cons by (intro less.hyps) (auto dest: in_set_dropD)
      show ?thesis
      proof (cases "k = 0")
        case True
        then have "number 8 (CHR ''0'' # ds) = 0" "nul_safe us \<longleftrightarrow> nul_safe us'"
          using k u(1) Cons by (auto simp: number_def xdigit_value_def code_of_def)
        with True r d Cons u(1) show ?thesis by (auto simp: reads_as_def split: if_splits)
      next
        case False
        then have "\<not> nul_safe us" using k(4) u(1) Cons by simp
        moreover from d obtain ys where "read_body pre (lits pre (drop k us') False) = Some ys" "length ys \<le> length us' - k"
          by (auto simp: reads_as_def)
        ultimately show ?thesis using r False k(1) Cons by (auto simp: reads_as_def)
      qed
    next
      fix c
      assume u: "0 < u" "simple_escape c = Some u" "\<not> octal c" "c \<noteq> CHR ''x''" "lit_char u = ([CHR 0x5C, c], False)"
      then have "read_body pre (lits pre us False) = map_option ((#) u) (read_body pre (lits pre us' False))"
        using Cons read_simple [of c u pre] by simp
      then show ?thesis using reads_as_Cons [OF u(1) IH] Cons by simp
    next
      assume u: "0x20 \<le> u" "u \<le> 0x7E" "u \<noteq> 0x22" "u \<noteq> 0x5C" "lit_char u = ([char_of u], False)"
      then have "read_body pre (lits pre us False) = map_option ((#) u) (read_body pre (lits pre us' False))"
        using Cons read_plain [of "char_of u" pre] by (simp add: char_of_eq_iff code_of_def)
      then show ?thesis using reads_as_Cons [OF _ IH] u(1) Cons by simp
    next
      assume u: "0 < u" "lit_char u = ([CHR 0x5C, CHR ''x''] @ hex_digits u, True)"
      have "takeWhile xdigit (lits pre us' True) = []" using less.prems Cons by (intro lits_after_hex) simp
      then have "read_body pre (lits pre us False) = map_option ((#) u) (read_body pre (lits pre us' True))"
        using Cons u(2) read_hex [of _ pre u] by simp
      then show ?thesis using reads_as_Cons [OF u(1) IH] Cons by simp
    qed
    ultimately show ?thesis by simp
  qed
qed

theorem printed_string_reads:
  assumes "\<forall>c \<in> set cs. char_value ty c" "cs @ more \<noteq> []"
  shows "\<exists>t f xs. PrintCharsAsStringTo ty (cs @ more) (length cs) = Inr (t, f) \<and>
    read_literal (GetCharWidthPrefix ty) t = Some xs \<and>
    (xs = map (ToChar32 ty) cs \<longleftrightarrow> nul_safe (map (ToChar32 ty) cs))"
proof -
  let ?pre = "GetCharWidthPrefix ty" and ?us = "map (ToChar32 ty) cs"
  from PrintCharsAsStringTo_lits [OF assms] obtain f where
    p: "PrintCharsAsStringTo ty (cs @ more) (length cs) = Inr (?pre @ [CHR 0x22] @ lits ?pre ?us False, f)" by auto
  have "reads_as (read_body ?pre (lits ?pre ?us False)) ?us" by (rule read_lits) (auto simp: ToChar32_less)
  then obtain xs where "read_body ?pre (lits ?pre ?us False) = Some xs" "if nul_safe ?us then xs = ?us else length xs < length ?us"
    unfolding reads_as_def by blast
  moreover from this(2) have "xs = ?us \<longleftrightarrow> nul_safe ?us" by (cases "nul_safe ?us") auto
  ultimately show ?thesis using p by (simp add: read_literal_def)
qed

end
