(* ===== verification/Gt_Json_Spec.thy ===== *)
theory Gt_Json_Spec
  imports Gt_Json Gt_Xml_Tree Gt_Literal_Spec
begin

section \<open>The JSON report is a well-formed document\<close>

text \<open>
  The grammar of JSON as a relation between texts and values.  A string is the list of its code points.  The
  report reads as the tree of the results, with every byte of a text taken for a code point.
\<close>

datatype json = JStr "nat list" | JNum int | JArr "json list" | JObj "(nat list \<times> json) list"

subsection \<open>The grammar\<close>

definition json_escape :: "char \<Rightarrow> nat option" where
  "json_escape c = map_of [(CHR 0x22, 0x22), (CHR 0x5C, 0x5C), (CHR ''/'', 0x2F), (CHR ''b'', 8), (CHR ''f'', 12),
     (CHR ''n'', 10), (CHR ''r'', 13), (CHR ''t'', 9)] c"

inductive jstring :: "string \<Rightarrow> nat list \<Rightarrow> bool" where
  js_nil: "jstring [] []"
| js_char: "jstring s us \<Longrightarrow> 32 \<le> code_of c \<Longrightarrow> code_of c < 128 \<Longrightarrow> c \<notin> {CHR 0x22, CHR 0x5C} \<Longrightarrow> jstring (c # s) (code_of c # us)"
| js_escape: "jstring s us \<Longrightarrow> json_escape c = Some u \<Longrightarrow> jstring (CHR 0x5C # c # s) (u # us)"
| js_hex: "jstring s us \<Longrightarrow> length ds = 4 \<Longrightarrow> list_all xdigit ds \<Longrightarrow> jstring (CHR 0x5C # CHR ''u'' # ds @ s) (number 16 ds # us)"

definition json_space :: "char \<Rightarrow> bool" where "json_space c \<longleftrightarrow> c = CHR '' '' \<or> c = CHR 0x09 \<or> c = CHR 0x0A \<or> c = CHR 0x0D"

text \<open>A value without and with white space around it, the members of an object, the elements of an array.\<close>

inductive jcore :: "string \<Rightarrow> json \<Rightarrow> bool"
  and jvalue :: "string \<Rightarrow> json \<Rightarrow> bool"
  and jmembers :: "string \<Rightarrow> (nat list \<times> json) list \<Rightarrow> bool"
  and jelements :: "string \<Rightarrow> json list \<Rightarrow> bool" where
  k_str: "jstring s us \<Longrightarrow> jcore (quoted s) (JStr us)"
| k_num: "jcore (dec_int n) (JNum n)"
| k_obj: "jmembers s ms \<Longrightarrow> jcore (''{'' @ s @ ''}'') (JObj ms)"
| k_arr: "jelements s vs \<Longrightarrow> jcore (''['' @ s @ '']'') (JArr vs)"
| k_arr0: "list_all json_space a \<Longrightarrow> jcore (''['' @ a @ '']'') (JArr [])"
| v_any: "jcore s v \<Longrightarrow> list_all json_space a \<Longrightarrow> list_all json_space b \<Longrightarrow> jvalue (a @ s @ b) v"
| m_one: "jstring k us \<Longrightarrow> jvalue s v \<Longrightarrow> list_all json_space a \<Longrightarrow> jmembers (a @ quoted k @ '':'' @ s) [(us, v)]"
| m_cons: "jstring k us \<Longrightarrow> jvalue s v \<Longrightarrow> list_all json_space a \<Longrightarrow> jmembers t ms \<Longrightarrow>
     jmembers (a @ quoted k @ '':'' @ s @ '','' @ t) ((us, v) # ms)"
| e_one: "jvalue s v \<Longrightarrow> jelements s [v]"
| e_cons: "jvalue s v \<Longrightarrow> jelements t vs \<Longrightarrow> jelements (s @ '','' @ t) (v # vs)"

lemma v_core: "jcore s v \<Longrightarrow> jvalue s v"
  using v_any [of s v "[]" "[]"] by simp

lemmas v_str = k_str [THEN v_core]
lemmas v_num = k_num [THEN v_core]
lemmas v_obj = k_obj [THEN v_core]
lemmas v_arr = k_arr [THEN v_core]
lemmas v_arr0 = k_arr0 [THEN v_core]

lemma v_space:
  assumes "jvalue s v" "list_all json_space a" "list_all json_space b"
  shows "jvalue (a @ s @ b) v"
  using assms(1)
proof (cases rule: jvalue.cases)
  case (v_any s' a' b')
  with assms(2,3) jcore_jvalue_jmembers_jelements.v_any [of s' v "a @ a'" "b' @ b"] show ?thesis by simp
qed

subsection \<open>Strings\<close>

definition codes :: "string \<Rightarrow> nat list" where "codes = map code_of"

lemma codes_simps [simp]: "codes [] = []" "codes (c # s) = code_of c # codes s"
  by (simp_all add: codes_def)

lemma number_zero: "number 16 (CHR ''0'' # ds) = number 16 ds"
  by (simp add: number_def xdigit_value_def code_of_def)

lemma byte_digits:
  assumes "b < 256"
  shows "length (zero_padded 2 (hex_digits b)) = 2" "list_all xdigit (zero_padded 2 (hex_digits b))"
    "number 16 (zero_padded 2 (hex_digits b)) = b"
proof -
  have z: "xdigit CHR ''0''" by (simp add: xdigit_def isxdigit_def code_of_def)
  have "length (zero_padded 2 (hex_digits b)) = 2 \<and> list_all xdigit (zero_padded 2 (hex_digits b)) \<and>
    number 16 (zero_padded 2 (hex_digits b)) = b"
  proof (cases "b < 16")
    case True
    then have h: "hex_digits b = [hex_digit b]" by (simp add: hex_digits.simps [of b])
    from True hex_digit_value [of b] hex_digits_number [of b] show ?thesis
      by (simp add: h zero_padded_def z number_zero)
  next
    case False
    then have "hex_digits b = [hex_digit (b div 16), hex_digit (b mod 16)]"
      using assms by (simp add: hex_digits.simps [of b] hex_digits.simps [of "b div 16"])
    with hex_digits_number [of b] show ?thesis by (simp add: zero_padded_def list_all_iff)
  qed
  then show "length (zero_padded 2 (hex_digits b)) = 2" "list_all xdigit (zero_padded 2 (hex_digits b))"
    "number 16 (zero_padded 2 (hex_digits b)) = b" by blast+
qed

lemma FormatByte_code: "FormatByte (word_of_nat (code_of c)) = zero_padded 2 (hex_digits (code_of c))"
proof -
  have "code_of c < 256" by (simp add: code_of_def)
  then have "unat (word_of_nat (code_of c) :: 8 word) = code_of c" by (simp add: unat_of_nat)
  then show ?thesis by (simp add: FormatByte_def)
qed

lemma escape_json_char_reads: "jstring s us \<Longrightarrow> jstring (escape_json_char c @ s) (code_of c # us)"
proof -
  assume s: "jstring s us"
  have esc: "jstring ([CHR 0x5C, e] @ s) (u # us)" if "json_escape e = Some u" for e u using js_escape [OF s that] by simp
  consider "c \<in> {CHR 0x5C, CHR 0x22, CHR ''/'', CHR 0x08, CHR 0x09, CHR 0x0A, CHR 0x0C, CHR 0x0D}"
    | (hex) "c \<notin> {CHR 0x5C, CHR 0x22, CHR ''/'', CHR 0x08, CHR 0x09, CHR 0x0A, CHR 0x0C, CHR 0x0D}" "code_of c < 32 \<or> 128 \<le> code_of c"
    | (plain) "c \<notin> {CHR 0x5C, CHR 0x22, CHR ''/'', CHR 0x08, CHR 0x09, CHR 0x0A, CHR 0x0C, CHR 0x0D}" "32 \<le> code_of c" "code_of c < 128"
    by linarith
  then show ?thesis
  proof cases
    case 1
    then show ?thesis
      by (elim insertE emptyE) (simp_all add: escape_json_char_def code_of_def, (rule esc [simplified], simp add: json_escape_def)+)
  next
    case hex
    have b: "code_of c < 256" by (simp add: code_of_def)
    let ?ds = "CHR ''0'' # CHR ''0'' # zero_padded 2 (hex_digits (code_of c))"
    have "xdigit CHR ''0''" by (simp add: xdigit_def isxdigit_def code_of_def)
    then have "jstring (CHR 0x5C # CHR ''u'' # ?ds @ s) (number 16 ?ds # us)"
      using byte_digits [OF b] by (intro js_hex [OF s]) simp_all
    moreover have "escape_json_char c = CHR 0x5C # CHR ''u'' # ?ds"
      using hex FormatByte_code [of c] by (auto simp: escape_json_char_def code_of_def)
    ultimately show ?thesis using byte_digits [OF b] by (simp add: number_zero)
  next
    case plain
    then show ?thesis using js_char [OF s, of c] by (auto simp: escape_json_char_def code_of_def)
  qed
qed

lemma jstring_no_NUL: "jstring s us \<Longrightarrow> NUL \<notin> set s"
proof (induction rule: jstring.induct)
  case (js_escape s us c u)
  then show ?case by (auto simp: json_escape_def split: if_splits)
next
  case (js_hex s us ds)
  then show ?case by (auto simp: list_all_iff xdigit_def isxdigit_def code_of_def)
qed (auto simp: code_of_def)

lemma EscapeJson_reads: "jstring (EscapeJson s) (codes s)"
proof -
  have "jstring (concat (map escape_json_char s)) (codes s)"
    by (induction s) (simp_all add: js_nil escape_json_char_reads)
  moreover from jstring_no_NUL [OF this] have "EscapeJson s = concat (map escape_json_char s)"
    unfolding EscapeJson_def by (rule StringStreamToString_id)
  ultimately show ?thesis by simp
qed

lemma key_reads: "xml_name k \<Longrightarrow> jstring k (codes k)"
proof -
  assume "xml_name k"
  then have "list_all name_char k" by (simp add: xml_name_def)
  then show ?thesis
  proof (induction k)
    case (Cons c k)
    then have c: "name_char c" "jstring k (codes k)" by auto
    then have "32 \<le> code_of c \<and> code_of c < 128 \<and> c \<notin> {CHR 0x22, CHR 0x5C}"
      by (auto simp: name_char_def name_start_def code_of_def Let_def)
    with js_char [OF c(2), of c] show ?case by simp
  qed (simp add: js_nil)
qed

subsection \<open>Objects and arrays with members on lines of their own\<close>

type_synonym member = "string \<times> string \<times> json"

definition mtext :: "string \<Rightarrow> member \<Rightarrow> string" where
  "mtext ind m = ind @ quoted (fst m) @ '': '' @ fst (snd m)"

definition mvalue :: "member \<Rightarrow> nat list \<times> json" where
  "mvalue m = (codes (fst m), snd (snd m))"

definition member_ok :: "member \<Rightarrow> bool" where
  "member_ok m \<longleftrightarrow> jstring (fst m) (codes (fst m)) \<and> jvalue (fst (snd m)) (snd (snd m))"

definition comma_join :: "string list \<Rightarrow> string" where
  "comma_join ts = (case ts of [] \<Rightarrow> [] | t # us \<Rightarrow> t @ concat (map (\<lambda>u. comma_LF @ u) us))"

lemma comma_join_Cons: "us \<noteq> [] \<Longrightarrow> comma_join (t # us) = t @ '','' @ LF # comma_join us"
  by (cases us) (simp_all add: comma_join_def comma_LF_def)

lemma v_lead: "list_all json_space a \<Longrightarrow> jvalue s v \<Longrightarrow> jvalue (a @ s) v"
  using v_space [of s v a "[]"] by simp

lemma Indent_space [simp]: "list_all json_space (Indent n)"
  by (simp add: Indent_def list_all_iff json_space_def)

lemma LF_space [simp]: "json_space LF" "json_space CHR '' ''"
  by (simp_all add: json_space_def)

lemma join_members:
  assumes "ms \<noteq> []" "\<forall>m \<in> set ms. member_ok m" "list_all json_space a" "list_all json_space ind" "list_all json_space b"
  shows "jmembers (a @ comma_join (map (mtext ind) ms) @ b) (map mvalue ms)"
  using assms(1-3)
proof (induction ms arbitrary: a)
  case (Cons m ms)
  from Cons.prems have k: "jstring (fst m) (codes (fst m))" and v: "jvalue (fst (snd m)) (snd (snd m))" by (simp_all add: member_ok_def)
  have sp: "list_all json_space (a @ ind)" using Cons.prems assms(4) by simp
  show ?case
  proof (cases "ms = []")
    case True
    have "jvalue ('' '' @ fst (snd m) @ b) (snd (snd m))" using assms(5) by (intro v_space v) simp_all
    from m_one [OF k this sp] True show ?thesis by (simp add: comma_join_def mtext_def mvalue_def)
  next
    case False
    have rest: "jmembers ([LF] @ comma_join (map (mtext ind) ms) @ b) (map mvalue ms)"
      using False Cons.prems by (intro Cons.IH) simp_all
    have "jvalue ('' '' @ fst (snd m)) (snd (snd m))" by (intro v_lead v) simp
    from m_cons [OF k this sp rest] False show ?thesis by (simp add: comma_join_Cons mtext_def [of ind m] mvalue_def [of m])
  qed
qed simp

lemma join_elements:
  assumes "ts \<noteq> []" "list_all2 jvalue ts vs" "list_all json_space a" "list_all json_space b"
  shows "jelements (a @ comma_join ts @ b) vs"
  using assms(1-3)
proof (induction ts arbitrary: a vs)
  case (Cons t ts)
  then obtain v vs' where vs: "vs = v # vs'" "jvalue t v" "list_all2 jvalue ts vs'" by (auto simp: list_all2_Cons1)
  show ?case
  proof (cases "ts = []")
    case True
    with vs have "vs = [v]" by simp
    with True e_one [OF v_space [OF vs(2) Cons.prems(3) assms(4)]] show ?thesis by (simp add: comma_join_def)
  next
    case False
    have rest: "jelements ([LF] @ comma_join ts @ b) vs'" using False vs by (intro Cons.IH) simp_all
    from e_cons [OF v_lead [OF Cons.prems(3) vs(2)] rest] False vs(1) show ?thesis by (simp add: comma_join_Cons)
  qed
qed simp

lemma object_reads:
  assumes "ms \<noteq> []" "\<forall>m \<in> set ms. member_ok m"
  shows "jvalue (Indent i @ ''{'' @ [LF] @ comma_join (map (mtext (Indent j)) ms) @ [LF] @ Indent k @ ''}'') (JObj (map mvalue ms))"
  using v_lead [OF Indent_space v_obj [OF join_members [OF assms, of "[LF]" "Indent j" "[LF] @ Indent k"]], of i] by simp

lemma array_reads:
  assumes "list_all2 jvalue ts vs"
  shows "jvalue (''['' @ [LF] @ comma_join ts @ [LF] @ Indent k @ '']'') (JArr vs)"
proof (cases "ts = []")
  case True
  then have "vs = []" using assms by simp
  with True v_arr0 [of "[LF, LF] @ Indent k"] show ?thesis by (simp add: comma_join_def)
next
  case False
  from v_arr [OF join_elements [OF False assms, of "[LF]" "[LF] @ Indent k"]] show ?thesis by simp
qed

end
