(* ===== verification/Gt_Json_Tree.thy ===== *)
theory Gt_Json_Tree
  imports Gt_Json_Spec
begin

section \<open>The tree of a JSON report\<close>

definition str_member :: "attr \<Rightarrow> member" where
  "str_member p = (fst p, quoted (EscapeJson (snd p)), JStr (codes (snd p)))"

definition int_member :: "string \<Rightarrow> int \<Rightarrow> member" where
  "int_member k n = (k, dec_int n, JNum n)"

definition array_member :: "string \<Rightarrow> nat \<Rightarrow> string list \<Rightarrow> json list \<Rightarrow> member" where
  "array_member k i ts vs = (k, ''['' @ [LF] @ comma_join ts @ [LF] @ Indent i @ '']'', JArr vs)"

lemma str_member_ok [simp]: "xml_name (fst p) \<Longrightarrow> member_ok (str_member p)"
  by (simp add: member_ok_def str_member_def key_reads v_str EscapeJson_reads)

lemma int_member_ok [simp]: "xml_name k \<Longrightarrow> member_ok (int_member k n)"
  by (simp add: member_ok_def int_member_def key_reads v_num)

lemma array_member_ok [simp]: "xml_name k \<Longrightarrow> list_all2 jvalue ts vs \<Longrightarrow> member_ok (array_member k i ts vs)"
  using array_reads [of ts vs i] by (simp add: member_ok_def array_member_def key_reads)

definition object :: "nat \<Rightarrow> nat \<Rightarrow> member list \<Rightarrow> string" where
  "object i j ms = Indent i @ ''{'' @ [LF] @ comma_join (map (mtext (Indent j)) ms) @ [LF] @ Indent i @ ''}''"

definition object_tree :: "member list \<Rightarrow> json" where "object_tree ms = JObj (map mvalue ms)"

lemma object_ok: "ms \<noteq> [] \<Longrightarrow> list_all member_ok ms \<Longrightarrow> jvalue (object i j ms) (object_tree ms)"
  unfolding object_def object_tree_def by (rule object_reads) (simp_all add: list_all_iff)

lemma EscapeJson_Nil [simp]: "EscapeJson [] = []"
  by (simp add: EscapeJson_def)

subsection \<open>Members of the objects\<close>

definition failure_members :: "test_part \<Rightarrow> member list" where
  "failure_members p = [str_member (''failure'', part_location p @ [LF] @ tp_message p), str_member (''type'', [])]"

definition failures_members :: "result \<Rightarrow> member list" where
  "failures_members r = (let ps = filter test_part_failed (tr_parts r) in
     if ps = [] then []
     else [array_member ''failures'' 10 (map (\<lambda>p. Indent 10 @ ''  {'' @ [LF] @
             comma_join (map (mtext (Indent 14)) (failure_members p)) @ [LF] @ Indent 12 @ ''}'') ps)
           (map (\<lambda>p. object_tree (failure_members p)) ps)])"

definition test_members :: "report_env \<Rightarrow> string \<Rightarrow> report_test \<Rightarrow> member list" where
  "test_members env suite t =
     [str_member (''name'', rt_name t)] @
     (case rt_value_param t of None \<Rightarrow> [] | Some v \<Rightarrow> [str_member (''value_param'', v)]) @
     (case rt_type_param t of None \<Rightarrow> [] | Some v \<Rightarrow> [str_member (''type_param'', v)]) @
     [str_member (''file'', rt_file t), int_member ''line'' (rt_line t)] @
     (if list_tests env then []
      else [str_member (''status'', if rt_should_run t then ''RUN'' else ''NOTRUN''),
            str_member (''result'', if rt_should_run t then if Skipped (base_result (rt_result t)) then ''SKIPPED'' else ''COMPLETED'' else ''SUPPRESSED''),
            str_member (''timestamp'', FormatEpochTimeInMillisAsRFC3339 env (tr_start (rt_result t))),
            str_member (''time'', duration_text env (tr_elapsed (rt_result t))),
            str_member (''classname'', suite)] @
           map str_member (tr_properties (rt_result t)) @ failures_members (rt_result t))"

definition reportable_tests :: "report_suite \<Rightarrow> report_test list" where
  "reportable_tests s = filter rs_is_reportable (rs_tests s)"

definition test_text :: "report_env \<Rightarrow> string \<Rightarrow> report_test \<Rightarrow> string" where
  "test_text env suite t = object 8 10 (test_members env suite t)"

definition test_json :: "report_env \<Rightarrow> string \<Rightarrow> report_test \<Rightarrow> json" where
  "test_json env suite t = object_tree (test_members env suite t)"

definition suite_members :: "report_env \<Rightarrow> report_suite \<Rightarrow> member list" where
  "suite_members env s = (let b = base_suite s in
     [str_member (''name'', rs_name s), int_member ''tests'' (int (reportable_test_count b))] @
     (if list_tests env then []
      else [int_member ''failures'' (int (failed_test_count b)), int_member ''disabled'' (int (reportable_disabled_test_count b)),
            int_member ''errors'' 0, str_member (''timestamp'', FormatEpochTimeInMillisAsRFC3339 env (rs_start s)),
            str_member (''time'', duration_text env (rs_elapsed s))] @ map str_member (tr_properties (rs_ad_hoc s))) @
     [array_member ''testsuite'' 6 (map (test_text env (rs_name s)) (reportable_tests s)) (map (test_json env (rs_name s)) (reportable_tests s))])"

definition suite_text :: "report_env \<Rightarrow> report_suite \<Rightarrow> string" where
  "suite_text env s = object 4 6 (suite_members env s)"

definition suite_json :: "report_env \<Rightarrow> report_suite \<Rightarrow> json" where
  "suite_json env s = object_tree (suite_members env s)"

definition ad_hoc_test_members :: "report_env \<Rightarrow> result \<Rightarrow> member list" where
  "ad_hoc_test_members env r =
     [str_member (''name'', []), str_member (''status'', ''RUN''), str_member (''result'', ''COMPLETED''),
      str_member (''timestamp'', FormatEpochTimeInMillisAsRFC3339 env (tr_start r)),
      str_member (''time'', duration_text env (tr_elapsed r)), str_member (''classname'', [])] @
     map str_member (tr_properties r) @ failures_members r"

definition ad_hoc_members :: "report_env \<Rightarrow> result \<Rightarrow> member list" where
  "ad_hoc_members env r =
     [str_member (''name'', ''NonTestSuiteFailure''), int_member ''tests'' 1] @
     (if list_tests env then []
      else [int_member ''failures'' 1, int_member ''disabled'' 0, int_member ''skipped'' 0, int_member ''errors'' 0,
            str_member (''time'', duration_text env (tr_elapsed r)),
            str_member (''timestamp'', FormatEpochTimeInMillisAsRFC3339 env (tr_start r))]) @
     [array_member ''testsuite'' 6 [object 8 10 (ad_hoc_test_members env r)] [object_tree (ad_hoc_test_members env r)]]"

definition reported_suites :: "report \<Rightarrow> report_suite list" where
  "reported_suites u = filter (\<lambda>s. 0 < reportable_test_count (base_suite s)) (ru_suites u)"

definition report_members :: "report_env \<Rightarrow> report \<Rightarrow> member list" where
  "report_members env u = (let ad = Failed (base_result (ru_ad_hoc u)) in
     [int_member ''tests'' (int (ru_sum reportable_test_count u)), int_member ''failures'' (int (ru_sum failed_test_count u)),
      int_member ''disabled'' (int (ru_sum reportable_disabled_test_count u)), int_member ''errors'' 0] @
     (if shuffle_flag env then [int_member ''random_seed'' (ru_random_seed u)] else []) @
     [str_member (''timestamp'', FormatEpochTimeInMillisAsRFC3339 env (ru_start u)),
      str_member (''time'', duration_text env (ru_elapsed u))] @ map str_member (tr_properties (ru_ad_hoc u)) @
     [str_member (''name'', ''AllTests''),
      array_member ''testsuites'' 2
        (map (suite_text env) (reported_suites u) @ (if ad then [object 4 6 (ad_hoc_members env (ru_ad_hoc u))] else []))
        (map (suite_json env) (reported_suites u) @ (if ad then [object_tree (ad_hoc_members env (ru_ad_hoc u))] else []))])"

subsection \<open>The texts are those that are written\<close>

lemma json_key_allowed:
  "n \<in> set kReservedTestSuitesAttributes \<Longrightarrow> json_key ''testsuites'' n v ind c = Inr (ind @ quoted n @ '': '' @ v @ (if c then comma_LF else []))"
  "n \<in> set kReservedTestSuiteAttributes \<Longrightarrow> json_key ''testsuite'' n v ind c = Inr (ind @ quoted n @ '': '' @ v @ (if c then comma_LF else []))"
  "n \<in> set kReservedOutputTestCaseAttributes \<Longrightarrow> json_key ''testcase'' n v ind c = Inr (ind @ quoted n @ '': '' @ v @ (if c then comma_LF else []))"
  by (simp_all add: json_key_def GetReservedOutputAttributesForElement_def)

lemmas key_defs = OutputJsonKey_def OutputJsonKeyInt_def json_key_allowed reserved_defs

lemma json_parts_eq:
  "json_parts ps f =
    ((case filter test_part_failed ps of [] \<Rightarrow> []
      | q # qs \<Rightarrow> comma_LF @ (if f = 0 then Indent 10 @ quoted ''failures'' @ '': ['' @ [LF] else []) @ json_failure q @
          concat (map (\<lambda>u. comma_LF @ json_failure u) qs)),
     f + length (filter test_part_failed ps))"
  by (induction ps f rule: json_parts.induct) (auto split: list.splits)

lemma json_failure_text:
  "json_failure p = Indent 10 @ ''  {'' @ [LF] @ comma_join (map (mtext (Indent 14)) (failure_members p)) @ [LF] @ Indent 12 @ ''}''"
proof -
  have "Indent 14 = Indent 10 @ ''    ''" "Indent 12 = Indent 10 @ ''  ''" by (simp_all add: Indent_def eval_nat_numeral)
  then show ?thesis by (simp add: json_failure_def Let_def failure_members_def comma_join_def mtext_def str_member_def)
qed

definition tail :: "nat \<Rightarrow> member list \<Rightarrow> string" where
  "tail j ms = concat (map (\<lambda>m. comma_LF @ mtext (Indent j) m) ms)"

lemma comma_join_members: "comma_join (map (mtext (Indent j)) (m # ms)) = mtext (Indent j) m @ tail j ms"
  by (simp add: comma_join_def tail_def comp_def)

lemma tail_simps [simp]:
  "tail j [] = []" "tail j (m # ms) = comma_LF @ mtext (Indent j) m @ tail j ms" "tail j (ms @ ns) = tail j ms @ tail j ns"
  by (simp_all add: tail_def)

lemma OutputJsonTestResult_text: "OutputJsonTestResult r = tail 10 (failures_members r) @ [LF] @ Indent 8 @ ''}''"
proof (cases "filter test_part_failed (tr_parts r)")
  case Nil
  then show ?thesis by (simp add: OutputJsonTestResult_def json_parts_eq failures_members_def)
next
  case (Cons q qs)
  then show ?thesis
    by (simp add: OutputJsonTestResult_def json_parts_eq failures_members_def Let_def mtext_def array_member_def comma_join_def
      json_failure_text comp_def)
qed

lemma TestPropertiesAsJson_text:
  assumes "\<forall>p \<in> set (tr_properties r). xml_name (fst p)"
  shows "TestPropertiesAsJson r (Indent j) = tail j (map str_member (tr_properties r))"
proof -
  have t: "concat (map (json_property (Indent j)) ps) = tail j (map str_member ps)" for ps
    by (induction ps) (simp_all add: json_property_def mtext_def str_member_def)
  have "NUL \<notin> set (concat (map (json_property (Indent j)) (tr_properties r)))"
    using assms xml_name_no_NUL jstring_no_NUL [OF EscapeJson_reads]
    by (auto simp: json_property_def quoted_def comma_LF_def Indent_def)
  then show ?thesis by (simp add: TestPropertiesAsJson_def StringStreamToString_id t)
qed

definition keys_ok :: "result \<Rightarrow> bool" where
  "keys_ok r \<longleftrightarrow> (\<forall>p \<in> set (tr_properties r). xml_name (fst p))"

lemma object_text: "object i j (m # ms) = Indent i @ ''{'' @ [LF] @ mtext (Indent j) m @ tail j ms @ [LF] @ Indent i @ ''}''"
  unfolding object_def comma_join_members by simp

lemma OutputJsonTestInfo_text:
  assumes "keys_ok (rt_result t)"
  shows "OutputJsonTestInfo env suite t = Inr (test_text env suite t)"
  using assms unfolding test_text_def test_members_def append_Cons append_Nil object_text
  by (cases "rt_value_param t"; cases "rt_type_param t")
     (simp_all add: OutputJsonTestInfo_def Let_def optional_key_def key_defs TestPropertiesAsJson_text OutputJsonTestResult_text keys_ok_def
        mtext_def str_member_def int_member_def)

lemma outs_comma_loop:
  assumes "\<forall>x \<in> set xs. f x = Inr (g x)"
  shows "outs (snd (comma_loop c (map f xs))) = Inr (if c then concat (map (\<lambda>x. comma_LF @ g x) xs) else comma_join (map g xs))"
    and "fst (comma_loop c (map f xs)) \<longleftrightarrow> c \<or> xs \<noteq> []"
proof -
  have t: "outs (snd (comma_loop True (map f ys))) = Inr (concat (map (\<lambda>x. comma_LF @ g x) ys)) \<and> fst (comma_loop True (map f ys))"
    if "\<forall>x \<in> set ys. f x = Inr (g x)" for ys
    using that by (induction ys) (simp_all add: case_prod_beta)
  show "outs (snd (comma_loop c (map f xs))) = Inr (if c then concat (map (\<lambda>x. comma_LF @ g x) xs) else comma_join (map g xs))"
  proof (cases c)
    case False
    then show ?thesis using assms t [of "List.tl xs"]
      by (cases xs) (simp_all add: case_prod_beta comma_join_def comp_def)
  qed (use t [OF assms] in simp)
  show "fst (comma_loop c (map f xs)) \<longleftrightarrow> c \<or> xs \<noteq> []"
    using assms t [of "List.tl xs"] by (cases xs) (simp_all add: case_prod_beta)
qed

definition suite_keys_ok :: "report_suite \<Rightarrow> bool" where
  "suite_keys_ok s \<longleftrightarrow> keys_ok (rs_ad_hoc s) \<and> (\<forall>t \<in> set (rs_tests s). keys_ok (rt_result t))"

lemma PrintJsonTestSuite_text:
  assumes "suite_keys_ok s"
  shows "PrintJsonTestSuite env s = Inr (suite_text env s)"
proof -
  have "\<forall>t \<in> set (reportable_tests s). OutputJsonTestInfo env (rs_name s) t = Inr (test_text env (rs_name s) t)"
    using assms OutputJsonTestInfo_text by (simp add: suite_keys_ok_def reportable_tests_def)
  from outs_comma_loop(1) [OF this, of False]
  have l: "outs (snd (comma_loop False (map (OutputJsonTestInfo env (rs_name s)) (filter rs_is_reportable (rs_tests s))))) =
      Inr (comma_join (map (test_text env (rs_name s)) (reportable_tests s)))" by (simp add: reportable_tests_def)
  show ?thesis using assms
    unfolding suite_text_def suite_members_def Let_def append_Cons append_Nil object_text PrintJsonTestSuite_def outs_append outs.simps l
    by (simp add: key_defs TestPropertiesAsJson_text suite_keys_ok_def keys_ok_def mtext_def str_member_def int_member_def array_member_def)
qed

lemma OutputJsonTestSuiteForTestResult_text:
  assumes "keys_ok r"
  shows "OutputJsonTestSuiteForTestResult env r = Inr (object 4 6 (ad_hoc_members env r))"
  using assms unfolding ad_hoc_members_def ad_hoc_test_members_def append_Cons append_Nil object_text
  by (simp add: OutputJsonTestSuiteForTestResult_def key_defs TestPropertiesAsJson_text OutputJsonTestResult_text keys_ok_def
      mtext_def str_member_def int_member_def array_member_def object_text comma_join_def)

definition report_keys_ok :: "report \<Rightarrow> bool" where
  "report_keys_ok u \<longleftrightarrow> keys_ok (ru_ad_hoc u) \<and> (\<forall>s \<in> set (ru_suites u). suite_keys_ok s)"

lemma comma_join_append: "ts \<noteq> [] \<Longrightarrow> comma_join (ts @ [u]) = comma_join ts @ comma_LF @ u"
  by (cases ts) (simp_all add: comma_join_def)

lemma PrintJsonUnitTest_text:
  assumes "report_keys_ok u"
  shows "PrintJsonUnitTest env u = Inr (object 0 2 (report_members env u) @ [LF])"
proof -
  let ?ss = "filter (\<lambda>s. 0 < reportable_test_count (base_suite s)) (ru_suites u)"
  have f: "\<forall>s \<in> set ?ss. PrintJsonTestSuite env s = Inr (suite_text env s)"
    using assms PrintJsonTestSuite_text by (simp add: report_keys_ok_def)
  obtain c ys where cl: "comma_loop False (map (PrintJsonTestSuite env) ?ss) = (c, ys)"
    by (cases "comma_loop False (map (PrintJsonTestSuite env) ?ss)") auto
  from outs_comma_loop [OF f, of False] cl have l: "outs ys = Inr (comma_join (map (suite_text env) ?ss))" "c \<longleftrightarrow> ?ss \<noteq> []" by simp_all
  have a: "OutputJsonTestSuiteForTestResult env (ru_ad_hoc u) = Inr (object 4 6 (ad_hoc_members env (ru_ad_hoc u)))"
    using assms by (intro OutputJsonTestSuiteForTestResult_text) (simp add: report_keys_ok_def)
  have i: "Indent 0 = []" by (simp add: Indent_def)
  have one: "comma_join [] = []" "comma_join [x] = x" for x by (simp_all add: comma_join_def)
  show ?thesis using assms
    unfolding report_members_def Let_def append_Cons append_Nil object_text PrintJsonUnitTest_def cl prod.case outs_append outs.simps l(1) reported_suites_def
    by (cases "?ss = []"; cases "Failed (base_result (ru_ad_hoc u))"; cases "shuffle_flag env")
       (simp_all add: key_defs TestPropertiesAsJson_text report_keys_ok_def keys_ok_def mtext_def str_member_def int_member_def array_member_def
          a l(2) i one comma_join_append)
qed

subsection \<open>The report reads as its tree\<close>

lemmas key_names = xml_names reserved_names

lemma failure_object_ok:
  "jvalue (Indent 10 @ ''  {'' @ [LF] @ comma_join (map (mtext (Indent 14)) (failure_members p)) @ [LF] @ Indent 12 @ ''}'')
    (object_tree (failure_members p))"
proof -
  have "jvalue (object 12 14 (failure_members p)) (object_tree (failure_members p))"
    by (rule object_ok) (simp_all add: failure_members_def key_names)
  moreover have "Indent 12 = Indent 10 @ ''  ''" by (simp add: Indent_def eval_nat_numeral)
  ultimately show ?thesis by (simp add: object_def)
qed

lemma failures_members_ok: "list_all member_ok (failures_members r)"
  by (simp add: failures_members_def Let_def key_names list_all2_conv_all_nth failure_object_ok [simplified])

lemma test_json_ok: "keys_ok (rt_result t) \<Longrightarrow> jvalue (test_text env suite t) (test_json env suite t)"
  unfolding test_text_def test_json_def
  by (rule object_ok)
     (auto simp: test_members_def key_names list_all_iff keys_ok_def split: option.splits
       dest: failures_members_ok [unfolded list_all_iff, rule_format])

lemma suite_json_ok: "suite_keys_ok s \<Longrightarrow> jvalue (suite_text env s) (suite_json env s)"
proof -
  assume s: "suite_keys_ok s"
  have "list_all2 jvalue (map (test_text env (rs_name s)) (reportable_tests s)) (map (test_json env (rs_name s)) (reportable_tests s))"
    using s test_json_ok by (auto simp: list_all2_conv_all_nth reportable_tests_def suite_keys_ok_def dest!: nth_mem)
  moreover have "\<forall>p \<in> set (tr_properties (rs_ad_hoc s)). xml_name (fst p)" using s by (simp add: suite_keys_ok_def keys_ok_def)
  ultimately have "list_all member_ok (suite_members env s)"
    by (auto simp: suite_members_def Let_def key_names list_all_iff intro!: array_member_ok)
  then show ?thesis unfolding suite_text_def suite_json_def by (intro object_ok) (simp_all add: suite_members_def Let_def)
qed

lemma ad_hoc_ok: "keys_ok r \<Longrightarrow> jvalue (object 4 6 (ad_hoc_members env r)) (object_tree (ad_hoc_members env r))"
proof -
  assume k: "keys_ok r"
  have "jvalue (object 8 10 (ad_hoc_test_members env r)) (object_tree (ad_hoc_test_members env r))"
    by (rule object_ok)
       (use k in \<open>auto simp: ad_hoc_test_members_def key_names list_all_iff keys_ok_def
         dest: failures_members_ok [unfolded list_all_iff, rule_format]\<close>)
  then show ?thesis by (intro object_ok) (simp_all add: ad_hoc_members_def key_names)
qed

lemma PrintJsonUnitTest_reads:
  assumes "report_keys_ok u"
  shows "\<exists>t. PrintJsonUnitTest env u = Inr t \<and> jvalue t (object_tree (report_members env u))"
proof -
  have s: "list_all2 jvalue (map (suite_text env) (reported_suites u)) (map (suite_json env) (reported_suites u))"
    using assms suite_json_ok by (auto simp: list_all2_conv_all_nth reported_suites_def report_keys_ok_def dest!: nth_mem)
  have a: "jvalue (object 4 6 (ad_hoc_members env (ru_ad_hoc u))) (object_tree (ad_hoc_members env (ru_ad_hoc u)))"
    using assms by (intro ad_hoc_ok) (simp add: report_keys_ok_def)
  have "\<forall>p \<in> set (tr_properties (ru_ad_hoc u)). xml_name (fst p)" using assms by (simp add: report_keys_ok_def keys_ok_def)
  with s a have "list_all member_ok (report_members env u)"
    by (auto simp: report_members_def Let_def key_names list_all_iff intro!: array_member_ok list_all2_appendI)
  then have "jvalue (object 0 2 (report_members env u)) (object_tree (report_members env u))"
    by (intro object_ok) (simp_all add: report_members_def Let_def)
  from v_space [OF this, of "[]" "[LF]"] show ?thesis by (simp add: PrintJsonUnitTest_text [OF assms])
qed

end
