(* ===== verification/Gt_Unique.thy ===== *)
theory Gt_Unique
  imports Gt_Json_Spec
begin

section \<open>An XML text reads in one way\<close>

text \<open>The grammar of \<open>Gt_Xml_Tree\<close> is unambiguous: a text is the content of at most one list of trees.\<close>

subsection \<open>Names, values and attributes\<close>

lemma span_unique:
  assumes "list_all P a" "list_all P b" "\<not> P c" "\<not> P d" "a @ c # s = b @ d # t"
  shows "a = b \<and> c = d \<and> s = t"
  using assms
proof (induction a arbitrary: b)
  case Nil
  then show ?case by (cases b) auto
next
  case (Cons x a)
  then show ?case by (cases b) auto
qed

lemma reference_end: "reference r c \<Longrightarrow> \<exists>q. r = q @ '';'' \<and> list_all (\<lambda>x. x \<noteq> CHR '';'') q"
  unfolding reference_def by (elim insertE emptyE; rule exI [of _ "butlast r"]; simp)

lemma reference_fun: "reference r c \<Longrightarrow> reference r c' \<Longrightarrow> c = c'"
  unfolding reference_def by (elim insertE emptyE; simp)

lemma reference_unique:
  assumes "reference r c" "reference r' c'" "r @ s = r' @ s'"
  shows "r = r' \<and> c = c' \<and> s = s'"
proof -
  from reference_end [OF assms(1)] obtain q where q: "r = q @ '';''" "list_all (\<lambda>x. x \<noteq> CHR '';'') q" by blast
  from reference_end [OF assms(2)] obtain q' where q': "r' = q' @ '';''" "list_all (\<lambda>x. x \<noteq> CHR '';'') q'" by blast
  from assms(3) q q' have "q @ CHR '';'' # s = q' @ CHR '';'' # s'" by simp
  from span_unique [OF q(2) q'(2) _ _ this] have "q = q'" "s = s'" by simp_all
  with q q' reference_fun assms(1,2) show ?thesis by blast
qed

lemma reference_head: "reference r c \<Longrightarrow> \<exists>q. r = CHR ''&'' # q"
  by (auto simp: reference_def)

lemma att_value_E:
  assumes "att_value v w"
  obtains (nil) "v = []" "w = []"
    | (plain) c u x where "v = c # u" "w = c # x" "att_value u x" "c \<notin> {CHR ''<'', CHR ''&'', CHR 0x22}"
    | (ref) r c u x where "v = r @ u" "w = c # x" "att_value u x" "reference r c"
  using assms by (rule att_value.cases) blast+

lemma att_value_unique:
  "att_value v w \<Longrightarrow> att_value v' w' \<Longrightarrow> v @ CHR 0x22 # s = v' @ CHR 0x22 # s' \<Longrightarrow> v = v' \<and> w = w' \<and> s = s'"
proof (induction arbitrary: v' w' rule: att_value.induct)
  case att_nil
  from att_nil(1) show ?case
    by (cases rule: att_value_E) (use att_nil(2) in \<open>auto dest!: reference_head\<close>)
next
  case (att_char v w c)
  from att_char.prems(1) show ?case
  proof (cases rule: att_value_E)
    case (plain d u x)
    with att_char.prems(2) att_char.IH [OF plain(3)] show ?thesis by simp
  qed (use att_char.prems(2) att_char.hyps in \<open>auto dest!: reference_head\<close>)
next
  case (att_ref v w r c)
  from reference_head [OF att_ref.hyps(2)] obtain q where q: "r = CHR ''&'' # q" ..
  from att_ref.prems(1) show ?case
  proof (cases rule: att_value_E)
    case (ref r' d u x)
    with att_ref.prems(2) reference_unique [OF att_ref.hyps(2) ref(4)] have "r = r'" "c = d" "v @ CHR 0x22 # s = u @ CHR 0x22 # s'"
      by auto
    with ref att_ref.IH [OF ref(3)] show ?thesis by simp
  qed (use att_ref.prems(2) q in auto)
qed

definition tag_end :: "string \<Rightarrow> bool" where
  "tag_end u \<longleftrightarrow> u \<noteq> [] \<and> \<not> name_char (hd u) \<and> \<not> (\<exists>c q. u = CHR '' '' # c # q \<and> name_start c)"

lemma not_name_char: "\<not> name_char CHR '' ''" "\<not> name_char CHR ''=''" "\<not> name_char CHR ''>''" "\<not> name_char CHR ''/''"
  "\<not> name_start CHR ''/''" "\<not> name_start CHR ''!''"
  by (simp_all add: name_char_def name_start_def Let_def)

lemma name_unique:
  assumes "xml_name n" "xml_name n'" "u \<noteq> []" "u' \<noteq> []" "\<not> name_char (hd u)" "\<not> name_char (hd u')" "n @ u = n' @ u'"
  shows "n = n' \<and> u = u'"
proof -
  have "list_all name_char n" "list_all name_char n'" using assms(1,2) by (simp_all add: xml_name_def)
  from span_unique [OF this assms(5,6)] assms(3,4,7) show ?thesis by (metis list.collapse)
qed

lemma atts_unique:
  "atts a as \<Longrightarrow> atts a' as' \<Longrightarrow> tag_end u \<Longrightarrow> tag_end u' \<Longrightarrow> a @ u = a' @ u' \<Longrightarrow> a = a' \<and> as = as' \<and> u = u'"
proof (induction arbitrary: a' as' rule: atts.induct)
  case atts_nil
  from atts_nil(1) show ?case
    by (subst (asm) atts.simps) (use atts_nil(2-4) in \<open>auto simp: tag_end_def xml_name_def neq_Nil_conv\<close>)
next
  case (atts_cons s as n v w)
  from atts_cons.prems(1) consider (nil) "a' = []" "as' = []"
    | (cons) s' bs n' v' w' where "a' = '' '' @ n' @ ''='' @ quoted v' @ s'" "as' = (n', w') # bs" "atts s' bs" "xml_name n'" "att_value v' w'"
    by (subst (asm) atts.simps) blast
  then show ?case
  proof cases
    case nil
    with atts_cons.prems(2-4) atts_cons.hyps show ?thesis by (auto simp: tag_end_def xml_name_def neq_Nil_conv)
  next
    case cons
    with atts_cons.prems(4) have "n @ ''='' @ quoted v @ s @ u = n' @ ''='' @ quoted v' @ s' @ u'" by simp
    from name_unique [OF atts_cons.hyps(2) cons(4) _ _ _ _ this]
    have n: "n = n'" "quoted v @ s @ u = quoted v' @ s' @ u'" by (simp_all add: not_name_char)
    then have "v @ CHR 0x22 # s @ u = v' @ CHR 0x22 # s' @ u'" by (simp add: quoted_def)
    from att_value_unique [OF atts_cons.hyps(3) cons(5) this] have v: "v = v'" "w = w'" "s @ u = s' @ u'" by simp_all
    from atts_cons.IH [OF cons(3) atts_cons.prems(2,3) v(3)] n v cons show ?thesis by simp
  qed
qed

lemma atts_head: "atts a as \<Longrightarrow> a = [] \<or> hd a = CHR '' ''"
  by (cases rule: atts.cases) auto

lemma tag_unique:
  assumes "xml_name n" "atts a as" "tag_end u" "xml_name n'" "atts a' as'" "tag_end u'" "n @ a @ u = n' @ a' @ u'"
  shows "n = n' \<and> a = a' \<and> as = as' \<and> u = u'"
proof -
  have h: "a @ u \<noteq> [] \<and> \<not> name_char (hd (a @ u))" if "atts a as" "tag_end u" for a as u
    using atts_head [OF that(1)] that(2) by (cases a) (auto simp: tag_end_def not_name_char)
  from name_unique [OF assms(1,4) _ _ _ _ assms(7)] h [OF assms(2,3)] h [OF assms(5,6)] have "n = n'" "a @ u = a' @ u'" by auto
  with atts_unique [OF assms(2,5,3,6)] show ?thesis by simp
qed

lemma tag_end_open: "tag_end (CHR ''>'' # s)"
  by (simp add: tag_end_def not_name_char)

lemma xml_space_cases: "xml_space c \<longleftrightarrow> c \<in> {CHR '' '', CHR 0x09, CHR 0x0A, CHR 0x0D}"
  by (auto simp: xml_space_def IsNormalizableWhitespace_def)

lemma space_not_name: "xml_space c \<Longrightarrow> \<not> name_char c \<and> \<not> name_start c"
  by (auto simp: xml_space_cases name_char_def name_start_def Let_def)

lemma tag_end_empty: "list_all xml_space sp \<Longrightarrow> tag_end (sp @ ''/>'' @ s)"
  by (cases sp; cases "tl sp") (auto simp: tag_end_def not_name_char dest: space_not_name)

subsection \<open>Character data\<close>

text \<open>What can follow character data.\<close>

definition stops :: "string \<Rightarrow> bool" where
  "stops r \<longleftrightarrow> (\<exists>q. r = ''</'' @ q)"

lemma cdata_end_first:
  assumes "strstr (e @ d) '']]>'' = None" "d @ '']]>'' @ s' = '']]>'' @ s"
  shows "d = []"
proof (cases d)
  case (Cons x d1)
  show ?thesis
  proof (cases d1)
    case Nil
    with Cons assms(2) show ?thesis by simp
  next
    case (Cons y d2)
    note d1 = this
    show ?thesis
    proof (cases d2)
      case Nil
      with d1 \<open>d = x # d1\<close> assms(2) show ?thesis by simp
    next
      case (Cons z d3)
      from assms(1) have "take (length '']]>'') (drop (length e) (e @ d)) \<noteq> '']]>''" unfolding strstr_None by (rule spec)
      with d1 \<open>d = x # d1\<close> Cons assms(2) show ?thesis by simp
    qed
  qed
qed simp

lemma cdata_end_unique:
  assumes "strstr e '']]>'' = None" "strstr e' '']]>'' = None" "e @ '']]>'' @ s = e' @ '']]>'' @ s'"
  shows "e = e' \<and> s = s'"
proof -
  from append_eq_append_conv2 [THEN iffD1, OF assms(3)] obtain d where
    d: "e = e' @ d \<and> d @ '']]>'' @ s = '']]>'' @ s' \<or> e' = e @ d \<and> d @ '']]>'' @ s' = '']]>'' @ s" by metis
  with assms(1,2) cdata_end_first have "d = []" by blast
  with d show ?thesis by auto
qed

lemma char_data_E:
  assumes "char_data t d"
  obtains (nil) "t = []" "d = []"
    | (plain) x u y where "t = x # u" "d = x # y" "char_data u y" "x \<notin> {CHR ''<'', CHR ''&'', CHR ''>''}"
    | (ref) q x u y where "t = q @ u" "d = x # y" "char_data u y" "reference q x"
    | (cdata) e u y where "t = ''<![CDATA['' @ e @ '']]>'' @ u" "d = e @ y" "char_data u y" "strstr e '']]>'' = None"
  using assms by (rule char_data.cases) blast+

lemma char_data_unique:
  "char_data t d \<Longrightarrow> char_data t' d' \<Longrightarrow> stops r \<Longrightarrow> stops r' \<Longrightarrow> t @ r = t' @ r' \<Longrightarrow> t = t' \<and> d = d' \<and> r = r'"
proof (induction arbitrary: t' d' rule: char_data.induct)
  case cd_nil
  from cd_nil(1) show ?case
    by (cases rule: char_data_E) (use cd_nil(2-4) in \<open>auto simp: stops_def dest!: reference_head\<close>)
next
  case (cd_char t d c)
  from cd_char.prems(1) show ?case
  proof (cases rule: char_data_E)
    case (plain x u y)
    with cd_char.prems(4) have "c = x" "t @ r = u @ r'" by auto
    with plain cd_char.IH [OF plain(3) cd_char.prems(2,3)] show ?thesis by simp
  qed (use cd_char.prems(2-4) cd_char.hyps in \<open>auto simp: stops_def dest!: reference_head\<close>)
next
  case (cd_ref t d q c)
  from reference_head [OF cd_ref.hyps(2)] obtain q1 where q: "q = CHR ''&'' # q1" ..
  from cd_ref.prems(1) show ?case
  proof (cases rule: char_data_E)
    case (ref q' x u y)
    with cd_ref.prems(4) reference_unique [OF cd_ref.hyps(2) ref(4)] have "q = q'" "c = x" "t @ r = u @ r'" by auto
    with ref cd_ref.IH [OF ref(3) cd_ref.prems(2,3)] show ?thesis by simp
  qed (use cd_ref.prems(2-4) q in \<open>auto simp: stops_def\<close>)
next
  case (cd_cdata t d e)
  from cd_cdata.prems(1) show ?case
  proof (cases rule: char_data_E)
    case (cdata e' u y)
    with cd_cdata.prems(4) have "e @ '']]>'' @ t @ r = e' @ '']]>'' @ u @ r'" by simp
    from cdata_end_unique [OF cd_cdata.hyps(3) cdata(4) this] have "e = e'" "t @ r = u @ r'" by simp_all
    with cdata cd_cdata.IH [OF cdata(3) cd_cdata.prems(2,3)] show ?thesis by simp
  qed (use cd_cdata.prems(2-4) in \<open>auto simp: stops_def dest!: reference_head\<close>)
qed

subsection \<open>Content\<close>

lemma content_start:
  "content t xs \<Longrightarrow> stops r \<Longrightarrow> \<exists>sp n q. t @ r = sp @ CHR ''<'' # n # q \<and> list_all xml_space sp \<and> n \<noteq> CHR ''!''"
proof (induction t xs rule: content_body.inducts(1) [where ?P2.0 = "\<lambda>_ _. True"])
  case c_nil
  then show ?case by (auto simp: stops_def intro: exI [of _ "[]"])
next
  case (c_space s xs c)
  then obtain sp n q where "s @ r = sp @ CHR ''<'' # n # q" "list_all xml_space sp" "n \<noteq> CHR ''!''" by blast
  with c_space.hyps show ?case by (intro exI [of _ "c # sp"]) auto
next
  case (c_elem s ys t xs n a as)
  then show ?case by (intro exI [of _ "[]"]) (auto simp: xml_name_def neq_Nil_conv not_name_char)
next
  case (c_empty s ys n a as sp)
  then show ?case by (intro exI [of _ "[]"]) (auto simp: xml_name_def neq_Nil_conv not_name_char)
qed auto

lemma char_data_start:
  "char_data t d \<Longrightarrow> \<not> list_all xml_space t \<Longrightarrow>
   \<exists>sp x q. t = sp @ x # q \<and> list_all xml_space sp \<and> \<not> xml_space x \<and> (x = CHR ''<'' \<longrightarrow> (\<exists>p. q = CHR ''!'' # p))"
proof (induction rule: char_data.induct)
  case (cd_char t d c)
  show ?case
  proof (cases "xml_space c")
    case True
    with cd_char obtain sp x q where "t = sp @ x # q" "list_all xml_space sp" "\<not> xml_space x" "x = CHR ''<'' \<longrightarrow> (\<exists>p. q = CHR ''!'' # p)"
      by auto
    with True show ?thesis by (intro exI [of _ "c # sp"]) auto
  next
    case False
    with cd_char.hyps show ?thesis by (intro exI [of _ "[]"]) auto
  qed
next
  case (cd_ref t d r c)
  from reference_head [OF cd_ref.hyps(2)] show ?case by (intro exI [of _ "[]"]) (auto simp: xml_space_cases)
next
  case (cd_cdata t d e)
  show ?case by (intro exI [of _ "[]"]) (auto simp: xml_space_cases)
qed simp

lemma content_not_chars:
  assumes "content t xs" "char_data t' d" "\<not> list_all xml_space t'" "stops r" "stops r'"
  shows "t @ r \<noteq> t' @ r'"
proof
  assume e: "t @ r = t' @ r'"
  from content_start [OF assms(1,4)] obtain sp n q where
    c: "t @ r = sp @ CHR ''<'' # n # q" "list_all xml_space sp" "n \<noteq> CHR ''!''" by blast
  from char_data_start [OF assms(2,3)] obtain sp' x q' where
    d: "t' = sp' @ x # q'" "list_all xml_space sp'" "\<not> xml_space x" "x = CHR ''<'' \<longrightarrow> (\<exists>p. q' = CHR ''!'' # p)" by blast
  have "sp @ CHR ''<'' # n # q = sp' @ x # q' @ r'" using e c(1) d(1) by simp
  from span_unique [OF c(2) d(2) _ d(3) this] c(3) d(4) show False by (auto simp: xml_space_cases)
qed

definition closes :: "string \<Rightarrow> bool" where "closes r \<longleftrightarrow> r = [] \<or> stops r"

lemma content_E:
  assumes "content t xs"
  obtains (nil) "t = []" "xs = []"
    | (space) s c where "t = c # s" "content s xs" "xml_space c"
    | (elem) s ys b zs n a as where "t = ''<'' @ n @ a @ ''>'' @ b @ ''</'' @ n @ ''>'' @ s" "xs = Element n as zs # ys" "content s ys"
        "body b zs" "xml_name n" "atts a as"
    | (empty) s ys n a as sp where "t = ''<'' @ n @ a @ sp @ ''/>'' @ s" "xs = Element n as [] # ys" "content s ys"
        "xml_name n" "atts a as" "list_all xml_space sp"
  using assms by (rule content.cases) blast+

lemma open_not_empty: "list_all xml_space sp \<Longrightarrow> CHR ''>'' # s \<noteq> sp @ ''/>'' @ t"
  by (cases sp) (auto simp: xml_space_cases)

lemma name_not_slash: "xml_name n \<Longrightarrow> closes r \<Longrightarrow> CHR ''<'' # n @ s \<noteq> r"
  by (auto simp: xml_name_def closes_def stops_def neq_Nil_conv not_name_char)

lemma content_body_unique:
  "content t xs \<Longrightarrow> (\<And>t' ys r r'. content t' ys \<Longrightarrow> closes r \<Longrightarrow> closes r' \<Longrightarrow> t @ r = t' @ r' \<Longrightarrow> t = t' \<and> xs = ys \<and> r = r')"
  "body t xs \<Longrightarrow> (\<And>t' ys r r'. body t' ys \<Longrightarrow> stops r \<Longrightarrow> stops r' \<Longrightarrow> t @ r = t' @ r' \<Longrightarrow> t = t' \<and> xs = ys \<and> r = r')"
proof (induction rule: content_body.inducts)
  case c_nil
  from c_nil(1) show ?case
  proof (cases rule: content_E)
    case (elem s ys b zs n a as)
    with c_nil name_not_slash show ?thesis by auto
  next
    case (empty s ys n a as sp)
    with c_nil name_not_slash show ?thesis by auto
  qed (use c_nil in \<open>auto simp: closes_def stops_def xml_space_cases\<close>)
next
  case (c_space s xs c)
  from c_space.prems(1) show ?case
  proof (cases rule: content_E)
    case (space s' d)
    with c_space.prems(4) c_space.IH [OF space(2) c_space.prems(2,3)] show ?thesis by simp
  qed (use c_space.prems c_space.hyps in \<open>auto simp: closes_def stops_def xml_space_cases\<close>)
next
  case (c_elem s ys b zs n a as)
  let ?u = "CHR ''>'' # b @ ''</'' @ n @ ''>'' @ s @ r"
  from c_elem.prems(1) show ?case
  proof (cases rule: content_E)
    case nil
    with c_elem.prems(3,4) name_not_slash [OF c_elem.hyps(3)] show ?thesis by auto
  next
    case (space s' c)
    with c_elem.prems(4) show ?thesis by (auto simp: xml_space_cases)
  next
    case (elem s' ys' b' zs' n' a' as')
    with c_elem.prems(4) have "n @ a @ ?u = n' @ a' @ CHR ''>'' # b' @ ''</'' @ n' @ ''>'' @ s' @ r'" by simp
    note e = this
    from tag_unique [OF c_elem.hyps(3,4) tag_end_open elem(5,6) tag_end_open e]
    have n: "n = n'" "a = a'" "as = as'" by blast+
    with tag_unique [OF c_elem.hyps(3,4) tag_end_open elem(5,6) tag_end_open e]
    have m: "b @ ''</'' @ n @ ''>'' @ s @ r = b' @ ''</'' @ n @ ''>'' @ s' @ r'" by simp
    from c_elem.IH(2) [OF elem(4) _ _ m] have b: "b = b'" "zs = zs'" "s @ r = s' @ r'" by (simp_all add: stops_def)
    from c_elem.IH(1) [OF elem(3) c_elem.prems(2,3) b(3)] n b elem(1,2) show ?thesis by simp
  next
    case (empty s' ys' n' a' as' sp)
    with c_elem.prems(4) have "n @ a @ ?u = n' @ a' @ (sp @ ''/>'' @ s' @ r')" by simp
    from tag_unique [OF c_elem.hyps(3,4) tag_end_open empty(4,5) tag_end_empty [OF empty(6)] this] open_not_empty [OF empty(6)]
    show ?thesis by blast
  qed
next
  case (c_empty s ys n a as sp)
  let ?u = "sp @ ''/>'' @ s @ r"
  from c_empty.prems(1) show ?case
  proof (cases rule: content_E)
    case nil
    with c_empty.prems(3,4) name_not_slash [OF c_empty.hyps(2)] show ?thesis by auto
  next
    case (space s' c)
    with c_empty.prems(4) show ?thesis by (auto simp: xml_space_cases)
  next
    case (elem s' ys' b' zs' n' a' as')
    with c_empty.prems(4) have "n @ a @ ?u = n' @ a' @ CHR ''>'' # b' @ ''</'' @ n' @ ''>'' @ s' @ r'" by simp
    from tag_unique [OF c_empty.hyps(2,3) tag_end_empty [OF c_empty.hyps(5)] elem(5,6) tag_end_open this] open_not_empty [OF c_empty.hyps(5)]
    show ?thesis by metis
  next
    case (empty s' ys' n' a' as' sp')
    with c_empty.prems(4) have "n @ a @ ?u = n' @ a' @ (sp' @ ''/>'' @ s' @ r')" by simp
    from tag_unique [OF c_empty.hyps(2,3) tag_end_empty [OF c_empty.hyps(5)] empty(4,5) tag_end_empty [OF empty(6)] this]
    have n: "n = n'" "a = a'" "as = as'" "sp @ CHR ''/'' # (CHR ''>'' # s @ r) = sp' @ CHR ''/'' # (CHR ''>'' # s' @ r')" by simp_all
    from span_unique [OF c_empty.hyps(5) empty(6) _ _ n(4)] have "sp = sp'" "s @ r = s' @ r'" by (simp_all add: xml_space_cases)
    with c_empty.IH [OF empty(3) c_empty.prems(2,3)] n empty(1,2) show ?thesis by simp
  qed
next
  case (b_content t xs)
  from b_content.prems(1) show ?case
  proof (cases rule: body.cases)
    case b_content
    have "closes r" "closes r'" using b_content.prems(2,3) by (simp_all add: closes_def)
    from b_content.IH [OF b_content this b_content.prems(4)] show ?thesis .
  next
    case (b_chars d)
    with content_not_chars [OF b_content.hyps b_chars(2,3)] b_content.prems show ?thesis by blast
  qed
next
  case (b_chars t d)
  from b_chars.prems(1) show ?case
  proof (cases rule: body.cases)
    case b_content
    from content_not_chars [OF b_content b_chars.hyps b_chars.prems(3,2)] b_chars.prems(4) show ?thesis by simp
  next
    case (b_chars d')
    with char_data_unique [OF \<open>char_data t d\<close> b_chars(2)] b_chars.prems show ?thesis by simp
  qed
qed

text \<open>A text is the content of one list of trees at most.\<close>

lemma content_unique: "content t xs \<Longrightarrow> content t ys \<Longrightarrow> xs = ys"
  using content_body_unique(1) [of t xs t ys "[]" "[]"] by (simp add: closes_def)

section \<open>A JSON text reads in one way\<close>

text \<open>The grammar of \<open>Gt_Json_Spec\<close> is unambiguous.\<close>

subsection \<open>Strings and numbers\<close>

lemma jstring_E:
  assumes "jstring s us"
  obtains (nil) "s = []" "us = []"
    | (plain) c t ws where "s = c # t" "us = code_of c # ws" "jstring t ws" "c \<notin> {CHR 0x22, CHR 0x5C}"
    | (escape) c u t ws where "s = CHR 0x5C # c # t" "us = u # ws" "jstring t ws" "json_escape c = Some u"
    | (hex) ds t ws where "s = CHR 0x5C # CHR ''u'' # ds @ t" "us = number 16 ds # ws" "jstring t ws" "length ds = 4"
proof (cases rule: jstring.cases [OF assms])
  case 1
  show ?thesis by (rule nil) fact+
next
  case (2 t ws c)
  show ?thesis by (rule plain) fact+
next
  case (3 t ws c u)
  show ?thesis by (rule escape) fact+
next
  case (4 t ws ds)
  show ?thesis by (rule hex) fact+
qed

lemma no_escape_u: "json_escape CHR ''u'' = None"
  by (simp add: json_escape_def)

lemma jstring_unique:
  "jstring s us \<Longrightarrow> jstring s' us' \<Longrightarrow> s @ CHR 0x22 # r = s' @ CHR 0x22 # r' \<Longrightarrow> s = s' \<and> us = us' \<and> r = r'"
proof (induction arbitrary: s' us' rule: jstring.induct)
  case js_nil
  from js_nil(1) show ?case
    by (cases rule: jstring_E) (use js_nil(2) in auto)
next
  case (js_char s us c)
  from js_char.prems(1) show ?case
  proof (cases rule: jstring_E)
    case (plain d t ws)
    with js_char.prems(2) js_char.IH [OF plain(3)] show ?thesis by simp
  qed (use js_char.prems(2) js_char.hyps in auto)
next
  case (js_escape s us c u)
  from js_escape.prems(1) show ?case
  proof (cases rule: jstring_E)
    case (escape d x t ws)
    with js_escape.prems(2) js_escape.hyps js_escape.IH [OF escape(3)] show ?thesis by simp
  qed (use js_escape.prems(2) js_escape.hyps no_escape_u in auto)
next
  case (js_hex s us ds)
  from js_hex.prems(1) show ?case
  proof (cases rule: jstring_E)
    case (hex ds' t ws)
    with js_hex.prems(2) have "ds @ s @ CHR 0x22 # r = ds' @ t @ CHR 0x22 # r'" by simp
    moreover from this hex(4) js_hex.hyps(2) have "ds = ds'" by (simp add: append_eq_append_conv)
    ultimately show ?thesis using hex js_hex.IH [OF hex(3)] by simp
  qed (use js_hex.prems(2) no_escape_u in auto)
qed

text \<open>What can follow a value: nothing, white space or one of the signs that end a value.\<close>

definition ender :: "char \<Rightarrow> bool" where "ender c \<longleftrightarrow> c \<in> {CHR '','', CHR '']'', CHR ''}''}"

definition ends_core :: "string \<Rightarrow> bool" where
  "ends_core r \<longleftrightarrow> r = [] \<or> json_space (hd r) \<or> ender (hd r)"

definition ends_value :: "string \<Rightarrow> bool" where
  "ends_value r \<longleftrightarrow> r = [] \<or> ender (hd r)"

lemma json_space_cases: "json_space c \<longleftrightarrow> c \<in> {CHR '' '', CHR 0x09, CHR 0x0A, CHR 0x0D}"
  by (auto simp: json_space_def)

definition number_char :: "char \<Rightarrow> bool" where "number_char c \<longleftrightarrow> isdigit c \<or> c = CHR ''-''"

lemma dec_int_chars: "list_all number_char (dec_int n)" "dec_int n \<noteq> []"
  by (auto simp: dec_int_def list_all_iff number_char_def dest: dec_digits_chars)

lemma ends_core_not_number: "ends_core r \<Longrightarrow> r = [] \<or> \<not> number_char (hd r)"
  by (auto simp: ends_core_def ender_def json_space_cases number_char_def isdigit_def)

lemma dec_int_unique:
  assumes "ends_core r" "ends_core r'" "dec_int m @ r = dec_int n @ r'"
  shows "m = n \<and> r = r'"
proof -
  have t: "takeWhile number_char (dec_int k @ q) = dec_int k" if "ends_core q" for k q
  proof -
    have "takeWhile number_char (dec_int k @ q) = dec_int k @ takeWhile number_char q"
      using dec_int_chars(1) [of k] by (simp add: list_all_iff)
    moreover have "takeWhile number_char q = []" using ends_core_not_number [OF that] by (cases q) auto
    ultimately show ?thesis by simp
  qed
  have "dec_int m = dec_int n" using t [OF assms(1), of m] t [OF assms(2), of n] assms(3) by simp
  with assms(3) dec_int_inj show ?thesis by simp
qed

subsection \<open>Values\<close>

lemma jcore_head: "jcore s v \<Longrightarrow> \<exists>c q. s = c # q \<and> \<not> json_space c \<and> \<not> ender c"
proof (induction s v rule: jcore_jvalue_jmembers_jelements.inducts(1) [where ?P2.0 = "\<lambda>_ _. True" and ?P3.0 = "\<lambda>_ _. True" and ?P4.0 = "\<lambda>_ _. True"])
  case (k_num n)
  have "number_char (hd (dec_int n))" using dec_int_chars [of n] by (cases "dec_int n") auto
  then have "\<not> json_space (hd (dec_int n)) \<and> \<not> ender (hd (dec_int n))"
    by (auto simp: ender_def json_space_cases number_char_def isdigit_def)
  then show ?case using dec_int_chars(2) [of n] by (metis list.collapse)
qed (auto simp: quoted_def ender_def json_space_cases)

lemma span_empty:
  assumes "list_all P a" "list_all P b" "x = [] \<or> \<not> P (hd x)" "y = [] \<or> \<not> P (hd y)" "a @ x = b @ y"
  shows "a = b \<and> x = y"
proof -
  have "takeWhile P (a @ x) = a @ takeWhile P x" "takeWhile P (b @ y) = b @ takeWhile P y"
    using assms(1,2) by (simp_all add: list_all_iff)
  moreover have "takeWhile P x = []" "takeWhile P y = []" using assms(3,4) by (cases x; cases y; auto)+
  ultimately show ?thesis using assms(5) by simp
qed

lemma not_both: "json_space c \<Longrightarrow> \<not> ender c"
  by (auto simp: json_space_cases ender_def)

lemma after_core: "list_all json_space b \<Longrightarrow> ends_value r \<Longrightarrow> ends_core (b @ r)"
  by (cases b) (auto simp: ends_core_def ends_value_def)

lemma spaces_unique:
  "list_all json_space b \<Longrightarrow> list_all json_space b' \<Longrightarrow> ends_value r \<Longrightarrow> ends_value r' \<Longrightarrow> b @ r = b' @ r' \<Longrightarrow> b = b' \<and> r = r'"
  by (rule span_empty [of json_space]) (auto simp: ends_value_def dest: not_both)

lemma core_head_unique:
  assumes "jcore s v" "jcore s' v'" "list_all json_space a" "list_all json_space a'" "a @ s @ r = a' @ s' @ r'"
  shows "a = a' \<and> s @ r = s' @ r'"
proof -
  from jcore_head [OF assms(1)] obtain c q where c: "s = c # q" "\<not> json_space c" by blast
  from jcore_head [OF assms(2)] obtain c' q' where c': "s' = c' # q'" "\<not> json_space c'" by blast
  show ?thesis using span_unique [OF assms(3,4) c(2) c'(2), of "q @ r" "q' @ r'"] assms(5) c c' by simp
qed

lemma key_unique:
  assumes "jstring k us" "jstring k' us'" "list_all json_space a" "list_all json_space a'"
    "a @ quoted k @ '':'' @ s = a' @ quoted k' @ '':'' @ s'"
  shows "a = a' \<and> k = k' \<and> us = us' \<and> s = s'"
proof -
  have q: "\<not> json_space CHR 0x22" by (simp add: json_space_cases)
  from span_unique [OF assms(3,4) q q, of "k @ CHR 0x22 # '':'' @ s" "k' @ CHR 0x22 # '':'' @ s'"] assms(5)
  have a: "a = a'" "k @ CHR 0x22 # '':'' @ s = k' @ CHR 0x22 # '':'' @ s'" by (simp_all add: quoted_def)
  with jstring_unique [OF assms(1,2) a(2)] show ?thesis by simp
qed

lemma jcore_E:
  assumes "jcore s v"
  obtains (str) t us where "s = CHR 0x22 # t @ [CHR 0x22]" "v = JStr us" "jstring t us"
    | (num) n where "s = dec_int n" "v = JNum n"
    | (obj) t ms where "s = CHR ''{'' # t @ ''}''" "v = JObj ms" "jmembers t ms"
    | (arr) t vs where "s = CHR ''['' # t @ '']''" "v = JArr vs" "jelements t vs"
    | (arr0) a where "s = CHR ''['' # a @ '']''" "v = JArr []" "list_all json_space a"
  using assms by (cases rule: jcore.cases) (auto simp: quoted_def)

lemma num_head: "dec_int n @ r \<noteq> c # q" if "c \<in> {CHR 0x22, CHR ''{'', CHR ''[''}"
proof -
  have "number_char (hd (dec_int n))" using dec_int_chars [of n] by (cases "dec_int n") auto
  then show ?thesis using that dec_int_chars(2) [of n] by (cases "dec_int n") (auto simp: number_char_def isdigit_def)
qed

lemma jvalue_E:
  assumes "jvalue s v"
  obtains a t b where "s = a @ t @ b" "jcore t v" "list_all json_space a" "list_all json_space b"
  using assms by (rule jvalue.cases) blast

lemma jelements_E:
  assumes "jelements s vs"
  obtains (one) v where "vs = [v]" "jvalue s v"
    | (more) t v u ws where "s = t @ '','' @ u" "vs = v # ws" "jvalue t v" "jelements u ws"
  using assms by (rule jelements.cases) blast+

lemma jmembers_E:
  assumes "jmembers s ms"
  obtains (one) a k us t v where "s = a @ quoted k @ '':'' @ t" "ms = [(us, v)]" "jstring k us" "jvalue t v" "list_all json_space a"
    | (more) a k us t v u ns where "s = a @ quoted k @ '':'' @ t @ '','' @ u" "ms = (us, v) # ns" "jstring k us" "jvalue t v"
        "list_all json_space a" "jmembers u ns"
proof (cases rule: jmembers.cases [OF assms])
  case (1 k us t v a)
  show ?thesis by (rule one) fact+
next
  case (2 k us t v a u ns)
  show ?thesis by (rule more) fact+
qed

lemma no_empty_elements:
  assumes "jelements t vs" "list_all json_space a"
  shows "t @ CHR '']'' # r \<noteq> a @ CHR '']'' # r'"
proof
  assume e: "t @ CHR '']'' # r = a @ CHR '']'' # r'"
  from assms(1) obtain s v q where s: "jvalue s v" "t = s @ q" by (cases rule: jelements_E) auto
  from s(1) obtain a' u b where u: "s = a' @ u @ b" "jcore u v" "list_all json_space a'" by (rule jvalue_E)
  from jcore_head [OF u(2)] obtain c p where c: "u = c # p" "\<not> json_space c" "\<not> ender c" by blast
  have n: "\<not> json_space CHR '']''" by (simp add: json_space_cases)
  from span_unique [OF u(3) assms(2) c(2) n, of "p @ b @ q @ CHR '']'' # r" r'] e s(2) u(1) c show False
    by (simp add: ender_def)
qed

lemma ends_valueI: "ender c \<Longrightarrow> ends_value (c # q)"
  by (simp add: ends_value_def)

lemma enders: "ender CHR '',''" "ender CHR '']''" "ender CHR ''}''"
  by (simp_all add: ender_def)

lemma json_unique:
  "jcore s1 v1 \<Longrightarrow> (\<And>s' v' r r'. jcore s' v' \<Longrightarrow> ends_core r \<Longrightarrow> ends_core r' \<Longrightarrow> s1 @ r = s' @ r' \<Longrightarrow> s1 = s' \<and> v1 = v' \<and> r = r')"
  "jvalue s2 v2 \<Longrightarrow> (\<And>s' v' r r'. jvalue s' v' \<Longrightarrow> ends_value r \<Longrightarrow> ends_value r' \<Longrightarrow> s2 @ r = s' @ r' \<Longrightarrow> s2 = s' \<and> v2 = v' \<and> r = r')"
  "jmembers s3 ms \<Longrightarrow> (\<And>s' ms' q q'. jmembers s' ms' \<Longrightarrow> s3 @ CHR ''}'' # q = s' @ CHR ''}'' # q' \<Longrightarrow> s3 = s' \<and> ms = ms' \<and> q = q')"
  "jelements s4 vs \<Longrightarrow> (\<And>s' vs' q q'. jelements s' vs' \<Longrightarrow> s4 @ CHR '']'' # q = s' @ CHR '']'' # q' \<Longrightarrow> s4 = s' \<and> vs = vs' \<and> q = q')"
proof (induction rule: jcore_jvalue_jmembers_jelements.inducts)
  case (k_str s us)
  from k_str.prems(1) show ?case
  proof (cases rule: jcore_E)
    case (str t ws)
    with k_str.prems(4) have "s @ CHR 0x22 # r = t @ CHR 0x22 # r'" by (simp add: quoted_def)
    from jstring_unique [OF k_str.hyps str(3) this] str show ?thesis by (simp add: quoted_def)
  next
    case (num n)
    with k_str.prems(4) num_head [of "CHR 0x22" n r' "s @ CHR 0x22 # r"] show ?thesis by (simp add: quoted_def)
  qed (use k_str.prems(4) in \<open>auto simp: quoted_def\<close>)
next
  case (k_num n)
  from k_num.prems(1) show ?case
  proof (cases rule: jcore_E)
    case (num m)
    with dec_int_unique [OF k_num.prems(2,3), of n m] k_num.prems(4) show ?thesis by simp
  next
    case (str t ws)
    with k_num.prems(4) num_head [of "CHR 0x22" n r] show ?thesis by simp
  next
    case (obj t ms)
    with k_num.prems(4) num_head [of "CHR ''{''" n r] show ?thesis by simp
  next
    case (arr t vs)
    with k_num.prems(4) num_head [of "CHR ''[''" n r] show ?thesis by simp
  next
    case (arr0 a)
    with k_num.prems(4) num_head [of "CHR ''[''" n r] show ?thesis by simp
  qed
next
  case (k_obj s ms)
  from k_obj.prems(1) show ?case
  proof (cases rule: jcore_E)
    case (obj t ms')
    with k_obj.prems(4) have "s @ CHR ''}'' # r = t @ CHR ''}'' # r'" by simp
    from k_obj.IH [OF obj(3) this] obj show ?thesis by simp
  next
    case (num n)
    with k_obj.prems(4) num_head [of "CHR ''{''" n r' "s @ CHR ''}'' # r"] show ?thesis by simp
  qed (use k_obj.prems(4) in auto)
next
  case (k_arr s vs)
  from k_arr.prems(1) show ?case
  proof (cases rule: jcore_E)
    case (arr t ws)
    with k_arr.prems(4) have "s @ CHR '']'' # r = t @ CHR '']'' # r'" by simp
    from k_arr.IH [OF arr(3) this] arr show ?thesis by simp
  next
    case (arr0 a)
    with k_arr.prems(4) no_empty_elements [OF k_arr.hyps arr0(3), of r r'] show ?thesis by simp
  next
    case (num n)
    with k_arr.prems(4) num_head [of "CHR ''[''" n r' "s @ CHR '']'' # r"] show ?thesis by simp
  qed (use k_arr.prems(4) in auto)
next
  case (k_arr0 a)
  from k_arr0.prems(1) show ?case
  proof (cases rule: jcore_E)
    case (arr t ws)
    with k_arr0.prems(4) no_empty_elements [OF arr(3) k_arr0.hyps, of r' r] show ?thesis by simp
  next
    case (arr0 b)
    have n: "\<not> json_space CHR '']''" by (simp add: json_space_cases)
    from span_unique [OF k_arr0.hyps arr0(3) n n, of r r'] arr0 k_arr0.prems(4) show ?thesis by simp
  next
    case (num n)
    with k_arr0.prems(4) num_head [of "CHR ''[''" n r' "a @ CHR '']'' # r"] show ?thesis by simp
  qed (use k_arr0.prems(4) in auto)
next
  case (v_any s v a b)
  from v_any.prems(1) obtain a' t b' where t: "s' = a' @ t @ b'" "jcore t v'" "list_all json_space a'" "list_all json_space b'"
    by (rule jvalue_E)
  from core_head_unique [OF v_any.hyps(1) t(2) v_any.hyps(2) t(3), of "b @ r" "b' @ r'"] v_any.prems(4) t(1)
  have a: "a = a'" "s @ b @ r = t @ b' @ r'" by simp_all
  from v_any.IH [OF t(2) after_core [OF v_any.hyps(3) v_any.prems(2)] after_core [OF t(4) v_any.prems(3)] a(2)]
  have v: "s = t" "v = v'" "b @ r = b' @ r'" by simp_all
  from spaces_unique [OF v_any.hyps(3) t(4) v_any.prems(2,3) v(3)] a v t(1) show ?case by simp
next
  case (m_one k us s v a)
  from m_one.prems(1) show ?case
  proof (cases rule: jmembers_E)
    case (one a' k' us' t w)
    from key_unique [OF m_one.hyps(1) one(3) m_one.hyps(3) one(5), of "s @ CHR ''}'' # q" "t @ CHR ''}'' # q'"] m_one.prems(2) one(1)
    have k: "a = a'" "k = k'" "us = us'" "s @ CHR ''}'' # q = t @ CHR ''}'' # q'" by simp_all
    from m_one.IH [OF one(4) _ _ k(4)] k one show ?thesis by (simp add: ends_valueI enders)
  next
    case (more a' k' us' t w u ns)
    from key_unique [OF m_one.hyps(1) more(3) m_one.hyps(3) more(5), of "s @ CHR ''}'' # q" "t @ CHR '','' # u @ CHR ''}'' # q'"]
      m_one.prems(2) more(1)
    have k: "s @ CHR ''}'' # q = t @ CHR '','' # u @ CHR ''}'' # q'" by simp
    from m_one.IH [OF more(4) _ _ k] show ?thesis by (simp add: ends_valueI enders)
  qed
next
  case (m_cons k us s v a x ms)
  from m_cons.prems(1) show ?case
  proof (cases rule: jmembers_E)
    case (one a' k' us' t w)
    from key_unique [OF m_cons.hyps(1) one(3) m_cons.hyps(3) one(5), of "s @ CHR '','' # x @ CHR ''}'' # q" "t @ CHR ''}'' # q'"]
      m_cons.prems(2) one(1)
    have k: "s @ CHR '','' # x @ CHR ''}'' # q = t @ CHR ''}'' # q'" by simp
    from m_cons.IH(1) [OF one(4) _ _ k] show ?thesis by (simp add: ends_valueI enders)
  next
    case (more a' k' us' t w u ns)
    from key_unique [OF m_cons.hyps(1) more(3) m_cons.hyps(3) more(5), of "s @ CHR '','' # x @ CHR ''}'' # q" "t @ CHR '','' # u @ CHR ''}'' # q'"]
      m_cons.prems(2) more(1)
    have k: "a = a'" "k = k'" "us = us'" "s @ CHR '','' # x @ CHR ''}'' # q = t @ CHR '','' # u @ CHR ''}'' # q'" by simp_all
    from m_cons.IH(1) [OF more(4) _ _ k(4)] have v: "s = t" "v = w" "x @ CHR ''}'' # q = u @ CHR ''}'' # q'"
      by (simp_all add: ends_valueI enders)
    from m_cons.IH(2) [OF more(6) v(3)] k v more(1,2) show ?thesis by simp
  qed
next
  case (e_one s v)
  from e_one.prems(1) show ?case
  proof (cases rule: jelements_E)
    case (one w)
    from e_one.IH [OF one(2) _ _ e_one.prems(2)] one show ?thesis by (simp add: ends_valueI enders)
  next
    case (more t w u ws)
    with e_one.prems(2) have k: "s @ CHR '']'' # q = t @ CHR '','' # u @ CHR '']'' # q'" by simp
    from e_one.IH [OF more(3) _ _ k] show ?thesis by (simp add: ends_valueI enders)
  qed
next
  case (e_cons s v x vs)
  from e_cons.prems(1) show ?case
  proof (cases rule: jelements_E)
    case (one w)
    with e_cons.prems(2) have k: "s @ CHR '','' # x @ CHR '']'' # q = s' @ CHR '']'' # q'" by simp
    from e_cons.IH(1) [OF one(2) _ _ k] show ?thesis by (simp add: ends_valueI enders)
  next
    case (more t w u ws)
    with e_cons.prems(2) have k: "s @ CHR '','' # x @ CHR '']'' # q = t @ CHR '','' # u @ CHR '']'' # q'" by simp
    from e_cons.IH(1) [OF more(3) _ _ k] have v: "s = t" "v = w" "x @ CHR '']'' # q = u @ CHR '']'' # q'"
      by (simp_all add: ends_valueI enders)
    from e_cons.IH(2) [OF more(4) v(3)] v more(1,2) show ?thesis by simp
  qed
qed

text \<open>A text reads as one value at most.\<close>

lemma jvalue_unique: "jvalue s v \<Longrightarrow> jvalue s w \<Longrightarrow> v = w"
  using json_unique(2) [of s v s w "[]" "[]"] by (simp add: ends_value_def)

end
