(* ===== verification/Gt_Print_Spec.thy ===== *)
theory Gt_Print_Spec
  imports Gt_Print Gt_Utf8
begin

section \<open>What is printed\<close>

text \<open>
  Integers of 128 bits are printed in decimal, the check of a string for UTF-8 accepts exactly the encodings of
  sequences of code points, and a printed string is a C++ string literal, which a reader of
  literals turns back into the characters.
\<close>

subsection \<open>Integers of 128 bits\<close>

definition dec0 :: "nat \<Rightarrow> string" where
  "dec0 n = (if n = 0 then [] else dec_digits n)"

lemma dec0_step: "0 < n \<Longrightarrow> dec0 n = dec0 (n div 10) @ [char_of (48 + n mod 10)]"
  by (cases "n < 10") (simp_all add: dec0_def dec_digits.simps [of n])

lemma digits128_eq:
  assumes "length (dec0 (joined high low)) + length p \<le> 40"
  shows "digits128 high low p = Inr (dec0 (joined high low) @ p)"
  using assms
proof (induction high low p rule: digits128.induct)
  case (1 high low p)
  show ?case
  proof (cases "high = 0 \<and> low = 0")
    case True
    then show ?thesis by (simp add: digits128.simps [of 0 0] joined_def dec0_def)
  next
    case False
    obtain h l d where ld: "long_division high low = (h, l, d)" by (cases "long_division high low") auto
    note e = long_division [OF ld]
    have "0 < joined high low" using long_division_less [OF _ ld [symmetric]] False by fastforce
    from dec0_step [OF this] have s: "dec0 (joined high low) = dec0 (joined h l) @ [char_of (48 + unat d)]"
      using e by (simp add: div_add1_eq)
    have p: "push_front (char_of (48 + unat d)) p = Inr (char_of (48 + unat d) # p)"
    proof -
      have "length p < 40" using "1.prems" by (simp add: s)
      then show ?thesis by (simp add: push_front_def)
    qed
    have "digits128 h l (char_of (48 + unat d) # p) = Inr (dec0 (joined h l) @ char_of (48 + unat d) # p)"
      using "1.prems" by (intro "1.IH" [OF False ld [symmetric] refl p]) (simp add: s)
    then show ?thesis using False by (simp add: digits128.simps [of high low p] ld p s)
  qed
qed

lemma joined_halves: "joined (ucast (drop_bit 64 v)) (ucast (v :: 128 word)) = unat v"
proof -
  have "unat v < 2 ^ 128" by (rule order_less_le_trans [OF unsigned_less]) simp
  then have "unat v div 2 ^ 64 < 2 ^ 64" by (simp add: less_mult_imp_div_less)
  moreover have d: "unat (drop_bit 64 v) = unat v div 2 ^ 64" unfolding unat_drop_bit_eq by (rule drop_bit_eq_div)
  ultimately have "unat (ucast (drop_bit 64 v) :: 64 word) = unat v div 2 ^ 64"
    unfolding unsigned_ucast_eq d by (simp add: take_bit_eq_mod)
  moreover have "unat (ucast v :: 64 word) = unat v mod 2 ^ 64" by (simp add: unsigned_ucast_eq take_bit_eq_mod)
  ultimately show ?thesis by (simp only: joined_def div_mult_mod_eq)
qed

lemma PrintTo_uint128_dec: "PrintTo_uint128 v = Inr (dec_digits (unat v))"
proof (cases "v = 0")
  case True
  moreover have "char_of (48 :: nat) = CHR ''0''" by code_simp
  ultimately show ?thesis by (simp add: PrintTo_uint128_def dec_digits.simps [of 0])
next
  case False
  then have pos: "unat v \<noteq> 0" by (simp add: unat_eq_0)
  have "unat v < 2 ^ 128" by (rule order_less_le_trans [OF unsigned_less]) simp
  then have "unat v < 10 ^ Suc 38" by simp
  then have "length (dec_digits (unat v)) \<le> Suc 38" by (rule dec_digits_length)
  then have "digits128 (ucast (drop_bit 64 v)) (ucast v) [NUL] = Inr (dec0 (unat v) @ [NUL])"
    using digits128_eq [of "ucast (drop_bit 64 v)" "ucast v" "[NUL]"] pos by (simp add: joined_halves dec0_def)
  with False pos show ?thesis by (simp add: PrintTo_uint128_def push_front_def dec0_def)
qed

lemma PrintTo_int128_dec: "PrintTo_int128 v = Inr (dec_int (sint v))"
proof -
  have r: "- (2 ^ 127) \<le> sint v" "sint v < 2 ^ 127" using sint_greater_eq [of v] sint_less [of v] by simp_all
  have u: "uint v = sint v mod 2 ^ 128" by (simp add: uint_sint take_bit_eq_mod)
  have neg: "v <s 0 \<longleftrightarrow> sint v < 0" by (simp add: word_sless_alt)
  show ?thesis
  proof (cases "sint v < 0")
    case True
    have "uint (- v) = (- sint v) mod 2 ^ 128" by (simp add: uint_word_ariths u mod_minus_eq)
    also have "\<dots> = - sint v" using r True by (intro mod_pos_pos_trivial) auto
    finally have "unat (- v) = nat (- sint v)" by (simp only: unat_eq_nat_uint)
    with True neg show ?thesis by (simp add: PrintTo_int128_def PrintTo_uint128_dec dec_int_def)
  next
    case False
    have "uint v = sint v" unfolding u using r False by (intro mod_pos_pos_trivial) auto
    then have "unat v = nat (sint v)" by (simp only: unat_eq_nat_uint)
    with False neg show ?thesis by (simp add: PrintTo_int128_def PrintTo_uint128_dec dec_int_def)
  qed
qed

subsection \<open>UTF-8\<close>

text \<open>Code points but surrogates, and byte strings that are sequences of their encodings.\<close>

definition code_point :: "nat \<Rightarrow> bool" where
  "code_point n \<longleftrightarrow> n < 0x110000 \<and> \<not> (0xD800 \<le> n \<and> n < 0xE000)"

definition byte_text :: "nat list \<Rightarrow> bool" where
  "byte_text bs \<longleftrightarrow> (\<exists>cps. list_all code_point cps \<and> bs = concat (map utf8_bytes cps))"

lemma byte_text_Nil [simp]: "byte_text []"
  unfolding byte_text_def by (rule exI [of _ "[]"]) simp

lemma utf8_bytes_not_Nil [simp]: "utf8_bytes n \<noteq> []"
  by (simp add: utf8_bytes_def)

lemma byte_text_Cons: "byte_text (b # bs) \<longleftrightarrow> (\<exists>n r. code_point n \<and> b # bs = utf8_bytes n @ r \<and> byte_text r)"
proof
  assume "byte_text (b # bs)"
  then obtain cps where c: "list_all code_point cps" "b # bs = concat (map utf8_bytes cps)" by (auto simp: byte_text_def)
  then obtain n cps' where "cps = n # cps'" by (cases cps) auto
  with c show "\<exists>n r. code_point n \<and> b # bs = utf8_bytes n @ r \<and> byte_text r" by (auto simp: byte_text_def)
next
  assume "\<exists>n r. code_point n \<and> b # bs = utf8_bytes n @ r \<and> byte_text r"
  then obtain n cps where "code_point n" "b # bs = utf8_bytes n @ concat (map utf8_bytes cps)" "list_all code_point cps"
    by (auto simp: byte_text_def)
  then show "byte_text (b # bs)" unfolding byte_text_def by (intro exI [of _ "n # cps"]) simp
qed

text \<open>Every number in digits of six bits.\<close>

lemma six_bits:
  obtains h i j l where "n = 262144 * h + 4096 * i + 64 * j + (l :: nat)" "i < 64" "j < 64" "l < 64"
proof
  show "n = 262144 * (n div 64 div 64 div 64) + 4096 * (n div 64 div 64 mod 64) + 64 * (n div 64 mod 64) + n mod 64"
    using div_mult_mod_eq [of n 64] div_mult_mod_eq [of "n div 64" 64] div_mult_mod_eq [of "n div 64 div 64" 64] by linarith
qed simp_all

lemma utf8_bytes_1: "n < 0x80 \<Longrightarrow> utf8_bytes n = [n]"
  by (simp add: utf8_bytes_def)

lemma utf8_bytes_2: "l < 64 \<Longrightarrow> 2 \<le> j \<Longrightarrow> j < 32 \<Longrightarrow> utf8_bytes (64 * j + l) = [192 + j, 128 + l]"
  by (simp add: utf8_bytes_def)

lemma mod_64: "l < 64 \<Longrightarrow> (64 * q + l) mod 64 = (l :: nat)"
  by simp

lemma utf8_bytes_3:
  assumes "j < 64" "l < 64" "32 \<le> 64 * i + j" "i < 16"
  shows "utf8_bytes (4096 * i + 64 * j + l) = [224 + i, 128 + j, 128 + l]"
proof -
  have "(4096 * i + 64 * j + l) div 4096 = i" "(4096 * i + 64 * j + l) div 64 = 64 * i + j" using assms by simp_all
  moreover have "(64 * (64 * i + j) + l) mod 64 = l" using assms(2) by (rule mod_64)
  ultimately show ?thesis using assms by (simp add: utf8_bytes_def)
qed

lemma utf8_bytes_4:
  assumes "i < 64" "j < 64" "l < 64" "16 \<le> 64 * h + i"
  shows "utf8_bytes (262144 * h + 4096 * i + 64 * j + l) = [240 + h, 128 + i, 128 + j, 128 + l]"
proof -
  have "(262144 * h + 4096 * i + 64 * j + l) div 262144 = h" "(262144 * h + 4096 * i + 64 * j + l) div 4096 = 64 * h + i"
    "(262144 * h + 4096 * i + 64 * j + l) div 64 = 4096 * h + 64 * i + j" using assms by simp_all
  moreover have "(64 * (64 * h + i) + j) mod 64 = j" "(64 * (4096 * h + 64 * i + j) + l) mod 64 = l"
    using assms(2,3) by (simp_all only: mod_64)
  ultimately show ?thesis using assms by (simp add: utf8_bytes_def)
qed

lemma utf8_bytes_cases:
  assumes "code_point n"
  obtains "n < 0x80" "utf8_bytes n = [n]"
  | j l where "n = 64 * j + l" "l < 64" "2 \<le> j" "j < 32" "utf8_bytes n = [192 + j, 128 + l]"
  | i j l where "n = 4096 * i + 64 * j + l" "j < 64" "l < 64" "32 \<le> 64 * i + j" "i < 16" "i = 13 \<longrightarrow> j < 32"
      "utf8_bytes n = [224 + i, 128 + j, 128 + l]"
  | h i j l where "n = 262144 * h + 4096 * i + 64 * j + l" "i < 64" "j < 64" "l < 64" "16 \<le> 64 * h + i" "64 * h + i < 272"
      "utf8_bytes n = [240 + h, 128 + i, 128 + j, 128 + l]"
proof -
  obtain h i j l where n: "n = 262144 * h + 4096 * i + 64 * j + l" "i < 64" "j < 64" "l < 64" by (rule six_bits)
  consider "n < 0x80" | "0x80 \<le> n" "n < 0x800" | "0x800 \<le> n" "n < 0x10000" | "0x10000 \<le> n" by linarith
  then show thesis
  proof cases
    case 1
    then show thesis by (intro that(1)) (simp_all add: utf8_bytes_1)
  next
    case 2
    with n have z: "h = 0" "i = 0" by linarith+
    then have "n = 64 * j + l" "2 \<le> j" "j < 32" using 2 n by linarith+
    with n(4) utf8_bytes_2 show thesis by (intro that(2)) simp_all
  next
    case 3
    with n have z: "h = 0" by linarith
    then have m: "n = 4096 * i + 64 * j + l" "32 \<le> 64 * i + j" "i < 16" using 3 n by linarith+
    moreover have "i = 13 \<longrightarrow> j < 32" using assms m(1) n by (auto simp: code_point_def)
    ultimately show thesis using n utf8_bytes_3 by (intro that(3)) simp_all
  next
    case 4
    then have "16 \<le> 64 * h + i" using n by linarith
    moreover have "64 * h + i < 272" using assms n by (simp add: code_point_def)
    ultimately show thesis using n utf8_bytes_4 by (intro that(4)) simp_all
  qed
qed

abbreviation trail :: "nat \<Rightarrow> bool" where "trail \<equiv> IsUTF8TrailByte"

lemma trail_digit: "trail t \<Longrightarrow> \<exists>x < 64. t = 128 + x"
  by (rule exI [of _ "t - 128"]) (auto simp: IsUTF8TrailByte_def)

lemma lead_1: "b \<le> 0x7F \<Longrightarrow> byte_text (b # bs) \<longleftrightarrow> byte_text bs"
proof
  assume b: "b \<le> 0x7F"
  assume "byte_text bs"
  with b show "byte_text (b # bs)" unfolding byte_text_Cons
    by (intro exI [of _ b] exI [of _ bs]) (simp add: code_point_def utf8_bytes_1)
next
  assume b: "b \<le> 0x7F" and "byte_text (b # bs)"
  then obtain n r where n: "code_point n" "b # bs = utf8_bytes n @ r" "byte_text r" by (auto simp: byte_text_Cons)
  from n(1) show "byte_text bs" by (rule utf8_bytes_cases) (use n b in auto)
qed

lemma lead_bad: "0x7F < b \<and> b < 0xC2 \<or> 0xF4 < b \<Longrightarrow> \<not> byte_text (b # bs)"
proof
  assume b: "0x7F < b \<and> b < 0xC2 \<or> 0xF4 < b" and "byte_text (b # bs)"
  then obtain n r where n: "code_point n" "b # bs = utf8_bytes n @ r" by (auto simp: byte_text_Cons)
  from n(1) show False by (rule utf8_bytes_cases) (use n b in auto)
qed

lemma lead_2:
  assumes "0xC2 \<le> b" "b \<le> 0xDF"
  shows "byte_text (b # bs) \<longleftrightarrow> 1 \<le> length bs \<and> trail (bs ! 0) \<and> byte_text (drop 1 bs)"
proof
  assume "byte_text (b # bs)"
  then obtain n r where n: "code_point n" "b # bs = utf8_bytes n @ r" "byte_text r" by (auto simp: byte_text_Cons)
  from n(1) show "1 \<le> length bs \<and> trail (bs ! 0) \<and> byte_text (drop 1 bs)"
    by (rule utf8_bytes_cases) (use n assms in \<open>auto simp: IsUTF8TrailByte_def\<close>)
next
  assume a: "1 \<le> length bs \<and> trail (bs ! 0) \<and> byte_text (drop 1 bs)"
  then obtain x r where bs: "bs = (128 + x) # r" "x < 64" "byte_text r" by (cases bs) (auto dest: trail_digit)
  have "utf8_bytes (64 * (b - 192) + x) = [b, 128 + x]" using assms bs utf8_bytes_2 [of x "b - 192"] by simp
  moreover have "code_point (64 * (b - 192) + x)" using assms bs by (auto simp: code_point_def)
  ultimately show "byte_text (b # bs)" using bs by (auto simp: byte_text_Cons)
qed

lemma two_more: "2 \<le> length bs \<Longrightarrow> \<exists>x y r. bs = x # y # r"
  by (cases bs; cases "tl bs") auto

lemma three_more: "3 \<le> length bs \<Longrightarrow> \<exists>x y z r. bs = x # y # z # r"
  by (cases bs; cases "tl bs"; cases "tl (tl bs)") auto

lemma lead_3:
  assumes "0xE0 \<le> b" "b \<le> 0xEF"
  shows "byte_text (b # bs) \<longleftrightarrow> 2 \<le> length bs \<and> trail (bs ! 0) \<and> trail (bs ! 1) \<and>
    (b = 0xE0 \<longrightarrow> 0xA0 \<le> bs ! 0) \<and> (b = 0xED \<longrightarrow> bs ! 0 < 0xA0) \<and> byte_text (drop 2 bs)" (is "_ \<longleftrightarrow> ?R")
proof
  assume "byte_text (b # bs)"
  then obtain n r where n: "code_point n" "b # bs = utf8_bytes n @ r" "byte_text r" by (auto simp: byte_text_Cons)
  from n(1) show ?R by (rule utf8_bytes_cases) (use n assms in \<open>auto simp: IsUTF8TrailByte_def\<close>)
next
  assume a: ?R
  then obtain x y r where "bs = x # y # r" using two_more by blast
  with a obtain j l where bs: "bs = (128 + j) # (128 + l) # r" "j < 64" "l < 64" "byte_text r" by (auto dest!: trail_digit)
  let ?i = "b - 224"
  have c: "32 \<le> 64 * ?i + j" "?i = 13 \<longrightarrow> j < 32" "?i < 16" using a bs assms by (cases "b = 224"; auto)+
  then have "utf8_bytes (4096 * ?i + 64 * j + l) = [b, 128 + j, 128 + l]"
    using assms bs utf8_bytes_3 [of j l ?i] by simp
  moreover have "code_point (4096 * ?i + 64 * j + l)" 
  proof -
    consider "?i \<le> 12" | "?i = 13" | "14 \<le> ?i" by linarith
    then show ?thesis using c(2,3) bs(2,3) unfolding code_point_def by cases auto
  qed
  ultimately show "byte_text (b # bs)" using bs by (auto simp: byte_text_Cons)
qed

lemma lead_4:
  assumes "0xF0 \<le> b" "b \<le> 0xF4"
  shows "byte_text (b # bs) \<longleftrightarrow> 3 \<le> length bs \<and> trail (bs ! 0) \<and> trail (bs ! 1) \<and> trail (bs ! 2) \<and>
    (b = 0xF0 \<longrightarrow> 0x90 \<le> bs ! 0) \<and> (b = 0xF4 \<longrightarrow> bs ! 0 < 0x90) \<and> byte_text (drop 3 bs)" (is "_ \<longleftrightarrow> ?R")
proof
  assume "byte_text (b # bs)"
  then obtain n r where n: "code_point n" "b # bs = utf8_bytes n @ r" "byte_text r" by (auto simp: byte_text_Cons)
  from n(1) show ?R by (rule utf8_bytes_cases) (use n assms in \<open>auto simp: IsUTF8TrailByte_def\<close>)
next
  assume a: ?R
  then obtain x y z r where "bs = x # y # z # r" using three_more by blast
  with a obtain i j l where bs: "bs = (128 + i) # (128 + j) # (128 + l) # r" "i < 64" "j < 64" "l < 64" "byte_text r"
    by (auto dest!: trail_digit)
  let ?h = "b - 240"
  have c: "16 \<le> 64 * ?h + i" "64 * ?h + i < 272" using a bs assms by (cases "b = 240"; cases "b = 244"; auto)+
  then have "utf8_bytes (262144 * ?h + 4096 * i + 64 * j + l) = [b, 128 + i, 128 + j, 128 + l]"
    using assms bs utf8_bytes_4 [of i j l ?h] by simp
  moreover have "code_point (262144 * ?h + 4096 * i + 64 * j + l)" using c bs(2-4) unfolding code_point_def by linarith
  ultimately show "byte_text (b # bs)" using bs by (auto simp: byte_text_Cons)
qed

text \<open>The accesses of the loop.\<close>

lemma vat_bytes: "i < length bs \<Longrightarrow> vat (map char_of bs) i = Inr (char_of (bs ! i))"
  by (simp add: vat_def)

definition byte_list :: "nat list \<Rightarrow> bool" where
  "byte_list bs \<longleftrightarrow> (\<forall>b \<in> set bs. b < 256)"

lemma byte_list_nth: "byte_list bs \<Longrightarrow> i < length bs \<Longrightarrow> bs ! i mod 256 = bs ! i"
  by (simp add: byte_list_def)

lemma trail_at_eq: "byte_list bs \<Longrightarrow> i < length bs \<Longrightarrow> trail_at (map char_of bs) i = Inr (trail (bs ! i))"
  by (simp add: trail_at_def vat_bytes byte_list_nth)

lemma trails_eq:
  "byte_list bs \<Longrightarrow> \<forall>i \<in> set is. i < length bs \<Longrightarrow> trails (map char_of bs) is = Inr (\<forall>i \<in> set is. trail (bs ! i))"
proof -
  assume b: "byte_list bs" "\<forall>i \<in> set is. i < length bs"
  have "rfold (\<lambda>i b. andr b (trail_at (map char_of bs) i)) is c = Inr (c \<and> (\<forall>i \<in> set is. trail (bs ! i)))" for c
    using b(2) by (induction "is" arbitrary: c) (auto simp: andr_def trail_at_eq [OF b(1)])
  then show ?thesis by (simp add: trails_def)
qed

lemma second_at_eq:
  "byte_list bs \<Longrightarrow> i < length bs \<Longrightarrow> second_at (map char_of bs) i lead low high bound =
    Inr ((lead = low \<longrightarrow> bound \<le> bs ! i) \<and> (lead = high \<longrightarrow> bs ! i < bound))"
  by (simp add: second_at_def andr_def vat_bytes byte_list_nth)

lemma valid_utf8_loop_eq:
  assumes "byte_list bs" "len \<le> length bs" "i \<le> len"
  shows "valid_utf8_loop (map char_of bs) len i = Inr (byte_text (drop i (take len bs)))"
  using assms(3)
proof (induction "len - i" arbitrary: i rule: less_induct)
  case less
  define b where "b = bs ! i"
  define rest where "rest = drop (i + 1) (take len bs)"
  have IH: "valid_utf8_loop (map char_of bs) len (i + k) = Inr (byte_text (drop (k - 1) rest))" if "0 < k" "i + k \<le> len" for k
    using less.hyps [of "i + k"] that by (simp add: rest_def add.commute)
  show ?case
  proof (cases "i < len")
    case False
    then show ?thesis by (simp add: valid_utf8_loop.simps)
  next
    case True
    then have i: "i < length bs" using assms(2) by simp
    have d: "drop i (take len bs) = b # rest" using True assms(2) by (simp add: b_def rest_def Cons_nth_drop_Suc [symmetric])
    have len: "length rest = len - i - 1" using assms(2) by (simp add: rest_def)
    have at: "bs ! (i + k) = rest ! (k - 1)" if "0 < k" "i + k < len" for k
      using that assms(2) by (simp add: rest_def)
    have lead: "b mod 256 = b" unfolding b_def using assms(1) i by (rule byte_list_nth)
    note step = valid_utf8_loop.simps [of "map char_of bs" len i]
    note acc = trail_at_eq [OF assms(1)] trails_eq [OF assms(1)] second_at_eq [OF assms(1)]
    consider (1) "b \<le> 0x7F" | (bad) "0x7F < b \<and> b < 0xC2 \<or> 0xF4 < b" | (2) "0xC2 \<le> b" "b \<le> 0xDF" | (3) "0xE0 \<le> b" "b \<le> 0xEF"
      | (4) "0xF0 \<le> b" "b \<le> 0xF4" by linarith
    then have "valid_utf8_loop (map char_of bs) len i = Inr (byte_text (b # rest))"
    proof cases
      case 1
      then show ?thesis using True i lead IH [of 1] by (simp add: step vat_bytes b_def [symmetric] lead_1)
    next
      case bad
      then show ?thesis using True i lead lead_bad [of b rest] by (auto simp: step vat_bytes b_def [symmetric] andr_def)
    next
      case 2
      show ?thesis
      proof (cases "i + 2 \<le> len")
        case True
        then show ?thesis using 2 i \<open>i < len\<close> lead IH [of 2] assms(2) at [of 1]
          by (auto simp: step vat_bytes b_def [symmetric] andr_def acc lead_2 len)
      next
        case False
        then show ?thesis using 2 i \<open>i < len\<close> lead by (auto simp: step vat_bytes b_def [symmetric] andr_def lead_2 len)
      qed
    next
      case 3
      show ?thesis
      proof (cases "i + 3 \<le> len")
        case True
        then show ?thesis using 3 i \<open>i < len\<close> lead IH [of 3] assms(2) at [of 1] at [of 2]
          by (auto simp: step vat_bytes b_def [symmetric] andr_def acc lead_3 len)
      next
        case False
        then show ?thesis using 3 i \<open>i < len\<close> lead by (auto simp: step vat_bytes b_def [symmetric] andr_def lead_3 len)
      qed
    next
      case 4
      show ?thesis
      proof (cases "i + 4 \<le> len")
        case True
        then show ?thesis using 4 i \<open>i < len\<close> lead IH [of 4] assms(2) at [of 1] at [of 2] at [of 3]
          by (auto simp: step vat_bytes b_def [symmetric] andr_def acc lead_4 len)
      next
        case False
        then show ?thesis using 4 i \<open>i < len\<close> lead by (auto simp: step vat_bytes b_def [symmetric] andr_def lead_4 len)
      qed
    qed
    then show ?thesis by (simp only: d)
  qed
qed

text \<open>The encoding that the framework itself uses, which has no character for the code point 0.\<close>

definition encode_code_point :: "nat \<Rightarrow> string" where
  "encode_code_point n = (if n = 0 then [NUL] else CodePointToUtf8 (word_of_nat n))"

lemma char_of_0: "char_of (0 :: nat) = NUL"
  by code_simp

lemma encode_code_point_bytes: "code_point n \<Longrightarrow> encode_code_point n = map char_of (utf8_bytes n)"
  using CodePointToUtf8_bytes [of "word_of_nat n"] char_of_0
  by (auto simp: encode_code_point_def code_point_def unat_small utf8_bytes_1)

lemma IsValidUTF8_eq:
  assumes "len \<le> length s"
  shows "IsValidUTF8 s len = Inr (\<exists>cps. list_all code_point cps \<and> take len s = concat (map encode_code_point cps))"
proof -
  let ?bs = "map of_char s :: nat list"
  have s: "map char_of ?bs = s" by (simp add: comp_def)
  have bl: "byte_list ?bs" by (auto simp: byte_list_def)
  have enc: "concat (map encode_code_point cps) = map char_of (concat (map utf8_bytes cps))" if "list_all code_point cps" for cps
    using that by (induction cps) (simp_all add: encode_code_point_bytes)
  have bytes: "\<forall>b \<in> set (concat (map utf8_bytes cps)). b < 256" if "list_all code_point cps" for cps
    using that
  proof (induction cps)
    case (Cons n cps)
    have "\<forall>b \<in> set (utf8_bytes n). b < 256"
      using utf8_bytes_bounds [of n] Cons.prems by (cases "n = 0") (auto simp: code_point_def utf8_bytes_1)
    with Cons show ?case by auto
  qed simp
  have "IsValidUTF8 s len = Inr (byte_text (take len ?bs))"
    using valid_utf8_loop_eq [OF bl, of len 0] assms by (simp add: IsValidUTF8_def s)
  moreover have "byte_text (take len ?bs) \<longleftrightarrow> (\<exists>cps. list_all code_point cps \<and> take len s = concat (map encode_code_point cps))"
  proof
    assume "byte_text (take len ?bs)"
    then obtain cps where c: "list_all code_point cps" "take len ?bs = concat (map utf8_bytes cps)" by (auto simp: byte_text_def)
    have "take len s = map char_of (take len ?bs)" by (simp add: take_map comp_def)
    then show "\<exists>cps. list_all code_point cps \<and> take len s = concat (map encode_code_point cps)" using c enc by auto
  next
    assume "\<exists>cps. list_all code_point cps \<and> take len s = concat (map encode_code_point cps)"
    then obtain cps where c: "list_all code_point cps" "take len s = map char_of (concat (map utf8_bytes cps))" using enc by auto
    have "take len ?bs = map of_char (take len s)" by (simp add: take_map)
    also have "\<dots> = map (\<lambda>b. b mod 256) (concat (map utf8_bytes cps))" unfolding c(2) by simp
    also have "\<dots> = concat (map utf8_bytes cps)" using bytes [OF c(1)] by (intro map_idI mod_less) blast
    finally show "byte_text (take len ?bs)" using c(1) by (auto simp: byte_text_def)
  qed
  ultimately show ?thesis by simp
qed

end
