(* ===== verification/Gt_Report_Results.thy ===== *)
theory Gt_Report_Results
  imports Gt_Json_Tree Gt_Unique Gt_Print_Spec
begin

section \<open>Reports and printed values: the properties\<close>

subsection \<open>Texts without NUL characters\<close>










subsection \<open>Recording properties\<close>















subsection \<open>A small report\<close>












subsection \<open>The properties\<close>







text \<open>\<open>IsValidUTF8\<close> decides whether a text is UTF-8: it answers that it is exactly when the bytes are the concatenation
  of the encodings, in the form that \<open>CodePointToUtf8\<close> writes, of some code points below \<open>0x110000\<close> which are no
  surrogates.  So no overlong form passes, and no character that is cut off, and no text of the kind is refused.
\<close>

theorem valid_utf8_is_encoding:
  assumes "len \<le> length s"
  shows "IsValidUTF8 s len = Inr (\<exists>cps. list_all code_point cps \<and> take len s = concat (map encode_code_point cps))"
  by (rule IsValidUTF8_eq [OF assms])

text \<open>A two-byte form of \<open>/\<close> is none, and \<open>U+20AC\<close> is one.\<close>

lemma valid_utf8_is_encoding_witness:
  "\<not> (\<exists>cps. list_all code_point cps \<and> [CHR 0xC0, CHR 0xAF] = concat (map encode_code_point cps)) \<and>
   (\<exists>cps. list_all code_point cps \<and> [CHR 0xE2, CHR 0x82, CHR 0xAC] = concat (map encode_code_point cps))"
proof -
  have "IsValidUTF8 [CHR 0xC0, CHR 0xAF] 2 = Inr False" "IsValidUTF8 [CHR 0xE2, CHR 0x82, CHR 0xAC] 3 = Inr True" by code_simp+
  with valid_utf8_is_encoding [of 2 "[CHR 0xC0, CHR 0xAF]"] valid_utf8_is_encoding [of 3 "[CHR 0xE2, CHR 0x82, CHR 0xAC]"]
  show ?thesis by simp
qed

text \<open>C32. A printed string is a literal that reads back.  For every array of characters of any of the seven types,
  \<open>PrintCharsAsStringTo\<close> writes one literal, or several that are joined, which the lexical rules of C++ read as the
  same characters, unless some NUL character is followed by an octal digit: then, and only then, the escape \<open>\0\<close> takes
  the digit in and the text reads as something else.
\<close>

theorem printed_string_reads_back:
  assumes "\<forall>c \<in> set cs. char_value ty c" "cs @ rest \<noteq> []"
  shows "\<exists>t f xs. PrintCharsAsStringTo ty (cs @ rest) (length cs) = Inr (t, f) \<and>
    read_literal (GetCharWidthPrefix ty) t = Some xs \<and>
    (xs = map (ToChar32 ty) cs \<longleftrightarrow> nul_safe (map (ToChar32 ty) cs))"
  by (rule printed_string_reads [OF assms])

text \<open>The bytes 0 and 49 are printed as one escape; a byte above 127 before a digit splits the literal.\<close>

lemma printed_string_reads_back_witness:
  "(\<exists>t f xs. PrintCharsAsStringTo Char_t [0, 49] 2 = Inr (t, f) \<and> read_literal [] t = Some xs \<and> xs \<noteq> [0, 49]) \<and>
   (\<exists>t f. PrintCharsAsStringTo UChar_t [0, 200, 49] 3 = Inr (t, f) \<and> read_literal [] t = Some [0, 200, 49])"
proof -
  have v: "\<forall>c \<in> set [0, 49]. char_value Char_t c" "\<forall>c \<in> set [0, 200, 49]. char_value UChar_t c" by code_simp+
  have u: "map (ToChar32 Char_t) [0, 49] = [0, 49]" "map (ToChar32 UChar_t) [0, 200, 49] = [0, 200, 49]" by code_simp+
  have n: "length [0 :: int, 49] = 2" "length [0 :: int, 200, 49] = 3" "\<not> nul_safe [0, 49]" "nul_safe [0, 200, 49]"
    "GetCharWidthPrefix Char_t = []" "GetCharWidthPrefix UChar_t = []" "[0 :: int, 49] \<noteq> []" "[0 :: int, 200, 49] \<noteq> []" by simp_all
  show ?thesis
    using printed_string_reads_back [OF v(1), of "[]"] printed_string_reads_back [OF v(2), of "[]"] n(3,4)
    unfolding u n(1,2,5,6) append_Nil2 using n(7,8) by metis
qed

end
