(* ===== verification/Gt_Float.thy ===== *)
theory Gt_Float
  imports Gt_Base
begin

section \<open>Comparing floating point numbers\<close>

text \<open>
  The class template \<open>FloatingPoint\<close> of \<open>gtest-internal.h\<close>.  A number is its bits, a word with the width of the type;
  \<open>f\<close> is the number of the bits of the fraction, 23 for a \<open>float\<close> and 52 for a \<open>double\<close>.
\<close>

unbundle bit_operations_syntax

definition kExponentBitCount :: "'w::len itself \<Rightarrow> nat \<Rightarrow> nat" where
  "kExponentBitCount w f = LENGTH('w) - 1 - f"

definition kSignBitMask :: "'w::len word" where
  "kSignBitMask = push_bit (LENGTH('w) - 1) 1"

definition kFractionBitMask :: "nat \<Rightarrow> 'w::len word" where
  "kFractionBitMask f = drop_bit (kExponentBitCount TYPE('w) f + 1) (NOT 0)"

definition kExponentBitMask :: "nat \<Rightarrow> 'w::len word" where
  "kExponentBitMask f = NOT (kSignBitMask OR kFractionBitMask f)"

definition kMaxUlps :: "'w::len word" where "kMaxUlps = 4"

definition Infinity :: "nat \<Rightarrow> 'w::len word" where "Infinity f = kExponentBitMask f"

definition exponent_bits :: "nat \<Rightarrow> 'w::len word \<Rightarrow> 'w word" where
  "exponent_bits f bits = (kExponentBitMask f AND bits)"

definition fraction_bits :: "nat \<Rightarrow> 'w::len word \<Rightarrow> 'w word" where
  "fraction_bits f bits = (kFractionBitMask f AND bits)"

definition sign_bit :: "'w::len word \<Rightarrow> 'w word" where
  "sign_bit bits = (kSignBitMask AND bits)"

definition is_nan :: "nat \<Rightarrow> 'w::len word \<Rightarrow> bool" where
  "is_nan f bits \<longleftrightarrow> exponent_bits f bits = kExponentBitMask f \<and> fraction_bits f bits \<noteq> 0"

definition SignAndMagnitudeToBiased :: "'w::len word \<Rightarrow> 'w word" where
  "SignAndMagnitudeToBiased sam = (if kSignBitMask AND sam \<noteq> 0 then NOT sam + 1 else kSignBitMask OR sam)"

definition DistanceBetweenSignAndMagnitudeNumbers :: "'w::len word \<Rightarrow> 'w word \<Rightarrow> 'w word" where
  "DistanceBetweenSignAndMagnitudeNumbers sam1 sam2 =
     (let biased1 = SignAndMagnitudeToBiased sam1; biased2 = SignAndMagnitudeToBiased sam2
      in if biased1 \<ge> biased2 then biased1 - biased2 else biased2 - biased1)"

definition AlmostEquals :: "nat \<Rightarrow> 'w::len word \<Rightarrow> 'w word \<Rightarrow> bool" where
  "AlmostEquals f a b \<longleftrightarrow>
     (if is_nan f a \<or> is_nan f b then False else DistanceBetweenSignAndMagnitudeNumbers a b \<le> kMaxUlps)"

subsection \<open>The values\<close>

text \<open>
  What the bits denote, in units of the smallest positive number.  The infinities get the value that follows
  the largest number.
\<close>

definition magnitude_value :: "nat \<Rightarrow> nat \<Rightarrow> nat" where
  "magnitude_value f m = (let e = m div 2 ^ f; d = m mod 2 ^ f in if e = 0 then d else (2 ^ f + d) * 2 ^ (e - 1))"

definition sam_int :: "'w::len word \<Rightarrow> int" where
  "sam_int b = (if uint b < 2 ^ (LENGTH('w) - 1) then uint b else 2 ^ (LENGTH('w) - 1) - uint b)"

definition signed_value :: "nat \<Rightarrow> int \<Rightarrow> int" where
  "signed_value f s = sgn s * int (magnitude_value f (nat \<bar>s\<bar>))"

definition fp_value :: "nat \<Rightarrow> 'w::len word \<Rightarrow> int" where
  "fp_value f b = signed_value f (sam_int b)"

lemma magnitude_value_Suc: "magnitude_value f m < magnitude_value f (Suc m)"
proof -
  let ?e = "m div 2 ^ f" and ?d = "m mod 2 ^ f"
  have m: "m = 2 ^ f * ?e + ?d" by simp
  have d: "?d < 2 ^ f" by simp
  show ?thesis
  proof (cases "Suc ?d < 2 ^ f")
    case True
    then have "Suc m div 2 ^ f = ?e" "Suc m mod 2 ^ f = Suc ?d" by (simp_all add: mod_Suc div_Suc)
    then show ?thesis by (simp add: magnitude_value_def Let_def)
  next
    case False
    with d have d: "Suc ?d = 2 ^ f" by linarith
    then have s: "Suc m div 2 ^ f = Suc ?e" "Suc m mod 2 ^ f = 0" by (simp_all add: mod_Suc div_Suc)
    show ?thesis
    proof (cases "?e = 0")
      case True
      with s d show ?thesis by (simp add: magnitude_value_def Let_def)
    next
      case False
      then obtain k where k: "?e = Suc k" using not0_implies_Suc by blast
      have "(2 ^ f + ?d) * 2 ^ k < (2 ^ f * 2) * (2 :: nat) ^ k" using d by simp
      with s k show ?thesis by (simp add: magnitude_value_def Let_def)
    qed
  qed
qed

lemma magnitude_value_mono: "strict_mono (magnitude_value f)"
  by (simp add: strict_mono_Suc_iff magnitude_value_Suc)

lemma magnitude_value_0 [simp]: "magnitude_value f 0 = 0"
  by (simp add: magnitude_value_def)

lemma signed_value_mono: "strict_mono (signed_value f)"
proof (rule strict_monoI)
  fix s t :: int
  assume st: "s < t"
  have m: "magnitude_value f m < magnitude_value f n \<longleftrightarrow> m < n" for m n
    using magnitude_value_mono by (rule strict_mono_less)
  have p: "0 < magnitude_value f n \<longleftrightarrow> 0 < n" for n using m [of 0 n] by simp
  consider "0 \<le> s" | "s < 0" "0 \<le> t" | "t < 0" by linarith
  then show "signed_value f s < signed_value f t"
  proof cases
    case 1
    with st m [of "nat s" "nat t"] p [of "nat t"] show ?thesis by (cases "s = 0") (auto simp: signed_value_def)
  next
    case 2
    with p [of "nat (- s)"] have "signed_value f s < 0" by (simp add: signed_value_def)
    moreover have "0 \<le> signed_value f t" using 2 by (simp add: signed_value_def sgn_if)
    ultimately show ?thesis by simp
  next
    case 3
    with st m [of "nat (- t)" "nat (- s)"] show ?thesis by (simp add: signed_value_def)
  qed
qed

subsection \<open>The masks\<close>

lemma width_split: "(2 :: int) ^ LENGTH('w::len) = 2 * 2 ^ (LENGTH('w) - 1)"
  by (metis One_nat_def Suc_diff_1 len_gt_0 power_Suc)

lemma uint_width: "0 \<le> uint (b :: 'w::len word)" "uint b < 2 * 2 ^ (LENGTH('w) - 1)"
  using uint_bounded [of b] unfolding width_split by simp_all

lemma bit_sign_mask: "bit (kSignBitMask :: 'w::len word) n \<longleftrightarrow> n = LENGTH('w) - 1"
  unfolding kSignBitMask_def by (auto simp: bit_exp_iff possible_bit_word)

lemma sign_mask_int: "uint (kSignBitMask :: 'w::len word) = 2 ^ (LENGTH('w) - 1)"
proof -
  have "(2 :: 'w word) ^ (LENGTH('w) - 1) \<noteq> 0"
    using bit_sign_mask [where 'w = 'w, of "LENGTH('w) - 1"] by (auto simp: kSignBitMask_def)
  then have "0 < (2 :: 'w word) ^ (LENGTH('w) - 1)" by (simp only: word_neq_0_conv)
  from uint_2p [OF this] show ?thesis by (simp add: kSignBitMask_def)
qed

lemma last_bit: "bit (b :: 'w::len word) (LENGTH('w) - 1) \<longleftrightarrow> 2 ^ (LENGTH('w) - 1) \<le> uint b"
proof -
  let ?h = "(2 :: int) ^ (LENGTH('w) - 1)"
  have "bit b (LENGTH('w) - 1) \<longleftrightarrow> odd (uint b div ?h)"
    by (simp flip: bit_iff_odd add: bit_unsigned_iff)
  also have "\<dots> \<longleftrightarrow> ?h \<le> uint b"
  proof (cases "?h \<le> uint b")
    case True
    then have "uint b div ?h = 1" using uint_width(2) [of b] by (intro int_div_pos_eq [where r = "uint b - ?h"]) simp_all
    with True show ?thesis by simp
  qed (use uint_width(1) [of b] in simp)
  finally show ?thesis .
qed

lemma sign_set: "kSignBitMask AND (b :: 'w::len word) \<noteq> 0 \<longleftrightarrow> 2 ^ (LENGTH('w) - 1) \<le> uint b"
proof -
  have "bit (kSignBitMask AND b) n \<longleftrightarrow> n = LENGTH('w) - 1 \<and> bit b (LENGTH('w) - 1)" for n
    using bit_sign_mask by (auto simp: bit_and_iff)
  then have "kSignBitMask AND b \<noteq> 0 \<longleftrightarrow> bit b (LENGTH('w) - 1)"
    unfolding bit_eq_iff [of "kSignBitMask AND b" 0] by (metis bit_0_eq bot_apply bot_bool_def impossible_bit)
  then show ?thesis by (simp only: last_bit)
qed

subsection \<open>Distances\<close>

lemma biased_int: "uint (SignAndMagnitudeToBiased (b :: 'w::len word)) = sam_int b + 2 ^ (LENGTH('w) - 1)"
proof -
  let ?h = "(2 :: int) ^ (LENGTH('w) - 1)"
  note w = uint_width [of b] width_split [where 'w = 'w]
  have h: "0 < ?h" by simp
  show ?thesis
  proof (cases "?h \<le> uint b")
    case True
    then have "SignAndMagnitudeToBiased b = - b" using sign_set [of b] by (simp add: SignAndMagnitudeToBiased_def minus_eq_not_plus_1)
    then have "uint (SignAndMagnitudeToBiased b) = (- uint b) mod (2 * ?h)" using w(3) by (simp add: uint_word_ariths)
    also have "\<dots> = (2 * ?h + - uint b) mod (2 * ?h)" by (rule mod_add_self1 [symmetric])
    also have "\<dots> = 2 * ?h - uint b" using True w(1,2) h by (subst mod_pos_pos_trivial) simp_all
    finally show ?thesis using True by (simp add: sam_int_def)
  next
    case False
    then have z: "kSignBitMask AND b = 0" using sign_set [of b] by blast
    have "kSignBitMask OR b = kSignBitMask + b" using word_plus_and_or [of kSignBitMask b] z by simp
    then have "uint (SignAndMagnitudeToBiased b) = (?h + uint b) mod (2 * ?h)"
      using z w(3) sign_mask_int [where 'w = 'w] by (simp add: SignAndMagnitudeToBiased_def uint_word_ariths)
    also have "\<dots> = ?h + uint b" using False w by (intro mod_pos_pos_trivial) simp_all
    finally show ?thesis using False by (simp add: sam_int_def)
  qed
qed

lemma distance_int: "uint (DistanceBetweenSignAndMagnitudeNumbers a b) = \<bar>sam_int a - sam_int b\<bar>"
proof -
  note i = biased_int [of a] biased_int [of b]
  show ?thesis
    unfolding DistanceBetweenSignAndMagnitudeNumbers_def Let_def word_le_def
    using i by (auto simp: uint_sub_if')
qed

lemma sam_int_range: "\<bar>sam_int (b :: 'w::len word)\<bar> < 2 ^ (LENGTH('w) - 1)"
  using uint_width [of b] by (auto simp: sam_int_def)

lemma sam_int_take: "\<bar>sam_int (b :: 'w::len word)\<bar> = take_bit (LENGTH('w) - 1) (uint b)"
proof -
  let ?h = "(2 :: int) ^ (LENGTH('w) - 1)"
  have "uint b mod ?h = (if uint b < ?h then uint b else uint b - ?h)"
  proof (cases "uint b < ?h")
    case False
    have "uint b mod ?h = (uint b - ?h) mod ?h" by (simp add: mod_diff_eq [symmetric])
    also have "\<dots> = uint b - ?h" using False uint_width [of b] by (intro mod_pos_pos_trivial) simp_all
    finally show ?thesis using False by simp
  qed (use uint_width(1) [of b] in simp)
  then show ?thesis using uint_width [of b] by (auto simp: sam_int_def take_bit_eq_mod)
qed

lemma bit_fraction_mask: "f < LENGTH('w) - 1 \<Longrightarrow> bit (kFractionBitMask f :: 'w::len word) n \<longleftrightarrow> n < f"
  unfolding kFractionBitMask_def kExponentBitCount_def by (auto simp: bit_drop_bit_eq bit_not_iff bit_mask_iff possible_bit_word)

lemma bit_exponent_mask: "f < LENGTH('w) - 1 \<Longrightarrow> bit (kExponentBitMask f :: 'w::len word) n \<longleftrightarrow> f \<le> n \<and> n < LENGTH('w) - 1"
  unfolding kExponentBitMask_def by (auto simp: bit_not_iff bit_and_iff bit_or_iff bit_sign_mask bit_fraction_mask possible_bit_word)

lemma is_nan_bits:
  assumes "f < LENGTH('w) - 1"
  shows "is_nan f (b :: 'w::len word) \<longleftrightarrow> (\<forall>n. f \<le> n \<and> n < LENGTH('w) - 1 \<longrightarrow> bit b n) \<and> (\<exists>n < f. bit b n)"
proof -
  have "exponent_bits f b = kExponentBitMask f \<longleftrightarrow> (\<forall>n. f \<le> n \<and> n < LENGTH('w) - 1 \<longrightarrow> bit b n)"
    unfolding exponent_bits_def bit_eq_iff [of "kExponentBitMask f AND b"]
    by (simp add: bit_and_iff bit_exponent_mask [OF assms] possible_bit_word) (metis diff_le_self order_less_le_trans)
  moreover have "fraction_bits f b \<noteq> 0 \<longleftrightarrow> (\<exists>n < f. bit b n)"
    unfolding fraction_bits_def bit_eq_iff [of "kFractionBitMask f AND b"]
    using assms by (auto simp: bit_and_iff bit_fraction_mask [OF assms] possible_bit_word intro: bit_imp_le_length)
  ultimately show ?thesis by (simp add: is_nan_def)
qed

lemma is_nan_iff:
  assumes "f < LENGTH('w) - 1"
  shows "is_nan f (b :: 'w::len word) \<longleftrightarrow> 2 ^ (LENGTH('w) - 1) - 2 ^ f < \<bar>sam_int b\<bar>"
proof -
  let ?l = "LENGTH('w) - 1" and ?m = "\<bar>sam_int b\<bar>"
  have b: "bit ?m n \<longleftrightarrow> n < ?l \<and> bit b n" for n by (simp add: sam_int_take bit_take_bit_iff bit_unsigned_iff)
  have e: "(\<forall>n. f \<le> n \<and> n < ?l \<longrightarrow> bit b n) \<longleftrightarrow> ?m div 2 ^ f = 2 ^ (?l - f) - 1"
  proof -
    have "?m div 2 ^ f = 2 ^ (?l - f) - 1 \<longleftrightarrow> drop_bit f ?m = mask (?l - f)"
      by (simp add: drop_bit_eq_div mask_eq_exp_minus_1)
    also have "\<dots> \<longleftrightarrow> (\<forall>n. bit (drop_bit f ?m) n \<longleftrightarrow> bit (mask (?l - f) :: int) n)"
      unfolding bit_eq_iff [of "drop_bit f ?m"] by simp
    also have "\<dots> \<longleftrightarrow> (\<forall>n. n < ?l - f \<longrightarrow> bit b (f + n))" using b by (auto simp: bit_drop_bit_eq bit_mask_iff)
    also have "\<dots> \<longleftrightarrow> (\<forall>n. f \<le> n \<and> n < ?l \<longrightarrow> bit b n)"
    proof (intro iffI allI impI)
      fix n
      assume a: "\<forall>n. n < ?l - f \<longrightarrow> bit b (f + n)" and n: "f \<le> n \<and> n < ?l"
      then have "n - f < ?l - f" by linarith
      with a have "bit b (f + (n - f))" by blast
      with n show "bit b n" by simp
    next
      fix n
      assume "\<forall>n. f \<le> n \<and> n < ?l \<longrightarrow> bit b n" "n < ?l - f"
      then show "bit b (f + n)" by simp
    qed
    finally show ?thesis by simp
  qed
  have d: "(\<exists>n < f. bit b n) \<longleftrightarrow> ?m mod 2 ^ f \<noteq> 0"
  proof -
    have "?m mod 2 ^ f = 0 \<longleftrightarrow> (\<forall>n. \<not> bit (take_bit f ?m) n)" unfolding take_bit_eq_mod by (simp add: bit_eq_iff)
    also have "\<dots> \<longleftrightarrow> (\<forall>n < f. \<not> bit b n)" using b assms by (auto simp: bit_take_bit_iff)
    finally show ?thesis by auto
  qed
  have p: "(2 :: int) ^ ?l = 2 ^ (?l - f) * 2 ^ f" using assms by (simp flip: power_add)
  let ?q = "?m div 2 ^ f" and ?r = "?m mod 2 ^ f"
  have m: "?m = ?q * 2 ^ f + ?r" "0 \<le> ?r" "?r < 2 ^ f" by (simp_all only: div_mult_mod_eq) simp_all
  have "?q * 2 ^ f < 2 ^ (?l - f) * 2 ^ f" using sam_int_range [of b] m(1,2) p by linarith
  then have q: "?q < 2 ^ (?l - f)" by simp
  have "2 ^ ?l - 2 ^ f < ?m \<longleftrightarrow> ?q = 2 ^ (?l - f) - 1 \<and> ?r \<noteq> 0"
  proof
    assume g: "2 ^ ?l - 2 ^ f < ?m"
    have "\<not> ?q + 2 \<le> 2 ^ (?l - f)"
    proof
      assume "?q + 2 \<le> 2 ^ (?l - f)"
      then have "(?q + 2) * 2 ^ f \<le> 2 ^ (?l - f) * 2 ^ f" by (intro mult_right_mono) simp_all
      with g m p show False unfolding distrib_right by linarith
    qed
    with q have "?q = 2 ^ (?l - f) - 1" by linarith
    moreover from this have "?q * 2 ^ f = 2 ^ ?l - 2 ^ f" using p by (simp add: left_diff_distrib)
    ultimately show "?q = 2 ^ (?l - f) - 1 \<and> ?r \<noteq> 0" using g m by linarith
  next
    assume "?q = 2 ^ (?l - f) - 1 \<and> ?r \<noteq> 0"
    then have "?q * 2 ^ f = 2 ^ ?l - 2 ^ f" "0 < ?r" using p m(2) by (simp_all only: left_diff_distrib mult_1 less_le) simp
    with m(1) show "2 ^ ?l - 2 ^ f < ?m" by linarith
  qed
  then show ?thesis by (simp only: is_nan_bits [OF assms] e d)
qed

subsection \<open>Steps between neighbours\<close>

lemma sam_int_onto:
  assumes "\<bar>s\<bar> < 2 ^ (LENGTH('w::len) - 1)"
  shows "\<exists>x :: 'w word. sam_int x = s"
proof (cases "0 \<le> s")
  case True
  then have "s < 2 ^ LENGTH('w)" "s < 2 ^ (LENGTH('w) - 1)" using assms width_split [where 'w = 'w] by auto
  then have "sam_int (word_of_int s :: 'w word) = s" using True by (simp add: sam_int_def unsigned_of_int take_bit_eq_mod)
  then show ?thesis ..
next
  case False
  let ?u = "2 ^ (LENGTH('w) - 1) - s"
  have "0 \<le> ?u" "?u < 2 ^ LENGTH('w)" using False assms width_split [where 'w = 'w] by auto
  then have "uint (word_of_int ?u :: 'w word) = ?u" unfolding unsigned_of_int take_bit_eq_mod by (simp only: mod_pos_pos_trivial of_int_eq_id id_apply)
  then have "sam_int (word_of_int ?u :: 'w word) = s" using False by (simp add: sam_int_def)
  then show ?thesis ..
qed

definition between :: "nat \<Rightarrow> 'w::len word \<Rightarrow> 'w word \<Rightarrow> int set" where
  "between f a b = {v. \<exists>x :: 'w word. \<not> is_nan f x \<and> v = fp_value f x \<and>
     min (fp_value f a) (fp_value f b) < v \<and> v \<le> max (fp_value f a) (fp_value f b)}"

lemma card_between:
  fixes a b :: "'w::len word"
  assumes "f < LENGTH('w) - 1" "\<not> is_nan f a" "\<not> is_nan f b"
  shows "int (card (between f a b)) = \<bar>sam_int a - sam_int b\<bar>"
proof -
  note l = strict_mono_less [OF signed_value_mono] strict_mono_less_eq [OF signed_value_mono]
  have mm: "min (signed_value f s) (signed_value f t) = signed_value f (min s t)"
    "max (signed_value f s) (signed_value f t) = signed_value f (max s t)" for s t
    by (auto simp: min_def max_def l)
  let ?lo = "min (sam_int a) (sam_int b)" and ?hi = "max (sam_int a) (sam_int b)"
  let ?m = "2 ^ (LENGTH('w) - 1) - 2 ^ f :: int"
  have "between f a b = signed_value f ` {?lo<..?hi}"
  proof (intro equalityI subsetI)
    fix v
    assume "v \<in> signed_value f ` {?lo<..?hi}"
    then obtain s where s: "v = signed_value f s" "?lo < s" "s \<le> ?hi" by auto
    have m: "\<bar>sam_int a\<bar> \<le> ?m" "\<bar>sam_int b\<bar> \<le> ?m" using assms is_nan_iff [OF assms(1)] by (auto simp: not_less)
    then have "\<bar>s\<bar> \<le> ?m" using s(2,3) by linarith
    moreover from this have "\<bar>s\<bar> < 2 ^ (LENGTH('w) - 1)" by (smt (verit) zero_less_power)
    then obtain x :: "'w word" where "sam_int x = s" using sam_int_onto by blast
    ultimately have "\<not> is_nan f x" "fp_value f x = v" using is_nan_iff [OF assms(1), of x] s(1) by (simp_all add: fp_value_def)
    with s show "v \<in> between f a b" unfolding between_def fp_value_def mm by (auto simp: l)
  qed (auto simp: between_def fp_value_def mm l)
  moreover have "inj_on (signed_value f) A" for A
    using strict_mono_imp_inj_on [OF signed_value_mono] by (blast intro: inj_on_subset)
  ultimately have "card (between f a b) = card {?lo<..?hi}" by (simp add: card_image)
  then show ?thesis by auto
qed

lemma AlmostEquals_iff:
  fixes a b :: "'w::len word"
  assumes "f < LENGTH('w) - 1" "2 < LENGTH('w)"
  shows "AlmostEquals f a b \<longleftrightarrow> \<not> is_nan f a \<and> \<not> is_nan f b \<and> card (between f a b) \<le> 4"
proof (cases "is_nan f a \<or> is_nan f b")
  case False
  have "(4 :: nat) < 2 ^ LENGTH('w)" using power_strict_increasing [OF assms(2), of "2 :: nat"] by simp
  then have "uint (kMaxUlps :: 'w word) = 4" unfolding kMaxUlps_def unsigned_numeral take_bit_eq_mod
    by (simp only: mod_less of_nat_numeral)
  moreover have "int (card (between f a b)) = \<bar>sam_int a - sam_int b\<bar>" using False by (intro card_between assms) simp_all
  ultimately have "DistanceBetweenSignAndMagnitudeNumbers a b \<le> kMaxUlps \<longleftrightarrow> card (between f a b) \<le> 4"
    unfolding word_le_def distance_int by linarith
  with False show ?thesis by (simp add: AlmostEquals_def)
qed (auto simp: AlmostEquals_def)

end
