(* ===== verification/Gt_Assert.thy ===== *)
theory Gt_Assert
  imports Gt_Report Gt_Edit_Spec Gt_Utf8 Gt_Print_Spec Gt_Literal_Spec Gt_Float "HOL-Library.Sublist"
begin

section \<open>Assertions\<close>

text \<open>
  The helpers behind the assertions on strings and floating point numbers, of \<open>gtest.cc\<close> and \<open>gtest.h\<close>, and the class
  \<open>AssertionResult\<close>.
\<close>

subsection \<open>Messages and results\<close>

record assertion_result =
  ar_success :: bool
  ar_message :: "string option"

definition AssertionSuccess :: assertion_result where "AssertionSuccess = \<lparr>ar_success = True, ar_message = None\<rparr>"

definition AssertionFailure :: assertion_result where "AssertionFailure = \<lparr>ar_success = False, ar_message = None\<rparr>"

definition message :: "assertion_result \<Rightarrow> string" where
  "message r = (case ar_message r of None \<Rightarrow> [] | Some m \<Rightarrow> cstr m)"

definition AppendMessage :: "string \<Rightarrow> assertion_result \<Rightarrow> assertion_result" where
  "AppendMessage a_message r =
     r\<lparr>ar_message := Some ((case ar_message r of None \<Rightarrow> [] | Some m \<Rightarrow> m) @ cstr (StringStreamToString a_message))\<rparr>"

text \<open>A chain of \<open><<\<close>, with the texts that the values have in a \<open>Message\<close>.\<close>

definition streamed :: "string list \<Rightarrow> assertion_result \<Rightarrow> assertion_result" where
  "streamed texts r = fold AppendMessage texts r"

definition negation :: "assertion_result \<Rightarrow> assertion_result" where
  "negation r =
     (let n = \<lparr>ar_success = \<not> ar_success r, ar_message = None\<rparr>
      in case ar_message r of None \<Rightarrow> n | Some m \<Rightarrow> AppendMessage m n)"

definition shown_cstr :: "string option \<Rightarrow> string" where
  "shown_cstr s = (case s of None \<Rightarrow> ''(null)'' | Some t \<Rightarrow> t)"

text \<open>A \<open>std::wstring\<close> in a message; the data of a string end with a terminator.\<close>

function StreamWideCharsToMessage :: "bool \<Rightarrow> 32 word list \<Rightarrow> stop + string" where
  "StreamWideCharsToMessage wide16 [] = Inr []"
| "StreamWideCharsToMessage wide16 (c # cs) =
     (if c \<noteq> 0
      then bindr (WideStringToUtf8 wide16 (c # cs @ [0]) (to_int (Suc (length cs)))) (\<lambda>t.
           bindr (StreamWideCharsToMessage wide16 (dropWhile (\<lambda>d. d \<noteq> 0) cs)) (\<lambda>u. Inr (t @ u)))
      else bindr (StreamWideCharsToMessage wide16 cs) (\<lambda>u. Inr (NUL # u)))"
  by pat_completeness auto
termination
  by (relation "measure (\<lambda>(w, cs). length cs)") (auto simp: le_imp_less_Suc length_dropWhile_le)

text \<open>\<open>PrintToString\<close> of a C string.\<close>

definition PrintToString_cstr :: "bool \<Rightarrow> string option \<Rightarrow> stop + string" where
  "PrintToString_cstr print_utf8 s = (case s of None \<Rightarrow> Inr ''NULL'' | Some str \<Rightarrow> PrintStringTo print_utf8 str)"

definition PrintToString_wcstr :: "32 word list option \<Rightarrow> stop + string" where
  "PrintToString_wcstr s = (case s of None \<Rightarrow> Inr ''NULL'' | Some str \<Rightarrow> PrintBasicStringTo WChar_t (map sint str))"

subsection \<open>Comparisons\<close>

definition CmpHelperOpFailure :: "string \<Rightarrow> string \<Rightarrow> string \<Rightarrow> string \<Rightarrow> string \<Rightarrow> assertion_result" where
  "CmpHelperOpFailure expr1 expr2 val1 val2 op =
     streamed [''Expected: ('', expr1, '') '', op, '' ('', expr2, ''), actual: '', val1, '' vs '', val2] AssertionFailure"

text \<open>The helpers that the macro \<open>GTEST_IMPL_CMP_HELPER_\<close> defines; the operator and the formatting are those of the types.\<close>

definition CmpHelper :: "('a \<Rightarrow> 'b \<Rightarrow> bool) \<Rightarrow> string \<Rightarrow> ('a \<Rightarrow> 'b \<Rightarrow> string \<times> string) \<Rightarrow> string \<Rightarrow> string \<Rightarrow> 'a \<Rightarrow> 'b \<Rightarrow> assertion_result" where
  "CmpHelper op op_text format expr1 expr2 val1 val2 =
     (if op val1 val2 then AssertionSuccess
      else CmpHelperOpFailure expr1 expr2 (fst (format val1 val2)) (snd (format val1 val2)) op_text)"

definition equality_failure :: "'c arith \<Rightarrow> string \<Rightarrow> string \<Rightarrow> string \<Rightarrow> string \<Rightarrow> bool \<Rightarrow> stop + assertion_result" where
  "equality_failure ar e1 e2 v1 v2 ignoring_case =
     bindr (EqFailure ar e1 e2 v1 v2 ignoring_case) (\<lambda>msg. Inr (streamed [msg] AssertionFailure))"

definition CmpHelperSTREQ :: "'c arith \<Rightarrow> bool \<Rightarrow> string \<Rightarrow> string \<Rightarrow> string option \<Rightarrow> string option \<Rightarrow> stop + assertion_result" where
  "CmpHelperSTREQ ar print_utf8 lhs_expression rhs_expression lhs rhs =
     (if CStringEquals lhs rhs then Inr AssertionSuccess
      else bindr (PrintToString_cstr print_utf8 lhs) (\<lambda>l. bindr (PrintToString_cstr print_utf8 rhs) (\<lambda>r.
           equality_failure ar lhs_expression rhs_expression l r False)))"

definition CmpHelperSTRCASEEQ :: "'c arith \<Rightarrow> bool \<Rightarrow> string \<Rightarrow> string \<Rightarrow> string option \<Rightarrow> string option \<Rightarrow> stop + assertion_result" where
  "CmpHelperSTRCASEEQ ar print_utf8 lhs_expression rhs_expression lhs rhs =
     (if CaseInsensitiveCStringEquals lhs rhs then Inr AssertionSuccess
      else bindr (PrintToString_cstr print_utf8 lhs) (\<lambda>l. bindr (PrintToString_cstr print_utf8 rhs) (\<lambda>r.
           equality_failure ar lhs_expression rhs_expression l r True)))"

definition CmpHelperSTRNE :: "string \<Rightarrow> string \<Rightarrow> string option \<Rightarrow> string option \<Rightarrow> assertion_result" where
  "CmpHelperSTRNE s1_expression s2_expression s1 s2 =
     (if \<not> CStringEquals s1 s2 then AssertionSuccess
      else streamed [''Expected: ('', s1_expression, '') != ('', s2_expression, ''), actual: '' @ [CHR 0x22], shown_cstr s1,
             [CHR 0x22] @ '' vs '' @ [CHR 0x22], shown_cstr s2, [CHR 0x22]] AssertionFailure)"

definition CmpHelperSTRCASENE :: "string \<Rightarrow> string \<Rightarrow> string option \<Rightarrow> string option \<Rightarrow> assertion_result" where
  "CmpHelperSTRCASENE s1_expression s2_expression s1 s2 =
     (if \<not> CaseInsensitiveCStringEquals s1 s2 then AssertionSuccess
      else streamed [''Expected: ('', s1_expression, '') != ('', s2_expression, '') (ignoring case), actual: '' @ [CHR 0x22], shown_cstr s1,
             [CHR 0x22] @ '' vs '' @ [CHR 0x22], shown_cstr s2, [CHR 0x22]] AssertionFailure)"

definition CmpHelperSTREQ_wide :: "'c arith \<Rightarrow> string \<Rightarrow> string \<Rightarrow> 32 word list option \<Rightarrow> 32 word list option \<Rightarrow> stop + assertion_result" where
  "CmpHelperSTREQ_wide ar lhs_expression rhs_expression lhs rhs =
     (if WideCStringEquals lhs rhs then Inr AssertionSuccess
      else bindr (PrintToString_wcstr lhs) (\<lambda>l. bindr (PrintToString_wcstr rhs) (\<lambda>r.
           equality_failure ar lhs_expression rhs_expression l r False)))"

definition CmpHelperSTRNE_wide :: "string \<Rightarrow> string \<Rightarrow> 32 word list option \<Rightarrow> 32 word list option \<Rightarrow> stop + assertion_result" where
  "CmpHelperSTRNE_wide s1_expression s2_expression s1 s2 =
     (if \<not> WideCStringEquals s1 s2 then Inr AssertionSuccess
      else bindr (PrintToString_wcstr s1) (\<lambda>l. bindr (PrintToString_wcstr s2) (\<lambda>r.
           Inr (streamed [''Expected: ('', s1_expression, '') != ('', s2_expression, ''), actual: '', l, '' vs '', r] AssertionFailure))))"

subsection \<open>Substrings\<close>

text \<open>The types that \<open>IsSubstring\<close> and \<open>IsNotSubstring\<close> are overloaded for.\<close>

datatype sub_string = CStr "string option" | WCStr "32 word list option" | Str string | WStr "32 word list"

fun occurs :: "'a list \<Rightarrow> 'a list \<Rightarrow> bool" where
  "occurs needle haystack \<longleftrightarrow>
     take (length needle) haystack = needle \<or> (case haystack of [] \<Rightarrow> False | _ # rest \<Rightarrow> occurs needle rest)"

declare occurs.simps [simp del]

definition pointer_pred :: "'a list option \<Rightarrow> 'a list option \<Rightarrow> bool" where
  "pointer_pred needle haystack =
     (case needle of None \<Rightarrow> haystack = None | Some n \<Rightarrow> (case haystack of None \<Rightarrow> False | Some h \<Rightarrow> occurs n h))"

fun IsSubstringPred :: "sub_string \<Rightarrow> sub_string \<Rightarrow> bool" where
  "IsSubstringPred (CStr needle) (CStr haystack) = pointer_pred needle haystack"
| "IsSubstringPred (WCStr needle) (WCStr haystack) = pointer_pred needle haystack"
| "IsSubstringPred (Str needle) (Str haystack) = occurs needle haystack"
| "IsSubstringPred (WStr needle) (WStr haystack) = occurs needle haystack"
| "IsSubstringPred _ _ = False"

fun message_text :: "bool \<Rightarrow> sub_string \<Rightarrow> stop + string" where
  "message_text wide16 (CStr s) = Inr (shown_cstr s)"
| "message_text wide16 (WCStr s) = ShowWideCString wide16 (map_option (\<lambda>t. t @ [0]) s)"
| "message_text wide16 (Str s) = Inr s"
| "message_text wide16 (WStr s) = StreamWideCharsToMessage wide16 s"

fun is_wide_string :: "sub_string \<Rightarrow> bool" where
  "is_wide_string (CStr s) = False"
| "is_wide_string (WCStr s) = True"
| "is_wide_string (Str s) = False"
| "is_wide_string (WStr s) = True"

definition IsSubstringImpl :: "bool \<Rightarrow> bool \<Rightarrow> string \<Rightarrow> string \<Rightarrow> sub_string \<Rightarrow> sub_string \<Rightarrow> stop + assertion_result" where
  "IsSubstringImpl wide16 expected_to_be_substring needle_expr haystack_expr needle haystack =
     (if IsSubstringPred needle haystack = expected_to_be_substring then Inr AssertionSuccess
      else let begin_string_quote = (if is_wide_string needle then ''L'' else []) @ [CHR 0x22] in
        bindr (message_text wide16 needle) (\<lambda>n. bindr (message_text wide16 haystack) (\<lambda>h.
        Inr (streamed [''Value of: '', needle_expr, [LF], ''  Actual: '', begin_string_quote, n, [CHR 0x22] @ [LF],
          ''Expected: '', if expected_to_be_substring then [] else ''not '', ''a substring of '', haystack_expr, [LF],
          ''Which is: '', begin_string_quote, h, [CHR 0x22]] AssertionFailure))))"

definition IsSubstring :: "bool \<Rightarrow> string \<Rightarrow> string \<Rightarrow> sub_string \<Rightarrow> sub_string \<Rightarrow> stop + assertion_result" where
  "IsSubstring wide16 needle_expr haystack_expr needle haystack = IsSubstringImpl wide16 True needle_expr haystack_expr needle haystack"

definition IsNotSubstring :: "bool \<Rightarrow> string \<Rightarrow> string \<Rightarrow> sub_string \<Rightarrow> sub_string \<Rightarrow> stop + assertion_result" where
  "IsNotSubstring wide16 needle_expr haystack_expr needle haystack = IsSubstringImpl wide16 False needle_expr haystack_expr needle haystack"

subsection \<open>Floating point numbers\<close>

text \<open>Comparisons of the language, on the bits; \<open>text\<close> is how a stream with the precision of the code prints a number.\<close>

definition fp_less :: "nat \<Rightarrow> 'w::len word \<Rightarrow> 'w word \<Rightarrow> bool" where
  "fp_less f a b \<longleftrightarrow> \<not> is_nan f a \<and> \<not> is_nan f b \<and> fp_value f a < fp_value f b"

definition fp_le :: "nat \<Rightarrow> 'w::len word \<Rightarrow> 'w word \<Rightarrow> bool" where
  "fp_le f a b \<longleftrightarrow> \<not> is_nan f a \<and> \<not> is_nan f b \<and> fp_value f a \<le> fp_value f b"

definition CmpHelperFloatingPointEQ ::
  "'c arith \<Rightarrow> nat \<Rightarrow> ('w::len word \<Rightarrow> string) \<Rightarrow> string \<Rightarrow> string \<Rightarrow> 'w word \<Rightarrow> 'w word \<Rightarrow> stop + assertion_result" where
  "CmpHelperFloatingPointEQ ar f text lhs_expression rhs_expression lhs_value rhs_value =
     (if AlmostEquals f lhs_value rhs_value then Inr AssertionSuccess
      else equality_failure ar lhs_expression rhs_expression (StringStreamToString (text lhs_value))
             (StringStreamToString (text rhs_value)) False)"

definition FloatingPointLE ::
  "nat \<Rightarrow> ('w::len word \<Rightarrow> string) \<Rightarrow> string \<Rightarrow> string \<Rightarrow> 'w word \<Rightarrow> 'w word \<Rightarrow> assertion_result" where
  "FloatingPointLE f text expr1 expr2 val1 val2 =
     (if fp_less f val1 val2 then AssertionSuccess
      else if AlmostEquals f val1 val2 then AssertionSuccess
      else streamed [''Expected: ('', expr1, '') <= ('', expr2, '')'' @ [LF], ''  Actual: '', StringStreamToString (text val1), '' vs '',
             StringStreamToString (text val2)] AssertionFailure)"

definition FloatLE :: "(32 word \<Rightarrow> string) \<Rightarrow> string \<Rightarrow> string \<Rightarrow> 32 word \<Rightarrow> 32 word \<Rightarrow> assertion_result" where
  "FloatLE text expr1 expr2 val1 val2 = FloatingPointLE 23 text expr1 expr2 val1 val2"

definition DoubleLE :: "(64 word \<Rightarrow> string) \<Rightarrow> string \<Rightarrow> string \<Rightarrow> 64 word \<Rightarrow> 64 word \<Rightarrow> assertion_result" where
  "DoubleLE text expr1 expr2 val1 val2 = FloatingPointLE 52 text expr1 expr2 val1 val2"

text \<open>The arithmetic of \<open>double\<close> is a parameter: the difference, the next number upwards, and the text in a message.\<close>

record double_ops =
  d_sub :: "64 word \<Rightarrow> 64 word \<Rightarrow> 64 word"
  d_next :: "64 word \<Rightarrow> 64 word"
  d_text :: "64 word \<Rightarrow> string"

definition fabs :: "64 word \<Rightarrow> 64 word" where "fabs x = x - sign_bit x"

definition DoubleNearPredFormat ::
  "double_ops \<Rightarrow> string \<Rightarrow> string \<Rightarrow> string \<Rightarrow> 64 word \<Rightarrow> 64 word \<Rightarrow> 64 word \<Rightarrow> assertion_result" where
  "DoubleNearPredFormat ops expr1 expr2 abs_error_expr val1 val2 abs_error =
     (let diff = fabs (d_sub ops val1 val2); text = d_text ops in
      if fp_le 52 diff abs_error then AssertionSuccess
      else
        let min_abs = (if fp_less 52 (fabs val2) (fabs val1) then fabs val2 else fabs val1);
            epsilon = d_sub ops (d_next ops min_abs) min_abs
        in if \<not> is_nan 52 val1 \<and> \<not> is_nan 52 val2 \<and> fp_less 52 0 abs_error \<and> fp_less 52 abs_error epsilon
           then streamed [''The difference between '', expr1, '' and '', expr2, '' is '', text diff, '', where'' @ [LF],
                  expr1, '' evaluates to '', text val1, '','' @ [LF], expr2, '' evaluates to '', text val2, ''.'' @ [LF] @ ''The abs_error parameter '',
                  abs_error_expr, '' evaluates to '', text abs_error,
                  '' which is smaller than the minimum distance between doubles for numbers of this magnitude which is '',
                  text epsilon, '', thus making this EXPECT_NEAR check equivalent to EXPECT_EQUAL. Consider using EXPECT_DOUBLE_EQ instead.'']
                  AssertionFailure
           else streamed [''The difference between '', expr1, '' and '', expr2, '' is '', text diff, '', which exceeds '', abs_error_expr,
                  '', where'' @ [LF], expr1, '' evaluates to '', text val1, '','' @ [LF], expr2, '' evaluates to '', text val2, '', and'' @ [LF],
                  abs_error_expr, '' evaluates to '', text abs_error, ''.''] AssertionFailure)"

section \<open>Assertions: the properties\<close>

subsection \<open>Every helper returns\<close>

lemma char_val_ok: "char_value Char_t (char_val c)"
proof -
  have "(of_char c :: int) = int (of_char c)" "(of_char c :: nat) < 256" by (simp_all only: of_nat_of_char) simp
  then have "(of_char c :: int) < 256" "0 \<le> (of_char c :: int)" by linarith+
  then show ?thesis by (auto simp: char_value_def char_val_def char_signed_def)
qed

lemma PrintStringTo_returns: "\<exists>t. PrintStringTo u s = Inr t"
proof -
  have "\<exists>t f. PrintCharsAsStringTo Char_t (map char_val s @ [0]) (length s) = Inr (t, f)"
    using PrintCharsAsStringTo_lits [of "map char_val s" Char_t "[0]"] char_val_ok by fastforce
  then obtain t f where p: "PrintCharsAsStringTo Char_t (map char_val s @ [0]) (length s) = Inr (t, f)" by blast
  obtain b where "IsValidUTF8 (s @ [NUL]) (length s) = Inr b" using IsValidUTF8_eq [of "length s" "s @ [NUL]"] by auto
  then show ?thesis by (simp add: PrintStringTo_def p ConditionalPrintAsText_def)
qed

lemma PrintToString_cstr_returns: "\<exists>t. PrintToString_cstr u s = Inr t"
  using PrintStringTo_returns by (simp add: PrintToString_cstr_def split: option.split)

lemma equality_failure_returns: "\<exists>r. equality_failure ar e1 e2 v1 v2 ic = Inr r \<and> \<not> ar_success r"
proof -
  obtain m where "EqFailure ar e1 e2 v1 v2 ic = Inr m" using EqFailure_ok by blast
  then show ?thesis by (simp add: equality_failure_def streamed_def AppendMessage_def AssertionFailure_def)
qed

lemma streamed_success [simp]: "ar_success (streamed ts r) = ar_success r"
  unfolding streamed_def by (induction ts arbitrary: r) (simp_all add: AppendMessage_def)

lemma success_simps [simp]: "ar_success AssertionSuccess" "\<not> ar_success AssertionFailure"
  by (simp_all add: AssertionSuccess_def AssertionFailure_def)

subsection \<open>Substrings\<close>

lemma occurs_iff: "occurs n h \<longleftrightarrow> sublist n h"
proof (induction n h rule: occurs.induct)
  case (1 n h)
  have p: "take (length n) h = n \<longleftrightarrow> prefix n h" by (metis append_eq_conv_conj prefix_def)
  with 1 show ?case
    by (cases h) (simp_all add: occurs.simps [of n "[]"] occurs.simps [of n "c # t" for c t] sublist_Cons_right)
qed

definition same_or_inside :: "'a list option \<Rightarrow> 'a list option \<Rightarrow> bool" where
  "same_or_inside n h \<longleftrightarrow> n = None \<and> h = None \<or> (\<exists>a b. n = Some a \<and> h = Some b \<and> sublist a b)"

lemma pointer_pred_iff: "pointer_pred n h \<longleftrightarrow> same_or_inside n h"
  by (auto simp: pointer_pred_def same_or_inside_def occurs_iff split: option.splits)

definition narrow :: "sub_string \<Rightarrow> string option" where
  "narrow s = (case s of CStr t \<Rightarrow> t | Str t \<Rightarrow> Some t | _ \<Rightarrow> None)"

definition fold_case :: "string option \<Rightarrow> string option" where "fold_case = map_option (map to_lower)"

lemma CStringEquals_iff: "CStringEquals s t \<longleftrightarrow> s = t"
  by (auto simp: CStringEquals_def split: option.split)

lemma CaseInsensitiveCStringEquals_iff: "CaseInsensitiveCStringEquals s t \<longleftrightarrow> fold_case s = fold_case t"
  by (auto simp: CaseInsensitiveCStringEquals_def fold_case_def strcasecmp0_def split: option.split)

lemma IsSubstring_returns:
  assumes "n = CStr a \<and> h = CStr b \<or> n = Str c \<and> h = Str d"
  shows "\<exists>r. IsSubstringImpl w e e1 e2 n h = Inr r \<and> (ar_success r \<longleftrightarrow> same_or_inside (narrow n) (narrow h) = e)"
  using assms
  by (elim disjE; auto simp: IsSubstringImpl_def Let_def pointer_pred_iff occurs_iff narrow_def same_or_inside_def)

text \<open>The assertions on strings always return, whatever the strings are, and succeed exactly when they should: equality and
  inequality of C strings, with \<open>NULL\<close> equal to itself only, with and without regard to the case of letters, and
  whether one string occurs in another, where \<open>NULL\<close> occurs in itself only.
\<close>

theorem string_assertions_decide:
  "(\<exists>r. CmpHelperSTREQ ar u e1 e2 s t = Inr r \<and> (ar_success r \<longleftrightarrow> s = t)) \<and>
   (ar_success (CmpHelperSTRNE e1 e2 s t) \<longleftrightarrow> s \<noteq> t) \<and>
   (\<exists>r. CmpHelperSTRCASEEQ ar u e1 e2 s t = Inr r \<and> (ar_success r \<longleftrightarrow> fold_case s = fold_case t)) \<and>
   (ar_success (CmpHelperSTRCASENE e1 e2 s t) \<longleftrightarrow> fold_case s \<noteq> fold_case t) \<and>
   (\<exists>r. IsSubstring w e1 e2 (CStr s) (CStr t) = Inr r \<and> (ar_success r \<longleftrightarrow> same_or_inside s t)) \<and>
   (\<exists>r. IsNotSubstring w e1 e2 (CStr s) (CStr t) = Inr r \<and> (ar_success r \<longleftrightarrow> \<not> same_or_inside s t)) \<and>
   (\<exists>r. IsSubstring w e1 e2 (Str n) (Str h) = Inr r \<and> (ar_success r \<longleftrightarrow> sublist n h)) \<and>
   (\<exists>r. IsNotSubstring w e1 e2 (Str n) (Str h) = Inr r \<and> (ar_success r \<longleftrightarrow> \<not> sublist n h))"
proof -
  obtain l where l: "PrintToString_cstr u s = Inr l" using PrintToString_cstr_returns by blast
  obtain r where r: "PrintToString_cstr u t = Inr r" using PrintToString_cstr_returns by blast
  obtain f where f: "equality_failure ar e1 e2 l r False = Inr f" "\<not> ar_success f" using equality_failure_returns by blast
  obtain g where g: "equality_failure ar e1 e2 l r True = Inr g" "\<not> ar_success g" using equality_failure_returns by blast
  have c: "\<exists>x. IsSubstringImpl w e e1 e2 (CStr s) (CStr t) = Inr x \<and> (ar_success x \<longleftrightarrow> same_or_inside s t = e)" for e
    using IsSubstring_returns [of "CStr s" s "CStr t" t] by (simp add: narrow_def)
  have d: "\<exists>x. IsSubstringImpl w e e1 e2 (Str n) (Str h) = Inr x \<and> (ar_success x \<longleftrightarrow> sublist n h = e)" for e
    using IsSubstring_returns [of "Str n" None "Str h" None n h] by (simp add: narrow_def same_or_inside_def)
  show ?thesis
    unfolding IsSubstring_def IsNotSubstring_def
    using c [of True] c [of False] d [of True] d [of False]
    by (simp add: CmpHelperSTREQ_def CmpHelperSTRCASEEQ_def CmpHelperSTRNE_def CmpHelperSTRCASENE_def l r f g
      CStringEquals_iff CaseInsensitiveCStringEquals_iff)
qed

text \<open>C33. Two floating point numbers are almost equal exactly when neither is a NaN and one is reached from the other in at most four
  steps from a number to the next one: of the values of all bit patterns that are no NaN, at most four lie above the
  smaller one and not above the larger one.  The two zeros are one value, and an infinity is the value next to the largest
  number.  This holds for \<open>float\<close> and for \<open>double\<close>.
\<close>

theorem almost_equal_is_four_steps:
  fixes a b :: "32 word" and c d :: "64 word"
  shows "(AlmostEquals 23 a b \<longleftrightarrow> \<not> is_nan 23 a \<and> \<not> is_nan 23 b \<and> card (between 23 a b) \<le> 4) \<and>
    (AlmostEquals 52 c d \<longleftrightarrow> \<not> is_nan 52 c \<and> \<not> is_nan 52 d \<and> card (between 52 c d) \<le> 4)"
  using AlmostEquals_iff [of 23 a b] AlmostEquals_iff [of 52 c d] by simp

end
