(* ===== verification/Gt_Params.thy ===== *)
theory Gt_Params
  imports Gt_Base
begin

section \<open>Generators of test parameters (\<open>gtest-param-util.h\<close>, \<open>gtest-param-test.h\<close>)\<close>

text \<open>
  A generator is what its two functions give and what its iterators can do; \<open>'i\<close> is the state of an iterator, \<open>'v\<close> the type
  of the values.  Advancing or reading an iterator can be outside its range or fail an assertion, hence the outcomes.  Iterators
  are values here, as \<open>Clone\<close> and the wrapper \<open>ParamIterator\<close> make them in the code; only iterators of one generator are ever
  compared, which is what \<open>Equals\<close> checks first.  The tuple of generators of \<open>Combine\<close> is a list, with one type for the values.
\<close>

record ('i, 'v) generator =
  g_begin :: "stop + 'i"
  g_end :: "stop + 'i"
  g_advance :: "'i \<Rightarrow> stop + 'i"
  g_current :: "'i \<Rightarrow> stop + 'v"
  g_equals :: "'i \<Rightarrow> 'i \<Rightarrow> bool"

subsection \<open>Values of a container\<close>

text \<open>The copy of the container is a list, an iterator a position.  The cached value is the one at the position.\<close>

definition ValuesIn :: "'v list \<Rightarrow> (nat, 'v) generator" where
  "ValuesIn container =
     \<lparr>g_begin = Inr 0, g_end = Inr (length container),
      g_advance = (\<lambda>i. if i < length container then Inr (Suc i) else Inl Overread),
      g_current = vat container, g_equals = (=)\<rparr>"

definition Values :: "'v list \<Rightarrow> (nat, 'v) generator" where
  "Values v = ValuesIn v"

definition Bool :: "(nat, bool) generator" where
  "Bool = Values [False, True]"

subsection \<open>Ranges\<close>

text \<open>For values and steps of type \<open>int\<close>; the addition of two of them must not overflow.\<close>

definition is_int :: "int \<Rightarrow> bool" where
  "is_int k \<longleftrightarrow> - 2147483648 \<le> k \<and> k \<le> 2147483647"

function CalculateEndIndex :: "int \<Rightarrow> int \<Rightarrow> int \<Rightarrow> int \<Rightarrow> stop + int" where
  "CalculateEndIndex i bound step end_index =
     (if i < bound
      then if end_index < 2147483647 \<and> is_int (i + step) then CalculateEndIndex (i + step) bound step (end_index + 1)
           else Inl Int_overflow
      else Inr end_index)"
  by pat_completeness auto
termination by (relation "measure (\<lambda>(_, _, _, n). nat (2147483647 - n))") auto

declare CalculateEndIndex.simps [simp del]

definition range_advance :: "int \<Rightarrow> int \<times> int \<Rightarrow> stop + int \<times> int" where
  "range_advance step it =
     (if is_int (fst it + step) \<and> snd it < 2147483647 then Inr (fst it + step, snd it + 1) else Inl Int_overflow)"

definition RangeGenerator :: "int \<Rightarrow> int \<Rightarrow> int \<Rightarrow> stop + (int \<times> int, int) generator" where
  "RangeGenerator first bound step =
     bindr (CalculateEndIndex first bound step 0) (\<lambda>end_index.
       Inr \<lparr>g_begin = Inr (first, 0), g_end = Inr (bound, end_index), g_advance = range_advance step,
            g_current = (\<lambda>it. Inr (fst it)), g_equals = (\<lambda>it other. snd it = snd other)\<rparr>)"

subsection \<open>Combinations\<close>

fun rmap :: "('a \<Rightarrow> stop + 'b) \<Rightarrow> 'a list \<Rightarrow> stop + 'b list" where
  "rmap f [] = Inr []"
| "rmap f (x # xs) = bindr (f x) (\<lambda>y. bindr (rmap f xs) (\<lambda>ys. Inr (y # ys)))"

record ('i, 'v) product_iter =
  pi_begin :: "'i list"
  pi_end :: "'i list"
  pi_current :: "'i list"
  pi_value :: "'v list option"

definition AtEnd :: "('i, 'v) generator list \<Rightarrow> ('i, 'v) product_iter \<Rightarrow> bool" where
  "AtEnd gs it \<longleftrightarrow> list_ex (\<lambda>i. g_equals (gs ! i) (pi_current it ! i) (pi_end it ! i)) [0..<length gs]"

definition ComputeCurrentValue :: "('i, 'v) generator list \<Rightarrow> ('i, 'v) product_iter \<Rightarrow> stop + ('i, 'v) product_iter" where
  "ComputeCurrentValue gs it =
     (if AtEnd gs it then Inr it
      else bindr (rmap (\<lambda>i. g_current (gs ! i) (pi_current it ! i)) [0..<length gs]) (\<lambda>vs. Inr (it\<lparr>pi_value := Some vs\<rparr>)))"

definition IteratorImpl :: "('i, 'v) generator list \<Rightarrow> bool \<Rightarrow> stop + ('i, 'v) product_iter" where
  "IteratorImpl gs is_end =
     bindr (rmap g_begin gs) (\<lambda>bs. bindr (rmap g_end gs) (\<lambda>es.
       ComputeCurrentValue gs \<lparr>pi_begin = bs, pi_end = es, pi_current = (if is_end then es else bs), pi_value = None\<rparr>))"

text \<open>Component \<open>ThisI\<close> has just been advanced: at its end it starts again, and the component before it moves on.\<close>

primrec AdvanceIfEnd :: "('i, 'v) generator list \<Rightarrow> nat \<Rightarrow> ('i, 'v) product_iter \<Rightarrow> stop + ('i, 'v) product_iter" where
  "AdvanceIfEnd gs 0 it = Inr it"
| "AdvanceIfEnd gs (Suc i) it =
     (if \<not> g_equals (gs ! Suc i) (pi_current it ! Suc i) (pi_end it ! Suc i) then Inr it
      else bindr (g_advance (gs ! i) (pi_current it ! i)) (\<lambda>c.
             AdvanceIfEnd gs i (it\<lparr>pi_current := (pi_current it)[Suc i := pi_begin it ! Suc i, i := c]\<rparr>)))"

definition Advance :: "('i, 'v) generator list \<Rightarrow> ('i, 'v) product_iter \<Rightarrow> stop + ('i, 'v) product_iter" where
  "Advance gs it =
     (let n = length gs - 1 in
      if AtEnd gs it then Inl Assert_fail
      else bindr (g_advance (gs ! n) (pi_current it ! n)) (\<lambda>c.
           bindr (AdvanceIfEnd gs n (it\<lparr>pi_current := (pi_current it)[n := c]\<rparr>)) (ComputeCurrentValue gs)))"

definition product_current :: "('i, 'v) product_iter \<Rightarrow> stop + 'v list" where
  "product_current it = (case pi_value it of None \<Rightarrow> Inl Null_deref | Some vs \<Rightarrow> Inr vs)"

definition product_equals :: "('i, 'v) generator list \<Rightarrow> ('i, 'v) product_iter \<Rightarrow> ('i, 'v) product_iter \<Rightarrow> bool" where
  "product_equals gs it other \<longleftrightarrow>
     AtEnd gs it \<and> AtEnd gs other \<or>
     list_all (\<lambda>i. g_equals (gs ! i) (pi_current it ! i) (pi_current other ! i)) [0..<length gs]"

definition CartesianProductGenerator :: "('i, 'v) generator list \<Rightarrow> (('i, 'v) product_iter, 'v list) generator" where
  "CartesianProductGenerator gs =
     \<lparr>g_begin = IteratorImpl gs False, g_end = IteratorImpl gs True, g_advance = Advance gs,
      g_current = product_current, g_equals = product_equals gs\<rparr>"

subsection \<open>Converted values\<close>

text \<open>\<open>conv\<close> is the conversion; the value is converted when an iterator gets to it.\<close>

record ('i, 'w) convert_iter =
  ci_it :: 'i
  ci_end :: 'i
  ci_value :: "'w option"

definition convert_value ::
  "('v \<Rightarrow> 'w) \<Rightarrow> ('i, 'v) generator \<Rightarrow> ('i, 'w) convert_iter \<Rightarrow> stop + ('i, 'w) convert_iter" where
  "convert_value conv g it =
     (if g_equals g (ci_it it) (ci_end it) then Inr it
      else bindr (g_current g (ci_it it)) (\<lambda>v. Inr (it\<lparr>ci_value := Some (conv v)\<rparr>)))"

definition convert_advance ::
  "('v \<Rightarrow> 'w) \<Rightarrow> ('i, 'v) generator \<Rightarrow> ('i, 'w) convert_iter \<Rightarrow> stop + ('i, 'w) convert_iter" where
  "convert_advance conv g it = bindr (g_advance g (ci_it it)) (\<lambda>i. convert_value conv g (it\<lparr>ci_it := i\<rparr>))"

definition ParamGeneratorConverter ::
  "('v \<Rightarrow> 'w) \<Rightarrow> ('i, 'v) generator \<Rightarrow> (('i, 'w) convert_iter, 'w) generator" where
  "ParamGeneratorConverter conv g =
     \<lparr>g_begin = bindr (g_begin g) (\<lambda>b. bindr (g_end g) (\<lambda>e. convert_value conv g \<lparr>ci_it = b, ci_end = e, ci_value = None\<rparr>)),
      g_end = bindr (g_end g) (\<lambda>e. convert_value conv g \<lparr>ci_it = e, ci_end = e, ci_value = None\<rparr>),
      g_advance = convert_advance conv g,
      g_current = (\<lambda>it. case ci_value it of None \<Rightarrow> Inl Null_deref | Some v \<Rightarrow> Inr v),
      g_equals = (\<lambda>it other. g_equals g (ci_it it) (ci_it other))\<rparr>"

subsection \<open>The loop over the values\<close>

text \<open>
  The \<open>for\<close> statement over \<open>generator.begin()\<close> and \<open>generator.end()\<close> that numbers the values; the body changes a state and can
  abort.  \<open>None\<close>: the loop does not end.
\<close>

partial_function (option) for_params ::
  "('i, 'v) generator \<Rightarrow> 'i \<Rightarrow> (nat \<Rightarrow> 'v \<Rightarrow> 's \<Rightarrow> stop + 's) \<Rightarrow> 'i \<Rightarrow> nat \<Rightarrow> 's \<Rightarrow> (stop + 's) option" where
  "for_params g stop_it body it i s =
     (if g_equals g it stop_it then Some (Inr s)
      else case bindr (g_current g it) (\<lambda>v. body i v s) of
             Inl e \<Rightarrow> Some (Inl e)
           | Inr s' \<Rightarrow> (case g_advance g it of
                          Inl e \<Rightarrow> Some (Inl e)
                        | Inr it' \<Rightarrow> for_params g stop_it body it' (Suc i) s'))"

definition over_params ::
  "('i, 'v) generator \<Rightarrow> (nat \<Rightarrow> 'v \<Rightarrow> 's \<Rightarrow> stop + 's) \<Rightarrow> 's \<Rightarrow> (stop + 's) option" where
  "over_params g body s =
     (case bindr (g_begin g) (\<lambda>it. bindr (g_end g) (\<lambda>stop_it. Inr (it, stop_it))) of
        Inl e \<Rightarrow> Some (Inl e)
      | Inr (it, stop_it) \<Rightarrow> for_params g stop_it body it 0 s)"

subsection \<open>The contract of a generator\<close>

text \<open>
  What the loop relies on: \<open>remaining\<close> gives the values from an iterator on; it shrinks by one with each step, and the iterator
  equals the last one exactly when it is empty.
\<close>

locale param_generator =
  fixes g :: "('i, 'v) generator" and ok :: "'i \<Rightarrow> bool" and remaining :: "'i \<Rightarrow> 'v list" and first stop_it :: 'i
  assumes ends: "g_begin g = Inr first" "g_end g = Inr stop_it" "ok first" "ok stop_it" "remaining stop_it = []"
    and at_stop: "\<And>it. ok it \<Longrightarrow> g_equals g it stop_it \<longleftrightarrow> remaining it = []"
    and reads: "\<And>it v vs. ok it \<Longrightarrow> remaining it = v # vs \<Longrightarrow> g_current g it = Inr v"
    and moves: "\<And>it v vs. ok it \<Longrightarrow> remaining it = v # vs \<Longrightarrow> \<exists>it'. g_advance g it = Inr it' \<and> ok it' \<and> remaining it' = vs"
begin

lemma loop_is_fold:
  "ok it \<Longrightarrow> for_params g stop_it body it i s = Some (rfold (\<lambda>(i, v). body i v) (enumerate i (remaining it)) s)"
proof (induction "remaining it" arbitrary: it i s)
  case Nil
  then have "g_equals g it stop_it" by (simp add: at_stop)
  with Nil show ?case by (simp add: for_params.simps)
next
  case (Cons v vs)
  from Cons.prems Cons.hyps(2) moves obtain it' where it': "g_advance g it = Inr it'" "ok it'" "remaining it' = vs" by metis
  from Cons.prems Cons.hyps(2) have "\<not> g_equals g it stop_it" "g_current g it = Inr v"
    by (simp_all add: at_stop reads flip: Cons.hyps(2))
  with it' Cons.hyps(1) [of it' "Suc i"] Cons.hyps(2) [symmetric] show ?case
    by (subst for_params.simps) (auto split: sum.split)
qed

lemma over_params_is_fold:
  "over_params g body s = Some (rfold (\<lambda>(i, v). body i v) (enumerate 0 (remaining first)) s)"
  using ends by (simp add: over_params_def loop_is_fold)

end

definition enumerates :: "('i, 'v) generator \<Rightarrow> 'v list \<Rightarrow> bool" where
  "enumerates g vs \<longleftrightarrow> (\<exists>ok remaining first stop_it. param_generator g ok remaining first stop_it \<and> remaining first = vs)"

lemma enumerates_loop:
  "enumerates g vs \<Longrightarrow> over_params g body s = Some (rfold (\<lambda>(i, v). body i v) (enumerate 0 vs) s)"
  unfolding enumerates_def by (elim exE conjE) (simp add: param_generator.over_params_is_fold)

definition convert_ok ::
  "('v \<Rightarrow> 'w) \<Rightarrow> ('i \<Rightarrow> bool) \<Rightarrow> ('i \<Rightarrow> 'v list) \<Rightarrow> 'i \<Rightarrow> ('i, 'w) convert_iter \<Rightarrow> bool" where
  "convert_ok conv ok remaining stop_it it \<longleftrightarrow>
     ok (ci_it it) \<and> ci_end it = stop_it \<and>
     (case remaining (ci_it it) of [] \<Rightarrow> True | v # vs \<Rightarrow> ci_value it = Some (conv v))"

context param_generator
begin

lemma convert_value_ok:
  assumes "ok (ci_it it)" "ci_end it = stop_it"
  shows "\<exists>it'. convert_value conv g it = Inr it' \<and> convert_ok conv ok remaining stop_it it' \<and> ci_it it' = ci_it it"
proof (cases "remaining (ci_it it)")
  case Nil
  with assms show ?thesis by (simp add: convert_value_def convert_ok_def at_stop)
next
  case (Cons v vs)
  with assms show ?thesis by (simp add: convert_value_def convert_ok_def at_stop reads)
qed

text \<open>A converter keeps the contract.\<close>

lemma converter: "\<exists>b e. param_generator (ParamGeneratorConverter conv g) (convert_ok conv ok remaining stop_it)
    (\<lambda>it. map conv (remaining (ci_it it))) b e \<and> ci_it b = first"
proof -
  obtain b where b: "convert_value conv g \<lparr>ci_it = first, ci_end = stop_it, ci_value = None\<rparr> = Inr b"
    "convert_ok conv ok remaining stop_it b" "ci_it b = first" using convert_value_ok ends(3) by force
  obtain e where e: "convert_value conv g \<lparr>ci_it = stop_it, ci_end = stop_it, ci_value = None\<rparr> = Inr e"
    "convert_ok conv ok remaining stop_it e" "ci_it e = stop_it" using convert_value_ok ends(4) by force
  have "param_generator (ParamGeneratorConverter conv g) (convert_ok conv ok remaining stop_it)
    (\<lambda>it. map conv (remaining (ci_it it))) b e"
  proof
    fix it w ws
    assume it: "convert_ok conv ok remaining stop_it it" and r: "map conv (remaining (ci_it it)) = w # ws"
    from r obtain v vs where v: "remaining (ci_it it) = v # vs" "w = conv v" "ws = map conv vs" by auto
    with it show "g_current (ParamGeneratorConverter conv g) it = Inr w"
      by (simp add: ParamGeneratorConverter_def convert_ok_def)
    from it have "ok (ci_it it)" by (simp add: convert_ok_def)
    from moves [OF this v(1)] obtain i where i: "g_advance g (ci_it it) = Inr i" "ok i" "remaining i = vs" by blast
    with it convert_value_ok [of "it\<lparr>ci_it := i\<rparr>" conv] v show "\<exists>it'. g_advance (ParamGeneratorConverter conv g) it = Inr it' \<and>
        convert_ok conv ok remaining stop_it it' \<and> map conv (remaining (ci_it it')) = ws"
      by (auto simp: ParamGeneratorConverter_def convert_advance_def convert_ok_def)
  qed (use b e ends at_stop in \<open>auto simp: ParamGeneratorConverter_def convert_ok_def\<close>)
  with b(3) show ?thesis by blast
qed

end

lemma enumerates_ParamGeneratorConverter:
  "enumerates g vs \<Longrightarrow> enumerates (ParamGeneratorConverter conv g) (map conv vs)"
proof -
  assume "enumerates g vs"
  then obtain ok remaining first stop_it where g: "param_generator g ok remaining first stop_it" "remaining first = vs"
    by (auto simp: enumerates_def)
  from param_generator.converter [OF g(1), of conv] obtain b e where
    "param_generator (ParamGeneratorConverter conv g) (convert_ok conv ok remaining stop_it)
       (\<lambda>it. map conv (remaining (ci_it it))) b e" "ci_it b = first" by blast
  with g(2) show ?thesis unfolding enumerates_def by force
qed

interpretation vals: param_generator "ValuesIn xs" "\<lambda>i. i \<le> length xs" "\<lambda>i. drop i xs" 0 "length xs" for xs
proof
  fix i v vs assume d: "drop i xs = v # vs"
  then have i: "i < length xs" by (metis drop_eq_Nil list.distinct(1) not_le)
  moreover from i d have "xs ! i = v" "drop (Suc i) xs = vs" by (metis Cons_nth_drop_Suc list.inject)+
  ultimately show "g_current (ValuesIn xs) i = Inr v"
    "\<exists>it'. g_advance (ValuesIn xs) i = Inr it' \<and> it' \<le> length xs \<and> drop it' xs = vs"
    by (simp_all add: ValuesIn_def vat_def)
qed (auto simp: ValuesIn_def)

lemma enumerates_ValuesIn: "enumerates (ValuesIn xs) xs"
  unfolding enumerates_def using vals.param_generator_axioms [of xs] by force

lemma enumerates_Bool: "enumerates Bool [False, True]"
  unfolding Bool_def Values_def by (rule enumerates_ValuesIn)


subsection \<open>Ranges are what they say\<close>

definition range_values :: "int \<Rightarrow> int \<Rightarrow> int \<Rightarrow> int list" where
  "range_values first step n = map (\<lambda>k. first + k * step) [0..n - 1]"

lemma CalculateEndIndex_Inr:
  "CalculateEndIndex i bound step n = Inr m \<Longrightarrow>
   n \<le> m \<and> (n < m \<longrightarrow> m \<le> 2147483647) \<and> bound \<le> i + (m - n) * step \<and>
   (\<forall>k. 0 \<le> k \<and> k < m - n \<longrightarrow> i + k * step < bound \<and> is_int (i + (k + 1) * step))"
proof (induction i bound step n rule: CalculateEndIndex.induct)
  case (1 i bound step n)
  show ?case
  proof (cases "i < bound")
    case True
    with "1.prems" have r: "n < 2147483647" "is_int (i + step)" "CalculateEndIndex (i + step) bound step (n + 1) = Inr m"
      by (subst (asm) CalculateEndIndex.simps, simp split: if_splits)+
    note ih = "1.IH" [OF True conjI [OF r(1,2)] r(3)]
    have "i + k * step < bound \<and> is_int (i + (k + 1) * step)" if k: "0 \<le> k" "k < m - n" for k
    proof (cases "k = 0")
      case False
      with k have "0 \<le> k - 1" "k - 1 < m - (n + 1)" by simp_all
      with ih have "i + step + (k - 1) * step < bound \<and> is_int (i + step + (k - 1 + 1) * step)" by blast
      then show ?thesis by (simp add: algebra_simps)
    qed (use True r in simp)
    with ih r(1) show ?thesis by (auto simp: algebra_simps)
  next
    case False
    with "1.prems" have "n = m" by (subst (asm) CalculateEndIndex.simps) simp
    with False show ?thesis by auto
  qed
qed

lemma enumerates_RangeGenerator:
  assumes "RangeGenerator first bound step = Inr g"
  obtains n where "CalculateEndIndex first bound step 0 = Inr n" "enumerates g (range_values first step n)"
proof -
  from assms obtain n where n: "CalculateEndIndex first bound step 0 = Inr n"
    and g: "g = \<lparr>g_begin = Inr (first, 0), g_end = Inr (bound, n), g_advance = range_advance step,
                 g_current = (\<lambda>it. Inr (fst it)), g_equals = (\<lambda>it other. snd it = snd other)\<rparr>"
    by (auto simp: RangeGenerator_def bindr_eq_Inr)
  note c = CalculateEndIndex_Inr [OF n]
  let ?ok = "\<lambda>it. 0 \<le> snd it \<and> snd it \<le> n \<and> (snd it < n \<longrightarrow> fst it = first + snd it * step)"
  let ?rest = "\<lambda>it. map (\<lambda>k. first + k * step) [snd it..n - 1]"
  have "param_generator g ?ok ?rest (first, 0) (bound, n)"
  proof
    fix it v vs assume ok: "?ok it" and r: "?rest it = v # vs"
    from r have lt: "snd it < n" by (cases "snd it < n") auto
    then have "[snd it..n - 1] = snd it # [snd it + 1..n - 1]" by (simp add: upto_rec1)
    with r have v: "v = first + snd it * step" "vs = map (\<lambda>k. first + k * step) [snd it + 1..n - 1]" by auto
    from ok lt v show "g_current g it = Inr v" by (simp add: g)
    from ok lt c have "is_int (first + (snd it + 1) * step)" "snd it < 2147483647" by auto
    with ok lt v show "\<exists>it'. g_advance g it = Inr it' \<and> ?ok it' \<and> ?rest it' = vs"
      by (auto simp: g range_advance_def algebra_simps)
  qed (use c in \<open>auto simp: g\<close>)
  then have "enumerates g (?rest (first, 0))" unfolding enumerates_def by blast
  with n that show thesis by (simp add: range_values_def)
qed

text \<open>With a positive step and room for one value behind the last, the range is there; without a positive step it never is.\<close>

lemma CalculateEndIndex_total:
  assumes "0 < step" "is_int (i + (m - n) * step)" "m \<le> 2147483647" "is_int i" "n \<le> m"
    and "bound \<le> i + (m - n) * step" "n < m \<longrightarrow> i + (m - n - 1) * step < bound"
  shows "CalculateEndIndex i bound step n = Inr m"
  using assms
proof (induction "nat (m - n)" arbitrary: i n)
  case 0
  then show ?case by (subst CalculateEndIndex.simps) simp
next
  case (Suc d)
  then have nm: "n < m" by linarith
  then have "0 \<le> (m - n - 1) * step" using Suc.prems(1) by simp
  with Suc.prems nm have ib: "i < bound" by linarith
  have "1 * step \<le> (m - n) * step" using nm Suc.prems(1) by (intro mult_right_mono) simp_all
  then have "i + step \<le> i + (m - n) * step" by simp
  with Suc.prems(1,2,4) have "is_int (i + step)" unfolding is_int_def by linarith
  moreover have "CalculateEndIndex (i + step) bound step (n + 1) = Inr m"
  proof (rule Suc.hyps(1))
    show "d = nat (m - (n + 1))" using Suc.hyps(2) by linarith
    show "n + 1 < m \<longrightarrow> i + step + (m - (n + 1) - 1) * step < bound"
      using Suc.prems(7) nm by (simp add: algebra_simps)
  qed (use Suc.prems nm \<open>is_int (i + step)\<close> in \<open>simp_all add: algebra_simps\<close>)
  ultimately show ?case using ib nm Suc.prems(3) by (subst CalculateEndIndex.simps) simp
qed

lemma CalculateEndIndex_no_step: "i < bound \<Longrightarrow> step \<le> 0 \<Longrightarrow> CalculateEndIndex i bound step n = Inl Int_overflow"
proof (induction i bound step n rule: CalculateEndIndex.induct)
  case (1 i bound step n)
  then show ?case by (subst CalculateEndIndex.simps) simp
qed

lemma range_generates:
  assumes "is_int first" "is_int bound" "0 < step"
  defines "n \<equiv> (if first < bound then (bound - first + step - 1) div step else 0)"
  assumes "n \<le> 2147483647" "is_int (first + n * step)"
  shows "\<exists>g. RangeGenerator first bound step = Inr g \<and> enumerates g (range_values first step n)"
proof -
  have "CalculateEndIndex first bound step 0 = Inr n"
  proof (rule CalculateEndIndex_total)
    show "0 \<le> n" using assms(3) unfolding n_def by (simp add: pos_imp_zdiv_nonneg_iff)
    have q: "(bound - first + step - 1) div step * step \<le> bound - first + step - 1"
      "bound - first - 1 < (bound - first + step - 1) div step * step"
      using assms(3) pos_mod_sign [of step "bound - first + step - 1"] pos_mod_bound [of step "bound - first + step - 1"]
        div_mult_mod_eq [of "bound - first + step - 1" step] by linarith+
    then show "bound \<le> first + (n - 0) * step" "0 < n \<longrightarrow> first + (n - 0 - 1) * step < bound"
      unfolding n_def by (auto simp: algebra_simps)
  qed (use assms in simp_all)
  then show ?thesis
    using enumerates_RangeGenerator [of first bound step] by (auto simp: RangeGenerator_def)
qed


subsection \<open>The odometer behind \<open>Combine\<close>\<close>

text \<open>
  What is left of a product when component \<open>i\<close> has the values \<open>cs ! i\<close> left of \<open>fs ! i\<close>: the rest for the present value of the
  first component, then everything for its later values.
\<close>

fun odometer :: "'v list list \<Rightarrow> 'v list list \<Rightarrow> 'v list list" where
  "odometer (f # fs) (c # cs) = (case c of [] \<Rightarrow> [] | x # xs \<Rightarrow> map ((#) x) (odometer fs cs) @ product_lists (xs # fs))"
| "odometer _ _ = [[]]"

lemma odometer_full: "odometer fs fs = product_lists fs" and odometer_first: "odometer (f # fs) (c # fs) = product_lists (c # fs)"
proof -
  show all: "odometer fs fs = product_lists fs" for fs :: "'v list list"
    by (induction fs) (auto split: list.split)
  show "odometer (f # fs) (c # fs) = product_lists (c # fs)" by (cases c) (simp_all add: all)
qed

lemma odometer_carry:
  assumes "length cs = length fs" "Suc i < length cs" "cs ! Suc i = []" "\<And>j. Suc i < j \<Longrightarrow> j < length cs \<Longrightarrow> cs ! j = fs ! j"
    and "cs ! i \<noteq> []"
  shows "odometer fs (cs[Suc i := fs ! Suc i, i := tl (cs ! i)]) = odometer fs cs"
  using assms
proof (induction i arbitrary: cs fs)
  case 0
  then obtain x xs ds f h gs where c: "cs = (x # xs) # [] # ds" "fs = f # h # gs"
    by (cases cs; cases fs; cases "tl cs"; cases "tl fs"; cases "hd cs") auto
  have "ds = gs" using "0.prems"(1,4) unfolding c by (intro nth_equalityI) force+
  then show ?case unfolding c by (cases xs) (simp_all add: odometer_first odometer_full)
next
  case (Suc i)
  then obtain c cs' f fs' where c: "cs = c # cs'" "fs = f # fs'" by (cases cs; cases fs) auto
  have "odometer fs' (cs'[Suc i := fs' ! Suc i, i := tl (cs' ! i)]) = odometer fs' cs'"
  proof (rule Suc.IH)
    show "cs' ! j = fs' ! j" if "Suc i < j" "j < length cs'" for j
      using Suc.prems(4) [of "Suc j"] that by (simp add: c)
  qed (use Suc.prems in \<open>simp_all add: c\<close>)
  then show ?case by (simp add: c split: list.split)
qed

lemma odometer_step:
  assumes "length cs = length fs" "cs \<noteq> []" "\<And>c. c \<in> set cs \<Longrightarrow> c \<noteq> []"
  shows "odometer fs cs = map hd cs # odometer fs (cs[length cs - 1 := tl (last cs)])"
  using assms
proof (induction cs arbitrary: fs)
  case (Cons c cs)
  then obtain x xs f fs' where c: "c = x # xs" "fs = f # fs'" by (cases c; cases fs) auto
  show ?case
  proof (cases cs)
    case Nil
    then show ?thesis using Cons.prems(1) by (simp add: c split: list.split)
  next
    case (Cons d ds)
    then have "odometer fs' cs = map hd cs # odometer fs' (cs[length cs - 1 := tl (last cs)])"
      using Cons.prems by (intro Cons.IH) (simp_all add: c)
    then show ?thesis using Cons by (simp add: c)
  qed
qed simp

lemma product_lists_Nil: "product_lists xss = [] \<longleftrightarrow> [] \<in> set xss"
  by (induction xss) (auto simp: neq_Nil_conv)

lemma odometer_stopped: "fs \<noteq> [] \<Longrightarrow> cs \<noteq> [] \<Longrightarrow> hd cs = [] \<Longrightarrow> odometer fs cs = []"
  by (cases fs; cases cs) auto

definition rests :: "(nat \<Rightarrow> 'i \<Rightarrow> 'v list) \<Rightarrow> 'i list \<Rightarrow> 'v list list" where
  "rests rem cs = map (\<lambda>j. rem j (cs ! j)) [0..<length cs]"

lemma rests_simps [simp]:
  "length (rests rem cs) = length cs" "j < length cs \<Longrightarrow> rests rem cs ! j = rem j (cs ! j)"
  "i < length cs \<Longrightarrow> rests rem (cs[i := c]) = (rests rem cs)[i := rem i c]"
  by (auto simp: rests_def nth_list_update intro!: nth_equalityI)

lemma rmap_upt: "(\<And>i. i < length ys \<Longrightarrow> f (xs ! i) = Inr (ys ! i)) \<Longrightarrow> length xs = length ys \<Longrightarrow> rmap f xs = Inr ys"
proof (induction xs arbitrary: ys)
  case (Cons x xs)
  then obtain y ys' where "ys = y # ys'" by (cases ys) auto
  moreover have "rmap f xs = Inr ys'"
    using Cons.prems Cons.prems(1) [of "Suc _"] calculation by (intro Cons.IH) force+
  ultimately show ?case using Cons.prems(1) [of 0] by simp
qed simp

lemma rests_Nil: "[] \<in> set (rests rem cs) \<longleftrightarrow> (\<exists>i < length cs. rem i (cs ! i) = [])"
  unfolding rests_def set_map set_upt by force

definition at_components ::
  "('i, 'v) generator list \<Rightarrow> (nat \<Rightarrow> 'i \<Rightarrow> bool) \<Rightarrow> 'i list \<Rightarrow> 'i list \<Rightarrow> ('i, 'v) product_iter \<Rightarrow> bool" where
  "at_components gs ok fs es it \<longleftrightarrow>
     pi_begin it = fs \<and> pi_end it = es \<and> length (pi_current it) = length gs \<and> (\<forall>i < length gs. ok i (pi_current it ! i))"

definition product_rest :: "(nat \<Rightarrow> 'i \<Rightarrow> 'v list) \<Rightarrow> 'i list \<Rightarrow> ('i, 'v) product_iter \<Rightarrow> 'v list list" where
  "product_rest rem fs it = odometer (rests rem fs) (rests rem (pi_current it))"

definition product_state ::
  "('i, 'v) generator list \<Rightarrow> (nat \<Rightarrow> 'i \<Rightarrow> bool) \<Rightarrow> (nat \<Rightarrow> 'i \<Rightarrow> 'v list) \<Rightarrow> 'i list \<Rightarrow> 'i list \<Rightarrow> ('i, 'v) product_iter \<Rightarrow> bool" where
  "product_state gs ok rem fs es it \<longleftrightarrow>
     at_components gs ok fs es it \<and>
     (if [] \<in> set (rests rem (pi_current it)) then product_rest rem fs it = []
      else [] \<notin> set (rests rem fs) \<and> pi_value it = Some (map hd (rests rem (pi_current it))))"

text \<open>Components that keep the contract of a generator.\<close>

locale param_product =
  fixes gs :: "('i, 'v) generator list" and ok :: "nat \<Rightarrow> 'i \<Rightarrow> bool" and rem :: "nat \<Rightarrow> 'i \<Rightarrow> 'v list" and fs es :: "'i list"
  assumes some: "gs \<noteq> []" "length fs = length gs" "length es = length gs"
    and component: "\<And>i. i < length gs \<Longrightarrow> param_generator (gs ! i) (ok i) (rem i) (fs ! i) (es ! i)"
begin

lemma at_component:
  "i < length gs \<Longrightarrow> ok i c \<Longrightarrow> g_equals (gs ! i) c (es ! i) \<longleftrightarrow> rem i c = []"
  using param_generator.at_stop [OF component] by simp

lemma AtEnd_rests:
  "pi_end it = es \<Longrightarrow> length (pi_current it) = length gs \<Longrightarrow> \<forall>i < length gs. ok i (pi_current it ! i) \<Longrightarrow>
   AtEnd gs it \<longleftrightarrow> [] \<in> set (rests rem (pi_current it))"
  unfolding AtEnd_def list_ex_iff rests_Nil by (auto simp: at_component Bex_def)

text \<open>The value is computed when no component is at its end.\<close>

lemma computed:
  assumes "at_components gs ok fs es it"
    and "[] \<in> set (rests rem (pi_current it)) \<Longrightarrow> product_rest rem fs it = []"
    and "[] \<notin> set (rests rem (pi_current it)) \<Longrightarrow> [] \<notin> set (rests rem fs)"
  shows "\<exists>it'. ComputeCurrentValue gs it = Inr it' \<and> product_state gs ok rem fs es it' \<and> pi_current it' = pi_current it"
proof (cases "AtEnd gs it")
  case True
  with assms AtEnd_rests [of it] show ?thesis
    by (auto simp: ComputeCurrentValue_def product_state_def at_components_def)
next
  case False
  let ?cs = "rests rem (pi_current it)"
  from False assms(1) AtEnd_rests [of it] have n: "[] \<notin> set ?cs" "length (pi_current it) = length gs"
    by (simp_all add: at_components_def)
  have "rmap (\<lambda>i. g_current (gs ! i) (pi_current it ! i)) [0..<length gs] = Inr (map hd ?cs)"
  proof (rule rmap_upt)
    fix i assume i: "i < length (map hd ?cs)"
    with n have "rem i (pi_current it ! i) \<noteq> []" by (auto simp: rests_Nil)
    then have "rem i (pi_current it ! i) = hd (?cs ! i) # tl (?cs ! i)" using i by simp
    then show "g_current (gs ! ([0..<length gs] ! i)) (pi_current it ! ([0..<length gs] ! i)) = Inr (map hd ?cs ! i)"
      using i n(2) assms(1) param_generator.reads [OF component, of i] by (simp add: at_components_def)
  qed (use n in simp)
  with False n assms show ?thesis
    by (auto simp: ComputeCurrentValue_def product_state_def at_components_def product_rest_def)
qed

text \<open>The carry keeps what is left, and only the first component can be at its end after it.\<close>

lemma carried:
  assumes "at_components gs ok fs es it" "i < length gs" "[] \<notin> set (rests rem fs)"
    and "\<And>j. i < j \<Longrightarrow> j < length gs \<Longrightarrow> rem j (pi_current it ! j) = rem j (fs ! j)"
    and "\<And>j. j < i \<Longrightarrow> rem j (pi_current it ! j) \<noteq> []"
  shows "\<exists>it'. AdvanceIfEnd gs i it = Inr it' \<and> at_components gs ok fs es it' \<and> product_rest rem fs it' = product_rest rem fs it \<and>
    (\<forall>j. 0 < j \<and> j < length gs \<longrightarrow> rem j (pi_current it' ! j) \<noteq> [])"
  using assms
proof (induction i arbitrary: it)
  case 0
  then show ?case using some by (auto simp: rests_Nil)
next
  case (Suc i)
  have len: "length (pi_current it) = length gs" "pi_end it = es" "pi_begin it = fs"
    and oks: "\<And>j. j < length gs \<Longrightarrow> ok j (pi_current it ! j)"
    using Suc.prems(1) by (auto simp: at_components_def)
  have full: "rem j (fs ! j) \<noteq> []" if "j < length gs" for j using Suc.prems(3) that some by (auto simp: rests_Nil)
  show ?case
  proof (cases "rem (Suc i) (pi_current it ! Suc i) = []")
    case False
    then have "rem j (pi_current it ! j) \<noteq> []" if "j < length gs" for j
      using Suc.prems(4,5) full that by (cases j "Suc i" rule: linorder_cases) auto
    with False Suc.prems len oks show ?thesis by (simp add: at_component)
  next
    case True
    have i: "i < length gs" "Suc i < length gs" using Suc.prems(2) by simp_all
    obtain v vs where v: "rem i (pi_current it ! i) = v # vs" using Suc.prems(5) [of i] by (auto simp: neq_Nil_conv)
    then obtain c where c: "g_advance (gs ! i) (pi_current it ! i) = Inr c" "ok i c" "rem i c = vs"
      using param_generator.moves [OF component] i oks by blast
    let ?it = "it\<lparr>pi_current := (pi_current it)[Suc i := fs ! Suc i, i := c]\<rparr>"
    have at: "at_components gs ok fs es ?it"
      using Suc.prems(1) c i oks param_generator.ends(3) [OF component]
      by (auto simp: at_components_def nth_list_update)
    have rest: "product_rest rem fs ?it = product_rest rem fs it"
      using odometer_carry [of "rests rem (pi_current it)" "rests rem fs" i] True v c i len some Suc.prems(4)
      by (simp add: product_rest_def)
    have "\<exists>it'. AdvanceIfEnd gs i ?it = Inr it' \<and> at_components gs ok fs es it' \<and>
        product_rest rem fs it' = product_rest rem fs ?it \<and> (\<forall>j. 0 < j \<and> j < length gs \<longrightarrow> rem j (pi_current it' ! j) \<noteq> [])"
    proof (rule Suc.IH [OF at i(1) Suc.prems(3)])
      show "rem j (pi_current ?it ! j) = rem j (fs ! j)" if "i < j" "j < length gs" for j
        using that Suc.prems(4) len by (cases "j = Suc i") auto
      show "rem j (pi_current ?it ! j) \<noteq> []" if "j < i" for j using that Suc.prems(5) by simp
    qed
    with True c i len oks rest show ?thesis by (simp add: at_component)
  qed
qed

lemma advanced:
  assumes "product_state gs ok rem fs es it" "product_rest rem fs it = v # vs"
  shows "\<exists>it'. Advance gs it = Inr it' \<and> product_state gs ok rem fs es it' \<and> product_rest rem fs it' = vs"
proof -
  let ?n = "length gs - 1" and ?cs = "rests rem (pi_current it)"
  from assms have at: "at_components gs ok fs es it" and ne: "[] \<notin> set ?cs" "[] \<notin> set (rests rem fs)"
    by (auto simp: product_state_def split: if_splits)
  then have len: "length (pi_current it) = length gs" "pi_end it = es" and oks: "\<And>j. j < length gs \<Longrightarrow> ok j (pi_current it ! j)"
    by (auto simp: at_components_def)
  have n: "?n < length gs" using some by simp
  have nonempty: "rem j (pi_current it ! j) \<noteq> []" if "j < length gs" for j using ne(1) that len by (auto simp: rests_Nil)
  obtain x xs where x: "rem ?n (pi_current it ! ?n) = x # xs" using nonempty [OF n] by (auto simp: neq_Nil_conv)
  then obtain c where c: "g_advance (gs ! ?n) (pi_current it ! ?n) = Inr c" "ok ?n c" "rem ?n c = xs"
    using param_generator.moves [OF component] n oks by blast
  let ?it = "it\<lparr>pi_current := (pi_current it)[?n := c]\<rparr>"
  have cs: "?cs \<noteq> []" "last ?cs = x # xs" using len some x by (auto simp: last_conv_nth rests_def)
  have "product_rest rem fs it = map hd ?cs # odometer (rests rem fs) (?cs[?n := xs])"
    using odometer_step [of ?cs "rests rem fs"] cs len some ne by (metis list.sel(3) product_rest_def rests_simps(1))
  with assms(2) have vs: "product_rest rem fs ?it = vs" using c n len by (simp add: product_rest_def)
  have at': "at_components gs ok fs es ?it" using at c n by (auto simp: at_components_def nth_list_update)
  have "\<exists>it'. AdvanceIfEnd gs ?n ?it = Inr it' \<and> at_components gs ok fs es it' \<and> product_rest rem fs it' = product_rest rem fs ?it \<and>
    (\<forall>j. 0 < j \<and> j < length gs \<longrightarrow> rem j (pi_current it' ! j) \<noteq> [])"
    using nonempty n by (intro carried [OF at' n ne(2)]) auto
  then obtain it1 where it1: "AdvanceIfEnd gs ?n ?it = Inr it1" "at_components gs ok fs es it1" "product_rest rem fs it1 = vs"
    "\<And>j. 0 < j \<Longrightarrow> j < length gs \<Longrightarrow> rem j (pi_current it1 ! j) \<noteq> []" using vs by auto
  have "product_rest rem fs it1 = []" if "[] \<in> set (rests rem (pi_current it1))"
  proof -
    have l: "length (pi_current it1) = length gs" using it1(2) by (simp add: at_components_def)
    from that it1(4) l have "rem 0 (pi_current it1 ! 0) = []" by (auto simp: rests_Nil) (metis neq0_conv)
    with l some show ?thesis unfolding product_rest_def
      by (intro odometer_stopped) (auto simp: hd_conv_nth simp flip: length_greater_0_conv)
  qed
  then obtain it' where "ComputeCurrentValue gs it1 = Inr it'" "product_state gs ok rem fs es it'" "pi_current it' = pi_current it1"
    using computed [OF it1(2)] ne by blast
  with it1 c len at ne AtEnd_rests [of it] oks show ?thesis by (auto simp: Advance_def product_rest_def)
qed

text \<open>The product keeps the contract as well: it runs through the products of the values of its components.\<close>

lemma enumerates_product:
  "enumerates (CartesianProductGenerator gs) (product_lists (rests rem fs))"
proof -
  have b: "rmap g_begin gs = Inr fs" "rmap g_end gs = Inr es"
    using some param_generator.ends(1,2) [OF component] by (auto intro!: rmap_upt)
  let ?it0 = "\<lambda>cs. \<lparr>pi_begin = fs, pi_end = es, pi_current = cs, pi_value = None\<rparr>"
  have fit: "at_components gs ok fs es (?it0 fs)" and eit: "at_components gs ok fs es (?it0 es)"
    using some param_generator.ends(3,4) [OF component] by (simp_all add: at_components_def)
  have er: "[] \<in> set (rests rem es)" using some param_generator.ends(5) [OF component, of 0] by (auto simp: rests_Nil)
  have es0: "product_rest rem fs (?it0 es) = []"
    unfolding product_rest_def using some param_generator.ends(5) [OF component, of 0]
    by (intro odometer_stopped) (auto simp: hd_conv_nth simp flip: length_greater_0_conv)
  from computed [OF fit] obtain f where f: "ComputeCurrentValue gs (?it0 fs) = Inr f"
      "product_state gs ok rem fs es f" "pi_current f = fs"
    by (auto simp: product_rest_def odometer_full product_lists_Nil)
  from computed [OF eit] er es0 obtain e where e: "ComputeCurrentValue gs (?it0 es) = Inr e"
      "product_state gs ok rem fs es e" "pi_current e = es"
    by auto
  have eqs: "AtEnd gs it \<longleftrightarrow> product_rest rem fs it = []" if "product_state gs ok rem fs es it" for it
  proof -
    from that AtEnd_rests [of it] have a: "AtEnd gs it \<longleftrightarrow> [] \<in> set (rests rem (pi_current it))"
      and l: "length (pi_current it) = length gs"
      by (auto simp: product_state_def at_components_def)
    show ?thesis
    proof (cases "[] \<in> set (rests rem (pi_current it))")
      case False
      then have "odometer (rests rem fs) (rests rem (pi_current it)) \<noteq> []"
        using odometer_step [of "rests rem (pi_current it)" "rests rem fs"] l some by (metis length_0_conv list.distinct(1) rests_simps(1))
      with a False show ?thesis by (simp add: product_rest_def)
    qed (use that a in \<open>simp add: product_state_def\<close>)
  qed
  have "param_generator (CartesianProductGenerator gs) (product_state gs ok rem fs es) (product_rest rem fs) f e"
  proof
    show "g_begin (CartesianProductGenerator gs) = Inr f" "g_end (CartesianProductGenerator gs) = Inr e"
      using b f e by (simp_all add: CartesianProductGenerator_def IteratorImpl_def)
    show "product_rest rem fs e = []" using es0 e(3) by (simp add: product_rest_def)
    then have ae: "AtEnd gs e" using eqs [OF e(2)] by simp
    fix it :: "('i, 'v) product_iter" assume st: "product_state gs ok rem fs es it"
    have "g_equals (gs ! 0) (pi_current it ! 0) (es ! 0) \<Longrightarrow> AtEnd gs it"
      using st some unfolding AtEnd_def list_ex_iff by (auto simp: product_state_def at_components_def intro!: bexI [of _ 0])
    then show "g_equals (CartesianProductGenerator gs) it e \<longleftrightarrow> product_rest rem fs it = []"
      using eqs [OF st] ae e(3) some by (auto simp: CartesianProductGenerator_def product_equals_def list_all_iff)
  next
    fix it :: "('i, 'v) product_iter" and v vs
    assume st: "product_state gs ok rem fs es it" and r: "product_rest rem fs it = v # vs"
    from st r have "[] \<notin> set (rests rem (pi_current it))" "pi_value it = Some (map hd (rests rem (pi_current it)))"
      and l: "length (pi_current it) = length gs"
      by (auto simp: product_state_def at_components_def split: if_splits)
    moreover from this(1) l some r have "v = map hd (rests rem (pi_current it))"
      using odometer_step [of "rests rem (pi_current it)" "rests rem fs"]
      by (metis length_0_conv list.inject product_rest_def rests_simps(1))
    ultimately show "g_current (CartesianProductGenerator gs) it = Inr v"
      by (simp add: CartesianProductGenerator_def product_current_def)
    show "\<exists>it'. g_advance (CartesianProductGenerator gs) it = Inr it' \<and> product_state gs ok rem fs es it' \<and> product_rest rem fs it' = vs"
      using advanced [OF st r] by (simp add: CartesianProductGenerator_def)
  qed (use f e in simp_all)
  moreover have "product_rest rem fs f = product_lists (rests rem fs)" using f(3) by (simp add: product_rest_def odometer_full)
  ultimately show ?thesis unfolding enumerates_def by blast
qed

end

interpretation lists: param_product "map ValuesIn (xs # xss)" "\<lambda>i j. j \<le> length ((xs # xss) ! i)" "\<lambda>i j. drop j ((xs # xss) ! i)"
  "replicate (Suc (length xss)) 0" "map length (xs # xss)" for xs xss
proof (rule param_product.intro)
  fix i assume "i < length (map ValuesIn (xs # xss))"
  then show "param_generator (map ValuesIn (xs # xss) ! i) (\<lambda>j. j \<le> length ((xs # xss) ! i)) (\<lambda>j. drop j ((xs # xss) ! i))
      (replicate (Suc (length xss)) 0 ! i) (map length (xs # xss) ! i)"
    using vals.param_generator_axioms [of "(xs # xss) ! i"] by (simp del: replicate_Suc list.map)
qed simp_all

lemma enumerates_CartesianProductGenerator:
  assumes "list_all2 enumerates gs xss" "gs \<noteq> []"
  shows "enumerates (CartesianProductGenerator gs) (product_lists xss)"
proof -
  have len: "length xss = length gs" using assms(1) by (simp add: list_all2_lengthD)
  have "\<forall>i. \<exists>okr. i < length gs \<longrightarrow> (case okr of (ok, rem, first, stop_it) \<Rightarrow>
      param_generator (gs ! i) ok rem first stop_it \<and> rem first = xss ! i)"
    using assms(1) by (auto simp: list_all2_conv_all_nth enumerates_def split_paired_Ex)
  then have "\<exists>f. \<forall>i. i < length gs \<longrightarrow> (case f i of (ok, rem, first, stop_it) \<Rightarrow>
      param_generator (gs ! i) ok rem first stop_it \<and> rem first = xss ! i)" by (rule choice)
  then obtain f where f: "\<And>i. i < length gs \<Longrightarrow> (case f i of (ok, rem, first, stop_it) \<Rightarrow>
      param_generator (gs ! i) ok rem first stop_it \<and> rem first = xss ! i)" by blast
  let ?ok = "\<lambda>i. fst (f i)" and ?rem = "\<lambda>i. fst (snd (f i))"
  let ?fs = "map (\<lambda>i. fst (snd (snd (f i)))) [0..<length gs]" and ?es = "map (\<lambda>i. snd (snd (snd (f i)))) [0..<length gs]"
  have "param_product gs ?ok ?rem ?fs ?es"
    using assms(2) f by (intro param_product.intro) (simp_all add: case_prod_beta)
  then have "enumerates (CartesianProductGenerator gs) (product_lists (rests ?rem ?fs))"
    by (rule param_product.enumerates_product)
  moreover have "rests ?rem ?fs = xss" using f len by (intro nth_equalityI) (auto simp: case_prod_beta)
  ultimately show ?thesis by simp
qed


subsection \<open>The loop over all combinations\<close>

text \<open>C38. For any generators that keep the contract (values of containers, ranges, conversions and combinations do), the loop over their
  combination ends and sees every combination of their values once, the last component moving fastest, and none at all when
  some component has no values.\<close>

theorem combinations_enumerated:
  assumes "list_all2 enumerates gs xss" "gs \<noteq> []"
  shows "over_params (CartesianProductGenerator gs) body s =
    Some (rfold (\<lambda>(i, vs). body i vs) (enumerate 0 (product_lists xss)) s)"
  by (rule enumerates_loop [OF enumerates_CartesianProductGenerator [OF assms]])

theorem combinations_enumerated_witness:
  "over_params (CartesianProductGenerator (map ValuesIn [[1, 2], [3], [4, 5 :: int]])) (\<lambda>i vs s. Inr (s @ [(i, vs)])) [] =
     Some (Inr [(0, [1, 3, 4]), (1, [1, 3, 5]), (2, [2, 3, 4]), (3, [2, 3, 5])])"
  using combinations_enumerated [of "map ValuesIn [[1, 2], [3], [4, 5 :: int]]" "[[1, 2], [3], [4, 5]]"
      "\<lambda>i vs s. Inr (s @ [(i, vs)])" "[]"]
  by (simp add: enumerates_ValuesIn)

end
