(* ===== verification/Gt_Register.thy ===== *)
theory Gt_Register
  imports Gt_Params Gt_Report Gm_Utils
begin

section \<open>The registration of tests\<close>

text \<open>
  How tests get into the list of suites: \<open>GetTestSuite\<close> and \<open>AddTestInfo\<close> (\<open>gtest.cc\<close>, \<open>gtest-internal-inl.h\<close>), the expansion
  of value-parameterized tests (\<open>gtest-param-util.h\<close>) and the bookkeeping of typed tests (\<open>gtest-typed-test.cc\<close>,
  \<open>gtest-internal.h\<close>).  The object that creates a test is a value of the type \<open>'c\<close> or a \<open>FailureTest\<close>; a \<open>TypeId\<close> is a
  number, and so are the functions that set up and tear down a suite.
\<close>

subsection \<open>Suites and tests\<close>

type_synonym location = "string \<times> int"

datatype 'c factory = UserTest 'c | FailureTest location string bool

record 'c test_entry =
  te_suite :: string
  te_name :: string
  te_type_param :: "string option"
  te_value_param :: "string option"
  te_location :: location
  te_fixture :: nat
  te_factory :: "'c factory"

record 'c suite_entry =
  se_name :: string
  se_type_param :: "string option"
  se_hooks :: "nat option \<times> nat option"
  se_tests :: "'c test_entry list"
  se_indices :: "nat list"

record 'c registry =
  rg_suites :: "'c suite_entry list"
  rg_indices :: "nat list"
  rg_last_death :: int
  rg_working_dir :: string

definition new_registry :: "'c registry" where
  "new_registry = \<lparr>rg_suites = [], rg_indices = [], rg_last_death = - 1, rg_working_dir = []\<rparr>"

definition kDeathTestSuiteFilter :: string where
  "kDeathTestSuiteFilter = ''*DeathTest:*DeathTest/*''"

text \<open>\<open>std::find_if\<close> from the last suite to the first, with the predicate \<open>TestSuiteNameIs\<close>.\<close>

definition find_suite :: "string \<Rightarrow> 'c suite_entry list \<Rightarrow> nat option" where
  "find_suite name ss = find (\<lambda>i. se_name (ss ! i) = name) (rev [0..<length ss])"

definition insert_at :: "nat \<Rightarrow> 'a \<Rightarrow> 'a list \<Rightarrow> stop + 'a list" where
  "insert_at i x xs = (if i \<le> length xs then Inr (take i xs @ x # drop i xs) else Inl Overflow)"

text \<open>The result is the position of the suite.\<close>

definition GetTestSuite ::
  "string \<Rightarrow> string option \<Rightarrow> nat option \<times> nat option \<Rightarrow> 'c registry \<Rightarrow> stop + nat \<times> 'c registry" where
  "GetTestSuite test_suite_name type_param hooks r =
     (case find_suite test_suite_name (rg_suites r) of
        Some i \<Rightarrow> Inr (i, r)
      | None \<Rightarrow>
          let new_test_suite = \<lparr>se_name = test_suite_name, se_type_param = type_param, se_hooks = hooks,
                                se_tests = [], se_indices = []\<rparr>;
              indices = rg_indices r @ [length (rg_indices r)]
          in bindr (matches (MatchesName (UnitTestFilter kDeathTestSuiteFilter) test_suite_name)) (\<lambda>is_death_test.
               if is_death_test
               then let l = rg_last_death r + 1 in
                    bindr (insert_at (nat l) new_test_suite (rg_suites r)) (\<lambda>ss.
                      Inr (nat l, r\<lparr>rg_last_death := l, rg_suites := ss, rg_indices := indices\<rparr>))
               else Inr (length (rg_suites r), r\<lparr>rg_suites := rg_suites r @ [new_test_suite], rg_indices := indices\<rparr>)))"

definition TestSuite_AddTestInfo :: "'c test_entry \<Rightarrow> 'c suite_entry \<Rightarrow> 'c suite_entry" where
  "TestSuite_AddTestInfo t s =
     s\<lparr>se_tests := se_tests s @ [t], se_indices := se_indices s @ [length (se_indices s)]\<rparr>"

text \<open>\<open>cwd\<close>: what \<open>FilePath::GetCurrentDir\<close> gives, empty when it fails.\<close>

definition AddTestInfo ::
  "string \<Rightarrow> nat option \<times> nat option \<Rightarrow> 'c test_entry \<Rightarrow> 'c registry \<Rightarrow> stop + 'c registry" where
  "AddTestInfo cwd hooks t r =
     bindr (if rg_working_dir r = [] then if cwd = [] then Inl Assert_fail else Inr (r\<lparr>rg_working_dir := cwd\<rparr>) else Inr r) (\<lambda>r1.
     bindr (GetTestSuite (te_suite t) (te_type_param t) hooks r1) (\<lambda>(i, r2).
     bindr (vat (rg_suites r2) i) (\<lambda>s. Inr (r2\<lparr>rg_suites := (rg_suites r2)[i := TestSuite_AddTestInfo t s]\<rparr>))))"

definition MakeAndRegisterTestInfo ::
  "string \<Rightarrow> string \<Rightarrow> string \<Rightarrow> string option \<Rightarrow> string option \<Rightarrow> location \<Rightarrow> nat \<Rightarrow> nat option \<times> nat option \<Rightarrow>
   'c factory \<Rightarrow> 'c registry \<Rightarrow> stop + 'c registry" where
  "MakeAndRegisterTestInfo cwd test_suite_name name type_param value_param code_location fixture_class_id hooks factory r =
     AddTestInfo cwd hooks
       \<lparr>te_suite = test_suite_name, te_name = name, te_type_param = type_param, te_value_param = value_param,
        te_location = code_location, te_fixture = fixture_class_id, te_factory = factory\<rparr> r"

subsection \<open>Tests that report a missing instantiation\<close>

text \<open>What the body of a \<open>FailureTest\<close> records, and what it prints.\<close>

definition FailureTest_TestBody :: "location \<Rightarrow> string \<Rightarrow> bool \<Rightarrow> test_part list \<times> string" where
  "FailureTest_TestBody loc error_message as_error =
     (if as_error
      then ([TestPartResult kNonFatalFailure (Some (fst loc)) (snd loc) (AppendUserMessage [] error_message)], [])
      else ([], error_message @ [LF]))"

definition kErrorOnUninstantiatedParameterizedTest :: bool where
  "kErrorOnUninstantiatedParameterizedTest = True"

definition kErrorOnUninstantiatedTypeParameterizedTest :: bool where
  "kErrorOnUninstantiatedTypeParameterizedTest = True"

definition kMissingInstantiation :: string where
  "kMissingInstantiation =
     '' is defined via TEST_P, but never instantiated. None of the test cases '' @
     ''will run. Either no INSTANTIATE_TEST_SUITE_P is provided or the only '' @
     ''ones provided expand to nothing.'' @ [LF, LF] @
     ''Ideally, TEST_P definitions should only ever be included as part of '' @
     ''binaries that intend to use them. (As opposed to, for example, being '' @
     ''placed in a library that may be linked in to get other utilities.)''"

definition kMissingTestCase :: string where
  "kMissingTestCase =
     '' is instantiated via INSTANTIATE_TEST_SUITE_P, but no tests are '' @
     ''defined via TEST_P . No test cases will run.'' @ [LF, LF] @
     ''Ideally, INSTANTIATE_TEST_SUITE_P should only ever be invoked from '' @
     ''code that always depend on code that provides TEST_P. Failing to do '' @
     ''so is often an indication of dead code, e.g. the last TEST_P was '' @
     ''removed but the rest got left behind.''"

definition suppress_hint :: "string \<Rightarrow> string" where
  "suppress_hint name =
     [LF, LF] @ ''To suppress this error for this test suite, insert the following line '' @
     ''(in a non-header) in the namespace it is defined in:'' @ [LF, LF] @
     ''GTEST_ALLOW_UNINSTANTIATED_PARAMETERIZED_TEST('' @ name @ '');''"

text \<open>The current directory, the suites that may stay without instances, and the class \<open>FailureTest\<close>.\<close>

record register_env =
  re_cwd :: string
  re_ignored :: "string list"
  re_failure_class :: nat

definition MarkAsIgnored :: "string \<Rightarrow> register_env \<Rightarrow> register_env" where
  "MarkAsIgnored test_suite env = env\<lparr>re_ignored := List.insert test_suite (re_ignored env)\<rparr>"

definition InsertSyntheticTestCase :: "register_env \<Rightarrow> string \<Rightarrow> location \<Rightarrow> bool \<Rightarrow> 'c registry \<Rightarrow> stop + 'c registry" where
  "InsertSyntheticTestCase env name location has_test_p r =
     (if name \<in> set (re_ignored env) then Inr r
      else let message = ''Parameterized test suite '' @ name @
                         (if has_test_p then kMissingInstantiation else kMissingTestCase) @ suppress_hint name;
               full_name = ''UninstantiatedParameterizedTestSuite<'' @ name @ ''>''
           in MakeAndRegisterTestInfo (re_cwd env) ''GoogleTestVerification'' full_name None None location
                (re_failure_class env) (None, None)
                (FailureTest location message kErrorOnUninstantiatedParameterizedTest) r)"

subsection \<open>Value-parameterized tests\<close>

record ('v, 'c) test_pattern =
  pat_suite :: string
  pat_name :: string
  pat_factory :: "'v \<Rightarrow> 'c"
  pat_location :: location

record ('i, 'v) instantiation_info =
  inst_name :: string
  inst_generator :: "stop + ('i, 'v) generator"
  inst_name_func :: "'v \<Rightarrow> nat \<Rightarrow> string"
  inst_file :: string
  inst_line :: int

text \<open>\<open>ps_print\<close> stands for \<open>PrintToString\<close> on the parameters.\<close>

record ('i, 'v, 'c) param_suite =
  ps_name :: string
  ps_location :: location
  ps_type :: nat
  ps_hooks :: "nat option \<times> nat option"
  ps_print :: "'v \<Rightarrow> string"
  ps_tests :: "('v, 'c) test_pattern list"
  ps_instantiations :: "('i, 'v) instantiation_info list"

definition AddTestPattern :: "('v, 'c) test_pattern \<Rightarrow> ('i, 'v, 'c) param_suite \<Rightarrow> ('i, 'v, 'c) param_suite" where
  "AddTestPattern t ps = ps\<lparr>ps_tests := ps_tests ps @ [t]\<rparr>"

definition AddTestSuiteInstantiation ::
  "('i, 'v) instantiation_info \<Rightarrow> ('i, 'v, 'c) param_suite \<Rightarrow> ('i, 'v, 'c) param_suite" where
  "AddTestSuiteInstantiation i ps = ps\<lparr>ps_instantiations := ps_instantiations ps @ [i]\<rparr>"

definition DefaultParamName :: "'v \<Rightarrow> nat \<Rightarrow> string" where
  "DefaultParamName v index = dec_nat index"

definition IsValidParamName :: "string \<Rightarrow> bool" where
  "IsValidParamName name \<longleftrightarrow> name \<noteq> [] \<and> list_all (\<lambda>c. IsAlNum c \<or> c = CHR ''_'') name"

record 'c param_state =
  pm_registry :: "'c registry"
  pm_names :: "string list"
  pm_generated :: bool

definition param_suite_name :: "('i, 'v) instantiation_info \<Rightarrow> ('v, 'c) test_pattern \<Rightarrow> string" where
  "param_suite_name inst t = (if inst_name inst = [] then [] else inst_name inst @ ''/'') @ pat_suite t"

definition param_test_name :: "('v, 'c) test_pattern \<Rightarrow> string \<Rightarrow> string" where
  "param_test_name t param_name = (if pat_name t = [] then [] else pat_name t @ ''/'') @ param_name"

text \<open>The body of the inner loop, for the value \<open>v\<close> with the number \<open>i\<close>.\<close>

definition register_value ::
  "register_env \<Rightarrow> ('i, 'v, 'c) param_suite \<Rightarrow> ('v, 'c) test_pattern \<Rightarrow> ('i, 'v) instantiation_info \<Rightarrow>
   nat \<Rightarrow> 'v \<Rightarrow> 'c param_state \<Rightarrow> stop + 'c param_state" where
  "register_value env ps t inst i v st =
     (let param_name = inst_name_func inst v i in
      if \<not> IsValidParamName param_name then Inl Assert_fail
      else if param_name \<in> set (pm_names st) then Inl Assert_fail
      else bindr (MakeAndRegisterTestInfo (re_cwd env) (param_suite_name inst t) (param_test_name t param_name) None
                    (Some (ps_print ps v)) (pat_location t) (ps_type ps) (ps_hooks ps) (UserTest (pat_factory t v))
                    (pm_registry st)) (\<lambda>r.
             Inr \<lparr>pm_registry = r, pm_names = param_name # pm_names st, pm_generated = True\<rparr>))"

definition register_instantiation ::
  "register_env \<Rightarrow> ('i, 'v, 'c) param_suite \<Rightarrow> ('v, 'c) test_pattern \<Rightarrow> ('i, 'v) instantiation_info \<Rightarrow>
   'c param_state \<Rightarrow> (stop + 'c param_state) option" where
  "register_instantiation env ps t inst st =
     (case inst_generator inst of
        Inl e \<Rightarrow> Some (Inl e)
      | Inr g \<Rightarrow> over_params g (register_value env ps t inst) (st\<lparr>pm_names := []\<rparr>))"

text \<open>A loop over a vector whose body may not end.\<close>

fun ofold :: "('a \<Rightarrow> 's \<Rightarrow> (stop + 's) option) \<Rightarrow> 'a list \<Rightarrow> 's \<Rightarrow> (stop + 's) option" where
  "ofold f [] s = Some (Inr s)"
| "ofold f (x # xs) s =
     (case f x s of None \<Rightarrow> None | Some (Inl e) \<Rightarrow> Some (Inl e) | Some (Inr s') \<Rightarrow> ofold f xs s')"

definition RegisterTests ::
  "register_env \<Rightarrow> ('i, 'v, 'c) param_suite \<Rightarrow> 'c registry \<Rightarrow> (stop + 'c registry) option" where
  "RegisterTests env ps r =
     map_option (\<lambda>res. bindr res (\<lambda>st.
         if \<not> pm_generated st
         then InsertSyntheticTestCase env (ps_name ps) (ps_location ps) (ps_tests ps \<noteq> []) (pm_registry st)
         else Inr (pm_registry st)))
       (ofold (\<lambda>t. ofold (register_instantiation env ps t) (ps_instantiations ps)) (ps_tests ps)
          \<lparr>pm_registry = r, pm_names = [], pm_generated = False\<rparr>)"

text \<open>All suites with parameters; here their iterators, values and factories have one type.  The suite is found or made.\<close>

definition GetTestSuitePatternHolder ::
  "string \<Rightarrow> location \<Rightarrow> nat \<Rightarrow> nat option \<times> nat option \<Rightarrow> ('v \<Rightarrow> string) \<Rightarrow> ('i, 'v, 'c) param_suite list \<Rightarrow>
   stop + nat \<times> ('i, 'v, 'c) param_suite list" where
  "GetTestSuitePatternHolder test_suite_name code_location type_id hooks print infos =
     (case find (\<lambda>i. ps_name (infos ! i) = test_suite_name) [0..<length infos] of
        Some i \<Rightarrow> if ps_type (infos ! i) \<noteq> type_id then Inl Assert_fail else Inr (i, infos)
      | None \<Rightarrow> Inr (length infos, infos @ [\<lparr>ps_name = test_suite_name, ps_location = code_location, ps_type = type_id,
                       ps_hooks = hooks, ps_print = print, ps_tests = [], ps_instantiations = []\<rparr>]))"

definition Registry_RegisterTests ::
  "register_env \<Rightarrow> ('i, 'v, 'c) param_suite list \<Rightarrow> 'c registry \<Rightarrow> (stop + 'c registry) option" where
  "Registry_RegisterTests env = ofold (RegisterTests env)"

text \<open>What is logged before the program is aborted for a suite with two fixtures.\<close>

definition ReportInvalidTestSuiteType :: "string \<Rightarrow> location \<Rightarrow> string" where
  "ReportInvalidTestSuiteType test_suite_name code_location =
     FormatFileLocation (Some (fst code_location)) (snd code_location) @ '' '' @
     ''Attempted redefinition of test suite '' @ test_suite_name @ ''.'' @ [LF] @
     ''All tests in the same test suite must use the same test fixture'' @ [LF] @
     ''class.  However, in test suite '' @ test_suite_name @ '', you tried'' @ [LF] @
     ''to define a test using a fixture class different from the one'' @ [LF] @
     ''used earlier. This can happen if the two fixture classes are'' @ [LF] @
     ''from different namespaces and have the same name. You should'' @ [LF] @
     ''probably rename one of the classes to put the tests into different'' @ [LF] @
     ''test suites.''"


subsection \<open>The registry stays in order\<close>

text \<open>
  Suites have different names, the death tests stand first, the orders of suites and tests are those of the registration, and a
  suite holds tests of its name only.  \<open>tests_of\<close> is what a registry means: the tests of a suite in their order.
\<close>

definition death_suite :: "'c suite_entry \<Rightarrow> bool" where
  "death_suite s \<longleftrightarrow> accepted kDeathTestSuiteFilter (se_name s)"

definition suite_in_order :: "'c suite_entry \<Rightarrow> bool" where
  "suite_in_order s \<longleftrightarrow> se_indices s = [0..<length (se_tests s)] \<and> (\<forall>t \<in> set (se_tests s). te_suite t = se_name s)"

definition registry_ok :: "'c registry \<Rightarrow> bool" where
  "registry_ok r \<longleftrightarrow>
     distinct (map se_name (rg_suites r)) \<and> rg_indices r = [0..<length (rg_suites r)] \<and>
     - 1 \<le> rg_last_death r \<and> rg_last_death r < int (length (rg_suites r)) \<and>
     list_all death_suite (take (nat (rg_last_death r + 1)) (rg_suites r)) \<and>
     list_all (\<lambda>s. \<not> death_suite s) (drop (nat (rg_last_death r + 1)) (rg_suites r)) \<and>
     list_all suite_in_order (rg_suites r)"

definition tests_of :: "'c registry \<Rightarrow> string \<Rightarrow> 'c test_entry list" where
  "tests_of r n = concat (map se_tests (filter (\<lambda>s. se_name s = n) (rg_suites r)))"

definition extends :: "'c registry \<Rightarrow> 'c test_entry list \<Rightarrow> 'c registry \<Rightarrow> bool" where
  "extends r ts r' \<longleftrightarrow> registry_ok r' \<and> (\<forall>n. tests_of r' n = tests_of r n @ filter (\<lambda>t. te_suite t = n) ts)"

lemma glob_behind: "\<not> IsGlobPattern p \<Longrightarrow> glob (p @ ''*'') n \<longleftrightarrow> (\<exists>q. n = p @ q)"
proof (induction p arbitrary: n)
  case (Cons c p)
  then show ?case by (cases n) (auto simp: IsGlobPattern_def)
qed auto

lemma glob_star: "glob (CHR ''*'' # p) n \<longleftrightarrow> (\<exists>a b. n = a @ b \<and> glob p b)"
  by (simp, metis append_eq_conv_conj append_take_drop_id le_add1 length_append)

text \<open>A suite of death tests is one whose name ends with \<open>DeathTest\<close> or has \<open>DeathTest/\<close> in it.\<close>

lemma death_suite_iff:
  "death_suite s \<longleftrightarrow> (\<exists>p. se_name s = p @ ''DeathTest'') \<or> (\<exists>p q. se_name s = p @ ''DeathTest/'' @ q)"
proof -
  have sp: "SplitString kDeathTestSuiteFilter CHR '':'' = [''*DeathTest'', ''*DeathTest/*'']" by code_simp
  have p: "\<not> IsGlobPattern ''DeathTest''" "\<not> IsGlobPattern ''DeathTest/''" by code_simp+
  have "death_suite s \<longleftrightarrow> glob ''*DeathTest'' (se_name s) \<or> glob (CHR ''*'' # ''DeathTest/'' @ ''*'') (se_name s)"
    unfolding death_suite_def accepted_def sp by simp
  then show ?thesis unfolding glob_star glob_plain [OF p(1)] glob_behind [OF p(2)] by blast
qed

lemma find_suite_iff:
  "find_suite n ss = None \<longleftrightarrow> n \<notin> se_name ` set ss"
  "find_suite n ss = Some i \<Longrightarrow> i < length ss \<and> se_name (ss ! i) = n"
proof -
  show "find_suite n ss = None \<longleftrightarrow> n \<notin> se_name ` set ss"
    by (auto simp: find_suite_def find_None_iff in_set_conv_nth image_iff) (metis nth_mem)+
  show "find_suite n ss = Some i \<Longrightarrow> i < length ss \<and> se_name (ss ! i) = n"
    by (auto simp: find_suite_def find_Some_iff rev_nth)
qed

lemma tests_of_add:
  "distinct (map se_name ss) \<Longrightarrow> i < length ss \<Longrightarrow>
   concat (map se_tests (filter (\<lambda>s. se_name s = n) (ss[i := TestSuite_AddTestInfo t (ss ! i)]))) =
   concat (map se_tests (filter (\<lambda>s. se_name s = n) ss)) @ (if n = se_name (ss ! i) then [t] else [])"
proof (induction ss arbitrary: i)
  case (Cons s ss)
  show ?case
  proof (cases i)
    case 0
    have "filter (\<lambda>s'. se_name s' = se_name s) ss = []" using Cons.prems by (auto simp: filter_empty_conv) (metis imageI)
    with 0 show ?thesis by (auto simp: TestSuite_AddTestInfo_def)
  next
    case (Suc j)
    with Cons show ?thesis by auto
  qed
qed simp

lemma list_all_update: "list_all P xs \<Longrightarrow> P y \<Longrightarrow> list_all P (xs[i := y])"
  by (auto simp: list_all_iff dest!: set_update_subset_insert [THEN subsetD])

lemma GetTestSuite_ok:
  assumes "registry_ok r"
  shows "\<exists>i r'. GetTestSuite n tp h r = Inr (i, r') \<and> registry_ok r' \<and> i < length (rg_suites r') \<and>
    se_name (rg_suites r' ! i) = n \<and> tests_of r' = tests_of r"
proof (cases "find_suite n (rg_suites r)")
  case (Some i)
  with assms find_suite_iff(2) [OF Some] show ?thesis by (simp add: GetTestSuite_def)
next
  case None
  let ?new = "\<lparr>se_name = n, se_type_param = tp, se_hooks = h, se_tests = [], se_indices = []\<rparr>"
  let ?k = "nat (rg_last_death r + 1)" and ?ss = "rg_suites r"
  from None have n: "n \<notin> se_name ` set ?ss" by (simp add: find_suite_iff)
  from assms have k: "?k \<le> length ?ss" "nat (rg_last_death r + 1 + 1) = Suc ?k" by (auto simp: registry_ok_def)
  have o: "suite_in_order ?new" by (simp add: suite_in_order_def)
  show ?thesis
  proof (cases "accepted kDeathTestSuiteFilter n")
    case True
    then have d: "death_suite ?new" by (simp add: death_suite_def)
    let ?r = "r\<lparr>rg_last_death := rg_last_death r + 1, rg_suites := take ?k ?ss @ ?new # drop ?k ?ss,
                rg_indices := rg_indices r @ [length (rg_indices r)]\<rparr>"
    have g: "GetTestSuite n tp h r = Inr (?k, ?r)"
      using True None k by (simp add: GetTestSuite_def UnitTestFilter_accepted matches_def insert_at_def Let_def)
    have "distinct (map se_name (take ?k ?ss @ drop ?k ?ss))" using assms by (simp add: registry_ok_def)
    then have "distinct (map se_name (take ?k ?ss @ ?new # drop ?k ?ss))"
      using n by (auto simp del: append_take_drop_id dest: in_set_takeD in_set_dropD)
    then have "registry_ok ?r"
      using assms k d o by (auto simp: registry_ok_def list_all_iff dest: in_set_takeD in_set_dropD)
    moreover have "tests_of ?r = tests_of r"
    proof
      fix m
      have "tests_of r m = concat (map se_tests (filter (\<lambda>s. se_name s = m) (take ?k ?ss @ drop ?k ?ss)))"
        by (simp add: tests_of_def)
      then show "tests_of ?r m = tests_of r m" unfolding filter_append map_append concat_append by (simp add: tests_of_def)
    qed
    moreover have "?k < length (rg_suites ?r)" "se_name (rg_suites ?r ! ?k) = n" using k by (simp_all add: nth_append)
    ultimately show ?thesis using g by blast
  next
    case False
    then have d: "\<not> death_suite ?new" by (simp add: death_suite_def)
    let ?r = "r\<lparr>rg_suites := ?ss @ [?new], rg_indices := rg_indices r @ [length (rg_indices r)]\<rparr>"
    have g: "GetTestSuite n tp h r = Inr (length ?ss, ?r)"
      using False None by (simp add: GetTestSuite_def UnitTestFilter_accepted matches_def Let_def)
    have "registry_ok ?r" using assms n d o k by (auto simp: registry_ok_def)
    moreover have "tests_of ?r = tests_of r" by (rule ext) (simp add: tests_of_def)
    moreover have "length ?ss < length (rg_suites ?r)" "se_name (rg_suites ?r ! length ?ss) = n" by simp_all
    ultimately show ?thesis using g by blast
  qed
qed

lemma AddTestInfo_ok:
  assumes "registry_ok r" "cwd \<noteq> []"
  shows "\<exists>r'. AddTestInfo cwd h t r = Inr r' \<and> extends r [t] r'"
proof -
  let ?r = "if rg_working_dir r = [] then r\<lparr>rg_working_dir := cwd\<rparr> else r"
  have "registry_ok ?r" "tests_of ?r = tests_of r" using assms(1) by (auto simp: registry_ok_def tests_of_def)
  with GetTestSuite_ok [of ?r "te_suite t" "te_type_param t" h] obtain i r' where
    g: "GetTestSuite (te_suite t) (te_type_param t) h ?r = Inr (i, r')" "registry_ok r'" "i < length (rg_suites r')"
      "se_name (rg_suites r' ! i) = te_suite t" "tests_of r' = tests_of r" by metis
  let ?s = "TestSuite_AddTestInfo t (rg_suites r' ! i)"
  let ?r' = "r'\<lparr>rg_suites := (rg_suites r')[i := ?s]\<rparr>"
  have s: "se_name ?s = se_name (rg_suites r' ! i)" by (simp add: TestSuite_AddTestInfo_def)
  have names: "map se_name ((rg_suites r')[i := ?s]) = map se_name (rg_suites r')"
    by (rule nth_equalityI) (use g(3) s in \<open>auto simp: nth_list_update\<close>)
  have d: "death_suite ?s = death_suite (rg_suites r' ! i)" by (simp add: death_suite_def s)
  have "suite_in_order (rg_suites r' ! i)" using g(2,3) by (simp add: registry_ok_def list_all_length)
  then have o: "suite_in_order ?s" using g(4) by (auto simp: suite_in_order_def TestSuite_AddTestInfo_def)
  let ?k = "nat (rg_last_death r' + 1)"
  have "list_all death_suite (take ?k ((rg_suites r')[i := ?s])) \<and> list_all (\<lambda>s. \<not> death_suite s) (drop ?k ((rg_suites r')[i := ?s]))"
    using g(2,3) d by (auto simp: registry_ok_def list_all_length nth_list_update)
  with g(2,3) o names have "registry_ok ?r'" by (simp add: registry_ok_def list_all_update)
  moreover have "tests_of ?r' n = tests_of r n @ filter (\<lambda>t. te_suite t = n) [t]" for n
    using g(2-5) tests_of_add [of "rg_suites r'" i n t] by (auto simp: tests_of_def registry_ok_def fun_eq_iff)
  ultimately have "extends r [t] ?r'" by (simp add: extends_def)
  moreover have "AddTestInfo cwd h t r = Inr ?r'" using g assms(2) by (cases "rg_working_dir r = []") (auto simp: AddTestInfo_def vat_def)
  ultimately show ?thesis by blast
qed

lemma extends_trans: "extends r ts r' \<Longrightarrow> extends r' us r'' \<Longrightarrow> extends r (ts @ us) r''"
  by (simp add: extends_def)

lemma extends_refl: "registry_ok r \<Longrightarrow> extends r [] r"
  by (simp add: extends_def)


subsection \<open>What the parameters expand to\<close>

definition param_entry ::
  "('i, 'v, 'c) param_suite \<Rightarrow> ('v, 'c) test_pattern \<Rightarrow> ('i, 'v) instantiation_info \<Rightarrow> nat \<times> 'v \<Rightarrow> 'c test_entry" where
  "param_entry ps t inst iv =
     \<lparr>te_suite = param_suite_name inst t, te_name = param_test_name t (inst_name_func inst (snd iv) (fst iv)),
      te_type_param = None, te_value_param = Some (ps_print ps (snd iv)), te_location = pat_location t,
      te_fixture = ps_type ps, te_factory = UserTest (pat_factory t (snd iv))\<rparr>"

text \<open>Tests in the order of their patterns, for each the instances, for each its values.\<close>

definition expansion :: "('i, 'v, 'c) param_suite \<Rightarrow> (('i, 'v) instantiation_info \<Rightarrow> 'v list) \<Rightarrow> 'c test_entry list" where
  "expansion ps vals =
     concat (map (\<lambda>t. concat (map (\<lambda>inst. map (param_entry ps t inst) (enumerate 0 (vals inst))) (ps_instantiations ps)))
               (ps_tests ps))"

definition param_names_ok :: "('i, 'v) instantiation_info \<Rightarrow> 'v list \<Rightarrow> bool" where
  "param_names_ok inst vs \<longleftrightarrow>
     (let names = map (\<lambda>(i, v). inst_name_func inst v i) (enumerate 0 vs) in list_all IsValidParamName names \<and> distinct names)"

definition synthetic_entry :: "register_env \<Rightarrow> ('i, 'v, 'c) param_suite \<Rightarrow> 'c test_entry" where
  "synthetic_entry env ps =
     \<lparr>te_suite = ''GoogleTestVerification'', te_name = ''UninstantiatedParameterizedTestSuite<'' @ ps_name ps @ ''>'',
      te_type_param = None, te_value_param = None, te_location = ps_location ps, te_fixture = re_failure_class env,
      te_factory = FailureTest (ps_location ps)
        (''Parameterized test suite '' @ ps_name ps @
         (if ps_tests ps \<noteq> [] then kMissingInstantiation else kMissingTestCase) @ suppress_hint (ps_name ps)) True\<rparr>"

definition params_grow :: "'c param_state \<Rightarrow> 'c test_entry list \<Rightarrow> 'c param_state \<Rightarrow> bool" where
  "params_grow st ts st' \<longleftrightarrow> extends (pm_registry st) ts (pm_registry st') \<and> (pm_generated st' \<longleftrightarrow> pm_generated st \<or> ts \<noteq> [])"

lemma params_grow_trans: "params_grow st ts st' \<Longrightarrow> params_grow st' us st'' \<Longrightarrow> params_grow st (ts @ us) st''"
  by (auto simp: params_grow_def intro: extends_trans)

lemma params_grow_ok: "params_grow st ts st' \<Longrightarrow> registry_ok (pm_registry st')"
  by (simp add: params_grow_def extends_def)

lemma params_grow_names [simp]: "params_grow (st\<lparr>pm_names := ns\<rparr>) ts st' \<longleftrightarrow> params_grow st ts st'"
  by (simp add: params_grow_def)

lemma ofold_params_grow:
  assumes "\<And>x st. x \<in> set xs \<Longrightarrow> registry_ok (pm_registry st) \<Longrightarrow>
    if c x then \<exists>st'. f x st = Some (Inr st') \<and> params_grow st (g x) st' else f x st = Some (Inl e)"
  shows "registry_ok (pm_registry st) \<Longrightarrow>
    if list_all c xs then \<exists>st'. ofold f xs st = Some (Inr st') \<and> params_grow st (concat (map g xs)) st'
    else ofold f xs st = Some (Inl e)"
  using assms
proof (induction xs arbitrary: st)
  case Nil
  then show ?case by (simp add: params_grow_def extends_refl)
next
  case (Cons x xs)
  show ?case
  proof (cases "c x")
    case True
    with Cons.prems(2) [of x st] Cons.prems(1) obtain st' where st': "f x st = Some (Inr st')" "params_grow st (g x) st'" by auto
    have "if list_all c xs then \<exists>st''. ofold f xs st' = Some (Inr st'') \<and> params_grow st' (concat (map g xs)) st''
          else ofold f xs st' = Some (Inl e)"
      using Cons.prems(2) params_grow_ok [OF st'(2)] by (intro Cons.IH) auto
    with st' True show ?thesis by (auto split: if_splits dest: params_grow_trans)
  next
    case False
    with Cons.prems(2) [of x st] Cons.prems(1) show ?thesis by simp
  qed
qed

lemma MakeAndRegisterTestInfo_ok:
  "registry_ok r \<Longrightarrow> cwd \<noteq> [] \<Longrightarrow>
   \<exists>r'. MakeAndRegisterTestInfo cwd s n tp vp loc fc h fac r = Inr r' \<and>
     extends r [\<lparr>te_suite = s, te_name = n, te_type_param = tp, te_value_param = vp, te_location = loc,
                 te_fixture = fc, te_factory = fac\<rparr>] r'"
  by (simp add: MakeAndRegisterTestInfo_def AddTestInfo_ok)

lemma register_values:
  assumes "re_cwd env \<noteq> []" "registry_ok (pm_registry st)"
  shows "let names = map (\<lambda>(i, v). inst_name_func inst v i) ivs in
    if list_all IsValidParamName names \<and> distinct names \<and> set names \<inter> set (pm_names st) = {}
    then \<exists>st'. rfold (\<lambda>(i, v). register_value env ps t inst i v) ivs st = Inr st' \<and> params_grow st (map (param_entry ps t inst) ivs) st'
    else rfold (\<lambda>(i, v). register_value env ps t inst i v) ivs st = Inl Assert_fail"
  using assms(2)
proof (induction ivs arbitrary: st)
  case Nil
  then show ?case by (simp add: params_grow_def extends_refl)
next
  case (Cons iv ivs)
  obtain i v where iv: "iv = (i, v)" by (cases iv)
  let ?n = "inst_name_func inst v i"
  show ?case
  proof (cases "IsValidParamName ?n \<and> ?n \<notin> set (pm_names st)")
    case False
    then have "register_value env ps t inst i v st = Inl Assert_fail" by (auto simp: register_value_def Let_def)
    with False show ?thesis by (auto simp: iv Let_def)
  next
    case True
    obtain r' where m: "MakeAndRegisterTestInfo (re_cwd env) (param_suite_name inst t) (param_test_name t ?n) None
          (Some (ps_print ps v)) (pat_location t) (ps_type ps) (ps_hooks ps) (UserTest (pat_factory t v)) (pm_registry st) = Inr r'"
      and e: "extends (pm_registry st) [param_entry ps t inst iv] r'"
      using MakeAndRegisterTestInfo_ok [OF Cons.prems assms(1)] unfolding param_entry_def iv fst_conv snd_conv by blast
    have r': "register_value env ps t inst i v st = Inr \<lparr>pm_registry = r', pm_names = ?n # pm_names st, pm_generated = True\<rparr>"
      using True m by (simp add: register_value_def Let_def)
    let ?st = "\<lparr>pm_registry = r', pm_names = ?n # pm_names st, pm_generated = True\<rparr>"
    have g: "params_grow st [param_entry ps t inst iv] ?st" using e by (simp add: params_grow_def)
    let ?names = "map (\<lambda>(i, v). inst_name_func inst v i) ivs"
    have step: "rfold (\<lambda>(i, v). register_value env ps t inst i v) (iv # ivs) st =
        rfold (\<lambda>(i, v). register_value env ps t inst i v) ivs ?st"
      using r' by (simp add: iv)
    have names: "list_all IsValidParamName ?names \<and> distinct ?names \<and> set ?names \<inter> set (pm_names ?st) = {} \<longleftrightarrow>
        list_all IsValidParamName (?n # ?names) \<and> distinct (?n # ?names) \<and> set (?n # ?names) \<inter> set (pm_names st) = {}"
      using True by auto
    have n: "map (\<lambda>(i, v). inst_name_func inst v i) (iv # ivs) = ?n # ?names" by (simp add: iv)
    note ih = Cons.IH [OF params_grow_ok [OF g], unfolded Let_def names]
    show ?thesis
    proof (cases "list_all IsValidParamName (?n # ?names) \<and> distinct (?n # ?names) \<and> set (?n # ?names) \<inter> set (pm_names st) = {}")
      case ok: True
      from ih [unfolded if_P [OF ok]] obtain st' where st': "rfold (\<lambda>(i, v). register_value env ps t inst i v) ivs ?st = Inr st'"
        "params_grow ?st (map (param_entry ps t inst) ivs) st'" by blast
      have "params_grow st (map (param_entry ps t inst) (iv # ivs)) st'" using params_grow_trans [OF g st'(2)] by simp
      with st'(1) show ?thesis unfolding Let_def n step if_P [OF ok] by blast
    next
      case False
      from ih [unfolded if_not_P [OF False]] show ?thesis unfolding Let_def n step if_not_P [OF False] .
    qed
  qed
qed


lemma register_instantiation_ok:
  assumes "re_cwd env \<noteq> []" "registry_ok (pm_registry st)" "inst_generator inst = Inr g" "enumerates g vs"
  shows "if param_names_ok inst vs
    then \<exists>st'. register_instantiation env ps t inst st = Some (Inr st') \<and> params_grow st (map (param_entry ps t inst) (enumerate 0 vs)) st'
    else register_instantiation env ps t inst st = Some (Inl Assert_fail)"
  using register_values [of env "st\<lparr>pm_names := []\<rparr>" inst "enumerate 0 vs" ps t] assms
  by (simp add: register_instantiation_def enumerates_loop param_names_ok_def Let_def split: if_split_asm)

lemma concat_Nil: "concat xss = [] \<longleftrightarrow> list_all (\<lambda>xs. xs = []) xss"
  by (induction xss) auto

lemma RegisterTests_ok:
  fixes r :: "'c registry"
  assumes "re_cwd env \<noteq> []" "registry_ok r"
    and gens: "\<And>inst. inst \<in> set (ps_instantiations ps) \<Longrightarrow> \<exists>g. inst_generator inst = Inr g \<and> enumerates g (vals inst)"
  shows "if ps_tests ps = [] \<or> list_all (\<lambda>inst. param_names_ok inst (vals inst)) (ps_instantiations ps)
    then \<exists>r'. RegisterTests env ps r = Some (Inr r') \<and>
           extends r (if expansion ps vals \<noteq> [] then expansion ps vals
                      else if ps_name ps \<in> set (re_ignored env) then [] else [synthetic_entry env ps]) r'
    else RegisterTests env ps r = Some (Inl Assert_fail)"
proof -
  let ?st = "\<lparr>pm_registry = r, pm_names = [], pm_generated = False\<rparr>"
  let ?c = "\<lambda>inst. param_names_ok inst (vals inst)"
  let ?run = "ofold (\<lambda>t. ofold (register_instantiation env ps t) (ps_instantiations ps)) (ps_tests ps) ?st"
  have one: "if list_all ?c (ps_instantiations ps)
      then \<exists>st'. ofold (register_instantiation env ps t) (ps_instantiations ps) st = Some (Inr st') \<and>
        params_grow st (concat (map (\<lambda>inst. map (param_entry ps t inst) (enumerate 0 (vals inst))) (ps_instantiations ps))) st'
      else ofold (register_instantiation env ps t) (ps_instantiations ps) st = Some (Inl Assert_fail)"
    if "registry_ok (pm_registry st)" for t st
  proof (rule ofold_params_grow [OF _ that])
    fix inst st assume i: "inst \<in> set (ps_instantiations ps)" and st: "registry_ok (pm_registry (st :: 'c param_state))"
    from gens [OF i] obtain g where "inst_generator inst = Inr g" "enumerates g (vals inst)" by blast
    then show "if param_names_ok inst (vals inst)
      then \<exists>st'. register_instantiation env ps t inst st = Some (Inr st') \<and>
        params_grow st (map (param_entry ps t inst) (enumerate 0 (vals inst))) st'
      else register_instantiation env ps t inst st = Some (Inl Assert_fail)"
      by (rule register_instantiation_ok [OF assms(1) st])
  qed
  have "if list_all (\<lambda>_. list_all ?c (ps_instantiations ps)) (ps_tests ps)
      then \<exists>st'. ?run = Some (Inr st') \<and> params_grow ?st (expansion ps vals) st'
      else ?run = Some (Inl Assert_fail)"
    unfolding expansion_def by (rule ofold_params_grow [OF one]) (use assms(2) in simp_all)
  moreover have "list_all (\<lambda>_. list_all ?c (ps_instantiations ps)) (ps_tests ps) \<longleftrightarrow>
      ps_tests ps = [] \<or> list_all ?c (ps_instantiations ps)"
    by (cases "ps_tests ps") (auto simp: list_all_iff)
  ultimately have run: "if ps_tests ps = [] \<or> list_all ?c (ps_instantiations ps)
      then \<exists>st'. ?run = Some (Inr st') \<and> params_grow ?st (expansion ps vals) st'
      else ?run = Some (Inl Assert_fail)" by simp
  show ?thesis
  proof (cases "ps_tests ps = [] \<or> list_all ?c (ps_instantiations ps)")
    case False
    with run show ?thesis by (simp add: RegisterTests_def)
  next
    case True
    with run obtain st' where st': "?run = Some (Inr st')" "extends r (expansion ps vals) (pm_registry st')"
      "pm_generated st' \<longleftrightarrow> expansion ps vals \<noteq> []" by (auto simp: params_grow_def)
    show ?thesis
    proof (cases "expansion ps vals = []")
      case False
      with st' True show ?thesis by (simp add: RegisterTests_def)
    next
      case empty: True
      have "registry_ok (pm_registry st')" using st'(2) by (simp add: extends_def)
      note m = MakeAndRegisterTestInfo_ok [OF this assms(1)]
      have "\<exists>r'. InsertSyntheticTestCase env (ps_name ps) (ps_location ps) (ps_tests ps \<noteq> []) (pm_registry st') = Inr r' \<and>
          extends (pm_registry st') (if ps_name ps \<in> set (re_ignored env) then [] else [synthetic_entry env ps]) r'"
        using m \<open>registry_ok (pm_registry st')\<close>
        by (simp add: InsertSyntheticTestCase_def synthetic_entry_def Let_def extends_refl kErrorOnUninstantiatedParameterizedTest_def)
      with st' empty True show ?thesis by (auto simp: RegisterTests_def dest: extends_trans)
    qed
  qed
qed

text \<open>The numbers that name the parameters when the user gives no names are always accepted.\<close>

lemma IsAlNum_digit: "isdigit c \<Longrightarrow> IsAlNum c"
  by (simp add: IsAlNum_def IsDigit_def)

lemma DefaultParamName_ok: "inst_name_func inst = DefaultParamName \<Longrightarrow> param_names_ok inst vs"
proof -
  assume f: "inst_name_func inst = DefaultParamName"
  have "IsValidParamName (dec_nat i)" for i
    using dec_digits_chars [of _ i] by (auto simp: IsValidParamName_def dec_nat_def dec_int_def list_all_iff IsAlNum_digit)
  moreover have "inj (\<lambda>i. dec_nat i)" by (rule injI) (auto simp: dec_nat_def dest: dec_int_inj)
  then have "distinct (map dec_nat [0..<length vs])" by (auto simp: distinct_map intro: inj_on_subset)
  moreover have "map (\<lambda>(i, v). inst_name_func inst v i) (enumerate 0 vs) = map dec_nat [0..<length vs]"
    unfolding f DefaultParamName_def by (intro nth_equalityI) (simp_all add: nth_enumerate_eq)
  ultimately show ?thesis by (simp add: param_names_ok_def list_all_iff)
qed


subsection \<open>What registration gives\<close>

text \<open>C39. Whatever tests are registered in whatever order, the registration succeeds when the current directory is known, and
  the result is in order: one suite for each name, with its tests in the order of their registration, death test suites before
  all others, and the running orders as registered.\<close>

theorem registered_in_order:
  fixes regs :: "((nat option \<times> nat option) \<times> 'c test_entry) list"
  assumes "cwd \<noteq> []"
  shows "\<exists>r. rfold (\<lambda>(hooks, t). AddTestInfo cwd hooks t) regs new_registry = Inr r \<and> registry_ok r \<and>
    (\<forall>n. tests_of r n = filter (\<lambda>t. te_suite t = n) (map snd regs))"
proof -
  have step: "registry_ok r \<Longrightarrow> \<exists>r'. rfold (\<lambda>(hooks, t). AddTestInfo cwd hooks t) regs r = Inr r' \<and> extends r (map snd regs) r'" for r :: "'c registry"
  proof (induction regs arbitrary: r)
    case (Cons ht regs)
    from AddTestInfo_ok [OF Cons.prems assms] obtain r1 where
      r1: "AddTestInfo cwd (fst ht) (snd ht) r = Inr r1" "extends r [snd ht] r1" by blast
    with Cons.IH [of r1] extends_trans [OF r1(2)] show ?case by (auto simp: case_prod_beta extends_def)
  qed (simp add: extends_refl)
  have "registry_ok (new_registry :: 'c registry)" "tests_of (new_registry :: 'c registry) = (\<lambda>n. [])"
    by (simp_all add: registry_ok_def new_registry_def tests_of_def fun_eq_iff)
  with step [of new_registry] show ?thesis by (simp add: extends_def)
qed

definition a_test :: "string \<Rightarrow> string \<Rightarrow> nat test_entry" where
  "a_test suite name =
     \<lparr>te_suite = suite, te_name = name, te_type_param = None, te_value_param = None, te_location = (''a.cc'', 1),
      te_fixture = 1, te_factory = UserTest 0\<rparr>"

theorem registered_in_order_witness:
  "\<exists>r. rfold (\<lambda>(hooks, t). AddTestInfo ''/'' hooks t)
         [((None, None), a_test ''A'' ''x''), ((None, None), a_test ''BDeathTest'' ''y''), ((None, None), a_test ''A'' ''z'')]
         new_registry = Inr r \<and>
    registry_ok r \<and> map te_name (tests_of r ''A'') = [''x'', ''z''] \<and> map te_name (tests_of r ''BDeathTest'') = [''y'']"
  using registered_in_order [of "''/''"
      "[((None, None), a_test ''A'' ''x''), ((None, None), a_test ''BDeathTest'' ''y''), ((None, None), a_test ''A'' ''z'')]"]
  by (auto simp: a_test_def)

text \<open>C40. The tests of a value-parameterized suite are registered for every instance and every value of its generator, in this
  order and after what was registered before.  When nothing results, one failing test stands for the suite unless the suite may
  stay empty; a name of a parameter that is not valid or is used twice ends the program.\<close>

theorem param_tests_registered:
  assumes "re_cwd env \<noteq> []" "registry_ok r"
    and "\<And>inst. inst \<in> set (ps_instantiations ps) \<Longrightarrow> \<exists>g. inst_generator inst = Inr g \<and> enumerates g (vals inst)"
  shows "if ps_tests ps = [] \<or> list_all (\<lambda>inst. param_names_ok inst (vals inst)) (ps_instantiations ps)
    then \<exists>r'. RegisterTests env ps r = Some (Inr r') \<and> registry_ok r' \<and>
           (\<forall>n. tests_of r' n = tests_of r n @ filter (\<lambda>t. te_suite t = n)
              (if expansion ps vals \<noteq> [] then expansion ps vals
               else if ps_name ps \<in> set (re_ignored env) then [] else [synthetic_entry env ps]))
    else RegisterTests env ps r = Some (Inl Assert_fail)"
  using RegisterTests_ok [OF assms] unfolding extends_def by simp

definition an_env :: register_env where
  "an_env = \<lparr>re_cwd = ''/'', re_ignored = [], re_failure_class = 0\<rparr>"

definition an_instance :: "(nat, bool) instantiation_info" where
  "an_instance = \<lparr>inst_name = ''I'', inst_generator = Inr Bool, inst_name_func = DefaultParamName, inst_file = ''a.cc'', inst_line = 9\<rparr>"

definition a_param_suite :: "(nat, bool, nat) param_suite" where
  "a_param_suite =
     \<lparr>ps_name = ''S'', ps_location = (''a.cc'', 1), ps_type = 1, ps_hooks = (None, None), ps_print = (\<lambda>b. if b then ''true'' else ''false''),
      ps_tests = [\<lparr>pat_suite = ''S'', pat_name = ''T'', pat_factory = (\<lambda>b. if b then 1 else 0), pat_location = (''a.cc'', 3)\<rparr>],
      ps_instantiations = [an_instance]\<rparr>"

theorem param_tests_registered_witness:
  "\<exists>r'. RegisterTests an_env a_param_suite new_registry = Some (Inr r') \<and>
     map (\<lambda>t. (te_name t, te_value_param t)) (tests_of r' ''I/S'') = [(''T/0'', Some ''false''), (''T/1'', Some ''true'')]"
proof -
  have "registry_ok (new_registry :: nat registry)" "tests_of (new_registry :: nat registry) n = []" for n
    by (simp_all add: registry_ok_def new_registry_def tests_of_def)
  moreover have "dec_nat 0 = ''0''" "dec_nat (Suc 0) = ''1''" by code_simp+
  moreover have "param_names_ok an_instance [False, True]" by (simp add: DefaultParamName_ok an_instance_def)
  moreover have "re_cwd an_env \<noteq> []" by (simp add: an_env_def)
  moreover have "\<exists>g. inst_generator inst = Inr g \<and> enumerates g [False, True]" if "inst \<in> set (ps_instantiations a_param_suite)" for inst
    using that enumerates_Bool by (auto simp: a_param_suite_def an_instance_def)
  ultimately show ?thesis
    using param_tests_registered [of an_env new_registry a_param_suite "\<lambda>_. [False, True]"]
    by (auto simp: expansion_def a_param_suite_def param_entry_def param_suite_name_def param_test_name_def an_instance_def DefaultParamName_def)
qed

end
