(* ===== verification/Gt_Typed.thy ===== *)
theory Gt_Typed
  imports Gt_Register
begin

section \<open>Typed tests\<close>

text \<open>
  The tests that a typed suite defines, the list of names that \<open>REGISTER_TYPED_TEST_SUITE_P\<close> gives as one text, the check of the
  one against the other, and the registration of each test for each type.  A \<open>std::map\<close> from strings is a list of pairs in the
  order of its keys; a text that is written to the standard error before the program is aborted is the left outcome.
\<close>

subsection \<open>Maps from strings\<close>

fun str_less :: "string \<Rightarrow> string \<Rightarrow> bool" where
  "str_less xs [] \<longleftrightarrow> False"
| "str_less [] (y # ys) \<longleftrightarrow> True"
| "str_less (x # xs) (y # ys) \<longleftrightarrow> (of_char x :: nat) < of_char y \<or> x = y \<and> str_less xs ys"

text \<open>\<open>emplace\<close> and \<open>insert\<close> leave a key that is there as it is.\<close>

fun map_emplace :: "string \<Rightarrow> 'a \<Rightarrow> (string \<times> 'a) list \<Rightarrow> (string \<times> 'a) list" where
  "map_emplace k v [] = [(k, v)]"
| "map_emplace k v (e # m) =
     (if k = fst e then e # m else if str_less k (fst e) then (k, v) # e # m else e # map_emplace k v m)"

lemma map_emplace_keys: "fst ` set (map_emplace k v m) = insert k (fst ` set m)"
  by (induction m) auto

lemma str_less_trans: "str_less x y \<Longrightarrow> str_less y z \<Longrightarrow> str_less x z"
proof (induction x y arbitrary: z rule: str_less.induct)
  case (3 x xs y ys)
  then show ?case by (cases z) auto
next
  case (2 y ys)
  then show ?case by (cases z) auto
qed simp

lemma str_less_irrefl: "\<not> str_less x x"
  by (induction x) auto

lemma str_less_total: "x \<noteq> y \<Longrightarrow> str_less x y \<or> str_less y x"
proof (induction x y rule: str_less.induct)
  case (3 x xs y ys)
  have "(of_char x :: nat) \<noteq> of_char y" if "x \<noteq> y" using that of_char_eq_iff by blast
  with 3 show ?case by force
next
  case (1 xs)
  then show ?case by (cases xs) auto
qed simp

text \<open>The keys stay in increasing order, so that the place of a key does not depend on when it came.\<close>

lemma map_emplace_sorted: "sorted_wrt str_less (map fst m) \<Longrightarrow> sorted_wrt str_less (map fst (map_emplace k v m))"
proof (induction m)
  case (Cons e m)
  show ?case
  proof (cases "k = fst e \<or> str_less k (fst e)")
    case True
    with Cons.prems show ?thesis by (auto intro: str_less_trans)
  next
    case False
    then have "str_less (fst e) k" using str_less_total by blast
    then have "\<forall>x \<in> insert k (fst ` set m). str_less (fst e) x" using Cons.prems by auto
    then have "\<forall>x \<in> fst ` set (map_emplace k v m). str_less (fst e) x" unfolding map_emplace_keys .
    with False Cons show ?thesis by auto
  qed
qed simp

lemma map_emplace_lookup:
  "sorted_wrt str_less (map fst m) \<Longrightarrow>
   map_of (map_emplace k v m) = (\<lambda>x. if x = k \<and> map_of m k = None then Some v else map_of m x)"
proof (induction m)
  case (Cons e m)
  show ?case
  proof (cases "k = fst e \<or> \<not> str_less k (fst e)")
    case True
    with Cons show ?thesis by (auto simp: fun_eq_iff)
  next
    case False
    then have "k \<notin> fst ` set m" using Cons.prems str_less_trans [of k "fst e" k] str_less_irrefl by auto
    then have "map_of m k = None" by (simp add: map_of_eq_None_iff)
    with False show ?thesis by (auto simp: fun_eq_iff)
  qed
qed auto

subsection \<open>Lists of names in one text\<close>

definition SkipSpaces :: "string \<Rightarrow> string" where
  "SkipSpaces str = dropWhile isspace str"

definition SkipComma :: "string \<Rightarrow> string option" where
  "SkipComma str =
     (case dropWhile (\<lambda>c. c \<noteq> CHR '','') str of [] \<Rightarrow> None | _ # rest \<Rightarrow> Some (dropWhile isspace rest))"

definition GetPrefixUntilComma :: "string \<Rightarrow> string" where
  "GetPrefixUntilComma str = takeWhile (\<lambda>c. c \<noteq> CHR '','') str"

definition StripTrailingSpaces :: "string \<Rightarrow> string" where
  "StripTrailingSpaces str = rev (dropWhile isspace (rev str))"

lemma SkipComma_shorter: "SkipComma src = Some rest \<Longrightarrow> length rest < length src"
proof -
  assume s: "SkipComma src = Some rest"
  then obtain c r where r: "dropWhile (\<lambda>c. c \<noteq> CHR '','') src = c # r" "rest = dropWhile isspace r"
    by (auto simp: SkipComma_def split: list.splits)
  then have "length (c # r) \<le> length src" by (metis length_dropWhile_le)
  moreover have "length rest \<le> length r" unfolding r(2) by (rule length_dropWhile_le)
  ultimately show ?thesis by simp
qed

function split_names :: "string option \<Rightarrow> string list" where
  "split_names None = []"
| "split_names (Some src) = StripTrailingSpaces (GetPrefixUntilComma src) # split_names (SkipComma src)"
  by pat_completeness auto
termination
  by (relation "measure (\<lambda>src. case src of None \<Rightarrow> 0 | Some s \<Rightarrow> Suc (length s))")
    (auto split: option.split dest: SkipComma_shorter)

definition SplitIntoTestNames :: "string \<Rightarrow> string list" where
  "SplitIntoTestNames src = split_names (Some (SkipSpaces src))"

subsection \<open>The tests of a suite, and their registration by name\<close>

record typed_state =
  typed_registered :: bool
  typed_tests :: "(string \<times> location) list"

definition TypedTestSuitePState :: typed_state where
  "TypedTestSuitePState = \<lparr>typed_registered = False, typed_tests = []\<rparr>"

definition AddTestName :: "string \<Rightarrow> int \<Rightarrow> string \<Rightarrow> string \<Rightarrow> typed_state \<Rightarrow> string + typed_state" where
  "AddTestName file line case_name test_name st =
     (if typed_registered st
      then Inl (FormatFileLocation (Some file) line @ '' Test '' @ test_name @ '' must be defined before '' @
                ''REGISTER_TYPED_TEST_SUITE_P('' @ case_name @ '', ...).'' @ [LF])
      else Inr (st\<lparr>typed_tests := map_emplace test_name (file, line) (typed_tests st)\<rparr>))"

definition TestExists :: "typed_state \<Rightarrow> string \<Rightarrow> bool" where
  "TestExists st test_name \<longleftrightarrow> map_of (typed_tests st) test_name \<noteq> None"

definition GetCodeLocation :: "typed_state \<Rightarrow> string \<Rightarrow> stop + location" where
  "GetCodeLocation st test_name = (case map_of (typed_tests st) test_name of None \<Rightarrow> Inl Assert_fail | Some l \<Rightarrow> Inr l)"

text \<open>The loop over the listed names: the errors so far and the names that were found.\<close>

fun check_names :: "typed_state \<Rightarrow> string list \<Rightarrow> string \<times> string list \<Rightarrow> string \<times> string list" where
  "check_names st [] acc = acc"
| "check_names st (name # names) (errors, tests) =
     check_names st names
       (if name \<in> set tests then (errors @ ''Test '' @ name @ '' is listed more than once.'' @ [LF], tests)
        else if TestExists st name then (errors, tests @ [name])
        else (errors @ ''No test named '' @ name @ '' can be found in this test suite.'' @ [LF], tests))"

definition forgotten :: "(string \<times> location) list \<Rightarrow> string list \<Rightarrow> string" where
  "forgotten m tests =
     concat (map (\<lambda>e. if fst e \<in> set tests then [] else ''You forgot to list test '' @ fst e @ ''.'' @ [LF]) m)"

text \<open>Suites with types: where each was defined and whether it got instances.\<close>

type_synonym typed_suites = "(string \<times> location \<times> bool) list"

definition RegisterTestSuite :: "string \<Rightarrow> location \<Rightarrow> typed_suites \<Rightarrow> typed_suites" where
  "RegisterTestSuite test_suite_name code_location suites = map_emplace test_suite_name (code_location, False) suites"

text \<open>Also the warning that is logged, if any.\<close>

definition RegisterInstantiation :: "string \<Rightarrow> typed_suites \<Rightarrow> typed_suites \<times> string option" where
  "RegisterInstantiation test_suite_name suites =
     (if test_suite_name \<in> fst ` set suites
      then (map (\<lambda>e. if fst e = test_suite_name then (fst e, fst (snd e), True) else e) suites, None)
      else (suites, Some (''Unknown type parameterized test suit '' @ [CHR 0x27] @ test_suite_name @ [CHR 0x27])))"

definition VerifyRegisteredTestNames ::
  "string \<Rightarrow> string \<Rightarrow> int \<Rightarrow> string \<Rightarrow> typed_state \<times> typed_suites \<Rightarrow> string + string \<times> typed_state \<times> typed_suites" where
  "VerifyRegisteredTestNames test_suite_name file line registered_tests s =
     (let suites = RegisterTestSuite test_suite_name (file, line) (snd s);
          st = (fst s)\<lparr>typed_registered := True\<rparr>;
          (errors, tests) = check_names st (SplitIntoTestNames registered_tests) ([], []);
          errors_str = errors @ forgotten (typed_tests st) tests
      in if errors_str \<noteq> [] then Inl (FormatFileLocation (Some file) line @ '' '' @ errors_str)
         else Inr (registered_tests, st, suites))"

definition missing_types_message :: "string \<Rightarrow> string" where
  "missing_types_message name =
     ''Type parameterized test suite '' @ name @
     '' is defined via REGISTER_TYPED_TEST_SUITE_P, but never instantiated '' @
     ''via INSTANTIATE_TYPED_TEST_SUITE_P. None of the test cases will run.'' @ [LF, LF] @
     ''Ideally, TYPED_TEST_P definitions should only ever be included as '' @
     ''part of binaries that intend to use them. (As opposed to, for '' @
     ''example, being placed in a library that may be linked in to get other '' @
     ''utilities.)'' @ suppress_hint name"

fun CheckForInstantiations :: "register_env \<Rightarrow> typed_suites \<Rightarrow> 'c registry \<Rightarrow> stop + 'c registry" where
  "CheckForInstantiations env [] r = Inr r"
| "CheckForInstantiations env ((name, location, instantiated) # suites) r =
     (if instantiated then CheckForInstantiations env suites r
      else if name \<in> set (re_ignored env) then CheckForInstantiations env suites r
      else bindr (MakeAndRegisterTestInfo (re_cwd env) ''GoogleTestVerification''
                    (''UninstantiatedTypeParameterizedTestSuite<'' @ name @ ''>'') None None location
                    (re_failure_class env) (None, None)
                    (FailureTest location (missing_types_message name) kErrorOnUninstantiatedTypeParameterizedTest) r)
             (CheckForInstantiations env suites))"

text \<open>All tests with parameters are registered once, whatever the number of runs.\<close>

definition RegisterParameterizedTests ::
  "register_env \<Rightarrow> ('i, 'v, 'c) param_suite list \<Rightarrow> typed_suites \<Rightarrow> bool \<times> 'c registry \<Rightarrow> (stop + bool \<times> 'c registry) option" where
  "RegisterParameterizedTests env infos suites s =
     (if fst s then Some (Inr s)
      else map_option (\<lambda>res. bindr res (\<lambda>r. bindr (CheckForInstantiations env suites r) (\<lambda>r'. Inr (True, r'))))
             (Registry_RegisterTests env infos (snd s)))"

subsection \<open>A test for each type\<close>

text \<open>A type is its name, the fixture for it and the functions of the suite; \<open>test i\<close> makes the test for type \<open>i\<close>.\<close>

fun TypeParameterizedTest_Register ::
  "string \<Rightarrow> string \<Rightarrow> location \<Rightarrow> string \<Rightarrow> string \<Rightarrow> (nat \<Rightarrow> 'c) \<Rightarrow> (string \<times> nat \<times> (nat option \<times> nat option)) list \<Rightarrow> nat \<Rightarrow>
   string list \<Rightarrow> 'c registry \<Rightarrow> stop + 'c registry" where
  "TypeParameterizedTest_Register cwd prefix code_location case_name test_names test [] index type_names r = Inr r"
| "TypeParameterizedTest_Register cwd prefix code_location case_name test_names test ((type_name, fixture, hooks) # types)
     index type_names r =
     bindr (vat type_names index) (\<lambda>name.
     bindr (MakeAndRegisterTestInfo cwd
              (prefix @ (if prefix = [] then [] else ''/'') @ case_name @ ''/'' @ name)
              (StripTrailingSpaces (GetPrefixUntilComma test_names)) (Some type_name) None code_location fixture hooks
              (UserTest (test index)) r)
       (TypeParameterizedTest_Register cwd prefix code_location case_name test_names test types (index + 1) type_names))"


text \<open>The names are given by one text, which each step shortens; the tests are the list of their factories.\<close>

fun TypeParameterizedTestSuite_Register ::
  "string \<Rightarrow> string \<Rightarrow> typed_state \<Rightarrow> string \<Rightarrow> (nat \<Rightarrow> 'c) list \<Rightarrow> string option \<Rightarrow>
   (string \<times> nat \<times> (nat option \<times> nat option)) list \<Rightarrow> string list \<Rightarrow> typed_suites \<times> 'c registry \<Rightarrow>
   stop + typed_suites \<times> 'c registry" where
  "TypeParameterizedTestSuite_Register cwd prefix st case_name [] test_names types type_names s = Inr s"
| "TypeParameterizedTestSuite_Register cwd prefix st case_name (test # tests) None types type_names s = Inl Null_deref"
| "TypeParameterizedTestSuite_Register cwd prefix st case_name (test # tests) (Some test_names) types type_names s =
     (let suites = fst (RegisterInstantiation case_name (fst s));
          test_name = StripTrailingSpaces (GetPrefixUntilComma test_names)
      in if \<not> TestExists st test_name then Inl Assert_fail
         else bindr (GetCodeLocation st test_name) (\<lambda>test_location.
              bindr (TypeParameterizedTest_Register cwd prefix test_location case_name test_names test types 0 type_names (snd s)) (\<lambda>r.
                TypeParameterizedTestSuite_Register cwd prefix st case_name tests (SkipComma test_names) types type_names (suites, r))))"

subsection \<open>What is accepted, and what is registered\<close>

lemma check_names_iff:
  "check_names st names (errors, tests) = (errors', tests') \<Longrightarrow>
   (errors' = [] \<longleftrightarrow> errors = [] \<and> distinct names \<and> set names \<inter> set tests = {} \<and> list_all (TestExists st) names) \<and>
   (errors' = [] \<longrightarrow> tests' = tests @ names)"
proof (induction names arbitrary: errors tests)
  case (Cons name names)
  show ?case
  proof (cases "name \<in> set tests \<or> \<not> TestExists st name")
    case True
    then obtain e where "check_names st names (errors @ e, tests) = (errors', tests')" "e \<noteq> []" using Cons.prems by (auto split: if_splits)
    with Cons.IH True show ?thesis by fastforce
  next
    case False
    with Cons.prems have "check_names st names (errors, tests @ [name]) = (errors', tests')" by simp
    with Cons.IH False show ?thesis by fastforce
  qed
qed auto

lemma forgotten_Nil: "forgotten m tests = [] \<longleftrightarrow> fst ` set m \<subseteq> set tests"
  by (induction m) (auto simp: forgotten_def)

lemma TestExists_iff: "TestExists st n \<longleftrightarrow> n \<in> fst ` set (typed_tests st)"
  by (auto simp: TestExists_def map_of_eq_None_iff)

lemma VerifyRegisteredTestNames_iff:
  "(\<exists>res. VerifyRegisteredTestNames test_suite_name file line registered_tests (st, suites) = Inr res) \<longleftrightarrow>
     distinct (SplitIntoTestNames registered_tests) \<and>
     set (SplitIntoTestNames registered_tests) = fst ` set (typed_tests st)"
  "VerifyRegisteredTestNames test_suite_name file line registered_tests (st, suites) = Inr res \<Longrightarrow>
     res = (registered_tests, st\<lparr>typed_registered := True\<rparr>, map_emplace test_suite_name ((file, line), False) suites)"
proof -
  obtain errors tests where c:
    "check_names (st\<lparr>typed_registered := True\<rparr>) (SplitIntoTestNames registered_tests) ([], []) = (errors, tests)" by fastforce
  have v: "VerifyRegisteredTestNames test_suite_name file line registered_tests (st, suites) =
      (if errors @ forgotten (typed_tests st) tests \<noteq> []
       then Inl (FormatFileLocation (Some file) line @ '' '' @ errors @ forgotten (typed_tests st) tests)
       else Inr (registered_tests, st\<lparr>typed_registered := True\<rparr>, map_emplace test_suite_name ((file, line), False) suites))"
    by (simp add: VerifyRegisteredTestNames_def c Let_def RegisterTestSuite_def)
  note k = check_names_iff [OF c]
  have "errors = [] \<and> forgotten (typed_tests st) tests = [] \<longleftrightarrow>
      distinct (SplitIntoTestNames registered_tests) \<and>
      set (SplitIntoTestNames registered_tests) = fst ` set (typed_tests st)"
    using k by (auto simp: forgotten_Nil list_all_iff TestExists_iff)
  then show "(\<exists>res. VerifyRegisteredTestNames test_suite_name file line registered_tests (st, suites) = Inr res) \<longleftrightarrow>
     distinct (SplitIntoTestNames registered_tests) \<and>
     set (SplitIntoTestNames registered_tests) = fst ` set (typed_tests st)"
    unfolding v by auto
  show "VerifyRegisteredTestNames test_suite_name file line registered_tests (st, suites) = Inr res \<Longrightarrow>
     res = (registered_tests, st\<lparr>typed_registered := True\<rparr>, map_emplace test_suite_name ((file, line), False) suites)"
    unfolding v by (auto split: if_splits)
qed

definition typed_entry ::
  "string \<Rightarrow> string \<Rightarrow> location \<Rightarrow> string \<Rightarrow> (nat \<Rightarrow> 'c) \<Rightarrow> string list \<Rightarrow> nat \<times> (string \<times> nat \<times> (nat option \<times> nat option)) \<Rightarrow>
   'c test_entry" where
  "typed_entry prefix case_name loc name test type_names it =
     \<lparr>te_suite = prefix @ (if prefix = [] then [] else ''/'') @ case_name @ ''/'' @ type_names ! fst it, te_name = name,
      te_type_param = Some (fst (snd it)), te_value_param = None, te_location = loc, te_fixture = fst (snd (snd it)),
      te_factory = UserTest (test (fst it))\<rparr>"

lemma TypeParameterizedTest_Register_ok:
  assumes "cwd \<noteq> []"
  shows "registry_ok r \<Longrightarrow> index + length types \<le> length type_names \<Longrightarrow>
    \<exists>r'. TypeParameterizedTest_Register cwd prefix loc case_name test_names test types index type_names r = Inr r' \<and>
      extends r (map (typed_entry prefix case_name loc (StripTrailingSpaces (GetPrefixUntilComma test_names)) test type_names)
                   (enumerate index types)) r'"
proof (induction types arbitrary: index r)
  case Nil
  then show ?case by (simp add: extends_refl)
next
  case (Cons ty types)
  obtain n f h where ty: "ty = (n, f, h)" by (cases ty)
  from MakeAndRegisterTestInfo_ok [OF Cons.prems(1) assms] obtain r1 where
    m: "MakeAndRegisterTestInfo cwd (prefix @ (if prefix = [] then [] else ''/'') @ case_name @ ''/'' @ type_names ! index)
          (StripTrailingSpaces (GetPrefixUntilComma test_names)) (Some n) None loc f h (UserTest (test index)) r = Inr r1"
    and e: "extends r [typed_entry prefix case_name loc (StripTrailingSpaces (GetPrefixUntilComma test_names)) test type_names (index, ty)] r1"
    unfolding typed_entry_def ty fst_conv snd_conv by blast
  have "registry_ok r1" "index + 1 + length types \<le> length type_names" using e Cons.prems(2) by (simp_all add: extends_def)
  from Cons.IH [OF this] obtain r' where
    "TypeParameterizedTest_Register cwd prefix loc case_name test_names test types (index + 1) type_names r1 = Inr r'"
    "extends r1 (map (typed_entry prefix case_name loc (StripTrailingSpaces (GetPrefixUntilComma test_names)) test type_names)
       (enumerate (index + 1) types)) r'" by blast
  with m Cons.prems(2) extends_trans [OF e] show ?case by (simp add: ty vat_def)
qed

text \<open>A list of names that names the tests in turn gives one test for each test and type.\<close>

lemma TypeParameterizedTestSuite_Register_ok:
  assumes "cwd \<noteq> []" "length types \<le> length type_names"
  shows "registry_ok (snd s) \<Longrightarrow> length (split_names names) = length tests \<Longrightarrow> list_all (TestExists st) (split_names names) \<Longrightarrow>
    \<exists>suites r. TypeParameterizedTestSuite_Register cwd prefix st case_name tests names types type_names s = Inr (suites, r) \<and>
      extends (snd s)
        (concat (map (\<lambda>(name, test). map (typed_entry prefix case_name (the (map_of (typed_tests st) name)) name test type_names)
                                        (enumerate 0 types))
                   (zip (split_names names) tests))) r"
proof (induction tests arbitrary: names s)
  case Nil
  then show ?case by (cases s) (simp add: extends_refl)
next
  case (Cons test tests)
  then obtain src where src: "names = Some src" by (cases names) auto
  let ?n = "StripTrailingSpaces (GetPrefixUntilComma src)"
  from Cons.prems(3) have ex: "TestExists st ?n" by (simp add: src)
  then obtain loc where loc: "map_of (typed_tests st) ?n = Some loc" by (auto simp: TestExists_def)
  let ?e = "map (typed_entry prefix case_name loc ?n test type_names) (enumerate 0 types)"
  from TypeParameterizedTest_Register_ok [OF assms(1) Cons.prems(1), of 0 types type_names prefix loc case_name src test] assms(2)
  obtain r1 where r1: "TypeParameterizedTest_Register cwd prefix loc case_name src test types 0 type_names (snd s) = Inr r1"
    "extends (snd s) ?e r1" by auto
  let ?s = "(fst (RegisterInstantiation case_name (fst s)), r1)"
  have "\<exists>suites r. TypeParameterizedTestSuite_Register cwd prefix st case_name tests (SkipComma src) types type_names ?s = Inr (suites, r) \<and>
      extends (snd ?s)
        (concat (map (\<lambda>(name, test). map (typed_entry prefix case_name (the (map_of (typed_tests st) name)) name test type_names)
                                        (enumerate 0 types))
                   (zip (split_names (SkipComma src)) tests))) r"
    using Cons.prems r1(2) by (intro Cons.IH) (simp_all add: src extends_def)
  with r1 ex loc extends_trans [OF r1(2)] show ?case by (auto simp: src GetCodeLocation_def Let_def)
qed


definition missing_entry :: "register_env \<Rightarrow> string \<times> location \<times> bool \<Rightarrow> 'c test_entry" where
  "missing_entry env e =
     \<lparr>te_suite = ''GoogleTestVerification'', te_name = ''UninstantiatedTypeParameterizedTestSuite<'' @ fst e @ ''>'',
      te_type_param = None, te_value_param = None, te_location = fst (snd e), te_fixture = re_failure_class env,
      te_factory = FailureTest (fst (snd e)) (missing_types_message (fst e)) True\<rparr>"

lemma CheckForInstantiations_ok:
  assumes "re_cwd env \<noteq> []"
  shows "registry_ok r \<Longrightarrow> \<exists>r'. CheckForInstantiations env suites r = Inr r' \<and>
    extends r (map (missing_entry env) (filter (\<lambda>e. \<not> snd (snd e) \<and> fst e \<notin> set (re_ignored env)) suites)) r'"
proof (induction suites arbitrary: r)
  case Nil
  then show ?case by (simp add: extends_refl)
next
  case (Cons e suites)
  obtain name loc inst where e: "e = (name, loc, inst)" by (cases e)
  show ?case
  proof (cases "inst \<or> name \<in> set (re_ignored env)")
    case True
    with Cons show ?thesis by (auto simp: e)
  next
    case False
    from MakeAndRegisterTestInfo_ok [OF Cons.prems assms] obtain r1 where
      m: "MakeAndRegisterTestInfo (re_cwd env) ''GoogleTestVerification''
            (''UninstantiatedTypeParameterizedTestSuite<'' @ name @ ''>'') None None loc (re_failure_class env) (None, None)
            (FailureTest loc (missing_types_message name) True) r = Inr r1"
      and x: "extends r [missing_entry env e] r1"
      unfolding missing_entry_def e fst_conv snd_conv by blast
    from Cons.IH [of r1] x obtain r' where
      "CheckForInstantiations env suites r1 = Inr r'"
      "extends r1 (map (missing_entry env) (filter (\<lambda>e. \<not> snd (snd e) \<and> fst e \<notin> set (re_ignored env)) suites)) r'"
      by (auto simp: extends_def)
    with False m extends_trans [OF x] show ?thesis
      by (simp add: e kErrorOnUninstantiatedTypeParameterizedTest_def)
  qed
qed

lemma RegisterParameterizedTests_once:
  "RegisterParameterizedTests env infos suites s = Some (Inr s') \<Longrightarrow>
   fst s' \<and> RegisterParameterizedTests env infos' suites' s' = Some (Inr s')"
  by (auto simp: RegisterParameterizedTests_def bindr_eq_Inr split: if_splits)

text \<open>The tests that stand for missing instances fail.\<close>

lemma synthetic_tests_fail:
  "\<exists>p. FailureTest_TestBody loc message True = ([p], []) \<and> tp_type p = kNonFatalFailure \<and>
     (NUL \<notin> set message \<longrightarrow> message \<noteq> [] \<longrightarrow> tp_message p = message)"
proof -
  have "StringStreamToString m = m" if "NUL \<notin> set m" for m using that by (induction m) auto
  then show ?thesis by (auto simp: FailureTest_TestBody_def TestPartResult_def AppendUserMessage_def Let_def)
qed


subsection \<open>The text of a list of names\<close>

text \<open>The macro gives its arguments as a text; names have no commas and no spaces.\<close>

fun comma_list :: "string list \<Rightarrow> string" where
  "comma_list [] = []"
| "comma_list [n] = n"
| "comma_list (n # ns) = n @ '', '' @ comma_list ns"

definition plain_name :: "string \<Rightarrow> bool" where
  "plain_name n \<longleftrightarrow> n \<noteq> [] \<and> list_all (\<lambda>c. c \<noteq> CHR '','' \<and> \<not> isspace c) n"

lemma StripTrailingSpaces_plain: "plain_name n \<Longrightarrow> StripTrailingSpaces n = n"
proof -
  assume "plain_name n"
  then have "dropWhile isspace (rev n) = rev n"
    by (cases n rule: rev_cases) (auto simp: plain_name_def)
  then show ?thesis by (simp add: StripTrailingSpaces_def)
qed

lemma comma_list_head: "ns \<noteq> [] \<Longrightarrow> list_all plain_name ns \<Longrightarrow> dropWhile isspace (comma_list ns) = comma_list ns"
  by (cases ns rule: comma_list.cases) (auto simp: plain_name_def neq_Nil_conv)

lemma SplitIntoTestNames_comma_list:
  assumes "ns \<noteq> []" "list_all plain_name ns"
  shows "SplitIntoTestNames (comma_list ns) = ns"
proof -
  have sp: "isspace CHR '' ''" by code_simp
  have t: "takeWhile (\<lambda>c. c \<noteq> CHR '','') n = n" "dropWhile (\<lambda>c. c \<noteq> CHR '','') n = []" if "plain_name n" for n
    using that by (auto simp: plain_name_def list_all_iff takeWhile_eq_all_conv)
  have p: "takeWhile (\<lambda>c. c \<noteq> CHR '','') (n @ CHR '','' # r) = n" "dropWhile (\<lambda>c. c \<noteq> CHR '','') (n @ CHR '','' # r) = CHR '','' # r"
    if "plain_name n" for n r
    using that t [OF that] by (auto simp: takeWhile_append2 dropWhile_append2 plain_name_def list_all_iff)
  have "split_names (Some (comma_list ns)) = ns"
    using assms
  proof (induction ns rule: comma_list.induct)
    case (2 n)
    then show ?case by (simp add: GetPrefixUntilComma_def SkipComma_def t StripTrailingSpaces_plain)
  next
    case (3 n m ns)
    then have "dropWhile isspace (comma_list (m # ns)) = comma_list (m # ns)" by (intro comma_list_head) simp_all
    with 3 sp show ?case by (simp add: GetPrefixUntilComma_def SkipComma_def p StripTrailingSpaces_plain del: comma_list.simps(2))
  qed simp
  with comma_list_head [OF assms] show ?thesis by (simp add: SplitIntoTestNames_def SkipSpaces_def)
qed

text \<open>The names of \<open>REGISTER_TYPED_TEST_SUITE_P\<close> are accepted exactly when they name every test that was defined once and
  nothing else; otherwise there is a message for the standard error, after which the program is aborted.\<close>

theorem typed_names_verified:
  "if distinct (SplitIntoTestNames registered_tests) \<and> set (SplitIntoTestNames registered_tests) = fst ` set (typed_tests st)
   then VerifyRegisteredTestNames test_suite_name file line registered_tests (st, suites) =
          Inr (registered_tests, st\<lparr>typed_registered := True\<rparr>, RegisterTestSuite test_suite_name (file, line) suites)
   else \<exists>message. VerifyRegisteredTestNames test_suite_name file line registered_tests (st, suites) = Inl message \<and> message \<noteq> []"
proof (cases "VerifyRegisteredTestNames test_suite_name file line registered_tests (st, suites)")
  case (Inl message)
  moreover have "message \<noteq> []" using Inl by (auto simp: VerifyRegisteredTestNames_def Let_def split: prod.splits if_splits)
  ultimately show ?thesis using VerifyRegisteredTestNames_iff(1) [of test_suite_name "file" line registered_tests st suites] by simp
next
  case (Inr res)
  then show ?thesis
    using VerifyRegisteredTestNames_iff [of test_suite_name "file" line registered_tests st suites]
    by (auto simp: RegisterTestSuite_def)
qed

end
