(* ===== verification/Gt_Flags.thy ===== *)
theory Gt_Flags
  imports Gt_Filter Gt_FilePath
begin

section \<open>Flags and the command line\<close>

text \<open>
  How the flags of googletest and googlemock get their values: from the environment when the program starts, and from the
  command line, whose flags are taken out.  The environment and the files that can be read are parameters; the warnings
  of \<open>ParseInt32\<close> are left out.
\<close>

subsection \<open>Values from the environment\<close>

type_synonym environment = "string \<Rightarrow> string option"

definition ToUpper :: "char \<Rightarrow> char" where
  "ToUpper ch = (let n = of_char ch :: nat in if 97 \<le> n \<and> n \<le> 122 then char_of (n - 32) else ch)"

definition FlagToEnvVar :: "string \<Rightarrow> string" where
  "FlagToEnvVar flag =
     (let full_flag = StringStreamToString (GTEST_FLAG_PREFIX @ flag) in StringStreamToString (map ToUpper full_flag))"

definition BoolFromGTestEnv :: "environment \<Rightarrow> string \<Rightarrow> bool \<Rightarrow> bool" where
  "BoolFromGTestEnv env flag default_value =
     (case env (FlagToEnvVar flag) of None \<Rightarrow> default_value | Some string_value \<Rightarrow> string_value \<noteq> ''0'')"

definition Int32FromGTestEnv :: "environment \<Rightarrow> string \<Rightarrow> int \<Rightarrow> int" where
  "Int32FromGTestEnv env flag default_value =
     (case env (FlagToEnvVar flag) of
        None \<Rightarrow> default_value
      | Some string_value \<Rightarrow> (case ParseInt32 string_value of None \<Rightarrow> default_value | Some r \<Rightarrow> r))"

definition OutputFlagAlsoCheckEnvVar :: "environment \<Rightarrow> string" where
  "OutputFlagAlsoCheckEnvVar env = (case env ''XML_OUTPUT_FILE'' of None \<Rightarrow> [] | Some f \<Rightarrow> ''xml:'' @ f)"

definition StringFromGTestEnv :: "environment \<Rightarrow> string \<Rightarrow> string \<Rightarrow> string" where
  "StringFromGTestEnv env flag default_value =
     (case env (FlagToEnvVar flag) of None \<Rightarrow> default_value | Some v \<Rightarrow> v)"

definition GetDefaultFilter :: "environment \<Rightarrow> string" where
  "GetDefaultFilter env = (case env ''TESTBRIDGE_TEST_ONLY'' of Some t \<Rightarrow> t | None \<Rightarrow> kUniversalFilter)"

definition GetDefaultFailFast :: "environment \<Rightarrow> bool" where
  "GetDefaultFailFast env = (case env ''TESTBRIDGE_TEST_RUNNER_FAIL_FAST'' of Some t \<Rightarrow> t = ''1'' | None \<Rightarrow> False)"

subsection \<open>The flags\<close>

datatype flag_value = BoolFlag bool | Int32Flag int | StringFlag string

type_synonym flags = "string \<Rightarrow> flag_value"

text \<open>The values at the start of the program, in the order of the definitions.\<close>

definition gtest_flags :: "environment \<Rightarrow> (string \<times> flag_value) list" where
  "gtest_flags env =
     (let b = (\<lambda>f d. (f, BoolFlag (BoolFromGTestEnv env f d)));
          i = (\<lambda>f d. (f, Int32Flag (Int32FromGTestEnv env f d)));
          s = (\<lambda>f d. (f, StringFlag (StringFromGTestEnv env f d)))
      in [b ''fail_fast'' (GetDefaultFailFast env), b ''also_run_disabled_tests'' False, b ''break_on_failure'' False,
          b ''catch_exceptions'' True, s ''color'' ''auto'', s ''filter'' (GetDefaultFilter env),
          b ''install_failure_signal_handler'' False, (''list_tests'', BoolFlag False),
          s ''output'' (OutputFlagAlsoCheckEnvVar env), b ''brief'' False, b ''print_time'' True, b ''print_utf8'' True,
          i ''random_seed'' 0, i ''repeat'' 1, b ''recreate_environments_when_repeating'' False,
          (''show_internal_stack_frames'', BoolFlag False), b ''shuffle'' False, i ''stack_trace_depth'' 100,
          s ''stream_result_to'' [], b ''throw_on_failure'' False, s ''flagfile'' [],
          s ''death_test_style'' ''fast'', b ''death_test_use_fork'' False, (''internal_run_death_test'', StringFlag [])])"

definition initial_flags :: "environment \<Rightarrow> flags" where
  "initial_flags env name = (case map_of (gtest_flags env) name of Some v \<Rightarrow> v | None \<Rightarrow> StringFlag [])"

text \<open>The overload of \<open>ParseFlag\<close> is that of the flag's type.\<close>

fun ParseFlag :: "string \<Rightarrow> string \<Rightarrow> flag_value \<Rightarrow> flag_value option" where
  "ParseFlag arg name (BoolFlag b) = map_option BoolFlag (ParseBoolFlag (Some arg) (Some name))"
| "ParseFlag arg name (Int32Flag i) = map_option Int32Flag (ParseInt32Flag (Some arg) (Some name))"
| "ParseFlag arg name (StringFlag s) = map_option StringFlag (ParseStringFlag (Some arg) (Some name))"

fun parse_flags :: "string list \<Rightarrow> string \<Rightarrow> flags \<Rightarrow> bool \<times> flags" where
  "parse_flags [] arg fl = (False, fl)"
| "parse_flags (flag_name # names) arg fl =
     (case ParseFlag arg flag_name (fl flag_name) of
        Some v \<Rightarrow> (True, fl(flag_name := v))
      | None \<Rightarrow> parse_flags names arg fl)"

definition parsed_flags :: "string list" where
  "parsed_flags = [''also_run_disabled_tests'', ''break_on_failure'', ''catch_exceptions'', ''color'', ''death_test_style'',
     ''death_test_use_fork'', ''fail_fast'', ''filter'', ''internal_run_death_test'', ''list_tests'', ''output'', ''brief'',
     ''print_time'', ''print_utf8'', ''random_seed'', ''repeat'', ''recreate_environments_when_repeating'', ''shuffle'',
     ''stack_trace_depth'', ''stream_result_to'', ''throw_on_failure'']"

definition ParseGoogleTestFlag :: "string \<Rightarrow> flags \<Rightarrow> bool \<times> flags" where
  "ParseGoogleTestFlag arg fl = parse_flags parsed_flags arg fl"

subsection \<open>The command line\<close>

record flag_state =
  fs_flags :: flags
  g_help_flag :: bool
  g_argvs :: "string list"

text \<open>A file that cannot be opened ends the program.\<close>

fun load_lines :: "string list \<Rightarrow> flag_state \<Rightarrow> flag_state" where
  "load_lines [] st = st"
| "load_lines (line # lines) st =
     (if line = [] then load_lines lines st
      else case ParseGoogleTestFlag (cstr line) (fs_flags st) of
        (True, fl) \<Rightarrow> load_lines lines (st\<lparr>fs_flags := fl\<rparr>)
      | (False, fl) \<Rightarrow> load_lines lines (st\<lparr>g_help_flag := True\<rparr>))"

definition LoadFlagsFromFile :: "(string \<Rightarrow> string option) \<Rightarrow> string \<Rightarrow> flag_state \<Rightarrow> stop + flag_state" where
  "LoadFlagsFromFile files path st =
     (case files path of
        None \<Rightarrow> Inl Assert_fail
      | Some contents \<Rightarrow> Inr (load_lines (SplitString contents LF) st))"

text \<open>What one argument does: whether it is removed, and the flags.\<close>

definition gtest_argument :: "(string \<Rightarrow> string option) \<Rightarrow> string \<Rightarrow> flag_state \<Rightarrow> stop + bool \<times> flag_state" where
  "gtest_argument files arg st =
     (case ParseGoogleTestFlag arg (fs_flags st) of
        (True, fl) \<Rightarrow> Inr (True, st\<lparr>fs_flags := fl\<rparr>)
      | (False, fl) \<Rightarrow>
          (case ParseStringFlag (Some arg) (Some ''flagfile'') of
             Some flagfile_value \<Rightarrow>
               bindr (LoadFlagsFromFile files flagfile_value (st\<lparr>fs_flags := (fs_flags st)(''flagfile'' := StringFlag flagfile_value)\<rparr>))
                 (\<lambda>st'. Inr (True, st'))
           | None \<Rightarrow> Inr (False, if arg = ''--help'' \<or> HasGoogleTestFlagPrefix arg then st\<lparr>g_help_flag := True\<rparr> else st)))"

definition shown_arg :: "string option \<Rightarrow> string" where
  "shown_arg a = (case a of None \<Rightarrow> ''(null)'' | Some s \<Rightarrow> s)"

text \<open>The loop that moves the arguments behind the removed one, and the \<open>NULL\<close> after them, to the left.\<close>

definition shift_left :: "nat \<Rightarrow> nat \<Rightarrow> string option list \<Rightarrow> stop + string option list" where
  "shift_left i argc argv = rfold (\<lambda>j a. bindr (vat a (j + 1)) (\<lambda>x. vput a j x)) [i..<argc] argv"

function flags_loop :: "(string \<Rightarrow> string option) \<Rightarrow> nat \<Rightarrow> nat \<Rightarrow> string option list \<Rightarrow> flag_state \<Rightarrow>
    stop + nat \<times> string option list \<times> flag_state" where
  "flags_loop files i argc argv st =
     (if i < argc then
        bindr (vat argv i) (\<lambda>a.
        bindr (gtest_argument files (shown_arg a) st) (\<lambda>(remove_flag, st').
          if remove_flag then bindr (shift_left i argc argv) (\<lambda>argv'. flags_loop files i (argc - 1) argv' st')
          else flags_loop files (i + 1) argc argv st'))
      else Inr (argc, argv, st))"
  by pat_completeness auto
termination
  by (relation "measure (\<lambda>(files, i, argc, argv, st). argc - i)") auto

declare flags_loop.simps [simp del]

datatype GTestColor = kDefault | kRed | kGreen | kYellow

text \<open>The pieces that are printed and their colours.  At the last character the code reads the terminator.\<close>

function PrintColorEncoded :: "GTestColor \<Rightarrow> string \<Rightarrow> (GTestColor \<times> string) list" where
  "PrintColorEncoded color str =
     (if CHR ''@'' \<notin> set str then [(color, str)]
      else
        let seg = takeWhile (\<lambda>c. c \<noteq> CHR ''@'') str; rest = tl (dropWhile (\<lambda>c. c \<noteq> CHR ''@'') str) in
        (color, seg) #
        (case rest of
           [] \<Rightarrow> PrintColorEncoded color []
         | ch # rest' \<Rightarrow>
             if ch = CHR ''@'' then (color, ''@'') # PrintColorEncoded color rest'
             else if ch = CHR ''D'' then PrintColorEncoded kDefault rest'
             else if ch = CHR ''R'' then PrintColorEncoded kRed rest'
             else if ch = CHR ''G'' then PrintColorEncoded kGreen rest'
             else if ch = CHR ''Y'' then PrintColorEncoded kYellow rest'
             else PrintColorEncoded color rest))"
  by pat_completeness auto

lemma tl_dropWhile_less: "c \<in> set s \<Longrightarrow> length (tl (dropWhile (\<lambda>x. x \<noteq> c) s)) < length s"
proof (induction s)
  case (Cons a s)
  have "length (tl (dropWhile (\<lambda>x. x \<noteq> c) s)) \<le> length s"
    using length_dropWhile_le [of "\<lambda>x. x \<noteq> c" s] by simp
  then show ?case by (simp add: le_imp_less_Suc)
qed simp

lemma tl_dropWhile_less_rest:
  "c \<in> set s \<Longrightarrow> d # r = tl (dropWhile (\<lambda>x. x \<noteq> c) s) \<Longrightarrow> length r < length s"
  using tl_dropWhile_less [of c s] by (metis Suc_lessD length_Cons)

termination PrintColorEncoded
  by (relation "measure (\<lambda>(color, str). length str)")
    (auto intro: tl_dropWhile_less tl_dropWhile_less [simplified] dest: tl_dropWhile_less_rest)

declare PrintColorEncoded.simps [simp del]

definition kColorEncodedHelpMessage :: string where
  "kColorEncodedHelpMessage = concat (map (\<lambda>l. l @ [LF]) [
     ''This program contains tests written using Google Test. You can use the'',
     ''following command line flags to control its behavior:'',
     [],
     ''Test Selection:'',
     ''  @G--gtest_list_tests@D'',
     ''      List the names of all tests instead of running them. The name of'',
     ''      TEST(Foo, Bar) is '' @ [CHR 0x22] @ ''Foo.Bar'' @ [CHR 0x22] @ ''.'',
     ''  @G--gtest_filter=@YPOSITIVE_PATTERNS[@G-@YNEGATIVE_PATTERNS]@D'',
     ''      Run only the tests whose name matches one of the positive patterns but'',
     ''      none of the negative patterns. '' @ [CHR 0x27] @ ''?'' @ [CHR 0x27] @ '' matches any single character; '' @ [CHR 0x27] @ ''*'' @ [CHR 0x27],
     ''      matches any substring; '' @ [CHR 0x27] @ '':'' @ [CHR 0x27] @ '' separates two patterns.'',
     ''  @G--gtest_also_run_disabled_tests@D'',
     ''      Run all disabled tests too.'',
     [],
     ''Test Execution:'',
     ''  @G--gtest_repeat=@Y[COUNT]@D'',
     ''      Run the tests repeatedly; use a negative count to repeat forever.'',
     ''  @G--gtest_shuffle@D'',
     ''      Randomize tests'' @ [CHR 0x27] @ '' orders on every iteration.'',
     ''  @G--gtest_random_seed=@Y[NUMBER]@D'',
     ''      Random number seed to use for shuffling test orders (between 1 and'',
     ''      99999, or 0 to use a seed based on the current time).'',
     ''  @G--gtest_recreate_environments_when_repeating@D'',
     ''      Sets up and tears down the global test environment on each repeat'',
     ''      of the test.'',
     [],
     ''Test Output:'',
     ''  @G--gtest_color=@Y(@Gyes@Y|@Gno@Y|@Gauto@Y)@D'',
     ''      Enable/disable colored output. The default is @Gauto@D.'',
     ''  @G--gtest_brief=1@D'',
     ''      Only print test failures.'',
     ''  @G--gtest_print_time=0@D'',
     ''      Don'' @ [CHR 0x27] @ ''t print the elapsed time of each test.'',
     ''  @G--gtest_output=@Y(@Gjson@Y|@Gxml@Y)[@G:@YDIRECTORY_PATH@G/@Y|@G:@YFILE_PATH]@D'',
     ''      Generate a JSON or XML report in the given directory or with the given'',
     ''      file name. @YFILE_PATH@D defaults to @Gtest_detail.xml@D.'',
     ''  @G--gtest_stream_result_to=@YHOST@G:@YPORT@D'',
     ''      Stream test results to the given server.'',
     [],
     ''Assertion Behavior:'',
     ''  @G--gtest_death_test_style=@Y(@Gfast@Y|@Gthreadsafe@Y)@D'',
     ''      Set the default death test style.'',
     ''  @G--gtest_break_on_failure@D'',
     ''      Turn assertion failures into debugger break-points.'',
     ''  @G--gtest_throw_on_failure@D'',
     ''      Turn assertion failures into C++ exceptions for use by an external'',
     ''      test framework.'',
     ''  @G--gtest_catch_exceptions=0@D'',
     ''      Do not report exceptions as test failures. Instead, allow them'',
     ''      to crash the program or throw a pop-up (on Windows).'',
     [],
     ''Except for @G--gtest_list_tests@D, you can alternatively set the corresponding'',
     ''environment variable of a flag (all letters in upper-case). For example, to'',
     ''disable colored text output, you can either specify @G--gtest_color=no@D or set'',
     ''the @GGTEST_COLOR@D environment variable to @Gno@D.'',
     [],
     ''For more information, please read the Google Test documentation at'',
     ''@Ghttps://github.com/google/googletest/@D. If you find a bug in Google Test'',
     ''(not one in your own code or tests), please report it to'',
     ''@G<googletestframework@@googlegroups.com>@D.''])"

definition ParseGoogleTestFlagsOnlyImpl :: "(string \<Rightarrow> string option) \<Rightarrow> nat \<Rightarrow> string option list \<Rightarrow> flag_state \<Rightarrow>
    stop + nat \<times> string option list \<times> flag_state \<times> (GTestColor \<times> string) list" where
  "ParseGoogleTestFlagsOnlyImpl files argc argv st =
     bindr (flags_loop files 1 argc argv st) (\<lambda>(argc', argv', st').
       Inr (argc', argv', st', if g_help_flag st' then PrintColorEncoded kDefault kColorEncodedHelpMessage else []))"

text \<open>What follows the parsing is a parameter; \<open>Gt_Terminal\<close> has its effect on the listeners.\<close>

definition InitGoogleTestImpl :: "(string \<Rightarrow> string option) \<Rightarrow> (flag_state \<Rightarrow> flag_state) \<Rightarrow> int \<Rightarrow> string option list \<Rightarrow> flag_state \<Rightarrow>
    stop + int \<times> string option list \<times> flag_state \<times> (GTestColor \<times> string) list" where
  "InitGoogleTestImpl files PostFlagParsingInit argc argv st =
     (if g_argvs st \<noteq> [] then Inr (argc, argv, st, [])
      else if argc \<le> 0 then Inr (argc, argv, st, [])
      else bindr (rfold (\<lambda>i as. bindr (vat argv i) (\<lambda>a. Inr (as @ [shown_arg a]))) [0..<nat argc] []) (\<lambda>as.
        bindr (ParseGoogleTestFlagsOnlyImpl files (nat argc) argv (st\<lparr>g_argvs := as\<rparr>)) (\<lambda>(argc', argv', st', out).
          Inr (int argc', argv', PostFlagParsingInit st', out))))"

subsection \<open>Directories\<close>

definition GetDirFromEnv :: "environment \<Rightarrow> string list \<Rightarrow> string \<Rightarrow> char \<Rightarrow> string" where
  "GetDirFromEnv env environment_variables fallback separator =
     (case find (\<lambda>v. env v \<noteq> None \<and> env v \<noteq> Some []) environment_variables of
        Some v \<Rightarrow> (let d = the (env v) in if last d \<noteq> separator then d @ [separator] else d)
      | None \<Rightarrow> fallback)"

definition TempDir :: "environment \<Rightarrow> string" where
  "TempDir env = GetDirFromEnv env [''TEST_TMPDIR'', ''TMPDIR''] ''/tmp/'' (CHR ''/'')"

definition GetCurrentExecutableDirectory :: "flag_state \<Rightarrow> stop + string" where
  "GetCurrentExecutableDirectory st = bindr (vat (g_argvs st) 0) (\<lambda>a. Inr (RemoveFileName (FilePath a)))"

definition SrcDir :: "environment \<Rightarrow> flag_state \<Rightarrow> stop + string" where
  "SrcDir env st = bindr (GetCurrentExecutableDirectory st) (\<lambda>d. Inr (GetDirFromEnv env [''TEST_SRCDIR''] (cstr d) (CHR ''/'')))"

subsection \<open>The flags of googlemock\<close>

definition ParseGoogleMockFlagValue :: "string option \<Rightarrow> string option \<Rightarrow> bool \<Rightarrow> string option" where
  "ParseGoogleMockFlagValue str flag_name def_optional =
     (case str of None \<Rightarrow> None | Some s \<Rightarrow>
      case flag_name of None \<Rightarrow> None | Some f \<Rightarrow>
      let flag_name_str = ''--gmock_'' @ f in
      if take (length flag_name_str) s \<noteq> flag_name_str then None
      else let flag_end = drop (length flag_name_str) s in
        if def_optional \<and> flag_end = [] then Some flag_end
        else if flag_end = [] \<or> hd flag_end \<noteq> CHR ''='' then None
        else Some (tl flag_end))"

fun ParseGoogleMockFlag :: "string \<Rightarrow> string \<Rightarrow> flag_value \<Rightarrow> flag_value option" where
  "ParseGoogleMockFlag str flag_name (BoolFlag b) =
     (case ParseGoogleMockFlagValue (Some str) (Some flag_name) True of None \<Rightarrow> None
      | Some v \<Rightarrow> Some (BoolFlag (\<not> (v \<noteq> [] \<and> hd v \<in> {CHR ''0'', CHR ''f'', CHR ''F''}))))"
| "ParseGoogleMockFlag str flag_name (StringFlag s) =
     map_option StringFlag (ParseGoogleMockFlagValue (Some str) (Some flag_name) False)"
| "ParseGoogleMockFlag str flag_name (Int32Flag i) =
     (case ParseGoogleMockFlagValue (Some str) (Some flag_name) True of None \<Rightarrow> None
      | Some v \<Rightarrow> map_option Int32Flag (ParseInt32 v))"

definition gmock_flags :: "(string \<times> flag_value) list" where
  "gmock_flags = [(''catch_leaked_mocks'', BoolFlag True), (''verbose'', StringFlag ''warning''), (''default_mock_behavior'', Int32Flag 1)]"

fun parse_mock_flags :: "string list \<Rightarrow> string \<Rightarrow> flags \<Rightarrow> bool \<times> flags" where
  "parse_mock_flags [] arg fl = (False, fl)"
| "parse_mock_flags (flag_name # names) arg fl =
     (case ParseGoogleMockFlag arg flag_name (fl flag_name) of
        Some v \<Rightarrow> (True, fl(flag_name := v))
      | None \<Rightarrow> parse_mock_flags names arg fl)"

definition mock_argument :: "string \<Rightarrow> flags \<Rightarrow> bool \<times> flags" where
  "mock_argument arg fl = parse_mock_flags [''catch_leaked_mocks'', ''verbose'', ''default_mock_behavior''] arg fl"

text \<open>The condition of the loop is that \<open>i\<close> differs from \<open>argc\<close>; behind \<open>argc\<close> the array is overrun.\<close>

function mock_flags_loop :: "nat \<Rightarrow> nat \<Rightarrow> string option list \<Rightarrow> flags \<Rightarrow> stop + nat \<times> string option list \<times> flags" where
  "mock_flags_loop i argc argv fl =
     (if i = argc then Inr (argc, argv, fl)
      else if argc < i then Inl Overread
      else
        bindr (vat argv i) (\<lambda>a.
          case mock_argument (shown_arg a) fl of (found_gmock_flag, fl') \<Rightarrow>
          if found_gmock_flag then bindr (shift_left i argc argv) (\<lambda>argv'. mock_flags_loop i (argc - 1) argv' fl')
          else mock_flags_loop (i + 1) argc argv fl'))"
  by pat_completeness auto
termination
  by (relation "measure (\<lambda>(i, argc, argv, fl). argc - i)") auto

declare mock_flags_loop.simps [simp del]

definition InitGoogleMockImpl :: "(string \<Rightarrow> string option) \<Rightarrow> (flag_state \<Rightarrow> flag_state) \<Rightarrow> int \<Rightarrow> string option list \<Rightarrow> flag_state \<Rightarrow> flags \<Rightarrow>
    stop + int \<times> string option list \<times> flag_state \<times> flags \<times> (GTestColor \<times> string) list" where
  "InitGoogleMockImpl files PostFlagParsingInit argc argv st fl =
     bindr (InitGoogleTestImpl files PostFlagParsingInit argc argv st) (\<lambda>(argc', argv', st', out).
       if argc' \<le> 0 then Inr (argc', argv', st', fl, out)
       else bindr (mock_flags_loop 1 (nat argc') argv' fl) (\<lambda>(argc'', argv'', fl').
         Inr (int argc'', argv'', st', fl', out)))"

section \<open>What the command line does\<close>

text \<open>
  The loops of \<open>ParseGoogleTestFlagsOnlyImpl\<close> and \<open>InitGoogleMockImpl\<close> move the arguments in the array while they walk over it.
  \<open>consume\<close> and \<open>mock_consume\<close> say what that does to the list of the arguments: each is looked at once, in order.
\<close>

fun consume :: "(string \<Rightarrow> string option) \<Rightarrow> string list \<Rightarrow> flag_state \<Rightarrow> stop + string list \<times> flag_state" where
  "consume files [] st = Inr ([], st)"
| "consume files (a # as) st =
     bindr (gtest_argument files a st) (\<lambda>(remove_flag, st').
     bindr (consume files as st') (\<lambda>(kept, st''). Inr (if remove_flag then kept else a # kept, st'')))"

fun mock_consume :: "string list \<Rightarrow> flags \<Rightarrow> string list \<times> flags" where
  "mock_consume [] fl = ([], fl)"
| "mock_consume (a # as) fl =
     (case mock_argument a fl of (found, fl') \<Rightarrow>
      case mock_consume as fl' of (kept, fl'') \<Rightarrow> (if found then kept else a # kept, fl''))"

subsection \<open>Moving to the left\<close>

lemma shift_left_append:
  "shift_left (length pre) (length pre + length zs) (pre @ x # zs @ ys) = Inr (pre @ zs @ last (x # zs) # ys)"
proof (induction zs arbitrary: pre x)
  case Nil
  then show ?case by (simp add: shift_left_def)
next
  case (Cons z zs)
  have "[length pre..<length pre + length (z # zs)] = length pre # [Suc (length pre)..<Suc (length pre) + length zs]"
    by (simp add: upt_conv_Cons del: upt_Suc)
  then have "shift_left (length pre) (length pre + length (z # zs)) (pre @ x # (z # zs) @ ys) =
      shift_left (length (pre @ [z])) (length (pre @ [z]) + length zs) ((pre @ [z]) @ z # zs @ ys)"
    by (simp add: shift_left_def vat_def vput_def nth_append list_update_append)
  then show ?case by (simp only: Cons.IH) simp
qed

lemma shift_left_argument:
  "shift_left (length pre) (length pre + Suc (length as)) (pre @ Some a # map Some as @ None # ys) =
   Inr (pre @ map Some as @ None # None # ys)"
  using shift_left_append [of pre "map Some as @ [None]" "Some a" ys] by simp

subsection \<open>The loops\<close>

lemma consume_length: "consume files as st = Inr (kept, st') \<Longrightarrow> length kept \<le> length as"
  by (induction as arbitrary: st kept st')
    (fastforce simp: bindr_def split: sum.splits prod.splits if_splits)+

lemma mock_consume_length: "mock_consume as fl = (kept, fl') \<Longrightarrow> length kept \<le> length as"
  by (induction as arbitrary: fl kept fl') (fastforce split: prod.splits if_splits)+

definition left_over :: "nat \<Rightarrow> string list \<Rightarrow> string option list \<Rightarrow> nat \<Rightarrow> string option list" where
  "left_over n kept pre k = pre @ map Some kept @ replicate (Suc k + (n - length kept)) None"

lemma flags_loop_consume:
  "flags_loop files (length pre) (length pre + length as) (pre @ map Some as @ replicate (Suc k) None) st =
   bindr (consume files as st) (\<lambda>(kept, st').
     Inr (length pre + length kept, left_over (length as) kept pre k, st'))"
proof (induction as arbitrary: pre k st)
  case Nil
  then show ?case by (subst flags_loop.simps) (simp add: left_over_def)
next
  case (Cons a as)
  let ?argv = "pre @ map Some (a # as) @ replicate (Suc k) None"
  have at: "vat ?argv (length pre) = Inr (Some a)" by (simp add: vat_def)
  have shift: "shift_left (length pre) (length pre + Suc (length as)) ?argv = Inr (pre @ map Some as @ replicate (Suc (Suc k)) None)"
    using shift_left_argument [of pre as a "replicate k None"] by simp
  show ?case
  proof (cases "gtest_argument files a st")
    case (Inl e)
    then show ?thesis by (subst flags_loop.simps) (simp add: at [simplified] shown_arg_def)
  next
    case (Inr r)
    obtain remove_flag st' where r: "r = (remove_flag, st')" by (cases r)
    show ?thesis
    proof (cases remove_flag)
      case True
      have "flags_loop files (length pre) (length pre + length (a # as)) ?argv st =
          flags_loop files (length pre) (length pre + length as) (pre @ map Some as @ replicate (Suc (Suc k)) None) st'"
        using Inr r True shift by (subst flags_loop.simps) (simp add: at [simplified] shown_arg_def)
      also have "\<dots> = bindr (consume files as st') (\<lambda>(kept, st').
          Inr (length pre + length kept, left_over (length as) kept pre (Suc k), st'))"
        by (rule Cons.IH)
      also have "\<dots> = bindr (consume files (a # as) st) (\<lambda>(kept, st').
          Inr (length pre + length kept, left_over (length (a # as)) kept pre k, st'))"
        using Inr r True consume_length [of files as st']
        by (cases "consume files as st'") (auto simp: left_over_def Suc_diff_le)
      finally show ?thesis .
    next
      case False
      have "flags_loop files (length pre) (length pre + length (a # as)) ?argv st =
          flags_loop files (length (pre @ [Some a])) (length (pre @ [Some a]) + length as)
            ((pre @ [Some a]) @ map Some as @ replicate (Suc k) None) st'"
        using Inr r False by (subst flags_loop.simps) (simp add: at [simplified] shown_arg_def)
      also have "\<dots> = bindr (consume files as st') (\<lambda>(kept, st').
          Inr (length (pre @ [Some a]) + length kept, left_over (length as) kept (pre @ [Some a]) k, st'))"
        by (rule Cons.IH)
      also have "\<dots> = bindr (consume files (a # as) st) (\<lambda>(kept, st').
          Inr (length pre + length kept, left_over (length (a # as)) kept pre k, st'))"
        using Inr r False by (cases "consume files as st'") (auto simp: left_over_def)
      finally show ?thesis .
    qed
  qed
qed

lemma mock_flags_loop_consume:
  "mock_flags_loop (length pre) (length pre + length as) (pre @ map Some as @ replicate (Suc k) None) fl =
   (case mock_consume as fl of (kept, fl') \<Rightarrow> Inr (length pre + length kept, left_over (length as) kept pre k, fl'))"
proof (induction as arbitrary: pre k fl)
  case Nil
  then show ?case by (subst mock_flags_loop.simps) (simp add: left_over_def)
next
  case (Cons a as)
  let ?argv = "pre @ map Some (a # as) @ replicate (Suc k) None"
  have at: "vat ?argv (length pre) = Inr (Some a)" by (simp add: vat_def)
  have shift: "shift_left (length pre) (length pre + Suc (length as)) ?argv = Inr (pre @ map Some as @ replicate (Suc (Suc k)) None)"
    using shift_left_argument [of pre as a "replicate k None"] by simp
  obtain found fl' where r: "mock_argument a fl = (found, fl')" by (cases "mock_argument a fl")
  obtain kept fl'' where c: "mock_consume as fl' = (kept, fl'')" by (cases "mock_consume as fl'")
  show ?case
  proof (cases found)
    case True
    have "mock_flags_loop (length pre) (length pre + length (a # as)) ?argv fl =
        mock_flags_loop (length pre) (length pre + length as) (pre @ map Some as @ replicate (Suc (Suc k)) None) fl'"
      using r True shift by (subst mock_flags_loop.simps) (simp add: at [simplified] shown_arg_def)
    then show ?thesis
      using r True c mock_consume_length [OF c] by (simp only: Cons.IH) (simp add: left_over_def Suc_diff_le)
  next
    case False
    have "mock_flags_loop (length pre) (length pre + length (a # as)) ?argv fl =
        mock_flags_loop (length (pre @ [Some a])) (length (pre @ [Some a]) + length as)
          ((pre @ [Some a]) @ map Some as @ replicate (Suc k) None) fl'"
      using r False by (subst mock_flags_loop.simps) (simp add: at [simplified] shown_arg_def)
    then show ?thesis using r False c by (simp only: Cons.IH) (simp add: left_over_def)
  qed
qed

subsection \<open>The types of the flags\<close>

datatype flag_type = Bool_flag | Int32_flag | String_flag

fun type_of_flag :: "flag_value \<Rightarrow> flag_type" where
  "type_of_flag (BoolFlag b) = Bool_flag"
| "type_of_flag (Int32Flag i) = Int32_flag"
| "type_of_flag (StringFlag s) = String_flag"

definition same_types :: "flags \<Rightarrow> flags \<Rightarrow> bool" where
  "same_types fl fl' \<longleftrightarrow> type_of_flag \<circ> fl = type_of_flag \<circ> fl'"

lemma same_types_at: "same_types fl fl' \<Longrightarrow> type_of_flag (fl n) = type_of_flag (fl' n)"
  by (simp add: same_types_def fun_eq_iff)

lemma same_types_refl [simp]: "same_types fl fl" by (simp add: same_types_def)

lemma same_types_sym: "same_types fl fl' \<Longrightarrow> same_types fl' fl" by (simp add: same_types_def)

lemma same_types_trans: "same_types fl fl' \<Longrightarrow> same_types fl' fl'' \<Longrightarrow> same_types fl fl''"
  by (simp add: same_types_def)

lemma same_types_update: "type_of_flag v = type_of_flag (fl n) \<Longrightarrow> same_types (fl(n := v)) fl"
  by (auto simp: same_types_def)

lemma ParseFlag_type: "ParseFlag a n v = Some w \<Longrightarrow> type_of_flag w = type_of_flag v"
  by (cases v) auto

lemma ParseFlag_cong: "type_of_flag v = type_of_flag w \<Longrightarrow> ParseFlag a n v = ParseFlag a n w"
  by (cases v; cases w) auto

lemma parse_flags_types: "same_types (snd (parse_flags names a fl)) fl"
  by (induction names) (auto simp: same_types_def fun_eq_iff split: option.splits dest: ParseFlag_type)

lemma parse_flags_cong: "same_types fl fl' \<Longrightarrow> fst (parse_flags names a fl) = fst (parse_flags names a fl')"
proof (induction names)
  case (Cons n names)
  then show ?case using ParseFlag_cong [OF same_types_at [of fl fl' n], of a n] by (auto split: option.splits)
qed simp

lemma ParseGoogleMockFlag_type: "ParseGoogleMockFlag a n v = Some w \<Longrightarrow> type_of_flag w = type_of_flag v"
  by (cases v) (auto split: option.splits)

lemma ParseGoogleMockFlag_cong: "type_of_flag v = type_of_flag w \<Longrightarrow> ParseGoogleMockFlag a n v = ParseGoogleMockFlag a n w"
  by (cases v; cases w) auto

lemma parse_mock_flags_types: "same_types (snd (parse_mock_flags names a fl)) fl"
  by (induction names) (auto simp: same_types_def fun_eq_iff split: option.splits dest: ParseGoogleMockFlag_type)

lemma parse_mock_flags_cong:
  "same_types fl fl' \<Longrightarrow> fst (parse_mock_flags names a fl) = fst (parse_mock_flags names a fl')"
proof (induction names)
  case (Cons n names)
  then show ?case using ParseGoogleMockFlag_cong [OF same_types_at [of fl fl' n], of a n] by (auto split: option.splits)
qed simp

lemma initial_flags_types: "same_types (initial_flags env) (initial_flags env')"
proof -
  have "map (\<lambda>(n, v). (n, type_of_flag v)) (gtest_flags env) = map (\<lambda>(n, v). (n, type_of_flag v)) (gtest_flags env')"
    by (simp add: gtest_flags_def Let_def)
  then have "map_option type_of_flag \<circ> map_of (gtest_flags env) = map_option type_of_flag \<circ> map_of (gtest_flags env')"
    by (simp add: map_of_map [symmetric])
  then have "\<And>n. map_option type_of_flag (map_of (gtest_flags env) n) = map_option type_of_flag (map_of (gtest_flags env') n)"
    by (metis comp_apply)
  then show ?thesis
    unfolding same_types_def initial_flags_def comp_def
    by (metis (no_types, lifting) option.case_eq_if option.map_disc_iff option.map_sel option.distinct(1))
qed

subsection \<open>Which arguments are taken out\<close>

definition start_flags :: flags where
  "start_flags = initial_flags (\<lambda>_. None)"

definition is_gtest_flag :: "string \<Rightarrow> bool" where
  "is_gtest_flag a \<longleftrightarrow> fst (ParseGoogleTestFlag a start_flags) \<or> ParseStringFlag (Some a) (Some ''flagfile'') \<noteq> None"

definition mock_start_flags :: flags where
  "mock_start_flags name = (case map_of gmock_flags name of Some v \<Rightarrow> v | None \<Rightarrow> StringFlag [])"

definition is_gmock_flag :: "string \<Rightarrow> bool" where
  "is_gmock_flag a \<longleftrightarrow> fst (mock_argument a mock_start_flags)"

lemma flagfile_type: "same_types fl start_flags \<Longrightarrow> type_of_flag (fl ''flagfile'') = String_flag"
  by (drule same_types_at [of _ _ "''flagfile''"])
    (simp add: start_flags_def initial_flags_def gtest_flags_def Let_def StringFromGTestEnv_def)

lemma ParseGoogleTestFlag_types: "ParseGoogleTestFlag a fl = (b, fl') \<Longrightarrow> same_types fl' fl"
  using parse_flags_types [of parsed_flags a fl] by (simp add: ParseGoogleTestFlag_def)

lemma load_lines_types: "same_types (fs_flags (load_lines ls st)) (fs_flags st)"
proof (induction ls arbitrary: st)
  case (Cons l ls)
  obtain b fl where p: "ParseGoogleTestFlag (cstr l) (fs_flags st) = (b, fl)" by fastforce
  show ?case
    using Cons.IH [of "st\<lparr>fs_flags := fl\<rparr>"] Cons.IH [of "st\<lparr>g_help_flag := True\<rparr>"] Cons.IH [of st]
      ParseGoogleTestFlag_types [OF p] p
    by (auto split: bool.splits intro: same_types_trans)
qed simp

lemma gtest_argument_types:
  assumes "gtest_argument files a st = Inr (r, st')" "same_types (fs_flags st) start_flags"
  shows "r \<longleftrightarrow> is_gtest_flag a" "same_types (fs_flags st') start_flags"
proof -
  obtain b fl where p: "ParseGoogleTestFlag a (fs_flags st) = (b, fl)" by fastforce
  have b: "b = fst (ParseGoogleTestFlag a start_flags)"
    using parse_flags_cong [OF assms(2), of parsed_flags a] p by (simp add: ParseGoogleTestFlag_def)
  have fl: "same_types fl start_flags" using ParseGoogleTestFlag_types [OF p] assms(2) by (rule same_types_trans)
  have ff: "\<And>v. same_types ((fs_flags st)(''flagfile'' := StringFlag v)) start_flags"
    using same_types_update [of "StringFlag _" "fs_flags st" "''flagfile''"] flagfile_type [OF assms(2)] assms(2)
    by (auto intro: same_types_trans)
  have "(r \<longleftrightarrow> is_gtest_flag a) \<and> same_types (fs_flags st') start_flags"
  proof (cases b)
    case True
    with assms(1) p b fl show ?thesis by (auto simp: gtest_argument_def is_gtest_flag_def)
  next
    case False
    show ?thesis
    proof (cases "ParseStringFlag (Some a) (Some ''flagfile'')")
      case None
      with assms False p b show ?thesis by (auto simp: gtest_argument_def is_gtest_flag_def)
    next
      case (Some v)
      let ?st = "st\<lparr>fs_flags := (fs_flags st)(''flagfile'' := StringFlag v)\<rparr>"
      obtain c where "files v = Some c" "r" "st' = load_lines (SplitString c LF) ?st"
        using assms(1) False p Some
        by (cases "files v") (auto simp: gtest_argument_def LoadFlagsFromFile_def)
      moreover from ff [of v] have "same_types (fs_flags ?st) start_flags" by simp
      then have "same_types (fs_flags (load_lines (SplitString c LF) ?st)) start_flags"
        by (rule same_types_trans [OF load_lines_types])
      ultimately show ?thesis using Some by (simp add: is_gtest_flag_def)
    qed
  qed
  then show "r \<longleftrightarrow> is_gtest_flag a" "same_types (fs_flags st') start_flags" by auto
qed

text \<open>The state after the arguments, in their order.\<close>

definition arguments_done :: "(string \<Rightarrow> string option) \<Rightarrow> string list \<Rightarrow> flag_state \<Rightarrow> stop + flag_state" where
  "arguments_done files args st = rfold (\<lambda>a st. bindr (gtest_argument files a st) (\<lambda>(_, st'). Inr st')) args st"

definition mock_arguments_done :: "string list \<Rightarrow> flags \<Rightarrow> flags" where
  "mock_arguments_done args fl = fold (\<lambda>a fl. snd (mock_argument a fl)) args fl"

lemma consume_filter:
  "same_types (fs_flags st) start_flags \<Longrightarrow>
   consume files args st = bindr (arguments_done files args st) (\<lambda>st'. Inr (filter (\<lambda>a. \<not> is_gtest_flag a) args, st'))"
proof (induction args arbitrary: st)
  case Nil
  then show ?case by (simp add: arguments_done_def)
next
  case (Cons a args)
  show ?case
  proof (cases "gtest_argument files a st")
    case (Inr x)
    obtain r st' where x: "x = (r, st')" by (cases x)
    note t = gtest_argument_types [OF Inr [unfolded x] Cons.prems]
    show ?thesis
      using Inr x t(1) Cons.IH [OF t(2)] by (cases "arguments_done files args st'") (simp_all add: arguments_done_def)
  qed (simp add: arguments_done_def)
qed

lemma mock_consume_filter:
  "same_types fl mock_start_flags \<Longrightarrow>
   mock_consume args fl = (filter (\<lambda>a. \<not> is_gmock_flag a) args, mock_arguments_done args fl)"
proof (induction args arbitrary: fl)
  case (Cons a args)
  obtain b fl' where p: "mock_argument a fl = (b, fl')" by fastforce
  let ?names = "[''catch_leaked_mocks'', ''verbose'', ''default_mock_behavior'']"
  have pm: "parse_mock_flags ?names a fl = (b, fl')" using p by (simp only: mock_argument_def)
  have "b = is_gmock_flag a"
    using parse_mock_flags_cong [OF Cons.prems, of ?names a] pm by (simp only: mock_argument_def is_gmock_flag_def fst_conv)
  moreover have "same_types fl' fl" using parse_mock_flags_types [of ?names a fl] pm by (simp only: snd_conv)
  then have "same_types fl' mock_start_flags" using Cons.prems by (rule same_types_trans)
  ultimately show ?case using Cons.IH [of fl'] p by (simp add: mock_arguments_done_def)
qed (simp add: mock_arguments_done_def)

subsection \<open>The property\<close>

lemma gather_argv:
  "rfold (\<lambda>i as. bindr (vat (map Some xs @ ys) i) (\<lambda>a. Inr (as @ [shown_arg a]))) [0..<length xs] [] = Inr xs"
proof -
  have "\<exists>s'. rfold (\<lambda>i as. bindr (vat (map Some xs @ ys) i) (\<lambda>a. Inr (as @ [shown_arg a]))) [0..<length xs] [] = Inr s' \<and>
      s' = take (length xs) xs"
    by (rule rfold_upt_inv) (auto simp: vat_def nth_append shown_arg_def take_Suc_conv_app_nth)
  then show ?thesis by simp
qed

text \<open>C34. \<open>InitGoogleMock\<close> on the command line of a program, that is \<open>argc\<close> pointers and a \<open>NULL\<close>: either the program
  stops, and then a flag file could not be opened, or exactly the arguments that are flags are taken out of \<open>argv\<close>.  The program
  name and the other arguments keep their order, the rest of the array is \<open>NULL\<close>, \<open>argc\<close> counts what is left, and the
  flags are what the arguments, read once each and in their order, make of the initial ones.\<close>

theorem command_line_is_consumed:
  "InitGoogleMockImpl files PostFlagParsingInit (int (Suc (length args))) (Some prog # map Some args @ [None])
     \<lparr>fs_flags = initial_flags env, g_help_flag = h, g_argvs = []\<rparr> mock_start_flags =
   bindr (arguments_done files args \<lparr>fs_flags = initial_flags env, g_help_flag = h, g_argvs = prog # args\<rparr>) (\<lambda>st'.
     Inr (let kept = filter (\<lambda>a. \<not> is_gtest_flag a) args; left = filter (\<lambda>a. \<not> is_gmock_flag a) kept in
       (int (Suc (length left)),
        Some prog # map Some left @ replicate (Suc (length args - length left)) None,
        PostFlagParsingInit st',
        mock_arguments_done kept mock_start_flags,
        if g_help_flag st' then PrintColorEncoded kDefault kColorEncodedHelpMessage else [])))"
proof -
  let ?st = "\<lparr>fs_flags = initial_flags env, g_help_flag = h, g_argvs = prog # args\<rparr>"
  let ?argv = "Some prog # map Some args @ [None]"
  let ?kept = "filter (\<lambda>a. \<not> is_gtest_flag a) args" and ?k = "length args - length (filter (\<lambda>a. \<not> is_gtest_flag a) args)"
  have gather: "rfold (\<lambda>i as. bindr (vat ?argv i) (\<lambda>a. Inr (as @ [shown_arg a]))) [0..<Suc (length args)] [] = Inr (prog # args)"
    using gather_argv [of "prog # args" "[None]"] by simp
  have loop: "flags_loop files 1 (Suc (length args)) ?argv ?st =
      bindr (arguments_done files args ?st) (\<lambda>st'. Inr (Suc (length ?kept), [Some prog] @ map Some ?kept @ replicate (Suc ?k) None, st'))"
    using flags_loop_consume [of files "[Some prog]" args 0 ?st] consume_filter [of ?st files args]
      initial_flags_types [of env "\<lambda>_. None"]
    by (cases "arguments_done files args ?st") (simp_all add: start_flags_def left_over_def)
  have mock: "mock_flags_loop 1 (Suc (length ?kept)) ([Some prog] @ map Some ?kept @ replicate (Suc ?k) None) mock_start_flags =
      Inr (Suc (length (filter (\<lambda>a. \<not> is_gmock_flag a) ?kept)),
        Some prog # map Some (filter (\<lambda>a. \<not> is_gmock_flag a) ?kept) @
          replicate (Suc (length args - length (filter (\<lambda>a. \<not> is_gmock_flag a) ?kept))) None,
        mock_arguments_done ?kept mock_start_flags)"
  proof -
    have "length (filter (\<lambda>a. \<not> is_gmock_flag a) ?kept) \<le> length ?kept" "length ?kept \<le> length args"
      by (rule length_filter_le)+
    then show ?thesis
      using mock_flags_loop_consume [of "[Some prog]" ?kept ?k mock_start_flags]
      by (simp add: mock_consume_filter left_over_def del: filter_filter)
  qed
  have n: "nat (1 + int k) = Suc k" for k by simp
  show ?thesis
    using gather loop mock
    by (cases "arguments_done files args ?st")
      (simp_all add: InitGoogleMockImpl_def InitGoogleTestImpl_def ParseGoogleTestFlagsOnlyImpl_def Let_def n
        del: filter_filter upt_Suc)
qed

end
