(* ===== verification/Gt_Death.thy ===== *)
theory Gt_Death
  imports Gt_Flags
begin

section \<open>Death tests (\<open>googletest/src/gtest-death-test.cc\<close>)\<close>

text \<open>
  A death test runs its statement in a child process, which reports through a pipe when it does not die.  The model is that of a
  POSIX system.  What the system calls return is a script, in which a call can be interrupted; the code of the test, the text that
  the child writes to standard error and the expected text (a matcher) are parameters.  A fatal log ends the process, as a
  failed check does; its text is left out.
\<close>

subsection \<open>Exit statuses\<close>

text \<open>The macros of \<open>sys/wait.h\<close> on Linux.\<close>

definition WIFEXITED :: "int \<Rightarrow> bool" where "WIFEXITED s \<longleftrightarrow> s mod 128 = 0"

definition WEXITSTATUS :: "int \<Rightarrow> int" where "WEXITSTATUS s = s div 256 mod 256"

definition WIFSIGNALED :: "int \<Rightarrow> bool" where "WIFSIGNALED s \<longleftrightarrow> s mod 128 \<noteq> 0 \<and> s mod 128 \<noteq> 127"

definition WTERMSIG :: "int \<Rightarrow> int" where "WTERMSIG s = s mod 128"

definition WCOREDUMP :: "int \<Rightarrow> bool" where "WCOREDUMP s \<longleftrightarrow> s div 128 mod 2 = 1"

definition ExitedWithCode :: "int \<Rightarrow> int \<Rightarrow> bool" where
  "ExitedWithCode exit_code exit_status \<longleftrightarrow> WIFEXITED exit_status \<and> WEXITSTATUS exit_status = exit_code"

definition KilledBySignal :: "int \<Rightarrow> int \<Rightarrow> bool" where
  "KilledBySignal signum exit_status \<longleftrightarrow> WIFSIGNALED exit_status \<and> WTERMSIG exit_status = signum"

definition ExitedUnsuccessfully :: "int \<Rightarrow> bool" where
  "ExitedUnsuccessfully exit_status \<longleftrightarrow> \<not> ExitedWithCode 0 exit_status"

definition ExitSummary :: "int \<Rightarrow> string" where
  "ExitSummary exit_code =
     (if WIFEXITED exit_code then ''Exited with exit status '' @ dec_int (WEXITSTATUS exit_code)
      else if WIFSIGNALED exit_code then ''Terminated by signal '' @ dec_int (WTERMSIG exit_code) else []) @
     (if WCOREDUMP exit_code then '' (core dumped)'' else [])"

definition DeathTestThreadWarning :: "nat \<Rightarrow> string" where
  "DeathTestThreadWarning thread_count =
     ''Death tests use fork(), which is unsafe particularly in a threaded context. For this test, Google Test '' @
     (if thread_count = 0 then ''couldn'' @ [CHR 0x27] @ ''t detect the number of threads.''
      else ''detected '' @ dec_int (int thread_count) @ '' threads.'') @
     '' See https://github.com/google/googletest/blob/main/docs/advanced.md#death-tests-and-threads'' @
     '' for more explanation and suggested solutions, especially if this is the last message you see before your test times out.''"

subsection \<open>The flag of the child process\<close>

record InternalRunDeathTestFlag =
  df_file :: string
  df_line :: int
  df_index :: int
  df_write_fd :: int

definition ULLONG_MAX :: int where "ULLONG_MAX = 18446744073709551615"

text \<open>For an \<open>int\<close>: the digits as an \<open>unsigned long long\<close>, which must survive the conversion.\<close>

definition ParseNaturalNumber :: "string \<Rightarrow> int option" where
  "ParseNaturalNumber str =
     (if str = [] \<or> \<not> isdigit (hd str) then None
      else
        let s = cstr str;
            v = fold (\<lambda>c n. 10 * n + (of_char c - 48)) (takeWhile isdigit s) (0 :: int);
            parsed = min v ULLONG_MAX;
            parse_success = (dropWhile isdigit s = [] \<and> v \<le> ULLONG_MAX);
            result = int32_of parsed
        in if parse_success \<and> result mod (ULLONG_MAX + 1) = parsed then Some result else None)"

definition BAR :: char where "BAR = CHR ''|''"

text \<open>The text is that of the flag \<open>internal_run_death_test\<close>.\<close>

definition ParseInternalRunDeathTestFlag :: "string \<Rightarrow> stop + InternalRunDeathTestFlag option" where
  "ParseInternalRunDeathTestFlag text =
     (if text = [] then Inr None
      else let fields = SplitString text BAR in
        if length fields \<noteq> 4 then Inl Assert_fail
        else case (ParseNaturalNumber (fields ! 1), ParseNaturalNumber (fields ! 2), ParseNaturalNumber (fields ! 3)) of
          (Some line, Some index, Some write_fd) \<Rightarrow>
            Inr (Some \<lparr>df_file = fields ! 0, df_line = line, df_index = index, df_write_fd = write_fd\<rparr>)
        | _ \<Rightarrow> Inl Assert_fail)"

definition InDeathTestChild :: "flags \<Rightarrow> bool \<Rightarrow> bool" where
  "InDeathTestChild fl g_in_fast_death_test_child =
     (if fl ''death_test_style'' = StringFlag ''threadsafe'' then fl ''internal_run_death_test'' \<noteq> StringFlag []
      else g_in_fast_death_test_child)"

subsection \<open>The child\<close>

datatype abort_reason = TEST_ENCOUNTERED_RETURN_STATEMENT | TEST_THREW_EXCEPTION | TEST_DID_NOT_DIE

definition kDeathTestLived :: char where "kDeathTestLived = CHR ''L''"

definition kDeathTestReturned :: char where "kDeathTestReturned = CHR ''R''"

definition kDeathTestThrew :: char where "kDeathTestThrew = CHR ''T''"

definition kDeathTestInternalError :: char where "kDeathTestInternalError = CHR ''I''"

text \<open>A system call that is checked is repeated while it is interrupted.\<close>

datatype sys_result = Done int | Interrupted | Call_failed

fun check_syscall :: "sys_result list \<Rightarrow> stop + int" where
  "check_syscall [] = Inl Blocked"
| "check_syscall (Done v # rs) = Inr v"
| "check_syscall (Interrupted # rs) = check_syscall rs"
| "check_syscall (Call_failed # rs) = Inl Assert_fail"

text \<open>What goes into the pipe, and how the process ends.\<close>

definition DeathTestAbort :: "InternalRunDeathTestFlag option \<Rightarrow> string \<Rightarrow> string \<times> stop" where
  "DeathTestAbort flag message =
     (case flag of None \<Rightarrow> ([], Assert_fail) | Some f \<Rightarrow> (kDeathTestInternalError # cstr message, Exit 1))"

definition status_char :: "abort_reason \<Rightarrow> char" where
  "status_char reason =
     (if reason = TEST_DID_NOT_DIE then kDeathTestLived
      else if reason = TEST_THREW_EXCEPTION then kDeathTestThrew else kDeathTestReturned)"

definition Abort :: "InternalRunDeathTestFlag option \<Rightarrow> abort_reason \<Rightarrow> sys_result list \<Rightarrow> string \<times> stop" where
  "Abort flag reason writes =
     (case check_syscall writes of
        Inr _ \<Rightarrow> ([status_char reason], Exit 1)
      | Inl Assert_fail \<Rightarrow> DeathTestAbort flag ''CHECK failed: posix::Write(write_fd(), &status_ch, 1) != -1''
      | Inl r \<Rightarrow> ([], r))"

text \<open>How the statement of a death test ends in the child, and what the child does then.\<close>

datatype statement_end = Dies int | Falls_through | Returns | Throws

definition execute_death_test ::
  "InternalRunDeathTestFlag option \<Rightarrow> sys_result list \<Rightarrow> statement_end \<Rightarrow> string \<times> (int + stop)" where
  "execute_death_test flag writes e =
     (case e of
        Dies status \<Rightarrow> ([], Inl status)
      | Falls_through \<Rightarrow> map_prod id Inr (Abort flag TEST_DID_NOT_DIE writes)
      | Returns \<Rightarrow> map_prod id Inr (Abort flag TEST_ENCOUNTERED_RETURN_STATEMENT writes)
      | Throws \<Rightarrow> map_prod id Inr (Abort flag TEST_THREW_EXCEPTION writes))"

subsection \<open>The parent\<close>

datatype DeathTestOutcome = IN_PROGRESS | DIED | LIVED | RETURNED | THREW

record death_test =
  dt_statement :: string
  dt_spawned :: bool
  dt_status :: int
  dt_outcome :: DeathTestOutcome
  dt_read_fd :: int
  dt_write_fd :: int
  dt_child_pid :: int

definition DeathTestImpl :: "string \<Rightarrow> death_test" where
  "DeathTestImpl a_statement = \<lparr>dt_statement = a_statement, dt_spawned = False, dt_status = - 1, dt_outcome = IN_PROGRESS,
     dt_read_fd = - 1, dt_write_fd = - 1, dt_child_pid = - 1\<rparr>"

datatype pipe_event = Byte char | Closed | Read_interrupted | Read_failed

text \<open>Reading one byte; \<open>None\<close> is the end of the pipe.\<close>

fun read_byte :: "pipe_event list \<Rightarrow> stop + char option \<times> pipe_event list" where
  "read_byte [] = Inl Blocked"
| "read_byte (Byte c # es) = Inr (Some c, es)"
| "read_byte (Closed # es) = Inr (None, es)"
| "read_byte (Read_interrupted # es) = read_byte es"
| "read_byte (Read_failed # es) = Inl Assert_fail"

text \<open>It reads what the child wrote and ends the process with a fatal log.\<close>

fun FailFromInternalError :: "pipe_event list \<Rightarrow> stop" where
  "FailFromInternalError [] = Blocked"
| "FailFromInternalError (Closed # es) = Assert_fail"
| "FailFromInternalError (Read_failed # es) = Assert_fail"
| "FailFromInternalError (Byte c # es) = FailFromInternalError es"
| "FailFromInternalError (Read_interrupted # es) = FailFromInternalError es"

definition ReadAndInterpretStatusByte :: "pipe_event list \<Rightarrow> sys_result list \<Rightarrow> death_test \<Rightarrow> stop + death_test" where
  "ReadAndInterpretStatusByte events closes dt =
     bindr (read_byte events) (\<lambda>(r, rest).
     bindr (case r of
         None \<Rightarrow> Inr DIED
       | Some flag \<Rightarrow>
           if flag = kDeathTestReturned then Inr RETURNED
           else if flag = kDeathTestThrew then Inr THREW
           else if flag = kDeathTestLived then Inr LIVED
           else if flag = kDeathTestInternalError then Inl (FailFromInternalError rest)
           else Inl Assert_fail) (\<lambda>outcome.
     bindr (check_syscall closes) (\<lambda>_. Inr (dt\<lparr>dt_outcome := outcome, dt_read_fd := - 1\<rparr>))))"

definition ForkingDeathTest_Wait :: "pipe_event list \<Rightarrow> sys_result list \<Rightarrow> sys_result list \<Rightarrow> death_test \<Rightarrow> stop + int \<times> death_test" where
  "ForkingDeathTest_Wait events closes waits dt =
     (if \<not> dt_spawned dt then Inr (0, dt)
      else bindr (ReadAndInterpretStatusByte events closes dt) (\<lambda>dt1.
           bindr (check_syscall waits) (\<lambda>status_value. Inr (status_value, dt1\<lparr>dt_status := status_value\<rparr>))))"

function FormatDeathTestOutput :: "string \<Rightarrow> string" where
  "FormatDeathTestOutput output =
     ''[  DEATH   ] '' @
     (if LF \<notin> set output then output
      else takeWhile (\<lambda>ch. ch \<noteq> LF) output @ [LF] @ FormatDeathTestOutput (tl (dropWhile (\<lambda>ch. ch \<noteq> LF) output)))"
  by pat_completeness auto
termination
  by (relation "measure length") (auto intro: tl_dropWhile_less tl_dropWhile_less [simplified])

declare FormatDeathTestOutput.simps [simp del]

record death_matcher =
  Matches :: "string \<Rightarrow> bool"
  DescribeTo :: string

text \<open>Whether the test passed, and the last message when it is set.\<close>

definition DeathTest_Passed :: "death_matcher \<Rightarrow> string \<Rightarrow> bool \<Rightarrow> death_test \<Rightarrow> stop + bool \<times> string option" where
  "DeathTest_Passed matcher error_message status_ok dt =
     (if \<not> dt_spawned dt then Inr (False, None)
      else
        let head = ''Death test: '' @ dt_statement dt @ [LF];
            said = (\<lambda>success buffer. Inr (success, Some (StringStreamToString (head @ buffer))));
            log = FormatDeathTestOutput error_message in
        case dt_outcome dt of
          LIVED \<Rightarrow> said False (''    Result: failed to die.'' @ [LF] @ '' Error msg:'' @ [LF] @ log)
        | THREW \<Rightarrow> said False (''    Result: threw an exception.'' @ [LF] @ '' Error msg:'' @ [LF] @ log)
        | RETURNED \<Rightarrow> said False (''    Result: illegal return in test statement.'' @ [LF] @ '' Error msg:'' @ [LF] @ log)
        | DIED \<Rightarrow>
            if status_ok then
              if Matches matcher error_message then said True []
              else said False (''    Result: died but not with expected error.'' @ [LF] @ ''  Expected: '' @ DescribeTo matcher @ [LF] @
                     ''Actual msg:'' @ [LF] @ log)
            else said False (''    Result: died but not with expected exit code:'' @ [LF] @ ''            '' @ ExitSummary (dt_status dt) @ [LF] @
                   ''Actual msg:'' @ [LF] @ log)
        | IN_PROGRESS \<Rightarrow> Inl Assert_fail)"

subsection \<open>Roles\<close>

datatype TestRole = OVERSEE_TEST | EXECUTE_TEST

text \<open>A failed check of a call that is not repeated.\<close>

definition death_test_check :: "bool \<Rightarrow> stop + unit" where
  "death_test_check ok = (if ok then Inr () else Inl Assert_fail)"

definition NoExecDeathTest_AssumeRole ::
  "(int \<times> int) option \<Rightarrow> int \<Rightarrow> sys_result list \<Rightarrow> death_test \<Rightarrow> stop + TestRole \<times> death_test" where
  "NoExecDeathTest_AssumeRole pipe_fds child_pid closes dt =
     bindr (death_test_check (pipe_fds \<noteq> None)) (\<lambda>_.
     bindr (death_test_check (child_pid \<noteq> - 1)) (\<lambda>_.
     let dt1 = dt\<lparr>dt_child_pid := child_pid\<rparr>; (read_end, write_end) = the pipe_fds in
     bindr (check_syscall closes) (\<lambda>_.
       if child_pid = 0 then Inr (EXECUTE_TEST, dt1\<lparr>dt_write_fd := write_end\<rparr>)
       else Inr (OVERSEE_TEST, dt1\<lparr>dt_read_fd := read_end, dt_spawned := True\<rparr>))))"

definition filter_flag :: "string \<Rightarrow> string \<Rightarrow> string" where
  "filter_flag test_suite_name name = ''--'' @ GTEST_FLAG_PREFIX @ ''filter='' @ test_suite_name @ ''.'' @ name"

definition internal_flag :: "string \<Rightarrow> int \<Rightarrow> int \<Rightarrow> int \<Rightarrow> string" where
  "internal_flag file line death_test_index write_fd =
     ''--'' @ GTEST_FLAG_PREFIX @ ''internal_run_death_test='' @ file @ ''|'' @ dec_int line @ ''|'' @ dec_int death_test_index @ ''|'' @
     dec_int write_fd"

text \<open>The arguments of the child are returned as well.\<close>

definition ExecDeathTest_AssumeRole ::
  "InternalRunDeathTestFlag option \<Rightarrow> string \<Rightarrow> int \<Rightarrow> string \<times> string \<Rightarrow> int \<Rightarrow> string list \<Rightarrow> (int \<times> int) option \<Rightarrow> int \<Rightarrow> int \<Rightarrow>
     sys_result list \<Rightarrow> death_test \<Rightarrow> stop + TestRole \<times> death_test \<times> string list" where
  "ExecDeathTest_AssumeRole flag file line info death_test_index argvs pipe_fds fcntl_result child_pid closes dt =
     (case flag of
        Some f \<Rightarrow> Inr (EXECUTE_TEST, dt\<lparr>dt_write_fd := df_write_fd f\<rparr>, [])
      | None \<Rightarrow>
          bindr (death_test_check (pipe_fds \<noteq> None)) (\<lambda>_.
          let (read_end, write_end) = the pipe_fds in
          bindr (death_test_check (fcntl_result \<noteq> - 1)) (\<lambda>_.
          let args = argvs @ [filter_flag (fst info) (snd info), internal_flag file line death_test_index write_end] in
          bindr (death_test_check (child_pid \<noteq> - 1)) (\<lambda>_.
          bindr (check_syscall closes) (\<lambda>_.
          Inr (OVERSEE_TEST, dt\<lparr>dt_child_pid := child_pid, dt_read_fd := read_end, dt_spawned := True\<rparr>, args))))))"

subsection \<open>The factory\<close>

datatype created = No_test | Exec_test | NoExec_test | Unknown_style string | Count_exceeded string

text \<open>
  \<open>count\<close> is the number of death tests that the current test has met, \<open>None\<close> when no test is running.  The new count is
  returned with what is created; the last two cases are those in which the code returns false.
\<close>

definition DefaultDeathTestFactory_Create ::
  "InternalRunDeathTestFlag option \<Rightarrow> string \<Rightarrow> int option \<Rightarrow> string \<Rightarrow> int \<Rightarrow> stop + int \<times> created" where
  "DefaultDeathTestFactory_Create flag style current_test_count file line =
     (case current_test_count of
        None \<Rightarrow> Inl Null_deref
      | Some count \<Rightarrow>
          bindr (c_inc count) (\<lambda>death_test_index.
          let new_test = (if style = ''threadsafe'' then Exec_test else if style = ''fast'' then NoExec_test
                else Unknown_style (''Unknown death test style '' @ [CHR 0x22] @ style @ [CHR 0x22] @ '' encountered'')) in
          Inr (death_test_index,
            case flag of
              None \<Rightarrow> new_test
            | Some f \<Rightarrow>
                if df_index f < death_test_index
                then Count_exceeded (''Death test count ('' @ dec_int death_test_index @ '') somehow exceeded expected maximum ('' @
                       dec_int (df_index f) @ '')'')
                else if \<not> (df_file f = file \<and> df_line f = line \<and> df_index f = death_test_index) then No_test
                else new_test)))"

text \<open>The constructor of \<open>DeathTest\<close>.\<close>

definition DeathTest_new :: "InternalRunDeathTestFlag option \<Rightarrow> bool \<Rightarrow> (string \<times> stop) + unit" where
  "DeathTest_new flag in_test =
     (if in_test then Inr () else Inl (DeathTestAbort flag ''Cannot run a death test outside of a TEST or TEST_F construct''))"

text \<open>The branch of \<open>GTEST_DEATH_TEST_\<close> in which the parent oversees the child: whether the test fails, and the message.\<close>

definition oversee ::
  "(int \<Rightarrow> bool) \<Rightarrow> death_matcher \<Rightarrow> pipe_event list \<Rightarrow> sys_result list \<Rightarrow> sys_result list \<Rightarrow> string \<Rightarrow> death_test \<Rightarrow>
     stop + bool \<times> string option" where
  "oversee predicate matcher events closes waits error_message dt =
     bindr (ForkingDeathTest_Wait events closes waits dt) (\<lambda>(status, dt1). DeathTest_Passed matcher error_message (predicate status) dt1)"

subsection \<open>Calls that are interrupted\<close>

definition succeeds :: "int \<Rightarrow> sys_result list \<Rightarrow> bool" where
  "succeeds v rs \<longleftrightarrow> (\<exists>rest. dropWhile (\<lambda>r. r = Interrupted) rs = Done v # rest)"

lemma check_syscall_succeeds: "succeeds v rs \<Longrightarrow> check_syscall rs = Inr v"
  unfolding succeeds_def by (induction rs rule: check_syscall.induct) auto

text \<open>The reads deliver the bytes and then the end of the pipe.\<close>

definition delivers :: "string \<Rightarrow> pipe_event list \<Rightarrow> bool" where
  "delivers bytes events \<longleftrightarrow> (\<exists>rest. filter (\<lambda>e. e \<noteq> Read_interrupted) events = map Byte bytes @ Closed # rest)"

lemma read_byte_Closed: "filter (\<lambda>e. e \<noteq> Read_interrupted) es = Closed # xs \<Longrightarrow> \<exists>r. read_byte es = Inr (None, r)"
  by (induction es rule: read_byte.induct) auto

lemma read_byte_Byte:
  "filter (\<lambda>e. e \<noteq> Read_interrupted) es = Byte c # xs \<Longrightarrow>
   \<exists>r. read_byte es = Inr (Some c, r) \<and> filter (\<lambda>e. e \<noteq> Read_interrupted) r = xs"
  by (induction es rule: read_byte.induct) auto

lemma read_delivered:
  "delivers bytes events \<Longrightarrow>
   \<exists>r. read_byte events = Inr (case bytes of [] \<Rightarrow> None | c # _ \<Rightarrow> Some c, r)"
  unfolding delivers_def by (cases bytes) (auto dest: read_byte_Closed read_byte_Byte)

subsection \<open>The verdict\<close>

definition wait_status :: "int + stop \<Rightarrow> int \<Rightarrow> bool" where
  "wait_status ending status \<longleftrightarrow> (case ending of Inl s \<Rightarrow> status = s | Inr (Exit code) \<Rightarrow> status = code mod 256 * 256 | Inr _ \<Rightarrow> False)"

definition result_line :: "(int \<Rightarrow> bool) \<Rightarrow> bool \<Rightarrow> statement_end \<Rightarrow> string" where
  "result_line predicate ok e =
     (case e of
        Falls_through \<Rightarrow> ''    Result: failed to die.'' @ [LF]
      | Throws \<Rightarrow> ''    Result: threw an exception.'' @ [LF]
      | Returns \<Rightarrow> ''    Result: illegal return in test statement.'' @ [LF]
      | Dies status \<Rightarrow>
          if \<not> predicate status then ''    Result: died but not with expected exit code:'' @ [LF] @ ''            '' @ ExitSummary status @ [LF]
          else if ok then [] else ''    Result: died but not with expected error.'' @ [LF])"

lemmas status_chars = status_char_def kDeathTestLived_def kDeathTestReturned_def kDeathTestThrew_def kDeathTestInternalError_def

definition outcome_of :: "statement_end \<Rightarrow> DeathTestOutcome" where
  "outcome_of e = (case e of Dies s \<Rightarrow> DIED | Falls_through \<Rightarrow> LIVED | Returns \<Rightarrow> RETURNED | Throws \<Rightarrow> THREW)"

lemma wait_outcome:
  assumes "dt_spawned dt" "succeeds n writes" "succeeds m closes" "succeeds status waits"
    and "execute_death_test flag writes e = (bytes, ending)" "delivers bytes events" "wait_status ending status"
  shows "ForkingDeathTest_Wait events closes waits dt =
      Inr (status, dt\<lparr>dt_outcome := outcome_of e, dt_read_fd := - 1, dt_status := status\<rparr>) \<and> (\<forall>s. e = Dies s \<longrightarrow> status = s)"
proof -
  note sys = check_syscall_succeeds [OF assms(2)] check_syscall_succeeds [OF assms(3)] check_syscall_succeeds [OF assms(4)]
  obtain r where r: "read_byte events = Inr (case bytes of [] \<Rightarrow> None | c # _ \<Rightarrow> Some c, r)"
    using read_delivered [OF assms(6)] by blast
  show ?thesis
    using assms(1,5,7) r
    by (cases e) (auto simp: ForkingDeathTest_Wait_def ReadAndInterpretStatusByte_def execute_death_test_def Abort_def sys status_chars
      outcome_of_def wait_status_def)
qed

text \<open>C35. The verdict of a death test, with parent and child on the two sides of the pipe and any of their calls interrupted any number of
  times: the test passes exactly when the statement ended the process, with a status that the predicate accepts and an output
  that the matcher accepts.  Otherwise the message names the first of these conditions that fails, and a statement that
  returned, threw or ran to its last line is told apart although the child exits in the same way.\<close>

theorem death_test_verdict:
  assumes "dt_spawned dt" "succeeds n writes" "succeeds m closes" "succeeds status waits"
    and "execute_death_test flag writes e = (bytes, ending)" "delivers bytes events" "wait_status ending status"
  shows "\<exists>ok rest. oversee predicate matcher events closes waits error_message dt =
      Inr (ok, Some (StringStreamToString (''Death test: '' @ dt_statement dt @ [LF] @ result_line predicate ok e @ rest))) \<and>
    (ok \<longleftrightarrow> (\<exists>s. e = Dies s \<and> predicate s \<and> Matches matcher error_message))"
  using wait_outcome [OF assms]
  by (cases e) (auto simp: oversee_def DeathTest_Passed_def Let_def outcome_of_def result_line_def assms(1))

lemma death_test_verdict_witness:
  "\<exists>ok rest. oversee (ExitedWithCode 1) \<lparr>Matches = (\<lambda>s. s = ''boom''), DescribeTo = []\<rparr>
      [Read_interrupted, Byte (CHR ''R''), Closed] [Done 0] [Interrupted, Done 256] ''boom''
      ((DeathTestImpl ''f()'')\<lparr>dt_spawned := True\<rparr>) =
    Inr (ok, Some (StringStreamToString (''Death test: f()'' @ [LF] @ ''    Result: illegal return in test statement.'' @ [LF] @ rest))) \<and> \<not> ok"
proof -
  have "execute_death_test None [Done 1] Returns = (''R'', Inr (Exit 1))"
    by (simp add: execute_death_test_def Abort_def status_chars)
  then show ?thesis
    using death_test_verdict [of "(DeathTestImpl ''f()'')\<lparr>dt_spawned := True\<rparr>" 1 "[Done 1]" 0 "[Done 0]" 256 "[Interrupted, Done 256]"
        None Returns "''R''" "Inr (Exit 1)" "[Read_interrupted, Byte (CHR ''R''), Closed]" "ExitedWithCode 1"
        "\<lparr>Matches = (\<lambda>s. s = ''boom''), DescribeTo = []\<rparr>" "''boom''"]
    by (simp add: DeathTestImpl_def succeeds_def delivers_def wait_status_def result_line_def)
qed

subsection \<open>The flag from parent to child\<close>

lemma ParseNaturalNumber_dec:
  assumes "0 \<le> n" "n \<le> 2147483647"
  shows "ParseNaturalNumber (dec_int n) = Some n"
proof -
  obtain v where v: "n = int v" using assms(1) nonneg_int_cases by blast
  have all: "\<forall>x \<in> set (dec_digits v). isdigit x" using dec_digits_chars by blast
  then have "isdigit (hd (dec_digits v))" by simp
  moreover have tw: "takeWhile isdigit (dec_digits v) = dec_digits v" "dropWhile isdigit (dec_digits v) = []" using all by simp_all
  moreover have "cstr (dec_digits v) = dec_digits v"
    unfolding cstr_def using dec_digits_NUL [of v] by (intro takeWhile_eq_all_conv [THEN iffD2]) auto
  moreover have "int32_of (int v) = int v" using assms int32_of_eq_iff [of n] v by simp
  moreover have "int v mod 18446744073709551616 = int v" "int v \<le> 18446744073709551615" using assms v by simp_all
  moreover have "dec_int (int v) = dec_digits v" by (simp add: dec_int_def)
  ultimately show ?thesis
    unfolding v ParseNaturalNumber_def ULLONG_MAX_def Let_def by (simp add: fold_digits_dec tw)
qed

lemma dec_int_no_BAR: "0 \<le> n \<Longrightarrow> BAR \<notin> set (dec_int n)"
proof -
  have "\<not> isdigit BAR" by (simp add: BAR_def isdigit_def)
  then show "0 \<le> n \<Longrightarrow> BAR \<notin> set (dec_int n)" using dec_digits_chars by (auto simp: dec_int_def)
qed

definition flag_text :: "string \<Rightarrow> int \<Rightarrow> int \<Rightarrow> int \<Rightarrow> string" where
  "flag_text file line index fd = file @ ''|'' @ dec_int line @ ''|'' @ dec_int index @ ''|'' @ dec_int fd"

lemma ParseInternalRunDeathTestFlag_text:
  assumes "BAR \<notin> set file" "0 \<le> line" "line \<le> 2147483647" "0 \<le> index" "index \<le> 2147483647" "0 \<le> fd" "fd \<le> 2147483647"
  shows "ParseInternalRunDeathTestFlag (flag_text file line index fd) =
    Inr (Some \<lparr>df_file = file, df_line = line, df_index = index, df_write_fd = fd\<rparr>)"
proof -
  have "flag_text file line index fd = join_with BAR [file, dec_int line, dec_int index, dec_int fd]"
    by (simp add: flag_text_def BAR_def)
  moreover have "SplitString (join_with BAR [file, dec_int line, dec_int index, dec_int fd]) BAR = [file, dec_int line, dec_int index, dec_int fd]"
    using assms dec_int_no_BAR by (intro Split_join) simp_all
  moreover have "flag_text file line index fd \<noteq> []" by (simp add: flag_text_def)
  ultimately show ?thesis using assms by (simp add: ParseInternalRunDeathTestFlag_def ParseNaturalNumber_dec)
qed

lemma ParseFlag_other:
  assumes "take (length (''--gtest_'' @ name)) arg \<noteq> ''--gtest_'' @ name"
  shows "ParseFlag arg name v = None"
  using assms
  by (cases v) (simp_all add: ParseBoolFlag_def ParseInt32Flag_def ParseStringFlag_def ParseFlagValue_def GTEST_FLAG_PREFIX_def Let_def)

lemma internal_flag_parsed:
  assumes "same_types fl start_flags"
  shows "ParseGoogleTestFlag (internal_flag file line index fd) fl =
    (True, fl(''internal_run_death_test'' := StringFlag (flag_text file line index fd)))"
proof -
  let ?t = "flag_text file line index fd"
  have arg: "internal_flag file line index fd = ''--gtest_internal_run_death_test='' @ ?t"
    by (simp add: internal_flag_def flag_text_def GTEST_FLAG_PREFIX_def)
  have none: "ParseFlag (''--gtest_internal_run_death_test='' @ ?t) n v = None"
    if "n \<in> {''also_run_disabled_tests'', ''break_on_failure'', ''catch_exceptions'', ''color'', ''death_test_style'',
     ''death_test_use_fork'', ''fail_fast'', ''filter''}" for n v
    using that by (intro ParseFlag_other) auto
  have "type_of_flag (fl ''internal_run_death_test'') = String_flag"
    using same_types_at [OF assms, of "''internal_run_death_test''"]
    by (simp add: start_flags_def initial_flags_def gtest_flags_def Let_def)
  then obtain x where x: "fl ''internal_run_death_test'' = StringFlag x" by (cases "fl ''internal_run_death_test''") auto
  have "ParseFlag (''--gtest_internal_run_death_test='' @ ?t) ''internal_run_death_test'' (StringFlag x) = Some (StringFlag ?t)"
    by (simp add: ParseStringFlag_def ParseFlagValue_def GTEST_FLAG_PREFIX_def)
  then show ?thesis unfolding arg ParseGoogleTestFlag_def parsed_flags_def by (simp only: parse_flags.simps none insertI1 insertI2 option.case x)
qed

subsection \<open>What the child executes\<close>

text \<open>The death tests that a test meets, in the order of its run, from a number of them on.\<close>

fun meets :: "InternalRunDeathTestFlag option \<Rightarrow> string \<Rightarrow> int \<Rightarrow> (string \<times> int) list \<Rightarrow> stop + created list" where
  "meets flag style count [] = Inr []"
| "meets flag style count (loc # locs) =
     bindr (DefaultDeathTestFactory_Create flag style (Some count) (fst loc) (snd loc)) (\<lambda>(count', c).
     bindr (meets flag style count' locs) (\<lambda>cs. Inr (c # cs)))"

lemma meets_before:
  assumes "count + int (length locs) < df_index f" "df_index f \<le> 2147483647" "0 \<le> count"
  shows "meets (Some f) style count (locs @ locs') =
    bindr (meets (Some f) style (count + int (length locs)) locs') (\<lambda>cs. Inr (replicate (length locs) No_test @ cs))"
  using assms
proof (induction locs arbitrary: count)
  case Nil
  then show ?case by (cases "meets (Some f) style count locs'") simp_all
next
  case (Cons loc locs)
  have "DefaultDeathTestFactory_Create (Some f) style (Some count) (fst loc) (snd loc) = Inr (count + 1, No_test)"
    using Cons.prems by (simp add: DefaultDeathTestFactory_Create_def c_inc_def INT_MAX_def Let_def)
  then show ?case
    using Cons.IH [of "count + 1"] Cons.prems
    by (cases "meets (Some f) style (1 + (count + int (length locs))) locs'") (simp_all add: algebra_simps)
qed

text \<open>C36. The child of a threadsafe death test executes exactly the death test of its parent: the flag that the parent puts on the command
  line is read back as the file, the line, the number of the death test in its test and the descriptor of the pipe, and when the
  child runs the test again, all death tests before that number are passed over and the one with the number is executed,
  reporting to the parent's pipe.  The file name must not contain a vertical bar.\<close>

theorem child_executes_that_test:
  assumes "same_types fl start_flags" "BAR \<notin> set file" "0 \<le> line" "line \<le> 2147483647" "0 \<le> fd" "fd \<le> 2147483647"
    and "int (length locs) < 2147483647"
    and "ExecDeathTest_AssumeRole None file line info (int (Suc (length locs))) argvs (Some (rfd, fd)) 0 pid closes dt = Inr (role, dt', args)"
  shows "role = OVERSEE_TEST \<and> dt_read_fd dt' = rfd \<and>
    (\<exists>text f. ParseGoogleTestFlag (last args) fl = (True, fl(''internal_run_death_test'' := StringFlag text)) \<and>
       ParseInternalRunDeathTestFlag text = Inr (Some f) \<and>
       meets (Some f) ''threadsafe'' 0 (locs @ [(file, line)]) = Inr (replicate (length locs) No_test @ [Exec_test]) \<and>
       (\<forall>dt. ExecDeathTest_AssumeRole (Some f) file line info (int (Suc (length locs))) argvs pipe_fds r pid' closes' dt =
         Inr (EXECUTE_TEST, dt\<lparr>dt_write_fd := fd\<rparr>, [])))"
proof -
  let ?k = "int (Suc (length locs))"
  let ?f = "\<lparr>df_file = file, df_line = line, df_index = ?k, df_write_fd = fd\<rparr>"
  have args: "last args = internal_flag file line ?k fd" and role: "role = OVERSEE_TEST" "dt_read_fd dt' = rfd"
    using assms(8)
    by (auto simp: ExecDeathTest_AssumeRole_def death_test_check_def Let_def bindr_def split: if_splits sum.splits)
  have parsed: "ParseInternalRunDeathTestFlag (flag_text file line ?k fd) = Inr (Some ?f)"
    using assms by (intro ParseInternalRunDeathTestFlag_text) auto
  have "DefaultDeathTestFactory_Create (Some ?f) ''threadsafe'' (Some (int (length locs))) file line = Inr (?k, Exec_test)"
    using assms(7) by (simp add: DefaultDeathTestFactory_Create_def c_inc_def INT_MAX_def Let_def)
  then have "meets (Some ?f) ''threadsafe'' (int (length locs)) [(file, line)] = Inr [Exec_test]" by simp
  then have "meets (Some ?f) ''threadsafe'' 0 (locs @ [(file, line)]) = Inr (replicate (length locs) No_test @ [Exec_test])"
    using meets_before [of 0 locs ?f "''threadsafe''" "[(file, line)]"] assms(7) by simp
  then show ?thesis
    using role parsed internal_flag_parsed [OF assms(1)] args
    by (auto simp: ExecDeathTest_AssumeRole_def intro!: exI [of _ "flag_text file line ?k fd"] exI [of _ ?f])
qed

lemma child_executes_that_test_witness:
  "\<exists>text f. ParseInternalRunDeathTestFlag text = Inr (Some f) \<and> df_write_fd f = 5 \<and>
     meets (Some f) ''threadsafe'' 0 [(''d.cc'', 3), (''d.cc'', 7)] = Inr [No_test, Exec_test]"
proof -
  have run: "ExecDeathTest_AssumeRole None ''d.cc'' 7 (''S'', ''t'') (int (Suc (length [(''d.cc'', 3 :: int)]))) [''p''] (Some (4, 5)) 0 9 [Done 0]
      (DeathTestImpl ''f()'') =
    Inr (OVERSEE_TEST, (DeathTestImpl ''f()'')\<lparr>dt_child_pid := 9, dt_read_fd := 4, dt_spawned := True\<rparr>,
      [''p'', filter_flag ''S'' ''t'', internal_flag ''d.cc'' 7 2 5])"
    by (simp add: ExecDeathTest_AssumeRole_def death_test_check_def)
  from child_executes_that_test [OF same_types_refl _ _ _ _ _ _ run, of None 0 0 "[]"]
  obtain tx f where t: "ParseInternalRunDeathTestFlag tx = Inr (Some f)"
      "meets (Some f) ''threadsafe'' 0 ([(''d.cc'', 3)] @ [(''d.cc'', 7)]) = Inr (replicate 1 No_test @ [Exec_test])"
      "ExecDeathTest_AssumeRole (Some f) ''d.cc'' 7 (''S'', ''t'') 2 [''p''] None 0 0 [] (DeathTestImpl []) =
         Inr (EXECUTE_TEST, (DeathTestImpl [])\<lparr>dt_write_fd := 5\<rparr>, [])"
    by (auto simp: BAR_def)
  then have "df_write_fd f = 5" by (simp add: ExecDeathTest_AssumeRole_def DeathTestImpl_def)
  with t(1,2) show ?thesis by auto
qed

text \<open>Outside of a test the factory has used the missing test before the constructor can complain.\<close>

lemma outside_of_a_test:
  "DefaultDeathTestFactory_Create flag style None file line = Inl Null_deref"
  "DeathTest_new None False = Inl ([], Assert_fail)"
  by (simp_all add: DefaultDeathTestFactory_Create_def DeathTest_new_def DeathTestAbort_def)

end
