(* ===== verification/Gt_Terminal.thy ===== *)
theory Gt_Terminal
  imports Gt_Death Gt_Json Gt_Runner_Spec
begin

section \<open>The output on the terminal, and the listeners\<close>

text \<open>
  The two printers of results on the terminal, the list of the tests, and the listeners that get the events of a run.  What is
  written is a text; \<open>c\<close> says whether standard output gets colours.  The flags are those of \<open>Gt_Flags\<close>, the suites and
  tests those of \<open>Gt_Report\<close>.  The type parameter of a suite stands beside it.
\<close>

subsection \<open>Colours\<close>

definition bool_flag :: "flags \<Rightarrow> string \<Rightarrow> bool" where
  "bool_flag fl name = (case fl name of BoolFlag b \<Rightarrow> b | _ \<Rightarrow> False)"

definition int_flag :: "flags \<Rightarrow> string \<Rightarrow> int" where
  "int_flag fl name = (case fl name of Int32Flag i \<Rightarrow> i | _ \<Rightarrow> 0)"

definition string_flag :: "flags \<Rightarrow> string \<Rightarrow> string" where
  "string_flag fl name = (case fl name of StringFlag s \<Rightarrow> s | _ \<Rightarrow> [])"

fun GetAnsiColorCode :: "GTestColor \<Rightarrow> string option" where
  "GetAnsiColorCode kRed = Some ''1''"
| "GetAnsiColorCode kGreen = Some ''2''"
| "GetAnsiColorCode kYellow = Some ''3''"
| "GetAnsiColorCode kDefault = None"

definition ShouldUseColor :: "flags \<Rightarrow> environment \<Rightarrow> bool \<Rightarrow> bool" where
  "ShouldUseColor fl env stdout_is_tty =
     (let gtest_color = cstr (string_flag fl ''color'') in
      if CaseInsensitiveCStringEquals (Some gtest_color) (Some ''auto'') then
        let term_supports_color = (case env ''TERM'' of None \<Rightarrow> False | Some t \<Rightarrow>
              t \<in> {''xterm'', ''xterm-color'', ''xterm-kitty'', ''screen'', ''tmux'', ''rxvt-unicode'', ''linux'', ''cygwin''} \<or>
              EndsWithCaseInsensitive t ''-256color'')
        in stdout_is_tty \<and> term_supports_color
      else
        CaseInsensitiveCStringEquals (Some gtest_color) (Some ''yes'') \<or>
        CaseInsensitiveCStringEquals (Some gtest_color) (Some ''true'') \<or>
        CaseInsensitiveCStringEquals (Some gtest_color) (Some ''t'') \<or> CStringEquals (Some gtest_color) (Some ''1''))"

definition escape_char :: char where "escape_char = CHR 0x1B"

definition ColoredPrintf :: "bool \<Rightarrow> GTestColor \<Rightarrow> string \<Rightarrow> string" where
  "ColoredPrintf in_color_mode color text =
     (let use_color = (in_color_mode \<and> color \<noteq> kDefault) in
      if \<not> use_color then text
      else [escape_char] @ ''[0;3'' @ (case GetAnsiColorCode color of None \<Rightarrow> ''(null)'' | Some d \<Rightarrow> d) @ ''m'' @ text @ [escape_char] @ ''[m'')"

definition printed_pieces :: "bool \<Rightarrow> (GTestColor \<times> string) list \<Rightarrow> string" where
  "printed_pieces c pieces = concat (map (\<lambda>(color, text). ColoredPrintf c color text) pieces)"

subsection \<open>Parts and names\<close>

definition TestPartResultTypeToString :: "part_type \<Rightarrow> string" where
  "TestPartResultTypeToString type =
     (case type of kSkip \<Rightarrow> ''Skipped'' @ [LF] | kSuccess \<Rightarrow> ''Success'' | kNonFatalFailure \<Rightarrow> ''Failure'' @ [LF]
      | kFatalFailure \<Rightarrow> ''Failure'' @ [LF])"

definition PrintTestPartResultToString :: "test_part \<Rightarrow> string" where
  "PrintTestPartResultToString test_part_result =
     StringStreamToString (FormatFileLocation (tp_file test_part_result) (tp_line test_part_result) @ '' '' @
       TestPartResultTypeToString (tp_type test_part_result) @ cstr (tp_message test_part_result))"

definition PrintTestPartResult :: "test_part \<Rightarrow> string" where
  "PrintTestPartResult test_part_result = cstr (PrintTestPartResultToString test_part_result) @ [LF]"

definition kTypeParamLabel :: string where "kTypeParamLabel = ''TypeParam''"

definition kValueParamLabel :: string where "kValueParamLabel = ''GetParam()''"

definition PrintFullTestCommentIfPresent :: "report_test \<Rightarrow> string" where
  "PrintFullTestCommentIfPresent test_info =
     (let type_param = rt_type_param test_info; value_param = rt_value_param test_info in
      if type_param \<noteq> None \<or> value_param \<noteq> None then
        '', where '' @
        (case type_param of None \<Rightarrow> [] | Some t \<Rightarrow>
           kTypeParamLabel @ '' = '' @ t @ (if value_param \<noteq> None then '' and '' else [])) @
        (case value_param of None \<Rightarrow> [] | Some v \<Rightarrow> kValueParamLabel @ '' = '' @ v)
      else [])"

definition PrintTestName :: "string \<Rightarrow> string \<Rightarrow> string" where
  "PrintTestName test_suite test = test_suite @ ''.'' @ test"

text \<open>\<open>%2d\<close>.\<close>

definition width2 :: "nat \<Rightarrow> string" where
  "width2 n = (let s = dec_nat n in replicate (2 - length s) (CHR '' '') @ s)"

subsection \<open>The unit test, as the printers see it\<close>

definition base_unit :: "report \<Rightarrow> unit unit_test" where
  "base_unit u = \<lparr>ut_suites = map base_suite (ru_suites u), ut_indices = [0..<length (ru_suites u)], ut_last_death = - 1,
     ut_ad_hoc = base_result (ru_ad_hoc u), ut_envs = [], ut_world = (), ut_random = Reseed 0,
     ut_random_seed = ru_random_seed u, ut_log = []\<rparr>"

definition elapsed_text :: "int \<Rightarrow> string" where "elapsed_text ms = dec_int ms"

subsection \<open>PrettyUnitTestResultPrinter\<close>

definition Pretty_OnTestIterationStart :: "bool \<Rightarrow> flags \<Rightarrow> environment \<Rightarrow> report \<Rightarrow> int \<Rightarrow> stop + string" where
  "Pretty_OnTestIterationStart c fl env unit_test iteration =
     bindr (if int_flag fl ''repeat'' \<noteq> 1
            then bindr (c_inc iteration) (\<lambda>n.
              Inr ([LF] @ ''Repeating all tests (iteration '' @ dec_int n @ '') . . .'' @ [LF, LF]))
            else Inr []) (\<lambda>repeating.
     let flt = cstr (string_flag fl ''filter'');
         note = (if \<not> CStringEquals (Some flt) (Some kUniversalFilter)
                 then ColoredPrintf c kYellow (''Note: Google Test filter = '' @ flt @ [LF]) else []) in
     bindr (ShouldShard env kTestTotalShards kTestShardIndex False) (\<lambda>shard.
     bindr (if shard then
              bindr (Int32FromEnvOrDie env kTestShardIndex (- 1)) (\<lambda>shard_index.
              bindr (c_inc shard_index) (\<lambda>n.
                Inr (ColoredPrintf c kYellow (''Note: This is test shard '' @ dec_int n @ '' of '' @
                       shown_arg (env kTestTotalShards) @ ''.'' @ [LF]))))
            else Inr []) (\<lambda>sharding.
     Inr (repeating @ note @ sharding @
       (if bool_flag fl ''shuffle''
        then ColoredPrintf c kYellow (''Note: Randomizing tests'' @ [CHR 0x27] @ '' orders with a seed of '' @
               dec_int (ru_random_seed unit_test) @ '' .'' @ [LF]) else []) @
       ColoredPrintf c kGreen ''[==========] '' @ ''Running '' @ FormatTestCount (int (ru_sum test_to_run_count unit_test)) @ '' from '' @
       FormatTestSuiteCount (int (test_suite_to_run_count (base_unit unit_test))) @ ''.'' @ [LF]))))"

definition Pretty_OnEnvironmentsSetUpStart :: "bool \<Rightarrow> string" where
  "Pretty_OnEnvironmentsSetUpStart c = ColoredPrintf c kGreen ''[----------] '' @ ''Global test environment set-up.'' @ [LF]"

definition Pretty_OnTestCaseStart :: "bool \<Rightarrow> report_suite \<Rightarrow> string option \<Rightarrow> string" where
  "Pretty_OnTestCaseStart c test_case type_param =
     (let counts = FormatCountableNoun (int (test_to_run_count (base_suite test_case))) ''test'' ''tests'' in
      ColoredPrintf c kGreen ''[----------] '' @ counts @ '' from '' @ rs_name test_case @
      (case type_param of None \<Rightarrow> [LF] | Some t \<Rightarrow> '', where '' @ kTypeParamLabel @ '' = '' @ t @ [LF]))"

definition Pretty_OnTestStart :: "bool \<Rightarrow> string \<Rightarrow> report_test \<Rightarrow> string" where
  "Pretty_OnTestStart c suite test_info = ColoredPrintf c kGreen ''[ RUN      ] '' @ PrintTestName suite (rt_name test_info) @ [LF]"

definition Pretty_OnTestDisabled :: "bool \<Rightarrow> string \<Rightarrow> report_test \<Rightarrow> string" where
  "Pretty_OnTestDisabled c suite test_info = ColoredPrintf c kYellow ''[ DISABLED ] '' @ PrintTestName suite (rt_name test_info) @ [LF]"

definition OnTestPartResult_text :: "test_part \<Rightarrow> string" where
  "OnTestPartResult_text result = (if tp_type result = kSuccess then [] else PrintTestPartResult result)"

definition time_or_newline :: "flags \<Rightarrow> report_test \<Rightarrow> string" where
  "time_or_newline fl test_info =
     (if bool_flag fl ''print_time'' then '' ('' @ elapsed_text (tr_elapsed (rt_result test_info)) @ '' ms)'' @ [LF] else [LF])"

definition Pretty_OnTestEnd :: "bool \<Rightarrow> flags \<Rightarrow> string \<Rightarrow> report_test \<Rightarrow> string" where
  "Pretty_OnTestEnd c fl suite test_info =
     (let r = base_result (rt_result test_info) in
      (if Passed r then ColoredPrintf c kGreen ''[       OK ] ''
       else if Skipped r then ColoredPrintf c kGreen ''[  SKIPPED ] ''
       else ColoredPrintf c kRed ''[  FAILED  ] '') @
      PrintTestName suite (rt_name test_info) @
      (if Failed r then PrintFullTestCommentIfPresent test_info else []) @ time_or_newline fl test_info)"

definition Pretty_OnTestCaseEnd :: "bool \<Rightarrow> flags \<Rightarrow> report_suite \<Rightarrow> string" where
  "Pretty_OnTestCaseEnd c fl test_case =
     (if \<not> bool_flag fl ''print_time'' then []
      else let counts = FormatCountableNoun (int (test_to_run_count (base_suite test_case))) ''test'' ''tests'' in
        ColoredPrintf c kGreen ''[----------] '' @ counts @ '' from '' @ rs_name test_case @ '' ('' @ elapsed_text (rs_elapsed test_case) @
        '' ms total)'' @ [LF, LF])"

definition Pretty_OnEnvironmentsTearDownStart :: "bool \<Rightarrow> string" where
  "Pretty_OnEnvironmentsTearDownStart c = ColoredPrintf c kGreen ''[----------] '' @ ''Global test environment tear-down'' @ [LF]"

definition failed_line :: "bool \<Rightarrow> string \<Rightarrow> report_test \<Rightarrow> string" where
  "failed_line c suite test_info =
     ColoredPrintf c kRed ''[  FAILED  ] '' @ suite @ ''.'' @ rt_name test_info @ PrintFullTestCommentIfPresent test_info @ [LF]"

definition PrintFailedTests :: "bool \<Rightarrow> report \<Rightarrow> string" where
  "PrintFailedTests c unit_test =
     (let failed = ru_sum failed_test_count unit_test in
      ColoredPrintf c kRed ''[  FAILED  ] '' @ FormatTestCount (int failed) @ '', listed below:'' @ [LF] @
      concat (map (\<lambda>test_suite.
        if \<not> rs_should_run test_suite \<or> failed_test_count (base_suite test_suite) = 0 then []
        else concat (map (\<lambda>test_info.
          if \<not> rt_should_run test_info \<or> \<not> Failed (base_result (rt_result test_info)) then []
          else failed_line c (rs_name test_suite) test_info) (rs_tests test_suite))) (ru_suites unit_test)) @
      [LF] @ width2 failed @ '' FAILED '' @ (if failed = 1 then ''TEST'' else ''TESTS'') @ [LF])"

definition PrintFailedTestSuites :: "bool \<Rightarrow> report \<Rightarrow> string" where
  "PrintFailedTestSuites c unit_test =
     (let (text, suite_failure_count) = fold (\<lambda>test_suite (text, n).
        if \<not> rs_should_run test_suite then (text, n)
        else if Failed (base_result (rs_ad_hoc test_suite))
        then (text @ ColoredPrintf c kRed ''[  FAILED  ] '' @ rs_name test_suite @ '': SetUpTestSuite or TearDownTestSuite'' @ [LF], n + 1)
        else (text, n)) (ru_suites unit_test) ([], 0 :: nat)
      in text @ (if 0 < suite_failure_count
         then [LF] @ width2 suite_failure_count @ '' FAILED TEST '' @ (if suite_failure_count = 1 then ''SUITE'' else ''SUITES'') @ [LF]
         else []))"

definition skipped_line :: "bool \<Rightarrow> string \<Rightarrow> report_test \<Rightarrow> string" where
  "skipped_line c suite test_info = ColoredPrintf c kGreen ''[  SKIPPED ] '' @ suite @ ''.'' @ rt_name test_info @ [LF]"

definition PrintSkippedTests :: "bool \<Rightarrow> report \<Rightarrow> string" where
  "PrintSkippedTests c unit_test =
     (if ru_sum skipped_test_count unit_test = 0 then []
      else concat (map (\<lambda>test_suite.
        if \<not> rs_should_run test_suite \<or> skipped_test_count (base_suite test_suite) = 0 then []
        else concat (map (\<lambda>test_info.
          if \<not> rt_should_run test_info \<or> \<not> Skipped (base_result (rt_result test_info)) then []
          else skipped_line c (rs_name test_suite) test_info) (rs_tests test_suite))) (ru_suites unit_test)))"

text \<open>What both printers write first and last at the end of an iteration.\<close>

definition ran_lines :: "bool \<Rightarrow> flags \<Rightarrow> report \<Rightarrow> string" where
  "ran_lines c fl unit_test =
     ColoredPrintf c kGreen ''[==========] '' @ FormatTestCount (int (ru_sum test_to_run_count unit_test)) @ '' from '' @
     FormatTestSuiteCount (int (test_suite_to_run_count (base_unit unit_test))) @ '' ran.'' @
     (if bool_flag fl ''print_time'' then '' ('' @ elapsed_text (ru_elapsed unit_test) @ '' ms total)'' else []) @ [LF] @
     ColoredPrintf c kGreen ''[  PASSED  ] '' @ FormatTestCount (int (ru_sum successful_test_count unit_test)) @ ''.'' @ [LF]"

definition disabled_lines :: "bool \<Rightarrow> flags \<Rightarrow> report \<Rightarrow> string" where
  "disabled_lines c fl unit_test =
     (let num_disabled = ru_sum reportable_disabled_test_count unit_test in
      if num_disabled \<noteq> 0 \<and> \<not> bool_flag fl ''also_run_disabled_tests'' then
        (if UnitTestPassed (base_unit unit_test) then [LF] else []) @
        ColoredPrintf c kYellow (''  YOU HAVE '' @ dec_nat num_disabled @ '' DISABLED '' @ (if num_disabled = 1 then ''TEST'' else ''TESTS'') @ [LF, LF])
      else [])"

definition Pretty_OnTestIterationEnd :: "bool \<Rightarrow> flags \<Rightarrow> report \<Rightarrow> string" where
  "Pretty_OnTestIterationEnd c fl unit_test =
     ran_lines c fl unit_test @
     (let skipped = ru_sum skipped_test_count unit_test in
      if 0 < skipped
      then ColoredPrintf c kGreen ''[  SKIPPED ] '' @ FormatTestCount (int skipped) @ '', listed below:'' @ [LF] @ PrintSkippedTests c unit_test
      else []) @
     (if \<not> UnitTestPassed (base_unit unit_test) then PrintFailedTests c unit_test @ PrintFailedTestSuites c unit_test else []) @
     disabled_lines c fl unit_test"

subsection \<open>BriefUnitTestResultPrinter\<close>

definition Brief_OnTestEnd :: "bool \<Rightarrow> flags \<Rightarrow> string \<Rightarrow> report_test \<Rightarrow> string" where
  "Brief_OnTestEnd c fl suite test_info =
     (if Failed (base_result (rt_result test_info))
      then ColoredPrintf c kRed ''[  FAILED  ] '' @ PrintTestName suite (rt_name test_info) @ PrintFullTestCommentIfPresent test_info @
        time_or_newline fl test_info
      else [])"

definition Brief_OnTestIterationEnd :: "bool \<Rightarrow> flags \<Rightarrow> report \<Rightarrow> string" where
  "Brief_OnTestIterationEnd c fl unit_test =
     ran_lines c fl unit_test @
     (let skipped = ru_sum skipped_test_count unit_test in
      if 0 < skipped then ColoredPrintf c kGreen ''[  SKIPPED ] '' @ FormatTestCount (int skipped) @ ''.'' @ [LF] else []) @
     disabled_lines c fl unit_test"

subsection \<open>The list of the tests\<close>

text \<open>A line feed takes two of the positions.\<close>

fun print_one_line :: "int \<Rightarrow> int \<Rightarrow> string \<Rightarrow> string" where
  "print_one_line max_length i [] = []"
| "print_one_line max_length i (ch # str) =
     (if max_length \<le> i then ''...''
      else if ch = LF then [CHR 0x5C] @ ''n'' @ print_one_line max_length (i + 2) str
      else ch # print_one_line max_length (i + 1) str)"

definition PrintOnOneLine :: "string option \<Rightarrow> int \<Rightarrow> string" where
  "PrintOnOneLine str max_length = (case str of None \<Rightarrow> [] | Some s \<Rightarrow> print_one_line max_length 0 s)"

definition kMaxParamLength :: int where "kMaxParamLength = 250"

fun list_tests_loop :: "string \<Rightarrow> string option \<Rightarrow> bool \<Rightarrow> report_test list \<Rightarrow> string" where
  "list_tests_loop suite type_param printed_test_suite_name [] = []"
| "list_tests_loop suite type_param printed_test_suite_name (test_info # test_infos) =
     (if rt_matches_filter test_info then
        (if \<not> printed_test_suite_name
         then suite @ ''.'' @ (if type_param \<noteq> None then ''  # '' @ kTypeParamLabel @ '' = '' @ PrintOnOneLine type_param kMaxParamLength else []) @ [LF]
         else []) @
        ''  '' @ rt_name test_info @
        (if rt_value_param test_info \<noteq> None
         then ''  # '' @ kValueParamLabel @ '' = '' @ PrintOnOneLine (rt_value_param test_info) kMaxParamLength else []) @ [LF] @
        list_tests_loop suite type_param True test_infos
      else list_tests_loop suite type_param printed_test_suite_name test_infos)"

definition listed_tests :: "(report_suite \<times> string option) list \<Rightarrow> string" where
  "listed_tests suites = concat (map (\<lambda>(s, type_param). list_tests_loop (rs_name s) type_param False (rs_tests s)) suites)"

definition GetOutputFormat :: "flags \<Rightarrow> string" where
  "GetOutputFormat fl = takeWhile (\<lambda>ch. ch \<noteq> CHR '':'') (cstr (string_flag fl ''output''))"

definition GetCurrentExecutableName :: "string list \<Rightarrow> stop + string" where
  "GetCurrentExecutableName argvs = bindr (vat argvs 0) (\<lambda>a. Inr (RemoveDirectoryName (FilePath a)))"

definition GetAbsolutePathToOutputFile ::
  "('fs \<Rightarrow> string \<Rightarrow> stat_kind option) \<Rightarrow> 'fs \<Rightarrow> flags \<Rightarrow> string \<Rightarrow> string list \<Rightarrow> stop + string" where
  "GetAbsolutePathToOutputFile stat s fl original_working_dir argvs =
     (let gtest_output_flag = cstr (string_flag fl ''output'');
          fmt = (if GetOutputFormat fl = [] then ''xml'' else GetOutputFormat fl) in
      case dropWhile (\<lambda>ch. ch \<noteq> CHR '':'') gtest_output_flag of
        [] \<Rightarrow> Inr (MakeFileName (FilePath original_working_dir) (FilePath ''test_detail'') 0 fmt)
      | _ # behind_colon \<Rightarrow>
          let output_name = FilePath behind_colon;
              output_name = (if \<not> IsAbsolutePath output_name
                             then ConcatPaths (FilePath original_working_dir) (FilePath behind_colon) else output_name) in
          if \<not> IsDirectory output_name then Inr output_name
          else bindr (GetCurrentExecutableName argvs) (\<lambda>n. GenerateUniqueFileName stat s output_name n (GetOutputFormat fl)))"

text \<open>What is written to standard output, and the file with its contents when one is asked for.\<close>

definition ListTestsMatchingFilter ::
  "report_env \<Rightarrow> ('fs \<Rightarrow> string \<Rightarrow> stat_kind option) \<Rightarrow> 'fs \<Rightarrow> flags \<Rightarrow> string \<Rightarrow> string list \<Rightarrow>
     (report_suite \<times> string option) list \<Rightarrow> stop + string \<times> (string \<times> string) option" where
  "ListTestsMatchingFilter env stat s fl original_working_dir argvs suites =
     (let output_format = GetOutputFormat fl in
      if output_format = ''xml'' \<or> output_format = ''json'' then
        bindr (GetAbsolutePathToOutputFile stat s fl original_working_dir argvs) (\<lambda>path.
        bindr (if output_format = ''xml'' then PrintXmlTestsList env (map fst suites) else PrintJsonTestList env (map fst suites)) (\<lambda>stream.
        Inr (listed_tests suites, Some (path, cstr (StringStreamToString stream)))))
      else Inr (listed_tests suites, None))"

subsection \<open>Listeners\<close>

text \<open>A listener is known by a number; no listener is \<open>NULL\<close>.\<close>

record repeater =
  forwarding_enabled :: bool
  rp_listeners :: "nat list"

definition TestEventRepeater :: repeater where "TestEventRepeater = \<lparr>forwarding_enabled = True, rp_listeners = []\<rparr>"

definition Repeater_Append :: "nat \<Rightarrow> repeater \<Rightarrow> repeater" where
  "Repeater_Append listener rp = rp\<lparr>rp_listeners := rp_listeners rp @ [listener]\<rparr>"

text \<open>\<open>NULL\<close> is not among the listeners.\<close>

definition Repeater_Release :: "nat option \<Rightarrow> repeater \<Rightarrow> nat option \<times> repeater" where
  "Repeater_Release listener rp =
     (case listener of None \<Rightarrow> (None, rp)
      | Some l \<Rightarrow> if l \<in> set (rp_listeners rp) then (Some l, rp\<lparr>rp_listeners := remove1 l (rp_listeners rp)\<rparr>) else (None, rp))"

fun in_reverse :: "event \<Rightarrow> bool" where
  "in_reverse (OnTestEnd t) = True"
| "in_reverse (OnTestSuiteEnd t) = True"
| "in_reverse (OnTestIterationEnd i) = True"
| "in_reverse OnEnvironmentsSetUpEnd = True"
| "in_reverse OnEnvironmentsTearDownEnd = True"
| "in_reverse OnTestProgramEnd = True"
| "in_reverse e = False"

text \<open>Which listeners get an event, in this order.\<close>

definition forwarded_to :: "repeater \<Rightarrow> event \<Rightarrow> nat list" where
  "forwarded_to rp e =
     (if forwarding_enabled rp then if in_reverse e then rev (rp_listeners rp) else rp_listeners rp else [])"

record listeners =
  ls_repeater :: repeater
  default_result_printer :: "nat option"
  default_xml_generator :: "nat option"
  ls_deleted :: "nat list"

definition TestEventListeners :: listeners where
  "TestEventListeners = \<lparr>ls_repeater = TestEventRepeater, default_result_printer = None, default_xml_generator = None, ls_deleted = []\<rparr>"

definition Append :: "nat \<Rightarrow> listeners \<Rightarrow> listeners" where
  "Append listener ls = ls\<lparr>ls_repeater := Repeater_Append listener (ls_repeater ls)\<rparr>"

definition Release :: "nat option \<Rightarrow> listeners \<Rightarrow> nat option \<times> listeners" where
  "Release listener ls =
     (let ls1 = (if listener = default_result_printer ls then ls\<lparr>default_result_printer := None\<rparr>
                 else if listener = default_xml_generator ls then ls\<lparr>default_xml_generator := None\<rparr> else ls)
      in case Repeater_Release listener (ls_repeater ls1) of (r, rp) \<Rightarrow> (r, ls1\<lparr>ls_repeater := rp\<rparr>))"

definition delete_released :: "nat option \<Rightarrow> listeners \<Rightarrow> listeners" where
  "delete_released listener ls =
     (case Release listener ls of (None, ls1) \<Rightarrow> ls1 | (Some l, ls1) \<Rightarrow> ls1\<lparr>ls_deleted := l # ls_deleted ls1\<rparr>)"

definition SetDefaultResultPrinter :: "nat option \<Rightarrow> listeners \<Rightarrow> listeners" where
  "SetDefaultResultPrinter listener ls =
     (if default_result_printer ls \<noteq> listener then
        let ls1 = (delete_released (default_result_printer ls) ls)\<lparr>default_result_printer := listener\<rparr>
        in case listener of None \<Rightarrow> ls1 | Some l \<Rightarrow> Append l ls1
      else ls)"

definition SetDefaultXmlGenerator :: "nat option \<Rightarrow> listeners \<Rightarrow> listeners" where
  "SetDefaultXmlGenerator listener ls =
     (if default_xml_generator ls \<noteq> listener then
        let ls1 = (delete_released (default_xml_generator ls) ls)\<lparr>default_xml_generator := listener\<rparr>
        in case listener of None \<Rightarrow> ls1 | Some l \<Rightarrow> Append l ls1
      else ls)"

definition EventForwardingEnabled :: "listeners \<Rightarrow> bool" where
  "EventForwardingEnabled ls = forwarding_enabled (ls_repeater ls)"

definition SuppressEventForwarding :: "listeners \<Rightarrow> listeners" where
  "SuppressEventForwarding ls = ls\<lparr>ls_repeater := (ls_repeater ls)\<lparr>forwarding_enabled := False\<rparr>\<rparr>"

subsection \<open>After the flags are parsed\<close>

text \<open>
  New listeners get the next free number.  The registration of parameterized tests and the connection of a streaming listener are
  left out.
\<close>

record init_state =
  post_flag_parse_init_performed :: bool
  internal_run_death_test_flag :: "InternalRunDeathTestFlag option"
  is_listeners :: listeners
  next_listener :: nat

definition with_new :: "(nat \<Rightarrow> listeners \<Rightarrow> listeners) \<Rightarrow> init_state \<Rightarrow> init_state" where
  "with_new f i = i\<lparr>is_listeners := f (next_listener i) (is_listeners i), next_listener := Suc (next_listener i)\<rparr>"

definition SuppressTestEventsIfInSubprocess :: "init_state \<Rightarrow> init_state" where
  "SuppressTestEventsIfInSubprocess i =
     (if internal_run_death_test_flag i \<noteq> None then i\<lparr>is_listeners := SuppressEventForwarding (is_listeners i)\<rparr> else i)"

definition ConfigureXmlOutput ::
  "('fs \<Rightarrow> string \<Rightarrow> stat_kind option) \<Rightarrow> 'fs \<Rightarrow> flags \<Rightarrow> string \<Rightarrow> string list \<Rightarrow> init_state \<Rightarrow> stop + init_state" where
  "ConfigureXmlOutput stat s fl original_working_dir argvs i =
     (let output_format = GetOutputFormat fl in
      if output_format = ''xml'' \<or> output_format = ''json''
      then bindr (GetAbsolutePathToOutputFile stat s fl original_working_dir argvs) (\<lambda>_.
             Inr (with_new (\<lambda>l. SetDefaultXmlGenerator (Some l)) i))
      else Inr i)"

definition ConfigureStreamingOutput :: "flags \<Rightarrow> init_state \<Rightarrow> init_state" where
  "ConfigureStreamingOutput fl i =
     (let target = string_flag fl ''stream_result_to'' in
      if target \<noteq> [] \<and> CHR '':'' \<in> set target then with_new Append i else i)"

definition PostFlagParsingInit ::
  "('fs \<Rightarrow> string \<Rightarrow> stat_kind option) \<Rightarrow> 'fs \<Rightarrow> flags \<Rightarrow> string \<Rightarrow> string list \<Rightarrow> init_state \<Rightarrow> stop + init_state" where
  "PostFlagParsingInit stat s fl original_working_dir argvs i =
     (if post_flag_parse_init_performed i then Inr i
      else
        bindr (ParseInternalRunDeathTestFlag (string_flag fl ''internal_run_death_test'')) (\<lambda>flag.
        bindr (ConfigureXmlOutput stat s fl original_working_dir argvs (SuppressTestEventsIfInSubprocess
            (i\<lparr>post_flag_parse_init_performed := True, internal_run_death_test_flag := flag\<rparr>))) (\<lambda>i1.
        let i2 = (if bool_flag fl ''brief'' then with_new (\<lambda>l. SetDefaultResultPrinter (Some l)) i1 else i1) in
        Inr (ConfigureStreamingOutput fl i2))))"

subsection \<open>What the summary says\<close>

text \<open>The tests that were selected to run, with their suites and in their order, and those among them with a given outcome.\<close>

definition selected :: "report \<Rightarrow> (report_suite \<times> report_test) list" where
  "selected u = concat (map (\<lambda>s. map (Pair s) (filter rt_should_run (rs_tests s))) (ru_suites u))"

definition with_outcome :: "(test_result \<Rightarrow> bool) \<Rightarrow> report \<Rightarrow> (report_suite \<times> report_test) list" where
  "with_outcome P u = filter (\<lambda>(s, t). P (base_result (rt_result t))) (selected u)"

text \<open>As \<open>FilterTests\<close> leaves them: a suite runs when one of its tests does.\<close>

definition suites_selected :: "report \<Rightarrow> bool" where
  "suites_selected u \<longleftrightarrow> (\<forall>s \<in> set (ru_suites u). (\<exists>t \<in> set (rs_tests s). rt_should_run t) \<longrightarrow> rs_should_run s)"

definition suite_failures :: "report \<Rightarrow> report_suite list" where
  "suite_failures u = filter (\<lambda>s. rs_should_run s \<and> Failed (base_result (rs_ad_hoc s))) (ru_suites u)"

definition all_passed :: "report \<Rightarrow> bool" where
  "all_passed u \<longleftrightarrow> with_outcome Failed u = [] \<and> suite_failures u = [] \<and> \<not> Failed (base_result (ru_ad_hoc u))"

lemma ru_sum_list: "ru_sum f u = sum_list (map (\<lambda>s. f (base_suite s)) (ru_suites u))"
proof -
  have "foldl (\<lambda>sum ts. sum + f ts) n xs = n + sum_list (map f xs)" for n xs
    by (induction xs arbitrary: n) simp_all
  then show ?thesis by (simp add: ru_sum_def SumOverTestSuiteList_def comp_def)
qed

lemma base_suite_tests: "ts_tests (base_suite s) = map base_test (rs_tests s)" by (simp add: base_suite_def)

lemma base_test_simps: "ti_should_run (base_test t) = rt_should_run t" "ti_result (base_test t) = base_result (rt_result t)"
  by (simp_all add: base_test_def)

lemma length_concat_map: "length (concat (map f xs)) = sum_list (map (\<lambda>x. length (f x)) xs)"
  by (induction xs) simp_all

lemma count_outcome:
  assumes "\<And>ti :: unit test_info. Q ti \<longleftrightarrow> ti_should_run ti \<and> P (ti_result ti)"
  shows "ru_sum (\<lambda>s. CountIf Q (ts_tests s)) u = length (with_outcome P u)"
proof -
  have "with_outcome P u = concat (map (\<lambda>s. map (Pair s) (filter (\<lambda>t. Q (base_test t)) (rs_tests s))) (ru_suites u))"
    unfolding with_outcome_def selected_def
    by (simp add: filter_concat comp_def filter_map assms base_test_simps conj_commute)
  then show ?thesis by (simp add: ru_sum_list base_suite_tests CountIf_eq filter_map comp_def length_concat_map)
qed

lemma counts:
  "ru_sum failed_test_count u = length (with_outcome Failed u)"
  "ru_sum skipped_test_count u = length (with_outcome Skipped u)"
  "ru_sum successful_test_count u = length (with_outcome Passed u)"
  using count_outcome [of TestFailed Failed u] count_outcome [of TestSkipped Skipped u] count_outcome [of TestPassed Passed u]
  by (simp_all add: TestFailed_def TestSkipped_def TestPassed_def failed_test_count_def [abs_def]
    skipped_test_count_def [abs_def] successful_test_count_def [abs_def])

lemma count_selected: "ru_sum test_to_run_count u = length (selected u)"
  using count_outcome [of ti_should_run "\<lambda>_. True" u] by (simp add: with_outcome_def test_to_run_count_def [abs_def] case_prod_beta)

lemma outcomes: "length (selected u) = length (with_outcome Passed u) + length (with_outcome Skipped u) + length (with_outcome Failed u)"
proof -
  have "length xs = length (filter (\<lambda>(s, t). Passed (f t)) xs) + length (filter (\<lambda>(s, t). Skipped (f t)) xs) +
      length (filter (\<lambda>(s, t). Failed (f t)) xs)" for xs :: "(report_suite \<times> report_test) list" and f
    by (induction xs) (auto simp: Passed_def Skipped_def)
  then show ?thesis by (simp add: with_outcome_def)
qed

lemma no_outcome_in_suite:
  assumes "s \<in> set (ru_suites u)" "suites_selected u"
  shows "\<not> rs_should_run s \<Longrightarrow> filter (\<lambda>t. rt_should_run t \<and> P t) (rs_tests s) = []"
  using assms by (auto simp: suites_selected_def filter_empty_conv)

lemma listed_lines:
  assumes "suites_selected u" "\<And>ti :: unit test_info. Q ti \<longleftrightarrow> ti_should_run ti \<and> P (ti_result ti)"
  shows "concat (map (\<lambda>s. if \<not> rs_should_run s \<or> CountIf Q (ts_tests (base_suite s)) = 0 then []
      else concat (map (\<lambda>t. if \<not> rt_should_run t \<or> \<not> P (base_result (rt_result t)) then [] else line (rs_name s) t) (rs_tests s)))
    (ru_suites u)) = concat (map (\<lambda>(s, t). line (rs_name s) t) (with_outcome P u))"
proof -
  have one: "(if \<not> rs_should_run s \<or> CountIf Q (ts_tests (base_suite s)) = 0 then []
      else concat (map (\<lambda>t. if \<not> rt_should_run t \<or> \<not> P (base_result (rt_result t)) then [] else line (rs_name s) t) (rs_tests s))) =
    concat (map (line (rs_name s)) (filter (\<lambda>t. rt_should_run t \<and> P (base_result (rt_result t))) (rs_tests s)))"
    if s: "s \<in> set (ru_suites u)" for s
  proof -
    let ?fs = "filter (\<lambda>t. rt_should_run t \<and> P (base_result (rt_result t))) (rs_tests s)"
    have all: "concat (map (\<lambda>t. if \<not> rt_should_run t \<or> \<not> P (base_result (rt_result t)) then [] else line (rs_name s) t) ts) =
        concat (map (line (rs_name s)) (filter (\<lambda>t. rt_should_run t \<and> P (base_result (rt_result t))) ts))" for ts
      by (induction ts) auto
    have cnt: "CountIf Q (ts_tests (base_suite s)) = length ?fs"
      by (simp add: CountIf_eq base_suite_tests filter_map comp_def assms(2) base_test_simps)
    show ?thesis
    proof (cases "rs_should_run s \<and> ?fs \<noteq> []")
      case True
      then have "\<not> (\<not> rs_should_run s \<or> length ?fs = 0)" by simp
      then show ?thesis unfolding all cnt by (rule if_not_P)
    next
      case False
      have "?fs = []" using False no_outcome_in_suite [OF s assms(1), of "\<lambda>t. P (base_result (rt_result t))"] by blast
      then show ?thesis unfolding all by (simp only: list.map concat.simps if_cancel)
    qed
  qed
  have w: "with_outcome P u = concat (map (\<lambda>s. map (Pair s) (filter (\<lambda>t. rt_should_run t \<and> P (base_result (rt_result t))) (rs_tests s))) (ru_suites u))"
    unfolding with_outcome_def selected_def by (simp add: filter_concat comp_def filter_map conj_commute)
  have p: "concat (map (\<lambda>(s, t). line (rs_name s) t) (concat (map (\<lambda>s. map (Pair s) (g s)) xs))) =
      concat (map (\<lambda>s. concat (map (line (rs_name s)) (g s))) xs)" for g xs
    by (induction xs) (simp_all add: comp_def)
  have m: "map (\<lambda>s. if \<not> rs_should_run s \<or> CountIf Q (ts_tests (base_suite s)) = 0 then []
      else concat (map (\<lambda>t. if \<not> rt_should_run t \<or> \<not> P (base_result (rt_result t)) then [] else line (rs_name s) t) (rs_tests s)))
    (ru_suites u) = map (\<lambda>s. concat (map (line (rs_name s)) (filter (\<lambda>t. rt_should_run t \<and> P (base_result (rt_result t))) (rs_tests s)))) (ru_suites u)"
    using one by (rule map_cong [OF refl])
  show ?thesis by (simp only: m w p)
qed

lemma failed_lines:
  "suites_selected u \<Longrightarrow> PrintFailedTests c u =
     (let failed = with_outcome Failed u; n = length failed in
      ColoredPrintf c kRed ''[  FAILED  ] '' @ FormatTestCount (int n) @ '', listed below:'' @ [LF] @
      concat (map (\<lambda>(s, t). failed_line c (rs_name s) t) failed) @
      [LF] @ width2 n @ '' FAILED '' @ (if n = 1 then ''TEST'' else ''TESTS'') @ [LF])"
  using listed_lines [of u TestFailed Failed "failed_line c"]
  by (simp add: PrintFailedTests_def Let_def counts TestFailed_def failed_test_count_def)

lemma skipped_lines:
  "suites_selected u \<Longrightarrow> PrintSkippedTests c u = concat (map (\<lambda>(s, t). skipped_line c (rs_name s) t) (with_outcome Skipped u))"
  using listed_lines [of u TestSkipped Skipped "skipped_line c"]
  by (simp add: PrintSkippedTests_def counts TestSkipped_def skipped_test_count_def)

lemma fold_lines:
  "fold (\<lambda>s (text, n). if \<not> A s then (text, n) else if B s then (text @ g s, n + 1) else (text, n)) xs (t, k :: nat) =
   (t @ concat (map g (filter (\<lambda>s. A s \<and> B s) xs)), k + length (filter (\<lambda>s. A s \<and> B s) xs))"
  by (induction xs arbitrary: t k) simp_all

lemma suite_failure_lines:
  "PrintFailedTestSuites c u =
     (let fs = suite_failures u; n = length fs in
      concat (map (\<lambda>s. ColoredPrintf c kRed ''[  FAILED  ] '' @ rs_name s @ '': SetUpTestSuite or TearDownTestSuite'' @ [LF]) fs) @
      (if fs = [] then [] else [LF] @ width2 n @ '' FAILED TEST '' @ (if n = 1 then ''SUITE'' else ''SUITES'') @ [LF]))"
  unfolding PrintFailedTestSuites_def fold_lines suite_failures_def Let_def prod.case by (simp only: append_Nil add_0 length_greater_0_conv if_not_P) simp

lemma passed_iff: "suites_selected u \<Longrightarrow> UnitTestPassed (base_unit u) \<longleftrightarrow> all_passed u"
proof -
  assume sel: "suites_selected u"
  have c: "0 < failed_test_count (base_suite s) \<longleftrightarrow> (\<exists>t \<in> set (rs_tests s). rt_should_run t \<and> Failed (base_result (rt_result t)))" for s
    by (simp add: failed_test_count_def CountIf_pos base_suite_tests TestFailed_def base_test_simps)
  have w: "with_outcome Failed u = [] \<longleftrightarrow>
      (\<forall>s \<in> set (ru_suites u). \<forall>t \<in> set (rs_tests s). rt_should_run t \<longrightarrow> \<not> Failed (base_result (rt_result t)))"
    by (auto simp: with_outcome_def selected_def filter_empty_conv)
  have f: "suite_failures u = [] \<longleftrightarrow> (\<forall>s \<in> set (ru_suites u). rs_should_run s \<longrightarrow> \<not> Failed (base_result (rs_ad_hoc s)))"
    by (auto simp: suite_failures_def filter_empty_conv)
  have "UnitTestPassed (base_unit u) \<longleftrightarrow>
      \<not> (\<exists>s \<in> set (ru_suites u). rs_should_run s \<and> (0 < failed_test_count (base_suite s) \<or> Failed (base_result (rs_ad_hoc s)))) \<and>
      \<not> Failed (base_result (ru_ad_hoc u))"
    by (simp add: UnitTestPassed_def UnitTestFailed_def failed_test_suite_count_def CountIf_pos base_unit_def TestSuiteFailed_def
      SuiteFailed_def base_suite_def)
  then show "UnitTestPassed (base_unit u) \<longleftrightarrow> all_passed u"
    using sel unfolding all_passed_def w f c suites_selected_def by blast
qed

definition failed_section :: "bool \<Rightarrow> report \<Rightarrow> string" where
  "failed_section c u =
     (let failed = with_outcome Failed u; n = length failed; fs = suite_failures u; m = length fs in
      ColoredPrintf c kRed ''[  FAILED  ] '' @ FormatTestCount (int n) @ '', listed below:'' @ [LF] @
      concat (map (\<lambda>(s, t). failed_line c (rs_name s) t) failed) @
      [LF] @ width2 n @ '' FAILED '' @ (if n = 1 then ''TEST'' else ''TESTS'') @ [LF] @
      concat (map (\<lambda>s. ColoredPrintf c kRed ''[  FAILED  ] '' @ rs_name s @ '': SetUpTestSuite or TearDownTestSuite'' @ [LF]) fs) @
      (if fs = [] then [] else [LF] @ width2 m @ '' FAILED TEST '' @ (if m = 1 then ''SUITE'' else ''SUITES'') @ [LF]))"

text \<open>C37. The summary at the end of an iteration is right: the numbers of tests that ran, passed, were skipped and failed are those of
  the tests selected to run, and they add up.  Exactly the skipped tests are listed, then, when something failed, exactly the
  failed tests and the suites whose set-up or tear-down failed, each once and in the order of the suites; nothing else is
  called failed.  A run in which only an environment failed lists no test as failed, but is not passed.\<close>

theorem summary_lists_what_failed:
  assumes "suites_selected u"
  shows "Pretty_OnTestIterationEnd c fl u =
      ColoredPrintf c kGreen ''[==========] '' @ FormatTestCount (int (length (selected u))) @ '' from '' @
      FormatTestSuiteCount (int (length (filter rs_should_run (ru_suites u)))) @ '' ran.'' @
      (if bool_flag fl ''print_time'' then '' ('' @ elapsed_text (ru_elapsed u) @ '' ms total)'' else []) @ [LF] @
      ColoredPrintf c kGreen ''[  PASSED  ] '' @ FormatTestCount (int (length (with_outcome Passed u))) @ ''.'' @ [LF] @
      (if with_outcome Skipped u = [] then []
       else ColoredPrintf c kGreen ''[  SKIPPED ] '' @ FormatTestCount (int (length (with_outcome Skipped u))) @ '', listed below:'' @ [LF] @
         concat (map (\<lambda>(s, t). skipped_line c (rs_name s) t) (with_outcome Skipped u))) @
      (if all_passed u then [] else failed_section c u) @ disabled_lines c fl u \<and>
    length (selected u) = length (with_outcome Passed u) + length (with_outcome Skipped u) + length (with_outcome Failed u) \<and>
    (UnitTestPassed (base_unit u) \<longleftrightarrow> all_passed u)"
proof -
  have suites: "test_suite_to_run_count (base_unit u) = length (filter rs_should_run (ru_suites u))"
    by (simp add: test_suite_to_run_count_def CountIf_eq base_unit_def filter_map comp_def base_suite_def)
  have failed: "PrintFailedTests c u @ PrintFailedTestSuites c u = failed_section c u"
    by (simp only: failed_lines [OF assms] suite_failure_lines failed_section_def Let_def append.assoc)
  show ?thesis
    unfolding Pretty_OnTestIterationEnd_def ran_lines_def counts count_selected suites skipped_lines [OF assms]
      passed_iff [OF assms] failed Let_def
    by (simp add: outcomes)
qed

text \<open>One suite with a test for each outcome, of which the last one does not run.\<close>

definition summary_test :: "string \<Rightarrow> bool \<Rightarrow> part_type list \<Rightarrow> report_test" where
  "summary_test name run types = \<lparr>rt_name = name, rt_value_param = None, rt_type_param = None, rt_file = ''a.cc'', rt_line = 1,
     rt_should_run = run, rt_is_disabled = False, rt_matches_filter = run, rt_in_another_shard = False,
     rt_result = \<lparr>tr_parts = map (\<lambda>ty. TestPartResult ty (Some ''a.cc'') 2 ''m'') types, tr_properties = [], tr_elapsed = 0, tr_start = 0\<rparr>\<rparr>"

definition summary_sample :: report where
  "summary_sample = \<lparr>ru_suites = [\<lparr>rs_name = ''S'', rs_tests = [summary_test ''ok'' True [], summary_test ''bad'' True [kFatalFailure],
       summary_test ''later'' True [kSkip], summary_test ''off'' False []], rs_should_run = True,
       rs_ad_hoc = \<lparr>tr_parts = [], tr_properties = [], tr_elapsed = 0, tr_start = 0\<rparr>, rs_elapsed = 7, rs_start = 0\<rparr>],
     ru_ad_hoc = \<lparr>tr_parts = [], tr_properties = [], tr_elapsed = 0, tr_start = 0\<rparr>, ru_random_seed = 0, ru_elapsed = 8, ru_start = 0\<rparr>"

lemma summary_sample_selected: "suites_selected summary_sample"
  by (simp add: suites_selected_def summary_sample_def)

lemma summary_lists_what_failed_witness:
  "suites_selected summary_sample \<and> length (with_outcome Failed summary_sample) = 1 \<and> length (selected summary_sample) = 3 \<and>
   \<not> UnitTestPassed (base_unit summary_sample)"
proof -
  have "length (with_outcome Passed summary_sample) = 1" "length (with_outcome Skipped summary_sample) = 1"
    "length (with_outcome Failed summary_sample) = 1" "\<not> all_passed summary_sample"
    by code_simp+
  then show ?thesis
    using summary_lists_what_failed [OF summary_sample_selected] summary_sample_selected by simp
qed

subsection \<open>What happens to listeners\<close>

text \<open>The two default listeners are in the list, and none that was deleted is.\<close>

definition listeners_ok :: "listeners \<Rightarrow> bool" where
  "listeners_ok ls \<longleftrightarrow>
     distinct (rp_listeners (ls_repeater ls)) \<and> set (ls_deleted ls) \<inter> set (rp_listeners (ls_repeater ls)) = {} \<and>
     set_option (default_result_printer ls) \<union> set_option (default_xml_generator ls) \<subseteq> set (rp_listeners (ls_repeater ls)) \<and>
     set_option (default_result_printer ls) \<inter> set_option (default_xml_generator ls) = {}"

definition unknown :: "nat \<Rightarrow> listeners \<Rightarrow> bool" where
  "unknown l ls \<longleftrightarrow> l \<notin> set (rp_listeners (ls_repeater ls)) \<and> l \<notin> set (ls_deleted ls)"

named_theorems listener_defs

lemmas [listener_defs] = listeners_ok_def unknown_def Repeater_Append_def Repeater_Release_def Append_def Release_def
  delete_released_def SetDefaultResultPrinter_def SetDefaultXmlGenerator_def SuppressEventForwarding_def TestEventListeners_def
  TestEventRepeater_def

lemma listeners_ok_start: "listeners_ok TestEventListeners" by (simp add: listener_defs)

lemma listeners_ok_Append: "listeners_ok ls \<Longrightarrow> unknown l ls \<Longrightarrow> listeners_ok (Append l ls)"
  by (auto simp: listener_defs)

lemma listeners_ok_Release: "listeners_ok ls \<Longrightarrow> listeners_ok (snd (Release l ls))"
  by (cases l) (auto simp: listener_defs set_remove1_eq split: if_splits)

lemma listeners_ok_printer: "listeners_ok ls \<Longrightarrow> unknown l ls \<Longrightarrow> listeners_ok (SetDefaultResultPrinter (Some l) ls)"
  by (cases "default_result_printer ls") (auto simp: listener_defs Let_def set_remove1_eq)

lemma listeners_ok_generator: "listeners_ok ls \<Longrightarrow> unknown l ls \<Longrightarrow> listeners_ok (SetDefaultXmlGenerator (Some l) ls)"
  by (cases "default_xml_generator ls") (auto simp: listener_defs Let_def set_remove1_eq)

text \<open>A deleted listener gets no event, and the printer that was set last gets every one that is forwarded.\<close>

lemma forwarded_listeners:
  assumes "listeners_ok ls"
  shows "set (forwarded_to (ls_repeater ls) e) \<inter> set (ls_deleted ls) = {}"
    "EventForwardingEnabled ls \<Longrightarrow> default_result_printer ls = Some l \<Longrightarrow> l \<in> set (forwarded_to (ls_repeater ls) e)"
    "distinct (forwarded_to (ls_repeater ls) e)"
  using assms by (auto simp: forwarded_to_def listeners_ok_def EventForwardingEnabled_def)

text \<open>The initialisation is performed once.  It keeps the listeners in order, and in the child of a death test no event is forwarded.\<close>

definition numbered :: "init_state \<Rightarrow> bool" where
  "numbered i \<longleftrightarrow> listeners_ok (is_listeners i) \<and>
     (\<forall>l \<in> set (rp_listeners (ls_repeater (is_listeners i))) \<union> set (ls_deleted (is_listeners i)). l < next_listener i)"

lemma numbered_with_new:
  "numbered i \<Longrightarrow> f \<in> {Append, \<lambda>l. SetDefaultXmlGenerator (Some l), \<lambda>l. SetDefaultResultPrinter (Some l)} \<Longrightarrow> numbered (with_new f i)"
proof -
  assume n: "numbered i" and f: "f \<in> {Append, \<lambda>l. SetDefaultXmlGenerator (Some l), \<lambda>l. SetDefaultResultPrinter (Some l)}"
  let ?ls = "is_listeners i" and ?l = "next_listener i"
  have ok: "listeners_ok ?ls" and new: "unknown ?l ?ls" using n by (auto simp: numbered_def unknown_def)
  have ok': "listeners_ok (f ?l ?ls)"
    using f listeners_ok_Append [OF ok new] listeners_ok_printer [OF ok new] listeners_ok_generator [OF ok new] by auto
  have sub: "set (rp_listeners (ls_repeater (f ?l ?ls))) \<union> set (ls_deleted (f ?l ?ls)) \<subseteq>
      insert ?l (set (rp_listeners (ls_repeater ?ls)) \<union> set (ls_deleted ?ls))"
    using f by (auto simp: Append_def SetDefaultXmlGenerator_def SetDefaultResultPrinter_def delete_released_def Release_def
      Repeater_Append_def Repeater_Release_def Let_def split: option.splits if_splits dest: notin_set_remove1 set_remove1_subset [THEN subsetD])
  have "l < Suc ?l" if "l \<in> set (rp_listeners (ls_repeater (f ?l ?ls))) \<union> set (ls_deleted (f ?l ?ls))" for l
  proof -
    from that sub have "l = ?l \<or> l \<in> set (rp_listeners (ls_repeater ?ls)) \<union> set (ls_deleted ?ls)" by blast
    with n show ?thesis by (auto simp: numbered_def less_SucI)
  qed
  with ok' show "numbered (with_new f i)" by (simp add: numbered_def with_new_def)
qed

lemma numbered_Suppress: "numbered i \<Longrightarrow> numbered (SuppressTestEventsIfInSubprocess i)"
  by (simp add: numbered_def SuppressTestEventsIfInSubprocess_def SuppressEventForwarding_def listeners_ok_def)

lemma numbered_flags: "numbered (i\<lparr>post_flag_parse_init_performed := b, internal_run_death_test_flag := f\<rparr>) = numbered i"
  by (simp add: numbered_def)

lemma forwarding_kept:
  "forwarding_enabled (ls_repeater (Append l ls)) = forwarding_enabled (ls_repeater ls)"
  "forwarding_enabled (ls_repeater (delete_released x ls)) = forwarding_enabled (ls_repeater ls)"
  by (auto simp: delete_released_def Release_def Append_def Repeater_Append_def Repeater_Release_def Let_def
    split: option.splits prod.splits if_splits)

lemma forwarding_set:
  "forwarding_enabled (ls_repeater (SetDefaultXmlGenerator (Some l) ls)) = forwarding_enabled (ls_repeater ls)"
  "forwarding_enabled (ls_repeater (SetDefaultResultPrinter (Some l) ls)) = forwarding_enabled (ls_repeater ls)"
  by (simp_all add: SetDefaultXmlGenerator_def SetDefaultResultPrinter_def Let_def forwarding_kept)

lemma forwarding_with_new:
  "f \<in> {Append, \<lambda>l. SetDefaultXmlGenerator (Some l), \<lambda>l. SetDefaultResultPrinter (Some l)} \<Longrightarrow>
   EventForwardingEnabled (is_listeners (with_new f i)) = EventForwardingEnabled (is_listeners i) \<and>
   post_flag_parse_init_performed (with_new f i) = post_flag_parse_init_performed i \<and>
   internal_run_death_test_flag (with_new f i) = internal_run_death_test_flag i"
  by (auto simp: with_new_def EventForwardingEnabled_def forwarding_kept forwarding_set)

lemma initialisation:
  assumes "PostFlagParsingInit stat s fl dir argvs i = Inr i'" "numbered i"
  shows "numbered i'" "PostFlagParsingInit stat s' fl' dir' argvs' i' = Inr i'"
    "\<not> post_flag_parse_init_performed i \<Longrightarrow> string_flag fl ''internal_run_death_test'' \<noteq> [] \<Longrightarrow>
     forwarded_to (ls_repeater (is_listeners i')) e = []"
proof -
  let ?i1 = "\<lambda>flag. SuppressTestEventsIfInSubprocess (i\<lparr>post_flag_parse_init_performed := True, internal_run_death_test_flag := flag\<rparr>)"
  have new: "numbered (with_new f j)" "EventForwardingEnabled (is_listeners (with_new f j)) = EventForwardingEnabled (is_listeners j)"
      "post_flag_parse_init_performed (with_new f j) = post_flag_parse_init_performed j"
    if "numbered j" "f \<in> {Append, \<lambda>l. SetDefaultXmlGenerator (Some l), \<lambda>l. SetDefaultResultPrinter (Some l)}" for f j
    using numbered_with_new [OF that] forwarding_with_new [OF that(2)] by auto
  have all: "numbered i' \<and> post_flag_parse_init_performed i' \<and>
      (\<not> post_flag_parse_init_performed i \<longrightarrow> string_flag fl ''internal_run_death_test'' \<noteq> [] \<longrightarrow> \<not> EventForwardingEnabled (is_listeners i'))"
  proof (cases "post_flag_parse_init_performed i")
    case True
    with assms show ?thesis by (simp add: PostFlagParsingInit_def)
  next
    case False
    obtain flag where flag: "ParseInternalRunDeathTestFlag (string_flag fl ''internal_run_death_test'') = Inr flag"
      using assms(1) False by (cases "ParseInternalRunDeathTestFlag (string_flag fl ''internal_run_death_test'')") (simp_all add: PostFlagParsingInit_def)
    have start: "numbered (?i1 flag)" "post_flag_parse_init_performed (?i1 flag)"
        "flag \<noteq> None \<Longrightarrow> \<not> EventForwardingEnabled (is_listeners (?i1 flag))"
      using numbered_Suppress [of "i\<lparr>post_flag_parse_init_performed := True, internal_run_death_test_flag := flag\<rparr>"] assms(2)
      by (simp_all only: numbered_flags) (simp_all add: SuppressTestEventsIfInSubprocess_def SuppressEventForwarding_def EventForwardingEnabled_def)
    have some: "flag \<noteq> None" if "string_flag fl ''internal_run_death_test'' \<noteq> []"
      using flag that by (auto simp: ParseInternalRunDeathTestFlag_def Let_def split: if_splits option.splits)
    obtain j where j: "ConfigureXmlOutput stat s fl dir argvs (?i1 flag) = Inr j"
        "i' = ConfigureStreamingOutput fl (if bool_flag fl ''brief'' then with_new (\<lambda>l. SetDefaultResultPrinter (Some l)) j else j)"
      using assms(1) False flag
      by (cases "ConfigureXmlOutput stat s fl dir argvs (?i1 flag)") (simp_all add: PostFlagParsingInit_def Let_def)
    have "j = ?i1 flag \<or> j = with_new (\<lambda>l. SetDefaultXmlGenerator (Some l)) (?i1 flag)"
      using j(1) by (auto simp: ConfigureXmlOutput_def Let_def bindr_def split: if_splits sum.splits)
    then have k: "numbered j" "post_flag_parse_init_performed j"
        "EventForwardingEnabled (is_listeners j) = EventForwardingEnabled (is_listeners (?i1 flag))"
      using start new [OF start(1)] by auto
    let ?k = "if bool_flag fl ''brief'' then with_new (\<lambda>l. SetDefaultResultPrinter (Some l)) j else j"
    have l: "numbered ?k" "post_flag_parse_init_performed ?k"
        "EventForwardingEnabled (is_listeners ?k) = EventForwardingEnabled (is_listeners (?i1 flag))"
      using k new [OF k(1)] by auto
    then have "numbered i'" "post_flag_parse_init_performed i'"
        "EventForwardingEnabled (is_listeners i') = EventForwardingEnabled (is_listeners (?i1 flag))"
      using new [OF l(1), of Append] unfolding j(2) ConfigureStreamingOutput_def Let_def by auto
    with start(3) some show ?thesis by blast
  qed
  then show "numbered i'" by blast
  show "PostFlagParsingInit stat s' fl' dir' argvs' i' = Inr i'" using all by (simp add: PostFlagParsingInit_def)
  show "\<not> post_flag_parse_init_performed i \<Longrightarrow> string_flag fl ''internal_run_death_test'' \<noteq> [] \<Longrightarrow>
      forwarded_to (ls_repeater (is_listeners i')) e = []"
    using all by (simp add: forwarded_to_def EventForwardingEnabled_def)
qed

end
