(* ===== verification/Gt_Stream.thy ===== *)
theory Gt_Stream
  imports Gt_Terminal Gt_Literal_Spec
begin

section \<open>Results that are streamed to a socket\<close>

text \<open>
  The listener of \<open>--gtest_stream_result_to\<close> (\<open>StreamingListener\<close> in \<open>gtest-internal-inl.h\<close> and \<open>gtest.cc\<close>).  \<open>sw_fd\<close> is the
  socket or \<open>-1\<close>, \<open>sw_sent\<close> what was passed to \<open>write\<close>, \<open>sw_closed\<close> the sockets that were closed, and \<open>sw_warnings\<close> what was
  logged.  The results of the system calls are parameters: \<open>wr\<close> gives what \<open>write\<close> returns, and each address that
  \<open>getaddrinfo\<close> found has the results of \<open>socket\<close> and \<open>connect\<close>.
\<close>

subsection \<open>The connection\<close>

record socket_writer =
  sw_fd :: int
  sw_host :: string
  sw_port :: string
  sw_sent :: "string list"
  sw_closed :: "int list"
  sw_warnings :: "string list"

text \<open>The loop that stops at the first address it can connect to.\<close>

fun connect_loop :: "(int \<times> int) list \<Rightarrow> socket_writer \<Rightarrow> socket_writer" where
  "connect_loop [] w = w"
| "connect_loop ((socket_result, connect_result) # addrs) w =
     (if sw_fd w \<noteq> - 1 then w
      else connect_loop addrs
             (if socket_result \<noteq> - 1 \<and> connect_result = - 1
              then w\<lparr>sw_fd := - 1, sw_closed := sw_closed w @ [socket_result]\<rparr>
              else w\<lparr>sw_fd := socket_result\<rparr>))"

definition MakeConnection :: "string option \<Rightarrow> (int \<times> int) list \<Rightarrow> socket_writer \<Rightarrow> stop + socket_writer" where
  "MakeConnection gai_error addrs w =
     (if sw_fd w \<noteq> - 1 then Inl Assert_fail
      else let w1 = (case gai_error of
                       None \<Rightarrow> w
                     | Some m \<Rightarrow> w\<lparr>sw_warnings := sw_warnings w @ [''stream_result_to: getaddrinfo() failed: '' @ m]\<rparr>);
               w2 = connect_loop addrs w1
           in Inr (if sw_fd w2 = - 1
                   then w2\<lparr>sw_warnings := sw_warnings w2 @ [''stream_result_to: failed to connect to '' @ sw_host w2 @ '':'' @ sw_port w2]\<rparr>
                   else w2))"

definition SocketWriter :: "string \<Rightarrow> string \<Rightarrow> string option \<Rightarrow> (int \<times> int) list \<Rightarrow> stop + socket_writer" where
  "SocketWriter host port gai_error addrs =
     MakeConnection gai_error addrs
       \<lparr>sw_fd = - 1, sw_host = host, sw_port = port, sw_sent = [], sw_closed = [], sw_warnings = []\<rparr>"

definition Send :: "(string \<Rightarrow> int) \<Rightarrow> string \<Rightarrow> socket_writer \<Rightarrow> stop + socket_writer" where
  "Send wr message w =
     (if sw_fd w = - 1 then Inl Assert_fail
      else let w1 = w\<lparr>sw_sent := sw_sent w @ [message]\<rparr> in
           Inr (if wr message \<noteq> int (length message)
                then w1\<lparr>sw_warnings := sw_warnings w1 @ [''stream_result_to: failed to stream to '' @ sw_host w @ '':'' @ sw_port w]\<rparr>
                else w1))"

definition SendLn :: "(string \<Rightarrow> int) \<Rightarrow> string \<Rightarrow> socket_writer \<Rightarrow> stop + socket_writer" where
  "SendLn wr message = Send wr (message @ [LF])"

definition CloseConnection :: "socket_writer \<Rightarrow> stop + socket_writer" where
  "CloseConnection w =
     (if sw_fd w = - 1 then Inl Assert_fail else Inr (w\<lparr>sw_closed := sw_closed w @ [sw_fd w], sw_fd := - 1\<rparr>))"

definition SocketWriter_destroy :: "socket_writer \<Rightarrow> stop + socket_writer" where
  "SocketWriter_destroy w = (if sw_fd w \<noteq> - 1 then CloseConnection w else Inr w)"

subsection \<open>The messages\<close>

definition url_char :: "char \<Rightarrow> string" where
  "url_char ch =
     (if ch = CHR ''%'' \<or> ch = CHR ''='' \<or> ch = CHR ''&'' \<or> ch = LF
      then CHR ''%'' # FormatByte (word_of_nat (of_char ch)) else [ch])"

definition UrlEncode :: "string \<Rightarrow> string" where
  "UrlEncode str = concat (map url_char (cstr str))"

definition FormatBool :: "bool \<Rightarrow> string" where
  "FormatBool value = (if value then ''1'' else ''0'')"

definition StreamingListener_Start :: "(string \<Rightarrow> int) \<Rightarrow> socket_writer \<Rightarrow> stop + socket_writer" where
  "StreamingListener_Start wr = SendLn wr ''gtest_streaming_protocol_version=1.0''"

definition StreamingListener ::
  "(string \<Rightarrow> int) \<Rightarrow> string \<Rightarrow> string \<Rightarrow> string option \<Rightarrow> (int \<times> int) list \<Rightarrow> stop + socket_writer" where
  "StreamingListener wr host port gai_error addrs =
     bindr (SocketWriter host port gai_error addrs) (StreamingListener_Start wr)"

definition Stream_OnTestProgramStart :: "(string \<Rightarrow> int) \<Rightarrow> socket_writer \<Rightarrow> stop + socket_writer" where
  "Stream_OnTestProgramStart wr = SendLn wr ''event=TestProgramStart''"

definition Stream_OnTestProgramEnd :: "(string \<Rightarrow> int) \<Rightarrow> report \<Rightarrow> socket_writer \<Rightarrow> stop + socket_writer" where
  "Stream_OnTestProgramEnd wr unit_test w =
     bindr (SendLn wr (''event=TestProgramEnd&passed='' @ FormatBool (UnitTestPassed (base_unit unit_test))) w) CloseConnection"

definition Stream_OnTestIterationStart :: "(string \<Rightarrow> int) \<Rightarrow> int \<Rightarrow> socket_writer \<Rightarrow> stop + socket_writer" where
  "Stream_OnTestIterationStart wr iteration = SendLn wr (''event=TestIterationStart&iteration='' @ dec_int iteration)"

definition Stream_OnTestIterationEnd :: "(string \<Rightarrow> int) \<Rightarrow> report \<Rightarrow> socket_writer \<Rightarrow> stop + socket_writer" where
  "Stream_OnTestIterationEnd wr unit_test =
     SendLn wr (''event=TestIterationEnd&passed='' @ FormatBool (UnitTestPassed (base_unit unit_test)) @
                ''&elapsed_time='' @ dec_int (ru_elapsed unit_test) @ ''ms'')"

definition Stream_OnTestSuiteStart :: "(string \<Rightarrow> int) \<Rightarrow> report_suite \<Rightarrow> socket_writer \<Rightarrow> stop + socket_writer" where
  "Stream_OnTestSuiteStart wr test_suite = SendLn wr (''event=TestCaseStart&name='' @ rs_name test_suite)"

definition Stream_OnTestSuiteEnd :: "(string \<Rightarrow> int) \<Rightarrow> report_suite \<Rightarrow> socket_writer \<Rightarrow> stop + socket_writer" where
  "Stream_OnTestSuiteEnd wr test_suite =
     SendLn wr (''event=TestCaseEnd&passed='' @ FormatBool (SuitePassed (base_suite test_suite)) @
                ''&elapsed_time='' @ dec_int (rs_elapsed test_suite) @ ''ms'')"

definition Stream_OnTestStart :: "(string \<Rightarrow> int) \<Rightarrow> report_test \<Rightarrow> socket_writer \<Rightarrow> stop + socket_writer" where
  "Stream_OnTestStart wr test_info = SendLn wr (''event=TestStart&name='' @ rt_name test_info)"

definition Stream_OnTestEnd :: "(string \<Rightarrow> int) \<Rightarrow> report_test \<Rightarrow> socket_writer \<Rightarrow> stop + socket_writer" where
  "Stream_OnTestEnd wr test_info =
     SendLn wr (''event=TestEnd&passed='' @ FormatBool (Passed (base_result (rt_result test_info))) @
                ''&elapsed_time='' @ dec_int (tr_elapsed (rt_result test_info)) @ ''ms'')"

definition part_line :: "test_part \<Rightarrow> string" where
  "part_line p =
     (let file_name = (case tp_file p of None \<Rightarrow> [] | Some f \<Rightarrow> f)
      in ''event=TestPartResult&file='' @ UrlEncode file_name @ ''&line='' @ dec_int (tp_line p) @
         ''&message='' @ UrlEncode (tp_message p))"

definition Stream_OnTestPartResult :: "(string \<Rightarrow> int) \<Rightarrow> test_part \<Rightarrow> socket_writer \<Rightarrow> stop + socket_writer" where
  "Stream_OnTestPartResult wr p = SendLn wr (part_line p)"

subsection \<open>What the receiver can read\<close>

text \<open>The fields of a line: names and decoded values.\<close>

fun url_decode :: "string \<Rightarrow> string" where
  "url_decode (c # a # b # s) =
     (if c = CHR ''%'' then char_of (16 * xdigit_value a + xdigit_value b) # url_decode s else c # url_decode (a # b # s))"
| "url_decode s = s"

definition field :: "string \<Rightarrow> string \<times> string" where
  "field s = (takeWhile (\<lambda>c. c \<noteq> CHR ''='') s, url_decode (tl (dropWhile (\<lambda>c. c \<noteq> CHR ''='') s)))"

definition stream_fields :: "string \<Rightarrow> (string \<times> string) list" where
  "stream_fields l = map field (SplitString l CHR ''&'')"


lemma url_special [simp]:
  "FormatByte 37 = ''25''" "FormatByte 61 = ''3D''" "FormatByte 38 = ''26''" "FormatByte 10 = ''0A''"
  by code_simp+

lemma url_decode_plain: "c \<noteq> CHR ''%'' \<Longrightarrow> url_decode (c # s) = c # url_decode s"
  by (cases s rule: url_decode.cases) auto

lemma url_decode_char: "url_decode (url_char c @ s) = c # url_decode s"
proof -
  have x: "xdigit_value CHR ''2'' = 2" "xdigit_value CHR ''5'' = 5" "xdigit_value CHR ''3'' = 3" "xdigit_value CHR ''D'' = 13"
    "xdigit_value CHR ''6'' = 6" "xdigit_value CHR ''0'' = 0" "xdigit_value CHR ''A'' = 10"
    "(char_of (37 :: nat) :: char) = CHR ''%''" "(char_of (61 :: nat) :: char) = CHR ''=''"
    "(char_of (38 :: nat) :: char) = CHR ''&''" "(char_of (10 :: nat) :: char) = LF"
    by code_simp+
  show ?thesis
    using url_decode_plain [of c s] by (auto simp: url_char_def x)
qed

lemma url_decode_UrlEncode: "url_decode (UrlEncode s) = cstr s"
proof -
  have "url_decode (concat (map url_char cs)) = cs" for cs by (induction cs) (simp_all add: url_decode_char)
  then show ?thesis by (simp add: UrlEncode_def)
qed

lemma UrlEncode_safe: "CHR ''&'' \<notin> set (UrlEncode s)" "LF \<notin> set (UrlEncode s)"
  by (auto simp: UrlEncode_def url_char_def split: if_splits)

lemma dec_int_plain: "c \<in> set (dec_int n) \<Longrightarrow> isdigit c \<or> c = CHR ''-''"
  by (auto simp: dec_int_def dest: dec_digits_chars split: if_splits)

lemma url_decode_id: "CHR ''%'' \<notin> set s \<Longrightarrow> url_decode s = s"
  by (induction s) (auto simp: url_decode_plain)

text \<open>A failure arrives as it is: the file, the line and the message, in one line of text.\<close>

lemma part_line_reads_back:
  "stream_fields (part_line p) =
     [(''event'', ''TestPartResult''), (''file'', cstr (case tp_file p of None \<Rightarrow> [] | Some f \<Rightarrow> f)),
      (''line'', dec_int (tp_line p)), (''message'', cstr (tp_message p))] \<and> LF \<notin> set (part_line p)"
proof -
  let ?f = "case tp_file p of None \<Rightarrow> [] | Some f \<Rightarrow> f"
  let ?parts = "[''event=TestPartResult'', ''file='' @ UrlEncode ?f, ''line='' @ dec_int (tp_line p), ''message='' @ UrlEncode (tp_message p)]"
  have j: "part_line p = join_with CHR ''&'' ?parts" by (simp add: part_line_def Let_def)
  have d: "CHR ''&'' \<notin> set (dec_int (tp_line p))" "LF \<notin> set (dec_int (tp_line p))" "CHR ''%'' \<notin> set (dec_int (tp_line p))"
    using dec_int_plain [of _ "tp_line p"] by (auto dest!: dec_int_plain simp: isdigit_def Let_def)
  have "SplitString (part_line p) CHR ''&'' = ?parts"
    unfolding j using d by (intro Split_join) (simp_all add: UrlEncode_safe)
  then have "stream_fields (part_line p) = map field ?parts" by (simp add: stream_fields_def)
  then show ?thesis using d UrlEncode_safe
    by (simp add: field_def url_decode_UrlEncode url_decode_id part_line_def Let_def)
qed

text \<open>
  When no address can be connected to, the writer only logs a warning, but the listener then sends its first line, which aborts
  the program; so do the results of a second run, because the connection is closed at the end of the first.
\<close>

lemma connect_loop_none:
  "sw_fd w = - 1 \<Longrightarrow> list_all (\<lambda>(s, c). s = - 1 \<or> c = - 1) addrs \<Longrightarrow> sw_fd (connect_loop addrs w) = - 1"
  by (induction addrs arbitrary: w) auto

lemma unreachable_receiver_aborts:
  assumes "list_all (\<lambda>(s, c). s = - 1 \<or> c = - 1) addrs"
  shows "(\<exists>w. SocketWriter host port gai_error addrs = Inr w \<and> sw_fd w = - 1) \<and>
    StreamingListener wr host port gai_error addrs = Inl Assert_fail"
  using connect_loop_none [OF _ assms]
  by (auto simp: SocketWriter_def MakeConnection_def StreamingListener_def StreamingListener_Start_def SendLn_def Send_def Let_def
      split: option.split)

lemma second_run_aborts:
  "Stream_OnTestProgramEnd wr u w = Inr w' \<Longrightarrow> Stream_OnTestProgramStart wr w' = Inl Assert_fail"
  by (auto simp: Stream_OnTestProgramEnd_def Stream_OnTestProgramStart_def SendLn_def Send_def CloseConnection_def bindr_eq_Inr
      split: if_splits)

end
