(* ===== verification/Spec2Isabelle.thy ===== *)
theory Spec2Isabelle
  imports Cache_Results Queue_Results Io_Results Request_Results System_Results Logging Reader_Writer Gt_Results
    Gt_Text_Results Gm_Results Gt_Report_Results Gt_Assert Gt_Typed Gt_Stream
begin

text \<open>
  A verification of \<open>mini-proxy\<close>: a caching HTTP/1.0 proxy with worker threads, the library of system
  programming it is built on, and those parts of the test framework under \<open>src/googletest\<close>, which the
  repository contains, that have a contract of their own.

  \<^bold>\<open>The program.\<close>  \<open>app/proxy.c\<close> accepts connections and puts their descriptors into a bounded queue
  (\<open>lib/src/sbuf.c\<close>).  Eight workers take them out and serve one request each
  (\<open>lib/src/proxy-module.c\<close>): they read the request line by line through a buffer (\<open>lib/src/nio.c\<close>),
  parse it, look the object up in a shared cache (\<open>lib/src/cache.c\<close>, a doubly linked list in the order of use behind a
  reader-writer lock), and on a miss connect to the server (\<open>lib/src/inet-helper.c\<close>), relay its response and
  store a copy.  \<open>lib/src/csapp.c\<close> has the wrappers of system calls and the original buffered I/O;
  \<open>app/client.c\<close> and \<open>app/reader-writer.c\<close> are small programs beside the proxy.

  \<^bold>\<open>How the code is modelled.\<close>  A C function over a state is a function from the state to \<open>Inl\<close> of
  the reason why it stops (undefined behaviour, a failed assertion, \<open>exit\<close>, a wait) or \<open>Inr\<close> of its result and the new
  state (\<open>Prelude\<close>).  Memory blocks are lists of bytes with checked accesses, signed counters are integers with a checked
  increment, \<open>size_t\<close> values that can wrap are converted explicitly, and the nodes of the cache live in an explicit heap.
  The C++ of the test framework uses the same reasons with vectors as lists (\<open>Gt_Base\<close>).  What is outside \<open>src/\<close> is a
  script or a parameter: what each \<open>read\<close> and \<open>write\<close> does, which addresses a name has and which accept a connection,
  \<open>stat\<close> and \<open>mkdir\<close>, the code of the user's tests.

  \<^bold>\<open>The theories.\<close>
  \<^item> \<open>Prelude\<close>, \<open>Posix\<close>, \<open>Os\<close>: the vocabulary, semaphores, and the state of the kernel and the C library.
  \<^item> \<open>RWLock\<close>, \<open>Cache\<close>: the lock and the functions of \<open>cache.c\<close>.  \<open>Cache_Inv\<close> has the heap invariant and the
    effect of every queue operation on the list of nodes, \<open>Cache_Lru\<close> the abstract cache (a list of
    entries with least-recently-used eviction) and the refinement, \<open>Cache_Use\<close> the rest of the module, \<open>Cache_Results\<close> the properties.
  \<^item> \<open>Sbuf\<close>, \<open>Sbuf_Conc\<close>, \<open>Queue_Results\<close>: the queue, one call at a time and for every interleaving of the single steps of
    any number of threads; the same for the lock in \<open>RWLock\<close>.
  \<^item> \<open>Nio\<close>, \<open>Rio\<close>, \<open>Sio\<close>, \<open>Nio_Spec\<close>, \<open>Io_Results\<close>: buffered and signal-safe I/O, specified on the
    stream that a descriptor still delivers, whatever pieces it comes in.
  \<^item> \<open>Uri\<close>, \<open>Request\<close>, \<open>Inet\<close>, \<open>Request_Results\<close>: parsing a request, error pages, connections.
  \<^item> \<open>Proxy_Module\<close>, \<open>Relay_Spec\<close>, \<open>Worker_Spec\<close>, \<open>Worker_Faults\<close>: a whole transaction, when it goes well and
    the ways in which it fails.  \<open>Proxy\<close> composes queue, workers, signals and start-up.
  \<^item> \<open>Wrappers\<close>, \<open>Client\<close>, \<open>Logging\<close>, \<open>Reader_Writer\<close>, \<open>System_Results\<close>: the system call wrappers, the
    line client, the logging macros and the demonstration program.
  \<^item> \<open>Samples\<close>: concrete states on which the properties are shown to apply.
  \<^item> \<open>Gt_Strings\<close>, \<open>Gt_Filter\<close>, \<open>Gt_FilePath\<close>, \<open>Gt_Runner\<close> with \<open>Gt_Runner_Spec\<close>,
    \<open>Gt_Run\<close>, \<open>Gt_Shards\<close>: strings and flags, test filters, shuffling, paths, and the test runner of googletest.
  \<^item> \<open>Gm_Matching_Max\<close>, \<open>Gm_Unordered\<close>, \<open>Gm_Unordered_Spec\<close>: unordered matching in googlemock.
  \<^item> \<open>Gt_Edit\<close> with \<open>Gt_Edit_Spec\<close>, \<open>Gt_Utf8\<close>, \<open>Gt_Regex\<close> with \<open>Gt_Regex_Spec\<close>, \<open>Gt_Text_Results\<close>: edit scripts and unified
    diffs of failure messages, wide strings and UTF-8, the regular expressions of googletest.
  \<^item> \<open>Gm_Utils\<close>, \<open>Gm_Base64\<close>: cardinalities and utilities of googlemock.
  \<^item> \<open>Gm_Expect\<close>, \<open>Gm_Mocker\<close>, \<open>Gm_Calls\<close>: \<open>gmock-spec-builders\<close>, that is expectations and their clauses, the
    mock functions and their registry, and what a call does.  \<open>Gm_Walks\<close> is about the graph of pre-requisites,
    \<open>Gm_Mock_Spec\<close> has the invariant of the state, \<open>Gm_Mock_Reports\<close> the reachable states, the handler of a
    call and the failures that are reported, and \<open>Gm_Results\<close> the properties.
  \<^item> \<open>Gt_Print\<close>: \<open>gtest-printers.cc\<close>, that is how bytes, characters, strings and 128 bit integers are printed.
    \<open>Gt_Print_Spec\<close> shows that the decimal numbers are right and that \<open>IsValidUTF8\<close> decides UTF-8, \<open>Gt_Literal_Spec\<close> reads
    string literals and shows when a printed string reads back.
  \<^item> \<open>Gt_Report\<close>: results, their parts and recorded properties, and the times of a report.  \<open>Gt_Xml\<close> and \<open>Gt_Json\<close>: the
    classes \<open>XmlUnitTestResultPrinter\<close> and \<open>JsonUnitTestResultPrinter\<close>.  \<open>Gt_Xml_Tree\<close> and \<open>Gt_Json_Spec\<close> have the
    grammars of the two formats, which \<open>Gt_Unique\<close> shows to be unambiguous,
    \<open>Gt_Xml_Tree\<close> and \<open>Gt_Json_Tree\<close> what a report says, as a tree, and that the text reads as it;
    \<open>Gt_Report_Results\<close> has the properties.
  \<^item> \<open>Gt_Float\<close>: the class template \<open>FloatingPoint\<close> of \<open>gtest-internal.h\<close> on the bits of a number, with the values that
    the bits denote and the steps between neighbouring values.  \<open>Gt_Assert\<close>: assertion results and the helpers of the
    assertions on strings and floating point numbers, with what they decide.
  \<^item> \<open>Gt_Flags\<close>: environment variables, flags, flag files, the help text and the command line (\<open>InitGoogleTestImpl\<close> and
    \<open>InitGoogleMockImpl\<close>).  Its second part relates the loops that move
    arguments in an array to functions of the list of the arguments.
  \<^item> \<open>Gt_Death\<close>: \<open>gtest-death-test.cc\<close> on a POSIX system, that is the child and the parent of a death test, the pipe between them,
    the flag that tells the child which test to run, and the factory.  \<open>Gt_Terminal\<close>: the printers of results on the
    terminal, the list of the tests, the listeners and what is done after the flags are parsed.
  \<^item> \<open>Gt_Params\<close>: the generators of \<open>gtest-param-util.h\<close> with the contract of a generator as the locale \<open>param_generator\<close>,
    which values of containers, ranges, conversions and combinations keep.  \<open>Gt_Register\<close>: the registry of suites and tests
    (\<open>UnitTestImpl::GetTestSuite\<close>, \<open>AddTestInfo\<close>) and the expansion of value-parameterized tests.  \<open>Gt_Typed\<close>: \<open>gtest-typed-test.cc\<close>
    and the registration of typed tests.  \<open>Gt_Stream\<close>: the class \<open>StreamingListener\<close>, with what a receiver can read.
  This theory has the properties that span the components of the proxy.

  \<^bold>\<open>Bounds and fuel.\<close>  Loops with a measure are total functions.  The relay loop and the searches in the
  cache have fuel: one more than the script of the descriptor can have lines, or than nodes were ever allocated, which the
  results show to be enough wherever they state that a call returns.  Loops without a bound of their own
  (\<open>CreateDirectoriesRecursively\<close>, the loop over a wildcard pattern) are partial functions whose value \<open>None\<close> means that they do not
  end, and that they end is proved.

  \<^bold>\<open>Not modelled.\<close>  The texts that only go to the log; scheduling and thread creation beyond interleavings;
  weak memory; \<open>subf_teardown\<close>, which nothing calls.  Of the test framework: thread counting and the spawning of a death test by \<open>clone\<close>; the clock,
  the local time and the text of a printed \<open>double\<close> (parameters of the reports); the macros of assertions, the templates of actions and typed matchers, whose meaning is
  that of the types they are instantiated with, and the repository's own tests.
\<close>

section \<open>Transactions\<close>

text \<open>C1. A response that was fetched once is served from the cache afterwards.  Two clients ask for
  the same object, which is not cached.  The first transaction asks the server; the second one sends
  the same bytes to its client.  It writes to no other descriptor, reads from none but its client's,
  and creates no descriptor, not even one that is closed again.  Both end normally with a valid cache.
  The response is text, with a NUL at most as its last byte, below the object limit.  One condition is on
  the memory: when the last byte is not a NUL, as after a newline, the byte that \<open>new_node\<close> allocates
  for the terminator is not written.  Unless \<open>malloc\<close> left a NUL there, the first transaction ends by
  reading behind its block and there is no second one.\<close>

theorem second_client_served_from_cache:
  assumes "requests (w_os w) c1 h po pa" "requests (w_os w) c2 h po pa" "c1 \<noteq> c2" "fds_ok (w_os w)"
    and "server_sends (w_os w) h po resp"
    and "cache_valid (w_cache w)" "lru_find (entry_match h po pa) (contents (w_cache w)) = None"
    and "text_response (relay resp)" "length (relay resp) < MAX_OBJECT_SIZE"
    and "int (length (contents (w_cache w))) < INT_MAX"
  shows "if copy_terminated (w_cache w) (relay resp)
    then \<exists>w1 w2. worker_main junk1 c1 w = Inr ((), w1) \<and> worker_main junk2 c2 w1 = Inr ((), w2) \<and>
      os_out (w_os w2) c1 = os_out (w_os w) c1 @ relay resp \<and>
      os_out (w_os w2) c2 = os_out (w_os w) c2 @ relay resp \<and>
      (\<forall>d. d \<noteq> c2 \<longrightarrow> os_out (w_os w2) d = os_out (w_os w1) d \<and> os_in (w_os w2) d = os_in (w_os w1) d) \<and>
      os_open (w_os w2) = os_open (w_os w1) \<and> os_fresh_fd (w_os w2) = os_fresh_fd (w_os w1) \<and>
      cache_valid (w_cache w2)
    else worker_main junk1 c1 w = Inl Overread"
proof -
  note st = text_response_payload [OF assms(8-10)]
  show ?thesis
  proof (cases "copy_terminated (w_cache w) (relay resp)")
    case True
    then have "storable (w_cache w) (response_block (relay resp)) (length (relay resp))"
      using st by (simp add: storable_def)
    from worker_hit_after_miss [OF assms(1-7) refl assms(9) this] True show ?thesis by simp
  next
    case False
    with st worker_miss_overread [OF assms(1,4-7) refl assms(9)] show ?thesis by simp
  qed
qed

lemma second_client_served_from_cache_witness:
  "\<exists>w1 w2. worker_main junk0 4 w0 = Inr ((), w1) \<and> worker_main junk0 5 w1 = Inr ((), w2) \<and>
    os_out (w_os w2) 4 = ''hello'' @ [NUL] \<and> os_out (w_os w2) 5 = ''hello'' @ [NUL] \<and>
    os_fresh_fd (w_os w2) = os_fresh_fd (w_os w1)"
proof -
  have "if copy_terminated (w_cache w0) (relay ''hello'')
    then \<exists>w1 w2. worker_main junk0 4 w0 = Inr ((), w1) \<and> worker_main junk0 5 w1 = Inr ((), w2) \<and>
      os_out (w_os w2) 4 = os_out (w_os w0) 4 @ relay ''hello'' \<and>
      os_out (w_os w2) 5 = os_out (w_os w0) 5 @ relay ''hello'' \<and>
      (\<forall>d. d \<noteq> 5 \<longrightarrow> os_out (w_os w2) d = os_out (w_os w1) d \<and> os_in (w_os w2) d = os_in (w_os w1) d) \<and>
      os_open (w_os w2) = os_open (w_os w1) \<and> os_fresh_fd (w_os w2) = os_fresh_fd (w_os w1) \<and>
      cache_valid (w_cache w2)
    else worker_main junk0 4 w0 = Inl Overread"
    by (rule second_client_served_from_cache [of w0 4 "''h''" "''80''" "''/''" 5 "''hello''" junk0 junk0])
      (use requests_sample server0 cache0_ok find_cache0 hello_size hello_text in \<open>simp_all add: INT_MAX_def\<close>)
  then show ?thesis unfolding if_P [OF hello_text(2)] by (force simp: relay_hello)
qed

text \<open>C2. A miss whose response is text, with a NUL at most as its last byte.  The worker connects to the
  server on a new descriptor, sends it the request, relays every byte of the response to the client,
  and stores what it sent as the most recent entry, evicting the oldest ones while the payloads exceed
  the limit.  Other descriptors are left alone; the new descriptor is still open at the end.
  This is so when the copy that is stored holds a NUL: the last byte of the response, or one that
  \<open>malloc\<close> left behind the bytes that \<open>new_node\<close> copies.  A response that ends in a newline is copied
  without a NUL, and when \<open>malloc\<close> left none either, the transaction ends by reading behind the block.\<close>

theorem miss_relays_and_stores:
  assumes "requests (w_os w) connfd h po pa" "fds_ok (w_os w)"
    and "server_sends (w_os w) h po resp"
    and "cache_valid (w_cache w)" "lru_find (entry_match h po pa) (contents (w_cache w)) = None"
    and "text_response (relay resp)" "length (relay resp) < MAX_OBJECT_SIZE"
    and "int (length (contents (w_cache w))) < INT_MAX"
  shows "if copy_terminated (w_cache w) (relay resp)
    then \<exists>w' fd blk. worker_main junk connfd w = Inr ((), w') \<and>
      os_out (w_os w') connfd = os_out (w_os w) connfd @ relay resp \<and>
      os_out (w_os w') fd = os_out (w_os w) fd @ request_text h pa \<and>
      fd \<notin> os_open (w_os w) \<and> os_open (w_os w') = insert fd (os_open (w_os w)) \<and>
      (\<forall>d. d \<noteq> connfd \<and> d \<noteq> fd \<longrightarrow> os_out (w_os w') d = os_out (w_os w) d \<and>
         os_in (w_os w') d = os_in (w_os w) d) \<and>
      cache_valid (w_cache w') \<and> take (length (relay resp)) blk = relay resp \<and>
      contents (w_cache w') = lru_evict (contents (w_cache w) @ [(h, po, pa, blk, length (relay resp))])
    else worker_main junk connfd w = Inl Overread"
proof -
  note st = text_response_payload [OF assms(6-8)]
  show ?thesis
  proof (cases "copy_terminated (w_cache w) (relay resp)")
    case True
    then have "storable (w_cache w) (response_block (relay resp)) (length (relay resp))"
      using st by (simp add: storable_def)
    from worker_miss [OF assms(1-5) refl assms(7) this, of junk] show ?thesis unfolding if_P [OF True] by blast
  next
    case False
    with st worker_miss_overread [OF assms(1-5) refl assms(7)] show ?thesis by simp
  qed
qed

lemma miss_relays_and_stores_witness:
  "(\<exists>w' fd blk. worker_main junk0 4 w0 = Inr ((), w') \<and> os_out (w_os w') 4 = ''hello'' @ [NUL] \<and>
    os_out (w_os w') fd = request_text ''h'' ''/'' \<and> os_open (w_os w') = {fd, 3, 4, 5} \<and>
    contents (w_cache w') = [(''h'', ''80'', ''/'', blk, 6)]) \<and>
   worker_main junk0 4 \<lparr>w_os = os_with (req_line ''h'') [CHR ''o'', CHR ''k'', LF], w_cache = dirty_cache\<rparr> =
     Inl Overread"
proof -
  have "if copy_terminated (w_cache w0) (relay ''hello'')
    then \<exists>w' fd blk. worker_main junk0 4 w0 = Inr ((), w') \<and>
    os_out (w_os w') 4 = os_out (w_os w0) 4 @ relay ''hello'' \<and>
    os_out (w_os w') fd = os_out (w_os w0) fd @ request_text ''h'' ''/'' \<and>
    fd \<notin> os_open (w_os w0) \<and> os_open (w_os w') = insert fd (os_open (w_os w0)) \<and>
    (\<forall>d. d \<noteq> 4 \<and> d \<noteq> fd \<longrightarrow> os_out (w_os w') d = os_out (w_os w0) d \<and>
       os_in (w_os w') d = os_in (w_os w0) d) \<and>
    cache_valid (w_cache w') \<and> take (length (relay ''hello'')) blk = relay ''hello'' \<and>
    contents (w_cache w') =
      lru_evict (contents (w_cache w0) @ [(''h'', ''80'', ''/'', blk, length (relay ''hello''))])
    else worker_main junk0 4 w0 = Inl Overread"
    by (rule miss_relays_and_stores)
      (use requests_sample server0 cache0_ok find_cache0 hello_size hello_text in \<open>simp_all add: INT_MAX_def\<close>)
  note this [unfolded if_P [OF hello_text(2)] hello_size(1)]
  then obtain w' fd blk where w: "worker_main junk0 4 w0 = Inr ((), w')"
    "os_out (w_os w') 4 = ''hello'' @ [NUL]" "os_out (w_os w') fd = request_text ''h'' ''/''"
    "os_open (w_os w') = {fd, 3, 4, 5}" "cache_valid (w_cache w')"
    "take 6 blk = ''hello'' @ [NUL]"
    "contents (w_cache w') = lru_evict [(''h'', ''80'', ''/'', blk, 6)]"
    by (auto simp: relay_hello cache0_ok)
  have "cstr blk = cstr ((''hello'' @ [NUL]) @ drop 6 blk)"
    using append_take_drop_id [of 6 blk] w(6) by simp
  then have "length (cstr blk) = 5" by (simp add: cstr_Cons)
  with w have "\<exists>w' fd blk. worker_main junk0 4 w0 = Inr ((), w') \<and> os_out (w_os w') 4 = ''hello'' @ [NUL] \<and>
    os_out (w_os w') fd = request_text ''h'' ''/'' \<and> os_open (w_os w') = {fd, 3, 4, 5} \<and>
    contents (w_cache w') = [(''h'', ''80'', ''/'', blk, 6)]" by auto
  moreover let ?w = "\<lparr>w_os = os_with (req_line ''h'') [CHR ''o'', CHR ''k'', LF], w_cache = dirty_cache\<rparr>"
  have "requests (w_os ?w) 4 ''h'' ''80'' ''/''" "server_sends (w_os ?w) ''h'' ''80'' [CHR ''o'', CHR ''k'', LF]"
    by (simp_all add: requests_sample server0)
  from miss_relays_and_stores [OF this(1) _ this(2), of junk0] have "worker_main junk0 4 ?w = Inl Overread"
    by (simp add: dirty_cache_ok lru_find_def INT_MAX_def dirty_text)
  ultimately show ?thesis by blast
qed

text \<open>A hit.  The worker sends exactly the stored bytes to the client, opens and closes
  nothing, writes to no other descriptor, keeps the cache valid, and makes the entry the most
  recently used one.\<close>

theorem hit_answers_from_cache:
  assumes "requests (w_os w) connfd h po pa"
    and "cache_valid (w_cache w)"
    and "lru_find (entry_match h po pa) (contents (w_cache w)) = Some (h', po', pa', blk, n)"
    and "n \<le> MAX_OBJECT_SIZE"
  shows "\<exists>w'. worker_main junk connfd w = Inr ((), w') \<and>
    os_out (w_os w') connfd = os_out (w_os w) connfd @ take n blk \<and>
    os_open (w_os w') = os_open (w_os w) \<and>
    (\<forall>d. d \<noteq> connfd \<longrightarrow> os_out (w_os w') d = os_out (w_os w) d) \<and>
    cache_valid (w_cache w') \<and>
    contents (w_cache w') = lru_touch (entry_match h po pa) (contents (w_cache w))"
  using worker_hit [OF assms, of junk] by blast

lemma hit_answers_from_cache_witness:
  "\<exists>blk w'. worker_main junk0 4 (w0\<lparr>w_cache := hello_cache\<rparr>) = Inr ((), w') \<and>
    os_out (w_os w') 4 = take 6 blk \<and> os_open (w_os w') = {3, 4, 5} \<and> cache_valid (w_cache w')"
proof -
  obtain blk where f: "lru_find (entry_match ''h'' ''80'' ''/'') (contents hello_cache) =
     Some (''h'', ''80'', ''/'', blk, length (relay ''hello''))" using hello_cache_ok(2) by blast
  have "\<exists>w'. worker_main junk0 4 (w0\<lparr>w_cache := hello_cache\<rparr>) = Inr ((), w') \<and>
    os_out (w_os w') 4 = os_out (w_os (w0\<lparr>w_cache := hello_cache\<rparr>)) 4 @ take (length (relay ''hello'')) blk \<and>
    os_open (w_os w') = os_open (w_os (w0\<lparr>w_cache := hello_cache\<rparr>)) \<and>
    (\<forall>d. d \<noteq> 4 \<longrightarrow> os_out (w_os w') d = os_out (w_os (w0\<lparr>w_cache := hello_cache\<rparr>)) d) \<and>
    cache_valid (w_cache w') \<and>
    contents (w_cache w') = lru_touch (entry_match ''h'' ''80'' ''/'') (contents (w_cache (w0\<lparr>w_cache := hello_cache\<rparr>)))"
    by (rule hit_answers_from_cache [where h' = "''h''" and po' = "''80''" and pa' = "''/''"])
      (use requests_sample hello_cache_ok(1) f hello_size(2) in simp_all)
  then show ?thesis by (auto simp: hello_size(1))
qed

text \<open>C3. \<open>forward_response\<close> on a response that ends regularly: it terminates, returns the number
  of bytes it sent, sends them to the client and to nobody else whatever pieces the network cut
  them into, and leaves a copy in the zeroed payload buffer when they fit.\<close>

theorem response_relayed:
  assumes "forwardfd \<in> os_open s" "clean (os_in s forwardfd)"
    and "connfd \<in> os_open s" "draining (os_wr s connfd)"
    and "length (relay (tape (os_in s forwardfd))) < SIZE_MOD"
  shows "\<exists>payload s'. forward_response junk forwardfd connfd (replicate MAX_OBJECT_SIZE NUL) s =
      Inr ((length (relay (tape (os_in s forwardfd))), payload), s') \<and>
    relays forwardfd connfd (relay (tape (os_in s forwardfd))) s s' \<and>
    (length (relay (tape (os_in s forwardfd))) \<le> MAX_OBJECT_SIZE \<longrightarrow>
       payload = response_block (relay (tape (os_in s forwardfd))))"
  using forward_response_ok [OF assms, of junk] by (simp add: response_block_def)

lemma response_relayed_witness:
  "\<exists>payload s'. forward_response junk0 3 4 (replicate MAX_OBJECT_SIZE NUL) relay_os = Inr ((4, payload), s') \<and>
    os_out s' 4 = [CHR ''a'', LF, CHR ''b'', NUL]"
proof -
  obtain payload s' where r: "forward_response junk0 3 4 (replicate MAX_OBJECT_SIZE NUL) relay_os =
      Inr ((length (relay (tape (os_in relay_os 3))), payload), s')"
    "relays 3 4 (relay (tape (os_in relay_os 3))) relay_os s'"
    using response_relayed [of 3 relay_os 4 junk0] relay_os_relay relay_os_tape
    by (auto simp: SIZE_MOD_def)
  then show ?thesis using relays_fields(2) [OF r(2)] by (simp add: relay_os_relay relay_os_tape)
qed

text \<open>A response whose lines have at most 8190 characters is passed on unchanged when its last
  byte is a newline, and with one NUL byte appended when it is not.  The result counts that byte.\<close>

theorem short_lines_relayed_exactly:
  assumes "forwardfd \<in> os_open s" "clean (os_in s forwardfd)" "tape (os_in s forwardfd) = cs"
    and "connfd \<in> os_open s" "draining (os_wr s connfd)"
    and "short_lines cs" "length cs < 2 ^ 63"
  shows "\<exists>payload s'. forward_response junk forwardfd connfd (replicate MAX_OBJECT_SIZE NUL) s =
      Inr ((if cs = [] \<or> last cs = LF then length cs else length cs + 1, payload), s') \<and>
    os_out s' connfd = os_out s connfd @ (if cs = [] \<or> last cs = LF then cs else cs @ [NUL])"
proof -
  have r: "relay cs = (if cs = [] \<or> last cs = LF then cs else cs @ [NUL])"
    using relay_short_lines [OF assms(6)] by (auto simp: ends_line_def)
  have "length (relay cs) < SIZE_MOD" using assms(7) by (auto simp: r SIZE_MOD_def)
  from forward_response_ok [OF assms(1,2,4,5), of junk, unfolded assms(3), OF this] obtain payload s' where
    "forward_response junk forwardfd connfd (replicate MAX_OBJECT_SIZE NUL) s =
      Inr ((length (relay cs), payload), s')" "relays forwardfd connfd (relay cs) s s'" by blast
  with relays_fields(2) [OF this(2)] show ?thesis by (auto simp: r)
qed

lemma short_lines_relayed_exactly_witness:
  "\<exists>payload s'. forward_response junk0 3 4 (replicate MAX_OBJECT_SIZE NUL) relay_os = Inr ((4, payload), s') \<and>
    os_out s' 4 = [CHR ''a'', LF, CHR ''b'', NUL]"
proof -
  have "short_lines [CHR ''a'', LF, CHR ''b'']"
    unfolding short_lines_def
  proof (intro allI impI)
    fix a l b assume "[CHR ''a'', LF, CHR ''b''] = a @ l @ b \<and> LF \<notin> set l"
    then have "length [CHR ''a'', LF, CHR ''b''] = length (a @ l @ b)" by simp
    then show "length l \<le> 8190" by simp
  qed
  from short_lines_relayed_exactly [OF _ relay_os_tape(2,1) _ relay_os_tape(5) this, of junk0]
  have "\<exists>payload s'. forward_response junk0 3 4 (replicate MAX_OBJECT_SIZE NUL) relay_os =
      Inr ((Suc (Suc (Suc (Suc 0))), payload), s') \<and> os_out s' 4 = [CHR ''a'', LF, CHR ''b'', NUL]"
    by (simp add: relay_os_tape)
  then show ?thesis by (simp add: numeral_eq_Suc)
qed

section \<open>Inputs that take the proxy down\<close>

text \<open>C16. A server that cannot be reached takes the worker into a loop without use and without a regular
  end.  When the name resolves but no address accepts a connection, the unchecked descriptor \<open>-1\<close> makes
  every read of \<open>forward_response\<close> fail, and the result \<open>-1\<close> counts as \<open>2 ^ 64 - 1\<close> bytes.  The loop
  turns exactly \<open>2 ^ 64 - MAX_OBJECT_SIZE - 1\<close> times without sending anything, until the sum of the
  lengths has come down to the object limit; the next \<open>memcpy\<close> reads \<open>2 ^ 64 - 1\<close> bytes from the line
  buffer.  The second part gives the loop by its number of rounds: after \<open>k\<close> rounds it still runs as
  long as \<open>k\<close> is below that bound, for every descriptor that is not open.\<close>

theorem unreachable_server_hangs_worker:
  assumes "requests (w_os w) connfd h po pa" "fds_ok (w_os w)" "- 1 \<notin> os_open (w_os w)"
    and "net_gai (os_net (w_os w)) (Some h) po = Inr as" "\<not> reachable (os_net (w_os w)) as"
    and "cache_valid (w_cache w)" "lru_find (entry_match h po pa) (contents (w_cache w)) = None"
  shows "worker_main junk connfd w = Inl Overread \<and>
    (\<forall>fd s k payload. fd \<notin> os_open s \<longrightarrow>
      forward_loop k (local_nio junk ''forward_nio'' fd) (local_array junk ''forwardbuf2'' MAXLINE)
        connfd payload 0 0 s =
      (if k < 2 ^ 64 - MAX_OBJECT_SIZE then Inl No_fuel else Inl Overread))"
proof -
  have "SIZE_MOD = 2 ^ 64" by (simp add: SIZE_MOD_def)
  then show ?thesis using worker_unreachable [OF assms] forward_response_spins by simp
qed

lemma unreachable_server_hangs_worker_witness:
  "worker_main junk0 4 \<lparr>w_os = os_with (req_line ''down'') [], w_cache = cache0\<rparr> = Inl Overread \<and>
   forward_loop 1000000 (local_nio junk0 ''forward_nio'' (- 1)) (local_array junk0 ''forwardbuf2'' MAXLINE)
     4 (replicate MAX_OBJECT_SIZE NUL) 0 0 (os_with (req_line ''down'') []) = Inl No_fuel"
proof -
  let ?w = "\<lparr>w_os = os_with (req_line ''down'') [], w_cache = cache0\<rparr>"
  have "requests (w_os ?w) 4 ''down'' ''80'' ''/''" by (simp add: requests_sample)
  then have "worker_main junk0 4 ?w = Inl Overread \<and>
    (\<forall>fd s k payload. fd \<notin> os_open s \<longrightarrow>
      forward_loop k (local_nio junk0 ''forward_nio'' fd) (local_array junk0 ''forwardbuf2'' MAXLINE)
        4 payload 0 0 s = (if k < 2 ^ 64 - MAX_OBJECT_SIZE then Inl No_fuel else Inl Overread))"
    by (intro unreachable_server_hangs_worker [where h = "''down''" and po = "''80''" and pa = "''/''" and as = "[7]"])
      (simp_all add: cache0_ok lru_find_def net0_def reachable_def)
  moreover have "(1000000 :: nat) < 2 ^ 64 - MAX_OBJECT_SIZE" by (simp add: MAX_OBJECT_SIZE_def)
  ultimately show ?thesis by simp
qed

text \<open>A name that cannot be resolved ends the whole proxy: one request for an unknown host makes
  \<open>open_clientfd\<close> call \<open>exit(1)\<close> inside the worker.\<close>

theorem unresolved_host_exits_proxy:
  assumes "requests (w_os w) connfd h po pa"
    and "net_gai (os_net (w_os w)) (Some h) po = Inl rc"
    and "cache_valid (w_cache w)" "lru_find (entry_match h po pa) (contents (w_cache w)) = None"
  shows "worker_main junk connfd w = Inl (Exit 1)"
  using assms by (rule worker_unresolved)

lemma unresolved_host_exits_proxy_witness:
  "worker_main junk0 4 \<lparr>w_os = os_with (req_line ''nowhere'') [], w_cache = cache0\<rparr> = Inl (Exit 1)"
proof -
  have "requests (os_with (req_line ''nowhere'') []) 4 ''nowhere'' ''80'' ''/''"
    by (rule requests_sample) simp_all
  then show ?thesis
    by (intro unresolved_host_exits_proxy [where h = "''nowhere''" and po = "''80''" and pa = "''/''" and rc = 1])
      (simp_all add: cache0_ok lru_find_def net0_def)
qed

text \<open>C17. A response that is not text corrupts memory.  \<open>new_node\<close> sizes its block with \<open>strlen\<close> and
  copies the number of bytes received, so a response below the object limit with a NUL before its
  last byte is written behind the block.\<close>

theorem binary_response_overflows_heap:
  assumes "requests (w_os w) connfd h po pa" "fds_ok (w_os w)"
    and "server_sends (w_os w) h po resp"
    and "cache_valid (w_cache w)" "lru_find (entry_match h po pa) (contents (w_cache w)) = None"
    and "length (cstr resp) + 1 < length resp"
    and "length (relay resp) < MAX_OBJECT_SIZE"
  shows "worker_main junk connfd w = Inl Overflow"
  using assms by (rule worker_binary_overflow)

lemma binary_response_overflows_heap_witness:
  "worker_main junk0 4 \<lparr>w_os = os_with (req_line ''h'') [CHR ''a'', NUL, LF], w_cache = cache0\<rparr> = Inl Overflow"
proof -
  let ?w = "\<lparr>w_os = os_with (req_line ''h'') [CHR ''a'', NUL, LF], w_cache = cache0\<rparr>"
  have r: "requests (w_os ?w) 4 ''h'' ''80'' ''/''" by (simp add: requests_sample)
  have "relay [CHR ''a'', NUL, LF] = [CHR ''a'', NUL, LF]"
    by (subst relay.simps) (simp add: ends_line_def)
  then have l: "length (relay [CHR ''a'', NUL, LF]) < MAX_OBJECT_SIZE" by (simp add: MAX_OBJECT_SIZE_def)
  have c: "cache_valid (w_cache ?w)" "lru_find (entry_match ''h'' ''80'' ''/'') (contents (w_cache ?w)) = None"
    by (simp_all add: cache0_ok lru_find_def)
  have s: "server_sends (w_os ?w) ''h'' ''80'' [CHR ''a'', NUL, LF]" by (simp add: server0)
  show ?thesis
    by (rule binary_response_overflows_heap [OF r _ s c _ l]) (simp_all add: cstr_Cons)
qed

text \<open>A first line without three words: up to 7900 characters it is answered with the page 400 and
  the transaction ends with the cache untouched; from 8000 characters on, the error page that
  quotes it overflows its array on the stack.\<close>

theorem malformed_line_page_or_overflow:
  assumes "connfd \<in> os_open (w_os w)" "clean (os_in (w_os w) connfd)" "draining (os_wr (w_os w) connfd)"
    and "appends (w_os w)"
    and "l = get_line 8191 (tape (os_in (w_os w) connfd))" "l \<noteq> []" "NUL \<notin> set l"
    and "length (scan_words 3 l) < 3"
  shows "(length l \<le> 7900 \<longrightarrow> (\<exists>s'. worker_main junk connfd w = Inr ((), w\<lparr>w_os := s'\<rparr>) \<and>
      os_out s' connfd = os_out (w_os w) connfd @ failure_page l ''400'' ''Bad request'' format_hint)) \<and>
    (8000 \<le> length l \<longrightarrow> worker_main junk connfd w = Inl Overflow)"
  using worker_malformed [OF assms(1-8)] worker_smash [OF assms(1,2,4,5,7,8)] by blast

lemma malformed_line_page_or_overflow_witness:
  "worker_main junk0 4 \<lparr>w_os = os_with (word_line 8000) [], w_cache = cache0\<rparr> = Inl Overflow"
proof -
  let ?w = "\<lparr>w_os = os_with (word_line 8000) [], w_cache = cache0\<rparr>"
  have "(0::nat) < 8000" by simp
  note l = word_line_ok [OF this]
  have t: "word_line 8000 = get_line 8191 (tape (os_in (w_os ?w) 4))" using l(4) by simp
  have ne: "word_line 8000 \<noteq> []"
  proof
    assume "word_line 8000 = []"
    with l(2) show False by simp
  qed
  have fd: "4 \<in> os_open (w_os ?w)" "clean (os_in (w_os ?w) 4)" "draining (os_wr (w_os ?w) 4)" "appends (w_os ?w)" by (simp_all add: ne)
  have w: "length (scan_words 3 (word_line 8000)) < 3" unfolding l(1) by simp
  show ?thesis
    by (rule malformed_line_page_or_overflow [OF fd t ne l(3) w, THEN conjunct2, rule_format]) (simp add: l(2))
qed

section \<open>The process\<close>

text \<open>The start: with one argument and a port that resolves, \<open>main\<close> sets up a valid empty cache,
  an empty queue of 64 slots in its invariant and 8 workers before it listens.\<close>

theorem main_establishes_invariants:
  assumes "length argv = 2" "c_heap (w_cache (px_world p)) = Map.empty" "fds_ok (w_os (px_world p))"
    and "net_gai (os_net (w_os (px_world p))) None (argv ! 1) = Inr as"
  shows "\<exists>listenfd p'. proxy_init argv p = Inr (listenfd, p') \<and>
    cache_valid (w_cache (px_world p')) \<and> contents (w_cache (px_world p')) = [] \<and>
    sb_inv (px_queue p') \<and> sb_contents (px_queue p') = [] \<and> sb_n (px_queue p') = 64 \<and>
    length (px_workers p') = 8"
  using assms by (rule proxy_init_ok)

lemma main_establishes_invariants_witness:
  "\<exists>listenfd p'. proxy_init [''proxy'', ''8080''] p0 = Inr (listenfd, p') \<and>
    cache_valid (w_cache (px_world p')) \<and> sb_inv (px_queue p')"
  using main_establishes_invariants [of "[''proxy'', ''8080'']" p0 "[1]"]
  by (auto simp: p0_def blank_cache_def net0_def)

text \<open>A round of a worker on a miss: it takes the oldest connection out of the queue, serves it and
  closes it, but the descriptor of the connection to the server stays open for good.  The number of
  open descriptors does not go down, so a proxy that serves misses runs out of them.\<close>

theorem worker_round_leaks_descriptor:
  assumes "sb_inv (px_queue p)" "sb_contents (px_queue p) = c # cs"
    and "requests (w_os (px_world p)) c h po pa" "fds_ok (w_os (px_world p))"
      "finite (os_open (w_os (px_world p)))"
    and "server_sends (w_os (px_world p)) h po resp"
    and "cache_valid (w_cache (px_world p))"
      "lru_find (entry_match h po pa) (contents (w_cache (px_world p))) = None"
    and "length (relay resp) < MAX_OBJECT_SIZE"
      "storable (w_cache (px_world p)) (response_block (relay resp)) (length (relay resp))"
  shows "\<exists>p' fd. worker_round junk p = Inr ((), p') \<and> sb_contents (px_queue p') = cs \<and>
    fd \<notin> os_open (w_os (px_world p)) \<and>
    os_open (w_os (px_world p')) = insert fd (os_open (w_os (px_world p)) - {c})"
proof -
  from worker_miss [OF assms(3,4,6-8) refl assms(9,10), of junk] obtain w' fd where
    w: "worker_main junk c (px_world p) = Inr ((), w')" "fd \<notin> os_open (w_os (px_world p))"
      "os_open (w_os w') = insert fd (os_open (w_os (px_world p)))" by blast
  have "c \<in> os_open (w_os (px_world p))" using assms(3) by (simp add: requests_def)
  with w(2) have "fd \<noteq> c" by blast
  with worker_round_ok [OF assms(1,2) w(1)] w(2,3) show ?thesis by (metis insert_Diff_if singletonD)
qed

lemma worker_round_leaks_descriptor_witness:
  "\<exists>p' fd. worker_round junk0 p1 = Inr ((), p') \<and> sb_contents (px_queue p') = [] \<and>
    os_open (w_os (px_world p')) = {fd, 3, 5}"
proof -
  have "sb_inv (px_queue p1)" "sb_contents (px_queue p1) = [4]" by (simp_all add: p1_def ring_ok)
  moreover have "px_world p1 = w0" by (simp add: p1_def)
  ultimately have "\<exists>p' fd. worker_round junk0 p1 = Inr ((), p') \<and> sb_contents (px_queue p') = [] \<and>
    fd \<notin> os_open (w_os (px_world p1)) \<and>
    os_open (w_os (px_world p')) = insert fd (os_open (w_os (px_world p1)) - {4})"
    by (intro worker_round_leaks_descriptor [where h = "''h''" and po = "''80''" and pa = "''/''" and resp = "''hello''"])
      (use requests_sample server0 cache0_ok find_cache0 hello_size storable_hello in simp_all)
  moreover have "{3, 4, 5} - {4} = {3, 5::int}" by auto
  ultimately show ?thesis by (auto simp: p1_def)
qed

text \<open>After \<open>SIGTERM\<close> the process goes on with a freed cache: the handler destroys the cache and
  returns, and the next valid request that a worker takes reads freed memory.\<close>

theorem request_after_sigterm:
  assumes "cache_valid (w_cache (px_world p))"
    and "requests (w_os (px_world p)) c h po pa"
  shows "\<exists>p'. sigterm_handler p = Inr ((), p') \<and> c_heap (w_cache (px_world p')) = Map.empty \<and>
    worker_main junk c (px_world p') = Inl Use_after_free"
  using assms by (rule sigterm_then_request)

lemma request_after_sigterm_witness:
  "\<exists>p'. sigterm_handler p1 = Inr ((), p') \<and> worker_main junk0 4 (px_world p') = Inl Use_after_free"
  using request_after_sigterm [of p1 4 "''h''" "''80''" "''/''" junk0]
  by (auto simp: p1_def cache0_ok requests_sample)

end
